(* ===== verification/Prelude.thy ===== *)
theory Prelude
  imports Main "HOL-Library.Word" "HOL-Library.Char_ord" "HOL-Library.List_Lexorder"
begin

text \<open>
  Shared vocabulary of the development: Go errors and fallible results, 64-bit integers,
  byte strings, and the generic facts on lists, maps and association lists that the component
  theories use. The collection \<open>result_simps\<close> holds the rewrite rules of the result type,
  \<open>wire_simps\<close> those of the wire formats (JSON members, base64), and \<open>ledger_simps\<close> the
  frame rules of the receipt ledger.
\<close>

named_theorems result_simps
named_theorems wire_simps
named_theorems ledger_simps

section \<open>Errors and results\<close>

text \<open>
  A Go function that returns \<open>(T, error)\<close> becomes a function into \<open>'a result\<close>. An error carries
  the package sentinel it wraps (the value callers compare with \<open>errors.Is\<close>) and its message.
\<close>

datatype sentinel =
    NoSentinel
  | ErrMalformedEnvelope
  | ErrNoTrustedSignature
  | ErrTaskPermitInvalid
  | ErrSchedulePermitInvalid
  | ErrActionPermitInvalid
  | ErrInteractionPermitInvalid
  | ErrInfluenceInvalid
  | ErrInferenceQuotaExceeded
  | ErrInferenceScopeDenied
  | ErrTenantQuotaExceeded
  | ErrTenantUnbudgeted
  | ErrTenantIdentityCapacity
  | ErrRunIDConflict
  | ErrPortableTaskEvidenceIncomplete

datatype goerror = GoErr (sentinel_of: sentinel) (message_of: string)

type_synonym 'a result = "goerror + 'a"

abbreviation Ok :: "'a \<Rightarrow> 'a result" where "Ok \<equiv> Inr"

definition errorf :: "string \<Rightarrow> 'a result" where
  "errorf m = Inl (GoErr NoSentinel m)"

definition wrap_err :: "sentinel \<Rightarrow> string \<Rightarrow> 'a result" where
  "wrap_err s m = Inl (GoErr s m)"

fun is_ok :: "'a result \<Rightarrow> bool" where
  "is_ok (Inl _) = False"
| "is_ok (Inr _) = True"

fun and_then :: "'a result \<Rightarrow> ('a \<Rightarrow> 'b result) \<Rightarrow> 'b result" where
  "and_then (Inl e) f = Inl e"
| "and_then (Inr x) f = f x"

definition check :: "bool \<Rightarrow> goerror \<Rightarrow> 'a result \<Rightarrow> 'a result" where
  "check bad e k = (if bad then Inl e else k)"

lemma errorf_not_Inr [simp, result_simps]: "errorf m \<noteq> Inr x" "Inr x \<noteq> errorf m"
  by (simp_all add: errorf_def)

lemma wrap_err_not_Inr [simp, result_simps]: "wrap_err s m \<noteq> Inr x" "Inr x \<noteq> wrap_err s m"
  by (simp_all add: wrap_err_def)

lemma is_ok_errorf [simp]: "\<not> is_ok (errorf m)" "\<not> is_ok (wrap_err s m)"
  by (simp_all add: errorf_def wrap_err_def)

lemma is_ok_iff: "is_ok r \<longleftrightarrow> (\<exists>x. r = Inr x)"
  by (cases r) auto

lemma and_then_Inr_iff [result_simps]:
  "and_then r f = Inr y \<longleftrightarrow> (\<exists>x. r = Inr x \<and> f x = Inr y)"
  by (cases r) auto

lemma check_Inr_iff [result_simps]: "check bad e k = Inr y \<longleftrightarrow> \<not> bad \<and> k = Inr y"
  by (simp add: check_def)

lemma and_then_errorf [simp]: "and_then (errorf m) f = errorf m" "and_then (wrap_err s m) f = wrap_err s m"
  by (simp_all add: errorf_def wrap_err_def)

section \<open>Machine integers\<close>

type_synonym u64 = "64 word"

text \<open>Go's \<open>int64\<close> arithmetic is kept on \<open>int\<close> with the two's-complement wrap-around written out.\<close>

definition wrap64 :: "int \<Rightarrow> int" where
  "wrap64 x = (x + 2 ^ 63) mod 2 ^ 64 - 2 ^ 63"

definition max_int64 :: int where "max_int64 = 2 ^ 63 - 1"

definition min_int64 :: int where "min_int64 = - (2 ^ 63)"

lemma wrap64_id: "min_int64 \<le> x \<Longrightarrow> x \<le> max_int64 \<Longrightarrow> wrap64 x = x"
  by (simp add: wrap64_def min_int64_def max_int64_def)

lemma wrap64_range: "min_int64 \<le> wrap64 x \<and> wrap64 x \<le> max_int64"
proof -
  have "0 \<le> (x + 2 ^ 63) mod 2 ^ 64" "(x + 2 ^ 63) mod 2 ^ 64 < (2::int) ^ 64"
    by simp_all
  then show ?thesis by (simp add: wrap64_def min_int64_def max_int64_def)
qed

section \<open>Byte strings\<close>

text \<open>Go strings and byte slices are lists of 8-bit characters.\<close>

type_synonym bytes = string

definition byte :: "char \<Rightarrow> nat" where
  "byte c = of_char c"

definition chr :: "nat \<Rightarrow> char" where
  "chr n = char_of n"

lemma byte_less [simp]: "byte c < 256"
  by (simp add: byte_def)

lemma byte_le [simp]: "byte c \<le> 255"
  using byte_less [of c] by linarith

lemma chr_byte [simp]: "chr (byte c) = c"
  by (simp add: chr_def byte_def)

lemma byte_literal [simp]:
  "byte (Char b0 b1 b2 b3 b4 b5 b6 b7) = of_char (Char b0 b1 b2 b3 b4 b5 b6 b7)"
  by (simp add: byte_def)

lemma byte_chr: "byte (chr n) = n mod 256"
  by (simp add: chr_def byte_def)

lemma byte_chr_less [simp]: "n < 256 \<Longrightarrow> byte (chr n) = n"
  by (simp add: byte_chr)

lemma byte_eq_iff: "byte c = byte d \<longleftrightarrow> c = d"
  by (metis chr_byte)

section \<open>Lists and association lists\<close>

lemma map_of_append_notin: "k \<notin> set (map fst xs) \<Longrightarrow> map_of (xs @ ys) k = map_of ys k"
  by (simp add: map_add_dom_app_simps(3) dom_map_of_conv_image_fst)

lemma map_of_notin_None: "k \<notin> fst ` set xs \<Longrightarrow> map_of xs k = None"
  by (simp add: map_of_eq_None_iff)

lemma take_append_length [simp]: "take (length xs) (xs @ ys) = xs"
  by simp

lemma sum_list_le_elem: "x \<in> set xs \<Longrightarrow> (x::nat) \<le> sum_list xs"
  by (induction xs) auto

end
