(* ===== verification/Go_Text.thy ===== *)
theory Go_Text
  imports Prelude
begin

text \<open>
  The parts of Go's \<open>unicode/utf8\<close>, \<open>strings\<close>, \<open>strconv\<close> and \<open>encoding/hex\<close> that the modelled
  packages call, on byte strings: UTF-8 decoding and validity, Unicode white space,
  \<open>TrimSpace\<close>, prefixes, hexadecimal digits, decimal printing and comma splitting.
\<close>

section \<open>UTF-8\<close>

definition cont :: "nat \<Rightarrow> nat \<Rightarrow> char \<Rightarrow> bool" where
  "cont lo hi c \<longleftrightarrow> lo \<le> byte c \<and> byte c \<le> hi"

text \<open>
  \<open>decode_rune s\<close> is \<open>Some (r, n)\<close> when \<open>s\<close> starts with the shortest-form UTF-8 encoding of the
  scalar value \<open>r\<close> in \<open>n\<close> bytes (the accept ranges of \<open>utf8.DecodeRune\<close>), and \<open>None\<close> where Go
  returns \<open>RuneError\<close> with width at most 1.
\<close>

fun decode_rune :: "bytes \<Rightarrow> (nat \<times> nat) option" where
  "decode_rune [] = None"
| "decode_rune (a # s) =
     (let x = byte a in
      if x < 128 then Some (x, 1)
      else if x < 194 then None
      else if x < 224 then
        (case s of b # _ \<Rightarrow>
           if cont 128 191 b then Some ((x - 192) * 64 + (byte b - 128), 2) else None
         | _ \<Rightarrow> None)
      else if x < 240 then
        (case s of b # c # _ \<Rightarrow>
           if cont (if x = 224 then 160 else 128) (if x = 237 then 159 else 191) b \<and> cont 128 191 c
           then Some ((x - 224) * 4096 + (byte b - 128) * 64 + (byte c - 128), 3) else None
         | _ \<Rightarrow> None)
      else if x < 245 then
        (case s of b # c # d # _ \<Rightarrow>
           if cont (if x = 240 then 144 else 128) (if x = 244 then 143 else 191) b \<and>
              cont 128 191 c \<and> cont 128 191 d
           then Some ((x - 240) * 262144 + (byte b - 128) * 4096 + (byte c - 128) * 64 + (byte d - 128), 4)
           else None
         | _ \<Rightarrow> None)
      else None)"

lemma decode_rune_bounds:
  "decode_rune s = Some (r, n) \<Longrightarrow> 1 \<le> n \<and> n \<le> 4 \<and> n \<le> length s"
  by (cases s) (auto simp: Let_def split: if_splits list.splits)

declare decode_rune.simps(2) [simp del]

lemma decode_rune_ascii [simp]: "byte c < 128 \<Longrightarrow> decode_rune (c # s) = Some (byte c, 1)"
  by (simp add: decode_rune.simps(2))

lemma decode_rune_small:
  "decode_rune s = Some (r, n) \<Longrightarrow> r < 128 \<longleftrightarrow> n = 1"
  "decode_rune s = Some (r, n) \<Longrightarrow> r < 128 \<Longrightarrow> s \<noteq> [] \<and> r = byte (hd s)"
  by (cases s; auto simp: decode_rune.simps(2) Let_def cont_def split: if_splits list.splits)+

text \<open>Decoding looks at the bytes of the encoding only.\<close>

lemma decode_rune_append:
  assumes "decode_rune s = Some (r, n)"
  shows "decode_rune (take n s @ t) = Some (r, n)"
  using assms
  by (cases s) (auto simp: decode_rune.simps(2) Let_def split: if_splits list.splits)

function valid_utf8 :: "bytes \<Rightarrow> bool" where
  "valid_utf8 s =
     (if s = [] then True
      else (case decode_rune s of None \<Rightarrow> False | Some (r, n) \<Rightarrow> valid_utf8 (drop n s)))"
  by pat_completeness auto
termination
  by (relation "measure length") (auto dest: decode_rune_bounds)

declare valid_utf8.simps [simp del]

lemma valid_utf8_Nil [simp]: "valid_utf8 []"
  by (simp add: valid_utf8.simps)

lemma valid_utf8_ascii_Cons: "byte c < 128 \<Longrightarrow> valid_utf8 (c # s) = valid_utf8 s"
  by (subst valid_utf8.simps) simp

lemma valid_utf8_ascii: "\<forall>c \<in> set s. byte c < 128 \<Longrightarrow> valid_utf8 s"
  by (induction s) (auto simp: valid_utf8_ascii_Cons)

lemma valid_utf8_decode:
  "valid_utf8 s \<Longrightarrow> s \<noteq> [] \<Longrightarrow> \<exists>r n. decode_rune s = Some (r, n) \<and> valid_utf8 (drop n s)"
  by (subst (asm) valid_utf8.simps) (auto split: option.splits)

text \<open>\<open>unicode.IsSpace\<close>: the code points with the property White\_Space.\<close>

definition is_space :: "nat \<Rightarrow> bool" where
  "is_space r \<longleftrightarrow> 9 \<le> r \<and> r \<le> 13 \<or> r = 32 \<or> r = 133 \<or> r = 160 \<or> r = 5760 \<or>
     8192 \<le> r \<and> r \<le> 8202 \<or> r = 8232 \<or> r = 8233 \<or> r = 8239 \<or> r = 8287 \<or> r = 12288"

text \<open>
  The runes a \<open>range\<close> loop over a string visits, each with its encoding: an invalid byte
  is the replacement character U+FFFD (65533) of width 1.
\<close>

function runes :: "bytes \<Rightarrow> (nat \<times> bytes) list" where
  "runes s =
     (if s = [] then []
      else (case decode_rune s of
              None \<Rightarrow> (65533, take 1 s) # runes (drop 1 s)
            | Some (r, n) \<Rightarrow> (r, take n s) # runes (drop n s)))"
  by pat_completeness auto
termination
  by (relation "measure length") (auto dest: decode_rune_bounds)

declare runes.simps [simp del]

definition trim_space :: "bytes \<Rightarrow> bytes" where
  "trim_space s =
     concat (map snd (rev (dropWhile (is_space \<circ> fst) (rev (dropWhile (is_space \<circ> fst) (runes s))))))"

definition contains_nul :: "bytes \<Rightarrow> bool" where
  "contains_nul s \<longleftrightarrow> CHR 0x00 \<in> set s"

lemma runes_Nil [simp]: "runes [] = []"
  by (simp add: runes.simps)

lemma runes_ascii_Cons: "byte c < 128 \<Longrightarrow> runes (c # s) = (byte c, [c]) # runes s"
  by (subst runes.simps) simp

lemma runes_ascii: "\<forall>c \<in> set s. byte c < 128 \<Longrightarrow> runes s = map (\<lambda>c. (byte c, [c])) s"
  by (induction s) (auto simp: runes_ascii_Cons)

text \<open>On strings of printable ASCII without spaces, trimming is the identity.\<close>

lemma trim_space_ascii:
  assumes "\<forall>c \<in> set s. 32 < byte c \<and> byte c < 127"
  shows "trim_space s = s"
proof -
  have r: "runes s = map (\<lambda>c. (byte c, [c])) s"
    using assms by (intro runes_ascii) auto
  have no: "\<forall>x \<in> set (runes s). \<not> (is_space \<circ> fst) x"
    using assms by (auto simp: r is_space_def)
  then have "dropWhile (is_space \<circ> fst) (runes s) = runes s"
    "dropWhile (is_space \<circ> fst) (rev (runes s)) = rev (runes s)"
    by (auto simp: dropWhile_eq_self_iff hd_rev)
  moreover have "concat (map snd (runes s)) = s"
    by (simp add: r o_def)
  ultimately show ?thesis by (simp add: trim_space_def)
qed

section \<open>Characters, prefixes, hexadecimal\<close>

definition is_digit :: "char \<Rightarrow> bool" where
  "is_digit c \<longleftrightarrow> 48 \<le> byte c \<and> byte c \<le> 57"

definition is_upper :: "char \<Rightarrow> bool" where
  "is_upper c \<longleftrightarrow> 65 \<le> byte c \<and> byte c \<le> 90"

definition is_lower :: "char \<Rightarrow> bool" where
  "is_lower c \<longleftrightarrow> 97 \<le> byte c \<and> byte c \<le> 122"

definition is_lower_hex :: "char \<Rightarrow> bool" where
  "is_lower_hex c \<longleftrightarrow> is_digit c \<or> 97 \<le> byte c \<and> byte c \<le> 102"

definition has_prefix :: "bytes \<Rightarrow> bytes \<Rightarrow> bool" where
  "has_prefix s p \<longleftrightarrow> take (length p) s = p"

definition trim_prefix :: "bytes \<Rightarrow> bytes \<Rightarrow> bytes" where
  "trim_prefix s p = (if has_prefix s p then drop (length p) s else s)"

definition hex_digit :: "nat \<Rightarrow> char" where
  "hex_digit n = (if n < 10 then chr (48 + n) else chr (87 + n))"

definition from_hex_char :: "char \<Rightarrow> nat option" where
  "from_hex_char c =
     (if is_digit c then Some (byte c - 48)
      else if 97 \<le> byte c \<and> byte c \<le> 102 then Some (byte c - 87)
      else if 65 \<le> byte c \<and> byte c \<le> 70 then Some (byte c - 55)
      else None)"

fun hex_encode :: "bytes \<Rightarrow> bytes" where
  "hex_encode [] = []"
| "hex_encode (c # s) = hex_digit (byte c div 16) # hex_digit (byte c mod 16) # hex_encode s"

fun hex_decode :: "bytes \<Rightarrow> bytes option" where
  "hex_decode [] = Some []"
| "hex_decode [c] = None"
| "hex_decode (a # b # s) =
     (case (from_hex_char a, from_hex_char b) of
        (Some x, Some y) \<Rightarrow> map_option ((#) (chr (16 * x + y))) (hex_decode s)
      | _ \<Rightarrow> None)"

lemma from_hex_digit [simp]: "n < 16 \<Longrightarrow> from_hex_char (hex_digit n) = Some n"
  by (auto simp: from_hex_char_def hex_digit_def is_digit_def)

lemma is_lower_hex_digit [simp]: "n < 16 \<Longrightarrow> is_lower_hex (hex_digit n)"
  by (auto simp: is_lower_hex_def hex_digit_def is_digit_def)

lemma from_hex_less: "from_hex_char c = Some n \<Longrightarrow> n < 16"
  by (auto simp: from_hex_char_def is_digit_def split: if_splits)

lemma hex_digit_from_lower: "from_hex_char c = Some n \<Longrightarrow> (hex_digit n = c) = is_lower_hex c"
  by (auto simp: from_hex_char_def hex_digit_def is_digit_def is_lower_hex_def split: if_splits)
    (auto simp: byte_eq_iff [symmetric])

lemma is_lower_hex_from: "is_lower_hex c \<Longrightarrow> \<exists>n. from_hex_char c = Some n"
  by (auto simp: is_lower_hex_def from_hex_char_def)

lemma length_hex_encode [simp]: "length (hex_encode s) = 2 * length s"
  by (induction s) auto

lemma hex_encode_lower: "c \<in> set (hex_encode s) \<Longrightarrow> is_lower_hex c"
  by (induction s) (auto simp: less_mult_imp_div_less)

lemma hex_decode_encode [simp]: "hex_decode (hex_encode s) = Some s"
  by (induction s) (auto simp: less_mult_imp_div_less mult.commute)

lemma hex_encode_inj: "hex_encode s = hex_encode t \<Longrightarrow> s = t"
  by (metis hex_decode_encode option.inject)

lemma hex_reencode_iff:
  "(\<exists>d. hex_decode s = Some d \<and> hex_encode d = s) \<longleftrightarrow> even (length s) \<and> (\<forall>c \<in> set s. is_lower_hex c)"
proof (induction s rule: hex_decode.induct)
  case (3 a b s)
  show ?case
  proof (cases "from_hex_char a = None \<or> from_hex_char b = None")
    case True
    then have "\<not> (is_lower_hex a \<and> is_lower_hex b)"
      using is_lower_hex_from by fastforce
    with True show ?thesis by (auto split: option.splits)
  next
    case False
    then obtain x y where xy: "from_hex_char a = Some x" "from_hex_char b = Some y"
      by auto
    have enc: "hex_encode (chr (16 * x + y) # d) = a # b # s \<longleftrightarrow>
        is_lower_hex a \<and> is_lower_hex b \<and> hex_encode d = s" for d
      using from_hex_less [OF xy(1)] from_hex_less [OF xy(2)]
        hex_digit_from_lower [OF xy(1)] hex_digit_from_lower [OF xy(2)]
      by (simp add: byte_chr)
    have "(\<exists>d. hex_decode (a # b # s) = Some d \<and> hex_encode d = a # b # s) \<longleftrightarrow>
        is_lower_hex a \<and> is_lower_hex b \<and> (\<exists>d. hex_decode s = Some d \<and> hex_encode d = s)"
      using enc by (auto simp: xy simp del: hex_encode.simps)
    then show ?thesis using "3.IH" [OF refl xy] by auto
  qed
qed auto

section \<open>Decimal numbers\<close>

text \<open>\<open>strconv.Itoa\<close> and \<open>strconv.FormatUint\<close> on a non-negative number.\<close>

fun itoa :: "nat \<Rightarrow> bytes" where
  "itoa n = (if n < 10 then [chr (48 + n)] else itoa (n div 10) @ [chr (48 + n mod 10)])"

declare itoa.simps [simp del]

text \<open>\<open>strconv.ParseUint\<close> in base 10, before the range check.\<close>

fun atoi_acc :: "nat \<Rightarrow> bytes \<Rightarrow> nat option" where
  "atoi_acc n [] = Some n"
| "atoi_acc n (c # s) = (if is_digit c then atoi_acc (10 * n + (byte c - 48)) s else None)"

definition atoi :: "bytes \<Rightarrow> nat option" where
  "atoi s = (if s = [] then None else atoi_acc 0 s)"

lemma itoa_digits: "c \<in> set (itoa n) \<Longrightarrow> is_digit c"
proof (induction n rule: itoa.induct)
  case (1 n)
  then show ?case
    by (subst (asm) (2) itoa.simps) (auto simp: is_digit_def split: if_splits)
qed

lemma itoa_nonempty [simp]: "itoa n \<noteq> []"
  by (subst itoa.simps) simp

lemma atoi_acc_append:
  "atoi_acc m (s @ t) = (case atoi_acc m s of None \<Rightarrow> None | Some k \<Rightarrow> atoi_acc k t)"
  by (induction m s rule: atoi_acc.induct) auto

lemma atoi_acc_itoa: "atoi_acc 0 (itoa n) = Some n"
proof (induction n rule: itoa.induct)
  case (1 n)
  then show ?case
    by (subst itoa.simps) (auto simp: atoi_acc_append is_digit_def)
qed

lemma atoi_itoa [simp]: "atoi (itoa n) = Some n"
  by (simp add: atoi_def atoi_acc_itoa)

lemma itoa_inj: "itoa m = itoa n \<longleftrightarrow> m = n"
  by (metis atoi_itoa option.inject)

section \<open>Splitting\<close>

text \<open>\<open>strings.Split\<close> with a one-byte separator: never empty, \<open>n\<close> separators give \<open>n + 1\<close> pieces.\<close>

fun split_on :: "char \<Rightarrow> bytes \<Rightarrow> bytes list" where
  "split_on d [] = [[]]"
| "split_on d (c # s) =
     (if c = d then [] # split_on d s
      else (case split_on d s of [] \<Rightarrow> [[c]] | p # ps \<Rightarrow> (c # p) # ps))"

fun join_with :: "char \<Rightarrow> bytes list \<Rightarrow> bytes" where
  "join_with d [] = []"
| "join_with d [p] = p"
| "join_with d (p # q # ps) = p @ d # join_with d (q # ps)"

lemma split_on_nonempty [simp]: "split_on d s \<noteq> []"
  by (cases s) (auto split: list.splits)

lemma join_split [simp]: "join_with d (split_on d s) = s"
proof (induction s)
  case (Cons c s)
  then show ?case
    by (cases "split_on d s"; cases "tl (split_on d s)") auto
qed simp

section \<open>Big-endian numbers\<close>

text \<open>\<open>encoding/binary.BigEndian\<close>: a number in \<open>k\<close> bytes, most significant first, and back.\<close>

fun be_bytes :: "nat \<Rightarrow> nat \<Rightarrow> bytes" where
  "be_bytes 0 n = []"
| "be_bytes (Suc k) n = be_bytes k (n div 256) @ [chr (n mod 256)]"

definition be_nat :: "bytes \<Rightarrow> nat" where
  "be_nat bs = foldl (\<lambda>a c. a * 256 + byte c) 0 bs"

lemma length_be_bytes [simp]: "length (be_bytes k n) = k"
  by (induction k arbitrary: n) auto

lemma be_bytes_inj: "m < 256 ^ k \<Longrightarrow> n < 256 ^ k \<Longrightarrow> be_bytes k m = be_bytes k n \<Longrightarrow> m = n"
proof (induction k arbitrary: m n)
  case (Suc k)
  then have "be_bytes k (m div 256) = be_bytes k (n div 256)" "chr (m mod 256) = chr (n mod 256)" by simp_all
  then have "m div 256 = n div 256" "m mod 256 = n mod 256"
    using Suc by (auto intro: Suc.IH simp: div_less_iff_less_mult mult.commute) (metis byte_chr_less mod_less_divisor zero_less_numeral)
  then show ?case by (metis div_mod_decomp)
qed simp

lemma be_nat_snoc: "be_nat (bs @ [c]) = be_nat bs * 256 + byte c"
  by (simp add: be_nat_def)

lemma be_nat_be_bytes: "n < 256 ^ k \<Longrightarrow> be_nat (be_bytes k n) = n"
proof (induction k arbitrary: n)
  case (Suc k)
  then have "be_nat (be_bytes k (n div 256)) = n div 256" by (simp add: div_less_iff_less_mult mult.commute)
  then show ?case by (simp add: be_nat_snoc)
qed (simp add: be_nat_def)

lemma be_nat_less: "be_nat bs < 256 ^ length bs"
proof (induction bs rule: rev_induct)
  case (snoc c bs)
  have "be_nat bs * 256 + byte c < (be_nat bs + 1) * 256" using byte_less [of c] by simp
  also have "\<dots> \<le> 256 ^ length bs * 256" using snoc by (intro mult_right_mono) simp_all
  finally show ?case by (simp add: be_nat_snoc mult.commute)
qed (simp add: be_nat_def)

lemma be_bytes_be_nat: "length bs = k \<Longrightarrow> be_bytes k (be_nat bs) = bs"
proof (induction bs arbitrary: k rule: rev_induct)
  case (snoc c bs)
  then show ?case by (cases k) (simp_all add: be_nat_snoc)
qed simp

end
