(* ===== verification/Go_Json.thy ===== *)
theory Go_Json
  imports Go_Text
begin

text \<open>
  Go's \<open>encoding/json\<close> as far as the modelled packages use it: the compact printer of
  \<open>json.Marshal\<close> (HTML escaping on, invalid UTF-8 replaced), the scanner and string unquoting
  behind \<open>json.Decoder\<close>, and the fact that scanning a printed document gives the document back.
  The scanner takes fuel: every call consumes a byte or is followed by one that does, so a document
  of \<open>n\<close> bytes never needs more than \<open>2 * n + 2\<close> units (\<open>json_document\<close>).
\<close>

datatype json =
    JNull
  | JBool bool
  | JNum bytes
  | JStr bytes
  | JArr "json list"
  | JObj "(bytes \<times> json) list"

section \<open>Printing\<close>

definition u_escape :: "nat \<Rightarrow> bytes" where
  "u_escape n = [CHR 0x5C, CHR ''u'', hex_digit (n div 4096 mod 16), hex_digit (n div 256 mod 16),
     hex_digit (n div 16 mod 16), hex_digit (n mod 16)]"

definition short_escape :: "nat \<Rightarrow> char option" where
  "short_escape r =
     (if r = 34 then Some (CHR 0x22) else if r = 92 then Some (CHR 0x5C)
      else if r = 8 then Some (CHR ''b'') else if r = 12 then Some (CHR ''f'')
      else if r = 10 then Some (CHR ''n'') else if r = 13 then Some (CHR ''r'')
      else if r = 9 then Some (CHR ''t'') else None)"

definition escape_rune :: "nat \<times> bytes \<Rightarrow> bytes" where
  "escape_rune x = (case x of (r, e) \<Rightarrow>
     if r < 128 then
       (case short_escape r of
          Some c \<Rightarrow> [CHR 0x5C, c]
        | None \<Rightarrow> if r < 32 \<or> r = 60 \<or> r = 62 \<or> r = 38 then u_escape r else e)
     else if length e = 1 then u_escape 65533
     else if r = 8232 \<or> r = 8233 then u_escape r
     else e)"

definition json_quote :: "bytes \<Rightarrow> bytes" where
  "json_quote s = CHR 0x22 # concat (map escape_rune (runes s)) @ [CHR 0x22]"

fun json_print :: "json \<Rightarrow> bytes"
  and print_elems :: "json list \<Rightarrow> bytes"
  and print_members :: "(bytes \<times> json) list \<Rightarrow> bytes" where
  "json_print JNull = ''null''"
| "json_print (JBool b) = (if b then ''true'' else ''false'')"
| "json_print (JNum n) = n"
| "json_print (JStr s) = json_quote s"
| "json_print (JArr vs) = ''['' @ print_elems vs"
| "json_print (JObj ms) = ''{'' @ print_members ms"
| "print_elems [] = '']''"
| "print_elems [v] = json_print v @ '']''"
| "print_elems (v # w # vs) = json_print v @ '','' @ print_elems (w # vs)"
| "print_members [] = ''}''"
| "print_members [(k, v)] = json_quote k @ '':'' @ json_print v @ ''}''"
| "print_members ((k, v) # m # ms) = json_quote k @ '':'' @ json_print v @ '','' @ print_members (m # ms)"

section \<open>Scanning\<close>

definition skip_ws :: "bytes \<Rightarrow> bytes" where
  "skip_ws s = dropWhile (\<lambda>c. byte c = 32 \<or> byte c = 9 \<or> byte c = 10 \<or> byte c = 13) s"

definition encode_rune :: "nat \<Rightarrow> bytes" where
  "encode_rune r =
     (if r < 128 then [chr r]
      else if r < 2048 then [chr (192 + r div 64), chr (128 + r mod 64)]
      else if r < 65536 then [chr (224 + r div 4096), chr (128 + r div 64 mod 64), chr (128 + r mod 64)]
      else [chr (240 + r div 262144), chr (128 + r div 4096 mod 64), chr (128 + r div 64 mod 64), chr (128 + r mod 64)])"

text \<open>The value of a \<open>\u\<close> escape's four hexadecimal digits.\<close>

definition getu4 :: "bytes \<Rightarrow> nat option" where
  "getu4 s =
     (case s of a # b # c # d # _ \<Rightarrow>
        (case (from_hex_char a, from_hex_char b, from_hex_char c, from_hex_char d) of
           (Some w, Some x, Some y, Some z) \<Rightarrow> Some (w * 4096 + x * 256 + y * 16 + z)
         | _ \<Rightarrow> None)
      | _ \<Rightarrow> None)"

definition low_surrogate :: "bytes \<Rightarrow> nat option" where
  "low_surrogate s =
     (if take 2 s = [CHR 0x5C, CHR ''u''] then
        (case getu4 (drop 2 s) of
           Some r \<Rightarrow> if 56320 \<le> r \<and> r \<le> 57343 then Some r else None
         | None \<Rightarrow> None)
      else None)"

definition simple_escape :: "char \<Rightarrow> char option" where
  "simple_escape d =
     (if d = CHR 0x22 \<or> d = CHR 0x5C \<or> d = CHR ''/'' then Some d
      else if d = CHR ''b'' then Some (chr 8) else if d = CHR ''f'' then Some (chr 12)
      else if d = CHR ''n'' then Some (chr 10) else if d = CHR ''r'' then Some (chr 13)
      else if d = CHR ''t'' then Some (chr 9) else None)"

text \<open>
  One step of unquoting, after the opening quote: the bytes it contributes and how many source
  bytes it takes, or \<open>None\<close> for a syntax error.
\<close>

definition unquote_step :: "bytes \<Rightarrow> (bytes \<times> nat) option" where
  "unquote_step s =
     (case s of [] \<Rightarrow> None
      | c # t \<Rightarrow>
        if c = CHR 0x5C then
          (case t of [] \<Rightarrow> None
           | d # u \<Rightarrow>
             (case simple_escape d of
                Some x \<Rightarrow> Some ([x], 2)
              | None \<Rightarrow>
                if d = CHR ''u'' then
                  (case getu4 u of None \<Rightarrow> None
                   | Some r \<Rightarrow>
                     if 55296 \<le> r \<and> r \<le> 57343 then
                       (case low_surrogate (drop 4 u) of
                          Some l \<Rightarrow>
                            if r \<le> 56319
                            then Some (encode_rune ((r - 55296) * 1024 + (l - 56320) + 65536), 12)
                            else Some (encode_rune 65533, 6)
                        | None \<Rightarrow> Some (encode_rune 65533, 6))
                     else Some (encode_rune r, 6))
                else None))
        else if byte c < 32 then None
        else (case decode_rune s of
                Some (r, n) \<Rightarrow> Some (take n s, n)
              | None \<Rightarrow> Some (encode_rune 65533, 1)))"

lemma unquote_step_pos: "unquote_step s = Some (x, n) \<Longrightarrow> 0 < n \<and> s \<noteq> []"
  by (auto simp: unquote_step_def dest: decode_rune_bounds split: list.splits if_splits option.splits)

function json_unquote :: "bytes \<Rightarrow> (bytes \<times> bytes) option" where
  "json_unquote s =
     (if s \<noteq> [] \<and> hd s = CHR 0x22 then Some ([], tl s)
      else (case unquote_step s of None \<Rightarrow> None
            | Some (x, n) \<Rightarrow>
                (case json_unquote (drop n s) of None \<Rightarrow> None
                 | Some (y, r) \<Rightarrow> Some (x @ y, r))))"
  by pat_completeness auto
termination
  by (relation "measure length") (auto dest: unquote_step_pos)

declare json_unquote.simps [simp del]

definition scan_digits :: "bytes \<Rightarrow> (bytes \<times> bytes) option" where
  "scan_digits s =
     (let d = takeWhile is_digit s in if d = [] then None else Some (d, dropWhile is_digit s))"

definition scan_int :: "bytes \<Rightarrow> (bytes \<times> bytes) option" where
  "scan_int s =
     (case s of [] \<Rightarrow> None
      | c # t \<Rightarrow> if c = CHR ''0'' then Some ([c], t) else scan_digits s)"

definition scan_frac :: "bytes \<times> bytes \<Rightarrow> (bytes \<times> bytes) option" where
  "scan_frac x =
     (case x of (p, s) \<Rightarrow>
        if s \<noteq> [] \<and> hd s = CHR ''.'' then
          (case scan_digits (tl s) of None \<Rightarrow> None | Some (d, r) \<Rightarrow> Some (p @ ''.'' @ d, r))
        else Some x)"

definition scan_exp :: "bytes \<times> bytes \<Rightarrow> (bytes \<times> bytes) option" where
  "scan_exp x =
     (case x of (p, s) \<Rightarrow>
        if s \<noteq> [] \<and> (hd s = CHR ''e'' \<or> hd s = CHR ''E'') then
          (let t = tl s;
               sg = (if t \<noteq> [] \<and> (hd t = CHR ''+'' \<or> hd t = CHR ''-'') then [hd t] else [])
           in case scan_digits (drop (length sg) t) of None \<Rightarrow> None
              | Some (d, r) \<Rightarrow> Some (p @ [hd s] @ sg @ d, r))
        else Some x)"

definition scan_number :: "bytes \<Rightarrow> (bytes \<times> bytes) option" where
  "scan_number s =
     (let neg = (s \<noteq> [] \<and> hd s = CHR ''-'') in
      case scan_int (if neg then tl s else s) of None \<Rightarrow> None
      | Some (d, r) \<Rightarrow>
          (case scan_frac ((if neg then CHR ''-'' # d else d), r) of None \<Rightarrow> None
           | Some y \<Rightarrow> scan_exp y))"

fun json_value :: "nat \<Rightarrow> bytes \<Rightarrow> (json \<times> bytes) option"
  and json_elems :: "nat \<Rightarrow> bytes \<Rightarrow> (json list \<times> bytes) option"
  and json_members :: "nat \<Rightarrow> bytes \<Rightarrow> ((bytes \<times> json) list \<times> bytes) option" where
  "json_value 0 s = None"
| "json_value (Suc f) s =
     (case skip_ws s of [] \<Rightarrow> None
      | c # t \<Rightarrow>
        if c = CHR 0x22 then map_option (map_prod JStr id) (json_unquote t)
        else if c = CHR ''{'' then
          (case skip_ws t of
             [] \<Rightarrow> None
           | d # u \<Rightarrow> if d = CHR ''}'' then Some (JObj [], u) else map_option (map_prod JObj id) (json_members f t))
        else if c = CHR ''['' then
          (case skip_ws t of
             [] \<Rightarrow> None
           | d # u \<Rightarrow> if d = CHR '']'' then Some (JArr [], u) else map_option (map_prod JArr id) (json_elems f t))
        else if has_prefix (c # t) ''true'' then Some (JBool True, drop 4 (c # t))
        else if has_prefix (c # t) ''false'' then Some (JBool False, drop 5 (c # t))
        else if has_prefix (c # t) ''null'' then Some (JNull, drop 4 (c # t))
        else map_option (map_prod JNum id) (scan_number (c # t)))"
| "json_elems 0 s = None"
| "json_elems (Suc f) s =
     (case json_value f s of None \<Rightarrow> None
      | Some (v, r) \<Rightarrow>
        (case skip_ws r of [] \<Rightarrow> None
         | c # u \<Rightarrow>
           if c = CHR '','' then map_option (map_prod ((#) v) id) (json_elems f u)
           else if c = CHR '']'' then Some ([v], u)
           else None))"
| "json_members 0 s = None"
| "json_members (Suc f) s =
     (case skip_ws s of [] \<Rightarrow> None
      | q # t \<Rightarrow>
        if q \<noteq> CHR 0x22 then None
        else (case json_unquote t of None \<Rightarrow> None
          | Some (k, r) \<Rightarrow>
            (case skip_ws r of [] \<Rightarrow> None
             | c # u \<Rightarrow>
               if c \<noteq> CHR '':'' then None
               else (case json_value f u of None \<Rightarrow> None
                 | Some (v, r') \<Rightarrow>
                   (case skip_ws r' of [] \<Rightarrow> None
                    | d # w \<Rightarrow>
                      if d = CHR '','' then map_option (map_prod ((#) (k, v)) id) (json_members f w)
                      else if d = CHR ''}'' then Some ([(k, v)], w)
                      else None)))))"

text \<open>A whole document: one value, then nothing but white space.\<close>

definition json_document :: "bytes \<Rightarrow> json option" where
  "json_document s =
     (case json_value (2 * length s + 2) s of
        Some (v, r) \<Rightarrow> if skip_ws r = [] then Some v else None
      | None \<Rightarrow> None)"

section \<open>Scanning inverts printing\<close>

subsection \<open>Strings\<close>

lemma base64_digits:
  fixes a b :: nat
  assumes "b < 64"
  shows "(a * 64 + b) div 64 = a" "(a * 64 + b) mod 64 = b"
  using assms by simp_all

lemma encode_decode_rune:
  assumes "decode_rune s = Some (r, n)"
  shows "encode_rune r = take n s"
proof (cases s)
  case (Cons a t)
  show ?thesis
  proof (cases "byte a < 128")
    case True
    with assms Cons show ?thesis by (auto simp: encode_rune_def)
  next
    case False
    with assms Cons consider
      (two) b u where "t = b # u" "194 \<le> byte a" "byte a < 224" "cont 128 191 b" "n = 2"
        "r = (byte a - 192) * 64 + (byte b - 128)"
    | (three) b c u where "t = b # c # u" "224 \<le> byte a" "byte a < 240"
        "byte a = 224 \<longrightarrow> 160 \<le> byte b" "cont 128 191 b" "cont 128 191 c" "n = 3"
        "r = ((byte a - 224) * 64 + (byte b - 128)) * 64 + (byte c - 128)"
    | (four) b c d u where "t = b # c # d # u" "240 \<le> byte a" "byte a < 245"
        "byte a = 240 \<longrightarrow> 144 \<le> byte b" "cont 128 191 b" "cont 128 191 c" "cont 128 191 d" "n = 4"
        "r = (((byte a - 240) * 64 + (byte b - 128)) * 64 + (byte c - 128)) * 64 + (byte d - 128)"
      by (auto simp: decode_rune.simps(2) Let_def cont_def algebra_simps split: if_splits list.splits)
    then show ?thesis
    proof cases
      case two
      then have "byte b - 128 < 64" by (auto simp: cont_def)
      with two(6) have "r div 64 = byte a - 192" "r mod 64 = byte b - 128"
        using base64_digits [of "byte b - 128" "byte a - 192"] by simp_all
      moreover have "128 \<le> r" "r < 2048" using two by (auto simp: cont_def)
      ultimately show ?thesis using two(1-5) by (simp add: Cons encode_rune_def cont_def)
    next
      case three
      define h where "h = (byte a - 224) * 64 + (byte b - 128)"
      have b: "byte b - 128 < 64" "byte c - 128 < 64" using three by (auto simp: cont_def)
      have h: "h div 64 = byte a - 224" "h mod 64 = byte b - 128"
        unfolding h_def by (rule base64_digits [OF b(1)])+
      have h': "32 \<le> h" "h < 1024"
        using three b by (auto simp: h_def cont_def)
      have r: "r = h * 64 + (byte c - 128)" using three by (simp add: h_def)
      have "r div 64 = h" "r mod 64 = byte c - 128"
        unfolding r using b by simp_all
      moreover have "r div 4096 = h div 64" using \<open>r div 64 = h\<close> by (simp add: div_mult2_eq [of r 64 64, simplified])
      moreover have "2048 \<le> r" "r < 65536" using h' b unfolding r by linarith+
      ultimately show ?thesis using three(1-7) h by (simp add: Cons encode_rune_def cont_def)
    next
      case four
      define g where "g = (byte a - 240) * 64 + (byte b - 128)"
      define h where "h = g * 64 + (byte c - 128)"
      have b: "byte b - 128 < 64" "byte c - 128 < 64" "byte d - 128 < 64" using four by (auto simp: cont_def)
      have g: "g div 64 = byte a - 240" "g mod 64 = byte b - 128"
        unfolding g_def by (rule base64_digits [OF b(1)])+
      have "16 \<le> g" using four b by (auto simp: g_def cont_def)
      then have h: "h div 64 = g" "h mod 64 = byte c - 128" "1024 \<le> h"
        unfolding h_def using base64_digits [OF b(2), of g] by simp_all
      have r: "r = h * 64 + (byte d - 128)" using four by (simp add: h_def g_def)
      have r64: "r div 64 = h" "r mod 64 = byte d - 128" unfolding r using b by simp_all
      moreover have r4096: "r div 4096 = g"
        using r64 h by (simp add: div_mult2_eq [of r 64 64, simplified])
      moreover have "r div 262144 = g div 64"
        using r4096 by (simp add: div_mult2_eq [of r 4096 64, simplified])
      moreover have "65536 \<le> r" using h(3) b unfolding r by linarith
      ultimately show ?thesis using four(1-8) h g by (simp add: Cons encode_rune_def cont_def)
    qed
  qed
qed (use assms in simp)

lemma getu4_u_escape:
  "r < 65536 \<Longrightarrow> getu4 (tl (tl (u_escape r)) @ t) = Some r"
proof -
  assume "r < 65536"
  then have top': "r div 4096 < 16" using less_mult_imp_div_less [of r 16 4096] by simp
  then have top: "r div 4096 mod 16 = r div 4096" by simp
  moreover have "r div 256 = r div 4096 * 16 + r div 256 mod 16"
    using div_mult2_eq [of r 256 16] by simp
  moreover have "r div 16 = r div 256 * 16 + r div 16 mod 16"
    using div_mult2_eq [of r 16 16] by simp
  moreover have "r = r div 16 * 16 + r mod 16" by simp
  ultimately have "r div 4096 mod 16 * 4096 + r div 256 mod 16 * 256 + r div 16 mod 16 * 16 + r mod 16 = r"
    by linarith
  then show ?thesis by (simp add: getu4_def u_escape_def top top')
qed

lemma unquote_u_escape:
  assumes "r < 65536" "\<not> (55296 \<le> r \<and> r \<le> 57343)"
  shows "unquote_step (u_escape r @ t) = Some (encode_rune r, length (u_escape r))"
proof -
  have "getu4 (tl (tl (u_escape r)) @ t) = Some r" by (rule getu4_u_escape [OF assms(1)])
  then show ?thesis
    using assms(2) by (auto simp: unquote_step_def u_escape_def simple_escape_def)
qed

lemma simple_short: "short_escape r = Some c \<Longrightarrow> simple_escape c = Some (chr r)"
  by (simp add: short_escape_def split: if_splits) (auto simp: simple_escape_def byte_eq_iff [symmetric])

lemma unquote_short:
  "short_escape r = Some c \<Longrightarrow> unquote_step ([CHR 0x5C, c] @ t) = Some ([chr r], 2)"
  by (simp add: unquote_step_def simple_short)

lemma unquote_escape:
  assumes d: "decode_rune s = Some (r, n)"
  shows "unquote_step (escape_rune (r, take n s) @ t) =
      Some (take n s, length (escape_rune (r, take n s)))"
    and "escape_rune (r, take n s) \<noteq> [] \<and> hd (escape_rune (r, take n s)) \<noteq> CHR 0x22"
proof -
  note b = decode_rune_bounds [OF d]
  have len: "length (take n s) = n" using b by simp
  note sm = decode_rune_small [OF d]
  have enc: "encode_rune r = take n s" by (rule encode_decode_rune [OF d])
  have one: "r < 128 \<Longrightarrow> take n s = [chr r] \<and> [chr r] = encode_rune r"
    using sm enc by (simp add: encode_rune_def)
  have plain: "unquote_step (take n s @ t) = Some (take n s, n)"
    if "hd s \<noteq> CHR 0x5C" "32 \<le> byte (hd s)"
    using that decode_rune_append [OF d, of t] b
    by (cases s) (auto simp: unquote_step_def neq_Nil_conv take_Cons' split: list.splits)
  have hd: "hd (take n s) = hd s" using b by (cases s) (auto simp: take_Cons')
  have big: "\<not> r < 128 \<Longrightarrow> 128 \<le> byte (hd s)"
    using d sm by (cases s) (auto simp: decode_rune.simps(2) Let_def split: if_splits)
  have ne: "take n s \<noteq> []" using b by (cases s) (auto simp: take_Cons')
  show "unquote_step (escape_rune (r, take n s) @ t) =
      Some (take n s, length (escape_rune (r, take n s)))"
  proof (cases "r < 128")
    case True
    show ?thesis
    proof (cases "short_escape r")
      case None
      have h: "hd s \<noteq> CHR 0x5C" "r = byte (hd s)" "n = 1"
        using None sm True by (auto simp: short_escape_def)
      show ?thesis
        using unquote_u_escape [of r t] plain h one None True len enc
        by (auto simp: escape_rune_def)
    next
      case (Some c)
      then show ?thesis using True one unquote_short [of r c t] by (simp add: escape_rune_def)
    qed
  next
    case False
    have "\<not> length (take n s) = 1" using False sm(1) len by simp
    moreover have "hd s \<noteq> CHR 0x5C" "32 \<le> byte (hd s)" using big [OF False] by auto
    ultimately show ?thesis
      using False plain len unquote_u_escape [of r t] enc by (auto simp: escape_rune_def)
  qed
  show "escape_rune (r, take n s) \<noteq> [] \<and> hd (escape_rune (r, take n s)) \<noteq> CHR 0x22"
  proof (cases "r < 128")
    case True
    have "short_escape r = None \<Longrightarrow> chr r \<noteq> CHR 0x22"
      using True by (auto simp: short_escape_def byte_eq_iff [symmetric] split: if_splits)
    moreover have "take n s = [chr r]" using one True by simp
    ultimately show ?thesis
      using True by (cases "short_escape r") (simp_all add: escape_rune_def u_escape_def)
  next
    case False
    have "hd s \<noteq> CHR 0x22" using big [OF False] by auto
    with False show ?thesis using ne hd by (auto simp: escape_rune_def u_escape_def)
  qed
qed

lemma json_unquote_quote:
  "valid_utf8 s \<Longrightarrow>
    json_unquote (concat (map escape_rune (runes s)) @ CHR 0x22 # t) = Some (s, t)"
proof (induction s rule: valid_utf8.induct)
  case (1 s)
  show ?case
  proof (cases "s = []")
    case True
    then show ?thesis by (subst json_unquote.simps) simp
  next
    case False
    with "1.prems" obtain r n where d: "decode_rune s = Some (r, n)" "valid_utf8 (drop n s)"
      using valid_utf8_decode by blast
    let ?e = "escape_rune (r, take n s)"
    let ?rest = "concat (map escape_rune (runes (drop n s))) @ CHR 0x22 # t"
    have IH: "json_unquote ?rest = Some (drop n s, t)"
      using "1.IH" [OF False d(1) refl d(2)] by simp
    have rs: "runes s = (r, take n s) # runes (drop n s)"
      using False d(1) by (subst runes.simps) simp
    have st: "unquote_step (?e @ ?rest) = Some (take n s, length ?e)"
      using unquote_escape(1) [OF d(1)] by simp
    have hd: "hd (?e @ ?rest) \<noteq> CHR 0x22" "?e \<noteq> []"
      using unquote_escape(2) [OF d(1)] by auto
    have "json_unquote (?e @ ?rest) = Some (s, t)"
      using hd IH by (subst json_unquote.simps) (simp add: st)
    then show ?thesis by (simp add: rs)
  qed
qed

subsection \<open>Numbers\<close>

text \<open>The integers Go prints, and how a decoded number is read back into an integer field.\<close>

definition int_lexeme :: "int \<Rightarrow> bytes" where
  "int_lexeme i = (if i < 0 then CHR ''-'' # itoa (nat (- i)) else itoa (nat i))"

definition parse_int :: "bytes \<Rightarrow> int option" where
  "parse_int s =
     (if s \<noteq> [] \<and> hd s = CHR ''-'' then map_option (\<lambda>n. - int n) (atoi (tl s))
      else map_option int (atoi s))"

definition ends_number :: "bytes \<Rightarrow> bool" where
  "ends_number t \<longleftrightarrow> t = [] \<or> hd t \<in> {CHR '','', CHR ''}'', CHR '']''}"

lemma itoa_zero [simp]: "itoa 0 = ''0''"
  by (simp add: itoa.simps byte_eq_iff [symmetric])

lemma itoa_hd_nonzero: "0 < n \<Longrightarrow> hd (itoa n) \<noteq> CHR ''0''"
proof (induction n rule: itoa.induct)
  case (1 n)
  show ?case
  proof (cases "n < 10")
    case True
    with "1.prems" show ?thesis
      by (subst itoa.simps) (simp add: byte_eq_iff [symmetric])
  next
    case False
    with "1.IH" show ?thesis by (subst itoa.simps) simp
  qed
qed

lemma digit_not_minus: "is_digit c \<Longrightarrow> c \<noteq> CHR ''-''"
  by (auto simp: is_digit_def)

lemma itoa_hd_digit: "is_digit (hd (itoa n))"
  using itoa_digits itoa_nonempty list.set_sel(1) by blast

lemma parse_int_lexeme [simp]: "parse_int (int_lexeme i) = Some i"
  using digit_not_minus [OF itoa_hd_digit]
  by (auto simp: parse_int_def int_lexeme_def)

lemma scan_digits_itoa:
  assumes "t = [] \<or> \<not> is_digit (hd t)"
  shows "scan_digits (itoa n @ t) = Some (itoa n, t)"
proof -
  have "takeWhile is_digit t = []" "dropWhile is_digit t = t"
    using assms by (cases t; simp)+
  then have "takeWhile is_digit (itoa n @ t) = itoa n" "dropWhile is_digit (itoa n @ t) = t"
    using itoa_digits [of _ n] by (simp_all add: takeWhile_append2 dropWhile_append2)
  then show ?thesis by (simp add: scan_digits_def)
qed

lemma scan_int_itoa:
  assumes "t = [] \<or> \<not> is_digit (hd t)"
  shows "scan_int (itoa n @ t) = Some (itoa n, t)"
proof (cases "n = 0")
  case False
  then have "hd (itoa n @ t) \<noteq> CHR ''0''" "itoa n @ t \<noteq> []"
    using itoa_hd_nonzero [of n] by simp_all
  with scan_digits_itoa [OF assms, of n] show ?thesis
    by (cases "itoa n @ t") (simp_all add: scan_int_def)
qed (simp add: scan_int_def)

lemma scan_number_lexeme:
  assumes "ends_number t"
  shows "scan_number (int_lexeme i @ t) = Some (int_lexeme i, t)"
proof -
  have t: "t = [] \<or> \<not> is_digit (hd t)" "t \<noteq> [] \<Longrightarrow> hd t \<noteq> CHR ''.''"
    "t \<noteq> [] \<Longrightarrow> hd t \<noteq> CHR ''e'' \<and> hd t \<noteq> CHR ''E''"
    using assms by (auto simp: ends_number_def is_digit_def)
  have fx: "scan_frac (p, t) = Some (p, t)" "scan_exp (p, t) = Some (p, t)" for p
    using t by (auto simp: scan_frac_def scan_exp_def)
  have h: "hd (itoa n @ t) \<noteq> CHR ''-''" for n
    using digit_not_minus [OF itoa_hd_digit, of n] by simp
  show ?thesis
    using scan_int_itoa [OF t(1)] h
    by (simp add: scan_number_def int_lexeme_def fx Let_def)
qed

subsection \<open>Values\<close>

fun wf_json :: "json \<Rightarrow> bool" where
  "wf_json (JNum n) = (parse_int n \<noteq> None \<and> n = int_lexeme (the (parse_int n)))"
| "wf_json (JStr s) = valid_utf8 s"
| "wf_json (JArr vs) = (\<forall>v \<in> set vs. wf_json v)"
| "wf_json (JObj ms) = (\<forall>m \<in> set ms. valid_utf8 (fst m) \<and> wf_json (snd m))"
| "wf_json _ = True"

fun jfuel :: "json \<Rightarrow> nat" where
  "jfuel (JArr vs) = Suc (sum_list (map (\<lambda>v. Suc (jfuel v)) vs))"
| "jfuel (JObj ms) = Suc (sum_list (map (\<lambda>m. Suc (jfuel (snd m))) ms))"
| "jfuel _ = 1"

lemma skip_ws_id: "s \<noteq> [] \<Longrightarrow> 32 < byte (hd s) \<Longrightarrow> skip_ws s = s"
  by (cases s) (auto simp: skip_ws_def)

lemma skip_ws_Cons: "32 < byte c \<Longrightarrow> skip_ws (c # s) = c # s"
  by (simp add: skip_ws_def)

lemma skip_ws_Nil [simp]: "skip_ws [] = []"
  by (simp add: skip_ws_def)

lemma lexeme_hd:
  "int_lexeme i \<noteq> []" "45 \<le> byte (hd (int_lexeme i)) \<and> byte (hd (int_lexeme i)) \<le> 57"
  using itoa_hd_digit [of "nat i"] by (auto simp: int_lexeme_def is_digit_def)

lemma json_value_lexeme:
  assumes "ends_number t"
  shows "json_value (Suc f) (int_lexeme i @ t) = Some (JNum (int_lexeme i), t)"
proof -
  obtain c r where cr: "int_lexeme i = c # r" using lexeme_hd(1) by (cases "int_lexeme i") auto
  have b: "45 \<le> byte c" "byte c \<le> 57" using lexeme_hd(2) [of i] by (simp_all add: cr)
  have ne: "c \<noteq> CHR 0x22" "c \<noteq> CHR ''{''" "c \<noteq> CHR ''[''" "c \<noteq> CHR ''t''" "c \<noteq> CHR ''f''" "c \<noteq> CHR ''n''"
    using b by auto
  have "scan_number (c # r @ t) = Some (c # r, t)"
    using scan_number_lexeme [OF assms, of i] by (simp add: cr)
  moreover have "skip_ws (c # r @ t) = c # r @ t" using b by (simp add: skip_ws_Cons)
  ultimately show ?thesis
    using ne by (simp add: cr has_prefix_def)
qed

lemma json_print_hd:
  "wf_json v \<Longrightarrow> json_print v \<noteq> [] \<and> 32 < byte (hd (json_print v)) \<and>
     hd (json_print v) \<noteq> CHR '']'' \<and> hd (json_print v) \<noteq> CHR ''}''"
proof (cases v)
  case (JNum n)
  assume "wf_json v"
  with JNum have "n = int_lexeme (the (parse_int n))" by simp
  then obtain i where i: "n = int_lexeme i" by blast
  have "45 \<le> byte (hd n)" "byte (hd n) \<le> 57" "n \<noteq> []"
    using lexeme_hd [of i] by (simp_all add: i)
  then show ?thesis by (auto simp: JNum)
qed (auto simp: json_quote_def)

lemma json_value_open:
  assumes "skip_ws t \<noteq> []" "hd (skip_ws t) \<noteq> CHR ''}''"
  shows "json_value (Suc f) (CHR ''{'' # t) = map_option (map_prod JObj id) (json_members f t)"
  using assms by (cases "skip_ws t") (simp_all add: skip_ws_Cons)

lemma json_value_open_array:
  assumes "skip_ws t \<noteq> []" "hd (skip_ws t) \<noteq> CHR '']''"
  shows "json_value (Suc f) (CHR ''['' # t) = map_option (map_prod JArr id) (json_elems f t)"
  using assms by (cases "skip_ws t") (simp_all add: skip_ws_Cons)

lemma skip_ws_print:
  assumes "wf_json v"
  shows "skip_ws (json_print v @ t) = json_print v @ t"
  using json_print_hd [OF assms] by (intro skip_ws_id) auto

lemma json_members_step:
  assumes "valid_utf8 k" "json_value f (u @ t) = Some (v, t)" "t = c # w" "32 < byte c"
  shows "json_members (Suc f) (json_quote k @ '':'' @ u @ t) =
    (if c = CHR '','' then map_option (map_prod ((#) (k, v)) id) (json_members f w)
     else if c = CHR ''}'' then Some ([(k, v)], w) else None)"
  using assms json_unquote_quote [OF assms(1), of "CHR '':'' # u @ t"]
  by (simp add: json_quote_def skip_ws_Cons)

theorem json_value_print:
  "wf_json v \<Longrightarrow> jfuel v \<le> f \<Longrightarrow> ends_number t \<Longrightarrow> json_value f (json_print v @ t) = Some (v, t)"
  "\<forall>v \<in> set vs. wf_json v \<Longrightarrow> vs \<noteq> [] \<Longrightarrow> sum_list (map (\<lambda>v. Suc (jfuel v)) vs) \<le> f \<Longrightarrow>
     json_elems f (print_elems vs @ t) = Some (vs, t)"
  "\<forall>m \<in> set ms. valid_utf8 (fst m) \<and> wf_json (snd m) \<Longrightarrow> ms \<noteq> [] \<Longrightarrow>
     sum_list (map (\<lambda>m. Suc (jfuel (snd m))) ms) \<le> f \<Longrightarrow>
     json_members f (print_members ms @ t) = Some (ms, t)"
proof (induction v and vs and ms arbitrary: f t and f t and f t
    rule: json_print_print_elems_print_members.induct)
  case 1
  then show ?case by (cases f) (simp_all add: skip_ws_Cons has_prefix_def)
next
  case (2 b)
  then show ?case by (cases f; cases b) (simp_all add: skip_ws_Cons has_prefix_def)
next
  case (3 n)
  then obtain i g where "n = int_lexeme i" "f = Suc g" by (cases f) auto
  with 3 json_value_lexeme show ?case by simp
next
  case (4 s)
  then show ?case
    using json_unquote_quote [of s t] by (cases f) (simp_all add: json_quote_def skip_ws_Cons)
next
  case (5 vs)
  then obtain g where f: "f = Suc g" by (cases f) auto
  show ?case
  proof (cases vs)
    case Nil
    then show ?thesis by (simp add: f skip_ws_Cons)
  next
    case (Cons v ws)
    then have "wf_json v" using 5 by simp
    obtain r where p: "print_elems vs @ t = json_print v @ r"
      using Cons by (cases ws) auto
    then have "skip_ws (print_elems vs @ t) \<noteq> []" "hd (skip_ws (print_elems vs @ t)) \<noteq> CHR '']''"
      using json_print_hd [OF \<open>wf_json v\<close>] skip_ws_print [OF \<open>wf_json v\<close>] by simp_all
    with 5 Cons show ?thesis by (simp add: f json_value_open_array del: json_value.simps)
  qed
next
  case (6 ms)
  then obtain g where f: "f = Suc g" by (cases f) auto
  show ?case
  proof (cases ms)
    case Nil
    then show ?thesis by (simp add: f skip_ws_Cons)
  next
    case (Cons m ns)
    obtain r where p: "print_members ms @ t = CHR 0x22 # r"
      using Cons by (cases m; cases ns) (auto simp: json_quote_def)
    then have "skip_ws (print_members ms @ t) \<noteq> []" "hd (skip_ws (print_members ms @ t)) \<noteq> CHR ''}''"
      by (simp_all add: skip_ws_Cons)
    with 6 Cons show ?thesis by (simp add: f json_value_open del: json_value.simps)
  qed
next
  case 7
  then show ?case by simp
next
  case (8 v)
  then obtain g where f: "f = Suc g" by (cases f) auto
  have "json_value g (json_print v @ CHR '']'' # t) = Some (v, CHR '']'' # t)"
    using 8 f by (intro "8.IH") (auto simp: ends_number_def)
  then show ?case by (simp add: f skip_ws_Cons)
next
  case (9 v w vs)
  then obtain g where f: "f = Suc g" by (cases f) auto
  have "json_value g (json_print v @ CHR '','' # print_elems (w # vs) @ t) =
      Some (v, CHR '','' # print_elems (w # vs) @ t)"
    using 9 f by (intro "9.IH"(1)) (auto simp: ends_number_def)
  moreover have "json_elems g (print_elems (w # vs) @ t) = Some (w # vs, t)"
    using 9 f by (intro "9.IH"(2)) auto
  ultimately show ?case by (simp add: f skip_ws_Cons)
next
  case 10
  then show ?case by simp
next
  case (11 k v)
  then obtain g where f: "f = Suc g" by (cases f) auto
  have "json_value g (json_print v @ CHR ''}'' # t) = Some (v, CHR ''}'' # t)"
    using 11 f by (intro "11.IH") (auto simp: ends_number_def)
  from json_members_step [OF _ this refl] 11 show ?case by (simp add: f)
next
  case (12 k v m ms)
  then obtain g where f: "f = Suc g" by (cases f) auto
  let ?r = "CHR '','' # print_members (m # ms) @ t"
  have "json_value g (json_print v @ ?r) = Some (v, ?r)"
    using 12 f by (intro "12.IH"(1)) (auto simp: ends_number_def)
  moreover have "json_members g (print_members (m # ms) @ t) = Some (m # ms, t)"
    using 12 f by (intro "12.IH"(2)) auto
  ultimately show ?case
    using json_members_step [of k g "json_print v" ?r v "CHR '',''"] 12 by (simp add: f)
qed

lemma jfuel_print:
  "wf_json v \<Longrightarrow> jfuel v \<le> 2 * length (json_print v)"
  "\<forall>v \<in> set vs. wf_json v \<Longrightarrow> sum_list (map (\<lambda>v. Suc (jfuel v)) vs) \<le> 2 * length (print_elems vs)"
  "\<forall>m \<in> set ms. wf_json (snd m) \<Longrightarrow> sum_list (map (\<lambda>m. Suc (jfuel (snd m))) ms) \<le> 2 * length (print_members ms)"
proof (induction v and vs and ms rule: json_print_print_elems_print_members.induct)
  case (3 n)
  then show ?case using json_print_hd [of "JNum n"] by (cases n) auto
qed (auto simp: json_quote_def)

text \<open>Decoding a marshalled value gives the value back.\<close>

theorem json_document_print [wire_simps]:
  assumes "wf_json v"
  shows "json_document (json_print v) = Some v"
  using json_value_print(1) [OF assms, of "2 * length (json_print v) + 2" "[]"] jfuel_print(1) [OF assms]
  by (simp add: json_document_def ends_number_def)

subsection \<open>Sizes\<close>

definition json_plain :: "char \<Rightarrow> bool" where
  "json_plain c \<longleftrightarrow> 32 \<le> byte c \<and> byte c < 127 \<and> byte c \<notin> {34, 38, 60, 62, 92}"

lemma json_quote_plain:
  assumes "\<forall>c \<in> set s. json_plain c"
  shows "json_quote s = CHR 0x22 # s @ [CHR 0x22]"
proof -
  have "\<forall>c \<in> set s. byte c < 128" using assms by (auto simp: json_plain_def)
  then have "runes s = map (\<lambda>c. (byte c, [c])) s" by (rule runes_ascii)
  moreover have "\<forall>c \<in> set s. escape_rune (byte c, [c]) = [c]"
    using assms by (auto simp: json_plain_def escape_rune_def short_escape_def)
  then have "concat (map (\<lambda>c. escape_rune (byte c, [c])) s) = s"
    by (induction s) auto
  ultimately show ?thesis by (simp add: json_quote_def o_def)
qed

lemma valid_utf8_plain: "\<forall>c \<in> set s. json_plain c \<Longrightarrow> valid_utf8 s"
  by (rule valid_utf8_ascii) (auto simp: json_plain_def)

lemma runes_lengths: "(\<Sum>x\<leftarrow>runes s. length (snd x)) = length s \<and> (\<forall>x \<in> set (runes s). snd x \<noteq> [])"
proof (induction s rule: runes.induct)
  case (1 s)
  show ?case
  proof (cases s)
    case (Cons c cs)
    show ?thesis
    proof (cases "decode_rune s")
      case None
      with Cons 1(1) [OF _ None] show ?thesis by (simp add: runes.simps [of "c # cs"])
    next
      case (Some x)
      then obtain r n where rn: "decode_rune s = Some (r, n)" by (cases x) auto
      note b = decode_rune_bounds [OF rn]
      with Cons rn 1(2) [OF _ rn refl] show ?thesis by (auto simp: runes.simps [of "c # cs"])
    qed
  qed (simp add: runes.simps)
qed

lemma escape_rune_length: "snd x \<noteq> [] \<Longrightarrow> length (escape_rune x) \<le> 6 * length (snd x)"
  by (cases x; cases "snd x") (auto simp: escape_rune_def u_escape_def split: option.splits)

lemma json_quote_length: "length (json_quote s) \<le> 6 * length s + 2"
proof -
  have "(\<Sum>x\<leftarrow>runes s. length (escape_rune x)) \<le> (\<Sum>x\<leftarrow>runes s. 6 * length (snd x))"
    using runes_lengths [of s] by (intro sum_list_mono) (auto intro: escape_rune_length)
  also have "\<dots> = 6 * length s" using runes_lengths [of s] by (simp add: sum_list_const_mult)
  finally show ?thesis by (simp add: json_quote_def length_concat o_def)
qed

subsection \<open>Printed documents are valid UTF-8\<close>

lemma valid_utf8_append: "valid_utf8 s \<Longrightarrow> valid_utf8 t \<Longrightarrow> valid_utf8 (s @ t)"
proof (induction s rule: length_induct)
  case (1 s)
  show ?case
  proof (cases "s = []")
    case False
    then obtain r n where d: "decode_rune s = Some (r, n)" "valid_utf8 (drop n s)"
      using valid_utf8_decode [OF 1(2)] by blast
    note b = decode_rune_bounds [OF d(1)]
    have "decode_rune (take n s @ drop n s @ t) = Some (r, n)" by (rule decode_rune_append [OF d(1)])
    moreover have "take n s @ drop n s @ t = s @ t" by (metis append.assoc append_take_drop_id)
    moreover have "valid_utf8 (drop n s @ t)" using 1 d b False by simp
    ultimately show ?thesis using False b by (subst valid_utf8.simps) simp
  qed (use 1 in simp)
qed

lemma valid_utf8_rune:
  assumes "decode_rune s = Some (r, n)"
  shows "valid_utf8 (take n s)"
  using decode_rune_append [OF assms, of "[]"] decode_rune_bounds [OF assms]
  by (subst valid_utf8.simps) simp

lemma hex_digit_ascii: "n < 16 \<Longrightarrow> byte (hex_digit n) < 128"
  by (simp add: hex_digit_def)

lemma u_escape_ascii: "c \<in> set (u_escape n) \<Longrightarrow> byte c < 128"
  by (auto simp: u_escape_def hex_digit_ascii)

lemma escape_rune_utf8: "(length (snd x) = 1 \<longrightarrow> fst x \<ge> 128 \<or> snd x = [chr (fst x)]) \<Longrightarrow>
    length (snd x) \<noteq> 1 \<longrightarrow> valid_utf8 (snd x) \<Longrightarrow> fst x < 128 \<longrightarrow> length (snd x) = 1 \<Longrightarrow> valid_utf8 (escape_rune x)"
  by (cases x) (auto simp: escape_rune_def short_escape_def valid_utf8_ascii_Cons
      intro!: valid_utf8_ascii dest: u_escape_ascii split: option.splits)

lemma runes_shape:
  "\<forall>x \<in> set (runes s). valid_utf8 (escape_rune x)"
proof (induction s rule: runes.induct)
  case (1 s)
  show ?case
  proof (cases s)
    case (Cons c cs)
    show ?thesis
    proof (cases "decode_rune s")
      case None
      with Cons 1(1) [OF _ None] show ?thesis
        by (auto simp: runes.simps [of "c # cs"] intro!: escape_rune_utf8)
    next
      case (Some x)
      then obtain r n where rn: "decode_rune s = Some (r, n)" by (cases x) auto
      note b = decode_rune_bounds [OF rn]
      have "valid_utf8 (escape_rune (r, take n s))"
        using b decode_rune_small [OF rn] valid_utf8_rune [OF rn] Cons
        by (intro escape_rune_utf8) (auto simp: take_Suc min_def split: if_splits)
      with Cons rn 1(2) [OF _ rn refl] show ?thesis by (auto simp: runes.simps [of "c # cs"])
    qed
  qed simp
qed

lemma valid_utf8_concat: "\<forall>s \<in> set ss. valid_utf8 s \<Longrightarrow> valid_utf8 (concat ss)"
  by (induction ss) (auto intro: valid_utf8_append)

lemma json_quote_utf8: "valid_utf8 (json_quote s)"
  using valid_utf8_concat [of "map escape_rune (runes s)"] runes_shape [of s]
  by (simp add: json_quote_def valid_utf8_ascii_Cons valid_utf8_append valid_utf8_ascii)

lemma int_lexeme_utf8: "valid_utf8 (int_lexeme i)"
  by (rule valid_utf8_ascii) (auto simp: int_lexeme_def is_digit_def dest!: itoa_digits)

lemma json_print_utf8:
  "wf_json v \<Longrightarrow> valid_utf8 (json_print v)"
  "\<forall>v \<in> set vs. wf_json v \<Longrightarrow> valid_utf8 (print_elems vs)"
  "\<forall>m \<in> set ms. wf_json (snd m) \<Longrightarrow> valid_utf8 (print_members ms)"
proof (induction v and vs and ms rule: json_print_print_elems_print_members.induct)
  case (3 n)
  then show ?case using int_lexeme_utf8 by (metis json_print.simps(3) wf_json.simps(1))
qed (auto simp: json_quote_utf8 valid_utf8_ascii_Cons valid_utf8_ascii intro!: valid_utf8_append)

end
