(* ===== verification/Strict_Json.thy ===== *)
theory Strict_Json
  imports Go_Json
begin

text \<open>
  The strict decoder of \<open>internal/dsse/dsse.go\<close> (\<open>DecodeStrictInto\<close>, \<open>validateJSONValue\<close>,
  \<open>validateArbitraryJSON\<close>): a pass over the decoder's token stream, directed by the Go type of the
  destination, that refuses unknown members, duplicate members at any level, misplaced nulls and
  deep nesting, and a second pass, the decoding into the destination, that refuses numbers its
  integer fields cannot hold. \<open>validateJSONValue_shaped\<close> shows that the first pass accepts exactly the
  documents that satisfy \<open>shaped\<close>, \<open>conforms_passes\<close> that both passes together accept exactly those
  that satisfy the declarative predicate \<open>conforms\<close>.
\<close>

section \<open>Strict JSON decoding\<close>

text \<open>
  The Go types the strict decoder is used with; the integer types are \<open>int64\<close> (which \<open>int\<close> is on
  the supported 64-bit platforms) and \<open>uint64\<close>. Pointers, slices, maps and \<open>json.RawMessage\<close> (a
  byte slice) accept a JSON null.
\<close>

datatype gotype =
    TString
  | TBool
  | TInt64
  | TUint64
  | TRaw
  | TPtr gotype
  | TSlice gotype
  | TMap gotype
  | TStruct "(bytes \<times> gotype) list"

datatype token = Delim char | TokStr bytes | TokNum bytes | TokBool bool | TokNull

text \<open>The token stream of \<open>json.Decoder.Token\<close> over a document.\<close>

fun tokens :: "json \<Rightarrow> token list" where
  "tokens JNull = [TokNull]"
| "tokens (JBool b) = [TokBool b]"
| "tokens (JNum n) = [TokNum n]"
| "tokens (JStr s) = [TokStr s]"
| "tokens (JArr vs) = Delim (CHR ''['') # concat (map tokens vs) @ [Delim (CHR '']'')]"
| "tokens (JObj ms) = Delim (CHR ''{'') # concat (map (\<lambda>m. TokStr (fst m) # tokens (snd m)) ms) @ [Delim (CHR ''}'')]"

fun allow_null :: "gotype \<Rightarrow> bool" where
  "allow_null (TPtr t) = True"
| "allow_null (TSlice t) = True"
| "allow_null (TMap t) = True"
| "allow_null TRaw = True"
| "allow_null _ = False"

fun strip_ptr :: "gotype \<Rightarrow> gotype" where
  "strip_ptr (TPtr t) = strip_ptr t"
| "strip_ptr t = t"

text \<open>
  \<open>validateJSONValue\<close>, \<open>validateArbitraryJSON\<close> and their object and array loops read the stream
  and return what is left of it. The member type of an object is given by \<open>ty\<close>: the field table of
  a struct (refusing unknown keys) or the constant element type of a map.
\<close>

fun validateArbitraryJSON :: "nat \<Rightarrow> token \<Rightarrow> nat \<Rightarrow> token list \<Rightarrow> token list option"
  and arbitrary_object :: "nat \<Rightarrow> bytes set \<Rightarrow> nat \<Rightarrow> token list \<Rightarrow> token list option"
  and arbitrary_array :: "nat \<Rightarrow> nat \<Rightarrow> token list \<Rightarrow> token list option" where
  "validateArbitraryJSON 0 tok depth toks = None"
| "validateArbitraryJSON (Suc f) tok depth toks =
     (if depth > 32 then None
      else (case tok of
              Delim c \<Rightarrow>
                if c = CHR ''{'' then arbitrary_object f {} depth toks
                else if c = CHR ''['' then arbitrary_array f depth toks
                else None
            | _ \<Rightarrow> Some toks))"
| "arbitrary_object 0 seen depth toks = None"
| "arbitrary_object (Suc f) seen depth toks =
     (case toks of
        Delim c # r \<Rightarrow> if c = CHR ''}'' then Some r else None
      | TokStr key # value # r \<Rightarrow>
          if key \<in> seen then None
          else (case validateArbitraryJSON f value (Suc depth) r of
                  None \<Rightarrow> None | Some r' \<Rightarrow> arbitrary_object f (insert key seen) depth r')
      | _ \<Rightarrow> None)"
| "arbitrary_array 0 depth toks = None"
| "arbitrary_array (Suc f) depth toks =
     (case toks of
        [] \<Rightarrow> None
      | value # r \<Rightarrow>
          if value = Delim (CHR '']'') then Some r
          else if value = Delim (CHR ''}'') then None
          else (case validateArbitraryJSON f value (Suc depth) r of
                  None \<Rightarrow> None | Some r' \<Rightarrow> arbitrary_array f depth r'))"

fun validateJSONValue :: "nat \<Rightarrow> gotype \<Rightarrow> nat \<Rightarrow> token list \<Rightarrow> token list option"
  and validate_object :: "nat \<Rightarrow> (bytes \<Rightarrow> gotype option) \<Rightarrow> bytes set \<Rightarrow> nat \<Rightarrow> token list \<Rightarrow> token list option"
  and validate_array :: "nat \<Rightarrow> gotype \<Rightarrow> nat \<Rightarrow> token list \<Rightarrow> token list option" where
  "validateJSONValue 0 expected depth toks = None"
| "validateJSONValue (Suc f) expected depth toks =
     (if depth > 32 then None
      else (case toks of [] \<Rightarrow> None
        | tok # rest \<Rightarrow>
          if tok = TokNull then (if allow_null expected then Some rest else None)
          else (case strip_ptr expected of
              TRaw \<Rightarrow> validateArbitraryJSON f tok depth rest
            | TStruct fs \<Rightarrow>
                if tok \<noteq> Delim (CHR ''{'') then None else validate_object f (map_of fs) {} depth rest
            | TSlice t \<Rightarrow>
                if tok \<noteq> Delim (CHR ''['') then None else validate_array f t depth rest
            | TMap t \<Rightarrow>
                if tok \<noteq> Delim (CHR ''{'') then None else validate_object f (\<lambda>_. Some t) {} depth rest
            | TString \<Rightarrow> (case tok of TokStr _ \<Rightarrow> Some rest | _ \<Rightarrow> None)
            | TBool \<Rightarrow> (case tok of TokBool _ \<Rightarrow> Some rest | _ \<Rightarrow> None)
            | TInt64 \<Rightarrow> (case tok of TokNum _ \<Rightarrow> Some rest | _ \<Rightarrow> None)
            | TUint64 \<Rightarrow> (case tok of TokNum _ \<Rightarrow> Some rest | _ \<Rightarrow> None)
            | TPtr _ \<Rightarrow> None)))"
| "validate_object 0 ty seen depth toks = None"
| "validate_object (Suc f) ty seen depth toks =
     (case toks of
        Delim c # r \<Rightarrow> if c = CHR ''}'' then Some r else None
      | TokStr key # r \<Rightarrow>
          (case ty key of None \<Rightarrow> None
           | Some t \<Rightarrow>
               if key \<in> seen then None
               else (case validateJSONValue f t (Suc depth) r of
                       None \<Rightarrow> None | Some r' \<Rightarrow> validate_object f ty (insert key seen) depth r'))
      | _ \<Rightarrow> None)"
| "validate_array 0 t depth toks = None"
| "validate_array (Suc f) t depth toks =
     (case toks of
        [] \<Rightarrow> None
      | value # r \<Rightarrow>
          if value = Delim (CHR '']'') then Some r
          else if value = Delim (CHR ''}'') then None
          else (case validateJSONValue f t (Suc depth) toks of
                  None \<Rightarrow> None | Some r' \<Rightarrow> validate_array f t depth r'))"

text \<open>
  The second pass, \<open>decoder.Decode(destination)\<close> of \<open>encoding/json\<close>: whether the document can be
  stored in a destination of the type. An integer takes a number only if its lexeme is an integer
  literal (\<open>strconv.ParseInt\<close>, \<open>strconv.ParseUint\<close>) in the range of the type; a null leaves the
  destination as it is. The decoder disallows unknown fields; that it also matches names up to case
  makes no difference after the first pass, which has compared them exactly.
\<close>

definition parse_u64 :: "bytes \<Rightarrow> u64 option" where
  "parse_u64 s = (case atoi s of None \<Rightarrow> None | Some n \<Rightarrow> if n < 2 ^ 64 then Some (of_nat n) else None)"

definition parse_i64 :: "bytes \<Rightarrow> int option" where
  "parse_i64 s = (case parse_int s of None \<Rightarrow> None
     | Some i \<Rightarrow> if min_int64 \<le> i \<and> i \<le> max_int64 then Some i else None)"

fun stores :: "gotype \<Rightarrow> json \<Rightarrow> bool" where
  "stores t JNull = True"
| "stores t (JBool b) = (case strip_ptr t of TRaw \<Rightarrow> True | TBool \<Rightarrow> True | _ \<Rightarrow> False)"
| "stores t (JNum n) =
     (case strip_ptr t of
        TRaw \<Rightarrow> True
      | TInt64 \<Rightarrow> parse_i64 n \<noteq> None
      | TUint64 \<Rightarrow> parse_u64 n \<noteq> None
      | _ \<Rightarrow> False)"
| "stores t (JStr s) = (case strip_ptr t of TRaw \<Rightarrow> True | TString \<Rightarrow> True | _ \<Rightarrow> False)"
| "stores t (JArr vs) =
     (case strip_ptr t of
        TRaw \<Rightarrow> True
      | TSlice u \<Rightarrow> (\<forall>v \<in> set vs. stores u v)
      | _ \<Rightarrow> False)"
| "stores t (JObj ms) =
     (case strip_ptr t of
        TRaw \<Rightarrow> True
      | TStruct fs \<Rightarrow> (\<forall>m \<in> set ms. case map_of fs (fst m) of None \<Rightarrow> False | Some u \<Rightarrow> stores u (snd m))
      | TMap u \<Rightarrow> (\<forall>m \<in> set ms. stores u (snd m))
      | _ \<Rightarrow> False)"

text \<open>
  \<open>DecodeStrictInto\<close>: a bounded, syntactically complete document whose token stream the validator
  consumes exactly and which the second pass stores. The destination then holds the document's
  values; callers read them from the document by the field names.
\<close>

definition DecodeStrictInto :: "bytes \<Rightarrow> nat \<Rightarrow> gotype \<Rightarrow> json result" where
  "DecodeStrictInto raw maxBytes t =
     (if maxBytes = 0 \<or> length raw = 0 \<or> length raw > maxBytes
      then errorf ''JSON input is empty or exceeds its limit''
      else (case json_document raw of
              None \<Rightarrow> errorf ''invalid JSON''
            | Some v \<Rightarrow>
                (case validateJSONValue (4 * length (tokens v)) t 0 (tokens v) of
                   None \<Rightarrow> errorf ''JSON does not match its destination''
                 | Some r \<Rightarrow>
                     if r \<noteq> [] then errorf ''JSON input contains trailing value''
                     else if \<not> stores t v then errorf ''json: cannot unmarshal''
                     else Ok v)))"

section \<open>The strict validator accepts exactly the conforming documents\<close>

text \<open>
  What the first pass accepts: no null except where the Go type can be nil, no unknown member, no duplicate
  member at any level, at most 32 levels of nesting.
\<close>

fun arbitrary_ok :: "nat \<Rightarrow> json \<Rightarrow> bool" where
  "arbitrary_ok d (JArr vs) = (d \<le> 32 \<and> (\<forall>v \<in> set vs. arbitrary_ok (Suc d) v))"
| "arbitrary_ok d (JObj ms) =
     (d \<le> 32 \<and> distinct (map fst ms) \<and> (\<forall>m \<in> set ms. arbitrary_ok (Suc d) (snd m)))"
| "arbitrary_ok d _ = (d \<le> 32)"

fun shaped :: "gotype \<Rightarrow> nat \<Rightarrow> json \<Rightarrow> bool" where
  "shaped t d JNull = (d \<le> 32 \<and> allow_null t)"
| "shaped t d (JBool b) = (d \<le> 32 \<and> (strip_ptr t = TBool \<or> strip_ptr t = TRaw))"
| "shaped t d (JNum n) = (d \<le> 32 \<and> (strip_ptr t = TInt64 \<or> strip_ptr t = TUint64 \<or> strip_ptr t = TRaw))"
| "shaped t d (JStr s) = (d \<le> 32 \<and> (strip_ptr t = TString \<or> strip_ptr t = TRaw))"
| "shaped t d (JArr vs) =
     (d \<le> 32 \<and> (case strip_ptr t of
        TRaw \<Rightarrow> arbitrary_ok d (JArr vs)
      | TSlice u \<Rightarrow> (\<forall>v \<in> set vs. shaped u (Suc d) v)
      | _ \<Rightarrow> False))"
| "shaped t d (JObj ms) =
     (d \<le> 32 \<and> (case strip_ptr t of
        TRaw \<Rightarrow> arbitrary_ok d (JObj ms)
      | TStruct fs \<Rightarrow> distinct (map fst ms) \<and>
          (\<forall>m \<in> set ms. case map_of fs (fst m) of None \<Rightarrow> False | Some u \<Rightarrow> shaped u (Suc d) (snd m))
      | TMap u \<Rightarrow> distinct (map fst ms) \<and> (\<forall>m \<in> set ms. shaped u (Suc d) (snd m))
      | _ \<Rightarrow> False))"

text \<open>
  The specification of both passes: moreover a number stands only where the type is an integer that
  can hold it, or inside a \<open>json.RawMessage\<close>.
\<close>

definition number_fits :: "gotype \<Rightarrow> bytes \<Rightarrow> bool" where
  "number_fits t n =
     (case t of
        TRaw \<Rightarrow> True
      | TInt64 \<Rightarrow> (case parse_int n of None \<Rightarrow> False | Some i \<Rightarrow> - (2 ^ 63) \<le> i \<and> i < 2 ^ 63)
      | TUint64 \<Rightarrow> (case atoi n of None \<Rightarrow> False | Some k \<Rightarrow> k < 2 ^ 64)
      | _ \<Rightarrow> False)"

fun conforms :: "gotype \<Rightarrow> nat \<Rightarrow> json \<Rightarrow> bool" where
  "conforms t d JNull = (d \<le> 32 \<and> allow_null t)"
| "conforms t d (JBool b) = (d \<le> 32 \<and> (strip_ptr t = TBool \<or> strip_ptr t = TRaw))"
| "conforms t d (JNum n) = (d \<le> 32 \<and> number_fits (strip_ptr t) n)"
| "conforms t d (JStr s) = (d \<le> 32 \<and> (strip_ptr t = TString \<or> strip_ptr t = TRaw))"
| "conforms t d (JArr vs) =
     (d \<le> 32 \<and> (case strip_ptr t of
        TRaw \<Rightarrow> arbitrary_ok d (JArr vs)
      | TSlice u \<Rightarrow> (\<forall>v \<in> set vs. conforms u (Suc d) v)
      | _ \<Rightarrow> False))"
| "conforms t d (JObj ms) =
     (d \<le> 32 \<and> (case strip_ptr t of
        TRaw \<Rightarrow> arbitrary_ok d (JObj ms)
      | TStruct fs \<Rightarrow> distinct (map fst ms) \<and>
          (\<forall>m \<in> set ms. case map_of fs (fst m) of None \<Rightarrow> False | Some u \<Rightarrow> conforms u (Suc d) (snd m))
      | TMap u \<Rightarrow> distinct (map fst ms) \<and> (\<forall>m \<in> set ms. conforms u (Suc d) (snd m))
      | _ \<Rightarrow> False))"

fun vfuel :: "json \<Rightarrow> nat" where
  "vfuel (JArr vs) = 3 + sum_list (map (\<lambda>v. Suc (vfuel v)) vs)"
| "vfuel (JObj ms) = 3 + sum_list (map (\<lambda>m. Suc (vfuel (snd m))) ms)"
| "vfuel _ = 2"

subsection \<open>Equivalence\<close>

text \<open>The four loops, given that the validator is right on the elements.\<close>

lemma tokens_Cons:
  obtains h ts where "tokens v = h # ts" "h \<noteq> Delim (CHR '']'')" "h \<noteq> Delim (CHR ''}'')"
  by (cases v) auto

definition arb_at :: "nat \<Rightarrow> json \<Rightarrow> bool" where
  "arb_at d v \<longleftrightarrow> (\<forall>f r. vfuel v \<le> Suc f \<longrightarrow>
     validateArbitraryJSON f (hd (tokens v)) d (tl (tokens v) @ r) = (if arbitrary_ok d v then Some r else None))"

definition typed_at :: "nat \<Rightarrow> gotype \<Rightarrow> json \<Rightarrow> bool" where
  "typed_at d t v \<longleftrightarrow> (\<forall>f r. vfuel v \<le> f \<longrightarrow>
     validateJSONValue f t d (tokens v @ r) = (if shaped t d v then Some r else None))"

lemma arb_atD:
  "arb_at d v \<Longrightarrow> tokens v = h # ts \<Longrightarrow> vfuel v \<le> Suc f \<Longrightarrow>
    validateArbitraryJSON f h d (ts @ r) = (if arbitrary_ok d v then Some r else None)"
  by (auto simp: arb_at_def)

lemma typed_atD:
  "typed_at d t v \<Longrightarrow> vfuel v \<le> f \<Longrightarrow>
    validateJSONValue f t d (tokens v @ r) = (if shaped t d v then Some r else None)"
  by (simp add: typed_at_def)

lemma arbitrary_array_tokens:
  assumes "\<forall>v \<in> set vs. arb_at (Suc d) v" "Suc (sum_list (map (\<lambda>v. Suc (vfuel v)) vs)) \<le> f"
  shows "arbitrary_array f d (concat (map tokens vs) @ Delim (CHR '']'') # r) =
    (if \<forall>v \<in> set vs. arbitrary_ok (Suc d) v then Some r else None)"
  using assms
proof (induction vs arbitrary: f)
  case Nil
  then show ?case by (cases f) auto
next
  case (Cons v vs)
  then obtain g where f: "f = Suc g" by (cases f) auto
  obtain h ts where t: "tokens v = h # ts" "h \<noteq> Delim (CHR '']'')" "h \<noteq> Delim (CHR ''}'')"
    by (rule tokens_Cons)
  let ?rest = "concat (map tokens vs) @ Delim (CHR '']'') # r"
  have "validateArbitraryJSON g h (Suc d) (ts @ ?rest) = (if arbitrary_ok (Suc d) v then Some ?rest else None)"
    using Cons.prems f t by (intro arb_atD) auto
  moreover have "arbitrary_array g d ?rest = (if \<forall>v \<in> set vs. arbitrary_ok (Suc d) v then Some r else None)"
    using Cons.prems f by (intro Cons.IH) auto
  ultimately show ?case using t by (simp add: f)
qed

lemma arbitrary_object_tokens:
  assumes "\<forall>m \<in> set ms. arb_at (Suc d) (snd m)" "Suc (sum_list (map (\<lambda>m. Suc (vfuel (snd m))) ms)) \<le> f"
  shows "arbitrary_object f seen d (concat (map (\<lambda>m. TokStr (fst m) # tokens (snd m)) ms) @ Delim (CHR ''}'') # r) =
    (if distinct (map fst ms) \<and> seen \<inter> set (map fst ms) = {} \<and> (\<forall>m \<in> set ms. arbitrary_ok (Suc d) (snd m))
     then Some r else None)"
  using assms
proof (induction ms arbitrary: f seen)
  case Nil
  then show ?case by (cases f) auto
next
  case (Cons m ms)
  then obtain g where f: "f = Suc g" by (cases f) auto
  obtain h ts where t: "tokens (snd m) = h # ts" by (rule tokens_Cons)
  let ?rest = "concat (map (\<lambda>m. TokStr (fst m) # tokens (snd m)) ms) @ Delim (CHR ''}'') # r"
  have "validateArbitraryJSON g h (Suc d) (ts @ ?rest) = (if arbitrary_ok (Suc d) (snd m) then Some ?rest else None)"
    using Cons.prems f t by (intro arb_atD) auto
  moreover have "arbitrary_object g (insert (fst m) seen) d ?rest =
    (if distinct (map fst ms) \<and> insert (fst m) seen \<inter> set (map fst ms) = {} \<and> (\<forall>m \<in> set ms. arbitrary_ok (Suc d) (snd m))
     then Some r else None)"
    using Cons.prems f by (intro Cons.IH) auto
  ultimately show ?case using t by (auto simp: f)
qed

lemma arb_at_all: "arb_at d v"
proof (induction d v rule: arbitrary_ok.induct)
  case (1 d vs)
  have "validateArbitraryJSON f (Delim (CHR ''['')) d (concat (map tokens vs) @ Delim (CHR '']'') # r) =
      (if arbitrary_ok d (JArr vs) then Some r else None)" if "vfuel (JArr vs) \<le> Suc f" for f r
    using that 1 arbitrary_array_tokens [of vs d "f - 1" r] by (cases f) auto
  then show ?case by (simp add: arb_at_def)
next
  case (2 d ms)
  have "validateArbitraryJSON f (Delim (CHR ''{'')) d
        (concat (map (\<lambda>m. TokStr (fst m) # tokens (snd m)) ms) @ Delim (CHR ''}'') # r) =
      (if arbitrary_ok d (JObj ms) then Some r else None)" if "vfuel (JObj ms) \<le> Suc f" for f r
    using that 2 arbitrary_object_tokens [of ms d "f - 1" "{}" r] by (cases f) auto
  then show ?case by (simp add: arb_at_def)
qed (auto simp: arb_at_def gr0_conv_Suc dest!: Suc_le_D)

lemma validate_array_tokens:
  assumes "\<forall>v \<in> set vs. typed_at (Suc d) t v" "Suc (sum_list (map (\<lambda>v. Suc (vfuel v)) vs)) \<le> f"
  shows "validate_array f t d (concat (map tokens vs) @ Delim (CHR '']'') # r) =
    (if \<forall>v \<in> set vs. shaped t (Suc d) v then Some r else None)"
  using assms
proof (induction vs arbitrary: f)
  case Nil
  then show ?case by (cases f) auto
next
  case (Cons v vs)
  then obtain g where f: "f = Suc g" by (cases f) auto
  obtain h ts where t: "tokens v = h # ts" "h \<noteq> Delim (CHR '']'')" "h \<noteq> Delim (CHR ''}'')"
    by (rule tokens_Cons)
  let ?rest = "concat (map tokens vs) @ Delim (CHR '']'') # r"
  have "validateJSONValue g t (Suc d) (tokens v @ ?rest) = (if shaped t (Suc d) v then Some ?rest else None)"
    using Cons.prems f by (intro typed_atD) auto
  moreover have "validate_array g t d ?rest = (if \<forall>v \<in> set vs. shaped t (Suc d) v then Some r else None)"
    using Cons.prems f by (intro Cons.IH) auto
  ultimately show ?case using t by (simp add: f del: validateJSONValue.simps)
qed

lemma validate_object_tokens:
  assumes "\<forall>m \<in> set ms. \<forall>t. ty (fst m) = Some t \<longrightarrow> typed_at (Suc d) t (snd m)"
    and "Suc (sum_list (map (\<lambda>m. Suc (vfuel (snd m))) ms)) \<le> f"
  shows "validate_object f ty seen d (concat (map (\<lambda>m. TokStr (fst m) # tokens (snd m)) ms) @ Delim (CHR ''}'') # r) =
    (if distinct (map fst ms) \<and> seen \<inter> set (map fst ms) = {} \<and>
        (\<forall>m \<in> set ms. case ty (fst m) of None \<Rightarrow> False | Some t \<Rightarrow> shaped t (Suc d) (snd m))
     then Some r else None)"
  using assms
proof (induction ms arbitrary: f seen)
  case Nil
  then show ?case by (cases f) auto
next
  case (Cons m ms)
  then obtain g where f: "f = Suc g" by (cases f) auto
  let ?rest = "concat (map (\<lambda>m. TokStr (fst m) # tokens (snd m)) ms) @ Delim (CHR ''}'') # r"
  show ?case
  proof (cases "ty (fst m)")
    case None
    then show ?thesis by (simp add: f)
  next
    case (Some t)
    have "validateJSONValue g t (Suc d) (tokens (snd m) @ ?rest) =
        (if shaped t (Suc d) (snd m) then Some ?rest else None)"
      using Cons.prems f Some by (intro typed_atD) auto
    moreover have "validate_object g ty (insert (fst m) seen) d ?rest =
      (if distinct (map fst ms) \<and> insert (fst m) seen \<inter> set (map fst ms) = {} \<and>
          (\<forall>m \<in> set ms. case ty (fst m) of None \<Rightarrow> False | Some t \<Rightarrow> shaped t (Suc d) (snd m))
       then Some r else None)"
      using Cons.prems f by (intro Cons.IH) auto
    ultimately show ?thesis using Some by (auto simp: f simp del: validateJSONValue.simps)
  qed
qed

lemma typed_at_scalar:
  assumes "tokens v = [tok]" "vfuel v = 2" "tok \<noteq> TokNull"
    and "\<And>c. tok \<noteq> Delim c"
    and "\<And>r. shaped t d v \<longleftrightarrow> d \<le> 32 \<and>
      (strip_ptr t = TRaw \<or> strip_ptr t = TString \<and> (\<exists>s. tok = TokStr s) \<or>
       strip_ptr t = TBool \<and> (\<exists>b. tok = TokBool b) \<or> (strip_ptr t = TInt64 \<or> strip_ptr t = TUint64) \<and> (\<exists>n. tok = TokNum n))"
  shows "typed_at d t v"
proof -
  have "validateJSONValue f t d (tok # r) = (if shaped t d v then Some r else None)"
    if "2 \<le> f" for f r
  proof -
    obtain g where "f = Suc (Suc g)" using \<open>2 \<le> f\<close> by (metis Suc_le_D numeral_2_eq_2 Suc_le_mono)
    then show ?thesis
      using assms(3-5) by (cases "strip_ptr t"; cases tok) auto
  qed
  then show ?thesis using assms(1,2) by (simp add: typed_at_def)
qed

lemma typed_at_array:
  assumes "\<And>u. strip_ptr t = TSlice u \<Longrightarrow> \<forall>v \<in> set vs. typed_at (Suc d) u v"
  shows "typed_at d t (JArr vs)"
  unfolding typed_at_def
proof (intro allI impI)
  fix f r
  assume le: "vfuel (JArr vs) \<le> f"
  then obtain g where f: "f = Suc g" and g: "Suc (sum_list (map (\<lambda>v. Suc (vfuel v)) vs)) \<le> g" "vfuel (JArr vs) \<le> Suc g"
    by (cases f) auto
  have a: "validateArbitraryJSON g (Delim (CHR ''['')) d (concat (map tokens vs) @ Delim (CHR '']'') # r) =
      (if arbitrary_ok d (JArr vs) then Some r else None)"
    using arb_atD [OF arb_at_all, of "JArr vs" _ _ g d r] g(2) by simp
  show "validateJSONValue f t d (tokens (JArr vs) @ r) = (if shaped t d (JArr vs) then Some r else None)"
    using a assms validate_array_tokens [OF _ g(1), of d _ r]
    by (cases "strip_ptr t") (auto simp: f simp del: arbitrary_ok.simps)
qed

lemma typed_at_object:
  assumes "\<And>fs m u. strip_ptr t = TStruct fs \<Longrightarrow> m \<in> set ms \<Longrightarrow> map_of fs (fst m) = Some u \<Longrightarrow> typed_at (Suc d) u (snd m)"
    and "\<And>u m. strip_ptr t = TMap u \<Longrightarrow> m \<in> set ms \<Longrightarrow> typed_at (Suc d) u (snd m)"
  shows "typed_at d t (JObj ms)"
  unfolding typed_at_def
proof (intro allI impI)
  fix f r
  assume le: "vfuel (JObj ms) \<le> f"
  then obtain g where f: "f = Suc g" and g: "Suc (sum_list (map (\<lambda>m. Suc (vfuel (snd m))) ms)) \<le> g" "vfuel (JObj ms) \<le> Suc g"
    by (cases f) auto
  let ?ts = "concat (map (\<lambda>m. TokStr (fst m) # tokens (snd m)) ms) @ Delim (CHR ''}'') # r"
  have a: "validateArbitraryJSON g (Delim (CHR ''{'')) d ?ts = (if arbitrary_ok d (JObj ms) then Some r else None)"
    using arb_atD [OF arb_at_all, of "JObj ms" _ _ g d r] g(2) by simp
  have st: "validate_object g (map_of fs) {} d ?ts = (if shaped t d (JObj ms) then Some r else None)"
    if "strip_ptr t = TStruct fs" "d \<le> 32" for fs
    using that assms(1) by (subst validate_object_tokens [OF _ g(1)]) auto
  have mp: "validate_object g (\<lambda>_. Some u) {} d ?ts = (if shaped t d (JObj ms) then Some r else None)"
    if "strip_ptr t = TMap u" "d \<le> 32" for u
    using that assms(2) by (subst validate_object_tokens [OF _ g(1)]) auto
  show "validateJSONValue f t d (tokens (JObj ms) @ r) = (if shaped t d (JObj ms) then Some r else None)"
    using a st mp by (cases "strip_ptr t") (auto simp: f simp del: arbitrary_ok.simps)
qed

lemma typed_at_all: "typed_at d t v"
proof (induction t d v rule: shaped.induct)
  case (1 t d)
  then show ?case by (auto simp: typed_at_def dest!: Suc_le_D simp: numeral_2_eq_2)
next
  case (5 t d vs)
  then show ?case by (intro typed_at_array) auto
next
  case (6 t d ms)
  then show ?case by (intro typed_at_object) auto
qed (rule typed_at_scalar, auto)+

lemma sum_list_le_concat:
  "(\<And>x. x \<in> set xs \<Longrightarrow> Suc (f x) \<le> 4 * length (g x)) \<Longrightarrow>
    sum_list (map (\<lambda>x. Suc (f x)) xs) \<le> 4 * length (concat (map g xs))"
proof (induction xs)
  case (Cons x xs)
  then have "Suc (f x) \<le> 4 * length (g x)"
    "sum_list (map (\<lambda>x. Suc (f x)) xs) \<le> 4 * length (concat (map g xs))"
    by auto
  then show ?case by simp
qed simp

lemma vfuel_tokens: "Suc (vfuel v) \<le> 4 * length (tokens v)"
proof (induction v rule: vfuel.induct)
  case (1 vs)
  then have "sum_list (map (\<lambda>v. Suc (vfuel v)) vs) \<le> 4 * length (concat (map tokens vs))"
    by (rule sum_list_le_concat)
  then show ?case by simp
next
  case (2 ms)
  then have "sum_list (map (\<lambda>m. Suc (vfuel (snd m))) ms) \<le>
      4 * length (concat (map (\<lambda>m. TokStr (fst m) # tokens (snd m)) ms))"
    by (intro sum_list_le_concat) fastforce
  then show ?case by simp
qed simp_all

lemma validateJSONValue_shaped:
  "validateJSONValue (4 * length (tokens v)) t 0 (tokens v) = (if shaped t 0 v then Some [] else None)"
  using typed_atD [OF typed_at_all, of v "4 * length (tokens v)" t 0 "[]"] vfuel_tokens [of v] by simp

subsection \<open>Both passes\<close>

lemma number_fits_raw [simp]: "number_fits TRaw n"
  by (simp add: number_fits_def)

lemma number_fits_stores:
  "number_fits (strip_ptr t) n \<longleftrightarrow> shaped t 0 (JNum n) \<and> stores t (JNum n)"
  by (cases "strip_ptr t")
    (auto simp: number_fits_def parse_i64_def parse_u64_def min_int64_def max_int64_def split: option.splits)

lemma conforms_passes: "conforms t d v \<longleftrightarrow> shaped t d v \<and> stores t v"
proof (induction t d v rule: conforms.induct)
  case (2 t d b)
  then show ?case by (cases "strip_ptr t") auto
next
  case (3 t d n)
  then show ?case using number_fits_stores [of t n] by auto
next
  case (4 t d s)
  then show ?case by (cases "strip_ptr t") auto
next
  case (5 t d vs)
  then show ?case by (cases "strip_ptr t") auto
next
  case (6 t d ms)
  then show ?case by (cases "strip_ptr t") (auto split: option.splits)
qed simp

lemma DecodeStrictInto_iff:
  "DecodeStrictInto raw n t = Ok v \<longleftrightarrow>
     0 < length raw \<and> length raw \<le> n \<and> json_document raw = Some v \<and> conforms t 0 v"
  by (auto simp: DecodeStrictInto_def validateJSONValue_shaped conforms_passes split: option.splits if_splits)

end
