(* ===== verification/Base64.thy ===== *)
theory Base64
  imports Go_Text
begin

text \<open>
  Go's \<open>encoding/base64\<close>: \<open>StdEncoding\<close> (padded, alphabet with + and /) and \<open>RawURLEncoding\<close>
  (unpadded, alphabet with - and \_). The decoder skips carriage returns and line feeds and ignores
  unused trailing bits, as Go's does; callers therefore compare the re-encoded bytes.
\<close>

datatype b64 = Std | RawURL

definition b64_char :: "b64 \<Rightarrow> nat \<Rightarrow> char" where
  "b64_char e n =
     (if n < 26 then chr (65 + n) else if n < 52 then chr (71 + n) else if n < 62 then chr (n - 4)
      else if n = 62 then (if e = Std then CHR ''+'' else CHR ''-'')
      else (if e = Std then CHR ''/'' else CHR ''_''))"

definition b64_value :: "b64 \<Rightarrow> char \<Rightarrow> nat option" where
  "b64_value e c =
     (if is_upper c then Some (byte c - 65)
      else if is_lower c then Some (byte c - 71)
      else if is_digit c then Some (byte c + 4)
      else if c = (if e = Std then CHR ''+'' else CHR ''-'') then Some 62
      else if c = (if e = Std then CHR ''/'' else CHR ''_'') then Some 63
      else None)"

definition b64_pad :: "b64 \<Rightarrow> bytes \<Rightarrow> bytes" where
  "b64_pad e p = (if e = Std then p else [])"

fun b64_encode :: "b64 \<Rightarrow> bytes \<Rightarrow> bytes" where
  "b64_encode e [] = []"
| "b64_encode e [a] =
     [b64_char e (byte a div 4), b64_char e (byte a mod 4 * 16)] @ b64_pad e ''==''"
| "b64_encode e [a, b] =
     [b64_char e (byte a div 4), b64_char e (byte a mod 4 * 16 + byte b div 16),
      b64_char e (byte b mod 16 * 4)] @ b64_pad e ''=''"
| "b64_encode e (a # b # c # s) =
     b64_char e (byte a div 4) # b64_char e (byte a mod 4 * 16 + byte b div 16) #
     b64_char e (byte b mod 16 * 4 + byte c div 64) # b64_char e (byte c mod 64) # b64_encode e s"

definition b64_join2 :: "nat \<Rightarrow> nat \<Rightarrow> char" where
  "b64_join2 x y = chr (x * 4 + y div 16)"

definition b64_join3 :: "nat \<Rightarrow> nat \<Rightarrow> char" where
  "b64_join3 y z = chr (y mod 16 * 16 + z div 4)"

definition b64_join4 :: "nat \<Rightarrow> nat \<Rightarrow> char" where
  "b64_join4 z w = chr (z mod 4 * 64 + w)"

fun b64_quanta :: "b64 \<Rightarrow> bytes \<Rightarrow> bytes option" where
  "b64_quanta e [] = Some []"
| "b64_quanta e (a # b # c # d # s) =
     (case (b64_value e a, b64_value e b) of
        (Some x, Some y) \<Rightarrow>
          (case (b64_value e c, b64_value e d) of
             (Some z, Some w) \<Rightarrow>
               map_option (\<lambda>r. b64_join2 x y # b64_join3 y z # b64_join4 z w # r) (b64_quanta e s)
           | (Some z, None) \<Rightarrow>
               if e = Std \<and> d = CHR ''='' \<and> s = [] then Some [b64_join2 x y, b64_join3 y z] else None
           | (None, _) \<Rightarrow>
               if e = Std \<and> c = CHR ''='' \<and> d = CHR ''='' \<and> s = [] then Some [b64_join2 x y] else None)
      | _ \<Rightarrow> None)"
| "b64_quanta e [a, b, c] =
     (case (b64_value e a, b64_value e b, b64_value e c) of
        (Some x, Some y, Some z) \<Rightarrow> if e = RawURL then Some [b64_join2 x y, b64_join3 y z] else None
      | _ \<Rightarrow> None)"
| "b64_quanta e [a, b] =
     (case (b64_value e a, b64_value e b) of
        (Some x, Some y) \<Rightarrow> if e = RawURL then Some [b64_join2 x y] else None
      | _ \<Rightarrow> None)"
| "b64_quanta e [a] = None"

definition b64_decode :: "b64 \<Rightarrow> bytes \<Rightarrow> bytes option" where
  "b64_decode e s = b64_quanta e (filter (\<lambda>c. byte c \<noteq> 10 \<and> byte c \<noteq> 13) s)"

definition b64_encoded_len :: "b64 \<Rightarrow> nat \<Rightarrow> nat" where
  "b64_encoded_len e n = (if e = Std then (n + 2) div 3 * 4 else n div 3 * 4 + (n mod 3 * 8 + 5) div 6)"

section \<open>Round trip\<close>

lemma b64_value_char [simp]: "n < 64 \<Longrightarrow> b64_value e (b64_char e n) = Some n"
proof -
  assume n: "n < 64"
  consider "n < 26" | "26 \<le> n" "n < 52" | "52 \<le> n" "n < 62" | "n = 62" | "n = 63"
    using n by linarith
  then show ?thesis
    by cases (auto simp: b64_char_def b64_value_def is_upper_def is_lower_def is_digit_def)
qed

definition b64_alphabet :: "char \<Rightarrow> bool" where
  "b64_alphabet c \<longleftrightarrow> is_upper c \<or> is_lower c \<or> is_digit c \<or> byte c \<in> {43, 45, 47, 61, 95}"

lemma b64_char_alphabet: "n < 64 \<Longrightarrow> b64_alphabet (b64_char e n)"
  by (auto simp: b64_char_def b64_alphabet_def is_upper_def is_lower_def is_digit_def)

lemma b64_alphabet_pad: "b64_alphabet (CHR ''='')"
  by (simp add: b64_alphabet_def)

lemma b64_value_pad [simp]: "b64_value e (CHR ''='') = None"
  by (simp add: b64_value_def is_upper_def is_lower_def is_digit_def byte_def)

lemma b64_parts [simp]:
  "byte a div 4 < 64" "byte a mod 4 * 16 < 64" "byte a mod 4 * 16 + byte b div 16 < 64"
  "byte b mod 16 * 4 < 64" "byte b mod 16 * 4 + byte c div 64 < 64" "byte c mod 64 < 64"
  using byte_less [of a] byte_less [of b] byte_less [of c] by linarith+

lemma b64_join_parts [simp]:
  "b64_join2 (byte a div 4) (byte a mod 4 * 16) = a"
  "b64_join2 (byte a div 4) (byte a mod 4 * 16 + byte b div 16) = a"
  "b64_join3 (byte a mod 4 * 16 + byte b div 16) (byte b mod 16 * 4) = b"
  "b64_join3 (byte a mod 4 * 16 + byte b div 16) (byte b mod 16 * 4 + byte c div 64) = b"
  "b64_join4 (byte b mod 16 * 4 + byte c div 64) (byte c mod 64) = c"
proof -
  have b: "byte b div 16 < 16" and c: "byte c div 64 < 4"
    using byte_less [of b] byte_less [of c] by linarith+
  have e: "byte a div 4 * 4 + (byte a mod 4 * 16 + k) div 16 = byte a" if "k < 16" for k
    using that div_mult_mod_eq [of "byte a" 4] by simp
  have m: "(byte a mod 4 * 16 + byte b div 16) mod 16 = byte b div 16" using b by simp
  have f: "byte b div 16 * 16 + (byte b mod 16 * 4 + k) div 4 = byte b" if "k < 4" for k
    using that div_mult_mod_eq [of "byte b" 16] by simp
  have n: "(byte b mod 16 * 4 + byte c div 64) mod 4 = byte c div 64" using c by simp
  show "b64_join2 (byte a div 4) (byte a mod 4 * 16) = a"
    using e [of 0] by (simp add: b64_join2_def)
  show "b64_join2 (byte a div 4) (byte a mod 4 * 16 + byte b div 16) = a"
    using e [OF b] by (simp add: b64_join2_def)
  show "b64_join3 (byte a mod 4 * 16 + byte b div 16) (byte b mod 16 * 4) = b"
    unfolding b64_join3_def m using f [of 0] by simp
  show "b64_join3 (byte a mod 4 * 16 + byte b div 16) (byte b mod 16 * 4 + byte c div 64) = b"
    unfolding b64_join3_def m using f [OF c] by simp
  show "b64_join4 (byte b mod 16 * 4 + byte c div 64) (byte c mod 64) = c"
    unfolding b64_join4_def n by simp
qed

lemma b64_quanta_encode: "b64_quanta e (b64_encode e s) = Some s"
proof (induction e s rule: b64_encode.induct)
  case (2 e a)
  then show ?case by (cases e) (simp_all add: b64_pad_def)
next
  case (3 e a b)
  then show ?case by (cases e) (simp_all add: b64_pad_def)
qed simp_all

lemma b64_encode_alphabet: "c \<in> set (b64_encode e s) \<Longrightarrow> b64_alphabet c"
  by (induction e s rule: b64_encode.induct)
    (auto simp: b64_pad_def b64_char_alphabet b64_alphabet_pad split: if_splits)

theorem b64_decode_encode [simp, wire_simps]: "b64_decode e (b64_encode e s) = Some s"
proof -
  have "filter (\<lambda>c. byte c \<noteq> 10 \<and> byte c \<noteq> 13) (b64_encode e s) = b64_encode e s"
    by (auto simp: filter_id_conv b64_alphabet_def is_upper_def is_lower_def is_digit_def
        dest!: b64_encode_alphabet)
  then show ?thesis by (simp add: b64_decode_def b64_quanta_encode)
qed

lemma b64_encode_inj: "b64_encode e s = b64_encode e t \<Longrightarrow> s = t"
  by (metis b64_decode_encode option.inject)

lemma length_b64_encode: "length (b64_encode e s) = b64_encoded_len e (length s)"
proof (induction e s rule: b64_encode.induct)
  case (2 e a)
  then show ?case by (cases e) (simp_all add: b64_pad_def b64_encoded_len_def)
next
  case (3 e a b)
  then show ?case by (cases e) (simp_all add: b64_pad_def b64_encoded_len_def)
next
  case (4 e a b c s)
  have "Suc (Suc (Suc (length s))) = 3 + length s" by simp
  moreover have "(5 + length s) div 3 = Suc (Suc (Suc (length s)) div 3)"
    by presburger
  ultimately show ?case
    using 4 by (cases e) (simp_all add: b64_encoded_len_def div_add_self1 mod_add_self1 add.assoc [symmetric])
qed (simp add: b64_encoded_len_def)

lemma b64_encoded_len_mono: "m \<le> n \<Longrightarrow> b64_encoded_len Std m \<le> b64_encoded_len Std n"
  by (simp add: b64_encoded_len_def div_le_mono)

lemma b64_encode_nonempty: "s \<noteq> [] \<Longrightarrow> b64_encode e s \<noteq> []"
  by (cases "(e, s)" rule: b64_encode.cases) auto

end
