(* ===== verification/Dsse.thy ===== *)
theory Dsse
  imports Strict_Json Base64
begin

text \<open>
  \<open>internal/dsse/dsse.go\<close>: the DSSE envelope that every signed Steward artifact uses, its
  pre-authentication encoding, signing, verification, and the strict JSON decoder that refuses
  unknown and duplicate members. Ed25519 and SHA-256 are parameters of the model (the record
  \<open>crypto\<close>); what the code relies on is the predicate \<open>crypto_ok\<close>.
\<close>

declare b64_encode.simps [simp del]

section \<open>Cryptographic parameters\<close>

record crypto =
  sha256 :: "bytes \<Rightarrow> bytes"
  ed_public :: "bytes \<Rightarrow> bytes"
  ed_sign :: "bytes \<Rightarrow> bytes \<Rightarrow> bytes"
  ed_verify :: "bytes \<Rightarrow> bytes \<Rightarrow> bytes \<Rightarrow> bool"

text \<open>
  Documented behaviour: SHA-256 digests have 32 bytes, public keys 32, signatures 64, and a
  signature verifies under the public key of the private key that made it.
\<close>

definition crypto_ok :: "crypto \<Rightarrow> bool" where
  "crypto_ok c \<longleftrightarrow>
     (\<forall>m. length (sha256 c m) = 32) \<and>
     (\<forall>k. length k = 64 \<longrightarrow> length (ed_public c k) = 32) \<and>
     (\<forall>k m. length k = 64 \<longrightarrow> length (ed_sign c k m) = 64) \<and>
     (\<forall>k m. length k = 64 \<longrightarrow> ed_verify c (ed_public c k) m (ed_sign c k m))"

section \<open>Envelopes\<close>

definition DefaultMaxEnvelopeBytes :: nat where "DefaultMaxEnvelopeBytes = 1048576"
definition MaxPayloadBytes :: nat where "MaxPayloadBytes = 524288"

record Signature =
  KeyID :: bytes
  Sig :: bytes

record Envelope =
  PayloadType :: bytes
  Payload :: bytes
  Signatures :: "Signature list"

definition PAE :: "bytes \<Rightarrow> bytes \<Rightarrow> bytes" where
  "PAE payloadType payload =
     ''DSSEv1 '' @ itoa (length payloadType) @ '' '' @ payloadType @ '' '' @
     itoa (length payload) @ '' '' @ payload"

text \<open>The test \<open>Sign\<close>, \<open>AddSignature\<close> and \<open>validateEnvelope\<close> make on payload types and key IDs.\<close>

definition bad_name :: "bytes \<Rightarrow> bool" where
  "bad_name s \<longleftrightarrow> trim_space s = [] \<or> length s > 256 \<or> contains_nul s"

abbreviation malformed :: "string \<Rightarrow> 'a result" where
  "malformed m \<equiv> wrap_err ErrMalformedEnvelope m"

definition Sign :: "crypto \<Rightarrow> bytes \<Rightarrow> bytes \<Rightarrow> bytes \<Rightarrow> bytes \<Rightarrow> Envelope result" where
  "Sign c payloadType payload keyID privateKey =
     (if bad_name payloadType then malformed ''invalid payload type''
      else if bad_name keyID then malformed ''invalid key ID''
      else if length privateKey \<noteq> 64 then malformed ''invalid private key''
      else if length payload > MaxPayloadBytes then malformed ''payload exceeds limit''
      else Ok \<lparr>PayloadType = payloadType, Payload = b64_encode Std payload,
               Signatures = [\<lparr>KeyID = keyID,
                 Sig = b64_encode Std (ed_sign c privateKey (PAE payloadType payload))\<rparr>]\<rparr>)"

fun validate_signatures :: "bytes set \<Rightarrow> Signature list \<Rightarrow> unit result" where
  "validate_signatures seen [] = Ok ()"
| "validate_signatures seen (s # ss) =
     (if bad_name (KeyID s) then malformed ''invalid signature key ID''
      else if KeyID s \<in> seen then malformed ''duplicate signature key ID''
      else if length (Sig s) = 0 \<or> length (Sig s) > b64_encoded_len Std 64 then malformed ''invalid signature''
      else validate_signatures (insert (KeyID s) seen) ss)"

definition validateEnvelope :: "Envelope \<Rightarrow> unit result" where
  "validateEnvelope e =
     (if bad_name (PayloadType e) then malformed ''invalid payload type''
      else if length (Payload e) = 0 \<or> length (Payload e) > b64_encoded_len Std MaxPayloadBytes
        then malformed ''invalid payload length''
      else if length (Signatures e) = 0 \<or> length (Signatures e) > 16
        then malformed ''invalid signature count''
      else validate_signatures {} (Signatures e))"

definition AddSignature :: "crypto \<Rightarrow> Envelope \<Rightarrow> bytes \<Rightarrow> bytes \<Rightarrow> Envelope result" where
  "AddSignature c e keyID privateKey =
     and_then (validateEnvelope e) (\<lambda>_.
       if bad_name keyID \<or> length privateKey \<noteq> 64 then malformed ''invalid signing identity''
       else if length (Signatures e) \<ge> 16 then malformed ''invalid signature count''
       else if keyID \<in> KeyID ` set (Signatures e) then malformed ''duplicate signature key ID''
       else (case b64_decode Std (Payload e) of
               None \<Rightarrow> malformed ''invalid payload encoding''
             | Some payload \<Rightarrow>
                 if b64_encode Std payload \<noteq> Payload e then malformed ''invalid payload encoding''
                 else Ok (e\<lparr>Signatures := sort_key KeyID (Signatures e @
                        [\<lparr>KeyID = keyID, Sig = b64_encode Std (ed_sign c privateKey (PAE (PayloadType e) payload))\<rparr>])\<rparr>)))"

section \<open>Envelopes on the wire\<close>

definition signature_type :: gotype where
  "signature_type = TStruct [(''keyid'', TString), (''sig'', TString)]"

definition envelope_type :: gotype where
  "envelope_type = TStruct [(''payloadType'', TString), (''payload'', TString),
     (''signatures'', TSlice signature_type)]"

text \<open>Reading a string member of a decoded object; an absent member keeps the zero value.\<close>

definition member :: "bytes \<Rightarrow> json \<Rightarrow> json option" where
  "member k v = (case v of JObj ms \<Rightarrow> map_of ms k | _ \<Rightarrow> None)"

definition str_member :: "bytes \<Rightarrow> json \<Rightarrow> bytes" where
  "str_member k v = (case member k v of Some (JStr s) \<Rightarrow> s | _ \<Rightarrow> [])"

definition signature_json :: "Signature \<Rightarrow> json" where
  "signature_json s = JObj [(''keyid'', JStr (KeyID s)), (''sig'', JStr (Sig s))]"

definition envelope_json :: "Envelope \<Rightarrow> json" where
  "envelope_json e = JObj [(''payloadType'', JStr (PayloadType e)), (''payload'', JStr (Payload e)),
     (''signatures'', JArr (map signature_json (Signatures e)))]"

definition signature_of_json :: "json \<Rightarrow> Signature" where
  "signature_of_json v = \<lparr>KeyID = str_member ''keyid'' v, Sig = str_member ''sig'' v\<rparr>"

definition envelope_of_json :: "json \<Rightarrow> Envelope" where
  "envelope_of_json v = \<lparr>PayloadType = str_member ''payloadType'' v, Payload = str_member ''payload'' v,
     Signatures = (case member ''signatures'' v of Some (JArr vs) \<Rightarrow> map signature_of_json vs | _ \<Rightarrow> [])\<rparr>"

definition Marshal :: "Envelope \<Rightarrow> bytes result" where
  "Marshal e = and_then (validateEnvelope e) (\<lambda>_. Ok (json_print (envelope_json e)))"

definition Parse :: "bytes \<Rightarrow> Envelope result" where
  "Parse raw =
     (case DecodeStrictInto raw DefaultMaxEnvelopeBytes envelope_type of
        Inl err \<Rightarrow> malformed (message_of err)
      | Inr v \<Rightarrow>
          (let e = envelope_of_json v in and_then (validateEnvelope e) (\<lambda>_. Ok e)))"

fun verify_loop :: "crypto \<Rightarrow> (bytes \<Rightarrow> bytes option) \<Rightarrow> bytes \<Rightarrow> bytes \<Rightarrow> Signature list \<Rightarrow> (bytes \<times> bytes) result" where
  "verify_loop c trusted message payload [] = wrap_err ErrNoTrustedSignature []"
| "verify_loop c trusted message payload (s # ss) =
     (case trusted (KeyID s) of
        None \<Rightarrow> verify_loop c trusted message payload ss
      | Some key \<Rightarrow>
          if length key \<noteq> 32 then verify_loop c trusted message payload ss
          else (case b64_decode Std (Sig s) of
                  None \<Rightarrow> verify_loop c trusted message payload ss
                | Some sig \<Rightarrow>
                    if length sig = 64 \<and> ed_verify c key message sig then Ok (payload, KeyID s)
                    else verify_loop c trusted message payload ss))"

definition Verify :: "crypto \<Rightarrow> bytes \<Rightarrow> bytes \<Rightarrow> (bytes \<Rightarrow> bytes option) \<Rightarrow> (bytes \<times> bytes) result" where
  "Verify c raw expectedPayloadType trusted =
     and_then (Parse raw) (\<lambda>e.
       if PayloadType e \<noteq> expectedPayloadType then malformed ''unexpected payload type''
       else (case b64_decode Std (Payload e) of
               None \<Rightarrow> malformed ''invalid payload encoding''
             | Some payload \<Rightarrow>
                 if length payload > MaxPayloadBytes then malformed ''invalid payload encoding''
                 else verify_loop c trusted (PAE (PayloadType e) payload) payload (Signatures e)))"

fun verify_all_loop :: "crypto \<Rightarrow> (bytes \<Rightarrow> bytes option) \<Rightarrow> bytes \<Rightarrow> bytes option \<Rightarrow> Signature list \<Rightarrow> bytes list result" where
  "verify_all_loop c trusted message previous [] = Ok []"
| "verify_all_loop c trusted message previous (s # ss) =
     (if (case previous of Some p \<Rightarrow> p \<ge> KeyID s | None \<Rightarrow> False)
      then malformed ''signatures are not in canonical key ID order''
      else (case (trusted (KeyID s), b64_decode Std (Sig s)) of
              (Some key, Some sig) \<Rightarrow>
                if length key \<noteq> 32 \<or> length sig \<noteq> 64 \<or> b64_encode Std sig \<noteq> Sig s \<or> \<not> ed_verify c key message sig
                then wrap_err ErrNoTrustedSignature []
                else and_then (verify_all_loop c trusted message (Some (KeyID s)) ss) (\<lambda>ks. Ok (KeyID s # ks))
            | _ \<Rightarrow> wrap_err ErrNoTrustedSignature []))"

definition VerifyAll :: "crypto \<Rightarrow> bytes \<Rightarrow> bytes \<Rightarrow> (bytes \<Rightarrow> bytes option) \<Rightarrow> (bytes \<times> bytes list) result" where
  "VerifyAll c raw expectedPayloadType trusted =
     and_then (Parse raw) (\<lambda>e.
       if PayloadType e \<noteq> expectedPayloadType then malformed ''unexpected payload type''
       else (case b64_decode Std (Payload e) of
               None \<Rightarrow> malformed ''invalid payload encoding''
             | Some payload \<Rightarrow>
                 if length payload > MaxPayloadBytes \<or> b64_encode Std payload \<noteq> Payload e
                 then malformed ''invalid payload encoding''
                 else and_then (verify_all_loop c trusted (PAE (PayloadType e) payload) None (Signatures e))
                        (\<lambda>ks. Ok (payload, ks))))"

definition Digest :: "crypto \<Rightarrow> bytes \<Rightarrow> bytes" where
  "Digest c raw = ''sha256:'' @ hex_encode (sha256 c raw)"

section \<open>The pre-authentication encoding is unambiguous\<close>

lemma digits_then_space:
  assumes "itoa a @ CHR '' '' # x = itoa b @ CHR '' '' # y"
  shows "a = b \<and> x = y"
proof -
  have sp: "\<not> is_digit (CHR '' '')" by (simp add: is_digit_def)
  have tw: "takeWhile is_digit (itoa n @ CHR '' '' # z) = itoa n" for n z
    using itoa_digits [of _ n] sp by (simp add: takeWhile_append2)
  from arg_cong [OF assms, of "takeWhile is_digit"] have "itoa a = itoa b" by (simp add: tw)
  with assms show ?thesis by (simp add: itoa_inj)
qed

lemma PAE_inj: "PAE t p = PAE t' p' \<Longrightarrow> t = t' \<and> p = p'"
proof -
  assume "PAE t p = PAE t' p'"
  then have "itoa (length t) @ CHR '' '' # (t @ '' '' @ itoa (length p) @ '' '' @ p) =
      itoa (length t') @ CHR '' '' # (t' @ '' '' @ itoa (length p') @ '' '' @ p')"
    by (simp add: PAE_def)
  then have l: "length t = length t'"
    and r: "t @ '' '' @ itoa (length p) @ '' '' @ p = t' @ '' '' @ itoa (length p') @ '' '' @ p'"
    using digits_then_space by blast+
  from l r have t: "t = t'" and "itoa (length p) @ CHR '' '' # p = itoa (length p') @ CHR '' '' # p'"
    by (simp_all add: append_eq_append_conv)
  then show ?thesis using digits_then_space by blast
qed

section \<open>Validation, and the envelope round trip\<close>

lemma validate_signatures_iff:
  "validate_signatures seen ss = Ok () \<longleftrightarrow>
     distinct (map KeyID ss) \<and> seen \<inter> KeyID ` set ss = {} \<and>
     (\<forall>s \<in> set ss. \<not> bad_name (KeyID s) \<and> Sig s \<noteq> [] \<and> length (Sig s) \<le> b64_encoded_len Std 64)"
  by (induction ss arbitrary: seen) auto

lemma validateEnvelope_iff:
  "validateEnvelope e = Ok () \<longleftrightarrow>
     \<not> bad_name (PayloadType e) \<and> Payload e \<noteq> [] \<and> length (Payload e) \<le> b64_encoded_len Std MaxPayloadBytes \<and>
     Signatures e \<noteq> [] \<and> length (Signatures e) \<le> 16 \<and> distinct (map KeyID (Signatures e)) \<and>
     (\<forall>s \<in> set (Signatures e). \<not> bad_name (KeyID s) \<and> Sig s \<noteq> [] \<and> length (Sig s) \<le> b64_encoded_len Std 64)"
  by (auto simp: validateEnvelope_def validate_signatures_iff)

lemma validate_signatures_distinct:
  "validate_signatures seen ss = Ok () \<Longrightarrow> distinct (map KeyID ss)"
  by (simp add: validate_signatures_iff)

definition utf8_envelope :: "Envelope \<Rightarrow> bool" where
  "utf8_envelope e \<longleftrightarrow> valid_utf8 (PayloadType e) \<and> valid_utf8 (Payload e) \<and>
     (\<forall>s \<in> set (Signatures e). valid_utf8 (KeyID s) \<and> valid_utf8 (Sig s))"

lemma signature_of_signature_json [simp]: "signature_of_json (signature_json s) = s"
  by (simp add: signature_of_json_def signature_json_def str_member_def member_def)

lemma envelope_of_envelope_json [simp]: "envelope_of_json (envelope_json e) = e"
  by (simp add: envelope_of_json_def envelope_json_def str_member_def member_def map_idI)

lemma valid_utf8_literals:
  "valid_utf8 ''keyid''" "valid_utf8 ''sig''" "valid_utf8 ''payloadType''" "valid_utf8 ''payload''"
  "valid_utf8 ''signatures''"
  by (simp_all add: valid_utf8_ascii)

lemma wf_envelope_json: "utf8_envelope e \<Longrightarrow> wf_json (envelope_json e)"
  by (auto simp: utf8_envelope_def envelope_json_def signature_json_def valid_utf8_literals)

lemma conforms_envelope: "conforms envelope_type 0 (envelope_json e)"
  by (auto simp: envelope_type_def envelope_json_def signature_type_def signature_json_def)

lemma Parse_Ok_iff:
  "Parse raw = Ok e \<longleftrightarrow>
     (\<exists>v. raw \<noteq> [] \<and> length raw \<le> DefaultMaxEnvelopeBytes \<and> json_document raw = Some v \<and>
          conforms envelope_type 0 v \<and> envelope_of_json v = e \<and> validateEnvelope e = Ok ())"
proof (cases "DecodeStrictInto raw DefaultMaxEnvelopeBytes envelope_type")
  case (Inl err)
  then have "\<nexists>v. DecodeStrictInto raw DefaultMaxEnvelopeBytes envelope_type = Ok v" by simp
  then show ?thesis unfolding DecodeStrictInto_iff by (auto simp: Parse_def Inl)
next
  case (Inr v)
  then show ?thesis
    using DecodeStrictInto_iff [of raw DefaultMaxEnvelopeBytes envelope_type v]
    by (auto simp: Parse_def Let_def and_then_Inr_iff)
qed

theorem Parse_Marshal:
  assumes "Marshal e = Ok raw" "utf8_envelope e" "length raw \<le> DefaultMaxEnvelopeBytes"
  shows "Parse raw = Ok e"
proof -
  from assms(1) have v: "validateEnvelope e = Ok ()" and raw: "raw = json_print (envelope_json e)"
    by (auto simp: Marshal_def and_then_Inr_iff)
  have "raw \<noteq> []" unfolding raw using json_print_hd [OF wf_envelope_json [OF assms(2)]] by simp
  then show ?thesis
    using v raw assms(3) json_document_print [OF wf_envelope_json [OF assms(2)]] conforms_envelope
    by (auto simp: Parse_Ok_iff)
qed


subsection \<open>Every valid envelope fits the parser's limit\<close>

definition canonical_payload :: "Envelope \<Rightarrow> bool" where
  "canonical_payload e \<longleftrightarrow> (\<exists>p. Payload e = b64_encode Std p \<and> length p \<le> MaxPayloadBytes)"

lemma b64_alphabet_plain: "b64_alphabet c \<Longrightarrow> json_plain c"
  by (auto simp: b64_alphabet_def json_plain_def is_upper_def is_lower_def is_digit_def)

lemma json_quote_b64: "json_quote (b64_encode e p) = CHR 0x22 # b64_encode e p @ [CHR 0x22]"
  by (rule json_quote_plain) (auto intro: b64_alphabet_plain dest: b64_encode_alphabet)

lemma b64_encode_utf8: "valid_utf8 (b64_encode e p)"
  by (rule valid_utf8_plain) (auto intro: b64_alphabet_plain dest: b64_encode_alphabet)

lemma json_quote_bound: "length s \<le> n \<Longrightarrow> length (json_quote s) \<le> 6 * n + 2"
  using json_quote_length [of s] by linarith

lemma signature_json_length:
  assumes "length (KeyID s) \<le> 256" "length (Sig s) \<le> 88"
  shows "length (json_print (signature_json s)) \<le> 2200"
  using json_quote_bound [OF assms(1)] json_quote_bound [OF assms(2)]
    json_quote_bound [of "''keyid''" 5] json_quote_bound [of "''sig''" 3]
  by (simp add: signature_json_def)

lemma print_elems_length:
  assumes "\<forall>v \<in> set vs. length (json_print v) \<le> n"
  shows "length (print_elems vs) \<le> length vs * Suc n + 1"
  using assms by (induction vs rule: induct_list012) auto

theorem valid_envelope_fits:
  assumes "Marshal e = Ok raw" "canonical_payload e"
  shows "length raw \<le> DefaultMaxEnvelopeBytes"
proof -
  from assms(1) have v: "validateEnvelope e = Ok ()" and raw: "raw = json_print (envelope_json e)"
    by (auto simp: Marshal_def and_then_Inr_iff)
  note v = v [unfolded validateEnvelope_iff bad_name_def b64_encoded_len_def MaxPayloadBytes_def, simplified]
  have "length (print_elems (map signature_json (Signatures e))) \<le> length (map signature_json (Signatures e)) * Suc 2200 + 1"
    using v by (intro print_elems_length) (auto intro!: signature_json_length)
  moreover have "length (map signature_json (Signatures e)) * Suc 2200 \<le> 16 * Suc 2200"
    using v by (intro mult_le_mono1) simp
  ultimately have sigs: "length (print_elems (map signature_json (Signatures e))) \<le> 35217" by simp
  have payload: "length (json_quote (Payload e)) \<le> 699054"
    using assms(2) v by (auto simp: canonical_payload_def json_quote_b64)
  have ptype: "length (json_quote (PayloadType e)) \<le> 6 * 256 + 2"
    using v by (intro json_quote_bound) simp
  show ?thesis
    using sigs payload ptype json_quote_bound [of "''payloadType''" 11] json_quote_bound [of "''payload''" 7]
      json_quote_bound [of "''signatures''" 10]
    by (simp add: raw envelope_json_def DefaultMaxEnvelopeBytes_def)
qed

lemma Parse_Marshal_canonical:
  "Marshal e = Ok raw \<Longrightarrow> utf8_envelope e \<Longrightarrow> canonical_payload e \<Longrightarrow> Parse raw = Ok e"
  by (rule Parse_Marshal) (auto intro: valid_envelope_fits)

section \<open>Verification\<close>

definition authentic :: "crypto \<Rightarrow> (bytes \<Rightarrow> bytes option) \<Rightarrow> bytes \<Rightarrow> Signature \<Rightarrow> bool" where
  "authentic c trusted message s \<longleftrightarrow> (\<exists>key sig. trusted (KeyID s) = Some key \<and> length key = 32 \<and>
     b64_decode Std (Sig s) = Some sig \<and> length sig = 64 \<and> ed_verify c key message sig)"

lemma find_Some_split:
  "find P xs = Some s \<longleftrightarrow> (\<exists>before after. xs = before @ s # after \<and> P s \<and> find P before = None)"
proof (induction xs)
  case (Cons x xs)
  show ?case
  proof (cases "P x")
    case True
    then show ?thesis by (auto simp: Cons_eq_append_conv)
  next
    case False
    have "(\<exists>before after. x # xs = before @ s # after \<and> P s \<and> find P before = None) \<longleftrightarrow>
        (\<exists>before after. xs = before @ s # after \<and> P s \<and> find P before = None)" (is "?L = ?R")
    proof
      assume ?L
      then show ?R using False by (auto simp: Cons_eq_append_conv)
    next
      assume ?R
      then obtain before after where "xs = before @ s # after" "P s" "find P before = None" by blast
      then show ?L using False by (intro exI [of _ "x # before"] exI [of _ after]) simp
    qed
    then show ?thesis using Cons False by simp
  qed
qed simp

lemma verify_loop_iff:
  "verify_loop c trusted m p ss = Ok (p', k) \<longleftrightarrow>
     p' = p \<and> (\<exists>s. find (authentic c trusted m) ss = Some s \<and> KeyID s = k)"
  by (induction ss) (auto simp: authentic_def split: option.splits)

lemma verify_loop_error:
  "verify_loop c trusted m p ss = Inl e \<Longrightarrow> sentinel_of e = ErrNoTrustedSignature"
  by (induction ss) (auto simp: wrap_err_def split: option.splits if_splits)

lemma verify_all_loop_sound:
  assumes "verify_all_loop c trusted m prev ss = Ok ks"
  shows "ks = map KeyID ss \<and> sorted_wrt (<) (map KeyID ss) \<and>
    (\<forall>s \<in> set ss. authentic c trusted m s \<and> (\<exists>sig. Sig s = b64_encode Std sig) \<and> (\<forall>p. prev = Some p \<longrightarrow> p < KeyID s))"
  using assms
proof (induction ss arbitrary: prev ks)
  case (Cons s ss)
  from Cons.prems obtain key sig ks' where
    h: "trusted (KeyID s) = Some key" "b64_decode Std (Sig s) = Some sig" "length key = 32" "length sig = 64"
      "b64_encode Std sig = Sig s" "ed_verify c key m sig" "\<forall>p. prev = Some p \<longrightarrow> p < KeyID s"
    and r: "verify_all_loop c trusted m (Some (KeyID s)) ss = Ok ks'" "ks = KeyID s # ks'"
    by (auto simp: and_then_Inr_iff not_le split: option.splits if_splits)
  from Cons.IH [OF r(1)] h r(2) show ?case
    by (auto simp: authentic_def intro: less_trans) (metis h(5))+
qed simp

lemma verify_all_loop_complete:
  assumes "sorted_wrt (<) (map KeyID ss)"
    "\<forall>s \<in> set ss. authentic c trusted m s \<and> (\<exists>sig. Sig s = b64_encode Std sig) \<and> (\<forall>p. prev = Some p \<longrightarrow> p < KeyID s)"
  shows "verify_all_loop c trusted m prev ss = Ok (map KeyID ss)"
  using assms
proof (induction ss arbitrary: prev)
  case (Cons s ss)
  have "verify_all_loop c trusted m (Some (KeyID s)) ss = Ok (map KeyID ss)"
    using Cons.prems by (intro Cons.IH) auto
  with Cons.prems show ?case
    by (auto simp: authentic_def not_le split: option.splits)
qed simp

lemma Verify_Ok_iff:
  "Verify c raw pt trusted = Ok (p, k) \<longleftrightarrow>
     (\<exists>e s. Parse raw = Ok e \<and> PayloadType e = pt \<and> b64_decode Std (Payload e) = Some p \<and>
        length p \<le> MaxPayloadBytes \<and> find (authentic c trusted (PAE pt p)) (Signatures e) = Some s \<and> KeyID s = k)"
  by (auto simp: Verify_def and_then_Inr_iff verify_loop_iff not_less split: option.splits if_splits)

lemma VerifyAll_Ok_iff:
  "VerifyAll c raw pt trusted = Ok (p, ks) \<longleftrightarrow>
     (\<exists>e. Parse raw = Ok e \<and> PayloadType e = pt \<and> Payload e = b64_encode Std p \<and>
        length p \<le> MaxPayloadBytes \<and> sorted_wrt (<) (map KeyID (Signatures e)) \<and> ks = map KeyID (Signatures e) \<and>
        (\<forall>s \<in> set (Signatures e). authentic c trusted (PAE pt p) s \<and> (\<exists>sig. Sig s = b64_encode Std sig)))"
    (is "?L = ?R")
proof
  assume ?L
  then obtain e where "Parse raw = Ok e" "PayloadType e = pt" "Payload e = b64_encode Std p" "length p \<le> MaxPayloadBytes"
    "verify_all_loop c trusted (PAE pt p) None (Signatures e) = Ok ks"
    by (auto simp: VerifyAll_def and_then_Inr_iff not_less split: option.splits if_splits)
  then show ?R using verify_all_loop_sound by blast
next
  assume ?R
  then obtain e where e: "Parse raw = Ok e" "PayloadType e = pt" "Payload e = b64_encode Std p" "length p \<le> MaxPayloadBytes"
    "sorted_wrt (<) (map KeyID (Signatures e))" "ks = map KeyID (Signatures e)"
    "\<forall>s \<in> set (Signatures e). authentic c trusted (PAE pt p) s \<and> (\<exists>sig. Sig s = b64_encode Std sig)"
    by blast
  from e have "verify_all_loop c trusted (PAE pt p) None (Signatures e) = Ok (map KeyID (Signatures e))"
    by (intro verify_all_loop_complete) auto
  with e show ?L by (simp add: VerifyAll_def)
qed

section \<open>Signing\<close>

lemma crypto_ok_sign:
  assumes "crypto_ok c" "length key = 64" "trusted (KeyID s) = Some (ed_public c key)"
    "Sig s = b64_encode Std (ed_sign c key m)"
  shows "authentic c trusted m s"
  using assms by (auto simp: authentic_def crypto_ok_def)

lemma ed_sign_length: "crypto_ok c \<Longrightarrow> length key = 64 \<Longrightarrow> length (ed_sign c key m) = 64"
  by (simp add: crypto_ok_def)

lemma ed_sign_nonempty:
  assumes "crypto_ok c" "length key = 64"
  shows "b64_encode Std (ed_sign c key m) \<noteq> []"
  using ed_sign_length [OF assms, of m] by (intro b64_encode_nonempty) auto

lemma Sign_Ok:
  assumes "Sign c pt p k key = Ok e"
  shows "PayloadType e = pt" "Payload e = b64_encode Std p"
    "Signatures e = [\<lparr>KeyID = k, Sig = b64_encode Std (ed_sign c key (PAE pt p))\<rparr>]"
    "\<not> bad_name pt" "\<not> bad_name k" "length key = 64" "length p \<le> MaxPayloadBytes"
  using assms by (auto simp: Sign_def split: if_splits)

lemma Sign_canonical: "Sign c pt p k key = Ok e \<Longrightarrow> canonical_payload e"
  using Sign_Ok by (fastforce simp: canonical_payload_def)

lemma Sign_valid:
  assumes "crypto_ok c" "Sign c pt p k key = Ok e" "p \<noteq> []"
  shows "validateEnvelope e = Ok ()"
proof -
  note s = Sign_Ok [OF assms(2)]
  have "b64_encode Std (ed_sign c key (PAE pt p)) \<noteq> []"
    using assms(1) s(6) by (rule ed_sign_nonempty)
  then show ?thesis
    using s assms(1,3) b64_encode_nonempty [of p Std] b64_encoded_len_mono [OF s(7)]
    by (simp add: validateEnvelope_iff length_b64_encode crypto_ok_def)
qed

lemma Sign_Marshal_Parse:
  assumes "crypto_ok c" "Sign c pt p k key = Ok e" "p \<noteq> []" "valid_utf8 pt" "valid_utf8 k"
  obtains raw where "Marshal e = Ok raw" "Parse raw = Ok e"
proof -
  have v: "Marshal e = Ok (json_print (envelope_json e))"
    using Sign_valid [OF assms(1-3)] by (simp add: Marshal_def)
  moreover have "utf8_envelope e"
    using Sign_Ok [OF assms(2)] assms(4,5) by (simp add: utf8_envelope_def b64_encode_utf8)
  ultimately show ?thesis
    using that Parse_Marshal_canonical Sign_canonical [OF assms(2)] by blast
qed

section \<open>Co-signing\<close>

lemma AddSignature_Ok:
  assumes "AddSignature c e k key = Ok e'"
  obtains p where "validateEnvelope e = Ok ()" "\<not> bad_name k" "length key = 64" "length (Signatures e) < 16"
    "k \<notin> KeyID ` set (Signatures e)" "Payload e = b64_encode Std p"
    "e' = e\<lparr>Signatures := sort_key KeyID (Signatures e @
       [\<lparr>KeyID = k, Sig = b64_encode Std (ed_sign c key (PAE (PayloadType e) p))\<rparr>])\<rparr>"
  using assms
  by (auto simp: AddSignature_def and_then_Inr_iff not_le split: if_splits option.splits) metis

lemma sort_key_distinct_strict:
  fixes f :: "'a \<Rightarrow> 'b::linorder"
  assumes "distinct (map f xs)"
  shows "sorted_wrt (<) (map f (sort_key f xs))"
proof -
  have "distinct (map f (sort_key f xs))"
    using assms by (metis distinct_map distinct_sort set_sort)
  moreover have "sorted (map f (sort_key f xs))" by simp
  ultimately show ?thesis by (simp add: strict_sorted_iff)
qed

lemma sort_key_Nil_iff: "sort_key f xs = [] \<longleftrightarrow> xs = []"
  by (metis length_0_conv length_sort)

lemma AddSignature_valid:
  assumes "crypto_ok c" "AddSignature c e k key = Ok e'"
  shows "validateEnvelope e' = Ok ()" "sorted_wrt (<) (map KeyID (Signatures e'))"
proof -
  from assms(2) obtain p where v: "validateEnvelope e = Ok ()" "\<not> bad_name k" "length key = 64" "length (Signatures e) < 16"
    "k \<notin> KeyID ` set (Signatures e)" and
    e': "e' = e\<lparr>Signatures := sort_key KeyID (Signatures e @
       [\<lparr>KeyID = k, Sig = b64_encode Std (ed_sign c key (PAE (PayloadType e) p))\<rparr>])\<rparr>"
    by (rule AddSignature_Ok)
  let ?ss = "Signatures e @ [\<lparr>KeyID = k, Sig = b64_encode Std (ed_sign c key (PAE (PayloadType e) p))\<rparr>]"
  have d: "distinct (map KeyID ?ss)" using v by (auto simp: validateEnvelope_iff)
  show s: "sorted_wrt (<) (map KeyID (Signatures e'))"
    using sort_key_distinct_strict [OF d] by (simp add: e')
  have "distinct (map KeyID (Signatures e'))" using s by (simp add: strict_sorted_iff)
  moreover have "b64_encode Std (ed_sign c key (PAE (PayloadType e) p)) \<noteq> []"
    using assms(1) v(3) by (rule ed_sign_nonempty)
  ultimately show "validateEnvelope e' = Ok ()"
    using v ed_sign_length [OF assms(1) v(3)]
    by (auto simp: validateEnvelope_iff e' length_b64_encode sort_key_Nil_iff)
qed

lemma cosign_VerifyAll:
  assumes "crypto_ok c" "VerifyAll c raw pt trusted = Ok (p, ks)" "Parse raw = Ok e"
    "AddSignature c e k key = Ok e'" "valid_utf8 k" "utf8_envelope e" "trusted k = Some (ed_public c key)"
  shows "\<exists>raw'. Marshal e' = Ok raw' \<and> VerifyAll c raw' pt trusted = Ok (p, insort k ks)"
proof -
  from assms(4) obtain q where v: "length key = 64" "k \<notin> KeyID ` set (Signatures e)" "Payload e = b64_encode Std q"
    and e': "e' = e\<lparr>Signatures := sort_key KeyID (Signatures e @
       [\<lparr>KeyID = k, Sig = b64_encode Std (ed_sign c key (PAE (PayloadType e) q))\<rparr>])\<rparr>"
    by (rule AddSignature_Ok)
  from assms(2,3) have a: "PayloadType e = pt" "Payload e = b64_encode Std p" "length p \<le> MaxPayloadBytes"
    "sorted_wrt (<) (map KeyID (Signatures e))" "ks = map KeyID (Signatures e)"
    "\<forall>s \<in> set (Signatures e). authentic c trusted (PAE pt p) s \<and> (\<exists>sig. Sig s = b64_encode Std sig)"
    unfolding VerifyAll_Ok_iff by auto
  have q: "q = p" using v(3) a(2) b64_encode_inj by metis
  note valid = AddSignature_valid [OF assms(1,4)]
  have m: "Marshal e' = Ok (json_print (envelope_json e'))" using valid(1) by (simp add: Marshal_def)
  have "utf8_envelope e'" using assms(5,6) by (auto simp: e' utf8_envelope_def b64_encode_utf8)
  moreover have "canonical_payload e'" using a(2,3) by (auto simp: e' canonical_payload_def)
  ultimately have parse: "Parse (json_print (envelope_json e')) = Ok e'" using Parse_Marshal_canonical m by blast
  have "authentic c trusted (PAE pt p) \<lparr>KeyID = k, Sig = b64_encode Std (ed_sign c key (PAE pt p))\<rparr>"
    using assms(7) v(1) by (intro crypto_ok_sign [OF assms(1)]) simp_all
  then have all: "\<forall>s \<in> set (Signatures e'). authentic c trusted (PAE pt p) s \<and> (\<exists>sig. Sig s = b64_encode Std sig)"
    using a(1,6) by (auto simp: e' q)
  have "set (map KeyID (Signatures e')) = set (insort k ks)" using a(5) by (auto simp: e' set_insort_key)
  moreover have "sorted_wrt (<) (insort k ks)"
    using a(4,5) v(2) by (simp add: strict_sorted_iff sorted_insort distinct_insort)
  ultimately have "map KeyID (Signatures e') = insort k ks"
    using valid(2) by (metis sorted_distinct_set_unique strict_sorted_iff)
  then have "VerifyAll c (json_print (envelope_json e')) pt trusted = Ok (p, insort k ks)"
    unfolding VerifyAll_Ok_iff using parse a(1,2,3) valid(2) all by (auto simp: e')
  then show ?thesis using m by blast
qed

section \<open>A concrete signature scheme for the witnesses\<close>

definition demo_crypto :: crypto where
  "demo_crypto = \<lparr>sha256 = (\<lambda>m. replicate 32 (chr (length m mod 256))),
     ed_public = (\<lambda>k. take 32 k),
     ed_sign = (\<lambda>k m. take 32 k @ replicate 32 (chr (length m mod 256))),
     ed_verify = (\<lambda>p m s. s = p @ replicate 32 (chr (length m mod 256)))\<rparr>"

definition demo_key :: bytes where "demo_key = replicate 64 (CHR ''k'')"

lemma demo_crypto_ok [simp]: "crypto_ok demo_crypto"
  by (simp add: crypto_ok_def demo_crypto_def)

lemma demo_key_length [simp]: "length demo_key = 64"
  by (simp add: demo_key_def)

lemma bad_name_plain:
  assumes "\<forall>c \<in> set s. 32 < byte c \<and> byte c < 127" "s \<noteq> []" "length s \<le> 256"
  shows "\<not> bad_name s"
proof -
  have "trim_space s = s" using assms(1) by (intro trim_space_ascii) (auto simp: is_space_def dest: hd_in_set last_in_set)
  moreover have "\<not> contains_nul s" using assms(1) by (auto simp: contains_nul_def)
  ultimately show ?thesis using assms by (simp add: bad_name_def)
qed

definition demo_envelope :: Envelope where
  "demo_envelope = \<lparr>PayloadType = ''demo'', Payload = b64_encode Std ''payload'',
     Signatures = [\<lparr>KeyID = ''a'', Sig = b64_encode Std (ed_sign demo_crypto demo_key (PAE ''demo'' ''payload''))\<rparr>]\<rparr>"

lemma demo_Sign: "Sign demo_crypto ''demo'' ''payload'' ''a'' demo_key = Ok demo_envelope"
  using bad_name_plain [of "''demo''"] bad_name_plain [of "''a''"]
  by (simp add: Sign_def demo_envelope_def MaxPayloadBytes_def)

lemma demo_authentic:
  "authentic demo_crypto [''a'' \<mapsto> ed_public demo_crypto demo_key] (PAE ''demo'' ''payload'') (hd (Signatures demo_envelope))"
  by (intro crypto_ok_sign [OF demo_crypto_ok demo_key_length]) (simp_all add: demo_envelope_def)

lemma demo_VerifyAll:
  obtains raw where "VerifyAll demo_crypto raw ''demo'' [''a'' \<mapsto> ed_public demo_crypto demo_key] = Ok (''payload'', [''a''])"
proof -
  obtain raw where raw: "Marshal demo_envelope = Ok raw" "Parse raw = Ok demo_envelope"
    by (rule Sign_Marshal_Parse [OF demo_crypto_ok demo_Sign]) (simp_all add: valid_utf8_ascii)
  then have "VerifyAll demo_crypto raw ''demo'' [''a'' \<mapsto> ed_public demo_crypto demo_key] = Ok (''payload'', [''a''])"
    using demo_authentic unfolding VerifyAll_Ok_iff by (auto simp: demo_envelope_def MaxPayloadBytes_def)
  then show ?thesis by (rule that)
qed

section \<open>Properties\<close>

text \<open>C25: The pre-authentication encoding determines both the payload type and the payload, so a
  signature over one (type, payload) pair is never a signature over another.\<close>

theorem PAE_unambiguous: "PAE t p = PAE t' p' \<longleftrightarrow> t = t' \<and> p = p'"
  using PAE_inj by blast

text \<open>C24: The strict decoder accepts a byte string exactly when it is non-empty, within the limit, one
  complete JSON document, and the document conforms to the destination type: no unknown member, no
  duplicate member at any level, null only where the Go type has a nil, at most 32 levels, and in an
  integer field only an integer literal in the range of its Go type.\<close>

theorem strict_decoder_exact:
  "DecodeStrictInto raw maxBytes t = Ok v \<longleftrightarrow>
     raw \<noteq> [] \<and> length raw \<le> maxBytes \<and> json_document raw = Some v \<and> conforms t 0 v"
  unfolding DecodeStrictInto_iff by auto

text \<open>Signing, marshalling and verifying: an envelope made by \<open>Sign\<close> for a non-empty payload
  marshals within the parser's limit, and \<open>Verify\<close> and \<open>VerifyAll\<close> return exactly the signed payload
  and key ID when the signer's public key is trusted under that key ID.\<close>

theorem Sign_Verify:
  assumes "crypto_ok c" "Sign c pt p k key = Ok e" "p \<noteq> []" "valid_utf8 pt" "valid_utf8 k"
    "trusted k = Some (ed_public c key)"
  shows "\<exists>raw. Marshal e = Ok raw \<and> length raw \<le> DefaultMaxEnvelopeBytes \<and>
    Verify c raw pt trusted = Ok (p, k) \<and> VerifyAll c raw pt trusted = Ok (p, [k])"
proof -
  obtain raw where raw: "Marshal e = Ok raw" "Parse raw = Ok e" by (rule Sign_Marshal_Parse [OF assms(1-5)])
  note s = Sign_Ok [OF assms(2)]
  have "authentic c trusted (PAE pt p) (hd (Signatures e))"
    using assms(6) s by (intro crypto_ok_sign [OF assms(1) s(6)]) simp_all
  then have "Verify c raw pt trusted = Ok (p, k)" "VerifyAll c raw pt trusted = Ok (p, [k])"
    using raw(2) s unfolding Verify_Ok_iff VerifyAll_Ok_iff by auto
  then show ?thesis using raw valid_envelope_fits [OF raw(1) Sign_canonical [OF assms(2)]] by blast
qed

theorem Sign_Verify_witness:
  "\<exists>raw. Marshal demo_envelope = Ok raw \<and> length raw \<le> DefaultMaxEnvelopeBytes \<and>
    Verify demo_crypto raw ''demo'' [''a'' \<mapsto> ed_public demo_crypto demo_key] = Ok (''payload'', ''a'') \<and>
    VerifyAll demo_crypto raw ''demo'' [''a'' \<mapsto> ed_public demo_crypto demo_key] = Ok (''payload'', [''a''])"
  using Sign_Verify [OF demo_crypto_ok demo_Sign, of "[''a'' \<mapsto> ed_public demo_crypto demo_key]"]
  by (simp add: valid_utf8_ascii)

text \<open>C13: \<open>Verify\<close> succeeds exactly on a well-formed envelope of the expected type that carries a
  signature by a trusted key over the pre-authentication encoding of the returned payload; it reports
  the first such signature's key ID.\<close>

theorem Verify_exact:
  "Verify c raw pt trusted = Ok (p, k) \<longleftrightarrow>
     (\<exists>e before s after. Parse raw = Ok e \<and> PayloadType e = pt \<and> b64_decode Std (Payload e) = Some p \<and>
        length p \<le> MaxPayloadBytes \<and> Signatures e = before @ s # after \<and> KeyID s = k \<and>
        authentic c trusted (PAE pt p) s \<and> find (authentic c trusted (PAE pt p)) before = None)"
  unfolding Verify_Ok_iff find_Some_split by blast

text \<open>\<open>VerifyAll\<close> returns the key IDs of all signatures of the envelope, in strictly ascending
  order; every one of them is trusted and signs the returned payload, and the payload is the only
  one whose canonical base64 the envelope carries.\<close>

theorem VerifyAll_sound:
  assumes "VerifyAll c raw pt trusted = Ok (p, ks)"
  shows "\<exists>e. Parse raw = Ok e \<and> PayloadType e = pt \<and> Payload e = b64_encode Std p \<and>
    ks = map KeyID (Signatures e) \<and> sorted_wrt (<) ks \<and> distinct ks \<and> 1 \<le> length ks \<and> length ks \<le> 16 \<and>
    list_all (authentic c trusted (PAE pt p)) (Signatures e)"
proof -
  from assms obtain e where e: "Parse raw = Ok e" "PayloadType e = pt" "Payload e = b64_encode Std p"
    "sorted_wrt (<) (map KeyID (Signatures e))" "ks = map KeyID (Signatures e)"
    "\<forall>s \<in> set (Signatures e). authentic c trusted (PAE pt p) s"
    unfolding VerifyAll_Ok_iff by blast
  moreover have "validateEnvelope e = Ok ()" using e(1) by (auto simp: Parse_Ok_iff)
  ultimately show ?thesis
    by (intro exI [of _ e]) (auto simp: validateEnvelope_iff strict_sorted_iff list_all_iff Suc_le_eq)
qed

theorem VerifyAll_sound_witness:
  "\<exists>raw. VerifyAll demo_crypto raw ''demo'' [''a'' \<mapsto> ed_public demo_crypto demo_key] = Ok (''payload'', [''a'']) \<and>
    (\<exists>e. Parse raw = Ok e \<and> map KeyID (Signatures e) = [''a''] \<and>
      list_all (authentic demo_crypto [''a'' \<mapsto> ed_public demo_crypto demo_key] (PAE ''demo'' ''payload'')) (Signatures e))"
proof -
  obtain raw where "VerifyAll demo_crypto raw ''demo'' [''a'' \<mapsto> ed_public demo_crypto demo_key] = Ok (''payload'', [''a''])"
    by (rule demo_VerifyAll)
  with VerifyAll_sound [OF this] show ?thesis by metis
qed

text \<open>Co-signing: adding a signature to an envelope whose signatures all verify gives an envelope
  that marshals and whose signatures all verify, for the same payload, with the new key ID inserted
  at its place in the canonical order.\<close>

theorem AddSignature_VerifyAll:
  assumes "crypto_ok c" "VerifyAll c raw pt trusted = Ok (p, ks)" "Parse raw = Ok e"
    "AddSignature c e k key = Ok e'" "valid_utf8 k" "utf8_envelope e" "trusted k = Some (ed_public c key)"
  shows "\<exists>raw'. Marshal e' = Ok raw' \<and> VerifyAll c raw' pt trusted = Ok (p, insort k ks)"
  by (rule cosign_VerifyAll [OF assms])

definition demo_trusted :: "bytes \<Rightarrow> bytes option" where
  "demo_trusted = (\<lambda>k. Some (ed_public demo_crypto demo_key))"

theorem AddSignature_VerifyAll_witness:
  "\<exists>raw e e'. Parse raw = Ok e \<and> AddSignature demo_crypto e ''B'' demo_key = Ok e' \<and>
    (\<exists>raw'. Marshal e' = Ok raw' \<and>
       VerifyAll demo_crypto raw' ''demo'' demo_trusted = Ok (''payload'', [''B'', ''a'']))"
proof -
  obtain raw where raw: "Marshal demo_envelope = Ok raw" "Parse raw = Ok demo_envelope"
    by (rule Sign_Marshal_Parse [OF demo_crypto_ok demo_Sign]) (simp_all add: valid_utf8_ascii)
  have "VerifyAll demo_crypto raw ''demo'' demo_trusted = Ok (''payload'', [''a''])"
    using raw(2) demo_authentic unfolding VerifyAll_Ok_iff
    by (auto simp: demo_envelope_def demo_trusted_def MaxPayloadBytes_def authentic_def)
  moreover obtain e' where "AddSignature demo_crypto demo_envelope ''B'' demo_key = Ok e'"
    using Sign_valid [OF demo_crypto_ok demo_Sign] bad_name_plain [of "''B''"]
    by (simp add: AddSignature_def demo_envelope_def)
  moreover have "utf8_envelope demo_envelope"
    by (simp add: utf8_envelope_def demo_envelope_def valid_utf8_ascii b64_encode_utf8)
  moreover have "insort ''B'' [''a''] = [''B'', ''a'']" by (simp add: less_eq_list_code less_list_code)
  ultimately show ?thesis
    using AddSignature_VerifyAll [OF demo_crypto_ok _ raw(2), of "''demo''" demo_trusted "''payload''" "[''a'']" "''B''" demo_key]
    using raw(2) by (auto simp: valid_utf8_ascii demo_trusted_def)
qed

end
