(* ===== verification/Go_Time.thy ===== *)
theory Go_Time
  imports Go_Text
begin

text \<open>
  The parts of Go's \<open>time\<close> package the modelled code uses. A \<open>time.Time\<close> in UTC is the number of
  nanoseconds since the Unix epoch, an \<open>int\<close>; a \<open>time.Duration\<close> is an \<open>int\<close> in the range of
  \<open>int64\<close>. Formatting and parsing follow the layouts \<open>2006-01-02T15:04:05Z\<close> and \<open>RFC3339Nano\<close>
  over the proleptic Gregorian calendar.
\<close>

type_synonym time = int
type_synonym duration = int

definition nsec :: int where "nsec = 1000000000"
definition minute :: int where "minute = 60 * nsec"
definition hour :: int where "hour = 60 * minute"
definition day_length :: int where "day_length = 86400"

definition zero_time :: time where "zero_time = - 62135596800 * nsec"

text \<open>\<open>Time.Sub\<close> saturates at the limits of a duration; \<open>Time.Add\<close> on the times used here does not wrap.\<close>

definition time_sub :: "time \<Rightarrow> time \<Rightarrow> duration" where
  "time_sub a b = max min_int64 (min max_int64 (a - b))"

section \<open>The calendar\<close>

definition is_leap :: "int \<Rightarrow> bool" where
  "is_leap y \<longleftrightarrow> y mod 4 = 0 \<and> (y mod 100 \<noteq> 0 \<or> y mod 400 = 0)"

definition days_in_month :: "int \<Rightarrow> int \<Rightarrow> int" where
  "days_in_month y m =
     (if m = 2 then (if is_leap y then 29 else 28)
      else if m = 4 \<or> m = 6 \<or> m = 9 \<or> m = 11 then 30 else 31)"

text \<open>Years are counted from 1 March, so that a leap day ends its year.\<close>

definition days_from_civil :: "int \<Rightarrow> int \<Rightarrow> int \<Rightarrow> int" where
  "days_from_civil y m d =
     (let y' = (if m \<le> 2 then y - 1 else y);
          era = y' div 400; yoe = y' mod 400;
          mp = (if m > 2 then m - 3 else m + 9);
          doy = (153 * mp + 2) div 5 + d - 1;
          doe = yoe * 365 + yoe div 4 - yoe div 100 + doy
      in era * 146097 + doe - 719468)"

definition civil_from_days :: "int \<Rightarrow> int \<times> int \<times> int" where
  "civil_from_days z =
     (let n = z + 719468; era = n div 146097; doe = n mod 146097;
          c = min 3 (doe div 36524); doc = doe - c * 36524;
          q = doc div 1461; doq = doc - q * 1461;
          a = min 3 (doq div 365); doy = doq - a * 365;
          y = 100 * c + 4 * q + a + era * 400;
          mp = (5 * doy + 2) div 153;
          d = doy - (153 * mp + 2) div 5 + 1;
          m = (if mp < 10 then mp + 3 else mp - 9)
      in (if m \<le> 2 then y + 1 else y, m, d))"

lemma int_div_bounds:
  fixes x k :: int
  assumes "0 < k"
  shows "k * (x div k) \<le> x" "x < k * (x div k) + k"
  using assms mult_div_mod_eq [of k x] pos_mod_bound [OF assms, of x] pos_mod_sign [OF assms, of x]
  by linarith+

lemma int_div_unique:
  fixes r k j :: int
  assumes "0 \<le> r" "r < k"
  shows "(k * j + r) div k = j" "(k * j + r) mod k = r"
  using assms by simp_all

text \<open>The decomposition of a day number into 400, 100, 4 and 1 year cycles.\<close>

lemma cycle_bounds:
  fixes doe :: int
  assumes "0 \<le> doe" "doe < 146097"
    and c: "c = min 3 (doe div 36524)" and doc: "doc = doe - c * 36524"
    and q: "q = doc div 1461" and doq: "doq = doc - q * 1461"
    and a: "a = min 3 (doq div 365)" and doy: "doy = doq - a * 365"
  shows "0 \<le> c" "c \<le> 3" "0 \<le> q" "q \<le> 24" "0 \<le> a" "a \<le> 3" "0 \<le> doy" "doy \<le> 365"
    and "doy = 365 \<Longrightarrow> a = 3 \<and> (q < 24 \<or> c = 3)"
proof -
  show c': "0 \<le> c" "c \<le> 3" using assms(1) by (simp_all add: c)
  have d: "0 \<le> doc" "doc \<le> 36524" "c < 3 \<Longrightarrow> doc < 36524"
    using assms(1,2) int_div_bounds [of 36524 doe] unfolding doc c
    by (auto simp: min_def split: if_splits)
  show q': "0 \<le> q" "q \<le> 24" using d by (auto simp: q)
  have e: "0 \<le> doq" "doq \<le> 1460"
    using int_div_bounds [of 1461 doc] unfolding doq q by linarith+
  have e': "doq = 1460 \<Longrightarrow> q < 24 \<or> c = 3"
  proof (rule ccontr)
    assume "doq = 1460" "\<not> (q < 24 \<or> c = 3)"
    then have "q = 24" "c < 3" using q' c' by auto
    then show False using d(3) \<open>doq = 1460\<close> doq by simp
  qed
  show a': "0 \<le> a" "a \<le> 3" using e by (simp_all add: a)
  show y: "0 \<le> doy" "doy \<le> 365"
    using e int_div_bounds [of 365 doq] unfolding doy a by (auto simp: min_def split: if_splits)
  show "doy = 365 \<Longrightarrow> a = 3 \<and> (q < 24 \<or> c = 3)"
  proof -
    assume "doy = 365"
    then have "a = 3"
      using e int_div_bounds [of 365 doq] unfolding doy a by (auto simp: min_def split: if_splits)
    then show ?thesis using e' \<open>doy = 365\<close> doy by simp
  qed
qed

lemma year_of_cycles:
  fixes c q a :: int
  assumes "0 \<le> c" "c \<le> 3" "0 \<le> q" "q \<le> 24" "0 \<le> a" "a \<le> 3"
  shows "(100 * c + 4 * q + a) div 4 = 25 * c + q" "(100 * c + 4 * q + a) div 100 = c"
    "0 \<le> 100 * c + 4 * q + a" "100 * c + 4 * q + a < 400"
proof -
  have "100 * c + 4 * q + a = 4 * (25 * c + q) + a" by simp
  then show "(100 * c + 4 * q + a) div 4 = 25 * c + q"
    using assms int_div_unique(1) [of a 4 "25 * c + q"] by simp
  have "100 * c + 4 * q + a = 100 * c + (4 * q + a)" by simp
  then show "(100 * c + 4 * q + a) div 100 = c"
    using assms int_div_unique(1) [of "4 * q + a" 100 c] by simp
qed (use assms in linarith)+

lemma month_of_doy:
  fixes doy :: int
  assumes "0 \<le> doy" "doy \<le> 365" and mp: "mp = (5 * doy + 2) div 153"
  shows "0 \<le> mp" "mp \<le> 11"
    and "1 \<le> doy - (153 * mp + 2) div 5 + 1"
    and "doy - (153 * mp + 2) div 5 + 1 \<le>
      (if mp = 11 then (if doy = 365 then 29 else 28)
       else if mp = 1 \<or> mp = 3 \<or> mp = 6 \<or> mp = 8 then 30 else 31)"
proof -
  have b: "153 * mp \<le> 5 * doy + 2" "5 * doy + 2 < 153 * mp + 153"
    using int_div_bounds [of 153 "5 * doy + 2"] unfolding mp by linarith+
  then show "0 \<le> mp" "mp \<le> 11" using assms(1,2) by linarith+
  then have "mp = 0 \<or> mp = 1 \<or> mp = 2 \<or> mp = 3 \<or> mp = 4 \<or> mp = 5 \<or> mp = 6 \<or>
      mp = 7 \<or> mp = 8 \<or> mp = 9 \<or> mp = 10 \<or> mp = 11" by presburger
  then show "1 \<le> doy - (153 * mp + 2) div 5 + 1"
    "doy - (153 * mp + 2) div 5 + 1 \<le>
      (if mp = 11 then (if doy = 365 then 29 else 28)
       else if mp = 1 \<or> mp = 3 \<or> mp = 6 \<or> mp = 8 then 30 else 31)"
    using assms(1,2) b by (elim disjE; simp)+
qed

text \<open>Every day number is a valid calendar date, and converting it back gives the same day.\<close>

lemma leap_of_cycles:
  fixes c q era :: int
  assumes "0 \<le> c" "c \<le> 3" "0 \<le> q" "q \<le> 24" "q < 24 \<or> c = 3"
  shows "is_leap (100 * c + 4 * q + 3 + era * 400 + 1)"
proof -
  let ?y = "100 * c + 4 * q + 3 + era * 400 + 1"
  have y4: "?y = 4 * (25 * c + q + 1 + 100 * era) + 0" by simp
  have "?y mod 4 = 0" unfolding y4 by (simp only: int_div_unique(2))
  moreover have "?y mod 100 \<noteq> 0 \<or> ?y mod 400 = 0"
  proof (cases "q < 24")
    case True
    have y100: "?y = 100 * (c + 4 * era) + (4 * q + 4)" by simp
    have "?y mod 100 = 4 * q + 4"
      unfolding y100 using True assms(3) by (intro int_div_unique(2)) auto
    then show ?thesis using assms(3) by simp
  next
    case False
    with assms have "q = 24" "c = 3" by auto
    then have y400: "?y = 400 * (era + 1) + 0" by simp
    have "?y mod 400 = 0" unfolding y400 by (simp only: int_div_unique(2))
    then show ?thesis ..
  qed
  ultimately show ?thesis by (simp add: is_leap_def)
qed

lemma civil_from_days_valid:
  assumes "civil_from_days z = (y, m, d)"
  shows "1 \<le> m" "m \<le> 12" "1 \<le> d" "d \<le> days_in_month y m" "days_from_civil y m d = z"
proof -
  define n where "n = z + 719468"
  define era where "era = n div 146097"
  define doe where "doe = n mod 146097"
  define c where "c = min 3 (doe div 36524)"
  define doc where "doc = doe - c * 36524"
  define q where "q = doc div 1461"
  define doq where "doq = doc - q * 1461"
  define a where "a = min 3 (doq div 365)"
  define doy where "doy = doq - a * 365"
  define mp where "mp = (5 * doy + 2) div 153"
  define yy where "yy = 100 * c + 4 * q + a"
  note defs = n_def era_def doe_def c_def doc_def q_def doq_def a_def doy_def mp_def yy_def
  have "civil_from_days z =
      (let m = (if mp < 10 then mp + 3 else mp - 9) in
       (if m \<le> 2 then yy + era * 400 + 1 else yy + era * 400, m, doy - (153 * mp + 2) div 5 + 1))"
    by (simp only: civil_from_days_def Let_def defs)
  with assms have eq: "m = (if mp < 10 then mp + 3 else mp - 9)"
    "d = doy - (153 * mp + 2) div 5 + 1"
    "y = (if m \<le> 2 then yy + era * 400 + 1 else yy + era * 400)"
    by (auto simp only: Let_def prod.inject split: if_splits)
  have "0 \<le> doe" "doe < 146097" by (simp_all add: doe_def)
  note b = cycle_bounds [OF this c_def doc_def q_def doq_def a_def doy_def]
  note yb = year_of_cycles [OF b(1-6), folded yy_def]
  note mb = month_of_doy [OF b(7,8) mp_def]
  show m: "1 \<le> m" "m \<le> 12" using mb(1,2) by (auto simp: eq(1))
  show "1 \<le> d" using mb(3) by (simp add: eq(2))
  have leap: "doy = 365 \<Longrightarrow> is_leap (yy + era * 400 + 1)"
    using leap_of_cycles [OF b(1-4)] b(9) by (auto simp: yy_def)
  show "d \<le> days_in_month y m"
    using mb(1,2,4) leap unfolding eq(2) days_in_month_def
    by (auto simp: eq(1) eq(3) split: if_splits)
  have y': "(if m \<le> 2 then y - 1 else y) = 400 * era + yy"
    by (auto simp: eq(3))
  have mp': "(if m > 2 then m - 3 else m + 9) = mp"
    using mb(1,2) by (auto simp: eq(1))
  have "n = 146097 * era + doe"
    by (simp add: era_def doe_def)
  moreover have "doe = yy * 365 + yy div 4 - yy div 100 + doy"
    using yb(1,2) by (simp add: yy_def doy_def doq_def doc_def)
  ultimately show "days_from_civil y m d = z"
    unfolding days_from_civil_def Let_def y' mp'
    using int_div_unique [of yy 400 era] yb(3,4) by (simp add: eq(2) n_def)
qed

section \<open>Formatting and parsing\<close>

definition pad :: "nat \<Rightarrow> nat \<Rightarrow> bytes" where
  "pad w n = replicate (w - length (itoa n)) (CHR ''0'') @ itoa n"

definition format_seconds :: "int \<Rightarrow> bytes" where
  "format_seconds s =
     (let (y, m, d) = civil_from_days (s div day_length); r = s mod day_length
      in pad 4 (nat y) @ ''-'' @ pad 2 (nat m) @ ''-'' @ pad 2 (nat d) @ ''T'' @
         pad 2 (nat (r div 3600)) @ '':'' @ pad 2 (nat (r div 60 mod 60)) @ '':'' @ pad 2 (nat (r mod 60)))"

text \<open>The layout \<open>2006-01-02T15:04:05Z\<close>.\<close>

definition time_format :: "time \<Rightarrow> bytes" where
  "time_format t = format_seconds (t div nsec) @ ''Z''"

definition digits_at :: "nat \<Rightarrow> nat \<Rightarrow> bytes \<Rightarrow> nat option" where
  "digits_at i n s = (if i + n \<le> length s then atoi (take n (drop i s)) else None)"

text \<open>
  Parsing of the nineteen characters up to the seconds. Go's parser also takes spellings that the
  callers' comparison with the re-formatted time refuses (a one-digit hour, fractional seconds);
  those are refused here already.
\<close>

definition parse_seconds :: "bytes \<Rightarrow> int option" where
  "parse_seconds s =
     (case (digits_at 0 4 s, digits_at 5 2 s, digits_at 8 2 s, digits_at 11 2 s, digits_at 14 2 s, digits_at 17 2 s) of
        (Some y, Some m, Some d, Some hh, Some mm, Some ss) \<Rightarrow>
          if length s = 19 \<and> s ! 4 = CHR ''-'' \<and> s ! 7 = CHR ''-'' \<and> s ! 10 = CHR ''T'' \<and>
             s ! 13 = CHR '':'' \<and> s ! 16 = CHR '':'' \<and> 1 \<le> m \<and> m \<le> 12 \<and> 1 \<le> d \<and>
             int d \<le> days_in_month (int y) (int m) \<and> hh < 24 \<and> mm < 60 \<and> ss < 60
          then Some (days_from_civil (int y) (int m) (int d) * day_length + int (3600 * hh + 60 * mm + ss))
          else None
      | _ \<Rightarrow> None)"

definition time_parse :: "bytes \<Rightarrow> time option" where
  "time_parse s =
     (if s \<noteq> [] \<and> last s = CHR ''Z'' then map_option (\<lambda>x. x * nsec) (parse_seconds (butlast s)) else None)"

text \<open>\<open>canonicalTime\<close>, which the permit packages each define in the same way.\<close>

definition canonicalTime :: "bytes \<Rightarrow> time result" where
  "canonicalTime value =
     (case time_parse value of
        None \<Rightarrow> errorf ''timestamp must be canonical UTC RFC3339 seconds''
      | Some parsed \<Rightarrow>
          if parsed = zero_time \<or> time_format parsed \<noteq> value
          then errorf ''timestamp must be canonical UTC RFC3339 seconds''
          else Ok parsed)"

text \<open>\<open>RFC3339Nano\<close>: fractional seconds without trailing zeros.\<close>

definition trim_zeros :: "bytes \<Rightarrow> bytes" where
  "trim_zeros s = rev (dropWhile ((=) (CHR ''0'')) (rev s))"

definition format_nano :: "time \<Rightarrow> bytes" where
  "format_nano t =
     (let f = t mod nsec in
      format_seconds (t div nsec) @ (if f = 0 then [] else ''.'' @ trim_zeros (pad 9 (nat f))) @ ''Z'')"

definition parse_nano :: "bytes \<Rightarrow> time option" where
  "parse_nano s =
     (if s = [] \<or> last s \<noteq> CHR ''Z'' then None
      else (let body = butlast s; fr = drop 19 body in
        case parse_seconds (take 19 body) of None \<Rightarrow> None
        | Some secs \<Rightarrow>
            if fr = [] then Some (secs * nsec)
            else if hd fr = CHR ''.'' \<and> length fr \<le> 10 then
              (case atoi (tl fr) of None \<Rightarrow> None
               | Some n \<Rightarrow> Some (secs * nsec + int n * 10 ^ (9 - length (tl fr))))
            else None))"

definition observed_ok :: "bytes \<Rightarrow> bool" where
  "observed_ok v =
     (case parse_nano v of None \<Rightarrow> False | Some t \<Rightarrow> t \<noteq> zero_time \<and> v = format_nano t)"

section \<open>Parsing inverts formatting\<close>

lemma length_itoa_less:
  "n < 10 ^ w \<Longrightarrow> 0 < w \<Longrightarrow> length (itoa n) \<le> w"
proof (induction w arbitrary: n)
  case (Suc w)
  show ?case
  proof (cases "n < 10")
    case True
    then show ?thesis by (subst itoa.simps) simp
  next
    case False
    with Suc.prems(1) have w: "0 < w" by (cases w) auto
    have "n div 10 < 10 ^ w" using Suc.prems(1) by (simp add: less_mult_imp_div_less mult.commute)
    with Suc.IH w have "length (itoa (n div 10)) \<le> w" by blast
    with False show ?thesis by (subst itoa.simps) simp
  qed
qed simp

lemma length_pad: "n < 10 ^ w \<Longrightarrow> 0 < w \<Longrightarrow> length (pad w n) = w"
  using length_itoa_less [of n w] by (simp add: pad_def)

lemma atoi_acc_zeros: "atoi_acc 0 (replicate k (CHR ''0'') @ s) = atoi_acc 0 s"
  by (induction k) (auto simp: is_digit_def byte_def)

lemma atoi_pad [simp]: "atoi (pad w n) = Some n"
  by (simp add: atoi_def pad_def atoi_acc_zeros atoi_acc_itoa)

lemma pad_digits: "c \<in> set (pad w n) \<Longrightarrow> is_digit c"
  by (auto simp: pad_def is_digit_def byte_def dest: itoa_digits)

lemma digits_at_append:
  "length p = i \<Longrightarrow> length x = n \<Longrightarrow> digits_at i n (p @ x @ q) = atoi x"
  by (simp add: digits_at_def)

lemma parse_seconds_fields:
  assumes "y < 10000" "1 \<le> m" "m \<le> 12" "1 \<le> d" "int d \<le> days_in_month (int y) (int m)"
    "hh < 24" "mm < 60" "ss < 60"
  shows "parse_seconds (pad 4 y @ ''-'' @ pad 2 m @ ''-'' @ pad 2 d @ ''T'' @
      pad 2 hh @ '':'' @ pad 2 mm @ '':'' @ pad 2 ss) =
    Some (days_from_civil (int y) (int m) (int d) * day_length + int (3600 * hh + 60 * mm + ss))"
proof -
  have "days_in_month (int y) (int m) \<le> 31" by (simp add: days_in_month_def)
  then have "d < 100" using assms(5) by simp
  then have len: "length (pad 4 y) = 4" "length (pad 2 m) = 2" "length (pad 2 d) = 2"
    "length (pad 2 hh) = 2" "length (pad 2 mm) = 2" "length (pad 2 ss) = 2"
    using assms by (simp_all add: length_pad)
  then obtain y1 y2 y3 y4 m1 m2 d1 d2 h1 h2 n1 n2 s1 s2 where
    c: "pad 4 y = [y1, y2, y3, y4]" "pad 2 m = [m1, m2]" "pad 2 d = [d1, d2]"
      "pad 2 hh = [h1, h2]" "pad 2 mm = [n1, n2]" "pad 2 ss = [s1, s2]"
    by (auto simp: length_Suc_conv numeral_eq_Suc)
  have a: "atoi [y1, y2, y3, y4] = Some y" "atoi [m1, m2] = Some m" "atoi [d1, d2] = Some d"
    "atoi [h1, h2] = Some hh" "atoi [n1, n2] = Some mm" "atoi [s1, s2] = Some ss"
    by (simp_all add: c [symmetric])
  show ?thesis
    using assms by (simp add: parse_seconds_def c digits_at_def a)
qed

definition sane_clock :: "time \<Rightarrow> bool" where
  "sane_clock t \<longleftrightarrow> 0 \<le> t \<and> t < 253402300800 * nsec"

lemma civil_year_range:
  assumes "0 \<le> z" "z \<le> 2932896" "civil_from_days z = (y, m, d)"
  shows "0 \<le> y" "y < 10000"
proof -
  note v = civil_from_days_valid [OF assms(3)]
  define y' where "y' = (if m \<le> 2 then y - 1 else y)"
  define mp where "mp = (if m > 2 then m - 3 else m + 9)"
  define doy where "doy = (153 * mp + 2) div 5 + d - 1"
  have z: "z = y' div 400 * 146097 + (y' mod 400 * 365 + y' mod 400 div 4 - y' mod 400 div 100 + doy) - 719468"
    using v(5) by (simp add: days_from_civil_def Let_def y'_def mp_def doy_def)
  have mp: "0 \<le> mp" "mp \<le> 11" using v(1,2) by (auto simp: mp_def)
  have d31: "d \<le> 31" using v(4) by (auto simp: days_in_month_def split: if_splits)
  have doy: "0 \<le> doy" "doy \<le> 367"
    using mp v(3) d31 int_div_bounds [of 5 "153 * mp + 2"] by (auto simp: doy_def)
  have r: "0 \<le> y' mod 400" "y' mod 400 \<le> 399" by simp_all
  have "y' div 400 * 146097 \<ge> 719468 - 146466" "y' div 400 * 146097 \<le> 2932896 + 719468"
    using z assms(1,2) doy r int_div_bounds [of 4 "y' mod 400"] int_div_bounds [of 100 "y' mod 400"]
    by linarith+
  then have e: "4 \<le> y' div 400" "y' div 400 \<le> 24" by linarith+
  have y': "y' = 400 * (y' div 400) + y' mod 400" by simp
  then have "1600 \<le> y'" using e(1) r(1) by linarith
  then show "0 \<le> y" by (auto simp: y'_def split: if_splits)
  show "y < 10000"
  proof (rule ccontr)
    assume "\<not> y < 10000"
    then have ge: "9999 \<le> y'" "y' = 9999 \<Longrightarrow> m \<le> 2" by (auto simp: y'_def split: if_splits)
    with e(2) y' r(2) have "y' = 9999" "y' mod 400 = 399" "y' div 400 = 24" by linarith+
    with ge(2) have "m \<le> 2" by simp
    then have "10 \<le> mp" using v(1) by (simp add: mp_def)
    then have "306 \<le> doy" using v(3) int_div_bounds [of 5 "153 * mp + 2"] by (simp add: doy_def)
    with z assms(2) \<open>y' mod 400 = 399\<close> \<open>y' div 400 = 24\<close> show False by simp
  qed
qed

lemma parse_format_seconds:
  assumes "0 \<le> s" "s < 253402300800"
  shows "parse_seconds (format_seconds s) = Some s" "length (format_seconds s) = 19"
proof -
  obtain y m d where c: "civil_from_days (s div day_length) = (y, m, d)"
    by (metis prod_cases3)
  define r where "r = s mod day_length"
  have dl: "(0::int) < day_length" by (simp add: day_length_def)
  have z: "0 \<le> s div day_length" "s div day_length \<le> 2932896"
    using assms int_div_bounds [OF dl, of s] by (auto simp: day_length_def pos_imp_zdiv_nonneg_iff)
  note v = civil_from_days_valid [OF c]
  note yr = civil_year_range [OF z c]
  have r: "0 \<le> r" "r < 86400" by (simp_all add: r_def day_length_def)
  have rr: "r = 3600 * (r div 3600) + 60 * (r div 60 mod 60) + r mod 60"
  proof -
    have "r = 60 * (r div 60) + r mod 60" by simp
    moreover have "r div 60 = 60 * (r div 60 div 60) + r div 60 mod 60" by simp
    moreover have "r div 60 div 60 = r div 3600" by (simp add: zdiv_zmult2_eq [symmetric])
    ultimately show ?thesis by linarith
  qed
  have h24: "r div 3600 < 24" using r int_div_bounds [of 3600 r] by linarith
  have f: "format_seconds s = pad 4 (nat y) @ ''-'' @ pad 2 (nat m) @ ''-'' @ pad 2 (nat d) @ ''T'' @
      pad 2 (nat (r div 3600)) @ '':'' @ pad 2 (nat (r div 60 mod 60)) @ '':'' @ pad 2 (nat (r mod 60))"
    by (simp add: format_seconds_def c r_def Let_def)
  have d31: "d \<le> 31" using v(4) by (auto simp: days_in_month_def split: if_splits)
  have "parse_seconds (format_seconds s) =
      Some (days_from_civil y m d * day_length + int (3600 * nat (r div 3600) + 60 * nat (r div 60 mod 60) + nat (r mod 60)))"
    unfolding f
    by (subst parse_seconds_fields) (use v yr r h24 in \<open>auto simp: nat_less_iff pos_imp_zdiv_nonneg_iff\<close>)
  also have "int (3600 * nat (r div 3600) + 60 * nat (r div 60 mod 60) + nat (r mod 60)) = r"
    using r rr by (simp add: pos_imp_zdiv_nonneg_iff)
  finally show "parse_seconds (format_seconds s) = Some s"
    using v(5) by (simp add: r_def)
  show "length (format_seconds s) = 19"
    unfolding f using v yr r h24 d31
    by (simp add: length_pad nat_less_iff pos_imp_zdiv_nonneg_iff)
qed

lemma time_parse_format:
  assumes "sane_clock t" "t mod nsec = 0"
  shows "time_parse (time_format t) = Some t"
proof -
  have n: "(0::int) < nsec" by (simp add: nsec_def)
  have "0 \<le> t div nsec" "t div nsec < 253402300800"
    using assms(1) n int_div_bounds [OF n, of t]
    by (auto simp: sane_clock_def nsec_def pos_imp_zdiv_nonneg_iff)
  note p = parse_format_seconds(1) [OF this]
  have "t div nsec * nsec = t" using assms(2) by (metis add.right_neutral mult_div_mod_eq mult.commute)
  with p show ?thesis by (simp add: time_parse_def time_format_def)
qed

lemma canonicalTime_format:
  assumes "sane_clock t" "t mod nsec = 0"
  shows "canonicalTime (time_format t) = Ok t"
  using time_parse_format [OF assms] assms(1)
  by (simp add: canonicalTime_def sane_clock_def zero_time_def nsec_def)

text \<open>The fraction of a second survives the removal of trailing zeros.\<close>

lemma atoi_acc_trim:
  assumes "\<forall>c \<in> set s. is_digit c"
  shows "atoi_acc k (s @ replicate j (CHR ''0'')) = Some n \<Longrightarrow>
    \<exists>n'. atoi_acc k s = Some n' \<and> n = n' * 10 ^ j"
proof (induction j arbitrary: n)
  case (Suc j)
  from Suc.prems have "atoi_acc k ((s @ replicate j (CHR ''0'')) @ [CHR ''0'']) = Some n"
    by (simp add: replicate_append_same)
  then obtain m where "atoi_acc k (s @ replicate j (CHR ''0'')) = Some m" "n = 10 * m"
    by (auto simp: atoi_acc_append is_digit_def byte_def split: option.splits)
  with Suc.IH show ?case by force
qed simp

lemma trim_zeros_split: "\<exists>j. s = trim_zeros s @ replicate j (CHR ''0'')"
proof -
  let ?z = "takeWhile ((=) (CHR ''0'')) (rev s)"
  have "\<forall>c \<in> set ?z. c = CHR ''0''" by (auto dest: set_takeWhileD)
  then have "?z = replicate (length ?z) (CHR ''0'')"
    by (simp add: replicate_length_same)
  then have "rev ?z = replicate (length ?z) (CHR ''0'')"
    by (metis rev_replicate)
  moreover have "s = trim_zeros s @ rev ?z"
    unfolding trim_zeros_def by (metis rev_append rev_rev_ident takeWhile_dropWhile_id)
  ultimately show ?thesis by metis
qed

lemma parse_format_nano:
  assumes "sane_clock t"
  shows "parse_nano (format_nano t) = Some t"
proof -
  have n: "(0::int) < nsec" by (simp add: nsec_def)
  have "0 \<le> t div nsec" "t div nsec < 253402300800"
    using assms n int_div_bounds [OF n, of t]
    by (auto simp: sane_clock_def nsec_def pos_imp_zdiv_nonneg_iff)
  note p = parse_format_seconds [OF this]
  define f where "f = t mod nsec"
  have t: "t div nsec * nsec + f = t" by (simp add: f_def)
  have f: "0 \<le> f" "f < 10 ^ 9" by (simp_all add: f_def nsec_def)
  show ?thesis
  proof (cases "f = 0")
    case True
    with p t show ?thesis by (simp add: parse_nano_def format_nano_def Let_def f_def [symmetric])
  next
    case False
    define x where "x = trim_zeros (pad 9 (nat f))"
    obtain j where j: "pad 9 (nat f) = x @ replicate j (CHR ''0'')"
      using trim_zeros_split x_def by blast
    have nf: "nat f < 10 ^ 9" using f by (simp add: nat_less_iff)
    have len: "length x + j = 9" using length_pad [OF nf] j by (metis length_append length_replicate zero_less_numeral)
    have dig: "\<forall>c \<in> set x. is_digit c" using pad_digits [of _ 9 "nat f"] unfolding j by auto
    have "atoi_acc 0 (x @ replicate j (CHR ''0'')) = Some (nat f)"
      using atoi_pad [of 9 "nat f"] j by (auto simp: atoi_def split: if_splits)
    then obtain n' where n': "atoi_acc 0 x = Some n'" "nat f = n' * 10 ^ j"
      using atoi_acc_trim [OF dig] by blast
    have ne: "x \<noteq> []" using n' False f(1) by auto
    have "int n' * 10 ^ (9 - length x) = f"
      using n'(2) len f(1) by (metis diff_add_inverse int_nat_eq of_nat_mult of_nat_numeral of_nat_power)
    moreover have "format_nano t = (format_seconds (t div nsec) @ CHR ''.'' # x) @ ''Z''"
      using False by (simp add: format_nano_def Let_def f_def [symmetric] x_def [symmetric])
    ultimately show ?thesis
      using p t len ne n'(1)
      by (simp add: parse_nano_def Let_def atoi_def butlast_snoc del: append_assoc)
  qed
qed

lemma observed_ok_format: "sane_clock t \<Longrightarrow> observed_ok (format_nano t)"
  using parse_format_nano [of t]
  by (simp add: observed_ok_def sane_clock_def zero_time_def nsec_def)

end
