(* ===== verification/Permit_Common.thy ===== *)
theory Permit_Common
  imports Dsse Go_Time
begin

text \<open>
  What the three permit packages (\<open>internal/taskpermit\<close>, \<open>internal/schedulepermit\<close>,
  \<open>internal/actionpermit\<close>) use of the standard library beyond DSSE: the identifier regular
  expressions, the assignment of JSON members to pointer fields, and the two contracts they share as
  locales. \<open>validity_contract\<close> is the promise of a time-bounded permit, \<open>canonical_codec\<close> the promise
  of a header encoding with a single accepted spelling. Each package interprets both on its own
  definitions.
\<close>

section \<open>Identifiers\<close>

definition alnum :: "char \<Rightarrow> bool" where
  "alnum c \<longleftrightarrow> is_upper c \<or> is_lower c \<or> is_digit c"

text \<open>The regular expression \<open>^[A-Za-z0-9][A-Za-z0-9._-]{0,n}$\<close>.\<close>

definition identifier_pattern :: "nat \<Rightarrow> bytes \<Rightarrow> bool" where
  "identifier_pattern n s \<longleftrightarrow>
     (case s of [] \<Rightarrow> False
      | c # cs \<Rightarrow> alnum c \<and> length cs \<le> n \<and>
          list_all (\<lambda>x. alnum x \<or> x = CHR ''.'' \<or> x = CHR ''_'' \<or> x = CHR ''-'') cs)"

lemma alnum_plain: "alnum c \<Longrightarrow> json_plain c \<and> 32 < byte c \<and> byte c < 127"
  by (auto simp: alnum_def json_plain_def is_upper_def is_lower_def is_digit_def)

lemma identifier_plain:
  assumes "identifier_pattern n s" "c \<in> set s"
  shows "json_plain c \<and> 32 < byte c \<and> byte c < 127"
proof -
  have "alnum c \<or> c = CHR ''.'' \<or> c = CHR ''_'' \<or> c = CHR ''-''"
    using assms by (cases s) (auto simp: identifier_pattern_def list_all_iff)
  then show ?thesis using alnum_plain [of c] by (auto simp: json_plain_def)
qed

lemma identifier_utf8: "identifier_pattern n s \<Longrightarrow> valid_utf8 s"
  by (rule valid_utf8_plain) (auto dest: identifier_plain)

lemma identifier_length: "identifier_pattern n s \<Longrightarrow> s \<noteq> [] \<and> length s \<le> Suc n"
  by (cases s) (auto simp: identifier_pattern_def)

lemma identifier_good_name: "identifier_pattern 127 s \<Longrightarrow> \<not> bad_name s"
  by (rule bad_name_plain) (auto dest: identifier_plain identifier_length)

section \<open>Assigning JSON members to fields\<close>

text \<open>
  The fields of a destination struct after \<open>DecodeStrictInto\<close>, read from the decoded document. A
  pointer field is nil when its member is absent or null.
\<close>

definition opt_str :: "bytes \<Rightarrow> json \<Rightarrow> bytes option" where
  "opt_str k v = (case member k v of Some (JStr s) \<Rightarrow> Some s | _ \<Rightarrow> None)"

definition opt_u64 :: "bytes \<Rightarrow> json \<Rightarrow> u64 option" where
  "opt_u64 k v = (case member k v of Some (JNum n) \<Rightarrow> parse_u64 n | _ \<Rightarrow> None)"

definition opt_i64 :: "bytes \<Rightarrow> json \<Rightarrow> int option" where
  "opt_i64 k v = (case member k v of Some (JNum n) \<Rightarrow> parse_i64 n | _ \<Rightarrow> None)"

definition jstr :: "bytes \<Rightarrow> json" where "jstr s = JStr s"

definition u64_json :: "u64 \<Rightarrow> json" where "u64_json w = JNum (itoa (unat w))"

definition i64_json :: "int \<Rightarrow> json" where "i64_json i = JNum (int_lexeme i)"

definition in_int64 :: "int \<Rightarrow> bool" where "in_int64 i \<longleftrightarrow> min_int64 \<le> i \<and> i \<le> max_int64"

lemma parse_u64_itoa [simp, wire_simps]: "parse_u64 (itoa (unat w)) = Some (w :: u64)"
  using unsigned_less [of w, where 'a=nat] by (simp add: parse_u64_def)

lemma parse_i64_lexeme [simp, wire_simps]: "in_int64 i \<Longrightarrow> parse_i64 (int_lexeme i) = Some i"
  by (simp add: parse_i64_def in_int64_def)

lemma parse_i64_range: "parse_i64 s = Some i \<Longrightarrow> in_int64 i"
  by (auto simp: parse_i64_def in_int64_def split: option.splits if_splits)

lemma opt_i64_range: "opt_i64 k v = Some i \<Longrightarrow> in_int64 i"
  by (auto simp: opt_i64_def dest: parse_i64_range split: option.splits json.splits)

lemma wf_u64_json [simp, wire_simps]: "wf_json (u64_json w)"
  by (simp add: u64_json_def) (metis int_lexeme_def linorder_not_less nat_int of_nat_0_le_iff parse_int_lexeme option.sel option.distinct(1))

lemma wf_i64_json [simp, wire_simps]: "wf_json (i64_json i)"
  by (simp add: i64_json_def)

lemma number_fits_json [simp, wire_simps]:
  "number_fits TUint64 (itoa (unat (w :: u64)))"
  "in_int64 i \<Longrightarrow> number_fits TInt64 (int_lexeme i)"
  using unsigned_less [of w, where 'a=nat] by (auto simp: number_fits_def in_int64_def min_int64_def max_int64_def)

text \<open>A decoded document: \<open>DecodeStrictInto\<close> reads back what the encoder printed.\<close>

lemma DecodeStrictInto_print:
  assumes "wf_json v" "length (json_print v) \<le> n" "conforms t 0 v"
  shows "DecodeStrictInto (json_print v) n t = Ok v"
  using assms json_document_print [OF assms(1)] json_print_hd [OF assms(1)] by (auto simp: DecodeStrictInto_iff)

lemma member_JObj [wire_simps]: "member k (JObj ms) = map_of ms k"
  by (simp add: member_def)

lemma opt_str_member [wire_simps]: "member k v = Some (JStr s) \<Longrightarrow> opt_str k v = Some s"
  by (simp add: opt_str_def)

lemma opt_u64_member [wire_simps]: "member k v = Some (u64_json w) \<Longrightarrow> opt_u64 k v = Some w"
  by (simp add: opt_u64_def u64_json_def)

lemma opt_i64_member [wire_simps]: "member k v = Some (i64_json i) \<Longrightarrow> in_int64 i \<Longrightarrow> opt_i64 k v = Some i"
  by (simp add: opt_i64_def i64_json_def)

section \<open>Contracts of the permit packages\<close>

text \<open>
  A permit opens and closes at fixed instants; acceptance at a time depends on that time only
  through the interval, and the interval is never longer than the local maximum nor than the
  package's ceiling.
\<close>

locale validity_contract =
  fixes accepts :: "'p \<Rightarrow> time \<Rightarrow> duration \<Rightarrow> bool"
    and opens :: "'p \<Rightarrow> time"
    and closes :: "'p \<Rightarrow> time"
    and ceiling :: duration
  assumes accepts_window: "accepts p now m \<Longrightarrow> opens p \<le> now \<and> now < closes p"
    and accepts_span: "accepts p now m \<Longrightarrow> closes p - opens p \<le> m \<and> m \<le> ceiling"
    and accepts_uniform: "accepts p now m \<Longrightarrow> opens p \<le> now' \<Longrightarrow> now' < closes p \<Longrightarrow>
      closes p - opens p \<le> m' \<Longrightarrow> m' \<le> ceiling \<Longrightarrow> accepts p now' m'"
begin

lemma accepts_iff:
  assumes "accepts p now m"
  shows "accepts p now' m' \<longleftrightarrow> opens p \<le> now' \<and> now' < closes p \<and> closes p - opens p \<le> m' \<and> m' \<le> ceiling"
  using assms accepts_window accepts_span accepts_uniform by blast

lemma expired_stays_expired: "accepts p now m \<Longrightarrow> closes p \<le> later \<Longrightarrow> \<not> accepts p later m'"
  using accepts_window by fastforce

lemma accepted_times_close: "accepts p now m \<Longrightarrow> accepts p later m' \<Longrightarrow> later - now < ceiling"
  using accepts_window [of p now m] accepts_window [of p later m'] accepts_span [of p now m] by linarith

lemma accepted_between:
  "accepts p t1 m \<Longrightarrow> accepts p t3 m' \<Longrightarrow> t1 \<le> t2 \<Longrightarrow> t2 \<le> t3 \<Longrightarrow> accepts p t2 m"
  using accepts_window [of p t1 m] accepts_window [of p t3 m'] accepts_span [of p t1 m] accepts_uniform [of p t1 m t2 m]
  by force

end

text \<open>A transport encoding with exactly one accepted spelling for each value.\<close>

locale canonical_codec =
  fixes encode :: "bytes \<Rightarrow> bytes result"
    and decode :: "bytes \<Rightarrow> bytes result"
  assumes decode_encode: "encode raw = Ok h \<Longrightarrow> decode h = Ok raw"
    and encode_decode: "decode h = Ok raw \<Longrightarrow> encode raw = Ok h"
begin

lemma spelling_iff: "decode h = Ok raw \<longleftrightarrow> encode raw = Ok h"
  using decode_encode encode_decode by blast

lemma single_spelling: "decode h = Ok raw \<Longrightarrow> decode h' = Ok raw \<Longrightarrow> h = h'"
  using encode_decode [of h raw] encode_decode [of h' raw] by simp

lemma encode_injective: "encode raw = Ok h \<Longrightarrow> encode raw' = Ok h \<Longrightarrow> raw = raw'"
  using decode_encode [of raw h] decode_encode [of raw' h] by simp

end

subsection \<open>Validity intervals\<close>

lemma time_sub_le:
  assumes "m < max_int64" "time_sub a b \<le> m"
  shows "a - b \<le> m"
  using assms by (auto simp: time_sub_def min_int64_def max_int64_def split: if_splits)

lemma time_sub_le_iff:
  assumes "0 \<le> m" "m < max_int64"
  shows "time_sub a b \<le> m \<longleftrightarrow> a - b \<le> m"
  using assms by (auto simp: time_sub_def min_int64_def max_int64_def split: if_splits)

definition instant :: "bytes \<Rightarrow> time" where
  "instant s = (case canonicalTime s of Inl _ \<Rightarrow> 0 | Inr t \<Rightarrow> t)"

lemma canonicalTime_instant: "canonicalTime s = Ok t \<Longrightarrow> instant s = t"
  by (simp add: instant_def)

lemma canonicalTime_format_of: "canonicalTime s = Ok t \<Longrightarrow> s = time_format t"
  by (auto simp: canonicalTime_def split: option.splits if_splits)

lemma canonicalTime_length:
  assumes "canonicalTime s = Ok t"
  shows "length s = 20"
proof -
  obtain x where "s \<noteq> []" "parse_seconds (butlast s) = Some x"
    using assms by (auto simp: canonicalTime_def time_parse_def split: option.splits if_splits)
  moreover then have "length (butlast s) = 19"
    unfolding parse_seconds_def by (auto split: option.splits if_splits)
  ultimately show ?thesis by (simp add: length_butlast)
qed

lemma canonicalTime_plain:
  assumes "canonicalTime s = Ok t" "c \<in> set s"
  shows "json_plain c"
proof -
  obtain y m d where "civil_from_days (t div nsec div day_length) = (y, m, d)" by (metis prod_cases3)
  then have "is_digit c \<or> c \<in> {CHR ''-'', CHR ''T'', CHR '':'', CHR ''Z''}"
    using assms(2) unfolding canonicalTime_format_of [OF assms(1)]
    by (auto simp: time_format_def format_seconds_def Let_def dest: pad_digits)
  then show ?thesis by (auto simp: json_plain_def is_digit_def)
qed

lemma canonicalTime_utf8: "canonicalTime s = Ok t \<Longrightarrow> valid_utf8 s"
  by (rule valid_utf8_plain) (auto dest: canonicalTime_plain)

subsection \<open>Canonical base64\<close>

lemma b64_encoded_len_RawURL: "b64_encoded_len RawURL n = (4 * n + 2) div 3"
proof -
  have "n = 3 * (n div 3) + n mod 3" by simp
  then obtain q r where n: "n = 3 * q + r" "r < 3" by (metis mod_less_divisor zero_less_numeral)
  then have "r = 0 \<or> r = 1 \<or> r = 2" by auto
  then show ?thesis unfolding b64_encoded_len_def n(1) by auto
qed

lemma b64_encoded_len_RawURL_mono: "m \<le> n \<Longrightarrow> b64_encoded_len RawURL m \<le> b64_encoded_len RawURL n"
  by (simp add: b64_encoded_len_RawURL div_le_mono)

lemma b64_encode_eq_iff [simp]: "b64_encode e s = b64_encode e t \<longleftrightarrow> s = t"
  using b64_encode_inj by blast

text \<open>\<open>DecodeString\<close> followed by the comparison of the re-encoded value with the input.\<close>

definition b64_exact :: "bytes \<Rightarrow> bytes option" where
  "b64_exact s = (case b64_decode Std s of None \<Rightarrow> None | Some p \<Rightarrow> if b64_encode Std p = s then Some p else None)"

lemma b64_exact_iff [simp]: "b64_exact s = Some p \<longleftrightarrow> s = b64_encode Std p"
  by (auto simp: b64_exact_def split: option.splits if_splits)

lemma b64_exact_encode [simp]: "b64_exact (b64_encode Std p) = Some p"
  by simp

text \<open>The common shape of \<open>len(prefix)+64\<close> lower-case hexadecimal identities.\<close>

lemma lower_hex_plain: "is_lower_hex c \<Longrightarrow> json_plain c \<and> 32 < byte c \<and> byte c < 127"
  by (auto simp: is_lower_hex_def json_plain_def is_digit_def)

definition prefixed_hex :: "bytes \<Rightarrow> bytes \<Rightarrow> bool" where
  "prefixed_hex p s \<longleftrightarrow> (\<exists>h. s = p @ h \<and> length h = 64 \<and> list_all is_lower_hex h)"

lemma prefixed_hexI:
  "has_prefix s p \<Longrightarrow> length s = length p + 64 \<Longrightarrow> list_all is_lower_hex (drop (length p) s) \<Longrightarrow> prefixed_hex p s"
  unfolding prefixed_hex_def has_prefix_def
  by (intro exI [of _ "drop (length p) s"]) (metis append_take_drop_id diff_add_inverse length_drop)

lemma prefixed_hex_iff:
  "prefixed_hex p s \<longleftrightarrow> has_prefix s p \<and> length s = length p + 64 \<and> list_all is_lower_hex (drop (length p) s)"
  using prefixed_hexI by (auto simp: prefixed_hex_def has_prefix_def)

lemma prefixed_hex_utf8: "prefixed_hex p s \<Longrightarrow> \<forall>c \<in> set p. json_plain c \<Longrightarrow> valid_utf8 s"
  by (rule valid_utf8_plain) (auto simp: prefixed_hex_def list_all_iff dest: lower_hex_plain)

lemma prefixed_hex_length: "prefixed_hex p s \<Longrightarrow> length s = length p + 64"
  by (auto simp: prefixed_hex_def)

lemma prefixed_hex_encode: "length h = 32 \<Longrightarrow> prefixed_hex p (p @ hex_encode h)"
  by (auto simp: prefixed_hex_def list_all_iff dest: hex_encode_lower)

subsection \<open>Canonical envelopes\<close>

text \<open>
  The permit packages accept an envelope only if it re-marshals to the same bytes and its payload and
  signatures are canonical base64. Then the bytes are a function of the payload, the payload type and
  the list of key IDs and raw signatures.
\<close>

lemma canonical_envelope_unique:
  assumes "Marshal e = Ok raw" "Marshal e' = Ok raw'" "PayloadType e = PayloadType e'" "Payload e = Payload e'"
    "map KeyID (Signatures e) = map KeyID (Signatures e')" "map Sig (Signatures e) = map Sig (Signatures e')"
  shows "raw = raw'"
proof -
  have "map (\<lambda>s. (KeyID s, Sig s)) (Signatures e) = map (\<lambda>s. (KeyID s, Sig s)) (Signatures e')"
    using assms(5,6) by (simp add: list_eq_iff_nth_eq)
  moreover have "inj (\<lambda>s :: Signature. (KeyID s, Sig s))" by (auto intro!: injI)
  ultimately have "Signatures e = Signatures e'" by (simp add: inj_map_eq_map)
  with assms(3,4) have "e = e'" by (simp add: Envelope.equality)
  with assms(1,2) show ?thesis by simp
qed


subsection \<open>Sizes of printed structs\<close>

text \<open>Upper bounds for the printed form of the members a permit statement has.\<close>

lemma printed_str: "length s \<le> n \<Longrightarrow> length (json_print (JStr s)) \<le> 6 * n + 2"
  using json_quote_bound [of s n] by simp

lemma length_itoa_u64: "length (itoa (unat (w :: u64))) \<le> 20"
proof -
  have "unat w < 10 ^ 20" using unsigned_less [of w, where 'a=nat] by simp
  then show ?thesis using length_itoa_less [of "unat w" 20] by simp
qed

lemma printed_u64: "length (json_print (u64_json w)) \<le> 20"
  by (simp add: u64_json_def length_itoa_u64)

lemma printed_i64:
  assumes "in_int64 i"
  shows "length (json_print (i64_json i)) \<le> 21"
proof -
  have "nat i < 10 ^ 20" "nat (- i) < 10 ^ 20"
    using assms by (auto simp: in_int64_def min_int64_def max_int64_def nat_less_iff)
  then have "length (itoa (nat i)) \<le> 20" "length (itoa (nat (- i))) \<le> 20" by (auto intro: length_itoa_less)
  then show ?thesis by (simp add: i64_json_def int_lexeme_def)
qed

definition member_sizes :: "(bytes \<times> json) list \<Rightarrow> nat" where
  "member_sizes ms = (\<Sum>m\<leftarrow>ms. 6 * length (fst m) + length (json_print (snd m)) + 4)"

lemma print_members_length: "length (print_members ms) \<le> member_sizes ms + 1"
proof (induction ms rule: induct_list012)
  case (2 m)
  then show ?case using json_quote_length [of "fst m"] by (cases m) (simp add: member_sizes_def)
next
  case (3 m m' ms)
  then show ?case using json_quote_length [of "fst m"] by (cases m) (simp add: member_sizes_def)
qed (simp add: member_sizes_def)

lemma printed_object: "length (json_print (JObj ms)) \<le> member_sizes ms + 2"
  using print_members_length [of ms] by simp

text \<open>The printed size of a single-signature envelope over a payload.\<close>

lemma printed_envelope:
  assumes "Signatures e = [s]" "Payload e = b64_encode Std p" "length (PayloadType e) \<le> 64"
    "length (KeyID s) \<le> 128" "length (Sig s) \<le> 88"
  shows "length (json_print (envelope_json e)) \<le> b64_encoded_len Std (length p) + 2000"
proof -
  have "length (json_quote (Payload e)) = b64_encoded_len Std (length p) + 2"
    by (simp add: assms(2) json_quote_b64 length_b64_encode)
  then show ?thesis
    using json_quote_bound [OF assms(3)] json_quote_bound [OF assms(4)] json_quote_bound [OF assms(5)]
      json_quote_bound [of "''payloadType''" 11] json_quote_bound [of "''payload''" 7]
      json_quote_bound [of "''signatures''" 10] json_quote_bound [of "''keyid''" 5] json_quote_bound [of "''sig''" 3]
    by (simp add: envelope_json_def signature_json_def assms(1))
qed

end
