(* ===== verification/Task_Permit.thy ===== *)
theory Task_Permit
  imports Permit_Common
begin

text \<open>
  \<open>internal/taskpermit/taskpermit.go\<close>: short-lived, authority-signed permission to dispatch one
  exact task request. \<open>tp_InspectUnverified\<close> is the courier's check, \<open>tp_Verify\<close> the Gateway's; the
  theory shows that they agree on everything but the signature and the clock, that a permit has one
  spelling in bytes and in the HTTP header, and that the replay identity of a task is unambiguous.
\<close>

section \<open>Data\<close>

definition tp_PayloadType :: bytes where "tp_PayloadType = ''application/vnd.steward.task-permit.v1+json''"
definition tp_SchemaV1 :: bytes where "tp_SchemaV1 = ''steward.task-permit.v1''"
definition tp_MaxEnvelopeBytes :: nat where "tp_MaxEnvelopeBytes = 16384"
definition tp_MaxRequestBytes :: int where "tp_MaxRequestBytes = 65536"
definition tp_MaxValidity :: duration where "tp_MaxValidity = 15 * minute"
definition taskDigestDomain :: bytes where "taskDigestDomain = ''steward-task-permit-spend-v1'' @ [chr 0]"

record TaskStatement =
  tps_SchemaVersion :: bytes
  tps_NodeID :: bytes
  tps_TenantID :: bytes
  tps_InstanceID :: bytes
  tps_RuntimeRef :: bytes
  tps_GrantID :: bytes
  tps_Generation :: u64
  tps_CapsuleDigest :: bytes
  tps_PolicyDigest :: bytes
  tps_RoutePolicyDigest :: bytes
  tps_ServiceID :: bytes
  tps_OperationID :: bytes
  tps_OperationPolicyDigest :: bytes
  tps_TaskID :: bytes
  tps_RequestDigest :: bytes
  tps_RequestBytes :: int
  tps_ContentType :: bytes
  tps_NotBefore :: bytes
  tps_ExpiresAt :: bytes

record TaskVerified =
  tpv_Statement :: TaskStatement
  tpv_KeyID :: bytes
  tpv_EnvelopeDigest :: bytes

record TaskInspected =
  tpi_Statement :: TaskStatement
  tpi_KeyID :: bytes
  tpi_EnvelopeDigest :: bytes

abbreviation tp_invalid :: "string \<Rightarrow> 'a result" where
  "tp_invalid m \<equiv> wrap_err ErrTaskPermitInvalid m"

section \<open>Syntax checks\<close>

definition tp_publicIdentity :: "bytes \<Rightarrow> nat \<Rightarrow> bool" where
  "tp_publicIdentity value limit \<longleftrightarrow>
     trim_space value \<noteq> [] \<and> length value \<le> limit \<and> valid_utf8 value \<and> \<not> contains_nul value"

definition tp_identifier :: "bytes \<Rightarrow> bool" where
  "tp_identifier value = identifier_pattern 127 value"

text \<open>The loops range over runes; a byte outside ASCII is part of a rune above \<open>'f'\<close> or decodes to
  U+FFFD, so testing each byte is the same test.\<close>

definition tp_digest :: "bytes \<Rightarrow> bool" where
  "tp_digest value \<longleftrightarrow>
     length value = length ''sha256:'' + 64 \<and> has_prefix value ''sha256:'' \<and> list_all is_lower_hex (drop (length ''sha256:'') value)"

definition tp_lowerHex :: "bytes \<Rightarrow> bool" where
  "tp_lowerHex value \<longleftrightarrow> list_all is_lower_hex value \<and> value \<noteq> []"

definition tp_runtimeRef :: "bytes \<Rightarrow> bool" where
  "tp_runtimeRef value \<longleftrightarrow> has_prefix value ''executor-'' \<and> length value = length ''executor-'' + 64 \<and> tp_lowerHex (drop (length ''executor-'') value)"

definition tp_grantID :: "bytes \<Rightarrow> bool" where
  "tp_grantID value \<longleftrightarrow> has_prefix value ''grant-'' \<and> length value = length ''grant-'' + 64 \<and> tp_lowerHex (drop (length ''grant-'') value)"

section \<open>The signed statement on the wire\<close>

definition tp_wireStatement :: gotype where
  "tp_wireStatement = TStruct
     [(''schema_version'', TPtr TString), (''node_id'', TPtr TString), (''tenant_id'', TPtr TString),
      (''instance_id'', TPtr TString), (''runtime_ref'', TPtr TString), (''grant_id'', TPtr TString),
      (''generation'', TPtr TUint64), (''capsule_digest'', TPtr TString), (''policy_digest'', TPtr TString),
      (''route_policy_digest'', TPtr TString), (''service_id'', TPtr TString), (''operation_id'', TPtr TString),
      (''operation_policy_digest'', TPtr TString), (''task_id'', TPtr TString), (''request_digest'', TPtr TString),
      (''request_bytes'', TPtr TInt64), (''content_type'', TPtr TString), (''not_before'', TPtr TString),
      (''expires_at'', TPtr TString)]"

definition tp_decode :: "bytes \<Rightarrow> json result" where
  "tp_decode payload = DecodeStrictInto payload tp_MaxEnvelopeBytes tp_wireStatement"

definition tp_statement :: "json \<Rightarrow> TaskStatement option" where
  "tp_statement wire =
     (case (opt_str ''schema_version'' wire, opt_str ''node_id'' wire, opt_str ''tenant_id'' wire,
            opt_str ''instance_id'' wire, opt_str ''runtime_ref'' wire, opt_str ''grant_id'' wire,
            opt_u64 ''generation'' wire, opt_str ''capsule_digest'' wire, opt_str ''policy_digest'' wire,
            opt_str ''route_policy_digest'' wire) of
        (Some sv, Some node, Some tenant, Some inst, Some ref, Some grant, Some gen, Some cap, Some pol, Some route) \<Rightarrow>
          (case (opt_str ''service_id'' wire, opt_str ''operation_id'' wire, opt_str ''operation_policy_digest'' wire,
                 opt_str ''task_id'' wire, opt_str ''request_digest'' wire, opt_i64 ''request_bytes'' wire,
                 opt_str ''content_type'' wire, opt_str ''not_before'' wire, opt_str ''expires_at'' wire) of
             (Some service, Some operation, Some opdigest, Some task, Some reqdigest, Some reqbytes,
              Some ctype, Some nb, Some ex) \<Rightarrow>
               Some \<lparr>tps_SchemaVersion = sv, tps_NodeID = node, tps_TenantID = tenant, tps_InstanceID = inst,
                 tps_RuntimeRef = ref, tps_GrantID = grant, tps_Generation = gen, tps_CapsuleDigest = cap,
                 tps_PolicyDigest = pol, tps_RoutePolicyDigest = route, tps_ServiceID = service,
                 tps_OperationID = operation, tps_OperationPolicyDigest = opdigest, tps_TaskID = task,
                 tps_RequestDigest = reqdigest, tps_RequestBytes = reqbytes, tps_ContentType = ctype,
                 tps_NotBefore = nb, tps_ExpiresAt = ex\<rparr>
           | _ \<Rightarrow> None)
      | _ \<Rightarrow> None)"

section \<open>Validation\<close>

definition tp_validateStatement :: "TaskStatement \<Rightarrow> time \<Rightarrow> duration \<Rightarrow> unit result" where
  "tp_validateStatement statement now maxValidity =
     (if tps_SchemaVersion statement \<noteq> tp_SchemaV1 then tp_invalid ''unsupported schema version''
      else if \<not> tp_publicIdentity (tps_NodeID statement) 128 \<or> \<not> tp_publicIdentity (tps_TenantID statement) 128 \<or>
        \<not> tp_publicIdentity (tps_InstanceID statement) 256 \<or> \<not> tp_runtimeRef (tps_RuntimeRef statement) \<or>
        \<not> tp_grantID (tps_GrantID statement) \<or> \<not> tp_identifier (tps_ServiceID statement) \<or>
        \<not> tp_identifier (tps_OperationID statement) \<or> \<not> tp_identifier (tps_TaskID statement)
      then tp_invalid ''statement contains an invalid identifier''
      else if tps_Generation statement = 0 then tp_invalid ''generation must be positive''
      else if \<not> tp_digest (tps_CapsuleDigest statement) \<or> \<not> tp_digest (tps_PolicyDigest statement) \<or>
        \<not> tp_digest (tps_RoutePolicyDigest statement) \<or> \<not> tp_digest (tps_OperationPolicyDigest statement) \<or>
        \<not> tp_digest (tps_RequestDigest statement)
      then tp_invalid ''statement contains an invalid SHA-256 digest''
      else if tps_RequestBytes statement \<le> 0 \<or> tps_RequestBytes statement > tp_MaxRequestBytes
      then tp_invalid ''request size is outside the supported range''
      else if tps_ContentType statement \<noteq> ''application/json'' then tp_invalid ''content type must be application/json''
      else (case canonicalTime (tps_NotBefore statement) of
              Inl _ \<Rightarrow> tp_invalid ''not_before''
            | Inr notBefore \<Rightarrow>
                (case canonicalTime (tps_ExpiresAt statement) of
                   Inl _ \<Rightarrow> tp_invalid ''expires_at''
                 | Inr expiresAt \<Rightarrow>
                     if \<not> notBefore < expiresAt \<or> time_sub expiresAt notBefore > maxValidity
                     then tp_invalid ''validity interval is empty or exceeds the local maximum''
                     else if now < notBefore then tp_invalid ''permit is not yet valid according to node time''
                     else if \<not> now < expiresAt then tp_invalid ''permit has expired according to node time''
                     else Ok ())))"

section \<open>Inspection and verification\<close>

definition tp_InspectUnverified :: "crypto \<Rightarrow> bytes \<Rightarrow> TaskInspected result" where
  "tp_InspectUnverified c rawEnvelope =
     (if length rawEnvelope = 0 \<or> length rawEnvelope > tp_MaxEnvelopeBytes
      then tp_invalid ''envelope is empty or exceeds its limit''
      else (case Parse rawEnvelope of
        Inl _ \<Rightarrow> tp_invalid ''parse canonical single-signature envelope''
      | Inr envelope \<Rightarrow>
        if PayloadType envelope \<noteq> tp_PayloadType \<or> length (Signatures envelope) \<noteq> 1
        then tp_invalid ''parse canonical single-signature envelope''
        else (case b64_exact (Payload envelope) of
          None \<Rightarrow> tp_invalid ''permit payload is not canonical UTF-8''
        | Some payload \<Rightarrow>
          if \<not> valid_utf8 payload then tp_invalid ''permit payload is not canonical UTF-8''
          else (case b64_exact (Sig (hd (Signatures envelope))) of
            None \<Rightarrow> tp_invalid ''permit signature encoding is invalid''
          | Some signature \<Rightarrow>
            if length signature \<noteq> 64 \<or> \<not> tp_identifier (KeyID (hd (Signatures envelope)))
            then tp_invalid ''permit signature encoding is invalid''
            else if Marshal envelope \<noteq> Ok rawEnvelope then tp_invalid ''permit envelope is not canonical''
            else (case tp_decode payload of
              Inl _ \<Rightarrow> tp_invalid ''decode signed statement''
            | Inr wire \<Rightarrow>
              (case tp_statement wire of
                 None \<Rightarrow> tp_invalid ''signed statement omits a required field''
               | Some statement \<Rightarrow>
                 (case canonicalTime (tps_NotBefore statement) of
                    Inl _ \<Rightarrow> tp_invalid ''not_before''
                  | Inr notBefore \<Rightarrow>
                    and_then (tp_validateStatement statement notBefore tp_MaxValidity) (\<lambda>_.
                      Ok \<lparr>tpi_Statement = statement, tpi_KeyID = KeyID (hd (Signatures envelope)),
                          tpi_EnvelopeDigest = Digest c rawEnvelope\<rparr>))))))))"

definition tp_Verify ::
  "crypto \<Rightarrow> bytes \<Rightarrow> (bytes \<Rightarrow> bytes option) \<Rightarrow> time \<Rightarrow> duration \<Rightarrow> TaskVerified result" where
  "tp_Verify c rawEnvelope trusted now maxValidity =
     (if length rawEnvelope = 0 \<or> length rawEnvelope > tp_MaxEnvelopeBytes
      then tp_invalid ''envelope is empty or exceeds its limit''
      else if now = zero_time then tp_invalid ''node time is unavailable''
      else if maxValidity \<le> 0 \<or> maxValidity > tp_MaxValidity
      then tp_invalid ''maximum validity must be positive and bounded''
      else (case Parse rawEnvelope of
        Inl _ \<Rightarrow> tp_invalid ''parse canonical single-signature envelope''
      | Inr envelope \<Rightarrow>
        if length (Signatures envelope) \<noteq> 1 then tp_invalid ''permit envelope must contain exactly one signature''
        else (case b64_exact (Payload envelope) of
          None \<Rightarrow> tp_invalid ''permit payload is not canonical base64''
        | Some payloadBytes \<Rightarrow>
          (case b64_exact (Sig (hd (Signatures envelope))) of
            None \<Rightarrow> tp_invalid ''permit signature is not canonical base64''
          | Some signatureBytes \<Rightarrow>
            if length signatureBytes \<noteq> 64 then tp_invalid ''permit signature is not canonical base64''
            else if Marshal envelope \<noteq> Ok rawEnvelope then tp_invalid ''permit envelope is not canonical''
            else (case Verify c rawEnvelope tp_PayloadType trusted of
              Inl _ \<Rightarrow> tp_invalid ''verify DSSE envelope''
            | Inr (payload, keyID) \<Rightarrow>
              if \<not> valid_utf8 payload then tp_invalid ''signed statement is not valid UTF-8''
              else if \<not> tp_identifier keyID then tp_invalid ''signature key ID is not a bounded identifier''
              else (case tp_decode payload of
                Inl _ \<Rightarrow> tp_invalid ''decode signed statement''
              | Inr wire \<Rightarrow>
                (case tp_statement wire of
                   None \<Rightarrow> tp_invalid ''signed statement omits a required field''
                 | Some statement \<Rightarrow>
                   and_then (tp_validateStatement statement now maxValidity) (\<lambda>_.
                     Ok \<lparr>tpv_Statement = statement, tpv_KeyID = keyID,
                         tpv_EnvelopeDigest = Digest c rawEnvelope\<rparr>))))))))"

section \<open>Digests and the HTTP header\<close>

definition tp_RequestDigest :: "crypto \<Rightarrow> bytes \<Rightarrow> bytes" where
  "tp_RequestDigest c raw = ''sha256:'' @ hex_encode (sha256 c raw)"

text \<open>\<open>binary.BigEndian.PutUint64\<close> of a length.\<close>

definition be64 :: "nat \<Rightarrow> bytes" where
  "be64 n = be_bytes 8 n"

definition task_frame :: "bytes \<Rightarrow> bytes \<Rightarrow> bytes \<Rightarrow> bytes" where
  "task_frame tenantID instanceID taskID =
     taskDigestDomain @ concat (map (\<lambda>value. be64 (length value) @ value) [tenantID, instanceID, taskID])"

definition TaskDigest :: "crypto \<Rightarrow> bytes \<Rightarrow> bytes \<Rightarrow> bytes \<Rightarrow> bytes" where
  "TaskDigest c tenantID instanceID taskID = ''sha256:'' @ hex_encode (sha256 c (task_frame tenantID instanceID taskID))"

definition tp_EncodeHeader :: "bytes \<Rightarrow> bytes result" where
  "tp_EncodeHeader raw =
     (if length raw = 0 \<or> length raw > tp_MaxEnvelopeBytes then tp_invalid ''header envelope is empty or exceeds its limit''
      else Ok (b64_encode RawURL raw))"

definition tp_DecodeHeader :: "bytes \<Rightarrow> bytes result" where
  "tp_DecodeHeader value =
     (if value = [] \<or> length value > b64_encoded_len RawURL tp_MaxEnvelopeBytes
      then tp_invalid ''header is empty or exceeds the encoded limit''
      else (case b64_decode RawURL value of
              None \<Rightarrow> tp_invalid ''header is not one canonical base64url value''
            | Some raw \<Rightarrow>
                if length raw = 0 \<or> length raw > tp_MaxEnvelopeBytes \<or> b64_encode RawURL raw \<noteq> value
                then tp_invalid ''header is not one canonical base64url value''
                else Ok raw))"

section \<open>Encoding a statement\<close>

text \<open>\<open>json.Marshal\<close> of the struct \<open>Statement\<close>, from its field tags.\<close>

definition tp_statement_json :: "TaskStatement \<Rightarrow> json" where
  "tp_statement_json s = JObj
     [(''schema_version'', JStr (tps_SchemaVersion s)), (''node_id'', JStr (tps_NodeID s)),
      (''tenant_id'', JStr (tps_TenantID s)), (''instance_id'', JStr (tps_InstanceID s)),
      (''runtime_ref'', JStr (tps_RuntimeRef s)), (''grant_id'', JStr (tps_GrantID s)),
      (''generation'', u64_json (tps_Generation s)), (''capsule_digest'', JStr (tps_CapsuleDigest s)),
      (''policy_digest'', JStr (tps_PolicyDigest s)), (''route_policy_digest'', JStr (tps_RoutePolicyDigest s)),
      (''service_id'', JStr (tps_ServiceID s)), (''operation_id'', JStr (tps_OperationID s)),
      (''operation_policy_digest'', JStr (tps_OperationPolicyDigest s)), (''task_id'', JStr (tps_TaskID s)),
      (''request_digest'', JStr (tps_RequestDigest s)), (''request_bytes'', i64_json (tps_RequestBytes s)),
      (''content_type'', JStr (tps_ContentType s)), (''not_before'', JStr (tps_NotBefore s)),
      (''expires_at'', JStr (tps_ExpiresAt s))]"

lemma tp_statement_of_json:
  assumes "in_int64 (tps_RequestBytes s)"
  shows "tp_statement (tp_statement_json s) = Some s"
  using assms
  by (simp add: tp_statement_def tp_statement_json_def opt_str_def opt_u64_def opt_i64_def member_JObj u64_json_def i64_json_def)

lemma conforms_tp_statement_json: "in_int64 (tps_RequestBytes s) \<Longrightarrow> conforms tp_wireStatement 0 (tp_statement_json s)"
  by (simp add: tp_wireStatement_def tp_statement_json_def u64_json_def i64_json_def)

text \<open>What validation establishes of a statement.\<close>

lemma tp_digest_iff: "tp_digest s \<longleftrightarrow> prefixed_hex ''sha256:'' s"
  by (auto simp: tp_digest_def prefixed_hex_iff)

lemma tp_runtimeRef_iff: "tp_runtimeRef s \<longleftrightarrow> prefixed_hex ''executor-'' s"
  by (auto simp: tp_runtimeRef_def tp_lowerHex_def prefixed_hex_iff)

lemma tp_grantID_iff: "tp_grantID s \<longleftrightarrow> prefixed_hex ''grant-'' s"
  by (auto simp: tp_grantID_def tp_lowerHex_def prefixed_hex_iff)

lemma tp_digest_props: "tp_digest s \<Longrightarrow> length s \<le> 71 \<and> valid_utf8 s"
  using prefixed_hex_utf8 [of "''sha256:''" s] by (auto simp: tp_digest_iff json_plain_def dest: prefixed_hex_length)

lemma tp_runtimeRef_props: "tp_runtimeRef s \<Longrightarrow> length s \<le> 73 \<and> valid_utf8 s"
  using prefixed_hex_utf8 [of "''executor-''" s] by (auto simp: tp_runtimeRef_iff json_plain_def dest: prefixed_hex_length)

lemma tp_grantID_props: "tp_grantID s \<Longrightarrow> length s \<le> 70 \<and> valid_utf8 s"
  using prefixed_hex_utf8 [of "''grant-''" s] by (auto simp: tp_grantID_iff json_plain_def dest: prefixed_hex_length)

lemma tp_identifier_props: "tp_identifier s \<Longrightarrow> length s \<le> 128 \<and> valid_utf8 s"
  unfolding tp_identifier_def using identifier_length identifier_utf8 by fastforce

lemma tp_publicIdentity_props: "tp_publicIdentity s n \<Longrightarrow> length s \<le> n \<and> valid_utf8 s"
  by (simp add: tp_publicIdentity_def)

lemma tp_validateStatement_iff:
  assumes "0 < m" "m < max_int64"
  shows "tp_validateStatement s now m = Ok () \<longleftrightarrow>
     tps_SchemaVersion s = tp_SchemaV1 \<and>
     tp_publicIdentity (tps_NodeID s) 128 \<and> tp_publicIdentity (tps_TenantID s) 128 \<and>
     tp_publicIdentity (tps_InstanceID s) 256 \<and> tp_runtimeRef (tps_RuntimeRef s) \<and> tp_grantID (tps_GrantID s) \<and>
     tp_identifier (tps_ServiceID s) \<and> tp_identifier (tps_OperationID s) \<and> tp_identifier (tps_TaskID s) \<and>
     tps_Generation s \<noteq> 0 \<and>
     tp_digest (tps_CapsuleDigest s) \<and> tp_digest (tps_PolicyDigest s) \<and> tp_digest (tps_RoutePolicyDigest s) \<and>
     tp_digest (tps_OperationPolicyDigest s) \<and> tp_digest (tps_RequestDigest s) \<and>
     0 < tps_RequestBytes s \<and> tps_RequestBytes s \<le> tp_MaxRequestBytes \<and> tps_ContentType s = ''application/json'' \<and>
     is_ok (canonicalTime (tps_NotBefore s)) \<and> is_ok (canonicalTime (tps_ExpiresAt s)) \<and>
     instant (tps_NotBefore s) \<le> now \<and> now < instant (tps_ExpiresAt s) \<and>
     instant (tps_ExpiresAt s) - instant (tps_NotBefore s) \<le> m"
proof -
  have sub: "time_sub a b > m \<longleftrightarrow> a - b > m" for a b
    using time_sub_le_iff [of m a b] assms by force
  show ?thesis
    unfolding tp_validateStatement_def sub
    by (auto simp: is_ok_iff instant_def split: sum.splits if_splits)
qed

lemma tp_MaxValidity_bound: "0 < tp_MaxValidity" "tp_MaxValidity < max_int64"
  by (simp_all add: tp_MaxValidity_def minute_def nsec_def max_int64_def)

section \<open>The contracts\<close>

definition tp_accepts :: "TaskStatement \<Rightarrow> time \<Rightarrow> duration \<Rightarrow> bool" where
  "tp_accepts s now m \<longleftrightarrow> 0 < m \<and> m \<le> tp_MaxValidity \<and> tp_validateStatement s now m = Ok ()"

lemma tp_accepts_iff:
  "tp_accepts s now m \<longleftrightarrow> 0 < m \<and> m \<le> tp_MaxValidity \<and> tp_accepts s (instant (tps_NotBefore s)) tp_MaxValidity \<and>
     instant (tps_NotBefore s) \<le> now \<and> now < instant (tps_ExpiresAt s) \<and>
     instant (tps_ExpiresAt s) - instant (tps_NotBefore s) \<le> m"
proof (cases "0 < m \<and> m \<le> tp_MaxValidity")
  case True
  then have "0 < m" "m < max_int64" using tp_MaxValidity_bound by linarith+
  with True show ?thesis
    unfolding tp_accepts_def using tp_MaxValidity_bound
    by (auto simp: tp_validateStatement_iff)
qed (auto simp: tp_accepts_def)

interpretation task_validity: validity_contract tp_accepts "\<lambda>s. instant (tps_NotBefore s)" "\<lambda>s. instant (tps_ExpiresAt s)" tp_MaxValidity
proof unfold_locales
  fix p :: TaskStatement and now m now' m'
  show "tp_accepts p now m \<Longrightarrow> instant (tps_NotBefore p) \<le> now \<and> now < instant (tps_ExpiresAt p)"
    using tp_accepts_iff by blast
  show "tp_accepts p now m \<Longrightarrow> instant (tps_ExpiresAt p) - instant (tps_NotBefore p) \<le> m \<and> m \<le> tp_MaxValidity"
    using tp_accepts_iff by blast
  show "tp_accepts p now m \<Longrightarrow> instant (tps_NotBefore p) \<le> now' \<Longrightarrow> now' < instant (tps_ExpiresAt p) \<Longrightarrow>
      instant (tps_ExpiresAt p) - instant (tps_NotBefore p) \<le> m' \<Longrightarrow> m' \<le> tp_MaxValidity \<Longrightarrow> tp_accepts p now' m'"
    using tp_accepts_iff [of p now m] tp_accepts_iff [of p now' m'] by auto
qed

interpretation task_header: canonical_codec tp_EncodeHeader tp_DecodeHeader
proof unfold_locales
  fix raw h
  show "tp_EncodeHeader raw = Ok h \<Longrightarrow> tp_DecodeHeader h = Ok raw"
    using b64_encode_nonempty [of raw RawURL] b64_encoded_len_RawURL_mono [of "length raw" tp_MaxEnvelopeBytes]
    by (auto simp: tp_EncodeHeader_def tp_DecodeHeader_def length_b64_encode split: if_splits)
  show "tp_DecodeHeader h = Ok raw \<Longrightarrow> tp_EncodeHeader raw = Ok h"
    by (auto simp: tp_EncodeHeader_def tp_DecodeHeader_def split: if_splits option.splits)
qed

section \<open>What inspection and verification accept\<close>

text \<open>The envelope \<open>raw\<close> is canonical, has the single signature \<open>s\<close>, and its payload \<open>p\<close> is a complete
  statement \<open>st\<close>.\<close>

definition tp_opened :: "bytes \<Rightarrow> Signature \<Rightarrow> bytes \<Rightarrow> TaskStatement \<Rightarrow> bool" where
  "tp_opened raw s p st \<longleftrightarrow> raw \<noteq> [] \<and> length raw \<le> tp_MaxEnvelopeBytes \<and>
     (\<exists>e sig wire. Parse raw = Ok e \<and> Marshal e = Ok raw \<and> PayloadType e = tp_PayloadType \<and> Signatures e = [s] \<and>
        Payload e = b64_encode Std p \<and> valid_utf8 p \<and> Sig s = b64_encode Std sig \<and> length sig = 64 \<and>
        tp_identifier (KeyID s) \<and> tp_decode p = Ok wire \<and> tp_statement wire = Some st)"

lemma tp_accepts_times:
  assumes "tp_accepts st now m"
  shows "canonicalTime (tps_NotBefore st) = Ok (instant (tps_NotBefore st))"
    "canonicalTime (tps_ExpiresAt st) = Ok (instant (tps_ExpiresAt st))"
  using assms by (auto simp: tp_accepts_def tp_validateStatement_def instant_def split: if_splits sum.splits)

lemma tp_Inspect_iff:
  "tp_InspectUnverified c raw = Ok i \<longleftrightarrow>
     (\<exists>s p st. tp_opened raw s p st \<and> tp_accepts st (instant (tps_NotBefore st)) tp_MaxValidity \<and>
        i = \<lparr>tpi_Statement = st, tpi_KeyID = KeyID s, tpi_EnvelopeDigest = Digest c raw\<rparr>)"
  (is "?L = ?R")
proof
  assume ?L
  then show ?R
    unfolding tp_InspectUnverified_def tp_opened_def tp_accepts_def using tp_MaxValidity_bound(1)
    by (fastforce simp: and_then_Inr_iff length_Suc_conv instant_def not_less split: if_splits sum.splits option.splits)
next
  assume ?R
  then show ?L
    unfolding tp_InspectUnverified_def tp_opened_def
    by (auto simp: tp_accepts_times) (simp add: tp_accepts_def)
qed

lemma tp_decode_payload_bound: "tp_decode p = Ok w \<Longrightarrow> length p \<le> MaxPayloadBytes"
  by (simp add: tp_decode_def DecodeStrictInto_iff tp_MaxEnvelopeBytes_def MaxPayloadBytes_def)

lemma tp_Verify_iff:
  "tp_Verify c raw trusted now m = Ok r \<longleftrightarrow> now \<noteq> zero_time \<and>
     (\<exists>s p st. tp_opened raw s p st \<and> authentic c trusted (PAE tp_PayloadType p) s \<and> tp_accepts st now m \<and>
        r = \<lparr>tpv_Statement = st, tpv_KeyID = KeyID s, tpv_EnvelopeDigest = Digest c raw\<rparr>)"
  (is "?L = ?R")
proof
  assume ?L
  then show ?R
    unfolding tp_Verify_def tp_opened_def tp_accepts_def
    by (fastforce simp: and_then_Inr_iff length_Suc_conv Verify_Ok_iff not_less
          split: if_splits sum.splits option.splits prod.splits)
next
  assume ?R
  then obtain s p st e sig wire where h: "now \<noteq> zero_time" "raw \<noteq> []" "length raw \<le> tp_MaxEnvelopeBytes"
    "Parse raw = Ok e" "Marshal e = Ok raw" "PayloadType e = tp_PayloadType" "Signatures e = [s]"
    "Payload e = b64_encode Std p" "valid_utf8 p" "Sig s = b64_encode Std sig" "length sig = 64"
    "tp_identifier (KeyID s)" "tp_decode p = Ok wire" "tp_statement wire = Some st"
    "authentic c trusted (PAE tp_PayloadType p) s" "tp_accepts st now m"
    and r: "r = \<lparr>tpv_Statement = st, tpv_KeyID = KeyID s, tpv_EnvelopeDigest = Digest c raw\<rparr>"
    unfolding tp_opened_def by blast
  have "Verify c raw tp_PayloadType trusted = Ok (p, KeyID s)"
    unfolding Verify_Ok_iff using h tp_decode_payload_bound [OF h(13)] by auto
  with h r show ?L by (auto simp: tp_Verify_def tp_accepts_def)
qed

lemma tp_opened_unique:
  "tp_opened raw s p st \<Longrightarrow> tp_opened raw s' p' st' \<Longrightarrow> s = s' \<and> p = p' \<and> st = st'"
  unfolding tp_opened_def by auto

section \<open>Every acceptable statement fits its envelope\<close>

lemma tp_accepts_fields:
  assumes "tp_accepts st now m"
  shows "tps_SchemaVersion st = tp_SchemaV1" "length (tps_NodeID st) \<le> 128" "length (tps_TenantID st) \<le> 128"
    "length (tps_InstanceID st) \<le> 256" "length (tps_RuntimeRef st) \<le> 73" "length (tps_GrantID st) \<le> 70"
    "length (tps_CapsuleDigest st) \<le> 71" "length (tps_PolicyDigest st) \<le> 71" "length (tps_RoutePolicyDigest st) \<le> 71"
    "length (tps_ServiceID st) \<le> 128" "length (tps_OperationID st) \<le> 128" "length (tps_OperationPolicyDigest st) \<le> 71"
    "length (tps_TaskID st) \<le> 128" "length (tps_RequestDigest st) \<le> 71" "in_int64 (tps_RequestBytes st)"
    "tps_ContentType st = ''application/json''" "length (tps_NotBefore st) \<le> 20" "length (tps_ExpiresAt st) \<le> 20"
    "wf_json (tp_statement_json st)"
proof -
  have m: "0 < m" "m < max_int64" using assms tp_MaxValidity_bound by (auto simp: tp_accepts_def)
  note v = assms [unfolded tp_accepts_def tp_validateStatement_iff [OF m]]
  note t = tp_accepts_times [OF assms]
  show "tps_SchemaVersion st = tp_SchemaV1" "length (tps_NodeID st) \<le> 128" "length (tps_TenantID st) \<le> 128"
    "length (tps_InstanceID st) \<le> 256" "length (tps_RuntimeRef st) \<le> 73" "length (tps_GrantID st) \<le> 70"
    "length (tps_CapsuleDigest st) \<le> 71" "length (tps_PolicyDigest st) \<le> 71" "length (tps_RoutePolicyDigest st) \<le> 71"
    "length (tps_ServiceID st) \<le> 128" "length (tps_OperationID st) \<le> 128" "length (tps_OperationPolicyDigest st) \<le> 71"
    "length (tps_TaskID st) \<le> 128" "length (tps_RequestDigest st) \<le> 71" "tps_ContentType st = ''application/json''"
    using v tp_publicIdentity_props tp_runtimeRef_props tp_grantID_props tp_digest_props tp_identifier_props by blast+
  show "in_int64 (tps_RequestBytes st)"
    using v by (simp add: in_int64_def min_int64_def max_int64_def tp_MaxRequestBytes_def)
  show "length (tps_NotBefore st) \<le> 20" "length (tps_ExpiresAt st) \<le> 20"
    using t canonicalTime_length by fastforce+
  show "wf_json (tp_statement_json st)"
    using v canonicalTime_utf8 [OF t(1)] canonicalTime_utf8 [OF t(2)]
    by (simp add: tp_statement_json_def valid_utf8_ascii tp_SchemaV1_def tp_publicIdentity_def
        conjunct2 [OF tp_runtimeRef_props] conjunct2 [OF tp_grantID_props] conjunct2 [OF tp_digest_props]
        conjunct2 [OF tp_identifier_props])
qed

lemma tp_statement_size:
  assumes "tp_accepts st now m"
  shows "length (json_print (tp_statement_json st)) \<le> 10400"
proof -
  note f = tp_accepts_fields [OF assms]
  have "member_sizes (case tp_statement_json st of JObj ms \<Rightarrow> ms | _ \<Rightarrow> []) \<le> 10350"
    using json_quote_bound [OF f(2)] json_quote_bound [OF f(3)] json_quote_bound [OF f(4)] json_quote_bound [OF f(5)]
      json_quote_bound [OF f(6)] json_quote_bound [OF f(7)] json_quote_bound [OF f(8)] json_quote_bound [OF f(9)]
      json_quote_bound [OF f(10)] json_quote_bound [OF f(11)] json_quote_bound [OF f(12)] json_quote_bound [OF f(13)]
      json_quote_bound [OF f(14)] printed_i64 [OF f(15)] json_quote_bound [OF f(17)] json_quote_bound [OF f(18)]
      printed_u64 [of "tps_Generation st"] json_quote_bound [of "tp_SchemaV1" 22] json_quote_bound [of "''application/json''" 16]
    by (simp add: tp_statement_json_def member_sizes_def f(1,16) tp_SchemaV1_def)
  moreover have "length (json_print (tp_statement_json st)) \<le> member_sizes (case tp_statement_json st of JObj ms \<Rightarrow> ms | _ \<Rightarrow> []) + 2"
    using printed_object [of "case tp_statement_json st of JObj ms \<Rightarrow> ms | _ \<Rightarrow> []"]
    by (simp add: tp_statement_json_def)
  ultimately show ?thesis by linarith
qed

section \<open>Task identities\<close>

lemma frame_inj:
  assumes "be64 (length a) @ a @ x = be64 (length b) @ b @ y" "length a < 2 ^ 64" "length b < 2 ^ 64"
  shows "a = b \<and> x = y"
proof -
  have "be64 (length a) = be64 (length b)" and r: "a @ x = b @ y"
    using assms(1) by (simp_all add: be64_def append_eq_append_conv)
  then have "length a = length b"
    using be_bytes_inj [of "length a" 8 "length b"] assms(2,3) by (simp add: be64_def)
  with r show ?thesis by simp
qed

lemma task_frame_inj:
  assumes "task_frame t i k = task_frame t' i' k'"
    "length t < 2 ^ 64" "length i < 2 ^ 64" "length k < 2 ^ 64" "length t' < 2 ^ 64" "length i' < 2 ^ 64" "length k' < 2 ^ 64"
  shows "t = t' \<and> i = i' \<and> k = k'"
proof -
  let ?f = "\<lambda>v. be64 (length v) @ v"
  have e1: "be64 (length t) @ t @ ?f i @ ?f k = be64 (length t') @ t' @ ?f i' @ ?f k'"
    using assms(1) by (simp add: task_frame_def)
  note r1 = frame_inj [OF e1 assms(2,5)]
  have e2: "be64 (length i) @ i @ ?f k = be64 (length i') @ i' @ ?f k'"
    using conjunct2 [OF r1] by simp
  note r2 = frame_inj [OF e2 assms(3,6)]
  have e3: "be64 (length k) @ k @ [] = be64 (length k') @ k' @ []"
    using conjunct2 [OF r2] by simp
  show ?thesis using r1 r2 frame_inj [OF e3 assms(4,7)] by blast
qed

lemma length_task_frame: "length (task_frame t i k) = 53 + length t + length i + length k"
  by (simp add: task_frame_def taskDigestDomain_def be64_def)

section \<open>A concrete permit for the witnesses\<close>

definition demo_digest :: bytes where "demo_digest = ''sha256:'' @ replicate 64 (CHR ''a'')"

lemma demo_digest_hex: "prefixed_hex ''sha256:'' demo_digest"
  by (auto simp: prefixed_hex_def demo_digest_def is_lower_hex_def list_all_iff intro: exI [of _ "replicate 64 (CHR ''a'')"])

definition demo_task :: TaskStatement where
  "demo_task = \<lparr>tps_SchemaVersion = tp_SchemaV1, tps_NodeID = ''node'', tps_TenantID = ''tenant'', tps_InstanceID = ''instance'',
     tps_RuntimeRef = ''executor-'' @ replicate 64 (CHR ''a''), tps_GrantID = ''grant-'' @ replicate 64 (CHR ''a''),
     tps_Generation = 1, tps_CapsuleDigest = demo_digest, tps_PolicyDigest = demo_digest, tps_RoutePolicyDigest = demo_digest,
     tps_ServiceID = ''svc'', tps_OperationID = ''op'', tps_OperationPolicyDigest = demo_digest, tps_TaskID = ''task'',
     tps_RequestDigest = demo_digest, tps_RequestBytes = 10, tps_ContentType = ''application/json'',
     tps_NotBefore = time_format 0, tps_ExpiresAt = time_format (10 * minute)\<rparr>"

lemma demo_task_accepted: "tp_accepts demo_task (5 * minute) tp_MaxValidity"
proof -
  have t: "canonicalTime (time_format 0) = Ok 0" "canonicalTime (time_format (10 * minute)) = Ok (10 * minute)"
    by (auto intro!: canonicalTime_format simp: sane_clock_def minute_def nsec_def)
  have hex: "prefixed_hex p (p @ replicate 64 (CHR ''a''))" for p
    by (auto simp: prefixed_hex_def is_lower_hex_def list_all_iff intro: exI [of _ "replicate 64 (CHR ''a'')"])
  have id: "tp_publicIdentity ''node'' 128" "tp_publicIdentity ''tenant'' 128" "tp_publicIdentity ''instance'' 256"
    by (simp_all add: tp_publicIdentity_def trim_space_ascii is_space_def valid_utf8_ascii contains_nul_def)
  have nm: "tp_identifier ''svc''" "tp_identifier ''op''" "tp_identifier ''task''"
    by (simp_all add: tp_identifier_def identifier_pattern_def alnum_def is_lower_def)
  show ?thesis
    unfolding tp_accepts_def tp_validateStatement_iff [OF tp_MaxValidity_bound]
    using t tp_MaxValidity_bound(1) hex [of "''executor-''"] hex [of "''grant-''"] id nm demo_digest_hex
    by (simp add: demo_task_def tp_runtimeRef_iff tp_grantID_iff tp_digest_iff instant_def tp_MaxRequestBytes_def
        tp_MaxValidity_def minute_def nsec_def)
qed

section \<open>Signed permits open\<close>

lemma tp_PayloadType_good: "\<not> bad_name tp_PayloadType" "valid_utf8 tp_PayloadType" "length tp_PayloadType \<le> 64"
  using bad_name_plain [of tp_PayloadType] by (simp_all add: tp_PayloadType_def valid_utf8_ascii)

lemma tp_signed_opened:
  assumes "crypto_ok c" "tp_accepts st now m" "tp_identifier k" "length key = 64"
  obtains e raw s where "Sign c tp_PayloadType (json_print (tp_statement_json st)) k key = Ok e" "Marshal e = Ok raw"
    "tp_opened raw s (json_print (tp_statement_json st)) st" "KeyID s = k"
    "Sig s = b64_encode Std (ed_sign c key (PAE tp_PayloadType (json_print (tp_statement_json st))))"
proof -
  let ?p = "json_print (tp_statement_json st)"
  note f = tp_accepts_fields [OF assms(2)]
  have p: "?p \<noteq> []" "valid_utf8 ?p" "length ?p \<le> 10400"
    using json_print_hd [OF f(19)] json_print_utf8(1) [OF f(19)] tp_statement_size [OF assms(2)] by simp_all
  have k: "\<not> bad_name k" "valid_utf8 k" "length k \<le> 128"
    using assms(3) identifier_good_name tp_identifier_props by (auto simp: tp_identifier_def)
  obtain e where e: "Sign c tp_PayloadType ?p k key = Ok e"
    using tp_PayloadType_good k p assms(4) by (simp add: Sign_def MaxPayloadBytes_def)
  note se = Sign_Ok [OF e]
  obtain raw where raw: "Marshal e = Ok raw" "Parse raw = Ok e"
    by (rule Sign_Marshal_Parse [OF assms(1) e p(1) tp_PayloadType_good(2) k(2)])
  have r: "raw = json_print (envelope_json e)" using raw(1) by (auto simp: Marshal_def and_then_Inr_iff)
  have "length raw \<le> b64_encoded_len Std (length ?p) + 2000"
    unfolding r using se tp_PayloadType_good(3) k(3) ed_sign_length [OF assms(1,4)]
    by (intro printed_envelope) (auto simp: length_b64_encode b64_encoded_len_def)
  also have "b64_encoded_len Std (length ?p) \<le> b64_encoded_len Std 10400" by (rule b64_encoded_len_mono [OF p(3)])
  finally have size: "length raw \<le> tp_MaxEnvelopeBytes" by (simp add: b64_encoded_len_def tp_MaxEnvelopeBytes_def)
  have "tp_decode ?p = Ok (tp_statement_json st)"
    unfolding tp_decode_def
    by (rule DecodeStrictInto_print [OF f(19) _ conforms_tp_statement_json [OF f(15)]])
      (use p(3) in \<open>simp add: tp_MaxEnvelopeBytes_def\<close>)
  moreover have "raw \<noteq> []" using raw(2) by (auto simp: Parse_Ok_iff)
  ultimately have "tp_opened raw (hd (Signatures e)) ?p st"
    unfolding tp_opened_def
    using raw size se assms(3) p(2) tp_statement_of_json [OF f(15)] ed_sign_length [OF assms(1,4)] by auto
  with that [OF e raw(1)] se(3) show ?thesis by simp
qed

section \<open>Properties\<close>

text \<open>Every statement the validator accepts can be signed: its envelope fits the 16 KiB limit, and
  the Gateway's \<open>Verify\<close> returns that statement, the signer's key ID and the digest of the exact bytes.\<close>

theorem tp_Sign_Verify:
  assumes "crypto_ok c" "tp_accepts st now m" "tp_identifier k" "length key = 64" "now \<noteq> zero_time"
    "trusted k = Some (ed_public c key)"
  shows "\<exists>e raw. Sign c tp_PayloadType (json_print (tp_statement_json st)) k key = Ok e \<and> Marshal e = Ok raw \<and>
    length raw \<le> tp_MaxEnvelopeBytes \<and>
    tp_Verify c raw trusted now m = Ok \<lparr>tpv_Statement = st, tpv_KeyID = k, tpv_EnvelopeDigest = Digest c raw\<rparr>"
proof -
  obtain e raw s where s: "Sign c tp_PayloadType (json_print (tp_statement_json st)) k key = Ok e" "Marshal e = Ok raw"
    "tp_opened raw s (json_print (tp_statement_json st)) st" "KeyID s = k"
    "Sig s = b64_encode Std (ed_sign c key (PAE tp_PayloadType (json_print (tp_statement_json st))))"
    by (rule tp_signed_opened [OF assms(1-4)])
  have "authentic c trusted (PAE tp_PayloadType (json_print (tp_statement_json st))) s"
    using assms(6) s(4,5) by (intro crypto_ok_sign [OF assms(1,4)]) simp_all
  then have "tp_Verify c raw trusted now m = Ok \<lparr>tpv_Statement = st, tpv_KeyID = k, tpv_EnvelopeDigest = Digest c raw\<rparr>"
    unfolding tp_Verify_iff using s assms(2,5) by auto
  then show ?thesis using s by (auto simp: tp_opened_def)
qed

theorem tp_Sign_Verify_witness:
  "\<exists>e raw. Sign demo_crypto tp_PayloadType (json_print (tp_statement_json demo_task)) ''key'' demo_key = Ok e \<and>
    Marshal e = Ok raw \<and> length raw \<le> tp_MaxEnvelopeBytes \<and>
    tp_Verify demo_crypto raw demo_trusted (5 * minute) tp_MaxValidity =
      Ok \<lparr>tpv_Statement = demo_task, tpv_KeyID = ''key'', tpv_EnvelopeDigest = Digest demo_crypto raw\<rparr>"
  by (rule tp_Sign_Verify [OF demo_crypto_ok demo_task_accepted])
    (simp_all add: tp_identifier_def identifier_pattern_def alnum_def is_lower_def demo_trusted_def
      zero_time_def minute_def nsec_def)

text \<open>The Gateway's verification is the courier's inspection plus a trusted signature and the clock:
  \<open>Verify\<close> accepts exactly the envelopes that \<open>InspectUnverified\<close> accepts, with the same statement, key ID
  and digest, that carry a DSSE signature by a trusted key, at a time inside the signed interval, whose
  length is within the local maximum.\<close>

theorem tp_Verify_is_Inspect_plus_authority:
  "tp_Verify c raw trusted now m = Ok \<lparr>tpv_Statement = st, tpv_KeyID = k, tpv_EnvelopeDigest = d\<rparr> \<longleftrightarrow>
     tp_InspectUnverified c raw = Ok \<lparr>tpi_Statement = st, tpi_KeyID = k, tpi_EnvelopeDigest = d\<rparr> \<and>
     (\<exists>p. Verify c raw tp_PayloadType trusted = Ok (p, k)) \<and>
     now \<noteq> zero_time \<and> 0 < m \<and> m \<le> tp_MaxValidity \<and>
     instant (tps_NotBefore st) \<le> now \<and> now < instant (tps_ExpiresAt st) \<and>
     instant (tps_ExpiresAt st) - instant (tps_NotBefore st) \<le> m"
  (is "?L = ?R")
proof
  assume ?L
  then obtain s p where o: "now \<noteq> zero_time" "tp_opened raw s p st" "authentic c trusted (PAE tp_PayloadType p) s"
    "tp_accepts st now m" "k = KeyID s" "d = Digest c raw"
    unfolding tp_Verify_iff by auto
  then have "Verify c raw tp_PayloadType trusted = Ok (p, k)"
    unfolding Verify_Ok_iff tp_opened_def using tp_decode_payload_bound by fastforce
  with o tp_accepts_iff [of st now m] show ?R unfolding tp_Inspect_iff by blast
next
  assume R: ?R
  then obtain s p q where o: "tp_opened raw s p st" "tp_accepts st (instant (tps_NotBefore st)) tp_MaxValidity"
    "k = KeyID s" "d = Digest c raw" and q: "Verify c raw tp_PayloadType trusted = Ok (q, k)"
    unfolding tp_Inspect_iff by auto
  have "authentic c trusted (PAE tp_PayloadType p) s"
    using q o(1) unfolding Verify_Ok_iff tp_opened_def by (auto split: if_splits)
  moreover have "tp_accepts st now m" using R o(2) tp_accepts_iff [of st now m] by blast
  ultimately show ?L unfolding tp_Verify_iff using R o by blast
qed

text \<open>One spelling: two accepted envelopes with the same payload, key ID and raw signature are the
  same bytes, so an intermediary cannot change the digest of a permit without changing its content.\<close>

theorem tp_single_spelling:
  assumes "tp_InspectUnverified c raw = Ok i" "tp_InspectUnverified c raw' = Ok i'" "Parse raw = Ok e" "Parse raw' = Ok e'"
    "b64_decode Std (Payload e) = b64_decode Std (Payload e')"
    "map (\<lambda>s. (KeyID s, b64_decode Std (Sig s))) (Signatures e) = map (\<lambda>s. (KeyID s, b64_decode Std (Sig s))) (Signatures e')"
  shows "raw = raw'"
proof -
  from assms(1,3) obtain s p sig where e: "Marshal e = Ok raw" "PayloadType e = tp_PayloadType" "Signatures e = [s]"
    "Payload e = b64_encode Std p" "Sig s = b64_encode Std sig"
    by (auto simp: tp_Inspect_iff tp_opened_def)
  from assms(2,4) obtain s' p' sig' where e': "Marshal e' = Ok raw'" "PayloadType e' = tp_PayloadType" "Signatures e' = [s']"
    "Payload e' = b64_encode Std p'" "Sig s' = b64_encode Std sig'"
    by (auto simp: tp_Inspect_iff tp_opened_def)
  show ?thesis
    by (rule canonical_envelope_unique [OF e(1) e'(1)]) (use assms(5,6) e e' in simp_all)
qed

lemma demo_task_inspected: "\<exists>raw e i. Parse raw = Ok e \<and> tp_InspectUnverified demo_crypto raw = Ok i"
proof -
  obtain e raw s where "tp_opened raw s (json_print (tp_statement_json demo_task)) demo_task"
    by (rule tp_signed_opened [OF demo_crypto_ok demo_task_accepted, of "''key''" demo_key])
      (simp_all add: tp_identifier_def identifier_pattern_def alnum_def is_lower_def)
  moreover have "tp_accepts demo_task (instant (tps_NotBefore demo_task)) tp_MaxValidity"
    using demo_task_accepted tp_accepts_iff by blast
  ultimately show ?thesis unfolding tp_Inspect_iff tp_opened_def by blast
qed

theorem tp_single_spelling_witness:
  "\<exists>raw e i. Parse raw = Ok e \<and> tp_InspectUnverified demo_crypto raw = Ok i \<and> raw = json_print (envelope_json e)"
proof -
  obtain raw e i where h: "Parse raw = Ok e" "tp_InspectUnverified demo_crypto raw = Ok i"
    using demo_task_inspected by blast
  then have "Marshal e = Ok raw" by (auto simp: tp_Inspect_iff tp_opened_def)
  then have "json_print (envelope_json e) = raw" by (auto simp: Marshal_def and_then_Inr_iff)
  with h show ?thesis
    using tp_single_spelling [OF h(2), of "json_print (envelope_json e)" i e e] by auto
qed

text \<open>A permit is not a standing grant: if the same bytes are accepted at two times, under any local
  maxima and key sets, the times are less than fifteen minutes apart and the statements are the same.\<close>

theorem tp_Verify_bounded_lifetime:
  assumes "tp_Verify c raw trusted now m = Ok r" "tp_Verify c raw trusted' later m' = Ok r'"
  shows "later - now < tp_MaxValidity \<and> tpv_Statement r = tpv_Statement r' \<and> tpv_KeyID r = tpv_KeyID r'"
proof -
  obtain s p st s' p' st' where o: "tp_opened raw s p st" "tp_accepts st now m" "tpv_Statement r = st" "tpv_KeyID r = KeyID s"
    "tp_opened raw s' p' st'" "tp_accepts st' later m'" "tpv_Statement r' = st'" "tpv_KeyID r' = KeyID s'"
    using assms unfolding tp_Verify_iff by auto
  note u = tp_opened_unique [OF o(1,5)]
  then show ?thesis using o task_validity.accepted_times_close by auto
qed

theorem tp_Verify_bounded_lifetime_witness:
  "\<exists>raw r. tp_Verify demo_crypto raw demo_trusted (5 * minute) tp_MaxValidity = Ok r \<and> 5 * minute - 5 * minute < tp_MaxValidity"
proof -
  obtain e raw s where "tp_opened raw s (json_print (tp_statement_json demo_task)) demo_task" "KeyID s = ''key''"
    "Sig s = b64_encode Std (ed_sign demo_crypto demo_key (PAE tp_PayloadType (json_print (tp_statement_json demo_task))))"
    by (rule tp_signed_opened [OF demo_crypto_ok demo_task_accepted, of "''key''" demo_key])
      (simp_all add: tp_identifier_def identifier_pattern_def alnum_def is_lower_def)
  moreover have "5 * minute \<noteq> zero_time" by (simp add: zero_time_def minute_def nsec_def)
  ultimately have "\<exists>r. tp_Verify demo_crypto raw demo_trusted (5 * minute) tp_MaxValidity = Ok r"
    unfolding tp_Verify_iff
    using demo_task_accepted crypto_ok_sign [OF demo_crypto_ok demo_key_length, of demo_trusted s]
    by (auto simp: demo_trusted_def)
  then show ?thesis using tp_Verify_bounded_lifetime by blast
qed

text \<open>The header encoding has one spelling: \<open>DecodeHeader\<close> opens exactly the strings that
  \<open>EncodeHeader\<close> produces, for task permits.\<close>

theorem tp_header_canonical: "tp_DecodeHeader h = Ok raw \<longleftrightarrow> tp_EncodeHeader raw = Ok h"
  by (rule task_header.spelling_iff)

text \<open>The replay identity of a task is unambiguous: if SHA-256 does not collide on the two framed
  tuples, equal task digests mean equal tenant, instance and task identifiers.\<close>

theorem TaskDigest_unambiguous:
  assumes "inj_on (sha256 c) {task_frame t i k, task_frame t' i' k'}"
    "length t < 2 ^ 64" "length i < 2 ^ 64" "length k < 2 ^ 64" "length t' < 2 ^ 64" "length i' < 2 ^ 64" "length k' < 2 ^ 64"
  shows "TaskDigest c t i k = TaskDigest c t' i' k' \<longleftrightarrow> t = t' \<and> i = i' \<and> k = k'"
proof
  assume "TaskDigest c t i k = TaskDigest c t' i' k'"
  then have "sha256 c (task_frame t i k) = sha256 c (task_frame t' i' k')"
    using hex_encode_inj by (simp add: TaskDigest_def)
  then have "task_frame t i k = task_frame t' i' k'" by (rule inj_onD [OF assms(1)]) simp_all
  from task_frame_inj [OF this assms(2-7)] show "t = t' \<and> i = i' \<and> k = k'" .
qed simp

theorem TaskDigest_unambiguous_witness:
  "TaskDigest demo_crypto ''ab'' ''c'' ''d'' = TaskDigest demo_crypto ''a'' ''bc'' ''dd'' \<longleftrightarrow>
    ''ab'' = ''a'' \<and> ''c'' = ''bc'' \<and> ''d'' = ''dd''"
proof (rule TaskDigest_unambiguous)
  show "inj_on (sha256 demo_crypto) {task_frame ''ab'' ''c'' ''d'', task_frame ''a'' ''bc'' ''dd''}"
    by (simp add: inj_on_def demo_crypto_def length_task_frame) (simp add: chr_def)
qed simp_all

end
