(* ===== verification/Schedule_Permit.thy ===== *)
theory Schedule_Permit
  imports Task_Permit "HOL-Library.Signed_Division"
begin

text \<open>
  \<open>internal/schedulepermit/schedulepermit.go\<close>: tenant-signed, finite authority for deterministic task
  runs. The theory models signing, inspection, the derivation of a run's due time and task identity
  from its ordinal, and the run wrapper that Control builds and Gateway verifies. \<open>int64\<close> arithmetic on
  durations is written with its wrap-around.
\<close>

section \<open>Data\<close>

definition sp_PayloadType :: bytes where "sp_PayloadType = ''application/vnd.steward.task-schedule.v1+json''"
definition sp_SchemaV1 :: bytes where "sp_SchemaV1 = ''steward.task-schedule.v1''"
definition sp_RunSchemaV1 :: bytes where "sp_RunSchemaV1 = ''steward.schedule-run-permit.v1''"
definition sp_MaxEnvelopeBytes :: nat where "sp_MaxEnvelopeBytes = 24576"
definition sp_MaxRunPermitBytes :: nat where "sp_MaxRunPermitBytes = 32768"
definition sp_MaxRuns :: u64 where "sp_MaxRuns = 10000"
definition sp_MaxValidity :: duration where "sp_MaxValidity = 366 * 24 * hour"
definition sp_MaxWindow :: duration where "sp_MaxWindow = 15 * minute"
definition sp_MaxConcurrency :: int where "sp_MaxConcurrency = 16"

record ScheduleStatement =
  sps_SchemaVersion :: bytes
  sps_ScheduleID :: bytes
  sps_NodeID :: bytes
  sps_TenantID :: bytes
  sps_InstanceID :: bytes
  sps_RuntimeRef :: bytes
  sps_GrantID :: bytes
  sps_Generation :: u64
  sps_CapsuleDigest :: bytes
  sps_PolicyDigest :: bytes
  sps_RoutePolicyDigest :: bytes
  sps_ServiceID :: bytes
  sps_OperationID :: bytes
  sps_OperationPolicyDigest :: bytes
  sps_RequestDigest :: bytes
  sps_RequestBytes :: int
  sps_ContentType :: bytes
  sps_StartsAt :: bytes
  sps_IntervalSeconds :: int
  sps_RunCount :: u64
  sps_WindowSeconds :: int
  sps_MaxConcurrency :: int
  sps_OverlapPolicy :: bytes
  sps_MissedRunPolicy :: bytes
  sps_ProjectID :: bytes
  sps_SessionID :: bytes

record ScheduleInspected =
  spi_Statement :: ScheduleStatement
  spi_KeyID :: bytes
  spi_EnvelopeDigest :: bytes

record VerifiedRun =
  vr_Statement :: ScheduleStatement
  vr_KeyID :: bytes
  vr_EnvelopeDigest :: bytes
  vr_RunPermitDigest :: bytes
  vr_TaskID :: bytes
  vr_Ordinal :: u64
  vr_DueAt :: time

record InspectedRun =
  ir_Statement :: ScheduleStatement
  ir_KeyID :: bytes
  ir_EnvelopeDigest :: bytes
  ir_RunPermitDigest :: bytes
  ir_TaskID :: bytes
  ir_Ordinal :: u64
  ir_DueAt :: time

record RunPermit =
  rp_SchemaVersion :: bytes
  rp_ScheduleBase64 :: bytes
  rp_Ordinal :: u64
  rp_DueAt :: bytes
  rp_TaskID :: bytes

abbreviation sp_invalid :: "string \<Rightarrow> 'a result" where
  "sp_invalid m \<equiv> wrap_err ErrSchedulePermitInvalid m"

section \<open>Syntax checks\<close>

definition sp_identifier :: "bytes \<Rightarrow> bool" where
  "sp_identifier value = identifier_pattern 127 value"

definition scheduleIDPattern :: "bytes \<Rightarrow> bool" where
  "scheduleIDPattern value = identifier_pattern 95 value"

definition sp_publicIdentity :: "bytes \<Rightarrow> nat \<Rightarrow> bool" where
  "sp_publicIdentity value limit \<longleftrightarrow>
     trim_space value \<noteq> [] \<and> length value \<le> limit \<and> valid_utf8 value \<and> \<not> contains_nul value"

definition sp_lowerHex :: "bytes \<Rightarrow> bool" where
  "sp_lowerHex value \<longleftrightarrow> length value = 64 \<and> list_all is_lower_hex value"

definition prefixedDigest :: "bytes \<Rightarrow> bytes \<Rightarrow> bool" where
  "prefixedDigest value prefix \<longleftrightarrow>
     has_prefix value prefix \<and> length value = length prefix + 64 \<and> sp_lowerHex (trim_prefix value prefix)"

definition sp_digest :: "bytes \<Rightarrow> bool" where
  "sp_digest value = prefixedDigest value ''sha256:''"

section \<open>Runs\<close>

text \<open>\<open>time.Duration(n)*time.Second\<close>.\<close>

definition seconds :: "int \<Rightarrow> duration" where
  "seconds n = wrap64 (n * nsec)"

definition Run :: "ScheduleStatement \<Rightarrow> u64 \<Rightarrow> (time \<times> bytes) result" where
  "Run statement ordinal =
     (if ordinal = 0 \<or> ordinal > sps_RunCount statement then sp_invalid ''run ordinal is outside the signed schedule''
      else (case canonicalTime (sps_StartsAt statement) of
        Inl _ \<Rightarrow> sp_invalid ''starts_at''
      | Inr start \<Rightarrow>
        if sps_IntervalSeconds statement \<noteq> 0 \<and> seconds (sps_IntervalSeconds statement) = 0
        then errorf ''panic: integer divide by zero''
        else if sps_IntervalSeconds statement \<noteq> 0 \<and>
          ordinal - 1 > word_of_int (sp_MaxValidity sdiv seconds (sps_IntervalSeconds statement))
        then sp_invalid ''run due time overflows its schedule''
        else (let due = start + wrap64 (wrap64 (sint (ordinal - 1) * sps_IntervalSeconds statement) * nsec);
                  taskID = sps_ScheduleID statement @ ''-'' @ itoa (unat ordinal)
              in if \<not> sp_identifier taskID then sp_invalid ''derived task identity is invalid''
                 else Ok (due, taskID))))"

section \<open>Validation\<close>

definition sp_Validate :: "ScheduleStatement \<Rightarrow> unit result" where
  "sp_Validate statement =
     (case canonicalTime (sps_StartsAt statement) of
        Inl _ \<Rightarrow> sp_invalid ''starts_at''
      | Inr start \<Rightarrow>
        if sps_SchemaVersion statement \<noteq> sp_SchemaV1 \<or> \<not> scheduleIDPattern (sps_ScheduleID statement) \<or>
          \<not> sp_publicIdentity (sps_NodeID statement) 128 \<or> \<not> sp_publicIdentity (sps_TenantID statement) 128 \<or>
          \<not> sp_publicIdentity (sps_InstanceID statement) 256 \<or> \<not> prefixedDigest (sps_RuntimeRef statement) ''executor-'' \<or>
          \<not> prefixedDigest (sps_GrantID statement) ''grant-'' \<or> sps_Generation statement = 0 \<or>
          \<not> sp_digest (sps_CapsuleDigest statement) \<or> \<not> sp_digest (sps_PolicyDigest statement) \<or>
          \<not> sp_digest (sps_RoutePolicyDigest statement) \<or> \<not> sp_identifier (sps_ServiceID statement) \<or>
          \<not> sp_identifier (sps_OperationID statement) \<or> \<not> sp_digest (sps_OperationPolicyDigest statement) \<or>
          \<not> sp_digest (sps_RequestDigest statement) \<or> sps_RequestBytes statement \<le> 0 \<or>
          sps_RequestBytes statement > tp_MaxRequestBytes \<or>
          sps_ContentType statement \<noteq> ''application/json'' \<or> sps_RunCount statement = 0 \<or>
          sps_RunCount statement > sp_MaxRuns \<or> sps_WindowSeconds statement < 1 \<or>
          seconds (sps_WindowSeconds statement) > sp_MaxWindow \<or>
          sps_MaxConcurrency statement < 1 \<or> sps_MaxConcurrency statement > sp_MaxConcurrency \<or>
          (sps_OverlapPolicy statement \<noteq> ''queue'' \<and> sps_OverlapPolicy statement \<noteq> ''skip'') \<or>
          sps_MissedRunPolicy statement \<noteq> ''skip'' \<or>
          (sps_ProjectID statement = []) \<noteq> (sps_SessionID statement = []) \<or>
          sps_ProjectID statement \<noteq> [] \<and> \<not> sp_identifier (sps_ProjectID statement) \<or>
          sps_SessionID statement \<noteq> [] \<and> \<not> sp_identifier (sps_SessionID statement)
        then sp_invalid ''schedule statement contains an invalid binding''
        else if sps_IntervalSeconds statement = 0 \<and> sps_RunCount statement \<noteq> 1
        then sp_invalid ''one-time schedule must contain exactly one run''
        else if sps_IntervalSeconds statement \<noteq> 0 \<and>
          (sps_IntervalSeconds statement < 60 \<or> sps_IntervalSeconds statement > 2592000)
        then sp_invalid ''recurring interval must be from 60 seconds through 30 days''
        else (case Run statement (sps_RunCount statement) of
                Inl _ \<Rightarrow> sp_invalid ''schedule duration exceeds its finite validity bound''
              | Inr (lastDue, _) \<Rightarrow>
                  if lastDue < start \<or> time_sub (lastDue + seconds (sps_WindowSeconds statement)) start > sp_MaxValidity
                  then sp_invalid ''schedule duration exceeds its finite validity bound''
                  else Ok ()))"

section \<open>The signed statement on the wire\<close>

definition sp_wireStatement :: gotype where
  "sp_wireStatement = TStruct
     [(''schema_version'', TPtr TString), (''schedule_id'', TPtr TString), (''node_id'', TPtr TString),
      (''tenant_id'', TPtr TString), (''instance_id'', TPtr TString), (''runtime_ref'', TPtr TString),
      (''grant_id'', TPtr TString), (''generation'', TPtr TUint64), (''capsule_digest'', TPtr TString),
      (''policy_digest'', TPtr TString), (''route_policy_digest'', TPtr TString), (''service_id'', TPtr TString),
      (''operation_id'', TPtr TString), (''operation_policy_digest'', TPtr TString), (''request_digest'', TPtr TString),
      (''request_bytes'', TPtr TInt64), (''content_type'', TPtr TString), (''starts_at'', TPtr TString),
      (''interval_seconds'', TPtr TInt64), (''run_count'', TPtr TUint64), (''window_seconds'', TPtr TInt64),
      (''max_concurrency'', TPtr TInt64), (''overlap_policy'', TPtr TString), (''missed_run_policy'', TPtr TString),
      (''project_id'', TPtr TString), (''session_id'', TPtr TString)]"

definition sp_decode :: "bytes \<Rightarrow> json result" where
  "sp_decode payload = DecodeStrictInto payload sp_MaxEnvelopeBytes sp_wireStatement"

definition or_empty :: "bytes option \<Rightarrow> bytes" where
  "or_empty x = (case x of None \<Rightarrow> [] | Some s \<Rightarrow> s)"

definition sp_statement :: "json \<Rightarrow> ScheduleStatement option" where
  "sp_statement wire =
     (case (opt_str ''schema_version'' wire, opt_str ''schedule_id'' wire, opt_str ''node_id'' wire,
            opt_str ''tenant_id'' wire, opt_str ''instance_id'' wire, opt_str ''runtime_ref'' wire,
            opt_str ''grant_id'' wire, opt_u64 ''generation'' wire, opt_str ''capsule_digest'' wire,
            opt_str ''policy_digest'' wire, opt_str ''route_policy_digest'' wire, opt_str ''service_id'' wire) of
        (Some sv, Some sched, Some node, Some tenant, Some inst, Some ref, Some grant, Some gen, Some cap, Some pol,
         Some route, Some service) \<Rightarrow>
          (case (opt_str ''operation_id'' wire, opt_str ''operation_policy_digest'' wire, opt_str ''request_digest'' wire,
                 opt_i64 ''request_bytes'' wire, opt_str ''content_type'' wire, opt_str ''starts_at'' wire,
                 opt_i64 ''interval_seconds'' wire, opt_u64 ''run_count'' wire, opt_i64 ''window_seconds'' wire,
                 opt_i64 ''max_concurrency'' wire, opt_str ''overlap_policy'' wire, opt_str ''missed_run_policy'' wire) of
             (Some operation, Some opdigest, Some reqdigest, Some reqbytes, Some ctype, Some starts, Some interval,
              Some runs, Some window, Some conc, Some overlap, Some missed) \<Rightarrow>
               Some \<lparr>sps_SchemaVersion = sv, sps_ScheduleID = sched, sps_NodeID = node, sps_TenantID = tenant,
                 sps_InstanceID = inst, sps_RuntimeRef = ref, sps_GrantID = grant, sps_Generation = gen,
                 sps_CapsuleDigest = cap, sps_PolicyDigest = pol, sps_RoutePolicyDigest = route,
                 sps_ServiceID = service, sps_OperationID = operation, sps_OperationPolicyDigest = opdigest,
                 sps_RequestDigest = reqdigest, sps_RequestBytes = reqbytes, sps_ContentType = ctype,
                 sps_StartsAt = starts, sps_IntervalSeconds = interval, sps_RunCount = runs,
                 sps_WindowSeconds = window, sps_MaxConcurrency = conc, sps_OverlapPolicy = overlap,
                 sps_MissedRunPolicy = missed, sps_ProjectID = or_empty (opt_str ''project_id'' wire),
                 sps_SessionID = or_empty (opt_str ''session_id'' wire)\<rparr>
           | _ \<Rightarrow> None)
      | _ \<Rightarrow> None)"

text \<open>\<open>json.Marshal\<close> of the struct \<open>Statement\<close>: the last two members are \<open>omitempty\<close>.\<close>

definition sp_statement_json :: "ScheduleStatement \<Rightarrow> json" where
  "sp_statement_json s = JObj
     ([(''schema_version'', JStr (sps_SchemaVersion s)), (''schedule_id'', JStr (sps_ScheduleID s)),
      (''node_id'', JStr (sps_NodeID s)), (''tenant_id'', JStr (sps_TenantID s)),
      (''instance_id'', JStr (sps_InstanceID s)), (''runtime_ref'', JStr (sps_RuntimeRef s)),
      (''grant_id'', JStr (sps_GrantID s)), (''generation'', u64_json (sps_Generation s)),
      (''capsule_digest'', JStr (sps_CapsuleDigest s)), (''policy_digest'', JStr (sps_PolicyDigest s)),
      (''route_policy_digest'', JStr (sps_RoutePolicyDigest s)), (''service_id'', JStr (sps_ServiceID s)),
      (''operation_id'', JStr (sps_OperationID s)), (''operation_policy_digest'', JStr (sps_OperationPolicyDigest s)),
      (''request_digest'', JStr (sps_RequestDigest s)), (''request_bytes'', i64_json (sps_RequestBytes s)),
      (''content_type'', JStr (sps_ContentType s)), (''starts_at'', JStr (sps_StartsAt s)),
      (''interval_seconds'', i64_json (sps_IntervalSeconds s)), (''run_count'', u64_json (sps_RunCount s)),
      (''window_seconds'', i64_json (sps_WindowSeconds s)), (''max_concurrency'', i64_json (sps_MaxConcurrency s)),
      (''overlap_policy'', JStr (sps_OverlapPolicy s)), (''missed_run_policy'', JStr (sps_MissedRunPolicy s))] @
      (if sps_ProjectID s = [] then [] else [(''project_id'', JStr (sps_ProjectID s))]) @
      (if sps_SessionID s = [] then [] else [(''session_id'', JStr (sps_SessionID s))]))"

section \<open>Signing and inspection\<close>

definition sp_Sign :: "crypto \<Rightarrow> ScheduleStatement \<Rightarrow> bytes \<Rightarrow> bytes \<Rightarrow> bytes result" where
  "sp_Sign c statement keyID private =
     (if \<not> sp_identifier keyID \<or> length private \<noteq> 64 then sp_invalid ''schedule signing key is invalid''
      else and_then (sp_Validate statement) (\<lambda>_.
        case Sign c sp_PayloadType (json_print (sp_statement_json statement)) keyID private of
          Inl _ \<Rightarrow> sp_invalid ''sign schedule statement''
        | Inr envelope \<Rightarrow>
            (case Marshal envelope of
               Inl _ \<Rightarrow> sp_invalid ''marshal schedule envelope''
             | Inr raw \<Rightarrow>
                 if length raw > sp_MaxEnvelopeBytes then sp_invalid ''marshal schedule envelope'' else Ok raw)))"

definition inspect ::
  "crypto \<Rightarrow> bytes \<Rightarrow> (bytes \<Rightarrow> bytes option) option \<Rightarrow> (ScheduleStatement \<times> bytes \<times> bytes \<times> bytes) result" where
  "inspect c raw trusted =
     (if length raw = 0 \<or> length raw > sp_MaxEnvelopeBytes then sp_invalid ''schedule envelope is empty or exceeds its limit''
      else (case Parse raw of
        Inl _ \<Rightarrow> sp_invalid ''parse canonical single-signature schedule envelope''
      | Inr envelope \<Rightarrow>
        if PayloadType envelope \<noteq> sp_PayloadType \<or> length (Signatures envelope) \<noteq> 1
        then sp_invalid ''parse canonical single-signature schedule envelope''
        else (case b64_exact (Payload envelope) of
          None \<Rightarrow> sp_invalid ''schedule payload is not canonical UTF-8''
        | Some payload \<Rightarrow>
          if \<not> valid_utf8 payload then sp_invalid ''schedule payload is not canonical UTF-8''
          else (case b64_exact (Sig (hd (Signatures envelope))) of
            None \<Rightarrow> sp_invalid ''schedule signature encoding is invalid''
          | Some signature \<Rightarrow>
            if length signature \<noteq> 64 \<or> \<not> sp_identifier (KeyID (hd (Signatures envelope)))
            then sp_invalid ''schedule signature encoding is invalid''
            else if Marshal envelope \<noteq> Ok raw then sp_invalid ''schedule envelope is not canonical''
            else if (case trusted of None \<Rightarrow> False
                     | Some keys \<Rightarrow> Verify c raw sp_PayloadType keys \<noteq> Ok (payload, KeyID (hd (Signatures envelope))))
            then sp_invalid ''verify schedule envelope''
            else (case sp_decode payload of
              Inl _ \<Rightarrow> sp_invalid ''decode signed schedule''
            | Inr wire \<Rightarrow>
              (case sp_statement wire of
                 None \<Rightarrow> sp_invalid ''signed schedule omits a required field''
               | Some statement \<Rightarrow>
                 and_then (sp_Validate statement) (\<lambda>_.
                   Ok (statement, KeyID (hd (Signatures envelope)), Digest c raw, payload))))))))"

definition sp_InspectUnverified :: "crypto \<Rightarrow> bytes \<Rightarrow> ScheduleInspected result" where
  "sp_InspectUnverified c raw =
     and_then (inspect c raw None) (\<lambda>(statement, keyID, digest, _).
       Ok \<lparr>spi_Statement = statement, spi_KeyID = keyID, spi_EnvelopeDigest = digest\<rparr>)"

section \<open>Run wrappers\<close>

definition run_permit_json :: "RunPermit \<Rightarrow> json" where
  "run_permit_json r = JObj
     [(''schema_version'', JStr (rp_SchemaVersion r)), (''schedule_base64'', JStr (rp_ScheduleBase64 r)),
      (''ordinal'', u64_json (rp_Ordinal r)), (''due_at'', JStr (rp_DueAt r)), (''task_id'', JStr (rp_TaskID r))]"

definition BuildRunPermit :: "crypto \<Rightarrow> bytes \<Rightarrow> u64 \<Rightarrow> bytes result" where
  "BuildRunPermit c schedule ordinal =
     and_then (sp_InspectUnverified c schedule) (\<lambda>inspected.
     and_then (Run (spi_Statement inspected) ordinal) (\<lambda>(due, taskID).
       let raw = json_print (run_permit_json
             \<lparr>rp_SchemaVersion = sp_RunSchemaV1, rp_ScheduleBase64 = b64_encode Std schedule,
              rp_Ordinal = ordinal, rp_DueAt = time_format due, rp_TaskID = taskID\<rparr>)
       in if length raw > sp_MaxRunPermitBytes then sp_invalid ''marshal schedule run permit'' else Ok raw))"

definition run_permit_wire :: gotype where
  "run_permit_wire = TStruct
     [(''schema_version'', TPtr TString), (''schedule_base64'', TPtr TString), (''ordinal'', TPtr TUint64),
      (''due_at'', TPtr TString), (''task_id'', TPtr TString)]"

definition decodeRunPermit :: "bytes \<Rightarrow> (RunPermit \<times> bytes) result" where
  "decodeRunPermit raw =
     (if length raw = 0 \<or> length raw > sp_MaxRunPermitBytes then sp_invalid ''run permit is empty or oversized''
      else (case DecodeStrictInto raw sp_MaxRunPermitBytes run_permit_wire of
        Inl _ \<Rightarrow> sp_invalid ''decode schedule run permit''
      | Inr wire \<Rightarrow>
        (case (opt_str ''schema_version'' wire, opt_str ''schedule_base64'' wire, opt_u64 ''ordinal'' wire,
               opt_str ''due_at'' wire, opt_str ''task_id'' wire) of
           (Some sv, Some schedule64, Some ordinal, Some due, Some task) \<Rightarrow>
             if sv \<noteq> sp_RunSchemaV1 then sp_invalid ''decode schedule run permit''
             else (case b64_exact schedule64 of
                     None \<Rightarrow> sp_invalid ''schedule envelope encoding is not canonical''
                   | Some schedule \<Rightarrow>
                       Ok (\<lparr>rp_SchemaVersion = sv, rp_ScheduleBase64 = schedule64, rp_Ordinal = ordinal,
                            rp_DueAt = due, rp_TaskID = task\<rparr>, schedule))
         | _ \<Rightarrow> sp_invalid ''decode schedule run permit'')))"

text \<open>The key map is an \<open>option\<close>: Go passes a nil map on to \<open>inspect\<close>, where nil means no authentication.\<close>

definition VerifyRun :: "crypto \<Rightarrow> bytes \<Rightarrow> (bytes \<Rightarrow> bytes option) option \<Rightarrow> time \<Rightarrow> VerifiedRun result" where
  "VerifyRun c raw trusted now =
     (if now = zero_time then sp_invalid ''node time is unavailable''
      else and_then (decodeRunPermit raw) (\<lambda>(wrapper, schedule).
        and_then (inspect c schedule trusted) (\<lambda>(statement, keyID, envelopeDigest, _).
          case Run statement (rp_Ordinal wrapper) of
            Inl _ \<Rightarrow> sp_invalid ''run identity does not match the signed schedule''
          | Inr (due, taskID) \<Rightarrow>
              if rp_DueAt wrapper \<noteq> time_format due \<or> rp_TaskID wrapper \<noteq> taskID
              then sp_invalid ''run identity does not match the signed schedule''
              else (let window = seconds (sps_WindowSeconds statement)
                    in if now < due \<or> \<not> now < due + window
                       then sp_invalid ''run is outside its signed dispatch window''
                       else Ok \<lparr>vr_Statement = statement, vr_KeyID = keyID, vr_EnvelopeDigest = envelopeDigest,
                                vr_RunPermitDigest = Digest c raw, vr_TaskID = taskID,
                                vr_Ordinal = rp_Ordinal wrapper, vr_DueAt = due\<rparr>))))"

definition InspectRunUnverified :: "crypto \<Rightarrow> bytes \<Rightarrow> InspectedRun result" where
  "InspectRunUnverified c raw =
     and_then (decodeRunPermit raw) (\<lambda>(wrapper, schedule).
       and_then (inspect c schedule None) (\<lambda>(statement, keyID, envelopeDigest, _).
         case Run statement (rp_Ordinal wrapper) of
           Inl _ \<Rightarrow> sp_invalid ''run identity does not match the signed schedule''
         | Inr (due, taskID) \<Rightarrow>
             if rp_DueAt wrapper \<noteq> time_format due \<or> rp_TaskID wrapper \<noteq> taskID
             then sp_invalid ''run identity does not match the signed schedule''
             else Ok \<lparr>ir_Statement = statement, ir_KeyID = keyID, ir_EnvelopeDigest = envelopeDigest,
                      ir_RunPermitDigest = Digest c raw, ir_TaskID = taskID,
                      ir_Ordinal = rp_Ordinal wrapper, ir_DueAt = due\<rparr>))"

section \<open>Runs of a valid schedule\<close>

lemma sp_Validate_bounds:
  assumes "sp_Validate st = Ok ()"
  shows "canonicalTime (sps_StartsAt st) = Ok (instant (sps_StartsAt st))" "scheduleIDPattern (sps_ScheduleID st)"
    "0 < sps_RunCount st" "sps_RunCount st \<le> sp_MaxRuns" "1 \<le> sps_WindowSeconds st"
    "seconds (sps_WindowSeconds st) \<le> sp_MaxWindow"
    "sps_IntervalSeconds st = 0 \<and> sps_RunCount st = 1 \<or> 60 \<le> sps_IntervalSeconds st \<and> sps_IntervalSeconds st \<le> 2592000"
    "\<exists>lastDue t. Run st (sps_RunCount st) = Ok (lastDue, t) \<and>
       time_sub (lastDue + seconds (sps_WindowSeconds st)) (instant (sps_StartsAt st)) \<le> sp_MaxValidity"
  using assms
  by (auto simp: sp_Validate_def instant_def word_neq_0_conv not_less split: sum.splits if_splits prod.splits)

lemma seconds_small: "0 \<le> n \<Longrightarrow> n \<le> 9223372036 \<Longrightarrow> seconds n = n * nsec"
  unfolding seconds_def by (rule wrap64_id) (simp_all add: min_int64_def max_int64_def nsec_def)

lemma ordinal_le:
  assumes "i \<le> sps_RunCount st" "sps_RunCount st \<le> sp_MaxRuns"
  shows "unat i \<le> 10000"
proof -
  have "i \<le> 10000" using assms by (simp add: sp_MaxRuns_def)
  then have "unat i \<le> unat (10000 :: u64)" by (simp add: word_le_nat_alt)
  then show ?thesis by simp
qed

lemma unat_minus_one_u64: "(i :: u64) \<noteq> 0 \<Longrightarrow> unat (i - 1) = unat i - 1"
  by (rule unat_minus_one)

lemma sint_small:
  assumes "unat (w :: u64) < 2 ^ 63"
  shows "sint w = int (unat w)"
proof -
  have "int (unat w) < int (2 ^ 63)" using assms by (simp only: of_nat_less_iff)
  then have "uint w < 2 ^ 63" by simp
  moreover have "- (2 ^ 63) \<le> uint w" by (rule order_trans [OF _ unsigned_greater_eq]) simp
  ultimately have "signed_take_bit 63 (uint w) = uint w" by (intro signed_take_bit_int_eq_self) simp_all
  then show ?thesis by (simp add: sint_uint)
qed

lemma zdiv_less_iff:
  assumes "0 < (b :: int)"
  shows "a div b < k \<longleftrightarrow> a < k * b"
proof
  assume "a div b < k"
  then have "(a div b + 1) * b \<le> k * b" using assms by (intro mult_right_mono) auto
  then show "a < k * b" using int_div_bounds [OF assms, of a] by (simp add: algebra_simps)
next
  assume "a < k * b"
  then have "b * (a div b) < b * k" using int_div_bounds(1) [OF assms, of a] by (simp only: mult.commute)
  then show "a div b < k" using assms mult_less_cancel_left_pos by blast
qed

lemma interval_guard:
  assumes "60 \<le> v" "v \<le> 2592000" "(i :: u64) \<noteq> 0"
  shows "i - 1 > word_of_int (sp_MaxValidity sdiv seconds v) \<longleftrightarrow> int (unat i - 1) * v * nsec > sp_MaxValidity"
proof -
  have s: "seconds v = v * nsec" using assms by (intro seconds_small) auto
  have pos: "0 < v * nsec" using assms by (simp add: nsec_def)
  define q where "q = sp_MaxValidity div (v * nsec)"
  have mv: "0 \<le> sp_MaxValidity" by (simp add: sp_MaxValidity_def hour_def minute_def nsec_def)
  have sd: "sp_MaxValidity sdiv (v * nsec) = q"
    using pos mv by (simp add: signed_divide_int_def q_def sgn_if)
  have "0 \<le> q" using pos mv by (simp add: q_def pos_imp_zdiv_nonneg_iff)
  moreover have "q \<le> sp_MaxValidity" using pos mv zdiv_mono2 [of sp_MaxValidity 1 "v * nsec"] by (simp add: q_def)
  then have "q < 2 ^ 64" by (simp add: sp_MaxValidity_def hour_def minute_def nsec_def)
  ultimately have "uint (word_of_int q :: u64) = q" by (simp add: uint_word_of_int)
  then have "i - 1 > word_of_int q \<longleftrightarrow> int (unat (i - 1)) > q"
    by (simp add: word_less_def)
  also have "\<dots> \<longleftrightarrow> int (unat i - 1) > q" using assms(3) by (simp add: unat_minus_one_u64)
  also have "\<dots> \<longleftrightarrow> sp_MaxValidity < int (unat i - 1) * (v * nsec)"
    unfolding q_def by (rule zdiv_less_iff [OF pos])
  finally show ?thesis by (simp add: s sd mult.assoc)
qed

lemma task_id_identifier:
  assumes "scheduleIDPattern s" "n \<le> 10000"
  shows "sp_identifier (s @ ''-'' @ itoa n)"
proof -
  obtain a cs where s: "s = a # cs" using assms(1) by (cases s) (auto simp: scheduleIDPattern_def identifier_pattern_def)
  have "length (itoa n) \<le> 5" using assms(2) by (intro length_itoa_less) auto
  moreover have "\<forall>c \<in> set (itoa n). alnum c" using itoa_digits by (auto simp: alnum_def)
  ultimately show ?thesis
    using assms(1) by (auto simp: s scheduleIDPattern_def sp_identifier_def identifier_pattern_def list_all_iff)
qed

lemma Run_valid:
  assumes "sp_Validate st = Ok ()" "i \<noteq> 0" "i \<le> sps_RunCount st"
  shows "Run st i = Ok (instant (sps_StartsAt st) + int (unat i - 1) * sps_IntervalSeconds st * nsec,
      sps_ScheduleID st @ ''-'' @ itoa (unat i))"
    and "int (unat i - 1) * sps_IntervalSeconds st * nsec \<le> sp_MaxValidity"
proof -
  note v = sp_Validate_bounds [OF assms(1)]
  have n: "unat i \<le> 10000" using assms(3) v(4) by (rule ordinal_le)
  have le: "unat i \<le> unat (sps_RunCount st)" using assms(3) by (simp add: word_le_nat_alt)
  let ?d = "int (unat i - 1) * sps_IntervalSeconds st * nsec"
  have id: "sp_identifier (sps_ScheduleID st @ ''-'' @ itoa (unat i))" using v(2) n by (rule task_id_identifier)
  have s: "sint (i - 1) = int (unat i - 1)"
    using n assms(2) by (simp add: sint_small unat_minus_one_u64)
  have r0: "sps_RunCount st \<noteq> 0" using v(3) by (auto simp: word_neq_0_conv)
  have d: "0 \<le> ?d \<and> ?d \<le> sp_MaxValidity"
  proof (cases "sps_IntervalSeconds st = 0")
    case False
    then have iv: "60 \<le> sps_IntervalSeconds st" "sps_IntervalSeconds st \<le> 2592000" using v(7) by auto
    have "seconds (sps_IntervalSeconds st) \<noteq> 0" using iv by (simp add: seconds_small nsec_def)
    with v(1,8) False have "\<not> int (unat (sps_RunCount st) - 1) * sps_IntervalSeconds st * nsec > sp_MaxValidity"
      unfolding interval_guard [OF iv r0, symmetric] by (auto simp: Run_def split: if_splits)
    moreover have "?d \<le> int (unat (sps_RunCount st) - 1) * sps_IntervalSeconds st * nsec"
      using le iv by (intro mult_right_mono) (auto simp: nsec_def)
    ultimately have "?d \<le> sp_MaxValidity" by linarith
    moreover have "0 \<le> ?d" using iv by (simp add: nsec_def)
    ultimately show ?thesis by blast
  qed (simp add: sp_MaxValidity_def hour_def minute_def nsec_def)
  have "0 \<le> sps_IntervalSeconds st" using v(7) by auto
  then have nd: "0 \<le> int (unat i - 1) * sps_IntervalSeconds st" by simp
  then have "int (unat i - 1) * sps_IntervalSeconds st * 1 \<le> ?d" by (intro mult_left_mono) (simp_all add: nsec_def)
  note nd = nd this [simplified]
  have "sp_MaxValidity \<le> max_int64" by (simp add: sp_MaxValidity_def hour_def minute_def nsec_def max_int64_def)
  then have w: "wrap64 (wrap64 (int (unat i - 1) * sps_IntervalSeconds st) * nsec) = ?d"
    using d nd by (subst wrap64_id; (subst wrap64_id)?) (auto simp: min_int64_def)
  have g: "\<not> (sps_IntervalSeconds st \<noteq> 0 \<and> seconds (sps_IntervalSeconds st) = 0)"
    using v(7) by (auto simp: seconds_small nsec_def)
  have g': "\<not> (sps_IntervalSeconds st \<noteq> 0 \<and>
      i - 1 > word_of_int (sp_MaxValidity sdiv seconds (sps_IntervalSeconds st)))"
    using v(7) d interval_guard [of "sps_IntervalSeconds st" i] assms(2) by auto
  show "Run st i = Ok (instant (sps_StartsAt st) + ?d, sps_ScheduleID st @ ''-'' @ itoa (unat i))"
    unfolding Run_def Let_def s w using assms(2,3) v(1) g g' id by auto
  show "?d \<le> sp_MaxValidity" using d by blast
qed

section \<open>What inspection accepts\<close>

definition sp_opened :: "bytes \<Rightarrow> Signature \<Rightarrow> bytes \<Rightarrow> ScheduleStatement \<Rightarrow> bool" where
  "sp_opened raw s p st \<longleftrightarrow> raw \<noteq> [] \<and> length raw \<le> sp_MaxEnvelopeBytes \<and> sp_Validate st = Ok () \<and>
     (\<exists>e sig wire. Parse raw = Ok e \<and> Marshal e = Ok raw \<and> PayloadType e = sp_PayloadType \<and> Signatures e = [s] \<and>
        Payload e = b64_encode Std p \<and> valid_utf8 p \<and> Sig s = b64_encode Std sig \<and> length sig = 64 \<and>
        sp_identifier (KeyID s) \<and> sp_decode p = Ok wire \<and> sp_statement wire = Some st)"

lemma sp_opened_unique:
  "sp_opened raw s p st \<Longrightarrow> sp_opened raw s' p' st' \<Longrightarrow> s = s' \<and> p = p' \<and> st = st'"
  unfolding sp_opened_def by auto

lemma inspect_iff:
  "inspect c raw trusted = Ok (st, k, d, p) \<longleftrightarrow>
     (\<exists>s. sp_opened raw s p st \<and> k = KeyID s \<and> d = Digest c raw \<and>
       (case trusted of None \<Rightarrow> True | Some keys \<Rightarrow> authentic c keys (PAE sp_PayloadType p) s))"
  (is "?L = ?R")
proof
  assume ?L
  then show ?R
    unfolding inspect_def sp_opened_def
    by (cases trusted)
      (fastforce simp: and_then_Inr_iff length_Suc_conv Verify_Ok_iff not_less split: if_splits sum.splits option.splits)+
next
  assume ?R
  then obtain s e sig wire where h: "raw \<noteq> []" "length raw \<le> sp_MaxEnvelopeBytes"
    "Parse raw = Ok e" "Marshal e = Ok raw" "PayloadType e = sp_PayloadType" "Signatures e = [s]"
    "Payload e = b64_encode Std p" "valid_utf8 p" "Sig s = b64_encode Std sig" "length sig = 64"
    "sp_identifier (KeyID s)" "sp_decode p = Ok wire" "sp_statement wire = Some st" "sp_Validate st = Ok ()"
    "k = KeyID s" "d = Digest c raw" and t: "case trusted of None \<Rightarrow> True | Some keys \<Rightarrow> authentic c keys (PAE sp_PayloadType p) s"
    unfolding sp_opened_def by auto
  have "length p \<le> MaxPayloadBytes"
    using h(12) by (simp add: sp_decode_def DecodeStrictInto_iff sp_MaxEnvelopeBytes_def MaxPayloadBytes_def)
  then have "case trusted of None \<Rightarrow> True | Some keys \<Rightarrow> Verify c raw sp_PayloadType keys = Ok (p, KeyID s)"
    using t h unfolding Verify_Ok_iff by (auto split: option.splits)
  with h show ?L by (auto simp: inspect_def split: option.splits)
qed

lemma sp_InspectUnverified_iff:
  "sp_InspectUnverified c raw = Ok i \<longleftrightarrow>
     (\<exists>s p st. sp_opened raw s p st \<and> i = \<lparr>spi_Statement = st, spi_KeyID = KeyID s, spi_EnvelopeDigest = Digest c raw\<rparr>)"
  unfolding sp_InspectUnverified_def and_then_Inr_iff split_paired_Ex inspect_iff by auto blast

definition run_matches :: "RunPermit \<Rightarrow> ScheduleStatement \<Rightarrow> time \<Rightarrow> bool" where
  "run_matches w st due \<longleftrightarrow> Run st (rp_Ordinal w) = Ok (due, rp_TaskID w) \<and> rp_DueAt w = time_format due"

lemma InspectRun_iff:
  "InspectRunUnverified c raw = Ok r \<longleftrightarrow>
     (\<exists>w schedule s p st due. decodeRunPermit raw = Ok (w, schedule) \<and> sp_opened schedule s p st \<and> run_matches w st due \<and>
        r = \<lparr>ir_Statement = st, ir_KeyID = KeyID s, ir_EnvelopeDigest = Digest c schedule, ir_RunPermitDigest = Digest c raw,
             ir_TaskID = rp_TaskID w, ir_Ordinal = rp_Ordinal w, ir_DueAt = due\<rparr>)"
  (is "?L = ?R")
proof
  assume ?L
  then obtain w schedule st k d p where w: "decodeRunPermit raw = Ok (w, schedule)" "inspect c schedule None = Ok (st, k, d, p)"
    and r: "(case Run st (rp_Ordinal w) of
           Inl _ \<Rightarrow> sp_invalid ''run identity does not match the signed schedule''
         | Inr (due, taskID) \<Rightarrow>
             if rp_DueAt w \<noteq> time_format due \<or> rp_TaskID w \<noteq> taskID
             then sp_invalid ''run identity does not match the signed schedule''
             else Ok \<lparr>ir_Statement = st, ir_KeyID = k, ir_EnvelopeDigest = d,
                      ir_RunPermitDigest = Digest c raw, ir_TaskID = taskID,
                      ir_Ordinal = rp_Ordinal w, ir_DueAt = due\<rparr>) = Ok r"
    by (auto simp: InspectRunUnverified_def and_then_Inr_iff)
  from r obtain due where "run_matches w st due" "r = \<lparr>ir_Statement = st, ir_KeyID = k, ir_EnvelopeDigest = d,
      ir_RunPermitDigest = Digest c raw, ir_TaskID = rp_TaskID w, ir_Ordinal = rp_Ordinal w, ir_DueAt = due\<rparr>"
    by (auto simp: run_matches_def split: sum.splits prod.splits if_splits)
  with w show ?R unfolding inspect_iff by auto
next
  assume ?R
  then obtain w schedule s p st due where "decodeRunPermit raw = Ok (w, schedule)" "sp_opened schedule s p st"
    "run_matches w st due" and r: "r = \<lparr>ir_Statement = st, ir_KeyID = KeyID s, ir_EnvelopeDigest = Digest c schedule,
      ir_RunPermitDigest = Digest c raw, ir_TaskID = rp_TaskID w, ir_Ordinal = rp_Ordinal w, ir_DueAt = due\<rparr>"
    by blast
  moreover from this have "inspect c schedule None = Ok (st, KeyID s, Digest c schedule, p)"
    unfolding inspect_iff by auto
  ultimately show ?L by (simp add: InspectRunUnverified_def run_matches_def)
qed

lemma VerifyRun_iff:
  "VerifyRun c raw trusted now = Ok r \<longleftrightarrow> now \<noteq> zero_time \<and>
     (\<exists>w schedule s p st due. decodeRunPermit raw = Ok (w, schedule) \<and> sp_opened schedule s p st \<and> run_matches w st due \<and>
        (case trusted of None \<Rightarrow> True | Some keys \<Rightarrow> authentic c keys (PAE sp_PayloadType p) s) \<and>
        due \<le> now \<and> now < due + seconds (sps_WindowSeconds st) \<and>
        r = \<lparr>vr_Statement = st, vr_KeyID = KeyID s, vr_EnvelopeDigest = Digest c schedule, vr_RunPermitDigest = Digest c raw,
             vr_TaskID = rp_TaskID w, vr_Ordinal = rp_Ordinal w, vr_DueAt = due\<rparr>)"
  (is "?L = ?R")
proof
  assume L: ?L
  then obtain w schedule st k d p where w: "decodeRunPermit raw = Ok (w, schedule)" "inspect c schedule trusted = Ok (st, k, d, p)"
    and r: "(case Run st (rp_Ordinal w) of
            Inl _ \<Rightarrow> sp_invalid ''run identity does not match the signed schedule''
          | Inr (due, taskID) \<Rightarrow>
              if rp_DueAt w \<noteq> time_format due \<or> rp_TaskID w \<noteq> taskID
              then sp_invalid ''run identity does not match the signed schedule''
              else (let window = seconds (sps_WindowSeconds st)
                    in if now < due \<or> \<not> now < due + window
                       then sp_invalid ''run is outside its signed dispatch window''
                       else Ok \<lparr>vr_Statement = st, vr_KeyID = k, vr_EnvelopeDigest = d,
                                vr_RunPermitDigest = Digest c raw, vr_TaskID = taskID,
                                vr_Ordinal = rp_Ordinal w, vr_DueAt = due\<rparr>)) = Ok r"
    by (auto simp: VerifyRun_def and_then_Inr_iff split: if_splits)
  from r obtain due where "run_matches w st due" "due \<le> now" "now < due + seconds (sps_WindowSeconds st)"
    "r = \<lparr>vr_Statement = st, vr_KeyID = k, vr_EnvelopeDigest = d,
      vr_RunPermitDigest = Digest c raw, vr_TaskID = rp_TaskID w, vr_Ordinal = rp_Ordinal w, vr_DueAt = due\<rparr>"
    by (auto simp: run_matches_def Let_def not_less split: sum.splits prod.splits if_splits)
  moreover have "now \<noteq> zero_time" using L by (auto simp: VerifyRun_def)
  ultimately show ?R using w unfolding inspect_iff by auto
next
  assume ?R
  then obtain w schedule s p st due where h: "decodeRunPermit raw = Ok (w, schedule)" "sp_opened schedule s p st"
    "run_matches w st due" "case trusted of None \<Rightarrow> True | Some keys \<Rightarrow> authentic c keys (PAE sp_PayloadType p) s"
    "due \<le> now" "now < due + seconds (sps_WindowSeconds st)" "now \<noteq> zero_time"
    and r: "r = \<lparr>vr_Statement = st, vr_KeyID = KeyID s, vr_EnvelopeDigest = Digest c schedule,
      vr_RunPermitDigest = Digest c raw, vr_TaskID = rp_TaskID w, vr_Ordinal = rp_Ordinal w, vr_DueAt = due\<rparr>"
    by blast
  then have "inspect c schedule trusted = Ok (st, KeyID s, Digest c schedule, p)"
    unfolding inspect_iff by auto
  with h r show ?L by (simp add: VerifyRun_def run_matches_def Let_def)
qed

section \<open>Signed schedules and built runs fit their limits\<close>

lemma prefixedDigest_iff: "prefixedDigest s p \<longleftrightarrow> prefixed_hex p s"
  by (auto simp: prefixedDigest_def sp_lowerHex_def prefixed_hex_iff trim_prefix_def)

lemma sp_digest_iff: "sp_digest s \<longleftrightarrow> prefixed_hex ''sha256:'' s"
  by (simp add: sp_digest_def prefixedDigest_iff)

lemma sp_digest_tp: "sp_digest = tp_digest"
  by (intro ext) (simp add: sp_digest_iff tp_digest_iff)

lemma prefixedDigest_tp: "prefixedDigest s ''executor-'' = tp_runtimeRef s" "prefixedDigest s ''grant-'' = tp_grantID s"
  by (simp_all add: prefixedDigest_iff tp_runtimeRef_iff tp_grantID_iff)

lemma sp_identifier_tp: "sp_identifier = tp_identifier"
  by (intro ext) (simp add: sp_identifier_def tp_identifier_def)

lemma sp_publicIdentity_tp: "sp_publicIdentity = tp_publicIdentity"
  by (intro ext) (simp add: sp_publicIdentity_def tp_publicIdentity_def)

lemmas sp_as_tp = sp_digest_tp prefixedDigest_tp sp_identifier_tp sp_publicIdentity_tp

lemma scheduleID_props: "scheduleIDPattern s \<Longrightarrow> length s \<le> 96 \<and> valid_utf8 s"
  unfolding scheduleIDPattern_def using identifier_length identifier_utf8 by fastforce

lemma sp_Validate_syntax:
  assumes "sp_Validate st = Ok ()"
  shows "sps_SchemaVersion st = sp_SchemaV1" "tp_publicIdentity (sps_NodeID st) 128"
    "tp_publicIdentity (sps_TenantID st) 128" "tp_publicIdentity (sps_InstanceID st) 256"
    "tp_runtimeRef (sps_RuntimeRef st)" "tp_grantID (sps_GrantID st)" "tp_digest (sps_CapsuleDigest st)"
    "tp_digest (sps_PolicyDigest st)" "tp_digest (sps_RoutePolicyDigest st)" "tp_identifier (sps_ServiceID st)"
    "tp_identifier (sps_OperationID st)" "tp_digest (sps_OperationPolicyDigest st)" "tp_digest (sps_RequestDigest st)"
    "0 < sps_RequestBytes st" "sps_RequestBytes st \<le> tp_MaxRequestBytes" "sps_ContentType st = ''application/json''"
    "1 \<le> sps_MaxConcurrency st" "sps_MaxConcurrency st \<le> 16"
    "sps_OverlapPolicy st = ''queue'' \<or> sps_OverlapPolicy st = ''skip''" "sps_MissedRunPolicy st = ''skip''"
    "sps_ProjectID st = [] \<or> tp_identifier (sps_ProjectID st)" "sps_SessionID st = [] \<or> tp_identifier (sps_SessionID st)"
    "sps_Generation st \<noteq> 0"
  using assms
  by (auto simp: sp_Validate_def sp_as_tp sp_MaxConcurrency_def split: sum.splits if_splits)

lemma tp_identifier_or_empty: "s = [] \<or> tp_identifier s \<Longrightarrow> length s \<le> 128 \<and> valid_utf8 s"
  using tp_identifier_props by auto

lemma sp_ints:
  assumes "sp_Validate st = Ok ()"
  shows "in_int64 (sps_RequestBytes st)" "in_int64 (sps_IntervalSeconds st)" "in_int64 (sps_MaxConcurrency st)"
  using sp_Validate_syntax(14,15,17,18) [OF assms] sp_Validate_bounds(7) [OF assms]
  by (auto simp: in_int64_def min_int64_def max_int64_def tp_MaxRequestBytes_def)

lemma sp_statement_of_json:
  assumes "sp_Validate st = Ok ()" "in_int64 (sps_WindowSeconds st)"
  shows "sp_statement (sp_statement_json st) = Some st"
  using sp_ints [OF assms(1)] assms(2)
  by (simp add: sp_statement_def sp_statement_json_def opt_str_def opt_u64_def opt_i64_def member_JObj u64_json_def
      i64_json_def or_empty_def map_of_append_notin)

lemma conforms_sp_statement_json:
  assumes "sp_Validate st = Ok ()" "in_int64 (sps_WindowSeconds st)"
  shows "conforms sp_wireStatement 0 (sp_statement_json st)"
  using sp_ints [OF assms(1)] assms(2)
  by (simp add: sp_wireStatement_def sp_statement_json_def u64_json_def i64_json_def)

lemma wf_sp_statement_json:
  assumes "sp_Validate st = Ok ()"
  shows "wf_json (sp_statement_json st)"
proof -
  note v = sp_Validate_syntax [OF assms] and b = sp_Validate_bounds [OF assms]
  have "valid_utf8 (sps_OverlapPolicy st)" using v(19) by (auto simp: valid_utf8_ascii)
  moreover have "valid_utf8 (sps_SchemaVersion st)" "valid_utf8 (sps_ContentType st)" "valid_utf8 (sps_MissedRunPolicy st)"
    by (simp_all add: v sp_SchemaV1_def valid_utf8_ascii)
  ultimately show ?thesis
    using v canonicalTime_utf8 [OF b(1)] scheduleID_props [OF b(2)] tp_identifier_or_empty [OF v(21)] tp_identifier_or_empty [OF v(22)]
    by (auto simp: sp_statement_json_def valid_utf8_ascii tp_publicIdentity_def
        conjunct2 [OF tp_runtimeRef_props] conjunct2 [OF tp_grantID_props] conjunct2 [OF tp_digest_props]
        conjunct2 [OF tp_identifier_props])
qed

definition members_of :: "json \<Rightarrow> (bytes \<times> json) list" where
  "members_of v = (case v of JObj ms \<Rightarrow> ms | _ \<Rightarrow> [])"

lemma sp_statement_size:
  assumes "sp_Validate st = Ok ()" "in_int64 (sps_WindowSeconds st)"
  shows "length (json_print (sp_statement_json st)) \<le> 12400"
proof -
  note v = sp_Validate_syntax [OF assms(1)] and b = sp_Validate_bounds [OF assms(1)] and i = sp_ints [OF assms(1)]
  have ov: "length (sps_OverlapPolicy st) \<le> 5" using v(19) by auto
  have "member_sizes (members_of (sp_statement_json st)) \<le> 12340"
    using json_quote_bound [OF conjunct1 [OF tp_publicIdentity_props [OF v(2)]]]
      json_quote_bound [OF conjunct1 [OF tp_publicIdentity_props [OF v(3)]]]
      json_quote_bound [OF conjunct1 [OF tp_publicIdentity_props [OF v(4)]]]
      json_quote_bound [OF conjunct1 [OF tp_runtimeRef_props [OF v(5)]]]
      json_quote_bound [OF conjunct1 [OF tp_grantID_props [OF v(6)]]]
      json_quote_bound [OF conjunct1 [OF tp_digest_props [OF v(7)]]]
      json_quote_bound [OF conjunct1 [OF tp_digest_props [OF v(8)]]]
      json_quote_bound [OF conjunct1 [OF tp_digest_props [OF v(9)]]]
      json_quote_bound [OF conjunct1 [OF tp_identifier_props [OF v(10)]]]
      json_quote_bound [OF conjunct1 [OF tp_identifier_props [OF v(11)]]]
      json_quote_bound [OF conjunct1 [OF tp_digest_props [OF v(12)]]]
      json_quote_bound [OF conjunct1 [OF tp_digest_props [OF v(13)]]]
      json_quote_bound [OF conjunct1 [OF tp_identifier_or_empty [OF v(21)]]]
      json_quote_bound [OF conjunct1 [OF tp_identifier_or_empty [OF v(22)]]]
      json_quote_bound [OF conjunct1 [OF scheduleID_props [OF b(2)]]]
      json_quote_bound [OF ov] json_quote_bound [of "sps_StartsAt st" 20] canonicalTime_length [OF b(1)]
      json_quote_bound [of sp_SchemaV1 24] json_quote_bound [of "''application/json''" 16] json_quote_bound [of "''skip''" 4]
      printed_u64 [of "sps_Generation st"] printed_u64 [of "sps_RunCount st"] printed_i64 [OF i(1)] printed_i64 [OF i(2)]
      printed_i64 [OF i(3)] printed_i64 [OF assms(2)]
    by (simp add: sp_statement_json_def members_of_def member_sizes_def v(1,16,20) sp_SchemaV1_def)
  moreover have "length (json_print (sp_statement_json st)) \<le> member_sizes (members_of (sp_statement_json st)) + 2"
    unfolding sp_statement_json_def members_of_def json.case by (rule printed_object)
  ultimately show ?thesis by linarith
qed

lemma sp_PayloadType_good: "\<not> bad_name sp_PayloadType" "valid_utf8 sp_PayloadType" "length sp_PayloadType \<le> 64"
  using bad_name_plain [of sp_PayloadType] by (simp_all add: sp_PayloadType_def valid_utf8_ascii)

lemma sp_Sign_opened:
  assumes "crypto_ok c" "sp_Validate st = Ok ()" "in_int64 (sps_WindowSeconds st)" "sp_identifier k" "length key = 64"
  obtains raw s where "sp_Sign c st k key = Ok raw" "length raw \<le> 18600"
    "sp_opened raw s (json_print (sp_statement_json st)) st" "KeyID s = k"
    "Sig s = b64_encode Std (ed_sign c key (PAE sp_PayloadType (json_print (sp_statement_json st))))"
proof -
  let ?p = "json_print (sp_statement_json st)"
  note wf = wf_sp_statement_json [OF assms(2)]
  have p: "?p \<noteq> []" "valid_utf8 ?p" "length ?p \<le> 12400"
    using json_print_hd [OF wf] json_print_utf8(1) [OF wf] sp_statement_size [OF assms(2,3)] by simp_all
  have k: "\<not> bad_name k" "valid_utf8 k" "length k \<le> 128"
    using assms(4) identifier_good_name tp_identifier_props by (auto simp: sp_identifier_def tp_identifier_def)
  obtain e where e: "Sign c sp_PayloadType ?p k key = Ok e"
    using sp_PayloadType_good k p assms(5) by (simp add: Sign_def MaxPayloadBytes_def)
  note se = Sign_Ok [OF e]
  obtain raw where raw: "Marshal e = Ok raw" "Parse raw = Ok e"
    by (rule Sign_Marshal_Parse [OF assms(1) e p(1) sp_PayloadType_good(2) k(2)])
  have r: "raw = json_print (envelope_json e)" using raw(1) by (auto simp: Marshal_def and_then_Inr_iff)
  have "length raw \<le> b64_encoded_len Std (length ?p) + 2000"
    unfolding r using se sp_PayloadType_good(3) k(3) ed_sign_length [OF assms(1,5)]
    by (intro printed_envelope) (auto simp: length_b64_encode b64_encoded_len_def)
  also have "b64_encoded_len Std (length ?p) \<le> b64_encoded_len Std 12400" by (rule b64_encoded_len_mono [OF p(3)])
  finally have size: "length raw \<le> 18600" by (simp add: b64_encoded_len_def)
  have "sp_decode ?p = Ok (sp_statement_json st)"
    unfolding sp_decode_def
    by (rule DecodeStrictInto_print [OF wf _ conforms_sp_statement_json [OF assms(2,3)]])
      (use p(3) in \<open>simp add: sp_MaxEnvelopeBytes_def\<close>)
  moreover have "raw \<noteq> []" using raw(2) by (auto simp: Parse_Ok_iff)
  ultimately have "sp_opened raw (hd (Signatures e)) ?p st"
    unfolding sp_opened_def
    using raw size se assms(2,4) p(2) sp_statement_of_json [OF assms(2,3)] ed_sign_length [OF assms(1,5)]
    by (auto simp: sp_MaxEnvelopeBytes_def)
  moreover have "sp_Sign c st k key = Ok raw"
    using assms(2,4,5) e raw(1) size by (simp add: sp_Sign_def sp_MaxEnvelopeBytes_def)
  ultimately show ?thesis using that size se(3) by simp
qed

lemma canonicalTime_seconds: "canonicalTime s = Ok t \<Longrightarrow> t mod nsec = 0"
  by (auto simp: canonicalTime_def time_parse_def split: option.splits if_splits)

lemma BuildRunPermit_decodes:
  assumes "sp_opened schedule s p st" "length schedule \<le> 18600" "Run st i = Ok (due, task)" "sane_clock due" "due mod nsec = 0"
    "sp_identifier task"
  obtains raw where "BuildRunPermit c schedule i = Ok raw"
    "decodeRunPermit raw = Ok (\<lparr>rp_SchemaVersion = sp_RunSchemaV1, rp_ScheduleBase64 = b64_encode Std schedule,
        rp_Ordinal = i, rp_DueAt = time_format due, rp_TaskID = task\<rparr>, schedule)"
proof -
  let ?r = "\<lparr>rp_SchemaVersion = sp_RunSchemaV1, rp_ScheduleBase64 = b64_encode Std schedule,
        rp_Ordinal = i, rp_DueAt = time_format due, rp_TaskID = task\<rparr>"
  let ?v = "run_permit_json ?r"
  note t = canonicalTime_format [OF assms(4,5)]
  note id = tp_identifier_props [OF assms(6) [unfolded sp_identifier_tp]]
  have wf: "wf_json ?v"
    using canonicalTime_utf8 [OF t] id
    by (simp add: run_permit_json_def sp_RunSchemaV1_def valid_utf8_ascii b64_encode_utf8)
  have "length (b64_encode Std schedule) \<le> 24800"
    unfolding length_b64_encode using b64_encoded_len_mono [OF assms(2)] by (simp add: b64_encoded_len_def)
  then have "member_sizes (members_of ?v) \<le> 28000"
    using json_quote_bound [OF conjunct1 [OF id]] json_quote_bound [of "time_format due" 20] canonicalTime_length [OF t]
      json_quote_bound [of sp_RunSchemaV1 30] printed_u64 [of i]
    by (simp add: run_permit_json_def members_of_def member_sizes_def json_quote_b64 sp_RunSchemaV1_def)
  moreover have "length (json_print ?v) \<le> member_sizes (members_of ?v) + 2"
    unfolding run_permit_json_def members_of_def json.case by (rule printed_object)
  ultimately have size: "length (json_print ?v) \<le> sp_MaxRunPermitBytes" by (simp add: sp_MaxRunPermitBytes_def)
  have "sp_InspectUnverified c schedule = Ok \<lparr>spi_Statement = st, spi_KeyID = KeyID s, spi_EnvelopeDigest = Digest c schedule\<rparr>"
    unfolding sp_InspectUnverified_iff using assms(1) by blast
  then have "BuildRunPermit c schedule i = Ok (json_print ?v)"
    using assms(3) size by (simp add: BuildRunPermit_def Let_def)
  moreover have "DecodeStrictInto (json_print ?v) sp_MaxRunPermitBytes run_permit_wire = Ok ?v"
    by (rule DecodeStrictInto_print [OF wf size]) (simp add: run_permit_wire_def run_permit_json_def u64_json_def)
  then have "decodeRunPermit (json_print ?v) = Ok (?r, schedule)"
    using size json_print_hd [OF wf]
    by (simp add: decodeRunPermit_def opt_str_def opt_u64_def member_JObj run_permit_json_def u64_json_def)
  ultimately show ?thesis by (rule that)
qed

section \<open>A concrete schedule for the witnesses\<close>

definition demo_schedule :: ScheduleStatement where
  "demo_schedule = \<lparr>sps_SchemaVersion = sp_SchemaV1, sps_ScheduleID = ''daily'', sps_NodeID = ''node'', sps_TenantID = ''tenant'',
     sps_InstanceID = ''instance'', sps_RuntimeRef = tps_RuntimeRef demo_task, sps_GrantID = tps_GrantID demo_task,
     sps_Generation = 1, sps_CapsuleDigest = demo_digest, sps_PolicyDigest = demo_digest, sps_RoutePolicyDigest = demo_digest,
     sps_ServiceID = ''svc'', sps_OperationID = ''op'', sps_OperationPolicyDigest = demo_digest, sps_RequestDigest = demo_digest,
     sps_RequestBytes = 10, sps_ContentType = ''application/json'', sps_StartsAt = time_format (10 * minute),
     sps_IntervalSeconds = 3600, sps_RunCount = 24, sps_WindowSeconds = 60, sps_MaxConcurrency = 1,
     sps_OverlapPolicy = ''skip'', sps_MissedRunPolicy = ''skip'', sps_ProjectID = [], sps_SessionID = []\<rparr>"

text \<open>The same schedule with a window of 2^55 seconds, whose duration in nanoseconds wraps to zero.\<close>

definition wide_schedule :: ScheduleStatement where
  "wide_schedule = demo_schedule\<lparr>sps_WindowSeconds := 2 ^ 55\<rparr>"

lemma demo_start: "canonicalTime (time_format (10 * minute)) = Ok (10 * minute)"
  by (auto intro!: canonicalTime_format simp: sane_clock_def minute_def nsec_def)

lemma seconds_wide: "seconds (2 ^ 55) = 0"
  by (simp add: seconds_def wrap64_def nsec_def)

lemma demo_Run:
  assumes "w = demo_schedule \<or> w = wide_schedule"
  shows "Run w 24 = Ok (10 * minute + 23 * 3600 * nsec, ''daily-24'')"
proof -
  have id: "sp_identifier ''daily-24''"
    by (simp add: sp_identifier_def identifier_pattern_def alnum_def is_lower_def is_digit_def)
  have g: "\<not> (23 :: u64) > word_of_int (sp_MaxValidity sdiv seconds 3600)"
    using interval_guard [of 3600 24] by (simp add: sp_MaxValidity_def hour_def minute_def nsec_def)
  have w: "wrap64 (wrap64 82800 * nsec) = 82800 * nsec"
    by (simp add: wrap64_def nsec_def)
  have s: "seconds 3600 \<noteq> 0" by (simp add: seconds_small nsec_def)
  have i: "itoa 24 = ''24''" by code_simp
  from assms demo_start id g s show ?thesis
    unfolding Run_def by (auto simp: demo_schedule_def wide_schedule_def Let_def w i)
qed

lemma demo_Validate:
  assumes "w = demo_schedule \<or> w = wide_schedule"
  shows "sp_Validate w = Ok ()"
proof -
  have hex: "prefixed_hex p (p @ replicate 64 (CHR ''a''))" for p
    by (auto simp: prefixed_hex_def is_lower_hex_def list_all_iff intro: exI [of _ "replicate 64 (CHR ''a'')"])
  have id: "tp_publicIdentity ''node'' 128" "tp_publicIdentity ''tenant'' 128" "tp_publicIdentity ''instance'' 256"
    by (simp_all add: tp_publicIdentity_def trim_space_ascii is_space_def valid_utf8_ascii contains_nul_def)
  have nm: "tp_identifier ''svc''" "tp_identifier ''op''" "scheduleIDPattern ''daily''"
    by (simp_all add: tp_identifier_def scheduleIDPattern_def identifier_pattern_def alnum_def is_lower_def)
  have dig: "tp_digest demo_digest" "tp_runtimeRef (tps_RuntimeRef demo_task)" "tp_grantID (tps_GrantID demo_task)"
    using demo_digest_hex hex [of "''executor-''"] hex [of "''grant-''"]
    by (simp_all add: tp_digest_iff tp_runtimeRef_iff tp_grantID_iff demo_task_def)
  have sec: "seconds 60 = 60 * nsec" by (simp add: seconds_small)
  have sub: "\<not> time_sub (10 * minute + 82800 * nsec + 60 * nsec) (10 * minute) > sp_MaxValidity"
    "\<not> time_sub (10 * minute + 82800 * nsec) (10 * minute) > sp_MaxValidity"
    by (auto simp: time_sub_def min_int64_def max_int64_def sp_MaxValidity_def hour_def minute_def nsec_def)
  have win: "\<not> 60 * nsec > sp_MaxWindow" "\<not> 0 > sp_MaxWindow" "\<not> 10 * minute + 82800 * nsec < 10 * minute"
    by (simp_all add: sp_MaxWindow_def minute_def nsec_def)
  have "Run w 24 = Ok (10 * minute + 82800 * nsec, ''daily-24'')" using demo_Run [OF assms] by simp
  with assms show ?thesis
    unfolding sp_Validate_def sp_as_tp
    using demo_start id nm dig sub win
    by (auto simp: demo_schedule_def wide_schedule_def sec seconds_wide [simplified] tp_MaxRequestBytes_def sp_MaxRuns_def
        sp_MaxConcurrency_def)
qed

lemma demo_VerifyRun:
  obtains raw r where "VerifyRun demo_crypto raw (Some demo_trusted) (10 * minute + 23 * 3600 * nsec) = Ok r" "vr_Ordinal r = 24"
proof -
  obtain schedule s where sg: "sp_Sign demo_crypto demo_schedule ''key'' demo_key = Ok schedule" "length schedule \<le> 18600"
    "sp_opened schedule s (json_print (sp_statement_json demo_schedule)) demo_schedule" "KeyID s = ''key''"
    "Sig s = b64_encode Std (ed_sign demo_crypto demo_key (PAE sp_PayloadType (json_print (sp_statement_json demo_schedule))))"
    by (rule sp_Sign_opened [OF demo_crypto_ok demo_Validate, of demo_schedule "''key''" demo_key])
      (simp_all add: demo_schedule_def in_int64_def min_int64_def max_int64_def sp_identifier_def identifier_pattern_def
        alnum_def is_lower_def)
  have run: "Run demo_schedule 24 = Ok (10 * minute + 23 * 3600 * nsec, ''daily-24'')" by (rule demo_Run) simp
  obtain raw where "decodeRunPermit raw = Ok (\<lparr>rp_SchemaVersion = sp_RunSchemaV1, rp_ScheduleBase64 = b64_encode Std schedule,
        rp_Ordinal = 24, rp_DueAt = time_format (10 * minute + 23 * 3600 * nsec), rp_TaskID = ''daily-24''\<rparr>, schedule)"
    by (rule BuildRunPermit_decodes [OF sg(3,2) run])
      (simp_all add: sane_clock_def minute_def nsec_def sp_identifier_def identifier_pattern_def alnum_def is_lower_def is_digit_def)
  moreover have "authentic demo_crypto demo_trusted (PAE sp_PayloadType (json_print (sp_statement_json demo_schedule))) s"
    using sg(4,5) by (intro crypto_ok_sign [OF demo_crypto_ok demo_key_length]) (simp_all add: demo_trusted_def)
  moreover have "0 < seconds (sps_WindowSeconds demo_schedule)" by (simp add: demo_schedule_def seconds_small nsec_def)
  moreover have "10 * minute + 23 * 3600 * nsec \<noteq> zero_time" by (simp add: minute_def nsec_def zero_time_def)
  ultimately show ?thesis
    using that sg(3) run unfolding VerifyRun_iff run_matches_def by fastforce
qed

section \<open>Properties\<close>

text \<open>The timetable of a valid schedule: every ordinal from 1 to the run count has a due time and a
  task identity, later ordinals are due strictly later, exactly whole intervals apart, with distinct
  task identities, and no run is due more than 366 days after the start.\<close>

theorem Run_timetable:
  assumes "sp_Validate st = Ok ()" "i \<noteq> 0" "i < j" "j \<le> sps_RunCount st"
  shows "\<exists>due task due' task'. Run st i = Ok (due, task) \<and> Run st j = Ok (due', task') \<and>
    due' - due = int (unat j - unat i) * sps_IntervalSeconds st * nsec \<and> due < due' \<and> task \<noteq> task' \<and>
    instant (sps_StartsAt st) \<le> due \<and> due' - instant (sps_StartsAt st) \<le> sp_MaxValidity"
proof -
  have j: "j \<noteq> 0" and i: "i \<le> sps_RunCount st" using assms(3,4) by auto
  have lt: "unat i < unat j" "0 < unat i"
    using assms(2,3) by (simp_all add: word_less_nat_alt unat_gt_0)
  note v = sp_Validate_bounds(7) [OF assms(1)]
  have iv: "60 \<le> sps_IntervalSeconds st"
    using v assms(4) lt word_le_nat_alt [of j "sps_RunCount st"] by auto
  note ri = Run_valid [OF assms(1,2) i] and rj = Run_valid [OF assms(1) j assms(4)]
  let ?f = "\<lambda>n. int (n - 1) * sps_IntervalSeconds st * nsec"
  have d: "?f (unat j) - ?f (unat i) = int (unat j - unat i) * sps_IntervalSeconds st * nsec"
    using lt by (simp add: of_nat_diff algebra_simps)
  have "0 < int (unat j - unat i)" using lt(1) by (simp only: of_nat_0_less_iff zero_less_diff)
  then have "0 < int (unat j - unat i) * sps_IntervalSeconds st * nsec"
    using iv by (intro mult_pos_pos) (assumption | simp add: nsec_def)+
  with d have step: "?f (unat i) < ?f (unat j)" by linarith
  have first: "0 \<le> ?f (unat i)" using iv by (simp add: nsec_def)
  have "itoa (unat i) \<noteq> itoa (unat j)" using lt by (simp add: itoa_inj)
  then have names: "sps_ScheduleID st @ ''-'' @ itoa (unat i) \<noteq> sps_ScheduleID st @ ''-'' @ itoa (unat j)" by simp
  show ?thesis
    by (intro exI conjI, rule ri(1), rule rj(1)) (use step first names d rj(2) in \<open>linarith | assumption\<close>)+
qed

theorem Run_timetable_witness:
  "\<exists>due task due' task'. Run demo_schedule 1 = Ok (due, task) \<and> Run demo_schedule 24 = Ok (due', task') \<and>
    due' - due = 23 * 3600 * nsec \<and> task \<noteq> task'"
  using Run_timetable [of demo_schedule 1 24] demo_Validate by (auto simp: demo_schedule_def)

text \<open>Sign, build, verify: a valid schedule signs, Control can build the wrapper of every one of its
  runs, and Gateway, trusting the signer, accepts that wrapper at any time of the run's window and
  recovers the statement, the ordinal, the due time and the task identity.\<close>

theorem Sign_Build_VerifyRun:
  assumes "crypto_ok c" "sp_Validate st = Ok ()" "in_int64 (sps_WindowSeconds st)" "sp_identifier k" "length key = 64"
    "trusted k = Some (ed_public c key)" "Run st i = Ok (due, task)" "sane_clock due"
    "due \<le> now" "now < due + seconds (sps_WindowSeconds st)" "now \<noteq> zero_time"
  shows "\<exists>schedule raw. sp_Sign c st k key = Ok schedule \<and> BuildRunPermit c schedule i = Ok raw \<and>
    VerifyRun c raw (Some trusted) now =
      Ok \<lparr>vr_Statement = st, vr_KeyID = k, vr_EnvelopeDigest = Digest c schedule, vr_RunPermitDigest = Digest c raw,
          vr_TaskID = task, vr_Ordinal = i, vr_DueAt = due\<rparr>"
proof -
  obtain schedule s where sg: "sp_Sign c st k key = Ok schedule" "length schedule \<le> 18600"
    "sp_opened schedule s (json_print (sp_statement_json st)) st" "KeyID s = k"
    "Sig s = b64_encode Std (ed_sign c key (PAE sp_PayloadType (json_print (sp_statement_json st))))"
    by (rule sp_Sign_opened [OF assms(1-5)])
  have i: "i \<noteq> 0" "i \<le> sps_RunCount st" using assms(7) by (auto simp: Run_def not_less split: if_splits)
  note r = Run_valid [OF assms(2) i] and b = sp_Validate_bounds [OF assms(2)]
  have due: "due = instant (sps_StartsAt st) + int (unat i - 1) * sps_IntervalSeconds st * nsec"
    and task: "task = sps_ScheduleID st @ ''-'' @ itoa (unat i)" using r(1) assms(7) by auto
  have "due mod nsec = 0" unfolding due using canonicalTime_seconds [OF b(1)] by simp
  moreover have "sp_identifier task" unfolding task using b(2) ordinal_le [OF i(2) b(4)] by (rule task_id_identifier)
  ultimately obtain raw where raw: "BuildRunPermit c schedule i = Ok raw"
    "decodeRunPermit raw = Ok (\<lparr>rp_SchemaVersion = sp_RunSchemaV1, rp_ScheduleBase64 = b64_encode Std schedule,
        rp_Ordinal = i, rp_DueAt = time_format due, rp_TaskID = task\<rparr>, schedule)"
    by (rule BuildRunPermit_decodes [where c = c, OF sg(3,2) assms(7,8)])
  have "authentic c trusted (PAE sp_PayloadType (json_print (sp_statement_json st))) s"
    using assms(6) sg(4,5) by (intro crypto_ok_sign [OF assms(1,5)]) simp_all
  then have "VerifyRun c raw (Some trusted) now =
      Ok \<lparr>vr_Statement = st, vr_KeyID = k, vr_EnvelopeDigest = Digest c schedule, vr_RunPermitDigest = Digest c raw,
          vr_TaskID = task, vr_Ordinal = i, vr_DueAt = due\<rparr>"
    unfolding VerifyRun_iff run_matches_def using sg(3,4) raw(2) assms(7,9-11) by fastforce
  with sg(1) raw(1) show ?thesis by blast
qed

theorem Sign_Build_VerifyRun_witness:
  "\<exists>schedule raw. sp_Sign demo_crypto demo_schedule ''key'' demo_key = Ok schedule \<and>
    BuildRunPermit demo_crypto schedule 24 = Ok raw \<and>
    VerifyRun demo_crypto raw (Some demo_trusted) (10 * minute + 23 * 3600 * nsec) =
      Ok \<lparr>vr_Statement = demo_schedule, vr_KeyID = ''key'', vr_EnvelopeDigest = Digest demo_crypto schedule,
          vr_RunPermitDigest = Digest demo_crypto raw, vr_TaskID = ''daily-24'', vr_Ordinal = 24,
          vr_DueAt = 10 * minute + 23 * 3600 * nsec\<rparr>"
proof (rule Sign_Build_VerifyRun [OF demo_crypto_ok demo_Validate])
  show "Run demo_schedule 24 = Ok (10 * minute + 23 * 3600 * nsec, ''daily-24'')" by (rule demo_Run) simp
  show "10 * minute + 23 * 3600 * nsec < 10 * minute + 23 * 3600 * nsec + seconds (sps_WindowSeconds demo_schedule)"
    by (simp add: demo_schedule_def seconds_small nsec_def)
qed (simp_all add: demo_schedule_def in_int64_def min_int64_def max_int64_def sp_identifier_def identifier_pattern_def
    alnum_def is_lower_def demo_trusted_def sane_clock_def zero_time_def minute_def nsec_def)

text \<open>
  What a signed document says: every field of the statement is the member of that name of the
  document, the two optional ones empty when they are left out; and the members of a run permit.
\<close>

definition schedule_reads :: "json \<Rightarrow> ScheduleStatement \<Rightarrow> bool" where
  "schedule_reads v st \<longleftrightarrow>
     opt_str ''schema_version'' v = Some (sps_SchemaVersion st) \<and> opt_str ''schedule_id'' v = Some (sps_ScheduleID st) \<and>
     opt_str ''node_id'' v = Some (sps_NodeID st) \<and> opt_str ''tenant_id'' v = Some (sps_TenantID st) \<and>
     opt_str ''instance_id'' v = Some (sps_InstanceID st) \<and> opt_str ''runtime_ref'' v = Some (sps_RuntimeRef st) \<and>
     opt_str ''grant_id'' v = Some (sps_GrantID st) \<and> opt_u64 ''generation'' v = Some (sps_Generation st) \<and>
     opt_str ''capsule_digest'' v = Some (sps_CapsuleDigest st) \<and> opt_str ''policy_digest'' v = Some (sps_PolicyDigest st) \<and>
     opt_str ''route_policy_digest'' v = Some (sps_RoutePolicyDigest st) \<and> opt_str ''service_id'' v = Some (sps_ServiceID st) \<and>
     opt_str ''operation_id'' v = Some (sps_OperationID st) \<and>
     opt_str ''operation_policy_digest'' v = Some (sps_OperationPolicyDigest st) \<and>
     opt_str ''request_digest'' v = Some (sps_RequestDigest st) \<and> opt_i64 ''request_bytes'' v = Some (sps_RequestBytes st) \<and>
     opt_str ''content_type'' v = Some (sps_ContentType st) \<and> opt_str ''starts_at'' v = Some (sps_StartsAt st) \<and>
     opt_i64 ''interval_seconds'' v = Some (sps_IntervalSeconds st) \<and> opt_u64 ''run_count'' v = Some (sps_RunCount st) \<and>
     opt_i64 ''window_seconds'' v = Some (sps_WindowSeconds st) \<and> opt_i64 ''max_concurrency'' v = Some (sps_MaxConcurrency st) \<and>
     opt_str ''overlap_policy'' v = Some (sps_OverlapPolicy st) \<and> opt_str ''missed_run_policy'' v = Some (sps_MissedRunPolicy st) \<and>
     sps_ProjectID st = or_empty (opt_str ''project_id'' v) \<and> sps_SessionID st = or_empty (opt_str ''session_id'' v)"

lemma sp_statement_reads: "sp_statement v = Some st \<Longrightarrow> schedule_reads v st"
  unfolding sp_statement_def by (auto simp: schedule_reads_def split: option.splits)

definition wrapper_reads :: "json \<Rightarrow> bytes \<Rightarrow> u64 \<Rightarrow> time \<Rightarrow> bytes \<Rightarrow> bool" where
  "wrapper_reads v schedule ordinal due task \<longleftrightarrow>
     opt_str ''schedule_base64'' v = Some (b64_encode Std schedule) \<and> opt_u64 ''ordinal'' v = Some ordinal \<and>
     opt_str ''due_at'' v = Some (time_format due) \<and> opt_str ''task_id'' v = Some task"

lemma decodeRunPermit_reads:
  assumes "decodeRunPermit raw = Ok (w, schedule)" "rp_DueAt w = time_format due"
  shows "\<exists>v. json_document raw = Some v \<and> wrapper_reads v schedule (rp_Ordinal w) due (rp_TaskID w)"
  using assms
  by (auto simp: decodeRunPermit_def wrapper_reads_def DecodeStrictInto_iff split: if_splits sum.splits option.splits)

lemma seconds_signed: "0 \<le> n \<Longrightarrow> 0 \<le> seconds n \<Longrightarrow> seconds n \<le> n * nsec"
proof -
  assume n: "0 \<le> n" "0 \<le> seconds n"
  have "(n * nsec + 2 ^ 63) mod 2 ^ 64 \<le> n * nsec + (2 ^ 63 :: int)"
    using n(1) by (intro zmod_le_nonneg_dividend) (simp add: nsec_def)
  then show "seconds n \<le> n * nsec" by (simp add: seconds_def wrap64_def)
qed

text \<open>C23: What a run verified against a set of trusted keys establishes. The permit is a document that
  carries a schedule envelope, an ordinal, a due time and a task identity; the envelope has one signature,
  by a trusted key, over a payload, and the reported statement is what that payload says, member by
  member. The ordinal is one of the signed schedule's; the due time and the task identity are those the
  schedule derives from it and those the permit states; the time is inside the signed window after the
  due time, which is at most fifteen minutes long.\<close>

theorem VerifyRun_sound:
  assumes "VerifyRun c raw (Some trusted) now = Ok r"
  shows "\<exists>permit schedule e p v. json_document raw = Some permit \<and>
    wrapper_reads permit schedule (vr_Ordinal r) (vr_DueAt r) (vr_TaskID r) \<and>
    vr_RunPermitDigest r = Digest c raw \<and> vr_EnvelopeDigest r = Digest c schedule \<and>
    Parse schedule = Ok e \<and> Payload e = b64_encode Std p \<and> map KeyID (Signatures e) = [vr_KeyID r] \<and>
    list_all (authentic c trusted (PAE sp_PayloadType p)) (Signatures e) \<and>
    json_document p = Some v \<and> conforms sp_wireStatement 0 v \<and> schedule_reads v (vr_Statement r) \<and>
    sp_Validate (vr_Statement r) = Ok () \<and>
    vr_Ordinal r \<noteq> 0 \<and> vr_Ordinal r \<le> sps_RunCount (vr_Statement r) \<and>
    vr_TaskID r = sps_ScheduleID (vr_Statement r) @ ''-'' @ itoa (unat (vr_Ordinal r)) \<and>
    vr_DueAt r = instant (sps_StartsAt (vr_Statement r)) +
      int (unat (vr_Ordinal r) - 1) * sps_IntervalSeconds (vr_Statement r) * nsec \<and>
    vr_DueAt r \<le> now \<and> now < vr_DueAt r + sps_WindowSeconds (vr_Statement r) * nsec \<and> now < vr_DueAt r + sp_MaxWindow"
proof -
  from assms obtain w schedule s p st due where h: "sp_opened schedule s p st" "run_matches w st due"
    "authentic c trusted (PAE sp_PayloadType p) s" "due \<le> now" "now < due + seconds (sps_WindowSeconds st)"
    and w: "decodeRunPermit raw = Ok (w, schedule)"
    and r: "r = \<lparr>vr_Statement = st, vr_KeyID = KeyID s, vr_EnvelopeDigest = Digest c schedule, vr_RunPermitDigest = Digest c raw,
             vr_TaskID = rp_TaskID w, vr_Ordinal = rp_Ordinal w, vr_DueAt = due\<rparr>"
    unfolding VerifyRun_iff by auto
  have v: "sp_Validate st = Ok ()" using h(1) by (simp add: sp_opened_def)
  have o: "rp_Ordinal w \<noteq> 0" "rp_Ordinal w \<le> sps_RunCount st"
    using h(2) by (auto simp: run_matches_def Run_def not_less split: if_splits)
  from h(1) obtain e wire where e: "Parse schedule = Ok e" "Payload e = b64_encode Std p" "Signatures e = [s]"
    "sp_decode p = Ok wire" "sp_statement wire = Some st"
    by (auto simp: sp_opened_def)
  have d: "json_document p = Some wire" "conforms sp_wireStatement 0 wire"
    using e(4) by (simp_all add: sp_decode_def DecodeStrictInto_iff)
  obtain permit where permit: "json_document raw = Some permit" "wrapper_reads permit schedule (rp_Ordinal w) due (rp_TaskID w)"
    using decodeRunPermit_reads [OF w, of due] h(2) by (auto simp: run_matches_def)
  have "seconds (sps_WindowSeconds st) \<le> sps_WindowSeconds st * nsec"
    using h(4,5) sp_Validate_bounds(5) [OF v] by (intro seconds_signed) simp_all
  then show ?thesis
    using v o e d h(2-5) permit Run_valid(1) [OF v o] sp_Validate_bounds(6) [OF v] sp_statement_reads [OF e(5)]
    by (intro exI [of _ permit] exI [of _ schedule] exI [of _ e] exI [of _ p] exI [of _ wire]) (auto simp: r run_matches_def)
qed

theorem VerifyRun_sound_witness:
  "\<exists>raw r permit schedule. VerifyRun demo_crypto raw (Some demo_trusted) (10 * minute + 23 * 3600 * nsec) = Ok r \<and>
    vr_Ordinal r = 24 \<and> json_document raw = Some permit \<and>
    wrapper_reads permit schedule 24 (vr_DueAt r) (vr_TaskID r) \<and> vr_DueAt r \<le> 10 * minute + 23 * 3600 * nsec \<and>
    10 * minute + 23 * 3600 * nsec < vr_DueAt r + sps_WindowSeconds (vr_Statement r) * nsec"
proof -
  obtain raw r where r: "VerifyRun demo_crypto raw (Some demo_trusted) (10 * minute + 23 * 3600 * nsec) = Ok r" "vr_Ordinal r = 24"
    by (rule demo_VerifyRun)
  from VerifyRun_sound [OF r(1)] r show ?thesis by auto
qed

text \<open>A nil key map disables authentication: \<open>VerifyRun\<close> with a nil map accepts exactly the wrappers
  that \<open>InspectRunUnverified\<close> accepts, inside the dispatch window, whatever their signature.\<close>

theorem VerifyRun_nil_keys:
  "VerifyRun c raw None now =
      Ok \<lparr>vr_Statement = st, vr_KeyID = k, vr_EnvelopeDigest = d, vr_RunPermitDigest = rd, vr_TaskID = task,
          vr_Ordinal = i, vr_DueAt = due\<rparr> \<longleftrightarrow>
   InspectRunUnverified c raw =
      Ok \<lparr>ir_Statement = st, ir_KeyID = k, ir_EnvelopeDigest = d, ir_RunPermitDigest = rd, ir_TaskID = task,
          ir_Ordinal = i, ir_DueAt = due\<rparr> \<and>
   now \<noteq> zero_time \<and> due \<le> now \<and> now < due + seconds (sps_WindowSeconds st)"
  unfolding VerifyRun_iff InspectRun_iff by auto

text \<open>The fifteen-minute bound on \<open>window_seconds\<close> is tested after the conversion to nanoseconds wraps
  around: a schedule with a window of 2^55 seconds passes \<open>Validate\<close>, and the window that \<open>VerifyRun\<close>
  computes for it is empty.\<close>

theorem window_bound_wraps:
  "sp_Validate wide_schedule = Ok () \<and> sps_WindowSeconds wide_schedule * nsec > sp_MaxWindow \<and>
   seconds (sps_WindowSeconds wide_schedule) = 0"
  using demo_Validate [of wide_schedule] seconds_wide
  by (auto simp: wide_schedule_def nsec_def sp_MaxWindow_def minute_def)

end
