(* ===== verification/Action_Permit.thy ===== *)
theory Action_Permit
  imports Schedule_Permit
begin

text \<open>
  \<open>internal/actionpermit/actionpermit.go\<close>: authority-signed permission for one exact connector request
  (payload types 1, 2, 3 and 5) or for a bounded bundle of exact requests (payload type 4), with
  multi-party approval thresholds. The theory models decoding, validation, verification and the
  version-dependent encoding, and shows what a verified permit establishes about its signers.
\<close>

section \<open>Data\<close>

definition PayloadTypeV1 :: bytes where "PayloadTypeV1 = ''application/vnd.steward.action-permit.v1+json''"
definition PayloadTypeV2 :: bytes where "PayloadTypeV2 = ''application/vnd.steward.action-permit.v2+json''"
definition PayloadTypeV3 :: bytes where "PayloadTypeV3 = ''application/vnd.steward.action-permit.v3+json''"
definition PayloadTypeV4 :: bytes where "PayloadTypeV4 = ''application/vnd.steward.action-permit.v4+json''"
definition PayloadTypeV5 :: bytes where "PayloadTypeV5 = ''application/vnd.steward.action-permit.v5+json''"
definition ap_SchemaV1 :: bytes where "ap_SchemaV1 = ''steward.action-permit.v1''"
definition ap_SchemaV2 :: bytes where "ap_SchemaV2 = ''steward.action-permit.v2''"
definition ap_SchemaV3 :: bytes where "ap_SchemaV3 = ''steward.action-permit.v3''"
definition ap_SchemaV4 :: bytes where "ap_SchemaV4 = ''steward.action-permit.v4''"
definition ap_SchemaV5 :: bytes where "ap_SchemaV5 = ''steward.action-permit.v5''"
definition EffectModeAuthorized :: bytes where "EffectModeAuthorized = ''authorized''"
definition ap_MaxEnvelopeBytes :: nat where "ap_MaxEnvelopeBytes = 16384"
definition ap_MaxRequestBytes :: int where "ap_MaxRequestBytes = 4194304"
definition MaxBundleSteps :: nat where "MaxBundleSteps = 8"
definition ap_MaxValidity :: duration where "ap_MaxValidity = 24 * hour"

record ActionStatement =
  aps_SchemaVersion :: bytes
  aps_EffectMode :: bytes
  aps_ApprovalThreshold :: int
  aps_NodeID :: bytes
  aps_TenantID :: bytes
  aps_InstanceID :: bytes
  aps_Generation :: u64
  aps_CapsuleDigest :: bytes
  aps_PolicyDigest :: bytes
  aps_RoutePolicyDigest :: bytes
  aps_ConnectorID :: bytes
  aps_OperationID :: bytes
  aps_OperationDigest :: bytes
  aps_TaskID :: bytes
  aps_RequestDigest :: bytes
  aps_RequestBytes :: int
  aps_ContentType :: bytes
  aps_InfluenceSequence :: u64
  aps_InfluenceHash :: bytes
  aps_NotBefore :: bytes
  aps_ExpiresAt :: bytes

record BundleStep =
  bs_StepID :: bytes
  bs_ConnectorID :: bytes
  bs_OperationID :: bytes
  bs_OperationDigest :: bytes
  bs_TaskID :: bytes
  bs_RequestDigest :: bytes
  bs_RequestBytes :: int
  bs_ContentType :: bytes

record BundleStatement =
  bd_SchemaVersion :: bytes
  bd_EffectMode :: bytes
  bd_ApprovalThreshold :: int
  bd_NodeID :: bytes
  bd_TenantID :: bytes
  bd_InstanceID :: bytes
  bd_Generation :: u64
  bd_CapsuleDigest :: bytes
  bd_PolicyDigest :: bytes
  bd_RoutePolicyDigest :: bytes
  bd_BundleID :: bytes
  bd_Steps :: "BundleStep list"
  bd_NotBefore :: bytes
  bd_ExpiresAt :: bytes

text \<open>Go's \<open>Verified\<close> has a zero \<open>Statement\<close> beside a bundle pointer; here the permit is one or the other.\<close>

datatype permit = Single ActionStatement | Bundle BundleStatement

record ActionVerified =
  apv_Permit :: permit
  apv_KeyID :: bytes
  apv_KeyIDs :: "bytes list"
  apv_Complete :: bool
  apv_EnvelopeDigest :: bytes
  apv_PayloadType :: bytes

abbreviation ap_invalid :: "string \<Rightarrow> 'a result" where
  "ap_invalid m \<equiv> wrap_err ErrActionPermitInvalid m"

section \<open>Syntax checks\<close>

definition ap_publicIdentity :: "bytes \<Rightarrow> nat \<Rightarrow> bool" where
  "ap_publicIdentity value limit \<longleftrightarrow>
     trim_space value \<noteq> [] \<and> length value \<le> limit \<and> valid_utf8 value \<and> \<not> contains_nul value"

definition routeID :: "bytes \<Rightarrow> bool" where
  "routeID value = identifier_pattern 127 value"

definition ap_digest :: "bytes \<Rightarrow> bool" where
  "ap_digest value \<longleftrightarrow>
     length value = length ''sha256:'' + 64 \<and> has_prefix value ''sha256:'' \<and>
     list_all is_lower_hex (drop (length ''sha256:'') value)"

definition ap_RequestDigest :: "crypto \<Rightarrow> bytes \<Rightarrow> bytes" where
  "ap_RequestDigest c raw = ''sha256:'' @ hex_encode (sha256 c raw)"

section \<open>Validation\<close>

definition validateValidity :: "bytes \<Rightarrow> bytes \<Rightarrow> time \<Rightarrow> duration \<Rightarrow> unit result" where
  "validateValidity notBeforeValue expiresAtValue now maxValidity =
     (case canonicalTime notBeforeValue of
        Inl _ \<Rightarrow> ap_invalid ''not_before''
      | Inr notBefore \<Rightarrow>
        (case canonicalTime expiresAtValue of
           Inl _ \<Rightarrow> ap_invalid ''expires_at''
         | Inr expiresAt \<Rightarrow>
             if \<not> notBefore < expiresAt \<or> time_sub expiresAt notBefore > maxValidity
             then ap_invalid ''validity interval is empty or exceeds the local maximum''
             else if now < notBefore then ap_invalid ''permit is not yet valid according to node time''
             else if \<not> now < expiresAt then ap_invalid ''permit has expired according to node time''
             else Ok ()))"

definition validateRuntimeBinding ::
  "bytes \<Rightarrow> bytes \<Rightarrow> bytes \<Rightarrow> u64 \<Rightarrow> bytes \<Rightarrow> bytes \<Rightarrow> bytes \<Rightarrow> unit result" where
  "validateRuntimeBinding nodeID tenantID instanceID generation capsuleDigest policyDigest routePolicyDigest =
     (if \<not> ap_publicIdentity nodeID 128 \<or> \<not> ap_publicIdentity tenantID 128 \<or> \<not> ap_publicIdentity instanceID 256
      then ap_invalid ''statement contains an invalid identity''
      else if generation = 0 then ap_invalid ''generation must be positive''
      else if \<not> ap_digest capsuleDigest \<or> \<not> ap_digest policyDigest \<or> \<not> ap_digest routePolicyDigest
      then ap_invalid ''statement contains an invalid SHA-256 digest''
      else Ok ())"

definition validateRequestBinding :: "crypto \<Rightarrow> bytes \<Rightarrow> bytes \<Rightarrow> int \<Rightarrow> bytes \<Rightarrow> unit result" where
  "validateRequestBinding c operationDigest requestDigest requestBytes contentType =
     (if \<not> ap_digest operationDigest \<or> \<not> ap_digest requestDigest
      then ap_invalid ''request binding contains an invalid SHA-256 digest''
      else if requestBytes < 0 \<or> requestBytes > ap_MaxRequestBytes
      then ap_invalid ''request size is outside the supported range''
      else if contentType \<noteq> [] \<and> contentType \<noteq> ''application/json''
      then ap_invalid ''content type must be empty or application/json''
      else if contentType = [] \<and> (requestBytes \<noteq> 0 \<or> requestDigest \<noteq> ap_RequestDigest c [])
      then ap_invalid ''bodyless operation must bind the empty request''
      else if contentType = ''application/json'' \<and> requestBytes = 0
      then ap_invalid ''JSON operation must bind a non-empty request''
      else Ok ())"

definition version_ok :: "ActionStatement \<Rightarrow> bytes \<Rightarrow> unit result" where
  "version_ok statement payloadType =
     (if payloadType = PayloadTypeV1 then
        (if aps_SchemaVersion statement \<noteq> ap_SchemaV1 \<or> aps_EffectMode statement \<noteq> []
         then ap_invalid ''payload type, schema version, and effect mode do not form a supported permit version'' else Ok ())
      else if payloadType = PayloadTypeV2 then
        (if aps_SchemaVersion statement \<noteq> ap_SchemaV2 \<or> aps_EffectMode statement \<noteq> EffectModeAuthorized \<or>
            aps_ApprovalThreshold statement \<noteq> 0
         then ap_invalid ''payload type, schema version, effect mode, and approval threshold do not form a supported permit version''
         else Ok ())
      else if payloadType = PayloadTypeV3 then
        (if aps_SchemaVersion statement \<noteq> ap_SchemaV3 \<or> aps_EffectMode statement \<noteq> EffectModeAuthorized \<or>
            aps_ApprovalThreshold statement < 2 \<or> aps_ApprovalThreshold statement > 8
         then ap_invalid ''payload type, schema version, and effect mode do not form a supported permit version'' else Ok ())
      else if payloadType = PayloadTypeV5 then
        (if aps_SchemaVersion statement \<noteq> ap_SchemaV5 \<or> aps_EffectMode statement \<noteq> EffectModeAuthorized \<or>
            aps_ApprovalThreshold statement < 1 \<or> aps_ApprovalThreshold statement > 8 \<or> \<not> ap_digest (aps_InfluenceHash statement)
         then ap_invalid ''influence context does not form a supported permit version'' else Ok ())
      else ap_invalid ''unsupported permit payload type'')"

definition ap_validateStatement ::
  "crypto \<Rightarrow> ActionStatement \<Rightarrow> bytes \<Rightarrow> time \<Rightarrow> duration \<Rightarrow> unit result" where
  "ap_validateStatement c statement payloadType now maxValidity =
     and_then (version_ok statement payloadType) (\<lambda>_.
     and_then (validateRuntimeBinding (aps_NodeID statement) (aps_TenantID statement) (aps_InstanceID statement)
       (aps_Generation statement) (aps_CapsuleDigest statement) (aps_PolicyDigest statement) (aps_RoutePolicyDigest statement)) (\<lambda>_.
     if \<not> routeID (aps_ConnectorID statement) \<or> \<not> routeID (aps_OperationID statement) \<or> \<not> routeID (aps_TaskID statement)
     then ap_invalid ''statement contains an invalid identifier''
     else and_then (validateRequestBinding c (aps_OperationDigest statement) (aps_RequestDigest statement)
            (aps_RequestBytes statement) (aps_ContentType statement)) (\<lambda>_.
       validateValidity (aps_NotBefore statement) (aps_ExpiresAt statement) now maxValidity)))"

fun bundle_steps_ok :: "crypto \<Rightarrow> bytes \<Rightarrow> bytes set \<Rightarrow> BundleStep list \<Rightarrow> unit result" where
  "bundle_steps_ok c previousStepID seenTasks [] = Ok ()"
| "bundle_steps_ok c previousStepID seenTasks (step # steps) =
     (if \<not> routeID (bs_StepID step) \<or> \<not> routeID (bs_ConnectorID step) \<or> \<not> routeID (bs_OperationID step) \<or>
         \<not> routeID (bs_TaskID step)
      then ap_invalid ''bundle step contains an invalid identifier''
      else if previousStepID \<noteq> [] \<and> bs_StepID step \<le> previousStepID
      then ap_invalid ''bundle steps must have unique step IDs in ascending order''
      else if bs_TaskID step \<in> seenTasks then ap_invalid ''bundle steps must have unique task IDs''
      else (case validateRequestBinding c (bs_OperationDigest step) (bs_RequestDigest step) (bs_RequestBytes step)
                   (bs_ContentType step) of
              Inl _ \<Rightarrow> ap_invalid ''bundle step''
            | Inr _ \<Rightarrow> bundle_steps_ok c (bs_StepID step) (insert (bs_TaskID step) seenTasks) steps))"

definition validateBundleStatement :: "crypto \<Rightarrow> BundleStatement \<Rightarrow> time \<Rightarrow> duration \<Rightarrow> unit result" where
  "validateBundleStatement c bundle now maxValidity =
     (if bd_SchemaVersion bundle \<noteq> ap_SchemaV4 \<or> bd_EffectMode bundle \<noteq> EffectModeAuthorized \<or>
         bd_ApprovalThreshold bundle < 1 \<or> bd_ApprovalThreshold bundle > int MaxBundleSteps
      then ap_invalid ''payload type, schema version, effect mode, and approval threshold do not form a supported bundle version''
      else and_then (validateRuntimeBinding (bd_NodeID bundle) (bd_TenantID bundle) (bd_InstanceID bundle)
             (bd_Generation bundle) (bd_CapsuleDigest bundle) (bd_PolicyDigest bundle) (bd_RoutePolicyDigest bundle)) (\<lambda>_.
        if \<not> routeID (bd_BundleID bundle) then ap_invalid ''bundle contains an invalid identifier''
        else if length (bd_Steps bundle) = 0 \<or> length (bd_Steps bundle) > MaxBundleSteps
        then ap_invalid ''bundle must contain a bounded number of exact steps''
        else and_then (bundle_steps_ok c [] {} (bd_Steps bundle)) (\<lambda>_.
          validateValidity (bd_NotBefore bundle) (bd_ExpiresAt bundle) now maxValidity)))"

section \<open>Statements on the wire\<close>

definition ap_wireStatement :: gotype where
  "ap_wireStatement = TStruct
     [(''schema_version'', TPtr TString), (''effect_mode'', TRaw), (''approval_threshold'', TRaw), (''node_id'', TPtr TString),
      (''tenant_id'', TPtr TString), (''instance_id'', TPtr TString), (''generation'', TPtr TUint64),
      (''capsule_digest'', TPtr TString), (''policy_digest'', TPtr TString), (''route_policy_digest'', TPtr TString),
      (''connector_id'', TPtr TString), (''operation_id'', TPtr TString), (''operation_policy_digest'', TPtr TString),
      (''task_id'', TPtr TString), (''request_digest'', TPtr TString), (''request_bytes'', TPtr TInt64),
      (''content_type'', TPtr TString), (''influence_sequence'', TPtr TUint64), (''influence_hash'', TPtr TString),
      (''not_before'', TPtr TString), (''expires_at'', TPtr TString)]"

definition ap_decode :: "bytes \<Rightarrow> json result" where
  "ap_decode payload = DecodeStrictInto payload ap_MaxEnvelopeBytes ap_wireStatement"

text \<open>The members a version must or must not have.\<close>

definition version_members :: "json \<Rightarrow> bytes \<Rightarrow> bool" where
  "version_members wire payloadType \<longleftrightarrow>
     (let mode = member ''effect_mode'' wire \<noteq> None; threshold = member ''approval_threshold'' wire \<noteq> None;
          sequence = opt_u64 ''influence_sequence'' wire \<noteq> None; hash = opt_str ''influence_hash'' wire \<noteq> None
      in \<not> (payloadType = PayloadTypeV1 \<and> (mode \<or> threshold \<or> sequence \<or> hash) \<or>
           payloadType = PayloadTypeV2 \<and> (\<not> mode \<or> threshold \<or> sequence \<or> hash) \<or>
           payloadType = PayloadTypeV3 \<and> (\<not> mode \<or> \<not> threshold \<or> sequence \<or> hash) \<or>
           payloadType = PayloadTypeV5 \<and> (\<not> mode \<or> \<not> threshold \<or> \<not> sequence \<or> \<not> hash)))"

text \<open>Decoding the two raw members: absent keeps the zero value, null and other types are refused.\<close>

definition wire_effect_mode :: "json \<Rightarrow> bytes option" where
  "wire_effect_mode wire = (case member ''effect_mode'' wire of None \<Rightarrow> Some []
     | Some (JStr s) \<Rightarrow> Some s | Some _ \<Rightarrow> None)"

definition wire_threshold :: "json \<Rightarrow> int option" where
  "wire_threshold wire = (case member ''approval_threshold'' wire of None \<Rightarrow> Some 0
     | Some (JNum n) \<Rightarrow> parse_i64 n | Some _ \<Rightarrow> None)"

definition ap_statement :: "json \<Rightarrow> bytes \<Rightarrow> ActionStatement option" where
  "ap_statement wire payloadType =
     (case (opt_str ''schema_version'' wire, opt_str ''node_id'' wire, opt_str ''tenant_id'' wire,
            opt_str ''instance_id'' wire, opt_u64 ''generation'' wire, opt_str ''capsule_digest'' wire,
            opt_str ''policy_digest'' wire, opt_str ''route_policy_digest'' wire, opt_str ''connector_id'' wire) of
        (Some sv, Some node, Some tenant, Some inst, Some gen, Some cap, Some pol, Some route, Some connector) \<Rightarrow>
          (case (opt_str ''operation_id'' wire, opt_str ''operation_policy_digest'' wire, opt_str ''task_id'' wire,
                 opt_str ''request_digest'' wire, opt_i64 ''request_bytes'' wire, opt_str ''content_type'' wire,
                 opt_str ''not_before'' wire, opt_str ''expires_at'' wire) of
             (Some operation, Some opdigest, Some task, Some reqdigest, Some reqbytes, Some ctype, Some nb, Some ex) \<Rightarrow>
               if \<not> version_members wire payloadType then None
               else (case (wire_effect_mode wire, wire_threshold wire) of
                 (Some mode, Some threshold) \<Rightarrow>
                   Some \<lparr>aps_SchemaVersion = sv, aps_EffectMode = mode, aps_ApprovalThreshold = threshold,
                     aps_NodeID = node, aps_TenantID = tenant, aps_InstanceID = inst, aps_Generation = gen,
                     aps_CapsuleDigest = cap, aps_PolicyDigest = pol, aps_RoutePolicyDigest = route,
                     aps_ConnectorID = connector, aps_OperationID = operation, aps_OperationDigest = opdigest,
                     aps_TaskID = task, aps_RequestDigest = reqdigest, aps_RequestBytes = reqbytes,
                     aps_ContentType = ctype,
                     aps_InfluenceSequence = (case opt_u64 ''influence_sequence'' wire of None \<Rightarrow> 0 | Some n \<Rightarrow> n),
                     aps_InfluenceHash = or_empty (opt_str ''influence_hash'' wire),
                     aps_NotBefore = nb, aps_ExpiresAt = ex\<rparr>
               | _ \<Rightarrow> None)
           | _ \<Rightarrow> None)
      | _ \<Rightarrow> None)"

definition bundle_step_type :: gotype where
  "bundle_step_type = TStruct
     [(''step_id'', TPtr TString), (''connector_id'', TPtr TString), (''operation_id'', TPtr TString),
      (''operation_policy_digest'', TPtr TString), (''task_id'', TPtr TString), (''request_digest'', TPtr TString),
      (''request_bytes'', TPtr TInt64), (''content_type'', TPtr TString)]"

definition ap_wireBundleStatement :: gotype where
  "ap_wireBundleStatement = TStruct
     [(''schema_version'', TPtr TString), (''effect_mode'', TPtr TString), (''approval_threshold'', TPtr TInt64),
      (''node_id'', TPtr TString), (''tenant_id'', TPtr TString), (''instance_id'', TPtr TString),
      (''generation'', TPtr TUint64), (''capsule_digest'', TPtr TString), (''policy_digest'', TPtr TString),
      (''route_policy_digest'', TPtr TString), (''bundle_id'', TPtr TString), (''steps'', TPtr (TSlice bundle_step_type)),
      (''not_before'', TPtr TString), (''expires_at'', TPtr TString)]"

definition bundle_step :: "json \<Rightarrow> BundleStep option" where
  "bundle_step wire =
     (case (opt_str ''step_id'' wire, opt_str ''connector_id'' wire, opt_str ''operation_id'' wire,
            opt_str ''operation_policy_digest'' wire, opt_str ''task_id'' wire, opt_str ''request_digest'' wire,
            opt_i64 ''request_bytes'' wire, opt_str ''content_type'' wire) of
        (Some step, Some connector, Some operation, Some opdigest, Some task, Some reqdigest, Some reqbytes, Some ctype) \<Rightarrow>
          Some \<lparr>bs_StepID = step, bs_ConnectorID = connector, bs_OperationID = operation, bs_OperationDigest = opdigest,
            bs_TaskID = task, bs_RequestDigest = reqdigest, bs_RequestBytes = reqbytes, bs_ContentType = ctype\<rparr>
      | _ \<Rightarrow> None)"

definition wire_steps :: "json \<Rightarrow> json list option" where
  "wire_steps wire = (case member ''steps'' wire of Some (JArr vs) \<Rightarrow> Some vs | _ \<Rightarrow> None)"

definition decodeBundleStatement :: "bytes \<Rightarrow> BundleStatement result" where
  "decodeBundleStatement payload =
     (case DecodeStrictInto payload ap_MaxEnvelopeBytes ap_wireBundleStatement of
        Inl _ \<Rightarrow> ap_invalid ''decode signed bundle statement''
      | Inr wire \<Rightarrow>
        (case (opt_str ''schema_version'' wire, opt_str ''effect_mode'' wire, opt_i64 ''approval_threshold'' wire,
                    opt_str ''node_id'' wire, opt_str ''tenant_id'' wire, opt_str ''instance_id'' wire,
                    opt_u64 ''generation'' wire) of
          (Some sv, Some mode, Some threshold, Some node, Some tenant, Some inst, Some gen) \<Rightarrow>
            (case (opt_str ''capsule_digest'' wire, opt_str ''policy_digest'' wire, opt_str ''route_policy_digest'' wire,
                   opt_str ''bundle_id'' wire, wire_steps wire, opt_str ''not_before'' wire, opt_str ''expires_at'' wire) of
               (Some cap, Some pol, Some route, Some bundle, Some vs, Some nb, Some ex) \<Rightarrow>
                 (case those (map bundle_step vs) of
                    None \<Rightarrow> ap_invalid ''signed bundle step omits a required field''
                  | Some steps \<Rightarrow>
                      Ok \<lparr>bd_SchemaVersion = sv, bd_EffectMode = mode, bd_ApprovalThreshold = threshold,
                        bd_NodeID = node, bd_TenantID = tenant, bd_InstanceID = inst, bd_Generation = gen,
                        bd_CapsuleDigest = cap, bd_PolicyDigest = pol, bd_RoutePolicyDigest = route,
                        bd_BundleID = bundle, bd_Steps = steps, bd_NotBefore = nb, bd_ExpiresAt = ex\<rparr>)
             | _ \<Rightarrow> ap_invalid ''signed bundle statement omits a required field'')
        | _ \<Rightarrow> ap_invalid ''signed bundle statement omits a required field''))"

text \<open>\<open>MarshalStatement\<close>: version 5 prints every member; the other versions leave empty ones out.\<close>

definition unless_empty :: "bytes \<Rightarrow> bytes \<Rightarrow> (bytes \<times> json) list" where
  "unless_empty k s = (if s = [] then [] else [(k, JStr s)])"

definition statement_members :: "bool \<Rightarrow> ActionStatement \<Rightarrow> (bytes \<times> json) list" where
  "statement_members full s =
     [(''schema_version'', JStr (aps_SchemaVersion s))] @
     (if full then [(''effect_mode'', JStr (aps_EffectMode s)), (''approval_threshold'', i64_json (aps_ApprovalThreshold s))]
      else unless_empty ''effect_mode'' (aps_EffectMode s) @
        (if aps_ApprovalThreshold s = 0 then [] else [(''approval_threshold'', i64_json (aps_ApprovalThreshold s))])) @
     [(''node_id'', JStr (aps_NodeID s)), (''tenant_id'', JStr (aps_TenantID s)), (''instance_id'', JStr (aps_InstanceID s)),
      (''generation'', u64_json (aps_Generation s)), (''capsule_digest'', JStr (aps_CapsuleDigest s)),
      (''policy_digest'', JStr (aps_PolicyDigest s)), (''route_policy_digest'', JStr (aps_RoutePolicyDigest s)),
      (''connector_id'', JStr (aps_ConnectorID s)), (''operation_id'', JStr (aps_OperationID s)),
      (''operation_policy_digest'', JStr (aps_OperationDigest s)), (''task_id'', JStr (aps_TaskID s)),
      (''request_digest'', JStr (aps_RequestDigest s)), (''request_bytes'', i64_json (aps_RequestBytes s)),
      (''content_type'', JStr (aps_ContentType s))] @
     (if full then [(''influence_sequence'', u64_json (aps_InfluenceSequence s)), (''influence_hash'', JStr (aps_InfluenceHash s))]
      else (if aps_InfluenceSequence s = 0 then [] else [(''influence_sequence'', u64_json (aps_InfluenceSequence s))]) @
        unless_empty ''influence_hash'' (aps_InfluenceHash s)) @
     [(''not_before'', JStr (aps_NotBefore s)), (''expires_at'', JStr (aps_ExpiresAt s))]"

definition MarshalStatement :: "ActionStatement \<Rightarrow> bytes \<Rightarrow> bytes" where
  "MarshalStatement statement payloadType =
     (if payloadType \<noteq> PayloadTypeV5 then json_print (JObj (statement_members False statement))
      else json_print (JObj (statement_members True statement)))"

section \<open>Verification\<close>

definition supported_type :: "bytes \<Rightarrow> bool" where
  "supported_type pt \<longleftrightarrow> pt = PayloadTypeV1 \<or> pt = PayloadTypeV2 \<or> pt = PayloadTypeV3 \<or> pt = PayloadTypeV4 \<or>
     pt = PayloadTypeV5"

definition single_signer :: "bytes \<Rightarrow> bool" where
  "single_signer pt \<longleftrightarrow> pt = PayloadTypeV1 \<or> pt = PayloadTypeV2"

definition open_permit :: "crypto \<Rightarrow> bytes \<Rightarrow> bytes \<Rightarrow> time \<Rightarrow> duration \<Rightarrow> (permit \<times> int) result" where
  "open_permit c payloadType payload now maxValidity =
     (if payloadType = PayloadTypeV4 then
        and_then (decodeBundleStatement payload) (\<lambda>parsed.
        and_then (validateBundleStatement c parsed now maxValidity) (\<lambda>_.
          Ok (Bundle parsed, bd_ApprovalThreshold parsed)))
      else (case ap_decode payload of
              Inl _ \<Rightarrow> ap_invalid ''decode signed statement''
            | Inr wire \<Rightarrow>
              (case ap_statement wire payloadType of
                 None \<Rightarrow> ap_invalid ''signed statement omits a required field''
               | Some statement \<Rightarrow>
                 and_then (ap_validateStatement c statement payloadType now maxValidity) (\<lambda>_.
                   Ok (Single statement, aps_ApprovalThreshold statement)))))"

text \<open>The part of \<open>verify\<close> after the statement is accepted: every signature must verify, and their number
  must match the version.\<close>

definition check_approvals ::
  "crypto \<Rightarrow> bytes \<Rightarrow> bytes \<Rightarrow> (bytes \<Rightarrow> bytes option) \<Rightarrow> bool \<Rightarrow> permit \<Rightarrow> int \<Rightarrow> ActionVerified result" where
  "check_approvals c rawEnvelope payloadType trusted allowPartial permit approvalThreshold =
     (case VerifyAll c rawEnvelope payloadType trusted of
        Inl _ \<Rightarrow> ap_invalid ''verify every DSSE signature''
      | Inr (_, keyIDs) \<Rightarrow>
        if \<not> list_all routeID keyIDs then ap_invalid ''signature key ID is not a bounded identifier''
        else if single_signer payloadType \<and> length keyIDs \<noteq> 1
        then ap_invalid ''version 1 and 2 permits require exactly one signature''
        else if \<not> single_signer payloadType \<and>
          (int (length keyIDs) > approvalThreshold \<or> \<not> allowPartial \<and> int (length keyIDs) \<noteq> approvalThreshold)
        then ap_invalid ''permit signature count does not match approval threshold''
        else Ok \<lparr>apv_Permit = permit, apv_KeyID = (case keyIDs of [] \<Rightarrow> [] | k # _ \<Rightarrow> k), apv_KeyIDs = keyIDs,
               apv_Complete = (single_signer payloadType \<or> int (length keyIDs) = approvalThreshold),
               apv_EnvelopeDigest = Digest c rawEnvelope, apv_PayloadType = payloadType\<rparr>)"

definition verify ::
  "crypto \<Rightarrow> bytes \<Rightarrow> (bytes \<Rightarrow> bytes option) \<Rightarrow> time \<Rightarrow> duration \<Rightarrow> bool \<Rightarrow> ActionVerified result" where
  "verify c rawEnvelope trusted now maxValidity allowPartial =
     (if length rawEnvelope = 0 \<or> length rawEnvelope > ap_MaxEnvelopeBytes
      then ap_invalid ''envelope is empty or exceeds its limit''
      else if now = zero_time then ap_invalid ''node time is unavailable''
      else if maxValidity \<le> 0 \<or> maxValidity > ap_MaxValidity
      then ap_invalid ''maximum validity must be positive and bounded''
      else (case Parse rawEnvelope of
        Inl _ \<Rightarrow> ap_invalid ''parse canonical permit envelope''
      | Inr envelope \<Rightarrow>
        (case b64_exact (Payload envelope) of
          None \<Rightarrow> ap_invalid ''permit payload is not canonical base64''
        | Some payload \<Rightarrow>
          if \<not> list_all (\<lambda>s. case b64_exact (Sig s) of None \<Rightarrow> False | Some sig \<Rightarrow> length sig = 64) (Signatures envelope)
          then ap_invalid ''permit signature is not canonical base64''
          else if Marshal envelope \<noteq> Ok rawEnvelope then ap_invalid ''permit envelope is not canonical''
          else if \<not> supported_type (PayloadType envelope)
          then ap_invalid ''unsupported permit payload type''
          else if \<not> valid_utf8 payload then ap_invalid ''signed statement is not valid UTF-8''
          else and_then (open_permit c (PayloadType envelope) payload now maxValidity) (\<lambda>(permit, approvalThreshold).
            check_approvals c rawEnvelope (PayloadType envelope) trusted allowPartial permit approvalThreshold))))"

definition ap_Verify :: "crypto \<Rightarrow> bytes \<Rightarrow> (bytes \<Rightarrow> bytes option) \<Rightarrow> time \<Rightarrow> duration \<Rightarrow> ActionVerified result" where
  "ap_Verify c rawEnvelope trusted now maxValidity = verify c rawEnvelope trusted now maxValidity False"

definition VerifyPartial :: "crypto \<Rightarrow> bytes \<Rightarrow> (bytes \<Rightarrow> bytes option) \<Rightarrow> time \<Rightarrow> duration \<Rightarrow> ActionVerified result" where
  "VerifyPartial c rawEnvelope trusted now maxValidity = verify c rawEnvelope trusted now maxValidity True"

section \<open>The HTTP header\<close>

definition ap_EncodeHeader :: "bytes \<Rightarrow> bytes result" where
  "ap_EncodeHeader raw =
     (if length raw = 0 \<or> length raw > ap_MaxEnvelopeBytes then ap_invalid ''header envelope is empty or exceeds its limit''
      else Ok (b64_encode RawURL raw))"

definition ap_DecodeHeader :: "bytes \<Rightarrow> bytes result" where
  "ap_DecodeHeader value =
     (if value = [] \<or> length value > b64_encoded_len RawURL ap_MaxEnvelopeBytes
      then ap_invalid ''header is empty or exceeds the encoded limit''
      else (case b64_decode RawURL value of
              None \<Rightarrow> ap_invalid ''header is not one canonical base64url value''
            | Some raw \<Rightarrow>
                if length raw = 0 \<or> length raw > ap_MaxEnvelopeBytes \<or> b64_encode RawURL raw \<noteq> value
                then ap_invalid ''header is not one canonical base64url value''
                else Ok raw))"

section \<open>The contracts\<close>

lemma ap_MaxValidity_bound: "0 < ap_MaxValidity" "ap_MaxValidity < max_int64"
  by (simp_all add: ap_MaxValidity_def hour_def minute_def nsec_def max_int64_def)

lemma validateValidity_iff:
  assumes "0 < m" "m < max_int64"
  shows "validateValidity a b now m = Ok () \<longleftrightarrow> is_ok (canonicalTime a) \<and> is_ok (canonicalTime b) \<and>
     instant a \<le> now \<and> now < instant b \<and> instant b - instant a \<le> m"
proof -
  have sub: "time_sub x y > m \<longleftrightarrow> x - y > m" for x y
    using time_sub_le_iff [of m x y] assms by force
  show ?thesis
    unfolding validateValidity_def sub by (auto simp: is_ok_iff instant_def split: sum.splits if_splits)
qed

fun permit_notBefore :: "permit \<Rightarrow> bytes" where
  "permit_notBefore (Single s) = aps_NotBefore s"
| "permit_notBefore (Bundle b) = bd_NotBefore b"

fun permit_expiresAt :: "permit \<Rightarrow> bytes" where
  "permit_expiresAt (Single s) = aps_ExpiresAt s"
| "permit_expiresAt (Bundle b) = bd_ExpiresAt b"

fun permit_threshold :: "permit \<Rightarrow> int" where
  "permit_threshold (Single s) = aps_ApprovalThreshold s"
| "permit_threshold (Bundle b) = bd_ApprovalThreshold b"

fun validate_permit :: "crypto \<Rightarrow> bytes \<Rightarrow> permit \<Rightarrow> time \<Rightarrow> duration \<Rightarrow> unit result" where
  "validate_permit c pt (Single s) now m = ap_validateStatement c s pt now m"
| "validate_permit c pt (Bundle b) now m = validateBundleStatement c b now m"

definition ap_accepts :: "crypto \<Rightarrow> bytes \<Rightarrow> permit \<Rightarrow> time \<Rightarrow> duration \<Rightarrow> bool" where
  "ap_accepts c pt p now m \<longleftrightarrow> 0 < m \<and> m \<le> ap_MaxValidity \<and> validate_permit c pt p now m = Ok ()"

lemma validate_permit_validity:
  "validate_permit c pt p now m = Ok () \<Longrightarrow> validateValidity (permit_notBefore p) (permit_expiresAt p) now m = Ok ()"
  by (cases p) (auto simp: ap_validateStatement_def validateBundleStatement_def and_then_Inr_iff split: if_splits)

lemma validate_permit_retime:
  "validate_permit c pt p now m = Ok () \<Longrightarrow>
   validateValidity (permit_notBefore p) (permit_expiresAt p) now' m' = Ok () \<Longrightarrow> validate_permit c pt p now' m' = Ok ()"
  by (cases p) (auto simp: ap_validateStatement_def validateBundleStatement_def and_then_Inr_iff split: if_splits)

interpretation action_validity: validity_contract "ap_accepts c pt" "\<lambda>p. instant (permit_notBefore p)"
  "\<lambda>p. instant (permit_expiresAt p)" ap_MaxValidity for c pt
proof unfold_locales
  fix p now m now' m'
  have lt: "x < max_int64" if "x \<le> ap_MaxValidity" for x using that ap_MaxValidity_bound by linarith
  {
    assume a: "ap_accepts c pt p now m"
    then have m: "0 < m" "m \<le> ap_MaxValidity" by (auto simp: ap_accepts_def)
    from a have v: "validateValidity (permit_notBefore p) (permit_expiresAt p) now m = Ok ()"
      using validate_permit_validity by (auto simp: ap_accepts_def)
    note w = v [unfolded validateValidity_iff [OF m(1) lt [OF m(2)]]]
    from w show "instant (permit_notBefore p) \<le> now \<and> now < instant (permit_expiresAt p)" by blast
    from w m show "instant (permit_expiresAt p) - instant (permit_notBefore p) \<le> m \<and> m \<le> ap_MaxValidity" by blast
    assume b: "instant (permit_notBefore p) \<le> now'" "now' < instant (permit_expiresAt p)"
      "instant (permit_expiresAt p) - instant (permit_notBefore p) \<le> m'" "m' \<le> ap_MaxValidity"
    then have m': "0 < m'" by linarith
    have "validateValidity (permit_notBefore p) (permit_expiresAt p) now' m' = Ok ()"
      unfolding validateValidity_iff [OF m' lt [OF b(4)]] using w b by blast
    then show "ap_accepts c pt p now' m'"
      using a b m' validate_permit_retime by (auto simp: ap_accepts_def)
  }
qed

interpretation action_header: canonical_codec ap_EncodeHeader ap_DecodeHeader
proof unfold_locales
  fix raw h
  show "ap_EncodeHeader raw = Ok h \<Longrightarrow> ap_DecodeHeader h = Ok raw"
    using b64_encode_nonempty [of raw RawURL] b64_encoded_len_RawURL_mono [of "length raw" ap_MaxEnvelopeBytes]
    by (auto simp: ap_EncodeHeader_def ap_DecodeHeader_def length_b64_encode split: if_splits)
  show "ap_DecodeHeader h = Ok raw \<Longrightarrow> ap_EncodeHeader raw = Ok h"
    by (auto simp: ap_EncodeHeader_def ap_DecodeHeader_def split: if_splits option.splits)
qed

section \<open>What verification establishes\<close>

lemma open_permit_accepts:
  assumes "open_permit c pt p now m = Ok (permit, t)" "0 < m" "m \<le> ap_MaxValidity"
  shows "ap_accepts c pt permit now m" "t = permit_threshold permit"
  using assms
  by (auto simp: open_permit_def ap_accepts_def and_then_Inr_iff split: if_splits sum.splits option.splits)

definition signers_needed :: "bytes \<Rightarrow> permit \<Rightarrow> int" where
  "signers_needed pt p = (if single_signer pt then 1 else permit_threshold p)"

text \<open>The envelope \<open>raw\<close> is canonical, of a supported type, opens to the permit, and all its signatures verify.\<close>

definition ap_opened ::
  "crypto \<Rightarrow> bytes \<Rightarrow> (bytes \<Rightarrow> bytes option) \<Rightarrow> time \<Rightarrow> duration \<Rightarrow> Envelope \<Rightarrow> bytes \<Rightarrow> permit \<Rightarrow> bytes list \<Rightarrow> bool" where
  "ap_opened c raw trusted now m e p permit ks \<longleftrightarrow> raw \<noteq> [] \<and> length raw \<le> ap_MaxEnvelopeBytes \<and> now \<noteq> zero_time \<and>
     0 < m \<and> m \<le> ap_MaxValidity \<and> Parse raw = Ok e \<and> Marshal e = Ok raw \<and> Payload e = b64_encode Std p \<and> valid_utf8 p \<and>
     supported_type (PayloadType e) \<and>
     open_permit c (PayloadType e) p now m = Ok (permit, permit_threshold permit) \<and>
     VerifyAll c raw (PayloadType e) trusted = Ok (p, ks) \<and> list_all routeID ks"

definition ap_result :: "crypto \<Rightarrow> bytes \<Rightarrow> Envelope \<Rightarrow> permit \<Rightarrow> bytes list \<Rightarrow> ActionVerified" where
  "ap_result c raw e permit ks =
     \<lparr>apv_Permit = permit, apv_KeyID = (case ks of [] \<Rightarrow> [] | k # _ \<Rightarrow> k), apv_KeyIDs = ks,
      apv_Complete = (int (length ks) = signers_needed (PayloadType e) permit),
      apv_EnvelopeDigest = Digest c raw, apv_PayloadType = PayloadType e\<rparr>"

lemma ap_signatures_canonical:
  assumes "VerifyAll c raw pt trusted = Ok (p, ks)" "Parse raw = Ok e"
  shows "list_all (\<lambda>s. case b64_exact (Sig s) of None \<Rightarrow> False | Some sig \<Rightarrow> length sig = 64) (Signatures e)"
  using assms unfolding VerifyAll_Ok_iff by (fastforce simp: list_all_iff authentic_def)

lemma verify_iff:
  "verify c raw trusted now m partial = Ok r \<longleftrightarrow>
     (\<exists>e p permit ks. ap_opened c raw trusted now m e p permit ks \<and> r = ap_result c raw e permit ks \<and>
        int (length ks) \<le> signers_needed (PayloadType e) permit \<and>
        (int (length ks) = signers_needed (PayloadType e) permit \<or>
         partial \<and> \<not> single_signer (PayloadType e)))"
  (is "?L = ?R")
proof
  assume L: ?L
  then have g: "raw \<noteq> []" "length raw \<le> ap_MaxEnvelopeBytes" "now \<noteq> zero_time" "0 < m" "m \<le> ap_MaxValidity"
    by (auto simp: verify_def split: if_splits)
  from L obtain e p permit t where a: "Parse raw = Ok e" "Payload e = b64_encode Std p" "Marshal e = Ok raw"
    "supported_type (PayloadType e)" "valid_utf8 p" "open_permit c (PayloadType e) p now m = Ok (permit, t)"
    and b: "check_approvals c raw (PayloadType e) trusted partial permit t = Ok r"
    unfolding verify_def by (auto simp: and_then_Inr_iff split: if_splits sum.splits option.splits)
  from b obtain q ks where "VerifyAll c raw (PayloadType e) trusted = Ok (q, ks)"
    "list_all routeID ks" "single_signer (PayloadType e) \<longrightarrow> length ks = 1"
    "\<not> single_signer (PayloadType e) \<longrightarrow> int (length ks) \<le> t \<and> (partial \<or> int (length ks) = t)"
    and r: "r = \<lparr>apv_Permit = permit, apv_KeyID = (case ks of [] \<Rightarrow> [] | k # _ \<Rightarrow> k), apv_KeyIDs = ks,
       apv_Complete = (single_signer (PayloadType e) \<or> int (length ks) = t),
       apv_EnvelopeDigest = Digest c raw, apv_PayloadType = PayloadType e\<rparr>"
    by (auto simp: check_approvals_def split: sum.splits if_splits)
  note h = a this(1-4)
  have q: "q = p" using h(1,2,7) unfolding VerifyAll_Ok_iff by auto
  note o = open_permit_accepts(2) [OF h(6) g(4,5)]
  have "ap_opened c raw trusted now m e p permit ks"
    unfolding ap_opened_def using g h q o by simp
  moreover have "r = ap_result c raw e permit ks"
    using r h(9) o by (auto simp: ap_result_def signers_needed_def)
  ultimately show ?R using h(9,10) o
    by (intro exI [of _ e] exI [of _ p] exI [of _ permit] exI [of _ ks]) (auto simp: signers_needed_def)
next
  assume ?R
  then obtain e p permit ks where o: "ap_opened c raw trusted now m e p permit ks" and r: "r = ap_result c raw e permit ks"
    and n: "int (length ks) \<le> signers_needed (PayloadType e) permit"
      "int (length ks) = signers_needed (PayloadType e) permit \<or> partial \<and> \<not> single_signer (PayloadType e)"
    by blast
  note o = o [unfolded ap_opened_def]
  have "list_all (\<lambda>s. case b64_exact (Sig s) of None \<Rightarrow> False | Some sig \<Rightarrow> length sig = 64) (Signatures e)"
    using o ap_signatures_canonical by blast
  then show ?L
    unfolding verify_def using o n
    by (auto simp: r ap_result_def signers_needed_def check_approvals_def split: if_splits)
qed

section \<open>Bundles\<close>

lemma routeID_nonempty: "routeID s \<Longrightarrow> s \<noteq> []"
  by (auto simp: routeID_def identifier_pattern_def)

lemma bundle_steps_ok_sound:
  assumes "bundle_steps_ok c prev seen steps = Ok ()"
  shows "sorted_wrt (<) (map bs_StepID steps) \<and> distinct (map bs_TaskID steps) \<and> seen \<inter> bs_TaskID ` set steps = {} \<and>
    (\<forall>s \<in> set steps. (prev \<noteq> [] \<longrightarrow> prev < bs_StepID s) \<and> routeID (bs_TaskID s) \<and>
       validateRequestBinding c (bs_OperationDigest s) (bs_RequestDigest s) (bs_RequestBytes s) (bs_ContentType s) = Ok ())"
  using assms
proof (induction steps arbitrary: prev seen)
  case (Cons s steps)
  from Cons.prems have h: "routeID (bs_StepID s)" "routeID (bs_TaskID s)" "prev \<noteq> [] \<longrightarrow> prev < bs_StepID s" "bs_TaskID s \<notin> seen"
    "validateRequestBinding c (bs_OperationDigest s) (bs_RequestDigest s) (bs_RequestBytes s) (bs_ContentType s) = Ok ()"
    and r: "bundle_steps_ok c (bs_StepID s) (insert (bs_TaskID s) seen) steps = Ok ()"
    by (auto simp: not_le split: if_splits sum.splits)
  from Cons.IH [OF r] h routeID_nonempty [OF h(1)] show ?case by (auto intro: less_trans)
qed simp

section \<open>Statements survive the wire\<close>

lemma payload_types_distinct [simp]:
  "PayloadTypeV1 \<noteq> PayloadTypeV2" "PayloadTypeV1 \<noteq> PayloadTypeV3" "PayloadTypeV1 \<noteq> PayloadTypeV4" "PayloadTypeV1 \<noteq> PayloadTypeV5"
  "PayloadTypeV2 \<noteq> PayloadTypeV1" "PayloadTypeV2 \<noteq> PayloadTypeV3" "PayloadTypeV2 \<noteq> PayloadTypeV4" "PayloadTypeV2 \<noteq> PayloadTypeV5"
  "PayloadTypeV3 \<noteq> PayloadTypeV1" "PayloadTypeV3 \<noteq> PayloadTypeV2" "PayloadTypeV3 \<noteq> PayloadTypeV4" "PayloadTypeV3 \<noteq> PayloadTypeV5"
  "PayloadTypeV4 \<noteq> PayloadTypeV1" "PayloadTypeV4 \<noteq> PayloadTypeV2" "PayloadTypeV4 \<noteq> PayloadTypeV3" "PayloadTypeV4 \<noteq> PayloadTypeV5"
  "PayloadTypeV5 \<noteq> PayloadTypeV1" "PayloadTypeV5 \<noteq> PayloadTypeV2" "PayloadTypeV5 \<noteq> PayloadTypeV3" "PayloadTypeV5 \<noteq> PayloadTypeV4"
  by (simp_all add: PayloadTypeV1_def PayloadTypeV2_def PayloadTypeV3_def PayloadTypeV4_def PayloadTypeV5_def)

text \<open>The fields that a version does not carry have their zero value.\<close>

definition unused_zero :: "ActionStatement \<Rightarrow> bytes \<Rightarrow> bool" where
  "unused_zero s pt \<longleftrightarrow> (pt = PayloadTypeV1 \<longrightarrow> aps_ApprovalThreshold s = 0) \<and>
     (pt \<noteq> PayloadTypeV5 \<longrightarrow> aps_InfluenceSequence s = 0 \<and> aps_InfluenceHash s = [])"

definition wire_of :: "ActionStatement \<Rightarrow> bytes \<Rightarrow> json" where
  "wire_of s pt = JObj (statement_members (pt = PayloadTypeV5) s)"

lemma MarshalStatement_wire: "MarshalStatement s pt = json_print (wire_of s pt)"
  by (simp add: MarshalStatement_def wire_of_def)

lemma ap_tp: "ap_digest = tp_digest" "ap_publicIdentity = tp_publicIdentity" "routeID = tp_identifier"
  by (intro ext, simp add: ap_digest_def tp_digest_def ap_publicIdentity_def tp_publicIdentity_def routeID_def tp_identifier_def)+

lemma ap_valid_fields:
  assumes "ap_accepts c pt (Single s) now m"
  shows "version_ok s pt = Ok ()" "tp_publicIdentity (aps_NodeID s) 128" "tp_publicIdentity (aps_TenantID s) 128"
    "tp_publicIdentity (aps_InstanceID s) 256" "tp_digest (aps_CapsuleDigest s)" "tp_digest (aps_PolicyDigest s)"
    "tp_digest (aps_RoutePolicyDigest s)" "tp_identifier (aps_ConnectorID s)" "tp_identifier (aps_OperationID s)"
    "tp_identifier (aps_TaskID s)" "tp_digest (aps_OperationDigest s)" "tp_digest (aps_RequestDigest s)"
    "in_int64 (aps_RequestBytes s)" "aps_ContentType s = [] \<or> aps_ContentType s = ''application/json''"
    "\<exists>t. canonicalTime (aps_NotBefore s) = Ok t" "\<exists>t. canonicalTime (aps_ExpiresAt s) = Ok t"
proof -
  have v: "ap_validateStatement c s pt now m = Ok ()" using assms by (simp add: ap_accepts_def)
  then have r: "validateRuntimeBinding (aps_NodeID s) (aps_TenantID s) (aps_InstanceID s) (aps_Generation s) (aps_CapsuleDigest s)
      (aps_PolicyDigest s) (aps_RoutePolicyDigest s) = Ok ()"
    and q: "validateRequestBinding c (aps_OperationDigest s) (aps_RequestDigest s) (aps_RequestBytes s) (aps_ContentType s) = Ok ()"
    and w: "validateValidity (aps_NotBefore s) (aps_ExpiresAt s) now m = Ok ()"
    and ids: "version_ok s pt = Ok ()" "routeID (aps_ConnectorID s)" "routeID (aps_OperationID s)" "routeID (aps_TaskID s)"
    by (auto simp: ap_validateStatement_def and_then_Inr_iff split: if_splits)
  from ids show "version_ok s pt = Ok ()" "tp_identifier (aps_ConnectorID s)" "tp_identifier (aps_OperationID s)"
    "tp_identifier (aps_TaskID s)" by (simp_all add: ap_tp)
  from r show "tp_publicIdentity (aps_NodeID s) 128" "tp_publicIdentity (aps_TenantID s) 128"
    "tp_publicIdentity (aps_InstanceID s) 256" "tp_digest (aps_CapsuleDigest s)" "tp_digest (aps_PolicyDigest s)"
    "tp_digest (aps_RoutePolicyDigest s)"
    by (auto simp: validateRuntimeBinding_def ap_tp split: if_splits)
  from q show "tp_digest (aps_OperationDigest s)" "tp_digest (aps_RequestDigest s)" "in_int64 (aps_RequestBytes s)"
    "aps_ContentType s = [] \<or> aps_ContentType s = ''application/json''"
    by (auto simp: validateRequestBinding_def ap_tp in_int64_def min_int64_def max_int64_def ap_MaxRequestBytes_def split: if_splits)
  from w show "\<exists>t. canonicalTime (aps_NotBefore s) = Ok t" "\<exists>t. canonicalTime (aps_ExpiresAt s) = Ok t"
    by (auto simp: validateValidity_def split: sum.splits if_splits)
qed

lemma version_ok_fields:
  assumes "version_ok s pt = Ok ()"
  shows "pt = PayloadTypeV1 \<and> aps_SchemaVersion s = ap_SchemaV1 \<and> aps_EffectMode s = [] \<or>
    pt = PayloadTypeV2 \<and> aps_SchemaVersion s = ap_SchemaV2 \<and> aps_EffectMode s = EffectModeAuthorized \<and> aps_ApprovalThreshold s = 0 \<or>
    pt = PayloadTypeV3 \<and> aps_SchemaVersion s = ap_SchemaV3 \<and> aps_EffectMode s = EffectModeAuthorized \<and>
      2 \<le> aps_ApprovalThreshold s \<and> aps_ApprovalThreshold s \<le> 8 \<or>
    pt = PayloadTypeV5 \<and> aps_SchemaVersion s = ap_SchemaV5 \<and> aps_EffectMode s = EffectModeAuthorized \<and>
      1 \<le> aps_ApprovalThreshold s \<and> aps_ApprovalThreshold s \<le> 8 \<and> tp_digest (aps_InfluenceHash s)"
  using assms by (auto simp: version_ok_def ap_tp split: if_splits)

lemma ap_statement_roundtrip:
  assumes "version_ok s pt = Ok ()" "unused_zero s pt" "in_int64 (aps_RequestBytes s)"
  shows "ap_statement (wire_of s pt) pt = Some s"
proof -
  note v = version_ok_fields [OF assms(1)]
  have t: "in_int64 (aps_ApprovalThreshold s)"
    using v assms(2) by (auto simp: unused_zero_def in_int64_def min_int64_def max_int64_def)
  have e: "EffectModeAuthorized \<noteq> []" by (simp add: EffectModeAuthorized_def)
  from v show ?thesis
    by (elim disjE conjE)
      (use assms(2,3) t e in \<open>simp add: wire_of_def statement_members_def unless_empty_def ap_statement_def opt_str_def opt_u64_def
        opt_i64_def member_JObj u64_json_def i64_json_def version_members_def wire_effect_mode_def wire_threshold_def
        or_empty_def unused_zero_def Let_def\<close>)+
qed

lemma conforms_wire_of: "in_int64 (aps_RequestBytes s) \<Longrightarrow> conforms ap_wireStatement 0 (wire_of s pt)"
  by (simp add: ap_wireStatement_def wire_of_def statement_members_def unless_empty_def u64_json_def i64_json_def)

lemma ap_short_fields:
  assumes "ap_accepts c pt (Single s) now m" "unused_zero s pt"
  shows "length (aps_SchemaVersion s) \<le> 24 \<and> valid_utf8 (aps_SchemaVersion s)"
    "length (aps_EffectMode s) \<le> 10 \<and> valid_utf8 (aps_EffectMode s)"
    "length (aps_ContentType s) \<le> 16 \<and> valid_utf8 (aps_ContentType s)"
    "aps_InfluenceHash s = [] \<or> tp_digest (aps_InfluenceHash s)" "in_int64 (aps_ApprovalThreshold s)"
proof -
  note v = version_ok_fields [OF ap_valid_fields(1) [OF assms(1)]]
  show "length (aps_SchemaVersion s) \<le> 24 \<and> valid_utf8 (aps_SchemaVersion s)"
    using v by (auto simp: ap_SchemaV1_def ap_SchemaV2_def ap_SchemaV3_def ap_SchemaV5_def valid_utf8_ascii)
  show "length (aps_EffectMode s) \<le> 10 \<and> valid_utf8 (aps_EffectMode s)"
    using v by (auto simp: EffectModeAuthorized_def valid_utf8_ascii)
  show "length (aps_ContentType s) \<le> 16 \<and> valid_utf8 (aps_ContentType s)"
    using ap_valid_fields(14) [OF assms(1)] by (auto simp: valid_utf8_ascii)
  show "aps_InfluenceHash s = [] \<or> tp_digest (aps_InfluenceHash s)" "in_int64 (aps_ApprovalThreshold s)"
    using v assms(2) by (auto simp: unused_zero_def in_int64_def min_int64_def max_int64_def)
qed

lemma wf_wire_of:
  assumes "ap_accepts c pt (Single s) now m" "unused_zero s pt"
  shows "wf_json (wire_of s pt)"
proof -
  note v = ap_valid_fields [OF assms(1)] and f = ap_short_fields [OF assms]
  obtain t t' where t: "canonicalTime (aps_NotBefore s) = Ok t" "canonicalTime (aps_ExpiresAt s) = Ok t'" using v(15,16) by blast
  have "valid_utf8 (aps_InfluenceHash s)" using f(4) tp_digest_props by auto
  then show ?thesis
    using v f canonicalTime_utf8 [OF t(1)] canonicalTime_utf8 [OF t(2)]
    by (auto simp: wire_of_def statement_members_def unless_empty_def valid_utf8_ascii tp_publicIdentity_def
        conjunct2 [OF tp_digest_props] conjunct2 [OF tp_identifier_props])
qed

lemma quote_digest: "tp_digest s \<Longrightarrow> length (json_quote s) = 73"
proof -
  assume a: "tp_digest s"
  then obtain h where h: "s = ''sha256:'' @ h" "list_all is_lower_hex h" by (auto simp: tp_digest_iff prefixed_hex_def)
  have "\<forall>c \<in> set ''sha256:''. json_plain c" by (simp add: json_plain_def)
  moreover have "\<forall>c \<in> set h. json_plain c" using h(2) lower_hex_plain by (auto simp: list_all_iff)
  ultimately have "\<forall>c \<in> set s. json_plain c" unfolding h(1) set_append by blast
  then show ?thesis using a by (simp add: json_quote_plain tp_digest_def)
qed

lemma quote_identifier: "tp_identifier s \<Longrightarrow> length (json_quote s) \<le> 130"
  using json_quote_plain [of s] identifier_plain [of 127 s] tp_identifier_props [of s]
  by (auto simp: tp_identifier_def)

lemma quote_hash: "s = [] \<or> tp_digest s \<Longrightarrow> length (json_quote s) \<le> 73"
  using quote_digest [of s] by (auto simp: json_quote_def)

lemma wire_of_size:
  assumes "ap_accepts c pt (Single s) now m" "unused_zero s pt"
  shows "length (json_print (wire_of s pt)) \<le> 7000"
proof -
  note v = ap_valid_fields [OF assms(1)] and f = ap_short_fields [OF assms]
  obtain t t' where t: "canonicalTime (aps_NotBefore s) = Ok t" "canonicalTime (aps_ExpiresAt s) = Ok t'" using v(15,16) by blast
  have "member_sizes (members_of (wire_of s pt)) \<le> 6990"
    using json_quote_bound [OF conjunct1 [OF tp_publicIdentity_props [OF v(2)]]]
      json_quote_bound [OF conjunct1 [OF tp_publicIdentity_props [OF v(3)]]]
      json_quote_bound [OF conjunct1 [OF tp_publicIdentity_props [OF v(4)]]]
      quote_digest [OF v(5)] quote_digest [OF v(6)] quote_digest [OF v(7)] quote_identifier [OF v(8)]
      quote_identifier [OF v(9)] quote_identifier [OF v(10)] quote_digest [OF v(11)] quote_digest [OF v(12)]
      quote_hash [OF f(4)] printed_i64 [OF v(13)] printed_i64 [OF f(5)] printed_u64 [of "aps_Generation s"]
      printed_u64 [of "aps_InfluenceSequence s"] json_quote_bound [OF conjunct1 [OF f(1)]]
      json_quote_bound [OF conjunct1 [OF f(2)]] json_quote_bound [OF conjunct1 [OF f(3)]]
      json_quote_bound [of "aps_NotBefore s" 20] canonicalTime_length [OF t(1)]
      json_quote_bound [of "aps_ExpiresAt s" 20] canonicalTime_length [OF t(2)]
    by (simp add: wire_of_def statement_members_def unless_empty_def members_of_def member_sizes_def)
  moreover have "length (json_print (wire_of s pt)) \<le> member_sizes (members_of (wire_of s pt)) + 2"
    unfolding wire_of_def members_of_def json.case by (rule printed_object)
  ultimately show ?thesis by linarith
qed

lemma payload_type_good:
  assumes "supported_type pt"
  shows "\<not> bad_name pt" "valid_utf8 pt" "length pt \<le> 64"
proof -
  have plain: "\<forall>c \<in> set pt. 32 < byte c \<and> byte c < 127" "pt \<noteq> []" and len: "length pt \<le> 64"
    using assms by (auto simp: supported_type_def PayloadTypeV1_def PayloadTypeV2_def PayloadTypeV3_def PayloadTypeV4_def PayloadTypeV5_def)
  then show "\<not> bad_name pt" by (intro bad_name_plain) auto
  show "valid_utf8 pt" using plain by (intro valid_utf8_ascii) force
  show "length pt \<le> 64" by (rule len)
qed

lemma ap_payload_opened:
  assumes "crypto_ok c" "supported_type pt" "open_permit c pt p now m = Ok (permit, t)" "0 < m" "m \<le> ap_MaxValidity"
    "p \<noteq> []" "valid_utf8 p" "length p \<le> 7000" "routeID k" "length key = 64" "now \<noteq> zero_time"
    "trusted k = Some (ed_public c key)"
  obtains e raw where "Sign c pt p k key = Ok e" "Marshal e = Ok raw" "PayloadType e = pt"
    "ap_opened c raw trusted now m e p permit [k]"
proof -
  note pt = payload_type_good [OF assms(2)]
  have k: "\<not> bad_name k" "valid_utf8 k" "length k \<le> 128"
    using assms(9) identifier_good_name tp_identifier_props by (auto simp: routeID_def tp_identifier_def)
  obtain e where e: "Sign c pt p k key = Ok e"
    using pt k assms(8,10) by (simp add: Sign_def MaxPayloadBytes_def)
  note se = Sign_Ok [OF e]
  obtain raw where raw: "Marshal e = Ok raw" "Parse raw = Ok e"
    by (rule Sign_Marshal_Parse [OF assms(1) e assms(6) pt(2) k(2)])
  have r: "raw = json_print (envelope_json e)" using raw(1) by (auto simp: Marshal_def and_then_Inr_iff)
  have "length raw \<le> b64_encoded_len Std (length p) + 2000"
    unfolding r using se pt(3) k(3) ed_sign_length [OF assms(1,10)]
    by (intro printed_envelope) (auto simp: length_b64_encode b64_encoded_len_def)
  also have "b64_encoded_len Std (length p) \<le> b64_encoded_len Std 7000" by (rule b64_encoded_len_mono [OF assms(8)])
  finally have size: "length raw \<le> ap_MaxEnvelopeBytes" by (simp add: b64_encoded_len_def ap_MaxEnvelopeBytes_def)
  have "authentic c trusted (PAE pt p) (hd (Signatures e))"
    using assms(12) se by (intro crypto_ok_sign [OF assms(1,10)]) simp_all
  then have "VerifyAll c raw pt trusted = Ok (p, [k])"
    using raw(2) se unfolding VerifyAll_Ok_iff by auto
  moreover have "raw \<noteq> []" using raw(2) by (auto simp: Parse_Ok_iff)
  ultimately have "ap_opened c raw trusted now m e p permit [k]"
    unfolding ap_opened_def
    using size assms(2-5,7,9,11) raw se open_permit_accepts(2) [OF assms(3-5)] by simp
  with that [OF e raw(1) se(1)] show ?thesis by blast
qed

lemma ap_signed_opened:
  assumes "crypto_ok c" "ap_accepts c pt (Single s) now m" "unused_zero s pt" "routeID k" "length key = 64" "now \<noteq> zero_time"
    "trusted k = Some (ed_public c key)"
  obtains e raw where "Sign c pt (MarshalStatement s pt) k key = Ok e" "Marshal e = Ok raw" "PayloadType e = pt"
    "ap_opened c raw trusted now m e (MarshalStatement s pt) (Single s) [k]"
proof -
  let ?p = "MarshalStatement s pt"
  note v = ap_valid_fields [OF assms(2)] and wf = wf_wire_of [OF assms(2,3)]
  have st: "supported_type pt" and v4: "pt \<noteq> PayloadTypeV4" using version_ok_fields [OF v(1)] by (auto simp: supported_type_def)
  have p: "?p \<noteq> []" "valid_utf8 ?p" "length ?p \<le> 7000"
    unfolding MarshalStatement_wire
    using json_print_hd [OF wf] json_print_utf8(1) [OF wf] wire_of_size [OF assms(2,3)] by simp_all
  have "ap_decode ?p = Ok (wire_of s pt)"
    unfolding ap_decode_def MarshalStatement_wire
    by (rule DecodeStrictInto_print [OF wf _ conforms_wire_of [OF v(13)]])
      (use p(3) in \<open>simp add: ap_MaxEnvelopeBytes_def MarshalStatement_wire\<close>)
  then have op: "open_permit c pt ?p now m = Ok (Single s, aps_ApprovalThreshold s)"
    using assms(2) v4 ap_statement_roundtrip [OF v(1) assms(3) v(13)] by (simp add: open_permit_def ap_accepts_def)
  have m: "0 < m" "m \<le> ap_MaxValidity" using assms(2) by (simp_all add: ap_accepts_def)
  show ?thesis
    by (rule ap_payload_opened [OF assms(1) st op m p assms(4-6), where trusted = trusted, OF assms(7)]) (rule that)
qed

section \<open>Bundles survive the wire\<close>

text \<open>\<open>json.Marshal\<close> of \<open>BundleStep\<close> and \<open>BundleStatement\<close>, from their field tags.\<close>

definition step_json :: "BundleStep \<Rightarrow> json" where
  "step_json s = JObj
     [(''step_id'', JStr (bs_StepID s)), (''connector_id'', JStr (bs_ConnectorID s)), (''operation_id'', JStr (bs_OperationID s)),
      (''operation_policy_digest'', JStr (bs_OperationDigest s)), (''task_id'', JStr (bs_TaskID s)),
      (''request_digest'', JStr (bs_RequestDigest s)), (''request_bytes'', i64_json (bs_RequestBytes s)),
      (''content_type'', JStr (bs_ContentType s))]"

definition bundle_json :: "BundleStatement \<Rightarrow> json" where
  "bundle_json b = JObj
     [(''schema_version'', JStr (bd_SchemaVersion b)), (''effect_mode'', JStr (bd_EffectMode b)),
      (''approval_threshold'', i64_json (bd_ApprovalThreshold b)), (''node_id'', JStr (bd_NodeID b)),
      (''tenant_id'', JStr (bd_TenantID b)), (''instance_id'', JStr (bd_InstanceID b)), (''generation'', u64_json (bd_Generation b)),
      (''capsule_digest'', JStr (bd_CapsuleDigest b)), (''policy_digest'', JStr (bd_PolicyDigest b)),
      (''route_policy_digest'', JStr (bd_RoutePolicyDigest b)), (''bundle_id'', JStr (bd_BundleID b)),
      (''steps'', JArr (map step_json (bd_Steps b))), (''not_before'', JStr (bd_NotBefore b)), (''expires_at'', JStr (bd_ExpiresAt b))]"

lemma bundle_step_of_json: "in_int64 (bs_RequestBytes s) \<Longrightarrow> bundle_step (step_json s) = Some s"
  by (simp add: bundle_step_def step_json_def opt_str_def opt_i64_def member_JObj i64_json_def)

lemma bundle_steps_of_json:
  "\<forall>s \<in> set steps. in_int64 (bs_RequestBytes s) \<Longrightarrow> those (map bundle_step (map step_json steps)) = Some steps"
  by (induction steps) (auto simp: bundle_step_of_json)

lemma decode_bundle_json:
  assumes "wf_json (bundle_json b)" "length (json_print (bundle_json b)) \<le> ap_MaxEnvelopeBytes"
    "in_int64 (bd_ApprovalThreshold b)" "\<forall>s \<in> set (bd_Steps b). in_int64 (bs_RequestBytes s)"
  shows "decodeBundleStatement (json_print (bundle_json b)) = Ok b"
proof -
  have d: "DecodeStrictInto (json_print (bundle_json b)) ap_MaxEnvelopeBytes ap_wireBundleStatement = Ok (bundle_json b)"
    by (rule DecodeStrictInto_print [OF assms(1,2)])
      (use assms(3,4) in \<open>auto simp: ap_wireBundleStatement_def bundle_step_type_def bundle_json_def step_json_def u64_json_def
        i64_json_def\<close>)
  show ?thesis
    unfolding decodeBundleStatement_def d
    using bundle_steps_of_json [OF assms(4)] assms(3)
    by (simp add: wire_steps_def bundle_json_def opt_str_def opt_i64_def opt_u64_def member_JObj u64_json_def i64_json_def)
qed

lemma version_members_None: "\<not> version_members wire pt \<Longrightarrow> ap_statement wire pt = None"
  by (simp add: ap_statement_def split: option.split)

lemma ap_Verify_complete_iff:
  "ap_Verify c raw trusted now m = Ok r \<longleftrightarrow> VerifyPartial c raw trusted now m = Ok r \<and> apv_Complete r"
proof
  assume "ap_Verify c raw trusted now m = Ok r"
  then show "VerifyPartial c raw trusted now m = Ok r \<and> apv_Complete r"
    unfolding ap_Verify_def VerifyPartial_def verify_iff by (auto simp: ap_result_def)
next
  assume "VerifyPartial c raw trusted now m = Ok r \<and> apv_Complete r"
  then show "ap_Verify c raw trusted now m = Ok r"
    unfolding ap_Verify_def VerifyPartial_def verify_iff
    by (elim conjE exE) (intro exI conjI, assumption+, auto simp: ap_result_def)
qed

section \<open>Co-signing\<close>

lemma cosign_permit:
  assumes "crypto_ok c" "VerifyPartial c raw trusted now m = Ok r" "Parse raw = Ok e" "utf8_envelope e"
    "AddSignature c e k key = Ok e'" "trusted k = Some (ed_public c key)" "routeID k"
    "int (length (apv_KeyIDs r)) < signers_needed (PayloadType e) (apv_Permit r)"
    "Marshal e' = Ok raw'" "length raw' \<le> ap_MaxEnvelopeBytes"
  shows "\<exists>r'. VerifyPartial c raw' trusted now m = Ok r' \<and> apv_Permit r' = apv_Permit r \<and> apv_PayloadType r' = apv_PayloadType r \<and>
    apv_KeyIDs r' = insort k (apv_KeyIDs r) \<and>
    (apv_Complete r' \<longleftrightarrow> int (length (apv_KeyIDs r)) + 1 = signers_needed (PayloadType e) (apv_Permit r))"
proof -
  from assms(2,3) obtain p permit ks where o: "ap_opened c raw trusted now m e p permit ks" and r: "r = ap_result c raw e permit ks"
    unfolding VerifyPartial_def verify_iff by (auto simp: ap_opened_def)
  note h = o [unfolded ap_opened_def]
  have k: "valid_utf8 k" using assms(7) by (simp add: routeID_def identifier_utf8)
  have va: "VerifyAll c raw (PayloadType e) trusted = Ok (p, ks)" using h by blast
  obtain raw'' where "Marshal e' = Ok raw''" "VerifyAll c raw'' (PayloadType e) trusted = Ok (p, insort k ks)"
    using cosign_VerifyAll [OF assms(1) va assms(3,5) k assms(4,6)] by blast
  with assms(9) have va': "VerifyAll c raw' (PayloadType e) trusted = Ok (p, insort k ks)" by simp
  from assms(5) have same: "PayloadType e' = PayloadType e" "Payload e' = Payload e" by (auto elim: AddSignature_Ok)
  have "raw' \<noteq> []" using va' unfolding VerifyAll_Ok_iff by (auto simp: Parse_Ok_iff)
  moreover have "Parse raw' = Ok e'"
  proof (rule Parse_Marshal [OF assms(9)])
    show "utf8_envelope e'"
      using assms(4,5) k by (auto elim!: AddSignature_Ok simp: utf8_envelope_def b64_encode_utf8)
    show "length raw' \<le> DefaultMaxEnvelopeBytes"
      using assms(10) by (simp add: ap_MaxEnvelopeBytes_def DefaultMaxEnvelopeBytes_def)
  qed
  ultimately have o': "ap_opened c raw' trusted now m e' p permit (insort k ks)"
    unfolding ap_opened_def using h assms(7,9,10) va' same by (auto simp: list_all_iff set_insort_key)
  have ns: "\<not> single_signer (PayloadType e')"
  proof
    assume s: "single_signer (PayloadType e')"
    have "ks \<noteq> []"
      using va assms(3) unfolding VerifyAll_Ok_iff by (auto simp: Parse_Ok_iff validateEnvelope_iff)
    then show False using s assms(8) same by (simp add: r ap_result_def signers_needed_def)
  qed
  have n: "int (length (insort k ks)) \<le> signers_needed (PayloadType e') permit"
    using assms(8) by (simp add: r ap_result_def same)
  have "VerifyPartial c raw' trusted now m = Ok (ap_result c raw' e' permit (insort k ks))"
    unfolding VerifyPartial_def verify_iff using o' n ns by blast
  then show ?thesis using same by (auto simp: r ap_result_def)
qed

lemma printed_envelope_many:
  assumes "Marshal e = Ok raw" "Payload e = b64_encode Std p" "length (PayloadType e) \<le> 64" "length (Signatures e) \<le> 2"
  shows "length raw \<le> b64_encoded_len Std (length p) + 5200"
proof -
  from assms(1) have v: "validateEnvelope e = Ok ()" and raw: "raw = json_print (envelope_json e)"
    by (auto simp: Marshal_def and_then_Inr_iff)
  note v = v [unfolded validateEnvelope_iff bad_name_def b64_encoded_len_def MaxPayloadBytes_def, simplified]
  have "length (print_elems (map signature_json (Signatures e))) \<le> length (map signature_json (Signatures e)) * Suc 2200 + 1"
    using v by (intro print_elems_length) (auto intro!: signature_json_length)
  moreover have "length (map signature_json (Signatures e)) * Suc 2200 \<le> 2 * Suc 2200"
    using assms(4) by (intro mult_le_mono1) simp
  ultimately have sigs: "length (print_elems (map signature_json (Signatures e))) \<le> 4403" by simp
  have "length (json_quote (Payload e)) = b64_encoded_len Std (length p) + 2"
    by (simp add: assms(2) json_quote_b64 length_b64_encode)
  then show ?thesis
    using sigs json_quote_bound [OF assms(3)] json_quote_bound [of "''payloadType''" 11] json_quote_bound [of "''payload''" 7]
      json_quote_bound [of "''signatures''" 10]
    by (simp add: raw envelope_json_def)
qed

section \<open>A concrete permit for the witnesses\<close>

text \<open>A version 3 permit that needs two approvals.\<close>

definition demo_action :: ActionStatement where
  "demo_action = \<lparr>aps_SchemaVersion = ap_SchemaV3, aps_EffectMode = EffectModeAuthorized, aps_ApprovalThreshold = 2,
     aps_NodeID = ''node'', aps_TenantID = ''tenant'', aps_InstanceID = ''instance'', aps_Generation = 1,
     aps_CapsuleDigest = demo_digest, aps_PolicyDigest = demo_digest, aps_RoutePolicyDigest = demo_digest,
     aps_ConnectorID = ''conn'', aps_OperationID = ''op'', aps_OperationDigest = demo_digest, aps_TaskID = ''task'',
     aps_RequestDigest = demo_digest, aps_RequestBytes = 10, aps_ContentType = ''application/json'',
     aps_InfluenceSequence = 0, aps_InfluenceHash = [], aps_NotBefore = time_format 0,
     aps_ExpiresAt = time_format (10 * minute)\<rparr>"

lemma demo_binding:
  "validateRuntimeBinding ''node'' ''tenant'' ''instance'' 1 demo_digest demo_digest demo_digest = Ok ()"
  "validateRequestBinding c demo_digest demo_digest 10 ''application/json'' = Ok ()"
  "validateValidity (time_format 0) (time_format (10 * minute)) (5 * minute) ap_MaxValidity = Ok ()"
proof -
  have id: "tp_publicIdentity ''node'' 128" "tp_publicIdentity ''tenant'' 128" "tp_publicIdentity ''instance'' 256"
    by (simp_all add: tp_publicIdentity_def trim_space_ascii is_space_def valid_utf8_ascii contains_nul_def)
  have d: "tp_digest demo_digest" using demo_digest_hex by (simp add: tp_digest_iff)
  show "validateRuntimeBinding ''node'' ''tenant'' ''instance'' 1 demo_digest demo_digest demo_digest = Ok ()"
    "validateRequestBinding c demo_digest demo_digest 10 ''application/json'' = Ok ()"
    using id d by (simp_all add: validateRuntimeBinding_def validateRequestBinding_def ap_tp ap_MaxRequestBytes_def)
  have t: "canonicalTime (time_format 0) = Ok 0" "canonicalTime (time_format (10 * minute)) = Ok (10 * minute)"
    by (auto intro!: canonicalTime_format simp: sane_clock_def minute_def nsec_def)
  then show "validateValidity (time_format 0) (time_format (10 * minute)) (5 * minute) ap_MaxValidity = Ok ()"
    unfolding validateValidity_iff [OF ap_MaxValidity_bound]
    by (simp add: instant_def ap_MaxValidity_def hour_def minute_def nsec_def)
qed

lemma demo_action_accepted: "ap_accepts c PayloadTypeV3 (Single demo_action) (5 * minute) ap_MaxValidity"
  using demo_binding ap_MaxValidity_bound(1)
  by (simp add: ap_accepts_def ap_validateStatement_def demo_action_def version_ok_def routeID_def identifier_pattern_def
      alnum_def is_lower_def)

lemma demo_action_unused: "unused_zero demo_action PayloadTypeV3"
  by (simp add: unused_zero_def demo_action_def)

lemma demo_action_opened:
  obtains e raw where "Marshal e = Ok raw" "PayloadType e = PayloadTypeV3"
    "ap_opened demo_crypto raw demo_trusted (5 * minute) ap_MaxValidity e (MarshalStatement demo_action PayloadTypeV3)
       (Single demo_action) [''a'']"
  by (rule ap_signed_opened [OF demo_crypto_ok demo_action_accepted demo_action_unused, of "''a''" demo_key demo_trusted])
    (simp_all add: routeID_def identifier_pattern_def alnum_def is_lower_def zero_time_def minute_def nsec_def demo_trusted_def)

lemma demo_handoff:
  obtains raw r e e' raw' where "VerifyPartial demo_crypto raw demo_trusted (5 * minute) ap_MaxValidity = Ok r" "Parse raw = Ok e"
    "utf8_envelope e" "AddSignature demo_crypto e ''B'' demo_key = Ok e'" "demo_trusted ''B'' = Some (ed_public demo_crypto demo_key)"
    "routeID ''B''" "int (length (apv_KeyIDs r)) < signers_needed (PayloadType e) (apv_Permit r)" "Marshal e' = Ok raw'"
    "length raw' \<le> ap_MaxEnvelopeBytes" "apv_KeyIDs r = [''a'']" "signers_needed (PayloadType e) (apv_Permit r) = 2"
    "apv_Permit r = Single demo_action" "PayloadType e = PayloadTypeV3"
proof -
  let ?p = "MarshalStatement demo_action PayloadTypeV3"
  obtain e raw where m: "Marshal e = Ok raw" "PayloadType e = PayloadTypeV3"
    and o: "ap_opened demo_crypto raw demo_trusted (5 * minute) ap_MaxValidity e ?p (Single demo_action) [''a'']"
    by (rule demo_action_opened)
  note h = o [unfolded ap_opened_def]
  have n: "signers_needed (PayloadType e) (Single demo_action) = 2"
    by (simp add: m(2) signers_needed_def single_signer_def demo_action_def)
  have v: "VerifyPartial demo_crypto raw demo_trusted (5 * minute) ap_MaxValidity = Ok (ap_result demo_crypto raw e (Single demo_action) [''a''])"
    unfolding VerifyPartial_def verify_iff using o n m(2)
    by (intro exI [of _ e] exI [of _ ?p] exI [of _ "Single demo_action"] exI [of _ "[''a'']"]) (simp add: single_signer_def)
  have ve: "validateEnvelope e = Ok ()" using h by (auto simp: Parse_Ok_iff)
  have va: "VerifyAll demo_crypto raw (PayloadType e) demo_trusted = Ok (?p, [''a''])" using h by blast
  then have s: "map KeyID (Signatures e) = [''a'']" "\<forall>s \<in> set (Signatures e). \<exists>sig. Sig s = b64_encode Std sig"
    using h unfolding VerifyAll_Ok_iff by auto
  have u: "utf8_envelope e"
    using s h payload_type_good(2) by (auto simp: utf8_envelope_def b64_encode_utf8 valid_utf8_ascii)
  obtain e' where a: "AddSignature demo_crypto e ''B'' demo_key = Ok e'"
    using ve s(1) h bad_name_plain [of "''B''"] by (auto simp: AddSignature_def)
  then have e': "PayloadType e' = PayloadType e" "Payload e' = Payload e" "length (Signatures e') = 2"
    using s(1) by (auto elim!: AddSignature_Ok)
  obtain raw' where m': "Marshal e' = Ok raw'"
    using AddSignature_valid(1) [OF demo_crypto_ok a] by (simp add: Marshal_def)
  have "length raw' \<le> b64_encoded_len Std (length ?p) + 5200"
    using h e' payload_type_good(3) by (intro printed_envelope_many [OF m']) auto
  also have "b64_encoded_len Std (length ?p) \<le> b64_encoded_len Std 7000"
    unfolding MarshalStatement_wire using wire_of_size [OF demo_action_accepted demo_action_unused] by (rule b64_encoded_len_mono)
  finally have "length raw' \<le> ap_MaxEnvelopeBytes" by (simp add: b64_encoded_len_def ap_MaxEnvelopeBytes_def)
  then show ?thesis
    using that [OF v _ u a _ _ _ m'] h n m(2)
    by (simp add: ap_result_def demo_trusted_def routeID_def identifier_pattern_def alnum_def is_upper_def)
qed

lemma demo_action_verified:
  obtains raw r where "ap_Verify demo_crypto raw demo_trusted (5 * minute) ap_MaxValidity = Ok r" "apv_Permit r = Single demo_action"
    "apv_PayloadType r = PayloadTypeV3"
proof -
  obtain raw r e e' raw' where d: "VerifyPartial demo_crypto raw demo_trusted (5 * minute) ap_MaxValidity = Ok r" "Parse raw = Ok e"
    "utf8_envelope e" "AddSignature demo_crypto e ''B'' demo_key = Ok e'" "demo_trusted ''B'' = Some (ed_public demo_crypto demo_key)"
    "routeID ''B''" "int (length (apv_KeyIDs r)) < signers_needed (PayloadType e) (apv_Permit r)" "Marshal e' = Ok raw'"
    "length raw' \<le> ap_MaxEnvelopeBytes" and k: "apv_KeyIDs r = [''a'']" "signers_needed (PayloadType e) (apv_Permit r) = 2"
    "apv_Permit r = Single demo_action" "PayloadType e = PayloadTypeV3"
    by (rule demo_handoff)
  have t: "apv_PayloadType r = PayloadTypeV3"
    using d(1,2) k(4) by (auto simp: VerifyPartial_def verify_iff ap_result_def ap_opened_def)
  obtain r' where r': "VerifyPartial demo_crypto raw' demo_trusted (5 * minute) ap_MaxValidity = Ok r'" "apv_Permit r' = Single demo_action"
    "apv_Complete r'" "apv_PayloadType r' = PayloadTypeV3"
    using cosign_permit [OF demo_crypto_ok d] k t by auto
  then have "ap_Verify demo_crypto raw' demo_trusted (5 * minute) ap_MaxValidity = Ok r'"
    unfolding ap_Verify_complete_iff by blast
  then show ?thesis using that r' by blast
qed

definition demo_bundle :: BundleStatement where
  "demo_bundle = \<lparr>bd_SchemaVersion = ap_SchemaV4, bd_EffectMode = EffectModeAuthorized, bd_ApprovalThreshold = 1,
     bd_NodeID = ''node'', bd_TenantID = ''tenant'', bd_InstanceID = ''instance'', bd_Generation = 1,
     bd_CapsuleDigest = demo_digest, bd_PolicyDigest = demo_digest, bd_RoutePolicyDigest = demo_digest, bd_BundleID = ''bundle'',
     bd_Steps = [\<lparr>bs_StepID = ''one'', bs_ConnectorID = ''conn'', bs_OperationID = ''op'', bs_OperationDigest = demo_digest,
       bs_TaskID = ''task'', bs_RequestDigest = demo_digest, bs_RequestBytes = 10, bs_ContentType = ''application/json''\<rparr>],
     bd_NotBefore = time_format 0, bd_ExpiresAt = time_format (10 * minute)\<rparr>"

lemma demo_bundle_verified:
  obtains raw r where "ap_Verify demo_crypto raw demo_trusted (5 * minute) ap_MaxValidity = Ok r" "apv_Permit r = Bundle demo_bundle"
proof -
  let ?p = "json_print (bundle_json demo_bundle)"
  have t: "canonicalTime (time_format 0) = Ok 0" "canonicalTime (time_format (10 * minute)) = Ok (10 * minute)"
    by (auto intro!: canonicalTime_format simp: sane_clock_def minute_def nsec_def)
  have d: "tp_digest demo_digest" using demo_digest_hex by (simp add: tp_digest_iff)
  have wf: "wf_json (bundle_json demo_bundle)"
    using canonicalTime_utf8 [OF t(1)] canonicalTime_utf8 [OF t(2)] tp_digest_props [OF d]
    by (simp add: bundle_json_def step_json_def demo_bundle_def valid_utf8_ascii ap_SchemaV4_def EffectModeAuthorized_def)
  have i: "in_int64 1" "in_int64 10" by (simp_all add: in_int64_def min_int64_def max_int64_def)
  have step: "length (json_print (step_json (hd (bd_Steps demo_bundle)))) \<le> 1500"
    using quote_digest [OF d] printed_i64 [OF i(2)] json_quote_bound [of "''one''" 3] json_quote_bound [of "''conn''" 4]
      json_quote_bound [of "''op''" 2] json_quote_bound [of "''task''" 4] json_quote_bound [of "''application/json''" 16]
      printed_object [of "members_of (step_json (hd (bd_Steps demo_bundle)))"]
    by (simp add: member_sizes_def members_of_def step_json_def demo_bundle_def)
  then have "length (json_print (JArr (map step_json (bd_Steps demo_bundle)))) \<le> 1502"
    by (simp add: demo_bundle_def)
  then have size: "length ?p \<le> 7000"
    using quote_digest [OF d] printed_i64 [OF i(1)] printed_u64 [of 1] json_quote_bound [of "''node''" 4]
      json_quote_bound [of "''tenant''" 6] json_quote_bound [of "''instance''" 8] json_quote_bound [of "''bundle''" 6]
      json_quote_bound [of ap_SchemaV4 24] json_quote_bound [of EffectModeAuthorized 10]
      json_quote_bound [of "time_format 0" 20] canonicalTime_length [OF t(1)]
      json_quote_bound [of "time_format (10 * minute)" 20] canonicalTime_length [OF t(2)]
      printed_object [of "members_of (bundle_json demo_bundle)"]
    by (simp add: member_sizes_def members_of_def bundle_json_def demo_bundle_def ap_SchemaV4_def EffectModeAuthorized_def
        del: json_print.simps(5) json_print.simps(6))
  have dec: "decodeBundleStatement ?p = Ok demo_bundle"
    using size i by (intro decode_bundle_json [OF wf]) (simp_all add: ap_MaxEnvelopeBytes_def demo_bundle_def)
  have op: "open_permit demo_crypto PayloadTypeV4 ?p (5 * minute) ap_MaxValidity = Ok (Bundle demo_bundle, 1)"
    using dec demo_binding
    by (simp add: open_permit_def validateBundleStatement_def demo_bundle_def MaxBundleSteps_def routeID_def identifier_pattern_def
        alnum_def is_lower_def)
  obtain e raw where "PayloadType e = PayloadTypeV4"
    "ap_opened demo_crypto raw demo_trusted (5 * minute) ap_MaxValidity e ?p (Bundle demo_bundle) [''a'']"
    by (rule ap_payload_opened [OF demo_crypto_ok _ op, of "''a''" demo_key demo_trusted])
      (use size json_print_hd [OF wf] json_print_utf8(1) [OF wf] ap_MaxValidity_bound in
        \<open>simp_all add: supported_type_def routeID_def identifier_pattern_def alnum_def is_lower_def zero_time_def minute_def
          nsec_def demo_trusted_def\<close>)
  then have "ap_Verify demo_crypto raw demo_trusted (5 * minute) ap_MaxValidity = Ok (ap_result demo_crypto raw e (Bundle demo_bundle) [''a''])"
    unfolding ap_Verify_def verify_iff
    by (intro exI [of _ e] exI [of _ ?p] exI [of _ "Bundle demo_bundle"] exI [of _ "[''a'']"])
      (simp add: signers_needed_def single_signer_def demo_bundle_def)
  then show ?thesis using that by (simp add: ap_result_def)
qed

section \<open>Properties\<close>

text \<open>
  What a signed document says: the statement's fields are the members of the document. The four
  members that only some versions have keep their zero value when the document leaves them out.
\<close>

definition action_reads :: "json \<Rightarrow> ActionStatement \<Rightarrow> bool" where
  "action_reads v s \<longleftrightarrow>
     opt_str ''schema_version'' v = Some (aps_SchemaVersion s) \<and> aps_EffectMode s = or_empty (opt_str ''effect_mode'' v) \<and>
     aps_ApprovalThreshold s = (case opt_i64 ''approval_threshold'' v of None \<Rightarrow> 0 | Some n \<Rightarrow> n) \<and>
     opt_str ''node_id'' v = Some (aps_NodeID s) \<and> opt_str ''tenant_id'' v = Some (aps_TenantID s) \<and>
     opt_str ''instance_id'' v = Some (aps_InstanceID s) \<and> opt_u64 ''generation'' v = Some (aps_Generation s) \<and>
     opt_str ''capsule_digest'' v = Some (aps_CapsuleDigest s) \<and> opt_str ''policy_digest'' v = Some (aps_PolicyDigest s) \<and>
     opt_str ''route_policy_digest'' v = Some (aps_RoutePolicyDigest s) \<and>
     opt_str ''connector_id'' v = Some (aps_ConnectorID s) \<and> opt_str ''operation_id'' v = Some (aps_OperationID s) \<and>
     opt_str ''operation_policy_digest'' v = Some (aps_OperationDigest s) \<and> opt_str ''task_id'' v = Some (aps_TaskID s) \<and>
     opt_str ''request_digest'' v = Some (aps_RequestDigest s) \<and> opt_i64 ''request_bytes'' v = Some (aps_RequestBytes s) \<and>
     opt_str ''content_type'' v = Some (aps_ContentType s) \<and>
     aps_InfluenceSequence s = (case opt_u64 ''influence_sequence'' v of None \<Rightarrow> 0 | Some n \<Rightarrow> n) \<and>
     aps_InfluenceHash s = or_empty (opt_str ''influence_hash'' v) \<and>
     opt_str ''not_before'' v = Some (aps_NotBefore s) \<and> opt_str ''expires_at'' v = Some (aps_ExpiresAt s)"

definition step_reads :: "json \<Rightarrow> BundleStep \<Rightarrow> bool" where
  "step_reads v s \<longleftrightarrow>
     opt_str ''step_id'' v = Some (bs_StepID s) \<and> opt_str ''connector_id'' v = Some (bs_ConnectorID s) \<and>
     opt_str ''operation_id'' v = Some (bs_OperationID s) \<and> opt_str ''operation_policy_digest'' v = Some (bs_OperationDigest s) \<and>
     opt_str ''task_id'' v = Some (bs_TaskID s) \<and> opt_str ''request_digest'' v = Some (bs_RequestDigest s) \<and>
     opt_i64 ''request_bytes'' v = Some (bs_RequestBytes s) \<and> opt_str ''content_type'' v = Some (bs_ContentType s)"

definition bundle_reads :: "json \<Rightarrow> BundleStatement \<Rightarrow> bool" where
  "bundle_reads v b \<longleftrightarrow>
     opt_str ''schema_version'' v = Some (bd_SchemaVersion b) \<and> opt_str ''effect_mode'' v = Some (bd_EffectMode b) \<and>
     opt_i64 ''approval_threshold'' v = Some (bd_ApprovalThreshold b) \<and> opt_str ''node_id'' v = Some (bd_NodeID b) \<and>
     opt_str ''tenant_id'' v = Some (bd_TenantID b) \<and> opt_str ''instance_id'' v = Some (bd_InstanceID b) \<and>
     opt_u64 ''generation'' v = Some (bd_Generation b) \<and> opt_str ''capsule_digest'' v = Some (bd_CapsuleDigest b) \<and>
     opt_str ''policy_digest'' v = Some (bd_PolicyDigest b) \<and> opt_str ''route_policy_digest'' v = Some (bd_RoutePolicyDigest b) \<and>
     opt_str ''bundle_id'' v = Some (bd_BundleID b) \<and>
     (\<exists>vs. member ''steps'' v = Some (JArr vs) \<and> list_all2 step_reads vs (bd_Steps b)) \<and>
     opt_str ''not_before'' v = Some (bd_NotBefore b) \<and> opt_str ''expires_at'' v = Some (bd_ExpiresAt b)"

fun permit_reads :: "json \<Rightarrow> bytes \<Rightarrow> permit \<Rightarrow> bool" where
  "permit_reads v pt (Single s) \<longleftrightarrow> pt \<noteq> PayloadTypeV4 \<and> conforms ap_wireStatement 0 v \<and> action_reads v s"
| "permit_reads v pt (Bundle b) \<longleftrightarrow> pt = PayloadTypeV4 \<and> conforms ap_wireBundleStatement 0 v \<and> bundle_reads v b"

lemma raw_members_read:
  "wire_effect_mode v = Some mode \<Longrightarrow> mode = or_empty (opt_str ''effect_mode'' v)"
  "wire_threshold v = Some n \<Longrightarrow> n = (case opt_i64 ''approval_threshold'' v of None \<Rightarrow> 0 | Some n \<Rightarrow> n)"
  by (auto simp: wire_effect_mode_def wire_threshold_def opt_str_def opt_i64_def or_empty_def split: option.splits json.splits)

lemma ap_statement_reads: "ap_statement v pt = Some s \<Longrightarrow> action_reads v s"
  unfolding ap_statement_def
  by (auto simp: action_reads_def dest!: raw_members_read split: option.splits if_splits)

lemma bundle_step_reads: "bundle_step v = Some s \<Longrightarrow> step_reads v s"
  unfolding bundle_step_def by (auto simp: step_reads_def split: option.splits)

lemma bundle_steps_read: "those (map bundle_step vs) = Some ss \<Longrightarrow> list_all2 step_reads vs ss"
  by (induction vs arbitrary: ss) (auto simp: bundle_step_reads split: option.splits)

lemma decodeBundleStatement_reads:
  assumes "decodeBundleStatement p = Ok b"
  shows "\<exists>v. json_document p = Some v \<and> conforms ap_wireBundleStatement 0 v \<and> bundle_reads v b"
  using assms bundle_steps_read
  by (auto simp: decodeBundleStatement_def bundle_reads_def wire_steps_def DecodeStrictInto_iff
      split: sum.splits option.splits json.splits)

lemma open_permit_reads:
  assumes "open_permit c pt p now m = Ok (permit, t)"
  shows "\<exists>v. json_document p = Some v \<and> permit_reads v pt permit"
proof (cases "pt = PayloadTypeV4")
  case True
  then show ?thesis using assms decodeBundleStatement_reads by (auto simp: open_permit_def and_then_Inr_iff)
next
  case False
  then show ?thesis
    using assms ap_statement_reads
    by (auto simp: open_permit_def ap_decode_def DecodeStrictInto_iff and_then_Inr_iff split: sum.splits option.splits)
qed

text \<open>C22: What a verified action permit establishes: the bytes are the canonical spelling of an envelope of a
  supported type; the reported permit is what the signed payload says, member by member; the signers are
  exactly as many distinct trusted keys as the version or the signed threshold demands, in strictly
  ascending order of key ID, and each of them signs the payload; the time is inside the signed interval,
  which is at most the local maximum and at most 24 hours.\<close>

theorem ap_Verify_sound:
  assumes "ap_Verify c raw trusted now m = Ok r"
  shows "\<exists>e p v. Parse raw = Ok e \<and> Marshal e = Ok raw \<and> supported_type (PayloadType e) \<and> apv_PayloadType r = PayloadType e \<and>
    Payload e = b64_encode Std p \<and> json_document p = Some v \<and> permit_reads v (PayloadType e) (apv_Permit r) \<and>
    apv_KeyIDs r = map KeyID (Signatures e) \<and> sorted_wrt (<) (apv_KeyIDs r) \<and>
    list_all (authentic c trusted (PAE (PayloadType e) p)) (Signatures e) \<and>
    int (length (apv_KeyIDs r)) = signers_needed (PayloadType e) (apv_Permit r) \<and> apv_Complete r \<and>
    ap_accepts c (PayloadType e) (apv_Permit r) now m \<and>
    instant (permit_notBefore (apv_Permit r)) \<le> now \<and> now < instant (permit_expiresAt (apv_Permit r)) \<and>
    instant (permit_expiresAt (apv_Permit r)) - instant (permit_notBefore (apv_Permit r)) \<le> m \<and> m \<le> ap_MaxValidity"
proof -
  from assms obtain e p permit ks where o: "ap_opened c raw trusted now m e p permit ks" and r: "r = ap_result c raw e permit ks"
    and n: "int (length ks) = signers_needed (PayloadType e) permit"
    unfolding ap_Verify_def verify_iff by auto
  note h = o [unfolded ap_opened_def]
  have a: "ap_accepts c (PayloadType e) permit now m" using h open_permit_accepts(1) by blast
  obtain v where v: "json_document p = Some v" "permit_reads v (PayloadType e) permit" using h open_permit_reads by blast
  from h have "sorted_wrt (<) (map KeyID (Signatures e))" "ks = map KeyID (Signatures e)"
    "list_all (authentic c trusted (PAE (PayloadType e) p)) (Signatures e)"
    unfolding VerifyAll_Ok_iff by (auto simp: list_all_iff)
  then show ?thesis
    using h n a v action_validity.accepts_window [OF a] action_validity.accepts_span [OF a]
    by (intro exI [of _ e] exI [of _ p] exI [of _ v]) (simp add: r ap_result_def)
qed

theorem ap_Verify_sound_witness:
  "\<exists>raw r e p v. ap_Verify demo_crypto raw demo_trusted (5 * minute) ap_MaxValidity = Ok r \<and> Parse raw = Ok e \<and>
    Payload e = b64_encode Std p \<and> json_document p = Some v \<and> action_reads v demo_action \<and>
    map KeyID (Signatures e) = apv_KeyIDs r \<and> apv_Permit r = Single demo_action \<and> length (apv_KeyIDs r) = 2"
proof -
  obtain raw r where d: "ap_Verify demo_crypto raw demo_trusted (5 * minute) ap_MaxValidity = Ok r" "apv_Permit r = Single demo_action"
    "apv_PayloadType r = PayloadTypeV3"
    by (rule demo_action_verified)
  from ap_Verify_sound [OF d(1)] obtain e p v where "Parse raw = Ok e" "Payload e = b64_encode Std p" "json_document p = Some v"
    "permit_reads v (PayloadType e) (apv_Permit r)" "apv_KeyIDs r = map KeyID (Signatures e)" "apv_PayloadType r = PayloadType e"
    "int (length (apv_KeyIDs r)) = signers_needed (PayloadType e) (apv_Permit r)"
    by blast
  then show ?thesis
    using d by (intro exI [of _ raw] exI [of _ r] exI [of _ e] exI [of _ p] exI [of _ v])
      (simp add: signers_needed_def single_signer_def demo_action_def)
qed

text \<open>The offline check and the Gateway's check differ only in completeness: \<open>Verify\<close> accepts a permit
  exactly when \<open>VerifyPartial\<close> accepts it and reports it complete.\<close>

theorem Verify_is_complete_VerifyPartial:
  "ap_Verify c raw trusted now m = Ok r \<longleftrightarrow> VerifyPartial c raw trusted now m = Ok r \<and> apv_Complete r"
  by (rule ap_Verify_complete_iff)

text \<open>Approval handoff: adding one more trusted signature to a partially approved permit gives a permit
  that is again accepted, with the signer added to the list, and that is complete exactly when the
  signed threshold is reached.\<close>

theorem approval_handoff:
  assumes "crypto_ok c" "VerifyPartial c raw trusted now m = Ok r" "Parse raw = Ok e" "utf8_envelope e"
    "AddSignature c e k key = Ok e'" "trusted k = Some (ed_public c key)" "routeID k"
    "int (length (apv_KeyIDs r)) < signers_needed (PayloadType e) (apv_Permit r)"
    "Marshal e' = Ok raw'" "length raw' \<le> ap_MaxEnvelopeBytes"
  shows "\<exists>r'. VerifyPartial c raw' trusted now m = Ok r' \<and> apv_Permit r' = apv_Permit r \<and> apv_PayloadType r' = apv_PayloadType r \<and>
    apv_KeyIDs r' = insort k (apv_KeyIDs r) \<and>
    (apv_Complete r' \<longleftrightarrow> int (length (apv_KeyIDs r)) + 1 = signers_needed (PayloadType e) (apv_Permit r))"
  by (rule cosign_permit [OF assms])

theorem approval_handoff_witness:
  "\<exists>raw r e e' raw' r'. VerifyPartial demo_crypto raw demo_trusted (5 * minute) ap_MaxValidity = Ok r \<and> apv_KeyIDs r = [''a''] \<and>
    AddSignature demo_crypto e ''B'' demo_key = Ok e' \<and> Marshal e' = Ok raw' \<and>
    VerifyPartial demo_crypto raw' demo_trusted (5 * minute) ap_MaxValidity = Ok r' \<and> apv_KeyIDs r' = insort ''B'' [''a''] \<and>
    apv_Complete r'"
proof -
  obtain raw r e e' raw' where d: "VerifyPartial demo_crypto raw demo_trusted (5 * minute) ap_MaxValidity = Ok r" "Parse raw = Ok e"
    "utf8_envelope e" "AddSignature demo_crypto e ''B'' demo_key = Ok e'" "demo_trusted ''B'' = Some (ed_public demo_crypto demo_key)"
    "routeID ''B''" "int (length (apv_KeyIDs r)) < signers_needed (PayloadType e) (apv_Permit r)" "Marshal e' = Ok raw'"
    "length raw' \<le> ap_MaxEnvelopeBytes" and k: "apv_KeyIDs r = [''a'']" "signers_needed (PayloadType e) (apv_Permit r) = 2"
    by (rule demo_handoff)
  obtain r' where "VerifyPartial demo_crypto raw' demo_trusted (5 * minute) ap_MaxValidity = Ok r'"
    "apv_KeyIDs r' = insort ''B'' [''a'']" "apv_Complete r'"
    using approval_handoff [OF demo_crypto_ok d] k by auto
  then show ?thesis using d k by blast
qed

text \<open>A verified bundle authorizes between one and eight exact requests, with step IDs in strictly
  ascending order and pairwise distinct task IDs, each bound to a request digest and size.\<close>

theorem bundle_exact_steps:
  assumes "ap_Verify c raw trusted now m = Ok r" "apv_Permit r = Bundle b"
  shows "apv_PayloadType r = PayloadTypeV4 \<and> 1 \<le> length (bd_Steps b) \<and> length (bd_Steps b) \<le> MaxBundleSteps \<and>
    sorted_wrt (<) (map bs_StepID (bd_Steps b)) \<and> distinct (map bs_TaskID (bd_Steps b)) \<and>
    list_all (\<lambda>s. ap_digest (bs_RequestDigest s) \<and> 0 \<le> bs_RequestBytes s \<and> bs_RequestBytes s \<le> ap_MaxRequestBytes) (bd_Steps b) \<and>
    1 \<le> length (apv_KeyIDs r) \<and> length (apv_KeyIDs r) \<le> MaxBundleSteps"
proof -
  from assms obtain e p ks where o: "ap_opened c raw trusted now m e p (Bundle b) ks" and r: "r = ap_result c raw e (Bundle b) ks"
    and n: "int (length ks) = signers_needed (PayloadType e) (Bundle b)"
    unfolding ap_Verify_def verify_iff by (auto simp: ap_result_def)
  note h = o [unfolded ap_opened_def]
  have op: "open_permit c (PayloadType e) p now m = Ok (Bundle b, permit_threshold (Bundle b))" using h by blast
  have pt: "PayloadType e = PayloadTypeV4"
    using op by (auto simp: open_permit_def and_then_Inr_iff split: if_splits sum.splits option.splits)
  have v: "validateBundleStatement c b now m = Ok ()"
    using op by (auto simp: open_permit_def and_then_Inr_iff split: if_splits sum.splits option.splits)
  then have s: "bundle_steps_ok c [] {} (bd_Steps b) = Ok ()" "length (bd_Steps b) \<noteq> 0" "length (bd_Steps b) \<le> MaxBundleSteps"
    "1 \<le> bd_ApprovalThreshold b" "bd_ApprovalThreshold b \<le> int MaxBundleSteps"
    by (auto simp: validateBundleStatement_def and_then_Inr_iff split: if_splits)
  note b = bundle_steps_ok_sound [OF s(1)]
  have "int (length ks) = bd_ApprovalThreshold b" using n pt by (simp add: signers_needed_def single_signer_def)
  then show ?thesis
    using s b pt
    by (auto simp: r ap_result_def list_all_iff validateRequestBinding_def Suc_le_eq split: if_splits)
qed

theorem bundle_exact_steps_witness:
  "\<exists>raw r. ap_Verify demo_crypto raw demo_trusted (5 * minute) ap_MaxValidity = Ok r \<and> apv_Permit r = Bundle demo_bundle \<and>
    apv_PayloadType r = PayloadTypeV4 \<and> distinct (map bs_TaskID (bd_Steps demo_bundle))"
proof -
  obtain raw r where r: "ap_Verify demo_crypto raw demo_trusted (5 * minute) ap_MaxValidity = Ok r" "apv_Permit r = Bundle demo_bundle"
    by (rule demo_bundle_verified)
  from bundle_exact_steps [OF r] r show ?thesis by blast
qed

text \<open>Statements survive the wire: what \<open>MarshalStatement\<close> prints for an acceptable statement of version
  1, 2, 3 or 5 signs, fits the 16 KiB limit, and opens to the same statement; one trusted signature is
  complete exactly when the version needs one.\<close>

theorem MarshalStatement_VerifyPartial:
  assumes "crypto_ok c" "ap_accepts c pt (Single s) now m" "unused_zero s pt" "routeID k" "length key = 64" "now \<noteq> zero_time"
    "trusted k = Some (ed_public c key)"
  shows "\<exists>e raw r. Sign c pt (MarshalStatement s pt) k key = Ok e \<and> Marshal e = Ok raw \<and>
    VerifyPartial c raw trusted now m = Ok r \<and> apv_Permit r = Single s \<and> apv_KeyIDs r = [k] \<and>
    (apv_Complete r \<longleftrightarrow> signers_needed pt (Single s) = 1)"
proof -
  obtain e raw where e: "Sign c pt (MarshalStatement s pt) k key = Ok e" "Marshal e = Ok raw" "PayloadType e = pt"
    "ap_opened c raw trusted now m e (MarshalStatement s pt) (Single s) [k]"
    by (rule ap_signed_opened [OF assms(1-6), where trusted = trusted, OF assms(7)])
  have "version_ok s pt = Ok ()" by (rule ap_valid_fields(1) [OF assms(2)])
  then have "1 \<le> signers_needed pt (Single s)" "single_signer pt \<Longrightarrow> signers_needed pt (Single s) = 1"
    by (auto simp: signers_needed_def single_signer_def dest!: version_ok_fields)
  then have "VerifyPartial c raw trusted now m = Ok (ap_result c raw e (Single s) [k])"
    unfolding VerifyPartial_def verify_iff using e(3,4)
    by (intro exI [of _ e] exI [of _ "MarshalStatement s pt"] exI [of _ "Single s"] exI [of _ "[k]"]) auto
  with e show ?thesis by (auto simp: ap_result_def)
qed

theorem MarshalStatement_VerifyPartial_witness:
  "\<exists>e raw r. Sign demo_crypto PayloadTypeV3 (MarshalStatement demo_action PayloadTypeV3) ''a'' demo_key = Ok e \<and> Marshal e = Ok raw \<and>
    VerifyPartial demo_crypto raw demo_trusted (5 * minute) ap_MaxValidity = Ok r \<and> apv_Permit r = Single demo_action \<and>
    apv_KeyIDs r = [''a''] \<and> (apv_Complete r \<longleftrightarrow> signers_needed PayloadTypeV3 (Single demo_action) = 1)"
  by (rule MarshalStatement_VerifyPartial [OF demo_crypto_ok demo_action_accepted demo_action_unused])
    (simp_all add: routeID_def identifier_pattern_def alnum_def is_lower_def zero_time_def minute_def nsec_def demo_trusted_def)

text \<open>Version 5 needs its own printer: printed with the ordinary omit-empty members, a version 5 statement
  at genesis (influence sequence zero) is refused by the decoder as incomplete.\<close>

theorem V5_genesis_needs_full_members:
  "aps_InfluenceSequence s = 0 \<Longrightarrow> ap_statement (JObj (statement_members False s)) PayloadTypeV5 = None"
  by (rule version_members_None)
    (simp add: version_members_def statement_members_def unless_empty_def opt_u64_def member_JObj Let_def)

theorem V5_genesis_needs_full_members_witness:
  "aps_InfluenceSequence demo_action = 0 \<and> ap_statement (JObj (statement_members False demo_action)) PayloadTypeV5 = None"
  using V5_genesis_needs_full_members [of demo_action] by (simp add: demo_action_def)

text \<open>The header encoding of action permits has one spelling: \<open>DecodeHeader\<close> opens exactly the strings
  that \<open>EncodeHeader\<close> produces.\<close>

theorem ap_header_canonical: "ap_DecodeHeader h = Ok raw \<longleftrightarrow> ap_EncodeHeader raw = Ok h"
  by (rule action_header.spelling_iff)

end
