(* ===== verification/Influence.thy ===== *)
theory Influence
  imports Permit_Common
begin

text \<open>
  \<open>internal/influence/context.go\<close>: the per-grant commitment to the history of responses that Gateway
  released to an agent. A head is advanced by the hash of one signed receipt; the theory shows that the
  operations keep heads valid, that the sequence counts the receipts, and that, as long as SHA-256 does
  not collide on the commitments involved, a head determines the whole list of receipts.
\<close>

definition in_SchemaV1 :: bytes where "in_SchemaV1 = ''steward.effect-context.v1''"

record InfluenceHead =
  ih_SchemaVersion :: bytes
  ih_TenantID :: bytes
  ih_GrantID :: bytes
  ih_Generation :: u64
  ih_Sequence :: u64
  ih_ChainHash :: bytes

definition in_publicIdentity :: "bytes \<Rightarrow> nat \<Rightarrow> bool" where
  "in_publicIdentity value limit \<longleftrightarrow>
     trim_space value \<noteq> [] \<and> length value \<le> limit \<and> valid_utf8 value \<and> \<not> contains_nul value"

definition in_grantIdentity :: "bytes \<Rightarrow> bool" where
  "in_grantIdentity value \<longleftrightarrow> length value = length ''grant-'' + 64 \<and> has_prefix value ''grant-'' \<and>
     hex_decode (trim_prefix value ''grant-'') \<noteq> None"

definition in_digest :: "bytes \<Rightarrow> bool" where
  "in_digest value \<longleftrightarrow> length value = length ''sha256:'' + 64 \<and> has_prefix value ''sha256:'' \<and>
     hex_decode (trim_prefix value ''sha256:'') \<noteq> None"

abbreviation in_invalid :: "'a result" where
  "in_invalid \<equiv> wrap_err ErrInfluenceInvalid []"

definition in_Validate :: "InfluenceHead \<Rightarrow> unit result" where
  "in_Validate head =
     (if ih_SchemaVersion head \<noteq> in_SchemaV1 \<or> \<not> in_publicIdentity (ih_TenantID head) 128 \<or>
         \<not> in_grantIdentity (ih_GrantID head) \<or> ih_Generation head = 0 \<or> \<not> in_digest (ih_ChainHash head)
      then in_invalid else Ok ())"

definition genesis_frame :: "bytes \<Rightarrow> bytes \<Rightarrow> u64 \<Rightarrow> bytes" where
  "genesis_frame tenantID grantID generation =
     ''steward-effect-context-genesis-v1'' @ [chr 0] @
     concat (map (\<lambda>value. value @ [chr 0]) [tenantID, grantID, itoa (unat generation)])"

definition Genesis :: "crypto \<Rightarrow> bytes \<Rightarrow> bytes \<Rightarrow> u64 \<Rightarrow> InfluenceHead result" where
  "Genesis c tenantID grantID generation =
     (if \<not> in_publicIdentity tenantID 128 \<or> \<not> in_grantIdentity grantID \<or> generation = 0 then in_invalid
      else Ok \<lparr>ih_SchemaVersion = in_SchemaV1, ih_TenantID = tenantID, ih_GrantID = grantID,
               ih_Generation = generation, ih_Sequence = 0,
               ih_ChainHash = ''sha256:'' @ hex_encode (sha256 c (genesis_frame tenantID grantID generation))\<rparr>)"

definition advance_frame :: "bytes \<Rightarrow> bytes \<Rightarrow> bytes" where
  "advance_frame chainHash receiptHash =
     ''steward-effect-context-advance-v1'' @ [chr 0] @ chainHash @ [chr 0] @ receiptHash"

definition Advance :: "crypto \<Rightarrow> InfluenceHead \<Rightarrow> bytes \<Rightarrow> InfluenceHead result" where
  "Advance c current receiptHash =
     (if in_Validate current \<noteq> Ok () \<or> \<not> in_digest receiptHash \<or> ih_Sequence current = - 1 then in_invalid
      else Ok (current\<lparr>ih_Sequence := ih_Sequence current + 1,
               ih_ChainHash := ''sha256:'' @ hex_encode (sha256 c (advance_frame (ih_ChainHash current) receiptHash))\<rparr>))"

text \<open>Advancing over the receipts of a ledger, as the Gateway does when it rebuilds a head.\<close>

fun advance_all :: "crypto \<Rightarrow> InfluenceHead \<Rightarrow> bytes list \<Rightarrow> InfluenceHead result" where
  "advance_all c head [] = Ok head"
| "advance_all c head (r # rs) = and_then (Advance c head r) (\<lambda>h. advance_all c h rs)"

section \<open>Lemmas\<close>

lemma hex_decode_lower: "length h = 64 \<Longrightarrow> list_all is_lower_hex h \<Longrightarrow> hex_decode h \<noteq> None"
  using hex_reencode_iff [of h] by (auto simp: list_all_iff)

lemma in_digest_sha: "length d = 32 \<Longrightarrow> in_digest (''sha256:'' @ hex_encode d)"
  by (simp add: in_digest_def has_prefix_def trim_prefix_def)

lemma in_digest_length: "in_digest d \<Longrightarrow> length d = 71"
  by (simp add: in_digest_def)

lemma Genesis_valid: "crypto_ok c \<Longrightarrow> Genesis c t g n = Ok h \<Longrightarrow> in_Validate h = Ok () \<and> ih_Sequence h = 0"
  by (auto simp: Genesis_def in_Validate_def in_digest_sha [simplified] crypto_ok_def split: if_splits)

lemma Advance_valid:
  assumes "crypto_ok c" "Advance c h r = Ok h'"
  shows "in_Validate h = Ok ()" "in_Validate h' = Ok ()" "ih_TenantID h' = ih_TenantID h" "ih_GrantID h' = ih_GrantID h"
    "ih_Generation h' = ih_Generation h" "unat (ih_Sequence h') = unat (ih_Sequence h) + 1" "in_digest r"
    "ih_ChainHash h' = ''sha256:'' @ hex_encode (sha256 c (advance_frame (ih_ChainHash h) r))"
proof -
  have g: "in_Validate h = Ok ()" "in_digest r" "ih_Sequence h \<noteq> - 1"
    and h': "h' = h\<lparr>ih_Sequence := ih_Sequence h + 1,
      ih_ChainHash := ''sha256:'' @ hex_encode (sha256 c (advance_frame (ih_ChainHash h) r))\<rparr>"
    using assms(2) by (auto simp: Advance_def split: if_splits)
  show "in_Validate h = Ok ()" "in_digest r" by fact+
  show "in_Validate h' = Ok ()" "ih_TenantID h' = ih_TenantID h" "ih_GrantID h' = ih_GrantID h"
    "ih_Generation h' = ih_Generation h"
    "ih_ChainHash h' = ''sha256:'' @ hex_encode (sha256 c (advance_frame (ih_ChainHash h) r))"
    using g assms(1) by (auto simp: h' in_Validate_def in_digest_sha [simplified] crypto_ok_def split: if_splits)
  have "1 + ih_Sequence h \<noteq> 0" using g(3) by (metis add.commute add_eq_0_iff)
  from unatSuc [OF this] show "unat (ih_Sequence h') = unat (ih_Sequence h) + 1" by (simp add: h' add.commute)
qed

lemma advance_all_valid:
  assumes "crypto_ok c" "in_Validate h = Ok ()" "advance_all c h rs = Ok h'"
  shows "in_Validate h' = Ok () \<and> ih_TenantID h' = ih_TenantID h \<and> ih_GrantID h' = ih_GrantID h \<and>
    ih_Generation h' = ih_Generation h \<and> unat (ih_Sequence h') = unat (ih_Sequence h) + length rs"
  using assms(2,3)
proof (induction rs arbitrary: h)
  case (Cons r rs)
  then obtain h1 where h1: "Advance c h r = Ok h1" "advance_all c h1 rs = Ok h'" by (auto simp: and_then_Inr_iff)
  note v = Advance_valid [OF assms(1) h1(1)]
  from Cons.IH [OF v(2) h1(2)] v show ?case by simp
qed simp

lemma advance_all_append:
  "advance_all c h (rs @ [r]) = and_then (advance_all c h rs) (\<lambda>h'. Advance c h' r)"
proof (induction rs arbitrary: h)
  case Nil
  then show ?case by (cases "Advance c h r") simp_all
next
  case (Cons a rs)
  then show ?case by (cases "Advance c h a") simp_all
qed

text \<open>The commitments hashed on the way from a head over a list of receipts.\<close>

fun commitments :: "crypto \<Rightarrow> bytes \<Rightarrow> bytes list \<Rightarrow> bytes set" where
  "commitments c chainHash [] = {}"
| "commitments c chainHash (r # rs) = insert (advance_frame chainHash r)
     (commitments c (''sha256:'' @ hex_encode (sha256 c (advance_frame chainHash r))) rs)"

lemma advance_frame_inj:
  "length a = length b \<Longrightarrow> advance_frame a x = advance_frame b y \<Longrightarrow> a = b \<and> x = y"
  by (simp add: advance_frame_def)

lemma commitments_append:
  assumes "crypto_ok c" "advance_all c h rs = Ok h'" 
  shows "commitments c (ih_ChainHash h) (rs @ [r]) =
    insert (advance_frame (ih_ChainHash h') r) (commitments c (ih_ChainHash h) rs)"
  using assms(2)
proof (induction rs arbitrary: h)
  case (Cons a rs)
  then obtain h1 where h1: "Advance c h a = Ok h1" "advance_all c h1 rs = Ok h'" by (auto simp: and_then_Inr_iff)
  from Cons.IH [OF h1(2)] Advance_valid(8) [OF assms(1) h1(1)] show ?case by auto
qed simp

lemma heads_determine_receipts:
  assumes "crypto_ok c" "in_Validate h = Ok ()" "advance_all c h rs = Ok a" "advance_all c h rs' = Ok b"
    "length rs = length rs'" "ih_ChainHash a = ih_ChainHash b"
    "inj_on (sha256 c) (commitments c (ih_ChainHash h) rs \<union> commitments c (ih_ChainHash h) rs')"
  shows "rs = rs'"
  using assms(3-7)
proof (induction rs arbitrary: rs' a b rule: rev_induct)
  case (snoc r rs)
  then obtain r' us where rs': "rs' = us @ [r']" "length us = length rs"
    by (metis length_append_singleton length_0_conv nat.simps(3) rev_exhaust add_right_cancel Suc_inject)
  obtain a1 where a1: "advance_all c h rs = Ok a1" "Advance c a1 r = Ok a"
    using snoc.prems(1) by (auto simp: advance_all_append and_then_Inr_iff)
  obtain b1 where b1: "advance_all c h us = Ok b1" "Advance c b1 r' = Ok b"
    using snoc.prems(2) by (auto simp: rs' advance_all_append and_then_Inr_iff)
  note va = Advance_valid [OF assms(1) a1(2)] and vb = Advance_valid [OF assms(1) b1(2)]
  note ca = commitments_append [OF assms(1) a1(1)] and cb = commitments_append [OF assms(1) b1(1)]
  have inj: "inj_on (sha256 c) (insert (advance_frame (ih_ChainHash a1) r) (commitments c (ih_ChainHash h) rs) \<union>
      insert (advance_frame (ih_ChainHash b1) r') (commitments c (ih_ChainHash h) us))"
    using snoc.prems(5) unfolding rs' ca cb .
  have "hex_encode (sha256 c (advance_frame (ih_ChainHash a1) r)) = hex_encode (sha256 c (advance_frame (ih_ChainHash b1) r'))"
    using snoc.prems(4) va(8) vb(8) by simp
  then have "sha256 c (advance_frame (ih_ChainHash a1) r) = sha256 c (advance_frame (ih_ChainHash b1) r')"
    by (rule hex_encode_inj)
  then have "advance_frame (ih_ChainHash a1) r = advance_frame (ih_ChainHash b1) r'"
    using inj_onD [OF inj] by blast
  moreover have "length (ih_ChainHash a1) = length (ih_ChainHash b1)"
    using va(1) vb(1) by (auto simp: in_Validate_def dest!: in_digest_length split: if_splits)
  ultimately have e: "ih_ChainHash a1 = ih_ChainHash b1" "r = r'" using advance_frame_inj by blast+
  have "inj_on (sha256 c) (commitments c (ih_ChainHash h) rs \<union> commitments c (ih_ChainHash h) us)"
    by (rule inj_on_subset [OF inj]) auto
  from snoc.IH [OF a1(1) b1(1) _ e(1) this] rs' e(2) show ?case by simp
qed simp

section \<open>Properties\<close>

text \<open>A context head counts and commits: advancing a genesis head over a list of receipts keeps the
  grant identity, gives a valid head whose sequence is the number of receipts, and, when SHA-256 does
  not collide on the commitments involved, two equally long histories with the same chain hash are the
  same history.\<close>

theorem influence_history:
  assumes "crypto_ok c" "Genesis c t g n = Ok h" "advance_all c h rs = Ok a" "advance_all c h rs' = Ok b"
    "length rs = length rs'"
    "inj_on (sha256 c) (commitments c (ih_ChainHash h) rs \<union> commitments c (ih_ChainHash h) rs')"
  shows "in_Validate a = Ok () \<and> ih_TenantID a = t \<and> ih_GrantID a = g \<and> ih_Generation a = n \<and>
    unat (ih_Sequence a) = length rs \<and> (ih_ChainHash a = ih_ChainHash b \<longleftrightarrow> rs = rs')"
proof -
  note v = Genesis_valid [OF assms(1,2)]
  have h: "ih_TenantID h = t" "ih_GrantID h = g" "ih_Generation h = n"
    using assms(2) by (auto simp: Genesis_def split: if_splits)
  note a = advance_all_valid [OF assms(1) conjunct1 [OF v] assms(3)]
  have "ih_ChainHash a = ih_ChainHash b \<longleftrightarrow> rs = rs'"
    using heads_determine_receipts [OF assms(1) conjunct1 [OF v] assms(3-5) _ assms(6)] assms(3,4) by auto
  with a h v show ?thesis by simp
qed

definition demo_grant :: bytes where "demo_grant = ''grant-'' @ replicate 64 (CHR ''a'')"

lemma demo_grant_identity: "in_grantIdentity demo_grant"
  using hex_decode_lower [of "replicate 64 (CHR ''a'')"]
  by (simp add: in_grantIdentity_def demo_grant_def has_prefix_def trim_prefix_def list_all_iff is_lower_hex_def)

lemma demo_tenant_identity: "in_publicIdentity ''tenant'' 128"
  by (simp add: in_publicIdentity_def trim_space_ascii is_space_def valid_utf8_ascii contains_nul_def)

definition demo_receipt :: bytes where "demo_receipt = ''sha256:'' @ replicate 64 (CHR ''b'')"

lemma demo_receipt_digest: "in_digest demo_receipt"
  using hex_decode_lower [of "replicate 64 (CHR ''b'')"]
  by (simp add: in_digest_def demo_receipt_def has_prefix_def trim_prefix_def list_all_iff is_lower_hex_def)

theorem influence_history_witness:
  "\<exists>h a. Genesis demo_crypto ''tenant'' demo_grant 1 = Ok h \<and> advance_all demo_crypto h [demo_receipt] = Ok a \<and>
    in_Validate a = Ok () \<and> unat (ih_Sequence a) = 1"
proof -
  obtain h where h: "Genesis demo_crypto ''tenant'' demo_grant 1 = Ok h" "in_Validate h = Ok ()" "ih_Sequence h = 0"
    using demo_grant_identity demo_tenant_identity Genesis_valid [OF demo_crypto_ok, of "''tenant''" demo_grant 1]
    by (auto simp: Genesis_def)
  then obtain a where a: "advance_all demo_crypto h [demo_receipt] = Ok a"
    using demo_receipt_digest by (auto simp: Advance_def)
  have "inj_on (sha256 demo_crypto) (commitments demo_crypto (ih_ChainHash h) [demo_receipt] \<union>
      commitments demo_crypto (ih_ChainHash h) [demo_receipt])" by simp
  from influence_history [OF demo_crypto_ok h(1) a a refl this] h a show ?thesis by simp
qed

lemma hex_decode_upper: "hex_decode (replicate (2 * n) (CHR ''A'')) \<noteq> None"
  by (induction n) (auto simp: from_hex_char_def)

text \<open>The validators of this package are wider than those of the permits and of the ledger: an
  upper-case spelling of a digest is accepted here although no other package produces or accepts it.\<close>

theorem influence_accepts_upper_case:
  "in_digest (''sha256:'' @ replicate 64 (CHR ''A'')) \<and> \<not> prefixed_hex ''sha256:'' (''sha256:'' @ replicate 64 (CHR ''A''))"
proof
  have "hex_decode (replicate 64 (CHR ''A'')) \<noteq> None" using hex_decode_upper [of 32] by simp
  then show "in_digest (''sha256:'' @ replicate 64 (CHR ''A''))"
    by (simp add: in_digest_def has_prefix_def trim_prefix_def)
  show "\<not> prefixed_hex ''sha256:'' (''sha256:'' @ replicate 64 (CHR ''A''))"
    by (auto simp: prefixed_hex_def list_all_iff is_lower_hex_def is_digit_def)
qed

end
