(* ===== verification/Ledger_Events.thy ===== *)
theory Ledger_Events
  imports Permit_Common "HOL-Library.AList"
begin

text \<open>
  \<open>internal/connectorledger\<close>, first part: the events and receipts of the ledger, their validation
  (\<open>validateEvent\<close>, \<open>validateRunControl\<close>, the ownership checks, the transitions of a call) and their JSON
  form. The string types \<open>Phase\<close>, \<open>Outcome\<close>, \<open>EventKind\<close> and \<open>TaskStatus\<close> are byte strings, as in Go:
  a decoded event may carry any value and is refused by validation.
\<close>

section \<open>Constants\<close>

definition MaxLineBytes :: nat where "MaxLineBytes = 131072"
definition MaxLogBytes :: int where "MaxLogBytes = 67108864"
definition MaxTenantBudgets :: nat where "MaxTenantBudgets = 128"
definition terminalReserveBytes :: int where "terminalReserveBytes = int MaxLineBytes + 1"
definition minimumTenantBytes :: int where "minimumTenantBytes = 2 * terminalReserveBytes"
definition TaskProtocolLifecycleV1 :: bytes where "TaskProtocolLifecycleV1 = ''steward.task-lifecycle.v1''"
definition cl_EffectModeAuthorized :: bytes where "cl_EffectModeAuthorized = ''authorized''"

definition Authorize :: bytes where "Authorize = ''authorize''"
definition Dispatch :: bytes where "Dispatch = ''dispatch''"
definition Deny :: bytes where "Deny = ''deny''"
definition Terminal :: bytes where "Terminal = ''terminal''"

definition Allowed :: bytes where "Allowed = ''allowed''"
definition Denied :: bytes where "Denied = ''denied''"
definition Responded :: bytes where "Responded = ''responded''"
definition Failed :: bytes where "Failed = ''failed''"

definition ConnectorCall :: bytes where "ConnectorCall = ''connector_call''"
definition ServiceTask :: bytes where "ServiceTask = ''service_task''"
definition InferenceAttempt :: bytes where "InferenceAttempt = ''inference_attempt''"

definition TaskStatusAgentReportedCompleted :: bytes where "TaskStatusAgentReportedCompleted = ''agent_reported_completed''"
definition TaskStatusAgentReportedFailed :: bytes where "TaskStatusAgentReportedFailed = ''agent_reported_failed''"
definition TaskStatusAgentReportedCancelled :: bytes where "TaskStatusAgentReportedCancelled = ''agent_reported_cancelled''"

lemmas phase_defs = Authorize_def Dispatch_def Deny_def Terminal_def
lemmas outcome_defs = Allowed_def Denied_def Responded_def Failed_def
lemmas kind_defs = ConnectorCall_def ServiceTask_def InferenceAttempt_def

lemma phases_distinct [simp]:
  "Authorize \<noteq> Dispatch" "Authorize \<noteq> Deny" "Authorize \<noteq> Terminal" "Dispatch \<noteq> Authorize" "Dispatch \<noteq> Deny"
  "Dispatch \<noteq> Terminal" "Deny \<noteq> Authorize" "Deny \<noteq> Dispatch" "Deny \<noteq> Terminal" "Terminal \<noteq> Authorize"
  "Terminal \<noteq> Dispatch" "Terminal \<noteq> Deny"
  by (simp_all add: phase_defs)

lemma outcomes_distinct [simp]:
  "Allowed \<noteq> Denied" "Allowed \<noteq> Responded" "Allowed \<noteq> Failed" "Denied \<noteq> Allowed" "Denied \<noteq> Responded" "Denied \<noteq> Failed"
  "Responded \<noteq> Allowed" "Responded \<noteq> Denied" "Responded \<noteq> Failed" "Failed \<noteq> Allowed" "Failed \<noteq> Denied" "Failed \<noteq> Responded"
  by (simp_all add: outcome_defs)

lemma kinds_distinct [simp]:
  "ConnectorCall \<noteq> ServiceTask" "ConnectorCall \<noteq> InferenceAttempt" "ServiceTask \<noteq> ConnectorCall" "ServiceTask \<noteq> InferenceAttempt"
  "InferenceAttempt \<noteq> ConnectorCall" "InferenceAttempt \<noteq> ServiceTask" "ConnectorCall \<noteq> []" "ServiceTask \<noteq> []" "InferenceAttempt \<noteq> []"
  by (simp_all add: kind_defs)

lemma protocol_nonempty [simp]: "TaskProtocolLifecycleV1 \<noteq> []" "cl_EffectModeAuthorized \<noteq> []"
  by (simp_all add: TaskProtocolLifecycleV1_def cl_EffectModeAuthorized_def)

section \<open>Data\<close>

record Event =
  ev_Phase :: bytes
  ev_Outcome :: bytes
  ev_Kind :: bytes
  ev_EffectMode :: bytes
  ev_TenantID :: bytes
  ev_RuntimeRef :: bytes
  ev_CapsuleDigest :: bytes
  ev_PolicyDigest :: bytes
  ev_RoutePolicyDigest :: bytes
  ev_Generation :: u64
  ev_GrantID :: bytes
  ev_ConnectorID :: bytes
  ev_ServiceID :: bytes
  ev_OperationID :: bytes
  ev_OperationPolicyDigest :: bytes
  ev_TaskDigest :: bytes
  ev_AuthorityKeyID :: bytes
  ev_AuthorityKeySet :: bytes
  ev_ApprovalThreshold :: int
  ev_PermitDigest :: bytes
  ev_RequestDigest :: bytes
  ev_HTTPStatus :: int
  ev_RequestBytes :: int
  ev_ResponseBytes :: int
  ev_ErrorCode :: bytes
  ev_RunID :: bytes
  ev_TaskProtocol :: bytes
  ev_TaskStatus :: bytes
  ev_ResultDigest :: bytes
  ev_InfluenceSequence :: u64
  ev_InfluenceHash :: bytes
  ev_ResponseDigest :: bytes
  ev_TargetRunID :: bytes
  ev_TargetTaskDigest :: bytes
  ev_InferenceTaskDigest :: bytes
  ev_InferencePermitDigest :: bytes
  ev_InferenceRequestDigest :: bytes

record Receipt =
  rc_SchemaVersion :: bytes
  rc_NodeID :: bytes
  rc_Epoch :: u64
  rc_Sequence :: u64
  rc_PreviousHash :: bytes
  rc_ObservedAt :: bytes
  rc_Event :: Event
  rc_TaskSequence :: u64
  rc_PreviousTaskHash :: bytes

record Head =
  hd_NodeID :: bytes
  hd_Epoch :: u64
  hd_Sequence :: u64
  hd_ChainHash :: bytes
  hd_KeyID :: bytes

record VerifiedReceipt =
  vf_Receipt :: Receipt
  vf_Raw :: bytes
  vf_Hash :: bytes

record taskCoordinate =
  tc_sequence :: u64
  tc_hash :: bytes

record runOwnership =
  ro_grantID :: bytes
  ro_serviceID :: bytes
  ro_runID :: bytes

record inferenceOwner =
  io_tenantID :: bytes
  io_grantID :: bytes

section \<open>Syntax checks\<close>

definition cl_validText :: "bytes \<Rightarrow> nat \<Rightarrow> bool" where
  "cl_validText value limit \<longleftrightarrow> value \<noteq> [] \<and> length value \<le> limit \<and> valid_utf8 value \<and> trim_space value = value \<and> \<not> contains_nul value"

definition cl_publicIdentity :: "bytes \<Rightarrow> nat \<Rightarrow> bool" where
  "cl_publicIdentity value limit \<longleftrightarrow>
     trim_space value \<noteq> [] \<and> length value \<le> limit \<and> valid_utf8 value \<and> \<not> contains_nul value"

text \<open>The loop over the characters of an identifier; \<open>index\<close> tells the first one apart.\<close>

fun identifier_chars :: "nat \<Rightarrow> bytes \<Rightarrow> bool" where
  "identifier_chars index [] = True"
| "identifier_chars index (character # rest) =
     ((is_upper character \<or> is_lower character \<or> is_digit character \<or>
       index > 0 \<and> (character = CHR ''.'' \<or> character = CHR ''_'' \<or> character = CHR ''-'')) \<and>
      identifier_chars (Suc index) rest)"

definition cl_identifier :: "bytes \<Rightarrow> bool" where
  "cl_identifier value \<longleftrightarrow> \<not> (value = [] \<or> length value > 128) \<and> identifier_chars 0 value"

definition cl_digest :: "bytes \<Rightarrow> bool" where
  "cl_digest value \<longleftrightarrow> has_prefix value ''sha256:'' \<and> length value = length ''sha256:'' + 64 \<and>
     (case hex_decode (trim_prefix value ''sha256:'') of
        None \<Rightarrow> False | Some decoded \<Rightarrow> hex_encode decoded = trim_prefix value ''sha256:'')"

definition cl_lowerHex :: "bytes \<Rightarrow> bool" where
  "cl_lowerHex value \<longleftrightarrow> list_all is_lower_hex value \<and> value \<noteq> []"

definition cl_runtimeRef :: "bytes \<Rightarrow> bool" where
  "cl_runtimeRef value \<longleftrightarrow> has_prefix value ''executor-'' \<and> length value = length ''executor-'' + 64 \<and>
     cl_lowerHex (drop (length ''executor-'') value)"

definition cl_grantID :: "bytes \<Rightarrow> bool" where
  "cl_grantID value \<longleftrightarrow> has_prefix value ''grant-'' \<and> length value = length ''grant-'' + 64 \<and>
     cl_lowerHex (drop (length ''grant-'') value)"

definition serviceTaskSuccessStatus :: "int \<Rightarrow> bool" where
  "serviceTaskSuccessStatus status \<longleftrightarrow> status = 200 \<or> status = 201 \<or> status = 202"

definition validTaskStatus :: "bytes \<Rightarrow> bool" where
  "validTaskStatus status \<longleftrightarrow> status = TaskStatusAgentReportedCompleted \<or> status = TaskStatusAgentReportedFailed \<or>
     status = TaskStatusAgentReportedCancelled"

section \<open>Run control\<close>

text \<open>The regular expression \<open>^run_[0-9a-f]{32}$\<close>.\<close>

definition hermesRunID :: "bytes \<Rightarrow> bool" where
  "hermesRunID s \<longleftrightarrow> length s = 36 \<and> has_prefix s ''run_'' \<and> list_all is_lower_hex (drop 4 s)"

definition HermesStopRequest :: "bytes \<Rightarrow> bytes result" where
  "HermesStopRequest runID =
     (if \<not> hermesRunID runID then errorf ''stop target is not a native Hermes run identity''
      else Ok ([CHR 0x7B, CHR 0x22] @ ''run_id'' @ [CHR 0x22, CHR 0x3A, CHR 0x22] @ runID @ [CHR 0x22, CHR 0x7D]))"

definition validateRunControl :: "crypto \<Rightarrow> Event \<Rightarrow> unit result" where
  "validateRunControl c event =
     (if ev_TargetTaskDigest event = [] \<and> ev_TargetRunID event = [] then Ok ()
      else and_then (HermesStopRequest (ev_TargetRunID event)) (\<lambda>body.
        if ev_Kind event \<noteq> ServiceTask \<or> ev_TaskProtocol event \<noteq> TaskProtocolLifecycleV1 \<or>
           ev_OperationID event \<noteq> ''hermes.stop'' \<or> \<not> cl_digest (ev_TargetTaskDigest event) \<or>
           ev_TargetTaskDigest event = ev_TaskDigest event \<or> ev_Phase event = Deny \<or>
           ev_RequestBytes event \<noteq> int (length body) \<or>
           ev_RequestDigest event \<noteq> ''sha256:'' @ hex_encode (sha256 c body) \<or>
           (ev_RunID event \<noteq> [] \<and> ev_RunID event \<noteq> ev_TargetRunID event)
        then errorf ''stop receipt does not bind one canonical request and original task''
        else Ok ()))"

definition validateRunControlOwner :: "Event \<Rightarrow> (runOwnership \<Rightarrow> Event option) \<Rightarrow> unit result" where
  "validateRunControlOwner event owners =
     (if ev_TargetTaskDigest event = [] then Ok ()
      else (case owners \<lparr>ro_grantID = ev_GrantID event, ro_serviceID = ev_ServiceID event, ro_runID = ev_TargetRunID event\<rparr> of
              None \<Rightarrow> errorf ''stop receipt has no matching previously dispatched task''
            | Some owner \<Rightarrow>
                if ev_TaskDigest owner \<noteq> ev_TargetTaskDigest event \<or> ev_TargetTaskDigest owner \<noteq> [] \<or>
                   ev_Kind owner \<noteq> ServiceTask \<or> ev_TaskProtocol owner \<noteq> TaskProtocolLifecycleV1 \<or>
                   ev_TenantID owner \<noteq> ev_TenantID event \<or> ev_RuntimeRef owner \<noteq> ev_RuntimeRef event \<or>
                   ev_CapsuleDigest owner \<noteq> ev_CapsuleDigest event \<or> ev_PolicyDigest owner \<noteq> ev_PolicyDigest event \<or>
                   ev_RoutePolicyDigest owner \<noteq> ev_RoutePolicyDigest event \<or> ev_Generation owner \<noteq> ev_Generation event \<or>
                   ev_AuthorityKeyID owner \<noteq> ev_AuthorityKeyID event
                then errorf ''stop receipt has no matching previously dispatched task''
                else Ok ()))"

definition runOwnershipFor :: "Event \<Rightarrow> runOwnership" where
  "runOwnershipFor event = \<lparr>ro_grantID = ev_GrantID event, ro_serviceID = ev_ServiceID event, ro_runID = ev_RunID event\<rparr>"

definition validateInferenceScopeOwner :: "Event \<Rightarrow> (bytes \<times> Event) list \<Rightarrow> unit result" where
  "validateInferenceScopeOwner event pending =
     (if ev_InferenceTaskDigest event = [] then Ok ()
      else (case map_of pending (ev_InferenceTaskDigest event) of
              None \<Rightarrow> wrap_err ErrInferenceScopeDenied []
            | Some parent \<Rightarrow>
                if ev_Kind parent \<noteq> ServiceTask \<or> ev_TaskProtocol parent \<noteq> TaskProtocolLifecycleV1 \<or>
                   ev_TargetTaskDigest parent \<noteq> [] \<or> ev_TenantID parent \<noteq> ev_TenantID event \<or>
                   ev_RuntimeRef parent \<noteq> ev_RuntimeRef event \<or> ev_CapsuleDigest parent \<noteq> ev_CapsuleDigest event \<or>
                   ev_PolicyDigest parent \<noteq> ev_PolicyDigest event \<or> ev_RoutePolicyDigest parent \<noteq> ev_RoutePolicyDigest event \<or>
                   ev_GrantID parent \<noteq> ev_GrantID event \<or> ev_Generation parent \<noteq> ev_Generation event \<or>
                   ev_PermitDigest parent \<noteq> ev_InferencePermitDigest event \<or>
                   ev_RequestDigest parent \<noteq> ev_InferenceRequestDigest event
                then wrap_err ErrInferenceScopeDenied []
                else Ok ()))"

section \<open>Transitions of a call\<close>

definition sameCall :: "Event \<Rightarrow> Event \<Rightarrow> bool" where
  "sameCall left right \<longleftrightarrow>
     ev_Kind left = ev_Kind right \<and> ev_EffectMode left = ev_EffectMode right \<and> ev_TenantID left = ev_TenantID right \<and>
     ev_RuntimeRef left = ev_RuntimeRef right \<and> ev_CapsuleDigest left = ev_CapsuleDigest right \<and>
     ev_PolicyDigest left = ev_PolicyDigest right \<and> ev_RoutePolicyDigest left = ev_RoutePolicyDigest right \<and>
     ev_Generation left = ev_Generation right \<and> ev_GrantID left = ev_GrantID right \<and>
     ev_ConnectorID left = ev_ConnectorID right \<and> ev_ServiceID left = ev_ServiceID right \<and>
     ev_OperationID left = ev_OperationID right \<and> ev_OperationPolicyDigest left = ev_OperationPolicyDigest right \<and>
     ev_TaskDigest left = ev_TaskDigest right \<and> ev_AuthorityKeyID left = ev_AuthorityKeyID right \<and>
     ev_AuthorityKeySet left = ev_AuthorityKeySet right \<and> ev_ApprovalThreshold left = ev_ApprovalThreshold right \<and>
     ev_PermitDigest left = ev_PermitDigest right \<and> ev_RequestDigest left = ev_RequestDigest right \<and>
     ev_RequestBytes left = ev_RequestBytes right \<and> ev_TaskProtocol left = ev_TaskProtocol right \<and>
     ev_InfluenceSequence left = ev_InfluenceSequence right \<and> ev_InfluenceHash left = ev_InfluenceHash right \<and>
     ev_TargetRunID left = ev_TargetRunID right \<and> ev_TargetTaskDigest left = ev_TargetTaskDigest right \<and>
     ev_InferenceTaskDigest left = ev_InferenceTaskDigest right \<and>
     ev_InferencePermitDigest left = ev_InferencePermitDigest right \<and>
     ev_InferenceRequestDigest left = ev_InferenceRequestDigest right"

definition validateTransition :: "Event \<Rightarrow> Event \<Rightarrow> unit result" where
  "validateTransition previous nxt =
     (if \<not> sameCall previous nxt then errorf ''connector lifecycle event does not match its authorization''
      else if ev_TaskProtocol previous = [] then
        (if ev_Phase previous \<noteq> Authorize \<or> ev_Phase nxt \<noteq> Terminal
         then errorf ''legacy connector call has an invalid phase transition'' else Ok ())
      else if ev_Phase previous = Authorize \<and>
        (ev_Phase nxt = Dispatch \<or>
         ev_Phase nxt = Terminal \<and> ev_Outcome nxt = Failed \<and> ev_RunID nxt = [] \<and> ev_TaskStatus nxt = [])
      then Ok ()
      else if ev_Phase previous = Dispatch \<and> ev_Phase nxt = Terminal \<and> ev_RunID nxt = ev_RunID previous \<and>
        (ev_Outcome nxt = Responded \<and> ev_TaskStatus nxt \<noteq> [] \<or> ev_Outcome nxt = Failed \<and> ev_TaskStatus nxt = [])
      then Ok ()
      else errorf ''connector lifecycle event has an invalid phase transition'')"

definition pendingReservation :: "Event \<Rightarrow> int" where
  "pendingReservation event =
     (if ev_TaskProtocol event = TaskProtocolLifecycleV1 \<and> ev_Phase event = Authorize
      then 2 * terminalReserveBytes else terminalReserveBytes)"

section \<open>Validation of events\<close>

text \<open>\<open>validateEvent\<close> is one function of the source; its consecutive parts are separate definitions here.\<close>

definition event_scope :: "Event \<Rightarrow> unit result" where
  "event_scope event =
     (if (ev_InferenceTaskDigest event \<noteq> [] \<or> ev_InferencePermitDigest event \<noteq> [] \<or> ev_InferenceRequestDigest event \<noteq> []) \<and>
         (ev_Kind event \<noteq> InferenceAttempt \<or> \<not> cl_digest (ev_InferenceTaskDigest event) \<or>
          \<not> cl_digest (ev_InferencePermitDigest event) \<or> \<not> cl_digest (ev_InferenceRequestDigest event) \<or>
          ev_InferenceTaskDigest event = ev_TaskDigest event)
      then errorf ''inference scope requires a distinct task and its exact permit and request digests''
      else Ok ())"

definition event_bounds :: "Event \<Rightarrow> unit result" where
  "event_bounds event =
     (if \<not> cl_publicIdentity (ev_TenantID event) 128 \<or> \<not> cl_runtimeRef (ev_RuntimeRef event) \<or>
         \<not> cl_digest (ev_CapsuleDigest event) \<or> \<not> cl_digest (ev_PolicyDigest event) \<or> \<not> cl_digest (ev_RoutePolicyDigest event) \<or>
         ev_Generation event = 0 \<or> \<not> cl_grantID (ev_GrantID event) \<or> \<not> cl_identifier (ev_OperationID event) \<or>
         \<not> cl_digest (ev_TaskDigest event) \<or> ev_RequestBytes event < 0 \<or> ev_RequestBytes event > 2 ^ 30 \<or>
         ev_ResponseBytes event < 0 \<or> ev_ResponseBytes event > 2 ^ 30 \<or> ev_HTTPStatus event < 0 \<or> ev_HTTPStatus event > 599 \<or>
         (ev_ErrorCode event \<noteq> [] \<and> \<not> cl_identifier (ev_ErrorCode event))
      then errorf ''invalid bounded connector event''
      else if (ev_InfluenceSequence event \<noteq> 0 \<and> ev_InfluenceHash event = []) \<or>
         (ev_InfluenceHash event \<noteq> [] \<and> \<not> cl_digest (ev_InfluenceHash event)) \<or>
         (ev_ResponseDigest event \<noteq> [] \<and> \<not> cl_digest (ev_ResponseDigest event))
      then errorf ''connector influence context is invalid''
      else Ok ())"

fun canonical_keys :: "bytes list \<Rightarrow> bool" where
  "canonical_keys [] = True"
| "canonical_keys [k] = cl_identifier k"
| "canonical_keys (k # k' # ks) = (cl_identifier k \<and> k < k' \<and> canonical_keys (k' # ks))"

definition event_authority :: "Event \<Rightarrow> unit result" where
  "event_authority event =
     (let authorizedDenial = ev_Kind event = ConnectorCall \<and> ev_EffectMode event = cl_EffectModeAuthorized \<and> ev_Phase event = Deny
      in if authorizedDenial \<and>
           (ev_AuthorityKeyID event \<noteq> [] \<or> ev_AuthorityKeySet event \<noteq> [] \<or> ev_ApprovalThreshold event \<noteq> 0 \<or>
            ev_PermitDigest event \<noteq> [] \<or> \<not> cl_digest (ev_RequestDigest event))
         then errorf ''authorized connector denial must bind the request without claiming a permit authority''
         else if \<not> authorizedDenial \<and>
           ((ev_PermitDigest event = []) \<noteq> (ev_RequestDigest event = []) \<or>
            (ev_PermitDigest event = []) \<noteq> (ev_AuthorityKeyID event = [] \<and> ev_AuthorityKeySet event = []) \<or>
            ev_PermitDigest event \<noteq> [] \<and> (\<not> cl_digest (ev_PermitDigest event) \<or> \<not> cl_digest (ev_RequestDigest event)))
         then errorf ''connector permit and request digests must be valid and present together''
         else if ev_AuthorityKeyID event \<noteq> [] \<and> \<not> cl_identifier (ev_AuthorityKeyID event)
         then errorf ''connector action authority key ID is invalid''
         else if ev_AuthorityKeySet event \<noteq> [] then
           (let keyIDs = split_on (CHR '','') (ev_AuthorityKeySet event)
            in if ev_AuthorityKeyID event \<noteq> [] \<or> ev_ApprovalThreshold event < 2 \<or>
                 ev_ApprovalThreshold event \<noteq> int (length keyIDs) \<or> length keyIDs > 8
               then errorf ''connector multi-party approval authority set is invalid''
               else if \<not> canonical_keys keyIDs
               then errorf ''connector multi-party approval key IDs are not canonical''
               else Ok ())
         else if ev_ApprovalThreshold event \<noteq> 0 then errorf ''connector approval threshold has no authority set''
         else Ok ())"

definition inference_fields :: "Event \<Rightarrow> unit result" where
  "inference_fields event =
     (if ev_Phase event \<noteq> Authorize \<and> ev_Phase event \<noteq> Terminal \<or> ev_RequestBytes event = 0 \<or>
         ev_EffectMode event \<noteq> [] \<or> ev_ConnectorID event \<noteq> [] \<or> ev_ServiceID event \<noteq> [] \<or>
         ev_OperationPolicyDigest event \<noteq> [] \<or> ev_AuthorityKeyID event \<noteq> [] \<or> ev_AuthorityKeySet event \<noteq> [] \<or>
         ev_ApprovalThreshold event \<noteq> 0 \<or> ev_PermitDigest event \<noteq> [] \<or> ev_RequestDigest event \<noteq> [] \<or>
         ev_RunID event \<noteq> [] \<or> ev_TaskProtocol event \<noteq> [] \<or> ev_TaskStatus event \<noteq> [] \<or> ev_ResultDigest event \<noteq> [] \<or>
         ev_InfluenceHash event \<noteq> [] \<or> ev_ResponseDigest event \<noteq> [] \<or> ev_ResponseBytes event \<noteq> 0
      then errorf ''inference attempt contains task authority or output claims'' else Ok ())"

definition legacy_fields :: "Event \<Rightarrow> unit result" where
  "legacy_fields event =
     (if ev_EffectMode event \<noteq> [] \<or> \<not> cl_identifier (ev_ConnectorID event) \<or> ev_ServiceID event \<noteq> [] \<or>
         ev_OperationPolicyDigest event \<noteq> [] \<or> ev_RunID event \<noteq> [] \<or> ev_TaskProtocol event \<noteq> [] \<or>
         ev_TaskStatus event \<noteq> [] \<or> ev_ResultDigest event \<noteq> []
      then errorf ''legacy connector event contains service task fields'' else Ok ())"

definition connector_fields :: "Event \<Rightarrow> unit result" where
  "connector_fields event =
     (if \<not> cl_identifier (ev_ConnectorID event) \<or> ev_ServiceID event \<noteq> [] \<or> ev_RunID event \<noteq> [] \<or>
         ev_TaskProtocol event \<noteq> [] \<or> ev_TaskStatus event \<noteq> [] \<or> ev_ResultDigest event \<noteq> []
      then errorf ''connector call event contains incoherent fields''
      else if ev_EffectMode event = [] \<and> ev_OperationPolicyDigest event \<noteq> []
      then errorf ''legacy connector call contains an operation policy digest''
      else if ev_EffectMode event = cl_EffectModeAuthorized \<and> \<not> cl_digest (ev_OperationPolicyDigest event)
      then errorf ''authorized connector call requires an operation policy digest''
      else if ev_EffectMode event = cl_EffectModeAuthorized \<and> (ev_Phase event = Authorize \<or> ev_Phase event = Terminal) \<and>
         (ev_AuthorityKeyID event = [] \<and> ev_AuthorityKeySet event = [] \<or> ev_PermitDigest event = [] \<or> ev_RequestDigest event = [])
      then errorf ''authorized connector call requires permit and request bindings''
      else if ev_EffectMode event \<noteq> [] \<and> ev_EffectMode event \<noteq> cl_EffectModeAuthorized
      then errorf ''connector call uses an unsupported effect mode''
      else if ev_ResponseDigest event \<noteq> [] \<and> (ev_Phase event \<noteq> Terminal \<or> ev_Outcome event \<noteq> Responded)
      then errorf ''connector response digest requires a responded terminal event''
      else if ev_InfluenceHash event \<noteq> [] \<and> ev_Phase event = Terminal \<and> ev_Outcome event = Responded \<and>
         \<not> cl_digest (ev_ResponseDigest event)
      then errorf ''context-bound connector response requires a response digest''
      else Ok ())"

definition lifecycle_fields :: "Event \<Rightarrow> unit result" where
  "lifecycle_fields event =
     (if ev_TaskProtocol event \<noteq> TaskProtocolLifecycleV1 then errorf ''service task uses an unsupported lifecycle protocol''
      else if ev_Phase event = Authorize then
        (if ev_RunID event \<noteq> [] \<or> ev_TaskStatus event \<noteq> [] \<or> ev_ResultDigest event \<noteq> []
         then errorf ''lifecycle authorization contains service output'' else Ok ())
      else if ev_Phase event = Dispatch then
        (if ev_Outcome event \<noteq> Responded \<or> \<not> serviceTaskSuccessStatus (ev_HTTPStatus event) \<or> ev_ResponseBytes event = 0 \<or>
            \<not> cl_identifier (ev_RunID event) \<or> ev_TaskStatus event \<noteq> [] \<or> ev_ResultDigest event \<noteq> [] \<or> ev_ErrorCode event \<noteq> []
         then errorf ''invalid lifecycle dispatch event'' else Ok ())
      else if ev_Phase event = Terminal then
        (if ev_TaskStatus event = [] then
           (if ev_Outcome event \<noteq> Failed \<or> ev_ResultDigest event \<noteq> [] \<or> ev_RunID event \<noteq> [] \<and> \<not> cl_identifier (ev_RunID event)
            then errorf ''invalid lifecycle terminal failure'' else Ok ())
         else if \<not> validTaskStatus (ev_TaskStatus event) \<or> ev_Outcome event \<noteq> Responded \<or> ev_HTTPStatus event \<noteq> 200 \<or>
            ev_ResponseBytes event = 0 \<or> \<not> cl_identifier (ev_RunID event) \<or> \<not> cl_digest (ev_ResultDigest event) \<or> ev_ErrorCode event \<noteq> []
         then errorf ''invalid agent-reported lifecycle terminal event'' else Ok ())
      else errorf ''invalid lifecycle service task phase'')"

definition service_fields :: "Event \<Rightarrow> unit result" where
  "service_fields event =
     (if ev_EffectMode event \<noteq> [] \<or> ev_ConnectorID event \<noteq> [] \<or> \<not> cl_identifier (ev_ServiceID event) \<or>
         \<not> cl_digest (ev_OperationPolicyDigest event)
      then errorf ''service task event contains incoherent fields''
      else if (ev_Phase event = Authorize \<or> ev_Phase event = Dispatch \<or> ev_Phase event = Terminal) \<and>
         (ev_AuthorityKeyID event = [] \<or> ev_PermitDigest event = [] \<or> ev_RequestDigest event = [] \<or> ev_RequestBytes event = 0)
      then errorf ''service task authorization requires permit and request bindings''
      else if ev_TaskProtocol event = [] then
        (if ev_Phase event = Dispatch \<or> ev_TaskStatus event \<noteq> [] \<or> ev_ResultDigest event \<noteq> []
         then errorf ''legacy service task contains lifecycle fields''
         else (let success = ev_Phase event = Terminal \<and> ev_Outcome event = Responded \<and> serviceTaskSuccessStatus (ev_HTTPStatus event)
               in if success \<noteq> (ev_RunID event \<noteq> []) \<or> ev_RunID event \<noteq> [] \<and> \<not> cl_identifier (ev_RunID event)
                  then errorf ''service task run ID does not match a successful terminal response'' else Ok ()))
      else lifecycle_fields event)"

definition event_kind :: "Event \<Rightarrow> unit result" where
  "event_kind event =
     (if ev_Kind event = InferenceAttempt then inference_fields event
      else if ev_Kind event = [] then legacy_fields event
      else if ev_Kind event = ConnectorCall then connector_fields event
      else if ev_Kind event = ServiceTask then service_fields event
      else errorf ''invalid connector receipt event kind'')"

definition event_phase :: "Event \<Rightarrow> unit result" where
  "event_phase event =
     (if ev_Phase event = Authorize then
        (if ev_Outcome event \<noteq> Allowed \<or> ev_HTTPStatus event \<noteq> 0 \<or> ev_ResponseBytes event \<noteq> 0 \<or> ev_ErrorCode event \<noteq> []
         then errorf ''invalid connector authorization event'' else Ok ())
      else if ev_Phase event = Deny then
        (if ev_Outcome event \<noteq> Denied \<or> ev_HTTPStatus event \<noteq> 0 \<or> ev_ResponseBytes event \<noteq> 0 \<or> ev_ErrorCode event = []
         then errorf ''invalid connector denial event'' else Ok ())
      else if ev_Phase event = Dispatch then
        (if ev_Kind event \<noteq> ServiceTask \<or> ev_TaskProtocol event \<noteq> TaskProtocolLifecycleV1 \<or> ev_Outcome event \<noteq> Responded \<or>
            ev_HTTPStatus event < 100 \<or> ev_HTTPStatus event > 599 \<or> ev_ErrorCode event \<noteq> []
         then errorf ''invalid connector dispatch event'' else Ok ())
      else if ev_Phase event = Terminal then
        (if ev_Outcome event \<noteq> Responded \<and> ev_Outcome event \<noteq> Failed then errorf ''invalid connector terminal outcome''
         else if ev_Outcome event = Responded \<and> (ev_HTTPStatus event < 100 \<or> ev_HTTPStatus event > 599 \<or> ev_ErrorCode event \<noteq> [])
         then errorf ''responded connector outcome requires an HTTP status and no transport error''
         else if ev_Outcome event = Failed \<and> ev_ErrorCode event = [] then errorf ''failed connector outcome requires an error code''
         else Ok ())
      else errorf ''invalid connector phase'')"

definition validateEvent :: "crypto \<Rightarrow> Event \<Rightarrow> unit result" where
  "validateEvent c event =
     and_then (event_scope event) (\<lambda>_.
     and_then (validateRunControl c event) (\<lambda>_.
     and_then (event_bounds event) (\<lambda>_.
     and_then (event_authority event) (\<lambda>_.
     and_then (event_kind event) (\<lambda>_. event_phase event)))))"

section \<open>Receipts as JSON\<close>

text \<open>
  The members of a struct, with \<open>None\<close> for a member that \<open>omitempty\<close> leaves out.
\<close>

definition present :: "(bytes \<times> json option) list \<Rightarrow> (bytes \<times> json) list" where
  "present fs = map (\<lambda>f. (fst f, the (snd f))) (filter (\<lambda>f. snd f \<noteq> None) fs)"

definition str_opt :: "bytes \<Rightarrow> json option" where "str_opt s = (if s = [] then None else Some (JStr s))"
definition int_opt :: "int \<Rightarrow> json option" where "int_opt i = (if i = 0 then None else Some (i64_json i))"
definition u64_opt :: "u64 \<Rightarrow> json option" where "u64_opt w = (if w = 0 then None else Some (u64_json w))"

definition event_fields :: "Event \<Rightarrow> (bytes \<times> json option) list" where
  "event_fields e =
     [(''phase'', Some (JStr (ev_Phase e))), (''outcome'', Some (JStr (ev_Outcome e))), (''kind'', str_opt (ev_Kind e)),
      (''effect_mode'', str_opt (ev_EffectMode e)), (''tenant_id'', Some (JStr (ev_TenantID e))),
      (''runtime_ref'', Some (JStr (ev_RuntimeRef e))), (''capsule_digest'', Some (JStr (ev_CapsuleDigest e))),
      (''policy_digest'', Some (JStr (ev_PolicyDigest e))), (''route_policy_digest'', Some (JStr (ev_RoutePolicyDigest e))),
      (''generation'', Some (u64_json (ev_Generation e))), (''grant_id'', Some (JStr (ev_GrantID e))),
      (''connector_id'', Some (JStr (ev_ConnectorID e))), (''service_id'', str_opt (ev_ServiceID e)),
      (''operation_id'', Some (JStr (ev_OperationID e))), (''operation_policy_digest'', str_opt (ev_OperationPolicyDigest e)),
      (''task_digest'', Some (JStr (ev_TaskDigest e))), (''authority_key_id'', str_opt (ev_AuthorityKeyID e)),
      (''authority_key_set'', str_opt (ev_AuthorityKeySet e)), (''approval_threshold'', int_opt (ev_ApprovalThreshold e)),
      (''permit_digest'', str_opt (ev_PermitDigest e)), (''request_digest'', str_opt (ev_RequestDigest e)),
      (''http_status'', int_opt (ev_HTTPStatus e)), (''request_bytes'', Some (i64_json (ev_RequestBytes e))),
      (''response_bytes'', Some (i64_json (ev_ResponseBytes e))), (''error_code'', str_opt (ev_ErrorCode e)),
      (''run_id'', str_opt (ev_RunID e)), (''task_protocol'', str_opt (ev_TaskProtocol e)),
      (''task_status'', str_opt (ev_TaskStatus e)), (''result_digest'', str_opt (ev_ResultDigest e)),
      (''influence_sequence'', u64_opt (ev_InfluenceSequence e)), (''influence_hash'', str_opt (ev_InfluenceHash e)),
      (''response_digest'', str_opt (ev_ResponseDigest e)), (''target_run_id'', str_opt (ev_TargetRunID e)),
      (''target_task_digest'', str_opt (ev_TargetTaskDigest e)), (''inference_task_digest'', str_opt (ev_InferenceTaskDigest e)),
      (''inference_permit_digest'', str_opt (ev_InferencePermitDigest e)),
      (''inference_request_digest'', str_opt (ev_InferenceRequestDigest e))]"

definition event_json :: "Event \<Rightarrow> json" where
  "event_json e = JObj (present (event_fields e))"

definition receipt_fields :: "Receipt \<Rightarrow> (bytes \<times> json option) list" where
  "receipt_fields r =
     [(''schema_version'', Some (JStr (rc_SchemaVersion r))), (''node_id'', Some (JStr (rc_NodeID r))),
      (''epoch'', Some (u64_json (rc_Epoch r))), (''sequence'', Some (u64_json (rc_Sequence r))),
      (''previous_hash'', Some (JStr (rc_PreviousHash r))), (''observed_at'', Some (JStr (rc_ObservedAt r))),
      (''event'', Some (event_json (rc_Event r))), (''task_sequence'', u64_opt (rc_TaskSequence r)),
      (''previous_task_hash'', str_opt (rc_PreviousTaskHash r))]"

definition receipt_json :: "Receipt \<Rightarrow> json" where
  "receipt_json r = JObj (present (receipt_fields r))"

definition event_type :: gotype where
  "event_type = TStruct
     [(''phase'', TString), (''outcome'', TString), (''kind'', TString), (''effect_mode'', TString), (''tenant_id'', TString),
      (''runtime_ref'', TString), (''capsule_digest'', TString), (''policy_digest'', TString), (''route_policy_digest'', TString),
      (''generation'', TUint64), (''grant_id'', TString), (''connector_id'', TString), (''service_id'', TString),
      (''operation_id'', TString), (''operation_policy_digest'', TString), (''task_digest'', TString),
      (''authority_key_id'', TString), (''authority_key_set'', TString), (''approval_threshold'', TInt64),
      (''permit_digest'', TString), (''request_digest'', TString), (''http_status'', TInt64), (''request_bytes'', TInt64),
      (''response_bytes'', TInt64), (''error_code'', TString), (''run_id'', TString), (''task_protocol'', TString),
      (''task_status'', TString), (''result_digest'', TString), (''influence_sequence'', TUint64), (''influence_hash'', TString),
      (''response_digest'', TString), (''target_run_id'', TString), (''target_task_digest'', TString),
      (''inference_task_digest'', TString), (''inference_permit_digest'', TString), (''inference_request_digest'', TString)]"

definition receipt_type :: gotype where
  "receipt_type = TStruct
     [(''schema_version'', TString), (''node_id'', TString), (''epoch'', TUint64), (''sequence'', TUint64), (''previous_hash'', TString),
      (''observed_at'', TString), (''event'', event_type), (''task_sequence'', TUint64), (''previous_task_hash'', TString)]"

definition zero_or :: "'a::zero option \<Rightarrow> 'a" where
  "zero_or x = (case x of None \<Rightarrow> 0 | Some v \<Rightarrow> v)"

definition event_of_json :: "json \<Rightarrow> Event" where
  "event_of_json v =
     \<lparr>ev_Phase = str_member ''phase'' v, ev_Outcome = str_member ''outcome'' v, ev_Kind = str_member ''kind'' v,
      ev_EffectMode = str_member ''effect_mode'' v, ev_TenantID = str_member ''tenant_id'' v,
      ev_RuntimeRef = str_member ''runtime_ref'' v, ev_CapsuleDigest = str_member ''capsule_digest'' v,
      ev_PolicyDigest = str_member ''policy_digest'' v, ev_RoutePolicyDigest = str_member ''route_policy_digest'' v,
      ev_Generation = zero_or (opt_u64 ''generation'' v), ev_GrantID = str_member ''grant_id'' v,
      ev_ConnectorID = str_member ''connector_id'' v, ev_ServiceID = str_member ''service_id'' v,
      ev_OperationID = str_member ''operation_id'' v, ev_OperationPolicyDigest = str_member ''operation_policy_digest'' v,
      ev_TaskDigest = str_member ''task_digest'' v, ev_AuthorityKeyID = str_member ''authority_key_id'' v,
      ev_AuthorityKeySet = str_member ''authority_key_set'' v, ev_ApprovalThreshold = zero_or (opt_i64 ''approval_threshold'' v),
      ev_PermitDigest = str_member ''permit_digest'' v, ev_RequestDigest = str_member ''request_digest'' v,
      ev_HTTPStatus = zero_or (opt_i64 ''http_status'' v), ev_RequestBytes = zero_or (opt_i64 ''request_bytes'' v),
      ev_ResponseBytes = zero_or (opt_i64 ''response_bytes'' v), ev_ErrorCode = str_member ''error_code'' v,
      ev_RunID = str_member ''run_id'' v, ev_TaskProtocol = str_member ''task_protocol'' v,
      ev_TaskStatus = str_member ''task_status'' v, ev_ResultDigest = str_member ''result_digest'' v,
      ev_InfluenceSequence = zero_or (opt_u64 ''influence_sequence'' v), ev_InfluenceHash = str_member ''influence_hash'' v,
      ev_ResponseDigest = str_member ''response_digest'' v, ev_TargetRunID = str_member ''target_run_id'' v,
      ev_TargetTaskDigest = str_member ''target_task_digest'' v, ev_InferenceTaskDigest = str_member ''inference_task_digest'' v,
      ev_InferencePermitDigest = str_member ''inference_permit_digest'' v,
      ev_InferenceRequestDigest = str_member ''inference_request_digest'' v\<rparr>"

definition receipt_of_json :: "json \<Rightarrow> Receipt" where
  "receipt_of_json v =
     \<lparr>rc_SchemaVersion = str_member ''schema_version'' v, rc_NodeID = str_member ''node_id'' v,
      rc_Epoch = zero_or (opt_u64 ''epoch'' v), rc_Sequence = zero_or (opt_u64 ''sequence'' v),
      rc_PreviousHash = str_member ''previous_hash'' v, rc_ObservedAt = str_member ''observed_at'' v,
      rc_Event = event_of_json (case member ''event'' v of None \<Rightarrow> JObj [] | Some x \<Rightarrow> x),
      rc_TaskSequence = zero_or (opt_u64 ''task_sequence'' v), rc_PreviousTaskHash = str_member ''previous_task_hash'' v\<rparr>"

text \<open>\<open>DecodeStrictInto(payload, MaxLineBytes, &receipt)\<close>.\<close>

definition decode_receipt :: "bytes \<Rightarrow> Receipt result" where
  "decode_receipt payload =
     and_then (DecodeStrictInto payload MaxLineBytes receipt_type) (\<lambda>v. Ok (receipt_of_json v))"

end
