(* ===== verification/Ledger_Wire.thy ===== *)
theory Ledger_Wire
  imports Ledger_Events
begin

text \<open>
  Receipts on disk. A receipt of a valid event prints to a bounded JSON document that decodes to the
  same receipt: nothing that \<open>validateEvent\<close> admits is too long for a ledger line, and nothing is lost
  by \<open>omitempty\<close>.
\<close>

section \<open>The syntax checks\<close>

lemma reencoded_hex_iff:
  "has_prefix s p \<and> length s = length p + 64 \<and>
     (case hex_decode (trim_prefix s p) of None \<Rightarrow> False | Some d \<Rightarrow> hex_encode d = trim_prefix s p) \<longleftrightarrow> prefixed_hex p s"
  using hex_reencode_iff [of "drop (length p) s"]
  by (auto simp: prefixed_hex_iff trim_prefix_def list_all_iff split: option.splits)

lemma cl_digest_iff: "cl_digest s \<longleftrightarrow> prefixed_hex ''sha256:'' s"
  unfolding cl_digest_def by (rule reencoded_hex_iff)

lemma cl_runtimeRef_iff: "cl_runtimeRef s \<longleftrightarrow> prefixed_hex ''executor-'' s"
  by (auto simp: cl_runtimeRef_def cl_lowerHex_def prefixed_hex_iff)

lemma cl_grantID_iff: "cl_grantID s \<longleftrightarrow> prefixed_hex ''grant-'' s"
  by (auto simp: cl_grantID_def cl_lowerHex_def prefixed_hex_iff)

lemma identifier_chars_pos:
  "0 < n \<Longrightarrow> identifier_chars n s \<longleftrightarrow> list_all (\<lambda>x. alnum x \<or> x = CHR ''.'' \<or> x = CHR ''_'' \<or> x = CHR ''-'') s"
  by (induction s arbitrary: n) (auto simp: alnum_def)

lemma cl_identifier_iff: "cl_identifier s \<longleftrightarrow> identifier_pattern 127 s"
  by (cases s) (auto simp: cl_identifier_def identifier_pattern_def identifier_chars_pos alnum_def)

section \<open>Bounds\<close>

text \<open>A string that prints and reads back unchanged, within a length.\<close>

definition text_within :: "nat \<Rightarrow> bytes \<Rightarrow> bool" where
  "text_within n s \<longleftrightarrow> length s \<le> n \<and> valid_utf8 s"

lemma text_within_Nil [simp]: "text_within n []"
  by (simp add: text_within_def)

lemma text_within_digest: "cl_digest s \<Longrightarrow> text_within 128 s"
  using prefixed_hex_utf8 [of "''sha256:''" s]
  by (auto simp: cl_digest_iff text_within_def json_plain_def dest: prefixed_hex_length)

lemma text_within_runtimeRef: "cl_runtimeRef s \<Longrightarrow> text_within 128 s"
  using prefixed_hex_utf8 [of "''executor-''" s]
  by (auto simp: cl_runtimeRef_iff text_within_def json_plain_def dest: prefixed_hex_length)

lemma text_within_grantID: "cl_grantID s \<Longrightarrow> text_within 128 s"
  using prefixed_hex_utf8 [of "''grant-''" s]
  by (auto simp: cl_grantID_iff text_within_def json_plain_def dest: prefixed_hex_length)

lemma text_within_identifier: "cl_identifier s \<Longrightarrow> text_within 128 s"
  using identifier_length [of 127 s] identifier_utf8 [of 127 s] by (auto simp: cl_identifier_iff text_within_def)

lemma text_within_identity: "cl_publicIdentity s n \<Longrightarrow> text_within n s"
  by (simp add: cl_publicIdentity_def text_within_def)

lemma text_within_runID: "hermesRunID s \<Longrightarrow> text_within 128 s"
proof -
  assume h: "hermesRunID s"
  then have "take 4 s = ''run_''" by (simp add: hermesRunID_def has_prefix_def eval_nat_numeral)
  then have "s = ''run_'' @ drop 4 s" by (metis append_take_drop_id)
  moreover have "\<forall>c \<in> set (drop 4 s). json_plain c"
    using h lower_hex_plain by (simp add: hermesRunID_def list_all_iff)
  moreover have "\<forall>c \<in> set ''run_''. json_plain c" by (simp add: json_plain_def)
  ultimately have "\<forall>c \<in> set s. json_plain c" by (metis Un_iff set_append)
  with h show ?thesis by (simp add: text_within_def hermesRunID_def valid_utf8_plain)
qed

lemma text_within_constants:
  "text_within 128 Authorize" "text_within 128 Dispatch" "text_within 128 Deny" "text_within 128 Terminal"
  "text_within 128 Allowed" "text_within 128 Denied" "text_within 128 Responded" "text_within 128 Failed"
  "text_within 128 ConnectorCall" "text_within 128 ServiceTask" "text_within 128 InferenceAttempt"
  "text_within 128 TaskProtocolLifecycleV1" "text_within 128 cl_EffectModeAuthorized"
  "text_within 128 TaskStatusAgentReportedCompleted" "text_within 128 TaskStatusAgentReportedFailed"
  "text_within 128 TaskStatusAgentReportedCancelled"
  by (simp_all add: text_within_def valid_utf8_ascii phase_defs outcome_defs kind_defs TaskProtocolLifecycleV1_def
      cl_EffectModeAuthorized_def TaskStatusAgentReportedCompleted_def TaskStatusAgentReportedFailed_def
      TaskStatusAgentReportedCancelled_def)

lemmas text_within_intros =
  text_within_digest text_within_runtimeRef text_within_grantID text_within_identifier text_within_identity
  text_within_runID text_within_constants

text \<open>What each part of \<open>validateEvent\<close> says about the texts of the event.\<close>

lemma event_scope_text:
  "event_scope e = Ok () \<Longrightarrow> text_within 128 (ev_InferenceTaskDigest e) \<and> text_within 128 (ev_InferencePermitDigest e) \<and>
     text_within 128 (ev_InferenceRequestDigest e)"
  by (cases "ev_InferenceTaskDigest e = [] \<and> ev_InferencePermitDigest e = [] \<and> ev_InferenceRequestDigest e = []")
    (auto simp: event_scope_def text_within_intros split: if_splits)

lemma validateRunControl_text:
  "validateRunControl c e = Ok () \<Longrightarrow> text_within 128 (ev_TargetTaskDigest e) \<and> text_within 128 (ev_TargetRunID e)"
  by (auto simp: validateRunControl_def HermesStopRequest_def text_within_intros and_then_Inr_iff split: if_splits)

lemma event_bounds_text:
  "event_bounds e = Ok () \<Longrightarrow> text_within 128 (ev_TenantID e) \<and> text_within 128 (ev_RuntimeRef e) \<and>
     text_within 128 (ev_CapsuleDigest e) \<and> text_within 128 (ev_PolicyDigest e) \<and> text_within 128 (ev_RoutePolicyDigest e) \<and>
     text_within 128 (ev_GrantID e) \<and> text_within 128 (ev_OperationID e) \<and> text_within 128 (ev_TaskDigest e) \<and>
     text_within 128 (ev_ErrorCode e) \<and> text_within 128 (ev_InfluenceHash e) \<and> text_within 128 (ev_ResponseDigest e)"
  by (cases "ev_ErrorCode e = []"; cases "ev_InfluenceHash e = []"; cases "ev_ResponseDigest e = []")
    (simp_all add: event_bounds_def text_within_intros split: if_splits)

lemma canonical_keys_identifiers: "canonical_keys ks \<Longrightarrow> k \<in> set ks \<Longrightarrow> cl_identifier k"
  by (induction ks rule: canonical_keys.induct) auto

lemma join_with_text:
  assumes "\<forall>k \<in> set ks. text_within 128 k"
  shows "length (join_with (CHR '','') ks) \<le> 129 * length ks" "valid_utf8 (join_with (CHR '','') ks)"
proof -
  have "length (join_with (CHR '','') ks) \<le> 129 * length ks \<and> valid_utf8 (join_with (CHR '','') ks)"
    using assms
  proof (induction "CHR '',''" ks rule: join_with.induct)
    case (3 s t ss)
    have "valid_utf8 (s @ CHR '','' # join_with (CHR '','') (t # ss))"
      using 3 by (intro valid_utf8_append) (simp_all add: text_within_def valid_utf8_ascii_Cons)
    with 3 show ?case by (simp add: text_within_def)
  qed (simp_all add: text_within_def)
  then show "length (join_with (CHR '','') ks) \<le> 129 * length ks" "valid_utf8 (join_with (CHR '','') ks)" by auto
qed

lemma event_authority_keyset:
  assumes "event_authority e = Ok ()"
  shows "text_within 1032 (ev_AuthorityKeySet e)"
proof (cases "ev_AuthorityKeySet e = []")
  case False
  let ?ks = "split_on (CHR '','') (ev_AuthorityKeySet e)"
  from False assms have "length ?ks \<le> 8" "canonical_keys ?ks"
    by (auto simp: event_authority_def Let_def split: if_splits)
  then show ?thesis
    using join_with_text [of ?ks] canonical_keys_identifiers [of ?ks] text_within_identifier
    by (auto simp: text_within_def)
qed simp

lemma event_authority_text:
  assumes "event_authority e = Ok ()"
  shows "text_within 128 (ev_AuthorityKeyID e)" "text_within 128 (ev_PermitDigest e)" "text_within 128 (ev_RequestDigest e)"
    "0 \<le> ev_ApprovalThreshold e" "ev_ApprovalThreshold e \<le> 8"
  using assms
  by (cases "ev_PermitDigest e = []"; cases "ev_AuthorityKeyID e = []";
      auto simp: event_authority_def text_within_intros Let_def split: if_splits)+

lemma event_phase_text: "event_phase e = Ok () \<Longrightarrow> text_within 128 (ev_Phase e) \<and> text_within 128 (ev_Outcome e)"
  by (auto simp: event_phase_def text_within_intros split: if_splits)

text \<open>The members that depend on the kind of the event.\<close>

definition kind_texts :: "Event \<Rightarrow> bytes list" where
  "kind_texts e = [ev_Kind e, ev_EffectMode e, ev_ConnectorID e, ev_ServiceID e, ev_OperationPolicyDigest e, ev_RunID e,
     ev_TaskProtocol e, ev_TaskStatus e, ev_ResultDigest e]"

lemma validTaskStatus_text: "validTaskStatus s \<Longrightarrow> text_within 128 s"
  by (auto simp: validTaskStatus_def text_within_constants)

lemma lifecycle_fields_text:
  "lifecycle_fields e = Ok () \<Longrightarrow> text_within 128 (ev_RunID e) \<and> text_within 128 (ev_TaskProtocol e) \<and>
     text_within 128 (ev_TaskStatus e) \<and> text_within 128 (ev_ResultDigest e)"
  by (cases "ev_RunID e = []")
    (auto simp: lifecycle_fields_def text_within_intros validTaskStatus_text split: if_splits)

lemma service_fields_text:
  assumes "ev_Kind e = ServiceTask" "service_fields e = Ok ()"
  shows "\<forall>s \<in> set (kind_texts e). text_within 128 s"
proof (cases "ev_TaskProtocol e = []")
  case True
  with assms show ?thesis
    by (cases "ev_RunID e = []") (auto simp: service_fields_def kind_texts_def text_within_intros Let_def split: if_splits)
next
  case False
  with assms have "lifecycle_fields e = Ok ()" by (auto simp: service_fields_def split: if_splits)
  from lifecycle_fields_text [OF this] False assms show ?thesis
    by (auto simp: service_fields_def kind_texts_def text_within_intros split: if_splits)
qed

lemma event_kind_text:
  assumes "event_kind e = Ok ()"
  shows "\<forall>s \<in> set (kind_texts e). text_within 128 s"
proof -
  consider "ev_Kind e = InferenceAttempt" "inference_fields e = Ok ()" | "ev_Kind e = []" "legacy_fields e = Ok ()"
    | "ev_Kind e = ConnectorCall" "connector_fields e = Ok ()" | "ev_Kind e = ServiceTask" "service_fields e = Ok ()"
    using assms by (auto simp: event_kind_def split: if_splits)
  then show ?thesis
  proof cases
    case 1 then show ?thesis by (auto simp: inference_fields_def kind_texts_def text_within_intros split: if_splits)
  next
    case 2 then show ?thesis by (auto simp: legacy_fields_def kind_texts_def text_within_intros split: if_splits)
  next
    case 3 then show ?thesis
      by (cases "ev_OperationPolicyDigest e = []"; cases "ev_EffectMode e = []";
          auto simp: connector_fields_def kind_texts_def text_within_intros split: if_splits)
  next
    case 4 then show ?thesis by (rule service_fields_text)
  qed
qed

lemma validateEvent_iff:
  "validateEvent c e = Ok () \<longleftrightarrow> event_scope e = Ok () \<and> validateRunControl c e = Ok () \<and> event_bounds e = Ok () \<and>
     event_authority e = Ok () \<and> event_kind e = Ok () \<and> event_phase e = Ok ()"
  by (auto simp: validateEvent_def and_then_Inr_iff)

section \<open>Members that may be absent\<close>

lemma set_present: "(k, v) \<in> set (present fs) \<longleftrightarrow> (k, Some v) \<in> set fs"
  by (force simp: present_def)

lemma present_Cons:
  "present ((k, None) # fs) = present fs" "present ((k, Some v) # fs) = (k, v) # present fs"
  by (simp_all add: present_def)

lemma distinct_present: "distinct (map fst fs) \<Longrightarrow> distinct (map fst (present fs))"
  by (induction fs) (auto simp: present_def)

lemma map_of_present:
  assumes "distinct (map fst fs)"
  shows "map_of (present fs) k = (case map_of fs k of None \<Rightarrow> None | Some ov \<Rightarrow> ov)"
  using assms
proof (induction fs)
  case (Cons f fs)
  obtain k' ov where f: "f = (k', ov)" by (cases f)
  show ?case
  proof (cases ov)
    case None
    have "map_of fs k' = None" using Cons.prems f by (simp add: map_of_eq_None_iff)
    with Cons f None show ?thesis by (auto simp: present_Cons split: option.splits)
  next
    case (Some v)
    with Cons f show ?thesis by (simp add: present_Cons)
  qed
qed (simp add: present_def)

text \<open>The value of an optional field: the Go zero value when the member is left out.\<close>

lemma str_member_field [wire_simps]:
  "member k v = str_opt s \<Longrightarrow> str_member k v = s" "member k v = Some (JStr s) \<Longrightarrow> str_member k v = s"
  by (auto simp: str_member_def str_opt_def split: if_splits)

lemma u64_field [wire_simps]:
  "member k v = u64_opt w \<Longrightarrow> zero_or (opt_u64 k v) = w"
  "member k v = Some (u64_json w) \<Longrightarrow> zero_or (opt_u64 k v) = w"
  by (auto simp: zero_or_def opt_u64_def u64_opt_def u64_json_def split: if_splits)

lemma i64_field [wire_simps]:
  "member k v = int_opt i \<Longrightarrow> in_int64 i \<Longrightarrow> zero_or (opt_i64 k v) = i"
  "member k v = Some (i64_json i) \<Longrightarrow> in_int64 i \<Longrightarrow> zero_or (opt_i64 k v) = i"
  by (auto simp: zero_or_def opt_i64_def int_opt_def i64_json_def split: if_splits)

lemma conforms_present:
  assumes "distinct (map fst fs)" "d \<le> 32"
    "list_all (\<lambda>(k, ov). case ov of None \<Rightarrow> True | Some v \<Rightarrow>
       (case map_of ts k of None \<Rightarrow> False | Some t \<Rightarrow> conforms t (Suc d) v)) fs"
  shows "conforms (TStruct ts) d (JObj (present fs))"
  using assms distinct_present [OF assms(1)]
  by (auto simp: list_all_iff set_present split: prod.splits) (fastforce split: option.splits)

lemma wf_present:
  "list_all (\<lambda>(k, ov). valid_utf8 k \<and> (case ov of None \<Rightarrow> True | Some v \<Rightarrow> wf_json v)) fs \<Longrightarrow> wf_json (JObj (present fs))"
  by (auto simp: list_all_iff set_present) (fastforce split: option.splits prod.splits)+

definition field_size :: "bytes \<times> json option \<Rightarrow> nat" where
  "field_size f = (case snd f of None \<Rightarrow> 0 | Some v \<Rightarrow> 6 * length (fst f) + length (json_print v) + 4)"

lemma printed_present: "length (json_print (JObj (present fs))) \<le> sum_list (map field_size fs) + 2"
proof -
  have "member_sizes (present fs) = sum_list (map field_size fs)"
    by (induction fs) (auto simp: member_sizes_def present_def field_size_def split: option.splits)
  then show ?thesis using printed_object [of "present fs"] by simp
qed

text \<open>A field whose value takes no more room than an escaped text of \<open>n\<close> bytes.\<close>

definition field_within :: "nat \<Rightarrow> bytes \<times> json option \<Rightarrow> bool" where
  "field_within n f \<longleftrightarrow> field_size f \<le> 6 * length (fst f) + 6 * n + 6"

lemma field_within_str:
  "text_within n s \<Longrightarrow> field_within n (k, Some (JStr s))" "text_within n s \<Longrightarrow> field_within n (k, str_opt s)"
  using printed_str [of s n] by (simp_all add: field_within_def field_size_def text_within_def str_opt_def)

lemma field_within_int:
  "field_within 128 (k, Some (u64_json w))" "field_within 128 (k, u64_opt w)"
  "in_int64 i \<Longrightarrow> field_within 128 (k, Some (i64_json i))" "in_int64 i \<Longrightarrow> field_within 128 (k, int_opt i)"
  using printed_u64 [of w] printed_i64 [of i]
  by (simp_all add: field_within_def field_size_def u64_opt_def int_opt_def)

lemma fields_within:
  assumes "\<forall>f \<in> set fs. field_within (n (fst f)) f"
  shows "length (json_print (JObj (present fs))) \<le> (\<Sum>f\<leftarrow>fs. 6 * length (fst f) + 6 * n (fst f) + 6) + 2"
proof -
  have "sum_list (map field_size fs) \<le> (\<Sum>f\<leftarrow>fs. 6 * length (fst f) + 6 * n (fst f) + 6)"
    using assms by (intro sum_list_mono) (simp add: field_within_def)
  then show ?thesis using printed_present [of fs] by linarith
qed

section \<open>Events and receipts\<close>

definition event_texts :: "Event \<Rightarrow> bytes list" where
  "event_texts e = kind_texts e @
     [ev_Phase e, ev_Outcome e, ev_TenantID e, ev_RuntimeRef e, ev_CapsuleDigest e, ev_PolicyDigest e, ev_RoutePolicyDigest e,
      ev_GrantID e, ev_OperationID e, ev_TaskDigest e, ev_AuthorityKeyID e, ev_PermitDigest e, ev_RequestDigest e,
      ev_ErrorCode e, ev_InfluenceHash e, ev_ResponseDigest e, ev_TargetRunID e, ev_TargetTaskDigest e,
      ev_InferenceTaskDigest e, ev_InferencePermitDigest e, ev_InferenceRequestDigest e]"

definition event_sized :: "Event \<Rightarrow> bool" where
  "event_sized e \<longleftrightarrow> (\<forall>s \<in> set (event_texts e). text_within 128 s) \<and> text_within 1032 (ev_AuthorityKeySet e) \<and>
     in_int64 (ev_ApprovalThreshold e) \<and> in_int64 (ev_HTTPStatus e) \<and> in_int64 (ev_RequestBytes e) \<and> in_int64 (ev_ResponseBytes e)"

lemma event_bounds_ints:
  "event_bounds e = Ok () \<Longrightarrow> in_int64 (ev_HTTPStatus e) \<and> in_int64 (ev_RequestBytes e) \<and> in_int64 (ev_ResponseBytes e)"
  by (simp add: event_bounds_def in_int64_def min_int64_def max_int64_def split: if_splits)

lemma validateEvent_sized:
  assumes "validateEvent c e = Ok ()"
  shows "event_sized e"
proof -
  note parts = assms [unfolded validateEvent_iff]
  have "in_int64 (ev_ApprovalThreshold e)"
    using event_authority_text(4,5) [of e] parts by (simp add: in_int64_def min_int64_def max_int64_def)
  then show ?thesis
    using event_scope_text [of e] validateRunControl_text [of c e] event_bounds_text [of e] event_authority_text(1-3) [of e]
      event_authority_keyset [of e] event_kind_text [of e] event_phase_text [of e] event_bounds_ints [of e] parts
    by (simp add: event_sized_def event_texts_def)
qed

lemma event_fields_distinct: "distinct (map fst (event_fields e))"
  by (simp add: event_fields_def)

lemma receipt_fields_distinct: "distinct (map fst (receipt_fields r))"
  by (simp add: receipt_fields_def)

lemma member_event:
  "member k (event_json e) = (case map_of (event_fields e) k of None \<Rightarrow> None | Some ov \<Rightarrow> ov)"
  by (simp add: event_json_def member_JObj map_of_present [OF event_fields_distinct])

lemma member_receipt:
  "member k (receipt_json r) = (case map_of (receipt_fields r) k of None \<Rightarrow> None | Some ov \<Rightarrow> ov)"
  by (simp add: receipt_json_def member_JObj map_of_present [OF receipt_fields_distinct])

lemma conforms_leaves:
  "d \<le> 32 \<Longrightarrow> conforms TUint64 d (u64_json w)" "d \<le> 32 \<Longrightarrow> in_int64 i \<Longrightarrow> conforms TInt64 d (i64_json i)"
  by (simp_all add: u64_json_def i64_json_def)

lemma conforms_event: "event_sized e \<Longrightarrow> conforms event_type 1 (event_json e)"
  unfolding event_json_def event_type_def
  by (rule conforms_present [OF event_fields_distinct])
    (simp_all add: event_fields_def event_sized_def conforms_leaves str_opt_def int_opt_def u64_opt_def)

lemma conforms_receipt: "event_sized (rc_Event r) \<Longrightarrow> conforms receipt_type 0 (receipt_json r)"
  unfolding receipt_json_def receipt_type_def
  by (rule conforms_present [OF receipt_fields_distinct])
    (use conforms_event in \<open>simp_all add: receipt_fields_def conforms_leaves str_opt_def u64_opt_def\<close>)

lemma wf_event: "event_sized e \<Longrightarrow> wf_json (event_json e)"
  unfolding event_json_def
  by (rule wf_present)
    (simp add: event_fields_def event_sized_def event_texts_def kind_texts_def text_within_def str_opt_def int_opt_def u64_opt_def
      valid_utf8_ascii)

lemma wf_receipt:
  "event_sized (rc_Event r) \<Longrightarrow> valid_utf8 (rc_SchemaVersion r) \<Longrightarrow> valid_utf8 (rc_NodeID r) \<Longrightarrow> valid_utf8 (rc_PreviousHash r) \<Longrightarrow>
   valid_utf8 (rc_ObservedAt r) \<Longrightarrow> valid_utf8 (rc_PreviousTaskHash r) \<Longrightarrow> wf_json (receipt_json r)"
  unfolding receipt_json_def
  by (rule wf_present) (simp add: receipt_fields_def wf_event str_opt_def u64_opt_def valid_utf8_ascii del: wf_json.simps(4))

lemma event_members:
  "member ''phase'' (event_json e) = Some (JStr (ev_Phase e))"
  "member ''outcome'' (event_json e) = Some (JStr (ev_Outcome e))"
  "member ''kind'' (event_json e) = str_opt (ev_Kind e)"
  "member ''effect_mode'' (event_json e) = str_opt (ev_EffectMode e)"
  "member ''tenant_id'' (event_json e) = Some (JStr (ev_TenantID e))"
  "member ''runtime_ref'' (event_json e) = Some (JStr (ev_RuntimeRef e))"
  "member ''capsule_digest'' (event_json e) = Some (JStr (ev_CapsuleDigest e))"
  "member ''policy_digest'' (event_json e) = Some (JStr (ev_PolicyDigest e))"
  "member ''route_policy_digest'' (event_json e) = Some (JStr (ev_RoutePolicyDigest e))"
  "member ''generation'' (event_json e) = Some (u64_json (ev_Generation e))"
  "member ''grant_id'' (event_json e) = Some (JStr (ev_GrantID e))"
  "member ''connector_id'' (event_json e) = Some (JStr (ev_ConnectorID e))"
  "member ''service_id'' (event_json e) = str_opt (ev_ServiceID e)"
  "member ''operation_id'' (event_json e) = Some (JStr (ev_OperationID e))"
  "member ''operation_policy_digest'' (event_json e) = str_opt (ev_OperationPolicyDigest e)"
  "member ''task_digest'' (event_json e) = Some (JStr (ev_TaskDigest e))"
  "member ''authority_key_id'' (event_json e) = str_opt (ev_AuthorityKeyID e)"
  "member ''authority_key_set'' (event_json e) = str_opt (ev_AuthorityKeySet e)"
  "member ''approval_threshold'' (event_json e) = int_opt (ev_ApprovalThreshold e)"
  "member ''permit_digest'' (event_json e) = str_opt (ev_PermitDigest e)"
  "member ''request_digest'' (event_json e) = str_opt (ev_RequestDigest e)"
  "member ''http_status'' (event_json e) = int_opt (ev_HTTPStatus e)"
  "member ''request_bytes'' (event_json e) = Some (i64_json (ev_RequestBytes e))"
  "member ''response_bytes'' (event_json e) = Some (i64_json (ev_ResponseBytes e))"
  "member ''error_code'' (event_json e) = str_opt (ev_ErrorCode e)"
  "member ''run_id'' (event_json e) = str_opt (ev_RunID e)"
  "member ''task_protocol'' (event_json e) = str_opt (ev_TaskProtocol e)"
  "member ''task_status'' (event_json e) = str_opt (ev_TaskStatus e)"
  "member ''result_digest'' (event_json e) = str_opt (ev_ResultDigest e)"
  "member ''influence_sequence'' (event_json e) = u64_opt (ev_InfluenceSequence e)"
  "member ''influence_hash'' (event_json e) = str_opt (ev_InfluenceHash e)"
  "member ''response_digest'' (event_json e) = str_opt (ev_ResponseDigest e)"
  "member ''target_run_id'' (event_json e) = str_opt (ev_TargetRunID e)"
  "member ''target_task_digest'' (event_json e) = str_opt (ev_TargetTaskDigest e)"
  "member ''inference_task_digest'' (event_json e) = str_opt (ev_InferenceTaskDigest e)"
  "member ''inference_permit_digest'' (event_json e) = str_opt (ev_InferencePermitDigest e)"
  "member ''inference_request_digest'' (event_json e) = str_opt (ev_InferenceRequestDigest e)"
  by (simp_all add: member_event event_fields_def)

lemma event_of_event_json: "event_sized e \<Longrightarrow> event_of_json (event_json e) = e"
  by (cases e) (simp add: event_of_json_def event_sized_def str_member_field u64_field i64_field event_members)

lemma receipt_members:
  "member ''schema_version'' (receipt_json r) = Some (JStr (rc_SchemaVersion r))"
  "member ''node_id'' (receipt_json r) = Some (JStr (rc_NodeID r))"
  "member ''epoch'' (receipt_json r) = Some (u64_json (rc_Epoch r))"
  "member ''sequence'' (receipt_json r) = Some (u64_json (rc_Sequence r))"
  "member ''previous_hash'' (receipt_json r) = Some (JStr (rc_PreviousHash r))"
  "member ''observed_at'' (receipt_json r) = Some (JStr (rc_ObservedAt r))"
  "member ''event'' (receipt_json r) = Some (event_json (rc_Event r))"
  "member ''task_sequence'' (receipt_json r) = u64_opt (rc_TaskSequence r)"
  "member ''previous_task_hash'' (receipt_json r) = str_opt (rc_PreviousTaskHash r)"
  by (simp_all add: member_receipt receipt_fields_def)

lemma receipt_of_receipt_json: "event_sized (rc_Event r) \<Longrightarrow> receipt_of_json (receipt_json r) = r"
  by (cases r) (simp add: receipt_of_json_def event_of_event_json str_member_field u64_field receipt_members)

lemma printed_event:
  assumes "event_sized e"
  shows "length (json_print (event_json e)) \<le> 40000"
proof -
  let ?n = "\<lambda>k. if k = ''authority_key_set'' then 1032 else 128"
  have "\<forall>f \<in> set (event_fields e). field_within (?n (fst f)) f"
    using assms by (simp add: event_fields_def event_sized_def event_texts_def kind_texts_def field_within_str field_within_int)
  from fields_within [OF this] show ?thesis by (simp add: event_json_def event_fields_def)
qed

text \<open>Every coordinate a writer puts into a receipt is short as well.\<close>

definition coordinates_sized :: "Receipt \<Rightarrow> bool" where
  "coordinates_sized r \<longleftrightarrow> text_within 128 (rc_SchemaVersion r) \<and> text_within 256 (rc_NodeID r) \<and> text_within 128 (rc_PreviousHash r) \<and>
     text_within 128 (rc_ObservedAt r) \<and> text_within 128 (rc_PreviousTaskHash r)"

lemma printed_receipt:
  assumes "event_sized (rc_Event r)" "coordinates_sized r"
  shows "length (json_print (receipt_json r)) \<le> 48000"
proof -
  let ?n = "\<lambda>k. if k = ''node_id'' then 256 else if k = ''event'' then 6700 else 128"
  have "field_within 6700 (''event'', Some (event_json (rc_Event r)))"
    using printed_event [OF assms(1)] by (simp add: field_within_def field_size_def)
  then have "\<forall>f \<in> set (receipt_fields r). field_within (?n (fst f)) f"
    using assms(2) by (simp add: receipt_fields_def coordinates_sized_def field_within_str field_within_int)
  from fields_within [OF this] show ?thesis by (simp add: receipt_json_def receipt_fields_def)
qed

text \<open>Reading a written receipt gives it back.\<close>

lemma decode_printed_receipt:
  assumes "event_sized (rc_Event r)" "coordinates_sized r"
  shows "decode_receipt (json_print (receipt_json r)) = Ok r"
proof -
  have wf: "wf_json (receipt_json r)"
    using assms by (intro wf_receipt) (simp_all add: coordinates_sized_def text_within_def)
  have "length (json_print (receipt_json r)) \<le> MaxLineBytes"
    using printed_receipt [OF assms] by (simp add: MaxLineBytes_def)
  then have "DecodeStrictInto (json_print (receipt_json r)) MaxLineBytes receipt_type = Ok (receipt_json r)"
    by (intro DecodeStrictInto_print [OF wf _ conforms_receipt [OF assms(1)]])
  then show ?thesis
    using receipt_of_receipt_json [OF assms(1)] by (simp add: decode_receipt_def receipt_members)
qed

end
