(* ===== verification/Ledger.thy ===== *)
theory Ledger
  imports Ledger_Wire
begin

text \<open>
  \<open>internal/connectorledger/ledger.go\<close>, second part: tenant limits and the open append handle \<open>Log\<close>
  with its operations (\<open>Append\<close>, \<open>Begin\<close>, \<open>BeginInference\<close>, \<open>Dispatch\<close>, \<open>Finish\<close>, \<open>Pending\<close>, \<open>Head\<close>, \<open>Close\<close>).

  The handle holds an exclusive lock on the file, so the bytes on disk are part of the state of the handle
  (\<open>lg_disk\<close>). Every operation runs under the mutex of the handle and is one step. The clock and the outcome
  of the system calls of a step are arguments: \<open>Stat\<close> may fail, \<open>Write\<close> may fail after a prefix of the line, and
  \<open>Sync\<close> may fail after the whole line. Go maps whose size the code reads (\<open>tenantBytes\<close>) or that it iterates
  (\<open>pending\<close>, \<open>TenantBudgets\<close>) are association lists, the others are functions. Byte counts are \<open>int\<close>: they stay
  below \<open>MaxLogBytes\<close> plus a reservation, far from the limits of \<open>int64\<close>.
\<close>

section \<open>Limits\<close>

record Limits =
  lm_MaxTenants :: int
  lm_MaxBytesPerTenant :: int
  lm_TenantBudgets :: "(bytes \<times> int) list option"

definition DefaultMaxTenants :: int where "DefaultMaxTenants = 16"
definition DefaultMaxBytesPerTenant :: int where "DefaultMaxBytesPerTenant = 4194304"

definition DefaultLimits :: Limits where
  "DefaultLimits = \<lparr>lm_MaxTenants = DefaultMaxTenants, lm_MaxBytesPerTenant = DefaultMaxBytesPerTenant, lm_TenantBudgets = None\<rparr>"

text \<open>The loop of \<open>Limits.Validate\<close> over the explicit budgets.\<close>

fun validate_budgets :: "int \<Rightarrow> (bytes \<times> int) list \<Rightarrow> unit result" where
  "validate_budgets allocated [] = Ok ()"
| "validate_budgets allocated ((tenantID, bytes) # budgets) =
     (if \<not> cl_publicIdentity tenantID 128 then errorf ''connector ledger tenant budget has an invalid tenant identity''
      else if bytes < minimumTenantBytes then errorf ''connector ledger tenant byte quota is below its minimum''
      else if allocated > MaxLogBytes - bytes then errorf ''connector ledger tenant quotas exceed total capacity''
      else validate_budgets (allocated + bytes) budgets)"

definition lm_Validate :: "Limits \<Rightarrow> unit result" where
  "lm_Validate limits =
     (case lm_TenantBudgets limits of
        Some budgets \<Rightarrow>
          if lm_MaxTenants limits \<noteq> 0 \<or> lm_MaxBytesPerTenant limits \<noteq> 0
          then errorf ''connector ledger explicit and uniform tenant limits cannot be combined''
          else if length budgets > MaxTenantBudgets then errorf ''connector ledger permits a bounded number of tenant budgets''
          else validate_budgets 0 budgets
      | None \<Rightarrow>
          if lm_MaxTenants limits \<le> 0 then errorf ''connector ledger max tenants must be positive''
          else if lm_MaxBytesPerTenant limits < minimumTenantBytes
          then errorf ''connector ledger tenant byte quota is below its minimum''
          else if lm_MaxTenants limits > MaxLogBytes div lm_MaxBytesPerTenant limits
          then errorf ''connector ledger tenant quotas exceed total capacity''
          else Ok ())"

definition tenantQuota :: "Limits \<Rightarrow> bytes \<Rightarrow> int result" where
  "tenantQuota limits tenantID =
     (case lm_TenantBudgets limits of
        Some budgets \<Rightarrow>
          (case map_of budgets tenantID of None \<Rightarrow> wrap_err ErrTenantUnbudgeted [] | Some quota \<Rightarrow> Ok quota)
      | None \<Rightarrow> Ok (lm_MaxBytesPerTenant limits))"

text \<open>The lookup \<open>usage[tenantID]\<close> with its zero value, and \<open>addTenantUsage\<close>.\<close>

definition usage_of :: "(bytes \<times> int) list \<Rightarrow> bytes \<Rightarrow> int" where
  "usage_of usage tenantID = (case map_of usage tenantID of None \<Rightarrow> 0 | Some n \<Rightarrow> n)"

definition addTenantUsage :: "(bytes \<times> int) list \<Rightarrow> bytes \<Rightarrow> int \<Rightarrow> Limits \<Rightarrow> (bytes \<times> int) list result" where
  "addTenantUsage usage tenantID delta limits =
     (if map_of usage tenantID = None \<and> lm_TenantBudgets limits = None \<and> int (length usage) \<ge> lm_MaxTenants limits
      then wrap_err ErrTenantIdentityCapacity []
      else and_then (tenantQuota limits tenantID) (\<lambda>quota.
        if delta < 0 \<or> usage_of usage tenantID > quota - delta then wrap_err ErrTenantQuotaExceeded []
        else Ok (AList.update tenantID (usage_of usage tenantID + delta) usage)))"

section \<open>Receipt formats\<close>

text \<open>The ten payload types and schemas, by version number.\<close>

definition receipt_payload_type :: "nat \<Rightarrow> bytes" where
  "receipt_payload_type v = ''application/vnd.steward.connector-receipt.v'' @ itoa v @ ''+json''"

definition receipt_schema :: "nat \<Rightarrow> bytes" where
  "receipt_schema v = ''steward.connector-receipt.v'' @ itoa v"

text \<open>The version \<open>appendLocked\<close> selects for an event.\<close>

definition receipt_version :: "Event \<Rightarrow> nat" where
  "receipt_version event =
     (if ev_Kind event = InferenceAttempt then (if ev_InferenceTaskDigest event \<noteq> [] then 10 else 9)
      else if ev_TargetTaskDigest event \<noteq> [] then 8
      else if ev_InfluenceHash event \<noteq> [] \<or> ev_ResponseDigest event \<noteq> [] then 7
      else if ev_ApprovalThreshold event > 1 \<or> ev_AuthorityKeySet event \<noteq> [] then 6
      else if ev_EffectMode event \<noteq> [] then 5
      else if ev_TaskProtocol event \<noteq> [] then 4
      else if ev_Kind event \<noteq> [] then 3
      else if ev_PermitDigest event \<noteq> [] then 2
      else 1)"

definition chainDomain :: bytes where "chainDomain = ''steward-connector-ledger-v1'' @ [CHR 0x00]"

definition cl_KeyID :: "crypto \<Rightarrow> bytes \<Rightarrow> bytes" where
  "cl_KeyID c public = ''sha256:'' @ hex_encode (sha256 c public)"

definition cl_TaskDigest :: "crypto \<Rightarrow> bytes \<Rightarrow> bytes result" where
  "cl_TaskDigest c taskID =
     (if \<not> cl_identifier taskID then errorf ''task id must use 1-128 letters, digits, dot, underscore, or hyphen''
      else Ok (''sha256:'' @ hex_encode (sha256 c (''steward-connector-task-v1'' @ [CHR 0x00] @ taskID))))"

definition hashLine :: "crypto \<Rightarrow> bytes \<Rightarrow> bytes" where
  "hashLine c raw = ''sha256:'' @ hex_encode (sha256 c (chainDomain @ raw))"

definition zeroHash :: bytes where
  "zeroHash = ''sha256:'' @ replicate 64 (CHR ''0'')"

section \<open>The append handle\<close>

record Log =
  lg_open :: bool
  lg_disk :: bytes
  lg_private :: bytes
  lg_public :: bytes
  lg_nodeID :: bytes
  lg_epoch :: u64
  lg_keyID :: bytes
  lg_next :: u64
  lg_last :: bytes
  lg_failed :: bool
  lg_reserved :: int
  lg_pending :: "(bytes \<times> Event) list"
  lg_spent :: "bytes set"
  lg_taskHeads :: "bytes \<Rightarrow> taskCoordinate option"
  lg_runOwners :: "runOwnership \<Rightarrow> Event option"
  lg_limits :: Limits
  lg_tenantBytes :: "(bytes \<times> int) list"
  lg_inferenceCounts :: "inferenceOwner \<Rightarrow> int"

datatype io = IoOk | StatFailed | WriteFailed nat | SyncFailed

definition headLocked :: "Log \<Rightarrow> Head" where
  "headLocked l =
     \<lparr>hd_NodeID = lg_nodeID l, hd_Epoch = lg_epoch l, hd_Sequence = (if lg_next l > 0 then lg_next l - 1 else 0),
      hd_ChainHash = lg_last l, hd_KeyID = lg_keyID l\<rparr>"

text \<open>\<open>l.taskHeads[digest]\<close> with its zero value.\<close>

definition coordinate_of :: "(bytes \<Rightarrow> taskCoordinate option) \<Rightarrow> bytes \<Rightarrow> taskCoordinate" where
  "coordinate_of heads digest = (case heads digest of None \<Rightarrow> \<lparr>tc_sequence = 0, tc_hash = []\<rparr> | Some t \<Rightarrow> t)"

text \<open>The receipt \<open>appendLocked\<close> builds.\<close>

definition next_receipt :: "Log \<Rightarrow> time \<Rightarrow> Event \<Rightarrow> Receipt result" where
  "next_receipt l now event =
     (let receipt = \<lparr>rc_SchemaVersion = receipt_schema (receipt_version event), rc_NodeID = lg_nodeID l, rc_Epoch = lg_epoch l,
            rc_Sequence = lg_next l, rc_PreviousHash = lg_last l, rc_ObservedAt = format_nano now, rc_Event = event,
            rc_TaskSequence = 0, rc_PreviousTaskHash = []\<rparr>
      in if ev_TaskProtocol event = [] then Ok receipt
         else (let coordinate = coordinate_of (lg_taskHeads l) (ev_TaskDigest event)
               in if tc_sequence coordinate = - 1 then errorf ''connector task sequence exhausted''
                  else Ok (receipt\<lparr>rc_TaskSequence := tc_sequence coordinate + 1,
                         rc_PreviousTaskHash := (if tc_hash coordinate = [] then zeroHash else tc_hash coordinate)\<rparr>)))"

text \<open>Its signed line, without the newline.\<close>

definition sealed_line :: "crypto \<Rightarrow> Log \<Rightarrow> Receipt \<Rightarrow> bytes result" where
  "sealed_line c l receipt =
     and_then (Sign c (receipt_payload_type (receipt_version (rc_Event receipt))) (json_print (receipt_json receipt))
                 (lg_keyID l) (lg_private l)) (\<lambda>envelope.
     and_then (Marshal envelope) (\<lambda>raw.
       if length raw = 0 \<or> length raw > MaxLineBytes then errorf ''connector receipt exceeds line limit'' else Ok raw))"

text \<open>The capacity and quota checks; the result is the new reservation and the new usage of the tenant.\<close>

definition admit_usage :: "Log \<Rightarrow> Event \<Rightarrow> int \<Rightarrow> nat \<Rightarrow> (int \<times> int) result" where
  "admit_usage l event reservationDelta lineBytes =
     (let reserved = lg_reserved l + reservationDelta
      in if reserved < 0 \<or> int (length (lg_disk l)) + int lineBytes + reserved > MaxLogBytes
         then errorf ''connector ledger capacity exceeded''
         else and_then (tenantQuota (lg_limits l) (ev_TenantID event)) (\<lambda>quota.
           let tenantUsage = usage_of (lg_tenantBytes l) (ev_TenantID event) + int lineBytes + reservationDelta
           in if tenantUsage < 0 \<or> tenantUsage > quota then wrap_err ErrTenantQuotaExceeded []
              else if map_of (lg_tenantBytes l) (ev_TenantID event) = None \<and> lm_TenantBudgets (lg_limits l) = None \<and>
                int (length (lg_tenantBytes l)) \<ge> lm_MaxTenants (lg_limits l)
              then wrap_err ErrTenantIdentityCapacity []
              else Ok (reserved, tenantUsage)))"

text \<open>The updates of \<open>appendLocked\<close> after the line is durable.\<close>

definition record_line :: "crypto \<Rightarrow> Log \<Rightarrow> Receipt \<Rightarrow> bytes \<Rightarrow> int \<Rightarrow> int \<Rightarrow> Log" where
  "record_line c l receipt raw reserved tenantUsage =
     (let event = rc_Event receipt; hash = hashLine c raw
      in l\<lparr>lg_disk := lg_disk l @ raw @ [CHR 0x0A], lg_last := hash, lg_next := lg_next l + 1, lg_reserved := reserved,
           lg_tenantBytes := AList.update (ev_TenantID event) tenantUsage (lg_tenantBytes l),
           lg_taskHeads := (if ev_TaskProtocol event = [] then lg_taskHeads l
             else (lg_taskHeads l)(ev_TaskDigest event \<mapsto> \<lparr>tc_sequence = rc_TaskSequence receipt, tc_hash = hash\<rparr>))\<rparr>)"

definition appendLocked :: "crypto \<Rightarrow> time \<Rightarrow> io \<Rightarrow> Log \<Rightarrow> Event \<Rightarrow> int \<Rightarrow> Log \<times> Head result" where
  "appendLocked c now io l event reservationDelta =
     (if \<not> lg_open l then (l, errorf ''connector ledger is closed'')
      else if lg_failed l then (l, errorf ''connector ledger requires reopen after an ambiguous write'')
      else (case and_then (next_receipt l now event) (\<lambda>receipt. and_then (sealed_line c l receipt) (\<lambda>raw. Ok (receipt, raw))) of
          Inl err \<Rightarrow> (l, Inl err)
        | Inr (receipt, raw) \<Rightarrow>
          if io = StatFailed then (l, errorf ''stat'')
          else (case admit_usage l event reservationDelta (length raw + 1) of
              Inl err \<Rightarrow> (l, Inl err)
            | Inr (reserved, tenantUsage) \<Rightarrow>
              (case io of
                 WriteFailed n \<Rightarrow>
                   (l\<lparr>lg_disk := lg_disk l @ take n (raw @ [CHR 0x0A]), lg_failed := True\<rparr>, errorf ''write'')
               | SyncFailed \<Rightarrow> (l\<lparr>lg_disk := lg_disk l @ raw @ [CHR 0x0A], lg_failed := True\<rparr>, errorf ''sync'')
               | _ \<Rightarrow> (let l' = record_line c l receipt raw reserved tenantUsage in (l', Ok (headLocked l')))))))"

definition Append :: "crypto \<Rightarrow> time \<Rightarrow> io \<Rightarrow> Log \<Rightarrow> Event \<Rightarrow> Log \<times> Head result" where
  "Append c now io l event =
     (case validateEvent c event of
        Inl err \<Rightarrow> (l, Inl err)
      | Inr _ \<Rightarrow>
        if ev_Phase event \<noteq> Deny then (l, errorf ''connector authorization and terminal events require Begin and Finish'')
        else appendLocked c now io l event 0)"

text \<open>The updates of \<open>begin\<close>, \<open>Dispatch\<close> and \<open>Finish\<close> after a successful append.\<close>

definition call_begun :: "Event \<Rightarrow> Log \<Rightarrow> Log" where
  "call_begun event l =
     (let key = ev_TaskDigest event; owner = \<lparr>io_tenantID = ev_TenantID event, io_grantID = ev_GrantID event\<rparr>
      in l\<lparr>lg_pending := AList.update key event (lg_pending l), lg_spent := insert key (lg_spent l),
           lg_inferenceCounts := (if ev_Kind event = InferenceAttempt
             then (lg_inferenceCounts l)(owner := lg_inferenceCounts l owner + 1) else lg_inferenceCounts l)\<rparr>)"

definition call_dispatched :: "Event \<Rightarrow> Log \<Rightarrow> Log" where
  "call_dispatched event l =
     l\<lparr>lg_pending := AList.update (ev_TaskDigest event) event (lg_pending l),
       lg_runOwners := (if ev_TargetTaskDigest event = [] then (lg_runOwners l)(runOwnershipFor event \<mapsto> event) else lg_runOwners l)\<rparr>"

definition call_finished :: "Event \<Rightarrow> Log \<Rightarrow> Log" where
  "call_finished event l = l\<lparr>lg_pending := AList.delete (ev_TaskDigest event) (lg_pending l)\<rparr>"

text \<open>An append followed by an update that only a successful append reaches.\<close>

definition then_update :: "Log \<times> Head result \<Rightarrow> (Log \<Rightarrow> Log) \<Rightarrow> Log \<times> Head result" where
  "then_update r f = (case r of (l, Inl err) \<Rightarrow> (l, Inl err) | (l, Inr head) \<Rightarrow> (f l, Ok head))"

definition begin_call :: "crypto \<Rightarrow> time \<Rightarrow> io \<Rightarrow> Log \<Rightarrow> Event \<Rightarrow> int \<Rightarrow> Log \<times> Head result" where
  "begin_call c now io l event maximum =
     (case validateEvent c event of
        Inl err \<Rightarrow> (l, Inl err)
      | Inr _ \<Rightarrow>
        if ev_Phase event \<noteq> Authorize then (l, errorf ''connector Begin requires an authorization event'')
        else if ev_TaskDigest event \<in> lg_spent l then (l, errorf ''connector authorization task is already spent'')
        else (case and_then (validateRunControlOwner event (lg_runOwners l)) (\<lambda>_. validateInferenceScopeOwner event (lg_pending l)) of
            Inl err \<Rightarrow> (l, Inl err)
          | Inr _ \<Rightarrow>
            if lg_failed l \<or> \<not> lg_open l
            then (l, errorf ''connector ledger is closed or requires reopen after an ambiguous write'')
            else if maximum > 0 \<and>
              lg_inferenceCounts l \<lparr>io_tenantID = ev_TenantID event, io_grantID = ev_GrantID event\<rparr> \<ge> maximum
            then (l, wrap_err ErrInferenceQuotaExceeded [])
            else then_update (appendLocked c now io l event (pendingReservation event)) (call_begun event)))"

definition Begin :: "crypto \<Rightarrow> time \<Rightarrow> io \<Rightarrow> Log \<Rightarrow> Event \<Rightarrow> Log \<times> Head result" where
  "Begin c now io l event = begin_call c now io l event 0"

definition BeginInference :: "crypto \<Rightarrow> time \<Rightarrow> io \<Rightarrow> Log \<Rightarrow> Event \<Rightarrow> int \<Rightarrow> Log \<times> Head result" where
  "BeginInference c now io l event maximum =
     (if ev_Kind event \<noteq> InferenceAttempt \<or> maximum < 1 \<or> maximum > 1000000
      then (l, errorf ''inference allowance requires an inference event and maximum from 1 to 1000000'')
      else begin_call c now io l event maximum)"

definition lg_Dispatch :: "crypto \<Rightarrow> time \<Rightarrow> io \<Rightarrow> Log \<Rightarrow> Event \<Rightarrow> Log \<times> Head result" where
  "lg_Dispatch c now io l event =
     (case validateEvent c event of
        Inl err \<Rightarrow> (l, Inl err)
      | Inr _ \<Rightarrow>
        if ev_Phase event \<noteq> Dispatch then (l, errorf ''connector Dispatch requires a dispatch event'')
        else (case map_of (lg_pending l) (ev_TaskDigest event) of
            None \<Rightarrow> (l, errorf ''connector dispatch event has no matching lifecycle authorization'')
          | Some authorized \<Rightarrow>
            if validateTransition authorized event \<noteq> Ok ()
            then (l, errorf ''connector dispatch event has no matching lifecycle authorization'')
            else (case validateRunControlOwner event (lg_runOwners l) of
                Inl err \<Rightarrow> (l, Inl err)
              | Inr _ \<Rightarrow>
                if (case lg_runOwners l (runOwnershipFor event) of None \<Rightarrow> False
                    | Some owner \<Rightarrow> ev_TaskDigest owner \<noteq> ev_TaskDigest event \<and> ev_TargetTaskDigest event = [])
                then (l, wrap_err ErrRunIDConflict [])
                else then_update (appendLocked c now io l event (- terminalReserveBytes)) (call_dispatched event))))"

definition Finish :: "crypto \<Rightarrow> time \<Rightarrow> io \<Rightarrow> Log \<Rightarrow> Event \<Rightarrow> Log \<times> Head result" where
  "Finish c now io l event =
     (case validateEvent c event of
        Inl err \<Rightarrow> (l, Inl err)
      | Inr _ \<Rightarrow>
        if ev_Phase event \<noteq> Terminal then (l, errorf ''connector Finish requires a terminal event'')
        else (case map_of (lg_pending l) (ev_TaskDigest event) of
            None \<Rightarrow> (l, errorf ''connector terminal event has no matching authorization'')
          | Some previous \<Rightarrow>
            if validateTransition previous event \<noteq> Ok ()
            then (l, errorf ''connector terminal event has no matching authorization'')
            else then_update (appendLocked c now io l event (- pendingReservation previous)) (call_finished event)))"

text \<open>The list \<open>Pending\<close> returns is in the unspecified iteration order of the Go map.\<close>

definition Pending :: "Log \<Rightarrow> Event list" where
  "Pending l = map snd (lg_pending l)"

definition lg_Head :: "Log \<Rightarrow> Head" where "lg_Head l = headLocked l"

definition lg_Failed :: "Log \<Rightarrow> bool" where "lg_Failed l = lg_failed l"

text \<open>\<open>Close\<close>; the flag is whether closing the file descriptor reports an error.\<close>

definition lg_Close :: "bool \<Rightarrow> Log \<Rightarrow> Log \<times> unit result" where
  "lg_Close failing l =
     (if \<not> lg_open l then (l, Ok ())
      else (l\<lparr>lg_open := False\<rparr>, if failing then errorf ''close'' else Ok ()))"

end
