(* ===== verification/Ledger_Replay.thy ===== *)
theory Ledger_Replay
  imports Ledger
begin

text \<open>
  \<open>internal/connectorledger/ledger.go\<close>, third part: reading a ledger back. \<open>verifyFile\<close> checks every line of
  the file against the chain and the key, \<open>updateHistory\<close> replays the calls, and \<open>OpenWithLimits\<close>,
  \<open>VerifyRecords\<close> and \<open>ValidateWithLimits\<close> are built on them. The closures that \<open>verifyFile\<close> calls mutate captured
  maps; here the captured state is passed along, with a type of its own for each caller. The file system is the
  argument \<open>open_env\<close>: what \<open>Lstat\<close> finds and which of the following system calls succeed.
\<close>

section \<open>Files\<close>

record file_info =
  fi_regular :: bool
  fi_perm :: "32 word"
  fi_content :: bytes

definition validFileInfo :: "file_info \<Rightarrow> bool" where
  "validFileInfo info \<longleftrightarrow> fi_regular info \<and> and (fi_perm info) 63 = 0 \<and> int (length (fi_content info)) \<le> MaxLogBytes"

text \<open>An absolute path that \<open>filepath.Clean\<close> leaves unchanged: no empty, dot or dot-dot component.\<close>

definition validPath :: "bytes \<Rightarrow> bool" where
  "validPath path \<longleftrightarrow> path \<noteq> [] \<and> hd path = CHR ''/'' \<and>
     list_all (\<lambda>p. p \<noteq> [] \<and> p \<noteq> ''.'' \<and> p \<noteq> ''..'') (split_on (CHR ''/'') (tl path)) \<and> \<not> contains_nul path"

datatype lstat = Missing | LstatFailed | Present file_info

datatype flock = LockTaken | LockHeld | LockFailed

record open_env =
  oe_lstat :: lstat
  oe_opens :: bool      \<comment> \<open>\<open>os.OpenFile\<close> succeeds\<close>
  oe_lock :: flock      \<comment> \<open>\<open>syscall.Flock\<close>\<close>
  oe_prepared :: bool   \<comment> \<open>\<open>Chmod\<close> and \<open>syncDirectory\<close> of a created file succeed\<close>
  oe_unchanged :: bool  \<comment> \<open>the opened file is the one \<open>Lstat\<close> saw, with the same size\<close>
  oe_reads :: bool      \<comment> \<open>\<open>Seek\<close>, \<open>Stat\<close> and the reads of \<open>verifyFile\<close> succeed\<close>

section \<open>Receipts of a file\<close>

definition receipt_versions :: "nat list" where "receipt_versions = [1 ..< 11]"

definition version_of_type :: "bytes \<Rightarrow> nat option" where
  "version_of_type payloadType = find (\<lambda>v. receipt_payload_type v = payloadType) receipt_versions"

text \<open>The relation between payload type and event that \<open>validateReceipt\<close> requires.\<close>

definition schema_matches :: "nat \<Rightarrow> Event \<Rightarrow> bool" where
  "schema_matches v e \<longleftrightarrow> \<not>
     (v = 1 \<and> (ev_PermitDigest e \<noteq> [] \<or> ev_Kind e \<noteq> [] \<or> ev_EffectMode e \<noteq> []) \<or>
      v = 2 \<and> (ev_PermitDigest e = [] \<or> ev_Kind e \<noteq> [] \<or> ev_EffectMode e \<noteq> []) \<or>
      v = 3 \<and> (ev_Kind e = [] \<or> ev_TaskProtocol e \<noteq> [] \<or> ev_EffectMode e \<noteq> []) \<or>
      v = 4 \<and> (ev_Kind e \<noteq> ServiceTask \<or> ev_TaskProtocol e = [] \<or> ev_EffectMode e \<noteq> []) \<or>
      v = 5 \<and> (ev_Kind e \<noteq> ConnectorCall \<or> ev_EffectMode e \<noteq> cl_EffectModeAuthorized \<or> \<not> cl_digest (ev_OperationPolicyDigest e) \<or>
        ev_TaskProtocol e \<noteq> [] \<or> ev_ApprovalThreshold e \<noteq> 0 \<or> ev_AuthorityKeySet e \<noteq> []) \<or>
      v = 6 \<and> (ev_Kind e \<noteq> ConnectorCall \<or> ev_EffectMode e \<noteq> cl_EffectModeAuthorized \<or> \<not> cl_digest (ev_OperationPolicyDigest e) \<or>
        ev_TaskProtocol e \<noteq> [] \<or> ev_ApprovalThreshold e < 2 \<or>
        int (length (split_on (CHR '','') (ev_AuthorityKeySet e))) \<noteq> ev_ApprovalThreshold e \<or> ev_AuthorityKeyID e \<noteq> []) \<or>
      v = 7 \<and> (ev_Kind e \<noteq> ConnectorCall \<or> ev_EffectMode e \<noteq> cl_EffectModeAuthorized \<or> \<not> cl_digest (ev_OperationPolicyDigest e) \<or>
        ev_TaskProtocol e \<noteq> [] \<or> \<not> cl_digest (ev_InfluenceHash e)) \<or>
      v \<noteq> 7 \<and> (ev_InfluenceSequence e \<noteq> 0 \<or> ev_InfluenceHash e \<noteq> [] \<or> ev_ResponseDigest e \<noteq> []) \<or>
      v = 8 \<and> ev_TargetTaskDigest e = [] \<or>
      v \<noteq> 8 \<and> (ev_TargetTaskDigest e \<noteq> [] \<or> ev_TargetRunID e \<noteq> []) \<or>
      (v = 9 \<or> v = 10) \<noteq> (ev_Kind e = InferenceAttempt) \<or>
      (v = 10) \<noteq> (ev_InferenceTaskDigest e \<noteq> []))"

definition validateReceipt :: "crypto \<Rightarrow> Receipt \<Rightarrow> nat \<Rightarrow> bytes \<Rightarrow> u64 \<Rightarrow> u64 \<Rightarrow> bytes \<Rightarrow> unit result" where
  "validateReceipt c receipt version nodeID epoch sequence previous =
     (if rc_SchemaVersion receipt \<noteq> receipt_schema version \<or> rc_NodeID receipt \<noteq> nodeID \<or> rc_Epoch receipt \<noteq> epoch \<or>
         rc_Sequence receipt \<noteq> sequence \<or> rc_PreviousHash receipt \<noteq> previous
      then errorf ''connector receipt chain coordinates do not match''
      else if \<not> observed_ok (rc_ObservedAt receipt) then errorf ''connector receipt has an invalid observation time''
      else if \<not> schema_matches version (rc_Event receipt) then errorf ''connector receipt schema does not match its permit fields''
      else if (version = 4 \<or> version = 8) \<and> (rc_TaskSequence receipt = 0 \<or> \<not> cl_digest (rc_PreviousTaskHash receipt))
      then errorf ''connector lifecycle receipt has invalid task-chain coordinates''
      else if \<not> (version = 4 \<or> version = 8) \<and> (rc_TaskSequence receipt \<noteq> 0 \<or> rc_PreviousTaskHash receipt \<noteq> [])
      then errorf ''legacy connector receipt contains task-chain coordinates''
      else validateEvent c (rc_Event receipt))"

text \<open>One iteration of the scanning loop, up to the call of \<open>visit\<close>.\<close>

definition read_line :: "crypto \<Rightarrow> bytes \<Rightarrow> bytes \<Rightarrow> u64 \<Rightarrow> nat \<Rightarrow> bytes \<Rightarrow> bytes \<Rightarrow> VerifiedReceipt result" where
  "read_line c public nodeID epoch lineNumber previous raw =
     (if length raw = 0 \<or> length raw > MaxLineBytes then errorf ''connector ledger line is empty or oversized''
      else (case and_then (Parse raw) (\<lambda>envelope. case version_of_type (PayloadType envelope) of
               None \<Rightarrow> errorf '''' | Some v \<Rightarrow> Ok (PayloadType envelope, v)) of
          Inl _ \<Rightarrow> errorf ''verify connector ledger line: unsupported receipt envelope''
        | Inr (payloadType, version) \<Rightarrow>
          and_then (Verify c raw payloadType [cl_KeyID c public \<mapsto> public]) (\<lambda>(payload, keyID).
            if keyID \<noteq> cl_KeyID c public then errorf ''verify connector ledger line''
            else and_then (decode_receipt payload) (\<lambda>receipt.
              and_then (validateReceipt c receipt version nodeID epoch (of_nat lineNumber) previous) (\<lambda>_.
                Ok \<lparr>vf_Receipt = receipt, vf_Raw = raw, vf_Hash = hashLine c raw\<rparr>)))))"

text \<open>
  \<open>bufio.Scanner\<close> with \<open>ScanLines\<close>: lines end with a newline, one carriage return before it is dropped, and a line that
  does not fit the buffer of \<open>MaxLineBytes+1\<close> bytes stops the scan with an error.
\<close>

definition drop_cr :: "bytes \<Rightarrow> bytes" where
  "drop_cr line = (if line \<noteq> [] \<and> last line = CHR 0x0D then butlast line else line)"

definition file_lines :: "bytes \<Rightarrow> bytes list" where
  "file_lines content = butlast (split_on (CHR 0x0A) content)"

fun verify_lines ::
  "crypto \<Rightarrow> bytes \<Rightarrow> bytes \<Rightarrow> u64 \<Rightarrow> (VerifiedReceipt \<Rightarrow> 'h \<Rightarrow> 'h result) \<Rightarrow> nat \<Rightarrow> Head \<Rightarrow> 'h \<Rightarrow> bytes list \<Rightarrow> (Head \<times> 'h) result" where
  "verify_lines c public nodeID epoch visit lineNumber head h [] = Ok (head, h)"
| "verify_lines c public nodeID epoch visit lineNumber head h (line # rest) =
     (if length line > MaxLineBytes then errorf ''read connector ledger: token too long''
      else and_then (read_line c public nodeID epoch (Suc lineNumber) (hd_ChainHash head) (drop_cr line)) (\<lambda>record.
        and_then (visit record h) (\<lambda>h'.
          verify_lines c public nodeID epoch visit (Suc lineNumber)
            (head\<lparr>hd_Sequence := rc_Sequence (vf_Receipt record), hd_ChainHash := vf_Hash record\<rparr>) h' rest)))"

definition start_head :: "crypto \<Rightarrow> bytes \<Rightarrow> bytes \<Rightarrow> u64 \<Rightarrow> Head" where
  "start_head c public nodeID epoch =
     \<lparr>hd_NodeID = nodeID, hd_Epoch = epoch, hd_Sequence = 0, hd_ChainHash = zeroHash, hd_KeyID = cl_KeyID c public\<rparr>"

definition verifyFile ::
  "crypto \<Rightarrow> bytes \<Rightarrow> bytes \<Rightarrow> bytes \<Rightarrow> u64 \<Rightarrow> (VerifiedReceipt \<Rightarrow> 'h \<Rightarrow> 'h result) \<Rightarrow> 'h \<Rightarrow> (Head \<times> 'h) result" where
  "verifyFile c content public nodeID epoch visit h =
     (if content \<noteq> [] \<and> last content \<noteq> CHR 0x0A then errorf ''connector ledger has an incomplete final record''
      else verify_lines c public nodeID epoch visit 0 (start_head c public nodeID epoch) h (file_lines content))"

section \<open>Replaying the calls\<close>

record History =
  hs_pending :: "(bytes \<times> Event) list"
  hs_spent :: "bytes set"
  hs_taskHeads :: "bytes \<Rightarrow> taskCoordinate option"
  hs_runOwners :: "runOwnership \<Rightarrow> Event option"

definition empty_history :: History where
  "empty_history = \<lparr>hs_pending = [], hs_spent = {}, hs_taskHeads = Map.empty, hs_runOwners = Map.empty\<rparr>"

definition validateTaskCoordinate :: "VerifiedReceipt \<Rightarrow> taskCoordinate \<Rightarrow> bool \<Rightarrow> unit result" where
  "validateTaskCoordinate record previous first =
     (if ev_TaskProtocol (rc_Event (vf_Receipt record)) = [] then Ok ()
      else if \<not> first \<and> (tc_sequence previous = 0 \<or> tc_hash previous = [])
      then errorf ''connector lifecycle receipt has no previous task-chain record''
      else if rc_TaskSequence (vf_Receipt record) \<noteq> (if first then 1 else tc_sequence previous + 1) \<or>
        rc_PreviousTaskHash (vf_Receipt record) \<noteq> (if first then zeroHash else tc_hash previous)
      then errorf ''connector lifecycle task-chain coordinates do not match''
      else Ok ())"

text \<open>The last step of \<open>updateHistory\<close>, common to all phases.\<close>

definition note_task_head :: "VerifiedReceipt \<Rightarrow> History \<Rightarrow> History" where
  "note_task_head record h =
     (let event = rc_Event (vf_Receipt record)
      in if ev_TaskProtocol event = [] then h
         else h\<lparr>hs_taskHeads := (hs_taskHeads h)(ev_TaskDigest event \<mapsto>
                \<lparr>tc_sequence = rc_TaskSequence (vf_Receipt record), tc_hash = vf_Hash record\<rparr>)\<rparr>)"

definition replay_authorize :: "VerifiedReceipt \<Rightarrow> History \<Rightarrow> History result" where
  "replay_authorize record h =
     (let event = rc_Event (vf_Receipt record); digest = ev_TaskDigest event
      in if digest \<in> hs_spent h then errorf ''connector ledger contains a duplicate spent authorization''
         else and_then (validateTaskCoordinate record (coordinate_of (hs_taskHeads h) digest) True) (\<lambda>_.
           and_then (validateRunControlOwner event (hs_runOwners h)) (\<lambda>_.
           and_then (validateInferenceScopeOwner event (hs_pending h)) (\<lambda>_.
             Ok (h\<lparr>hs_spent := insert digest (hs_spent h), hs_pending := AList.update digest event (hs_pending h)\<rparr>)))))"

definition replay_dispatch :: "VerifiedReceipt \<Rightarrow> History \<Rightarrow> History result" where
  "replay_dispatch record h =
     (let event = rc_Event (vf_Receipt record); digest = ev_TaskDigest event
      in (case map_of (hs_pending h) digest of
            None \<Rightarrow> errorf ''connector ledger dispatch has no matching lifecycle authorization''
          | Some authorized \<Rightarrow>
            if validateTransition authorized event \<noteq> Ok ()
            then errorf ''connector ledger dispatch has no matching lifecycle authorization''
            else and_then (validateTaskCoordinate record (coordinate_of (hs_taskHeads h) digest) False) (\<lambda>_.
              and_then (validateRunControlOwner event (hs_runOwners h)) (\<lambda>_.
                if (case hs_runOwners h (runOwnershipFor event) of None \<Rightarrow> False
                    | Some owner \<Rightarrow> ev_TaskDigest owner \<noteq> ev_TaskDigest event \<and> ev_TargetTaskDigest event = [])
                then wrap_err ErrRunIDConflict []
                else Ok (h\<lparr>hs_pending := AList.update digest event (hs_pending h),
                       hs_runOwners := (if ev_TargetTaskDigest event = []
                         then (hs_runOwners h)(runOwnershipFor event \<mapsto> event) else hs_runOwners h)\<rparr>)))))"

definition replay_terminal :: "VerifiedReceipt \<Rightarrow> History \<Rightarrow> History result" where
  "replay_terminal record h =
     (let event = rc_Event (vf_Receipt record); digest = ev_TaskDigest event
      in (case map_of (hs_pending h) digest of
            None \<Rightarrow> errorf ''connector ledger terminal has no matching authorization''
          | Some previous \<Rightarrow>
            if validateTransition previous event \<noteq> Ok ()
            then errorf ''connector ledger terminal has no matching authorization''
            else and_then (validateTaskCoordinate record (coordinate_of (hs_taskHeads h) digest) False) (\<lambda>_.
              Ok (h\<lparr>hs_pending := AList.delete digest (hs_pending h)\<rparr>))))"

definition updateHistory :: "VerifiedReceipt \<Rightarrow> History \<Rightarrow> History result" where
  "updateHistory record h =
     (let phase = ev_Phase (rc_Event (vf_Receipt record))
      in and_then (if phase = Authorize then replay_authorize record h
                   else if phase = Dispatch then replay_dispatch record h
                   else if phase = Terminal then replay_terminal record h
                   else Ok h) (\<lambda>h'. Ok (note_task_head record h')))"

section \<open>Opening\<close>

record Replay =
  rp_history :: History
  rp_tenantBytes :: "(bytes \<times> int) list"
  rp_inferenceCounts :: "inferenceOwner \<Rightarrow> int"

definition start_replay :: Replay where
  "start_replay = \<lparr>rp_history = empty_history, rp_tenantBytes = [], rp_inferenceCounts = (\<lambda>_. 0)\<rparr>"

text \<open>The closure \<open>OpenWithLimits\<close> passes to \<open>verifyFile\<close>; \<open>visit\<close> is the caller's.\<close>

definition open_visit :: "Limits \<Rightarrow> (VerifiedReceipt \<Rightarrow> unit result) option \<Rightarrow> VerifiedReceipt \<Rightarrow> Replay \<Rightarrow> Replay result" where
  "open_visit limits visit record r =
     (let event = rc_Event (vf_Receipt record); owner = \<lparr>io_tenantID = ev_TenantID event, io_grantID = ev_GrantID event\<rparr>
      in and_then (updateHistory record (rp_history r)) (\<lambda>h.
         and_then (addTenantUsage (rp_tenantBytes r) (ev_TenantID event) (int (length (vf_Raw record) + 1)) limits) (\<lambda>tb.
         let r' = \<lparr>rp_history = h, rp_tenantBytes = tb,
               rp_inferenceCounts = (if ev_Kind event = InferenceAttempt \<and> ev_Phase event = Authorize
                 then (rp_inferenceCounts r)(owner := rp_inferenceCounts r owner + 1) else rp_inferenceCounts r)\<rparr>
         in (case visit of None \<Rightarrow> Ok r' | Some f \<Rightarrow> and_then (f record) (\<lambda>_. Ok r')))))"

text \<open>The loop that reserves space for the incomplete calls.\<close>

fun reserve_pending :: "Limits \<Rightarrow> (bytes \<times> Event) list \<Rightarrow> (bytes \<times> int) list \<Rightarrow> int \<Rightarrow> ((bytes \<times> int) list \<times> int) result" where
  "reserve_pending limits [] tb reserved = Ok (tb, reserved)"
| "reserve_pending limits ((k, event) # pending) tb reserved =
     and_then (addTenantUsage tb (ev_TenantID event) (pendingReservation event) limits) (\<lambda>tb'.
       reserve_pending limits pending tb' (reserved + pendingReservation event))"

text \<open>What \<open>OpenWithLimits\<close> does with the content of the locked file.\<close>

definition open_content ::
  "crypto \<Rightarrow> bytes \<Rightarrow> bytes \<Rightarrow> u64 \<Rightarrow> Limits \<Rightarrow> (VerifiedReceipt \<Rightarrow> unit result) option \<Rightarrow> bytes \<Rightarrow> Log result" where
  "open_content c private nodeID epoch limits visit content =
     (let public = ed_public c private
      in and_then (verifyFile c content public nodeID epoch (open_visit limits visit) start_replay) (\<lambda>(head, r).
         and_then (reserve_pending limits (hs_pending (rp_history r)) (rp_tenantBytes r) 0) (\<lambda>(tb, reserved).
         if int (length content) + reserved > MaxLogBytes
         then errorf ''connector ledger cannot reserve remaining records for incomplete calls''
         else Ok \<lparr>lg_open = True, lg_disk = content, lg_private = private, lg_public = public, lg_nodeID = nodeID,
                lg_epoch = epoch, lg_keyID = cl_KeyID c public, lg_next = hd_Sequence head + 1, lg_last = hd_ChainHash head,
                lg_failed = False, lg_reserved = reserved, lg_pending = hs_pending (rp_history r),
                lg_spent = hs_spent (rp_history r), lg_taskHeads = hs_taskHeads (rp_history r),
                lg_runOwners = hs_runOwners (rp_history r), lg_limits = limits, lg_tenantBytes = tb,
                lg_inferenceCounts = rp_inferenceCounts r\<rparr>)))"

definition OpenWithLimits ::
  "crypto \<Rightarrow> open_env \<Rightarrow> bytes \<Rightarrow> bytes \<Rightarrow> bytes \<Rightarrow> u64 \<Rightarrow> Limits \<Rightarrow> (VerifiedReceipt \<Rightarrow> unit result) option \<Rightarrow> Log result" where
  "OpenWithLimits c env path private nodeID epoch limits visit =
     (if \<not> validPath path \<or> length private \<noteq> 64 \<or> \<not> cl_validText nodeID 256 \<or> epoch = 0
      then errorf ''connector ledger requires a clean path, Ed25519 key, bounded node id, and positive epoch''
      else and_then (lm_Validate limits) (\<lambda>_.
        (case oe_lstat env of
           LstatFailed \<Rightarrow> errorf ''stat connector ledger''
         | Missing \<Rightarrow>
             if \<not> oe_opens env then errorf ''open connector ledger''
             else (case oe_lock env of
                 LockHeld \<Rightarrow> errorf ''connector ledger is already open by another writer''
               | LockFailed \<Rightarrow> errorf ''lock connector ledger''
               | LockTaken \<Rightarrow>
                 if \<not> oe_prepared env then errorf ''sync directory''
                 else if \<not> oe_reads env then errorf ''verify connector ledger''
                 else open_content c private nodeID epoch limits visit [])
         | Present info \<Rightarrow>
             if \<not> validFileInfo info then errorf ''connector ledger must be a bounded owner-only regular file''
             else if \<not> oe_opens env then errorf ''open connector ledger''
             else (case oe_lock env of
                 LockHeld \<Rightarrow> errorf ''connector ledger is already open by another writer''
               | LockFailed \<Rightarrow> errorf ''lock connector ledger''
               | LockTaken \<Rightarrow>
                 if \<not> oe_unchanged env then errorf ''connector ledger changed while opening''
                 else if \<not> oe_reads env then errorf ''verify connector ledger''
                 else open_content c private nodeID epoch limits visit (fi_content info)))))"

definition Open :: "crypto \<Rightarrow> open_env \<Rightarrow> bytes \<Rightarrow> bytes \<Rightarrow> bytes \<Rightarrow> u64 \<Rightarrow> Log result" where
  "Open c env path private nodeID epoch = OpenWithLimits c env path private nodeID epoch DefaultLimits None"

definition OpenWithVisit ::
  "crypto \<Rightarrow> open_env \<Rightarrow> bytes \<Rightarrow> bytes \<Rightarrow> bytes \<Rightarrow> u64 \<Rightarrow> (VerifiedReceipt \<Rightarrow> unit result) option \<Rightarrow> Log result" where
  "OpenWithVisit c env path private nodeID epoch visit = OpenWithLimits c env path private nodeID epoch DefaultLimits visit"

section \<open>Verification without opening\<close>

text \<open>The caller's visitor passes its own state \<open>'v\<close>.\<close>

definition records_visit :: "(VerifiedReceipt \<Rightarrow> 'v \<Rightarrow> 'v result) \<Rightarrow> VerifiedReceipt \<Rightarrow> History \<times> 'v \<Rightarrow> (History \<times> 'v) result" where
  "records_visit visit record hv =
     and_then (updateHistory record (fst hv)) (\<lambda>h. and_then (visit record (snd hv)) (\<lambda>v. Ok (h, v)))"

definition VerifyRecords ::
  "crypto \<Rightarrow> open_env \<Rightarrow> bytes \<Rightarrow> bytes \<Rightarrow> bytes \<Rightarrow> u64 \<Rightarrow> (VerifiedReceipt \<Rightarrow> 'v \<Rightarrow> 'v result) \<Rightarrow> 'v \<Rightarrow> (Head \<times> 'v) result" where
  "VerifyRecords c env path public nodeID epoch visit v =
     (if \<not> validPath path \<or> length public \<noteq> 32 \<or> \<not> cl_validText nodeID 256 \<or> epoch = 0
      then errorf ''connector ledger verification arguments are invalid''
      else (case oe_lstat env of
          Missing \<Rightarrow> errorf ''no such file''
        | LstatFailed \<Rightarrow> errorf ''stat''
        | Present info \<Rightarrow>
          if \<not> validFileInfo info then errorf ''connector ledger must be a bounded owner-only regular file''
          else if \<not> oe_opens env then errorf ''open''
          else if \<not> oe_unchanged env then errorf ''connector ledger changed while opening''
          else if \<not> oe_reads env then errorf ''read connector ledger''
          else and_then (verifyFile c (fi_content info) public nodeID epoch (records_visit visit) (empty_history, v)) (\<lambda>(head, h, v').
            Ok (head, v'))))"

definition limits_visit :: "Limits \<Rightarrow> VerifiedReceipt \<Rightarrow> History \<times> (bytes \<times> int) list \<Rightarrow> (History \<times> (bytes \<times> int) list) result" where
  "limits_visit limits record hv =
     and_then (updateHistory record (fst hv)) (\<lambda>h.
     and_then (addTenantUsage (snd hv) (ev_TenantID (rc_Event (vf_Receipt record))) (int (length (vf_Raw record) + 1)) limits) (\<lambda>tb.
       Ok (h, tb)))"

definition ValidateWithLimits :: "crypto \<Rightarrow> open_env \<Rightarrow> bytes \<Rightarrow> bytes \<Rightarrow> bytes \<Rightarrow> u64 \<Rightarrow> Limits \<Rightarrow> Head result" where
  "ValidateWithLimits c env path private nodeID epoch limits =
     (if \<not> validPath path \<or> length private \<noteq> 64 \<or> \<not> cl_validText nodeID 256 \<or> epoch = 0
      then errorf ''connector ledger requires a clean path, Ed25519 key, bounded node id, and positive epoch''
      else and_then (lm_Validate limits) (\<lambda>_.
        let public = ed_public c private
        in (case oe_lstat env of
              Missing \<Rightarrow> Ok (start_head c public nodeID epoch)
            | LstatFailed \<Rightarrow> errorf ''stat connector ledger''
            | Present _ \<Rightarrow>
              and_then (VerifyRecords c env path public nodeID epoch (limits_visit limits) (empty_history, [])) (\<lambda>(head, h, tb).
              and_then (reserve_pending limits (hs_pending h) tb 0) (\<lambda>_. Ok head)))))"

definition cl_Validate :: "crypto \<Rightarrow> open_env \<Rightarrow> bytes \<Rightarrow> bytes \<Rightarrow> bytes \<Rightarrow> u64 \<Rightarrow> Head result" where
  "cl_Validate c env path private nodeID epoch = ValidateWithLimits c env path private nodeID epoch DefaultLimits"

end
