(* ===== verification/Ledger_Seal.thy ===== *)
theory Ledger_Seal
  imports Ledger_Replay
begin

text \<open>
  The agreement of the writer and the reader of a line: what \<open>appendLocked\<close> signs for a valid event
  always fits a line, contains no line break, and is verified and decoded by \<open>verifyFile\<close> to the same receipt.
  The reader refuses it only for one reason, a payload type that does not match the event (\<open>schema_matches\<close>).
\<close>

section \<open>Payload types\<close>

lemma receipt_payload_type_inj: "receipt_payload_type v = receipt_payload_type v' \<longleftrightarrow> v = v'"
  by (simp add: receipt_payload_type_def itoa_inj)

lemma find_eq: "find (\<lambda>w. w = v) xs = (if v \<in> set xs then Some v else None)"
  by (induction xs) auto

lemma version_of_type: "1 \<le> v \<Longrightarrow> v \<le> 10 \<Longrightarrow> version_of_type (receipt_payload_type v) = Some v"
  by (simp add: version_of_type_def receipt_versions_def receipt_payload_type_inj find_eq)

lemma receipt_version_range: "1 \<le> receipt_version e" "receipt_version e \<le> 10"
  by (simp_all add: receipt_version_def)

text \<open>Characters that JSON prints as they are and that are neither blank nor control characters.\<close>

definition printable :: "char \<Rightarrow> bool" where
  "printable c \<longleftrightarrow> json_plain c \<and> 32 < byte c \<and> byte c < 127"

lemma printable_digits: "list_all printable (itoa n)"
  by (auto simp: list_all_iff printable_def is_digit_def json_plain_def dest!: itoa_digits)

lemma printable_payload_type: "list_all printable (receipt_payload_type v)" "list_all printable (receipt_schema v)"
  by (simp_all add: receipt_payload_type_def receipt_schema_def printable_digits) (simp_all add: printable_def json_plain_def)

lemma printable_hex: "prefixed_hex ''sha256:'' s \<Longrightarrow> list_all printable s"
proof -
  assume "prefixed_hex ''sha256:'' s"
  then obtain h where h: "s = ''sha256:'' @ h" "list_all is_lower_hex h" by (auto simp: prefixed_hex_def)
  have "list_all printable h" using h(2) lower_hex_plain by (auto simp: list_all_iff printable_def)
  with h(1) show ?thesis by (simp add: printable_def json_plain_def)
qed

lemma printable_utf8: "list_all printable s \<Longrightarrow> valid_utf8 s"
  by (rule valid_utf8_plain) (auto simp: list_all_iff printable_def)

lemma printable_name: "list_all printable s \<Longrightarrow> s \<noteq> [] \<Longrightarrow> length s \<le> 256 \<Longrightarrow> \<not> bad_name s"
  by (rule bad_name_plain) (auto simp: list_all_iff printable_def)

lemma itoa_version_length: "v \<le> 10 \<Longrightarrow> length (itoa v) \<le> 2"
  using length_itoa_less [of v 2] by simp

lemma payload_type_length: "v \<le> 10 \<Longrightarrow> length (receipt_payload_type v) \<le> 64" "v \<le> 10 \<Longrightarrow> length (receipt_schema v) \<le> 64"
  using itoa_version_length [of v] by (simp_all add: receipt_payload_type_def receipt_schema_def)

lemma keyID_hex: "crypto_ok c \<Longrightarrow> prefixed_hex ''sha256:'' (cl_KeyID c k)"
  unfolding cl_KeyID_def by (rule prefixed_hex_encode) (simp add: crypto_ok_def)

lemma hashLine_digest: "crypto_ok c \<Longrightarrow> cl_digest (hashLine c raw)"
  unfolding hashLine_def cl_digest_iff by (rule prefixed_hex_encode) (simp add: crypto_ok_def)

lemma zeroHash_digest: "cl_digest zeroHash"
  by (auto simp: cl_digest_iff prefixed_hex_def zeroHash_def list_all_iff is_lower_hex_def is_digit_def)

section \<open>Timestamps\<close>

lemma format_nano_text:
  assumes "sane_clock t"
  shows "text_within 128 (format_nano t)"
proof -
  have n: "(0::int) < nsec" by (simp add: nsec_def)
  have "0 \<le> t div nsec" "t div nsec < 253402300800"
    using assms n int_div_bounds [OF n, of t] by (auto simp: sane_clock_def nsec_def pos_imp_zdiv_nonneg_iff)
  note p = parse_format_seconds(2) [OF this]
  have z: "length (trim_zeros s) \<le> length s" "set (trim_zeros s) \<subseteq> set s" for s
    using length_dropWhile_le [of "(=) (CHR ''0'')" "rev s"] set_dropWhileD [of _ "(=) (CHR ''0'')" "rev s"]
    by (auto simp: trim_zeros_def)
  have "nat (t mod nsec) < 10 ^ 9" by (simp add: nsec_def nat_less_iff)
  then have l: "length (trim_zeros (pad 9 (nat (t mod nsec)))) \<le> 9"
    using z(1) [of "pad 9 (nat (t mod nsec))"] length_pad [of "nat (t mod nsec)" 9] by simp
  obtain y m d where c: "civil_from_days (t div nsec div day_length) = (y, m, d)" by (metis prod_cases3)
  have "\<forall>ch \<in> set (format_seconds (t div nsec)). is_digit ch \<or> ch \<in> {CHR ''-'', CHR ''T'', CHR '':''}"
    using c by (auto simp: format_seconds_def Let_def dest: pad_digits)
  then have "\<forall>ch \<in> set (format_nano t). is_digit ch \<or> ch \<in> {CHR ''-'', CHR ''T'', CHR '':'', CHR ''.'', CHR ''Z''}"
    using z(2) [of "pad 9 (nat (t mod nsec))"] pad_digits [of _ 9 "nat (t mod nsec)"]
    by (auto simp: format_nano_def Let_def)
  then have "valid_utf8 (format_nano t)"
    by (intro valid_utf8_plain) (auto simp: json_plain_def is_digit_def)
  moreover have "length (format_nano t) \<le> 128" using p l by (simp add: format_nano_def Let_def)
  ultimately show ?thesis by (simp add: text_within_def)
qed

section \<open>Sealed lines\<close>

lemma printable_b64: "list_all printable (b64_encode e p)"
proof -
  have "b64_alphabet c \<Longrightarrow> printable c" for c
    by (auto simp: printable_def b64_alphabet_def json_plain_def is_upper_def is_lower_def is_digit_def)
  then show ?thesis using b64_encode_alphabet by (metis list_all_iff)
qed

lemma json_quote_printable: "list_all printable s \<Longrightarrow> json_quote s = CHR 0x22 # s @ [CHR 0x22]"
  by (rule json_quote_plain) (auto simp: list_all_iff printable_def)

lemma plain_envelope_printable:
  assumes "list_all printable (PayloadType e)" "Payload e = b64_encode Std p" "Signatures e = [s]"
    "list_all printable (KeyID s)" "Sig s = b64_encode Std g"
  shows "\<forall>ch \<in> set (json_print (envelope_json e)). 32 \<le> byte ch"
proof -
  have lits: "list_all printable ''payloadType''" "list_all printable ''payload''" "list_all printable ''signatures''"
    "list_all printable ''keyid''" "list_all printable ''sig''"
    by (simp_all add: printable_def json_plain_def)
  have "\<forall>ch \<in> set s. 32 \<le> byte ch" if "list_all printable s" for s
    using that by (auto simp: list_all_iff printable_def)
  note up = this [OF assms(1)] this [OF assms(4)] this [OF printable_b64 [of Std p]] this [OF printable_b64 [of Std g]]
  show ?thesis
    using assms up
    by (simp add: envelope_json_def signature_json_def json_quote_printable [OF lits(1)] json_quote_printable [OF lits(2)]
        json_quote_printable [OF lits(3)] json_quote_printable [OF lits(4)] json_quote_printable [OF lits(5)]
        json_quote_printable printable_b64 ball_Un)
qed

text \<open>The writer's side: signing and printing a receipt of bounded parts succeeds.\<close>

lemma seal_line:
  assumes "crypto_ok c" "length (lg_private l) = 64" "lg_keyID l = cl_KeyID c (ed_public c (lg_private l))"
    "event_sized (rc_Event r)" "coordinates_sized r"
  obtains raw e where "sealed_line c l r = Ok raw" "raw \<noteq> []" "length raw \<le> MaxLineBytes" "\<forall>ch \<in> set raw. 32 \<le> byte ch"
    "Parse raw = Ok e" "PayloadType e = receipt_payload_type (receipt_version (rc_Event r))"
    "Verify c raw (receipt_payload_type (receipt_version (rc_Event r))) [lg_keyID l \<mapsto> ed_public c (lg_private l)] =
       Ok (json_print (receipt_json r), lg_keyID l)"
proof -
  define pt where "pt = receipt_payload_type (receipt_version (rc_Event r))"
  define p where "p = json_print (receipt_json r)"
  define k where "k = lg_keyID l"
  define s where "s = \<lparr>KeyID = k, Sig = b64_encode Std (ed_sign c (lg_private l) (PAE pt p))\<rparr>"
  define e where "e = \<lparr>PayloadType = pt, Payload = b64_encode Std p, Signatures = [s]\<rparr>"
  have kh: "prefixed_hex ''sha256:'' k" unfolding k_def assms(3) by (rule keyID_hex [OF assms(1)])
  have kl: "length k = 71" using prefixed_hex_length [OF kh] by simp
  have plen: "length p \<le> 48000" unfolding p_def by (rule printed_receipt [OF assms(4,5)])
  have wf: "wf_json (receipt_json r)"
    using assms(4,5) by (intro wf_receipt) (simp_all add: coordinates_sized_def text_within_def)
  have pne: "p \<noteq> []" unfolding p_def using json_print_hd [OF wf] by auto
  have ptp: "list_all printable pt" and ptl: "length pt \<le> 64" and ptn: "pt \<noteq> []"
    unfolding pt_def using printable_payload_type(1) payload_type_length(1) [OF receipt_version_range(2)]
    by (auto simp: receipt_payload_type_def)
  have kp: "list_all printable k" by (rule printable_hex [OF kh])
  have kn: "k \<noteq> []" using kl by auto
  have sign: "Sign c pt p k (lg_private l) = Ok e"
    using printable_name [OF ptp ptn] printable_name [OF kp kn] ptl kl assms(2) plen
    by (simp add: Sign_def MaxPayloadBytes_def e_def s_def)
  obtain raw where m: "Marshal e = Ok raw" and pr: "Parse raw = Ok e"
    by (rule Sign_Marshal_Parse [OF assms(1) sign pne printable_utf8 [OF ptp] printable_utf8 [OF kp]])
  have raw: "raw = json_print (envelope_json e)"
    using m by (auto simp: Marshal_def and_then_Inr_iff)
  have "length (Sig s) \<le> 88"
    using ed_sign_length [OF assms(1,2)] by (simp add: s_def length_b64_encode b64_encoded_len_def)
  then have "length raw \<le> b64_encoded_len Std (length p) + 2000"
    unfolding raw by (intro printed_envelope [where s = s]) (simp_all add: e_def ptl s_def kl)
  then have len: "length raw \<le> MaxLineBytes"
    using plen b64_encoded_len_mono [OF plen] by (simp add: b64_encoded_len_def MaxLineBytes_def)
  have ne: "raw \<noteq> []" by (simp add: raw envelope_json_def)
  have pl: "\<forall>ch \<in> set raw. 32 \<le> byte ch"
    unfolding raw
    by (rule plain_envelope_printable [where s = s and p = p and g = "ed_sign c (lg_private l) (PAE pt p)"])
      (simp_all add: e_def s_def ptp kp)
  have auth: "authentic c [k \<mapsto> ed_public c (lg_private l)] (PAE pt p) s"
    by (rule crypto_ok_sign [OF assms(1,2)]) (simp_all add: s_def)
  have v: "Verify c raw pt [k \<mapsto> ed_public c (lg_private l)] = Ok (p, k)"
    unfolding Verify_Ok_iff
    by (intro exI [of _ e] exI [of _ s]) (use pr auth plen in \<open>simp add: e_def MaxPayloadBytes_def s_def\<close>)
  have "sealed_line c l r = Ok raw"
    using sign m ne len unfolding pt_def p_def k_def by (simp add: sealed_line_def)
  then show ?thesis using that ne len pl pr v unfolding pt_def p_def k_def by (simp add: e_def pt_def)
qed

text \<open>The reader's side.\<close>

lemma read_sealed:
  assumes "raw \<noteq> []" "length raw \<le> MaxLineBytes" "Parse raw = Ok e" "PayloadType e = receipt_payload_type v" "1 \<le> v" "v \<le> 10"
    "Verify c raw (receipt_payload_type v) [cl_KeyID c public \<mapsto> public] = Ok (json_print (receipt_json r), cl_KeyID c public)"
    "event_sized (rc_Event r)" "coordinates_sized r"
  shows "read_line c public nodeID epoch n previous raw =
    and_then (validateReceipt c r v nodeID epoch (of_nat n) previous) (\<lambda>_. Ok \<lparr>vf_Receipt = r, vf_Raw = raw, vf_Hash = hashLine c raw\<rparr>)"
  using assms by (simp add: read_line_def version_of_type decode_printed_receipt)

text \<open>The receipt that \<open>appendLocked\<close> builds from valid parts.\<close>

definition receipt_for :: "Log \<Rightarrow> time \<Rightarrow> Event \<Rightarrow> Receipt" where
  "receipt_for l now event =
     \<lparr>rc_SchemaVersion = receipt_schema (receipt_version event), rc_NodeID = lg_nodeID l, rc_Epoch = lg_epoch l,
      rc_Sequence = lg_next l, rc_PreviousHash = lg_last l, rc_ObservedAt = format_nano now, rc_Event = event,
      rc_TaskSequence = (if ev_TaskProtocol event = [] then 0 else tc_sequence (coordinate_of (lg_taskHeads l) (ev_TaskDigest event)) + 1),
      rc_PreviousTaskHash = (if ev_TaskProtocol event = [] then []
        else if tc_hash (coordinate_of (lg_taskHeads l) (ev_TaskDigest event)) = [] then zeroHash
        else tc_hash (coordinate_of (lg_taskHeads l) (ev_TaskDigest event)))\<rparr>"

lemma next_receipt_Ok_iff:
  "next_receipt l now event = Ok r \<longleftrightarrow> r = receipt_for l now event \<and>
     (ev_TaskProtocol event \<noteq> [] \<longrightarrow> tc_sequence (coordinate_of (lg_taskHeads l) (ev_TaskDigest event)) \<noteq> - 1)"
  by (auto simp: next_receipt_def receipt_for_def Let_def split: if_splits)

lemma receipt_for_event [simp]: "rc_Event (receipt_for l now event) = event"
  by (simp add: receipt_for_def)

lemma receipt_for_sized:
  assumes "sane_clock now" "cl_validText (lg_nodeID l) 256" "cl_digest (lg_last l)" "\<forall>t \<in> ran (lg_taskHeads l). cl_digest (tc_hash t)"
  shows "coordinates_sized (receipt_for l now event)"
proof -
  have "text_within 128 (tc_hash (coordinate_of (lg_taskHeads l) d))" for d
    using assms(4) text_within_digest by (auto simp: coordinate_of_def ran_def split: option.splits)
  moreover have "text_within 128 (receipt_schema (receipt_version event))"
    using printable_utf8 [OF printable_payload_type(2)] payload_type_length(2) [OF receipt_version_range(2), of event]
    by (simp add: text_within_def)
  ultimately show ?thesis
    using assms(1-3) format_nano_text text_within_digest zeroHash_digest
    by (simp add: coordinates_sized_def receipt_for_def text_within_def cl_validText_def)
qed

end
