(* ===== verification/Machines.thy ===== *)
theory Machines
  imports Prelude "HOL-Library.AList"
begin

text \<open>
  Contracts of the stateful components. An operation takes the state to a new state and a result; \<open>run_ops\<close>
  runs a sequence of operations and keeps the results. \<open>machine\<close> is the promise that every allowed operation keeps
  an invariant, \<open>claiming_machine\<close> the promise that a key is claimed at most once, and \<open>monotone_machine\<close> that a
  counter never goes down. The receipt ledger and the command queue interpret them. The last section has
  the arithmetic of association lists that the accounting of both uses.
\<close>

section \<open>Runs\<close>

fun run_ops :: "('op \<Rightarrow> 's \<Rightarrow> 's \<times> 'r) \<Rightarrow> 'op list \<Rightarrow> 's \<Rightarrow> ('op \<times> 'r) list \<times> 's" where
  "run_ops exec [] s = ([], s)"
| "run_ops exec (op # ops) s =
     (let (s', r) = exec op s; (tr, s'') = run_ops exec ops s' in ((op, r) # tr, s''))"

definition final_state :: "('op \<Rightarrow> 's \<Rightarrow> 's \<times> 'r) \<Rightarrow> 'op list \<Rightarrow> 's \<Rightarrow> 's" where
  "final_state exec ops s = snd (run_ops exec ops s)"

definition results :: "('op \<Rightarrow> 's \<Rightarrow> 's \<times> 'r) \<Rightarrow> 'op list \<Rightarrow> 's \<Rightarrow> ('op \<times> 'r) list" where
  "results exec ops s = fst (run_ops exec ops s)"

lemma final_state_Nil [simp]: "final_state exec [] s = s" "results exec [] s = []"
  by (simp_all add: final_state_def results_def)

lemma final_state_Cons [simp]: "final_state exec (op # ops) s = final_state exec ops (fst (exec op s))"
  by (simp add: final_state_def split: prod.splits)

lemma results_Cons [simp]: "results exec (op # ops) s = (op, snd (exec op s)) # results exec ops (fst (exec op s))"
  by (simp add: results_def split: prod.splits)

lemma final_state_append: "final_state exec (xs @ ys) s = final_state exec ys (final_state exec xs s)"
  by (induction xs arbitrary: s) auto

section \<open>Contracts\<close>

locale machine =
  fixes exec :: "'op \<Rightarrow> 's \<Rightarrow> 's \<times> 'r"
    and allowed :: "'op \<Rightarrow> bool"
    and inv :: "'s \<Rightarrow> bool"
  assumes exec_inv: "inv s \<Longrightarrow> allowed op \<Longrightarrow> inv (fst (exec op s))"
begin

lemma run_inv: "inv s \<Longrightarrow> \<forall>op \<in> set ops. allowed op \<Longrightarrow> inv (final_state exec ops s)"
  by (induction ops arbitrary: s) (auto intro: exec_inv)

end

text \<open>Keys are claimed by successful operations; a claimed key stays used.\<close>

locale claiming_machine = machine exec allowed inv
  for exec :: "'op \<Rightarrow> 's \<Rightarrow> 's \<times> 'r" and allowed :: "'op \<Rightarrow> bool" and inv :: "'s \<Rightarrow> bool" +
  fixes used :: "'s \<Rightarrow> 'k set"
    and claims :: "'op \<times> 'r \<Rightarrow> 'k option"
  assumes used_mono: "inv s \<Longrightarrow> allowed op \<Longrightarrow> used s \<subseteq> used (fst (exec op s))"
    and claim_fresh: "inv s \<Longrightarrow> allowed op \<Longrightarrow> claims (op, snd (exec op s)) = Some k \<Longrightarrow>
      k \<notin> used s \<and> k \<in> used (fst (exec op s))"
begin

lemma used_run: "inv s \<Longrightarrow> \<forall>op \<in> set ops. allowed op \<Longrightarrow> used s \<subseteq> used (final_state exec ops s)"
proof (induction ops arbitrary: s)
  case (Cons op ops)
  then show ?case using used_mono [of s op] exec_inv [of s op] by fastforce
qed simp

lemma claims_once:
  assumes "inv s" "\<forall>op \<in> set ops. allowed op"
  shows "distinct (List.map_filter claims (results exec ops s)) \<and>
    set (List.map_filter claims (results exec ops s)) \<inter> used s = {} \<and>
    set (List.map_filter claims (results exec ops s)) \<subseteq> used (final_state exec ops s)"
  using assms
proof (induction ops arbitrary: s)
  case (Cons op ops)
  let ?s = "fst (exec op s)" and ?ks = "List.map_filter claims (results exec ops (fst (exec op s)))"
  have IH: "distinct ?ks" "set ?ks \<inter> used ?s = {}" "set ?ks \<subseteq> used (final_state exec ops ?s)"
    using Cons.IH [of ?s] Cons.prems exec_inv by auto
  have up: "used ?s \<subseteq> used (final_state exec ops ?s)" using used_run Cons.prems exec_inv by auto
  show ?case
  proof (cases "claims (op, snd (exec op s))")
    case None
    then show ?thesis using IH used_mono [of s op] Cons.prems by (auto simp: map_filter_simps)
  next
    case (Some k)
    then have "k \<notin> used s" "k \<in> used ?s" using claim_fresh Cons.prems by auto
    then show ?thesis using Some IH up used_mono [of s op] Cons.prems by (auto simp: map_filter_simps)
  qed
qed (simp add: map_filter_simps)

end

text \<open>A counter per key that no allowed operation decreases.\<close>

locale monotone_machine = machine exec allowed inv
  for exec :: "'op \<Rightarrow> 's \<Rightarrow> 's \<times> 'r" and allowed :: "'op \<Rightarrow> bool" and inv :: "'s \<Rightarrow> bool" +
  fixes counter :: "'s \<Rightarrow> 'k \<Rightarrow> int"
  assumes counter_step: "inv s \<Longrightarrow> allowed op \<Longrightarrow> counter s k \<le> counter (fst (exec op s)) k"
begin

lemma counter_run: "inv s \<Longrightarrow> \<forall>op \<in> set ops. allowed op \<Longrightarrow> counter s k \<le> counter (final_state exec ops s) k"
proof (induction ops arbitrary: s)
  case (Cons op ops)
  then show ?case using counter_step [of s op k] exec_inv [of s op] by fastforce
qed simp

end

section \<open>Sums over association lists\<close>

text \<open>The contribution of the entry of a key.\<close>

definition weight_at :: "('k \<times> 'v \<Rightarrow> int) \<Rightarrow> ('k \<times> 'v) list \<Rightarrow> 'k \<Rightarrow> int" where
  "weight_at w xs k = (case map_of xs k of None \<Rightarrow> 0 | Some v \<Rightarrow> w (k, v))"

lemma sum_update: "(\<Sum>p\<leftarrow>AList.update k v xs. w p) = (\<Sum>p\<leftarrow>xs. w p) - weight_at w xs k + w (k, v)"
  by (induction xs) (auto simp: weight_at_def)

lemma sum_delete:
  assumes "distinct (map fst xs)"
  shows "(\<Sum>p\<leftarrow>AList.delete k xs. w p) = (\<Sum>p\<leftarrow>xs. w p) - weight_at w xs k"
  using assms
proof (induction xs)
  case (Cons p xs)
  show ?case
  proof (cases "fst p = k")
    case True
    then have "k \<notin> fst ` set xs" using Cons.prems by auto
    then have "AList.delete k xs = xs" by (rule AList.delete_id)
    with True show ?thesis by (cases p) (simp add: weight_at_def)
  next
    case False
    with Cons show ?thesis by (cases p) (simp add: weight_at_def)
  qed
qed (simp add: weight_at_def)

lemma sum_zero_notin: "\<forall>p \<in> set xs. w p = 0 \<Longrightarrow> (\<Sum>p\<leftarrow>xs. (w p :: int)) = 0"
  by (induction xs) auto

lemma weight_le_sum:
  fixes w :: "'k \<times> 'v \<Rightarrow> int"
  assumes "\<forall>p \<in> set xs. 0 \<le> w p" "map_of xs k = Some v"
  shows "w (k, v) \<le> (\<Sum>p\<leftarrow>xs. w p)"
  using assms
proof (induction xs)
  case (Cons p xs)
  then have "0 \<le> (\<Sum>p\<leftarrow>xs. w p)" by (intro sum_list_nonneg) auto
  with Cons show ?case by (cases p) (auto split: if_splits)
qed simp

end
