(* ===== verification/Ledger_Invariant.thy ===== *)
theory Ledger_Invariant
  imports Ledger_Seal Machines
begin

text \<open>
  The accounting of the open ledger. Every tenant is charged for its durable lines and for the space reserved
  for the lines its incomplete calls still owe; the sum of the charges is the size of the file plus the reservation,
  and valid limits keep it within \<open>MaxLogBytes\<close>. From this invariant follow the promises of the package: a reserved
  line is never refused, a tenant within its slice is never refused because of the others, a task is spent once,
  and an inference allowance is never refunded.
\<close>

section \<open>Limits\<close>

lemma minimumTenantBytes_pos: "0 < minimumTenantBytes" "0 < terminalReserveBytes"
  by (simp_all add: minimumTenantBytes_def terminalReserveBytes_def MaxLineBytes_def)

lemma validate_budgets_iff:
  "t \<le> MaxLogBytes \<Longrightarrow> validate_budgets t bs = Ok () \<longleftrightarrow>
     (\<forall>(k, n) \<in> set bs. cl_publicIdentity k 128 \<and> minimumTenantBytes \<le> n) \<and> t + (\<Sum>p\<leftarrow>bs. snd p) \<le> MaxLogBytes"
proof (induction t bs rule: validate_budgets.induct)
  case (2 t k n bs)
  show ?case
  proof (cases "cl_publicIdentity k 128 \<and> minimumTenantBytes \<le> n \<and> t + n \<le> MaxLogBytes")
    case True
    then have "validate_budgets t ((k, n) # bs) = validate_budgets (t + n) bs" by simp
    with True 2 show ?thesis by auto
  next
    case False
    have "0 \<le> (\<Sum>p\<leftarrow>bs. snd p)" if "\<forall>(k, n) \<in> set bs. minimumTenantBytes \<le> n"
      using that minimumTenantBytes_pos by (intro sum_list_nonneg) fastforce
    with False show ?thesis by (auto split: prod.splits) fastforce
  qed
qed simp

text \<open>The limits a ledger can be opened with. The keys of a Go map are distinct.\<close>

definition limits_ok :: "Limits \<Rightarrow> bool" where
  "limits_ok limits \<longleftrightarrow> lm_Validate limits = Ok () \<and>
     (case lm_TenantBudgets limits of None \<Rightarrow> True | Some bs \<Rightarrow> distinct (map fst bs))"

lemma limits_ok_uniform:
  assumes "limits_ok limits" "lm_TenantBudgets limits = None"
  shows "0 < lm_MaxTenants limits" "minimumTenantBytes \<le> lm_MaxBytesPerTenant limits"
    "lm_MaxTenants limits * lm_MaxBytesPerTenant limits \<le> MaxLogBytes"
proof -
  have v: "0 < lm_MaxTenants limits" "minimumTenantBytes \<le> lm_MaxBytesPerTenant limits"
    "lm_MaxTenants limits \<le> MaxLogBytes div lm_MaxBytesPerTenant limits"
    using assms by (auto simp: limits_ok_def lm_Validate_def split: if_splits)
  then show "0 < lm_MaxTenants limits" "minimumTenantBytes \<le> lm_MaxBytesPerTenant limits" by auto
  have "lm_MaxTenants limits * lm_MaxBytesPerTenant limits \<le> (MaxLogBytes div lm_MaxBytesPerTenant limits) * lm_MaxBytesPerTenant limits"
    using v minimumTenantBytes_pos by (intro mult_right_mono) auto
  also have "\<dots> \<le> MaxLogBytes"
    using v minimumTenantBytes_pos div_mult_mod_eq [of MaxLogBytes "lm_MaxBytesPerTenant limits"]
      pos_mod_sign [of "lm_MaxBytesPerTenant limits" MaxLogBytes] by linarith
  finally show "lm_MaxTenants limits * lm_MaxBytesPerTenant limits \<le> MaxLogBytes" .
qed

lemma limits_ok_budgets:
  assumes "limits_ok limits" "lm_TenantBudgets limits = Some bs"
  shows "distinct (map fst bs)" "\<forall>(k, n) \<in> set bs. minimumTenantBytes \<le> n" "(\<Sum>p\<leftarrow>bs. snd p) \<le> MaxLogBytes"
  using assms validate_budgets_iff [of 0 bs]
  by (auto simp: limits_ok_def lm_Validate_def MaxLogBytes_def split: if_splits)

text \<open>A usage table in which every tenant stays within its quota.\<close>

definition within_quotas :: "Limits \<Rightarrow> (bytes \<times> int) list \<Rightarrow> bool" where
  "within_quotas limits tb \<longleftrightarrow> distinct (map fst tb) \<and>
     (\<forall>(t, n) \<in> set tb. \<exists>q. tenantQuota limits t = Ok q \<and> n \<le> q) \<and>
     (lm_TenantBudgets limits = None \<longrightarrow> int (length tb) \<le> lm_MaxTenants limits)"

lemma sum_snd_distinct: "distinct (map fst xs) \<Longrightarrow> (\<Sum>p\<leftarrow>xs. snd p) = (\<Sum>k \<in> fst ` set xs. the (map_of xs k))"
proof (induction xs)
  case (Cons p xs)
  obtain k v where p: "p = (k, v)" by (cases p)
  have "(\<Sum>k' \<in> fst ` set xs. the (map_of (p # xs) k')) = (\<Sum>k' \<in> fst ` set xs. the (map_of xs k'))"
    using Cons.prems p by (intro sum.cong) (auto simp: image_iff)
  with Cons p show ?case by (simp add: sum.insert_if)
qed simp

text \<open>Valid limits bound the sum of all charges, whatever the tenants are.\<close>

lemma within_quotas_total:
  assumes "limits_ok limits" "within_quotas limits tb"
  shows "(\<Sum>p\<leftarrow>tb. snd p) \<le> MaxLogBytes"
proof (cases "lm_TenantBudgets limits")
  case None
  have "\<forall>p \<in> set tb. snd p \<le> lm_MaxBytesPerTenant limits"
    using assms(2) None by (auto simp: within_quotas_def tenantQuota_def)
  then have "(\<Sum>p\<leftarrow>tb. snd p) \<le> (\<Sum>p\<leftarrow>tb. lm_MaxBytesPerTenant limits)" by (intro sum_list_mono) auto
  also have "\<dots> = int (length tb) * lm_MaxBytesPerTenant limits" by (simp add: sum_list_triv)
  also have "\<dots> \<le> lm_MaxTenants limits * lm_MaxBytesPerTenant limits"
    using assms None limits_ok_uniform [OF assms(1) None] minimumTenantBytes_pos
    by (intro mult_right_mono) (auto simp: within_quotas_def)
  finally show ?thesis using limits_ok_uniform(3) [OF assms(1) None] by linarith
next
  case (Some bs)
  note b = limits_ok_budgets [OF assms(1) Some]
  have d: "distinct (map fst tb)" using assms(2) by (simp add: within_quotas_def)
  have q: "\<exists>m. map_of bs t = Some m \<and> n \<le> m" if "(t, n) \<in> set tb" for t n
    using assms(2) that Some by (fastforce simp: within_quotas_def tenantQuota_def split: option.splits)
  have "the (map_of tb t) \<le> the (map_of bs t)" if "t \<in> fst ` set tb" for t
    using that q d by (force simp: map_of_eq_Some_iff)
  then have "(\<Sum>p\<leftarrow>tb. snd p) \<le> (\<Sum>t \<in> fst ` set tb. the (map_of bs t))"
    unfolding sum_snd_distinct [OF d] by (intro sum_mono) auto
  also have "\<dots> \<le> (\<Sum>t \<in> fst ` set bs. the (map_of bs t))"
  proof (rule sum_mono2)
    show "fst ` set tb \<subseteq> fst ` set bs" using q by (force dest: map_of_SomeD intro: rev_image_eqI)
    show "0 \<le> the (map_of bs t)" if "t \<in> fst ` set bs - fst ` set tb" for t
      using that b(1,2) minimumTenantBytes_pos by (fastforce simp: map_of_eq_Some_iff)
  qed simp
  finally show ?thesis using b(3) sum_snd_distinct [OF b(1)] by simp
qed

lemma usage_weight: "usage_of tb t = weight_at snd tb t"
  by (simp add: usage_of_def weight_at_def split: option.splits)

lemma within_quotas_update:
  assumes "within_quotas limits tb" "tenantQuota limits t = Ok q" "n \<le> q"
    "map_of tb t = None \<Longrightarrow> lm_TenantBudgets limits = None \<Longrightarrow> int (length tb) < lm_MaxTenants limits"
  shows "within_quotas limits (AList.update t n tb)"
proof -
  have len: "length (AList.update t n tb) = (if map_of tb t = None then Suc (length tb) else length tb)"
    by (induction tb) auto
  have "set (AList.update t n tb) \<subseteq> insert (t, n) (set tb)" by (induction tb) auto
  then show ?thesis
    using assms len AList.distinct_update [of tb t n] by (fastforce simp: within_quotas_def)
qed

section \<open>Reservations\<close>

definition reserve_total :: "(bytes \<times> Event) list \<Rightarrow> int" where
  "reserve_total pending = (\<Sum>p\<leftarrow>pending. pendingReservation (snd p))"

definition reserve_of :: "(bytes \<times> Event) list \<Rightarrow> bytes \<Rightarrow> int" where
  "reserve_of pending t = (\<Sum>p\<leftarrow>pending. if ev_TenantID (snd p) = t then pendingReservation (snd p) else 0)"

lemma pendingReservation_pos: "0 < pendingReservation e" "terminalReserveBytes \<le> pendingReservation e"
  using minimumTenantBytes_pos by (simp_all add: pendingReservation_def)

lemma reserve_nonneg: "0 \<le> reserve_total ps" "0 \<le> reserve_of ps t"
  by (auto simp: reserve_total_def reserve_of_def pendingReservation_pos less_imp_le intro!: sum_list_nonneg)

lemma reserve_of_pending:
  assumes "map_of ps k = Some e"
  shows "pendingReservation e \<le> reserve_of ps (ev_TenantID e)" "pendingReservation e \<le> reserve_total ps"
proof -
  have nn: "\<forall>p \<in> set ps. 0 \<le> (if ev_TenantID (snd p) = ev_TenantID e then pendingReservation (snd p) else 0)"
    using pendingReservation_pos(1) by (auto intro: less_imp_le)
  show "pendingReservation e \<le> reserve_of ps (ev_TenantID e)"
    using weight_le_sum [OF nn assms] by (simp add: reserve_of_def)
  have nn': "\<forall>p \<in> set ps. 0 \<le> pendingReservation (snd p)"
    using pendingReservation_pos(1) by (auto intro: less_imp_le)
  show "pendingReservation e \<le> reserve_total ps"
    using weight_le_sum [OF nn' assms] by (simp add: reserve_total_def)
qed

text \<open>How the reservation of a call list changes when a call begins, moves on, or ends.\<close>

definition owed :: "(bytes \<times> Event) list \<Rightarrow> bytes \<Rightarrow> int" where
  "owed ps k = (case map_of ps k of None \<Rightarrow> 0 | Some e \<Rightarrow> pendingReservation e)"

lemma reserve_total_update: "reserve_total (AList.update k e ps) = reserve_total ps - owed ps k + pendingReservation e"
  by (simp add: reserve_total_def sum_update weight_at_def owed_def split: option.splits)

lemma reserve_total_delete: "distinct (map fst ps) \<Longrightarrow> reserve_total (AList.delete k ps) = reserve_total ps - owed ps k"
  by (simp add: reserve_total_def sum_delete weight_at_def owed_def split: option.splits)

lemma reserve_of_update:
  "(\<And>e'. map_of ps k = Some e' \<Longrightarrow> ev_TenantID e' = ev_TenantID e) \<Longrightarrow>
   reserve_of (AList.update k e ps) t = reserve_of ps t + (if t = ev_TenantID e then pendingReservation e - owed ps k else 0)"
  by (auto simp: reserve_of_def sum_update weight_at_def owed_def split: option.splits)

lemma reserve_of_delete:
  "distinct (map fst ps) \<Longrightarrow> map_of ps k = Some e \<Longrightarrow>
   reserve_of (AList.delete k ps) t = reserve_of ps t - (if t = ev_TenantID e then pendingReservation e else 0)"
  by (auto simp: reserve_of_def sum_delete weight_at_def)

section \<open>The invariant\<close>

definition identity_ok :: "crypto \<Rightarrow> Log \<Rightarrow> bool" where
  "identity_ok c l \<longleftrightarrow> length (lg_private l) = 64 \<and> lg_public l = ed_public c (lg_private l) \<and>
     lg_keyID l = cl_KeyID c (lg_public l) \<and> cl_validText (lg_nodeID l) 256 \<and> cl_digest (lg_last l) \<and> limits_ok (lg_limits l)"

definition charges_ok :: "Log \<Rightarrow> bool" where
  "charges_ok l \<longleftrightarrow> within_quotas (lg_limits l) (lg_tenantBytes l) \<and> lg_reserved l = reserve_total (lg_pending l) \<and>
     (\<forall>t. reserve_of (lg_pending l) t \<le> usage_of (lg_tenantBytes l) t) \<and>
     (\<not> lg_failed l \<longrightarrow> (\<Sum>p\<leftarrow>lg_tenantBytes l. snd p) = int (length (lg_disk l)) + lg_reserved l)"

text \<open>A pending call is valid, at most dispatched, and its task chain is at the matching place.\<close>

definition call_ok :: "crypto \<Rightarrow> Log \<Rightarrow> bytes \<times> Event \<Rightarrow> bool" where
  "call_ok c l p \<longleftrightarrow> ev_TaskDigest (snd p) = fst p \<and> fst p \<in> lg_spent l \<and> validateEvent c (snd p) = Ok () \<and>
     (ev_Phase (snd p) = Authorize \<or> ev_Phase (snd p) = Dispatch) \<and>
     (ev_TaskProtocol (snd p) \<noteq> [] \<longrightarrow> (\<exists>t. lg_taskHeads l (fst p) = Some t \<and>
        tc_sequence t = (if ev_Phase (snd p) = Authorize then 1 else 2)))"

definition calls_ok :: "crypto \<Rightarrow> Log \<Rightarrow> bool" where
  "calls_ok c l \<longleftrightarrow> distinct (map fst (lg_pending l)) \<and> (\<forall>p \<in> set (lg_pending l). call_ok c l p) \<and>
     dom (lg_taskHeads l) \<subseteq> lg_spent l \<and> (\<forall>t \<in> ran (lg_taskHeads l). cl_digest (tc_hash t))"

definition ledger_inv :: "crypto \<Rightarrow> Log \<Rightarrow> bool" where
  "ledger_inv c l \<longleftrightarrow> identity_ok c l \<and> charges_ok l \<and> calls_ok c l"

text \<open>The file always has room for everything that is reserved.\<close>

lemma ledger_room: "ledger_inv c l \<Longrightarrow> \<not> lg_failed l \<Longrightarrow> int (length (lg_disk l)) + lg_reserved l \<le> MaxLogBytes"
  using within_quotas_total [of "lg_limits l" "lg_tenantBytes l"]
  by (simp add: ledger_inv_def identity_ok_def charges_ok_def)

section \<open>Appending\<close>

text \<open>\<open>stored c l e d l1\<close>: the append of \<open>e\<close> with the reservation change \<open>d\<close> succeeds and leaves \<open>l1\<close>.\<close>

definition stored :: "crypto \<Rightarrow> Log \<Rightarrow> time \<Rightarrow> Event \<Rightarrow> int \<Rightarrow> Log \<Rightarrow> bool" where
  "stored c l now e d l1 \<longleftrightarrow> lg_open l \<and> \<not> lg_failed l \<and> next_receipt l now e = Ok (receipt_for l now e) \<and>
     (\<exists>raw reserved usage. sealed_line c l (receipt_for l now e) = Ok raw \<and>
        admit_usage l e d (length raw + 1) = Ok (reserved, usage) \<and> l1 = record_line c l (receipt_for l now e) raw reserved usage)"

definition poisoned :: "Log \<Rightarrow> Log \<Rightarrow> bool" where
  "poisoned l l1 \<longleftrightarrow> lg_open l \<and> \<not> lg_failed l \<and> (\<exists>bs. l1 = l\<lparr>lg_disk := lg_disk l @ bs, lg_failed := True\<rparr>)"

lemma appendLocked_cases:
  obtains (refused) err where "appendLocked c now io l e d = (l, Inl err)"
  | (poisoned) l1 err where "poisoned l l1" "appendLocked c now io l e d = (l1, Inl err)" "io \<noteq> IoOk"
  | (stored) l1 where "stored c l now e d l1" "appendLocked c now io l e d = (l1, Ok (headLocked l1))" "io = IoOk"
proof (cases "lg_open l \<and> \<not> lg_failed l")
  case True
  show ?thesis
  proof (cases "next_receipt l now e")
    case (Inl err)
    with True show ?thesis using refused by (simp add: appendLocked_def)
  next
    case (Inr r)
    then have r: "r = receipt_for l now e" by (simp add: next_receipt_Ok_iff)
    show ?thesis
    proof (cases "sealed_line c l r")
      case (Inl err)
      with True Inr show ?thesis using refused by (simp add: appendLocked_def)
    next
      case raw: (Inr raw)
      show ?thesis
      proof (cases "admit_usage l e d (length raw + 1)")
        case (Inl err)
        with True Inr raw show ?thesis using refused by (cases "io = StatFailed") (auto simp: appendLocked_def errorf_def)
      next
        case adm: (Inr ru)
        obtain reserved usage where ru: "ru = (reserved, usage)" by (cases ru)
        have st: "stored c l now e d (record_line c l r raw reserved usage)"
          using True Inr raw adm ru r by (auto simp: stored_def)
        have po: "poisoned l (l\<lparr>lg_disk := lg_disk l @ bs, lg_failed := True\<rparr>)" for bs
          using True by (auto simp: poisoned_def)
        note eval = True Inr raw adm ru
        show ?thesis
        proof (cases io)
          case IoOk
          with eval show ?thesis using stored [OF st] by (simp add: appendLocked_def Let_def)
        next
          case StatFailed
          with eval show ?thesis using refused by (simp add: appendLocked_def errorf_def)
        next
          case (WriteFailed n)
          with eval show ?thesis using poisoned [OF po] by (simp add: appendLocked_def errorf_def)
        next
          case SyncFailed
          with eval show ?thesis using poisoned [OF po] by (simp add: appendLocked_def errorf_def)
        qed
      qed
    qed
  qed
next
  case False
  then have "\<exists>err. appendLocked c now io l e d = (l, Inl err)" by (auto simp: appendLocked_def errorf_def)
  then show ?thesis using refused by blast
qed

lemma admit_usage_Ok_iff:
  "admit_usage l e d n = Ok (reserved, usage) \<longleftrightarrow>
     reserved = lg_reserved l + d \<and> 0 \<le> reserved \<and> int (length (lg_disk l)) + int n + reserved \<le> MaxLogBytes \<and>
     usage = usage_of (lg_tenantBytes l) (ev_TenantID e) + int n + d \<and> 0 \<le> usage \<and>
     (\<exists>q. tenantQuota (lg_limits l) (ev_TenantID e) = Ok q \<and> usage \<le> q) \<and>
     (map_of (lg_tenantBytes l) (ev_TenantID e) = None \<longrightarrow> lm_TenantBudgets (lg_limits l) = None \<longrightarrow>
        int (length (lg_tenantBytes l)) < lm_MaxTenants (lg_limits l))"
  by (auto simp: admit_usage_def Let_def and_then_Inr_iff not_less split: if_splits)

lemma usage_of_update: "usage_of (AList.update t n tb) t' = (if t' = t then n else usage_of tb t')"
  by (simp add: usage_of_def update_conv')

text \<open>The charges stay right when the pending calls change by the reservation of the append.\<close>

lemma charges_stored:
  assumes "charges_ok l" "\<not> lg_failed l" "admit_usage l e d n = Ok (reserved, usage)"
    "lg_limits l' = lg_limits l" "lg_tenantBytes l' = AList.update (ev_TenantID e) usage (lg_tenantBytes l)"
    "lg_reserved l' = reserved" "length (lg_disk l') = length (lg_disk l) + n"
    "reserve_total (lg_pending l') = reserve_total (lg_pending l) + d"
    "\<And>t. reserve_of (lg_pending l') t = reserve_of (lg_pending l) t + (if t = ev_TenantID e then d else 0)"
  shows "charges_ok l'"
proof -
  note a = assms(3) [unfolded admit_usage_Ok_iff]
  from a obtain q where q: "tenantQuota (lg_limits l) (ev_TenantID e) = Ok q" "usage \<le> q" by blast
  have "within_quotas (lg_limits l') (lg_tenantBytes l')"
    unfolding assms(4,5) by (rule within_quotas_update [OF _ q]) (use assms(1) a in \<open>auto simp: charges_ok_def\<close>)
  moreover have "(\<Sum>p\<leftarrow>lg_tenantBytes l'. snd p) = int (length (lg_disk l')) + lg_reserved l'"
    using assms(1,2) a unfolding assms(5,6,7) by (simp add: charges_ok_def sum_update usage_weight [symmetric])
  moreover have "reserve_of (lg_pending l') t \<le> usage_of (lg_tenantBytes l') t" for t
  proof -
    have "reserve_of (lg_pending l) t \<le> usage_of (lg_tenantBytes l) t" using assms(1) by (simp add: charges_ok_def)
    then show ?thesis unfolding assms(5,9) usage_of_update using a by auto
  qed
  ultimately show ?thesis using assms(1,8) a by (simp add: charges_ok_def assms(6))
qed

section \<open>Steps\<close>

text \<open>What an operation can do to the handle besides leaving it unchanged.\<close>

inductive ledger_step :: "crypto \<Rightarrow> Log \<Rightarrow> Log \<Rightarrow> bool" for c where
  ls_close: "lg_open l \<Longrightarrow> ledger_step c l (l\<lparr>lg_open := False\<rparr>)"
| ls_poison: "poisoned l l1 \<Longrightarrow> ledger_step c l l1"
| ls_deny: "stored c l now e 0 l1 \<Longrightarrow> validateEvent c e = Ok () \<Longrightarrow> ev_Phase e = Deny \<Longrightarrow> ledger_step c l l1"
| ls_begin: "stored c l now e (pendingReservation e) l1 \<Longrightarrow> validateEvent c e = Ok () \<Longrightarrow> ev_Phase e = Authorize \<Longrightarrow>
    ev_TaskDigest e \<notin> lg_spent l \<Longrightarrow> validateRunControlOwner e (lg_runOwners l) = Ok () \<Longrightarrow>
    validateInferenceScopeOwner e (lg_pending l) = Ok () \<Longrightarrow> ledger_step c l (call_begun e l1)"
| ls_dispatch: "stored c l now e (- terminalReserveBytes) l1 \<Longrightarrow> validateEvent c e = Ok () \<Longrightarrow> ev_Phase e = Dispatch \<Longrightarrow>
    map_of (lg_pending l) (ev_TaskDigest e) = Some p \<Longrightarrow> validateTransition p e = Ok () \<Longrightarrow>
    validateRunControlOwner e (lg_runOwners l) = Ok () \<Longrightarrow>
    (\<And>owner. lg_runOwners l (runOwnershipFor e) = Some owner \<Longrightarrow> ev_TargetTaskDigest e = [] \<Longrightarrow> ev_TaskDigest owner = ev_TaskDigest e) \<Longrightarrow>
    ledger_step c l (call_dispatched e l1)"
| ls_finish: "stored c l now e (- pendingReservation p) l1 \<Longrightarrow> validateEvent c e = Ok () \<Longrightarrow> ev_Phase e = Terminal \<Longrightarrow>
    map_of (lg_pending l) (ev_TaskDigest e) = Some p \<Longrightarrow> validateTransition p e = Ok () \<Longrightarrow>
    ledger_step c l (call_finished e l1)"

text \<open>The calls a client can make, with the clock and the outcome of the system calls.\<close>

datatype ledger_op =
    Op_Append Event
  | Op_Begin Event
  | Op_BeginInference Event int
  | Op_Dispatch Event
  | Op_Finish Event
  | Op_Close bool

type_synonym ledger_call = "ledger_op \<times> time \<times> io"

fun lg_exec :: "crypto \<Rightarrow> ledger_call \<Rightarrow> Log \<Rightarrow> Log \<times> Head result" where
  "lg_exec c (Op_Append e, now, io) l = Append c now io l e"
| "lg_exec c (Op_Begin e, now, io) l = Begin c now io l e"
| "lg_exec c (Op_BeginInference e m, now, io) l = BeginInference c now io l e m"
| "lg_exec c (Op_Dispatch e, now, io) l = lg_Dispatch c now io l e"
| "lg_exec c (Op_Finish e, now, io) l = Finish c now io l e"
| "lg_exec c (Op_Close failing, now, io) l = (fst (lg_Close failing l), and_then (snd (lg_Close failing l)) (\<lambda>_. Ok (headLocked l)))"

lemma then_update_cases:
  obtains (refused) err where "then_update (appendLocked c now io l e d) f = (l, Inl err)"
  | (poisoned) l1 err where "poisoned l l1" "then_update (appendLocked c now io l e d) f = (l1, Inl err)" "io \<noteq> IoOk"
  | (stored) l1 where "stored c l now e d l1" "then_update (appendLocked c now io l e d) f = (f l1, Ok (headLocked l1))" "io = IoOk"
  by (rule appendLocked_cases [of c now io l e d]) (auto simp: then_update_def)

definition stays_or_steps :: "crypto \<Rightarrow> Log \<Rightarrow> Log \<times> Head result \<Rightarrow> bool" where
  "stays_or_steps c l r \<longleftrightarrow> fst r = l \<or> ledger_step c l (fst r)"

lemma Append_steps: "stays_or_steps c l (Append c now io l e)"
proof (cases "validateEvent c e = Ok () \<and> ev_Phase e = Deny")
  case True
  then have "Append c now io l e = appendLocked c now io l e 0" by (simp add: Append_def)
  then show ?thesis
    using True by (cases rule: appendLocked_cases [of c now io l e 0]) (auto simp: stays_or_steps_def intro: ledger_step.intros)
qed (auto simp: Append_def stays_or_steps_def split: sum.splits)

text \<open>The guards of the operations: the handle is unchanged and an error is returned, or the append is reached.\<close>

lemma begin_call_guard:
  "(\<exists>err. begin_call c now io l e m = (l, Inl err)) \<or>
   begin_call c now io l e m = then_update (appendLocked c now io l e (pendingReservation e)) (call_begun e) \<and>
   validateEvent c e = Ok () \<and> ev_Phase e = Authorize \<and> ev_TaskDigest e \<notin> lg_spent l \<and>
   validateRunControlOwner e (lg_runOwners l) = Ok () \<and> validateInferenceScopeOwner e (lg_pending l) = Ok () \<and>
   (0 < m \<longrightarrow> lg_inferenceCounts l \<lparr>io_tenantID = ev_TenantID e, io_grantID = ev_GrantID e\<rparr> < m)"
  by (auto simp: begin_call_def errorf_def wrap_err_def and_then_Inr_iff split: sum.splits)

lemma Dispatch_guard:
  "(\<exists>err. lg_Dispatch c now io l e = (l, Inl err)) \<or>
   lg_Dispatch c now io l e = then_update (appendLocked c now io l e (- terminalReserveBytes)) (call_dispatched e) \<and>
   validateEvent c e = Ok () \<and> ev_Phase e = Dispatch \<and>
   (\<exists>p. map_of (lg_pending l) (ev_TaskDigest e) = Some p \<and> validateTransition p e = Ok ()) \<and>
   validateRunControlOwner e (lg_runOwners l) = Ok () \<and>
   (\<forall>owner. lg_runOwners l (runOwnershipFor e) = Some owner \<longrightarrow> ev_TargetTaskDigest e = [] \<longrightarrow> ev_TaskDigest owner = ev_TaskDigest e)"
  by (auto simp: lg_Dispatch_def errorf_def wrap_err_def split: sum.splits option.splits)

lemma Finish_guard:
  "(\<exists>err. Finish c now io l e = (l, Inl err)) \<or>
   (\<exists>p. Finish c now io l e = then_update (appendLocked c now io l e (- pendingReservation p)) (call_finished e) \<and>
      validateEvent c e = Ok () \<and> ev_Phase e = Terminal \<and>
      map_of (lg_pending l) (ev_TaskDigest e) = Some p \<and> validateTransition p e = Ok ())"
  by (auto simp: Finish_def errorf_def split: sum.splits option.splits)

lemma begin_call_steps: "stays_or_steps c l (begin_call c now io l e m)"
  using begin_call_guard [of c now io l e m]
  by (cases rule: then_update_cases [of c now io l e "pendingReservation e" "call_begun e"])
    (auto simp: stays_or_steps_def intro: ls_poison ls_begin)

lemma Dispatch_steps: "stays_or_steps c l (lg_Dispatch c now io l e)"
  using Dispatch_guard [of c now io l e]
  by (cases rule: then_update_cases [of c now io l e "- terminalReserveBytes" "call_dispatched e"])
    (auto simp: stays_or_steps_def intro: ls_poison intro!: ls_dispatch)

lemma Finish_steps: "stays_or_steps c l (Finish c now io l e)"
proof -
  consider err where "Finish c now io l e = (l, Inl err)"
    | p where "Finish c now io l e = then_update (appendLocked c now io l e (- pendingReservation p)) (call_finished e)"
      "validateEvent c e = Ok ()" "ev_Phase e = Terminal"
      "map_of (lg_pending l) (ev_TaskDigest e) = Some p" "validateTransition p e = Ok ()"
    using Finish_guard [of c now io l e] by blast
  then show ?thesis
  proof cases
    case (2 p)
    then show ?thesis
      by (cases rule: then_update_cases [of c now io l e "- pendingReservation p" "call_finished e"])
        (auto simp: stays_or_steps_def intro: ls_poison ls_finish)
  qed (simp add: stays_or_steps_def)
qed

lemma lg_exec_steps: "stays_or_steps c l (lg_exec c call l)"
proof (cases call)
  case (fields op now io)
  then show ?thesis
    using Append_steps begin_call_steps Dispatch_steps Finish_steps
    by (cases op) (auto simp: Begin_def BeginInference_def stays_or_steps_def lg_Close_def intro: ls_close)
qed

section \<open>Every step keeps the invariant\<close>

lemma record_line_frame [simp]:
  "lg_open (record_line c l r raw res u) = lg_open l" "lg_disk (record_line c l r raw res u) = lg_disk l @ raw @ [CHR 0x0A]"
  "lg_private (record_line c l r raw res u) = lg_private l" "lg_public (record_line c l r raw res u) = lg_public l"
  "lg_nodeID (record_line c l r raw res u) = lg_nodeID l" "lg_epoch (record_line c l r raw res u) = lg_epoch l"
  "lg_keyID (record_line c l r raw res u) = lg_keyID l" "lg_next (record_line c l r raw res u) = lg_next l + 1"
  "lg_last (record_line c l r raw res u) = hashLine c raw" "lg_failed (record_line c l r raw res u) = lg_failed l"
  "lg_reserved (record_line c l r raw res u) = res" "lg_pending (record_line c l r raw res u) = lg_pending l"
  "lg_spent (record_line c l r raw res u) = lg_spent l" "lg_runOwners (record_line c l r raw res u) = lg_runOwners l"
  "lg_limits (record_line c l r raw res u) = lg_limits l"
  "lg_tenantBytes (record_line c l r raw res u) = AList.update (ev_TenantID (rc_Event r)) u (lg_tenantBytes l)"
  "lg_inferenceCounts (record_line c l r raw res u) = lg_inferenceCounts l"
  "lg_taskHeads (record_line c l r raw res u) = (if ev_TaskProtocol (rc_Event r) = [] then lg_taskHeads l
     else (lg_taskHeads l)(ev_TaskDigest (rc_Event r) \<mapsto> \<lparr>tc_sequence = rc_TaskSequence r, tc_hash = hashLine c raw\<rparr>))"
  by (simp_all add: record_line_def Let_def)

lemma deny_no_protocol:
  assumes "validateEvent c e = Ok ()" "ev_Phase e = Deny"
  shows "ev_TaskProtocol e = []"
proof -
  have "event_kind e = Ok ()" using assms by (simp add: validateEvent_iff)
  with assms(2) show ?thesis
    by (auto simp: event_kind_def inference_fields_def legacy_fields_def connector_fields_def service_fields_def
        lifecycle_fields_def split: if_splits)
qed

lemma validateTransition_Ok_iff:
  "validateTransition p e = Ok () \<longleftrightarrow> sameCall p e \<and>
     (if ev_TaskProtocol p = [] then ev_Phase p = Authorize \<and> ev_Phase e = Terminal
      else ev_Phase p = Authorize \<and> (ev_Phase e = Dispatch \<or>
             ev_Phase e = Terminal \<and> ev_Outcome e = Failed \<and> ev_RunID e = [] \<and> ev_TaskStatus e = []) \<or>
           ev_Phase p = Dispatch \<and> ev_Phase e = Terminal \<and> ev_RunID e = ev_RunID p \<and>
             (ev_Outcome e = Responded \<and> ev_TaskStatus e \<noteq> [] \<or> ev_Outcome e = Failed \<and> ev_TaskStatus e = []))"
  by (auto simp: validateTransition_def split: if_splits)

lemma transition_to_dispatch:
  assumes "validateTransition p e = Ok ()" "ev_Phase e = Dispatch"
  shows "ev_TaskProtocol p \<noteq> []" "ev_TaskProtocol e = ev_TaskProtocol p" "ev_Phase p = Authorize" "ev_TenantID e = ev_TenantID p"
  using assms by (auto simp: validateTransition_Ok_iff sameCall_def split: if_splits)

lemma transition_tenant: "validateTransition p e = Ok () \<Longrightarrow> ev_TenantID e = ev_TenantID p"
  by (simp add: validateTransition_Ok_iff sameCall_def)

lemma lifecycle_protocol:
  assumes "validateEvent c e = Ok ()" "ev_TaskProtocol e \<noteq> []"
  shows "ev_TaskProtocol e = TaskProtocolLifecycleV1" "ev_Kind e = ServiceTask"
proof -
  have "event_kind e = Ok ()" using assms by (simp add: validateEvent_iff)
  with assms(2) show "ev_TaskProtocol e = TaskProtocolLifecycleV1" "ev_Kind e = ServiceTask"
    by (auto simp: event_kind_def inference_fields_def legacy_fields_def connector_fields_def service_fields_def
        lifecycle_fields_def split: if_splits)
qed

lemma set_update_distinct: "distinct (map fst xs) \<Longrightarrow> set (AList.update k v xs) = insert (k, v) {p \<in> set xs. fst p \<noteq> k}"
  by (induction xs) (auto intro: rev_image_eqI)

lemma set_delete: "set (AList.delete k xs) = {p \<in> set xs. fst p \<noteq> k}"
  by (auto simp: AList.delete_eq)

lemma call_ok_frame:
  "call_ok c l p \<Longrightarrow> lg_spent l \<subseteq> lg_spent l' \<Longrightarrow> lg_taskHeads l' (fst p) = lg_taskHeads l (fst p) \<Longrightarrow> call_ok c l' p"
  by (auto simp: call_ok_def)

lemma pending_call_ok: "ledger_inv c l \<Longrightarrow> map_of (lg_pending l) k = Some p \<Longrightarrow> call_ok c l (k, p)"
  by (auto simp: ledger_inv_def calls_ok_def dest: map_of_SomeD)

lemma pending_spent: "ledger_inv c l \<Longrightarrow> k \<notin> lg_spent l \<Longrightarrow> map_of (lg_pending l) k = None"
  using pending_call_ok [of c l k] by (cases "map_of (lg_pending l) k") (auto simp: call_ok_def)

lemma identity_stored:
  assumes "crypto_ok c" "identity_ok c l" "stored c l now e d l1"
  shows "identity_ok c l1"
  using assms hashLine_digest [OF assms(1)] by (auto simp: stored_def identity_ok_def)

text \<open>The charges after an append, with the calls of the updated handle \<open>l'\<close>.\<close>

lemma charges_after:
  assumes "charges_ok l" "stored c l now e d l1"
    "lg_limits l' = lg_limits l1" "lg_tenantBytes l' = lg_tenantBytes l1" "lg_reserved l' = lg_reserved l1" "lg_disk l' = lg_disk l1"
    "reserve_total (lg_pending l') = reserve_total (lg_pending l) + d"
    "\<And>t. reserve_of (lg_pending l') t = reserve_of (lg_pending l) t + (if t = ev_TenantID e then d else 0)"
  shows "charges_ok l'"
proof -
  obtain raw reserved usage where s: "\<not> lg_failed l" "admit_usage l e d (length raw + 1) = Ok (reserved, usage)"
    "l1 = record_line c l (receipt_for l now e) raw reserved usage"
    using assms(2) by (auto simp: stored_def)
  show ?thesis
    by (rule charges_stored [OF assms(1) s(1,2)]) (simp_all add: assms(3-8) s(3))
qed

lemma call_updates [simp]:
  "lg_limits (call_begun e l) = lg_limits l" "lg_tenantBytes (call_begun e l) = lg_tenantBytes l"
  "lg_reserved (call_begun e l) = lg_reserved l" "lg_disk (call_begun e l) = lg_disk l"
  "lg_pending (call_begun e l) = AList.update (ev_TaskDigest e) e (lg_pending l)"
  "lg_spent (call_begun e l) = insert (ev_TaskDigest e) (lg_spent l)" "lg_taskHeads (call_begun e l) = lg_taskHeads l"
  "identity_ok c (call_begun e l) = identity_ok c l"
  "lg_limits (call_dispatched e l) = lg_limits l" "lg_tenantBytes (call_dispatched e l) = lg_tenantBytes l"
  "lg_reserved (call_dispatched e l) = lg_reserved l" "lg_disk (call_dispatched e l) = lg_disk l"
  "lg_pending (call_dispatched e l) = AList.update (ev_TaskDigest e) e (lg_pending l)"
  "lg_spent (call_dispatched e l) = lg_spent l" "lg_taskHeads (call_dispatched e l) = lg_taskHeads l"
  "identity_ok c (call_dispatched e l) = identity_ok c l"
  "lg_limits (call_finished e l) = lg_limits l" "lg_tenantBytes (call_finished e l) = lg_tenantBytes l"
  "lg_reserved (call_finished e l) = lg_reserved l" "lg_disk (call_finished e l) = lg_disk l"
  "lg_pending (call_finished e l) = AList.delete (ev_TaskDigest e) (lg_pending l)"
  "lg_spent (call_finished e l) = lg_spent l" "lg_taskHeads (call_finished e l) = lg_taskHeads l"
  "identity_ok c (call_finished e l) = identity_ok c l"
  by (simp_all add: call_begun_def call_dispatched_def call_finished_def identity_ok_def Let_def)

lemma stored_calls:
  assumes "stored c l now e d l1"
  shows "lg_pending l1 = lg_pending l" "lg_spent l1 = lg_spent l" "lg_runOwners l1 = lg_runOwners l"
    "lg_inferenceCounts l1 = lg_inferenceCounts l" "lg_failed l1 = lg_failed l" "lg_limits l1 = lg_limits l"
    "k \<noteq> ev_TaskDigest e \<or> ev_TaskProtocol e = [] \<Longrightarrow> lg_taskHeads l1 k = lg_taskHeads l k"
  using assms by (auto simp: stored_def)

text \<open>The head of the task chain after an append of a lifecycle event.\<close>

lemma stored_heads:
  assumes "crypto_ok c" "stored c l now e d l1" "calls_ok c l" "ev_TaskDigest e \<in> S" "lg_spent l \<subseteq> S"
  shows "dom (lg_taskHeads l1) \<subseteq> S" "\<forall>t \<in> ran (lg_taskHeads l1). cl_digest (tc_hash t)"
    "ev_TaskProtocol e \<noteq> [] \<Longrightarrow>
       \<exists>t. lg_taskHeads l1 (ev_TaskDigest e) = Some t \<and> tc_sequence t = tc_sequence (coordinate_of (lg_taskHeads l) (ev_TaskDigest e)) + 1"
proof -
  have "dom (lg_taskHeads l) \<subseteq> S" using assms(3,5) by (auto simp: calls_ok_def)
  moreover have "dom (lg_taskHeads l1) \<subseteq> insert (ev_TaskDigest e) (dom (lg_taskHeads l))"
    using assms(2) by (auto simp: stored_def split: if_splits)
  ultimately show "dom (lg_taskHeads l1) \<subseteq> S" using assms(4) by blast
  show "\<forall>t \<in> ran (lg_taskHeads l1). cl_digest (tc_hash t)"
    using assms(2,3) hashLine_digest [OF assms(1)]
    by (fastforce simp: stored_def calls_ok_def ran_def split: if_splits)
  show "\<exists>t. lg_taskHeads l1 (ev_TaskDigest e) = Some t \<and> tc_sequence t = tc_sequence (coordinate_of (lg_taskHeads l) (ev_TaskDigest e)) + 1"
    if "ev_TaskProtocol e \<noteq> []"
    using assms(2) that by (auto simp: stored_def receipt_for_def)
qed

lemma other_calls:
  assumes "calls_ok c l" "stored c l now e d l1" "p \<in> set (lg_pending l)" "fst p \<noteq> ev_TaskDigest e \<or> ev_TaskProtocol e = []"
    "lg_spent l \<subseteq> lg_spent l'" "lg_taskHeads l' = lg_taskHeads l1"
  shows "call_ok c l' p"
proof (rule call_ok_frame)
  show "call_ok c l p" using assms(1,3) by (simp add: calls_ok_def)
  show "lg_spent l \<subseteq> lg_spent l'" by (rule assms(5))
  show "lg_taskHeads l' (fst p) = lg_taskHeads l (fst p)"
    unfolding assms(6) by (rule stored_calls(7) [OF assms(2,4)])
qed

lemma calls_deny:
  assumes "calls_ok c l" "stored c l now e d l1" "ev_TaskProtocol e = []"
  shows "calls_ok c l1"
proof -
  have h: "lg_taskHeads l1 = lg_taskHeads l" using stored_calls(7) [OF assms(2)] assms(3) by blast
  have "call_ok c l1 p" if "p \<in> set (lg_pending l)" for p
    by (rule other_calls [OF assms(1,2) that]) (simp_all add: assms(3) stored_calls(2) [OF assms(2)])
  then show ?thesis using assms(1) by (simp add: calls_ok_def h stored_calls(1,2) [OF assms(2)])
qed

text \<open>The calls after one of them has been replaced.\<close>

lemma calls_replace:
  assumes "calls_ok c l" "stored c l now e d l1" "lg_spent l \<subseteq> lg_spent l'" "lg_taskHeads l' = lg_taskHeads l1"
    "lg_pending l' = AList.update (ev_TaskDigest e) e (lg_pending l)" "call_ok c l' (ev_TaskDigest e, e)"
    "dom (lg_taskHeads l1) \<subseteq> lg_spent l'" "\<forall>t \<in> ran (lg_taskHeads l1). cl_digest (tc_hash t)"
  shows "calls_ok c l'"
proof -
  have d: "distinct (map fst (lg_pending l))" using assms(1) by (simp add: calls_ok_def)
  have "call_ok c l' p" if "p \<in> set (lg_pending l)" "fst p \<noteq> ev_TaskDigest e" for p
    by (rule other_calls [OF assms(1,2) that(1) _ assms(3,4)]) (simp add: that)
  then show ?thesis
    using assms(6,7,8) AList.distinct_update [OF d] by (simp add: calls_ok_def assms(4,5) set_update_distinct [OF d])
qed

lemma calls_begin:
  assumes "crypto_ok c" "ledger_inv c l" "stored c l now e d l1" "validateEvent c e = Ok ()" "ev_Phase e = Authorize"
    "ev_TaskDigest e \<notin> lg_spent l"
  shows "calls_ok c (call_begun e l1)"
proof -
  have ok: "calls_ok c l" using assms(2) by (simp add: ledger_inv_def)
  have "lg_taskHeads l (ev_TaskDigest e) = None" using ok assms(6) by (auto simp: calls_ok_def)
  then have fresh: "coordinate_of (lg_taskHeads l) (ev_TaskDigest e) = \<lparr>tc_sequence = 0, tc_hash = []\<rparr>"
    by (simp add: coordinate_of_def)
  note heads = stored_heads [OF assms(1,3) ok, of "insert (ev_TaskDigest e) (lg_spent l)"]
  have "call_ok c (call_begun e l1) (ev_TaskDigest e, e)"
    using heads(3) assms(4,5) fresh by (auto simp: call_ok_def)
  then show ?thesis
    by (intro calls_replace [OF ok assms(3)]) (use heads(1,2) in \<open>auto simp: stored_calls(1,2) [OF assms(3)]\<close>)
qed

lemma calls_dispatch:
  assumes "crypto_ok c" "ledger_inv c l" "stored c l now e d l1" "validateEvent c e = Ok ()" "ev_Phase e = Dispatch"
    "map_of (lg_pending l) (ev_TaskDigest e) = Some p" "validateTransition p e = Ok ()"
  shows "calls_ok c (call_dispatched e l1)"
proof -
  have ok: "calls_ok c l" using assms(2) by (simp add: ledger_inv_def)
  note pok = pending_call_ok [OF assms(2,6)] and tr = transition_to_dispatch [OF assms(7,5)]
  have sp: "ev_TaskDigest e \<in> lg_spent l" using pok by (simp add: call_ok_def)
  have one: "tc_sequence (coordinate_of (lg_taskHeads l) (ev_TaskDigest e)) = 1"
    using pok tr by (auto simp: call_ok_def coordinate_of_def)
  note heads = stored_heads [OF assms(1,3) ok sp subset_refl]
  have "call_ok c (call_dispatched e l1) (ev_TaskDigest e, e)"
    using heads(3) assms(4,5) sp one by (auto simp: call_ok_def stored_calls(2) [OF assms(3)])
  then show ?thesis
    by (intro calls_replace [OF ok assms(3)]) (use heads(1,2) in \<open>auto simp: stored_calls(1,2) [OF assms(3)]\<close>)
qed

lemma calls_finish:
  assumes "crypto_ok c" "ledger_inv c l" "stored c l now e d l1" "map_of (lg_pending l) (ev_TaskDigest e) = Some p"
  shows "calls_ok c (call_finished e l1)"
proof -
  have ok: "calls_ok c l" using assms(2) by (simp add: ledger_inv_def)
  have sp: "ev_TaskDigest e \<in> lg_spent l" using pending_call_ok [OF assms(2,4)] by (simp add: call_ok_def)
  note heads = stored_heads [OF assms(1,3) ok sp subset_refl]
  have "call_ok c (call_finished e l1) p" if "p \<in> set (lg_pending l)" "fst p \<noteq> ev_TaskDigest e" for p
    by (rule other_calls [OF ok assms(3) that(1)]) (simp_all add: that stored_calls(2) [OF assms(3)])
  moreover have "distinct (map fst (AList.delete (ev_TaskDigest e) (lg_pending l)))"
    using ok AList.distinct_delete by (auto simp: calls_ok_def)
  ultimately show ?thesis
    using heads(1,2) by (simp add: calls_ok_def set_delete stored_calls(1,2) [OF assms(3)])
qed

text \<open>The reservation changes match what the operations pass to \<open>appendLocked\<close>.\<close>

lemma reservations_begin:
  assumes "map_of ps (ev_TaskDigest e) = None"
  shows "reserve_total (AList.update (ev_TaskDigest e) e ps) = reserve_total ps + pendingReservation e"
    "reserve_of (AList.update (ev_TaskDigest e) e ps) t = reserve_of ps t + (if t = ev_TenantID e then pendingReservation e else 0)"
  using reserve_of_update [of ps "ev_TaskDigest e" e t] assms by (simp_all add: reserve_total_update owed_def)

lemma reservations_dispatch:
  assumes "map_of ps (ev_TaskDigest e) = Some p" "validateTransition p e = Ok ()" "ev_Phase e = Dispatch" "validateEvent c e = Ok ()"
  shows "reserve_total (AList.update (ev_TaskDigest e) e ps) = reserve_total ps - terminalReserveBytes"
    "reserve_of (AList.update (ev_TaskDigest e) e ps) t = reserve_of ps t + (if t = ev_TenantID e then - terminalReserveBytes else 0)"
proof -
  note tr = transition_to_dispatch [OF assms(2,3)]
  have "ev_TaskProtocol e = TaskProtocolLifecycleV1" using lifecycle_protocol(1) [OF assms(4)] tr by simp
  then have "owed ps (ev_TaskDigest e) = 2 * terminalReserveBytes" "pendingReservation e = terminalReserveBytes"
    using tr assms(1,3) by (simp_all add: owed_def pendingReservation_def)
  then show "reserve_total (AList.update (ev_TaskDigest e) e ps) = reserve_total ps - terminalReserveBytes"
    "reserve_of (AList.update (ev_TaskDigest e) e ps) t = reserve_of ps t + (if t = ev_TenantID e then - terminalReserveBytes else 0)"
    using reserve_of_update [of ps "ev_TaskDigest e" e t] tr(4) assms(1) by (simp_all add: reserve_total_update)
qed

lemma reservations_finish:
  assumes "distinct (map fst ps)" "map_of ps (ev_TaskDigest e) = Some p" "validateTransition p e = Ok ()"
  shows "reserve_total (AList.delete (ev_TaskDigest e) ps) = reserve_total ps - pendingReservation p"
    "reserve_of (AList.delete (ev_TaskDigest e) ps) t = reserve_of ps t + (if t = ev_TenantID e then - pendingReservation p else 0)"
  using assms transition_tenant [OF assms(3)] by (simp_all add: reserve_total_delete owed_def reserve_of_delete)

lemma calls_ok_frame:
  "lg_pending l' = lg_pending l \<Longrightarrow> lg_spent l' = lg_spent l \<Longrightarrow> lg_taskHeads l' = lg_taskHeads l \<Longrightarrow> calls_ok c l' = calls_ok c l"
  by (simp add: calls_ok_def call_ok_def)

theorem ledger_step_inv:
  assumes "crypto_ok c" "ledger_step c l l'" "ledger_inv c l"
  shows "ledger_inv c l'"
  using assms(2,3)
proof cases
  case ls_close
  then show ?thesis using assms(3) calls_ok_frame [of l' l c] by (simp add: ledger_inv_def identity_ok_def charges_ok_def)
next
  case ls_poison
  then obtain bs where "l' = l\<lparr>lg_disk := lg_disk l @ bs, lg_failed := True\<rparr>" by (auto simp: poisoned_def)
  then show ?thesis using assms(3) calls_ok_frame [of l' l c] by (simp add: ledger_inv_def identity_ok_def charges_ok_def)
next
  case (ls_deny now e)
  have "charges_ok l'"
    by (rule charges_after [OF _ ls_deny(1)]) (use assms(3) in \<open>simp_all add: ledger_inv_def stored_calls(1) [OF ls_deny(1)]\<close>)
  then show ?thesis
    using assms(3) identity_stored [OF assms(1) _ ls_deny(1)] calls_deny [OF _ ls_deny(1) deny_no_protocol [OF ls_deny(2,3)]]
    by (simp add: ledger_inv_def)
next
  case (ls_begin now e l1)
  note none = pending_spent [OF assms(3) ls_begin(5)]
  have "charges_ok l'"
    unfolding ls_begin(1)
    by (rule charges_after [OF _ ls_begin(2)])
      (use assms(3) none in \<open>simp_all add: ledger_inv_def stored_calls(1) [OF ls_begin(2)] reservations_begin\<close>)
  then show ?thesis
    using assms(3) identity_stored [OF assms(1) _ ls_begin(2)] calls_begin [OF assms(1,3) ls_begin(2-5)]
    by (simp add: ledger_inv_def ls_begin(1))
next
  case (ls_dispatch now e l1 p)
  have "charges_ok l'"
    unfolding ls_dispatch(1)
    by (rule charges_after [OF _ ls_dispatch(2)])
      (use assms(3) in \<open>simp_all add: ledger_inv_def stored_calls(1) [OF ls_dispatch(2)]
         reservations_dispatch [OF ls_dispatch(5,6,4,3)]\<close>)
  then show ?thesis
    using assms(3) identity_stored [OF assms(1) _ ls_dispatch(2)] calls_dispatch [OF assms(1,3) ls_dispatch(2-6)]
    by (simp add: ledger_inv_def ls_dispatch(1))
next
  case (ls_finish now e p l1)
  have "distinct (map fst (lg_pending l))" using assms(3) by (simp add: ledger_inv_def calls_ok_def)
  note r = reservations_finish [OF this ls_finish(5,6)]
  have "charges_ok l'"
    unfolding ls_finish(1)
    by (rule charges_after [OF _ ls_finish(2)])
      (use assms(3) r in \<open>simp_all add: ledger_inv_def stored_calls(1) [OF ls_finish(2)]\<close>)
  then show ?thesis
    using assms(3) identity_stored [OF assms(1) _ ls_finish(2)] calls_finish [OF assms(1,3) ls_finish(2,5)]
    by (simp add: ledger_inv_def ls_finish(1))
qed

lemma ledger_exec_inv:
  assumes "crypto_ok c" "ledger_inv c l"
  shows "ledger_inv c (fst (lg_exec c call l))"
  using lg_exec_steps [of c l call] ledger_step_inv [OF assms(1) _ assms(2)] assms(2) by (auto simp: stays_or_steps_def)

text \<open>The cryptographic assumption does not depend on the state; it is part of the invariant of the machine.\<close>

definition ledger_good :: "crypto \<Rightarrow> Log \<Rightarrow> bool" where
  "ledger_good c l \<longleftrightarrow> crypto_ok c \<and> ledger_inv c l"

interpretation ledger: machine "lg_exec c" "\<lambda>_. True" "ledger_good c" for c
  by unfold_locales (simp add: ledger_good_def ledger_exec_inv)

end
