(* ===== verification/Ledger_Demo.thy ===== *)
theory Ledger_Demo
  imports Ledger_Invariant
begin

text \<open>
  A concrete new ledger and concrete events of the three kinds, at which the promises of the ledger are
  instantiated.
\<close>

definition hex_body :: "bytes \<Rightarrow> bytes" where "hex_body p = p @ replicate 64 (CHR ''a'')"

lemma hex_body_prefixed: "prefixed_hex p (hex_body p)"
  by (auto simp: prefixed_hex_def hex_body_def list_all_iff is_lower_hex_def)

lemma hex_body_checks [simp]:
  "cl_digest (hex_body ''sha256:'')" "cl_runtimeRef (hex_body ''executor-'')" "cl_grantID (hex_body ''grant-'')" "hex_body p \<noteq> []"
  by (simp_all add: cl_digest_iff cl_runtimeRef_iff cl_grantID_iff hex_body_prefixed) (simp add: hex_body_def)

text \<open>The authorization of a connector call in the oldest format.\<close>

definition demo_call :: Event where
  "demo_call =
     \<lparr>ev_Phase = Authorize, ev_Outcome = Allowed, ev_Kind = [], ev_EffectMode = [], ev_TenantID = ''tenant'',
      ev_RuntimeRef = hex_body ''executor-'', ev_CapsuleDigest = hex_body ''sha256:'', ev_PolicyDigest = hex_body ''sha256:'',
      ev_RoutePolicyDigest = hex_body ''sha256:'', ev_Generation = 1, ev_GrantID = hex_body ''grant-'', ev_ConnectorID = ''connector'',
      ev_ServiceID = [], ev_OperationID = ''operation'', ev_OperationPolicyDigest = [], ev_TaskDigest = hex_body ''sha256:'',
      ev_AuthorityKeyID = [], ev_AuthorityKeySet = [], ev_ApprovalThreshold = 0, ev_PermitDigest = [], ev_RequestDigest = [],
      ev_HTTPStatus = 0, ev_RequestBytes = 1, ev_ResponseBytes = 0, ev_ErrorCode = [], ev_RunID = [], ev_TaskProtocol = [],
      ev_TaskStatus = [], ev_ResultDigest = [], ev_InfluenceSequence = 0, ev_InfluenceHash = [], ev_ResponseDigest = [],
      ev_TargetRunID = [], ev_TargetTaskDigest = [], ev_InferenceTaskDigest = [], ev_InferencePermitDigest = [],
      ev_InferenceRequestDigest = []\<rparr>"

definition demo_call_end :: Event where
  "demo_call_end = demo_call\<lparr>ev_Phase := Terminal, ev_Outcome := Responded, ev_HTTPStatus := 200\<rparr>"

definition demo_denial :: Event where
  "demo_denial = demo_call\<lparr>ev_Phase := Deny, ev_Outcome := Denied, ev_ErrorCode := ''denied''\<rparr>"

definition demo_inference :: Event where
  "demo_inference = demo_call\<lparr>ev_Kind := InferenceAttempt, ev_ConnectorID := []\<rparr>"

text \<open>A service task with the life cycle protocol.\<close>

definition demo_service :: Event where
  "demo_service = demo_call\<lparr>ev_Kind := ServiceTask, ev_ConnectorID := [], ev_ServiceID := ''service'',
     ev_OperationPolicyDigest := hex_body ''sha256:'', ev_AuthorityKeyID := ''key'', ev_PermitDigest := hex_body ''sha256:'',
     ev_RequestDigest := hex_body ''sha256:'', ev_TaskProtocol := TaskProtocolLifecycleV1\<rparr>"

definition demo_dispatch :: Event where
  "demo_dispatch = demo_service\<lparr>ev_Phase := Dispatch, ev_Outcome := Responded, ev_HTTPStatus := 200, ev_ResponseBytes := 1,
     ev_RunID := ''run''\<rparr>"

lemma demo_identity: "cl_publicIdentity ''tenant'' 128"
proof -
  have "trim_space ''tenant'' = ''tenant''" by (rule trim_space_ascii) (simp_all add: is_space_def)
  then show ?thesis by (simp add: cl_publicIdentity_def valid_utf8_ascii contains_nul_def)
qed

lemma demo_identifiers [simp]:
  "cl_identifier ''connector''" "cl_identifier ''operation''" "cl_identifier ''denied''" "cl_identifier ''service''"
  "cl_identifier ''key''" "cl_identifier ''run''"
  by (simp_all add: cl_identifier_def is_upper_def is_lower_def is_digit_def)

lemmas event_checks =
  validateEvent_iff event_scope_def validateRunControl_def event_bounds_def event_authority_def event_kind_def inference_fields_def
  legacy_fields_def service_fields_def lifecycle_fields_def event_phase_def serviceTaskSuccessStatus_def

lemma demo_events_valid:
  "validateEvent c demo_call = Ok ()" "validateEvent c demo_call_end = Ok ()" "validateEvent c demo_denial = Ok ()"
  "validateEvent c demo_inference = Ok ()" "validateEvent c demo_service = Ok ()" "validateEvent c demo_dispatch = Ok ()"
  using demo_identity
  by (simp_all add: event_checks demo_call_def demo_call_end_def demo_denial_def demo_inference_def demo_service_def demo_dispatch_def
      kinds_distinct(7-9) [symmetric] protocol_nonempty [symmetric])

text \<open>The new ledger.\<close>

definition demo_log :: Log where
  "demo_log =
     \<lparr>lg_open = True, lg_disk = [], lg_private = demo_key, lg_public = ed_public demo_crypto demo_key, lg_nodeID = ''node'',
      lg_epoch = 1, lg_keyID = cl_KeyID demo_crypto (ed_public demo_crypto demo_key), lg_next = 1, lg_last = zeroHash,
      lg_failed = False, lg_reserved = 0, lg_pending = [], lg_spent = {}, lg_taskHeads = Map.empty, lg_runOwners = Map.empty,
      lg_limits = DefaultLimits, lg_tenantBytes = [], lg_inferenceCounts = (\<lambda>_. 0)\<rparr>"

lemma DefaultLimits_ok: "limits_ok DefaultLimits"
  by (simp add: limits_ok_def lm_Validate_def DefaultLimits_def DefaultMaxTenants_def DefaultMaxBytesPerTenant_def
      minimumTenantBytes_def terminalReserveBytes_def MaxLineBytes_def MaxLogBytes_def)

lemma demo_node: "cl_validText ''node'' 256"
proof -
  have "trim_space ''node'' = ''node''" by (rule trim_space_ascii) (simp_all add: is_space_def)
  then show ?thesis by (simp add: cl_validText_def valid_utf8_ascii contains_nul_def)
qed

lemma demo_log_good: "ledger_good demo_crypto demo_log"
  using DefaultLimits_ok demo_node zeroHash_digest
  by (simp add: ledger_good_def ledger_inv_def identity_ok_def charges_ok_def calls_ok_def demo_log_def within_quotas_def
      reserve_total_def reserve_of_def usage_of_def DefaultLimits_def DefaultMaxTenants_def)

lemma demo_clock: "sane_clock 0"
  by (simp add: sane_clock_def nsec_def)

lemma demo_call_fields [simp]:
  "ev_Phase demo_call = Authorize" "ev_TaskDigest demo_call = hex_body ''sha256:''" "ev_TenantID demo_call = ''tenant''"
  "ev_TaskProtocol demo_call = []" "ev_TargetTaskDigest demo_call = []" "ev_InferenceTaskDigest demo_call = []" "ev_Kind demo_call = []"
  by (simp_all add: demo_call_def)

end
