(* ===== verification/Ledger_Promises.thy ===== *)
theory Ledger_Promises
  imports Ledger_Demo
begin

text \<open>
  What the open ledger promises to Gateway, over arbitrary sequences of operations with arbitrary clocks and
  system call outcomes: a task is spent at most once, reserved receipts are never refused, tenants do not take
  space from each other, inference allowances are not refunded, a call goes through its life cycle in order, and
  an ambiguous write freezes the handle.
\<close>

section \<open>Spending\<close>

text \<open>The task a successful operation spends.\<close>

fun begun_event :: "ledger_call \<times> Head result \<Rightarrow> Event option" where
  "begun_event ((Op_Begin e, _, _), Inr _) = Some e"
| "begun_event ((Op_BeginInference e _, _, _), Inr _) = Some e"
| "begun_event _ = None"

definition begun_task :: "ledger_call \<times> Head result \<Rightarrow> bytes option" where
  "begun_task r = map_option ev_TaskDigest (begun_event r)"

lemma step_spent: "ledger_step c l l' \<Longrightarrow> lg_spent l \<subseteq> lg_spent l'"
  by (cases rule: ledger_step.cases) (auto simp: poisoned_def stored_calls(2))

lemma exec_spent: "lg_spent l \<subseteq> lg_spent (fst (lg_exec c call l))"
  using lg_exec_steps [of c l call] step_spent [of c l "fst (lg_exec c call l)"] by (auto simp: stays_or_steps_def)

lemma begin_call_Ok:
  assumes "begin_call c now io l e m = (l', Ok h)"
  obtains l1 where "stored c l now e (pendingReservation e) l1" "l' = call_begun e l1" "ev_TaskDigest e \<notin> lg_spent l"
    "validateEvent c e = Ok ()" "0 < m \<Longrightarrow> lg_inferenceCounts l \<lparr>io_tenantID = ev_TenantID e, io_grantID = ev_GrantID e\<rparr> < m"
    "validateRunControlOwner e (lg_runOwners l) = Ok ()" "validateInferenceScopeOwner e (lg_pending l) = Ok ()"
    "ev_Phase e = Authorize" "io = IoOk" "h = headLocked l1"
  using assms begin_call_guard [of c now io l e m]
  by (cases rule: then_update_cases [of c now io l e "pendingReservation e" "call_begun e"]) auto

lemma begun_event_Ok:
  assumes "begun_event (call, snd (lg_exec c call l)) = Some e"
  obtains now io m h where "begin_call c now io l e m = (fst (lg_exec c call l), Ok h)"
proof (cases call)
  case (fields op now io)
  show ?thesis
  proof (cases op)
    case (Op_Begin e')
    then show ?thesis
      using assms fields that [of now io 0] by (cases "begin_call c now io l e' 0"; cases "snd (begin_call c now io l e' 0)") (auto simp: Begin_def)
  next
    case (Op_BeginInference e' m)
    have ok: "snd (BeginInference c now io l e' m) = Ok h \<Longrightarrow> BeginInference c now io l e' m = begin_call c now io l e' m" for h
      by (auto simp: BeginInference_def split: if_splits)
    from Op_BeginInference assms fields obtain h where h: "snd (BeginInference c now io l e' m) = Ok h" "e' = e"
      by (cases "snd (BeginInference c now io l e' m)") auto
    then show ?thesis using that [of now io m h] ok [OF h(1)] Op_BeginInference fields by (metis lg_exec.simps(3) prod.collapse)
  qed (use assms fields in auto)
qed

interpretation ledger_spending: claiming_machine "lg_exec c" "\<lambda>_. True" "ledger_good c" lg_spent begun_task for c
proof
  fix call l k
  show "lg_spent l \<subseteq> lg_spent (fst (lg_exec c call l))" by (rule exec_spent)
  assume "begun_task (call, snd (lg_exec c call l)) = Some k"
  then obtain e where e: "begun_event (call, snd (lg_exec c call l)) = Some e" "k = ev_TaskDigest e"
    by (auto simp: begun_task_def)
  then obtain now io m h where "begin_call c now io l e m = (fst (lg_exec c call l), Ok h)" by (metis begun_event_Ok)
  then show "k \<notin> lg_spent l \<and> k \<in> lg_spent (fst (lg_exec c call l))"
    by (rule begin_call_Ok) (use e(2) in simp)
qed

section \<open>Reserved lines\<close>

text \<open>Nothing but the byte accounts can refuse a valid event on an open, unpoisoned handle.\<close>

lemma append_accepted:
  assumes "ledger_good c l" "lg_open l" "\<not> lg_failed l" "sane_clock now" "validateEvent c e = Ok ()"
    "ev_TaskProtocol e \<noteq> [] \<Longrightarrow> tc_sequence (coordinate_of (lg_taskHeads l) (ev_TaskDigest e)) \<noteq> - 1"
    "\<And>n. 0 < n \<Longrightarrow> n \<le> MaxLineBytes + 1 \<Longrightarrow> \<exists>reserved usage. admit_usage l e d n = Ok (reserved, usage)"
  obtains l1 where "stored c l now e d l1" "appendLocked c now IoOk l e d = (l1, Ok (headLocked l1))"
proof -
  have i: "crypto_ok c" "identity_ok c l" "calls_ok c l" using assms(1) by (simp_all add: ledger_good_def ledger_inv_def)
  have sized: "coordinates_sized (receipt_for l now e)"
    using i by (intro receipt_for_sized [OF assms(4)]) (simp_all add: identity_ok_def calls_ok_def)
  have ev: "event_sized (rc_Event (receipt_for l now e))" using validateEvent_sized [OF assms(5)] by simp
  obtain raw where raw: "sealed_line c l (receipt_for l now e) = Ok raw" "length raw \<le> MaxLineBytes"
    by (rule seal_line [OF i(1) _ _ ev sized]) (use i(2) in \<open>auto simp: identity_ok_def\<close>)
  obtain reserved usage where adm: "admit_usage l e d (length raw + 1) = Ok (reserved, usage)"
    using assms(7) [of "length raw + 1"] raw(2) by auto
  have nr: "next_receipt l now e = Ok (receipt_for l now e)" using assms(6) by (auto simp: next_receipt_Ok_iff)
  have st: "stored c l now e d (record_line c l (receipt_for l now e) raw reserved usage)"
    using assms(2,3) nr raw(1) adm by (auto simp: stored_def)
  show ?thesis by (rule that [OF st]) (use assms(2,3) nr raw(1) adm in \<open>simp add: appendLocked_def Let_def\<close>)
qed

text \<open>A tenant that has an account keeps a quota.\<close>

lemma charged_quota:
  assumes "charges_ok l" "0 < usage_of (lg_tenantBytes l) t"
  shows "map_of (lg_tenantBytes l) t \<noteq> None" "\<exists>q. tenantQuota (lg_limits l) t = Ok q \<and> usage_of (lg_tenantBytes l) t \<le> q"
proof -
  show m: "map_of (lg_tenantBytes l) t \<noteq> None" using assms(2) by (auto simp: usage_of_def split: option.splits)
  then obtain n where "map_of (lg_tenantBytes l) t = Some n" by auto
  then show "\<exists>q. tenantQuota (lg_limits l) t = Ok q \<and> usage_of (lg_tenantBytes l) t \<le> q"
    using assms(1) by (auto simp: charges_ok_def within_quotas_def usage_of_def dest!: map_of_SomeD)
qed

lemma admit_reserved:
  assumes "ledger_good c l" "\<not> lg_failed l" "map_of (lg_pending l) k = Some p" "ev_TenantID e = ev_TenantID p"
    "int n \<le> d" "d \<le> pendingReservation p" "0 < n"
  shows "\<exists>reserved usage. admit_usage l e (- d) n = Ok (reserved, usage)"
proof -
  have i: "ledger_inv c l" "charges_ok l" using assms(1) by (simp_all add: ledger_good_def ledger_inv_def)
  note r = reserve_of_pending [OF assms(3)]
  have u: "reserve_of (lg_pending l) (ev_TenantID p) \<le> usage_of (lg_tenantBytes l) (ev_TenantID p)"
    "lg_reserved l = reserve_total (lg_pending l)"
    using i(2) by (simp_all add: charges_ok_def)
  have "0 < usage_of (lg_tenantBytes l) (ev_TenantID p)" using r(1) u(1) pendingReservation_pos(1) [of p] by linarith
  note q = charged_quota [OF i(2) this]
  have "admit_usage l e (- d) n = Ok (lg_reserved l + - d, usage_of (lg_tenantBytes l) (ev_TenantID e) + int n + - d)"
    unfolding admit_usage_Ok_iff assms(4)
    using ledger_room [OF i(1) assms(2)] r u q assms(5-7) by auto
  then show ?thesis by blast
qed

lemma coordinate_not_exhausted:
  assumes "ledger_good c l" "map_of (lg_pending l) k = Some p" "ev_TaskProtocol p \<noteq> []"
  shows "tc_sequence (coordinate_of (lg_taskHeads l) k) \<noteq> - 1"
proof -
  have "call_ok c l (k, p)" using pending_call_ok assms(1,2) by (simp add: ledger_good_def)
  then show ?thesis using assms(3) by (auto simp: call_ok_def coordinate_of_def)
qed

lemma Finish_accepted:
  assumes "ledger_good c l" "lg_open l" "\<not> lg_failed l" "sane_clock now" "validateEvent c e = Ok ()" "ev_Phase e = Terminal"
    "map_of (lg_pending l) (ev_TaskDigest e) = Some p" "validateTransition p e = Ok ()"
  obtains l1 where "stored c l now e (- pendingReservation p) l1" "Finish c now IoOk l e = (call_finished e l1, Ok (headLocked l1))"
proof -
  have tp: "ev_TaskProtocol e = ev_TaskProtocol p" using assms(8) by (simp add: validateTransition_Ok_iff sameCall_def)
  have "\<exists>r u. admit_usage l e (- pendingReservation p) n = Ok (r, u)" if "0 < n" "n \<le> MaxLineBytes + 1" for n
    using pendingReservation_pos(2) [of p] that
    by (intro admit_reserved [OF assms(1,3,7) transition_tenant [OF assms(8)]]) (simp_all add: terminalReserveBytes_def)
  then obtain l1 where "stored c l now e (- pendingReservation p) l1"
      "appendLocked c now IoOk l e (- pendingReservation p) = (l1, Ok (headLocked l1))"
    by (rule append_accepted [OF assms(1-5), rotated]) (use coordinate_not_exhausted [OF assms(1,7)] tp in auto)
  then show ?thesis using that assms(5-8) by (simp add: Finish_def then_update_def)
qed

lemma Dispatch_accepted:
  assumes "ledger_good c l" "lg_open l" "\<not> lg_failed l" "sane_clock now" "validateEvent c e = Ok ()" "ev_Phase e = Dispatch"
    "map_of (lg_pending l) (ev_TaskDigest e) = Some p" "validateTransition p e = Ok ()"
    "validateRunControlOwner e (lg_runOwners l) = Ok ()"
    "\<And>owner. lg_runOwners l (runOwnershipFor e) = Some owner \<Longrightarrow> ev_TargetTaskDigest e = [] \<Longrightarrow> ev_TaskDigest owner = ev_TaskDigest e"
  obtains l1 where "stored c l now e (- terminalReserveBytes) l1" "lg_Dispatch c now IoOk l e = (call_dispatched e l1, Ok (headLocked l1))"
proof -
  note tr = transition_to_dispatch [OF assms(8,6)]
  have "\<exists>r u. admit_usage l e (- terminalReserveBytes) n = Ok (r, u)" if "0 < n" "n \<le> MaxLineBytes + 1" for n
    using pendingReservation_pos(2) [of p] that
    by (intro admit_reserved [OF assms(1,3,7) transition_tenant [OF assms(8)]]) (simp_all add: terminalReserveBytes_def)
  then obtain l1 where "stored c l now e (- terminalReserveBytes) l1"
      "appendLocked c now IoOk l e (- terminalReserveBytes) = (l1, Ok (headLocked l1))"
    by (rule append_accepted [OF assms(1-5), rotated]) (use coordinate_not_exhausted [OF assms(1,7)] tr in auto)
  moreover have "lg_Dispatch c now IoOk l e = then_update (appendLocked c now IoOk l e (- terminalReserveBytes)) (call_dispatched e)"
    using assms(5-10) by (auto simp: lg_Dispatch_def split: option.splits)
  ultimately show ?thesis using that by (simp add: then_update_def)
qed

section \<open>Slices of tenants\<close>

lemma admit_within_slice:
  assumes "ledger_good c l" "\<not> lg_failed l" "0 \<le> d" "tenantQuota (lg_limits l) (ev_TenantID e) = Ok q"
    "usage_of (lg_tenantBytes l) (ev_TenantID e) + int n + d \<le> q"
    "map_of (lg_tenantBytes l) (ev_TenantID e) = None \<Longrightarrow> lm_TenantBudgets (lg_limits l) = None \<Longrightarrow>
       int (length (lg_tenantBytes l)) < lm_MaxTenants (lg_limits l)"
  shows "admit_usage l e d n = Ok (lg_reserved l + d, usage_of (lg_tenantBytes l) (ev_TenantID e) + int n + d)"
proof -
  let ?u = "usage_of (lg_tenantBytes l) (ev_TenantID e) + int n + d"
  have i: "charges_ok l" "limits_ok (lg_limits l)" using assms(1) by (simp_all add: ledger_good_def ledger_inv_def identity_ok_def)
  have "within_quotas (lg_limits l) (AList.update (ev_TenantID e) ?u (lg_tenantBytes l))"
    by (rule within_quotas_update [OF _ assms(4,5,6)]) (use i in \<open>simp_all add: charges_ok_def\<close>)
  from within_quotas_total [OF i(2) this]
  have "(\<Sum>p\<leftarrow>lg_tenantBytes l. snd p) + int n + d \<le> MaxLogBytes" by (simp add: sum_update usage_weight [symmetric])
  then have "int (length (lg_disk l)) + int n + (lg_reserved l + d) \<le> MaxLogBytes" "0 \<le> lg_reserved l"
    "0 \<le> usage_of (lg_tenantBytes l) (ev_TenantID e)"
    using i(1) assms(2) reserve_nonneg(2) [of "lg_pending l" "ev_TenantID e"] reserve_nonneg(1) [of "lg_pending l"]
    by (auto simp: charges_ok_def intro: order_trans)
  then show ?thesis unfolding admit_usage_Ok_iff using assms(3-6) by auto
qed

text \<open>The guards of \<open>Begin\<close> that do not concern space.\<close>

definition may_begin :: "crypto \<Rightarrow> Log \<Rightarrow> Event \<Rightarrow> bool" where
  "may_begin c l e \<longleftrightarrow> lg_open l \<and> \<not> lg_failed l \<and> validateEvent c e = Ok () \<and> ev_Phase e = Authorize \<and> ev_TaskDigest e \<notin> lg_spent l \<and>
     validateRunControlOwner e (lg_runOwners l) = Ok () \<and> validateInferenceScopeOwner e (lg_pending l) = Ok ()"

definition has_slice :: "Log \<Rightarrow> bytes \<Rightarrow> int \<Rightarrow> bool" where
  "has_slice l t n \<longleftrightarrow> (\<exists>q. tenantQuota (lg_limits l) t = Ok q \<and> usage_of (lg_tenantBytes l) t + n \<le> q) \<and>
     (map_of (lg_tenantBytes l) t \<noteq> None \<or> lm_TenantBudgets (lg_limits l) \<noteq> None \<or>
      int (length (lg_tenantBytes l)) < lm_MaxTenants (lg_limits l))"

lemma Begin_accepted:
  assumes "ledger_good c l" "may_begin c l e" "sane_clock now"
    "has_slice l (ev_TenantID e) (int MaxLineBytes + 1 + pendingReservation e)"
  obtains l1 where "stored c l now e (pendingReservation e) l1" "Begin c now IoOk l e = (call_begun e l1, Ok (headLocked l1))"
proof -
  note b = assms(2) [unfolded may_begin_def]
  have fresh: "coordinate_of (lg_taskHeads l) (ev_TaskDigest e) = \<lparr>tc_sequence = 0, tc_hash = []\<rparr>"
    using assms(1) b by (auto simp: ledger_good_def ledger_inv_def calls_ok_def coordinate_of_def split: option.splits)
  obtain q where q: "tenantQuota (lg_limits l) (ev_TenantID e) = Ok q"
    "usage_of (lg_tenantBytes l) (ev_TenantID e) + (int MaxLineBytes + 1 + pendingReservation e) \<le> q"
    using assms(4) by (auto simp: has_slice_def)
  have "\<exists>r u. admit_usage l e (pendingReservation e) n = Ok (r, u)" if "n \<le> MaxLineBytes + 1" for n
    using admit_within_slice [OF assms(1) _ _ q(1), of "pendingReservation e" n] b q(2) that assms(4) pendingReservation_pos(1) [of e]
    by (auto simp: has_slice_def)
  then obtain l1 where "stored c l now e (pendingReservation e) l1"
      "appendLocked c now IoOk l e (pendingReservation e) = (l1, Ok (headLocked l1))"
    by (rule_tac append_accepted [OF assms(1) _ _ assms(3), of e "pendingReservation e"]) (use b fresh in auto)
  then show ?thesis using that b by (simp add: Begin_def begin_call_def then_update_def)
qed

section \<open>Inference allowances\<close>

definition inference_begun :: "inferenceOwner \<Rightarrow> ledger_call \<times> Head result \<Rightarrow> bool" where
  "inference_begun owner r \<longleftrightarrow> (case begun_event r of None \<Rightarrow> False
     | Some e \<Rightarrow> ev_Kind e = InferenceAttempt \<and> \<lparr>io_tenantID = ev_TenantID e, io_grantID = ev_GrantID e\<rparr> = owner)"

lemma begun_counts:
  assumes "begin_call c now io l e m = (l', Ok h)"
  shows "lg_inferenceCounts l' owner = lg_inferenceCounts l owner +
    (if ev_Kind e = InferenceAttempt \<and> \<lparr>io_tenantID = ev_TenantID e, io_grantID = ev_GrantID e\<rparr> = owner then 1 else 0)"
  using assms by (rule begin_call_Ok) (auto simp: call_begun_def Let_def stored_calls(4))

lemma frame_counts:
  assumes "begun_event (call, snd (lg_exec c call l)) = None"
  shows "lg_inferenceCounts (fst (lg_exec c call l)) = lg_inferenceCounts l"
proof -
  have b: "lg_inferenceCounts (fst (begin_call c now io l e m)) = lg_inferenceCounts l"
    if "\<forall>h. snd (begin_call c now io l e m) \<noteq> Ok h" for now io e m
    using that begin_call_guard [of c now io l e m]
    by (cases rule: then_update_cases [of c now io l e "pendingReservation e" "call_begun e"]) (auto simp: poisoned_def)
  have a: "lg_inferenceCounts (fst (appendLocked c now io l e d)) = lg_inferenceCounts l" for now io e d
    by (cases rule: appendLocked_cases [of c now io l e d]) (auto simp: poisoned_def stored_calls(4))
  have t: "lg_inferenceCounts (fst (then_update (appendLocked c now io l e d) f)) = lg_inferenceCounts l"
    if "\<And>l. lg_inferenceCounts (f l) = lg_inferenceCounts l" for now io e d f
    using that by (cases rule: then_update_cases [of c now io l e d f]) (auto simp: poisoned_def stored_calls(4))
  obtain op now io where call: "call = (op, now, io)" by (cases call)
  show ?thesis
  proof (cases op)
    case (Op_Append e)
    then show ?thesis using a by (auto simp: call Append_def split: sum.splits)
  next
    case (Op_Begin e)
    then show ?thesis using assms b [of now io e 0] by (cases "snd (begin_call c now io l e 0)") (auto simp: call Begin_def)
  next
    case (Op_BeginInference e m)
    then show ?thesis
      using assms b [of now io e m]
      by (cases "snd (begin_call c now io l e m)") (auto simp: call BeginInference_def split: if_splits)
  next
    case (Op_Dispatch e)
    then show ?thesis
      using Dispatch_guard [of c now io l e] t [of "call_dispatched e"] by (auto simp: call call_dispatched_def)
  next
    case (Op_Finish e)
    then show ?thesis
      using Finish_guard [of c now io l e] t [of "call_finished e"] by (auto simp: call call_finished_def)
  next
    case (Op_Close f)
    then show ?thesis by (simp add: call lg_Close_def)
  qed
qed

lemma exec_counts:
  "lg_inferenceCounts (fst (lg_exec c call l)) owner =
     lg_inferenceCounts l owner + (if inference_begun owner (call, snd (lg_exec c call l)) then 1 else 0)"
proof (cases "begun_event (call, snd (lg_exec c call l))")
  case None
  then show ?thesis using frame_counts [OF None] by (simp add: inference_begun_def)
next
  case (Some e)
  then obtain now io m h where "begin_call c now io l e m = (fst (lg_exec c call l), Ok h)" by (rule begun_event_Ok)
  then show ?thesis using begun_counts Some by (simp add: inference_begun_def)
qed

interpretation ledger_allowance: monotone_machine "lg_exec c" "\<lambda>_. True" "ledger_good c" lg_inferenceCounts for c
  by unfold_locales (simp add: exec_counts)

lemma run_counts:
  "lg_inferenceCounts (final_state (lg_exec c) calls l) owner =
     lg_inferenceCounts l owner + int (length (filter (inference_begun owner) (results (lg_exec c) calls l)))"
  by (induction calls arbitrary: l) (simp_all add: exec_counts)

section \<open>The life cycle of a call\<close>

datatype call_status = Fresh | Authorized | Dispatched | Ended

text \<open>
  The abstract ledger: the status of every task, and the one move each operation can make. \<open>None\<close> is a
  refusal. A task with a lifecycle protocol may end without having been dispatched only as a failure.
\<close>

fun status_move :: "ledger_op \<Rightarrow> (bytes \<Rightarrow> call_status) \<Rightarrow> (bytes \<Rightarrow> call_status) option" where
  "status_move (Op_Append e) s = (if ev_Phase e = Deny then Some s else None)"
| "status_move (Op_Begin e) s =
     (if ev_Phase e = Authorize \<and> s (ev_TaskDigest e) = Fresh then Some (s(ev_TaskDigest e := Authorized)) else None)"
| "status_move (Op_BeginInference e m) s =
     (if ev_Phase e = Authorize \<and> s (ev_TaskDigest e) = Fresh then Some (s(ev_TaskDigest e := Authorized)) else None)"
| "status_move (Op_Dispatch e) s =
     (if ev_Phase e = Dispatch \<and> s (ev_TaskDigest e) = Authorized then Some (s(ev_TaskDigest e := Dispatched)) else None)"
| "status_move (Op_Finish e) s =
     (if ev_Phase e = Terminal \<and>
        (s (ev_TaskDigest e) = Dispatched \<or>
         s (ev_TaskDigest e) = Authorized \<and> (ev_TaskProtocol e = [] \<or> ev_Outcome e = Failed))
      then Some (s(ev_TaskDigest e := Ended)) else None)"
| "status_move (Op_Close failing) s = Some s"

definition status :: "Log \<Rightarrow> bytes \<Rightarrow> call_status" where
  "status l d = (if d \<notin> lg_spent l then Fresh
     else (case map_of (lg_pending l) d of None \<Rightarrow> Ended
       | Some e \<Rightarrow> if ev_Phase e = Authorize then Authorized else Dispatched))"

lemma status_frame: "lg_spent l' = lg_spent l \<Longrightarrow> lg_pending l' = lg_pending l \<Longrightarrow> status l' = status l"
  by (auto simp: status_def)

lemma status_begun: "ev_Phase e = Authorize \<Longrightarrow> status (call_begun e l) = (status l)(ev_TaskDigest e := Authorized)"
  by (rule ext) (simp add: status_def update_conv')

lemma status_dispatched:
  "ev_Phase e = Dispatch \<Longrightarrow> ev_TaskDigest e \<in> lg_spent l \<Longrightarrow> status (call_dispatched e l) = (status l)(ev_TaskDigest e := Dispatched)"
  by (rule ext) (simp add: status_def update_conv')

lemma status_finished: "ev_TaskDigest e \<in> lg_spent l \<Longrightarrow> status (call_finished e l) = (status l)(ev_TaskDigest e := Ended)"
  by (rule ext) (simp add: status_def delete_conv')

text \<open>The concrete operation makes the abstract move when it succeeds, and none when it fails.\<close>

definition moves_status :: "ledger_op \<Rightarrow> (bytes \<Rightarrow> call_status) \<Rightarrow> Log \<times> Head result \<Rightarrow> bool" where
  "moves_status op s r \<longleftrightarrow>
     (case snd r of Inl err \<Rightarrow> status (fst r) = s | Inr head \<Rightarrow> status_move op s = Some (status (fst r)))"

lemma refused_moves [simp]: "moves_status op (status l) (l, Inl err)"
  by (simp add: moves_status_def)

lemma stored_status: "stored c l now e d l1 \<Longrightarrow> status l1 = status l"
  by (rule status_frame) (simp_all add: stored_calls)

lemma update_moves:
  assumes "\<And>l1. stored c l now e d l1 \<Longrightarrow> status_move op (status l) = Some (status (f l1))"
  shows "moves_status op (status l) (then_update (appendLocked c now io l e d) f)"
proof (cases rule: then_update_cases [of c now io l e d f])
  case (poisoned l1 err)
  then show ?thesis using status_frame [of l1 l] by (auto simp: moves_status_def poisoned_def)
next
  case (stored l1)
  then show ?thesis using assms by (simp add: moves_status_def)
qed simp

lemma begin_moves:
  assumes "op = Op_Begin e \<or> op = Op_BeginInference e m"
  shows "moves_status op (status l) (begin_call c now io l e n)"
proof (cases "\<exists>err. begin_call c now io l e n = (l, Inl err)")
  case False
  then have g: "begin_call c now io l e n = then_update (appendLocked c now io l e (pendingReservation e)) (call_begun e)"
    "ev_Phase e = Authorize" "status l (ev_TaskDigest e) = Fresh"
    using begin_call_guard [of c now io l e n] by (auto simp: status_def)
  show ?thesis
    unfolding g(1) by (rule update_moves) (use assms g(2,3) in \<open>auto simp: status_begun stored_status\<close>)
qed auto

lemma dispatch_moves:
  assumes "ledger_inv c l"
  shows "moves_status (Op_Dispatch e) (status l) (lg_Dispatch c now io l e)"
proof (cases "\<exists>err. lg_Dispatch c now io l e = (l, Inl err)")
  case False
  then obtain p where g: "lg_Dispatch c now io l e =
      then_update (appendLocked c now io l e (- terminalReserveBytes)) (call_dispatched e)"
    "ev_Phase e = Dispatch" and p: "map_of (lg_pending l) (ev_TaskDigest e) = Some p" "validateTransition p e = Ok ()"
    using Dispatch_guard [of c now io l e] by auto
  have st: "status l (ev_TaskDigest e) = Authorized" "ev_TaskDigest e \<in> lg_spent l"
    using pending_call_ok [OF assms p(1)] transition_to_dispatch [OF p(2) g(2)] p(1) by (auto simp: call_ok_def status_def)
  show ?thesis
    unfolding g(1) by (rule update_moves) (use g(2) st in \<open>simp add: status_dispatched stored_calls(2) stored_status\<close>)
qed auto

lemma finish_moves:
  assumes "ledger_inv c l"
  shows "moves_status (Op_Finish e) (status l) (Finish c now io l e)"
proof (cases "\<exists>err. Finish c now io l e = (l, Inl err)")
  case False
  then obtain p where g: "Finish c now io l e =
      then_update (appendLocked c now io l e (- pendingReservation p)) (call_finished e)"
    "ev_Phase e = Terminal" and p: "map_of (lg_pending l) (ev_TaskDigest e) = Some p" "validateTransition p e = Ok ()"
    using Finish_guard [of c now io l e] by auto
  have c: "ev_TaskDigest e \<in> lg_spent l" "ev_Phase p = Authorize \<or> ev_Phase p = Dispatch"
    using pending_call_ok [OF assms p(1)] by (auto simp: call_ok_def)
  have "ev_Phase p = Authorize \<Longrightarrow> ev_TaskProtocol e = [] \<or> ev_Outcome e = Failed"
    using p(2) g(2) by (auto simp: validateTransition_Ok_iff sameCall_def split: if_splits)
  then have m: "status_move (Op_Finish e) (status l) = Some ((status l)(ev_TaskDigest e := Ended))"
    using c p(1) g(2) by (auto simp: status_def [of l "ev_TaskDigest e"])
  show ?thesis
    unfolding g(1) by (rule update_moves) (use m c(1) in \<open>simp add: status_finished stored_calls(2) stored_status\<close>)
qed auto

lemma append_moves: "moves_status (Op_Append e) (status l) (Append c now io l e)"
proof (cases "validateEvent c e = Ok () \<and> ev_Phase e = Deny")
  case True
  then have "Append c now io l e = then_update (appendLocked c now io l e 0) id"
    by (auto simp: Append_def then_update_def split: prod.splits sum.splits)
  then show ?thesis using True by (auto simp: stored_status intro!: update_moves)
qed (auto simp: Append_def errorf_def split: sum.splits)

lemma exec_moves:
  assumes "ledger_inv c l"
  shows "moves_status op (status l) (lg_exec c (op, now, io) l)"
proof (cases op)
  case (Op_Close failing)
  then show ?thesis
    using status_frame [of "l\<lparr>lg_open := False\<rparr>" l] by (auto simp: moves_status_def lg_Close_def errorf_def)
qed (use append_moves begin_moves dispatch_moves [OF assms] finish_moves [OF assms] in
    \<open>auto simp: Begin_def BeginInference_def errorf_def\<close>)

section \<open>Ambiguous writes\<close>

lemma failed_append: "lg_failed l \<Longrightarrow> \<exists>err. appendLocked c now io l e d = (l, Inl err)"
  by (cases rule: appendLocked_cases [of c now io l e d]) (auto simp: poisoned_def stored_def)

lemma failed_exec:
  assumes "lg_failed l"
  shows "lg_disk (fst (lg_exec c call l)) = lg_disk l" "lg_failed (fst (lg_exec c call l))"
    "is_ok (snd (lg_exec c call l)) \<Longrightarrow> \<exists>f. fst call = Op_Close f"
proof -
  have a: "\<exists>err. appendLocked c now io l e d = (l, Inl err)" for now io e d by (rule failed_append [OF assms])
  have t: "\<exists>err. then_update (appendLocked c now io l e d) f = (l, Inl err)" for now io e d f
    using a [of now io e d] by (auto simp: then_update_def)
  have "(\<exists>err. lg_exec c call l = (l, Inl err)) \<or>
      (\<exists>f. fst call = Op_Close f \<and> (fst (lg_exec c call l) = l \<or> fst (lg_exec c call l) = l\<lparr>lg_open := False\<rparr>))"
  proof (cases call)
    case (fields op now io)
    have "\<exists>err. Append c now io l e = (l, Inl err)" for e
      using a [of now io e 0] by (auto simp: Append_def errorf_def split: sum.splits)
    moreover have "\<exists>err. begin_call c now io l e m = (l, Inl err)" for e m
      using t [of now io e "pendingReservation e" "call_begun e"] begin_call_guard [of c now io l e m] by metis
    moreover have "\<exists>err. BeginInference c now io l e m = (l, Inl err)" for e m
      using calculation(2) [of e m] by (auto simp: BeginInference_def errorf_def)
    moreover have "\<exists>err. lg_Dispatch c now io l e = (l, Inl err)" for e
      using t [of now io e "- terminalReserveBytes" "call_dispatched e"] Dispatch_guard [of c now io l e] by metis
    moreover have "\<exists>err. Finish c now io l e = (l, Inl err)" for e
      using t [of now io e _ "call_finished e"] Finish_guard [of c now io l e] by metis
    ultimately show ?thesis using fields by (cases op) (auto simp: Begin_def lg_Close_def)
  qed
  then show "lg_disk (fst (lg_exec c call l)) = lg_disk l" "lg_failed (fst (lg_exec c call l))"
    "is_ok (snd (lg_exec c call l)) \<Longrightarrow> \<exists>f. fst call = Op_Close f"
    using assms by auto
qed

lemma failed_run:
  assumes "lg_failed l"
  shows "lg_disk (final_state (lg_exec c) calls l) = lg_disk l \<and>
    (\<forall>r \<in> set (results (lg_exec c) calls l). is_ok (snd r) \<longrightarrow> (\<exists>f. fst (fst r) = Op_Close f))"
  using assms
proof (induction calls arbitrary: l)
  case (Cons call calls)
  from failed_exec [OF Cons.prems, of c call] Cons.IH [of "fst (lg_exec c call l)"] show ?case by auto
qed simp

section \<open>Properties\<close>

lemma demo_slice: "has_slice demo_log ''tenant'' (int MaxLineBytes + 1 + 2 * terminalReserveBytes)"
  by (simp add: has_slice_def demo_log_def DefaultLimits_def DefaultMaxTenants_def DefaultMaxBytesPerTenant_def tenantQuota_def usage_of_def
      terminalReserveBytes_def MaxLineBytes_def)

lemma slice_mono: "has_slice l t n \<Longrightarrow> m \<le> n \<Longrightarrow> has_slice l t m"
  by (force simp: has_slice_def)

lemma demo_may_begin: "may_begin demo_crypto demo_log demo_call" "may_begin demo_crypto demo_log demo_service"
    "may_begin demo_crypto demo_log demo_inference"
  using demo_events_valid [of demo_crypto]
  by (simp_all add: may_begin_def demo_log_def demo_service_def demo_inference_def validateRunControlOwner_def
      validateInferenceScopeOwner_def)

lemma pendingReservation_max: "pendingReservation e \<le> 2 * terminalReserveBytes"
  using minimumTenantBytes_pos by (simp add: pendingReservation_def)

lemma demo_begun:
  assumes "may_begin demo_crypto demo_log e" "ev_TenantID e = ''tenant''"
  obtains l1 where "Begin demo_crypto 0 IoOk demo_log e = (call_begun e l1, Ok (headLocked l1))"
    "stored demo_crypto demo_log 0 e (pendingReservation e) l1" "ledger_good demo_crypto (call_begun e l1)"
proof -
  have "has_slice demo_log (ev_TenantID e) (int MaxLineBytes + 1 + pendingReservation e)"
    using slice_mono [OF demo_slice] pendingReservation_max [of e] assms(2) by simp
  then obtain l1 where b: "stored demo_crypto demo_log 0 e (pendingReservation e) l1"
    "Begin demo_crypto 0 IoOk demo_log e = (call_begun e l1, Ok (headLocked l1))"
    by (rule Begin_accepted [OF demo_log_good assms(1) demo_clock])
  moreover have "ledger_good demo_crypto (call_begun e l1)"
    using ledger.exec_inv [OF demo_log_good, of "(Op_Begin e, 0, IoOk)"] b(2) by simp
  ultimately show ?thesis using that by blast
qed

text \<open>C1: However operations are interleaved, and whatever the clock and the system calls do, no two successful
  \<open>Begin\<close> or \<open>BeginInference\<close> calls on a ledger authorize the same task, none authorizes a task that was spent before, and
  every authorized task is spent afterwards.\<close>

theorem task_spent_once:
  assumes "crypto_ok c" "ledger_inv c l"
  shows "distinct (List.map_filter begun_task (results (lg_exec c) calls l)) \<and>
    set (List.map_filter begun_task (results (lg_exec c) calls l)) \<inter> lg_spent l = {} \<and>
    set (List.map_filter begun_task (results (lg_exec c) calls l)) \<subseteq> lg_spent (final_state (lg_exec c) calls l)"
  using ledger_spending.claims_once [of c l calls] assms by (simp add: ledger_good_def)

theorem task_spent_once_witness:
  "crypto_ok demo_crypto \<and> ledger_inv demo_crypto demo_log \<and>
   distinct (List.map_filter begun_task
     (results (lg_exec demo_crypto) [(Op_Begin demo_call, 0, IoOk), (Op_Begin demo_call, 0, IoOk)] demo_log))"
  using demo_log_good task_spent_once [of demo_crypto demo_log "[(Op_Begin demo_call, 0, IoOk), (Op_Begin demo_call, 0, IoOk)]"]
  unfolding ledger_good_def by blast

text \<open>C4: A call that was authorized can always be closed: on an open, unpoisoned ledger a valid terminal event that matches
  its pending call is never refused for lack of space, quota, or task sequence, and closing it releases its whole
  reservation.\<close>

theorem reserved_finish:
  assumes "crypto_ok c" "ledger_inv c l" "lg_open l" "\<not> lg_failed l" "sane_clock now" "validateEvent c e = Ok ()"
    "ev_Phase e = Terminal" "map_of (lg_pending l) (ev_TaskDigest e) = Some p" "validateTransition p e = Ok ()"
  shows "\<exists>l' h. Finish c now IoOk l e = (l', Ok h) \<and> map_of (lg_pending l') (ev_TaskDigest e) = None \<and>
    lg_reserved l' = lg_reserved l - pendingReservation p"
proof -
  obtain l1 where "stored c l now e (- pendingReservation p) l1" "Finish c now IoOk l e = (call_finished e l1, Ok (headLocked l1))"
    by (rule Finish_accepted [of c l now e p]) (use assms in \<open>simp_all add: ledger_good_def\<close>)
  then show ?thesis by (auto simp: delete_conv' stored_def admit_usage_Ok_iff)
qed

theorem reserved_finish_witness:
  "\<exists>l l' h. map_of (lg_pending l) (hex_body ''sha256:'') = Some demo_call \<and> Finish demo_crypto 0 IoOk l demo_call_end = (l', Ok h)"
proof -
  obtain l1 where l1: "stored demo_crypto demo_log 0 demo_call (pendingReservation demo_call) l1"
    "ledger_good demo_crypto (call_begun demo_call l1)"
    by (rule demo_begun [OF demo_may_begin(1)]) simp_all
  let ?l = "call_begun demo_call l1"
  have p: "map_of (lg_pending ?l) (ev_TaskDigest demo_call_end) = Some demo_call"
    by (simp add: update_conv' demo_call_end_def)
  have o: "lg_open ?l" "\<not> lg_failed ?l" using l1(1) by (auto simp: call_begun_def Let_def stored_def)
  have tr: "validateTransition demo_call demo_call_end = Ok ()"
    by (simp add: validateTransition_Ok_iff sameCall_def demo_call_end_def)
  have ph: "ev_Phase demo_call_end = Terminal" "ev_TaskDigest demo_call_end = hex_body ''sha256:''"
    by (simp_all add: demo_call_end_def)
  note g = l1(2) [unfolded ledger_good_def]
  obtain l' h where "Finish demo_crypto 0 IoOk ?l demo_call_end = (l', Ok h)"
    using reserved_finish [OF conjunct1 [OF g] conjunct2 [OF g] o demo_clock demo_events_valid(2) ph(1) p tr] by blast
  with p ph(2) show ?thesis by metis
qed

text \<open>A lifecycle task that was authorized can always record its dispatch: nothing but a run identifier owned by
  another task, or a stop request without a matching owner, can refuse it on an open, unpoisoned ledger.\<close>

theorem reserved_dispatch:
  assumes "crypto_ok c" "ledger_inv c l" "lg_open l" "\<not> lg_failed l" "sane_clock now" "validateEvent c e = Ok ()"
    "ev_Phase e = Dispatch" "map_of (lg_pending l) (ev_TaskDigest e) = Some p" "validateTransition p e = Ok ()"
    "validateRunControlOwner e (lg_runOwners l) = Ok ()" "lg_runOwners l (runOwnershipFor e) = None"
  shows "\<exists>l' h. lg_Dispatch c now IoOk l e = (l', Ok h) \<and> map_of (lg_pending l') (ev_TaskDigest e) = Some e \<and>
    lg_reserved l' = lg_reserved l - terminalReserveBytes"
proof -
  obtain l1 where "stored c l now e (- terminalReserveBytes) l1" "lg_Dispatch c now IoOk l e = (call_dispatched e l1, Ok (headLocked l1))"
    by (rule Dispatch_accepted [of c l now e p]) (use assms in \<open>simp_all add: ledger_good_def\<close>)
  then show ?thesis by (auto simp: update_conv' stored_def admit_usage_Ok_iff)
qed

theorem reserved_dispatch_witness:
  "\<exists>l l' h. map_of (lg_pending l) (hex_body ''sha256:'') = Some demo_service \<and> lg_Dispatch demo_crypto 0 IoOk l demo_dispatch = (l', Ok h)"
proof -
  obtain l1 where l1: "stored demo_crypto demo_log 0 demo_service (pendingReservation demo_service) l1"
    "ledger_good demo_crypto (call_begun demo_service l1)"
    by (rule demo_begun [OF demo_may_begin(2)]) (simp_all add: demo_service_def)
  let ?l = "call_begun demo_service l1"
  have p: "map_of (lg_pending ?l) (ev_TaskDigest demo_dispatch) = Some demo_service"
    by (simp add: update_conv' demo_dispatch_def)
  have o: "lg_open ?l" "\<not> lg_failed ?l" using l1(1) by (auto simp: call_begun_def Let_def stored_def)
  have none: "lg_runOwners ?l k = None" for k
    using stored_calls(3) [OF l1(1)] by (simp add: call_begun_def Let_def demo_log_def)
  have ow: "validateRunControlOwner demo_dispatch (lg_runOwners ?l) = Ok ()"
    by (simp add: validateRunControlOwner_def demo_dispatch_def demo_service_def)
  have tr: "validateTransition demo_service demo_dispatch = Ok ()"
    by (simp add: validateTransition_Ok_iff sameCall_def demo_dispatch_def demo_service_def)
  have ph: "ev_Phase demo_dispatch = Dispatch" "ev_TaskDigest demo_dispatch = hex_body ''sha256:''"
    by (simp_all add: demo_dispatch_def demo_service_def)
  note g = l1(2) [unfolded ledger_good_def]
  obtain l' h where "lg_Dispatch demo_crypto 0 IoOk ?l demo_dispatch = (l', Ok h)"
    using reserved_dispatch [OF conjunct1 [OF g] conjunct2 [OF g] o demo_clock demo_events_valid(6) ph(1) p tr ow none] by blast
  with p ph(2) show ?thesis by metis
qed

text \<open>C6: Tenants cannot take receipt bytes from each other. Let a ledger that satisfies the invariant be open and not poisoned, and let the
  authorization be valid, its task digest not spent by anyone, and the guards on run and inference owners pass; let the tenant have an identity slot (it
  is already charged, has a budget of its own, or the limit on tenants is not reached), the clock be sane and the system calls succeed. Then
  \<open>Begin\<close> accepts the event as soon as the tenant's own quota holds one more line and the reservation, however many bytes the
  other tenants have written or reserved, and it leaves the charges of every other tenant unchanged.\<close>

theorem tenant_slice:
  assumes "crypto_ok c" "ledger_inv c l" "may_begin c l e" "sane_clock now"
    "has_slice l (ev_TenantID e) (int MaxLineBytes + 1 + pendingReservation e)"
  shows "\<exists>l' h. Begin c now IoOk l e = (l', Ok h) \<and>
    (\<forall>t. t \<noteq> ev_TenantID e \<longrightarrow> usage_of (lg_tenantBytes l') t = usage_of (lg_tenantBytes l) t)"
proof -
  obtain l1 where "stored c l now e (pendingReservation e) l1" "Begin c now IoOk l e = (call_begun e l1, Ok (headLocked l1))"
    by (rule Begin_accepted [of c l e now]) (use assms in \<open>simp_all add: ledger_good_def\<close>)
  then show ?thesis by (auto simp: stored_def usage_of_update)
qed

theorem tenant_slice_witness:
  "may_begin demo_crypto demo_log demo_call \<and>
   has_slice demo_log (ev_TenantID demo_call) (int MaxLineBytes + 1 + pendingReservation demo_call) \<and>
   (\<exists>l' h. Begin demo_crypto 0 IoOk demo_log demo_call = (l', Ok h))"
proof -
  have s: "has_slice demo_log (ev_TenantID demo_call) (int MaxLineBytes + 1 + pendingReservation demo_call)"
    using slice_mono [OF demo_slice] pendingReservation_max [of demo_call] by simp
  then show ?thesis
    using tenant_slice [OF _ _ demo_may_begin(1) demo_clock s] demo_may_begin(1) demo_log_good by (auto simp: ledger_good_def)
qed



text \<open>An inference allowance is never refunded. If \<open>BeginInference\<close> with allowance \<open>maximum\<close> succeeds after any sequence of
  operations, then the attempts of that tenant and grant counted before the sequence, those authorized during it, and this
  one together are at most \<open>maximum\<close>; finishing, failing and denying calls never lowers the count.\<close>

theorem inference_allowance:
  assumes "BeginInference c now io (final_state (lg_exec c) calls l) e maximum = (l', Ok h)"
  shows "lg_inferenceCounts l \<lparr>io_tenantID = ev_TenantID e, io_grantID = ev_GrantID e\<rparr> +
    int (length (filter (inference_begun \<lparr>io_tenantID = ev_TenantID e, io_grantID = ev_GrantID e\<rparr>) (results (lg_exec c) calls l))) + 1 \<le> maximum"
proof -
  have "begin_call c now io (final_state (lg_exec c) calls l) e maximum = (l', Ok h)" "0 < maximum"
    using assms by (auto simp: BeginInference_def split: if_splits)
  then show ?thesis by (elim begin_call_Ok) (simp add: run_counts)
qed

theorem inference_allowance_witness:
  "\<exists>l' h. BeginInference demo_crypto 0 IoOk demo_log demo_inference 1 = (l', Ok h) \<and>
     lg_inferenceCounts demo_log \<lparr>io_tenantID = ev_TenantID demo_inference, io_grantID = ev_GrantID demo_inference\<rparr> + 1 \<le> 1"
proof -
  obtain l1 where "Begin demo_crypto 0 IoOk demo_log demo_inference = (call_begun demo_inference l1, Ok (headLocked l1))"
    by (rule demo_begun [OF demo_may_begin(3)]) (simp_all add: demo_inference_def)
  then have "BeginInference demo_crypto 0 IoOk demo_log demo_inference 1 = (call_begun demo_inference l1, Ok (headLocked l1))"
    by (simp add: Begin_def BeginInference_def begin_call_def demo_inference_def demo_log_def split: sum.splits)
  then show ?thesis
    using inference_allowance [of demo_crypto 0 IoOk "[]" demo_log demo_inference 1] by auto
qed

text \<open>C7: The ledger implements the life cycle of calls, operation by operation: in every state that operations reach, a
  successful Begin (or BeginInference) carries an authorization event and takes its task from fresh to authorized, a
  successful Dispatch carries a dispatch event and takes its task from authorized to dispatched, a successful Finish carries
  a terminal event and ends a task that is authorized or dispatched (one with a lifecycle protocol that was never
  dispatched only as failed), and no other task changes; a successful Append or Close, and every failed operation, change
  no task.\<close>

theorem ledger_lifecycle:
  assumes "crypto_ok c" "ledger_inv c l" "lg_exec c (op, now, io) (final_state (lg_exec c) calls l) = (l', r)"
  shows "case r of
      Inl err \<Rightarrow> status l' = status (final_state (lg_exec c) calls l)
    | Inr head \<Rightarrow> status_move op (status (final_state (lg_exec c) calls l)) = Some (status l')"
proof -
  have "ledger_inv c (final_state (lg_exec c) calls l)"
    using ledger.run_inv [of c l calls] assms(1,2) by (simp add: ledger_good_def)
  from exec_moves [OF this, of op now io] show ?thesis by (cases r) (simp_all add: moves_status_def assms(3))
qed

theorem ledger_lifecycle_witness:
  "\<exists>l' head. lg_exec demo_crypto (Op_Begin demo_call, 0, IoOk) (final_state (lg_exec demo_crypto) [] demo_log) = (l', Ok head) \<and>
     status demo_log (hex_body ''sha256:'') = Fresh \<and> status l' (hex_body ''sha256:'') = Authorized"
proof -
  obtain l1 where b: "Begin demo_crypto 0 IoOk demo_log demo_call = (call_begun demo_call l1, Ok (headLocked l1))"
    by (rule demo_begun [OF demo_may_begin(1)]) simp_all
  then have e: "lg_exec demo_crypto (Op_Begin demo_call, 0, IoOk) (final_state (lg_exec demo_crypto) [] demo_log) =
      (call_begun demo_call l1, Ok (headLocked l1))"
    by simp
  have "status_move (Op_Begin demo_call) (status demo_log) = Some (status (call_begun demo_call l1))"
    using ledger_lifecycle [OF _ _ e] demo_log_good by (simp add: ledger_good_def)
  then have "(status demo_log)(ev_TaskDigest demo_call := Authorized) = status (call_begun demo_call l1)"
    by (simp split: if_splits)
  then have "status (call_begun demo_call l1) (ev_TaskDigest demo_call) = Authorized" by (metis fun_upd_same)
  then have "status (call_begun demo_call l1) (hex_body ''sha256:'') = Authorized" by (simp add: demo_call_def)
  moreover have "status demo_log (hex_body ''sha256:'') = Fresh" by (simp add: status_def demo_log_def)
  ultimately show ?thesis using e by blast
qed

text \<open>After a failed write or sync the handle is frozen: no later operation changes the file, and none but \<open>Close\<close>
  succeeds, until the ledger is reopened.\<close>

theorem ambiguous_write_freezes:
  assumes "lg_failed l"
  shows "lg_disk (final_state (lg_exec c) calls l) = lg_disk l \<and>
    (\<forall>r \<in> set (results (lg_exec c) calls l). is_ok (snd r) \<longrightarrow> (\<exists>f. fst (fst r) = Op_Close f))"
  by (rule failed_run [OF assms])

theorem ambiguous_write_freezes_witness:
  "lg_disk (final_state (lg_exec demo_crypto) [(Op_Begin demo_call, 0, IoOk), (Op_Close False, 0, IoOk)] (demo_log\<lparr>lg_failed := True\<rparr>)) = []"
  using ambiguous_write_freezes [of "demo_log\<lparr>lg_failed := True\<rparr>" demo_crypto "[(Op_Begin demo_call, 0, IoOk), (Op_Close False, 0, IoOk)]"]
  by (simp add: demo_log_def del: final_state_Cons results_Cons)

end
