(* ===== verification/Ledger_Recovery.thy ===== *)
theory Ledger_Recovery
  imports Ledger_Promises
begin

text \<open>
  Reopening a ledger. The state of an open handle is a function of the bytes on disk: replaying the file gives back
  exactly the pending calls, spent tasks, task heads, run owners, inference counts, charges, and reservation of the handle
  that wrote it. The relation \<open>mirrored\<close> says so for a live handle, every operation on events that the reader accepts keeps it,
  and \<open>OpenWithLimits\<close> turns it into equality.
\<close>

section \<open>Lines on disk\<close>

definition clean_line :: "bytes \<Rightarrow> bool" where
  "clean_line raw \<longleftrightarrow> raw \<noteq> [] \<and> length raw \<le> MaxLineBytes \<and> (\<forall>ch \<in> set raw. 32 \<le> byte ch)"

definition disk_of :: "bytes list \<Rightarrow> bytes" where
  "disk_of raws = concat (map (\<lambda>raw. raw @ [CHR 0x0A]) raws)"

lemma disk_of_snoc: "disk_of (raws @ [raw]) = disk_of raws @ raw @ [CHR 0x0A]"
  by (simp add: disk_of_def)

lemma split_on_line: "CHR 0x0A \<notin> set raw \<Longrightarrow> split_on (CHR 0x0A) (raw @ CHR 0x0A # rest) = raw # split_on (CHR 0x0A) rest"
  by (induction raw) auto

lemma clean_no_newline: "clean_line raw \<Longrightarrow> CHR 0x0A \<notin> set raw \<and> CHR 0x0D \<notin> set raw"
  by (force simp: clean_line_def)

lemma file_lines_joined: "\<forall>raw \<in> set raws. CHR 0x0A \<notin> set raw \<Longrightarrow> file_lines (disk_of raws) = raws"
proof -
  assume "\<forall>raw \<in> set raws. CHR 0x0A \<notin> set raw"
  then have "split_on (CHR 0x0A) (disk_of raws) = raws @ [[]]" by (induction raws) (auto simp: disk_of_def split_on_line)
  then show ?thesis by (simp add: file_lines_def)
qed

lemma file_lines_disk: "\<forall>raw \<in> set raws. clean_line raw \<Longrightarrow> file_lines (disk_of raws) = raws"
  using clean_no_newline by (intro file_lines_joined) blast

lemma drop_cr_clean: "clean_line raw \<Longrightarrow> drop_cr raw = raw"
  using clean_no_newline [of raw] by (auto simp: drop_cr_def dest: last_in_set)

lemma last_disk: "raws \<noteq> [] \<Longrightarrow> last (disk_of raws) = CHR 0x0A \<and> disk_of raws \<noteq> []"
  by (cases raws rule: rev_cases) (simp_all add: disk_of_snoc)

lemma verifyFile_disk:
  "\<forall>raw \<in> set raws. clean_line raw \<Longrightarrow> verifyFile c (disk_of raws) public nodeID epoch visit h =
     verify_lines c public nodeID epoch visit 0 (start_head c public nodeID epoch) h raws"
proof (cases "raws = []")
  case False
  assume "\<forall>raw \<in> set raws. clean_line raw"
  then show ?thesis using last_disk [OF False] by (simp add: verifyFile_def file_lines_disk)
qed (simp add: verifyFile_def disk_of_def file_lines_def)

lemma verify_lines_append:
  "verify_lines c public nodeID epoch visit n head h (xs @ ys) =
     and_then (verify_lines c public nodeID epoch visit n head h xs)
       (\<lambda>(head', h'). verify_lines c public nodeID epoch visit (n + length xs) head' h' ys)"
proof (induction xs arbitrary: n head h)
  case (Cons x xs)
  show ?case
  proof (cases "read_line c public nodeID epoch (Suc n) (hd_ChainHash head) (drop_cr x)")
    case (Inl err)
    then show ?thesis by (auto simp: errorf_def)
  next
    case (Inr vr)
    then show ?thesis using Cons by (cases "visit vr h") (auto simp: errorf_def)
  qed
qed simp

section \<open>The mirror\<close>

definition history_of :: "Log \<Rightarrow> History" where
  "history_of l = \<lparr>hs_pending = lg_pending l, hs_spent = lg_spent l, hs_taskHeads = lg_taskHeads l, hs_runOwners = lg_runOwners l\<rparr>"

definition replays_to :: "crypto \<Rightarrow> Log \<Rightarrow> bytes list \<Rightarrow> Replay \<Rightarrow> bool" where
  "replays_to c l raws r \<longleftrightarrow>
     verify_lines c (lg_public l) (lg_nodeID l) (lg_epoch l) (open_visit (lg_limits l) None) 0
       (start_head c (lg_public l) (lg_nodeID l) (lg_epoch l)) start_replay raws =
     Ok (\<lparr>hd_NodeID = lg_nodeID l, hd_Epoch = lg_epoch l, hd_Sequence = of_nat (length raws), hd_ChainHash = lg_last l,
          hd_KeyID = lg_keyID l\<rparr>, r)"

definition mirrored_by :: "crypto \<Rightarrow> Log \<Rightarrow> bytes list \<Rightarrow> Replay \<Rightarrow> bool" where
  "mirrored_by c l raws r \<longleftrightarrow> lg_disk l = disk_of raws \<and> (\<forall>raw \<in> set raws. clean_line raw) \<and> replays_to c l raws r \<and>
     lg_next l = of_nat (length raws) + 1 \<and> rp_history r = history_of l \<and> rp_inferenceCounts r = lg_inferenceCounts l \<and>
     map fst (rp_tenantBytes r) = map fst (lg_tenantBytes l) \<and>
     (\<forall>t. usage_of (lg_tenantBytes l) t = usage_of (rp_tenantBytes r) t + reserve_of (lg_pending l) t)"

definition mirrored :: "crypto \<Rightarrow> Log \<Rightarrow> bool" where
  "mirrored c l \<longleftrightarrow> (\<exists>raws r. mirrored_by c l raws r)"

text \<open>The events the reader accepts from this writer.\<close>

definition readable :: "Event \<Rightarrow> bool" where
  "readable e \<longleftrightarrow> schema_matches (receipt_version e) e"

lemma run_control_kind:
  "validateRunControl c e = Ok () \<Longrightarrow> ev_TargetTaskDigest e \<noteq> [] \<Longrightarrow> ev_Kind e = ServiceTask \<and> ev_TaskProtocol e = TaskProtocolLifecycleV1"
  by (auto simp: validateRunControl_def and_then_Inr_iff split: if_splits)

lemma other_kinds_no_protocol:
  "event_kind e = Ok () \<Longrightarrow> ev_Kind e \<noteq> ServiceTask \<Longrightarrow> ev_TaskProtocol e = []"
  by (auto simp: event_kind_def legacy_fields_def inference_fields_def connector_fields_def split: if_splits)

lemma chained_versions:
  assumes "validateEvent c e = Ok ()" "readable e"
  shows "(receipt_version e = 4 \<or> receipt_version e = 8) \<longleftrightarrow> ev_TaskProtocol e \<noteq> []"
proof (cases "ev_Kind e = ServiceTask")
  case True
  have k: "event_kind e = Ok ()" "validateRunControl c e = Ok ()" using assms(1) by (simp_all add: validateEvent_iff)
  have mode: "ev_EffectMode e = []" using k(1) True by (simp add: event_kind_def service_fields_def split: if_splits)
  show ?thesis
  proof (cases "ev_TargetTaskDigest e = []")
    case t: True
    have "\<not> (ev_InfluenceHash e \<noteq> [] \<or> ev_ResponseDigest e \<noteq> [])"
    proof
      assume "ev_InfluenceHash e \<noteq> [] \<or> ev_ResponseDigest e \<noteq> []"
      then have "receipt_version e = 7" using True t by (simp add: receipt_version_def)
      then show False using assms(2) True by (simp add: readable_def schema_matches_def)
    qed
    moreover have "\<not> (ev_ApprovalThreshold e > 1 \<or> ev_AuthorityKeySet e \<noteq> [])"
    proof
      assume "ev_ApprovalThreshold e > 1 \<or> ev_AuthorityKeySet e \<noteq> []"
      then have "receipt_version e = 6" using True t calculation by (simp add: receipt_version_def)
      then show False using assms(2) True by (simp add: readable_def schema_matches_def)
    qed
    ultimately show ?thesis using True t mode by (simp add: receipt_version_def)
  next
    case False
    then show ?thesis using True run_control_kind [OF k(2) False] by (simp add: receipt_version_def)
  qed
next
  case False
  have k: "event_kind e = Ok ()" "validateRunControl c e = Ok ()" using assms(1) by (simp_all add: validateEvent_iff)
  have "ev_TargetTaskDigest e = []" using run_control_kind [OF k(2)] False by blast
  then show ?thesis using other_kinds_no_protocol [OF k(1) False] by (simp add: receipt_version_def)
qed

lemma receipt_for_accepted:
  assumes "ledger_good c l" "sane_clock now" "validateEvent c e = Ok ()" "readable e"
    "ev_TaskProtocol e \<noteq> [] \<Longrightarrow> tc_sequence (coordinate_of (lg_taskHeads l) (ev_TaskDigest e)) \<noteq> - 1"
  shows "validateReceipt c (receipt_for l now e) (receipt_version e) (lg_nodeID l) (lg_epoch l) (lg_next l) (lg_last l) = Ok ()"
proof -
  have "tc_sequence (coordinate_of (lg_taskHeads l) (ev_TaskDigest e)) + 1 \<noteq> 0" if "ev_TaskProtocol e \<noteq> []"
    using assms(5) [OF that] by (metis add.inverse_unique add.commute)
  moreover have "cl_digest (tc_hash (coordinate_of (lg_taskHeads l) (ev_TaskDigest e)))"
    if "tc_hash (coordinate_of (lg_taskHeads l) (ev_TaskDigest e)) \<noteq> []"
    using assms(1) that by (auto simp: ledger_good_def ledger_inv_def calls_ok_def coordinate_of_def ran_def split: option.splits)
  ultimately show ?thesis
    using assms(2,3,4) observed_ok_format zeroHash_digest chained_versions [OF assms(3,4)]
    by (simp add: validateReceipt_def receipt_for_def readable_def)
qed

text \<open>The record that the reader sees for a stored event.\<close>

definition record_of :: "crypto \<Rightarrow> Log \<Rightarrow> time \<Rightarrow> Event \<Rightarrow> bytes \<Rightarrow> VerifiedReceipt" where
  "record_of c l now e raw = \<lparr>vf_Receipt = receipt_for l now e, vf_Raw = raw, vf_Hash = hashLine c raw\<rparr>"

lemma record_of_sel [simp]:
  "vf_Receipt (record_of c l now e raw) = receipt_for l now e" "vf_Raw (record_of c l now e raw) = raw"
  "vf_Hash (record_of c l now e raw) = hashLine c raw"
  by (simp_all add: record_of_def)

lemma stored_read:
  assumes "ledger_good c l" "sane_clock now" "validateEvent c e = Ok ()" "stored c l now e d l1"
  obtains raw reserved usage where "l1 = record_line c l (receipt_for l now e) raw reserved usage"
    "admit_usage l e d (length raw + 1) = Ok (reserved, usage)" "clean_line raw" "sealed_line c l (receipt_for l now e) = Ok raw"
    "\<And>n previous. read_line c (lg_public l) (lg_nodeID l) (lg_epoch l) n previous raw =
       and_then (validateReceipt c (receipt_for l now e) (receipt_version e) (lg_nodeID l) (lg_epoch l) (of_nat n) previous)
         (\<lambda>_. Ok (record_of c l now e raw))"
proof -
  have i: "crypto_ok c" "identity_ok c l" "calls_ok c l" using assms(1) by (simp_all add: ledger_good_def ledger_inv_def)
  have sized: "coordinates_sized (receipt_for l now e)"
    using i by (intro receipt_for_sized [OF assms(2)]) (simp_all add: identity_ok_def calls_ok_def)
  have ev: "event_sized (rc_Event (receipt_for l now e))" using validateEvent_sized [OF assms(3)] by simp
  have ids: "length (lg_private l) = 64" "lg_keyID l = cl_KeyID c (ed_public c (lg_private l))" "lg_public l = ed_public c (lg_private l)"
    using i(2) by (simp_all add: identity_ok_def)
  obtain raw env where s: "sealed_line c l (receipt_for l now e) = Ok raw" "raw \<noteq> []" "length raw \<le> MaxLineBytes"
    "\<forall>ch \<in> set raw. 32 \<le> byte ch" "Parse raw = Ok env" "PayloadType env = receipt_payload_type (receipt_version (rc_Event (receipt_for l now e)))"
    "Verify c raw (receipt_payload_type (receipt_version (rc_Event (receipt_for l now e)))) [lg_keyID l \<mapsto> ed_public c (lg_private l)] =
       Ok (json_print (receipt_json (receipt_for l now e)), lg_keyID l)"
    by (rule seal_line [OF i(1) ids(1,2) ev sized])
  have rd: "read_line c (lg_public l) (lg_nodeID l) (lg_epoch l) n previous raw =
       and_then (validateReceipt c (receipt_for l now e) (receipt_version e) (lg_nodeID l) (lg_epoch l) (of_nat n) previous)
         (\<lambda>_. Ok (record_of c l now e raw))" for n previous
    unfolding record_of_def ids(3)
    by (rule read_sealed [OF s(2,3,5)])
      (use s(6,7) receipt_version_range ev sized ids(2) in \<open>simp_all\<close>)
  have "clean_line raw" using s(2-4) by (simp add: clean_line_def)
  with that rd s(1) assms(4) show ?thesis by (auto simp: stored_def)
qed

lemma same_keys_None: "map fst xs = map fst ys \<Longrightarrow> map_of xs t = None \<longleftrightarrow> map_of ys t = None"
  by (metis list.set_map map_of_eq_None_iff)

lemma same_keys_update: "map fst xs = map fst ys \<Longrightarrow> map fst (AList.update k v xs) = map fst (AList.update k w ys)"
  by (simp add: update_keys)

lemma mirror_usage:
  assumes "admit_usage l e d n = Ok (reserved, usage)" "map fst tb = map fst (lg_tenantBytes l)"
    "usage_of (lg_tenantBytes l) (ev_TenantID e) = usage_of tb (ev_TenantID e) + reserve" "0 \<le> reserve + d"
  shows "addTenantUsage tb (ev_TenantID e) (int n) (lg_limits l) =
    Ok (AList.update (ev_TenantID e) (usage_of tb (ev_TenantID e) + int n) tb)"
proof -
  note a = assms(1) [unfolded admit_usage_Ok_iff]
  have len: "length tb = length (lg_tenantBytes l)" using assms(2) by (metis length_map)
  from a obtain q where "tenantQuota (lg_limits l) (ev_TenantID e) = Ok q" "usage \<le> q" by blast
  then show ?thesis
    using a assms(3,4) same_keys_None [OF assms(2), of "ev_TenantID e"] len by (auto simp: addTenantUsage_def)
qed

text \<open>
  An operation either refuses the event whatever the file system does, or it is one append with a fixed reservation change
  followed by a fixed update.
\<close>

inductive prepared :: "crypto \<Rightarrow> Log \<Rightarrow> Event \<Rightarrow> int \<Rightarrow> (Log \<Rightarrow> Log) \<Rightarrow> bool" for c l e where
  p_deny: "validateEvent c e = Ok () \<Longrightarrow> ev_Phase e = Deny \<Longrightarrow> prepared c l e 0 id"
| p_begin: "validateEvent c e = Ok () \<Longrightarrow> ev_Phase e = Authorize \<Longrightarrow> ev_TaskDigest e \<notin> lg_spent l \<Longrightarrow>
    validateRunControlOwner e (lg_runOwners l) = Ok () \<Longrightarrow> validateInferenceScopeOwner e (lg_pending l) = Ok () \<Longrightarrow>
    prepared c l e (pendingReservation e) (call_begun e)"
| p_dispatch: "validateEvent c e = Ok () \<Longrightarrow> ev_Phase e = Dispatch \<Longrightarrow> map_of (lg_pending l) (ev_TaskDigest e) = Some p \<Longrightarrow>
    validateTransition p e = Ok () \<Longrightarrow> validateRunControlOwner e (lg_runOwners l) = Ok () \<Longrightarrow>
    (\<And>owner. lg_runOwners l (runOwnershipFor e) = Some owner \<Longrightarrow> ev_TargetTaskDigest e = [] \<Longrightarrow> ev_TaskDigest owner = ev_TaskDigest e) \<Longrightarrow>
    prepared c l e (- terminalReserveBytes) (call_dispatched e)"
| p_finish: "validateEvent c e = Ok () \<Longrightarrow> ev_Phase e = Terminal \<Longrightarrow> map_of (lg_pending l) (ev_TaskDigest e) = Some p \<Longrightarrow>
    validateTransition p e = Ok () \<Longrightarrow> prepared c l e (- pendingReservation p) (call_finished e)"

lemma prepared_valid: "prepared c l e d f \<Longrightarrow> validateEvent c e = Ok ()"
  by (auto elim: prepared.cases)

lemma prepared_step: "prepared c l e d f \<Longrightarrow> stored c l now e d l1 \<Longrightarrow> ledger_step c l (f l1)"
  by (induction rule: prepared.induct) (auto intro: ledger_step.intros)

lemma prepared_frame:
  assumes "prepared c l e d f"
  shows "lg_disk (f l1) = lg_disk l1" "lg_failed (f l1) = lg_failed l1" "lg_open (f l1) = lg_open l1" "lg_next (f l1) = lg_next l1"
    "lg_last (f l1) = lg_last l1" "lg_public (f l1) = lg_public l1" "lg_nodeID (f l1) = lg_nodeID l1" "lg_epoch (f l1) = lg_epoch l1"
    "lg_limits (f l1) = lg_limits l1" "lg_keyID (f l1) = lg_keyID l1" "lg_tenantBytes (f l1) = lg_tenantBytes l1"
    "lg_taskHeads (f l1) = lg_taskHeads l1"
  using assms by (cases; simp add: call_begun_def call_dispatched_def call_finished_def Let_def)+

text \<open>The task coordinates of the writer are the ones the replay expects.\<close>

lemma fresh_coordinate:
  assumes "ledger_inv c l" "ev_TaskDigest e \<notin> lg_spent l"
  shows "validateTaskCoordinate (record_of c l now e raw) (coordinate_of (lg_taskHeads l) (ev_TaskDigest e)) True = Ok ()"
proof -
  have "lg_taskHeads l (ev_TaskDigest e) = None" using assms by (auto simp: ledger_inv_def calls_ok_def)
  then show ?thesis by (simp add: validateTaskCoordinate_def record_of_def receipt_for_def coordinate_of_def)
qed

lemma next_coordinate:
  assumes "ledger_inv c l" "map_of (lg_pending l) (ev_TaskDigest e) = Some p" "validateTransition p e = Ok ()"
  shows "validateTaskCoordinate (record_of c l now e raw) (coordinate_of (lg_taskHeads l) (ev_TaskDigest e)) False = Ok ()"
proof (cases "ev_TaskProtocol e = []")
  case False
  then have "ev_TaskProtocol p \<noteq> []" using assms(3) by (simp add: validateTransition_Ok_iff sameCall_def)
  then obtain t where t: "lg_taskHeads l (ev_TaskDigest e) = Some t" "tc_sequence t = 1 \<or> tc_sequence t = 2"
    using pending_call_ok [OF assms(1,2)] by (auto simp: call_ok_def split: if_splits)
  have "cl_digest (tc_hash t)" using assms(1) t(1) by (auto simp: ledger_inv_def calls_ok_def ran_def)
  then have "tc_hash t \<noteq> []" by (auto simp: cl_digest_iff prefixed_hex_def)
  then show ?thesis using t False by (auto simp: validateTaskCoordinate_def record_of_def receipt_for_def coordinate_of_def)
qed (simp add: validateTaskCoordinate_def record_of_def)

text \<open>The replay of the stored record makes the update of the operation.\<close>

lemma prepared_history:
  assumes "prepared c l e d f" "ledger_inv c l" "stored c l now e d l1"
  shows "updateHistory (record_of c l now e raw) (history_of l) = Ok ((history_of (f l1))\<lparr>hs_taskHeads :=
        (if ev_TaskProtocol e = [] then lg_taskHeads l
         else (lg_taskHeads l)(ev_TaskDigest e \<mapsto> \<lparr>tc_sequence = rc_TaskSequence (receipt_for l now e), tc_hash = hashLine c raw\<rparr>))\<rparr>)"
  using assms(1)
proof cases
  case p_deny
  then show ?thesis
    using deny_no_protocol [OF p_deny(3,4)] stored_calls [OF assms(3)] by (simp add: updateHistory_def note_task_head_def history_of_def)
next
  case p_begin
  then show ?thesis
    using fresh_coordinate [OF assms(2) p_begin(5), of now raw] stored_calls [OF assms(3)]
    by (simp add: updateHistory_def replay_authorize_def note_task_head_def history_of_def call_begun_def Let_def)
next
  case (p_dispatch p)
  have own: "\<not> (case lg_runOwners l (runOwnershipFor e) of None \<Rightarrow> False
     | Some owner \<Rightarrow> ev_TaskDigest owner \<noteq> ev_TaskDigest e \<and> ev_TargetTaskDigest e = [])"
    using p_dispatch(8) by (auto split: option.splits)
  show ?thesis
    using p_dispatch next_coordinate [OF assms(2) p_dispatch(5,6), of now raw] stored_calls [OF assms(3)] own
    by (simp add: updateHistory_def replay_dispatch_def note_task_head_def history_of_def Let_def call_dispatched_def)
next
  case (p_finish p)
  then show ?thesis
    using next_coordinate [OF assms(2) p_finish(5,6), of now raw] stored_calls [OF assms(3)]
    by (simp add: updateHistory_def replay_terminal_def note_task_head_def history_of_def call_finished_def Let_def)
qed

lemma prepared_reserve:
  assumes "prepared c l e d f" "ledger_inv c l" "stored c l now e d l1"
  shows "reserve_of (lg_pending (f l1)) t = reserve_of (lg_pending l) t + (if t = ev_TenantID e then d else 0)"
  using assms(1)
proof cases
  case p_begin
  then show ?thesis
    using reservations_begin(2) [OF pending_spent [OF assms(2) p_begin(5)]] by (simp add: stored_calls [OF assms(3)])
next
  case (p_dispatch p)
  then show ?thesis
    using reservations_dispatch(2) [OF p_dispatch(5,6,4,3)] by (simp add: stored_calls [OF assms(3)])
next
  case (p_finish p)
  have "distinct (map fst (lg_pending l))" using assms(2) by (simp add: ledger_inv_def calls_ok_def)
  then show ?thesis
    using p_finish reservations_finish(2) [OF _ p_finish(5,6)] by (simp add: stored_calls [OF assms(3)])
qed (simp add: stored_calls [OF assms(3)])

lemma prepared_counts:
  assumes "prepared c l e d f" "stored c l now e d l1"
  shows "lg_inferenceCounts (f l1) = (let owner = \<lparr>io_tenantID = ev_TenantID e, io_grantID = ev_GrantID e\<rparr>
     in if ev_Kind e = InferenceAttempt \<and> ev_Phase e = Authorize
        then (lg_inferenceCounts l)(owner := lg_inferenceCounts l owner + 1) else lg_inferenceCounts l)"
  using assms(1) stored_calls(4) [OF assms(2)]
  by cases (simp_all add: call_begun_def call_dispatched_def call_finished_def Let_def)

text \<open>The line of a stored event is accepted by the reader at the next position.\<close>

lemma stored_line:
  assumes "ledger_good c l" "sane_clock now" "validateEvent c e = Ok ()" "readable e" "stored c l now e d l1" "lg_next l = of_nat n + 1"
  obtains raw reserved usage where "l1 = record_line c l (receipt_for l now e) raw reserved usage"
    "admit_usage l e d (length raw + 1) = Ok (reserved, usage)" "clean_line raw"
    "read_line c (lg_public l) (lg_nodeID l) (lg_epoch l) (Suc n) (lg_last l) raw = Ok (record_of c l now e raw)"
proof -
  obtain raw reserved usage where s: "l1 = record_line c l (receipt_for l now e) raw reserved usage"
    "admit_usage l e d (length raw + 1) = Ok (reserved, usage)" "clean_line raw"
    "\<And>n previous. read_line c (lg_public l) (lg_nodeID l) (lg_epoch l) n previous raw =
       and_then (validateReceipt c (receipt_for l now e) (receipt_version e) (lg_nodeID l) (lg_epoch l) (of_nat n) previous)
         (\<lambda>_. Ok (record_of c l now e raw))"
    using stored_read [OF assms(1-3,5)] by metis
  have seq: "ev_TaskProtocol e \<noteq> [] \<Longrightarrow> tc_sequence (coordinate_of (lg_taskHeads l) (ev_TaskDigest e)) \<noteq> - 1"
    using assms(5) by (auto simp: stored_def next_receipt_Ok_iff)
  have n: "of_nat (Suc n) = lg_next l" by (simp add: assms(6))
  have "read_line c (lg_public l) (lg_nodeID l) (lg_epoch l) (Suc n) (lg_last l) raw = Ok (record_of c l now e raw)"
    unfolding s(4) n using receipt_for_accepted [OF assms(1-4) seq] by simp
  with s that show ?thesis by blast
qed

lemma stored_identity:
  assumes "stored c l now e d l1"
  shows "lg_public l1 = lg_public l" "lg_nodeID l1 = lg_nodeID l" "lg_epoch l1 = lg_epoch l" "lg_keyID l1 = lg_keyID l"
    "lg_next l1 = lg_next l + 1"
  using assms by (auto simp: stored_def)

text \<open>One more line on disk is one more step of the replay.\<close>

lemma prepared_mirror:
  assumes "prepared c l e d f" "ledger_good c l" "sane_clock now" "readable e" "mirrored c l" "stored c l now e d l1"
  shows "mirrored c (f l1)"
proof -
  let ?l = "f l1" and ?t = "ev_TenantID e"
  have inv: "ledger_inv c l" using assms(2) by (simp add: ledger_good_def)
  obtain raws r where m: "lg_disk l = disk_of raws" "\<forall>raw \<in> set raws. clean_line raw" "replays_to c l raws r"
    "lg_next l = of_nat (length raws) + 1" "rp_history r = history_of l" "rp_inferenceCounts r = lg_inferenceCounts l"
    "map fst (rp_tenantBytes r) = map fst (lg_tenantBytes l)"
    "\<And>t. usage_of (lg_tenantBytes l) t = usage_of (rp_tenantBytes r) t + reserve_of (lg_pending l) t"
    using assms(5) by (auto simp: mirrored_def mirrored_by_def)
  obtain raw reserved usage where s: "l1 = record_line c l (receipt_for l now e) raw reserved usage"
    "admit_usage l e d (length raw + 1) = Ok (reserved, usage)" "clean_line raw"
    "read_line c (lg_public l) (lg_nodeID l) (lg_epoch l) (Suc (length raws)) (lg_last l) raw = Ok (record_of c l now e raw)"
    by (rule stored_line [OF assms(2,3) prepared_valid [OF assms(1)] assms(4,6) m(4)])
  note fr = prepared_frame [OF assms(1), of l1] and id = stored_identity [OF assms(6)]
  note res = prepared_reserve [OF assms(1) inv assms(6)]
  have nn: "0 \<le> reserve_of (lg_pending l) ?t + d" using reserve_nonneg(2) [of "lg_pending ?l" ?t] res [of ?t] by simp
  define tb where "tb = AList.update ?t (usage_of (rp_tenantBytes r) ?t + int (length raw + 1)) (rp_tenantBytes r)"
  define r' where "r' = \<lparr>rp_history = history_of ?l, rp_tenantBytes = tb, rp_inferenceCounts = lg_inferenceCounts ?l\<rparr>"
  have use: "addTenantUsage (rp_tenantBytes r) ?t (int (length raw + 1)) (lg_limits l) = Ok tb"
    unfolding tb_def by (rule mirror_usage [OF s(2) m(7) m(8) nn])
  have heads: "history_of ?l = (history_of ?l)\<lparr>hs_taskHeads := (if ev_TaskProtocol e = [] then lg_taskHeads l
         else (lg_taskHeads l)(ev_TaskDigest e \<mapsto> \<lparr>tc_sequence = rc_TaskSequence (receipt_for l now e), tc_hash = hashLine c raw\<rparr>))\<rparr>"
    unfolding history_of_def fr by (simp add: s(1))
  have visit: "open_visit (lg_limits l) None (record_of c l now e raw) r = Ok r'"
    using prepared_history [OF assms(1) inv assms(6), of raw] use heads prepared_counts [OF assms(1,6)] m(5,6)
    by (simp add: open_visit_def r'_def Let_def)
  have sel: "lg_limits l1 = lg_limits l" "lg_last l1 = hashLine c raw" "rc_Sequence (receipt_for l now e) = of_nat (length raws) + 1"
    "lg_tenantBytes l1 = AList.update ?t usage (lg_tenantBytes l)" "lg_disk l1 = disk_of (raws @ [raw])"
    by (simp_all add: s(1) receipt_for_def m(1,4) disk_of_snoc)
  have "replays_to c ?l (raws @ [raw]) r'"
    using m(3) s(3,4) visit drop_cr_clean [OF s(3)]
    by (simp add: replays_to_def fr id sel verify_lines_append clean_line_def)
  moreover have "usage_of (lg_tenantBytes ?l) t = usage_of tb t + reserve_of (lg_pending ?l) t" for t
    using m(8) [of t] s(2) by (auto simp: fr res sel tb_def usage_of_update admit_usage_Ok_iff)
  moreover have "map fst tb = map fst (lg_tenantBytes ?l)"
    unfolding fr sel tb_def by (simp add: same_keys_update [OF m(7)])
  moreover have "lg_next ?l = of_nat (length (raws @ [raw])) + 1" by (simp add: fr id m(4))
  ultimately have "mirrored_by c ?l (raws @ [raw]) r'"
    using m(2) s(3) by (simp add: mirrored_by_def fr sel r'_def)
  then show ?thesis by (auto simp: mirrored_def)
qed

section \<open>Runs that keep the mirror\<close>

definition op_event :: "ledger_op \<Rightarrow> Event option" where
  "op_event op = (case op of Op_Append e \<Rightarrow> Some e | Op_Begin e \<Rightarrow> Some e | Op_BeginInference e _ \<Rightarrow> Some e
     | Op_Dispatch e \<Rightarrow> Some e | Op_Finish e \<Rightarrow> Some e | Op_Close _ \<Rightarrow> None)"

text \<open>Calls whose writes are not ambiguous, on a sane clock, with events the reader accepts.\<close>

definition op_readable :: "ledger_op \<Rightarrow> bool" where
  "op_readable op = (case op_event op of None \<Rightarrow> True | Some e \<Rightarrow> readable e)"

definition replayable :: "ledger_call \<Rightarrow> bool" where
  "replayable call = (case call of (op, now, io) \<Rightarrow> op_readable op \<and> sane_clock now \<and> (io = IoOk \<or> io = StatFailed))"

definition one_append :: "crypto \<Rightarrow> Log \<Rightarrow> Event \<Rightarrow> time \<Rightarrow> (io \<Rightarrow> Log \<times> Head result) \<Rightarrow> bool" where
  "one_append c l e now run \<longleftrightarrow> (\<exists>err. \<forall>io. run io = (l, Inl err)) \<or>
     (\<exists>d f. prepared c l e d f \<and> (\<forall>io. run io = then_update (appendLocked c now io l e d) f))"

lemma one_append_refused: "one_append c l e now (\<lambda>io. (l, Inl err))" "one_append c l e now (\<lambda>io. (l, errorf msg))"
  by (auto simp: one_append_def errorf_def)

lemma one_append_prepared: "prepared c l e d f \<Longrightarrow> one_append c l e now (\<lambda>io. then_update (appendLocked c now io l e d) f)"
  by (auto simp: one_append_def)

lemma one_append_if:
  "(P \<Longrightarrow> one_append c l e now A) \<Longrightarrow> (\<not> P \<Longrightarrow> one_append c l e now B) \<Longrightarrow> one_append c l e now (\<lambda>io. if P then A io else B io)"
  by (cases P) simp_all

lemma one_append_sum:
  "(\<And>err. r = Inl err \<Longrightarrow> one_append c l e now (A err)) \<Longrightarrow> (\<And>v. r = Inr v \<Longrightarrow> one_append c l e now (B v)) \<Longrightarrow>
   one_append c l e now (\<lambda>io. case r of Inl err \<Rightarrow> A err io | Inr v \<Rightarrow> B v io)"
  by (cases r) simp_all

lemma one_append_option:
  "(r = None \<Longrightarrow> one_append c l e now A) \<Longrightarrow> (\<And>v. r = Some v \<Longrightarrow> one_append c l e now (B v)) \<Longrightarrow>
   one_append c l e now (\<lambda>io. case r of None \<Rightarrow> A io | Some v \<Rightarrow> B v io)"
  by (cases r) simp_all

lemmas one_append_intros = one_append_if one_append_sum one_append_option one_append_refused

lemma then_update_id: "then_update r id = r"
  by (cases r; cases "snd r") (auto simp: then_update_def)

lemma one_append_Append: "one_append c l e now (\<lambda>io. Append c now io l e)"
  unfolding Append_def
  by (intro one_append_intros) (use one_append_prepared [OF p_deny [of c e l], of now] in \<open>simp add: then_update_id\<close>)

lemma one_append_begin: "one_append c l e now (\<lambda>io. begin_call c now io l e m)"
  unfolding begin_call_def wrap_err_def
  by (intro one_append_intros one_append_prepared p_begin) (auto simp: and_then_Inr_iff)

lemma one_append_Dispatch: "one_append c l e now (\<lambda>io. lg_Dispatch c now io l e)"
  unfolding lg_Dispatch_def wrap_err_def
  by (intro one_append_intros one_append_prepared p_dispatch) (auto split: option.splits)

lemma one_append_Finish: "one_append c l e now (\<lambda>io. Finish c now io l e)"
  unfolding Finish_def by (intro one_append_intros one_append_prepared p_finish) auto

lemma lg_exec_one_append:
  assumes "op_event op = Some e"
  shows "one_append c l e now (\<lambda>io. lg_exec c (op, now, io) l)"
proof (cases op)
  case (Op_BeginInference e' m)
  have "one_append c l e now (\<lambda>io. BeginInference c now io l e m)"
    unfolding BeginInference_def by (intro one_append_intros one_append_begin)
  then show ?thesis using Op_BeginInference assms by (simp add: op_event_def)
qed (use assms one_append_Append one_append_begin one_append_Dispatch one_append_Finish in \<open>simp_all add: op_event_def Begin_def\<close>)

text \<open>The two outcomes of an unambiguous call.\<close>

lemma append_outcomes:
  assumes "prepared c l e d f"
  obtains (kept) "fst (then_update (appendLocked c now io l e d) f) = l"
  | (stored) l1 where "stored c l now e d l1" "fst (then_update (appendLocked c now io l e d) f) = f l1" "io = IoOk"
  | (poisoned) "io \<noteq> IoOk" "io \<noteq> StatFailed"
proof (cases "io = StatFailed")
  case True
  then have "\<exists>err. appendLocked c now io l e d = (l, Inl err)"
    by (auto simp: appendLocked_def errorf_def split: sum.split prod.split)
  then show ?thesis using kept by (auto simp: then_update_def)
next
  case False
  then show ?thesis
    using that by (cases rule: then_update_cases [of c now io l e d f]) auto
qed

definition recoverable :: "crypto \<Rightarrow> Log \<Rightarrow> bool" where
  "recoverable c l \<longleftrightarrow> ledger_good c l \<and> mirrored c l \<and> \<not> lg_failed l"

lemma recoverable_stored:
  assumes "recoverable c l" "prepared c l e d f" "stored c l now e d l1" "sane_clock now" "readable e"
  shows "recoverable c (f l1)"
proof -
  have g: "ledger_good c l" "mirrored c l" "\<not> lg_failed l" using assms(1) by (simp_all add: recoverable_def)
  have "ledger_inv c (f l1)"
    using ledger_step_inv [OF _ prepared_step [OF assms(2,3)]] g(1) by (simp add: ledger_good_def)
  then show ?thesis
    using g prepared_mirror [OF assms(2) g(1) assms(4,5) g(2) assms(3)] prepared_frame(2) [OF assms(2), of l1] stored_calls(5) [OF assms(3)]
    by (simp add: recoverable_def ledger_good_def)
qed

lemma mirrored_open [simp]: "mirrored c (l\<lparr>lg_open := b\<rparr>) = mirrored c l"
  by (simp add: mirrored_def mirrored_by_def replays_to_def history_of_def)

lemma ledger_good_open [simp]: "ledger_good c (l\<lparr>lg_open := b\<rparr>) = ledger_good c l"
  using calls_ok_frame [of "l\<lparr>lg_open := b\<rparr>" l c] by (simp add: ledger_good_def ledger_inv_def identity_ok_def charges_ok_def)

lemma recoverable_exec:
  assumes "recoverable c l" "replayable call"
  shows "recoverable c (fst (lg_exec c call l))"
proof (cases call)
  case (fields op now io)
  have ok: "op_readable op" "sane_clock now" "io = IoOk \<or> io = StatFailed" using assms(2) fields by (simp_all add: replayable_def)
  show ?thesis
  proof (cases "op_event op")
    case None
    then obtain b where "op = Op_Close b" by (auto simp: op_event_def split: ledger_op.splits)
    then show ?thesis using assms(1) fields by (simp add: lg_Close_def recoverable_def)
  next
    case (Some e)
    then have re: "readable e" using ok(1) by (simp add: op_readable_def)
    consider err where "lg_exec c call l = (l, Inl err)"
      | d f where "prepared c l e d f" "lg_exec c call l = then_update (appendLocked c now io l e d) f"
      using lg_exec_one_append [OF Some, of c l now] fields by (auto simp: one_append_def)
    then show ?thesis
    proof cases
      case (2 d f)
      then show ?thesis
        using recoverable_stored [OF assms(1) 2(1) _ ok(2) re] assms(1) ok(3)
        by (cases rule: append_outcomes [OF 2(1), of now io]) auto
    qed (simp add: assms(1))
  qed
qed

interpretation recovery: machine "lg_exec c" replayable "recoverable c" for c
  by unfold_locales (rule recoverable_exec)

section \<open>Reopening\<close>

text \<open>The reservation loop adds what every pending call owes.\<close>

lemma reserve_pending_ok:
  assumes "\<forall>p \<in> set ps. map_of tb (ev_TenantID (snd p)) \<noteq> None"
    "\<forall>p \<in> set ps. \<exists>q. tenantQuota limits (ev_TenantID (snd p)) = Ok q \<and>
       usage_of tb (ev_TenantID (snd p)) + reserve_of ps (ev_TenantID (snd p)) \<le> q"
  shows "\<exists>tb'. reserve_pending limits ps tb n = Ok (tb', n + reserve_total ps) \<and> map fst tb' = map fst tb \<and>
    (\<forall>t. usage_of tb' t = usage_of tb t + reserve_of ps t)"
  using assms
proof (induction ps arbitrary: tb n)
  case Nil
  then show ?case by (simp add: reserve_total_def reserve_of_def)
next
  case (Cons p ps)
  obtain k e where p: "p = (k, e)" by (cases p)
  let ?t = "ev_TenantID e" and ?tb = "AList.update (ev_TenantID e) (usage_of tb (ev_TenantID e) + pendingReservation e) tb"
  have split: "reserve_of (p # ps) t = (if t = ?t then pendingReservation e else 0) + reserve_of ps t" for t
    by (simp add: reserve_of_def p)
  obtain q where q: "tenantQuota limits ?t = Ok q" "usage_of tb ?t + reserve_of (p # ps) ?t \<le> q"
    using Cons.prems(2) p by auto
  have add: "addTenantUsage tb ?t (pendingReservation e) limits = Ok ?tb"
    using q Cons.prems(1) p split [of ?t] reserve_nonneg(2) [of ps ?t] pendingReservation_pos(1) [of e] by (auto simp: addTenantUsage_def)
  have keys: "map fst ?tb = map fst tb"
  proof -
    have "map_of tb ?t \<noteq> None" using Cons.prems(1) p by simp
    then have "?t \<in> set (map fst tb)" by (simp add: map_of_eq_None_iff)
    then show ?thesis by (simp add: update_keys)
  qed
  have "\<forall>p \<in> set ps. map_of ?tb (ev_TenantID (snd p)) \<noteq> None" using Cons.prems(1) by (auto simp: update_conv')
  moreover have "\<forall>p' \<in> set ps. \<exists>q. tenantQuota limits (ev_TenantID (snd p')) = Ok q \<and>
      usage_of ?tb (ev_TenantID (snd p')) + reserve_of ps (ev_TenantID (snd p')) \<le> q"
  proof
    fix p' assume "p' \<in> set ps"
    then obtain q' where "tenantQuota limits (ev_TenantID (snd p')) = Ok q'"
      "usage_of tb (ev_TenantID (snd p')) + reserve_of (p # ps) (ev_TenantID (snd p')) \<le> q'" using Cons.prems(2) by auto
    then show "\<exists>q. tenantQuota limits (ev_TenantID (snd p')) = Ok q \<and>
      usage_of ?tb (ev_TenantID (snd p')) + reserve_of ps (ev_TenantID (snd p')) \<le> q"
      by (auto simp: split usage_of_update)
  qed
  ultimately obtain tb' where "reserve_pending limits ps ?tb (n + pendingReservation e) = Ok (tb', n + pendingReservation e + reserve_total ps)"
    "map fst tb' = map fst ?tb" "\<forall>t. usage_of tb' t = usage_of ?tb t + reserve_of ps t"
    using Cons.IH [of ?tb "n + pendingReservation e"] by blast
  then show ?case using add keys by (auto simp: p reserve_total_def split [unfolded p] usage_of_update)
qed

lemma same_usage: 
  assumes "map fst xs = map fst ys" "distinct (map fst xs)" "\<And>t. usage_of xs t = usage_of ys t"
  shows "xs = ys"
proof (rule nth_equalityI)
  show len: "length xs = length ys" using assms(1) by (metis length_map)
  fix i assume i: "i < length xs"
  have k: "fst (xs ! i) = fst (ys ! i)" using assms(1) i len by (metis nth_map)
  have "map_of xs (fst (xs ! i)) = Some (snd (xs ! i))" "map_of ys (fst (ys ! i)) = Some (snd (ys ! i))"
    using i len assms(1,2) by (simp_all add: map_of_eq_Some_iff)
  then have "snd (xs ! i) = snd (ys ! i)" using assms(3) [of "fst (xs ! i)"] k by (simp add: usage_of_def)
  with k show "xs ! i = ys ! i" by (rule prod_eqI)
qed

definition reopen :: "crypto \<Rightarrow> Log \<Rightarrow> Log result" where
  "reopen c l = open_content c (lg_private l) (lg_nodeID l) (lg_epoch l) (lg_limits l) None (lg_disk l)"

lemma reopen_mirrored:
  assumes "recoverable c l"
  shows "reopen c l = Ok (l\<lparr>lg_open := True\<rparr>)"
proof -
  obtain raws r where m: "lg_disk l = disk_of raws" "\<forall>raw \<in> set raws. clean_line raw" "replays_to c l raws r"
    "lg_next l = of_nat (length raws) + 1" "rp_history r = history_of l" "rp_inferenceCounts r = lg_inferenceCounts l"
    "map fst (rp_tenantBytes r) = map fst (lg_tenantBytes l)"
    "\<And>t. usage_of (lg_tenantBytes l) t = usage_of (rp_tenantBytes r) t + reserve_of (lg_pending l) t"
    using assms by (auto simp: recoverable_def mirrored_def mirrored_by_def)
  have inv: "ledger_inv c l" "\<not> lg_failed l" using assms by (simp_all add: recoverable_def ledger_good_def)
  have ids: "lg_public l = ed_public c (lg_private l)" "lg_keyID l = cl_KeyID c (lg_public l)"
    using inv(1) by (simp_all add: ledger_inv_def identity_ok_def)
  have ch: "within_quotas (lg_limits l) (lg_tenantBytes l)" "lg_reserved l = reserve_total (lg_pending l)"
    "\<And>t. reserve_of (lg_pending l) t \<le> usage_of (lg_tenantBytes l) t"
    using inv(1) by (simp_all add: ledger_inv_def charges_ok_def)
  have dp: "distinct (map fst (lg_pending l))" using inv(1) by (simp add: ledger_inv_def calls_ok_def)
  have known: "\<exists>n. map_of (lg_tenantBytes l) (ev_TenantID (snd p)) = Some n" if "p \<in> set (lg_pending l)" for p
  proof -
    have "map_of (lg_pending l) (fst p) = Some (snd p)" using that dp by (simp add: map_of_eq_Some_iff)
    then have "0 < usage_of (lg_tenantBytes l) (ev_TenantID (snd p))"
      using reserve_of_pending(1) [of "lg_pending l" "fst p" "snd p"] ch(3) [of "ev_TenantID (snd p)"] pendingReservation_pos(1) [of "snd p"] by simp
    then show ?thesis by (auto simp: usage_of_def split: option.splits)
  qed
  have "\<exists>tb'. reserve_pending (lg_limits l) (lg_pending l) (rp_tenantBytes r) 0 = Ok (tb', 0 + reserve_total (lg_pending l)) \<and>
      map fst tb' = map fst (rp_tenantBytes r) \<and> (\<forall>t. usage_of tb' t = usage_of (rp_tenantBytes r) t + reserve_of (lg_pending l) t)"
  proof (rule reserve_pending_ok; rule ballI)
    fix p assume p: "p \<in> set (lg_pending l)"
    let ?t = "ev_TenantID (snd p)"
    obtain n where n: "map_of (lg_tenantBytes l) ?t = Some n" using known [OF p] by blast
    then show "map_of (rp_tenantBytes r) ?t \<noteq> None" using same_keys_None [OF m(7), of ?t] by simp
    from n have "(?t, n) \<in> set (lg_tenantBytes l)" by (rule map_of_SomeD)
    then show "\<exists>q. tenantQuota (lg_limits l) ?t = Ok q \<and> usage_of (rp_tenantBytes r) ?t + reserve_of (lg_pending l) ?t \<le> q"
      using ch(1) m(8) [of ?t] n by (fastforce simp: within_quotas_def usage_of_def)
  qed
  then obtain tb' where tb: "reserve_pending (lg_limits l) (lg_pending l) (rp_tenantBytes r) 0 = Ok (tb', lg_reserved l)"
    "map fst tb' = map fst (lg_tenantBytes l)" "\<And>t. usage_of tb' t = usage_of (lg_tenantBytes l) t"
    using m(7,8) ch(2) by auto
  have "tb' = lg_tenantBytes l"
    using same_usage [OF tb(2) _ tb(3)] ch(1) tb(2) by (simp add: within_quotas_def)
  then show ?thesis
    using m tb(1) ids inv(2) ledger_room [OF inv]
    by (simp add: reopen_def open_content_def verifyFile_disk replays_to_def history_of_def Let_def)
qed

end
