(* ===== verification/Ledger_Reopen.thy ===== *)
theory Ledger_Reopen
  imports Ledger_Recovery
begin

text \<open>
  What \<open>OpenWithLimits\<close>, \<open>ValidateWithLimits\<close> and \<open>VerifyRecords\<close> return for files: a file written by a handle gives that
  handle back, a write that was cut short is found, validation agrees with opening, every file that opens satisfies the
  invariant of the handle, and the head of a ledger determines its lines.
\<close>

section \<open>Files that can be opened\<close>

text \<open>An owner-only regular file with the given content, and no failing system call.\<close>

definition serves :: "open_env \<Rightarrow> bytes \<Rightarrow> bool" where
  "serves env content \<longleftrightarrow>
     (case oe_lstat env of Present info \<Rightarrow> fi_regular info \<and> and (fi_perm info) 63 = 0 \<and> fi_content info = content | _ \<Rightarrow> False) \<and>
     oe_opens env \<and> oe_lock env = LockTaken \<and> oe_unchanged env \<and> oe_reads env"

lemma serves_info:
  assumes "serves env content"
  obtains info where "oe_lstat env = Present info" "fi_regular info" "and (fi_perm info) 63 = 0" "fi_content info = content"
    "oe_opens env" "oe_lock env = LockTaken" "oe_unchanged env" "oe_reads env"
  using assms by (auto simp: serves_def split: lstat.splits)

definition arguments_ok :: "bytes \<Rightarrow> bytes \<Rightarrow> bytes \<Rightarrow> u64 \<Rightarrow> Limits \<Rightarrow> bool" where
  "arguments_ok path private nodeID epoch limits \<longleftrightarrow>
     validPath path \<and> length private = 64 \<and> cl_validText nodeID 256 \<and> epoch \<noteq> 0 \<and> lm_Validate limits = Ok ()"

lemma OpenWithLimits_arguments: "OpenWithLimits c env path private nodeID epoch limits visit = Ok l \<Longrightarrow> arguments_ok path private nodeID epoch limits"
  by (auto simp: OpenWithLimits_def arguments_ok_def and_then_Inr_iff split: if_splits)

lemma OpenWithLimits_served:
  assumes "serves env content" "arguments_ok path private nodeID epoch limits"
  shows "OpenWithLimits c env path private nodeID epoch limits visit =
    (if int (length content) > MaxLogBytes then errorf ''connector ledger must be a bounded owner-only regular file''
     else open_content c private nodeID epoch limits visit content)"
proof -
  obtain info where "oe_lstat env = Present info" "fi_regular info" "and (fi_perm info) 63 = 0" "fi_content info = content"
    "oe_opens env" "oe_lock env = LockTaken" "oe_unchanged env" "oe_reads env"
    by (rule serves_info [OF assms(1)])
  then show ?thesis using assms(2) by (simp add: OpenWithLimits_def arguments_ok_def validFileInfo_def)
qed

lemma OpenWithLimits_missing:
  "OpenWithLimits c env path private nodeID epoch limits visit = Ok l \<Longrightarrow> oe_lstat env = Missing \<Longrightarrow>
   open_content c private nodeID epoch limits visit [] = Ok l"
  by (auto simp: OpenWithLimits_def and_then_Inr_iff split: if_splits flock.splits)

section \<open>The identity of a handle\<close>

definition identity_of :: "Log \<Rightarrow> bytes \<times> bytes \<times> u64 \<times> Limits" where
  "identity_of l = (lg_private l, lg_nodeID l, lg_epoch l, lg_limits l)"

lemma record_line_identity [simp]: "identity_of (record_line c l r raw res u) = identity_of l"
  by (simp add: identity_of_def)

lemma ledger_step_identity: "ledger_step c l l' \<Longrightarrow> identity_of l' = identity_of l"
  by (induction rule: ledger_step.induct)
    (auto simp: stored_def poisoned_def identity_of_def call_begun_def call_dispatched_def call_finished_def Let_def)

lemma lg_exec_identity: "identity_of (fst (lg_exec c call l)) = identity_of l"
  using lg_exec_steps [of c l call] ledger_step_identity by (auto simp: stays_or_steps_def)

interpretation naming: machine "lg_exec c" "\<lambda>_. True" "\<lambda>l. identity_of l = i" for c i
  by unfold_locales (simp add: lg_exec_identity)

definition new_ledger :: "crypto \<Rightarrow> bytes \<Rightarrow> bytes \<Rightarrow> u64 \<Rightarrow> Limits \<Rightarrow> Log" where
  "new_ledger c private nodeID epoch limits =
     \<lparr>lg_open = True, lg_disk = [], lg_private = private, lg_public = ed_public c private, lg_nodeID = nodeID,
      lg_epoch = epoch, lg_keyID = cl_KeyID c (ed_public c private), lg_next = 1, lg_last = zeroHash,
      lg_failed = False, lg_reserved = 0, lg_pending = [], lg_spent = {}, lg_taskHeads = Map.empty, lg_runOwners = Map.empty,
      lg_limits = limits, lg_tenantBytes = [], lg_inferenceCounts = (\<lambda>_. 0)\<rparr>"

lemma open_empty: "open_content c private nodeID epoch limits None [] = Ok (new_ledger c private nodeID epoch limits)"
  by (simp add: open_content_def verifyFile_def file_lines_def start_replay_def empty_history_def start_head_def
      new_ledger_def MaxLogBytes_def Let_def)

lemma new_ledger_recoverable:
  assumes "crypto_ok c" "limits_ok limits" "length private = 64" "cl_validText nodeID 256"
  shows "recoverable c (new_ledger c private nodeID epoch limits)"
proof -
  have "0 \<le> lm_MaxTenants limits" if "lm_TenantBudgets limits = None"
    using limits_ok_uniform(1) [OF assms(2) that] by simp
  then have "ledger_good c (new_ledger c private nodeID epoch limits)"
    using assms zeroHash_digest
    by (simp add: ledger_good_def ledger_inv_def identity_ok_def charges_ok_def calls_ok_def new_ledger_def within_quotas_def
        reserve_total_def reserve_of_def usage_of_def)
  moreover have "mirrored_by c (new_ledger c private nodeID epoch limits) [] start_replay"
    by (simp add: mirrored_by_def new_ledger_def disk_of_def replays_to_def start_head_def start_replay_def empty_history_def
        history_of_def reserve_of_def usage_of_def)
  ultimately show ?thesis by (auto simp: recoverable_def mirrored_def new_ledger_def)
qed

text \<open>A run of unambiguous calls on a new ledger.\<close>

lemma new_run:
  assumes "crypto_ok c" "OpenWithLimits c env path private nodeID epoch limits None = Ok l0" "oe_lstat env = Missing"
    "\<forall>bs. lm_TenantBudgets limits = Some bs \<longrightarrow> distinct (map fst bs)" "\<forall>call \<in> set calls. replayable call"
  shows "arguments_ok path private nodeID epoch limits" "recoverable c (final_state (lg_exec c) calls l0)"
    "identity_of (final_state (lg_exec c) calls l0) = (private, nodeID, epoch, limits)"
proof -
  show args: "arguments_ok path private nodeID epoch limits" by (rule OpenWithLimits_arguments [OF assms(2)])
  have l0: "l0 = new_ledger c private nodeID epoch limits"
    using OpenWithLimits_missing [OF assms(2,3)] by (simp add: open_empty)
  have "limits_ok limits" using args assms(4) by (auto simp: arguments_ok_def limits_ok_def split: option.splits)
  then have "recoverable c l0"
    unfolding l0 using args by (intro new_ledger_recoverable [OF assms(1)]) (simp_all add: arguments_ok_def)
  then show "recoverable c (final_state (lg_exec c) calls l0)" by (rule recovery.run_inv [OF _ assms(5)])
  have "identity_of l0 = (private, nodeID, epoch, limits)" by (simp add: l0 identity_of_def new_ledger_def)
  then show "identity_of (final_state (lg_exec c) calls l0) = (private, nodeID, epoch, limits)" by (rule naming.run_inv) simp
qed

lemma reopen_served:
  assumes "serves env (lg_disk l)" "arguments_ok path private nodeID epoch limits" "identity_of l = (private, nodeID, epoch, limits)"
    "recoverable c l"
  shows "OpenWithLimits c env path private nodeID epoch limits None = Ok (l\<lparr>lg_open := True\<rparr>)"
proof -
  have "int (length (lg_disk l)) \<le> MaxLogBytes"
    using ledger_room [of c l] reserve_nonneg(1) [of "lg_pending l"] assms(4)
    by (simp add: recoverable_def ledger_good_def ledger_inv_def charges_ok_def)
  then show ?thesis
    using OpenWithLimits_served [OF assms(1,2), of c None] reopen_mirrored [OF assms(4)] assms(3)
    by (simp add: reopen_def identity_of_def)
qed

section \<open>Writes that are cut short\<close>

text \<open>An append that reaches its write, and what the failures leave on disk.\<close>

lemma append_failures:
  obtains (refused) "\<And>io. \<exists>err. appendLocked c now io l e d = (l, Inl err)"
  | (written) raw reserved usage where "stored c l now e d (record_line c l (receipt_for l now e) raw reserved usage)"
    "appendLocked c now IoOk l e d = (record_line c l (receipt_for l now e) raw reserved usage, Ok (headLocked (record_line c l (receipt_for l now e) raw reserved usage)))"
    "\<And>n. appendLocked c now (WriteFailed n) l e d = (l\<lparr>lg_disk := lg_disk l @ take n (raw @ [CHR 0x0A]), lg_failed := True\<rparr>, errorf ''write'')"
    "appendLocked c now SyncFailed l e d = (l\<lparr>lg_disk := lg_disk l @ raw @ [CHR 0x0A], lg_failed := True\<rparr>, errorf ''sync'')"
    "\<exists>err. appendLocked c now StatFailed l e d = (l, Inl err)"
proof (cases "\<exists>l1. stored c l now e d l1")
  case True
  then obtain raw reserved usage where s: "lg_open l" "\<not> lg_failed l" "next_receipt l now e = Ok (receipt_for l now e)"
    "sealed_line c l (receipt_for l now e) = Ok raw" "admit_usage l e d (length raw + 1) = Ok (reserved, usage)"
    by (auto simp: stored_def)
  show ?thesis
    by (rule written [of raw reserved usage]) (use s in \<open>auto simp: stored_def appendLocked_def Let_def errorf_def\<close>)
next
  case False
  have "\<exists>err. appendLocked c now io l e d = (l, Inl err)" for io
  proof (cases "lg_open l \<and> \<not> lg_failed l \<and> next_receipt l now e = Ok (receipt_for l now e)")
    case True
    then show ?thesis
      using False by (cases "sealed_line c l (receipt_for l now e)"; cases "admit_usage l e d (length (projr (sealed_line c l (receipt_for l now e))) + 1)")
        (auto simp: appendLocked_def stored_def errorf_def)
  next
    case f: False
    then show ?thesis by (cases "next_receipt l now e") (auto simp: appendLocked_def errorf_def next_receipt_Ok_iff)
  qed
  then show ?thesis by (rule refused)
qed

lemma torn_line:
  assumes "clean_line raw" "0 < n" "n \<le> length raw"
  shows "open_content c private nodeID epoch limits visit (bs @ take n (raw @ [CHR 0x0A])) = errorf ''connector ledger has an incomplete final record''"
proof -
  have "take n raw \<noteq> []" using assms by (auto simp: clean_line_def)
  moreover have "last (take n raw) \<in> set raw" using calculation by (meson in_set_takeD last_in_set)
  ultimately show ?thesis
    using assms(3) clean_no_newline [OF assms(1)] by (auto simp: open_content_def verifyFile_def Let_def errorf_def)
qed

text \<open>The outcomes of reopening after the last call was interrupted.\<close>

definition crash_outcomes :: "crypto \<Rightarrow> ledger_op \<Rightarrow> time \<Rightarrow> Log \<Rightarrow> Log result set" where
  "crash_outcomes c op now l =
     {Ok (l\<lparr>lg_open := True\<rparr>), Ok ((fst (lg_exec c (op, now, IoOk) l))\<lparr>lg_open := True\<rparr>),
      errorf ''connector ledger has an incomplete final record''}"

lemma crash_append:
  assumes "recoverable c l" "prepared c l e d f" "sane_clock now" "readable e"
    "\<And>io. lg_exec c (op, now, io) l = then_update (appendLocked c now io l e d) f"
    "identity_of l = (private, nodeID, epoch, limits)" "arguments_ok path private nodeID epoch limits"
    "serves env (lg_disk (fst (lg_exec c (op, now, io) l)))"
  shows "OpenWithLimits c env path private nodeID epoch limits None \<in> crash_outcomes c op now l"
proof (cases rule: append_failures [of c now l e d])
  case refused
  obtain err where "appendLocked c now io l e d = (l, Inl err)" using refused by blast
  then have "fst (lg_exec c (op, now, io) l) = l" by (simp add: assms(5) then_update_def)
  then show ?thesis using reopen_served [OF _ assms(7,6,1)] assms(8) by (simp add: crash_outcomes_def)
next
  case (written raw reserved usage)
  let ?l1 = "record_line c l (receipt_for l now e) raw reserved usage"
  have g: "ledger_good c l" using assms(1) by (simp add: recoverable_def)
  obtain raw' where "sealed_line c l (receipt_for l now e) = Ok raw'" "clean_line raw'"
    using stored_read [OF g assms(3) prepared_valid [OF assms(2)] written(1)] by metis
  then have clean: "clean_line raw" using written(1) by (auto simp: stored_def dest: arg_cong [of _ _ lg_disk])
  note full = recoverable_stored [OF assms(1,2) written(1) assms(3,4)]
  have ok: "fst (lg_exec c (op, now, IoOk) l) = f ?l1" by (simp add: assms(5) written(2) then_update_def)
  have disk: "lg_disk (f ?l1) = lg_disk l @ raw @ [CHR 0x0A]" using prepared_frame(1) [OF assms(2)] by simp
  have id1: "identity_of (f ?l1) = (private, nodeID, epoch, limits)"
    using ledger_step_identity [OF prepared_step [OF assms(2) written(1)]] assms(6) by simp
  have whole: "OpenWithLimits c env path private nodeID epoch limits None \<in> crash_outcomes c op now l" if "serves env (lg_disk l @ raw @ [CHR 0x0A])"
    using reopen_served [OF _ assms(7) id1 full] that by (simp add: disk ok crash_outcomes_def)
  have before: "OpenWithLimits c env path private nodeID epoch limits None \<in> crash_outcomes c op now l" if "serves env (lg_disk l)"
    using reopen_served [OF that assms(7,6,1)] by (simp add: crash_outcomes_def)
  have size: "int (length (lg_disk l @ raw @ [CHR 0x0A])) \<le> MaxLogBytes"
    using ledger_room [of c "f ?l1"] reserve_nonneg(1) [of "lg_pending (f ?l1)"] full disk
    by (simp add: recoverable_def ledger_good_def ledger_inv_def charges_ok_def)
  show ?thesis
  proof (cases io)
    case IoOk
    then show ?thesis using whole assms(8) by (simp add: ok disk)
  next
    case StatFailed
    obtain err where "appendLocked c now StatFailed l e d = (l, Inl err)" using written(5) by blast
    then have "serves env (lg_disk l)" using StatFailed assms(8) by (simp add: assms(5) then_update_def)
    then show ?thesis by (rule before)
  next
    case SyncFailed
    then show ?thesis using whole assms(8) by (simp add: assms(5) written(4) then_update_def errorf_def)
  next
    case (WriteFailed n)
    then have s: "serves env (lg_disk l @ take n (raw @ [CHR 0x0A]))"
      using assms(8) by (simp add: assms(5) written(3) then_update_def errorf_def)
    consider "n = 0" | "0 < n" "n \<le> length raw" | "length raw < n" by linarith
    then show ?thesis
    proof cases
      case 2
      have "length (take n (raw @ [CHR 0x0A])) \<le> length (raw @ [CHR 0x0A])" by simp
      then have "\<not> MaxLogBytes < int (length (lg_disk l @ take n (raw @ [CHR 0x0A])))" using size by (simp del: length_take)
      then show ?thesis
        using OpenWithLimits_served [OF s assms(7), of c None] torn_line [OF clean 2] by (simp add: crash_outcomes_def)
    qed (use s before whole in simp_all)
  qed
qed

section \<open>Receipts the reader refuses\<close>

lemma unreadable_reopen:
  assumes "recoverable c l" "validateEvent c e = Ok ()" "sane_clock now" "stored c l now e d l1" "\<not> readable e"
  shows "open_content c (lg_private l) (lg_nodeID l) (lg_epoch l) (lg_limits l) None (lg_disk l1) =
    errorf ''connector receipt schema does not match its permit fields''"
proof -
  have g: "ledger_good c l" using assms(1) by (simp add: recoverable_def)
  obtain raws r where m: "lg_disk l = disk_of raws" "\<forall>raw \<in> set raws. clean_line raw" "replays_to c l raws r"
    "lg_next l = of_nat (length raws) + 1"
    using assms(1) by (auto simp: recoverable_def mirrored_def mirrored_by_def)
  obtain raw reserved usage where s: "l1 = record_line c l (receipt_for l now e) raw reserved usage" "clean_line raw"
    "\<And>n previous. read_line c (lg_public l) (lg_nodeID l) (lg_epoch l) n previous raw =
       and_then (validateReceipt c (receipt_for l now e) (receipt_version e) (lg_nodeID l) (lg_epoch l) (of_nat n) previous)
         (\<lambda>_. Ok (record_of c l now e raw))"
    using stored_read [OF g assms(3,2,4)] by metis
  have n: "of_nat (Suc (length raws)) = lg_next l" by (simp add: m(4))
  have "validateReceipt c (receipt_for l now e) (receipt_version e) (lg_nodeID l) (lg_epoch l) (lg_next l) (lg_last l) =
      errorf ''connector receipt schema does not match its permit fields''"
    using assms(3,5) observed_ok_format by (simp add: validateReceipt_def receipt_for_def readable_def)
  then have rd: "read_line c (lg_public l) (lg_nodeID l) (lg_epoch l) (Suc (length raws)) (lg_last l) raw =
      errorf ''connector receipt schema does not match its permit fields''"
    unfolding s(3) n by (simp add: errorf_def)
  have p: "lg_public l = ed_public c (lg_private l)" using g by (simp add: ledger_good_def ledger_inv_def identity_ok_def)
  have "lg_disk l1 = disk_of (raws @ [raw])" by (simp add: s(1) m(1) disk_of_snoc)
  then show ?thesis
    using m(2,3) s(2) rd p drop_cr_clean [OF s(2)]
    by (simp add: open_content_def verifyFile_disk verify_lines_append replays_to_def Let_def errorf_def clean_line_def)
qed

section \<open>Properties\<close>

text \<open>C2: Reopening a ledger gives the handle back. Start from a ledger that \<open>OpenWithLimits\<close> created, run any operations whose
  system calls are not ambiguous, on events the reader accepts and a sane clock, and open the resulting file with the same
  key, node, epoch and limits: the new handle equals the old one in every field (pending calls, spent tasks, task
  heads, run owners, charges, reservation, inference counts, next sequence, chain hash), open again.\<close>

theorem reopen_exact:
  assumes "crypto_ok c" "OpenWithLimits c env0 path private nodeID epoch limits None = Ok l0" "oe_lstat env0 = Missing"
    "\<forall>bs. lm_TenantBudgets limits = Some bs \<longrightarrow> distinct (map fst bs)" "\<forall>call \<in> set calls. replayable call"
    "serves env (lg_disk (final_state (lg_exec c) calls l0))"
  shows "OpenWithLimits c env path private nodeID epoch limits None = Ok ((final_state (lg_exec c) calls l0)\<lparr>lg_open := True\<rparr>)"
  using new_run [OF assms(1-5)] by (intro reopen_served [OF assms(6)])

definition demo_env :: "lstat \<Rightarrow> open_env" where
  "demo_env found = \<lparr>oe_lstat = found, oe_opens = True, oe_lock = LockTaken, oe_prepared = True, oe_unchanged = True, oe_reads = True\<rparr>"

definition demo_file :: "bytes \<Rightarrow> lstat" where
  "demo_file content = Present \<lparr>fi_regular = True, fi_perm = 384, fi_content = content\<rparr>"

lemma demo_serves: "serves (demo_env (demo_file content)) content"
  by (simp add: serves_def demo_env_def demo_file_def)

lemma demo_opened: "OpenWithLimits demo_crypto (demo_env Missing) ''/ledger'' demo_key ''node'' 1 DefaultLimits None = Ok demo_log"
proof -
  have "lm_Validate DefaultLimits = Ok ()" using DefaultLimits_ok by (simp add: limits_ok_def)
  then show ?thesis
    using demo_node
    by (simp add: OpenWithLimits_def demo_env_def validPath_def contains_nul_def open_empty new_ledger_def demo_log_def)
qed

lemma demo_readable: "readable demo_call"
  by (simp add: readable_def demo_call_def receipt_version_def schema_matches_def)

theorem reopen_exact_witness:
  "let l = final_state (lg_exec demo_crypto) [(Op_Begin demo_call, 0, IoOk), (Op_Close False, 0, IoOk)] demo_log
   in OpenWithLimits demo_crypto (demo_env (demo_file (lg_disk l))) ''/ledger'' demo_key ''node'' 1 DefaultLimits None = Ok (l\<lparr>lg_open := True\<rparr>)"
proof -
  have "\<forall>call \<in> set [(Op_Begin demo_call, 0, IoOk), (Op_Close False, 0, IoOk)]. replayable call"
    using demo_clock demo_readable by (simp add: replayable_def op_readable_def op_event_def)
  from reopen_exact [OF _ demo_opened _ _ this demo_serves] show ?thesis
    by (simp add: demo_env_def DefaultLimits_def Let_def del: final_state_Cons)
qed

text \<open>C5: A crash cannot make up a history. On a newly created ledger, run any calls on events that the reader accepts, with a sane clock and
  without an ambiguous write, and let one more call, again on an event that the reader accepts and with a sane clock, fail anywhere: in
  \<open>Stat\<close>, after any prefix of the line, or in \<open>Sync\<close>. Opening the file with the same key, node, epoch and limits then gives the handle
  before the call, the handle the call would have produced, or the error about an incomplete final record; nothing else.\<close>

theorem crash_atomic:
  assumes "crypto_ok c" "OpenWithLimits c env0 path private nodeID epoch limits None = Ok l0" "oe_lstat env0 = Missing"
    "\<forall>bs. lm_TenantBudgets limits = Some bs \<longrightarrow> distinct (map fst bs)" "\<forall>call \<in> set calls. replayable call"
    "op_readable op" "sane_clock now"
    "serves env (lg_disk (fst (lg_exec c (op, now, io) (final_state (lg_exec c) calls l0))))"
  shows "OpenWithLimits c env path private nodeID epoch limits None \<in>
    {Ok ((final_state (lg_exec c) calls l0)\<lparr>lg_open := True\<rparr>),
     Ok ((fst (lg_exec c (op, now, IoOk) (final_state (lg_exec c) calls l0)))\<lparr>lg_open := True\<rparr>),
     errorf ''connector ledger has an incomplete final record''}"
proof -
  let ?l = "final_state (lg_exec c) calls l0"
  note r = new_run [OF assms(1-5)]
  have "OpenWithLimits c env path private nodeID epoch limits None \<in> crash_outcomes c op now ?l"
  proof (cases "op_event op")
    case None
    then have "lg_disk (fst (lg_exec c (op, now, io) ?l)) = lg_disk ?l"
      by (auto simp: op_event_def lg_Close_def split: ledger_op.splits)
    then show ?thesis using reopen_served [OF _ r(1,3,2)] assms(8) by (simp add: crash_outcomes_def)
  next
    case (Some e)
    then have re: "readable e" using assms(6) by (simp add: op_readable_def)
    consider err where "\<And>io. lg_exec c (op, now, io) ?l = (?l, Inl err)"
      | d f where "prepared c ?l e d f" "\<And>io. lg_exec c (op, now, io) ?l = then_update (appendLocked c now io ?l e d) f"
      using lg_exec_one_append [OF Some, of c ?l now] by (auto simp: one_append_def)
    then show ?thesis
    proof cases
      case 1
      then show ?thesis using reopen_served [OF _ r(1,3,2)] assms(8) by (simp add: crash_outcomes_def)
    next
      case (2 d f)
      then show ?thesis by (rule crash_append [OF r(2) _ assms(7) re _ r(3,1) assms(8)])
    qed
  qed
  then show ?thesis by (simp add: crash_outcomes_def)
qed

theorem crash_atomic_witness:
  "\<exists>n r. 0 < n \<and> r = OpenWithLimits demo_crypto (demo_env (demo_file (lg_disk (fst (lg_exec demo_crypto (Op_Begin demo_call, 0, WriteFailed n) demo_log)))))
       ''/ledger'' demo_key ''node'' 1 DefaultLimits None \<and>
     r \<in> {Ok demo_log, Ok ((fst (lg_exec demo_crypto (Op_Begin demo_call, 0, IoOk) demo_log))\<lparr>lg_open := True\<rparr>),
       errorf ''connector ledger has an incomplete final record''}"
proof -
  have o: "demo_log\<lparr>lg_open := True\<rparr> = demo_log" by (simp add: demo_log_def)
  have "op_readable (Op_Begin demo_call)" using demo_readable by (simp add: op_readable_def op_event_def)
  from crash_atomic [OF _ demo_opened _ _ _ this demo_clock demo_serves, of "[]" "WriteFailed 1"] show ?thesis
    by (intro exI [of _ 1]) (simp add: demo_env_def DefaultLimits_def o del: lg_exec.simps)
qed

definition unreadable_denial :: Event where
  "unreadable_denial = demo_denial\<lparr>ev_InfluenceHash := hex_body ''sha256:''\<rparr>"

lemma demo_denied:
  obtains l1 where "stored demo_crypto demo_log 0 unreadable_denial 0 l1"
    "Append demo_crypto 0 IoOk demo_log unreadable_denial = (l1, Ok (headLocked l1))" "validateEvent demo_crypto unreadable_denial = Ok ()"
proof -
  have v: "validateEvent demo_crypto unreadable_denial = Ok ()"
    using demo_identity by (simp add: event_checks unreadable_denial_def demo_denial_def demo_call_def kinds_distinct(7-9) [symmetric])
  have f: "ev_Phase unreadable_denial = Deny" "ev_TenantID unreadable_denial = ''tenant''" "ev_TaskProtocol unreadable_denial = []"
    by (simp_all add: unreadable_denial_def demo_denial_def)
  have "has_slice demo_log ''tenant'' (int MaxLineBytes + 1)" using slice_mono [OF demo_slice] minimumTenantBytes_pos by simp
  then obtain q where q: "tenantQuota (lg_limits demo_log) ''tenant'' = Ok q"
    "usage_of (lg_tenantBytes demo_log) ''tenant'' + (int MaxLineBytes + 1) \<le> q" by (auto simp: has_slice_def)
  have "\<exists>r u. admit_usage demo_log unreadable_denial 0 n = Ok (r, u)" if "n \<le> MaxLineBytes + 1" for n
    using admit_within_slice [OF demo_log_good, of 0 unreadable_denial q n] q that
    by (simp add: f demo_log_def DefaultLimits_def DefaultMaxTenants_def)
  then obtain l1 where "stored demo_crypto demo_log 0 unreadable_denial 0 l1"
      "appendLocked demo_crypto 0 IoOk demo_log unreadable_denial 0 = (l1, Ok (headLocked l1))"
    by (rule_tac append_accepted [OF demo_log_good _ _ demo_clock v]) (simp_all add: demo_log_def f)
  then show ?thesis using that v f by (simp add: Append_def)
qed

text \<open>C12: The writer accepts receipts that the reader refuses. A valid denial of a connector call in the oldest format that carries an
  influence hash is appended, with success, as a version 7 receipt; opening the resulting file fails, because version 7
  requires an authorized connector call, so the ledger can no longer be used.\<close>

theorem unreadable_receipt:
  "validateEvent demo_crypto unreadable_denial = Ok () \<and>
   (\<exists>l h. Append demo_crypto 0 IoOk demo_log unreadable_denial = (l, Ok h) \<and>
      OpenWithLimits demo_crypto (demo_env (demo_file (lg_disk l))) ''/ledger'' demo_key ''node'' 1 DefaultLimits None =
        errorf ''connector receipt schema does not match its permit fields'')"
proof -
  obtain l1 where l1: "stored demo_crypto demo_log 0 unreadable_denial 0 l1"
    "Append demo_crypto 0 IoOk demo_log unreadable_denial = (l1, Ok (headLocked l1))" "validateEvent demo_crypto unreadable_denial = Ok ()"
    by (rule demo_denied)
  have args: "arguments_ok ''/ledger'' demo_key ''node'' 1 DefaultLimits" by (rule OpenWithLimits_arguments [OF demo_opened])
  have rec: "recoverable demo_crypto demo_log"
    using new_run(2) [OF _ demo_opened, of "[]"] by (simp add: demo_env_def DefaultLimits_def)
  have "\<not> readable unreadable_denial"
    by (simp add: readable_def unreadable_denial_def demo_denial_def demo_call_def receipt_version_def schema_matches_def
        kinds_distinct(7-9) [symmetric])
  note refuse = unreadable_reopen [OF rec l1(3) demo_clock l1(1) this]
  have "int (length (lg_disk l1)) \<le> MaxLogBytes"
    using l1(1) by (auto simp: stored_def admit_usage_Ok_iff)
  then show ?thesis
    using OpenWithLimits_served [OF demo_serves args, of demo_crypto "lg_disk l1" None] refuse l1(2,3) by (simp add: demo_log_def)
qed

end
