(* ===== verification/Ledger_Audit.thy ===== *)
theory Ledger_Audit
  imports Ledger_Reopen
begin

text \<open>
  Files that the handle did not write: whatever content \<open>OpenWithLimits\<close> accepts puts the handle into its invariant,
  \<open>ValidateWithLimits\<close> is the dry run of \<open>OpenWithLimits\<close>, and the head that \<open>VerifyRecords\<close> reports determines every
  line of the file, as long as SHA-256 has no collision among the lines.
\<close>

section \<open>Lines that verify\<close>

lemma read_line_Ok:
  assumes "read_line c public nodeID epoch n previous raw = Ok vr"
  shows "vf_Raw vr = raw" "vf_Hash vr = hashLine c raw" "rc_Sequence (vf_Receipt vr) = of_nat n" "rc_PreviousHash (vf_Receipt vr) = previous"
    "validateEvent c (rc_Event (vf_Receipt vr)) = Ok ()"
  using assms by (auto simp: read_line_def validateReceipt_def and_then_Inr_iff split: if_splits sum.splits prod.splits)

text \<open>The receipt is a function of the line.\<close>

lemma read_line_unique:
  assumes "read_line c public nodeID epoch n previous raw = Ok vr" "read_line c public nodeID epoch m before raw = Ok vr'"
  shows "vr = vr'"
  using assms by (auto simp: read_line_def and_then_Inr_iff split: if_splits sum.splits prod.splits)

text \<open>An invariant of the scanning loop, over the lines that were read.\<close>

lemma verify_lines_inv:
  assumes "verify_lines c public nodeID epoch visit (length ys) head h xs = Ok (head', h')" "P ys head h"
    "\<And>ys head h x vr h'. P ys head h \<Longrightarrow> x \<in> set xs \<Longrightarrow>
       read_line c public nodeID epoch (Suc (length ys)) (hd_ChainHash head) (drop_cr x) = Ok vr \<Longrightarrow> visit vr h = Ok h' \<Longrightarrow>
       P (ys @ [x]) (head\<lparr>hd_Sequence := rc_Sequence (vf_Receipt vr), hd_ChainHash := vf_Hash vr\<rparr>) h'"
  shows "P (ys @ xs) head' h'"
  using assms
proof (induction xs arbitrary: ys head h)
  case (Cons x xs)
  from Cons.prems(1) obtain vr h1 where
    r: "read_line c public nodeID epoch (Suc (length ys)) (hd_ChainHash head) (drop_cr x) = Ok vr" "visit vr h = Ok h1"
    "verify_lines c public nodeID epoch visit (Suc (length ys))
       (head\<lparr>hd_Sequence := rc_Sequence (vf_Receipt vr), hd_ChainHash := vf_Hash vr\<rparr>) h1 xs = Ok (head', h')"
    by (auto simp: and_then_Inr_iff split: if_splits)
  have "P (ys @ [x]) (head\<lparr>hd_Sequence := rc_Sequence (vf_Receipt vr), hd_ChainHash := vf_Hash vr\<rparr>) h1"
    by (rule Cons.prems(3) [OF Cons.prems(2) _ r(1,2)]) simp
  from Cons.IH [of "ys @ [x]", OF _ this] r(3) Cons.prems(3) show ?case by simp
qed simp

lemma verify_lines_head:
  assumes "verify_lines c public nodeID epoch visit 0 (start_head c public nodeID epoch) h xs = Ok (head, h')"
  shows "hd_Sequence head = of_nat (length xs)" "hd_NodeID head = nodeID" "hd_Epoch head = epoch" "hd_KeyID head = cl_KeyID c public"
    "crypto_ok c \<Longrightarrow> cl_digest (hd_ChainHash head)"
proof -
  let ?P = "\<lambda>ys head h. hd_Sequence head = of_nat (length ys) \<and> hd_NodeID head = nodeID \<and> hd_Epoch head = epoch \<and>
    hd_KeyID head = cl_KeyID c public \<and> (crypto_ok c \<longrightarrow> cl_digest (hd_ChainHash head))"
  have "?P ([] @ xs) head h'"
    by (rule verify_lines_inv [where P = ?P, of c public nodeID epoch visit "[]" "start_head c public nodeID epoch" h])
      (use assms read_line_Ok hashLine_digest zeroHash_digest in \<open>auto simp: start_head_def\<close>)
  then show "hd_Sequence head = of_nat (length xs)" "hd_NodeID head = nodeID" "hd_Epoch head = epoch" "hd_KeyID head = cl_KeyID c public"
    "crypto_ok c \<Longrightarrow> cl_digest (hd_ChainHash head)" by auto
qed

lemma verify_lines_last:
  assumes "verify_lines c public nodeID epoch visit 0 (start_head c public nodeID epoch) h (xs @ [x]) = Ok (head, h')"
  obtains head0 h0 vr where "verify_lines c public nodeID epoch visit 0 (start_head c public nodeID epoch) h xs = Ok (head0, h0)"
    "read_line c public nodeID epoch (Suc (length xs)) (hd_ChainHash head0) (drop_cr x) = Ok vr" "hd_ChainHash head = hashLine c (drop_cr x)"
  using assms that read_line_Ok(2) by (fastforce simp: verify_lines_append and_then_Inr_iff split: if_splits)

section \<open>The head pins the lines\<close>

definition hashed_lines :: "bytes list \<Rightarrow> bytes set" where
  "hashed_lines xs = (\<lambda>x. chainDomain @ drop_cr x) ` set xs"

lemma chain_pins:
  assumes "verify_lines c public nodeID epoch visit1 0 (start_head c public nodeID epoch) h1 xs = Ok (head1, r1)"
    "verify_lines c public nodeID epoch visit2 0 (start_head c public nodeID epoch) h2 ys = Ok (head2, r2)"
    "length xs = length ys" "hd_ChainHash head1 = hd_ChainHash head2" "inj_on (sha256 c) (hashed_lines xs \<union> hashed_lines ys)"
  shows "map drop_cr xs = map drop_cr ys"
  using assms
proof (induction xs arbitrary: ys head1 r1 head2 r2 rule: rev_induct)
  case (snoc x xs)
  then obtain y ys' where y: "ys = ys' @ [y]" by (cases ys rule: rev_cases) auto
  obtain a1 b1 vr where p: "verify_lines c public nodeID epoch visit1 0 (start_head c public nodeID epoch) h1 xs = Ok (a1, b1)"
    "read_line c public nodeID epoch (Suc (length xs)) (hd_ChainHash a1) (drop_cr x) = Ok vr" "hd_ChainHash head1 = hashLine c (drop_cr x)"
    by (rule verify_lines_last [OF snoc.prems(1)])
  obtain a2 b2 vr' where q: "verify_lines c public nodeID epoch visit2 0 (start_head c public nodeID epoch) h2 ys' = Ok (a2, b2)"
    "read_line c public nodeID epoch (Suc (length ys')) (hd_ChainHash a2) (drop_cr y) = Ok vr'" "hd_ChainHash head2 = hashLine c (drop_cr y)"
    by (rule verify_lines_last [OF snoc.prems(2) [unfolded y]])
  have "sha256 c (chainDomain @ drop_cr x) = sha256 c (chainDomain @ drop_cr y)"
    using p(3) q(3) snoc.prems(4) by (auto simp: hashLine_def dest: hex_encode_inj)
  then have "chainDomain @ drop_cr x = chainDomain @ drop_cr y"
    using snoc.prems(5) by (elim inj_onD) (auto simp: hashed_lines_def y)
  then have raw: "drop_cr x = drop_cr y" by simp
  then have "vr = vr'" using p(2) q(2) read_line_unique by metis
  then have "hd_ChainHash a1 = hd_ChainHash a2" using read_line_Ok(4) [OF p(2)] read_line_Ok(4) [OF q(2)] by simp
  moreover have "inj_on (sha256 c) (hashed_lines xs \<union> hashed_lines ys')"
    by (rule inj_on_subset [OF snoc.prems(5)]) (auto simp: hashed_lines_def y)
  ultimately have "map drop_cr xs = map drop_cr ys'"
    using snoc.IH [OF p(1) q(1)] snoc.prems(3) y by simp
  then show ?case using raw y by simp
qed simp

lemma file_lines_count: "length (file_lines content) \<le> length content"
proof -
  have "length (split_on d s) \<le> Suc (length s)" for d s by (induction s) (auto split: list.splits)
  from this [of "CHR 0x0A" content] show ?thesis by (simp add: file_lines_def)
qed

lemma bounded_lines: "int (length content) \<le> MaxLogBytes \<Longrightarrow> length (file_lines content) < 2 ^ 63"
  using file_lines_count [of content] by (simp add: MaxLogBytes_def)

lemma verifyFile_lines:
  "verifyFile c content public nodeID epoch visit h = Ok r \<Longrightarrow>
   verify_lines c public nodeID epoch visit 0 (start_head c public nodeID epoch) h (file_lines content) = Ok r"
  by (simp add: verifyFile_def split: if_splits)

lemma VerifyRecords_file:
  assumes "VerifyRecords c env path public nodeID epoch visit v = Ok (head, w)"
  obtains info h where "oe_lstat env = Present info" "int (length (fi_content info)) \<le> MaxLogBytes"
    "verifyFile c (fi_content info) public nodeID epoch (records_visit visit) (empty_history, v) = Ok (head, h, w)"
  using assms by (auto simp: VerifyRecords_def validFileInfo_def and_then_Inr_iff split: if_splits lstat.splits)

text \<open>The lines of the file that \<open>VerifyRecords\<close> reads.\<close>

definition lines_at :: "open_env \<Rightarrow> bytes list" where
  "lines_at env = (case oe_lstat env of Present info \<Rightarrow> file_lines (fi_content info) | _ \<Rightarrow> [])"

text \<open>C8: The head of a ledger commits to the whole history. If \<open>VerifyRecords\<close> accepts two files under one key, node and
  epoch and reports the same head, and SHA-256 has no collision among their lines, then the files hold the same receipts in
  the same order (equal line by line, up to a carriage return that the scanner drops).\<close>

theorem head_pins_history:
  assumes "VerifyRecords c env1 path1 public nodeID epoch visit1 v1 = Ok (head, w1)"
    "VerifyRecords c env2 path2 public nodeID epoch visit2 v2 = Ok (head, w2)"
    "inj_on (sha256 c) (hashed_lines (lines_at env1) \<union> hashed_lines (lines_at env2))"
  shows "map drop_cr (lines_at env1) = map drop_cr (lines_at env2)"
proof -
  obtain i1 r1 where f1: "oe_lstat env1 = Present i1" "int (length (fi_content i1)) \<le> MaxLogBytes"
    "verifyFile c (fi_content i1) public nodeID epoch (records_visit visit1) (empty_history, v1) = Ok (head, r1, w1)"
    by (rule VerifyRecords_file [OF assms(1)])
  obtain i2 r2 where f2: "oe_lstat env2 = Present i2" "int (length (fi_content i2)) \<le> MaxLogBytes"
    "verifyFile c (fi_content i2) public nodeID epoch (records_visit visit2) (empty_history, v2) = Ok (head, r2, w2)"
    by (rule VerifyRecords_file [OF assms(2)])
  note v1 = verifyFile_lines [OF f1(3)] and v2 = verifyFile_lines [OF f2(3)]
  have "(of_nat (length (file_lines (fi_content i1))) :: u64) = of_nat (length (file_lines (fi_content i2)))"
    using verify_lines_head(1) [OF v1] verify_lines_head(1) [OF v2] by simp
  from arg_cong [OF this, of unat] have "length (file_lines (fi_content i1)) = length (file_lines (fi_content i2))"
    using bounded_lines [OF f1(2)] bounded_lines [OF f2(2)] by (simp add: unsigned_of_nat take_bit_nat_eq_self)
  from chain_pins [OF v1 v2 this refl] assms(3) show ?thesis by (simp add: lines_at_def f1(1) f2(1))
qed

section \<open>What a replay establishes\<close>

text \<open>The calls of a history, with the conditions of \<open>call_ok\<close>.\<close>

definition waiting_ok :: "crypto \<Rightarrow> History \<Rightarrow> bytes \<times> Event \<Rightarrow> bool" where
  "waiting_ok c h p \<longleftrightarrow> ev_TaskDigest (snd p) = fst p \<and> fst p \<in> hs_spent h \<and> validateEvent c (snd p) = Ok () \<and>
     (ev_Phase (snd p) = Authorize \<or> ev_Phase (snd p) = Dispatch) \<and>
     (ev_TaskProtocol (snd p) \<noteq> [] \<longrightarrow> (\<exists>t. hs_taskHeads h (fst p) = Some t \<and>
        tc_sequence t = (if ev_Phase (snd p) = Authorize then 1 else 2)))"

definition history_ok :: "crypto \<Rightarrow> History \<Rightarrow> bool" where
  "history_ok c h \<longleftrightarrow> distinct (map fst (hs_pending h)) \<and> (\<forall>p \<in> set (hs_pending h). waiting_ok c h p) \<and>
     dom (hs_taskHeads h) \<subseteq> hs_spent h \<and> (\<forall>t \<in> ran (hs_taskHeads h). cl_digest (tc_hash t))"

lemma calls_ok_history:
  "lg_pending l = hs_pending h \<Longrightarrow> lg_spent l = hs_spent h \<Longrightarrow> lg_taskHeads l = hs_taskHeads h \<Longrightarrow> calls_ok c l = history_ok c h"
  by (simp add: calls_ok_def history_ok_def call_ok_def waiting_ok_def)

lemma coordinate_sequence:
  assumes "validateTaskCoordinate vr t first = Ok ()" "ev_TaskProtocol (rc_Event (vf_Receipt vr)) \<noteq> []"
  shows "rc_TaskSequence (vf_Receipt vr) = (if first then 1 else tc_sequence t + 1)"
  using assms by (auto simp: validateTaskCoordinate_def split: if_splits)

text \<open>A step that touches the call and the head of one task only.\<close>

lemma history_ok_change:
  assumes "history_ok c h" "distinct (map fst (hs_pending h'))" "hs_spent h \<subseteq> hs_spent h'" "k \<in> hs_spent h'" "cl_digest hash"
    "hs_taskHeads h' = (if chained then (hs_taskHeads h)(k \<mapsto> \<lparr>tc_sequence = n, tc_hash = hash\<rparr>) else hs_taskHeads h)"
    "\<And>p. p \<in> set (hs_pending h') \<Longrightarrow> p \<in> set (hs_pending h) \<and> fst p \<noteq> k \<or> waiting_ok c h' p"
  shows "history_ok c h'"
proof -
  note ok = assms(1) [unfolded history_ok_def]
  have "waiting_ok c h' p" if "p \<in> set (hs_pending h)" "fst p \<noteq> k" for p
  proof -
    have "waiting_ok c h p" using ok that(1) by blast
    moreover have "hs_taskHeads h' (fst p) = hs_taskHeads h (fst p)" using that(2) by (simp add: assms(6))
    ultimately show ?thesis using assms(3) by (auto simp: waiting_ok_def)
  qed
  then have "\<forall>p \<in> set (hs_pending h'). waiting_ok c h' p" using assms(7) by blast
  moreover have "dom (hs_taskHeads h') \<subseteq> hs_spent h'" using ok assms(3,4) by (auto simp: assms(6))
  moreover have "\<forall>t \<in> ran (hs_taskHeads h'). cl_digest (tc_hash t)"
  proof
    fix t assume "t \<in> ran (hs_taskHeads h')"
    then have "t \<in> ran (hs_taskHeads h) \<or> tc_hash t = hash" by (auto simp: assms(6) ran_def split: if_splits)
    then show "cl_digest (tc_hash t)" using ok assms(5) by blast
  qed
  ultimately show ?thesis using assms(2) by (simp add: history_ok_def)
qed

lemma history_ok_replace:
  assumes "history_ok c h" "hs_pending h' = AList.update k e (hs_pending h)" "hs_spent h \<subseteq> hs_spent h'" "cl_digest hash"
    "hs_taskHeads h' = (if chained then (hs_taskHeads h)(k \<mapsto> \<lparr>tc_sequence = n, tc_hash = hash\<rparr>) else hs_taskHeads h)"
    "waiting_ok c h' (k, e)"
  shows "history_ok c h'"
proof -
  have d: "distinct (map fst (hs_pending h))" using assms(1) by (simp add: history_ok_def)
  show ?thesis
  proof (rule history_ok_change [OF assms(1) _ assms(3) _ assms(4,5)])
    show "distinct (map fst (hs_pending h'))" unfolding assms(2) by (rule AList.distinct_update [OF d])
    show "k \<in> hs_spent h'" using assms(6) by (simp add: waiting_ok_def)
    show "p \<in> set (hs_pending h) \<and> fst p \<noteq> k \<or> waiting_ok c h' p" if "p \<in> set (hs_pending h')" for p
      using that assms(6) by (auto simp: assms(2) set_update_distinct [OF d])
  qed
qed

lemma note_task_head_sel [simp]:
  "hs_pending (note_task_head vr h) = hs_pending h" "hs_spent (note_task_head vr h) = hs_spent h"
  "hs_taskHeads (note_task_head vr h) = (if ev_TaskProtocol (rc_Event (vf_Receipt vr)) \<noteq> []
     then (hs_taskHeads h)(ev_TaskDigest (rc_Event (vf_Receipt vr)) \<mapsto> \<lparr>tc_sequence = rc_TaskSequence (vf_Receipt vr), tc_hash = vf_Hash vr\<rparr>)
     else hs_taskHeads h)"
  by (simp_all add: note_task_head_def Let_def)

lemma replay_authorize_Ok:
  "replay_authorize vr h = Ok h1 \<Longrightarrow> e = rc_Event (vf_Receipt vr) \<Longrightarrow> ev_TaskDigest e \<notin> hs_spent h \<and>
     validateTaskCoordinate vr (coordinate_of (hs_taskHeads h) (ev_TaskDigest e)) True = Ok () \<and>
     hs_pending h1 = AList.update (ev_TaskDigest e) e (hs_pending h) \<and> hs_spent h1 = insert (ev_TaskDigest e) (hs_spent h) \<and>
     hs_taskHeads h1 = hs_taskHeads h"
  by (auto simp: replay_authorize_def Let_def and_then_Inr_iff split: if_splits)

lemma replay_dispatch_Ok:
  "replay_dispatch vr h = Ok h1 \<Longrightarrow> e = rc_Event (vf_Receipt vr) \<Longrightarrow>
   \<exists>p. map_of (hs_pending h) (ev_TaskDigest e) = Some p \<and> validateTransition p e = Ok () \<and>
     validateTaskCoordinate vr (coordinate_of (hs_taskHeads h) (ev_TaskDigest e)) False = Ok () \<and>
     hs_pending h1 = AList.update (ev_TaskDigest e) e (hs_pending h) \<and> hs_spent h1 = hs_spent h \<and> hs_taskHeads h1 = hs_taskHeads h"
  by (auto simp: replay_dispatch_def Let_def and_then_Inr_iff split: if_splits option.splits)

lemma replay_terminal_Ok:
  "replay_terminal vr h = Ok h1 \<Longrightarrow> e = rc_Event (vf_Receipt vr) \<Longrightarrow>
   \<exists>p. map_of (hs_pending h) (ev_TaskDigest e) = Some p \<and> validateTransition p e = Ok () \<and>
     validateTaskCoordinate vr (coordinate_of (hs_taskHeads h) (ev_TaskDigest e)) False = Ok () \<and>
     hs_pending h1 = AList.delete (ev_TaskDigest e) (hs_pending h) \<and> hs_spent h1 = hs_spent h \<and> hs_taskHeads h1 = hs_taskHeads h"
  by (auto simp: replay_terminal_def Let_def and_then_Inr_iff split: if_splits option.splits)

lemma updateHistory_ok:
  assumes "updateHistory vr h = Ok h'" "history_ok c h" "validateEvent c (rc_Event (vf_Receipt vr)) = Ok ()" "cl_digest (vf_Hash vr)"
  shows "history_ok c h'"
proof -
  define e where "e = rc_Event (vf_Receipt vr)"
  have v: "validateEvent c e = Ok ()" using assms(3) by (simp add: e_def)
  have d: "distinct (map fst (hs_pending h))" using assms(2) by (simp add: history_ok_def)
  have heads: "hs_taskHeads (note_task_head vr h1) = (if ev_TaskProtocol e \<noteq> [] then (hs_taskHeads h)(ev_TaskDigest e \<mapsto>
      \<lparr>tc_sequence = rc_TaskSequence (vf_Receipt vr), tc_hash = vf_Hash vr\<rparr>) else hs_taskHeads h)" if "hs_taskHeads h1 = hs_taskHeads h" for h1
    using that by (simp add: e_def)
  consider (authorize) h1 where "ev_Phase e = Authorize" "replay_authorize vr h = Ok h1" "h' = note_task_head vr h1"
    | (dispatch) h1 where "ev_Phase e = Dispatch" "replay_dispatch vr h = Ok h1" "h' = note_task_head vr h1"
    | (terminal) h1 where "replay_terminal vr h = Ok h1" "h' = note_task_head vr h1"
    | (other) "ev_Phase e = Deny" "h' = note_task_head vr h"
    using assms(1) v by (auto simp: updateHistory_def and_then_Inr_iff e_def validateEvent_iff event_phase_def split: if_splits)
  then show ?thesis
  proof cases
    case authorize
    note r = replay_authorize_Ok [OF authorize(2) e_def]
    have w: "waiting_ok c h' (ev_TaskDigest e, e)"
      using r v authorize coordinate_sequence [of vr _ True] by (auto simp: waiting_ok_def e_def)
    show ?thesis
      by (rule history_ok_replace [OF assms(2) _ _ assms(4) _ w]) (use r heads [of h1] in \<open>auto simp: authorize(3)\<close>)
  next
    case dispatch
    obtain p where p: "map_of (hs_pending h) (ev_TaskDigest e) = Some p" "validateTransition p e = Ok ()"
      "validateTaskCoordinate vr (coordinate_of (hs_taskHeads h) (ev_TaskDigest e)) False = Ok ()"
      "hs_pending h1 = AList.update (ev_TaskDigest e) e (hs_pending h)" "hs_spent h1 = hs_spent h" "hs_taskHeads h1 = hs_taskHeads h"
      using replay_dispatch_Ok [OF dispatch(2) e_def] by blast
    have wp: "waiting_ok c h (ev_TaskDigest e, p)" using assms(2) map_of_SomeD [OF p(1)] by (auto simp: history_ok_def)
    note tr = transition_to_dispatch [OF p(2) dispatch(1)]
    have "rc_TaskSequence (vf_Receipt vr) = 2" if "ev_TaskProtocol e \<noteq> []"
      using coordinate_sequence [OF p(3)] that wp tr by (auto simp: waiting_ok_def coordinate_of_def e_def)
    then have w: "waiting_ok c h' (ev_TaskDigest e, e)"
      using v wp dispatch p(5) by (simp add: waiting_ok_def e_def)
    show ?thesis
      by (rule history_ok_replace [OF assms(2) _ _ assms(4) heads [OF p(6), folded dispatch(3)] w]) (simp_all add: dispatch(3) p(4,5))
  next
    case terminal
    obtain p where p: "map_of (hs_pending h) (ev_TaskDigest e) = Some p"
      "hs_pending h1 = AList.delete (ev_TaskDigest e) (hs_pending h)" "hs_spent h1 = hs_spent h" "hs_taskHeads h1 = hs_taskHeads h"
      using replay_terminal_Ok [OF terminal(1) e_def] by blast
    have wp: "waiting_ok c h (ev_TaskDigest e, p)" using assms(2) map_of_SomeD [OF p(1)] by (auto simp: history_ok_def)
    show ?thesis
      by (rule history_ok_change [OF assms(2) _ _ _ assms(4) heads [OF p(4), folded terminal(2)]])
        (use wp AList.distinct_delete [OF d] in \<open>simp_all add: terminal(2) p(2,3) set_delete waiting_ok_def\<close>)
  next
    case other
    then have "ev_TaskProtocol e = []" by (intro deny_no_protocol [OF v])
    then show ?thesis using assms(2) other(2) by (simp add: note_task_head_def e_def)
  qed
qed

text \<open>Charges of a replay: every tenant within its quota, and the sum is the size of the lines.\<close>

definition charged :: "Limits \<Rightarrow> int \<Rightarrow> (bytes \<times> int) list \<Rightarrow> bool" where
  "charged limits n tb \<longleftrightarrow> within_quotas limits tb \<and> (\<Sum>p\<leftarrow>tb. snd p) = n \<and> (\<forall>t. 0 \<le> usage_of tb t)"

lemma addTenantUsage_charged:
  assumes "addTenantUsage tb t d limits = Ok tb'" "charged limits n tb"
  shows "charged limits (n + d) tb'" "usage_of tb' t' = usage_of tb t' + (if t' = t then d else 0)"
proof -
  from assms(1) obtain q where q: "tenantQuota limits t = Ok q" "0 \<le> d" "usage_of tb t + d \<le> q"
    "tb' = AList.update t (usage_of tb t + d) tb"
    "map_of tb t = None \<Longrightarrow> lm_TenantBudgets limits = None \<Longrightarrow> int (length tb) < lm_MaxTenants limits"
    by (auto simp: addTenantUsage_def and_then_Inr_iff split: if_splits)
  have "within_quotas limits tb'" unfolding q(4)
    by (rule within_quotas_update [OF _ q(1,3,5)]) (use assms(2) in \<open>simp_all add: charged_def\<close>)
  then show "charged limits (n + d) tb'"
    using assms(2) q(2) by (simp add: charged_def q(4) sum_update usage_weight [symmetric] usage_of_update)
  show "usage_of tb' t' = usage_of tb t' + (if t' = t then d else 0)" by (simp add: q(4) usage_of_update)
qed

lemma reserve_pending_charged:
  assumes "reserve_pending limits ps tb n = Ok (tb', m)" "charged limits s tb"
  shows "charged limits (s + reserve_total ps) tb' \<and> m = n + reserve_total ps \<and> (\<forall>t. usage_of tb' t = usage_of tb t + reserve_of ps t)"
  using assms
proof (induction ps arbitrary: tb n s)
  case (Cons p ps)
  obtain k e where p: "p = (k, e)" by (cases p)
  obtain tb1 where a: "addTenantUsage tb (ev_TenantID e) (pendingReservation e) limits = Ok tb1"
    "reserve_pending limits ps tb1 (n + pendingReservation e) = Ok (tb', m)"
    using Cons.prems(1) by (auto simp: p and_then_Inr_iff)
  note c = addTenantUsage_charged [OF a(1) Cons.prems(2)]
  from Cons.IH [OF a(2) c(1)] c(2) show ?case by (auto simp: p reserve_total_def reserve_of_def add.assoc)
qed (simp_all add: reserve_total_def reserve_of_def)

lemma join_length: "int (length s) + 1 = (\<Sum>x\<leftarrow>split_on d s. int (length x) + 1)"
  by (induction s) (auto split: list.splits)

lemma split_on_empty: "split_on d s = [[]] \<Longrightarrow> s = []"
  by (cases s) (auto split: list.splits if_splits)

lemma last_split: "s = [] \<or> last s = d \<Longrightarrow> last (split_on d s) = []"
  by (induction s) (auto split: list.splits if_splits dest: split_on_empty)

lemma file_size:
  assumes "content = [] \<or> last content = CHR 0x0A"
  shows "(\<Sum>x\<leftarrow>file_lines content. int (length x) + 1) = int (length content)"
proof -
  have "split_on (CHR 0x0A) content = file_lines content @ [[]]"
    using last_split [OF assms] append_butlast_last_id [of "split_on (CHR 0x0A) content"] by (simp add: file_lines_def)
  then show ?thesis using join_length [of content "CHR 0x0A"] by simp
qed

lemma split_on_chars: "x \<in> set (split_on d s) \<Longrightarrow> set x \<subseteq> set s"
  by (induction s arbitrary: x) (fastforce split: list.splits if_splits)+

lemma file_lines_no_cr: "CHR 0x0D \<notin> set content \<Longrightarrow> x \<in> set (file_lines content) \<Longrightarrow> drop_cr x = x"
  using split_on_chars [of x "CHR 0x0A" content] in_set_butlastD [of x "split_on (CHR 0x0A) content"]
  by (auto simp: drop_cr_def file_lines_def dest: last_in_set)

lemma replayed:
  assumes "crypto_ok c" "limits_ok limits"
    "verify_lines c public nodeID epoch (open_visit limits visit) 0 (start_head c public nodeID epoch) start_replay xs = Ok (head, r)"
    "\<And>x. x \<in> set xs \<Longrightarrow> drop_cr x = x"
  shows "history_ok c (rp_history r)" "charged limits (\<Sum>x\<leftarrow>xs. int (length x) + 1) (rp_tenantBytes r)"
proof -
  let ?P = "\<lambda>(ys :: bytes list) (head :: Head) r. history_ok c (rp_history r) \<and> charged limits (\<Sum>x\<leftarrow>ys. int (length x) + 1) (rp_tenantBytes r)"
  have start: "?P [] (start_head c public nodeID epoch) start_replay"
    using assms(2) limits_ok_uniform(1) [OF assms(2)]
    by (auto simp: start_replay_def empty_history_def history_ok_def charged_def within_quotas_def usage_of_def)
  have "?P ([] @ xs) head r"
  proof (rule verify_lines_inv [where P = ?P and head = "start_head c public nodeID epoch" and h = start_replay])
    show "verify_lines c public nodeID epoch (open_visit limits visit) (length []) (start_head c public nodeID epoch) start_replay xs = Ok (head, r)"
      using assms(3) by simp
  next
    fix ys head0 r0 x vr r1
    assume P: "?P ys head0 r0" and x: "x \<in> set xs"
      and rd: "read_line c public nodeID epoch (Suc (length ys)) (hd_ChainHash head0) (drop_cr x) = Ok vr" and v: "open_visit limits visit vr r0 = Ok r1"
    note ok = read_line_Ok [OF rd]
    from v obtain h tb where "updateHistory vr (rp_history r0) = Ok h"
      "addTenantUsage (rp_tenantBytes r0) (ev_TenantID (rc_Event (vf_Receipt vr))) (int (length (vf_Raw vr) + 1)) limits = Ok tb"
      "rp_history r1 = h" "rp_tenantBytes r1 = tb"
      by (auto simp: open_visit_def Let_def and_then_Inr_iff split: option.splits)
    then show "?P (ys @ [x]) (head0\<lparr>hd_Sequence := rc_Sequence (vf_Receipt vr), hd_ChainHash := vf_Hash vr\<rparr>) r1"
      using P updateHistory_ok [of vr "rp_history r0" h c] addTenantUsage_charged(1) ok(1,2,5) hashLine_digest [OF assms(1)] assms(4) [OF x]
      by (fastforce simp: add.commute)
  qed (rule start)
  then show "history_ok c (rp_history r)" "charged limits (\<Sum>x\<leftarrow>xs. int (length x) + 1) (rp_tenantBytes r)" by simp_all
qed

lemma open_content_inv:
  assumes "crypto_ok c" "limits_ok limits" "length private = 64" "cl_validText nodeID 256" "CHR 0x0D \<notin> set content"
    "open_content c private nodeID epoch limits visit content = Ok l"
  shows "ledger_inv c l \<and> lg_open l \<and> \<not> lg_failed l"
proof -
  let ?public = "ed_public c private"
  obtain head r tb reserved where o: "verifyFile c content ?public nodeID epoch (open_visit limits visit) start_replay = Ok (head, r)"
    "reserve_pending limits (hs_pending (rp_history r)) (rp_tenantBytes r) 0 = Ok (tb, reserved)"
    "l = \<lparr>lg_open = True, lg_disk = content, lg_private = private, lg_public = ?public, lg_nodeID = nodeID,
                lg_epoch = epoch, lg_keyID = cl_KeyID c ?public, lg_next = hd_Sequence head + 1, lg_last = hd_ChainHash head,
                lg_failed = False, lg_reserved = reserved, lg_pending = hs_pending (rp_history r),
                lg_spent = hs_spent (rp_history r), lg_taskHeads = hs_taskHeads (rp_history r),
                lg_runOwners = hs_runOwners (rp_history r), lg_limits = limits, lg_tenantBytes = tb,
                lg_inferenceCounts = rp_inferenceCounts r\<rparr>"
    using assms(6) by (auto simp: open_content_def Let_def and_then_Inr_iff split: if_splits)
  note v = verifyFile_lines [OF o(1)]
  note rep = replayed [OF assms(1,2) v file_lines_no_cr [OF assms(5)]]
  note res = reserve_pending_charged [OF o(2) rep(2)]
  have nl: "content = [] \<or> last content = CHR 0x0A" using o(1) by (auto simp: verifyFile_def split: if_splits)
  have "identity_ok c l" using verify_lines_head(5) [OF v assms(1)] assms(2-4) by (simp add: identity_ok_def o(3))
  moreover have "charges_ok l"
    using res rep(2) file_size [OF nl] by (simp add: charges_ok_def o(3) charged_def)
  moreover have "calls_ok c l" using rep(1) calls_ok_history [of l "rp_history r" c] by (simp add: o(3))
  ultimately show ?thesis by (simp add: ledger_inv_def o(3))
qed

section \<open>Validation is a dry run\<close>

lemma verify_lines_project:
  assumes "\<And>vr r. visit2 vr (f r) = and_then (visit1 vr r) (\<lambda>r'. Ok (f r'))"
  shows "verify_lines c public nodeID epoch visit2 n head (f r) xs =
    and_then (verify_lines c public nodeID epoch visit1 n head r xs) (\<lambda>(head', r'). Ok (head', f r'))"
proof (induction xs arbitrary: n head r)
  case (Cons x xs)
  show ?case
  proof (cases "read_line c public nodeID epoch (Suc n) (hd_ChainHash head) (drop_cr x)")
    case (Inr vr)
    then show ?thesis using Cons assms [of vr r] by (cases "visit1 vr r") (auto simp: errorf_def)
  qed (auto simp: errorf_def)
qed simp

definition replay_view :: "Replay \<Rightarrow> History \<times> History \<times> (bytes \<times> int) list" where
  "replay_view r = (rp_history r, rp_history r, rp_tenantBytes r)"

lemma limits_visit_view:
  "records_visit (limits_visit limits) vr (replay_view r) = and_then (open_visit limits None vr r) (\<lambda>r'. Ok (replay_view r'))"
  by (cases "updateHistory vr (rp_history r)";
      cases "addTenantUsage (rp_tenantBytes r) (ev_TenantID (rc_Event (vf_Receipt vr))) (int (length (vf_Raw vr) + 1)) limits")
    (simp_all add: records_visit_def limits_visit_def replay_view_def open_visit_def Let_def)

lemma verifyFile_view:
  "verifyFile c content public nodeID epoch (records_visit (limits_visit limits)) (empty_history, empty_history, []) =
     and_then (verifyFile c content public nodeID epoch (open_visit limits None) start_replay) (\<lambda>(head, r). Ok (head, replay_view r))"
proof -
  have "(empty_history, empty_history, []) = replay_view start_replay" by (simp add: replay_view_def start_replay_def)
  then show ?thesis
    using verify_lines_project [of "records_visit (limits_visit limits)" replay_view "open_visit limits None", OF limits_visit_view]
    by (simp add: verifyFile_def errorf_def)
qed

lemma VerifyRecords_served:
  assumes "serves env content" "validPath path" "length public = 32" "cl_validText nodeID 256" "epoch \<noteq> 0"
  shows "VerifyRecords c env path public nodeID epoch visit v =
    (if int (length content) > MaxLogBytes then errorf ''connector ledger must be a bounded owner-only regular file''
     else and_then (verifyFile c content public nodeID epoch (records_visit visit) (empty_history, v)) (\<lambda>(head, h, v'). Ok (head, v')))"
proof -
  obtain info where "oe_lstat env = Present info" "fi_regular info" "and (fi_perm info) 63 = 0" "fi_content info = content"
    "oe_opens env" "oe_lock env = LockTaken" "oe_unchanged env" "oe_reads env"
    by (rule serves_info [OF assms(1)])
  then show ?thesis using assms(2-5) by (simp add: VerifyRecords_def validFileInfo_def)
qed

lemma count_positive:
  assumes "n < 2 ^ 63"
  shows "0 < (of_nat n :: u64) + 1"
proof -
  have "unat (of_nat (Suc n) :: u64) = Suc n" using assms by (simp add: unsigned_of_nat take_bit_nat_eq_self del: of_nat_Suc)
  then have "(of_nat (Suc n) :: u64) \<noteq> 0" by auto
  then show ?thesis unfolding word_gt_0 by (simp add: add.commute)
qed

text \<open>The capacity check of \<open>OpenWithLimits\<close> cannot fail once the quotas hold.\<close>

lemma open_capacity:
  assumes "crypto_ok c" "limits_ok limits" "CHR 0x0D \<notin> set content"
    "verifyFile c content public nodeID epoch (open_visit limits None) start_replay = Ok (head, r)"
    "reserve_pending limits (hs_pending (rp_history r)) (rp_tenantBytes r) 0 = Ok (tb, reserved)"
  shows "int (length content) + reserved \<le> MaxLogBytes"
proof -
  note rep = replayed [OF assms(1,2) verifyFile_lines [OF assms(4)] file_lines_no_cr [OF assms(3)]]
  note res = reserve_pending_charged [OF assms(5) rep(2)]
  have "content = [] \<or> last content = CHR 0x0A" using assms(4) by (auto simp: verifyFile_def split: if_splits)
  from file_size [OF this] res within_quotas_total [OF assms(2), of tb] show ?thesis by (simp add: charged_def)
qed

text \<open>C11: Every handle that \<open>OpenWithLimits\<close> returns, for any content of the file, satisfies the invariant on which the promises of
  the ledger rest: charges within quota and adding up to file size plus reservation, pending calls valid and at the right place
  of their task chain, spent tasks covering them. (The file must have no carriage returns; the writer makes none.)\<close>

theorem open_establishes_inv:
  assumes "crypto_ok c" "OpenWithLimits c env path private nodeID epoch limits visit = Ok l"
    "\<forall>bs. lm_TenantBudgets limits = Some bs \<longrightarrow> distinct (map fst bs)"
    "\<forall>info. oe_lstat env = Present info \<longrightarrow> CHR 0x0D \<notin> set (fi_content info)"
  shows "ledger_inv c l \<and> lg_open l \<and> \<not> lg_failed l"
proof -
  note args = OpenWithLimits_arguments [OF assms(2), unfolded arguments_ok_def]
  have lim: "limits_ok limits" using args assms(3) by (auto simp: limits_ok_def split: option.splits)
  obtain content where "open_content c private nodeID epoch limits visit content = Ok l" "CHR 0x0D \<notin> set content"
  proof (cases "oe_lstat env")
    case Missing
    then show ?thesis using that [of "[]"] OpenWithLimits_missing [OF assms(2)] by simp
  next
    case (Present info)
    then show ?thesis
      using that [of "fi_content info"] assms(2,4)
      by (auto simp: OpenWithLimits_def and_then_Inr_iff split: if_splits flock.splits)
  qed (use assms(2) in \<open>auto simp: OpenWithLimits_def and_then_Inr_iff split: if_splits\<close>)
  with open_content_inv [OF assms(1) lim] args show ?thesis by blast
qed

theorem open_establishes_inv_witness:
  "OpenWithLimits demo_crypto (demo_env (demo_file [])) ''/ledger'' demo_key ''node'' 1 DefaultLimits None = Ok demo_log \<and>
   ledger_inv demo_crypto demo_log"
proof -
  have args: "arguments_ok ''/ledger'' demo_key ''node'' 1 DefaultLimits" by (rule OpenWithLimits_arguments [OF demo_opened])
  have o: "OpenWithLimits demo_crypto (demo_env (demo_file [])) ''/ledger'' demo_key ''node'' 1 DefaultLimits None = Ok demo_log"
    using OpenWithLimits_served [OF demo_serves args, of demo_crypto "[]" None]
    by (simp add: open_empty new_ledger_def demo_log_def MaxLogBytes_def)
  from open_establishes_inv [OF _ o] o show ?thesis by (simp add: demo_env_def demo_file_def DefaultLimits_def)
qed

text \<open>\<open>ValidateWithLimits\<close> is the dry run of \<open>OpenWithLimits\<close>: on an existing file without carriage returns it returns the head of
  the handle that opening would give, and it fails with the same error where opening fails.\<close>

theorem validate_is_dry_open:
  assumes "crypto_ok c" "serves env content" "arguments_ok path private nodeID epoch limits" "CHR 0x0D \<notin> set content"
    "\<forall>bs. lm_TenantBudgets limits = Some bs \<longrightarrow> distinct (map fst bs)"
  shows "ValidateWithLimits c env path private nodeID epoch limits =
    and_then (OpenWithLimits c env path private nodeID epoch limits None) (\<lambda>l. Ok (lg_Head l))"
proof -
  note args = assms(3) [unfolded arguments_ok_def]
  let ?public = "ed_public c private"
  have lim: "limits_ok limits" using args assms(5) by (auto simp: limits_ok_def split: option.splits)
  have pub: "length ?public = 32" using assms(1) args by (simp add: crypto_ok_def)
  obtain info where info: "oe_lstat env = Present info" by (rule serves_info [OF assms(2)])
  have V: "ValidateWithLimits c env path private nodeID epoch limits =
      and_then (VerifyRecords c env path ?public nodeID epoch (limits_visit limits) (empty_history, [])) (\<lambda>(head, h, tb).
        and_then (reserve_pending limits (hs_pending h) tb 0) (\<lambda>_. Ok head))"
    using args info by (simp add: ValidateWithLimits_def Let_def)
  note vr = VerifyRecords_served [OF assms(2) _ pub, of path nodeID epoch c "limits_visit limits" "(empty_history, [])"]
  note op = OpenWithLimits_served [OF assms(2,3), of c None]
  show ?thesis
  proof (cases "int (length content) > MaxLogBytes")
    case True
    then show ?thesis using V vr op args by (simp add: errorf_def)
  next
    case small: False
    show ?thesis
    proof (cases "verifyFile c content ?public nodeID epoch (open_visit limits None) start_replay")
      case (Inl err)
      then show ?thesis using V vr op args small by (simp add: verifyFile_view open_content_def Let_def)
    next
      case (Inr hr)
      obtain head r where hr: "hr = (head, r)" by (cases hr)
      note head = verify_lines_head [OF verifyFile_lines [OF Inr [unfolded hr]]]
      have pos: "0 < (of_nat (length (file_lines content)) :: u64) + 1" using count_positive bounded_lines small by simp
      show ?thesis
      proof (cases "reserve_pending limits (hs_pending (rp_history r)) (rp_tenantBytes r) 0")
        case (Inl err)
        then show ?thesis using V vr op args small Inr hr by (simp add: verifyFile_view replay_view_def open_content_def Let_def)
      next
        case (Inr tr)
        obtain tb reserved where tr: "tr = (tb, reserved)" by (cases tr)
        note cap = open_capacity [OF assms(1) lim assms(4) \<open>verifyFile _ _ _ _ _ _ _ = Inr hr\<close> [unfolded hr] Inr [unfolded tr]]
        show ?thesis
          using V vr op args small \<open>verifyFile _ _ _ _ _ _ _ = Inr hr\<close> hr Inr tr cap head pos
          by (simp add: verifyFile_view replay_view_def open_content_def Let_def lg_Head_def headLocked_def)
      qed
    qed
  qed
qed

text \<open>The file of the demonstration ledger after one call.\<close>

definition demo_written :: bytes where
  "demo_written = lg_disk (final_state (lg_exec demo_crypto) [(Op_Begin demo_call, 0, IoOk)] demo_log)"

lemma demo_written_clean: "CHR 0x0D \<notin> set demo_written" "\<exists>raw. file_lines demo_written = [raw]"
proof -
  obtain l1 where b: "Begin demo_crypto 0 IoOk demo_log demo_call = (call_begun demo_call l1, Ok (headLocked l1))"
    "stored demo_crypto demo_log 0 demo_call (pendingReservation demo_call) l1"
    by (rule demo_begun [OF demo_may_begin(1)]) simp_all
  obtain raw reserved usage where "l1 = record_line demo_crypto demo_log (receipt_for demo_log 0 demo_call) raw reserved usage" and c: "clean_line raw"
    using stored_read [OF demo_log_good demo_clock demo_events_valid(1) b(2)] by metis
  then have r: "lg_disk l1 = raw @ [CHR 0x0A]" "clean_line raw" by (simp_all add: demo_log_def)
  have w: "demo_written = raw @ [CHR 0x0A]" by (simp add: demo_written_def b(1) r(1))
  have "file_lines demo_written = [raw]"
    using file_lines_disk [of "[raw]"] r(2) by (simp add: w disk_of_def)
  then show "\<exists>raw. file_lines demo_written = [raw]" by simp
  show "CHR 0x0D \<notin> set demo_written" using clean_no_newline [OF r(2)] by (simp add: w)
qed

lemma demo_written_opens:
  "\<exists>l. OpenWithLimits demo_crypto (demo_env (demo_file demo_written)) ''/ledger'' demo_key ''node'' 1 DefaultLimits None = Ok l"
proof -
  have "\<forall>call \<in> set [(Op_Begin demo_call, 0, IoOk)]. replayable call"
    using demo_clock demo_readable by (simp add: replayable_def op_readable_def op_event_def)
  note run = new_run [OF _ demo_opened _ _ this]
  have "serves (demo_env (demo_file demo_written)) (lg_disk (final_state (lg_exec demo_crypto) [(Op_Begin demo_call, 0, IoOk)] demo_log))"
    unfolding demo_written_def by (rule demo_serves)
  from reopen_served [OF this run(1,3,2)] show ?thesis by (simp add: demo_env_def DefaultLimits_def del: final_state_Cons)
qed

theorem validate_is_dry_open_witness:
  "\<exists>head. ValidateWithLimits demo_crypto (demo_env (demo_file demo_written)) ''/ledger'' demo_key ''node'' 1 DefaultLimits = Ok head"
proof -
  have args: "arguments_ok ''/ledger'' demo_key ''node'' 1 DefaultLimits" by (rule OpenWithLimits_arguments [OF demo_opened])
  have "\<forall>bs. lm_TenantBudgets DefaultLimits = Some bs \<longrightarrow> distinct (map fst bs)" by (simp add: DefaultLimits_def)
  from validate_is_dry_open [OF demo_crypto_ok demo_serves args demo_written_clean(1) this] demo_written_opens show ?thesis by auto
qed

theorem head_pins_history_witness:
  "\<exists>head w raw. VerifyRecords demo_crypto (demo_env (demo_file demo_written)) ''/ledger'' (ed_public demo_crypto demo_key) ''node'' 1
       (limits_visit DefaultLimits) (empty_history, []) = Ok (head, w) \<and> lines_at (demo_env (demo_file demo_written)) = [raw] \<and>
     map drop_cr (lines_at (demo_env (demo_file demo_written))) = map drop_cr [raw]"
proof -
  let ?env = "demo_env (demo_file demo_written)"
  have args: "arguments_ok ''/ledger'' demo_key ''node'' 1 DefaultLimits" by (rule OpenWithLimits_arguments [OF demo_opened])
  have pub: "length (ed_public demo_crypto demo_key) = 32" by (simp add: demo_crypto_def demo_key_def)
  have "\<exists>head r. int (length demo_written) \<le> MaxLogBytes \<and>
      verifyFile demo_crypto demo_written (ed_public demo_crypto demo_key) ''node'' 1 (open_visit DefaultLimits None) start_replay = Ok (head, r)"
    using demo_written_opens OpenWithLimits_served [OF demo_serves args, of demo_crypto demo_written None]
    by (auto simp: open_content_def Let_def and_then_Inr_iff split: if_splits)
  then obtain head w where v: "VerifyRecords demo_crypto ?env ''/ledger'' (ed_public demo_crypto demo_key) ''node'' 1
      (limits_visit DefaultLimits) (empty_history, []) = Ok (head, w)"
    using VerifyRecords_served [OF demo_serves [of demo_written] _ pub, of "''/ledger''" "''node''" 1 demo_crypto
        "limits_visit DefaultLimits" "(empty_history, [])"] args
    by (auto simp: arguments_ok_def verifyFile_view replay_view_def)
  obtain raw where raw: "lines_at ?env = [raw]"
    using demo_written_clean(2) by (auto simp: lines_at_def demo_env_def demo_file_def)
  have "inj_on (sha256 demo_crypto) (hashed_lines (lines_at ?env) \<union> hashed_lines (lines_at ?env))"
    by (simp add: raw hashed_lines_def)
  from head_pins_history [OF v v this] v raw show ?thesis by auto
qed

end
