(* ===== verification/Portable_Task.thy ===== *)
theory Portable_Task
  imports Ledger_Audit
begin

text \<open>
  \<open>internal/connectorledger/portable_task.go\<close>: the receipts of one service task, cut out of a ledger and verified without it,
  and the selection that \<open>internal/activation/gateway_evidence.go\<close> makes while it verifies the ledger. The main result
  is that the two sides agree: what is cut out of a ledger that verifies is accepted.
\<close>

section \<open>Verification\<close>

definition MaxPortableTaskEvidenceBytes :: nat where
  "MaxPortableTaskEvidenceBytes = 3 * (MaxLineBytes + 1)"

record PortableTaskEvidence =
  pe_Records :: "VerifiedReceipt list"
  pe_Terminal :: Head

definition validatePortableTaskReceipt ::
  "crypto \<Rightarrow> Receipt \<Rightarrow> bytes \<Rightarrow> u64 \<Rightarrow> nat \<Rightarrow> bytes \<Rightarrow> u64 \<Rightarrow> bytes \<Rightarrow> bytes \<Rightarrow> unit result" where
  "validatePortableTaskReceipt c receipt nodeID epoch taskSequence previousTaskHash previousGlobalSequence taskDigest permitDigest =
     (let event = rc_Event receipt
      in if rc_SchemaVersion receipt \<noteq> receipt_schema 4 \<or> rc_NodeID receipt \<noteq> nodeID \<or> rc_Epoch receipt \<noteq> epoch \<or>
           rc_Sequence receipt = 0 \<or> (previousGlobalSequence > 0 \<and> rc_Sequence receipt \<le> previousGlobalSequence) \<or>
           \<not> cl_digest (rc_PreviousHash receipt) \<or> rc_TaskSequence receipt \<noteq> of_nat taskSequence \<or>
           rc_PreviousTaskHash receipt \<noteq> previousTaskHash
         then errorf ''receipt coordinates do not match the portable task chain''
         else if \<not> observed_ok (rc_ObservedAt receipt) then errorf ''receipt has an invalid observation time''
         else if ev_TargetTaskDigest event \<noteq> [] \<or> ev_TargetRunID event \<noteq> [] \<or> ev_Kind event \<noteq> ServiceTask \<or>
           ev_TaskProtocol event \<noteq> TaskProtocolLifecycleV1 \<or> ev_TaskDigest event \<noteq> taskDigest \<or> ev_PermitDigest event \<noteq> permitDigest
         then errorf ''receipt does not match the expected lifecycle task''
         else and_then (validateEvent c event) (\<lambda>_.
           if taskSequence = 1
           then (if ev_Phase event \<noteq> Authorize then errorf ''first portable task receipt is not authorization'' else Ok ())
           else if taskSequence = 2
           then (if ev_Phase event \<noteq> Dispatch \<and> ev_Phase event \<noteq> Terminal
                 then errorf ''second portable task receipt is neither dispatch nor terminal'' else Ok ())
           else if taskSequence = 3
           then (if ev_Phase event \<noteq> Terminal then errorf ''third portable task receipt is not terminal'' else Ok ())
           else errorf ''portable task evidence contains too many receipts''))"

text \<open>The body of the scanning loop: \<open>previousTaskHash\<close>, \<open>previousEvent\<close> and \<open>previousGlobalSequence\<close> are read off the records so far.\<close>

definition previous_hash :: "VerifiedReceipt list \<Rightarrow> bytes" where
  "previous_hash records = (if records = [] then zeroHash else vf_Hash (last records))"

definition previous_sequence :: "VerifiedReceipt list \<Rightarrow> u64" where
  "previous_sequence records = (if records = [] then 0 else rc_Sequence (vf_Receipt (last records)))"

definition portable_line ::
  "crypto \<Rightarrow> bytes \<Rightarrow> bytes \<Rightarrow> u64 \<Rightarrow> bytes \<Rightarrow> bytes \<Rightarrow> VerifiedReceipt list \<Rightarrow> bytes \<Rightarrow> VerifiedReceipt result" where
  "portable_line c public nodeID epoch taskDigest permitDigest records line =
     (if length line = 0 \<or> length line > MaxLineBytes \<or> length records = 3
      then errorf ''portable task evidence must contain two or three bounded receipt lines''
      else (case Parse line of
          Inl _ \<Rightarrow> errorf ''portable task receipt is not one v4 envelope''
        | Inr envelope \<Rightarrow>
          if PayloadType envelope \<noteq> receipt_payload_type 4 then errorf ''portable task receipt is not one v4 envelope''
          else and_then (Verify c line (receipt_payload_type 4) [cl_KeyID c public \<mapsto> public]) (\<lambda>(payload, verifiedKeyID).
            if verifiedKeyID \<noteq> cl_KeyID c public then errorf ''verify portable task receipt''
            else and_then (decode_receipt payload) (\<lambda>receipt.
              and_then (validatePortableTaskReceipt c receipt nodeID epoch (length records + 1) (previous_hash records)
                 (previous_sequence records) taskDigest permitDigest) (\<lambda>_.
              and_then (if records = [] then Ok () else validateTransition (rc_Event (vf_Receipt (last records))) (rc_Event receipt)) (\<lambda>_.
                Ok \<lparr>vf_Receipt = receipt, vf_Raw = line, vf_Hash = hashLine c line\<rparr>))))))"

fun portable_lines ::
  "crypto \<Rightarrow> bytes \<Rightarrow> bytes \<Rightarrow> u64 \<Rightarrow> bytes \<Rightarrow> bytes \<Rightarrow> VerifiedReceipt list \<Rightarrow> bytes list \<Rightarrow> VerifiedReceipt list result" where
  "portable_lines c public nodeID epoch taskDigest permitDigest records [] = Ok records"
| "portable_lines c public nodeID epoch taskDigest permitDigest records (line # rest) =
     (if length line > MaxLineBytes then errorf ''read portable task evidence: token too long''
      else and_then (portable_line c public nodeID epoch taskDigest permitDigest records (drop_cr line)) (\<lambda>vr.
        portable_lines c public nodeID epoch taskDigest permitDigest (records @ [vr]) rest))"

definition VerifyPortableTaskEvidence ::
  "crypto \<Rightarrow> bytes \<Rightarrow> bytes \<Rightarrow> bytes \<Rightarrow> u64 \<Rightarrow> bytes \<Rightarrow> bytes \<Rightarrow> PortableTaskEvidence result" where
  "VerifyPortableTaskEvidence c raw public nodeID epoch taskDigest permitDigest =
     (if raw = [] \<or> length raw > MaxPortableTaskEvidenceBytes \<or> last raw \<noteq> CHR 0x0A \<or> length public \<noteq> 32 \<or>
         \<not> cl_validText nodeID 256 \<or> epoch = 0 \<or> \<not> cl_digest taskDigest \<or> \<not> cl_digest permitDigest
      then errorf ''portable task evidence arguments are invalid''
      else and_then (portable_lines c public nodeID epoch taskDigest permitDigest [] (file_lines raw)) (\<lambda>records.
        if length records < 2 \<or> ev_Phase (rc_Event (vf_Receipt (last records))) \<noteq> Terminal
        then wrap_err ErrPortableTaskEvidenceIncomplete ''signed lifecycle has no terminal receipt''
        else if ev_Phase (rc_Event (vf_Receipt (records ! 0))) \<noteq> Authorize \<or>
          (length records = 3 \<and> ev_Phase (rc_Event (vf_Receipt (records ! 1))) \<noteq> Dispatch)
        then errorf ''portable task evidence is not a closed lifecycle''
        else let terminal = last records
             in Ok \<lparr>pe_Records = records, pe_Terminal =
                  \<lparr>hd_NodeID = nodeID, hd_Epoch = epoch, hd_Sequence = rc_Sequence (vf_Receipt terminal),
                   hd_ChainHash = vf_Hash terminal, hd_KeyID = cl_KeyID c public\<rparr>\<rparr>))"

section \<open>Extraction\<close>

fun marshal_records :: "bytes \<Rightarrow> VerifiedReceipt list \<Rightarrow> bytes result" where
  "marshal_records output [] = Ok output"
| "marshal_records output (vr # rest) =
     (if vf_Raw vr = [] \<or> length (vf_Raw vr) > MaxLineBytes \<or> CHR 0x0D \<in> set (vf_Raw vr) \<or> CHR 0x0A \<in> set (vf_Raw vr)
      then errorf ''portable task receipt is not one exact DSSE line''
      else if int (length output) > int MaxPortableTaskEvidenceBytes - int (length (vf_Raw vr)) - 1
      then errorf ''portable task evidence exceeds its byte limit''
      else marshal_records (output @ vf_Raw vr @ [CHR 0x0A]) rest)"

definition MarshalPortableTaskEvidence :: "VerifiedReceipt list \<Rightarrow> bytes result" where
  "MarshalPortableTaskEvidence records =
     (if length records < 2 then wrap_err ErrPortableTaskEvidenceIncomplete ''fewer than two signed receipts''
      else if length records > 3 then errorf ''portable task evidence requires two or three receipts''
      else marshal_records [] records)"

text \<open>The visitor with which \<open>CollectGatewayEvidenceV1Context\<close> selects the receipts of one task.\<close>

definition select_task :: "bytes \<Rightarrow> bytes \<Rightarrow> VerifiedReceipt \<Rightarrow> VerifiedReceipt list \<Rightarrow> VerifiedReceipt list result" where
  "select_task taskDigest permitDigest vr selected =
     (let event = rc_Event (vf_Receipt vr); taskMatch = (ev_TaskDigest event = taskDigest);
          permitMatch = (ev_PermitDigest event = permitDigest)
      in if taskMatch \<noteq> permitMatch then errorf ''Gateway ledger contains a partial task or permit identity collision''
         else Ok (if taskMatch then selected @ [vr] else selected))"

section \<open>Agreement with the ledger\<close>

text \<open>Receipts of the task protocol, as the portable format requires.\<close>

definition lifecycle_record :: "VerifiedReceipt \<Rightarrow> bool" where
  "lifecycle_record vr \<longleftrightarrow> ev_TaskProtocol (rc_Event (vf_Receipt vr)) = TaskProtocolLifecycleV1 \<and>
     ev_TargetTaskDigest (rc_Event (vf_Receipt vr)) = []"

lemma portable_lines_append:
  "portable_lines c public nodeID epoch d p records (xs @ ys) =
     and_then (portable_lines c public nodeID epoch d p records xs) (\<lambda>records'. portable_lines c public nodeID epoch d p records' ys)"
proof (induction xs arbitrary: records)
  case (Cons x xs)
  then show ?case by (cases "portable_line c public nodeID epoch d p records (drop_cr x)") (auto simp: errorf_def)
qed simp

text \<open>A lifecycle receipt that the ledger's reader accepts was signed in version 4.\<close>

lemma version_four:
  assumes "schema_matches v e" "ev_Kind e = ServiceTask" "ev_TaskProtocol e \<noteq> []" "ev_TargetTaskDigest e = []" "1 \<le> v" "v \<le> 10"
  shows "v = 4" "ev_TargetRunID e = []"
proof -
  have "v \<in> {1, 2, 3, 4, 5, 6, 7, 8, 9, 10}" using assms(5,6) by simp presburger
  then show "v = 4" using assms(1-4) by (auto simp: schema_matches_def)
  then show "ev_TargetRunID e = []" using assms(1) by (simp add: schema_matches_def)
qed

lemma version_of_type_range: "version_of_type t = Some v \<Longrightarrow> 1 \<le> v \<and> v \<le> 10 \<and> t = receipt_payload_type v"
  by (auto simp: version_of_type_def receipt_versions_def find_Some_iff)

lemma read_line_portable:
  assumes "read_line c public nodeID epoch n previous raw = Ok vr" "lifecycle_record vr"
  shows "Parse raw \<noteq> Inl err" "\<exists>envelope payload. Parse raw = Ok envelope \<and> PayloadType envelope = receipt_payload_type 4 \<and>
      Verify c raw (receipt_payload_type 4) [cl_KeyID c public \<mapsto> public] = Ok (payload, cl_KeyID c public) \<and>
      decode_receipt payload = Ok (vf_Receipt vr) \<and> raw \<noteq> [] \<and> length raw \<le> MaxLineBytes \<and>
      rc_SchemaVersion (vf_Receipt vr) = receipt_schema 4 \<and> rc_NodeID (vf_Receipt vr) = nodeID \<and> rc_Epoch (vf_Receipt vr) = epoch \<and>
      observed_ok (rc_ObservedAt (vf_Receipt vr)) \<and> ev_Kind (rc_Event (vf_Receipt vr)) = ServiceTask \<and>
      ev_TargetRunID (rc_Event (vf_Receipt vr)) = []"
proof -
  obtain envelope v payload where r: "Parse raw = Ok envelope" "version_of_type (PayloadType envelope) = Some v"
    "Verify c raw (PayloadType envelope) [cl_KeyID c public \<mapsto> public] = Ok (payload, cl_KeyID c public)"
    "decode_receipt payload = Ok (vf_Receipt vr)" "raw \<noteq> []" "length raw \<le> MaxLineBytes"
    "validateReceipt c (vf_Receipt vr) v nodeID epoch (of_nat n) previous = Ok ()"
    using assms(1) by (auto simp: read_line_def and_then_Inr_iff split: if_splits sum.splits option.splits)
  then show "Parse raw \<noteq> Inl err" by simp
  have e: "validateEvent c (rc_Event (vf_Receipt vr)) = Ok ()" using read_line_Ok(5) [OF assms(1)] .
  have k: "ev_Kind (rc_Event (vf_Receipt vr)) = ServiceTask"
    using lifecycle_protocol(2) [OF e] assms(2) by (simp add: lifecycle_record_def)
  have m: "schema_matches v (rc_Event (vf_Receipt vr))" using r(7) by (simp add: validateReceipt_def split: if_splits)
  have v: "v = 4" "ev_TargetRunID (rc_Event (vf_Receipt vr)) = []"
    using version_four [OF m k] assms(2) version_of_type_range [OF r(2)] by (simp_all add: lifecycle_record_def)
  then have "PayloadType envelope = receipt_payload_type 4" using version_of_type_range [OF r(2)] by simp
  with r v k show "\<exists>envelope payload. Parse raw = Ok envelope \<and> PayloadType envelope = receipt_payload_type 4 \<and>
      Verify c raw (receipt_payload_type 4) [cl_KeyID c public \<mapsto> public] = Ok (payload, cl_KeyID c public) \<and>
      decode_receipt payload = Ok (vf_Receipt vr) \<and> raw \<noteq> [] \<and> length raw \<le> MaxLineBytes \<and>
      rc_SchemaVersion (vf_Receipt vr) = receipt_schema 4 \<and> rc_NodeID (vf_Receipt vr) = nodeID \<and> rc_Epoch (vf_Receipt vr) = epoch \<and>
      observed_ok (rc_ObservedAt (vf_Receipt vr)) \<and> ev_Kind (rc_Event (vf_Receipt vr)) = ServiceTask \<and>
      ev_TargetRunID (rc_Event (vf_Receipt vr)) = []"
    by (auto simp: validateReceipt_def split: if_splits)
qed

lemma portable_line_accepts:
  assumes "read_line c public nodeID epoch n previous raw = Ok vr" "lifecycle_record vr" "cl_digest previous"
    "ev_TaskDigest (rc_Event (vf_Receipt vr)) = d" "ev_PermitDigest (rc_Event (vf_Receipt vr)) = p" "length records < 3"
    "rc_Sequence (vf_Receipt vr) \<noteq> 0" "previous_sequence records < rc_Sequence (vf_Receipt vr)"
    "rc_TaskSequence (vf_Receipt vr) = of_nat (length records + 1)" "rc_PreviousTaskHash (vf_Receipt vr) = previous_hash records"
    "records \<noteq> [] \<Longrightarrow> validateTransition (rc_Event (vf_Receipt (last records))) (rc_Event (vf_Receipt vr)) = Ok ()"
    "length records = 0 \<Longrightarrow> ev_Phase (rc_Event (vf_Receipt vr)) = Authorize"
    "length records = 1 \<Longrightarrow> ev_Phase (rc_Event (vf_Receipt vr)) = Dispatch \<or> ev_Phase (rc_Event (vf_Receipt vr)) = Terminal"
    "length records = 2 \<Longrightarrow> ev_Phase (rc_Event (vf_Receipt vr)) = Terminal"
  shows "portable_line c public nodeID epoch d p records raw = Ok vr"
proof -
  obtain envelope payload where f: "Parse raw = Ok envelope" "PayloadType envelope = receipt_payload_type 4"
      "Verify c raw (receipt_payload_type 4) [cl_KeyID c public \<mapsto> public] = Ok (payload, cl_KeyID c public)"
      "decode_receipt payload = Ok (vf_Receipt vr)" "raw \<noteq> []" "length raw \<le> MaxLineBytes"
      "rc_SchemaVersion (vf_Receipt vr) = receipt_schema 4" "rc_NodeID (vf_Receipt vr) = nodeID" "rc_Epoch (vf_Receipt vr) = epoch"
      "observed_ok (rc_ObservedAt (vf_Receipt vr))" "ev_Kind (rc_Event (vf_Receipt vr)) = ServiceTask"
      "ev_TargetRunID (rc_Event (vf_Receipt vr)) = []"
    using read_line_portable(2) [OF assms(1,2)] by blast
  note ok = read_line_Ok [OF assms(1)]
  have "length records = 0 \<or> length records = 1 \<or> length records = 2" using assms(6) by linarith
  then have v: "validatePortableTaskReceipt c (vf_Receipt vr) nodeID epoch (length records + 1) (previous_hash records)
      (previous_sequence records) d p = Ok ()"
    using f ok assms by (auto simp: validatePortableTaskReceipt_def Let_def lifecycle_record_def)
  have rec: "\<lparr>vf_Receipt = vf_Receipt vr, vf_Raw = raw, vf_Hash = hashLine c raw\<rparr> = vr" using ok(1,2) by simp
  show ?thesis using f v rec assms(6,11) by (cases "records = []") (simp_all add: portable_line_def)
qed

text \<open>The part of a history that concerns one task, and how the steps of the replay change it.\<close>

definition task_view :: "bytes \<Rightarrow> History \<Rightarrow> bool \<times> Event option \<times> taskCoordinate option" where
  "task_view d h = (d \<in> hs_spent h, map_of (hs_pending h) d, hs_taskHeads h d)"

lemma updateHistory_other:
  assumes "updateHistory vr h = Ok h'" "ev_TaskDigest (rc_Event (vf_Receipt vr)) \<noteq> d"
  shows "task_view d h' = task_view d h"
proof -
  have n: "task_view d (note_task_head vr h1) = task_view d h1" for h1 using assms(2) by (simp add: task_view_def)
  have "task_view d h1 = task_view d h" if "replay_authorize vr h = Ok h1 \<or> replay_dispatch vr h = Ok h1 \<or> replay_terminal vr h = Ok h1" for h1
    using that replay_authorize_Ok [OF _ refl, of vr h h1] replay_dispatch_Ok [OF _ refl, of vr h h1] replay_terminal_Ok [OF _ refl, of vr h h1] assms(2)
    by (elim disjE) (auto simp: task_view_def update_conv' delete_conv')
  then show ?thesis
    using assms(1) n by (auto simp: updateHistory_def and_then_Inr_iff Let_def split: if_splits)
qed

text \<open>
  The receipts selected so far: they are numbered within the lines read, the history stands where they end, and the portable
  verifier accepts them.
\<close>

definition numbered :: "nat \<Rightarrow> VerifiedReceipt list \<Rightarrow> bool" where
  "numbered n sel \<longleftrightarrow> sel = [] \<or> (\<exists>k. 0 < k \<and> k \<le> n \<and> rc_Sequence (vf_Receipt (last sel)) = of_nat k)"

definition stands_at :: "bool \<times> Event option \<times> taskCoordinate option \<Rightarrow> VerifiedReceipt list \<Rightarrow> bool" where
  "stands_at view sel \<longleftrightarrow>
     (if sel = [] then \<not> fst view \<and> fst (snd view) = None
      else (let e = rc_Event (vf_Receipt (last sel))
        in view = (True, (if ev_Phase e = Terminal then None else Some e), Some \<lparr>tc_sequence = of_nat (length sel), tc_hash = vf_Hash (last sel)\<rparr>) \<and>
           (length sel = 1 \<and> ev_Phase e = Authorize \<or> length sel = 2 \<and> (ev_Phase e = Dispatch \<or> ev_Phase e = Terminal) \<or>
            length sel = 3 \<and> ev_Phase e = Terminal)))"

definition portable_ok :: "crypto \<Rightarrow> bytes \<Rightarrow> bytes \<Rightarrow> u64 \<Rightarrow> bytes \<Rightarrow> bytes \<Rightarrow> VerifiedReceipt list \<Rightarrow> bool" where
  "portable_ok c public nodeID epoch d p sel \<longleftrightarrow> portable_lines c public nodeID epoch d p [] (map vf_Raw sel) = Ok sel \<and>
     (\<forall>vr \<in> set sel. vf_Raw vr \<noteq> [] \<and> length (vf_Raw vr) \<le> MaxLineBytes \<and> CHR 0x0D \<notin> set (vf_Raw vr) \<and>
        CHR 0x0A \<notin> set (vf_Raw vr))"

definition chain_ok :: "crypto \<Rightarrow> bytes \<Rightarrow> bytes \<Rightarrow> u64 \<Rightarrow> bytes \<Rightarrow> bytes \<Rightarrow> nat \<Rightarrow> History \<Rightarrow> VerifiedReceipt list \<Rightarrow> bool" where
  "chain_ok c public nodeID epoch d p n h sel \<longleftrightarrow>
     numbered n sel \<and> stands_at (task_view d h) sel \<and> portable_ok c public nodeID epoch d p sel"

lemma numbered_Suc: "numbered n sel \<Longrightarrow> numbered (Suc n) sel"
  by (auto simp: numbered_def intro: le_SucI)

lemma small_words:
  assumes "k \<le> n" "n < 2 ^ 63"
  shows "(of_nat k :: u64) < of_nat (Suc n)" "(of_nat (Suc n) :: u64) \<noteq> 0"
proof -
  have "unat (of_nat k :: u64) = k" "unat (of_nat (Suc n) :: u64) = Suc n"
    using assms by (simp_all add: unsigned_of_nat take_bit_nat_eq_self del: of_nat_Suc)
  then show "(of_nat k :: u64) < of_nat (Suc n)" "(of_nat (Suc n) :: u64) \<noteq> 0"
    using assms(1) by (auto simp: word_less_nat_alt simp del: of_nat_Suc)
qed

text \<open>How the next receipt of the task extends the place of the history.\<close>

lemma stands_at_next:
  assumes "stands_at (task_view d h) sel" "updateHistory vr h = Ok h'" "e = rc_Event (vf_Receipt vr)" "ev_TaskDigest e = d"
    "ev_TaskProtocol e \<noteq> []" "validateEvent c e = Ok ()"
  shows "length sel < 3" "stands_at (task_view d h') (sel @ [vr])"
    "rc_TaskSequence (vf_Receipt vr) = of_nat (length sel + 1)" "rc_PreviousTaskHash (vf_Receipt vr) = previous_hash sel"
    "sel \<noteq> [] \<Longrightarrow> validateTransition (rc_Event (vf_Receipt (last sel))) e = Ok ()"
    "length sel = 0 \<Longrightarrow> ev_Phase e = Authorize" "length sel = 1 \<Longrightarrow> ev_Phase e = Dispatch \<or> ev_Phase e = Terminal"
    "length sel = 2 \<Longrightarrow> ev_Phase e = Terminal"
proof -
  let ?goal = "length sel < 3 \<and> stands_at (task_view d h') (sel @ [vr]) \<and> rc_TaskSequence (vf_Receipt vr) = of_nat (length sel + 1) \<and>
    rc_PreviousTaskHash (vf_Receipt vr) = previous_hash sel \<and>
    (sel \<noteq> [] \<longrightarrow> validateTransition (rc_Event (vf_Receipt (last sel))) e = Ok ()) \<and>
    (length sel = 0 \<longrightarrow> ev_Phase e = Authorize) \<and> (length sel = 1 \<longrightarrow> ev_Phase e = Dispatch \<or> ev_Phase e = Terminal) \<and>
    (length sel = 2 \<longrightarrow> ev_Phase e = Terminal)"
  consider (authorize) h1 where "ev_Phase e = Authorize" "replay_authorize vr h = Ok h1" "h' = note_task_head vr h1"
    | (dispatch) h1 where "ev_Phase e = Dispatch" "replay_dispatch vr h = Ok h1" "h' = note_task_head vr h1"
    | (terminal) h1 where "ev_Phase e = Terminal" "replay_terminal vr h = Ok h1" "h' = note_task_head vr h1"
    using assms(2,5,6) deny_no_protocol [OF assms(6)]
    by (auto simp: updateHistory_def and_then_Inr_iff assms(3) validateEvent_iff event_phase_def split: if_splits)
  then have ?goal
  proof cases
    case authorize
    note r = replay_authorize_Ok [OF authorize(2) assms(3)]
    have "sel = []" using assms(1,4) r by (auto simp: stands_at_def task_view_def Let_def split: if_splits)
    then show ?thesis
      using r authorize assms(3-5) by (auto simp: stands_at_def task_view_def update_conv' validateTaskCoordinate_def previous_hash_def split: if_splits)
  next
    case dispatch
    obtain q where q: "map_of (hs_pending h) d = Some q" "validateTransition q e = Ok ()"
      "validateTaskCoordinate vr (coordinate_of (hs_taskHeads h) d) False = Ok ()"
      "hs_pending h1 = AList.update d e (hs_pending h)" "hs_spent h1 = hs_spent h" "hs_taskHeads h1 = hs_taskHeads h"
      using replay_dispatch_Ok [OF dispatch(2) assms(3)] assms(4) by auto
    note tr = transition_to_dispatch [OF q(2) dispatch(1)]
    have ne: "sel \<noteq> []" using assms(1) q(1) by (auto simp: stands_at_def task_view_def)
    have l: "rc_Event (vf_Receipt (last sel)) = q" "length sel = 1" "d \<in> hs_spent h"
      "hs_taskHeads h d = Some \<lparr>tc_sequence = 1, tc_hash = vf_Hash (last sel)\<rparr>"
      using assms(1) q(1) tr(3) ne by (auto simp: stands_at_def task_view_def Let_def split: if_splits)
    then show ?thesis
      using q dispatch assms(3-5) ne
      by (auto simp: stands_at_def task_view_def update_conv' validateTaskCoordinate_def previous_hash_def coordinate_of_def split: if_splits)
  next
    case terminal
    obtain q where q: "map_of (hs_pending h) d = Some q" "validateTransition q e = Ok ()"
      "validateTaskCoordinate vr (coordinate_of (hs_taskHeads h) d) False = Ok ()"
      "hs_pending h1 = AList.delete d (hs_pending h)" "hs_spent h1 = hs_spent h" "hs_taskHeads h1 = hs_taskHeads h"
      using replay_terminal_Ok [OF terminal(2) assms(3)] assms(4) by auto
    have ne: "sel \<noteq> []" using assms(1) q(1) by (auto simp: stands_at_def task_view_def)
    have l: "rc_Event (vf_Receipt (last sel)) = q" "length sel = 1 \<or> length sel = 2" "d \<in> hs_spent h"
      "hs_taskHeads h d = Some \<lparr>tc_sequence = of_nat (length sel), tc_hash = vf_Hash (last sel)\<rparr>"
      using assms(1) q(1) ne by (auto simp: stands_at_def task_view_def Let_def split: if_splits)
    then show ?thesis
      using q terminal assms(3-5) ne
      by (auto simp: stands_at_def task_view_def delete_conv' validateTaskCoordinate_def previous_hash_def coordinate_of_def split: if_splits)
  qed
  then show "length sel < 3" "stands_at (task_view d h') (sel @ [vr])"
    "rc_TaskSequence (vf_Receipt vr) = of_nat (length sel + 1)" "rc_PreviousTaskHash (vf_Receipt vr) = previous_hash sel"
    "sel \<noteq> [] \<Longrightarrow> validateTransition (rc_Event (vf_Receipt (last sel))) e = Ok ()"
    "length sel = 0 \<Longrightarrow> ev_Phase e = Authorize" "length sel = 1 \<Longrightarrow> ev_Phase e = Dispatch \<or> ev_Phase e = Terminal"
    "length sel = 2 \<Longrightarrow> ev_Phase e = Terminal" by auto
qed

text \<open>One more selected receipt.\<close>

lemma chain_ok_snoc:
  assumes "chain_ok c public nodeID epoch d p n h sel" "n < 2 ^ 63"
    "read_line c public nodeID epoch (Suc n) previous raw = Ok vr" "cl_digest previous" "lifecycle_record vr"
    "updateHistory vr h = Ok h'" "ev_TaskDigest (rc_Event (vf_Receipt vr)) = d" "ev_PermitDigest (rc_Event (vf_Receipt vr)) = p"
    "CHR 0x0D \<notin> set raw" "CHR 0x0A \<notin> set raw"
  shows "chain_ok c public nodeID epoch d p (Suc n) h' (sel @ [vr])"
proof -
  note ok = read_line_Ok [OF assms(3)]
  have pr: "ev_TaskProtocol (rc_Event (vf_Receipt vr)) \<noteq> []" using assms(5) by (simp add: lifecycle_record_def)
  have c: "numbered n sel" "stands_at (task_view d h) sel" "portable_ok c public nodeID epoch d p sel"
    using assms(1) by (simp_all add: chain_ok_def)
  note nx = stands_at_next [OF c(2) assms(6) refl assms(7) pr ok(5)]
  have seq: "rc_Sequence (vf_Receipt vr) \<noteq> 0" "previous_sequence sel < rc_Sequence (vf_Receipt vr)"
    using ok(3) c(1) small_words [OF _ assms(2)] small_words(1) [of 0 n] assms(2)
    by (auto simp: previous_sequence_def numbered_def simp del: of_nat_Suc)
  have line: "portable_line c public nodeID epoch d p sel raw = Ok vr"
    by (rule portable_line_accepts [OF assms(3,5,4,7,8)]) (use nx seq in auto)
  have raw: "raw \<noteq> []" "length raw \<le> MaxLineBytes" using read_line_portable(2) [OF assms(3,5)] by auto
  have "drop_cr raw = raw" using assms(9) raw(1) by (auto simp: drop_cr_def dest: last_in_set)
  then have "portable_ok c public nodeID epoch d p (sel @ [vr])"
    using c(3) line raw assms(9,10) ok(1) by (simp add: portable_ok_def portable_lines_append)
  moreover have "numbered (Suc n) (sel @ [vr])" using ok(3) by (auto simp: numbered_def intro!: exI [of _ "Suc n"])
  ultimately show ?thesis using nx(2) by (simp add: chain_ok_def)
qed

section \<open>What accepted evidence contains\<close>

lemma portable_lines_Ok:
  assumes "portable_lines c public nodeID epoch d p acc lines = Ok records"
  shows "length records = length acc + length lines \<and> take (length acc) records = acc \<and>
    (\<forall>i < length lines. portable_line c public nodeID epoch d p (take (length acc + i) records) (drop_cr (lines ! i)) = Ok (records ! (length acc + i)))"
  using assms
proof (induction lines arbitrary: acc)
  case (Cons line lines)
  from Cons.prems obtain vr where vr: "portable_line c public nodeID epoch d p acc (drop_cr line) = Ok vr"
    "portable_lines c public nodeID epoch d p (acc @ [vr]) lines = Ok records"
    by (auto simp: and_then_Inr_iff split: if_splits)
  note IH = Cons.IH [OF vr(2)]
  have "take (length acc) records = take (length acc) (take (length (acc @ [vr])) records)" by simp
  then have acc: "take (length acc) records = acc" using IH by (metis append_eq_conv_conj)
  have t: "take (Suc (length acc)) records = acc @ [vr]" using IH by simp
  have "records ! length acc = take (Suc (length acc)) records ! length acc" by simp
  then have at: "records ! length acc = vr" by (simp only: t nth_append_length)
  show ?case
  proof (intro conjI allI impI)
    fix i assume "i < length (line # lines)"
    then show "portable_line c public nodeID epoch d p (take (length acc + i) records) (drop_cr ((line # lines) ! i)) = Ok (records ! (length acc + i))"
      using IH acc at vr(1) by (cases i) auto
  qed (use IH acc in auto)
qed simp

lemma portable_line_Ok:
  assumes "portable_line c public nodeID epoch d p records line = Ok vr"
  shows "vf_Raw vr = line" "vf_Hash vr = hashLine c line" "length records < 3"
    "\<exists>payload. Verify c line (receipt_payload_type 4) [cl_KeyID c public \<mapsto> public] = Ok (payload, cl_KeyID c public) \<and>
       decode_receipt payload = Ok (vf_Receipt vr)"
    "rc_TaskSequence (vf_Receipt vr) = of_nat (length records + 1)" "rc_PreviousTaskHash (vf_Receipt vr) = previous_hash records"
    "ev_TaskDigest (rc_Event (vf_Receipt vr)) = d" "ev_PermitDigest (rc_Event (vf_Receipt vr)) = p"
    "ev_TaskProtocol (rc_Event (vf_Receipt vr)) = TaskProtocolLifecycleV1"
    "records \<noteq> [] \<Longrightarrow> validateTransition (rc_Event (vf_Receipt (last records))) (rc_Event (vf_Receipt vr)) = Ok ()"
    "length records = 0 \<Longrightarrow> ev_Phase (rc_Event (vf_Receipt vr)) = Authorize"
    "length records = 1 \<Longrightarrow> ev_Phase (rc_Event (vf_Receipt vr)) = Dispatch \<or> ev_Phase (rc_Event (vf_Receipt vr)) = Terminal"
    "length records = 2 \<Longrightarrow> ev_Phase (rc_Event (vf_Receipt vr)) = Terminal"
    "rc_Sequence (vf_Receipt vr) \<noteq> 0" "0 < previous_sequence records \<Longrightarrow> previous_sequence records < rc_Sequence (vf_Receipt vr)"
proof -
  obtain payload where v: "Verify c line (receipt_payload_type 4) [cl_KeyID c public \<mapsto> public] = Ok (payload, cl_KeyID c public)"
    "decode_receipt payload = Ok (vf_Receipt vr)" "vf_Raw vr = line" "vf_Hash vr = hashLine c line"
    "length line \<noteq> 0" "length records \<noteq> 3"
    "validatePortableTaskReceipt c (vf_Receipt vr) nodeID epoch (length records + 1) (previous_hash records) (previous_sequence records) d p = Ok ()"
    "records \<noteq> [] \<Longrightarrow> validateTransition (rc_Event (vf_Receipt (last records))) (rc_Event (vf_Receipt vr)) = Ok ()"
    using assms by (auto simp: portable_line_def and_then_Inr_iff split: if_splits sum.splits)
  note w = v(7) [unfolded validatePortableTaskReceipt_def Let_def]
  show "vf_Raw vr = line" "vf_Hash vr = hashLine c line" by (rule v(3), rule v(4))
  show "\<exists>payload. Verify c line (receipt_payload_type 4) [cl_KeyID c public \<mapsto> public] = Ok (payload, cl_KeyID c public) \<and>
       decode_receipt payload = Ok (vf_Receipt vr)" using v(1,2) by blast
  show "records \<noteq> [] \<Longrightarrow> validateTransition (rc_Event (vf_Receipt (last records))) (rc_Event (vf_Receipt vr)) = Ok ()" by (rule v(8))
  show "length records < 3"
    using w v(6) by (auto simp: and_then_Inr_iff split: if_splits)
  show "rc_TaskSequence (vf_Receipt vr) = of_nat (length records + 1)" "rc_PreviousTaskHash (vf_Receipt vr) = previous_hash records"
    "ev_TaskDigest (rc_Event (vf_Receipt vr)) = d" "ev_PermitDigest (rc_Event (vf_Receipt vr)) = p"
    "ev_TaskProtocol (rc_Event (vf_Receipt vr)) = TaskProtocolLifecycleV1" "rc_Sequence (vf_Receipt vr) \<noteq> 0"
    "0 < previous_sequence records \<Longrightarrow> previous_sequence records < rc_Sequence (vf_Receipt vr)"
    using w by (auto simp: not_le split: if_splits)
  show "length records = 0 \<Longrightarrow> ev_Phase (rc_Event (vf_Receipt vr)) = Authorize"
    "length records = 1 \<Longrightarrow> ev_Phase (rc_Event (vf_Receipt vr)) = Dispatch \<or> ev_Phase (rc_Event (vf_Receipt vr)) = Terminal"
    "length records = 2 \<Longrightarrow> ev_Phase (rc_Event (vf_Receipt vr)) = Terminal"
    using w by (auto simp: and_then_Inr_iff split: if_splits)
qed

text \<open>The phases of the accepted records.\<close>

definition phases :: "VerifiedReceipt list \<Rightarrow> bytes list" where
  "phases records = map (\<lambda>vr. ev_Phase (rc_Event (vf_Receipt vr))) records"

lemma portable_phases:
  assumes "portable_lines c public nodeID epoch d p [] lines = Ok records"
  shows "phases records \<in> {[], [Authorize], [Authorize, Dispatch], [Authorize, Terminal], [Authorize, Dispatch, Terminal]}"
proof -
  note ok = portable_lines_Ok [OF assms, simplified]
  have at: "portable_line c public nodeID epoch d p (take i records) (drop_cr (lines ! i)) = Ok (records ! i)" if "i < length records" for i
    using ok that by simp
  have le: "length records \<le> 3"
  proof (rule ccontr)
    assume "\<not> length records \<le> 3"
    then show False using portable_line_Ok(3) [OF at [of 3]] by simp
  qed
  have p0: "ev_Phase (rc_Event (vf_Receipt (records ! 0))) = Authorize" if "0 < length records"
    using portable_line_Ok(11) [OF at [OF that]] by simp
  have p1: "ev_Phase (rc_Event (vf_Receipt (records ! 1))) = Dispatch \<or> ev_Phase (rc_Event (vf_Receipt (records ! 1))) = Terminal" if "1 < length records"
    using portable_line_Ok(12) [OF at [OF that]] that by simp
  have p2: "ev_Phase (rc_Event (vf_Receipt (records ! 2))) = Terminal" "ev_Phase (rc_Event (vf_Receipt (records ! 1))) = Dispatch" if "2 < length records"
  proof -
    note f = portable_line_Ok [OF at [OF that]]
    show "ev_Phase (rc_Event (vf_Receipt (records ! 2))) = Terminal" using f(13) that by simp
    have "last (take 2 records) = records ! 1" using that by (simp add: numeral_2_eq_2 take_Suc_conv_app_nth)
    then have "validateTransition (rc_Event (vf_Receipt (records ! 1))) (rc_Event (vf_Receipt (records ! 2))) = Ok ()"
      using f(10) that by fastforce
    then show "ev_Phase (rc_Event (vf_Receipt (records ! 1))) = Dispatch"
      using p1 that f(9) by (auto simp: validateTransition_Ok_iff split: if_splits)
  qed
  consider "records = []" | a where "records = [a]" | a b where "records = [a, b]" | a b e where "records = [a, b, e]"
    using le by (auto simp: numeral_3_eq_3 le_Suc_eq length_Suc_conv)
  then show ?thesis using p0 p1 p2 by cases (auto simp: phases_def)
qed

section \<open>Properties\<close>

lemma split_on_separates: "x \<in> set (split_on d s) \<Longrightarrow> d \<notin> set x"
  by (induction s arbitrary: x) (fastforce split: list.splits if_splits)+

lemma selection:
  assumes "crypto_ok c" "length (file_lines content) < 2 ^ 63" "CHR 0x0D \<notin> set content"
    "verifyFile c content public nodeID epoch (records_visit (select_task d p)) (empty_history, []) = Ok (head, h, selected)"
    "\<forall>vr \<in> set selected. lifecycle_record vr"
  shows "stands_at (task_view d h) selected" "portable_ok c public nodeID epoch d p selected"
proof -
  let ?P = "\<lambda>(ys :: bytes list) (head :: Head) (hs :: History \<times> VerifiedReceipt list). length ys \<le> length (file_lines content) \<longrightarrow> cl_digest (hd_ChainHash head) \<and>
    ((\<forall>vr \<in> set (snd hs). lifecycle_record vr) \<longrightarrow> chain_ok c public nodeID epoch d p (length ys) (fst hs) (snd hs))"
  have "?P ([] @ file_lines content) head (h, selected)"
  proof (rule verify_lines_inv [where P = ?P and head = "start_head c public nodeID epoch" and h = "(empty_history, [])"])
    show "verify_lines c public nodeID epoch (records_visit (select_task d p)) (length []) (start_head c public nodeID epoch) (empty_history, [])
        (file_lines content) = Ok (head, h, selected)"
      using verifyFile_lines [OF assms(4)] by simp
    show "?P [] (start_head c public nodeID epoch) (empty_history, [])"
      using zeroHash_digest
      by (simp add: start_head_def chain_ok_def numbered_def stands_at_def task_view_def empty_history_def portable_ok_def)
  next
    fix ys head0 hs x vr hs'
    assume P: "?P ys head0 hs" and x: "x \<in> set (file_lines content)"
      and rd: "read_line c public nodeID epoch (Suc (length ys)) (hd_ChainHash head0) (drop_cr x) = Ok vr"
      and v: "records_visit (select_task d p) vr hs = Ok hs'"
    have u: "updateHistory vr (fst hs) = Ok (fst hs')" "select_task d p vr (snd hs) = Ok (snd hs')"
      using v by (auto simp: records_visit_def and_then_Inr_iff)
    have raw: "drop_cr x = x" "CHR 0x0D \<notin> set x" "CHR 0x0A \<notin> set x"
      using file_lines_no_cr [OF assms(3) x] split_on_chars [of x "CHR 0x0A" content] split_on_separates [of x "CHR 0x0A" content] x assms(3)
      by (auto simp: file_lines_def dest: in_set_butlastD)
    show "?P (ys @ [x]) (head0\<lparr>hd_Sequence := rc_Sequence (vf_Receipt vr), hd_ChainHash := vf_Hash vr\<rparr>) hs'"
    proof (intro impI conjI)
      show "cl_digest (hd_ChainHash (head0\<lparr>hd_Sequence := rc_Sequence (vf_Receipt vr), hd_ChainHash := vf_Hash vr\<rparr>))"
        using read_line_Ok(2) [OF rd] hashLine_digest [OF assms(1)] by simp
      assume len: "length (ys @ [x]) \<le> length (file_lines content)" and life: "\<forall>vr \<in> set (snd hs'). lifecycle_record vr"
      have n: "length ys < 2 ^ 63" using len assms(2) by simp
      show "chain_ok c public nodeID epoch d p (length (ys @ [x])) (fst hs') (snd hs')"
      proof (cases "ev_TaskDigest (rc_Event (vf_Receipt vr)) = d")
        case True
        then have sel: "snd hs' = snd hs @ [vr]" "ev_PermitDigest (rc_Event (vf_Receipt vr)) = p"
          using u(2) by (auto simp: select_task_def Let_def split: if_splits)
        have "chain_ok c public nodeID epoch d p (length ys) (fst hs) (snd hs)" "cl_digest (hd_ChainHash head0)" "lifecycle_record vr"
          using P len life sel(1) by auto
        from chain_ok_snoc [OF this(1) n rd this(2,3) u(1) True sel(2)] raw sel(1) show ?thesis by simp
      next
        case False
        then have "snd hs' = snd hs" using u(2) by (auto simp: select_task_def Let_def split: if_splits)
        then show ?thesis
          using P len life updateHistory_other [OF u(1) False] by (simp add: chain_ok_def numbered_Suc)
      qed
    qed
  qed
  then show "stands_at (task_view d h) selected" "portable_ok c public nodeID epoch d p selected"
    using assms(5) by (simp_all add: chain_ok_def)
qed

lemma marshal_records_disk:
  assumes "\<forall>vr \<in> set records. vf_Raw vr \<noteq> [] \<and> length (vf_Raw vr) \<le> MaxLineBytes \<and> CHR 0x0D \<notin> set (vf_Raw vr) \<and> CHR 0x0A \<notin> set (vf_Raw vr)"
    "length out + length records * (MaxLineBytes + 1) \<le> MaxPortableTaskEvidenceBytes"
  shows "marshal_records out records = Ok (out @ disk_of (map vf_Raw records)) \<and>
    length (out @ disk_of (map vf_Raw records)) \<le> MaxPortableTaskEvidenceBytes"
  using assms
proof (induction records arbitrary: out)
  case (Cons vr records)
  have "length (vf_Raw vr) \<le> MaxLineBytes" using Cons.prems(1) by simp
  then have "length (out @ vf_Raw vr @ [CHR 0x0A]) + length records * (MaxLineBytes + 1) \<le> MaxPortableTaskEvidenceBytes"
    "\<not> int (length out) > int MaxPortableTaskEvidenceBytes - int (length (vf_Raw vr)) - 1"
    using Cons.prems(2) by simp_all
  with Cons.IH [of "out @ vf_Raw vr @ [CHR 0x0A]"] Cons.prems(1) show ?case by (simp add: disk_of_def)
qed (simp add: disk_of_def)

lemma portable_accepts:
  assumes "crypto_ok c" "VerifyRecords c env path public nodeID epoch (select_task d p) [] = Ok (head, selected)"
    "oe_lstat env = Present info" "CHR 0x0D \<notin> set (fi_content info)" "cl_digest d" "cl_digest p"
    "\<forall>vr \<in> set selected. lifecycle_record vr" "selected \<noteq> []" "ev_Phase (rc_Event (vf_Receipt (last selected))) = Terminal"
  shows "\<exists>raw. MarshalPortableTaskEvidence selected = Ok raw \<and>
    VerifyPortableTaskEvidence c raw public nodeID epoch d p = Ok \<lparr>pe_Records = selected, pe_Terminal =
      \<lparr>hd_NodeID = nodeID, hd_Epoch = epoch, hd_Sequence = rc_Sequence (vf_Receipt (last selected)),
       hd_ChainHash = vf_Hash (last selected), hd_KeyID = cl_KeyID c public\<rparr>\<rparr>"
proof -
  obtain info' h where f: "oe_lstat env = Present info'" "int (length (fi_content info')) \<le> MaxLogBytes"
    "verifyFile c (fi_content info') public nodeID epoch (records_visit (select_task d p)) (empty_history, []) = Ok (head, h, selected)"
    by (rule VerifyRecords_file [OF assms(2)])
  have info: "info' = info" using f(1) assms(3) by simp
  have args: "length public = 32" "cl_validText nodeID 256" "epoch \<noteq> 0"
    using assms(2) by (auto simp: VerifyRecords_def split: if_splits)
  note sel = selection [OF assms(1) bounded_lines [OF f(2)] _ f(3) assms(7), unfolded info, OF assms(4)]
  note ok = sel(2) [unfolded portable_ok_def]
  let ?raw = "disk_of (map vf_Raw selected)"
  have len: "length selected = 2 \<or> length selected = 3"
    using sel(1) assms(8,9) by (auto simp: stands_at_def Let_def)
  have m: "marshal_records [] selected = Ok ?raw" "length ?raw \<le> MaxPortableTaskEvidenceBytes"
    using marshal_records_disk [of selected "[]"] ok len by (auto simp: MaxPortableTaskEvidenceBytes_def)
  have lines: "file_lines ?raw = map vf_Raw selected" using ok by (intro file_lines_joined) auto
  have ph: "phases selected \<in> {[], [Authorize], [Authorize, Dispatch], [Authorize, Terminal], [Authorize, Dispatch, Terminal]}"
    using portable_phases ok by blast
  have "ev_Phase (rc_Event (vf_Receipt (selected ! 0))) = Authorize"
    "length selected = 3 \<Longrightarrow> ev_Phase (rc_Event (vf_Receipt (selected ! 1))) = Dispatch"
    using ph len by (auto simp: phases_def numeral_2_eq_2 numeral_3_eq_3 length_Suc_conv)
  moreover have "last ?raw = CHR 0x0A" "?raw \<noteq> []" using last_disk [of "map vf_Raw selected"] assms(8) by auto
  ultimately have "VerifyPortableTaskEvidence c ?raw public nodeID epoch d p = Ok \<lparr>pe_Records = selected, pe_Terminal =
      \<lparr>hd_NodeID = nodeID, hd_Epoch = epoch, hd_Sequence = rc_Sequence (vf_Receipt (last selected)),
       hd_ChainHash = vf_Hash (last selected), hd_KeyID = cl_KeyID c public\<rparr>\<rparr>"
    using m(2) lines ok len args assms(5,6,9) by (auto simp: VerifyPortableTaskEvidence_def Let_def)
  moreover have "MarshalPortableTaskEvidence selected = Ok ?raw" using m(1) len by (auto simp: MarshalPortableTaskEvidence_def)
  ultimately show ?thesis by blast
qed


text \<open>C9: Accepted portable evidence is a closed life cycle of the expected task. \<open>VerifyPortableTaskEvidence\<close> succeeds only on lines that
  each carry a signature of the ledger key over a version 4 receipt of that task and permit; the phases are authorize,
  terminal or authorize, dispatch, terminal; the task sequence counts from 1; every receipt names the hash of the line before it;
  the ledger positions grow; and the reported head is the position and hash of the last line.\<close>

theorem portable_evidence_sound:
  assumes "VerifyPortableTaskEvidence c raw public nodeID epoch d p = Ok ev"
  shows "map vf_Raw (pe_Records ev) = map drop_cr (file_lines raw) \<and>
    phases (pe_Records ev) \<in> {[Authorize, Terminal], [Authorize, Dispatch, Terminal]} \<and>
    (\<forall>i < length (pe_Records ev). let vr = pe_Records ev ! i; r = vf_Receipt vr in
       (\<exists>payload. Verify c (vf_Raw vr) (receipt_payload_type 4) [cl_KeyID c public \<mapsto> public] = Ok (payload, cl_KeyID c public) \<and>
          decode_receipt payload = Ok r) \<and>
       ev_TaskDigest (rc_Event r) = d \<and> ev_PermitDigest (rc_Event r) = p \<and> rc_TaskSequence r = of_nat (i + 1) \<and>
       rc_PreviousTaskHash r = (if i = 0 then zeroHash else hashLine c (vf_Raw (pe_Records ev ! (i - 1)))) \<and>
       (0 < i \<longrightarrow> rc_Sequence (vf_Receipt (pe_Records ev ! (i - 1))) < rc_Sequence r)) \<and>
    hd_ChainHash (pe_Terminal ev) = hashLine c (vf_Raw (last (pe_Records ev)))"
proof -
  obtain records where r: "portable_lines c public nodeID epoch d p [] (file_lines raw) = Ok records" "2 \<le> length records"
    "ev_Phase (rc_Event (vf_Receipt (last records))) = Terminal" "pe_Records ev = records" "hd_ChainHash (pe_Terminal ev) = vf_Hash (last records)"
    using assms by (auto simp: VerifyPortableTaskEvidence_def Let_def and_then_Inr_iff split: if_splits)
  note ok = portable_lines_Ok [OF r(1), simplified]
  have at: "portable_line c public nodeID epoch d p (take i records) (drop_cr (file_lines raw ! i)) = Ok (records ! i)" if "i < length records" for i
    using ok that by simp
  have raws: "vf_Raw (records ! i) = drop_cr (file_lines raw ! i)" "vf_Hash (records ! i) = hashLine c (vf_Raw (records ! i))" if "i < length records" for i
    using portable_line_Ok(1,2) [OF at [OF that]] by simp_all
  have prev: "last (take i records) = records ! (i - 1)" "take i records \<noteq> []" if "0 < i" "i < length records" for i
    using that by (cases i; simp add: take_Suc_conv_app_nth)+
  have step: "let vr = records ! i; r = vf_Receipt vr in
       (\<exists>payload. Verify c (vf_Raw vr) (receipt_payload_type 4) [cl_KeyID c public \<mapsto> public] = Ok (payload, cl_KeyID c public) \<and>
          decode_receipt payload = Ok r) \<and>
       ev_TaskDigest (rc_Event r) = d \<and> ev_PermitDigest (rc_Event r) = p \<and> rc_TaskSequence r = of_nat (i + 1) \<and>
       rc_PreviousTaskHash r = (if i = 0 then zeroHash else hashLine c (vf_Raw (records ! (i - 1)))) \<and>
       (0 < i \<longrightarrow> rc_Sequence (vf_Receipt (records ! (i - 1))) < rc_Sequence r)" if i: "i < length records" for i
  proof -
    note f = portable_line_Ok [OF at [OF i]]
    have "rc_Sequence (vf_Receipt (records ! (i - 1))) \<noteq> 0" if "0 < i"
      using portable_line_Ok(14) [OF at [of "i - 1"]] i by simp
    then have "rc_Sequence (vf_Receipt (records ! (i - 1))) < rc_Sequence (vf_Receipt (records ! i))" if "0 < i"
      using f(15) prev [OF that i] that by (simp add: previous_sequence_def word_gt_0)
    moreover have "previous_hash (take i records) = (if i = 0 then zeroHash else hashLine c (vf_Raw (records ! (i - 1))))"
      using prev [OF _ i] raws(2) [of "i - 1"] i by (simp add: previous_hash_def)
    ultimately show ?thesis using f(1,4-8) i by (simp add: Let_def)
  qed
  have "map vf_Raw records = map drop_cr (file_lines raw)" using ok raws(1) by (intro nth_equalityI) auto
  moreover have "phases records \<in> {[Authorize, Terminal], [Authorize, Dispatch, Terminal]}"
  proof -
    have "records \<noteq> []" using r(2) by auto
    then have "length (phases records) = length records" "last (phases records) = Terminal"
      using r(3) by (simp_all add: phases_def last_map)
    then show ?thesis using portable_phases [OF r(1)] r(2) by auto
  qed
  moreover have "vf_Hash (last records) = hashLine c (vf_Raw (last records))"
  proof -
    have "records \<noteq> []" using r(2) by auto
    then show ?thesis using raws(2) [of "length records - 1"] by (simp add: last_conv_nth)
  qed
  ultimately show ?thesis unfolding r(4,5) using step by blast
qed

section \<open>A concrete task\<close>

text \<open>What \<open>VerifyRecords\<close> sees in the file of a handle, line by line.\<close>

definition observed :: "crypto \<Rightarrow> Log \<Rightarrow> (VerifiedReceipt \<Rightarrow> 'v \<Rightarrow> 'v result) \<Rightarrow> 'v \<Rightarrow> bytes list \<Rightarrow> 'v \<Rightarrow> bool" where
  "observed c l visit v raws w \<longleftrightarrow> lg_disk l = disk_of raws \<and> (\<forall>raw \<in> set raws. clean_line raw) \<and> lg_next l = of_nat (length raws) + 1 \<and>
     verify_lines c (lg_public l) (lg_nodeID l) (lg_epoch l) (records_visit visit) 0 (start_head c (lg_public l) (lg_nodeID l) (lg_epoch l))
       (empty_history, v) raws =
     Ok (\<lparr>hd_NodeID = lg_nodeID l, hd_Epoch = lg_epoch l, hd_Sequence = of_nat (length raws), hd_ChainHash = lg_last l,
          hd_KeyID = lg_keyID l\<rparr>, history_of l, w)"

lemma observed_extend:
  assumes "prepared c l e d f" "ledger_good c l" "sane_clock now" "readable e" "stored c l now e d l1" "observed c l visit v raws w"
    "\<And>raw. visit (record_of c l now e raw) w = Ok (w' raw)"
  obtains raw where "observed c (f l1) visit v (raws @ [raw]) (w' raw)"
proof -
  have inv: "ledger_inv c l" using assms(2) by (simp add: ledger_good_def)
  note o = assms(6) [unfolded observed_def]
  obtain raw reserved usage where s: "l1 = record_line c l (receipt_for l now e) raw reserved usage" "clean_line raw"
    "read_line c (lg_public l) (lg_nodeID l) (lg_epoch l) (Suc (length raws)) (lg_last l) raw = Ok (record_of c l now e raw)"
    using stored_line [OF assms(2,3) prepared_valid [OF assms(1)] assms(4,5), of "length raws"] o by metis
  note fr = prepared_frame [OF assms(1), of l1] and id = stored_identity [OF assms(5)]
  have sel: "lg_last l1 = hashLine c raw" "rc_Sequence (receipt_for l now e) = of_nat (length raws) + 1" "lg_disk l1 = disk_of (raws @ [raw])"
    using o by (simp_all add: s(1) receipt_for_def disk_of_snoc)
  have "history_of (f l1) = (history_of (f l1))\<lparr>hs_taskHeads := (if ev_TaskProtocol e = [] then lg_taskHeads l
         else (lg_taskHeads l)(ev_TaskDigest e \<mapsto> \<lparr>tc_sequence = rc_TaskSequence (receipt_for l now e), tc_hash = hashLine c raw\<rparr>))\<rparr>"
    unfolding history_of_def fr by (simp add: s(1))
  then have "records_visit visit (record_of c l now e raw) (history_of l, w) = Ok (history_of (f l1), w' raw)"
    using prepared_history [OF assms(1) inv assms(5), of raw] assms(7) [of raw] by (simp add: records_visit_def)
  then have "observed c (f l1) visit v (raws @ [raw]) (w' raw)"
    using o s(2,3) drop_cr_clean [OF s(2)] by (simp add: observed_def fr id sel verify_lines_append clean_line_def add.commute)
  then show ?thesis by (rule that)
qed

definition demo_abort :: Event where
  "demo_abort = demo_service\<lparr>ev_Phase := Terminal, ev_Outcome := Failed, ev_ErrorCode := ''denied''\<rparr>"

lemma demo_abort_valid: "validateEvent c demo_abort = Ok ()"
  using demo_identity
  by (simp add: event_checks demo_call_def demo_service_def demo_abort_def kinds_distinct(7-9) [symmetric] protocol_nonempty [symmetric])

lemma demo_task_fields:
  "readable demo_service" "readable demo_abort" "ev_TaskDigest demo_abort = hex_body ''sha256:''" "ev_PermitDigest demo_abort = hex_body ''sha256:''"
  "ev_TaskDigest demo_service = hex_body ''sha256:''" "ev_PermitDigest demo_service = hex_body ''sha256:''"
  "ev_TaskProtocol demo_service = TaskProtocolLifecycleV1" "ev_TaskProtocol demo_abort = TaskProtocolLifecycleV1"
  "ev_TargetTaskDigest demo_service = []" "ev_TargetTaskDigest demo_abort = []" "ev_Phase demo_abort = Terminal"
  "validateTransition demo_service demo_abort = Ok ()"
  by (simp_all add: readable_def demo_service_def demo_abort_def receipt_version_def schema_matches_def demo_call_def
      validateTransition_Ok_iff sameCall_def protocol_nonempty [symmetric])

lemma demo_task_file:
  obtains l raws a b where "observed demo_crypto l (select_task (hex_body ''sha256:'') (hex_body ''sha256:'')) [] raws [a, b]"
    "lifecycle_record a" "lifecycle_record b" "ev_Phase (rc_Event (vf_Receipt b)) = Terminal" "lg_public l = ed_public demo_crypto demo_key"
    "lg_nodeID l = ''node''" "lg_epoch l = 1" "int (length (lg_disk l)) \<le> MaxLogBytes"
proof -
  let ?d = "hex_body ''sha256:''" and ?v = "select_task (hex_body ''sha256:'') (hex_body ''sha256:'')"
  obtain l1 where l1: "Begin demo_crypto 0 IoOk demo_log demo_service = (call_begun demo_service l1, Ok (headLocked l1))"
    "stored demo_crypto demo_log 0 demo_service (pendingReservation demo_service) l1" "ledger_good demo_crypto (call_begun demo_service l1)"
    by (rule demo_begun [OF demo_may_begin(2)]) (simp_all add: demo_service_def)
  have p1: "prepared demo_crypto demo_log demo_service (pendingReservation demo_service) (call_begun demo_service)"
    using demo_may_begin(2) by (intro p_begin) (simp_all add: may_begin_def)
  have o0: "observed demo_crypto demo_log ?v [] [] []"
    by (simp add: observed_def demo_log_def disk_of_def start_head_def empty_history_def history_of_def)
  obtain raw1 where o1: "observed demo_crypto (call_begun demo_service l1) ?v [] [raw1] [record_of demo_crypto demo_log 0 demo_service raw1]"
    by (rule observed_extend [OF p1 demo_log_good demo_clock demo_task_fields(1) l1(2) o0, of "\<lambda>raw. [record_of demo_crypto demo_log 0 demo_service raw]"])
      (simp_all add: select_task_def demo_task_fields)
  let ?l = "call_begun demo_service l1"
  have pend: "map_of (lg_pending ?l) (ev_TaskDigest demo_abort) = Some demo_service" by (simp add: update_conv' demo_task_fields)
  have op: "lg_open ?l" "\<not> lg_failed ?l" using l1(2) by (auto simp: call_begun_def Let_def stored_def)
  obtain l2 where l2: "stored demo_crypto ?l 0 demo_abort (- pendingReservation demo_service) l2"
    by (rule Finish_accepted [OF l1(3) op demo_clock demo_abort_valid demo_task_fields(11) pend demo_task_fields(12)])
  have p2: "prepared demo_crypto ?l demo_abort (- pendingReservation demo_service) (call_finished demo_abort)"
    by (rule p_finish [OF demo_abort_valid demo_task_fields(11) pend demo_task_fields(12)])
  obtain raw2 where o2: "observed demo_crypto (call_finished demo_abort l2) ?v [] ([raw1] @ [raw2])
      [record_of demo_crypto demo_log 0 demo_service raw1, record_of demo_crypto ?l 0 demo_abort raw2]"
    by (rule observed_extend [OF p2 l1(3) demo_clock demo_task_fields(2) l2 o1,
          of "\<lambda>raw. [record_of demo_crypto demo_log 0 demo_service raw1, record_of demo_crypto ?l 0 demo_abort raw]"])
      (simp_all add: select_task_def demo_task_fields)
  note fr = prepared_frame [OF p1, of l1] prepared_frame [OF p2, of l2]
  show ?thesis
    by (rule that [OF o2])
      (use l2 stored_identity [OF l1(2)] stored_identity [OF l2] in
        \<open>auto simp: lifecycle_record_def demo_task_fields fr demo_log_def stored_def admit_usage_Ok_iff\<close>)
qed

lemma demo_task_records:
  obtains env head info a b where "VerifyRecords demo_crypto env ''/ledger'' (ed_public demo_crypto demo_key) ''node'' 1
      (select_task (hex_body ''sha256:'') (hex_body ''sha256:'')) [] = Ok (head, [a, b])"
    "oe_lstat env = Present info" "CHR 0x0D \<notin> set (fi_content info)" "\<forall>vr \<in> set [a, b]. lifecycle_record vr"
    "ev_Phase (rc_Event (vf_Receipt (last [a, b]))) = Terminal"
proof -
  let ?d = "hex_body ''sha256:''"
  obtain l raws a b where o: "observed demo_crypto l (select_task ?d ?d) [] raws [a, b]" "lifecycle_record a" "lifecycle_record b"
    "ev_Phase (rc_Event (vf_Receipt b)) = Terminal" "lg_public l = ed_public demo_crypto demo_key" "lg_nodeID l = ''node''" "lg_epoch l = 1"
    "int (length (lg_disk l)) \<le> MaxLogBytes"
    by (rule demo_task_file)
  have disk: "lg_disk l = disk_of raws" "\<forall>raw \<in> set raws. clean_line raw" using o(1) by (simp_all add: observed_def)
  have nocr: "CHR 0x0D \<notin> set (lg_disk l)" using disk clean_no_newline by (auto simp: disk_of_def)
  have args: "validPath ''/ledger''" "length (ed_public demo_crypto demo_key) = 32"
    by (simp_all add: validPath_def contains_nul_def demo_crypto_def demo_key_def)
  have "\<exists>head. VerifyRecords demo_crypto (demo_env (demo_file (lg_disk l))) ''/ledger'' (ed_public demo_crypto demo_key) ''node'' 1
      (select_task ?d ?d) [] = Ok (head, [a, b])"
    using o disk VerifyRecords_served [OF demo_serves args demo_node, of 1 demo_crypto "lg_disk l" "select_task ?d ?d" "[]"]
    by (simp add: observed_def verifyFile_disk)
  then show ?thesis
    using that [of _ _ a b "\<lparr>fi_regular = True, fi_perm = 384, fi_content = lg_disk l\<rparr>"] o(2-4) nocr
    by (auto simp: demo_env_def demo_file_def)
qed


lemma demo_evidence:
  "\<exists>raw ev. VerifyPortableTaskEvidence demo_crypto raw (ed_public demo_crypto demo_key) ''node'' 1 (hex_body ''sha256:'') (hex_body ''sha256:'') = Ok ev"
proof -
  obtain env head info a b where r: "VerifyRecords demo_crypto env ''/ledger'' (ed_public demo_crypto demo_key) ''node'' 1
      (select_task (hex_body ''sha256:'') (hex_body ''sha256:'')) [] = Ok (head, [a, b])"
    "oe_lstat env = Present info" "CHR 0x0D \<notin> set (fi_content info)" "\<forall>vr \<in> set [a, b]. lifecycle_record vr"
    "ev_Phase (rc_Event (vf_Receipt (last [a, b]))) = Terminal"
    by (rule demo_task_records)
  from portable_accepts [OF demo_crypto_ok r(1-3) hex_body_checks(1,1) r(4) _ r(5)] show ?thesis by blast
qed

theorem portable_evidence_sound_witness:
  "\<exists>raw ev. VerifyPortableTaskEvidence demo_crypto raw (ed_public demo_crypto demo_key) ''node'' 1 (hex_body ''sha256:'') (hex_body ''sha256:'') = Ok ev \<and>
     phases (pe_Records ev) \<in> {[Authorize, Terminal], [Authorize, Dispatch, Terminal]}"
  using demo_evidence portable_evidence_sound by blast

end
