(* ===== verification/Command_Queue.thy ===== *)
theory Command_Queue
  imports Machines "HOL-Library.Multiset" "HOL-Library.Sublist"
begin

text \<open>
  \<open>internal/uplink/queue.go\<close> with the producer and consumer of \<open>internal/uplink/poller.go\<close> (\<open>admit\<close> and \<open>consume\<close>): a bounded,
  deduplicating queue between two goroutines. Every method body that holds the mutex is one action, the non-blocking send
  of \<open>signal\<close> and the receive of \<open>waitForWork\<close> are actions of their own, and a run is any sequence of actions, so it covers every
  interleaving of the two goroutines. An action that its goroutine cannot take at that moment leaves the state unchanged.
\<close>

section \<open>The queue\<close>

record command =
  cm_CommandID :: string
  cm_NodeID :: string
  cm_RuntimeRef :: string
  cm_Kind :: string
  cm_Payload :: string
  cm_ClaimGeneration :: int
  cm_InstanceGeneration :: int

definition DefaultCommandQueueDepth :: int where "DefaultCommandQueueDepth = 256"

record commandQueue =
  cq_depth :: int
  cq_items :: "command list"
  cq_inflight :: "string set"
  cq_outstanding :: int
  cq_wake :: bool

definition newCommandQueue :: "int \<Rightarrow> commandQueue" where
  "newCommandQueue depth = \<lparr>cq_depth = depth, cq_items = [], cq_inflight = {}, cq_outstanding = 0, cq_wake = False\<rparr>"

text \<open>The loop of \<open>enqueue\<close>; the counter \<open>admitted\<close> is the length of the list of admitted commands.\<close>

definition admit_command :: "command \<Rightarrow> commandQueue \<Rightarrow> commandQueue" where
  "admit_command c q = q\<lparr>cq_items := cq_items q @ [c], cq_outstanding := cq_outstanding q + 1,
     cq_inflight := (if cm_CommandID c \<noteq> [] then insert (cm_CommandID c) (cq_inflight q) else cq_inflight q)\<rparr>"

fun enqueue_loop ::
  "command list \<Rightarrow> commandQueue \<Rightarrow> command list \<Rightarrow> command list \<Rightarrow> command list \<Rightarrow> commandQueue \<times> command list \<times> command list \<times> command list" where
  "enqueue_loop [] q admitted rejected duplicates = (q, admitted, rejected, duplicates)"
| "enqueue_loop (c # cmds) q admitted rejected duplicates =
     (if cm_CommandID c \<noteq> [] \<and> cm_CommandID c \<in> cq_inflight q then enqueue_loop cmds q admitted rejected (duplicates @ [c])
      else if cq_outstanding q \<ge> cq_depth q then enqueue_loop cmds q admitted (rejected @ [c]) duplicates
      else enqueue_loop cmds (admit_command c q) (admitted @ [c]) rejected duplicates)"

definition signal :: "commandQueue \<Rightarrow> commandQueue" where "signal q = q\<lparr>cq_wake := True\<rparr>"

text \<open>\<open>enqueue\<close> as one call: the loop under the mutex, then the signal.\<close>

definition enqueue :: "command list \<Rightarrow> commandQueue \<Rightarrow> commandQueue \<times> command list \<times> command list" where
  "enqueue cmds q =
     (case enqueue_loop cmds q [] [] [] of
        (q', admitted, rejected, duplicates) \<Rightarrow> (if admitted = [] then q' else signal q', rejected, duplicates))"

text \<open>\<open>waitForWork\<close>: \<open>None\<close> while it blocks; when both channels are ready, the runtime picks one.\<close>

definition waitForWork :: "bool \<Rightarrow> bool \<Rightarrow> commandQueue \<Rightarrow> (commandQueue \<times> bool) option" where
  "waitForWork cancelled pick_done q =
     (if cancelled \<and> (pick_done \<or> \<not> cq_wake q) then Some (q, False)
      else if cq_wake q then Some (q\<lparr>cq_wake := False\<rparr>, True) else None)"

definition drain :: "commandQueue \<Rightarrow> commandQueue \<times> command list" where
  "drain q = (q\<lparr>cq_items := []\<rparr>, cq_items q)"

fun complete :: "command list \<Rightarrow> commandQueue \<Rightarrow> commandQueue" where
  "complete [] q = q"
| "complete (c # batch) q =
     complete batch (q\<lparr>cq_outstanding := (if cq_outstanding q > 0 then cq_outstanding q - 1 else cq_outstanding q),
       cq_inflight := (if cm_CommandID c \<noteq> [] then cq_inflight q - {cm_CommandID c} else cq_inflight q)\<rparr>)"

definition outstandingNow :: "commandQueue \<Rightarrow> int" where "outstandingNow q = cq_outstanding q"

fun join_comma :: "string list \<Rightarrow> string" where
  "join_comma [] = []"
| "join_comma [x] = x"
| "join_comma (x # y # xs) = x @ '','' @ join_comma (y # xs)"

definition commandIDs :: "command list \<Rightarrow> string" where "commandIDs cmds = join_comma (map cm_CommandID cmds)"

definition runtimeRefs :: "command list \<Rightarrow> string" where "runtimeRefs cmds = join_comma (map cm_RuntimeRef cmds)"

section \<open>Producer and consumer\<close>

text \<open>Where the consumer is: in \<open>waitForWork\<close>, after it, in \<open>executeBatch\<close>, or returned.\<close>

datatype consumer = Waiting | Woken | Executing "command list" | Stopped

record uplink =
  up_queue :: commandQueue
  up_signalling :: bool  \<comment> \<open>the producer has released the mutex and has not signalled yet\<close>
  up_cancelled :: bool   \<comment> \<open>the context is cancelled\<close>
  up_consumer :: consumer

definition start_uplink :: "int \<Rightarrow> uplink" where
  "start_uplink depth = \<lparr>up_queue = newCommandQueue depth, up_signalling = False, up_cancelled = False, up_consumer = Waiting\<rparr>"

datatype action =
    Poll "command list"   \<comment> \<open>\<open>enqueue\<close> up to the release of the mutex\<close>
  | Signal                \<comment> \<open>the \<open>signal\<close> of that \<open>enqueue\<close>\<close>
  | Wake bool             \<comment> \<open>\<open>waitForWork\<close> returns; the flag picks among ready channels\<close>
  | Drain                 \<comment> \<open>\<open>drain\<close>\<close>
  | Complete              \<comment> \<open>\<open>executeBatch\<close> has returned and \<open>complete\<close> runs\<close>
  | Cancel                \<comment> \<open>the context is cancelled\<close>

datatype outcome = Polled "command list" "command list" "command list" | Drained "command list" | Quiet

fun up_exec :: "action \<Rightarrow> uplink \<Rightarrow> uplink \<times> outcome" where
  "up_exec (Poll cmds) u =
     (if up_signalling u then (u, Quiet)
      else (case enqueue_loop cmds (up_queue u) [] [] [] of (q, admitted, rejected, duplicates) \<Rightarrow>
        (u\<lparr>up_queue := q, up_signalling := (admitted \<noteq> [])\<rparr>, Polled admitted rejected duplicates)))"
| "up_exec Signal u =
     (if up_signalling u then (u\<lparr>up_queue := signal (up_queue u), up_signalling := False\<rparr>, Quiet) else (u, Quiet))"
| "up_exec (Wake pick_done) u =
     (if up_consumer u \<noteq> Waiting then (u, Quiet)
      else (case waitForWork (up_cancelled u) pick_done (up_queue u) of
          None \<Rightarrow> (u, Quiet)
        | Some (q, True) \<Rightarrow> (u\<lparr>up_queue := q, up_consumer := Woken\<rparr>, Quiet)
        | Some (q, False) \<Rightarrow> (u\<lparr>up_queue := q, up_consumer := Stopped\<rparr>, Quiet)))"
| "up_exec Drain u =
     (if up_consumer u \<noteq> Woken then (u, Quiet)
      else (case drain (up_queue u) of (q, batch) \<Rightarrow>
        (u\<lparr>up_queue := q, up_consumer := (if batch = [] then Waiting else Executing batch)\<rparr>, Drained batch)))"
| "up_exec Complete u =
     (case up_consumer u of
        Executing batch \<Rightarrow> (u\<lparr>up_queue := complete batch (up_queue u), up_consumer := Waiting\<rparr>, Quiet)
      | _ \<Rightarrow> (u, Quiet))"
| "up_exec Cancel u = (u\<lparr>up_cancelled := True\<rparr>, Quiet)"

section \<open>Enqueueing\<close>

definition ids :: "command list \<Rightarrow> string list" where
  "ids cmds = filter (\<lambda>i. i \<noteq> []) (map cm_CommandID cmds)"

lemma ids_simps [simp]: "ids [] = []" "ids (xs @ ys) = ids xs @ ids ys"
  "ids (c # cs) = (if cm_CommandID c = [] then ids cs else cm_CommandID c # ids cs)"
  by (simp_all add: ids_def)

text \<open>What the loop does with a batch: \<open>as\<close>, \<open>rs\<close> and \<open>ds\<close> are the commands it admits, rejects and skips.\<close>

definition enqueued :: "command list \<Rightarrow> commandQueue \<Rightarrow> commandQueue \<Rightarrow> command list \<Rightarrow> command list \<Rightarrow> command list \<Rightarrow> bool" where
  "enqueued cmds q q' as rs ds \<longleftrightarrow> mset cmds = mset as + mset rs + mset ds \<and> subseq as cmds \<and> cq_items q' = cq_items q @ as \<and>
     cq_outstanding q' = cq_outstanding q + int (length as) \<and> cq_inflight q' = cq_inflight q \<union> set (ids as) \<and>
     distinct (ids as) \<and> set (ids as) \<inter> cq_inflight q = {} \<and> cq_wake q' = cq_wake q \<and> cq_depth q' = cq_depth q \<and>
     (cq_outstanding q \<le> cq_depth q \<longrightarrow> cq_outstanding q' \<le> cq_depth q) \<and> (rs \<noteq> [] \<longrightarrow> cq_depth q \<le> cq_outstanding q') \<and>
     (\<forall>c \<in> set ds. cm_CommandID c \<noteq> [] \<and> cm_CommandID c \<in> cq_inflight q')"

lemma enqueued_dup: "enqueued cmds q q' as rs ds \<Longrightarrow> cm_CommandID c \<noteq> [] \<Longrightarrow> cm_CommandID c \<in> cq_inflight q \<Longrightarrow> enqueued (c # cmds) q q' as rs (c # ds)"
  unfolding enqueued_def by (elim conjE, intro conjI) (simp_all add: list_emb_Cons)

lemma enqueued_full: "enqueued cmds q q' as rs ds \<Longrightarrow> cq_depth q \<le> cq_outstanding q \<Longrightarrow> enqueued (c # cmds) q q' as (c # rs) ds"
  unfolding enqueued_def by (elim conjE, intro conjI) (simp_all add: list_emb_Cons)

lemma enqueued_free:
  assumes "enqueued cmds (admit_command c q) q' as rs ds" "cm_CommandID c = [] \<or> cm_CommandID c \<notin> cq_inflight q" "cq_outstanding q < cq_depth q"
  shows "enqueued (c # cmds) q q' (c # as) rs ds"
  using assms unfolding enqueued_def by (elim conjE, intro conjI) (auto simp: admit_command_def)

lemma enqueue_loop_split:
  "\<exists>as rs ds q'. (\<forall>a r d. enqueue_loop cmds q a r d = (q', a @ as, r @ rs, d @ ds)) \<and> enqueued cmds q q' as rs ds"
proof (induction cmds arbitrary: q)
  case Nil
  show ?case by (intro exI [of _ "[]"] exI [of _ q]) (simp add: enqueued_def)
next
  case (Cons c cmds)
  consider (dup) "cm_CommandID c \<noteq> []" "cm_CommandID c \<in> cq_inflight q"
    | (full) "\<not> (cm_CommandID c \<noteq> [] \<and> cm_CommandID c \<in> cq_inflight q)" "cq_depth q \<le> cq_outstanding q"
    | (free) "\<not> (cm_CommandID c \<noteq> [] \<and> cm_CommandID c \<in> cq_inflight q)" "cq_outstanding q < cq_depth q" by linarith
  then show ?case
  proof cases
    case dup
    obtain as rs ds q' where "\<forall>a r d. enqueue_loop cmds q a r d = (q', a @ as, r @ rs, d @ ds)" "enqueued cmds q q' as rs ds"
      using Cons.IH [of q] by blast
    then show ?thesis using dup by (intro exI [of _ as] exI [of _ rs] exI [of _ "c # ds"] exI [of _ q']) (simp add: enqueued_dup)
  next
    case full
    obtain as rs ds q' where "\<forall>a r d. enqueue_loop cmds q a r d = (q', a @ as, r @ rs, d @ ds)" "enqueued cmds q q' as rs ds"
      using Cons.IH [of q] by blast
    then show ?thesis using full by (intro exI [of _ as] exI [of _ "c # rs"] exI [of _ ds] exI [of _ q']) (simp add: enqueued_full)
  next
    case free
    obtain as rs ds q' where "\<forall>a r d. enqueue_loop cmds (admit_command c q) a r d = (q', a @ as, r @ rs, d @ ds)"
      "enqueued cmds (admit_command c q) q' as rs ds"
      using Cons.IH [of "admit_command c q"] by blast
    then show ?thesis
      using free by (intro exI [of _ "c # as"] exI [of _ rs] exI [of _ ds] exI [of _ q']) (auto simp: enqueued_free)
  qed
qed

text \<open>Completing a batch that is held frees exactly its capacity and its identifiers.\<close>

lemma complete_batch:
  assumes "cq_outstanding q = int (length batch) + n" "0 \<le> n" "cq_inflight q = set (ids batch) \<union> S" "set (ids batch) \<inter> S = {}"
    "distinct (ids batch)"
  shows "complete batch q = q\<lparr>cq_outstanding := n, cq_inflight := S\<rparr>"
  using assms
proof (induction batch arbitrary: q)
  case (Cons c batch)
  let ?q = "q\<lparr>cq_outstanding := (if cq_outstanding q > 0 then cq_outstanding q - 1 else cq_outstanding q),
       cq_inflight := (if cm_CommandID c \<noteq> [] then cq_inflight q - {cm_CommandID c} else cq_inflight q)\<rparr>"
  have "complete batch ?q = ?q\<lparr>cq_outstanding := n, cq_inflight := S\<rparr>"
    by (rule Cons.IH) (use Cons.prems in \<open>auto split: if_splits\<close>)
  then show ?case by simp
qed simp

section \<open>The invariant\<close>

text \<open>The batch in execution, and everything that occupies capacity.\<close>

fun batch_of :: "consumer \<Rightarrow> command list" where
  "batch_of (Executing batch) = batch"
| "batch_of _ = []"

definition held :: "uplink \<Rightarrow> command list" where
  "held u = batch_of (up_consumer u) @ cq_items (up_queue u)"

definition queue_inv :: "uplink \<Rightarrow> bool" where
  "queue_inv u \<longleftrightarrow> cq_outstanding (up_queue u) = int (length (held u)) \<and> cq_outstanding (up_queue u) \<le> cq_depth (up_queue u) \<and>
     cq_inflight (up_queue u) = set (ids (held u)) \<and> distinct (ids (held u)) \<and>
     (cq_items (up_queue u) \<noteq> [] \<longrightarrow> cq_wake (up_queue u) \<or> up_signalling u \<or> up_consumer u = Woken \<or> up_consumer u = Stopped)"

lemma queue_inv_exec: "queue_inv u \<Longrightarrow> queue_inv (fst (up_exec a u))"
proof (cases a)
  case (Poll cmds)
  assume inv: "queue_inv u"
  obtain as rs ds q' where e: "\<forall>a r d. enqueue_loop cmds (up_queue u) a r d = (q', a @ as, r @ rs, d @ ds)" "enqueued cmds (up_queue u) q' as rs ds"
    using enqueue_loop_split by blast
  then show ?thesis using inv Poll by (auto simp: queue_inv_def held_def enqueued_def)
next
  case Complete
  assume inv: "queue_inv u"
  show ?thesis
  proof (cases "up_consumer u")
    case (Executing batch)
    then have "complete batch (up_queue u) =
        (up_queue u)\<lparr>cq_outstanding := int (length (cq_items (up_queue u))), cq_inflight := set (ids (cq_items (up_queue u)))\<rparr>"
      using inv by (intro complete_batch) (auto simp: queue_inv_def held_def)
    then show ?thesis using inv Complete Executing by (auto simp: queue_inv_def held_def)
  qed (use inv Complete in auto)
qed (auto simp: queue_inv_def held_def signal_def waitForWork_def drain_def)

interpretation queue: machine up_exec "\<lambda>_. True" queue_inv
  by unfold_locales (rule queue_inv_exec)

lemma complete_depth [simp]: "cq_depth (complete batch q) = cq_depth q"
  by (induction batch arbitrary: q) auto

lemma depth_exec: "cq_depth (up_queue (fst (up_exec a u))) = cq_depth (up_queue u)"
proof (cases a)
  case (Poll cmds)
  obtain as rs ds q' where "\<forall>a r d. enqueue_loop cmds (up_queue u) a r d = (q', a @ as, r @ rs, d @ ds)" "enqueued cmds (up_queue u) q' as rs ds"
    using enqueue_loop_split by blast
  then show ?thesis using Poll by (auto simp: enqueued_def)
next
  case Complete
  then show ?thesis by (cases "up_consumer u") auto
qed (auto simp: signal_def waitForWork_def drain_def)

lemma depth_run: "cq_depth (up_queue (final_state up_exec actions u)) = cq_depth (up_queue u)"
  by (induction actions arbitrary: u) (simp_all add: depth_exec)

lemma start_inv: "0 < depth \<Longrightarrow> queue_inv (start_uplink depth)"
  by (simp add: queue_inv_def start_uplink_def newCommandQueue_def held_def)

section \<open>Order\<close>

fun admitted_by :: "outcome \<Rightarrow> command list" where
  "admitted_by (Polled as rs ds) = as"
| "admitted_by _ = []"

fun drained_by :: "outcome \<Rightarrow> command list" where
  "drained_by (Drained batch) = batch"
| "drained_by _ = []"

lemma queue_order_step:
  "cq_items (up_queue u) @ admitted_by (snd (up_exec a u)) = drained_by (snd (up_exec a u)) @ cq_items (up_queue (fst (up_exec a u)))"
proof (cases a)
  case (Poll cmds)
  obtain as rs ds q' where "\<forall>a r d. enqueue_loop cmds (up_queue u) a r d = (q', a @ as, r @ rs, d @ ds)" "enqueued cmds (up_queue u) q' as rs ds"
    using enqueue_loop_split by blast
  then show ?thesis using Poll by (auto simp: enqueued_def)
next
  case Complete
  have "cq_items (complete batch q) = cq_items q" for batch q by (induction batch arbitrary: q) auto
  then show ?thesis using Complete by (cases "up_consumer u") auto
qed (auto simp: signal_def waitForWork_def drain_def)

section \<open>Progress\<close>

text \<open>Steps that need no new poll, no cancellation, and change the state.\<close>

inductive internal_step :: "uplink \<Rightarrow> uplink \<Rightarrow> bool" where
  "a \<in> {Signal, Wake pick, Drain, Complete} \<Longrightarrow> fst (up_exec a u) \<noteq> u \<Longrightarrow> internal_step u (fst (up_exec a u))"

fun distance :: "consumer \<Rightarrow> nat" where
  "distance Woken = 3"
| "distance (Executing _) = 2"
| "distance Waiting = 1"
| "distance Stopped = 0"

definition work_left :: "uplink \<Rightarrow> nat" where
  "work_left u = (if up_signalling u then 4 else 0) + (if cq_wake (up_queue u) then 3 else 0) + distance (up_consumer u)"

lemma complete_wake [simp]: "cq_wake (complete batch q) = cq_wake q"
  by (induction batch arbitrary: q) auto

lemma work_left_step:
  assumes "a \<in> {Signal, Wake pick, Drain, Complete}"
  shows "fst (up_exec a u) = u \<or> work_left (fst (up_exec a u)) < work_left u"
proof -
  consider "a = Signal" | "a = Wake pick" | "a = Drain" | "a = Complete" using assms by blast
  then show ?thesis
  proof cases
    case 1
    then show ?thesis by (cases "up_signalling u") (simp_all add: work_left_def signal_def)
  next
    case 2
    then show ?thesis
      by (cases "up_consumer u = Waiting"; cases "up_cancelled u"; cases pick; cases "cq_wake (up_queue u)") (simp_all add: work_left_def waitForWork_def)
  next
    case 3
    then show ?thesis by (cases "up_consumer u = Woken") (simp_all add: work_left_def drain_def)
  next
    case 4
    then show ?thesis by (cases "up_consumer u") (simp_all add: work_left_def)
  qed
qed

lemma internal_step_progress: "internal_step u u' \<Longrightarrow> work_left u' < work_left u"
  using work_left_step by (auto elim!: internal_step.cases)

text \<open>Without cancellation the consumer never returns.\<close>

definition live :: "uplink \<Rightarrow> bool" where
  "live u \<longleftrightarrow> \<not> up_cancelled u \<and> up_consumer u \<noteq> Stopped"

lemma live_exec:
  assumes "live u" "a \<noteq> Cancel"
  shows "live (fst (up_exec a u))"
proof (cases a)
  case (Poll cmds)
  then show ?thesis using assms(1) by (cases "enqueue_loop cmds (up_queue u) [] [] []") (simp add: live_def)
next
  case (Wake pick)
  then show ?thesis using assms(1) by (cases "up_consumer u = Waiting"; cases "cq_wake (up_queue u)") (simp_all add: live_def waitForWork_def)
next
  case Complete
  then show ?thesis using assms(1) by (cases "up_consumer u") (simp_all add: live_def)
qed (use assms in \<open>simp_all add: live_def drain_def\<close>)

interpretation living: machine up_exec "\<lambda>a. a \<noteq> Cancel" live
  by unfold_locales (rule live_exec)

lemma internal_steps_bound: "(internal_step ^^ n) u u' \<Longrightarrow> n + work_left u' \<le> work_left u"
proof (induction n arbitrary: u')
  case (Suc n)
  then obtain v where "(internal_step ^^ n) u v" "internal_step v u'" by auto
  with Suc.IH internal_step_progress [of v u'] show ?case by fastforce
qed simp

lemma internal_step_keeps: "internal_step u u' \<Longrightarrow> queue_inv u \<Longrightarrow> live u \<Longrightarrow> queue_inv u' \<and> live u'"
  using queue_inv_exec live_exec by (auto elim!: internal_step.cases)

text \<open>When no internal step is left, nothing is held.\<close>

lemma internal_idle:
  assumes "queue_inv u" "live u" "\<not> (\<exists>u'. internal_step u u')"
  shows "held u = [] \<and> cq_outstanding (up_queue u) = 0 \<and> cq_inflight (up_queue u) = {} \<and> up_consumer u = Waiting"
proof -
  have stuck: "fst (up_exec a u) = u" if "a \<in> {Signal, Wake False, Drain, Complete}" for a
    using assms(3) internal_step.intros [of a False u] that by blast
  have c: "up_consumer u = Waiting"
    using stuck [of Drain] stuck [of Complete] assms(2)
    by (cases "up_consumer u") (auto simp: live_def drain_def dest!: arg_cong [of _ u up_consumer] split: if_splits)
  have s: "\<not> up_signalling u"
    using stuck [of Signal] by (auto dest!: arg_cong [of _ u up_signalling] split: if_splits)
  have "\<not> cq_wake (up_queue u)"
    using stuck [of "Wake False"] c assms(2) by (auto simp: live_def waitForWork_def dest!: arg_cong [of _ u up_consumer])
  then have "cq_items (up_queue u) = []" using assms(1) c s by (auto simp: queue_inv_def)
  then show ?thesis using assms(1) c by (simp add: queue_inv_def held_def)
qed

section \<open>Properties\<close>

definition demo_command :: command where
  "demo_command = \<lparr>cm_CommandID = ''a'', cm_NodeID = [], cm_RuntimeRef = [], cm_Kind = [], cm_Payload = [], cm_ClaimGeneration = 0,
     cm_InstanceGeneration = 0\<rparr>"

text \<open>Whatever the two goroutines do, at most \<open>depth\<close> commands are queued or executing, the counter and the
  deduplication set describe exactly those commands, and no non-empty command identifier is held twice, so no redelivered
  command is queued or executed while its first copy is.\<close>

theorem queue_bounded:
  assumes "0 < depth" "u = final_state up_exec actions (start_uplink depth)"
  shows "int (length (held u)) \<le> depth \<and> outstandingNow (up_queue u) = int (length (held u)) \<and>
    cq_inflight (up_queue u) = set (ids (held u)) \<and> distinct (ids (held u))"
  using queue.run_inv [OF start_inv [OF assms(1)], of actions] depth_run [of actions "start_uplink depth"] assms(2)
  by (simp add: queue_inv_def outstandingNow_def) (simp add: start_uplink_def newCommandQueue_def)

theorem queue_bounded_witness:
  "int (length (held (final_state up_exec [Poll [demo_command, demo_command], Signal, Wake False, Drain] (start_uplink 1)))) \<le> 1"
  using queue_bounded [of 1 _ "[Poll [demo_command, demo_command], Signal, Wake False, Drain]", OF _ refl] by simp

text \<open>The queue loses, repeats and reorders nothing: along any run, the commands handed to the consumer, followed by those still
  queued, are exactly the admitted commands in the order of admission; and every batch is split into admitted, rejected and
  duplicate commands, where a command is rejected only when the queue is full and skipped only when its identifier is held.\<close>

theorem queue_fifo:
  "concat (map (admitted_by \<circ> snd) (results up_exec actions (start_uplink depth))) =
     concat (map (drained_by \<circ> snd) (results up_exec actions (start_uplink depth))) @
       cq_items (up_queue (final_state up_exec actions (start_uplink depth))) \<and>
   (\<exists>q' as rs ds. enqueue cmds q = (if as = [] then q' else signal q', rs, ds) \<and> mset cmds = mset as + mset rs + mset ds \<and> subseq as cmds \<and>
      cq_items q' = cq_items q @ as \<and> (rs \<noteq> [] \<longrightarrow> cq_depth q \<le> cq_outstanding q') \<and>
      (\<forall>c \<in> set ds. cm_CommandID c \<noteq> [] \<and> cm_CommandID c \<in> cq_inflight q'))"
proof
  have "cq_items (up_queue u) @ concat (map (admitted_by \<circ> snd) (results up_exec actions u)) =
      concat (map (drained_by \<circ> snd) (results up_exec actions u)) @ cq_items (up_queue (final_state up_exec actions u))" for u
  proof (induction actions arbitrary: u)
    case (Cons a actions)
    let ?u = "fst (up_exec a u)"
    have "cq_items (up_queue u) @ concat (map (admitted_by \<circ> snd) (results up_exec (a # actions) u)) =
        (cq_items (up_queue u) @ admitted_by (snd (up_exec a u))) @ concat (map (admitted_by \<circ> snd) (results up_exec actions ?u))" by simp
    also have "\<dots> = drained_by (snd (up_exec a u)) @ (cq_items (up_queue ?u) @ concat (map (admitted_by \<circ> snd) (results up_exec actions ?u)))"
      unfolding queue_order_step [of u a] by simp
    also have "\<dots> = concat (map (drained_by \<circ> snd) (results up_exec (a # actions) u)) @ cq_items (up_queue (final_state up_exec (a # actions) u))"
      unfolding Cons.IH [of ?u] by simp
    finally show ?case .
  qed simp
  from this [of "start_uplink depth"]
  show "concat (map (admitted_by \<circ> snd) (results up_exec actions (start_uplink depth))) =
     concat (map (drained_by \<circ> snd) (results up_exec actions (start_uplink depth))) @
       cq_items (up_queue (final_state up_exec actions (start_uplink depth)))"
    by (simp add: start_uplink_def newCommandQueue_def)
  obtain as rs ds q' where "\<forall>a r d. enqueue_loop cmds q a r d = (q', a @ as, r @ rs, d @ ds)" "enqueued cmds q q' as rs ds"
    using enqueue_loop_split by blast
  then show "\<exists>q' as rs ds. enqueue cmds q = (if as = [] then q' else signal q', rs, ds) \<and> mset cmds = mset as + mset rs + mset ds \<and> subseq as cmds \<and>
      cq_items q' = cq_items q @ as \<and> (rs \<noteq> [] \<longrightarrow> cq_depth q \<le> cq_outstanding q') \<and>
      (\<forall>c \<in> set ds. cm_CommandID c \<noteq> [] \<and> cm_CommandID c \<in> cq_inflight q')"
    by - (rule exI [of _ q'], rule exI [of _ as], rule exI [of _ rs], rule exI [of _ ds], auto simp: enqueue_def enqueued_def)
qed

theorem queue_fifo_witness:
  "\<exists>q' as rs ds. enqueue [demo_command, demo_command] (newCommandQueue 1) = (if as = [] then q' else signal q', rs, ds) \<and>
     mset [demo_command, demo_command] = mset as + mset rs + mset ds \<and> cq_items q' = as"
  using queue_fifo [of "[]" 1 "[demo_command, demo_command]" "newCommandQueue 1"] by (auto simp: newCommandQueue_def)

text \<open>C32: No wake-up is lost. From any state that a run without cancellation reaches, the goroutines can make at most nine steps
  before a new poll is needed, and however they are scheduled, when they can make no more, every admitted command has been
  executed: nothing is queued, executing, or counted, and the consumer waits.\<close>

theorem queue_drains:
  assumes "0 < depth" "Cancel \<notin> set actions" "u = final_state up_exec actions (start_uplink depth)" "(internal_step ^^ n) u u'"
  shows "n \<le> 9 \<and> ((\<nexists>u''. internal_step u' u'') \<longrightarrow>
    held u' = [] \<and> outstandingNow (up_queue u') = 0 \<and> cq_inflight (up_queue u') = {} \<and> up_consumer u' = Waiting)"
proof -
  have u: "queue_inv u" "live u"
    using queue.run_inv [OF start_inv [OF assms(1)], of actions] living.run_inv [of "start_uplink depth" actions] assms(2)
    unfolding assms(3) by (auto simp: live_def start_uplink_def)
  have l: "queue_inv u' \<and> live u'"
    using assms(4)
  proof (induction n arbitrary: u')
    case (Suc n)
    then obtain v where "(internal_step ^^ n) u v" "internal_step v u'" by auto
    with Suc.IH show ?case using internal_step_keeps [of v u'] by blast
  qed (use u in simp)
  then have "1 \<le> work_left u'" by (cases "up_consumer u'") (auto simp: work_left_def live_def)
  moreover have "work_left u \<le> 10" by (cases "up_consumer u") (auto simp: work_left_def)
  ultimately have "n \<le> 9" using internal_steps_bound [OF assms(4)] by simp
  then show ?thesis using internal_idle [of u'] l by (auto simp: outstandingNow_def)
qed

theorem queue_drains_witness:
  "\<exists>u u'. u = final_state up_exec [Poll [demo_command]] (start_uplink 1) \<and> held u = [demo_command] \<and>
     (internal_step ^^ 4) u u' \<and> (4 :: nat) \<le> 9 \<and> held u' = []"
proof -
  let ?u = "final_state up_exec [Poll [demo_command]] (start_uplink 1)"
  note eval = start_uplink_def newCommandQueue_def admit_command_def held_def signal_def waitForWork_def drain_def demo_command_def
  have step: "internal_step u (fst (up_exec a u))" if "a \<in> {Signal, Wake False, Drain, Complete}" "fst (up_exec a u) \<noteq> u" for a u
    using that by (rule internal_step.intros)
  let ?u1 = "fst (up_exec Signal ?u)"
  let ?u2 = "fst (up_exec (Wake False) ?u1)"
  let ?u3 = "fst (up_exec Drain ?u2)"
  let ?u4 = "fst (up_exec Complete ?u3)"
  have "internal_step ?u ?u1" by (rule step) (simp_all add: eval)
  moreover have "internal_step ?u1 ?u2" by (rule step) (simp_all add: eval)
  moreover have "internal_step ?u2 ?u3" by (rule step) (simp_all add: eval)
  moreover have "internal_step ?u3 ?u4" by (rule step) (simp_all add: eval)
  ultimately have s: "(internal_step ^^ 4) ?u ?u4"
    by (simp add: eval_nat_numeral relcompp_apply del: final_state_Cons up_exec.simps) blast
  have idle: "\<nexists>u'. internal_step ?u4 u'"
    by (auto elim!: internal_step.cases simp: eval)
  have "4 \<le> (9 :: nat) \<and> held ?u4 = []"
  proof -
    have "Cancel \<notin> set [Poll [demo_command]]" by simp
    from queue_drains [OF zero_less_one this refl s] idle show ?thesis by blast
  qed
  moreover have "held ?u = [demo_command]" by (simp add: eval)
  ultimately show ?thesis using s by blast
qed

end
