(* ===== verification/Tracker.thy ===== *)
theory Tracker
  imports Go_Json Go_Time "HOL-Library.Finite_Map"
begin

text \<open>
  \<open>internal/runtime/runtime.go\<close> and \<open>persist.go\<close>: the tracker of agent instances without process supervision
  (theory \<open>Supervision\<close> adds it). The maps of the Go struct are finite maps. The state file is the snapshot it encodes, or nothing
  when the file does not exist; the system calls of \<open>saveSnapshot\<close> succeed or fail as one argument \<open>ok\<close>, since the rename makes them
  atomic. The clock and the random bytes of \<open>newRuntimeRef\<close> are arguments.
\<close>

section \<open>Statuses\<close>

type_synonym Status = bytes

definition StatusPending :: Status where "StatusPending = ''PENDING''"
definition StatusRunning :: Status where "StatusRunning = ''RUNNING''"
definition StatusStopped :: Status where "StatusStopped = ''STOPPED''"
definition StatusHibernated :: Status where "StatusHibernated = ''HIBERNATED''"
definition StatusDestroyed :: Status where "StatusDestroyed = ''DESTROYED''"
definition StatusFailed :: Status where "StatusFailed = ''FAILED''"

lemmas status_defs = StatusPending_def StatusRunning_def StatusStopped_def StatusHibernated_def StatusDestroyed_def StatusFailed_def

definition st_Valid :: "Status \<Rightarrow> bool" where
  "st_Valid s \<longleftrightarrow> s = StatusPending \<or> s = StatusRunning \<or> s = StatusStopped \<or> s = StatusHibernated \<or> s = StatusDestroyed \<or> s = StatusFailed"

definition transitionAllowed :: "Status \<Rightarrow> Status \<Rightarrow> bool" where
  "transitionAllowed from to =
     (if from = to then True
      else if to = StatusRunning then from = StatusPending \<or> from = StatusStopped \<or> from = StatusHibernated
      else if to = StatusStopped then from = StatusRunning \<or> from = StatusHibernated
      else if to = StatusHibernated then from = StatusRunning \<or> from = StatusStopped
      else False)"

section \<open>Instances and the tracker\<close>

record Instance =
  in_InstanceID :: bytes
  in_RuntimeRef :: bytes
  in_Status :: Status
  in_Generation :: int
  in_CreatedAt :: time
  in_Spec :: bytes
  in_PID :: int
  in_ProcStartToken :: bytes
  in_LastExitCode :: "int option"
  in_LastExitReason :: bytes

definition stateVersion :: int where "stateVersion = 1"

record snapshot =
  sn_Version :: int
  sn_Instances :: "Instance list"

text \<open>
  The JSON document in the state file, as the text denotes it: the members of an object under the names of the struct tags, with
  strings, integers, instants (\<open>time.Time\<close> is written in UTC to the nanosecond) and the raw text of a spec as values.
\<close>

datatype field = FStr bytes | FInt int | FTime time | FRaw bytes

type_synonym object = "(bytes \<times> field) list"

record state_doc =
  sd_version :: int
  sd_instances :: "object list"

record Tracker =
  t_byRef :: "(bytes, Instance) fmap"
  t_byID :: "(bytes, bytes) fmap"
  t_maxInstances :: int
  t_stateFile :: bytes
  t_execEnabled :: bool
  t_disk :: "state_doc option"  \<comment> \<open>the content of the state file\<close>

text \<open>The errors of the package; \<open>ErrPersist\<close> stands for the errors of \<open>saveSnapshot\<close>.\<close>

datatype rt_error =
    ErrNotFound
  | ErrCapacityExceeded
  | ErrInvalidStateTransition Status Status
  | ErrProcessExecDisabled
  | ErrInvalidProcessSpec string
  | ErrProcessStart
  | ErrSuspend
  | ErrPersist

definition DefaultMaxInstances :: int where "DefaultMaxInstances = 1024"

definition newTracker :: "int \<Rightarrow> bytes \<Rightarrow> bool \<Rightarrow> state_doc option \<Rightarrow> Tracker" where
  "newTracker maxInstances stateFile execEnabled disk =
     \<lparr>t_byRef = fmempty, t_byID = fmempty, t_maxInstances = (if maxInstances \<le> 0 then DefaultMaxInstances else maxInstances),
      t_stateFile = stateFile, t_execEnabled = execEnabled, t_disk = disk\<rparr>"

definition newRuntimeRef :: "bytes \<Rightarrow> bytes" where
  "newRuntimeRef random = ''rt_'' @ hex_encode random"

section \<open>Persistence\<close>

text \<open>The encoder writes a raw spec without the white space between its tokens.\<close>

fun compact_json :: "bool \<Rightarrow> bytes \<Rightarrow> bytes" where
  "compact_json quoted [] = []"
| "compact_json True (c # s) =
     (if c = CHR 0x5C then (case s of [] \<Rightarrow> [c] | d # u \<Rightarrow> c # d # compact_json True u)
      else c # compact_json (c \<noteq> CHR 0x22) s)"
| "compact_json False (c # s) =
     (if c = CHR '' '' \<or> c = CHR 0x09 \<or> c = CHR 0x0A \<or> c = CHR 0x0D then compact_json False s
      else c # compact_json (c = CHR 0x22) s)"

text \<open>\<open>json.Encoder\<close> on an \<open>Instance\<close>, from its struct tags: \<open>omitempty\<close> leaves out a zero number, an empty string or spec, and a nil pointer.\<close>

definition opt_member :: "bool \<Rightarrow> bytes \<Rightarrow> field \<Rightarrow> object" where
  "opt_member keep k v = (if keep then [(k, v)] else [])"

definition encode_instance :: "Instance \<Rightarrow> object" where
  "encode_instance inst =
     [(''instance_id'', FStr (in_InstanceID inst)), (''runtime_ref'', FStr (in_RuntimeRef inst)), (''status'', FStr (in_Status inst))] @
     opt_member (in_Generation inst \<noteq> 0) ''generation'' (FInt (in_Generation inst)) @
     [(''created_at'', FTime (in_CreatedAt inst))] @
     opt_member (in_Spec inst \<noteq> []) ''spec'' (FRaw (compact_json False (in_Spec inst))) @
     opt_member (in_PID inst \<noteq> 0) ''pid'' (FInt (in_PID inst)) @
     opt_member (in_ProcStartToken inst \<noteq> []) ''proc_start_token'' (FStr (in_ProcStartToken inst)) @
     (case in_LastExitCode inst of None \<Rightarrow> [] | Some n \<Rightarrow> [(''last_exit_code'', FInt n)]) @
     opt_member (in_LastExitReason inst \<noteq> []) ''last_exit_reason'' (FStr (in_LastExitReason inst))"

definition encode_snapshot :: "snapshot \<Rightarrow> state_doc" where
  "encode_snapshot snap = \<lparr>sd_version = sn_Version snap, sd_instances = map encode_instance (sn_Instances snap)\<rparr>"

text \<open>\<open>json.Unmarshal\<close> of an object into an \<open>Instance\<close>: a member that is absent leaves the zero value of its field.\<close>

definition str_field :: "bytes \<Rightarrow> object \<Rightarrow> bytes" where
  "str_field k ob = (case map_of ob k of Some (FStr s) \<Rightarrow> s | _ \<Rightarrow> [])"

definition int_field :: "bytes \<Rightarrow> object \<Rightarrow> int" where
  "int_field k ob = (case map_of ob k of Some (FInt n) \<Rightarrow> n | _ \<Rightarrow> 0)"

definition decode_instance :: "object \<Rightarrow> Instance" where
  "decode_instance ob =
     \<lparr>in_InstanceID = str_field ''instance_id'' ob, in_RuntimeRef = str_field ''runtime_ref'' ob, in_Status = str_field ''status'' ob,
      in_Generation = int_field ''generation'' ob,
      in_CreatedAt = (case map_of ob ''created_at'' of Some (FTime x) \<Rightarrow> x | _ \<Rightarrow> zero_time),
      in_Spec = (case map_of ob ''spec'' of Some (FRaw s) \<Rightarrow> s | _ \<Rightarrow> []),
      in_PID = int_field ''pid'' ob, in_ProcStartToken = str_field ''proc_start_token'' ob,
      in_LastExitCode = (case map_of ob ''last_exit_code'' of Some (FInt n) \<Rightarrow> Some n | _ \<Rightarrow> None),
      in_LastExitReason = str_field ''last_exit_reason'' ob\<rparr>"

definition decode_snapshot :: "state_doc \<Rightarrow> snapshot" where
  "decode_snapshot doc = \<lparr>sn_Version = sd_version doc, sn_Instances = map decode_instance (sd_instances doc)\<rparr>"

definition snapshotLocked :: "Tracker \<Rightarrow> snapshot" where
  "snapshotLocked t =
     \<lparr>sn_Version = stateVersion, sn_Instances = map (\<lambda>r. the (fmlookup (t_byRef t) r)) (sorted_list_of_fset (fmdom (t_byRef t)))\<rparr>"

text \<open>\<open>saveSnapshot\<close> replaces the file by a rename; \<open>ok\<close> is whether the encoder and every system call succeed.\<close>

definition saveSnapshot :: "bool \<Rightarrow> snapshot \<Rightarrow> state_doc option \<Rightarrow> state_doc option" where
  "saveSnapshot ok snap disk = (if ok then Some (encode_snapshot snap) else disk)"

text \<open>The flag of the result is whether there was no error.\<close>

definition persistLocked :: "bool \<Rightarrow> Tracker \<Rightarrow> Tracker \<times> bool" where
  "persistLocked ok t =
     (if t_stateFile t = [] then (t, True) else (t\<lparr>t_disk := saveSnapshot ok (snapshotLocked t) (t_disk t)\<rparr>, ok))"

definition IsJSONObject :: "bytes \<Rightarrow> bool" where
  "IsJSONObject raw = (case trim_space raw of [] \<Rightarrow> False | c # _ \<Rightarrow> c = CHR ''{'')"

section \<open>Process specifications\<close>

record processSpec =
  ps_Command :: bytes
  ps_Args :: "bytes list"
  ps_Env :: "(bytes, bytes) fmap"
  ps_WorkingDir :: bytes

text \<open>A member of a decoded object, where the last duplicate counts and \<open>null\<close> is absent.\<close>

definition spec_member :: "(bytes \<times> json) list \<Rightarrow> bytes \<Rightarrow> json option" where
  "spec_member ms k = (case map_of (rev ms) k of Some v \<Rightarrow> (if v = JNull then None else Some v) | None \<Rightarrow> None)"

text \<open>\<open>json.Unmarshal\<close> into a string, where \<open>null\<close> leaves the zero value.\<close>

fun string_of_json :: "json \<Rightarrow> bytes option" where
  "string_of_json (JStr s) = Some s"
| "string_of_json JNull = Some []"
| "string_of_json _ = None"

fun strings_of_json :: "json list \<Rightarrow> bytes list option" where
  "strings_of_json [] = Some []"
| "strings_of_json (v # vs) =
     (case (string_of_json v, strings_of_json vs) of (Some s, Some ss) \<Rightarrow> Some (s # ss) | _ \<Rightarrow> None)"

fun env_of_json :: "(bytes \<times> json) list \<Rightarrow> (bytes, bytes) fmap \<Rightarrow> (bytes, bytes) fmap option" where
  "env_of_json [] env = Some env"
| "env_of_json ((k, v) # ms) env =
     (case string_of_json v of None \<Rightarrow> None | Some s \<Rightarrow> env_of_json ms (fmupd k s env))"

text \<open>\<open>None\<close> is \<open>hasCommand = false\<close>; otherwise the error or the process specification.\<close>

definition parseProcessSpec :: "bytes \<Rightarrow> (string + processSpec) option" where
  "parseProcessSpec spec =
     (if trim_space spec = [] then None
      else (case json_document (trim_space spec) of
          Some (JObj obj) \<Rightarrow>
            (case spec_member obj ''command'' of
               None \<Rightarrow> None
             | Some (JStr command) \<Rightarrow> Some (
                 if command = [] then Inl ''command must be a non-empty string''
                 else (case (case spec_member obj ''args'' of None \<Rightarrow> Some [] | Some (JArr vs) \<Rightarrow> strings_of_json vs | _ \<Rightarrow> None) of
                     None \<Rightarrow> Inl ''args must be a JSON array of strings''
                   | Some args \<Rightarrow>
                     (case (case spec_member obj ''env'' of None \<Rightarrow> Some fmempty | Some (JObj ms) \<Rightarrow> env_of_json ms fmempty | _ \<Rightarrow> None) of
                        None \<Rightarrow> Inl ''env must be a JSON object with string values''
                      | Some env \<Rightarrow>
                        (case (case spec_member obj ''working_dir'' of None \<Rightarrow> Some [] | Some v \<Rightarrow> string_of_json v) of
                           None \<Rightarrow> Inl ''working_dir must be a JSON string''
                         | Some dir \<Rightarrow> Inr \<lparr>ps_Command = command, ps_Args = args, ps_Env = env, ps_WorkingDir = dir\<rparr>))))
             | Some _ \<Rightarrow> Some (Inl ''command must be a JSON string''))
        | _ \<Rightarrow> None))"

section \<open>Operations\<close>

abbreviation put_instance :: "Instance \<Rightarrow> Tracker \<Rightarrow> Tracker" where
  "put_instance inst t \<equiv> t\<lparr>t_byRef := fmupd (in_RuntimeRef inst) inst (t_byRef t)\<rparr>"

text \<open>\<open>inst\<close> is assigned, persisted, and put back as it was when persisting fails.\<close>

definition persist_update :: "bool \<Rightarrow> Instance \<Rightarrow> Instance \<Rightarrow> Tracker \<Rightarrow> Tracker \<times> (rt_error + Instance)" where
  "persist_update ok inst inst' t =
     (case persistLocked ok (put_instance inst' t) of
        (t', True) \<Rightarrow> (t', Inr inst')
      | (t', False) \<Rightarrow> (put_instance inst t', Inl ErrPersist))"

definition tracked :: "bytes \<Rightarrow> Tracker \<Rightarrow> Instance option" where
  "tracked instanceID t = (case fmlookup (t_byID t) instanceID of None \<Rightarrow> None | Some ref \<Rightarrow> fmlookup (t_byRef t) ref)"

definition rt_Provision ::
  "bool \<Rightarrow> time \<Rightarrow> bytes \<Rightarrow> bytes \<Rightarrow> int \<Rightarrow> bytes \<Rightarrow> Tracker \<Rightarrow> Tracker \<times> (rt_error + Instance \<times> bool)" where
  "rt_Provision ok now random instanceID generation spec t =
     (case tracked instanceID t of
        Some existing \<Rightarrow>
          if generation > in_Generation existing
          then (case persist_update ok existing (existing\<lparr>in_Generation := generation\<rparr>) t of
              (t', Inr inst) \<Rightarrow> (t', Inr (inst, False))
            | (t', Inl err) \<Rightarrow> (t', Inl err))
          else (t, Inr (existing, False))
      | None \<Rightarrow>
          let t = t\<lparr>t_byID := fmdrop instanceID (t_byID t)\<rparr>
          in if parseProcessSpec spec \<noteq> None \<and> \<not> t_execEnabled t then (t, Inl ErrProcessExecDisabled)
             else (case parseProcessSpec spec of
                 Some (Inl e) \<Rightarrow> (t, Inl (ErrInvalidProcessSpec e))
               | _ \<Rightarrow>
                 if int (fcard (fmdom (t_byRef t))) \<ge> t_maxInstances t then (t, Inl ErrCapacityExceeded)
                 else let stored = \<lparr>in_InstanceID = instanceID, in_RuntimeRef = newRuntimeRef random, in_Status = StatusPending,
                        in_Generation = generation, in_CreatedAt = now, in_Spec = spec, in_PID = 0, in_ProcStartToken = [],
                        in_LastExitCode = None, in_LastExitReason = []\<rparr>
                      in (case persistLocked ok ((put_instance stored t)\<lparr>t_byID := fmupd instanceID (in_RuntimeRef stored) (t_byID t)\<rparr>) of
                            (t', True) \<Rightarrow> (t', Inr (stored, True))
                          | (t', False) \<Rightarrow>
                            (t'\<lparr>t_byRef := fmdrop (in_RuntimeRef stored) (t_byRef t'), t_byID := fmdrop instanceID (t_byID t')\<rparr>,
                             Inl ErrPersist))))"

definition rt_Len :: "Tracker \<Rightarrow> int" where "rt_Len t = int (fcard (fmdom (t_byRef t)))"

definition MaxInstances :: "Tracker \<Rightarrow> int" where "MaxInstances t = t_maxInstances t"

definition SetMaxInstances :: "int \<Rightarrow> Tracker \<Rightarrow> Tracker" where
  "SetMaxInstances maxInstances t = t\<lparr>t_maxInstances := maxInstances\<rparr>"

definition Durable :: "Tracker \<Rightarrow> bool" where "Durable t \<longleftrightarrow> t_stateFile t \<noteq> []"

definition rt_Status :: "bytes \<Rightarrow> Tracker \<Rightarrow> rt_error + Instance" where
  "rt_Status runtimeRef t = (case fmlookup (t_byRef t) runtimeRef of None \<Rightarrow> Inl ErrNotFound | Some inst \<Rightarrow> Inr inst)"

definition rt_List :: "Tracker \<Rightarrow> Instance list" where "rt_List t = sn_Instances (snapshotLocked t)"

definition StatusCounts :: "Tracker \<Rightarrow> Status \<Rightarrow> nat" where
  "StatusCounts t s = length (filter (\<lambda>inst. in_Status inst = s) (rt_List t))"

record ListFilter =
  lf_Status :: Status
  lf_InstanceIDPrefix :: bytes
  lf_CreatedSince :: time

definition ListFiltered :: "ListFilter \<Rightarrow> Tracker \<Rightarrow> Instance list" where
  "ListFiltered f t =
     filter (\<lambda>inst. \<not> (lf_Status f \<noteq> [] \<and> in_Status inst \<noteq> lf_Status f) \<and>
       \<not> (lf_InstanceIDPrefix f \<noteq> [] \<and> \<not> has_prefix (in_InstanceID inst) (lf_InstanceIDPrefix f)) \<and>
       \<not> (lf_CreatedSince f \<noteq> zero_time \<and> in_CreatedAt inst < lf_CreatedSince f)) (sn_Instances (snapshotLocked t))"

definition RefForInstance :: "bytes \<Rightarrow> Tracker \<Rightarrow> bytes option" where
  "RefForInstance instanceID t = fmlookup (t_byID t) instanceID"

definition GenerationForInstance :: "bytes \<Rightarrow> Tracker \<Rightarrow> int option" where
  "GenerationForInstance instanceID t = map_option in_Generation (tracked instanceID t)"

definition setStatusLocked :: "bool \<Rightarrow> Instance \<Rightarrow> Status \<Rightarrow> Tracker \<Rightarrow> Tracker \<times> (rt_error + Instance)" where
  "setStatusLocked ok inst status t = persist_update ok inst (inst\<lparr>in_Status := status\<rparr>) t"

definition rt_transition :: "bool \<Rightarrow> bytes \<Rightarrow> Status \<Rightarrow> Tracker \<Rightarrow> Tracker \<times> (rt_error + Instance)" where
  "rt_transition ok runtimeRef status t =
     (case fmlookup (t_byRef t) runtimeRef of
        None \<Rightarrow> (t, Inl ErrNotFound)
      | Some inst \<Rightarrow>
        if \<not> transitionAllowed (in_Status inst) status then (t, Inl (ErrInvalidStateTransition (in_Status inst) status))
        else persist_update ok inst (inst\<lparr>in_Status := status\<rparr>) t)"

text \<open>\<open>Destroy\<close> up to the release of the mutex; what it does to a supervised process is in \<open>Supervision\<close>.\<close>

definition destroy_locked :: "bool \<Rightarrow> bytes \<Rightarrow> Tracker \<Rightarrow> Tracker \<times> (rt_error + Instance)" where
  "destroy_locked ok runtimeRef t =
     (case fmlookup (t_byRef t) runtimeRef of
        None \<Rightarrow> (t, Inl ErrNotFound)
      | Some inst \<Rightarrow>
        (case persistLocked ok (t\<lparr>t_byRef := fmdrop runtimeRef (t_byRef t), t_byID := fmdrop (in_InstanceID inst) (t_byID t)\<rparr>) of
           (t', True) \<Rightarrow> (t', Inr (inst\<lparr>in_Status := StatusDestroyed\<rparr>))
         | (t', False) \<Rightarrow>
           (t'\<lparr>t_byRef := fmupd runtimeRef inst (t_byRef t'), t_byID := fmupd (in_InstanceID inst) runtimeRef (t_byID t')\<rparr>, Inl ErrPersist)))"

section \<open>Loading\<close>

text \<open>What reading the state file gives; \<open>Malformed\<close> is a text that is no JSON or whose members do not have the types of the fields.\<close>

datatype state_read = Missing | Unreadable | Malformed | Decoded state_doc

datatype load_error = ReadError | DecodeError | VersionError int | CorruptError string

fun load_instances ::
  "Instance list \<Rightarrow> (bytes, Instance) fmap \<Rightarrow> (bytes, bytes) fmap \<Rightarrow> load_error + (bytes, Instance) fmap \<times> (bytes, bytes) fmap" where
  "load_instances [] byRef byID = Inr (byRef, byID)"
| "load_instances (inst # insts) byRef byID =
     (if in_InstanceID inst = [] then Inl (CorruptError ''an instance is missing instance_id'')
      else if in_RuntimeRef inst = [] then Inl (CorruptError ''instance is missing runtime_ref'')
      else if \<not> st_Valid (in_Status inst) then Inl (CorruptError ''instance has unknown status'')
      else if in_Generation inst < 0 then Inl (CorruptError ''instance has a negative generation'')
      else if in_PID inst < 0 then Inl (CorruptError ''instance has a negative pid'')
      else if in_Spec inst \<noteq> [] \<and> \<not> IsJSONObject (in_Spec inst) then Inl (CorruptError ''instance has a non-object spec'')
      else if fmlookup byRef (in_RuntimeRef inst) \<noteq> None then Inl (CorruptError ''duplicate runtime_ref'')
      else if fmlookup byID (in_InstanceID inst) \<noteq> None then Inl (CorruptError ''duplicate instance_id'')
      else load_instances insts (fmupd (in_RuntimeRef inst) inst byRef) (fmupd (in_InstanceID inst) (in_RuntimeRef inst) byID))"

text \<open>\<open>load\<close> up to the reconciliation of processes.\<close>

definition load_state :: "state_read \<Rightarrow> Tracker \<Rightarrow> load_error + Tracker" where
  "load_state file t =
     (case file of
        Missing \<Rightarrow> Inr t
      | Unreadable \<Rightarrow> Inl ReadError
      | Malformed \<Rightarrow> Inl DecodeError
      | Decoded doc \<Rightarrow>
        let snap = decode_snapshot doc
        in if sn_Version snap \<noteq> stateVersion then Inl (VersionError (sn_Version snap))
           else (case load_instances (sn_Instances snap) fmempty fmempty of
               Inl err \<Rightarrow> Inl err
             | Inr (byRef, byID) \<Rightarrow> Inr (t\<lparr>t_byRef := byRef, t_byID := byID\<rparr>)))"

end
