(* ===== verification/Guarded_Machines.thy ===== *)
theory Guarded_Machines
  imports Machines
begin

text \<open>
  Machines whose operations are allowed only in some states, such as those that draw a random identifier which must be
  unused. \<open>guarded_run\<close> is a run in which every operation is allowed where it happens. Every \<open>machine\<close> is one with a guard that
  ignores the state.
\<close>

fun guarded_run :: "('op \<Rightarrow> 's \<Rightarrow> 's \<times> 'r) \<Rightarrow> ('s \<Rightarrow> 'op \<Rightarrow> bool) \<Rightarrow> 'op list \<Rightarrow> 's \<Rightarrow> bool" where
  "guarded_run exec guard [] s = True"
| "guarded_run exec guard (op # ops) s \<longleftrightarrow> guard s op \<and> guarded_run exec guard ops (fst (exec op s))"

lemma guarded_append: "guarded_run exec guard (xs @ ys) s \<longleftrightarrow> guarded_run exec guard xs s \<and> guarded_run exec guard ys (final_state exec xs s)"
  by (induction xs arbitrary: s) auto

locale guarded_machine =
  fixes exec :: "'op \<Rightarrow> 's \<Rightarrow> 's \<times> 'r"
    and guard :: "'s \<Rightarrow> 'op \<Rightarrow> bool"
    and inv :: "'s \<Rightarrow> bool"
  assumes exec_guarded: "inv s \<Longrightarrow> guard s op \<Longrightarrow> inv (fst (exec op s))"
begin

lemma guarded_inv: "inv s \<Longrightarrow> guarded_run exec guard ops s \<Longrightarrow> inv (final_state exec ops s)"
  by (induction ops arbitrary: s) (auto intro: exec_guarded)

text \<open>A relation between states that every operation respects holds from the start of a run to its end.\<close>

lemma guarded_relation:
  assumes "inv s" "guarded_run exec guard ops s" "\<And>s. R s s" "\<And>s s' s''. R s s' \<Longrightarrow> R s' s'' \<Longrightarrow> R s s''"
    "\<And>s op. inv s \<Longrightarrow> guard s op \<Longrightarrow> R s (fst (exec op s))"
  shows "R s (final_state exec ops s)"
  using assms(1,2)
proof (induction ops arbitrary: s)
  case (Cons op ops)
  then have "R s (fst (exec op s))" "R (fst (exec op s)) (final_state exec ops (fst (exec op s)))"
    using assms(5) exec_guarded by auto
  then show ?case by (auto intro: assms(4))
qed (simp add: assms(3))

end

sublocale machine \<subseteq> guarded_machine exec "\<lambda>_. allowed" inv
  by unfold_locales (rule exec_inv)

end
