(* ===== verification/Tracker_Promises.thy ===== *)
theory Tracker_Promises
  imports Tracker Guarded_Machines
begin

text \<open>
  The promises of the tracker when processes are not supervised: an operation that fails changes nothing, the two
  indexes describe the same instances, the state file always holds what is in memory, and generations never go down.
\<close>

section \<open>Operations as a machine\<close>

datatype rt_op =
    OpProvision bool time bytes bytes int bytes
  | OpTransition bool bytes Status
  | OpDestroy bool bytes
  | OpSetMax int

fun rt_exec :: "rt_op \<Rightarrow> Tracker \<Rightarrow> Tracker \<times> (rt_error + Instance) option" where
  "rt_exec (OpProvision ok now random instanceID generation spec) t =
     (case rt_Provision ok now random instanceID generation spec t of
        (t', Inl e) \<Rightarrow> (t', Some (Inl e)) | (t', Inr (inst, created)) \<Rightarrow> (t', Some (Inr inst)))"
| "rt_exec (OpTransition ok ref status) t = map_prod id Some (rt_transition ok ref status t)"
| "rt_exec (OpDestroy ok ref) t = map_prod id Some (destroy_locked ok ref t)"
| "rt_exec (OpSetMax n) t = (SetMaxInstances n t, None)"

text \<open>What the callers guarantee, and that the 128 random bits of a new reference do not repeat one in use.\<close>

definition live_status :: "Status \<Rightarrow> bool" where
  "live_status s \<longleftrightarrow> s = StatusPending \<or> s = StatusRunning \<or> s = StatusStopped \<or> s = StatusHibernated"

definition spec_ok :: "bytes \<Rightarrow> bool" where
  "spec_ok spec \<longleftrightarrow> spec = [] \<or> (\<exists>ms. json_document spec = Some (JObj ms))"

fun rt_guard :: "Tracker \<Rightarrow> rt_op \<Rightarrow> bool" where
  "rt_guard t (OpProvision ok now random instanceID generation spec) \<longleftrightarrow>
     instanceID \<noteq> [] \<and> 0 \<le> generation \<and> spec_ok spec \<and> newRuntimeRef random |\<notin>| fmdom (t_byRef t)"
| "rt_guard t (OpTransition ok ref status) \<longleftrightarrow> status = StatusRunning \<or> status = StatusStopped \<or> status = StatusHibernated"
| "rt_guard t _ \<longleftrightarrow> True"

section \<open>The invariant\<close>

definition instance_ok :: "Instance \<Rightarrow> bool" where
  "instance_ok i \<longleftrightarrow> in_InstanceID i \<noteq> [] \<and> in_RuntimeRef i \<noteq> [] \<and> live_status (in_Status i) \<and> 0 \<le> in_Generation i \<and> 0 \<le> in_PID i \<and> spec_ok (in_Spec i)"

definition indexed :: "Tracker \<Rightarrow> bool" where
  "indexed t \<longleftrightarrow>
     (\<forall>r i. fmlookup (t_byRef t) r = Some i \<longrightarrow> in_RuntimeRef i = r \<and> fmlookup (t_byID t) (in_InstanceID i) = Some r \<and> instance_ok i) \<and>
     (\<forall>d r. fmlookup (t_byID t) d = Some r \<longrightarrow> (\<exists>i. fmlookup (t_byRef t) r = Some i \<and> in_InstanceID i = d))"

definition mirrored :: "Tracker \<Rightarrow> bool" where
  "mirrored t \<longleftrightarrow> t_stateFile t \<noteq> [] \<longrightarrow>
     (case t_disk t of None \<Rightarrow> t_byRef t = fmempty | Some snap \<Rightarrow> snap = the (saveSnapshot True (snapshotLocked t) None))"

definition tracker_inv :: "Tracker \<Rightarrow> bool" where
  "tracker_inv t \<longleftrightarrow> indexed t \<and> mirrored t"

lemma indexedD:
  assumes "indexed t" "fmlookup (t_byRef t) r = Some i"
  shows "in_RuntimeRef i = r" "fmlookup (t_byID t) (in_InstanceID i) = Some r" "instance_ok i"
  using assms unfolding indexed_def by blast+

lemma indexed_id: "indexed t \<Longrightarrow> fmlookup (t_byID t) d = Some r \<Longrightarrow> \<exists>i. fmlookup (t_byRef t) r = Some i \<and> in_InstanceID i = d"
  unfolding indexed_def by blast

lemma persistLocked_cases:
  assumes "persistLocked ok t = (t', b)"
  shows "b \<Longrightarrow> mirrored t'" "\<not> b \<Longrightarrow> t' = t" "t_byRef t' = t_byRef t" "t_byID t' = t_byID t"
    "t_maxInstances t' = t_maxInstances t" "t_stateFile t' = t_stateFile t" "t_execEnabled t' = t_execEnabled t"
  using assms by (auto simp: persistLocked_def mirrored_def saveSnapshot_def snapshotLocked_def split: if_splits)

text \<open>Two trackers that differ at most in the content of the file.\<close>

definition same_config :: "Tracker \<Rightarrow> Tracker \<Rightarrow> bool" where
  "same_config t t' \<longleftrightarrow> t_maxInstances t' = t_maxInstances t \<and> t_stateFile t' = t_stateFile t \<and> t_execEnabled t' = t_execEnabled t"

lemma persist_update_cases:
  assumes "persist_update ok inst inst' t = (t', r)" "fmlookup (t_byRef t) (in_RuntimeRef inst) = Some inst" "in_RuntimeRef inst' = in_RuntimeRef inst"
  obtains (failed) "t' = t" "r = Inl ErrPersist" "\<not> ok"
  | (stored) "r = Inr inst'" "mirrored t'" "t_byRef t' = fmupd (in_RuntimeRef inst) inst' (t_byRef t)" "t_byID t' = t_byID t" "same_config t t'"
proof -
  obtain u b where u: "persistLocked ok (put_instance inst' t) = (u, b)" by fastforce
  note c = persistLocked_cases [OF u]
  show thesis
  proof (cases b)
    case True
    then have "t' = u" "r = Inr inst'" using assms(1) u by (simp_all add: persist_update_def)
    then show thesis using stored c True assms(3) by (simp add: same_config_def)
  next
    case False
    have "fmupd (in_RuntimeRef inst) inst (t_byRef t) = t_byRef t" using assms(2) by (intro fmap_ext) auto
    moreover have "\<not> ok" using False u by (auto simp: persistLocked_def split: if_splits)
    ultimately show thesis using failed c(2) False assms u by (simp add: persist_update_def)
  qed
qed

lemma tracked_iff:
  assumes "indexed t"
  shows "tracked d t = Some i \<longleftrightarrow> fmlookup (t_byRef t) (in_RuntimeRef i) = Some i \<and> in_InstanceID i = d"
proof
  assume "tracked d t = Some i"
  then obtain r where r: "fmlookup (t_byID t) d = Some r" "fmlookup (t_byRef t) r = Some i" by (auto simp: tracked_def split: option.splits)
  from indexed_id [OF assms r(1)] r(2) indexedD(1) [OF assms r(2)]
  show "fmlookup (t_byRef t) (in_RuntimeRef i) = Some i \<and> in_InstanceID i = d" by simp
next
  assume "fmlookup (t_byRef t) (in_RuntimeRef i) = Some i \<and> in_InstanceID i = d"
  then show "tracked d t = Some i" using indexedD(2) [OF assms, of "in_RuntimeRef i" i] by (simp add: tracked_def)
qed

lemma untracked: "indexed t \<Longrightarrow> tracked d t = None \<longleftrightarrow> fmlookup (t_byID t) d = None"
  using indexed_id [of t d] by (cases "fmlookup (t_byID t) d") (auto simp: tracked_def)

text \<open>An update of one instance that keeps its names.\<close>

lemma indexed_update:
  assumes "indexed t" "fmlookup (t_byRef t) (in_RuntimeRef i) = Some i" "in_RuntimeRef j = in_RuntimeRef i" "in_InstanceID j = in_InstanceID i"
    "instance_ok j" "t_byRef t' = fmupd (in_RuntimeRef i) j (t_byRef t)" "t_byID t' = t_byID t"
  shows "indexed t'"
proof -
  have "in_RuntimeRef k = r \<and> fmlookup (t_byID t') (in_InstanceID k) = Some r \<and> instance_ok k" if k: "fmlookup (t_byRef t') r = Some k" for r k
  proof (cases "r = in_RuntimeRef i")
    case True
    then have "k = j" using k assms(6) by simp
    then show ?thesis using True assms(3,4,5,7) indexedD(2) [OF assms(1,2)] by simp
  next
    case False
    then have "fmlookup (t_byRef t) r = Some k" using k assms(6) by simp
    from indexedD [OF assms(1) this] show ?thesis using assms(7) by simp
  qed
  moreover have "\<exists>k. fmlookup (t_byRef t') r = Some k \<and> in_InstanceID k = d" if "fmlookup (t_byID t') d = Some r" for d r
  proof -
    from that have "fmlookup (t_byID t) d = Some r" by (simp add: assms(7))
    from indexed_id [OF assms(1) this] obtain k where k: "fmlookup (t_byRef t) r = Some k" "in_InstanceID k = d" by blast
    then show ?thesis using assms(2,4,6) by (cases "r = in_RuntimeRef i") simp_all
  qed
  ultimately show ?thesis unfolding indexed_def by blast
qed

text \<open>A new instance.\<close>

lemma indexed_insert:
  assumes "indexed t" "fmlookup (t_byRef t) (in_RuntimeRef i) = None" "fmlookup (t_byID t) (in_InstanceID i) = None" "instance_ok i"
    "t_byRef t' = fmupd (in_RuntimeRef i) i (t_byRef t)" "t_byID t' = fmupd (in_InstanceID i) (in_RuntimeRef i) (t_byID t)"
  shows "indexed t'"
proof -
  have "in_RuntimeRef k = r \<and> fmlookup (t_byID t') (in_InstanceID k) = Some r \<and> instance_ok k" if "fmlookup (t_byRef t') r = Some k" for r k
  proof (cases "r = in_RuntimeRef i")
    case True
    then show ?thesis using that assms by simp
  next
    case False
    then have k: "fmlookup (t_byRef t) r = Some k" using that assms by simp
    note d = indexedD [OF assms(1) k]
    then show ?thesis using assms by (cases "in_InstanceID k = in_InstanceID i") simp_all
  qed
  moreover have "\<exists>k. fmlookup (t_byRef t') r = Some k \<and> in_InstanceID k = d" if "fmlookup (t_byID t') d = Some r" for d r
  proof (cases "d = in_InstanceID i")
    case True
    then show ?thesis using that assms by simp
  next
    case False
    then have "fmlookup (t_byID t) d = Some r" using that assms by simp
    from indexed_id [OF assms(1) this] obtain k where "fmlookup (t_byRef t) r = Some k" "in_InstanceID k = d" by blast
    then show ?thesis using assms by (cases "r = in_RuntimeRef i") simp_all
  qed
  ultimately show ?thesis unfolding indexed_def by blast
qed

section \<open>Every operation\<close>

text \<open>What an operation does to the two indexes.\<close>

inductive evolves :: "Tracker \<Rightarrow> Tracker \<Rightarrow> bool" for t t' where
  same: "t_byRef t' = t_byRef t \<Longrightarrow> t_byID t' = t_byID t \<Longrightarrow> evolves t t'"
| updated: "fmlookup (t_byRef t) (in_RuntimeRef i) = Some i \<Longrightarrow> in_RuntimeRef j = in_RuntimeRef i \<Longrightarrow> in_InstanceID j = in_InstanceID i \<Longrightarrow>
    in_Generation i \<le> in_Generation j \<Longrightarrow> in_CreatedAt j = in_CreatedAt i \<Longrightarrow> in_Spec j = in_Spec i \<Longrightarrow> instance_ok j \<Longrightarrow>
    (in_Status j \<noteq> in_Status i \<longrightarrow> transitionAllowed (in_Status i) (in_Status j)) \<Longrightarrow>
    t_byRef t' = fmupd (in_RuntimeRef i) j (t_byRef t) \<Longrightarrow> t_byID t' = t_byID t \<Longrightarrow> evolves t t'"
| inserted: "fmlookup (t_byRef t) (in_RuntimeRef i) = None \<Longrightarrow> fmlookup (t_byID t) (in_InstanceID i) = None \<Longrightarrow> instance_ok i \<Longrightarrow>
    in_Status i = StatusPending \<Longrightarrow> rt_Len t < t_maxInstances t \<Longrightarrow>
    t_byRef t' = fmupd (in_RuntimeRef i) i (t_byRef t) \<Longrightarrow> t_byID t' = fmupd (in_InstanceID i) (in_RuntimeRef i) (t_byID t) \<Longrightarrow> evolves t t'"
| removed: "fmlookup (t_byRef t) (in_RuntimeRef i) = Some i \<Longrightarrow>
    t_byRef t' = fmdrop (in_RuntimeRef i) (t_byRef t) \<Longrightarrow> t_byID t' = fmdrop (in_InstanceID i) (t_byID t) \<Longrightarrow> evolves t t'"

lemma evolves_indexed: "evolves t t' \<Longrightarrow> indexed t \<Longrightarrow> indexed t'"
proof (induction rule: evolves.induct)
  case same
  then show ?case by (simp add: indexed_def)
next
  case (updated i j)
  show ?case by (rule indexed_update [OF updated.prems updated.hyps(1,2,3,7,9,10)])
next
  case (inserted i)
  show ?case by (rule indexed_insert [OF inserted.prems inserted.hyps(1,2,3,6,7)])
next
  case (removed i)
  note i = indexedD [OF removed.prems removed.hyps(1)]
  have "in_RuntimeRef k = r \<and> fmlookup (t_byID t') (in_InstanceID k) = Some r \<and> instance_ok k" if "fmlookup (t_byRef t') r = Some k" for r k
  proof -
    have k: "fmlookup (t_byRef t) r = Some k" "r \<noteq> in_RuntimeRef i" using that removed by (simp_all split: if_splits)
    note d = indexedD [OF removed.prems k(1)]
    then show ?thesis using removed k(2) i(2) by (cases "in_InstanceID k = in_InstanceID i") simp_all
  qed
  moreover have "\<exists>k. fmlookup (t_byRef t') r = Some k \<and> in_InstanceID k = d" if "fmlookup (t_byID t') d = Some r" for d r
  proof -
    have d: "fmlookup (t_byID t) d = Some r" "d \<noteq> in_InstanceID i" using that removed by (simp_all split: if_splits)
    then obtain k where k: "fmlookup (t_byRef t) r = Some k" "in_InstanceID k = d" using indexed_id [OF removed.prems] by blast
    then have "r \<noteq> in_RuntimeRef i" using d(2) removed.hyps(1) by auto
    then show ?thesis using k removed by simp
  qed
  ultimately show ?case unfolding indexed_def by blast
qed

lemma fmdrop_fresh: "fmlookup m k = None \<Longrightarrow> fmdrop k m = m" "fmlookup m k = None \<Longrightarrow> fmdrop k (fmupd k v m) = m"
  by (auto intro!: fmap_ext)

lemma fmupd_back: "fmlookup m k = Some v \<Longrightarrow> fmupd k v (fmdrop k m) = m"
  by (auto intro!: fmap_ext)

text \<open>Success evolves the indexes and leaves the file a mirror of memory; failure changes nothing.\<close>

definition step_ok :: "Tracker \<Rightarrow> Tracker \<times> (rt_error + 'a) \<Rightarrow> bool" where
  "step_ok t r \<longleftrightarrow> (case r of (t', Inl e) \<Rightarrow> t' = t | (t', Inr x) \<Rightarrow> evolves t t' \<and> same_config t t' \<and> (mirrored t \<longrightarrow> mirrored t'))"

lemma transition_step:
  assumes "indexed t" "rt_guard t (OpTransition ok ref status)"
  shows "step_ok t (rt_transition ok ref status t)"
proof (cases "fmlookup (t_byRef t) ref")
  case (Some i)
  note d = indexedD [OF assms(1) Some]
  let ?j = "i\<lparr>in_Status := status\<rparr>"
  have i: "fmlookup (t_byRef t) (in_RuntimeRef i) = Some i" using Some d(1) by simp
  show ?thesis
  proof (cases "transitionAllowed (in_Status i) status")
    case True
    obtain t' r where r: "persist_update ok i ?j t = (t', r)" by fastforce
    have j: "instance_ok ?j" using d(3) assms(2) by (auto simp: instance_ok_def live_status_def)
    have jr: "in_RuntimeRef ?j = in_RuntimeRef i" by simp
    show ?thesis
    proof (cases rule: persist_update_cases [OF r i jr])
      case 2
      note stored = 2
      have "evolves t t'" by (rule evolves.updated [OF i _ _ _ _ _ j _ stored(3,4)]) (use True in simp_all)
      then show ?thesis using stored r Some True by (simp add: step_ok_def rt_transition_def)
    qed (use r Some True in \<open>simp add: step_ok_def rt_transition_def\<close>)
  qed (simp add: Some step_ok_def rt_transition_def)
qed (simp add: step_ok_def rt_transition_def)

lemma destroy_step:
  assumes "indexed t"
  shows "step_ok t (destroy_locked ok ref t)"
proof (cases "fmlookup (t_byRef t) ref")
  case (Some i)
  note d = indexedD [OF assms(1) Some]
  let ?t = "t\<lparr>t_byRef := fmdrop ref (t_byRef t), t_byID := fmdrop (in_InstanceID i) (t_byID t)\<rparr>"
  obtain u b where u: "persistLocked ok ?t = (u, b)" by fastforce
  note c = persistLocked_cases [OF u]
  show ?thesis
  proof (cases b)
    case True
    have "evolves t u" by (rule evolves.removed [of t i]) (use Some d(1) c in simp_all)
    then show ?thesis using True Some u c by (simp add: step_ok_def destroy_locked_def same_config_def)
  next
    case False
    then have "u = ?t" using c by simp
    then show ?thesis using False Some u d(2) by (simp add: step_ok_def destroy_locked_def fmupd_back)
  qed
qed (simp add: step_ok_def destroy_locked_def)

lemma provision_step:
  assumes "indexed t" "rt_guard t (OpProvision ok now random d g spec)"
  shows "step_ok t (rt_Provision ok now random d g spec t)"
proof (cases "tracked d t")
  case (Some i)
  then have i: "fmlookup (t_byRef t) (in_RuntimeRef i) = Some i" using tracked_iff [OF assms(1)] by simp
  show ?thesis
  proof (cases "g > in_Generation i")
    case True
    let ?j = "i\<lparr>in_Generation := g\<rparr>"
    obtain t' r where r: "persist_update ok i ?j t = (t', r)" by fastforce
    have jr: "in_RuntimeRef ?j = in_RuntimeRef i" by simp
    have j: "instance_ok ?j" using indexedD(3) [OF assms(1) i] assms(2) by (simp add: instance_ok_def)
    show ?thesis
    proof (cases rule: persist_update_cases [OF r i jr])
      case 2
      have "evolves t t'" by (rule evolves.updated [OF i _ _ _ _ _ j _ 2(3,4)]) (use True in simp_all)
      then show ?thesis using 2 r Some True by (simp add: step_ok_def rt_Provision_def)
    qed (use r Some True in \<open>simp add: step_ok_def rt_Provision_def\<close>)
  qed (simp add: Some step_ok_def rt_Provision_def evolves.same same_config_def)
next
  case None
  then have id: "fmlookup (t_byID t) d = None" using untracked [OF assms(1)] by simp
  then have t: "t\<lparr>t_byID := fmdrop d (t_byID t)\<rparr> = t" by (simp add: fmdrop_fresh)
  let ?i = "\<lparr>in_InstanceID = d, in_RuntimeRef = newRuntimeRef random, in_Status = StatusPending, in_Generation = g, in_CreatedAt = now,
    in_Spec = spec, in_PID = 0, in_ProcStartToken = [], in_LastExitCode = None, in_LastExitReason = []\<rparr>"
  let ?t = "(put_instance ?i t)\<lparr>t_byID := fmupd d (in_RuntimeRef ?i) (t_byID t)\<rparr>"
  have fresh: "fmlookup (t_byRef t) (newRuntimeRef random) = None" using assms(2) by (simp add: fmdom_notD)
  have ok: "instance_ok ?i" using assms(2) by (auto simp: instance_ok_def live_status_def newRuntimeRef_def)
  obtain u b where u: "persistLocked ok ?t = (u, b)" by fastforce
  note c = persistLocked_cases [OF u]
  have "evolves t u" if "rt_Len t < t_maxInstances t"
    by (rule evolves.inserted [of t ?i]) (use fresh id ok that c in simp_all)
  moreover have "\<not> b \<Longrightarrow> u\<lparr>t_byRef := fmdrop (newRuntimeRef random) (t_byRef u), t_byID := fmdrop d (t_byID u)\<rparr> = t"
    using c(2) fresh id by (simp add: fmdrop_fresh)
  ultimately show ?thesis
    using None u c by (cases b) (auto simp: t step_ok_def rt_Provision_def Let_def same_config_def rt_Len_def split: option.splits sum.splits)
qed

lemma exec_step:
  assumes "indexed t" "rt_guard t op" "rt_exec op t = (t', r)"
  shows "\<exists>e. r = Some (Inl e) \<Longrightarrow> t' = t" "evolves t t'" "mirrored t \<Longrightarrow> mirrored t'"
    "t_stateFile t' = t_stateFile t" "t_execEnabled t' = t_execEnabled t"
proof -
  have "((\<exists>e. r = Some (Inl e)) \<longrightarrow> t' = t) \<and> evolves t t' \<and> (mirrored t \<longrightarrow> mirrored t') \<and> t_stateFile t' = t_stateFile t \<and>
    t_execEnabled t' = t_execEnabled t"
  proof (cases op)
    case (OpProvision ok now random d g spec)
    then show ?thesis using provision_step [of t ok now random d g spec] assms
      by (auto simp: step_ok_def same_config_def evolves.same split: prod.splits sum.splits)
  next
    case (OpTransition ok ref status)
    then show ?thesis using transition_step [of t ok ref status] assms
      by (cases "rt_transition ok ref status t") (auto simp: step_ok_def same_config_def evolves.same split: sum.splits)
  next
    case (OpDestroy ok ref)
    then show ?thesis using destroy_step [of t ok ref] assms
      by (cases "destroy_locked ok ref t") (auto simp: step_ok_def same_config_def evolves.same split: sum.splits)
  next
    case (OpSetMax n)
    then show ?thesis using assms(3) by (auto simp: SetMaxInstances_def evolves.same mirrored_def snapshotLocked_def split: option.splits)
  qed
  then show "\<exists>e. r = Some (Inl e) \<Longrightarrow> t' = t" "evolves t t'" "mirrored t \<Longrightarrow> mirrored t'"
    "t_stateFile t' = t_stateFile t" "t_execEnabled t' = t_execEnabled t" by blast+
qed

definition tracker_runs :: "bytes \<Rightarrow> Tracker \<Rightarrow> bool" where
  "tracker_runs path t \<longleftrightarrow> indexed t \<and> mirrored t \<and> t_stateFile t = path \<and> \<not> t_execEnabled t"

interpretation tracker: guarded_machine rt_exec rt_guard "tracker_runs path" for path
proof
  fix t op
  assume "tracker_runs path t" "rt_guard t op"
  then show "tracker_runs path (fst (rt_exec op t))"
    using exec_step [of t op "fst (rt_exec op t)" "snd (rt_exec op t)"] evolves_indexed by (auto simp: tracker_runs_def)
qed

lemma new_tracker_runs: "tracker_runs path (newTracker m path False None)"
  by (simp add: tracker_runs_def indexed_def mirrored_def newTracker_def)

section \<open>Reading the state back\<close>

lemma load_instances_all:
  assumes "\<forall>i \<in> set is. in_InstanceID i \<noteq> [] \<and> in_RuntimeRef i \<noteq> [] \<and> st_Valid (in_Status i) \<and> 0 \<le> in_Generation i \<and> 0 \<le> in_PID i \<and>
      (in_Spec i = [] \<or> IsJSONObject (in_Spec i))"
    "distinct (map in_RuntimeRef is)" "distinct (map in_InstanceID is)"
    "\<forall>i \<in> set is. fmlookup byRef (in_RuntimeRef i) = None \<and> fmlookup byID (in_InstanceID i) = None"
  shows "\<exists>byRef' byID'. load_instances is byRef byID = Inr (byRef', byID') \<and>
    (\<forall>r. fmlookup byRef' r = (case map_of (map (\<lambda>i. (in_RuntimeRef i, i)) is) r of Some i \<Rightarrow> Some i | None \<Rightarrow> fmlookup byRef r)) \<and>
    (\<forall>d. fmlookup byID' d = (case map_of (map (\<lambda>i. (in_InstanceID i, in_RuntimeRef i)) is) d of Some r \<Rightarrow> Some r | None \<Rightarrow> fmlookup byID d))"
  using assms
proof (induction "is" arbitrary: byRef byID)
  case (Cons i "is")
  let ?b = "fmupd (in_RuntimeRef i) i byRef" and ?d = "fmupd (in_InstanceID i) (in_RuntimeRef i) byID"
  have p: "\<forall>j \<in> set is. fmlookup ?b (in_RuntimeRef j) = None \<and> fmlookup ?d (in_InstanceID j) = None"
    using Cons.prems by (auto simp: image_iff)
  obtain b' d' where l: "load_instances is ?b ?d = Inr (b', d')"
    and b: "\<And>r. fmlookup b' r = (case map_of (map (\<lambda>i. (in_RuntimeRef i, i)) is) r of Some i \<Rightarrow> Some i | None \<Rightarrow> fmlookup ?b r)"
    and d: "\<And>x. fmlookup d' x = (case map_of (map (\<lambda>i. (in_InstanceID i, in_RuntimeRef i)) is) x of Some r \<Rightarrow> Some r | None \<Rightarrow> fmlookup ?d x)"
    using Cons.IH [of ?b ?d] Cons.prems p by auto
  have "map_of (map (\<lambda>i. (in_RuntimeRef i, i)) is) (in_RuntimeRef i) = None" "map_of (map (\<lambda>i. (in_InstanceID i, in_RuntimeRef i)) is) (in_InstanceID i) = None"
    using Cons.prems(2,3) by (auto simp: map_of_eq_None_iff image_iff)
  then show ?case using l Cons.prems(1,4) by (auto simp: b d split: option.splits)
qed simp

text \<open>Compacting a JSON object keeps it an object.\<close>

lemma spec_ok_open: "spec_ok s \<Longrightarrow> s \<noteq> [] \<Longrightarrow> \<exists>u. skip_ws s = CHR ''{'' # u"
  by (auto simp: spec_ok_def json_document_def split: option.splits if_splits list.splits)

lemma compact_open: "skip_ws s = CHR ''{'' # u \<Longrightarrow> \<exists>v. compact_json False s = CHR ''{'' # v"
proof (induction s)
  case (Cons c s)
  have w: "c = CHR '' '' \<or> c = CHR 0x09 \<or> c = CHR 0x0A \<or> c = CHR 0x0D \<longleftrightarrow> byte c = 32 \<or> byte c = 9 \<or> byte c = 10 \<or> byte c = 13"
    using byte_eq_iff [of c "CHR '' ''"] byte_eq_iff [of c "CHR 0x09"] byte_eq_iff [of c "CHR 0x0A"] byte_eq_iff [of c "CHR 0x0D"] by auto
  show ?case
  proof (cases "byte c = 32 \<or> byte c = 9 \<or> byte c = 10 \<or> byte c = 13")
    case True
    then show ?thesis using Cons w by (auto simp: skip_ws_def)
  next
    case False
    then have "c = CHR ''{''" using Cons.prems by (simp add: skip_ws_def)
    then show ?thesis by simp
  qed
qed (simp add: skip_ws_def)

lemma open_object: "IsJSONObject (CHR ''{'' # v)"
proof -
  have r: "runes (CHR ''{'' # v) = (123, ''{'') # runes v" by (simp add: runes_ascii_Cons)
  have "dropWhile (is_space \<circ> fst) (rev (runes v) @ [(123, ''{'')]) = dropWhile (is_space \<circ> fst) (rev (runes v)) @ [(123, ''{'')]"
    by (rule dropWhile_append3) (simp add: is_space_def)
  then show ?thesis by (simp add: IsJSONObject_def trim_space_def r is_space_def)
qed

text \<open>An instance as it comes back from the file: unchanged but for white space in its spec.\<close>

definition written :: "Instance \<Rightarrow> Instance" where
  "written inst = inst\<lparr>in_Spec := compact_json False (in_Spec inst)\<rparr>"

lemma decode_encode_instance: "decode_instance (encode_instance i) = written i"
  by (cases i) (simp add: decode_instance_def encode_instance_def written_def str_field_def int_field_def opt_member_def split: option.splits)

lemma decode_encode_snapshot:
  "decode_snapshot (encode_snapshot snap) = snap\<lparr>sn_Instances := map written (sn_Instances snap)\<rparr>"
  by (simp add: decode_snapshot_def encode_snapshot_def decode_encode_instance)

lemma written_fields [simp]: "in_InstanceID (written i) = in_InstanceID i" "in_RuntimeRef (written i) = in_RuntimeRef i"
  "in_Status (written i) = in_Status i" "in_Generation (written i) = in_Generation i" "in_PID (written i) = in_PID i"
  "in_Spec (written i) = compact_json False (in_Spec i)"
  by (simp_all add: written_def)

lemma written_loads:
  assumes "instance_ok i"
  shows "in_Spec (written i) = [] \<or> IsJSONObject (in_Spec (written i))" "st_Valid (in_Status i)"
proof -
  show "in_Spec (written i) = [] \<or> IsJSONObject (in_Spec (written i))"
  proof (cases "in_Spec i = []")
    case False
    then obtain u where "skip_ws (in_Spec i) = CHR ''{'' # u" using assms spec_ok_open by (auto simp: instance_ok_def)
    from compact_open [OF this] open_object show ?thesis by auto
  qed simp
  show "st_Valid (in_Status i)" using assms by (auto simp: instance_ok_def live_status_def st_Valid_def)
qed

fun read_back :: "state_doc option \<Rightarrow> state_read" where
  "read_back None = Missing"
| "read_back (Some doc) = Decoded doc"

lemma load_snapshot:
  assumes "indexed t"
  shows "load_state (Decoded (the (saveSnapshot True (snapshotLocked t) None))) u =
    Inr (u\<lparr>t_byRef := fmmap written (t_byRef t), t_byID := t_byID t\<rparr>)"
proof -
  let ?refs = "sorted_list_of_fset (fmdom (t_byRef t))"
  let ?is = "map written (map (\<lambda>r. the (fmlookup (t_byRef t) r)) ?refs)"
  have refs: "set ?refs = fset (fmdom (t_byRef t))" "distinct ?refs" by (simp_all add: sorted_list_of_fset.rep_eq)
  have look: "fmlookup (t_byRef t) r = Some (the (fmlookup (t_byRef t) r))" if "r \<in> set ?refs" for r
    using that refs(1) by (auto simp: fmlookup_dom_iff)
  note i = indexedD [OF assms look]
  have byRef: "map (\<lambda>i. (in_RuntimeRef i, i)) ?is = map (\<lambda>r. (r, written (the (fmlookup (t_byRef t) r)))) ?refs"
    using i(1) by simp
  have byID: "map (\<lambda>i. (in_InstanceID i, in_RuntimeRef i)) ?is = map (\<lambda>r. (in_InstanceID (the (fmlookup (t_byRef t) r)), r)) ?refs"
    using i(1) by simp
  have ids: "inj_on (\<lambda>r. in_InstanceID (the (fmlookup (t_byRef t) r))) (set ?refs)"
    using i(2) by (intro inj_onI) (metis option.inject)
  have dist: "distinct (map in_RuntimeRef ?is)" "distinct (map in_InstanceID ?is)"
    using refs(2) ids i(1) by (simp_all add: distinct_map inj_on_def)
  have ok: "\<forall>i \<in> set ?is. in_InstanceID i \<noteq> [] \<and> in_RuntimeRef i \<noteq> [] \<and> st_Valid (in_Status i) \<and> 0 \<le> in_Generation i \<and> 0 \<le> in_PID i \<and>
      (in_Spec i = [] \<or> IsJSONObject (in_Spec i))"
    using i(3) written_loads by (fastforce simp: instance_ok_def)
  obtain b d where l: "load_instances ?is fmempty fmempty = Inr (b, d)"
    and b: "\<And>r. fmlookup b r = (case map_of (map (\<lambda>r. (r, written (the (fmlookup (t_byRef t) r)))) ?refs) r of Some i \<Rightarrow> Some i | None \<Rightarrow> fmlookup fmempty r)"
    and d: "\<And>x. fmlookup d x = (case map_of (map (\<lambda>r. (in_InstanceID (the (fmlookup (t_byRef t) r)), r)) ?refs) x of Some r \<Rightarrow> Some r | None \<Rightarrow> fmlookup fmempty x)"
    using load_instances_all [OF ok dist, of fmempty fmempty, unfolded byRef byID] by fastforce
  have "b = fmmap written (t_byRef t)"
  proof (rule fmap_ext)
    fix r
    show "fmlookup b r = fmlookup (fmmap written (t_byRef t)) r"
      using look [of r] refs(1) by (cases "r \<in> set ?refs") (auto simp: b map_of_map_restrict restrict_map_def fmdom_notD split: option.splits)
  qed
  moreover have "d = t_byID t"
  proof (rule fmap_ext)
    fix x
    show "fmlookup d x = fmlookup (t_byID t) x"
    proof (cases "fmlookup (t_byID t) x")
      case (Some r)
      then obtain j where j: "fmlookup (t_byRef t) r = Some j" "in_InstanceID j = x" using indexed_id [OF assms] by blast
      then have "r \<in> set ?refs" "x = in_InstanceID (the (fmlookup (t_byRef t) r))" using refs(1) by (auto simp: fmlookup_dom_iff)
      then have "(x, r) \<in> set (map (\<lambda>r. (in_InstanceID (the (fmlookup (t_byRef t) r)), r)) ?refs)" by simp
      then have "map_of (map (\<lambda>r. (in_InstanceID (the (fmlookup (t_byRef t) r)), r)) ?refs) x = Some r"
        by (intro map_of_is_SomeI) (use refs(2) ids in \<open>simp_all add: distinct_map o_def\<close>)
      then show ?thesis using Some by (simp add: d)
    next
      case None
      then have "x \<notin> (\<lambda>r. in_InstanceID (the (fmlookup (t_byRef t) r))) ` set ?refs"
        using i(2) by auto
      then show ?thesis using None by (simp add: d map_of_eq_None_iff image_image split: option.splits)
    qed
  qed
  ultimately show ?thesis using l by (simp add: load_state_def saveSnapshot_def snapshotLocked_def decode_encode_snapshot)
qed

text \<open>Loading checks everything that the indexes need, for instances in a state the tracker can be in.\<close>

lemma load_instances_indexed:
  "load_instances insts byRef byID = Inr (b, d) \<Longrightarrow> \<forall>i \<in> set insts. instance_ok i \<Longrightarrow> indexed (t\<lparr>t_byRef := byRef, t_byID := byID\<rparr>) \<Longrightarrow>
     indexed (t\<lparr>t_byRef := b, t_byID := d\<rparr>)"
proof (induction insts arbitrary: byRef byID)
  case (Cons i insts)
  have fresh: "fmlookup byRef (in_RuntimeRef i) = None" "fmlookup byID (in_InstanceID i) = None" using Cons.prems(1) by (auto split: if_splits)
  have "indexed (t\<lparr>t_byRef := fmupd (in_RuntimeRef i) i byRef, t_byID := fmupd (in_InstanceID i) (in_RuntimeRef i) byID\<rparr>)"
    by (rule indexed_insert [OF Cons.prems(3), of i]) (use fresh Cons.prems(2) in simp_all)
  then show ?case using Cons.IH Cons.prems(1,2) by (simp split: if_splits)
qed simp

section \<open>Properties\<close>

definition demo_ops :: "rt_op list" where
  "demo_ops = [OpProvision True 0 ''0123456789abcdef'' ''a'' 3 [], OpTransition True (newRuntimeRef ''0123456789abcdef'') StatusRunning]"

lemma demo_guarded: "guarded_run rt_exec rt_guard demo_ops (newTracker 1 ''/state'' False None)"
  by (simp add: demo_ops_def spec_ok_def newTracker_def)

text \<open>The two indexes of the tracker describe the same instances, whatever operations ran and wherever persisting failed: the
  instance under a reference carries that reference, is found under its own identifier, and is never destroyed or failed.\<close>

theorem tracker_indexes:
  assumes "guarded_run rt_exec rt_guard ops (newTracker m path False None)" "t = final_state rt_exec ops (newTracker m path False None)"
  shows "(fmlookup (t_byRef t) r = Some i \<longrightarrow> in_RuntimeRef i = r \<and> RefForInstance (in_InstanceID i) t = Some r \<and>
      in_Status i \<in> {StatusPending, StatusRunning, StatusStopped, StatusHibernated}) \<and>
    (RefForInstance d t = Some r \<longrightarrow> (\<exists>i. rt_Status r t = Inr i \<and> in_InstanceID i = d))"
proof -
  have x: "indexed t" using tracker.guarded_inv [OF new_tracker_runs assms(1)] assms(2) by (simp add: tracker_runs_def)
  then show ?thesis
    using indexedD [OF x, of r i] indexed_id [OF x, of d r]
    by (auto simp: RefForInstance_def rt_Status_def instance_ok_def live_status_def)
qed

theorem tracker_indexes_witness:
  "\<exists>i. rt_Status (newRuntimeRef ''0123456789abcdef'') (final_state rt_exec demo_ops (newTracker 1 ''/state'' False None)) = Inr i \<and> in_InstanceID i = ''a''"
proof -
  let ?t = "final_state rt_exec demo_ops (newTracker 1 ''/state'' False None)"
  have "RefForInstance ''a'' ?t = Some (newRuntimeRef ''0123456789abcdef'')"
    by (simp add: demo_ops_def newTracker_def rt_Provision_def tracked_def parseProcessSpec_def trim_space_def persistLocked_def RefForInstance_def
        rt_transition_def transitionAllowed_def persist_update_def Let_def fcard.rep_eq)
  then show ?thesis using tracker_indexes [OF demo_guarded refl, of "newRuntimeRef ''0123456789abcdef''" _ "''a''"] by blast
qed

text \<open>C38: A restart restores a tracker that does not execute processes. Whatever operations ran on such a tracker with a state file (with
  the arguments the handlers admit: non-empty identifiers, generations that are not negative, object specs, fresh references), and
  wherever persisting failed, decoding the document that the file then holds and loading it succeeds and gives every instance
  back under the same reference and identifier, with every field unchanged but for white space in its spec, also the fields that
  the encoding leaves out when they are empty. So no acknowledged operation is lost and no failed one comes back.\<close>

theorem tracker_restart:
  assumes "path \<noteq> []" "guarded_run rt_exec rt_guard ops (newTracker m path False None)" "t = final_state rt_exec ops (newTracker m path False None)"
  shows "\<exists>t'. load_state (read_back (t_disk t)) (newTracker m' path False (t_disk t)) = Inr t' \<and>
    t_byRef t' = fmmap written (t_byRef t) \<and> t_byID t' = t_byID t"
proof -
  have inv: "indexed t" "mirrored t" "t_stateFile t = path"
    using tracker.guarded_inv [OF new_tracker_runs assms(2)] assms(3) by (simp_all add: tracker_runs_def)
  show ?thesis
  proof (cases "t_disk t")
    case None
    then have e: "t_byRef t = fmempty" using inv assms(1) by (simp add: mirrored_def)
    have "fmlookup (t_byID t) d = None" for d using indexed_id [OF inv(1), of d] e by (cases "fmlookup (t_byID t) d") auto
    then have "t_byID t = fmempty" by (intro fmap_ext) simp
    then show ?thesis using None e by (simp add: load_state_def newTracker_def)
  next
    case (Some snap)
    then have "snap = the (saveSnapshot True (snapshotLocked t) None)" using inv assms(1) by (simp add: mirrored_def)
    then show ?thesis using Some load_snapshot [OF inv(1)] by simp
  qed
qed

theorem tracker_restart_witness:
  "\<exists>t'. load_state (read_back (t_disk (final_state rt_exec demo_ops (newTracker 1 ''/state'' False None))))
      (newTracker 5 ''/state'' False (t_disk (final_state rt_exec demo_ops (newTracker 1 ''/state'' False None)))) = Inr t' \<and>
    t_byID t' = t_byID (final_state rt_exec demo_ops (newTracker 1 ''/state'' False None))"
  using tracker_restart [OF _ demo_guarded refl, of 5] by auto

lemma evolves_len: "evolves t t' \<Longrightarrow> rt_Len t' \<le> max (rt_Len t) (t_maxInstances t)"
proof (induction rule: evolves.induct)
  case (updated i j)
  then have "in_RuntimeRef i |\<in>| fmdom (t_byRef t)" by (auto simp: fmlookup_dom_iff)
  then show ?case using updated by (simp add: rt_Len_def finsert_absorb)
next
  case (inserted i)
  then have "in_RuntimeRef i |\<notin>| fmdom (t_byRef t)" by (auto simp: fmlookup_dom_iff)
  then show ?case using inserted by (simp add: rt_Len_def fcard_finsert_disjoint)
next
  case (removed i)
  have "fmdom (t_byRef t) |-| {|in_RuntimeRef i|} |\<subseteq>| fmdom (t_byRef t)" by blast
  then have "fcard (fmdom (t_byRef t) |-| {|in_RuntimeRef i|}) \<le> fcard (fmdom (t_byRef t))" by (rule fcard_mono)
  then show ?case using removed by (simp add: rt_Len_def le_max_iff_disj)
qed (simp add: rt_Len_def)

text \<open>What one operation may do, at any point of any run: one that reports an error changes nothing, not even after a partial
  effect; none grows the tracker beyond its cap; and an instance that stays keeps its identifier, creation time and spec, never
  loses generations, and changes its status only along an allowed transition.\<close>

theorem tracker_steps:
  assumes "guarded_run rt_exec rt_guard (ops @ [op]) (newTracker m path False None)"
    "t = final_state rt_exec ops (newTracker m path False None)" "rt_exec op t = (t', r)"
  shows "(r = Some (Inl e) \<longrightarrow> t' = t) \<and> rt_Len t' \<le> max (rt_Len t) (t_maxInstances t) \<and>
    (fmlookup (t_byRef t) ref = Some i \<and> fmlookup (t_byRef t') ref = Some i' \<longrightarrow>
      in_InstanceID i' = in_InstanceID i \<and> in_CreatedAt i' = in_CreatedAt i \<and> in_Spec i' = in_Spec i \<and> in_Generation i \<le> in_Generation i' \<and>
      transitionAllowed (in_Status i) (in_Status i'))"
proof -
  have g: "guarded_run rt_exec rt_guard ops u \<and> rt_guard (final_state rt_exec ops u) op" if "guarded_run rt_exec rt_guard (ops @ [op]) u" for u
    using that by (induction ops arbitrary: u) auto
  have x: "indexed t" using tracker.guarded_inv [OF new_tracker_runs] g [OF assms(1)] assms(2) by (auto simp: tracker_runs_def)
  note s = exec_step [OF x _ assms(3)]
  have step: "evolves t t'" "r = Some (Inl e) \<longrightarrow> t' = t" using s g [OF assms(1)] assms(2) by auto
  have "fmlookup (t_byRef t) ref = Some i \<Longrightarrow> fmlookup (t_byRef t') ref = Some i' \<Longrightarrow>
      in_InstanceID i' = in_InstanceID i \<and> in_CreatedAt i' = in_CreatedAt i \<and> in_Spec i' = in_Spec i \<and> in_Generation i \<le> in_Generation i' \<and>
      transitionAllowed (in_Status i) (in_Status i')"
    using step(1) by (cases rule: evolves.cases) (auto simp: transitionAllowed_def split: if_splits)
  then show ?thesis using step evolves_len by blast
qed

theorem tracker_steps_witness:
  "rt_Len (fst (rt_exec (OpDestroy False (newRuntimeRef ''0123456789abcdef'')) (final_state rt_exec demo_ops (newTracker 1 ''/state'' False None)))) \<le> 
     max (rt_Len (final_state rt_exec demo_ops (newTracker 1 ''/state'' False None)))
       (t_maxInstances (final_state rt_exec demo_ops (newTracker 1 ''/state'' False None)))"
proof -
  have "guarded_run rt_exec rt_guard (demo_ops @ [OpDestroy False (newRuntimeRef ''0123456789abcdef'')]) (newTracker 1 ''/state'' False None)"
    by (simp add: demo_ops_def spec_ok_def newTracker_def)
  from tracker_steps [OF this refl prod.collapse [symmetric]] show ?thesis by blast
qed

end
