(* ===== verification/Dispatch.thy ===== *)
theory Dispatch
  imports Command_Queue Tracker_Promises
begin

text \<open>
  \<open>internal/uplink/dispatch.go\<close> and \<open>executeBatch\<close> of \<open>poller.go\<close>: one lifecycle command is executed against the tracker and answered by a
  report. The interface \<open>Tracker\<close> of the Go code is a record of functions, and \<open>plain_api\<close> is the runtime tracker without process
  supervision behind it. A Go panic is \<open>None\<close>. Logging, metrics and the audit log are left out.
\<close>

section \<open>Runtime references\<close>

definition runtimeRefPrefix :: bytes where "runtimeRefPrefix = ''uplink:''"

text \<open>Conversions between strings and rune slices.\<close>

definition to_runes :: "bytes \<Rightarrow> nat list" where "to_runes s = map fst (runes s)"

definition of_runes :: "nat list \<Rightarrow> bytes" where "of_runes rs = concat (map encode_rune rs)"

fun indexRune :: "nat list \<Rightarrow> nat \<Rightarrow> int" where
  "indexRune [] target = - 1"
| "indexRune (r # rs) target = (if r = target then 0 else (let i = indexRune rs target in if i < 0 then - 1 else i + 1))"

text \<open>\<open>strconv.Atoi\<close> on a run of digits fails only out of the range of \<open>int\<close>.\<close>

definition netstringLength :: "bytes \<Rightarrow> string + int" where
  "netstringLength s =
     (if s = [] then Inl ''empty node_id length''
      else if \<not> list_all is_digit s then Inl ''non-numeric node_id length''
      else (case atoi s of
          None \<Rightarrow> Inl ''invalid syntax''
        | Some n \<Rightarrow> if int n > max_int64 then Inl ''value out of range'' else Inr (int n)))"

text \<open>A slice expression \<open>body[i:j]\<close> on a slice of full capacity panics unless \<open>0 \<le> i \<le> j \<le> len\<close>.\<close>

definition slice :: "int \<Rightarrow> int \<Rightarrow> 'a list \<Rightarrow> 'a list option" where
  "slice i j xs = (if 0 \<le> i \<and> i \<le> j \<and> j \<le> int (length xs) then Some (take (nat (j - i)) (drop (nat i) xs)) else None)"

definition parseRuntimeRef :: "bytes \<Rightarrow> (string + bytes \<times> bytes) option" where
  "parseRuntimeRef ref =
     (if \<not> has_prefix ref runtimeRefPrefix then Some (Inl ''runtime_ref does not begin with uplink:'')
      else
       (let body = to_runes (drop (length runtimeRefPrefix) ref); sep = indexRune body 58
        in if sep < 0 then Some (Inl ''runtime_ref is missing the node_id length separator'')
           else (case netstringLength (of_runes (take (nat sep) body)) of
               Inl err \<Rightarrow> Some (Inl err)
             | Inr n \<Rightarrow>
               (let contentStart = sep + 1; contentEnd = wrap64 (contentStart + n)
                in if contentEnd > int (length body) then Some (Inl ''runtime_ref node_id length overruns the ref'')
                   else (case slice contentStart contentEnd body of
                       None \<Rightarrow> None
                     | Some node \<Rightarrow>
                       if contentEnd \<ge> int (length body) \<or> body ! nat contentEnd \<noteq> 58
                       then Some (Inl ''runtime_ref is missing the separator after node_id'')
                       else (let nodeID = of_runes node; instanceID = of_runes (drop (nat contentEnd + 1) body)
                             in if nodeID = [] \<or> instanceID = [] then Some (Inl ''runtime_ref has an empty node_id or instance_id'')
                                else Some (Inr (nodeID, instanceID))))))))"

section \<open>The tracker interface\<close>

record 's tracker_api =
  api_Provision :: "bytes \<Rightarrow> int \<Rightarrow> bytes \<Rightarrow> 's \<Rightarrow> 's \<times> (rt_error + Instance \<times> bool)"
  api_Start :: "bytes \<Rightarrow> 's \<Rightarrow> 's \<times> (rt_error + Instance)"
  api_Stop :: "bytes \<Rightarrow> 's \<Rightarrow> 's \<times> (rt_error + Instance)"
  api_Hibernate :: "bytes \<Rightarrow> 's \<Rightarrow> 's \<times> (rt_error + Instance)"
  api_Destroy :: "bytes \<Rightarrow> 's \<Rightarrow> 's \<times> (rt_error + Instance)"
  api_RefForInstance :: "bytes \<Rightarrow> 's \<Rightarrow> bytes option"
  api_GenerationForInstance :: "bytes \<Rightarrow> 's \<Rightarrow> int option"

text \<open>The runtime tracker for one call: whether persisting succeeds, the time, and the random bytes.\<close>

definition plain_api :: "bool \<Rightarrow> time \<Rightarrow> bytes \<Rightarrow> Tracker tracker_api" where
  "plain_api ok now random =
     \<lparr>api_Provision = rt_Provision ok now random,
      api_Start = (\<lambda>ref. rt_transition ok ref StatusRunning),
      api_Stop = (\<lambda>ref. rt_transition ok ref StatusStopped),
      api_Hibernate = (\<lambda>ref. rt_transition ok ref StatusHibernated),
      api_Destroy = destroy_locked ok,
      api_RefForInstance = RefForInstance,
      api_GenerationForInstance = GenerationForInstance\<rparr>"

section \<open>Reports\<close>

definition kindProvision :: bytes where "kindProvision = ''provision''"
definition kindStart :: bytes where "kindStart = ''start''"
definition kindStop :: bytes where "kindStop = ''stop''"
definition kindHibernate :: bytes where "kindHibernate = ''hibernate''"
definition kindDestroy :: bytes where "kindDestroy = ''destroy''"
definition statusDone :: bytes where "statusDone = ''done''"
definition statusFailed :: bytes where "statusFailed = ''failed''"

lemmas kind_defs = kindProvision_def kindStart_def kindStop_def kindHibernate_def kindDestroy_def

record report =
  rep_CommandID :: bytes
  rep_Status :: bytes
  rep_ReportedStatus :: bytes
  rep_ClaimGeneration :: int
  rep_Result :: bytes

definition reportedStatus :: "Status \<Rightarrow> bytes option" where
  "reportedStatus s =
     (if s = StatusPending then Some ''provisioning''
      else if s = StatusRunning then Some ''running''
      else if s = StatusStopped then Some ''stopped''
      else if s = StatusHibernated then Some ''hibernated''
      else if s = StatusFailed then Some ''failed''
      else if s = StatusDestroyed then Some ''stopped''
      else None)"

definition emptyResult :: bytes where "emptyResult = ''{}''"

definition errorResult :: "string \<Rightarrow> bytes" where
  "errorResult reason = json_print (JObj [(''error'', JStr reason)])"

definition dp_fail :: "report \<Rightarrow> string \<Rightarrow> report" where
  "dp_fail rep reason = rep\<lparr>rep_Status := statusFailed, rep_ReportedStatus := ''failed'', rep_Result := errorResult reason\<rparr>"

definition dp_succeed :: "report \<Rightarrow> Status \<Rightarrow> report" where
  "dp_succeed rep status =
     (case reportedStatus status of
        None \<Rightarrow> dp_fail rep ''unmappable tracker status''
      | Some reported \<Rightarrow> rep\<lparr>rep_Status := statusDone, rep_ReportedStatus := reported, rep_Result := emptyResult\<rparr>)"

section \<open>Executing a command\<close>

definition dp_provision :: "'s tracker_api \<Rightarrow> report \<Rightarrow> bytes \<Rightarrow> int \<Rightarrow> bytes \<Rightarrow> 's \<Rightarrow> 's \<times> report" where
  "dp_provision api rep instanceID generation payload s =
     (let spec = (if trim_space payload = ''null'' then [] else payload)
      in if spec \<noteq> [] \<and> \<not> IsJSONObject spec then (s, dp_fail rep ''provision payload must be a JSON object'')
         else (case api_Provision api instanceID generation spec s of
             (s', Inl err) \<Rightarrow> (s', dp_fail rep ''provision failed'')
           | (s', Inr (inst, created)) \<Rightarrow> (s', dp_succeed rep (in_Status inst))))"

definition dp_transition ::
  "'s tracker_api \<Rightarrow> report \<Rightarrow> bytes \<Rightarrow> bytes \<Rightarrow> (bytes \<Rightarrow> 's \<Rightarrow> 's \<times> (rt_error + Instance)) \<Rightarrow> 's \<Rightarrow> 's \<times> report \<times> bool" where
  "dp_transition api rep instanceID kind op s =
     (case api_RefForInstance api instanceID s of
        None \<Rightarrow>
          if kind \<noteq> kindStart then (s, dp_fail rep (kind @ '' names an unknown instance''), False)
          else (s, dp_fail rep (kind @ '' names an unknown instance''), True)
      | Some ref \<Rightarrow>
          (case op ref s of
             (s', Inl err) \<Rightarrow> (s', dp_fail rep (kind @ '' failed''), False)
           | (s', Inr inst) \<Rightarrow> (s', dp_succeed rep (in_Status inst), False)))"

definition dp_destroy :: "'s tracker_api \<Rightarrow> report \<Rightarrow> bytes \<Rightarrow> 's \<Rightarrow> 's \<times> report" where
  "dp_destroy api rep instanceID s =
     (case api_RefForInstance api instanceID s of
        None \<Rightarrow> (s, dp_succeed rep StatusDestroyed)
      | Some ref \<Rightarrow>
          (case api_Destroy api ref s of
             (s', Inl err) \<Rightarrow> (s', if err = ErrNotFound then dp_succeed rep StatusDestroyed else dp_fail rep ''destroy failed'')
           | (s', Inr inst) \<Rightarrow> (s', dp_succeed rep (in_Status inst))))"

definition zero_report :: report where
  "zero_report = \<lparr>rep_CommandID = [], rep_Status = [], rep_ReportedStatus = [], rep_ClaimGeneration = 0, rep_Result = []\<rparr>"

text \<open>The result is the report, whether to retry, and whether the command is fenced.\<close>

definition execute :: "'s tracker_api \<Rightarrow> bytes \<Rightarrow> command \<Rightarrow> 's \<Rightarrow> ('s \<times> report \<times> bool \<times> bool) option" where
  "execute api nodeID cmd s =
     (let rep = zero_report\<lparr>rep_CommandID := cm_CommandID cmd, rep_ClaimGeneration := cm_ClaimGeneration cmd\<rparr>
      in case parseRuntimeRef (cm_RuntimeRef cmd) of
           None \<Rightarrow> None
         | Some (Inl err) \<Rightarrow> Some (s, dp_fail rep ''runtime_ref is unparseable'', False, False)
         | Some (Inr (refNodeID, instanceID)) \<Rightarrow>
           if cm_NodeID cmd \<noteq> nodeID \<or> refNodeID \<noteq> nodeID \<or> cm_NodeID cmd \<noteq> refNodeID
           then Some (s, dp_fail rep ''command node_id and runtime_ref must address this node'', False, False)
           else
            (let generation = (if cm_InstanceGeneration cmd < 0 then 0 else cm_InstanceGeneration cmd);
                 answer = (\<lambda>(s', r). Some (s', r, False, False)); lifecycle = (\<lambda>(s', r, retry). Some (s', r, retry, False))
             in if (case api_GenerationForInstance api instanceID s of
                      None \<Rightarrow> False | Some trackedGen \<Rightarrow> generation \<noteq> 0 \<and> generation < trackedGen)
                then Some (s, zero_report, False, True)
                else if cm_Kind cmd = kindProvision then answer (dp_provision api rep instanceID generation (cm_Payload cmd) s)
                else if cm_Kind cmd = kindStart then lifecycle (dp_transition api rep instanceID (cm_Kind cmd) (api_Start api) s)
                else if cm_Kind cmd = kindStop then lifecycle (dp_transition api rep instanceID (cm_Kind cmd) (api_Stop api) s)
                else if cm_Kind cmd = kindHibernate then lifecycle (dp_transition api rep instanceID (cm_Kind cmd) (api_Hibernate api) s)
                else if cm_Kind cmd = kindDestroy then answer (dp_destroy api rep instanceID s)
                else Some (s, dp_fail rep ''unknown command kind'', False, False)))"

section \<open>Executing a batch\<close>

text \<open>
  The two loops of \<open>executeBatch\<close>. \<open>api k\<close> is the tracker and \<open>cancelled k\<close> the state of the context at the \<open>k\<close>-th command; the result is the
  next \<open>k\<close>, the tracker, the deferred commands, and the reports handed to \<open>sendReport\<close>, whose failures change nothing; the flag is
  whether the context was found cancelled.
\<close>

fun first_pass ::
  "(nat \<Rightarrow> 's tracker_api) \<Rightarrow> (nat \<Rightarrow> bool) \<Rightarrow> bytes \<Rightarrow> command list \<Rightarrow> nat \<Rightarrow> 's \<Rightarrow> command list \<Rightarrow> report list \<Rightarrow>
     (bool \<times> nat \<times> 's \<times> command list \<times> report list) option" where
  "first_pass api cancelled nodeID [] k s deferred reports = Some (False, k, s, deferred, reports)"
| "first_pass api cancelled nodeID (cmd # cmds) k s deferred reports =
     (if cancelled k then Some (True, k, s, deferred, reports)
      else (case execute (api k) nodeID cmd s of
          None \<Rightarrow> None
        | Some (s', rep, retry, fenced) \<Rightarrow>
          if fenced then first_pass api cancelled nodeID cmds (k + 1) s' deferred reports
          else if retry then first_pass api cancelled nodeID cmds (k + 1) s' (deferred @ [cmd]) reports
          else first_pass api cancelled nodeID cmds (k + 1) s' deferred (reports @ [rep])))"

fun retry_pass ::
  "(nat \<Rightarrow> 's tracker_api) \<Rightarrow> (nat \<Rightarrow> bool) \<Rightarrow> bytes \<Rightarrow> command list \<Rightarrow> nat \<Rightarrow> 's \<Rightarrow> report list \<Rightarrow> ('s \<times> report list) option" where
  "retry_pass api cancelled nodeID [] k s reports = Some (s, reports)"
| "retry_pass api cancelled nodeID (cmd # cmds) k s reports =
     (if cancelled k then Some (s, reports)
      else (case execute (api k) nodeID cmd s of
          None \<Rightarrow> None
        | Some (s', rep, stillUnknown, fenced) \<Rightarrow>
          if fenced then retry_pass api cancelled nodeID cmds (k + 1) s' reports
          else retry_pass api cancelled nodeID cmds (k + 1) s' (reports @ [rep])))"

definition executeBatch ::
  "(nat \<Rightarrow> 's tracker_api) \<Rightarrow> (nat \<Rightarrow> bool) \<Rightarrow> bytes \<Rightarrow> command list \<Rightarrow> 's \<Rightarrow> ('s \<times> report list) option" where
  "executeBatch api cancelled nodeID commands s =
     (case first_pass api cancelled nodeID commands 0 s [] [] of
        None \<Rightarrow> None
      | Some (stop, k, s', deferred, reports) \<Rightarrow>
        if stop then Some (s', reports) else retry_pass api cancelled nodeID deferred k s' reports)"

end
