(* ===== verification/Dispatch_Promises.thy ===== *)
theory Dispatch_Promises
  imports Dispatch
begin

text \<open>
  The promises of the dispatcher: references parse back to what they were made of, superseded commands change nothing, a command
  that is delivered again has no further effect and the same answer, and a batch answers every command that is not superseded exactly
  once and never runs a command before the sibling that it depends on.
\<close>

section \<open>Runtime references\<close>

lemma runes_append: "valid_utf8 s \<Longrightarrow> runes (s @ t) = runes s @ runes t"
proof (induction s rule: length_induct)
  case (1 s)
  show ?case
  proof (cases "s = []")
    case False
    then obtain r n where d: "decode_rune s = Some (r, n)" "valid_utf8 (drop n s)" using valid_utf8_decode [OF 1(2)] by blast
    note b = decode_rune_bounds [OF d(1)]
    have "decode_rune (take n s @ drop n s @ t) = Some (r, n)" by (rule decode_rune_append [OF d(1)])
    then have "decode_rune (s @ t) = Some (r, n)" by (metis append.assoc append_take_drop_id)
    then have "runes (s @ t) = (r, take n s) # runes (drop n s @ t)" using False b by (subst runes.simps) simp
    also have "\<dots> = (r, take n s) # runes (drop n s) @ runes t" using 1 d b False by simp
    also have "\<dots> = runes s @ runes t" using False d by (subst (3) runes.simps) simp
    finally show ?thesis .
  qed simp
qed

lemma of_to_runes: "valid_utf8 s \<Longrightarrow> of_runes (to_runes s) = s"
proof (induction s rule: length_induct)
  case (1 s)
  show ?case
  proof (cases "s = []")
    case False
    then obtain r n where d: "decode_rune s = Some (r, n)" "valid_utf8 (drop n s)" using valid_utf8_decode [OF 1(2)] by blast
    note b = decode_rune_bounds [OF d(1)]
    have "of_runes (to_runes s) = encode_rune r @ of_runes (to_runes (drop n s))"
      using False d by (subst to_runes_def, subst runes.simps) (simp add: of_runes_def to_runes_def)
    then show ?thesis using 1 d b False encode_decode_rune [OF d(1)] by simp
  qed (simp add: of_runes_def to_runes_def)
qed

lemma to_runes_append: "valid_utf8 s \<Longrightarrow> to_runes (s @ t) = to_runes s @ to_runes t"
  by (simp add: to_runes_def runes_append)

lemma to_runes_ascii: "\<forall>c \<in> set s. byte c < 128 \<Longrightarrow> to_runes s = map byte s"
  by (simp add: to_runes_def runes_ascii)

lemma indexRune_first: "target \<notin> set xs \<Longrightarrow> indexRune (xs @ target # ys) target = int (length xs)"
  by (induction xs) (auto simp: Let_def)

lemma ascii_utf8: "\<forall>c \<in> set s. byte c < 128 \<Longrightarrow> of_runes (map byte s) = s"
  using of_to_runes [of s] valid_utf8_ascii [of s] to_runes_ascii [of s] by simp

lemma itoa_length: "length (itoa n) \<le> Suc n"
proof (induction n rule: itoa.induct)
  case (1 n)
  then show ?case by (subst itoa.simps) auto
qed

definition format_runtime_ref :: "bytes \<Rightarrow> bytes \<Rightarrow> bytes" where
  "format_runtime_ref nodeID instanceID = ''uplink:'' @ itoa (length (to_runes nodeID)) @ '':'' @ nodeID @ '':'' @ instanceID"

text \<open>A reference that names a node and an instance parses back to exactly these, whatever characters, colons included, the two
  names contain; so two references to different instances are never confused.\<close>

theorem runtime_ref_roundtrip:
  assumes "valid_utf8 nodeID" "valid_utf8 instanceID" "nodeID \<noteq> []" "instanceID \<noteq> []" "length (to_runes nodeID) < 2 ^ 61"
  shows "parseRuntimeRef (format_runtime_ref nodeID instanceID) = Some (Inr (nodeID, instanceID))"
proof -
  let ?len = "length (to_runes nodeID)"
  let ?n = "itoa ?len"
  have digits: "\<forall>c \<in> set ?n. is_digit c" using itoa_digits by blast
  have ascii: "\<forall>c \<in> set ?n. byte c < 128" "58 \<notin> set (map byte ?n)" using digits by (auto simp: is_digit_def)
  have colon: "to_runes (CHR '':'' # s) = 58 # to_runes s" for s by (simp add: to_runes_def runes_ascii_Cons)
  let ?body = "map byte ?n @ 58 # to_runes nodeID @ 58 # to_runes instanceID"
  have body: "to_runes (?n @ CHR '':'' # nodeID @ CHR '':'' # instanceID) = ?body"
    using valid_utf8_ascii [OF ascii(1)] assms(1) to_runes_ascii [OF ascii(1)] colon by (simp add: to_runes_append)
  have sep: "indexRune ?body 58 = int (length ?n)" using indexRune_first [OF ascii(2)] by simp
  have num: "netstringLength (of_runes (take (length ?n) ?body)) = Inr (int ?len)"
    using ascii_utf8 [OF ascii(1)] digits assms(5) by (simp add: netstringLength_def list_all_iff max_int64_def)
  have wrap: "wrap64 (int (length ?n) + 1 + int ?len) = int (length ?n) + 1 + int ?len"
    by (rule wrap64_id) (use assms(5) itoa_length [of ?len] in \<open>simp_all add: max_int64_def min_int64_def\<close>)
  have "slice (int (length ?n) + 1) (int (length ?n) + 1 + int ?len) ?body = Some (to_runes nodeID)"
    by (simp add: slice_def nat_add_distrib)
  moreover have "?body ! nat (int (length ?n) + 1 + int ?len) = 58"
    by (simp add: nat_add_distrib nth_append)
  moreover have "drop (nat (int (length ?n) + 1 + int ?len) + 1) ?body = to_runes instanceID"
    by (simp add: nat_add_distrib)
  moreover have "drop (length runtimeRefPrefix) (format_runtime_ref nodeID instanceID) = ?n @ CHR '':'' # nodeID @ CHR '':'' # instanceID"
    "has_prefix (format_runtime_ref nodeID instanceID) runtimeRefPrefix"
    by (simp_all add: format_runtime_ref_def runtimeRefPrefix_def has_prefix_def)
  ultimately show ?thesis
    using assms(3,4) of_to_runes [OF assms(1)] of_to_runes [OF assms(2)]
    by (simp add: parseRuntimeRef_def Let_def body sep num wrap del: of_nat_add take_append drop_append append_assoc)
qed

theorem runtime_ref_roundtrip_witness: "parseRuntimeRef ''uplink:3:n:1:a:b'' = Some (Inr (''n:1'', ''a:b''))"
proof -
  have ascii: "\<forall>c \<in> set ''n:1''. byte c < 128" "\<forall>c \<in> set ''a:b''. byte c < 128" by simp_all
  have "format_runtime_ref ''n:1'' ''a:b'' = ''uplink:3:n:1:a:b''"
    by (simp add: format_runtime_ref_def to_runes_ascii) code_simp
  then show ?thesis
    using runtime_ref_roundtrip [of "''n:1''" "''a:b''"] valid_utf8_ascii [OF ascii(1)] valid_utf8_ascii [OF ascii(2)] by (simp add: to_runes_ascii)
qed

text \<open>A reference that declares a node identifier whose length, added to that of the reference, leaves the range of integers.\<close>

definition overlong_ref :: "bytes \<Rightarrow> bool" where
  "overlong_ref ref \<longleftrightarrow>
     (\<exists>n. netstringLength (of_runes (take (nat (indexRune (to_runes (drop 7 ref)) 58)) (to_runes (drop 7 ref)))) = Inr n \<and>
        max_int64 < int (length (to_runes (drop 7 ref))) + n)"

lemma indexRune_less: "0 \<le> indexRune xs r \<Longrightarrow> indexRune xs r < int (length xs)"
  by (induction xs) (auto simp: Let_def split: if_splits)

lemma parse_panics:
  assumes "parseRuntimeRef ref = None"
  shows "overlong_ref ref"
proof -
  let ?body = "to_runes (drop 7 ref)" and ?sep = "indexRune (to_runes (drop 7 ref)) 58"
  have seven: "length runtimeRefPrefix = 7" by (simp add: runtimeRefPrefix_def)
  from assms obtain n where n: "\<not> ?sep < 0" "netstringLength (of_runes (take (nat ?sep) ?body)) = Inr n"
    "\<not> int (length ?body) < wrap64 (?sep + 1 + n)" "slice (?sep + 1) (wrap64 (?sep + 1 + n)) ?body = None"
    unfolding parseRuntimeRef_def Let_def seven by (auto split: if_splits sum.splits option.splits)
  have "0 \<le> n" using n(2) by (auto simp: netstringLength_def split: if_splits option.splits)
  moreover have "wrap64 (?sep + 1 + n) < ?sep + 1" using n(1,3,4) by (auto simp: slice_def split: if_splits)
  ultimately have "wrap64 (?sep + 1 + n) \<noteq> ?sep + 1 + n" "min_int64 \<le> ?sep + 1 + n" using n(1) by (auto simp: min_int64_def)
  then have "max_int64 < ?sep + 1 + n" using wrap64_id by force
  moreover have "?sep < int (length ?body)" using n(1) by (intro indexRune_less) simp
  ultimately show ?thesis using n(2) by (auto simp: overlong_ref_def)
qed

text \<open>A length near the top of the integer range makes the parser panic: the end of the node identifier wraps to a negative number, which
  passes the bound check, and the slice expression then fails at run time. Only such a length makes it panic.\<close>

theorem runtime_ref_panics:
  "parseRuntimeRef ''uplink:9223372036854775807:x'' = None \<and> (parseRuntimeRef ref = None \<longrightarrow> overlong_ref ref)"
proof
  have ascii: "\<forall>c \<in> set ''9223372036854775807''. byte c < 128" by simp
  have body: "to_runes ''9223372036854775807:x'' = map byte ''9223372036854775807'' @ [58, 120]" by (simp add: to_runes_ascii)
  have sep: "indexRune (map byte ''9223372036854775807'' @ [58, 120]) 58 = 19"
    using indexRune_first [of 58 "map byte ''9223372036854775807''" "[120]"] by simp
  have num: "netstringLength ''9223372036854775807'' = Inr 9223372036854775807"
    by (simp add: netstringLength_def atoi_def is_digit_def max_int64_def)
  have "of_runes (take 19 (map byte ''9223372036854775807'' @ [58, 120])) = ''9223372036854775807''"
    using ascii_utf8 [OF ascii] by simp
  then show "parseRuntimeRef ''uplink:9223372036854775807:x'' = None"
    using sep num by (simp add: parseRuntimeRef_def runtimeRefPrefix_def has_prefix_def body [simplified] Let_def wrap64_def slice_def)
qed (simp add: parse_panics)

theorem runtime_ref_panics_witness: "parseRuntimeRef ''uplink:9223372036854775807:x'' = None"
  using runtime_ref_panics [of "[]"] by simp

section \<open>One command\<close>

lemma dp_fields [simp]:
  "rep_CommandID (dp_fail rep e) = rep_CommandID rep" "rep_ClaimGeneration (dp_fail rep e) = rep_ClaimGeneration rep"
  "rep_CommandID (dp_succeed rep st) = rep_CommandID rep" "rep_ClaimGeneration (dp_succeed rep st) = rep_ClaimGeneration rep"
  "rep_Status (dp_fail rep e) = statusFailed"
  "rep_Status (dp_succeed rep st) = statusDone \<longleftrightarrow> rep_Status (dp_succeed rep st) \<noteq> statusFailed"
  by (auto simp: dp_fail_def dp_succeed_def statusDone_def statusFailed_def split: option.splits)

text \<open>Where a command is addressed to: the instance it names on this node.\<close>

definition addressed :: "bytes \<Rightarrow> command \<Rightarrow> bytes option" where
  "addressed nodeID cmd =
     (case parseRuntimeRef (cm_RuntimeRef cmd) of
        Some (Inr (n, d)) \<Rightarrow> if cm_NodeID cmd = nodeID \<and> n = nodeID then Some d else None
      | _ \<Rightarrow> None)"

definition superseded :: "'s tracker_api \<Rightarrow> bytes \<Rightarrow> command \<Rightarrow> 's \<Rightarrow> bool" where
  "superseded api d cmd s \<longleftrightarrow>
     (case api_GenerationForInstance api d s of None \<Rightarrow> False | Some g \<Rightarrow> 0 < cm_InstanceGeneration cmd \<and> cm_InstanceGeneration cmd < g)"

definition command_report :: "command \<Rightarrow> report" where
  "command_report cmd = zero_report\<lparr>rep_CommandID := cm_CommandID cmd, rep_ClaimGeneration := cm_ClaimGeneration cmd\<rparr>"

text \<open>The per-kind dispatch of \<open>execute\<close>, behind its guards.\<close>

definition dispatch :: "'s tracker_api \<Rightarrow> bytes \<Rightarrow> command \<Rightarrow> 's \<Rightarrow> 's \<times> report \<times> bool" where
  "dispatch api d cmd s =
     (let rep = command_report cmd; k = cm_Kind cmd
      in if k = kindProvision then (case dp_provision api rep d (max 0 (cm_InstanceGeneration cmd)) (cm_Payload cmd) s of (s', r) \<Rightarrow> (s', r, False))
         else if k = kindStart then dp_transition api rep d k (api_Start api) s
         else if k = kindStop then dp_transition api rep d k (api_Stop api) s
         else if k = kindHibernate then dp_transition api rep d k (api_Hibernate api) s
         else if k = kindDestroy then (case dp_destroy api rep d s of (s', r) \<Rightarrow> (s', r, False))
         else (s, dp_fail rep ''unknown command kind'', False))"

lemma execute_addressed:
  assumes "addressed nodeID cmd = Some d"
  shows "execute api nodeID cmd s =
    (if superseded api d cmd s then Some (s, zero_report, False, True)
     else case dispatch api d cmd s of (s', r, retry) \<Rightarrow> Some (s', r, retry, False))"
proof -
  obtain n where p: "parseRuntimeRef (cm_RuntimeRef cmd) = Some (Inr (n, d))" "cm_NodeID cmd = nodeID" "n = nodeID"
    using assms by (auto simp: addressed_def split: option.splits sum.splits if_splits)
  let ?g = "if cm_InstanceGeneration cmd < 0 then 0 else cm_InstanceGeneration cmd"
  have g: "?g = max 0 (cm_InstanceGeneration cmd)" by simp
  have f: "(case api_GenerationForInstance api d s of None \<Rightarrow> False | Some trackedGen \<Rightarrow> ?g \<noteq> 0 \<and> ?g < trackedGen) = superseded api d cmd s"
    by (auto simp: superseded_def split: option.splits)
  show ?thesis
    using p unfolding execute_def Let_def dispatch_def command_report_def f [symmetric] g [symmetric]
    by (auto split: prod.splits)
qed

lemma execute_refused:
  assumes "addressed nodeID cmd = None" "parseRuntimeRef (cm_RuntimeRef cmd) \<noteq> None"
  shows "\<exists>e. \<forall>(api :: 's tracker_api) s. execute api nodeID cmd s = Some (s, dp_fail (command_report cmd) e, False, False)"
proof -
  obtain x where x: "parseRuntimeRef (cm_RuntimeRef cmd) = Some x" using assms(2) by blast
  show ?thesis
  proof (cases x)
    case (Inl err)
    show ?thesis
      by (intro exI [of _ "''runtime_ref is unparseable''"] allI) (simp add: execute_def x Inl command_report_def)
  next
    case (Inr y)
    obtain n d where y: "y = (n, d)" by fastforce
    have "cm_NodeID cmd \<noteq> nodeID \<or> n \<noteq> nodeID" using assms(1) by (auto simp: addressed_def x Inr y split: if_splits)
    then show ?thesis
      by (intro exI [of _ "''command node_id and runtime_ref must address this node''"] allI) (auto simp: execute_def x Inr y command_report_def Let_def)
  qed
qed

lemma execute_parsed: "execute api nodeID cmd s = Some x \<Longrightarrow> parseRuntimeRef (cm_RuntimeRef cmd) \<noteq> None"
  by (cases "parseRuntimeRef (cm_RuntimeRef cmd)") (simp_all add: execute_def)

lemma dispatch_report:
  assumes "dispatch api d cmd s = (s', r, retry)"
  shows "rep_CommandID r = cm_CommandID cmd" "rep_ClaimGeneration r = cm_ClaimGeneration cmd" "rep_Status r \<in> {statusDone, statusFailed}"
    "retry \<Longrightarrow> cm_Kind cmd = kindStart \<and> api_RefForInstance api d s = None \<and> s' = s"
  using assms
  by (auto simp: dispatch_def Let_def command_report_def dp_provision_def dp_transition_def dp_destroy_def
      split: if_splits prod.splits option.splits sum.splits)

text \<open>The answer to a command that does not panic.\<close>

lemma execute_answers:
  fixes api :: "'s tracker_api"
  assumes "execute api nodeID cmd s = Some (s', rep, retry, fenced)"
  shows "(fenced \<longleftrightarrow> (\<exists>d. addressed nodeID cmd = Some d \<and> superseded api d cmd s)) \<and>
    (fenced \<or> retry \<or> addressed nodeID cmd = None \<longrightarrow> s' = s) \<and> (addressed nodeID cmd = None \<longrightarrow> rep_Status rep = statusFailed) \<and>
    (\<not> fenced \<longrightarrow> rep_CommandID rep = cm_CommandID cmd \<and> rep_ClaimGeneration rep = cm_ClaimGeneration cmd \<and>
       rep_Status rep \<in> {statusDone, statusFailed}) \<and>
    (retry \<longrightarrow> \<not> fenced \<and> cm_Kind cmd = kindStart \<and> (\<exists>d. addressed nodeID cmd = Some d \<and> api_RefForInstance api d s = None))"
proof (cases "addressed nodeID cmd")
  case None
  from execute_refused [OF None execute_parsed [OF assms], where 's = 's]
  obtain e where "\<forall>(api :: 's tracker_api) s. execute api nodeID cmd s = Some (s, dp_fail (command_report cmd) e, False, False)" by blast
  then have "s' = s" "rep = dp_fail (command_report cmd) e" "\<not> retry" "\<not> fenced" using assms by simp_all
  then show ?thesis by (simp add: None command_report_def)
next
  case (Some d)
  obtain u r t where d: "dispatch api d cmd s = (u, r, t)" by (metis prod_cases3)
  show ?thesis
    using assms dispatch_report [OF d] unfolding execute_addressed [OF Some] d
    by (cases "superseded api d cmd s") (auto simp: Some)
qed

lemma execute_panics: "execute api nodeID cmd s = None \<longleftrightarrow> parseRuntimeRef (cm_RuntimeRef cmd) = None"
  by (auto simp: execute_def Let_def split: option.splits sum.splits prod.splits)

text \<open>C40: What becomes of a command. It makes the code panic only if its runtime reference declares a node identifier so long that the
  sum with the length of the reference leaves the range of integers; otherwise it is handled, and then it is dropped without a
  report exactly when it names a tracked instance of this node and carries a positive generation below the tracked one (so a
  generation of zero or less is never dropped), which leaves the tracker untouched; a command that is not for this node is
  reported failed and does not touch it either; every command that is not dropped is answered by a report, done or failed, that
  echoes its identifier and claim generation; and only a start of an unknown instance is to be retried.\<close>

theorem execute_contract:
  "case execute api nodeID cmd s of
     None \<Rightarrow> overlong_ref (cm_RuntimeRef cmd)
   | Some (s', rep, retry, fenced) \<Rightarrow>
       (fenced \<longleftrightarrow> (\<exists>d g. addressed nodeID cmd = Some d \<and> api_GenerationForInstance api d s = Some g \<and>
          0 < cm_InstanceGeneration cmd \<and> cm_InstanceGeneration cmd < g)) \<and>
       (fenced \<or> retry \<or> addressed nodeID cmd = None \<longrightarrow> s' = s) \<and> (addressed nodeID cmd = None \<longrightarrow> rep_Status rep = statusFailed) \<and>
       (\<not> fenced \<longrightarrow> rep_CommandID rep = cm_CommandID cmd \<and> rep_ClaimGeneration rep = cm_ClaimGeneration cmd \<and>
          rep_Status rep \<in> {statusDone, statusFailed}) \<and>
       (retry \<longrightarrow> \<not> fenced \<and> cm_Kind cmd = kindStart \<and> (\<exists>d. addressed nodeID cmd = Some d \<and> api_RefForInstance api d s = None))"
proof (cases "execute api nodeID cmd s")
  case None
  then have "parseRuntimeRef (cm_RuntimeRef cmd) = None" by (simp only: execute_panics)
  then have "overlong_ref (cm_RuntimeRef cmd)" by (rule parse_panics)
  then show ?thesis unfolding None by simp
next
  case (Some x)
  obtain s' rep retry fenced where x: "x = (s', rep, retry, fenced)" by (metis prod_cases4)
  have "(\<exists>d. addressed nodeID cmd = Some d \<and> superseded api d cmd s) \<longleftrightarrow>
    (\<exists>d g. addressed nodeID cmd = Some d \<and> api_GenerationForInstance api d s = Some g \<and>
       0 < cm_InstanceGeneration cmd \<and> cm_InstanceGeneration cmd < g)"
    by (auto simp: superseded_def split: option.splits)
  from execute_answers [OF Some [unfolded x], unfolded this] show ?thesis unfolding Some x option.case prod.case .
qed

definition demo_start :: command where
  "demo_start = \<lparr>cm_CommandID = ''c'', cm_NodeID = ''n'', cm_RuntimeRef = ''uplink:1:n:a'', cm_Kind = ''start'', cm_Payload = [], cm_ClaimGeneration = 1,
     cm_InstanceGeneration = 2\<rparr>"

lemma demo_ref: "parseRuntimeRef ''uplink:1:n:a'' = Some (Inr (''n'', ''a''))"
  by code_simp

theorem execute_contract_witness:
  "\<exists>s' rep. execute (plain_api True 0 []) ''n'' demo_start (newTracker 1 [] False None) = Some (s', rep, True, False) \<and>
     rep_CommandID rep = ''c'' \<and> s' = newTracker 1 [] False None"
proof -
  let ?t = "newTracker 1 [] False None"
  obtain rep where e: "execute (plain_api True 0 []) ''n'' demo_start ?t = Some (?t, rep, True, False)"
    by (simp add: execute_def demo_start_def demo_ref Let_def plain_api_def GenerationForInstance_def tracked_def newTracker_def kind_defs
        dp_transition_def RefForInstance_def)
  then show ?thesis using execute_contract [where api = "plain_api True 0 []" and nodeID = "''n''" and cmd = demo_start and s = ?t] by (auto simp: demo_start_def)
qed

section \<open>Redelivery\<close>

text \<open>The contract on which redelivery rests: \<open>first\<close> and \<open>again\<close> are the tracker at the two deliveries of a command.\<close>

locale redelivery =
  fixes first again :: "'s tracker_api" and inv :: "'s \<Rightarrow> bool"
  assumes views: "api_RefForInstance again = api_RefForInstance first" "api_GenerationForInstance again = api_GenerationForInstance first"
    and provision_failed: "inv s \<Longrightarrow> api_Provision first d g spec s = (s', Inl e) \<Longrightarrow> s' = s \<and> (\<exists>e. api_Provision again d g spec s = (s, Inl e))"
    and provision_done: "inv s \<Longrightarrow> api_Provision first d g spec s = (s', Inr (i, c)) \<Longrightarrow>
      (\<exists>j c. api_Provision again d g spec s' = (s', Inr (j, c)) \<and> in_Status j = in_Status i) \<and>
      (\<exists>h. api_GenerationForInstance first d s' = Some h \<and> (h = g \<or> api_GenerationForInstance first d s = Some h))"
    and move_failed: "inv s \<Longrightarrow> op \<in> {api_Start, api_Stop, api_Hibernate} \<Longrightarrow> op first r s = (s', Inl e) \<Longrightarrow> s' = s \<and> (\<exists>e. op again r s = (s, Inl e))"
    and move_done: "inv s \<Longrightarrow> op \<in> {api_Start, api_Stop, api_Hibernate} \<Longrightarrow> op first r s = (s', Inr i) \<Longrightarrow>
      (\<exists>j. op again r s' = (s', Inr j) \<and> in_Status j = in_Status i) \<and>
      api_RefForInstance first d s' = api_RefForInstance first d s \<and> api_GenerationForInstance first d s' = api_GenerationForInstance first d s"
    and destroy_failed: "inv s \<Longrightarrow> api_Destroy first r s = (s', Inl e) \<Longrightarrow> s' = s \<and> api_Destroy again r s = (s, Inl e)"
    and destroy_done: "inv s \<Longrightarrow> api_RefForInstance first d s = Some r \<Longrightarrow> api_Destroy first r s = (s', Inr i) \<Longrightarrow>
      in_Status i = StatusDestroyed \<and> api_RefForInstance first d s' = None \<and> api_GenerationForInstance first d s' = None"
begin

lemma provision_again:
  assumes "inv s" "dp_provision first rep d g payload s = (s', r)"
  shows "dp_provision again rep d g payload s' = (s', r)"
    "s' = s \<or> (\<exists>h. api_GenerationForInstance first d s' = Some h \<and> (h = g \<or> api_GenerationForInstance first d s = Some h))"
proof -
  let ?spec = "if trim_space payload = ''null'' then [] else payload"
  obtain u x where u: "api_Provision first d g ?spec s = (u, x)" by fastforce
  have "dp_provision again rep d g payload s' = (s', r) \<and>
    (s' = s \<or> (\<exists>h. api_GenerationForInstance first d s' = Some h \<and> (h = g \<or> api_GenerationForInstance first d s = Some h)))"
  proof (cases x)
    case (Inl e)
    then show ?thesis using provision_failed [OF assms(1) u [unfolded Inl]] assms(2) u by (auto simp: dp_provision_def Let_def split: if_splits)
  next
    case (Inr y)
    obtain i c where y: "y = (i, c)" by fastforce
    show ?thesis using provision_done [OF assms(1) u [unfolded Inr y]] assms(2) u Inr y
      by (auto simp: dp_provision_def Let_def split: if_splits)
  qed
  then show "dp_provision again rep d g payload s' = (s', r)"
    "s' = s \<or> (\<exists>h. api_GenerationForInstance first d s' = Some h \<and> (h = g \<or> api_GenerationForInstance first d s = Some h))" by blast+
qed

lemma move_again:
  assumes "inv s" "op \<in> {api_Start, api_Stop, api_Hibernate}" "dp_transition first rep d k (op first) s = (s', r, retry)"
  shows "dp_transition again rep d k (op again) s' = (s', r, retry) \<and> api_GenerationForInstance first d s' = api_GenerationForInstance first d s"
proof (cases "api_RefForInstance first d s")
  case None
  then show ?thesis using assms(3) by (auto simp: dp_transition_def views split: if_splits)
next
  case (Some ref)
  obtain u x where u: "op first ref s = (u, x)" by fastforce
  show ?thesis
  proof (cases x)
    case (Inl e)
    then show ?thesis using move_failed [OF assms(1,2) u [unfolded Inl]] assms(3) u Some by (auto simp: dp_transition_def views)
  next
    case (Inr i)
    then show ?thesis using move_done [OF assms(1,2) u [unfolded Inr], of d] assms(3) u Some by (auto simp: dp_transition_def views)
  qed
qed

lemma destroy_again:
  assumes "inv s" "dp_destroy first rep d s = (s', r)"
  shows "dp_destroy again rep d s' = (s', r) \<and> (s' = s \<or> api_GenerationForInstance first d s' = None)"
proof (cases "api_RefForInstance first d s")
  case None
  then show ?thesis using assms(2) by (auto simp: dp_destroy_def views)
next
  case (Some ref)
  obtain u x where u: "api_Destroy first ref s = (u, x)" by fastforce
  show ?thesis
  proof (cases x)
    case (Inl e)
    then show ?thesis using destroy_failed [OF assms(1) u [unfolded Inl]] assms(2) u Some by (auto simp: dp_destroy_def views)
  next
    case (Inr i)
    then show ?thesis using destroy_done [OF assms(1) Some u [unfolded Inr]] assms(2) u Some by (auto simp: dp_destroy_def views)
  qed
qed

lemma dispatch_again:
  assumes "inv s" "\<not> superseded first d cmd s" "dispatch first d cmd s = (s', r, retry)"
  shows "dispatch again d cmd s' = (s', r, retry) \<and> \<not> superseded again d cmd s'"
proof -
  let ?g = "cm_InstanceGeneration cmd" and ?rep = "command_report cmd" and ?k = "cm_Kind cmd"
  have same: "api_GenerationForInstance first d s' = api_GenerationForInstance first d s \<Longrightarrow> \<not> superseded again d cmd s'"
    using assms(2) by (simp add: superseded_def views)
  have move: "dp_transition again ?rep d ?k (op again) s' = (s', r, retry) \<and> \<not> superseded again d cmd s'"
    if "op \<in> {api_Start, api_Stop, api_Hibernate}" "dp_transition first ?rep d ?k (op first) s = (s', r, retry)" for op
    using move_again [OF assms(1) that] same by simp
  consider (provision) "?k = kindProvision" | (start) "?k = kindStart" | (stop) "?k = kindStop" | (hibernate) "?k = kindHibernate"
    | (destroy) "?k = kindDestroy" | (other) "?k \<notin> {kindProvision, kindStart, kindStop, kindHibernate, kindDestroy}" by blast
  then show ?thesis
  proof cases
    case provision
    then have p: "dp_provision first ?rep d (max 0 ?g) (cm_Payload cmd) s = (s', r)" "\<not> retry"
      using assms(3) by (auto simp: dispatch_def Let_def split: prod.splits)
    note a = provision_again [OF assms(1) p(1)]
    have "\<not> superseded again d cmd s'"
      using a(2) assms(2) by (auto simp: superseded_def views split: option.splits)
    then show ?thesis using a(1) p(2) provision by (simp add: dispatch_def Let_def)
  next
    case destroy
    then have p: "dp_destroy first ?rep d s = (s', r)" "\<not> retry" using assms(3) by (auto simp: dispatch_def Let_def kind_defs split: prod.splits)
    note a = destroy_again [OF assms(1) p(1)]
    then have "\<not> superseded again d cmd s'" using assms(2) by (auto simp: superseded_def views)
    then show ?thesis using a p(2) destroy by (simp add: dispatch_def Let_def kind_defs)
  next
    case start
    then show ?thesis using move [of api_Start] assms(3) by (simp add: dispatch_def Let_def kind_defs)
  next
    case stop
    then show ?thesis using move [of api_Stop] assms(3) by (simp add: dispatch_def Let_def kind_defs)
  next
    case hibernate
    then show ?thesis using move [of api_Hibernate] assms(3) by (simp add: dispatch_def Let_def kind_defs)
  next
    case other
    then show ?thesis using assms(3) same by (auto simp: dispatch_def Let_def)
  qed
qed

lemma execute_again:
  assumes "inv s" "execute first nodeID cmd s = Some (s', rep, retry, fenced)"
  shows "execute again nodeID cmd s' = Some (s', rep, retry, fenced)"
proof (cases "addressed nodeID cmd")
  case None
  from execute_refused [OF None execute_parsed [OF assms(2)], where 's = 's]
  obtain e where "\<forall>(api :: 's tracker_api) s. execute api nodeID cmd s = Some (s, dp_fail (command_report cmd) e, False, False)" by blast
  then show ?thesis using assms(2) by simp
next
  case (Some d)
  show ?thesis
  proof (cases "superseded first d cmd s")
    case True
    moreover from True have "superseded again d cmd s" by (simp add: superseded_def views)
    ultimately show ?thesis using assms(2) by (auto simp: execute_addressed [OF Some])
  next
    case False
    then have "dispatch first d cmd s = (s', rep, retry)" "\<not> fenced" using assms(2) by (auto simp: execute_addressed [OF Some] split: prod.splits)
    then show ?thesis using dispatch_again [OF assms(1) False] by (simp add: execute_addressed [OF Some])
  qed
qed

end

text \<open>The runtime tracker honours the contract when persisting succeeds.\<close>

definition ready :: "bytes \<Rightarrow> Tracker \<Rightarrow> bool" where
  "ready random t \<longleftrightarrow> indexed t \<and> mirrored t \<and> newRuntimeRef random |\<notin>| fmdom (t_byRef t)"

lemma persist_again: "mirrored t \<Longrightarrow> fmlookup (t_byRef t) (in_RuntimeRef i) = Some i \<Longrightarrow> persist_update True i i t = (t, Inr i)"
proof -
  assume m: "mirrored t" and i: "fmlookup (t_byRef t) (in_RuntimeRef i) = Some i"
  have "fmupd (in_RuntimeRef i) i (t_byRef t) = t_byRef t" using i by (intro fmap_ext) auto
  then have p: "put_instance i t = t" by simp
  have "persistLocked True t = (t, True)"
    using m i by (auto simp: persistLocked_def mirrored_def saveSnapshot_def split: option.splits)
  then show "persist_update True i i t = (t, Inr i)" by (simp only: persist_update_def p) simp
qed

lemma tracker_transition_again:
  assumes "indexed t" "rt_transition True ref status t = (t', x)"
  shows "x = Inl e \<Longrightarrow> t' = t" "x = Inr i \<Longrightarrow> rt_transition True ref status t' = (t', Inr i)"
    "t_byID t' = t_byID t" "tracked d t' = None \<longleftrightarrow> tracked d t = None" "map_option in_Generation (tracked d t') = map_option in_Generation (tracked d t)"
proof -
  have "(x = Inl e \<longrightarrow> t' = t) \<and> (x = Inr i \<longrightarrow> rt_transition True ref status t' = (t', Inr i)) \<and> t_byID t' = t_byID t \<and>
    map_option in_Generation (tracked d t') = map_option in_Generation (tracked d t)"
  proof (cases "fmlookup (t_byRef t) ref")
    case (Some j)
    note dj = indexedD [OF assms(1) Some]
    have j: "fmlookup (t_byRef t) (in_RuntimeRef j) = Some j" using Some dj(1) by simp
    let ?j = "j\<lparr>in_Status := status\<rparr>"
    show ?thesis
    proof (cases "transitionAllowed (in_Status j) status")
      case True
      then have u: "persist_update True j ?j t = (t', x)" using assms(2) Some by (simp add: rt_transition_def)
      have jr: "in_RuntimeRef ?j = in_RuntimeRef j" by simp
      show ?thesis
      proof (cases rule: persist_update_cases [OF u j jr])
        case 2
        have k: "fmlookup (t_byRef t') ref = Some ?j" using 2(3) dj(1) by simp
        have "persist_update True ?j ?j t' = (t', Inr ?j)" using persist_again [OF 2(2), of ?j] k dj(1) by simp
        then have "rt_transition True ref status t' = (t', Inr ?j)" using k by (simp add: rt_transition_def transitionAllowed_def)
        moreover have "map_option in_Generation (tracked d t') = map_option in_Generation (tracked d t)"
          using 2(3,4) dj(1) Some by (auto simp: tracked_def split: option.splits)
        ultimately show ?thesis using 2 by simp
      qed simp
    qed (use assms(2) Some in \<open>auto simp: rt_transition_def\<close>)
  qed (use assms(2) in \<open>auto simp: rt_transition_def\<close>)
  then show "x = Inl e \<Longrightarrow> t' = t" "x = Inr i \<Longrightarrow> rt_transition True ref status t' = (t', Inr i)" "t_byID t' = t_byID t"
    "map_option in_Generation (tracked d t') = map_option in_Generation (tracked d t)" by blast+
  then show "tracked d t' = None \<longleftrightarrow> tracked d t = None" by (cases "tracked d t"; cases "tracked d t'") simp_all
qed

lemma persistLocked_True: "\<exists>t'. persistLocked True t = (t', True)"
  by (simp add: persistLocked_def)

lemma tracker_provision_again:
  assumes "ready random t" "rt_Provision True now random d g spec t = (t', x)"
  shows "x = Inl e \<Longrightarrow> t' = t \<and> (\<exists>e. rt_Provision True now' random' d g spec t = (t, Inl e))"
    "x = Inr (i, c) \<Longrightarrow> rt_Provision True now' random' d g spec t' = (t', Inr (i, False)) \<and>
       (\<exists>h. GenerationForInstance d t' = Some h \<and> (h = g \<or> GenerationForInstance d t = Some h))"
proof -
  have inv: "indexed t" "mirrored t" "newRuntimeRef random |\<notin>| fmdom (t_byRef t)" using assms(1) by (simp_all add: ready_def)
  have "(x = Inl e \<longrightarrow> t' = t \<and> (\<exists>e. rt_Provision True now' random' d g spec t = (t, Inl e))) \<and>
    (x = Inr (i, c) \<longrightarrow> rt_Provision True now' random' d g spec t' = (t', Inr (i, False)) \<and>
       (\<exists>h. GenerationForInstance d t' = Some h \<and> (h = g \<or> GenerationForInstance d t = Some h)))"
  proof (cases "tracked d t")
    case (Some j)
    then have j: "fmlookup (t_byRef t) (in_RuntimeRef j) = Some j" "in_InstanceID j = d" using tracked_iff [OF inv(1)] by simp_all
    show ?thesis
    proof (cases "g > in_Generation j")
      case True
      let ?j = "j\<lparr>in_Generation := g\<rparr>"
      obtain u y where u: "persist_update True j ?j t = (u, y)" by fastforce
      have jr: "in_RuntimeRef ?j = in_RuntimeRef j" by simp
      show ?thesis
      proof (cases rule: persist_update_cases [OF u j(1) jr])
        case 2
        have "fmlookup (t_byID t) d = Some (in_RuntimeRef j)" using indexedD(2) [OF inv(1) j(1)] j(2) by simp
        then have k: "tracked d u = Some ?j" using 2(3,4) by (simp add: tracked_def)
        have "t' = u" "x = Inr (?j, False)" using assms(2) Some True u 2(1) by (simp_all add: rt_Provision_def)
        then show ?thesis using k by (auto simp: rt_Provision_def GenerationForInstance_def)
      qed simp
    next
      case False
      then show ?thesis using assms(2) Some by (auto simp: rt_Provision_def GenerationForInstance_def)
    qed
  next
    case None
    then have id: "fmlookup (t_byID t) d = None" using untracked [OF inv(1)] by simp
    then have t: "t\<lparr>t_byID := fmdrop d (t_byID t)\<rparr> = t" by (simp add: fmdrop_fresh)
    let ?i = "\<lparr>in_InstanceID = d, in_RuntimeRef = newRuntimeRef random, in_Status = StatusPending, in_Generation = g, in_CreatedAt = now,
      in_Spec = spec, in_PID = 0, in_ProcStartToken = [], in_LastExitCode = None, in_LastExitReason = []\<rparr>"
    let ?t = "(put_instance ?i t)\<lparr>t_byID := fmupd d (in_RuntimeRef ?i) (t_byID t)\<rparr>"
    obtain u where u: "persistLocked True ?t = (u, True)" using persistLocked_True by blast
    have "tracked d u = Some ?i" using persistLocked_cases(3,4) [OF u] by (simp add: tracked_def)
    then have "rt_Provision True now' random' d g spec u = (u, Inr (?i, False)) \<and> GenerationForInstance d u = Some g"
      by (simp add: rt_Provision_def GenerationForInstance_def)
    moreover have "(\<exists>e. t' = t \<and> x = Inl e \<and> rt_Provision True now' random' d g spec t = (t, Inl e)) \<or> t' = u \<and> x = Inr (?i, True)"
      using assms(2) None u by (auto simp: rt_Provision_def t Let_def split: if_splits option.splits sum.splits)
    ultimately show ?thesis by auto
  qed
  then show "x = Inl e \<Longrightarrow> t' = t \<and> (\<exists>e. rt_Provision True now' random' d g spec t = (t, Inl e))"
    "x = Inr (i, c) \<Longrightarrow> rt_Provision True now' random' d g spec t' = (t', Inr (i, False)) \<and>
       (\<exists>h. GenerationForInstance d t' = Some h \<and> (h = g \<or> GenerationForInstance d t = Some h))" by blast+
qed

lemma tracker_destroy_again:
  assumes "indexed t" "destroy_locked True r t = (t', x)"
  shows "x = Inl e \<Longrightarrow> t' = t" "x = Inr i \<Longrightarrow> RefForInstance d t = Some r \<Longrightarrow>
    in_Status i = StatusDestroyed \<and> RefForInstance d t' = None \<and> GenerationForInstance d t' = None"
proof -
  have "(x = Inl e \<longrightarrow> t' = t) \<and> (x = Inr i \<and> RefForInstance d t = Some r \<longrightarrow>
    in_Status i = StatusDestroyed \<and> RefForInstance d t' = None \<and> GenerationForInstance d t' = None)"
  proof (cases "fmlookup (t_byRef t) r")
    case (Some j)
    obtain u where u: "persistLocked True (t\<lparr>t_byRef := fmdrop r (t_byRef t), t_byID := fmdrop (in_InstanceID j) (t_byID t)\<rparr>) = (u, True)"
      using persistLocked_True by blast
    have "in_InstanceID j = d" if "RefForInstance d t = Some r"
      using indexed_id [OF assms(1), of d r] that Some by (auto simp: RefForInstance_def)
    then show ?thesis using assms(2) Some u persistLocked_cases(3,4) [OF u]
      by (auto simp: destroy_locked_def RefForInstance_def GenerationForInstance_def tracked_def)
  qed (use assms(2) in \<open>auto simp: destroy_locked_def\<close>)
  then show "x = Inl e \<Longrightarrow> t' = t" "x = Inr i \<Longrightarrow> RefForInstance d t = Some r \<Longrightarrow>
    in_Status i = StatusDestroyed \<and> RefForInstance d t' = None \<and> GenerationForInstance d t' = None" by blast+
qed

lemma plain_views [simp]: "api_RefForInstance (plain_api ok now random) = RefForInstance"
  "api_GenerationForInstance (plain_api ok now random) = GenerationForInstance"
  by (simp_all add: plain_api_def)

interpretation plain: redelivery "plain_api True now random" "plain_api True now' random'" "ready random" for now random now' random'
proof
  fix s s' :: Tracker and d r spec g e i c and op :: "Tracker tracker_api \<Rightarrow> bytes \<Rightarrow> Tracker \<Rightarrow> Tracker \<times> (rt_error + Instance)"
  assume s: "ready random s"
  then have x: "indexed s" by (simp add: ready_def)
  let ?a = "plain_api True now random" and ?b = "plain_api True now' random'"
  show "api_Provision ?a d g spec s = (s', Inl e) \<Longrightarrow> s' = s \<and> (\<exists>e. api_Provision ?b d g spec s = (s, Inl e))"
    using tracker_provision_again(1) [OF s, of now d g spec s'] by (simp add: plain_api_def)
  show "api_Provision ?a d g spec s = (s', Inr (i, c)) \<Longrightarrow>
      (\<exists>j c. api_Provision ?b d g spec s' = (s', Inr (j, c)) \<and> in_Status j = in_Status i) \<and>
      (\<exists>h. api_GenerationForInstance ?a d s' = Some h \<and> (h = g \<or> api_GenerationForInstance ?a d s = Some h))"
    using tracker_provision_again(2) [OF s, of now d g spec s'] by (auto simp: plain_api_def)
  assume op: "op \<in> {api_Start, api_Stop, api_Hibernate}"
  then obtain status where status: "\<And>now random. op (plain_api True now random) = (\<lambda>ref. rt_transition True ref status)"
    by (auto simp: plain_api_def)
  show "op ?a r s = (s', Inl e) \<Longrightarrow> s' = s \<and> (\<exists>e. op ?b r s = (s, Inl e))"
    using tracker_transition_again(1) [OF x, of r status s'] by (auto simp: status)
  show "op ?a r s = (s', Inr i) \<Longrightarrow> (\<exists>j. op ?b r s' = (s', Inr j) \<and> in_Status j = in_Status i) \<and>
      api_RefForInstance ?a d s' = api_RefForInstance ?a d s \<and> api_GenerationForInstance ?a d s' = api_GenerationForInstance ?a d s"
    using tracker_transition_again(2,3,5) [OF x, of r status s'] by (auto simp: status RefForInstance_def GenerationForInstance_def)
next
  fix s s' :: Tracker and d r e i
  assume s: "ready random s"
  then have x: "indexed s" by (simp add: ready_def)
  show "api_Destroy (plain_api True now random) r s = (s', Inl e) \<Longrightarrow> s' = s \<and> api_Destroy (plain_api True now' random') r s = (s, Inl e)"
    using tracker_destroy_again(1) [OF x, of r s'] by (auto simp: plain_api_def)
  show "api_RefForInstance (plain_api True now random) d s = Some r \<Longrightarrow> api_Destroy (plain_api True now random) r s = (s', Inr i) \<Longrightarrow>
      in_Status i = StatusDestroyed \<and> api_RefForInstance (plain_api True now random) d s' = None \<and>
      api_GenerationForInstance (plain_api True now random) d s' = None"
    using tracker_destroy_again(2) [OF x, of r s'] by (auto simp: plain_api_def)
qed (simp_all add: plain_api_def)

text \<open>Whether or not persisting succeeds, an operation that fails leaves the tracker as it was, and one that succeeds reports a status that
  has a name on the wire.\<close>

lemma provision_outcome:
  assumes "ready random t" "rt_Provision ok now random d g spec t = (t', x)"
  shows "(\<forall>e. x = Inl e \<longrightarrow> t' = t) \<and> (\<forall>i c. x = Inr (i, c) \<longrightarrow> st_Valid (in_Status i))"
proof (cases "tracked d t")
  case (Some j)
  have x: "indexed t" using assms(1) by (simp add: ready_def)
  have j: "fmlookup (t_byRef t) (in_RuntimeRef j) = Some j" using Some tracked_iff [OF x] by simp
  have live: "st_Valid (in_Status j)" using written_loads(2) indexedD(3) [OF x j] by blast
  obtain u y where u: "persist_update ok j (j\<lparr>in_Generation := g\<rparr>) t = (u, y)" by fastforce
  have jr: "in_RuntimeRef (j\<lparr>in_Generation := g\<rparr>) = in_RuntimeRef j" by simp
  show ?thesis
    by (cases rule: persist_update_cases [OF u j jr])
      (use assms(2) Some u live in \<open>auto simp: rt_Provision_def split: if_splits\<close>)
next
  case None
  then have id: "fmlookup (t_byID t) d = None" using untracked assms(1) by (simp add: ready_def)
  then have t: "t\<lparr>t_byID := fmdrop d (t_byID t)\<rparr> = t" by (simp add: fmdrop_fresh)
  let ?i = "\<lparr>in_InstanceID = d, in_RuntimeRef = newRuntimeRef random, in_Status = StatusPending, in_Generation = g, in_CreatedAt = now,
    in_Spec = spec, in_PID = 0, in_ProcStartToken = [], in_LastExitCode = None, in_LastExitReason = []\<rparr>"
  let ?t = "(put_instance ?i t)\<lparr>t_byID := fmupd d (in_RuntimeRef ?i) (t_byID t)\<rparr>"
  obtain u b where u: "persistLocked ok ?t = (u, b)" by fastforce
  have "fmdrop (newRuntimeRef random) (fmupd (newRuntimeRef random) ?i (t_byRef t)) = t_byRef t"
    using assms(1) by (intro fmap_ext) (auto simp: ready_def fmlookup_dom_iff)
  moreover have "fmdrop d (fmupd d (newRuntimeRef random) (t_byID t)) = t_byID t" using id by (intro fmap_ext) auto
  ultimately have r: "\<not> b \<Longrightarrow> u\<lparr>t_byRef := fmdrop (newRuntimeRef random) (t_byRef u), t_byID := fmdrop d (t_byID u)\<rparr> = t"
    using persistLocked_cases(2) [OF u] by simp
  show ?thesis
    using assms(2) None u r
    by (cases b) (auto simp: rt_Provision_def t Let_def st_Valid_def split: if_splits option.splits sum.splits)
qed

lemma transition_outcome:
  assumes "indexed t" "st_Valid status" "rt_transition ok ref status t = (t', x)"
  shows "(\<forall>e. x = Inl e \<longrightarrow> t' = t) \<and> (\<forall>i. x = Inr i \<longrightarrow> st_Valid (in_Status i))"
proof (cases "fmlookup (t_byRef t) ref")
  case (Some j)
  have j: "fmlookup (t_byRef t) (in_RuntimeRef j) = Some j" using Some indexedD(1) [OF assms(1)] by simp
  obtain u y where u: "persist_update ok j (j\<lparr>in_Status := status\<rparr>) t = (u, y)" by fastforce
  have jr: "in_RuntimeRef (j\<lparr>in_Status := status\<rparr>) = in_RuntimeRef j" by simp
  show ?thesis
    by (cases rule: persist_update_cases [OF u j jr])
      (use assms(2,3) Some u in \<open>auto simp: rt_transition_def split: if_splits\<close>)
qed (use assms(3) in \<open>auto simp: rt_transition_def\<close>)

lemma destroy_outcome:
  assumes "indexed t" "destroy_locked ok ref t = (t', x)"
  shows "(\<forall>e. x = Inl e \<longrightarrow> t' = t) \<and> (\<forall>i. x = Inr i \<longrightarrow> st_Valid (in_Status i))"
proof (cases "fmlookup (t_byRef t) ref")
  case (Some j)
  obtain u b where u: "persistLocked ok (t\<lparr>t_byRef := fmdrop ref (t_byRef t), t_byID := fmdrop (in_InstanceID j) (t_byID t)\<rparr>) = (u, b)"
    by fastforce
  have "fmupd ref j (fmdrop ref (t_byRef t)) = t_byRef t" using Some by (intro fmap_ext) auto
  moreover have "fmupd (in_InstanceID j) ref (fmdrop (in_InstanceID j) (t_byID t)) = t_byID t"
    using indexedD(2) [OF assms(1) Some] by (intro fmap_ext) auto
  ultimately have r: "\<not> b \<Longrightarrow> u\<lparr>t_byRef := fmupd ref j (t_byRef u), t_byID := fmupd (in_InstanceID j) ref (t_byID u)\<rparr> = t"
    using persistLocked_cases(2) [OF u] by simp
  show ?thesis
    using assms(2) Some u r by (cases b) (auto simp: destroy_locked_def st_Valid_def)
qed (use assms(2) in \<open>auto simp: destroy_locked_def\<close>)

lemma succeed_status: "st_Valid st \<Longrightarrow> rep_Status (dp_succeed rep st) \<noteq> statusFailed"
  by (auto simp: st_Valid_def dp_succeed_def reportedStatus_def statusDone_def statusFailed_def)

lemma status_valid: "st_Valid StatusRunning" "st_Valid StatusStopped" "st_Valid StatusHibernated" "st_Valid StatusDestroyed"
  by (simp_all add: st_Valid_def)

lemma failed_unchanged:
  assumes "ready random t" "dispatch (plain_api ok now random) d cmd t = (t', r, retry)" "rep_Status r = statusFailed"
  shows "t' = t"
proof -
  have x: "indexed t" using assms(1) by (simp add: ready_def)
  let ?api = "plain_api ok now random" and ?rep = "command_report cmd"
  have prov: "t' = t" if "dp_provision ?api ?rep d g payload t = (t', r)" for g payload
    using that assms(3) provision_outcome [OF assms(1)] succeed_status
    by (fastforce simp: dp_provision_def plain_api_def Let_def split: if_splits prod.splits sum.splits)
  have move: "t' = t" if "st_Valid st" "dp_transition ?api ?rep d k (\<lambda>ref. rt_transition ok ref st) t = (t', r, retry)" for st k
    using that(2) assms(3) transition_outcome [OF x that(1)] succeed_status
    by (fastforce simp: dp_transition_def split: if_splits option.splits prod.splits sum.splits)
  have dest: "t' = t" if "dp_destroy ?api ?rep d t = (t', r)"
    using that assms(3) destroy_outcome [OF x] succeed_status status_valid(4)
    by (fastforce simp: dp_destroy_def plain_api_def split: if_splits option.splits prod.splits sum.splits)
  have api: "api_Start ?api = (\<lambda>ref. rt_transition ok ref StatusRunning)" "api_Stop ?api = (\<lambda>ref. rt_transition ok ref StatusStopped)"
    "api_Hibernate ?api = (\<lambda>ref. rt_transition ok ref StatusHibernated)"
    by (simp_all add: plain_api_def)
  show ?thesis
    using assms(2) prov move [OF status_valid(1)] move [OF status_valid(2)] move [OF status_valid(3)] dest
    unfolding dispatch_def Let_def api by (auto split: if_splits prod.splits)
qed

text \<open>C39: Redelivery is harmless on a tracker that does not execute processes. A command that is reported failed, also because
  persisting failed, has changed nothing, so a redelivery starts afresh. A command that was executed while persisting worked and is
  executed a second time, before any other operation on the tracker and while persisting works, at any time and with whatever random
  bytes (the random bytes of the first execution give a reference that is not in use), leaves the tracker exactly as the first execution left it and gets the same answer.\<close>

theorem redelivery_idempotent:
  assumes "guarded_run rt_exec rt_guard ops (newTracker m path False None)" "t = final_state rt_exec ops (newTracker m path False None)"
    "newRuntimeRef random |\<notin>| fmdom (t_byRef t)" "execute (plain_api ok now random) nodeID cmd t = Some (t', rep, retry, fenced)"
  shows "(rep_Status rep = statusFailed \<longrightarrow> t' = t) \<and>
    (ok \<longrightarrow> execute (plain_api True now' random') nodeID cmd t' = Some (t', rep, retry, fenced))"
proof
  have ready: "ready random t"
    using tracker.guarded_inv [OF new_tracker_runs assms(1)] assms(2,3) by (simp add: tracker_runs_def ready_def)
  show "rep_Status rep = statusFailed \<longrightarrow> t' = t"
  proof
    assume f: "rep_Status rep = statusFailed"
    show "t' = t"
    proof (cases "addressed nodeID cmd")
      case None
      then show ?thesis using execute_answers [OF assms(4)] by simp
    next
      case (Some d)
      then show ?thesis
        using assms(4) f failed_unchanged [OF ready, of ok now d cmd]
        by (auto simp: execute_addressed [OF Some] split: if_splits prod.splits)
    qed
  qed
  show "ok \<longrightarrow> execute (plain_api True now' random') nodeID cmd t' = Some (t', rep, retry, fenced)"
    using plain.execute_again [OF ready, of now nodeID cmd t' rep retry fenced now' random'] assms(4) by auto
qed

lemma provision_new:
  assumes "indexed t" "RefForInstance d t = None" "newRuntimeRef random |\<notin>| fmdom (t_byRef t)" "rt_Len t < t_maxInstances t" "parseProcessSpec spec = None"
  obtains u i where "rt_Provision True now random d g spec t = (u, Inr (i, True))" "in_Status i = StatusPending" "in_RuntimeRef i = newRuntimeRef random"
    "in_InstanceID i = d" "in_Generation i = g" "t_byRef u = fmupd (newRuntimeRef random) i (t_byRef t)" "t_byID u = fmupd d (newRuntimeRef random) (t_byID t)"
proof -
  let ?i = "\<lparr>in_InstanceID = d, in_RuntimeRef = newRuntimeRef random, in_Status = StatusPending, in_Generation = g, in_CreatedAt = now,
    in_Spec = spec, in_PID = 0, in_ProcStartToken = [], in_LastExitCode = None, in_LastExitReason = []\<rparr>"
  let ?t = "(put_instance ?i t)\<lparr>t_byID := fmupd d (in_RuntimeRef ?i) (t_byID t)\<rparr>"
  obtain u where u: "persistLocked True ?t = (u, True)" using persistLocked_True by blast
  have n: "tracked d t = None" using assms(2) untracked [OF assms(1)] by (simp add: RefForInstance_def)
  have t: "t\<lparr>t_byID := fmdrop d (t_byID t)\<rparr> = t" using assms(2) by (simp add: fmdrop_fresh RefForInstance_def)
  show thesis
    by (rule that [of u ?i]) (use n t u assms(4,5) persistLocked_cases(3,4) [OF u] in \<open>simp_all add: rt_Provision_def Let_def rt_Len_def\<close>)
qed

theorem redelivery_idempotent_witness:
  "\<exists>t' rep. execute (plain_api True 0 ''r'') ''n'' (demo_start\<lparr>cm_Kind := ''provision''\<rparr>) (newTracker 1 [] False None) = Some (t', rep, False, False) \<and>
     RefForInstance ''a'' (newTracker 1 [] False None) = None \<and> RefForInstance ''a'' t' = Some (newRuntimeRef ''r'') \<and>
     execute (plain_api True 9 ''s'') ''n'' (demo_start\<lparr>cm_Kind := ''provision''\<rparr>) t' = Some (t', rep, False, False)"
proof -
  let ?t = "newTracker 1 [] False None" and ?prov = "demo_start\<lparr>cm_Kind := ''provision''\<rparr>"
  have a: "addressed ''n'' ?prov = Some ''a''" by (simp add: addressed_def demo_start_def demo_ref)
  have r: "RefForInstance ''a'' ?t = None" "newRuntimeRef ''r'' |\<notin>| fmdom (t_byRef ?t)" "rt_Len ?t < t_maxInstances ?t"
    by (simp_all add: newTracker_def RefForInstance_def rt_Len_def fcard.rep_eq)
  have x: "indexed ?t" "parseProcessSpec [] = None" by (simp_all add: indexed_def newTracker_def parseProcessSpec_def trim_space_def)
  obtain u i where u: "rt_Provision True 0 ''r'' ''a'' 2 [] ?t = (u, Inr (i, True))" "t_byID u = fmupd ''a'' (newRuntimeRef ''r'') (t_byID ?t)"
    by (rule provision_new [OF x(1) r x(2)])
  have "\<not> superseded (plain_api True 0 ''r'') ''a'' ?prov ?t"
    by (simp add: superseded_def GenerationForInstance_def tracked_def newTracker_def)
  moreover obtain rep where "dispatch (plain_api True 0 ''r'') ''a'' ?prov ?t = (u, rep, False)"
    using u(1) by (simp add: dispatch_def Let_def kind_defs dp_provision_def plain_api_def demo_start_def trim_space_def)
  ultimately have e: "execute (plain_api True 0 ''r'') ''n'' ?prov ?t = Some (u, rep, False, False)"
    by (simp add: execute_addressed [OF a])
  show ?thesis
    using redelivery_idempotent [of "[]" 1 "[]" ?t "''r''" True 0 "''n''" ?prov, OF _ _ r(2) e, of 9 "''s''"] e r(1) u(2)
    by (auto simp: RefForInstance_def)
qed

section \<open>Batches\<close>

definition tag :: "command \<Rightarrow> bytes \<times> int" where "tag cmd = (cm_CommandID cmd, cm_ClaimGeneration cmd)"

definition report_tag :: "report \<Rightarrow> bytes \<times> int" where "report_tag rep = (rep_CommandID rep, rep_ClaimGeneration rep)"

lemma execute_tag: "execute api nodeID cmd s = Some (s', rep, retry, False) \<Longrightarrow> report_tag rep = tag cmd"
  using execute_answers [of api nodeID cmd s s' rep retry False] by (simp add: report_tag_def tag_def)

lemma execute_fenced: "execute api nodeID cmd s = Some (s', rep, retry, True) \<Longrightarrow> 0 < cm_InstanceGeneration cmd"
  using execute_answers [of api nodeID cmd s s' rep retry True] by (auto simp: superseded_def split: option.splits)

text \<open>A batch split into the commands that are answered, deferred and dropped.\<close>

definition sorted_out :: "command list \<Rightarrow> command list \<Rightarrow> command list \<Rightarrow> command list \<Rightarrow> bool" where
  "sorted_out cmds as ds fs \<longleftrightarrow> mset cmds = mset as + mset ds + mset fs \<and> subseq as cmds \<and> subseq ds cmds \<and>
     (\<forall>c \<in> set ds. cm_Kind c = kindStart) \<and> (\<forall>c \<in> set fs. 0 < cm_InstanceGeneration c)"

lemma sorted_out_Nil: "sorted_out [] [] [] []"
  by (simp add: sorted_out_def)

lemma sorted_out_step:
  assumes "sorted_out cmds as ds fs"
  shows "sorted_out (c # cmds) (c # as) ds fs" "cm_Kind c = kindStart \<Longrightarrow> sorted_out (c # cmds) as (c # ds) fs"
    "0 < cm_InstanceGeneration c \<Longrightarrow> sorted_out (c # cmds) as ds (c # fs)"
  using assms by (auto simp: sorted_out_def list_emb_Cons)

lemma first_pass_split:
  assumes "first_pass api (\<lambda>_. False) nodeID cmds k s deferred reports = Some (stop, k', s', deferred', reports')"
  shows "\<not> stop \<and> (\<exists>as ds fs. deferred' = deferred @ ds \<and> map report_tag reports' = map report_tag reports @ map tag as \<and> sorted_out cmds as ds fs)"
  using assms
proof (induction cmds arbitrary: k s deferred reports)
  case (Cons c cmds)
  obtain u rep retry fenced where e: "execute (api k) nodeID c s = Some (u, rep, retry, fenced)"
    using Cons.prems by (auto split: option.splits)
  consider (fenced) "fenced" | (retry) "\<not> fenced" "retry" | (answer) "\<not> fenced" "\<not> retry" by blast
  then show ?case
  proof cases
    case fenced
    then obtain as ds fs where *: "\<not> stop" "deferred' = deferred @ ds" "map report_tag reports' = map report_tag reports @ map tag as"
      "sorted_out cmds as ds fs" using Cons.IH [of "k + 1" u deferred reports] Cons.prems e by auto
    moreover have "0 < cm_InstanceGeneration c" using execute_fenced e fenced by auto
    ultimately show ?thesis using sorted_out_step(3) by blast
  next
    case retry
    then obtain as ds fs where *: "\<not> stop" "deferred' = deferred @ c # ds" "map report_tag reports' = map report_tag reports @ map tag as"
      "sorted_out cmds as ds fs" using Cons.IH [of "k + 1" u "deferred @ [c]" reports] Cons.prems e by auto
    moreover have "cm_Kind c = kindStart" using execute_answers [OF e] retry by simp
    ultimately show ?thesis using sorted_out_step(2) by blast
  next
    case answer
    then obtain as ds fs where "\<not> stop" "deferred' = deferred @ ds" "map report_tag reports' = map report_tag reports @ report_tag rep # map tag as"
      "sorted_out cmds as ds fs" using Cons.IH [of "k + 1" u deferred "reports @ [rep]"] Cons.prems e by auto
    moreover have "report_tag rep = tag c" using execute_tag e answer by auto
    ultimately have "\<not> stop" "deferred' = deferred @ ds" "map report_tag reports' = map report_tag reports @ map tag (c # as)"
      "sorted_out (c # cmds) (c # as) ds fs" using sorted_out_step(1) by simp_all
    then show ?thesis by blast
  qed
qed (use sorted_out_Nil in auto)

lemma retry_pass_split:
  assumes "retry_pass api (\<lambda>_. False) nodeID cmds k s reports = Some (s', reports')"
  shows "\<exists>as fs. map report_tag reports' = map report_tag reports @ map tag as \<and> sorted_out cmds as [] fs"
  using assms
proof (induction cmds arbitrary: k s reports)
  case (Cons c cmds)
  obtain u rep retry fenced where e: "execute (api k) nodeID c s = Some (u, rep, retry, fenced)"
    using Cons.prems by (auto split: option.splits)
  show ?case
  proof (cases fenced)
    case True
    then obtain as fs where "map report_tag reports' = map report_tag reports @ map tag as" "sorted_out cmds as [] fs"
      using Cons.IH [of "k + 1" u reports] Cons.prems e by auto
    moreover have "0 < cm_InstanceGeneration c" using execute_fenced e True by auto
    ultimately show ?thesis using sorted_out_step(3) by blast
  next
    case False
    then obtain as fs where "map report_tag reports' = map report_tag reports @ report_tag rep # map tag as" "sorted_out cmds as [] fs"
      using Cons.IH [of "k + 1" u "reports @ [rep]"] Cons.prems e by auto
    moreover have "report_tag rep = tag c" using execute_tag e False by auto
    ultimately have "map report_tag reports' = map report_tag reports @ map tag (c # as)" "sorted_out (c # cmds) (c # as) [] fs"
      using sorted_out_step(1) by simp_all
    then show ?thesis by blast
  qed
qed (use sorted_out_Nil in auto)

text \<open>Every command of a batch is answered exactly once or is superseded. If the context is not cancelled, the batch splits into the commands
  answered in the first pass, in the order of the batch, the starts answered in the retry pass, in that order too, and the commands dropped
  because they carry an older generation; the reports are those of the answered commands, one each, in this order.\<close>

theorem batch_answers:
  assumes "executeBatch api (\<lambda>_. False) nodeID commands s = Some (s', reports)"
  shows "\<exists>answered retried dropped. mset commands = mset answered + mset retried + mset dropped \<and> subseq answered commands \<and> subseq retried commands \<and>
    (\<forall>c \<in> set retried. cm_Kind c = kindStart) \<and> (\<forall>c \<in> set dropped. 0 < cm_InstanceGeneration c) \<and>
    map (\<lambda>r. (rep_CommandID r, rep_ClaimGeneration r)) reports = map (\<lambda>c. (cm_CommandID c, cm_ClaimGeneration c)) (answered @ retried)"
proof -
  obtain stop k u ds reps where f: "first_pass api (\<lambda>_. False) nodeID commands 0 s [] [] = Some (stop, k, u, ds, reps)"
    using assms by (auto simp: executeBatch_def split: option.splits)
  from first_pass_split [OF f] obtain as fs where a: "\<not> stop" "map report_tag reps = map tag as" "sorted_out commands as ds fs" by auto
  have "retry_pass api (\<lambda>_. False) nodeID ds k u reps = Some (s', reports)" using assms f a(1) by (simp add: executeBatch_def)
  from retry_pass_split [OF this] obtain bs gs where b: "map report_tag reports = map tag as @ map tag bs" "sorted_out ds bs [] gs" using a(2) by auto
  have "mset commands = mset as + mset bs + mset (fs @ gs)" "subseq as commands" "subseq bs commands"
    "\<forall>c \<in> set bs. cm_Kind c = kindStart" "\<forall>c \<in> set (fs @ gs). 0 < cm_InstanceGeneration c"
    using a(3) b(2) subseq_order.trans [of bs ds commands] set_nths_subset by (auto simp: sorted_out_def dest: list_emb_set)
  then show ?thesis using b(1) unfolding report_tag_def tag_def
    by - (rule exI [of _ as], rule exI [of _ bs], rule exI [of _ "fs @ gs"], auto)
qed

theorem batch_answers_witness:
  "\<exists>reports. executeBatch (\<lambda>_. plain_api True 0 []) (\<lambda>_. False) ''n'' [demo_start] (newTracker 1 [] False None) =
     Some (newTracker 1 [] False None, reports) \<and> length reports \<le> length [demo_start]"
proof -
  let ?t = "newTracker 1 [] False None"
  obtain rep where e: "execute (plain_api True 0 []) ''n'' demo_start ?t = Some (?t, rep, True, False)"
    by (simp add: execute_def demo_start_def demo_ref Let_def GenerationForInstance_def tracked_def newTracker_def kind_defs
        dp_transition_def RefForInstance_def)
  then have b: "executeBatch (\<lambda>_. plain_api True 0 []) (\<lambda>_. False) ''n'' [demo_start] ?t = Some (?t, [rep])" by (simp add: executeBatch_def)
  from batch_answers [OF b] obtain answered retried dropped where
    c: "mset [demo_start] = mset answered + mset retried + mset dropped" and m: "map (\<lambda>r. (rep_CommandID r, rep_ClaimGeneration r)) [rep] = map (\<lambda>c. (cm_CommandID c, cm_ClaimGeneration c)) (answered @ retried)" by (elim exE conjE) simp
  have "length reports \<le> length [demo_start]" if "reports = [rep]" for reports
    using arg_cong [OF c, of size] arg_cong [OF m, of length] that by simp
  then show ?thesis using b by blast
qed

lemma start_pending:
  assumes "fmlookup (t_byRef u) (in_RuntimeRef i) = Some i" "in_Status i = StatusPending"
  obtains v where "rt_transition True (in_RuntimeRef i) StatusRunning u = (v, Inr (i\<lparr>in_Status := StatusRunning\<rparr>))"
    "t_byRef v = fmupd (in_RuntimeRef i) (i\<lparr>in_Status := StatusRunning\<rparr>) (t_byRef u)" "t_byID v = t_byID u"
proof -
  let ?j = "i\<lparr>in_Status := StatusRunning\<rparr>"
  obtain v y where v: "persist_update True i ?j u = (v, y)" by fastforce
  have jr: "in_RuntimeRef ?j = in_RuntimeRef i" by simp
  show thesis
  proof (cases rule: persist_update_cases [OF v assms(1) jr])
    case 2
    show thesis by (rule that [of v]) (use v 2 assms in \<open>simp_all add: rt_transition_def transitionAllowed_def\<close>)
  qed simp
qed

text \<open>A start that arrives before the provision of its own instance in the same batch still takes effect: the start is deferred,
  the provision creates the instance, and the retry starts it; both are reported done.\<close>

theorem start_before_provision:
  assumes "guarded_run rt_exec rt_guard ops (newTracker m path False None)" "t = final_state rt_exec ops (newTracker m path False None)"
    "addressed nodeID start = Some d" "addressed nodeID prov = Some d" "cm_Kind start = kindStart" "cm_Kind prov = kindProvision"
    "cm_InstanceGeneration start = g" "cm_InstanceGeneration prov = g" "cm_Payload prov = []"
    "RefForInstance d t = None" "rt_Len t < t_maxInstances t" "newRuntimeRef random |\<notin>| fmdom (t_byRef t)"
  shows "\<exists>t' i. executeBatch (\<lambda>_. plain_api True now random) (\<lambda>_. False) nodeID [start, prov] t =
      Some (t', [dp_succeed (command_report prov) StatusPending, dp_succeed (command_report start) StatusRunning]) \<and>
    rt_Status (newRuntimeRef random) t' = Inr i \<and> RefForInstance d t' = Some (newRuntimeRef random) \<and> in_Status i = StatusRunning"
proof -
  let ?api = "plain_api True now random" and ?ref = "newRuntimeRef random"
  have x: "indexed t" using tracker.guarded_inv [OF new_tracker_runs assms(1)] assms(2) by (simp add: tracker_runs_def)
  have no: "tracked d t = None" using untracked [OF x] assms(10) by (simp add: RefForInstance_def)
  have spec: "parseProcessSpec [] = None" by (simp add: parseProcessSpec_def trim_space_def)
  obtain u i where u: "rt_Provision True now random d (max 0 g) [] t = (u, Inr (i, True))" "in_Status i = StatusPending" "in_RuntimeRef i = ?ref"
    "in_InstanceID i = d" "in_Generation i = max 0 g" "t_byRef u = fmupd ?ref i (t_byRef t)" "t_byID u = fmupd d ?ref (t_byID t)"
    by (rule provision_new [OF x assms(10,12,11) spec])
  have iu: "fmlookup (t_byRef u) (in_RuntimeRef i) = Some i" using u(3,6) by simp
  obtain v where v: "rt_transition True (in_RuntimeRef i) StatusRunning u = (v, Inr (i\<lparr>in_Status := StatusRunning\<rparr>))"
    "t_byRef v = fmupd (in_RuntimeRef i) (i\<lparr>in_Status := StatusRunning\<rparr>) (t_byRef u)" "t_byID v = t_byID u"
    by (rule start_pending [OF iu u(2)])
  have tu: "tracked d u = Some i" using u(3,6,7) by (simp add: tracked_def)
  have free: "\<not> superseded ?api d start t" "\<not> superseded ?api d prov t" "\<not> superseded ?api d start u"
    using no tu u(5) assms(7) by (auto simp: superseded_def GenerationForInstance_def)
  have api: "api_Start ?api = (\<lambda>ref. rt_transition True ref StatusRunning)" "api_Provision ?api = rt_Provision True now random"
    by (simp_all add: plain_api_def)
  have 1: "\<exists>rep. execute ?api nodeID start t = Some (t, rep, True, False)"
    using free(1) assms(5,10) by (simp add: execute_addressed [OF assms(3)] dispatch_def Let_def kind_defs dp_transition_def)
  have 2: "execute ?api nodeID prov t = Some (u, dp_succeed (command_report prov) StatusPending, False, False)"
    using free(2) assms(6,8,9) u(1,2)
    by (simp add: execute_addressed [OF assms(4)] dispatch_def Let_def dp_provision_def api trim_space_def)
  have ref: "RefForInstance d u = Some (in_RuntimeRef i)" using u(3,7) by (simp add: RefForInstance_def)
  have 3: "execute ?api nodeID start u = Some (v, dp_succeed (command_report start) StatusRunning, False, False)"
    using free(3) assms(5) v(1) ref by (simp add: execute_addressed [OF assms(3)] dispatch_def Let_def kind_defs dp_transition_def api)
  have "executeBatch (\<lambda>_. ?api) (\<lambda>_. False) nodeID [start, prov] t =
      Some (v, [dp_succeed (command_report prov) StatusPending, dp_succeed (command_report start) StatusRunning])"
    using 1 2 3 by (auto simp: executeBatch_def)
  then show ?thesis using u(3,7) v(2,3) by (auto simp: rt_Status_def RefForInstance_def)
qed

theorem start_before_provision_witness:
  "\<exists>t' reports. executeBatch (\<lambda>_. plain_api True 0 ''r'') (\<lambda>_. False) ''n'' [demo_start, demo_start\<lparr>cm_Kind := ''provision''\<rparr>]
      (newTracker 1 [] False None) = Some (t', reports) \<and> RefForInstance ''a'' t' = Some (newRuntimeRef ''r'')"
proof -
  let ?t = "newTracker 1 [] False None" and ?prov = "demo_start\<lparr>cm_Kind := ''provision''\<rparr>"
  have a: "addressed ''n'' demo_start = Some ''a''" "addressed ''n'' ?prov = Some ''a''" by (simp_all add: addressed_def demo_start_def demo_ref)
  have r: "RefForInstance ''a'' ?t = None" "rt_Len ?t < t_maxInstances ?t" "newRuntimeRef ''r'' |\<notin>| fmdom (t_byRef ?t)"
    by (simp_all add: newTracker_def RefForInstance_def rt_Len_def fcard.rep_eq)
  show ?thesis
    using start_before_provision [of "[]" 1 "[]" ?t, OF _ _ a _ _ _ _ _ r, of 2 0] by (auto simp: demo_start_def kind_defs)
qed

end
