(* ===== verification/Supervision.thy ===== *)
theory Supervision
  imports Tracker_Promises
begin

text \<open>
  \<open>internal/runtime/exec.go\<close> and the process side of \<open>Destroy\<close>: a tracker that backs instances with operating system processes. A
  \<open>*supervisedProcess\<close> is an index into \<open>nd_heap\<close>. Every critical section of the tracker's mutex is one action: \<open>stopExec\<close> has two, with
  \<open>terminate\<close> between them, a destroyed instance's process is terminated after the mutex is released, and the monitor goroutine of a
  process reaps it and then, if the exit was not requested, reports the crash. A run is any sequence of actions, so it covers every
  interleaving of callers, monitors and the operating system. The environment of an action is the record \<open>os\<close>.
\<close>

section \<open>Processes\<close>

definition exitReasonStopped :: bytes where "exitReasonStopped = ''stopped''"
definition exitReasonKilled :: bytes where "exitReasonKilled = ''killed''"
definition exitReasonCrashed :: bytes where "exitReasonCrashed = ''crashed''"
definition exitReasonSupervisionLost :: bytes where "exitReasonSupervisionLost = ''supervision_lost''"

text \<open>The monitor goroutine is in \<open>cmd.Wait\<close>, about to call \<open>handleUnexpectedExit\<close>, or has returned.\<close>

datatype monitor = Waits | Crashed | Returned

record supervisedProcess =
  sp_runtimeRef :: bytes  \<comment> \<open>what the monitor goroutine was started with\<close>
  sp_pid :: int
  sp_reattached :: bool
  sp_doneCh :: bool       \<comment> \<open>the channel is closed\<close>
  sp_intentional :: bool
  sp_exitCode :: int
  sp_alive :: bool        \<comment> \<open>the operating system process runs\<close>
  sp_monitor :: monitor

record os =
  os_ok :: bool                                                        \<comment> \<open>persisting succeeds\<close>
  os_path :: "bytes option"                                            \<comment> \<open>\<open>PATH\<close> of the supervisor\<close>
  os_start :: "bytes \<Rightarrow> bytes list \<Rightarrow> bytes list \<Rightarrow> bytes \<Rightarrow> int option"  \<comment> \<open>command, arguments, environment, directory\<close>
  os_ps :: "int \<Rightarrow> bytes option"                                       \<comment> \<open>output of \<open>ps -o lstart= -p\<close>\<close>
  os_signal :: bool                                                    \<comment> \<open>the signal is delivered\<close>
  os_alive :: "int \<Rightarrow> bool"                                            \<comment> \<open>some process has this pid\<close>

record node =
  nd_tracker :: Tracker
  nd_procs :: "(bytes, nat) fmap"
  nd_heap :: "supervisedProcess list"
  nd_stops :: "(bytes \<times> nat) list"  \<comment> \<open>calls of \<open>stopExec\<close> inside \<open>terminate\<close>\<close>
  nd_kills :: "nat list"             \<comment> \<open>calls of \<open>Destroy\<close> inside \<open>terminate\<close>\<close>

definition buildChildEnv :: "bytes option \<Rightarrow> (bytes, bytes) fmap \<Rightarrow> bytes list" where
  "buildChildEnv path specEnv =
     (let base = (case path of None \<Rightarrow> fmempty | Some p \<Rightarrow> fmupd ''PATH'' p fmempty) ++\<^sub>f specEnv
      in map (\<lambda>k. k @ ''='' @ the (fmlookup base k)) (sorted_list_of_fset (fmdom base)))"

definition procStartToken :: "os \<Rightarrow> int \<Rightarrow> bytes option" where
  "procStartToken os pid =
     (if pid \<le> 0 then None
      else (case os_ps os pid of None \<Rightarrow> None | Some out \<Rightarrow> if trim_space out = [] then None else Some (trim_space out)))"

definition reattachIdentityConfirmed :: "os \<Rightarrow> bytes \<Rightarrow> int \<Rightarrow> bool" where
  "reattachIdentityConfirmed os recorded pid \<longleftrightarrow> recorded \<noteq> [] \<and> procStartToken os pid = Some recorded"

definition hasExited :: "supervisedProcess \<Rightarrow> bool" where
  "hasExited sp = (if sp_reattached sp then \<not> sp_alive sp else sp_doneCh sp)"

definition spawn :: "os \<Rightarrow> bytes \<Rightarrow> processSpec \<Rightarrow> (supervisedProcess \<times> bytes) option" where
  "spawn os runtimeRef ps =
     (case os_start os (ps_Command ps) (ps_Args ps) (buildChildEnv (os_path os) (ps_Env ps)) (ps_WorkingDir ps) of
        None \<Rightarrow> None
      | Some pid \<Rightarrow> Some (
          \<lparr>sp_runtimeRef = runtimeRef, sp_pid = pid, sp_reattached = False, sp_doneCh = False, sp_intentional = False, sp_exitCode = 0,
           sp_alive = True, sp_monitor = Waits\<rparr>,
          case procStartToken os pid of None \<Rightarrow> [] | Some token \<Rightarrow> token))"

section \<open>Operations\<close>

definition markIntentional :: "nat \<Rightarrow> node \<Rightarrow> node" where
  "markIntentional h n = n\<lparr>nd_heap := (nd_heap n)[h := (nd_heap n ! h)\<lparr>sp_intentional := True\<rparr>]\<rparr>"

text \<open>A tracker operation, lifted to the node.\<close>

definition on_tracker :: "Tracker \<times> (rt_error + 'a) \<Rightarrow> node \<Rightarrow> node \<times> (rt_error + 'a)" where
  "on_tracker r n = (n\<lparr>nd_tracker := fst r\<rparr>, snd r)"

text \<open>
  The end of \<open>startExec\<close>, which spawns. When persisting fails, the new process is killed and reaped before the mutex is released; its exit
  code and whether its monitor saw the mark in time are not observable, since nothing refers to the process any more.
\<close>

definition start_fresh :: "os \<Rightarrow> bytes \<Rightarrow> processSpec \<Rightarrow> Instance \<Rightarrow> node \<Rightarrow> node \<times> (rt_error + Instance)" where
  "start_fresh os runtimeRef ps inst n =
     (case spawn os runtimeRef ps of
        None \<Rightarrow> (n, Inl ErrProcessStart)
      | Some (sp, startToken) \<Rightarrow>
        (let inst' = inst\<lparr>in_Status := StatusRunning, in_PID := sp_pid sp, in_ProcStartToken := startToken, in_LastExitCode := None, in_LastExitReason := []\<rparr>
         in case persistLocked (os_ok os) (put_instance inst' (nd_tracker n)) of
              (t', True) \<Rightarrow>
                (n\<lparr>nd_tracker := t', nd_procs := fmupd runtimeRef (length (nd_heap n)) (nd_procs n), nd_heap := nd_heap n @ [sp]\<rparr>, Inr inst')
            | (t', False) \<Rightarrow>
                (n\<lparr>nd_tracker := put_instance (inst'\<lparr>in_Status := in_Status inst, in_PID := in_PID inst, in_ProcStartToken := in_ProcStartToken inst\<rparr>) t',
                   nd_procs := fmdrop runtimeRef (nd_procs n),
                   nd_heap := nd_heap n @ [sp\<lparr>sp_intentional := True, sp_alive := False, sp_doneCh := True, sp_exitCode := - 1, sp_monitor := Returned\<rparr>]\<rparr>,
                 Inl ErrPersist)))"

text \<open>\<open>existing != nil && !existing.hasExited()\<close>\<close>

definition live_process :: "node \<Rightarrow> bytes \<Rightarrow> bool" where
  "live_process n runtimeRef = (case fmlookup (nd_procs n) runtimeRef of None \<Rightarrow> False | Some existing \<Rightarrow> \<not> hasExited (nd_heap n ! existing))"

definition startExec :: "os \<Rightarrow> bytes \<Rightarrow> node \<Rightarrow> node \<times> (rt_error + Instance)" where
  "startExec os runtimeRef n =
     (let t = nd_tracker n
      in case fmlookup (t_byRef t) runtimeRef of
           None \<Rightarrow> (n, Inl ErrNotFound)
         | Some inst \<Rightarrow>
           if \<not> transitionAllowed (in_Status inst) StatusRunning then (n, Inl (ErrInvalidStateTransition (in_Status inst) StatusRunning))
           else (case parseProcessSpec (in_Spec inst) of
               None \<Rightarrow> on_tracker (setStatusLocked (os_ok os) inst StatusRunning t) n
             | Some (Inl e) \<Rightarrow> (n, Inl (ErrInvalidProcessSpec e))
             | Some (Inr ps) \<Rightarrow>
               if in_Status inst = StatusHibernated \<and> live_process n runtimeRef
               then (if \<not> os_signal os then (n, Inl ErrProcessStart)
                     else on_tracker (persist_update (os_ok os) inst (inst\<lparr>in_Status := StatusRunning\<rparr>) t) n)
               else if in_Status inst = StatusRunning \<and> live_process n runtimeRef then (n, Inr inst)
               else start_fresh os runtimeRef ps inst n))"

text \<open>\<open>stopExec\<close> up to \<open>terminate\<close>; \<open>None\<close> while the call waits there.\<close>

definition stop_begin :: "os \<Rightarrow> bytes \<Rightarrow> node \<Rightarrow> node \<times> (rt_error + Instance) option" where
  "stop_begin os runtimeRef n =
     (let t = nd_tracker n
      in case fmlookup (t_byRef t) runtimeRef of
           None \<Rightarrow> (n, Some (Inl ErrNotFound))
         | Some inst \<Rightarrow>
           if \<not> transitionAllowed (in_Status inst) StatusStopped
           then (n, Some (Inl (ErrInvalidStateTransition (in_Status inst) StatusStopped)))
           else (case fmlookup (nd_procs n) runtimeRef of
               None \<Rightarrow> map_prod id Some (on_tracker (setStatusLocked (os_ok os) inst StatusStopped t) n)
             | Some h \<Rightarrow> ((markIntentional h n)\<lparr>nd_stops := nd_stops n @ [(runtimeRef, h)]\<rparr>, None)))"

text \<open>
  \<open>terminate\<close> returns: for a child once its monitor has closed the channel, with the recorded exit code; for a reattached process after at
  most two grace periods, with code \<open>- 1\<close>. The flag says whether it had to escalate to \<open>SIGKILL\<close>.
\<close>

definition terminated :: "bool \<Rightarrow> supervisedProcess \<Rightarrow> (int \<times> bytes) option" where
  "terminated killed sp =
     (if sp_reattached sp then Some (- 1, if killed then exitReasonKilled else exitReasonStopped)
      else if sp_doneCh sp then Some (sp_exitCode sp, if killed then exitReasonKilled else exitReasonStopped) else None)"

definition remove_nth :: "nat \<Rightarrow> 'a list \<Rightarrow> 'a list" where
  "remove_nth k xs = take k xs @ drop (k + 1) xs"

text \<open>The rest of the \<open>k\<close>-th waiting \<open>stopExec\<close>.\<close>

definition stop_end :: "os \<Rightarrow> nat \<Rightarrow> bool \<Rightarrow> node \<Rightarrow> node \<times> (rt_error + Instance) option" where
  "stop_end os k killed n =
     (if k \<ge> length (nd_stops n) then (n, None)
      else (case nd_stops n ! k of (runtimeRef, h) \<Rightarrow>
        (case terminated killed (nd_heap n ! h) of
           None \<Rightarrow> (n, None)
         | Some (exitCode, reason) \<Rightarrow>
           (let m = n\<lparr>nd_stops := remove_nth k (nd_stops n)\<rparr>; t = nd_tracker n
            in case fmlookup (t_byRef t) runtimeRef of
                 None \<Rightarrow> (m, Some (Inl ErrNotFound))
               | Some inst \<Rightarrow>
                 if (case fmlookup (nd_procs n) runtimeRef of None \<Rightarrow> False | Some cur \<Rightarrow> cur \<noteq> h) then (m, Some (Inr inst))
                 else (let inst' = inst\<lparr>in_Status := StatusStopped, in_PID := 0, in_ProcStartToken := [], in_LastExitCode := Some exitCode,
                             in_LastExitReason := reason\<rparr>
                       in case persistLocked (os_ok os) (put_instance inst' t) of
                            (t', stored) \<Rightarrow>
                              (m\<lparr>nd_tracker := t', nd_procs := fmdrop runtimeRef (nd_procs n)\<rparr>,
                               Some (if stored then Inr inst' else Inl ErrPersist)))))))"

definition hibernateExec :: "os \<Rightarrow> bytes \<Rightarrow> node \<Rightarrow> node \<times> (rt_error + Instance)" where
  "hibernateExec os runtimeRef n =
     (let t = nd_tracker n
      in case fmlookup (t_byRef t) runtimeRef of
           None \<Rightarrow> (n, Inl ErrNotFound)
         | Some inst \<Rightarrow>
           if \<not> transitionAllowed (in_Status inst) StatusHibernated then (n, Inl (ErrInvalidStateTransition (in_Status inst) StatusHibernated))
           else (case fmlookup (nd_procs n) runtimeRef of
               None \<Rightarrow> on_tracker (setStatusLocked (os_ok os) inst StatusHibernated t) n
             | Some h \<Rightarrow>
               if \<not> os_signal os then (n, Inl ErrSuspend)
               else on_tracker (persist_update (os_ok os) inst (inst\<lparr>in_Status := StatusHibernated\<rparr>) t) n))"

text \<open>\<open>Destroy\<close>, up to the termination of the process.\<close>

definition rt_Destroy :: "os \<Rightarrow> bytes \<Rightarrow> node \<Rightarrow> node \<times> (rt_error + Instance)" where
  "rt_Destroy os runtimeRef n =
     (case fmlookup (nd_procs n) runtimeRef of
        None \<Rightarrow> on_tracker (destroy_locked (os_ok os) runtimeRef (nd_tracker n)) n
      | Some h \<Rightarrow>
        if fmlookup (t_byRef (nd_tracker n)) runtimeRef = None then (n, Inl ErrNotFound)
        else (case destroy_locked (os_ok os) runtimeRef (nd_tracker n) of
            (t', Inl err) \<Rightarrow> ((markIntentional h n)\<lparr>nd_tracker := t'\<rparr>, Inl err)
          | (t', Inr inst) \<Rightarrow>
            ((markIntentional h n)\<lparr>nd_tracker := t', nd_procs := fmdrop runtimeRef (nd_procs n), nd_kills := nd_kills n @ [h]\<rparr>, Inr inst)))"

definition kill_end :: "nat \<Rightarrow> node \<Rightarrow> node" where
  "kill_end k n =
     (if k < length (nd_kills n) \<and> terminated True (nd_heap n ! (nd_kills n ! k)) \<noteq> None then n\<lparr>nd_kills := remove_nth k (nd_kills n)\<rparr> else n)"

text \<open>The monitor goroutine: \<open>cmd.Wait\<close> returns with an exit code, and then the crash is handled.\<close>

definition monitor_reap :: "nat \<Rightarrow> int \<Rightarrow> node \<Rightarrow> node" where
  "monitor_reap h code n =
     (let sp = nd_heap n ! h
      in if h < length (nd_heap n) \<and> \<not> sp_reattached sp \<and> \<not> sp_alive sp \<and> sp_monitor sp = Waits
         then n\<lparr>nd_heap := (nd_heap n)[h := sp\<lparr>sp_exitCode := code, sp_doneCh := True,
                sp_monitor := (if sp_intentional sp then Returned else Crashed)\<rparr>]\<rparr>
         else n)"

definition handleUnexpectedExit :: "os \<Rightarrow> nat \<Rightarrow> node \<Rightarrow> node" where
  "handleUnexpectedExit os h n =
     (let sp = nd_heap n ! h; runtimeRef = sp_runtimeRef sp; m = n\<lparr>nd_heap := (nd_heap n)[h := sp\<lparr>sp_monitor := Returned\<rparr>]\<rparr>
      in if h \<ge> length (nd_heap n) \<or> sp_monitor sp \<noteq> Crashed then n
         else (case fmlookup (t_byRef (nd_tracker n)) runtimeRef of
             None \<Rightarrow> m
           | Some inst \<Rightarrow>
             if fmlookup (nd_procs n) runtimeRef \<noteq> Some h then m
             else if in_Status inst \<noteq> StatusRunning \<and> in_Status inst \<noteq> StatusHibernated then m
             else (let inst' = inst\<lparr>in_Status := StatusStopped, in_PID := 0, in_ProcStartToken := [], in_LastExitCode := Some (sp_exitCode sp),
                         in_LastExitReason := exitReasonCrashed\<rparr>
                   in m\<lparr>nd_tracker := fst (persistLocked (os_ok os) (put_instance inst' (nd_tracker n))),
                        nd_procs := fmdrop runtimeRef (nd_procs n)\<rparr>)))"

text \<open>The operating system ends a process.\<close>

definition process_exit :: "nat \<Rightarrow> node \<Rightarrow> node" where
  "process_exit h n =
     (if h < length (nd_heap n) then n\<lparr>nd_heap := (nd_heap n)[h := (nd_heap n ! h)\<lparr>sp_alive := False\<rparr>]\<rparr> else n)"

text \<open>The entry points choose by \<open>execEnabled\<close>.\<close>

definition rt_Start :: "os \<Rightarrow> bytes \<Rightarrow> node \<Rightarrow> node \<times> (rt_error + Instance)" where
  "rt_Start os runtimeRef n =
     (if \<not> t_execEnabled (nd_tracker n) then on_tracker (rt_transition (os_ok os) runtimeRef StatusRunning (nd_tracker n)) n
      else startExec os runtimeRef n)"

definition rt_Stop :: "os \<Rightarrow> bytes \<Rightarrow> node \<Rightarrow> node \<times> (rt_error + Instance) option" where
  "rt_Stop os runtimeRef n =
     (if \<not> t_execEnabled (nd_tracker n) then map_prod id Some (on_tracker (rt_transition (os_ok os) runtimeRef StatusStopped (nd_tracker n)) n)
      else stop_begin os runtimeRef n)"

definition rt_Hibernate :: "os \<Rightarrow> bytes \<Rightarrow> node \<Rightarrow> node \<times> (rt_error + Instance)" where
  "rt_Hibernate os runtimeRef n =
     (if \<not> t_execEnabled (nd_tracker n) then on_tracker (rt_transition (os_ok os) runtimeRef StatusHibernated (nd_tracker n)) n
      else hibernateExec os runtimeRef n)"

section \<open>Reconciliation after a restart\<close>

definition markSupervisionLost :: "Instance \<Rightarrow> Instance" where
  "markSupervisionLost inst =
     inst\<lparr>in_Status := StatusStopped, in_PID := 0, in_ProcStartToken := [], in_LastExitReason := exitReasonSupervisionLost\<rparr>"

text \<open>One turn of the loop; the flag is \<open>changed\<close>.\<close>

definition reconcile_instance :: "os \<Rightarrow> bytes \<Rightarrow> node \<times> bool \<Rightarrow> node \<times> bool" where
  "reconcile_instance os ref s =
     (case s of (n, changed) \<Rightarrow>
        (case fmlookup (t_byRef (nd_tracker n)) ref of
           None \<Rightarrow> (n, changed)
         | Some inst \<Rightarrow>
           if in_Status inst \<noteq> StatusRunning \<and> in_Status inst \<noteq> StatusHibernated then (n, changed)
           else (case parseProcessSpec (in_Spec inst) of
               Some (Inr _) \<Rightarrow>
                 if in_PID inst \<le> 0 \<or> \<not> os_alive os (in_PID inst) \<or> \<not> reattachIdentityConfirmed os (in_ProcStartToken inst) (in_PID inst)
                 then (n\<lparr>nd_tracker := (nd_tracker n)\<lparr>t_byRef := fmupd ref (markSupervisionLost inst) (t_byRef (nd_tracker n))\<rparr>\<rparr>, True)
                 else (n\<lparr>nd_procs := fmupd ref (length (nd_heap n)) (nd_procs n),
                         nd_heap := nd_heap n @ [\<lparr>sp_runtimeRef = ref, sp_pid = in_PID inst, sp_reattached = True, sp_doneCh = False,
                           sp_intentional = False, sp_exitCode = 0, sp_alive = True, sp_monitor = Returned\<rparr>]\<rparr>, changed)
             | _ \<Rightarrow> (n, changed))))"

definition reconcileProcessesAfterLoad :: "os \<Rightarrow> node \<Rightarrow> node" where
  "reconcileProcessesAfterLoad os n =
     (case fold (reconcile_instance os) (sorted_list_of_fset (fmdom (t_byRef (nd_tracker n)))) (n, False) of
        (m, changed) \<Rightarrow> if changed then m\<lparr>nd_tracker := fst (persistLocked (os_ok os) (nd_tracker m))\<rparr> else m)"

definition fresh_node :: "Tracker \<Rightarrow> node" where
  "fresh_node t = \<lparr>nd_tracker = t, nd_procs = fmempty, nd_heap = [], nd_stops = [], nd_kills = []\<rparr>"

definition LoadTracker :: "os \<Rightarrow> int \<Rightarrow> bytes \<Rightarrow> bool \<Rightarrow> state_doc option \<Rightarrow> state_read \<Rightarrow> load_error + node" where
  "LoadTracker os maxInstances stateFile execEnabled disk read =
     (let t = newTracker maxInstances stateFile execEnabled disk
      in if stateFile = [] then Inr (fresh_node t)
         else (case load_state read t of
             Inl err \<Rightarrow> Inl err
           | Inr t' \<Rightarrow> Inr (if execEnabled \<and> read \<noteq> Missing then reconcileProcessesAfterLoad os (fresh_node t') else fresh_node t')))"

end
