(* ===== verification/Supervision_Invariant.thy ===== *)
theory Supervision_Invariant
  imports Supervision
begin

text \<open>
  Process supervision as a machine whose operations are the calls, the steps of the monitor goroutines and the exits of processes, in any
  order and with persisting failing anywhere, and the invariant that every action keeps: what is tracked belongs to an active instance,
  and a child process that is alive is tracked or is being terminated. A node that has just loaded its state satisfies it.
\<close>

section \<open>Actions\<close>

datatype sv_action =
    AProvision os time bytes bytes int bytes
  | AStart os bytes
  | AStop os bytes
  | AStopEnd os nat bool
  | AHibernate os bytes
  | ADestroy os bytes
  | AKillEnd nat
  | AExit nat
  | AReap nat int
  | ACrash os nat

fun sv_exec :: "sv_action \<Rightarrow> node \<Rightarrow> node \<times> (rt_error + Instance) option" where
  "sv_exec (AProvision os now random d g spec) n =
     (case rt_Provision (os_ok os) now random d g spec (nd_tracker n) of
        (t, Inl e) \<Rightarrow> (n\<lparr>nd_tracker := t\<rparr>, Some (Inl e)) | (t, Inr (i, created)) \<Rightarrow> (n\<lparr>nd_tracker := t\<rparr>, Some (Inr i)))"
| "sv_exec (AStart os r) n = map_prod id Some (rt_Start os r n)"
| "sv_exec (AStop os r) n = rt_Stop os r n"
| "sv_exec (AStopEnd os k killed) n = stop_end os k killed n"
| "sv_exec (AHibernate os r) n = map_prod id Some (rt_Hibernate os r n)"
| "sv_exec (ADestroy os r) n = map_prod id Some (rt_Destroy os r n)"
| "sv_exec (AKillEnd k) n = (kill_end k n, None)"
| "sv_exec (AExit h) n = (process_exit h n, None)"
| "sv_exec (AReap h code) n = (monitor_reap h code n, None)"
| "sv_exec (ACrash os h) n = (handleUnexpectedExit os h n, None)"

definition os_sane :: "os \<Rightarrow> bool" where
  "os_sane os \<longleftrightarrow> (\<forall>c a e w pid. os_start os c a e w = Some pid \<longrightarrow> 0 < pid)"

text \<open>References that are in use, by an instance, a process or a waiting stop.\<close>

definition known_refs :: "node \<Rightarrow> bytes set" where
  "known_refs n = fset (fmdom (t_byRef (nd_tracker n))) \<union> sp_runtimeRef ` set (nd_heap n) \<union> fst ` set (nd_stops n)"

fun sv_guard :: "node \<Rightarrow> sv_action \<Rightarrow> bool" where
  "sv_guard n (AProvision os now random d g spec) \<longleftrightarrow> d \<noteq> [] \<and> 0 \<le> g \<and> spec_ok spec \<and> newRuntimeRef random \<notin> known_refs n"
| "sv_guard n (AStart os r) \<longleftrightarrow> os_sane os"
| "sv_guard n _ \<longleftrightarrow> True"

section \<open>No process is forgotten\<close>

definition terminating :: "node \<Rightarrow> nat set" where
  "terminating n = snd ` set (nd_stops n) \<union> set (nd_kills n)"

definition active :: "Status \<Rightarrow> bool" where
  "active s \<longleftrightarrow> s = StatusRunning \<or> s = StatusHibernated"

definition handle_ok :: "node \<Rightarrow> bytes \<Rightarrow> nat \<Rightarrow> bool" where
  "handle_ok n r h \<longleftrightarrow> h < length (nd_heap n) \<and> sp_runtimeRef (nd_heap n ! h) = r \<and>
     (\<exists>i. fmlookup (t_byRef (nd_tracker n)) r = Some i \<and> active (in_Status i))"

definition child_ok :: "node \<Rightarrow> nat \<Rightarrow> bool" where
  "child_ok n h \<longleftrightarrow>
     (let sp = nd_heap n ! h
      in \<not> sp_reattached sp \<longrightarrow> (sp_doneCh sp \<longleftrightarrow> sp_monitor sp \<noteq> Waits) \<and> (sp_doneCh sp \<longrightarrow> \<not> sp_alive sp) \<and>
           (sp_alive sp \<longrightarrow> fmlookup (nd_procs n) (sp_runtimeRef sp) = Some h \<or> h \<in> terminating n))"

definition sv_inv :: "node \<Rightarrow> bool" where
  "sv_inv n \<longleftrightarrow> indexed (nd_tracker n) \<and> t_execEnabled (nd_tracker n) \<and>
     (\<forall>r h. fmlookup (nd_procs n) r = Some h \<longrightarrow> handle_ok n r h) \<and>
     (\<forall>h < length (nd_heap n). child_ok n h) \<and>
     (\<forall>(r, h) \<in> set (nd_stops n). h < length (nd_heap n) \<and> sp_runtimeRef (nd_heap n ! h) = r) \<and> (\<forall>h \<in> set (nd_kills n). h < length (nd_heap n))"

lemma sv_invD:
  assumes "sv_inv n"
  shows "indexed (nd_tracker n)" "t_execEnabled (nd_tracker n)" "fmlookup (nd_procs n) r = Some h \<Longrightarrow> handle_ok n r h"
    "h < length (nd_heap n) \<Longrightarrow> child_ok n h" "(r, h) \<in> set (nd_stops n) \<Longrightarrow> h < length (nd_heap n) \<and> sp_runtimeRef (nd_heap n ! h) = r"
    "h \<in> set (nd_kills n) \<Longrightarrow> h < length (nd_heap n)"
  using assms unfolding sv_inv_def by auto

text \<open>An action that changes the tracker only, and keeps every instance with a process active.\<close>

lemma sv_inv_tracker:
  assumes "sv_inv n" "indexed t" "t_execEnabled t"
    "\<And>r i h. fmlookup (nd_procs n) r = Some h \<Longrightarrow> fmlookup (t_byRef (nd_tracker n)) r = Some i \<Longrightarrow> active (in_Status i) \<Longrightarrow>
       \<exists>j. fmlookup (t_byRef t) r = Some j \<and> active (in_Status j)"
  shows "sv_inv (n\<lparr>nd_tracker := t\<rparr>)"
proof -
  have "handle_ok (n\<lparr>nd_tracker := t\<rparr>) r h" if "fmlookup (nd_procs n) r = Some h" for r h
    using sv_invD(3) [OF assms(1) that] assms(4) [OF that] by (auto simp: handle_ok_def)
  moreover have "child_ok (n\<lparr>nd_tracker := t\<rparr>) h" if "h < length (nd_heap n)" for h
    using sv_invD(4) [OF assms(1) that] by (simp add: child_ok_def terminating_def)
  ultimately show ?thesis using assms(1-3) by (simp add: sv_inv_def)
qed

text \<open>A change of one process that keeps what it belongs to and does not bring it back to life.\<close>

lemma sv_inv_cell:
  assumes "sv_inv n" "h < length (nd_heap n)" "sp = nd_heap n ! h" "sp_runtimeRef sp' = sp_runtimeRef sp" "sp_reattached sp' = sp_reattached sp"
    "sp_alive sp' \<Longrightarrow> sp_alive sp"
    "\<not> sp_reattached sp \<Longrightarrow> (sp_doneCh sp \<longleftrightarrow> sp_monitor sp \<noteq> Waits) \<Longrightarrow> (sp_doneCh sp \<longrightarrow> \<not> sp_alive sp) \<Longrightarrow>
       (sp_doneCh sp' \<longleftrightarrow> sp_monitor sp' \<noteq> Waits) \<and> (sp_doneCh sp' \<longrightarrow> \<not> sp_alive sp')"
  shows "sv_inv (n\<lparr>nd_heap := (nd_heap n)[h := sp']\<rparr>)"
proof -
  let ?m = "n\<lparr>nd_heap := (nd_heap n)[h := sp']\<rparr>"
  have ref: "sp_runtimeRef ((nd_heap n)[h := sp'] ! k) = sp_runtimeRef (nd_heap n ! k)" if "k < length (nd_heap n)" for k
    using assms(2-4) that by (cases "k = h") simp_all
  have "handle_ok ?m r k" if "fmlookup (nd_procs n) r = Some k" for r k
    using sv_invD(3) [OF assms(1) that] ref by (auto simp: handle_ok_def)
  moreover have "child_ok ?m k" if "k < length (nd_heap n)" for k
    using sv_invD(4) [OF assms(1) that] assms(2-7) by (cases "k = h") (auto simp: child_ok_def terminating_def Let_def)
  ultimately show ?thesis using assms(1) ref by (auto simp: sv_inv_def)
qed

text \<open>A reference gives up its process, which is dead or being terminated.\<close>

lemma sv_inv_forget:
  assumes "sv_inv n" "indexed t" "t_execEnabled t" "\<And>r'. r' \<noteq> r \<Longrightarrow> fmlookup (t_byRef t) r' = fmlookup (t_byRef (nd_tracker n)) r'"
    "\<And>h. fmlookup (nd_procs n) r = Some h \<Longrightarrow> \<not> sp_reattached (nd_heap n ! h) \<Longrightarrow> sp_alive (nd_heap n ! h) \<Longrightarrow> h \<in> terminating n"
  shows "sv_inv (n\<lparr>nd_tracker := t, nd_procs := fmdrop r (nd_procs n)\<rparr>)"
proof -
  let ?m = "n\<lparr>nd_tracker := t, nd_procs := fmdrop r (nd_procs n)\<rparr>"
  have "handle_ok ?m r' h" if "fmlookup (nd_procs ?m) r' = Some h" for r' h
    using that sv_invD(3) [OF assms(1), of r' h] assms(4) [of r'] by (auto simp: handle_ok_def split: if_splits)
  moreover have "child_ok ?m h" if "h < length (nd_heap n)" for h
  proof (cases "fmlookup (nd_procs n) r = Some h")
    case True
    then show ?thesis using sv_invD(4) [OF assms(1) that] assms(5) [of h] by (auto simp: child_ok_def terminating_def Let_def)
  next
    case False
    then show ?thesis using sv_invD(4) [OF assms(1) that] by (auto simp: child_ok_def terminating_def Let_def)
  qed
  ultimately show ?thesis using assms(1-3) by (simp add: sv_inv_def)
qed

lemma sv_inv_waiting:
  assumes "sv_inv n" "set (nd_stops n) \<subseteq> set stops" "set (nd_kills n) \<subseteq> set kills"
    "\<forall>(r, h) \<in> set stops. h < length (nd_heap n) \<and> sp_runtimeRef (nd_heap n ! h) = r" "\<forall>h \<in> set kills. h < length (nd_heap n)"
  shows "sv_inv (n\<lparr>nd_stops := stops, nd_kills := kills\<rparr>)"
proof -
  let ?m = "n\<lparr>nd_stops := stops, nd_kills := kills\<rparr>"
  have "terminating n \<subseteq> terminating ?m" using assms(2,3) by (auto simp: terminating_def)
  then have "child_ok ?m h" if "h < length (nd_heap n)" for h
    using sv_invD(4) [OF assms(1) that] by (auto simp: child_ok_def Let_def)
  moreover have "handle_ok ?m r h" if "fmlookup (nd_procs n) r = Some h" for r h
    using sv_invD(3) [OF assms(1) that] by (simp add: handle_ok_def)
  ultimately show ?thesis using assms(1,4,5) by (auto simp: sv_inv_def)
qed

text \<open>A call that waits for a dead child returns.\<close>

lemma set_remove_nth: "set (remove_nth k xs) \<subseteq> set xs" "k < length xs \<Longrightarrow> x \<in> set xs \<Longrightarrow> x \<noteq> xs ! k \<Longrightarrow> x \<in> set (remove_nth k xs)"
proof -
  show "set (remove_nth k xs) \<subseteq> set xs" by (auto simp: remove_nth_def dest: in_set_takeD in_set_dropD)
  assume "k < length xs" "x \<in> set xs" "x \<noteq> xs ! k"
  then have "x \<in> set (take k xs @ xs ! k # drop (Suc k) xs)" by (simp add: id_take_nth_drop [symmetric])
  then show "x \<in> set (remove_nth k xs)" using \<open>x \<noteq> xs ! k\<close> by (simp add: remove_nth_def)
qed

lemma sv_inv_returned:
  assumes "sv_inv n" "set stops \<subseteq> set (nd_stops n)" "set kills \<subseteq> set (nd_kills n)"
    "\<And>h. h \<in> terminating n \<Longrightarrow> h \<notin> snd ` set stops \<union> set kills \<Longrightarrow> \<not> sp_reattached (nd_heap n ! h) \<Longrightarrow> \<not> sp_alive (nd_heap n ! h)"
  shows "sv_inv (n\<lparr>nd_stops := stops, nd_kills := kills\<rparr>)"
proof -
  let ?m = "n\<lparr>nd_stops := stops, nd_kills := kills\<rparr>"
  have "child_ok ?m h" if "h < length (nd_heap n)" for h
    using sv_invD(4) [OF assms(1) that] assms(4) [of h] by (auto simp: child_ok_def Let_def terminating_def)
  moreover have "handle_ok ?m r h" if "fmlookup (nd_procs n) r = Some h" for r h
    using sv_invD(3) [OF assms(1) that] by (simp add: handle_ok_def)
  ultimately show ?thesis using assms(1-3) sv_invD(5,6) [OF assms(1)] by (auto simp: sv_inv_def)
qed

text \<open>A process is started for a reference whose old process, if any, is dead.\<close>

lemma sv_inv_spawn:
  assumes "sv_inv n" "indexed t" "t_execEnabled t" "\<And>r'. r' \<noteq> r \<Longrightarrow> fmlookup (t_byRef t) r' = fmlookup (t_byRef (nd_tracker n)) r'"
    "fmlookup (t_byRef t) r = Some i" "active (in_Status i)" "sp_runtimeRef sp = r" "sp_monitor sp = Waits" "\<not> sp_doneCh sp"
    "\<And>h. fmlookup (nd_procs n) r = Some h \<Longrightarrow> \<not> sp_reattached (nd_heap n ! h) \<Longrightarrow> \<not> sp_alive (nd_heap n ! h)"
  shows "sv_inv (n\<lparr>nd_tracker := t, nd_procs := fmupd r (length (nd_heap n)) (nd_procs n), nd_heap := nd_heap n @ [sp]\<rparr>)"
proof -
  let ?m = "n\<lparr>nd_tracker := t, nd_procs := fmupd r (length (nd_heap n)) (nd_procs n), nd_heap := nd_heap n @ [sp]\<rparr>"
  have "handle_ok ?m r' h" if "fmlookup (nd_procs ?m) r' = Some h" for r' h
    using that sv_invD(3) [OF assms(1), of r' h] assms(4) [of r'] assms(5-7) by (auto simp: handle_ok_def nth_append split: if_splits)
  moreover have "child_ok ?m h" if h: "h < length (nd_heap ?m)" for h
  proof (cases "h < length (nd_heap n)")
    case True
    then show ?thesis using sv_invD(4) [OF assms(1) True] assms(10) [of h]
      by (cases "sp_runtimeRef (nd_heap n ! h) = r") (auto simp: child_ok_def terminating_def nth_append Let_def)
  next
    case False
    then have "h = length (nd_heap n)" using h by simp
    then show ?thesis using assms(7-9) by (simp add: child_ok_def)
  qed
  moreover have "\<forall>(r, h) \<in> set (nd_stops n). h < length (nd_heap ?m) \<and> sp_runtimeRef (nd_heap ?m ! h) = r"
    using sv_invD(5) [OF assms(1)] by (force simp: nth_append)
  moreover have "\<forall>h \<in> set (nd_kills n). h < length (nd_heap ?m)" using sv_invD(6) [OF assms(1)] by force
  ultimately show ?thesis using assms(2,3) by (simp add: sv_inv_def)
qed

text \<open>A process that was started and killed again.\<close>

lemma sv_inv_stillborn:
  assumes "sv_inv n" "\<not> sp_alive sp" "sp_doneCh sp" "sp_monitor sp = Returned"
  shows "sv_inv (n\<lparr>nd_heap := nd_heap n @ [sp]\<rparr>)"
proof -
  let ?m = "n\<lparr>nd_heap := nd_heap n @ [sp]\<rparr>"
  have "handle_ok ?m r h" if "fmlookup (nd_procs n) r = Some h" for r h
    using sv_invD(3) [OF assms(1) that] by (auto simp: handle_ok_def nth_append)
  moreover have "child_ok ?m h" if h: "h < length (nd_heap ?m)" for h
    using sv_invD(4) [OF assms(1), of h] h assms(2-4)
    by (cases "h < length (nd_heap n)") (auto simp: child_ok_def terminating_def nth_append Let_def)
  moreover have "\<forall>(r, h) \<in> set (nd_stops n). h < length (nd_heap ?m) \<and> sp_runtimeRef (nd_heap ?m ! h) = r"
    using sv_invD(5) [OF assms(1)] by (force simp: nth_append)
  moreover have "\<forall>h \<in> set (nd_kills n). h < length (nd_heap ?m)" using sv_invD(6) [OF assms(1)] by force
  ultimately show ?thesis using assms(1) by (simp add: sv_inv_def)
qed

section \<open>Every action keeps the invariant\<close>

text \<open>The tracker after one instance was assigned and persisted, whether or not that succeeded.\<close>

definition reassigned :: "bytes \<Rightarrow> Instance \<Rightarrow> Tracker \<Rightarrow> Tracker \<Rightarrow> bool" where
  "reassigned r j t t' \<longleftrightarrow> indexed t' \<and> t_execEnabled t' = t_execEnabled t \<and> t_byRef t' = fmupd r j (t_byRef t)"

lemma reassignedD:
  assumes "reassigned r j t t'"
  shows "indexed t'" "t_execEnabled t' = t_execEnabled t" "fmlookup (t_byRef t') r = Some j" "r' \<noteq> r \<Longrightarrow> fmlookup (t_byRef t') r' = fmlookup (t_byRef t) r'"
  using assms by (simp_all add: reassigned_def)

lemma put_reassigned:
  assumes "indexed t" "fmlookup (t_byRef t) r = Some i" "in_RuntimeRef j = in_RuntimeRef i" "in_InstanceID j = in_InstanceID i" "instance_ok j"
  shows "reassigned r j t (fst (persistLocked ok (put_instance j t)))"
proof -
  obtain u b where u: "persistLocked ok (put_instance j t) = (u, b)" by fastforce
  note c = persistLocked_cases [OF u] and r = indexedD(1) [OF assms(1,2)]
  have "indexed u" by (rule indexed_update [OF assms(1) _ assms(3,4,5)]) (use assms(2,3) r c in simp_all)
  then show ?thesis using u c r assms(3) by (simp add: reassigned_def)
qed

lemma persist_update_reassigned:
  assumes "indexed t" "fmlookup (t_byRef t) r = Some i" "in_RuntimeRef j = in_RuntimeRef i" "in_InstanceID j = in_InstanceID i" "instance_ok j"
    "persist_update ok i j t = (t', x)"
  shows "reassigned r j t t' \<and> x = Inr j \<or> t' = t \<and> x = Inl ErrPersist \<and> \<not> ok"
proof -
  note r = indexedD(1) [OF assms(1,2)]
  have i: "fmlookup (t_byRef t) (in_RuntimeRef i) = Some i" using assms(2) r by simp
  show ?thesis
  proof (cases rule: persist_update_cases [OF assms(6) i assms(3)])
    case 2
    have "indexed t'" by (rule indexed_update [OF assms(1) i assms(3,4,5) 2(3,4)])
    then show ?thesis using 2 r by (simp add: reassigned_def same_config_def)
  qed simp
qed

lemma provision_keeps:
  assumes "indexed t" "rt_guard t (OpProvision ok now random d g spec)" "rt_Provision ok now random d g spec t = (t', x)" "fmlookup (t_byRef t) r = Some i"
  shows "\<exists>j. fmlookup (t_byRef t') r = Some j \<and> in_Status j = in_Status i \<and> in_PID j = in_PID i \<and> in_Spec j = in_Spec i"
proof -
  have fresh: "r \<noteq> newRuntimeRef random" using assms(2,4) by (auto simp: fmlookup_dom_iff)
  show ?thesis
  proof (cases "tracked d t")
    case (Some e)
    then have e: "fmlookup (t_byRef t) (in_RuntimeRef e) = Some e" using tracked_iff [OF assms(1)] by simp
    have k: "\<exists>j. fmlookup (t_byRef u) r = Some j \<and> in_Status j = in_Status i \<and> in_PID j = in_PID i \<and> in_Spec j = in_Spec i"
      if "persist_update ok e (e\<lparr>in_Generation := g\<rparr>) t = (u, y)" for u y
      by (cases rule: persist_update_cases [OF that e]) (use assms(4) e in \<open>auto\<close>)
    then show ?thesis using assms(3,4) Some by (auto simp: rt_Provision_def split: if_splits prod.splits sum.splits)
  next
    case None
    have "t_byRef (fst (persistLocked ok u)) = t_byRef u" for u by (simp add: persistLocked_def)
    then have p: "t_byRef u' = t_byRef u" if "persistLocked ok u = (u', b)" for u u' b using that by (metis fst_conv)
    show ?thesis using assms(3,4) None fresh
      by (auto simp: rt_Provision_def Let_def split: if_splits prod.splits option.splits sum.splits bool.splits dest!: p)
  qed
qed

lemma sv_provision:
  assumes "sv_inv n" "sv_guard n (AProvision os now random d g spec)"
  shows "sv_inv (fst (sv_exec (AProvision os now random d g spec) n))"
proof -
  let ?t = "nd_tracker n"
  obtain t' x where x: "rt_Provision (os_ok os) now random d g spec ?t = (t', x)" by fastforce
  have gd: "rt_guard ?t (OpProvision (os_ok os) now random d g spec)" using assms(2) by (simp add: known_refs_def)
  note step = provision_step [OF sv_invD(1) [OF assms(1)] gd, unfolded x step_ok_def]
  have "indexed t' \<and> t_execEnabled t'"
    using step sv_invD(1,2) [OF assms(1)] evolves_indexed by (cases x) (auto simp: same_config_def)
  moreover have "sv_inv (n\<lparr>nd_tracker := t'\<rparr>)" if "indexed t'" "t_execEnabled t'"
    using provision_keeps [OF sv_invD(1) [OF assms(1)] gd x] by (intro sv_inv_tracker [OF assms(1) that]) fastforce
  ultimately have "sv_inv (n\<lparr>nd_tracker := t'\<rparr>)" by blast
  then show ?thesis using x by (auto split: sum.splits)
qed

lemma fst_on_tracker [simp]: "fst (on_tracker r n) = n\<lparr>nd_tracker := fst r\<rparr>"
  by (simp add: on_tracker_def)

text \<open>A status that is assigned to an instance which stays active or has no process.\<close>

lemma sv_status:
  assumes "sv_inv n" "fmlookup (t_byRef (nd_tracker n)) r = Some i" "live_status st" "active st \<or> fmlookup (nd_procs n) r = None"
  shows "sv_inv (n\<lparr>nd_tracker := fst (persist_update ok i (i\<lparr>in_Status := st\<rparr>) (nd_tracker n))\<rparr>)"
proof -
  let ?j = "i\<lparr>in_Status := st\<rparr>"
  obtain t' x where x: "persist_update ok i ?j (nd_tracker n) = (t', x)" by fastforce
  note inv = sv_invD [OF assms(1)]
  have "instance_ok ?j" using indexedD(3) [OF inv(1) assms(2)] assms(3) by (simp add: instance_ok_def)
  from persist_update_reassigned [OF inv(1) assms(2) _ _ this x] have "reassigned r ?j (nd_tracker n) t' \<or> t' = nd_tracker n" by auto
  then have "sv_inv (n\<lparr>nd_tracker := t'\<rparr>)"
  proof
    assume t': "reassigned r ?j (nd_tracker n) t'"
    note t = reassignedD [OF t']
    show ?thesis
    proof (rule sv_inv_tracker [OF assms(1) t(1)])
      show "t_execEnabled t'" using t(2) inv(2) by simp
      show "\<exists>j. fmlookup (t_byRef t') r' = Some j \<and> active (in_Status j)"
        if "fmlookup (nd_procs n) r' = Some h" "fmlookup (t_byRef (nd_tracker n)) r' = Some i'" "active (in_Status i')" for r' i' h
        using that t(3,4) assms(4) by (cases "r' = r") auto
    qed
  qed (use assms(1) in simp)
  then show ?thesis using x by simp
qed

lemma live_targets [simp]: "live_status StatusRunning" "live_status StatusStopped" "live_status StatusHibernated"
    "active StatusRunning" "active StatusHibernated"
  by (simp_all add: live_status_def active_def)

lemma dead_if_exited:
  assumes "sv_inv n" "h < length (nd_heap n)" "hasExited (nd_heap n ! h)"
  shows "\<not> sp_alive (nd_heap n ! h)"
  using sv_invD(4) [OF assms(1,2)] assms(3) by (auto simp: child_ok_def hasExited_def Let_def split: if_splits)

text \<open>The tracked process of an instance that can start is resumed, left running, or dead.\<close>

lemma start_live:
  assumes "sv_inv n" "fmlookup (t_byRef (nd_tracker n)) r = Some i" "fmlookup (nd_procs n) r = Some h"
    "\<not> (in_Status i = StatusHibernated \<and> live_process n r)" "\<not> (in_Status i = StatusRunning \<and> live_process n r)"
  shows "\<not> sp_alive (nd_heap n ! h)"
  using sv_invD(3) [OF assms(1,3)] assms dead_if_exited [OF assms(1), of h] by (auto simp: handle_ok_def active_def live_process_def)

lemma spawn_some:
  assumes "spawn os r ps = Some (sp, token)" "os_sane os"
  shows "sp_runtimeRef sp = r" "0 < sp_pid sp" "\<not> sp_reattached sp" "\<not> sp_doneCh sp" "\<not> sp_intentional sp" "sp_alive sp" "sp_monitor sp = Waits"
  using assms by (auto simp: spawn_def os_sane_def split: option.splits)

lemma sv_start_fresh:
  assumes "sv_inv n" "os_sane os" "fmlookup (t_byRef (nd_tracker n)) r = Some i" "\<And>h. fmlookup (nd_procs n) r = Some h \<Longrightarrow> \<not> sp_alive (nd_heap n ! h)"
  shows "sv_inv (fst (start_fresh os r ps i n))"
proof (cases "spawn os r ps")
  case (Some s)
  obtain sp token where s: "spawn os r ps = Some (sp, token)" using Some by fastforce
  note sp = spawn_some [OF s assms(2)] and inv = sv_invD [OF assms(1)]
  let ?j = "i\<lparr>in_Status := StatusRunning, in_PID := sp_pid sp, in_ProcStartToken := token, in_LastExitCode := None, in_LastExitReason := []\<rparr>"
  let ?k = "?j\<lparr>in_Status := in_Status i, in_PID := in_PID i, in_ProcStartToken := in_ProcStartToken i\<rparr>"
  obtain t b where t: "persistLocked (os_ok os) (put_instance ?j (nd_tracker n)) = (t, b)" by fastforce
  have iok: "instance_ok i" by (rule indexedD(3) [OF inv(1) assms(3)])
  have rt: "reassigned r ?j (nd_tracker n) t"
    using put_reassigned [OF inv(1) assms(3), of ?j "os_ok os"] iok sp(2) t by (simp add: instance_ok_def)
  note j = reassignedD [OF rt]
  show ?thesis
  proof (cases b)
    case True
    have "sv_inv (n\<lparr>nd_tracker := t, nd_procs := fmupd r (length (nd_heap n)) (nd_procs n), nd_heap := nd_heap n @ [sp]\<rparr>)"
      by (rule sv_inv_spawn [OF assms(1) j(1) _ j(4) j(3)]) (use j(2) inv(2) sp assms(4) in simp_all)
    then show ?thesis using s t True by (simp add: start_fresh_def)
  next
    case False
    let ?sp = "sp\<lparr>sp_intentional := True, sp_alive := False, sp_doneCh := True, sp_exitCode := - 1, sp_monitor := Returned\<rparr>"
    let ?t = "put_instance ?k t"
    have r: "in_RuntimeRef i = r" by (rule indexedD(1) [OF inv(1) assms(3)])
    have "indexed ?t" by (rule indexed_update [OF j(1), of ?j ?k]) (use j(3) iok r in \<open>simp_all add: instance_ok_def\<close>)
    moreover have "sv_inv (n\<lparr>nd_heap := nd_heap n @ [?sp]\<rparr>)" by (rule sv_inv_stillborn [OF assms(1)]) simp_all
    ultimately have "sv_inv ((n\<lparr>nd_heap := nd_heap n @ [?sp]\<rparr>)\<lparr>nd_tracker := ?t, nd_procs := fmdrop r (nd_procs (n\<lparr>nd_heap := nd_heap n @ [?sp]\<rparr>))\<rparr>)"
      using j(2,4) inv(2,3) r assms(4) by (intro sv_inv_forget) (auto simp: nth_append handle_ok_def)
    then show ?thesis using s t False by (cases n) (simp add: start_fresh_def)
  qed
qed (simp add: start_fresh_def assms(1))

lemma sv_start:
  assumes "sv_inv n" "os_sane os"
  shows "sv_inv (fst (rt_Start os r n))"
proof (cases "fmlookup (t_byRef (nd_tracker n)) r")
  case (Some i)
  note st = sv_status [OF assms(1) Some, of StatusRunning "os_ok os"]
  have "sv_inv (fst (start_fresh os r ps i n))"
    if "\<not> (in_Status i = StatusHibernated \<and> live_process n r)" "\<not> (in_Status i = StatusRunning \<and> live_process n r)" for ps
    using that start_live [OF assms(1) Some] by (intro sv_start_fresh [OF assms Some])
  then show ?thesis using assms(1) Some st sv_invD(2) [OF assms(1)]
    by (auto simp: rt_Start_def startExec_def setStatusLocked_def Let_def split: option.splits sum.splits)
qed (use assms(1) sv_invD(2) [OF assms(1)] in \<open>simp add: rt_Start_def startExec_def\<close>)

lemma sv_hibernate:
  assumes "sv_inv n"
  shows "sv_inv (fst (rt_Hibernate os r n))"
proof (cases "fmlookup (t_byRef (nd_tracker n)) r")
  case (Some i)
  then show ?thesis using assms sv_status [OF assms Some, of StatusHibernated "os_ok os"] sv_invD(2) [OF assms]
    by (simp add: rt_Hibernate_def hibernateExec_def setStatusLocked_def Let_def split: option.splits)
qed (use assms sv_invD(2) [OF assms] in \<open>simp add: rt_Hibernate_def hibernateExec_def\<close>)

lemma sv_mark:
  assumes "sv_inv n" "fmlookup (nd_procs n) r = Some h"
  shows "sv_inv (markIntentional h n)"
  using sv_invD(3) [OF assms] unfolding markIntentional_def by (intro sv_inv_cell [OF assms(1)]) (auto simp: handle_ok_def)

lemma markIntentional_other [simp]:
  "nd_tracker (markIntentional h n) = nd_tracker n" "nd_procs (markIntentional h n) = nd_procs n" "nd_stops (markIntentional h n) = nd_stops n"
  "nd_kills (markIntentional h n) = nd_kills n" "length (nd_heap (markIntentional h n)) = length (nd_heap n)"
  by (simp_all add: markIntentional_def)

lemma markIntentional_cell:
  "k < length (nd_heap n) \<Longrightarrow> nd_heap (markIntentional h n) ! k = (if k = h then (nd_heap n ! h)\<lparr>sp_intentional := True\<rparr> else nd_heap n ! k)"
  by (simp add: markIntentional_def)

lemma sv_stop:
  assumes "sv_inv n"
  shows "sv_inv (fst (rt_Stop os r n))"
proof (cases "fmlookup (t_byRef (nd_tracker n)) r")
  case (Some i)
  have "sv_inv ((markIntentional h n)\<lparr>nd_stops := nd_stops n @ [(r, h)]\<rparr>)" if h: "fmlookup (nd_procs n) r = Some h" for h
  proof -
    note m = sv_mark [OF assms h]
    have "sv_inv ((markIntentional h n)\<lparr>nd_stops := nd_stops n @ [(r, h)], nd_kills := nd_kills (markIntentional h n)\<rparr>)"
      by (rule sv_inv_waiting [OF m]) (use sv_invD(5,6) [OF m] sv_invD(3) [OF m, of r h] h in \<open>auto simp: handle_ok_def\<close>)
    then show ?thesis by (cases n) (simp add: markIntentional_def)
  qed
  then show ?thesis using assms Some sv_status [OF assms Some, of StatusStopped "os_ok os"] sv_invD(2) [OF assms]
    by (simp add: rt_Stop_def stop_begin_def setStatusLocked_def Let_def split: option.splits)
qed (use assms sv_invD(2) [OF assms] in \<open>simp add: rt_Stop_def stop_begin_def\<close>)

text \<open>\<open>terminate\<close> returns only for a child that is dead.\<close>

lemma terminated_dead:
  assumes "sv_inv n" "h < length (nd_heap n)" "terminated killed (nd_heap n ! h) = Some x" "\<not> sp_reattached (nd_heap n ! h)"
  shows "\<not> sp_alive (nd_heap n ! h)"
  using sv_invD(4) [OF assms(1,2)] assms(3,4) by (auto simp: child_ok_def terminated_def Let_def split: if_splits)

lemma sv_stop_returns:
  assumes "sv_inv n" "k < length (nd_stops n)" "nd_stops n ! k = (r, h)" "terminated killed (nd_heap n ! h) = Some x"
  shows "sv_inv (n\<lparr>nd_stops := remove_nth k (nd_stops n)\<rparr>)"
proof -
  have h: "h < length (nd_heap n)" using sv_invD(5) [OF assms(1), of r h] nth_mem [OF assms(2)] assms(3) by simp
  have "h' \<in> snd ` set (remove_nth k (nd_stops n))" if "h' \<in> snd ` set (nd_stops n)" "h' \<noteq> h" for h'
    using that set_remove_nth(2) [OF assms(2)] assms(3) by force
  then have "sv_inv (n\<lparr>nd_stops := remove_nth k (nd_stops n), nd_kills := nd_kills n\<rparr>)"
    using terminated_dead [OF assms(1) h assms(4)] set_remove_nth(1) [of k "nd_stops n"] by (intro sv_inv_returned [OF assms(1)]) (auto simp: terminating_def)
  then show ?thesis by simp
qed

lemma sv_stop_end:
  assumes "sv_inv n"
  shows "sv_inv (fst (stop_end os k killed n))"
proof (cases "k < length (nd_stops n)")
  case True
  obtain r h where rh: "nd_stops n ! k = (r, h)" by fastforce
  have h: "h < length (nd_heap n)" using sv_invD(5) [OF assms, of r h] nth_mem [OF True] rh by simp
  show ?thesis
  proof (cases "terminated killed (nd_heap n ! h)")
    case (Some x)
    obtain code reason where x: "x = (code, reason)" by fastforce
    let ?m = "n\<lparr>nd_stops := remove_nth k (nd_stops n)\<rparr>"
    have m: "sv_inv ?m" by (rule sv_stop_returns [OF assms True rh Some])
    show ?thesis
    proof (cases "fmlookup (t_byRef (nd_tracker n)) r")
      case None
      then show ?thesis using True rh Some x m by (simp add: stop_end_def)
    next
      case (Some i)
      let ?j = "i\<lparr>in_Status := StatusStopped, in_PID := 0, in_ProcStartToken := [], in_LastExitCode := Some code, in_LastExitReason := reason\<rparr>"
      have "reassigned r ?j (nd_tracker n) (fst (persistLocked (os_ok os) (put_instance ?j (nd_tracker n))))"
        by (rule put_reassigned [OF sv_invD(1) [OF assms] Some]) (use indexedD(3) [OF sv_invD(1) [OF assms] Some] in \<open>simp_all add: instance_ok_def\<close>)
      note j = reassignedD [OF this]
      have "sv_inv (?m\<lparr>nd_tracker := fst (persistLocked (os_ok os) (put_instance ?j (nd_tracker n))), nd_procs := fmdrop r (nd_procs ?m)\<rparr>)"
        if "fmlookup (nd_procs n) r = None \<or> fmlookup (nd_procs n) r = Some h"
        by (rule sv_inv_forget [OF m]) (use j sv_invD(2) [OF assms] that terminated_dead [OF assms h \<open>terminated killed _ = Some x\<close>] in auto)
      then show ?thesis using True rh \<open>terminated killed _ = Some x\<close> x m Some
        by (auto simp: stop_end_def Let_def split: option.splits prod.splits)
    qed
  qed (use True rh assms in \<open>simp add: stop_end_def\<close>)
qed (simp add: stop_end_def assms)

lemma sv_destroy:
  assumes "sv_inv n"
  shows "sv_inv (fst (rt_Destroy os r n))"
proof -
  let ?t = "nd_tracker n"
  obtain t' x where x: "destroy_locked (os_ok os) r ?t = (t', x)" by fastforce
  note step = destroy_step [OF sv_invD(1) [OF assms], of "os_ok os" r, unfolded x step_ok_def]
  have err: "t' = ?t" if "x = Inl e" for e using step that by simp
  have t': "indexed t'" "t_execEnabled t'" using step sv_invD(1,2) [OF assms] evolves_indexed by (cases x; auto simp: same_config_def)+
  have other: "fmlookup (t_byRef t') r' = fmlookup (t_byRef ?t) r'" if "r' \<noteq> r" for r'
    using x that by (auto simp: destroy_locked_def split: option.splits prod.splits bool.splits dest!: persistLocked_cases(3))
  show ?thesis
  proof (cases "fmlookup (nd_procs n) r")
    case None
    have "sv_inv (n\<lparr>nd_tracker := t', nd_procs := fmdrop r (nd_procs n)\<rparr>)" by (rule sv_inv_forget [OF assms t' other]) (use None in simp_all)
    then show ?thesis using None x by (simp add: rt_Destroy_def fmdrop_fresh)
  next
    case (Some h)
    note m = sv_mark [OF assms Some]
    let ?m = "(markIntentional h n)\<lparr>nd_stops := nd_stops n, nd_kills := nd_kills n @ [h]\<rparr>"
    have "sv_inv ?m" by (rule sv_inv_waiting [OF m]) (use sv_invD(5,6) [OF m] sv_invD(3) [OF m, of r h] Some in \<open>auto simp: handle_ok_def\<close>)
    then have "sv_inv (?m\<lparr>nd_tracker := t', nd_procs := fmdrop r (nd_procs ?m)\<rparr>)"
      by (rule sv_inv_forget [OF _ t']) (use Some other in \<open>simp_all add: terminating_def\<close>)
    then show ?thesis using Some x err m assms by (cases n) (auto simp: rt_Destroy_def markIntentional_def split: sum.splits)
  qed
qed

lemma sv_kill_end:
  assumes "sv_inv n"
  shows "sv_inv (kill_end k n)"
proof (cases "k < length (nd_kills n) \<and> terminated True (nd_heap n ! (nd_kills n ! k)) \<noteq> None")
  case True
  let ?h = "nd_kills n ! k"
  from True obtain x where k: "k < length (nd_kills n)" and x: "terminated True (nd_heap n ! ?h) = Some x" by auto
  have h: "?h < length (nd_heap n)" using sv_invD(6) [OF assms] nth_mem [OF k] by simp
  have "h \<in> set (remove_nth k (nd_kills n))" if "h \<in> set (nd_kills n)" "h \<noteq> ?h" for h using that set_remove_nth(2) [OF k] by blast
  then have "sv_inv (n\<lparr>nd_stops := nd_stops n, nd_kills := remove_nth k (nd_kills n)\<rparr>)"
    using terminated_dead [OF assms h x] set_remove_nth(1) [of k "nd_kills n"] by (intro sv_inv_returned [OF assms]) (auto simp: terminating_def)
  then show ?thesis using True by (simp add: kill_end_def)
qed (use assms in \<open>auto simp: kill_end_def\<close>)

lemma sv_exit: "sv_inv n \<Longrightarrow> sv_inv (process_exit h n)"
  unfolding process_exit_def by (auto intro!: sv_inv_cell)

lemma sv_reap: "sv_inv n \<Longrightarrow> sv_inv (monitor_reap h code n)"
  unfolding monitor_reap_def Let_def by (auto intro!: sv_inv_cell)

lemma sv_crash:
  assumes "sv_inv n"
  shows "sv_inv (handleUnexpectedExit os h n)"
proof (cases "h < length (nd_heap n) \<and> sp_monitor (nd_heap n ! h) = Crashed")
  case True
  let ?sp = "nd_heap n ! h"
  let ?r = "sp_runtimeRef ?sp"
  let ?m = "n\<lparr>nd_heap := (nd_heap n)[h := ?sp\<lparr>sp_monitor := Returned\<rparr>]\<rparr>"
  from True have h: "h < length (nd_heap n)" by simp
  have m: "sv_inv ?m" using True by (intro sv_inv_cell [OF assms]) auto
  show ?thesis
  proof (cases "fmlookup (t_byRef (nd_tracker n)) ?r")
    case (Some i)
    let ?j = "i\<lparr>in_Status := StatusStopped, in_PID := 0, in_ProcStartToken := [], in_LastExitCode := Some (sp_exitCode ?sp), in_LastExitReason := exitReasonCrashed\<rparr>"
    have "reassigned ?r ?j (nd_tracker n) (fst (persistLocked (os_ok os) (put_instance ?j (nd_tracker n))))"
      by (rule put_reassigned [OF sv_invD(1) [OF assms] Some]) (use indexedD(3) [OF sv_invD(1) [OF assms] Some] in \<open>simp_all add: instance_ok_def\<close>)
    note j = reassignedD [OF this]
    have "sv_inv (?m\<lparr>nd_tracker := fst (persistLocked (os_ok os) (put_instance ?j (nd_tracker n))), nd_procs := fmdrop ?r (nd_procs ?m)\<rparr>)"
      if "fmlookup (nd_procs n) ?r = Some h"
      by (rule sv_inv_forget [OF m]) (use j sv_invD(2) [OF assms] that True sv_invD(4) [OF assms h] in \<open>auto simp: child_ok_def Let_def\<close>)
    then show ?thesis using True m Some by (auto simp: handleUnexpectedExit_def Let_def)
  qed (use True m in \<open>simp add: handleUnexpectedExit_def Let_def\<close>)
qed (use assms in \<open>auto simp: handleUnexpectedExit_def Let_def\<close>)

lemma sv_exec_inv:
  assumes "sv_inv n" "sv_guard n a"
  shows "sv_inv (fst (sv_exec a n))"
proof (cases a)
  case AProvision
  then show ?thesis using sv_provision assms by blast
qed (use assms in \<open>simp_all add: sv_start sv_stop sv_stop_end sv_hibernate sv_destroy sv_kill_end sv_exit sv_reap sv_crash\<close>)

interpretation supervision: guarded_machine sv_exec sv_guard sv_inv
  by unfold_locales (rule sv_exec_inv)

section \<open>After a restart\<close>

text \<open>Instances that should have a process, and those whose process is proved to be still there.\<close>

definition commanded :: "Instance \<Rightarrow> bool" where
  "commanded i \<longleftrightarrow> (case parseProcessSpec (in_Spec i) of Some (Inr _) \<Rightarrow> True | _ \<Rightarrow> False)"

definition survived :: "os \<Rightarrow> Instance \<Rightarrow> bool" where
  "survived os i \<longleftrightarrow> 0 < in_PID i \<and> os_alive os (in_PID i) \<and> in_ProcStartToken i \<noteq> [] \<and> procStartToken os (in_PID i) = Some (in_ProcStartToken i)"

definition settled :: "os \<Rightarrow> Instance \<Rightarrow> Instance" where
  "settled os i = (if active (in_Status i) \<and> commanded i \<and> \<not> survived os i then markSupervisionLost i else i)"

definition orphan :: "bytes \<Rightarrow> int \<Rightarrow> supervisedProcess" where
  "orphan r pid = \<lparr>sp_runtimeRef = r, sp_pid = pid, sp_reattached = True, sp_doneCh = False, sp_intentional = False, sp_exitCode = 0,
     sp_alive = True, sp_monitor = Returned\<rparr>"

definition adopts :: "os \<Rightarrow> Instance \<Rightarrow> bool" where
  "adopts os i \<longleftrightarrow> active (in_Status i) \<and> commanded i \<and> survived os i"

lemma reconcile_instance_cases:
  "reconcile_instance os r (n, c) =
     (case fmlookup (t_byRef (nd_tracker n)) r of
        None \<Rightarrow> (n, c)
      | Some i \<Rightarrow>
        if adopts os i then (n\<lparr>nd_procs := fmupd r (length (nd_heap n)) (nd_procs n), nd_heap := nd_heap n @ [orphan r (in_PID i)]\<rparr>, c)
        else if settled os i = i \<and> \<not> (active (in_Status i) \<and> commanded i) then (n, c)
        else (n\<lparr>nd_tracker := (nd_tracker n)\<lparr>t_byRef := fmupd r (settled os i) (t_byRef (nd_tracker n))\<rparr>\<rparr>, True))"
  by (auto simp: reconcile_instance_def adopts_def settled_def active_def commanded_def survived_def orphan_def reattachIdentityConfirmed_def
      split: option.splits sum.splits if_splits)

text \<open>What the loop has done to a reference it has visited.\<close>

definition visited :: "os \<Rightarrow> node \<Rightarrow> node \<Rightarrow> bytes \<Rightarrow> bool" where
  "visited os n m r \<longleftrightarrow> fmlookup (t_byRef (nd_tracker m)) r = map_option (settled os) (fmlookup (t_byRef (nd_tracker n)) r) \<and>
     (case fmlookup (t_byRef (nd_tracker n)) r of
        Some i \<Rightarrow> if adopts os i then \<exists>h < length (nd_heap m). fmlookup (nd_procs m) r = Some h \<and> nd_heap m ! h = orphan r (in_PID i)
          else fmlookup (nd_procs m) r = None
      | None \<Rightarrow> fmlookup (nd_procs m) r = None)"

definition untouched :: "node \<Rightarrow> node \<Rightarrow> bytes \<Rightarrow> bool" where
  "untouched n m r \<longleftrightarrow> fmlookup (t_byRef (nd_tracker m)) r = fmlookup (t_byRef (nd_tracker n)) r \<and> fmlookup (nd_procs m) r = fmlookup (nd_procs n) r"

text \<open>The rest of the node.\<close>

definition adopted_only :: "node \<Rightarrow> node \<Rightarrow> bool" where
  "adopted_only n m \<longleftrightarrow> (\<exists>xs. nd_heap m = nd_heap n @ xs \<and> (\<forall>sp \<in> set xs. sp_reattached sp)) \<and> nd_stops m = nd_stops n \<and> nd_kills m = nd_kills n \<and>
     nd_tracker m = (nd_tracker n)\<lparr>t_byRef := t_byRef (nd_tracker m)\<rparr>"

lemma adopted_only_trans:
  assumes "adopted_only n n'" "adopted_only n' m"
  shows "adopted_only n m"
proof -
  from assms obtain xs ys where "nd_heap n' = nd_heap n @ xs" "nd_heap m = nd_heap n' @ ys" "\<forall>sp \<in> set xs \<union> set ys. sp_reattached sp"
    unfolding adopted_only_def by blast
  then have "nd_heap m = nd_heap n @ (xs @ ys) \<and> (\<forall>sp \<in> set (xs @ ys). sp_reattached sp)" by simp
  moreover have "nd_tracker m = (nd_tracker n)\<lparr>t_byRef := t_byRef (nd_tracker m)\<rparr>"
    using assms unfolding adopted_only_def by (cases "nd_tracker n"; cases "nd_tracker n'"; cases "nd_tracker m") simp
  ultimately show ?thesis using assms unfolding adopted_only_def by (intro conjI exI [of _ "xs @ ys"]) simp_all
qed

lemma reconcile_step:
  assumes "reconcile_instance os r (n, c) = (m, c')" "fmlookup (nd_procs n) r = None"
  shows "visited os n m r" "r' \<noteq> r \<Longrightarrow> untouched n m r'" "adopted_only n m"
proof -
  have a: "settled os i = i" if "adopts os i" for i using that by (simp add: settled_def adopts_def)
  show "visited os n m r"
    using assms a by (fastforce simp: reconcile_instance_cases visited_def nth_append split: option.splits if_splits)
  show "r' \<noteq> r \<Longrightarrow> untouched n m r'"
    using assms by (auto simp: reconcile_instance_cases untouched_def split: option.splits if_splits)
  show "adopted_only n m"
    using assms by (auto simp: reconcile_instance_cases adopted_only_def orphan_def split: option.splits if_splits)
qed

lemma reconcile_loop:
  assumes "distinct refs" "\<forall>r \<in> set refs. fmlookup (nd_procs n) r = None" "fold (reconcile_instance os) refs (n, c) = (m, c')"
  shows "(\<forall>r \<in> set refs. visited os n m r) \<and> (\<forall>r. r \<notin> set refs \<longrightarrow> untouched n m r) \<and> adopted_only n m"
  using assms
proof (induction refs arbitrary: n c)
  case (Cons r refs)
  obtain n' c1 where s: "reconcile_instance os r (n, c) = (n', c1)" by fastforce
  have r: "fmlookup (nd_procs n) r = None" using Cons.prems(2) by simp
  note step = reconcile_step [OF s r]
  have p: "\<forall>r' \<in> set refs. fmlookup (nd_procs n') r' = None"
    using step(2) Cons.prems(1,2) by (metis distinct.simps(2) list.set_intros(2) untouched_def)
  have ih: "\<forall>r \<in> set refs. visited os n' m r" "\<And>r'. r' \<notin> set refs \<Longrightarrow> untouched n' m r'" "adopted_only n' m"
    using Cons.IH [OF _ p, of c1] Cons.prems(1,3) s by auto
  have "visited os n m r"
    using step(1) ih(2) [of r] ih(3) Cons.prems(1) by (auto simp: visited_def untouched_def adopted_only_def nth_append split: option.splits if_splits)
  moreover have "visited os n m r'" if "r' \<in> set refs" for r'
  proof -
    have "r' \<noteq> r" using that Cons.prems(1) by auto
    from step(2) [OF this] have "fmlookup (t_byRef (nd_tracker n')) r' = fmlookup (t_byRef (nd_tracker n)) r'" by (simp add: untouched_def)
    moreover have "visited os n' m r'" using ih(1) that by blast
    ultimately show ?thesis unfolding visited_def by simp
  qed
  moreover have "untouched n m r'" if "r' \<notin> set (r # refs)" for r'
    using ih(2) [of r'] step(2) [of r'] that by (auto simp: untouched_def)
  moreover have "adopted_only n m" by (rule adopted_only_trans [OF step(3) ih(3)])
  ultimately show ?case by auto
qed (simp add: untouched_def adopted_only_def)

lemma reconciled:
  assumes "m = reconcileProcessesAfterLoad os (fresh_node t)"
  shows "t_byRef (nd_tracker m) = fmmap (settled os) (t_byRef t)" "t_byID (nd_tracker m) = t_byID t" "t_execEnabled (nd_tracker m) = t_execEnabled t"
    "fmlookup (nd_procs m) r = Some h \<Longrightarrow> \<exists>i. fmlookup (t_byRef t) r = Some i \<and> adopts os i \<and> h < length (nd_heap m) \<and> nd_heap m ! h = orphan r (in_PID i)"
    "fmlookup (t_byRef t) r = Some i \<Longrightarrow> adopts os i \<Longrightarrow> fmlookup (nd_procs m) r \<noteq> None"
    "\<forall>sp \<in> set (nd_heap m). sp_reattached sp" "nd_stops m = []" "nd_kills m = []"
proof -
  let ?n = "fresh_node t"
  let ?refs = "sorted_list_of_fset (fmdom (t_byRef (nd_tracker ?n)))"
  obtain u c where u: "fold (reconcile_instance os) ?refs (?n, False) = (u, c)" by fastforce
  have refs: "distinct ?refs" "set ?refs = fset (fmdom (t_byRef t))" by (simp_all add: sorted_list_of_fset.rep_eq fresh_node_def)
  have l: "(\<forall>r \<in> set ?refs. visited os ?n u r) \<and> (\<forall>r. r \<notin> set ?refs \<longrightarrow> untouched ?n u r) \<and> adopted_only ?n u"
    by (rule reconcile_loop [OF refs(1) _ u]) (simp add: fresh_node_def)
  have v: "visited os ?n u r" for r
    using l refs(2) by (cases "r \<in> set ?refs") (auto simp: visited_def untouched_def fresh_node_def fmdom_notD)
  obtain t' b where p: "persistLocked (os_ok os) (nd_tracker u) = (t', b)" by fastforce
  have m: "nd_procs m = nd_procs u" "nd_heap m = nd_heap u" "nd_stops m = nd_stops u" "nd_kills m = nd_kills u"
    "t_byRef (nd_tracker m) = t_byRef (nd_tracker u)" "t_byID (nd_tracker m) = t_byID (nd_tracker u)" "t_execEnabled (nd_tracker m) = t_execEnabled (nd_tracker u)"
    using assms u p persistLocked_cases [OF p] by (simp_all add: reconcileProcessesAfterLoad_def split: if_splits)
  have "fmlookup (t_byRef (nd_tracker u)) r = fmlookup (fmmap (settled os) (t_byRef t)) r" for r using v [of r] by (simp add: visited_def fresh_node_def)
  then show "t_byRef (nd_tracker m) = fmmap (settled os) (t_byRef t)" using m(5) by (intro fmap_ext) simp
  have a: "nd_tracker u = t\<lparr>t_byRef := t_byRef (nd_tracker u)\<rparr>" using l by (simp add: adopted_only_def fresh_node_def)
  show "t_byID (nd_tracker m) = t_byID t" "t_execEnabled (nd_tracker m) = t_execEnabled t" using m(6,7) arg_cong [OF a, of t_byID] arg_cong [OF a, of t_execEnabled] by simp_all
  show "fmlookup (nd_procs m) r = Some h \<Longrightarrow> \<exists>i. fmlookup (t_byRef t) r = Some i \<and> adopts os i \<and> h < length (nd_heap m) \<and> nd_heap m ! h = orphan r (in_PID i)"
    using v [of r] m(1,2) by (auto simp: visited_def fresh_node_def split: option.splits if_splits)
  show "fmlookup (t_byRef t) r = Some i \<Longrightarrow> adopts os i \<Longrightarrow> fmlookup (nd_procs m) r \<noteq> None"
    using v [of r] m(1) by (auto simp: visited_def fresh_node_def)
  show "\<forall>sp \<in> set (nd_heap m). sp_reattached sp" "nd_stops m = []" "nd_kills m = []" using l m by (auto simp: adopted_only_def fresh_node_def)
qed

lemma settled_ok: "instance_ok i \<Longrightarrow> instance_ok (settled os i)"
    "in_RuntimeRef (settled os i) = in_RuntimeRef i" "in_InstanceID (settled os i) = in_InstanceID i"
  by (simp_all add: settled_def markSupervisionLost_def instance_ok_def)

lemma indexed_fmmap:
  assumes "indexed t" "t_byRef t' = fmmap f (t_byRef t)" "t_byID t' = t_byID t"
    "\<And>i. instance_ok i \<Longrightarrow> instance_ok (f i)" "\<And>i. in_RuntimeRef (f i) = in_RuntimeRef i" "\<And>i. in_InstanceID (f i) = in_InstanceID i"
  shows "indexed t'"
  unfolding indexed_def
proof (intro conjI allI impI)
  fix r j
  assume "fmlookup (t_byRef t') r = Some j"
  then obtain i where i: "fmlookup (t_byRef t) r = Some i" "j = f i" using assms(2) by auto
  note d = indexedD [OF assms(1) i(1)]
  show "in_RuntimeRef j = r" "fmlookup (t_byID t') (in_InstanceID j) = Some r" "instance_ok j" using d assms(3-6) i(2) by simp_all
next
  fix d r
  assume "fmlookup (t_byID t') d = Some r"
  then have "fmlookup (t_byID t) d = Some r" using assms(3) by simp
  from indexed_id [OF assms(1) this] show "\<exists>j. fmlookup (t_byRef t') r = Some j \<and> in_InstanceID j = d" using assms(2,6) by auto
qed

lemma reconciled_inv:
  assumes "indexed t" "t_execEnabled t"
  shows "sv_inv (reconcileProcessesAfterLoad os (fresh_node t))"
proof -
  let ?m = "reconcileProcessesAfterLoad os (fresh_node t)"
  note m = reconciled [OF refl, where t = t and os = os]
  have "indexed (nd_tracker ?m)" by (rule indexed_fmmap [OF assms(1) m(1,2) settled_ok])
  moreover have "handle_ok ?m r h" if h: "fmlookup (nd_procs ?m) r = Some h" for r h
  proof -
    from m(4) [OF h] obtain i where i: "fmlookup (t_byRef t) r = Some i" "adopts os i" "h < length (nd_heap ?m)" "nd_heap ?m ! h = orphan r (in_PID i)" by blast
    then have "fmlookup (t_byRef (nd_tracker ?m)) r = Some i" "active (in_Status i)" by (simp_all add: m(1) settled_def adopts_def)
    then show ?thesis using i(3,4) by (simp add: handle_ok_def orphan_def)
  qed
  moreover have "child_ok ?m h" if "h < length (nd_heap ?m)" for h using m(6) that by (simp add: child_ok_def)
  ultimately show ?thesis using assms(2) m(3,7,8) by (simp add: sv_inv_def)
qed

lemma fresh_inv: "indexed t \<Longrightarrow> t_execEnabled t \<Longrightarrow> sv_inv (fresh_node t)"
  by (simp add: sv_inv_def fresh_node_def)

text \<open>A state file as a tracker writes it.\<close>

definition own_file :: "state_read \<Rightarrow> bool" where
  "own_file read \<longleftrightarrow> (case read of Decoded doc \<Rightarrow> \<forall>i \<in> set (sn_Instances (decode_snapshot doc)). instance_ok i | _ \<Rightarrow> True)"

lemma loaded_cases:
  assumes "LoadTracker os m path True disk read = Inr n" "own_file read"
  obtains t where "indexed t" "t_execEnabled t" "n = fresh_node t" "t_byRef t = fmempty"
  | t where "indexed t" "t_execEnabled t" "n = reconcileProcessesAfterLoad os (fresh_node t)"
proof -
  let ?t = "newTracker m path True disk"
  have new: "indexed ?t" "t_execEnabled ?t" "t_byRef ?t = fmempty" by (simp_all add: indexed_def newTracker_def)
  show thesis
  proof (cases "path = [] \<or> read = Missing")
    case True
    then have "n = fresh_node ?t" using assms(1) by (auto simp: LoadTracker_def load_state_def Let_def split: if_splits)
    then show thesis using that(1) [OF new(1,2) _ new(3)] by simp
  next
    case False
    then obtain snap b d where snap: "read = Decoded snap" "load_instances (sn_Instances (decode_snapshot snap)) fmempty fmempty = Inr (b, d)"
        "n = reconcileProcessesAfterLoad os (fresh_node (?t\<lparr>t_byRef := b, t_byID := d\<rparr>))"
      using assms(1) by (auto simp: LoadTracker_def load_state_def Let_def split: state_read.splits sum.splits if_splits prod.splits)
    have "indexed (?t\<lparr>t_byRef := b, t_byID := d\<rparr>)"
      by (rule load_instances_indexed [OF snap(2)]) (use assms(2) snap(1) new(1) in \<open>simp_all add: own_file_def newTracker_def\<close>)
    then show thesis using that(2) [OF _ _ snap(3)] new(2) by simp
  qed
qed

lemma loaded_inv:
  assumes "LoadTracker os m path True disk read = Inr n" "own_file read"
  shows "sv_inv n"
  using assms by (cases rule: loaded_cases) (auto intro: fresh_inv reconciled_inv)

end
