(* ===== verification/Supervision_Promises.thy ===== *)
theory Supervision_Promises
  imports Supervision_Invariant
begin

text \<open>
  The promises of process supervision, for every interleaving of callers, monitor goroutines and the operating system: no live child
  process is forgotten; when no start or destroy fails to persist, an instance that is reported running has a live process as soon as the
  monitors have caught up; and after a restart only a process that is proved to be the recorded one is adopted.
\<close>

section \<open>Truthful statuses\<close>

text \<open>What the status of an instance says about its process, for an instance that has one and for one that has not.\<close>

definition process_true :: "node \<Rightarrow> bytes \<Rightarrow> nat \<Rightarrow> Instance \<Rightarrow> bool" where
  "process_true n r h i \<longleftrightarrow> in_PID i = sp_pid (nd_heap n ! h) \<and> (sp_intentional (nd_heap n ! h) \<longrightarrow> (r, h) \<in> set (nd_stops n)) \<and>
     (sp_doneCh (nd_heap n ! h) \<longrightarrow> sp_monitor (nd_heap n ! h) = Crashed \<or> sp_intentional (nd_heap n ! h))"

definition instance_true :: "node \<Rightarrow> bytes \<Rightarrow> Instance \<Rightarrow> bool" where
  "instance_true n r i \<longleftrightarrow>
     (case fmlookup (nd_procs n) r of None \<Rightarrow> \<not> (in_Status i = StatusRunning \<and> commanded i) | Some h \<Rightarrow> process_true n r h i)"

definition truthful :: "node \<Rightarrow> bool" where
  "truthful n \<longleftrightarrow> sv_inv n \<and> (\<forall>r i. fmlookup (t_byRef (nd_tracker n)) r = Some i \<longrightarrow> instance_true n r i)"

text \<open>The two actions whose failure to persist loses track of the truth.\<close>

fun truth_guard :: "node \<Rightarrow> sv_action \<Rightarrow> bool" where
  "truth_guard n (AStart os r) \<longleftrightarrow> os_sane os \<and> os_ok os"
| "truth_guard n (ADestroy os r) \<longleftrightarrow> os_ok os"
| "truth_guard n a \<longleftrightarrow> sv_guard n a"

lemma truth_guard_sv: "truth_guard n a \<Longrightarrow> sv_guard n a"
  by (cases a) simp_all

lemma truthfulD:
  assumes "truthful n"
  shows "sv_inv n" "fmlookup (t_byRef (nd_tracker n)) r = Some i \<Longrightarrow> instance_true n r i"
  using assms by (simp_all add: truthful_def)

text \<open>An instance whose status, process identifier, spec and process did not change.\<close>

lemma instance_true_frame:
  assumes "instance_true n r i" "fmlookup (nd_procs m) r = fmlookup (nd_procs n) r" "in_PID j = in_PID i" "in_Spec j = in_Spec i"
    "in_Status j = StatusRunning \<Longrightarrow> fmlookup (nd_procs n) r = None \<Longrightarrow> in_Status i = StatusRunning"
    "\<And>h. fmlookup (nd_procs n) r = Some h \<Longrightarrow> process_true n r h i \<Longrightarrow> sp_pid (nd_heap m ! h) = sp_pid (nd_heap n ! h) \<and>
       (sp_intentional (nd_heap m ! h) \<longrightarrow> (r, h) \<in> set (nd_stops m)) \<and>
       (sp_doneCh (nd_heap m ! h) \<longrightarrow> sp_monitor (nd_heap m ! h) = Crashed \<or> sp_intentional (nd_heap m ! h))"
  shows "instance_true m r j"
  using assms by (auto simp: instance_true_def process_true_def commanded_def split: option.splits)

lemma instance_true_same:
  assumes "instance_true n r i" "fmlookup (nd_procs m) r = fmlookup (nd_procs n) r" "set (nd_stops n) \<subseteq> set (nd_stops m)"
    "\<And>h. fmlookup (nd_procs n) r = Some h \<Longrightarrow> nd_heap m ! h = nd_heap n ! h"
  shows "instance_true m r i"
  by (rule instance_true_frame [OF assms(1,2)]) (use assms(3,4) in \<open>auto simp: process_true_def\<close>)

text \<open>An action that assigns the status of one instance only.\<close>

lemma truthful_reassigned:
  assumes "truthful n" "sv_inv (n\<lparr>nd_tracker := t\<rparr>)" "reassigned r j (nd_tracker n) t" "instance_true n r j"
  shows "truthful (n\<lparr>nd_tracker := t\<rparr>)"
proof -
  have "instance_true (n\<lparr>nd_tracker := t\<rparr>) r' i'" if "fmlookup (t_byRef t) r' = Some i'" for r' i'
  proof -
    have "instance_true n r' i'" using that reassignedD(3,4) [OF assms(3)] assms(4) truthfulD(2) [OF assms(1)] by (cases "r' = r") auto
    then show ?thesis by (rule instance_true_same) simp_all
  qed
  then show ?thesis using assms(2) by (simp add: truthful_def)
qed

lemma truthful_assign:
  assumes "truthful n" "fmlookup (t_byRef (nd_tracker n)) r = Some i" "live_status st" "active st \<or> fmlookup (nd_procs n) r = None"
    "st = StatusRunning \<Longrightarrow> fmlookup (nd_procs n) r \<noteq> None \<or> \<not> commanded i"
  shows "truthful (n\<lparr>nd_tracker := fst (persist_update ok i (i\<lparr>in_Status := st\<rparr>) (nd_tracker n))\<rparr>)"
proof -
  let ?j = "i\<lparr>in_Status := st\<rparr>"
  note inv = sv_invD [OF truthfulD(1) [OF assms(1)]]
  obtain t' x where x: "persist_update ok i ?j (nd_tracker n) = (t', x)" by fastforce
  have sv: "sv_inv (n\<lparr>nd_tracker := t'\<rparr>)" using sv_status [OF truthfulD(1) [OF assms(1)] assms(2-4), of ok] x by simp
  have "instance_ok ?j" using indexedD(3) [OF inv(1) assms(2)] assms(3) by (simp add: instance_ok_def)
  from persist_update_reassigned [OF inv(1) assms(2) _ _ this x] have "reassigned r ?j (nd_tracker n) t' \<or> t' = nd_tracker n" by auto
  then have "truthful (n\<lparr>nd_tracker := t'\<rparr>)"
  proof
    assume "reassigned r ?j (nd_tracker n) t'"
    moreover have "instance_true n r ?j" using truthfulD(2) [OF assms(1,2)] assms(5)
      by (auto simp: instance_true_def process_true_def commanded_def split: option.splits)
    ultimately show ?thesis using sv by (intro truthful_reassigned [OF assms(1)])
  qed (use assms(1) in simp)
  then show ?thesis using x by simp
qed

text \<open>An action on one reference.\<close>

lemma truthful_frame:
  assumes "truthful n" "sv_inv m"
    "\<And>r'. r' \<noteq> r \<Longrightarrow> fmlookup (t_byRef (nd_tracker m)) r' = fmlookup (t_byRef (nd_tracker n)) r' \<and> fmlookup (nd_procs m) r' = fmlookup (nd_procs n) r'"
    "\<And>r' h. r' \<noteq> r \<Longrightarrow> h < length (nd_heap n) \<Longrightarrow> sp_runtimeRef (nd_heap n ! h) = r' \<Longrightarrow> nd_heap m ! h = nd_heap n ! h"
    "\<And>r' h. r' \<noteq> r \<Longrightarrow> (r', h) \<in> set (nd_stops n) \<Longrightarrow> (r', h) \<in> set (nd_stops m)"
    "\<And>i. fmlookup (t_byRef (nd_tracker m)) r = Some i \<Longrightarrow> instance_true m r i"
  shows "truthful m"
proof -
  have "instance_true m r' i" if i: "fmlookup (t_byRef (nd_tracker m)) r' = Some i" "r' \<noteq> r" for r' i
  proof -
    have "instance_true n r' i" using truthfulD(2) [OF assms(1)] assms(3) [OF i(2)] i(1) by simp
    moreover have "nd_heap m ! h = nd_heap n ! h" if "fmlookup (nd_procs n) r' = Some h" for h
      using sv_invD(3) [OF truthfulD(1) [OF assms(1)] that] assms(4) [OF i(2)] by (simp add: handle_ok_def)
    ultimately show ?thesis using assms(3) [OF i(2)] assms(5) [OF i(2)]
      by (intro instance_true_frame [of n r' i m i]) (auto simp: process_true_def)
  qed
  then show ?thesis using assms(2,6) by (auto simp: truthful_def)
qed

lemma provision_pending:
  assumes "rt_Provision ok now random d g spec t = (t', x)" "fmlookup (t_byRef t') r = Some j" "fmlookup (t_byRef t) r = None" "indexed t"
  shows "in_Status j = StatusPending"
proof -
  have p: "t_byRef u' = t_byRef u" if "persistLocked ok u = (u', b)" for u u' b using persistLocked_cases(3) [OF that] .
  have q: "fmlookup (t_byRef u) r = None" if "tracked d t = Some e" "persist_update ok e (e\<lparr>in_Generation := g\<rparr>) t = (u, y)" for u y e
  proof -
    have e: "fmlookup (t_byRef t) (in_RuntimeRef e) = Some e" using that(1) tracked_iff [OF assms(4)] by simp
    show ?thesis by (cases rule: persist_update_cases [OF that(2) e]) (use assms(3) e in auto)
  qed
  show ?thesis
    using assms(1-3) q by (auto simp: rt_Provision_def Let_def split: if_splits prod.splits option.splits sum.splits bool.splits dest!: p)
qed

lemma truth_provision:
  assumes "truthful n" "sv_guard n (AProvision os now random d g spec)"
  shows "truthful (fst (sv_exec (AProvision os now random d g spec) n))"
proof -
  let ?t = "nd_tracker n"
  obtain t' x where x: "rt_Provision (os_ok os) now random d g spec ?t = (t', x)" by fastforce
  note sv = truthfulD(1) [OF assms(1)]
  have gd: "rt_guard ?t (OpProvision (os_ok os) now random d g spec)" using assms(2) by (simp add: known_refs_def)
  have m: "fst (sv_exec (AProvision os now random d g spec) n) = n\<lparr>nd_tracker := t'\<rparr>" using x by (auto split: sum.splits)
  have "instance_true (n\<lparr>nd_tracker := t'\<rparr>) r j" if j: "fmlookup (t_byRef t') r = Some j" for r j
  proof (cases "fmlookup (t_byRef ?t) r")
    case None
    have "fmlookup (nd_procs n) r = None" using sv_invD(3) [OF sv, of r] None by (cases "fmlookup (nd_procs n) r") (auto simp: handle_ok_def)
    then show ?thesis using provision_pending [OF x j None sv_invD(1) [OF sv]] by (simp add: instance_true_def status_defs)
  next
    case (Some i)
    have "in_Status j = in_Status i \<and> in_PID j = in_PID i \<and> in_Spec j = in_Spec i" using provision_keeps [OF sv_invD(1) [OF sv] gd x Some] j by auto
    then show ?thesis by (intro instance_true_frame [OF truthfulD(2) [OF assms(1) Some]]) (auto simp: process_true_def)
  qed
  then show ?thesis using m sv_provision [OF sv assms(2)] by (simp add: truthful_def)
qed

lemma truth_start_fresh:
  assumes "truthful n" "os_sane os" "os_ok os" "fmlookup (t_byRef (nd_tracker n)) r = Some i" "\<And>h. fmlookup (nd_procs n) r = Some h \<Longrightarrow> \<not> sp_alive (nd_heap n ! h)"
  shows "truthful (fst (start_fresh os r ps i n))"
proof (cases "spawn os r ps")
  case (Some s)
  obtain sp token where s: "spawn os r ps = Some (sp, token)" using Some by fastforce
  note sv = truthfulD(1) [OF assms(1)] and sp = spawn_some [OF s assms(2)]
  let ?j = "i\<lparr>in_Status := StatusRunning, in_PID := sp_pid sp, in_ProcStartToken := token, in_LastExitCode := None, in_LastExitReason := []\<rparr>"
  let ?t = "fst (persistLocked True (put_instance ?j (nd_tracker n)))"
  let ?m = "n\<lparr>nd_tracker := ?t, nd_procs := fmupd r (length (nd_heap n)) (nd_procs n), nd_heap := nd_heap n @ [sp]\<rparr>"
  have "snd (persistLocked True (put_instance ?j (nd_tracker n)))" by (simp add: persistLocked_def)
  then have m: "fst (start_fresh os r ps i n) = ?m" using s assms(3) by (auto simp: start_fresh_def Let_def split: prod.splits bool.splits)
  have "reassigned r ?j (nd_tracker n) ?t"
    using put_reassigned [OF sv_invD(1) [OF sv] assms(4), of ?j True] indexedD(3) [OF sv_invD(1) [OF sv] assms(4)] sp(2) by (simp add: instance_ok_def)
  note j = reassignedD [OF this]
  have "truthful ?m"
    by (rule truthful_frame [OF assms(1), where r = r])
      (use sv_start_fresh [OF sv assms(2,4,5), of ps] m j sp in \<open>simp_all add: nth_append instance_true_def process_true_def\<close>)
  then show ?thesis using m by simp
qed (simp add: start_fresh_def assms(1))

lemma truth_start:
  assumes "truthful n" "os_sane os" "os_ok os"
  shows "truthful (fst (rt_Start os r n))"
proof (cases "fmlookup (t_byRef (nd_tracker n)) r")
  case (Some i)
  note sv = truthfulD(1) [OF assms(1)]
  note st = truthful_assign [OF assms(1) Some, of StatusRunning "os_ok os"]
  have "truthful (fst (start_fresh os r ps i n))"
    if "\<not> (in_Status i = StatusHibernated \<and> live_process n r)" "\<not> (in_Status i = StatusRunning \<and> live_process n r)" for ps
    using that start_live [OF sv Some] by (intro truth_start_fresh [OF assms Some])
  then show ?thesis using assms(1) Some st sv_invD(2) [OF sv]
    by (auto simp: rt_Start_def startExec_def setStatusLocked_def Let_def commanded_def live_process_def split: option.splits sum.splits)
qed (use assms(1) sv_invD(2) [OF truthfulD(1) [OF assms(1)]] in \<open>simp add: rt_Start_def startExec_def\<close>)

lemma truth_hibernate:
  assumes "truthful n"
  shows "truthful (fst (rt_Hibernate os r n))"
proof (cases "fmlookup (t_byRef (nd_tracker n)) r")
  case (Some i)
  have "StatusHibernated \<noteq> StatusRunning" by (simp add: status_defs)
  then show ?thesis using assms Some truthful_assign [OF assms Some, of StatusHibernated "os_ok os"] sv_invD(2) [OF truthfulD(1) [OF assms]]
    by (simp add: rt_Hibernate_def hibernateExec_def setStatusLocked_def Let_def split: option.splits)
qed (use assms sv_invD(2) [OF truthfulD(1) [OF assms]] in \<open>simp add: rt_Hibernate_def hibernateExec_def\<close>)

lemma untracked_procs: "sv_inv n \<Longrightarrow> fmlookup (t_byRef (nd_tracker n)) r = None \<Longrightarrow> fmlookup (nd_procs n) r = None"
  using sv_invD(3) [of n r] by (cases "fmlookup (nd_procs n) r") (auto simp: handle_ok_def)

lemma truth_stop:
  assumes "truthful n"
  shows "truthful (fst (rt_Stop os r n))"
proof (cases "fmlookup (t_byRef (nd_tracker n)) r")
  case (Some i)
  note sv = truthfulD(1) [OF assms]
  have "truthful ((markIntentional h n)\<lparr>nd_stops := nd_stops n @ [(r, h)]\<rparr>)"
    if h: "fmlookup (nd_procs n) r = Some h" and s: "transitionAllowed (in_Status i) StatusStopped"
  for h
  proof (rule truthful_frame [OF assms, where r = r])
    have e: "fst (rt_Stop os r n) = (markIntentional h n)\<lparr>nd_stops := nd_stops n @ [(r, h)]\<rparr>"
      using sv_invD(2) [OF sv] Some h s by (simp add: rt_Stop_def stop_begin_def)
    show "sv_inv ((markIntentional h n)\<lparr>nd_stops := nd_stops n @ [(r, h)]\<rparr>)" using sv_stop [OF sv, of os r] e by simp
  next
    have hk: "h < length (nd_heap n)" "sp_runtimeRef (nd_heap n ! h) = r" using sv_invD(3) [OF sv h] by (simp_all add: handle_ok_def)
    show "nd_heap ((markIntentional h n)\<lparr>nd_stops := nd_stops n @ [(r, h)]\<rparr>) ! k = nd_heap n ! k"
      if "r' \<noteq> r" "k < length (nd_heap n)" "sp_runtimeRef (nd_heap n ! k) = r'" for r' k
      using that hk by (auto simp: markIntentional_cell)
    show "instance_true ((markIntentional h n)\<lparr>nd_stops := nd_stops n @ [(r, h)]\<rparr>) r j"
      if "fmlookup (t_byRef (nd_tracker ((markIntentional h n)\<lparr>nd_stops := nd_stops n @ [(r, h)]\<rparr>))) r = Some j" for j
      using that Some truthfulD(2) [OF assms Some] h hk by (simp add: instance_true_def process_true_def markIntentional_cell)
  qed simp_all
  moreover have "StatusStopped \<noteq> StatusRunning" by (simp add: status_defs)
  ultimately show ?thesis using assms Some truthful_assign [OF assms Some, of StatusStopped "os_ok os"] sv_invD(2) [OF sv]
    by (auto simp: rt_Stop_def stop_begin_def setStatusLocked_def Let_def split: option.splits)
qed (use assms sv_invD(2) [OF truthfulD(1) [OF assms]] in \<open>simp add: rt_Stop_def stop_begin_def\<close>)

text \<open>A reference that gave up its process, with an instance that is stopped or gone.\<close>

lemma truthful_forget:
  assumes "truthful n" "sv_inv m" "nd_procs m = fmdrop r (nd_procs n)"
    "\<And>r'. r' \<noteq> r \<Longrightarrow> fmlookup (t_byRef (nd_tracker m)) r' = fmlookup (t_byRef (nd_tracker n)) r'"
    "\<And>r' h. r' \<noteq> r \<Longrightarrow> h < length (nd_heap n) \<Longrightarrow> sp_runtimeRef (nd_heap n ! h) = r' \<Longrightarrow> nd_heap m ! h = nd_heap n ! h"
    "\<And>r' h. r' \<noteq> r \<Longrightarrow> (r', h) \<in> set (nd_stops n) \<Longrightarrow> (r', h) \<in> set (nd_stops m)"
    "\<And>i. fmlookup (t_byRef (nd_tracker m)) r = Some i \<Longrightarrow> in_Status i \<noteq> StatusRunning"
  shows "truthful m"
  by (rule truthful_frame [OF assms(1,2) _ assms(5,6), where r = r]) (use assms(3,4,7) in \<open>simp_all add: instance_true_def\<close>)

lemma truth_stop_end:
  assumes "truthful n"
  shows "truthful (fst (stop_end os k killed n))"
proof (cases "k < length (nd_stops n) \<and> (\<exists>x. terminated killed (nd_heap n ! snd (nd_stops n ! k)) = Some x)")
  case True
  note sv = truthfulD(1) [OF assms] and sv' = sv_stop_end [OF truthfulD(1) [OF assms], of os k killed]
  obtain r h where rh: "nd_stops n ! k = (r, h)" by fastforce
  obtain code reason where x: "terminated killed (nd_heap n ! h) = Some (code, reason)" using True rh by auto
  let ?m = "n\<lparr>nd_stops := remove_nth k (nd_stops n)\<rparr>"
  have stops: "(r', h') \<in> set (remove_nth k (nd_stops n))" if "(r', h') \<in> set (nd_stops n)" "(r', h') \<noteq> (r, h)" for r' h'
    using that set_remove_nth(2) True rh by metis
  have m: "truthful ?m" if "sv_inv ?m" "fmlookup (nd_procs n) r \<noteq> Some h"
  proof (rule truthful_frame [OF assms that(1), where r = r])
    fix i
    assume "fmlookup (t_byRef (nd_tracker ?m)) r = Some i"
    then have "instance_true n r i" using truthfulD(2) [OF assms] by simp
    then show "instance_true ?m r i" by (rule instance_true_frame) (use that(2) stops in \<open>auto simp: process_true_def\<close>)
  qed (use stops in auto)
  show ?thesis
  proof (cases "fmlookup (t_byRef (nd_tracker n)) r")
    case None
    then show ?thesis using True rh x m untracked_procs [OF sv None] sv' by (simp add: stop_end_def)
  next
    case (Some i)
    let ?j = "i\<lparr>in_Status := StatusStopped, in_PID := 0, in_ProcStartToken := [], in_LastExitCode := Some code, in_LastExitReason := reason\<rparr>"
    let ?t = "fst (persistLocked (os_ok os) (put_instance ?j (nd_tracker n)))"
    have "reassigned r ?j (nd_tracker n) ?t"
      by (rule put_reassigned [OF sv_invD(1) [OF sv] Some]) (use indexedD(3) [OF sv_invD(1) [OF sv] Some] in \<open>simp_all add: instance_ok_def\<close>)
    note j = reassignedD [OF this]
    let ?u = "?m\<lparr>nd_tracker := ?t, nd_procs := fmdrop r (nd_procs n)\<rparr>"
    have "truthful ?u" if "sv_inv ?u"
      by (rule truthful_forget [OF assms that, where r = r]) (use j stops in \<open>auto simp: status_defs\<close>)
    then show ?thesis using True rh x m Some sv' by (auto simp: stop_end_def Let_def split: option.splits prod.splits if_splits)
  qed
qed (use assms in \<open>auto simp: stop_end_def split: prod.splits option.splits\<close>)

lemma truth_destroy:
  assumes "truthful n" "os_ok os"
  shows "truthful (fst (rt_Destroy os r n))"
proof -
  let ?t = "nd_tracker n"
  note sv = truthfulD(1) [OF assms(1)] and sv' = sv_destroy [OF truthfulD(1) [OF assms(1)], of os r]
  obtain t' x where x: "destroy_locked True r ?t = (t', x)" by fastforce
  have none: "fmlookup (t_byRef t') r = None" "\<And>r'. r' \<noteq> r \<Longrightarrow> fmlookup (t_byRef t') r' = fmlookup (t_byRef ?t) r'"
    using x by (auto simp: destroy_locked_def persistLocked_def split: option.splits if_splits)
  have inr: "\<exists>i. x = Inr i" if "fmlookup (t_byRef ?t) r \<noteq> None" using x that by (auto simp: destroy_locked_def persistLocked_def split: if_splits)
  show ?thesis
  proof (cases "fmlookup (nd_procs n) r")
    case None
    then have m: "fst (rt_Destroy os r n) = n\<lparr>nd_tracker := t'\<rparr>" using x assms(2) by (simp add: rt_Destroy_def)
    show ?thesis unfolding m by (rule truthful_frame [OF assms(1), where r = r]) (use sv' m none in simp_all)
  next
    case (Some h)
    have hk: "h < length (nd_heap n)" "sp_runtimeRef (nd_heap n ! h) = r" "fmlookup (t_byRef ?t) r \<noteq> None"
      using sv_invD(3) [OF sv Some] by (auto simp: handle_ok_def)
    have m: "fst (rt_Destroy os r n) = (markIntentional h n)\<lparr>nd_tracker := t', nd_procs := fmdrop r (nd_procs n), nd_kills := nd_kills n @ [h]\<rparr>"
      using Some x inr [OF hk(3)] hk(3) assms(2) by (auto simp: rt_Destroy_def)
    show ?thesis unfolding m
      by (rule truthful_forget [OF assms(1), where r = r]) (use sv' m none hk in \<open>auto simp: markIntentional_cell\<close>)
  qed
qed

text \<open>A step of one monitor or process.\<close>

lemma truthful_cell:
  assumes "truthful n" "sv_inv (n\<lparr>nd_heap := (nd_heap n)[h := sp]\<rparr>)" "sp_pid sp = sp_pid (nd_heap n ! h)" "sp_intentional sp = sp_intentional (nd_heap n ! h)"
    "(sp_doneCh (nd_heap n ! h) \<longrightarrow> sp_monitor (nd_heap n ! h) = Crashed \<or> sp_intentional sp) \<Longrightarrow> sp_doneCh sp \<Longrightarrow> sp_monitor sp = Crashed \<or> sp_intentional sp"
  shows "truthful (n\<lparr>nd_heap := (nd_heap n)[h := sp]\<rparr>)"
proof -
  let ?m = "n\<lparr>nd_heap := (nd_heap n)[h := sp]\<rparr>"
  have "instance_true ?m r i" if "fmlookup (t_byRef (nd_tracker n)) r = Some i" for r i
    using truthfulD(2) [OF assms(1) that]
  proof (rule instance_true_frame)
    fix k
    assume "fmlookup (nd_procs n) r = Some k" "process_true n r k i"
    then show "sp_pid (nd_heap ?m ! k) = sp_pid (nd_heap n ! k) \<and> (sp_intentional (nd_heap ?m ! k) \<longrightarrow> (r, k) \<in> set (nd_stops ?m)) \<and>
        (sp_doneCh (nd_heap ?m ! k) \<longrightarrow> sp_monitor (nd_heap ?m ! k) = Crashed \<or> sp_intentional (nd_heap ?m ! k))"
      using assms(3-5) sv_invD(3) [OF truthfulD(1) [OF assms(1)], of r k]
      by (cases "k = h") (auto simp: process_true_def handle_ok_def)
  qed simp_all
  then show ?thesis using assms(2) by (simp add: truthful_def)
qed

lemma truth_exit: "truthful n \<Longrightarrow> truthful (process_exit h n)"
  using sv_exit [OF truthfulD(1), of n h] unfolding process_exit_def by (auto intro!: truthful_cell split: if_splits)

lemma truth_reap: "truthful n \<Longrightarrow> truthful (monitor_reap h code n)"
  using sv_reap [OF truthfulD(1), of n h code] unfolding monitor_reap_def Let_def by (auto intro!: truthful_cell split: if_splits)

lemma truth_kill_end:
  assumes "truthful n"
  shows "truthful (kill_end k n)"
proof -
  have "instance_true (n\<lparr>nd_kills := kills\<rparr>) r i" if "fmlookup (t_byRef (nd_tracker n)) r = Some i" for r i kills
    by (rule instance_true_same [OF truthfulD(2) [OF assms that]]) simp_all
  then show ?thesis using assms sv_kill_end [OF truthfulD(1) [OF assms], of k] unfolding kill_end_def truthful_def by simp
qed

lemma truth_crash:
  assumes "truthful n"
  shows "truthful (handleUnexpectedExit os h n)"
proof (cases "h < length (nd_heap n) \<and> sp_monitor (nd_heap n ! h) = Crashed")
  case True
  let ?sp = "nd_heap n ! h"
  let ?r = "sp_runtimeRef ?sp"
  let ?m = "n\<lparr>nd_heap := (nd_heap n)[h := ?sp\<lparr>sp_monitor := Returned\<rparr>]\<rparr>"
  note sv = truthfulD(1) [OF assms] and sv' = sv_crash [OF truthfulD(1) [OF assms], of os h]
  have cells: "(nd_heap n)[h := ?sp\<lparr>sp_monitor := Returned\<rparr>] ! k = nd_heap n ! k" if "sp_runtimeRef (nd_heap n ! k) \<noteq> ?r" for k
    using that by (metis nth_list_update_neq)
  have m: "truthful ?m" if "sv_inv ?m" "fmlookup (nd_procs n) ?r \<noteq> Some h"
  proof (rule truthful_frame [OF assms that(1), where r = ?r])
    fix i
    assume "fmlookup (t_byRef (nd_tracker ?m)) ?r = Some i"
    then have "instance_true n ?r i" using truthfulD(2) [OF assms] by simp
    then show "instance_true ?m ?r i" by (rule instance_true_same) (use that(2) in \<open>auto simp: nth_list_update\<close>)
  qed (use cells in simp_all)
  show ?thesis
  proof (cases "fmlookup (t_byRef (nd_tracker n)) ?r")
    case None
    then show ?thesis using True m untracked_procs [OF sv None] sv' by (simp add: handleUnexpectedExit_def Let_def)
  next
    case (Some i)
    let ?j = "i\<lparr>in_Status := StatusStopped, in_PID := 0, in_ProcStartToken := [], in_LastExitCode := Some (sp_exitCode ?sp), in_LastExitReason := exitReasonCrashed\<rparr>"
    let ?t = "fst (persistLocked (os_ok os) (put_instance ?j (nd_tracker n)))"
    have "reassigned ?r ?j (nd_tracker n) ?t"
      by (rule put_reassigned [OF sv_invD(1) [OF sv] Some]) (use indexedD(3) [OF sv_invD(1) [OF sv] Some] in \<open>simp_all add: instance_ok_def\<close>)
    note j = reassignedD [OF this]
    let ?u = "?m\<lparr>nd_tracker := ?t, nd_procs := fmdrop ?r (nd_procs n)\<rparr>"
    have u: "truthful ?u" if "sv_inv ?u"
      by (rule truthful_forget [OF assms that, where r = ?r]) (use j cells in \<open>simp_all add: status_defs\<close>)
    have "in_Status i = StatusRunning \<or> in_Status i = StatusHibernated" if "fmlookup (nd_procs n) ?r = Some h"
      using sv_invD(3) [OF sv that] Some by (auto simp: handle_ok_def active_def)
    then show ?thesis using True m u Some sv' by (auto simp: handleUnexpectedExit_def Let_def)
  qed
qed (use assms in \<open>auto simp: handleUnexpectedExit_def Let_def\<close>)

lemma truth_exec:
  assumes "truthful n" "truth_guard n a"
  shows "truthful (fst (sv_exec a n))"
proof (cases a)
  case AProvision
  then show ?thesis using truth_provision assms truth_guard_sv by blast
qed (use assms in \<open>simp_all add: truth_start truth_stop truth_stop_end truth_hibernate truth_destroy truth_kill_end truth_exit truth_reap truth_crash\<close>)

interpretation truth: guarded_machine sv_exec truth_guard truthful
  by unfold_locales (rule truth_exec)

lemma loaded_truthful:
  assumes "LoadTracker os m path True disk read = Inr n" "own_file read"
  shows "truthful n"
  using assms
proof (cases rule: loaded_cases)
  case (1 t)
  then show ?thesis using loaded_inv [OF assms] by (simp add: truthful_def fresh_node_def)
next
  case (2 t)
  note m = reconciled [OF 2(3)]
  have "instance_true n r j" if j: "fmlookup (t_byRef (nd_tracker n)) r = Some j" for r j
  proof -
    obtain i where i: "fmlookup (t_byRef t) r = Some i" "j = settled os i" using j m(1) by auto
    show ?thesis
    proof (cases "fmlookup (nd_procs n) r")
      case None
      then have "\<not> adopts os i" using m(5) [OF i(1)] by blast
      then have "\<not> (in_Status j = StatusRunning \<and> commanded j)"
        by (auto simp: i(2) adopts_def settled_def markSupervisionLost_def active_def commanded_def status_defs split: if_splits)
      then show ?thesis using None by (simp add: instance_true_def)
    next
      case (Some h)
      from m(4) [OF this] i have "adopts os i" "nd_heap n ! h = orphan r (in_PID i)" by auto
      then show ?thesis using Some i(2) by (simp add: instance_true_def process_true_def orphan_def settled_def adopts_def)
    qed
  qed
  then show ?thesis using loaded_inv [OF assms] by (simp add: truthful_def)
qed

section \<open>Properties\<close>

text \<open>A command, an operating system in which it runs, and a run that starts it.\<close>

definition sv_demo_spec :: bytes where
  "sv_demo_spec = ''{'' @ [CHR 0x22] @ ''command'' @ [CHR 0x22] @ '':'' @ [CHR 0x22] @ ''a'' @ [CHR 0x22] @ ''}''"

definition sv_demo_os :: "bool \<Rightarrow> os" where
  "sv_demo_os ok = \<lparr>os_ok = ok, os_path = None, os_start = (\<lambda>c a e w. Some 7), os_ps = (\<lambda>pid. None), os_signal = True, os_alive = (\<lambda>pid. False)\<rparr>"

definition sv_demo_ref :: bytes where "sv_demo_ref = newRuntimeRef ''0123456789abcdef''"

definition sv_demo_start :: "sv_action list" where
  "sv_demo_start = [AProvision (sv_demo_os True) 0 ''0123456789abcdef'' ''a'' 0 sv_demo_spec, AStart (sv_demo_os True) sv_demo_ref]"

definition sv_demo_node :: node where "sv_demo_node = fresh_node (newTracker 1 ''/state'' True None)"

lemma sv_demo_json: "json_document sv_demo_spec = Some (JObj [(''command'', JStr ''a'')])"
  by code_simp

lemma sv_demo_parse: "parseProcessSpec sv_demo_spec = Some (Inr \<lparr>ps_Command = ''a'', ps_Args = [], ps_Env = fmempty, ps_WorkingDir = []\<rparr>)"
proof -
  have "trim_space sv_demo_spec = sv_demo_spec" by code_simp
  moreover have "sv_demo_spec \<noteq> []" by (simp add: sv_demo_spec_def)
  ultimately show ?thesis by (simp add: parseProcessSpec_def sv_demo_json spec_member_def)
qed

lemma sv_demo_loads: "LoadTracker (sv_demo_os True) 1 ''/state'' True None Missing = Inr sv_demo_node" "own_file Missing"
  by (simp_all add: LoadTracker_def load_state_def sv_demo_node_def own_file_def)

lemmas sv_demo_eval = sv_demo_start_def sv_demo_node_def fresh_node_def newTracker_def sv_demo_os_def sv_demo_parse rt_Provision_def tracked_def persistLocked_def Let_def fcard.rep_eq
  rt_Start_def startExec_def transitionAllowed_def start_fresh_def spawn_def procStartToken_def sv_demo_ref_def [symmetric] live_process_def

lemma sv_demo_guarded: "guarded_run sv_exec truth_guard sv_demo_start sv_demo_node"
proof -
  have "spec_ok sv_demo_spec" by (simp add: spec_ok_def sv_demo_json)
  then show ?thesis by (simp add: sv_demo_start_def os_sane_def sv_demo_node_def fresh_node_def newTracker_def known_refs_def sv_demo_os_def)
qed

definition sv_demo_running :: "node" where "sv_demo_running = final_state sv_exec sv_demo_start sv_demo_node"

lemma sv_demo_up:
  "fmlookup (t_byRef (nd_tracker sv_demo_running)) sv_demo_ref = Some \<lparr>in_InstanceID = ''a'', in_RuntimeRef = sv_demo_ref, in_Status = StatusRunning,
     in_Generation = 0, in_CreatedAt = 0, in_Spec = sv_demo_spec, in_PID = 7, in_ProcStartToken = [], in_LastExitCode = None, in_LastExitReason = []\<rparr>"
  "nd_procs sv_demo_running = fmupd sv_demo_ref 0 fmempty" "nd_stops sv_demo_running = []" "nd_kills sv_demo_running = []" "t_execEnabled (nd_tracker sv_demo_running)"
  "nd_heap sv_demo_running = [\<lparr>sp_runtimeRef = sv_demo_ref, sp_pid = 7, sp_reattached = False, sp_doneCh = False, sp_intentional = False, sp_exitCode = 0,
     sp_alive = True, sp_monitor = Waits\<rparr>]" "t_stateFile (nd_tracker sv_demo_running) = ''/state''"
  by (simp_all add: sv_demo_running_def sv_demo_eval)

text \<open>C33: No child process is forgotten. Take a supervisor that has loaded its state, and any sequence of calls, monitor steps and process exits,
  interleaved in any order and with persisting failing anywhere: a child that is alive is the tracked process of its instance, which is
  then reported as running or hibernated, or a stop or destroy call is terminating it right now. So no instance has a second live child
  that nobody is terminating.\<close>

theorem no_orphan:
  assumes "LoadTracker os m path True disk read = Inr n0" "own_file read" "guarded_run sv_exec sv_guard acts n0" "n = final_state sv_exec acts n0"
    "h < length (nd_heap n)" "sp = nd_heap n ! h" "sp_alive sp" "\<not> sp_reattached sp"
  shows "fmlookup (nd_procs n) (sp_runtimeRef sp) = Some h \<and>
      (\<exists>i. rt_Status (sp_runtimeRef sp) (nd_tracker n) = Inr i \<and> in_Status i \<in> {StatusRunning, StatusHibernated}) \<or>
    (sp_runtimeRef sp, h) \<in> set (nd_stops n) \<or> h \<in> set (nd_kills n)"
proof -
  have inv: "sv_inv n" using supervision.guarded_inv [OF loaded_inv [OF assms(1,2)] assms(3)] assms(4) by simp
  from sv_invD(4) [OF inv assms(5)] assms(6-8) consider "fmlookup (nd_procs n) (sp_runtimeRef sp) = Some h" | "h \<in> terminating n"
    by (auto simp: child_ok_def Let_def)
  then show ?thesis
  proof cases
    case 1
    then show ?thesis using sv_invD(3) [OF inv 1] by (auto simp: handle_ok_def active_def rt_Status_def)
  next
    case 2
    then show ?thesis using sv_invD(5) [OF inv] assms(6) by (auto simp: terminating_def)
  qed
qed

theorem no_orphan_witness:
  "fmlookup (nd_procs sv_demo_running) sv_demo_ref = Some 0 \<and>
    (\<exists>i. rt_Status sv_demo_ref (nd_tracker sv_demo_running) = Inr i \<and> in_Status i \<in> {StatusRunning, StatusHibernated})"
proof -
  have "guarded_run sv_exec sv_guard acts n" if "guarded_run sv_exec truth_guard acts n" for acts n
    using that by (induction acts arbitrary: n) (auto intro: truth_guard_sv)
  from no_orphan [OF sv_demo_loads this [OF sv_demo_guarded] sv_demo_running_def _ refl, of 0] show ?thesis by (simp add: sv_demo_up)
qed

text \<open>No stop is under way, and every child that exited was reaped and, if nobody asked for it, reported.\<close>

definition caught_up :: "node \<Rightarrow> bool" where
  "caught_up n \<longleftrightarrow> nd_stops n = [] \<and> (\<forall>sp \<in> set (nd_heap n). \<not> sp_reattached sp \<longrightarrow> sp_alive sp \<or> sp_doneCh sp \<and> sp_monitor sp \<noteq> Crashed)"

text \<open>C34: A status that says running is true. Take any interleaving in which no start and no destroy fails to persist (every other
  operation may), and a state in which no stop is under way and the monitors have caught up: they have reaped the children that
  exited and reported the crashes. Then an instance with a command that is reported as running has a tracked process with the
  recorded pid, and if that is a child of this supervisor it is alive.\<close>

theorem running_is_alive:
  assumes "LoadTracker os m path True disk read = Inr n0" "own_file read" "guarded_run sv_exec truth_guard acts n0" "n = final_state sv_exec acts n0"
    "caught_up n" "rt_Status r (nd_tracker n) = Inr i" "in_Status i = StatusRunning" "commanded i"
  shows "\<exists>h sp. fmlookup (nd_procs n) r = Some h \<and> h < length (nd_heap n) \<and> sp = nd_heap n ! h \<and> sp_runtimeRef sp = r \<and> sp_pid sp = in_PID i \<and>
    (sp_reattached sp \<or> sp_alive sp)"
proof -
  have t: "truthful n" using truth.guarded_inv [OF loaded_truthful [OF assms(1,2)] assms(3)] assms(4) by simp
  have "instance_true n r i" using truthfulD(2) [OF t] assms(6) by (simp add: rt_Status_def split: option.splits)
  then obtain h where h: "fmlookup (nd_procs n) r = Some h" "process_true n r h i"
    using assms(7,8) by (auto simp: instance_true_def split: option.splits)
  have hk: "h < length (nd_heap n)" "sp_runtimeRef (nd_heap n ! h) = r" using sv_invD(3) [OF truthfulD(1) [OF t] h(1)] by (simp_all add: handle_ok_def)
  then have "sp_reattached (nd_heap n ! h) \<or> sp_alive (nd_heap n ! h)" using h(2) assms(5) nth_mem [OF hk(1)] by (auto simp: caught_up_def process_true_def)
  then show ?thesis using h hk by (auto simp: process_true_def)
qed

theorem running_is_alive_witness:
  "\<exists>h sp. fmlookup (nd_procs sv_demo_running) sv_demo_ref = Some h \<and> sp = nd_heap sv_demo_running ! h \<and> sp_pid sp = 7 \<and> sp_alive sp"
proof -
  have c: "caught_up sv_demo_running" by (simp add: caught_up_def sv_demo_up)
  obtain i where i: "rt_Status sv_demo_ref (nd_tracker sv_demo_running) = Inr i" "in_Status i = StatusRunning" "commanded i" "in_PID i = 7"
    by (simp add: rt_Status_def sv_demo_up commanded_def sv_demo_parse)
  from running_is_alive [OF sv_demo_loads sv_demo_guarded sv_demo_running_def c i(1-3)] show ?thesis using i(4) by (auto simp: sv_demo_up)
qed

text \<open>Destroying must persist for that: \<open>Destroy\<close> marks the process before it persists and does not take the mark back when persisting
  fails. The instance stays, but the monitor takes the next crash of its process for a requested exit. Once the monitor has caught up, the
  instance is still reported as running under the pid of a process that is dead.\<close>

theorem destroy_failure_hides_crash:
  "\<exists>n i. n = final_state sv_exec (sv_demo_start @ [ADestroy (sv_demo_os False) sv_demo_ref, AExit 0, AReap 0 1]) sv_demo_node \<and> caught_up n \<and> nd_kills n = [] \<and>
     rt_Status sv_demo_ref (nd_tracker n) = Inr i \<and> in_Status i = StatusRunning \<and> in_PID i = 7 \<and> \<not> (\<exists>sp \<in> set (nd_heap n). sp_alive sp)"
  by (simp add: final_state_append sv_demo_running_def [symmetric] sv_demo_up rt_Destroy_def destroy_locked_def persistLocked_def sv_demo_os_def saveSnapshot_def
      markIntentional_def process_exit_def monitor_reap_def caught_up_def rt_Status_def Let_def)

text \<open>Starting must persist too: when a start that replaces a crashed process fails to persist, it drops the tracked process and puts
  the status back to running, so the crash handler that was waiting for the mutex finds nothing to report.\<close>

theorem start_failure_hides_crash:
  "\<exists>n i. n = final_state sv_exec (sv_demo_start @ [AExit 0, AReap 0 1, AStart (sv_demo_os False) sv_demo_ref, ACrash (sv_demo_os True) 0]) sv_demo_node \<and>
     caught_up n \<and> nd_kills n = [] \<and> rt_Status sv_demo_ref (nd_tracker n) = Inr i \<and> in_Status i = StatusRunning \<and> in_PID i = 7 \<and>
     \<not> (\<exists>sp \<in> set (nd_heap n). sp_alive sp)"
  by (simp add: final_state_append sv_demo_running_def [symmetric] sv_demo_up rt_Start_def startExec_def live_process_def hasExited_def start_fresh_def spawn_def sv_demo_parse
      procStartToken_def persistLocked_def sv_demo_os_def saveSnapshot_def transitionAllowed_def status_defs
      process_exit_def monitor_reap_def handleUnexpectedExit_def caught_up_def rt_Status_def Let_def)

text \<open>C35: Only the recorded process is adopted after a restart. For an instance with a command that was running or hibernated, either a
  process is alive under the recorded pid and shows the recorded start time, and then it is tracked and the instance is unchanged; or
  the instance becomes stopped with the reason \<open>supervision_lost\<close> and no pid, nothing is tracked for it, and whoever has the pid now is never
  signalled. Every other instance is unchanged and has no process.\<close>

theorem reattach_identity:
  assumes "fmlookup (t_byRef t) r = Some i" "n = reconcileProcessesAfterLoad os (fresh_node t)"
  shows "if active (in_Status i) \<and> commanded i
    then if 0 < in_PID i \<and> os_alive os (in_PID i) \<and> in_ProcStartToken i \<noteq> [] \<and> procStartToken os (in_PID i) = Some (in_ProcStartToken i)
      then rt_Status r (nd_tracker n) = Inr i \<and> (\<exists>h. fmlookup (nd_procs n) r = Some h \<and> nd_heap n ! h = orphan r (in_PID i))
      else rt_Status r (nd_tracker n) = Inr (markSupervisionLost i) \<and> fmlookup (nd_procs n) r = None
    else rt_Status r (nd_tracker n) = Inr i \<and> fmlookup (nd_procs n) r = None"
proof -
  note m = reconciled [OF assms(2)]
  have s: "rt_Status r (nd_tracker n) = Inr (settled os i)" using assms(1) m(1) by (simp add: rt_Status_def)
  show ?thesis
  proof (cases "adopts os i")
    case True
    then obtain h where h: "fmlookup (nd_procs n) r = Some h" using m(5) [OF assms(1)] by auto
    have "nd_heap n ! h = orphan r (in_PID i)" using m(4) [OF h] assms(1) by simp
    then show ?thesis using True s h by (simp add: adopts_def survived_def settled_def)
  next
    case False
    then have "fmlookup (nd_procs n) r = None" using m(4) [of r] assms(1) by (cases "fmlookup (nd_procs n) r") auto
    then show ?thesis using False s by (auto simp: adopts_def survived_def settled_def)
  qed
qed

theorem reattach_identity_witness:
  "\<exists>i. rt_Status sv_demo_ref (nd_tracker (reconcileProcessesAfterLoad (sv_demo_os True) (fresh_node (nd_tracker sv_demo_running)))) = Inr i \<and>
    in_Status i = StatusStopped \<and> in_LastExitReason i = ''supervision_lost''"
  using reattach_identity [OF sv_demo_up(1) refl, of "sv_demo_os True"]
  by (simp add: commanded_def sv_demo_parse sv_demo_os_def markSupervisionLost_def exitReasonSupervisionLost_def)

end
