(* ===== verification/Journal_Promises.thy ===== *)
theory Journal_Promises
  imports Journal
begin

text \<open>
  The promises of the operation journal: the binary format is exact, the file always describes the entries in memory, an interrupted
  append is detected, and an operation is prepared and finished at most once. The last property is a defect: an append whose fsync failed
  is not undone, and the next accepted operation makes the file unreadable.
\<close>

section \<open>The binary format\<close>

lemma be_word: "length bs = 8 \<Longrightarrow> be_bytes 8 (unat (of_nat (be_nat bs) :: u64)) = bs"
  using be_nat_less [of bs] by (simp add: unat_of_nat be_bytes_be_nat)

lemma word_be: "of_nat (be_nat (be_bytes 8 (unat (w :: u64)))) = w"
proof -
  have "unat w < 256 ^ 8" using unsigned_less [of w] by simp
  then show ?thesis by (simp add: be_nat_be_bytes)
qed

lemma takeText_exact: "takeText raw = (v, rest, True) \<longleftrightarrow> raw = be_bytes 2 (length v) @ v @ rest \<and> validText v 512"
proof
  assume r: "takeText raw = (v, rest, True)"
  let ?n = "be_nat (take 2 raw)"
  from r have len: "2 \<le> length raw" "2 + ?n \<le> length raw" and v: "v = take ?n (drop 2 raw)" "rest = drop (2 + ?n) raw" "validText v 512"
    by (auto simp: takeText_def Let_def split: if_splits)
  have "length v = ?n" using v(1) len by simp
  then have "be_bytes 2 (length v) = take 2 raw" using len by (simp add: be_bytes_be_nat)
  moreover have "raw = take 2 raw @ take ?n (drop 2 raw) @ drop ?n (drop 2 raw)" by (simp only: append_take_drop_id)
  ultimately show "raw = be_bytes 2 (length v) @ v @ rest \<and> validText v 512" using v by (simp add: add.commute)
next
  assume "raw = be_bytes 2 (length v) @ v @ rest \<and> validText v 512"
  moreover from this have "be_nat (be_bytes 2 (length v)) = length v" "v \<noteq> []" by (simp_all add: validText_def be_nat_be_bytes)
  ultimately show "takeText raw = (v, rest, True)" by (simp add: takeText_def)
qed

text \<open>The condition under which \<open>marshal\<close> succeeds, and its result.\<close>

definition record_ok :: "jrecord \<Rightarrow> bool" where
  "record_ok v \<longleftrightarrow> (let op = jr_Operation v in op_Sequence op \<noteq> 0 \<and> validText (op_ID op) 256 \<and> validText (op_Target op) 512 \<and> op_Generation op \<noteq> 0) \<and>
     jr_State v \<in> {Prepared, Committed, Compensated}"

definition encoded :: "jrecord \<Rightarrow> bytes" where
  "encoded v = (let op = jr_Operation v in [chr journalVersion, chr (unat (jr_State v))] @ be_bytes 8 (unat (op_Sequence op)) @ be_bytes 8 (unat (op_Generation op)) @
     (be_bytes 2 (length (op_ID op)) @ op_ID op @ be_bytes 2 (length (op_Target op)) @ op_Target op))"

lemma marshal_iff: "marshal v = Ok raw \<longleftrightarrow> record_ok v \<and> raw = encoded v"
  by (auto simp: marshal_def record_ok_def encoded_def appendText_def Let_def)

lemma encoded_length: "record_ok v \<Longrightarrow> 0 < length (encoded v) \<and> length (encoded v) \<le> 790"
  by (simp add: encoded_def record_ok_def validText_def Let_def)

lemma unmarshal_marshal:
  assumes "record_ok v"
  shows "unmarshal (encoded v) = Ok v"
proof -
  obtain st sq i t g where v: "v = \<lparr>jr_State = st, jr_Operation = \<lparr>op_Sequence = sq, op_ID = i, op_Target = t, op_Generation = g\<rparr>\<rparr>"
    by (metis (full_types) jrecord.cases Operation.cases)
  have texts: "validText i 512" "validText t 512" using assms by (simp_all add: v record_ok_def validText_def)
  let ?rest = "be_bytes 2 (length t) @ t"
  have e: "encoded v = [chr journalVersion, chr (unat st)] @ be_bytes 8 (unat sq) @ be_bytes 8 (unat g) @ (be_bytes 2 (length i) @ i @ ?rest)"
    by (simp add: v encoded_def)
  have parts: "drop 18 (encoded v) = be_bytes 2 (length i) @ i @ ?rest" "take 8 (drop 2 (encoded v)) = be_bytes 8 (unat sq)"
    "take 8 (drop 10 (encoded v)) = be_bytes 8 (unat g)" "encoded v ! 0 = chr journalVersion" "encoded v ! 1 = chr (unat st)" "18 \<le> length (encoded v)"
    by (simp_all add: e)
  have "takeText (be_bytes 2 (length i) @ i @ ?rest) = (i, ?rest, True)" "takeText ?rest = (t, [], True)"
    using texts by (simp_all add: takeText_exact)
  moreover have "of_nat (byte (chr (unat st))) = st"
  proof -
    have "unat st < 256" using unsigned_less [of st] by simp
    then show ?thesis by simp
  qed
  moreover have "marshal v = Ok (encoded v)" using assms by (simp add: marshal_iff)
  ultimately show ?thesis using parts by (simp add: unmarshal_def word_be v journalVersion_def)
qed

lemma unmarshal_sound:
  assumes "unmarshal raw = Ok v"
  shows "record_ok v \<and> raw = encoded v"
proof -
  from assms obtain i rest t where t: "18 \<le> length raw" "byte (raw ! 0) = journalVersion" "takeText (drop 18 raw) = (i, rest, True)" "takeText rest = (t, [], True)"
    and v: "v = \<lparr>jr_State = of_nat (byte (raw ! 1)), jr_Operation = \<lparr>op_Sequence = of_nat (be_nat (take 8 (drop 2 raw))), op_ID = i, op_Target = t,
      op_Generation = of_nat (be_nat (take 8 (drop 10 raw)))\<rparr>\<rparr>" and ok: "record_ok v"
    by (auto simp: unmarshal_def Let_def and_then_Inr_iff marshal_iff split: if_splits prod.splits)
  have tail: "drop 18 raw = be_bytes 2 (length i) @ i @ be_bytes 2 (length t) @ t" using t(3,4) by (simp add: takeText_exact)
  have "raw = [raw ! 0, raw ! 1] @ take 8 (drop 2 raw) @ take 8 (drop 10 raw) @ drop 18 raw"
  proof -
    have "raw = take 2 raw @ take 8 (drop 2 raw) @ take 8 (drop 8 (drop 2 raw)) @ drop 8 (drop 8 (drop 2 raw))" by (simp only: append_take_drop_id)
    moreover have "take 2 raw = [raw ! 0, raw ! 1]" using t(1) by (cases raw; cases "tl raw") auto
    ultimately show ?thesis by simp
  qed
  moreover have "chr (byte (raw ! 0)) = chr journalVersion" using t(2) by simp
  moreover have "chr (unat (of_nat (byte (raw ! 1)) :: 8 word)) = raw ! 1" by (simp add: unat_of_nat)
  ultimately show ?thesis using ok t(1) tail by (simp add: v encoded_def be_word)
qed

lemma unmarshal_iff: "unmarshal raw = Ok v \<longleftrightarrow> record_ok v \<and> raw = encoded v"
  using unmarshal_marshal unmarshal_sound by blast

section \<open>Recovery\<close>

definition frame :: "jrecord \<Rightarrow> bytes" where
  "frame v = be_bytes 4 (length (encoded v)) @ encoded v"

lemma frame_size: "record_ok v \<Longrightarrow> be_nat (be_bytes 4 (length (encoded v))) = length (encoded v)"
  using encoded_length [of v] by (intro be_nat_be_bytes) simp

lemma scan_Nil: "scan [] entries expected = Ok (entries, expected)"
  by (simp add: scan.simps)

text \<open>A complete frame is read and applied; a frame that was cut is refused.\<close>

lemma scan_frame:
  assumes "record_ok v"
  shows "scan (frame v @ rest) entries expected =
    (if op_Sequence (jr_Operation v) \<noteq> expected then errorf ''journal sequence is not contiguous''
     else case apply_record entries v of Inl e \<Rightarrow> Inl e | Inr entries' \<Rightarrow> scan rest entries' (expected + 1))"
proof -
  let ?raw = "frame v @ rest"
  have "be_nat (take 4 ?raw) = length (encoded v)" "take (length (encoded v)) (drop 4 ?raw) = encoded v" "drop (4 + length (encoded v)) ?raw = rest"
    "length ?raw = 4 + length (encoded v) + length rest" "?raw \<noteq> []"
    using encoded_length [OF assms] frame_size [OF assms] by (simp_all add: frame_def)
  then show ?thesis using encoded_length [OF assms] unmarshal_marshal [OF assms]
    by (subst scan.simps) (simp only: Let_def if_False if_True sum.case MaxRecordBytes_def simp_thms, simp)
qed

lemma scan_cut:
  assumes "record_ok v" "0 < n" "n < length (frame v)"
  shows "\<not> is_ok (scan (take n (frame v)) entries expected)"
proof -
  let ?raw = "take n (frame v)"
  have len: "length ?raw = n" "?raw \<noteq> []" using assms(2,3) by auto
  show ?thesis
  proof (cases "n < 4")
    case True
    then show ?thesis using len by (subst scan.simps) simp
  next
    case False
    then have "take 4 ?raw = be_bytes 4 (length (encoded v))" by (simp add: frame_def min_def)
    then have "be_nat (take 4 ?raw) = length (encoded v)" using frame_size [OF assms(1)] by simp
    moreover have "\<not> length ?raw < 4" "length ?raw < 4 + length (encoded v)" using len False assms(3) by (simp_all add: frame_def)
    ultimately show ?thesis using len(2) by (subst scan.simps) (simp only: Let_def if_False if_True simp_thms is_ok_errorf split: if_split)
  qed
qed

lemma scan_append: "scan a entries expected = Ok (e, s) \<Longrightarrow> scan (a @ b) entries expected = scan b e s"
proof (induction a entries expected rule: scan.induct)
  case (1 raw entries expected)
  show ?case
  proof (cases "raw = []")
    case True
    then show ?thesis using "1.prems" by (simp add: scan_Nil)
  next
    case False
    let ?n = "be_nat (take 4 raw)"
    from "1.prems" False obtain v entries' where v: "4 \<le> length raw" "?n \<noteq> 0" "?n \<le> MaxRecordBytes" "4 + ?n \<le> length raw"
        "unmarshal (take ?n (drop 4 raw)) = Ok v" "op_Sequence (jr_Operation v) = expected" "apply_record entries v = Ok entries'"
        "scan (drop (4 + ?n) raw) entries' (expected + 1) = Ok (e, s)"
      by (subst (asm) scan.simps) (auto simp: Let_def split: if_splits sum.splits)
    have "scan (drop (4 + ?n) raw @ b) entries' (expected + 1) = scan b e s"
      by (rule "1.IH" [OF False _ refl _ _ v(5) _ v(7,8)]) (use v in simp_all)
    then show ?thesis using v False by (subst scan.simps) simp
  qed
qed

text \<open>What recovery establishes of the entries.\<close>

definition entries_ok :: "entries \<Rightarrow> u64 \<Rightarrow> bool" where
  "entries_ok entries expected \<longleftrightarrow>
     (\<forall>i r. fmlookup entries i = Some r \<longrightarrow> op_ID (jr_Operation r) = i \<and> record_ok r \<and> op_Sequence (jr_Operation r) < expected) \<and>
     (\<forall>i i' r r'. fmlookup entries i = Some r \<longrightarrow> fmlookup entries i' = Some r' \<longrightarrow>
        op_Sequence (jr_Operation r) = op_Sequence (jr_Operation r') \<longrightarrow> i = i')"

lemma apply_record_ok: "apply_record entries v = Ok entries' \<Longrightarrow> entries' = fmupd (op_ID (jr_Operation v)) v entries"
  by (auto simp: apply_record_def Let_def split: if_splits option.splits)

lemma unat_next: "unat (w :: u64) + 1 < 2 ^ 64 \<Longrightarrow> unat (w + 1) = unat w + 1"
  using unat_of_nat [where 'a = 64, of "unat w + 1"] by (simp add: add.commute [of w 1])

lemma entries_ok_add:
  assumes "entries_ok entries s" "record_ok v" "op_Sequence (jr_Operation v) = s" "unat (s + 1) = unat s + 1"
  shows "entries_ok (fmupd (op_ID (jr_Operation v)) v entries) (s + 1)"
proof -
  have less: "x < s + 1" if "x \<le> s" for x using that assms(4) by (simp add: word_less_nat_alt word_le_nat_alt)
  have old: "op_Sequence (jr_Operation r) < s" if "fmlookup entries i = Some r" for i r using assms(1) that by (auto simp: entries_ok_def)
  show ?thesis unfolding entries_ok_def
  proof (intro conjI allI impI)
    fix i r
    assume "fmlookup (fmupd (op_ID (jr_Operation v)) v entries) i = Some r"
    then show "op_ID (jr_Operation r) = i" "record_ok r" "op_Sequence (jr_Operation r) < s + 1"
      using assms(1-3) less [of "op_Sequence (jr_Operation r)"] old [of i r] by (auto simp: entries_ok_def less_imp_le split: if_splits)
  next
    fix i i' r r'
    assume "fmlookup (fmupd (op_ID (jr_Operation v)) v entries) i = Some r" "fmlookup (fmupd (op_ID (jr_Operation v)) v entries) i' = Some r'"
      "op_Sequence (jr_Operation r) = op_Sequence (jr_Operation r')"
    moreover have "k = k'" if "fmlookup entries k = Some q" "fmlookup entries k' = Some q'" "op_Sequence (jr_Operation q) = op_Sequence (jr_Operation q')" for k k' q q'
      using assms(1) that by (auto simp: entries_ok_def)
    ultimately show "i = i'" using assms(3) by (auto split: if_splits dest: old)
  qed
qed

lemma scan_ok:
  "scan raw entries expected = Ok (e, s) \<Longrightarrow> entries_ok entries expected \<Longrightarrow> unat expected + length raw < 2 ^ 64 \<Longrightarrow>
     entries_ok e s \<and> unat s \<le> unat expected + length raw \<and> unat expected \<le> unat s"
proof (induction raw entries expected rule: scan.induct)
  case (1 raw entries expected)
  show ?case
  proof (cases "raw = []")
    case True
    then show ?thesis using "1.prems" by (simp add: scan_Nil)
  next
    case False
    let ?n = "be_nat (take 4 raw)"
    from "1.prems"(1) False obtain v entries' where v: "4 \<le> length raw" "?n \<noteq> 0" "?n \<le> MaxRecordBytes" "4 + ?n \<le> length raw"
        "unmarshal (take ?n (drop 4 raw)) = Ok v" "op_Sequence (jr_Operation v) = expected" "apply_record entries v = Ok entries'"
        "scan (drop (4 + ?n) raw) entries' (expected + 1) = Ok (e, s)"
      by (subst (asm) scan.simps) (auto simp: Let_def split: if_splits sum.splits)
    have nx: "unat (expected + 1) = unat expected + 1" using "1.prems"(3) v(1) by (intro unat_next) simp
    have "entries_ok entries' (expected + 1)"
      unfolding apply_record_ok [OF v(7)] by (rule entries_ok_add [OF "1.prems"(2) _ v(6) nx]) (use v(5) in \<open>simp add: unmarshal_iff\<close>)
    then have "entries_ok e s \<and> unat s \<le> unat (expected + 1) + length (drop (4 + ?n) raw) \<and> unat (expected + 1) \<le> unat s"
      by (intro "1.IH" [OF False _ refl _ _ v(5) _ v(7,8)]) (use v "1.prems"(3) nx in simp_all)
    then show ?thesis using nx v(4) by (simp, arith)
  qed
qed

section \<open>Operations keep the file and the entries in step\<close>

datatype j_op = JPrepare append_io bytes bytes u64 | JCommit append_io bytes | JCompensate append_io bytes

fun j_exec :: "j_op \<Rightarrow> Journal \<Rightarrow> Journal \<times> unit result" where
  "j_exec (JPrepare io opID target generation) j =
     (case Prepare io opID target generation j of (j', Inl e) \<Rightarrow> (j', Inl e) | (j', Inr _) \<Rightarrow> (j', Ok ()))"
| "j_exec (JCommit io opID) j = Commit io opID j"
| "j_exec (JCompensate io opID) j = Compensate io opID j"

fun op_io :: "j_op \<Rightarrow> append_io" where
  "op_io (JPrepare io _ _ _) = io" | "op_io (JCommit io _) = io" | "op_io (JCompensate io _) = io"

text \<open>No write is interrupted; other failures may happen.\<close>

definition clean :: "j_op \<Rightarrow> bool" where
  "clean op \<longleftrightarrow> op_io op = Appended \<or> op_io op = StatFails"

definition j_inv :: "Journal \<Rightarrow> bool" where
  "j_inv j \<longleftrightarrow> j_open j \<and> \<not> j_readOnly j \<and> length (j_disk j) \<le> maxJournalBytes \<and> scan (j_disk j) fmempty 1 = Ok (j_entries j, j_next j)"

lemma j_invD:
  assumes "j_inv j"
  shows "entries_ok (j_entries j) (j_next j)" "unat (j_next j) \<le> length (j_disk j) + 1" "j_next j \<noteq> 0" "unat (j_next j) + 1 < 2 ^ 64"
proof -
  have s: "scan (j_disk j) fmempty 1 = Ok (j_entries j, j_next j)" "length (j_disk j) \<le> 16777216" using assms by (simp_all add: j_inv_def maxJournalBytes_def)
  have "entries_ok fmempty 1" by (simp add: entries_ok_def)
  from scan_ok [OF s(1) this] s(2) have *: "entries_ok (j_entries j) (j_next j)" "unat (j_next j) \<le> length (j_disk j) + 1" "1 \<le> unat (j_next j)" by simp_all
  then show "entries_ok (j_entries j) (j_next j)" "unat (j_next j) \<le> length (j_disk j) + 1" "unat (j_next j) + 1 < 2 ^ 64" "j_next j \<noteq> 0" using s(2) by auto
qed

text \<open>What an operation needs of the handle, whatever the file holds.\<close>

definition j_live :: "Journal \<Rightarrow> bool" where
  "j_live j \<longleftrightarrow> j_open j \<and> \<not> j_readOnly j \<and> entries_ok (j_entries j) (j_next j) \<and> j_next j \<noteq> 0"

lemma j_inv_live: "j_inv j \<Longrightarrow> j_live j"
  using j_invD by (simp add: j_live_def j_inv_def)

text \<open>The record an operation writes, if it gets as far as writing.\<close>

fun op_record :: "j_op \<Rightarrow> Journal \<Rightarrow> jrecord option" where
  "op_record (JPrepare io opID target generation) j =
     (if validText opID 256 \<and> validText target 512 \<and> generation \<noteq> 0 \<and> fmlookup (j_entries j) opID = None
      then Some \<lparr>jr_State = Prepared, jr_Operation = \<lparr>op_Sequence = j_next j, op_ID = opID, op_Target = target, op_Generation = generation\<rparr>\<rparr> else None)"
| "op_record (JCommit io opID) j =
     (case fmlookup (j_entries j) opID of
        Some r \<Rightarrow> if validText opID 256 \<and> jr_State r = Prepared then Some \<lparr>jr_State = Committed, jr_Operation = (jr_Operation r)\<lparr>op_Sequence := j_next j\<rparr>\<rparr> else None
      | None \<Rightarrow> None)"
| "op_record (JCompensate io opID) j =
     (case fmlookup (j_entries j) opID of
        Some r \<Rightarrow> if validText opID 256 \<and> jr_State r = Prepared then Some \<lparr>jr_State = Compensated, jr_Operation = (jr_Operation r)\<lparr>op_Sequence := j_next j\<rparr>\<rparr> else None
      | None \<Rightarrow> None)"

definition fits :: "jrecord \<Rightarrow> Journal \<Rightarrow> bool" where
  "fits v j \<longleftrightarrow> length (j_disk j) + length (frame v) \<le> maxJournalBytes"

definition recorded :: "jrecord \<Rightarrow> Journal \<Rightarrow> Journal" where
  "recorded v j = j\<lparr>j_disk := j_disk j @ frame v, j_entries := fmupd (op_ID (jr_Operation v)) v (j_entries j), j_next := j_next j + 1\<rparr>"

lemma live_record_ok:
  assumes "j_live j" "op_record op j = Some v"
  shows "record_ok v" "op_Sequence (jr_Operation v) = j_next j" "apply_record (j_entries j) v = Ok (fmupd (op_ID (jr_Operation v)) v (j_entries j))"
proof -
  have inv: "entries_ok (j_entries j) (j_next j)" "j_next j \<noteq> 0" using assms(1) by (simp_all add: j_live_def)
  have r: "record_ok r" "op_ID (jr_Operation r) = i" if "fmlookup (j_entries j) i = Some r" for i r using inv(1) that by (auto simp: entries_ok_def)
  show "record_ok v" "op_Sequence (jr_Operation v) = j_next j" using assms(2) inv(2) r
    by (cases op; auto simp: record_ok_def Let_def split: if_splits option.splits)+
  show "apply_record (j_entries j) v = Ok (fmupd (op_ID (jr_Operation v)) v (j_entries j))"
    using assms(2) r by (cases op) (auto simp: apply_record_def Let_def state_defs split: if_splits option.splits)
qed

lemma j_append_cases:
  assumes "j_live j" "record_ok v"
  shows "j_append io v j =
    (if io = StatFails then (j, errorf ''stat'')
     else if \<not> fits v j then (j, errorf ''journal would exceed size limit'')
     else case io of CutAt n \<Rightarrow> (j\<lparr>j_disk := j_disk j @ take n (frame v)\<rparr>, errorf ''write'')
        | SyncFails \<Rightarrow> (j\<lparr>j_disk := j_disk j @ frame v\<rparr>, errorf ''sync'')
        | _ \<Rightarrow> (j\<lparr>j_disk := j_disk j @ frame v\<rparr>, Ok ()))"
proof -
  have m: "marshal v = Ok (encoded v)" using assms(2) by (simp add: marshal_iff)
  have "length (encoded v) \<le> MaxRecordBytes" using encoded_length [OF assms(2)] by (simp add: MaxRecordBytes_def)
  then show ?thesis using assms(1) m by (cases io) (simp_all add: j_append_def fits_def frame_def j_live_def Let_def add.assoc)
qed

text \<open>An operation either changes nothing or appends its record.\<close>

lemma live_exec_cases:
  assumes "j_live j"
  shows "j_exec op j =
    (case op_record op j of
       None \<Rightarrow> (j, snd (j_exec op j))
     | Some v \<Rightarrow>
       if op_io op = StatFails \<or> \<not> fits v j then (j, snd (j_exec op j))
       else case op_io op of CutAt n \<Rightarrow> (j\<lparr>j_disk := j_disk j @ take n (frame v)\<rparr>, errorf ''write'')
          | SyncFails \<Rightarrow> (j\<lparr>j_disk := j_disk j @ frame v\<rparr>, errorf ''sync'')
          | _ \<Rightarrow> (recorded v j, Ok ()))"
    "is_ok (snd (j_exec op j)) \<longleftrightarrow> (\<exists>v. op_record op j = Some v \<and> fits v j \<and> op_io op = Appended)"
proof -
  note app = j_append_cases [OF assms live_record_ok(1) [OF assms]]
  have ids: "op_ID (jr_Operation r) = i" if "fmlookup (j_entries j) i = Some r" for i r using assms that by (simp add: j_live_def entries_ok_def)
  show "j_exec op j =
    (case op_record op j of
       None \<Rightarrow> (j, snd (j_exec op j))
     | Some v \<Rightarrow>
       if op_io op = StatFails \<or> \<not> fits v j then (j, snd (j_exec op j))
       else case op_io op of CutAt n \<Rightarrow> (j\<lparr>j_disk := j_disk j @ take n (frame v)\<rparr>, errorf ''write'')
          | SyncFails \<Rightarrow> (j\<lparr>j_disk := j_disk j @ frame v\<rparr>, errorf ''sync'')
          | _ \<Rightarrow> (recorded v j, Ok ()))"
    using app [of op] ids
    by (cases op) (auto simp: Prepare_def Commit_def Compensate_def j_finish_def recorded_def Let_def errorf_def split: option.splits append_io.splits if_splits)
  show "is_ok (snd (j_exec op j)) \<longleftrightarrow> (\<exists>v. op_record op j = Some v \<and> fits v j \<and> op_io op = Appended)"
    using app [of op] ids
    by (cases op) (auto simp: Prepare_def Commit_def Compensate_def j_finish_def recorded_def Let_def errorf_def split: option.splits append_io.splits if_splits)
qed

lemmas op_record_ok = live_record_ok [OF j_inv_live]
lemmas exec_cases = live_exec_cases [OF j_inv_live]

lemma recorded_inv:
  assumes "j_inv j" "op_record op j = Some v" "fits v j"
  shows "j_inv (recorded v j)"
proof -
  have s: "scan (j_disk j) fmempty 1 = Ok (j_entries j, j_next j)" using assms(1) by (simp add: j_inv_def)
  have "scan (j_disk j @ frame v) fmempty 1 = Ok (fmupd (op_ID (jr_Operation v)) v (j_entries j), j_next j + 1)"
    using scan_append [OF s, of "frame v"] scan_frame [of v "[]" "j_entries j" "j_next j"] op_record_ok [OF assms(1,2)] by (simp add: scan_Nil)
  then show ?thesis using assms(1,3) by (simp add: j_inv_def recorded_def fits_def)
qed

lemma clean_step:
  assumes "j_inv j" "clean op"
  shows "fst (j_exec op j) = j \<and> \<not> is_ok (snd (j_exec op j)) \<or>
    (\<exists>v. op_record op j = Some v \<and> fits v j \<and> fst (j_exec op j) = recorded v j \<and> is_ok (snd (j_exec op j)))"
proof (cases "op_record op j")
  case None
  then show ?thesis using exec_cases [OF assms(1), of op] by (simp, metis fst_conv)
next
  case (Some v)
  show ?thesis
  proof (cases "op_io op = StatFails \<or> \<not> fits v j")
    case True
    then show ?thesis using Some exec_cases [OF assms(1), of op] by (simp, metis append_io.distinct(1) fst_conv)
  next
    case False
    then have "op_io op = Appended" using assms(2) by (simp add: clean_def)
    then show ?thesis using Some False exec_cases [OF assms(1), of op] by simp
  qed
qed

lemma exec_inv: "j_inv j \<Longrightarrow> clean op \<Longrightarrow> j_inv (fst (j_exec op j))"
  using clean_step recorded_inv by metis

fun prepared_id :: "j_op \<times> unit result \<Rightarrow> bytes option" where
  "prepared_id (JPrepare _ opID _ _, r) = (if is_ok r then Some opID else None)"
| "prepared_id _ = None"

fun finished_id :: "j_op \<times> unit result \<Rightarrow> bytes option" where
  "finished_id (JCommit _ opID, r) = (if is_ok r then Some opID else None)"
| "finished_id (JCompensate _ opID, r) = (if is_ok r then Some opID else None)"
| "finished_id _ = None"

definition known_ids :: "Journal \<Rightarrow> bytes set" where
  "known_ids j = {i. fmlookup (j_entries j) i \<noteq> None}"

definition terminal_ids :: "Journal \<Rightarrow> bytes set" where
  "terminal_ids j = {i. \<exists>r. fmlookup (j_entries j) i = Some r \<and> jr_State r \<noteq> Prepared}"

lemma op_record_id:
  assumes "j_inv j" "op_record op j = Some v"
  shows "(\<exists>io i t g. op = JPrepare io i t g \<and> op_ID (jr_Operation v) = i \<and> jr_State v = Prepared \<and> fmlookup (j_entries j) i = None) \<or>
    (\<exists>io i r. (op = JCommit io i \<or> op = JCompensate io i) \<and> op_ID (jr_Operation v) = i \<and> jr_State v \<noteq> Prepared \<and> fmlookup (j_entries j) i = Some r \<and> jr_State r = Prepared)"
proof -
  have "op_ID (jr_Operation r) = i" if "fmlookup (j_entries j) i = Some r" for i r using j_invD(1) [OF assms(1)] that by (simp add: entries_ok_def)
  then show ?thesis using assms(2) by (cases op) (auto simp: state_defs split: if_splits option.splits)
qed

lemma ids_step:
  assumes "j_inv j" "clean op"
  shows "known_ids j \<subseteq> known_ids (fst (j_exec op j))" "terminal_ids j \<subseteq> terminal_ids (fst (j_exec op j))"
    "prepared_id (op, snd (j_exec op j)) = Some i \<Longrightarrow> i \<notin> known_ids j \<and> i \<in> known_ids (fst (j_exec op j))"
    "finished_id (op, snd (j_exec op j)) = Some i \<Longrightarrow> i \<notin> terminal_ids j \<and> i \<in> terminal_ids (fst (j_exec op j))"
proof -
  consider (same) "fst (j_exec op j) = j" "\<not> is_ok (snd (j_exec op j))"
    | (new) v where "op_record op j = Some v" "fst (j_exec op j) = recorded v j" "is_ok (snd (j_exec op j))"
    using clean_step [OF assms] by blast
  then have "known_ids j \<subseteq> known_ids (fst (j_exec op j)) \<and> terminal_ids j \<subseteq> terminal_ids (fst (j_exec op j)) \<and>
    (prepared_id (op, snd (j_exec op j)) = Some i \<longrightarrow> i \<notin> known_ids j \<and> i \<in> known_ids (fst (j_exec op j))) \<and>
    (finished_id (op, snd (j_exec op j)) = Some i \<longrightarrow> i \<notin> terminal_ids j \<and> i \<in> terminal_ids (fst (j_exec op j)))"
  proof cases
    case same
    then show ?thesis by (cases op) simp_all
  next
    case new
    from op_record_id [OF assms(1) new(1)] show ?thesis
      using new by (auto simp: known_ids_def terminal_ids_def recorded_def)
  qed
  then show "known_ids j \<subseteq> known_ids (fst (j_exec op j))" "terminal_ids j \<subseteq> terminal_ids (fst (j_exec op j))"
    "prepared_id (op, snd (j_exec op j)) = Some i \<Longrightarrow> i \<notin> known_ids j \<and> i \<in> known_ids (fst (j_exec op j))"
    "finished_id (op, snd (j_exec op j)) = Some i \<Longrightarrow> i \<notin> terminal_ids j \<and> i \<in> terminal_ids (fst (j_exec op j))"
    by blast+
qed

interpretation preparing: claiming_machine j_exec clean j_inv known_ids prepared_id
  by unfold_locales (use exec_inv ids_step in blast)+

interpretation finishing: claiming_machine j_exec clean j_inv terminal_ids finished_id
  by unfold_locales (use exec_inv ids_step in blast)+

text \<open>An environment in which the file has some content and every call succeeds.\<close>

definition serving :: "journal_env \<Rightarrow> bytes \<Rightarrow> bool" where
  "serving env content \<longleftrightarrow> je_opens env \<and> je_chmod env \<and> je_syncs env \<and> je_seeks env \<and>
     (case je_lstat env of Found regular perm c \<Rightarrow> regular \<and> and perm 63 = 0 \<and> c = content | _ \<Rightarrow> False)"

lemma open_serving:
  assumes "serving env content" "path \<noteq> []" "length content \<le> maxJournalBytes"
  shows "j_Open env path = and_then (scan content fmempty 1) (\<lambda>(entries, next).
    Ok \<lparr>j_open = True, j_disk = content, j_readOnly = False, j_next = next, j_entries = entries\<rparr>)"
  using assms by (auto simp: serving_def j_Open_def recovered_def split: j_lstat.splits)

lemma open_inv: "j_inv j \<Longrightarrow> serving env (j_disk j) \<Longrightarrow> path \<noteq> [] \<Longrightarrow> j_Open env path = Ok j"
  by (simp add: open_serving j_inv_def)

lemma opened_inv: "j_Open env path = Ok j \<Longrightarrow> j_inv j"
  by (auto simp: j_Open_def recovered_def j_inv_def and_then_Inr_iff maxJournalBytes_def split: if_splits j_lstat.splits)

section \<open>Pending operations\<close>

definition pending_ops :: "Journal \<Rightarrow> Operation set" where
  "pending_ops j = {op. \<exists>i r. fmlookup (j_entries j) i = Some r \<and> jr_State r = Prepared \<and> op = jr_Operation r}"

lemma pending_inj: "j_inv j \<Longrightarrow> inj_on op_Sequence (pending_ops j)"
  using j_invD(1) [of j] by (auto simp: inj_on_def pending_ops_def entries_ok_def) (metis option.inject)

lemma pending_list:
  assumes "j_inv j"
  shows "set (j_Pending j) = pending_ops j" "sorted (map op_Sequence (j_Pending j))" "distinct (map op_Sequence (j_Pending j))"
proof -
  let ?ids = "sorted_list_of_fset (fmdom (j_entries j))"
  let ?rs = "filter (\<lambda>r. jr_State r = Prepared) (map (\<lambda>i. the (fmlookup (j_entries j) i)) ?ids)"
  have ids: "distinct ?ids" "set ?ids = fset (fmdom (j_entries j))" by (simp_all add: sorted_list_of_fset.rep_eq)
  show set: "set (j_Pending j) = pending_ops j" by (fastforce simp: j_Pending_def ids(2) pending_ops_def fmlookup_dom_iff image_iff)
  show "sorted (map op_Sequence (j_Pending j))" by (simp add: j_Pending_def)
  have own: "op_ID (jr_Operation r) = i" if "fmlookup (j_entries j) i = Some r" for i r using j_invD(1) [OF assms] that by (simp add: entries_ok_def)
  have look: "\<exists>r. fmlookup (j_entries j) i = Some r" if "i \<in> set ?ids" for i using that ids(2) by (auto simp: fmlookup_dom_iff)
  have "inj_on (\<lambda>i. the (fmlookup (j_entries j) i)) (set ?ids)" by (intro inj_onI) (metis look own option.sel)
  then have "distinct (map (\<lambda>i. the (fmlookup (j_entries j) i)) ?ids)" using ids(1) by (simp add: distinct_map)
  moreover have "\<exists>i. fmlookup (j_entries j) i = Some r" if "r \<in> set ?rs" for r using that look by fastforce
  then have "inj_on jr_Operation (set ?rs)" by (intro inj_onI) (metis own option.inject)
  ultimately have "distinct (map jr_Operation ?rs)" by (simp add: distinct_map)
  then have "distinct (j_Pending j)" by (simp add: j_Pending_def)
  then show "distinct (map op_Sequence (j_Pending j))" using set pending_inj [OF assms] by (simp add: distinct_map)
qed

lemma pending_unique:
  assumes "j_inv j" "set ops = pending_ops j" "sorted (map op_Sequence ops)" "distinct (map op_Sequence ops)"
  shows "j_Pending j = ops"
  by (rule map_sorted_distinct_set_unique [of op_Sequence]) (use assms pending_list [OF assms(1)] pending_inj [OF assms(1)] in simp_all)

lemma pending_recorded:
  assumes "j_inv j" "op_record op j = Some v" "fits v j"
  shows "j_Pending (recorded v j) = filter (\<lambda>op. op_ID op \<noteq> op_ID (jr_Operation v)) (j_Pending j) @ (if jr_State v = Prepared then [jr_Operation v] else [])"
proof (rule pending_unique [OF recorded_inv [OF assms]])
  note l = pending_list [OF assms(1)] and seq = op_record_ok(2) [OF assms(1,2)]
  have own: "op_ID (jr_Operation r) = i" "op_Sequence (jr_Operation r) < j_next j" if "fmlookup (j_entries j) i = Some r" for i r
    using j_invD(1) [OF assms(1)] that by (auto simp: entries_ok_def)
  let ?old = "filter (\<lambda>op. op_ID op \<noteq> op_ID (jr_Operation v)) (j_Pending j)" and ?new = "if jr_State v = Prepared then [jr_Operation v] else []"
  have "x \<in> pending_ops (recorded v j) \<longleftrightarrow> jr_State v = Prepared \<and> x = jr_Operation v \<or> x \<in> pending_ops j \<and> op_ID x \<noteq> op_ID (jr_Operation v)" for x
  proof
    assume "x \<in> pending_ops (recorded v j)"
    then obtain i r where r: "fmlookup (fmupd (op_ID (jr_Operation v)) v (j_entries j)) i = Some r" "jr_State r = Prepared" "x = jr_Operation r"
      by (auto simp: pending_ops_def recorded_def)
    then show "jr_State v = Prepared \<and> x = jr_Operation v \<or> x \<in> pending_ops j \<and> op_ID x \<noteq> op_ID (jr_Operation v)"
      using own(1) [of i r] by (cases "i = op_ID (jr_Operation v)") (auto simp: pending_ops_def)
  next
    assume "jr_State v = Prepared \<and> x = jr_Operation v \<or> x \<in> pending_ops j \<and> op_ID x \<noteq> op_ID (jr_Operation v)"
    then show "x \<in> pending_ops (recorded v j)"
    proof
      assume "x \<in> pending_ops j \<and> op_ID x \<noteq> op_ID (jr_Operation v)"
      then obtain i r where "fmlookup (j_entries j) i = Some r" "jr_State r = Prepared" "x = jr_Operation r" "i \<noteq> op_ID (jr_Operation v)"
        using own(1) by (auto simp: pending_ops_def)
      then show ?thesis unfolding pending_ops_def recorded_def by (intro CollectI exI [of _ i] exI [of _ r]) simp
    next
      assume "jr_State v = Prepared \<and> x = jr_Operation v"
      then show ?thesis unfolding pending_ops_def recorded_def by (intro CollectI exI [of _ "op_ID (jr_Operation v)"] exI [of _ v]) simp
    qed
  qed
  then show "set (?old @ ?new) = pending_ops (recorded v j)" using l(1) by auto
  have less: "op_Sequence x < op_Sequence (jr_Operation v)" if "x \<in> set (j_Pending j)" for x
    using that l(1) own(2) seq by (auto simp: pending_ops_def)
  have old: "sorted (map op_Sequence ?old)" "distinct (map op_Sequence ?old)" using l(2,3) by (simp_all add: sorted_filter distinct_map_filter)
  show "sorted (map op_Sequence (?old @ ?new))" using old(1) less by (auto simp: sorted_append intro: less_imp_le)
  show "distinct (map op_Sequence (?old @ ?new))" using old(2) less by fastforce
qed

lemma pending_run:
  assumes "j_inv j" "\<forall>op \<in> set ops. clean op"
  shows "map op_ID (j_Pending (final_state j_exec ops j)) =
    filter (\<lambda>i. i \<notin> set (List.map_filter finished_id (results j_exec ops j))) (map op_ID (j_Pending j) @ List.map_filter prepared_id (results j_exec ops j))"
  using assms
proof (induction ops arbitrary: j)
  case (Cons op ops)
  let ?j = "fst (j_exec op j)"
  let ?P = "List.map_filter prepared_id (results j_exec ops ?j)" and ?F = "List.map_filter finished_id (results j_exec ops ?j)"
  have inv: "j_inv ?j" using exec_inv Cons.prems by simp
  have IH: "map op_ID (j_Pending (final_state j_exec ops ?j)) = filter (\<lambda>i. i \<notin> set ?F) (map op_ID (j_Pending ?j) @ ?P)"
    using Cons.IH [OF inv] Cons.prems(2) by simp
  have fresh: "set ?P \<inter> known_ids ?j = {}" using preparing.claims_once [OF inv] Cons.prems(2) by simp
  have "clean op" using Cons.prems(2) by simp
  from clean_step [OF Cons.prems(1) this] consider (same) "?j = j" "\<not> is_ok (snd (j_exec op j))"
    | (new) v where "op_record op j = Some v" "fits v j" "?j = recorded v j" "is_ok (snd (j_exec op j))" by blast
  then show ?case
  proof cases
    case same
    then have "prepared_id (op, snd (j_exec op j)) = None" "finished_id (op, snd (j_exec op j)) = None" by (cases op; simp)+
    then show ?thesis using IH same by (simp add: map_filter_simps)
  next
    case new
    note pend = pending_recorded [OF Cons.prems(1) new(1,2)]
    have own: "op_ID (jr_Operation r) = i" if "fmlookup (j_entries j) i = Some r" for i r using j_invD(1) [OF Cons.prems(1)] that by (simp add: entries_ok_def)
    from op_record_id [OF Cons.prems(1) new(1)]
    consider io i t g where "op = JPrepare io i t g" "op_ID (jr_Operation v) = i" "jr_State v = Prepared" "fmlookup (j_entries j) i = None"
      | io i r where "op = JCommit io i \<or> op = JCompensate io i" "op_ID (jr_Operation v) = i" "jr_State v \<noteq> Prepared" "fmlookup (j_entries j) i = Some r"
      by blast
    then show ?thesis
    proof cases
      case (1 io i t g)
      note op = 1(1) and v = 1(2-4)
      have "op_ID x \<noteq> i" if "x \<in> set (j_Pending j)" for x using that v(3) own pending_list(1) [OF Cons.prems(1)] by (auto simp: pending_ops_def)
      then have "j_Pending ?j = j_Pending j @ [jr_Operation v]" using pend v new(3) by simp
      then show ?thesis using IH op new(4) v(1) by (simp add: map_filter_simps)
    next
      case (2 io i r)
      note op = 2(1) and v = 2(2-4)
      have "i \<in> known_ids ?j" using v new(3) by (simp add: known_ids_def recorded_def)
      then have "i \<notin> set ?P" using fresh by blast
      then have "filter (\<lambda>k. k \<notin> set ?F) ?P = filter (\<lambda>k. k \<noteq> i \<and> k \<notin> set ?F) ?P" by (intro filter_cong) auto
      moreover have "map op_ID (j_Pending ?j) = filter (\<lambda>k. k \<noteq> i) (map op_ID (j_Pending j))" using pend v new(3) by (simp add: filter_map o_def)
      ultimately show ?thesis using IH op new(4) by (auto simp: map_filter_simps)
    qed
  qed
qed (simp add: map_filter_simps)

section \<open>Properties\<close>

definition jd_env :: "j_lstat \<Rightarrow> journal_env" where
  "jd_env found = \<lparr>je_lstat = found, je_opens = True, je_chmod = True, je_syncs = True, je_same = True, je_seeks = True\<rparr>"

definition jd_empty :: Journal where
  "jd_empty = \<lparr>j_open = True, j_disk = [], j_readOnly = False, j_next = 1, j_entries = fmempty\<rparr>"

definition jd_ops :: "j_op list" where
  "jd_ops = [JPrepare Appended ''a'' ''x'' 1, JPrepare Appended ''b'' ''x'' 1, JCommit Appended ''a'']"

lemma jd_opens: "j_Open (jd_env Absent) ''p'' = Ok jd_empty"
  by (simp add: j_Open_def jd_env_def recovered_def scan_Nil jd_empty_def)

lemma jd_clean: "\<forall>op \<in> set jd_ops. clean op"
  by (simp add: jd_ops_def clean_def)

lemma jd_serves: "serving (jd_env (Found True 384 content)) content"
  by (simp add: serving_def jd_env_def)

lemma jd_texts: "validText ''a'' n \<longleftrightarrow> 1 \<le> n" "validText ''b'' n \<longleftrightarrow> 1 \<le> n" "validText ''x'' n \<longleftrightarrow> 1 \<le> n"
  by (auto simp: validText_def valid_utf8_ascii)

text \<open>The record format is exact: decoding accepts exactly the byte strings that encoding produces, and gives back what was encoded. So no two
  byte strings stand for the same record, and no record is lost or altered on its way through the file.\<close>

theorem journal_codec: "unmarshal raw = Ok v \<longleftrightarrow> marshal v = Ok raw"
  by (simp add: unmarshal_iff marshal_iff)

text \<open>C36: Recovery is exact. Take a journal that opened, any operations during which no write was interrupted and no sync failed, and open the file again: the result is
  the journal as it was in memory, and what it reports as pending is what was pending at first followed by what was prepared since, in this
  order, without what was committed or compensated.\<close>

theorem journal_recovery:
  assumes "j_Open env0 path = Ok j0" "\<forall>op \<in> set ops. clean op" "j = final_state j_exec ops j0" "serving env (j_disk j)"
  shows "j_Open env path = Ok j \<and>
    map op_ID (j_Pending j) =
      filter (\<lambda>i. i \<notin> set (List.map_filter finished_id (results j_exec ops j0))) (map op_ID (j_Pending j0) @ List.map_filter prepared_id (results j_exec ops j0))"
proof -
  have path: "path \<noteq> []" using assms(1) by (auto simp: j_Open_def)
  have "j_inv j" using preparing.run_inv [OF opened_inv [OF assms(1)] assms(2)] assms(3) by simp
  then show ?thesis using open_inv [OF _ assms(4) path] pending_run [OF opened_inv [OF assms(1)] assms(2)] assms(3) by simp
qed

theorem journal_recovery_witness:
  "\<exists>env. j_Open env ''p'' = Ok (final_state j_exec jd_ops jd_empty) \<and> map op_ID (j_Pending (final_state j_exec jd_ops jd_empty)) = [''b'']"
proof -
  let ?j = "final_state j_exec jd_ops jd_empty"
  have r: "List.map_filter prepared_id (results j_exec jd_ops jd_empty) = [''a'', ''b'']" "List.map_filter finished_id (results j_exec jd_ops jd_empty) = [''a'']"
    by (simp_all add: jd_ops_def jd_empty_def Prepare_def Commit_def j_finish_def j_append_def marshal_def jd_texts appendText_def MaxRecordBytes_def
        maxJournalBytes_def state_defs Let_def map_filter_simps)
  have "j_Pending jd_empty = []" by (simp add: j_Pending_def jd_empty_def sorted_list_of_fset.rep_eq)
  then show ?thesis
    using journal_recovery [OF jd_opens jd_clean refl jd_serves] r by auto
qed

text \<open>C37: An interrupted append is never silently ignored. After operations during which no write was interrupted and no sync failed, interrupt the next append: whatever
  prefix of its frame reaches the file, opening it again gives the journal
  before the operation when nothing was written, the journal after it when everything was, and an error otherwise.\<close>

theorem journal_torn_append:
  assumes "j_Open env0 path = Ok j0" "\<forall>op \<in> set ops. clean op" "j = final_state j_exec ops j0"
    "op_record op j = Some v" "op_io op = CutAt n" "fits v j" "serving env (j_disk (fst (j_exec op j)))"
  shows "if n = 0 then j_Open env path = Ok j else if length (frame v) \<le> n then j_Open env path = Ok (recorded v j) else \<not> is_ok (j_Open env path)"
proof -
  have path: "path \<noteq> []" using assms(1) by (auto simp: j_Open_def)
  have inv: "j_inv j" using preparing.run_inv [OF opened_inv [OF assms(1)] assms(2)] assms(3) by simp
  have d: "j_disk (fst (j_exec op j)) = j_disk j @ take n (frame v)" using exec_cases(1) [OF inv, of op] assms(4-6) by simp
  have sc: "scan (j_disk j @ b) fmempty 1 = scan b (j_entries j) (j_next j)" for b using inv scan_append by (simp add: j_inv_def)
  consider "n = 0" | "length (frame v) \<le> n" "n \<noteq> 0" | "0 < n" "n < length (frame v)" by linarith
  then show ?thesis
  proof cases
    case 1
    then show ?thesis using open_inv [OF inv _ path] assms(7) d by simp
  next
    case 2
    then have "serving env (j_disk (recorded v j))" using assms(7) d by (simp add: recorded_def)
    then show ?thesis using 2 open_inv [OF recorded_inv [OF inv assms(4,6)] _ path] by simp
  next
    case 3
    have "length (j_disk j @ take n (frame v)) \<le> maxJournalBytes" using assms(6) 3 by (simp add: fits_def)
    from open_serving [OF _ path this] have "j_Open env path = and_then (scan (take n (frame v)) (j_entries j) (j_next j)) (\<lambda>(entries, next).
        Ok \<lparr>j_open = True, j_disk = j_disk j @ take n (frame v), j_readOnly = False, j_next = next, j_entries = entries\<rparr>)"
      using assms(7) d sc by simp
    then show ?thesis using 3 scan_cut [OF op_record_ok(1) [OF inv assms(4)] 3, of "j_entries j" "j_next j"]
      by (cases "scan (take n (frame v)) (j_entries j) (j_next j)") simp_all
  qed
qed

theorem journal_torn_append_witness:
  "\<not> is_ok (j_Open (jd_env (Found True 384 (j_disk (fst (j_exec (JPrepare (CutAt 3) ''a'' ''x'' 1) jd_empty))))) ''p'')"
proof -
  let ?v = "\<lparr>jr_State = Prepared, jr_Operation = \<lparr>op_Sequence = 1, op_ID = ''a'', op_Target = ''x'', op_Generation = 1\<rparr>\<rparr>"
  have v: "op_record (JPrepare (CutAt 3) ''a'' ''x'' 1) jd_empty = Some ?v" by (simp add: jd_empty_def jd_texts)
  have f: "fits ?v jd_empty" "\<not> length (frame ?v) \<le> 3" by (simp_all add: fits_def frame_def encoded_def jd_empty_def maxJournalBytes_def)
  show ?thesis using journal_torn_append [OF jd_opens, of "[]" jd_empty, OF _ _ v _ f(1) jd_serves, of 3] f(2) by simp
qed

text \<open>An operation is prepared at most once and finished at most once, over all calls since the journal was opened; identifiers that were known when
  it opened are not prepared again.\<close>

theorem journal_once:
  assumes "j_Open env path = Ok j0" "\<forall>op \<in> set ops. clean op"
  shows "distinct (List.map_filter prepared_id (results j_exec ops j0)) \<and> distinct (List.map_filter finished_id (results j_exec ops j0)) \<and>
    set (List.map_filter prepared_id (results j_exec ops j0)) \<inter> known_ids j0 = {}"
  using preparing.claims_once [OF opened_inv [OF assms(1)] assms(2)] finishing.claims_once [OF opened_inv [OF assms(1)] assms(2)] by simp

theorem journal_once_witness:
  "distinct (List.map_filter prepared_id (results j_exec (jd_ops @ jd_ops) jd_empty))"
  using journal_once [OF jd_opens, of "jd_ops @ jd_ops"] jd_clean by simp

text \<open>An append whose fsync fails is reported as an error but stays in the file, and the handle goes on with the same sequence number: as soon
  as any later operation succeeds, the journal cannot be opened any more.\<close>

theorem journal_failed_sync_poisons:
  assumes "j_Open env0 path = Ok j0" "\<forall>op \<in> set ops. clean op" "j = final_state j_exec ops j0"
    "op_record op1 j = Some v" "fits v j" "op_io op1 = SyncFails" "j_exec op1 j = (j1, r1)" "j_exec op2 j1 = (j2, Ok ())" "serving env (j_disk j2)"
  shows "\<not> is_ok r1 \<and> \<not> is_ok (j_Open env path)"
proof -
  have path: "path \<noteq> []" using assms(1) by (auto simp: j_Open_def)
  have inv: "j_inv j" using preparing.run_inv [OF opened_inv [OF assms(1)] assms(2)] assms(3) by simp
  note v = op_record_ok [OF inv assms(4)]
  have j1: "j1 = j\<lparr>j_disk := j_disk j @ frame v\<rparr>" "r1 = errorf ''sync''" using exec_cases(1) [OF inv, of op1] assms(4-7) by simp_all
  have live: "j_live j1" using j_inv_live [OF inv] j1 by (simp add: j_live_def)
  obtain w where w: "op_record op2 j1 = Some w" "fits w j1" "op_io op2 = Appended" using live_exec_cases(2) [OF live, of op2] assms(8) by auto
  then have j2: "j_disk j2 = j_disk j @ frame v @ frame w" using live_exec_cases(1) [OF live, of op2] assms(8) j1 by (auto simp: recorded_def)
  have "scan (frame v @ frame w) (j_entries j) (j_next j) = errorf ''journal sequence is not contiguous''"
    using scan_frame [OF v(1), of "frame w"] v(2,3) scan_frame [OF live_record_ok(1) [OF live w(1)], of "[]"] live_record_ok(2) [OF live w(1)] j1 by simp
  then have "scan (j_disk j2) fmempty 1 = errorf ''journal sequence is not contiguous''"
    using inv scan_append [of "j_disk j" fmempty 1 "j_entries j" "j_next j" "frame v @ frame w"] j2 by (simp add: j_inv_def)
  moreover have "length (j_disk j2) \<le> maxJournalBytes" using w(2) j1 j2 by (simp add: fits_def)
  ultimately show ?thesis using open_serving [OF assms(9) path] j1 by simp
qed

theorem journal_failed_sync_poisons_witness:
  "\<exists>env j1 j2. j_exec (JPrepare SyncFails ''a'' ''x'' 1) jd_empty = (j1, errorf ''sync'') \<and> j_exec (JPrepare Appended ''b'' ''x'' 1) j1 = (j2, Ok ()) \<and>
     serving env (j_disk j2) \<and> \<not> is_ok (j_Open env ''p'')"
proof -
  let ?v = "\<lparr>jr_State = Prepared, jr_Operation = \<lparr>op_Sequence = 1, op_ID = ''a'', op_Target = ''x'', op_Generation = 1\<rparr>\<rparr>"
  have v: "op_record (JPrepare SyncFails ''a'' ''x'' 1) jd_empty = Some ?v" by (simp add: jd_empty_def jd_texts)
  have f: "fits ?v jd_empty" by (simp add: fits_def frame_def encoded_def jd_empty_def maxJournalBytes_def)
  obtain j1 where j1: "j_exec (JPrepare SyncFails ''a'' ''x'' 1) jd_empty = (j1, errorf ''sync'')" "j_entries j1 = fmempty" "j_next j1 = 1" "j_open j1" "\<not> j_readOnly j1"
      "length (j_disk j1) = 28"
    by (simp add: jd_empty_def Prepare_def j_append_def marshal_def jd_texts appendText_def MaxRecordBytes_def maxJournalBytes_def state_defs Let_def errorf_def)
  have "snd (j_exec (JPrepare Appended ''b'' ''x'' 1) j1) = Ok ()"
    using j1 by (simp add: Prepare_def j_append_def marshal_def jd_texts appendText_def MaxRecordBytes_def maxJournalBytes_def state_defs Let_def)
  then obtain j2 where j2: "j_exec (JPrepare Appended ''b'' ''x'' 1) j1 = (j2, Ok ())" by (metis prod.collapse)
  from journal_failed_sync_poisons [OF jd_opens, of "[]" jd_empty, OF _ _ v f _ j1(1) j2 jd_serves] show ?thesis using j1(1) j2 jd_serves by auto
qed

end
