(* ===== verification/Net_Addr.thy ===== *)
theory Net_Addr
  imports Go_Json
begin

text \<open>
  What the gateway uses of Go's \<open>net/netip\<close>, \<open>net\<close>, \<open>net/url\<close> and \<open>strings\<close>: IP addresses as values and as text, prefixes, host and port, and lower case. The
  Unicode table behind \<open>strings.ToLower\<close> is the argument \<open>lower\<close>, which is asked for runes outside ASCII only.
\<close>

section \<open>Addresses\<close>

text \<open>\<open>netip.Addr\<close>: the invalid address, an IPv4 address, or an IPv6 address with its zone.\<close>

datatype addr = NoAddr | V4 "32 word" | V6 "128 word" bytes

fun IsValid :: "addr \<Rightarrow> bool" where "IsValid NoAddr = False" | "IsValid _ = True"

fun Is6 :: "addr \<Rightarrow> bool" where "Is6 (V6 w z) = True" | "Is6 _ = False"

fun Is4In6 :: "addr \<Rightarrow> bool" where "Is4In6 (V6 w z) = (drop_bit 32 w = 0xFFFF)" | "Is4In6 _ = False"

fun Unmap :: "addr \<Rightarrow> addr" where
  "Unmap (V6 w z) = (if Is4In6 (V6 w z) then V4 (ucast w) else V6 w z)"
| "Unmap a = a"

fun IsUnspecified :: "addr \<Rightarrow> bool" where
  "IsUnspecified (V4 w) = (w = 0)" | "IsUnspecified (V6 w z) = (w = 0 \<and> z = [])" | "IsUnspecified NoAddr = False"

text \<open>The following three look through an IPv4 address that is mapped into IPv6.\<close>

definition IsMulticast :: "addr \<Rightarrow> bool" where
  "IsMulticast a = (case Unmap a of NoAddr \<Rightarrow> False | V4 w \<Rightarrow> drop_bit 28 w = 0xE | V6 w z \<Rightarrow> drop_bit 120 w = 0xFF)"

definition IsLoopback :: "addr \<Rightarrow> bool" where
  "IsLoopback a = (case Unmap a of NoAddr \<Rightarrow> False | V4 w \<Rightarrow> drop_bit 24 w = 127 | V6 w z \<Rightarrow> w = 1)"

definition IsLinkLocalUnicast :: "addr \<Rightarrow> bool" where
  "IsLinkLocalUnicast a = (case Unmap a of NoAddr \<Rightarrow> False | V4 w \<Rightarrow> drop_bit 16 w = 0xA9FE | V6 w z \<Rightarrow> drop_bit 118 w = 0x3FA)"

definition IsGlobalUnicast :: "addr \<Rightarrow> bool" where
  "IsGlobalUnicast a \<longleftrightarrow> IsValid a \<and> a \<noteq> V4 0 \<and> a \<noteq> V4 0xFFFFFFFF \<and> a \<noteq> V6 0 [] \<and> \<not> IsLoopback a \<and> \<not> IsMulticast a \<and> \<not> IsLinkLocalUnicast a"

text \<open>\<open>netip.Prefix\<close>, for prefixes that \<open>ParsePrefix\<close> accepted: no zone, and at most as many bits as the address has.\<close>

record prefix =
  pf_addr :: addr
  pf_bits :: nat

fun Contains_addr :: "addr \<Rightarrow> nat \<Rightarrow> addr \<Rightarrow> bool" where
  "Contains_addr (V4 p) bits (V4 w) = (drop_bit (32 - bits) (xor w p) = 0)"
| "Contains_addr (V6 p pz) bits (V6 w z) = (z = [] \<and> drop_bit (128 - bits) (xor w p) = 0)"
| "Contains_addr _ _ _ = False"

definition Contains :: "prefix \<Rightarrow> addr \<Rightarrow> bool" where
  "Contains p a = Contains_addr (pf_addr p) (pf_bits p) a"

section \<open>Text\<close>

definition octet_of :: "bytes \<Rightarrow> nat option" where
  "octet_of s =
     (if s = [] \<or> \<not> list_all is_digit s \<or> length s > 1 \<and> hd s = CHR ''0'' then None
      else case atoi s of Some n \<Rightarrow> if n \<le> 255 then Some n else None | None \<Rightarrow> None)"

definition parseIPv4Fields :: "bytes \<Rightarrow> nat list option" where
  "parseIPv4Fields s =
     (let octets = map octet_of (split_on (CHR ''.'') s) in if length octets = 4 \<and> None \<notin> set octets then Some (map the octets) else None)"

definition word_of_octets :: "nat list \<Rightarrow> 'a::len word" where
  "word_of_octets os = foldl (\<lambda>a b. a * 256 + of_nat b) 0 os"

definition hex_value :: "bytes \<Rightarrow> nat" where
  "hex_value s = foldl (\<lambda>a c. a * 16 + the (from_hex_char c)) 0 s"

text \<open>
  The loop of \<open>parseIPv6\<close>, at most as often as there are groups left: the rest of the text, the bytes so far and the position of the
  double colon.
\<close>

fun parseIPv6_loop :: "nat \<Rightarrow> bytes \<Rightarrow> nat list \<Rightarrow> nat option \<Rightarrow> (nat list \<times> nat option \<times> bytes) option" where
  "parseIPv6_loop 0 s ip ellipsis = Some (ip, ellipsis, s)"
| "parseIPv6_loop (Suc k) s ip ellipsis =
     (let off = length (takeWhile (\<lambda>c. from_hex_char c \<noteq> None) s); acc = hex_value (take off s)
      in if off = 0 \<or> off > 4 then None
         else if off < length s \<and> s ! off = CHR ''.'' then
           (if ellipsis = None \<and> length ip \<noteq> 12 \<or> length ip + 4 > 16 then None
            else case parseIPv4Fields s of None \<Rightarrow> None | Some octets \<Rightarrow> Some (ip @ octets, ellipsis, []))
         else let ip = ip @ [acc div 256, acc mod 256]; s = drop off s
              in if s = [] then Some (ip, ellipsis, [])
                 else if hd s \<noteq> CHR '':'' \<or> length s = 1 then None
                 else if hd (tl s) = CHR '':''
                 then (if ellipsis \<noteq> None then None
                       else if tl (tl s) = [] then Some (ip, Some (length ip), [])
                       else parseIPv6_loop k (tl (tl s)) ip (Some (length ip)))
                 else parseIPv6_loop k (tl s) ip ellipsis)"

definition parseIPv6 :: "bytes \<Rightarrow> addr option" where
  "parseIPv6 input =
     (let s = takeWhile (\<lambda>c. c \<noteq> CHR ''%'') input; zone = tl (dropWhile (\<lambda>c. c \<noteq> CHR ''%'') input);
          leading = (take 2 s = ''::''); rest = (if leading then drop 2 s else s)
      in if CHR ''%'' \<in> set input \<and> zone = [] then None
         else if leading \<and> rest = [] then Some (V6 0 zone)
         else case parseIPv6_loop 8 rest [] (if leading then Some 0 else None) of
             None \<Rightarrow> None
           | Some (ip, ellipsis, trailing) \<Rightarrow>
             if trailing \<noteq> [] then None
             else if length ip < 16
             then (case ellipsis of None \<Rightarrow> None
               | Some e \<Rightarrow> Some (V6 (word_of_octets (take e ip @ replicate (16 - length ip) 0 @ drop e ip)) zone))
             else if ellipsis \<noteq> None then None
             else Some (V6 (word_of_octets ip) zone))"

definition ParseAddr :: "bytes \<Rightarrow> addr option" where
  "ParseAddr s =
     (case find (\<lambda>c. c = CHR ''.'' \<or> c = CHR '':'' \<or> c = CHR ''%'') s of
        None \<Rightarrow> None
      | Some c \<Rightarrow>
        if c = CHR ''.'' then map_option (\<lambda>octets. V4 (word_of_octets octets)) (parseIPv4Fields s)
        else if c = CHR '':'' then parseIPv6 s else None)"

text \<open>\<open>net.ParseIP(s) != nil\<close>\<close>

definition ParseIP :: "bytes \<Rightarrow> bool" where
  "ParseIP s = (case ParseAddr s of Some (V6 w z) \<Rightarrow> z = [] | Some _ \<Rightarrow> True | None \<Rightarrow> False)"

text \<open>\<open>strings.ToLower\<close>\<close>

definition ToLower :: "(nat \<Rightarrow> nat) \<Rightarrow> bytes \<Rightarrow> bytes" where
  "ToLower lower s =
     concat (map (\<lambda>(r, _). encode_rune (if r < 128 then if 65 \<le> r \<and> r \<le> 90 then r + 32 else r else lower r)) (runes s))"

definition TrimSuffix :: "bytes \<Rightarrow> bytes \<Rightarrow> bytes" where
  "TrimSuffix s suffix = (if length suffix \<le> length s \<and> drop (length s - length suffix) s = suffix then take (length s - length suffix) s else s)"

definition HasSuffix :: "bytes \<Rightarrow> bytes \<Rightarrow> bool" where
  "HasSuffix s suffix \<longleftrightarrow> length suffix \<le> length s \<and> drop (length s - length suffix) s = suffix"

text \<open>\<open>strconv.Atoi\<close>\<close>

definition Atoi :: "bytes \<Rightarrow> int option" where
  "Atoi s =
     (let negative = (s \<noteq> [] \<and> hd s = CHR ''-''); digits = (if s \<noteq> [] \<and> (hd s = CHR ''-'' \<or> hd s = CHR ''+'') then tl s else s)
      in case (if digits = [] then None else atoi digits) of
           None \<Rightarrow> None
         | Some n \<Rightarrow> let v = (if negative then - int n else int n) in if min_int64 \<le> v \<and> v \<le> max_int64 then Some v else None)"

definition split_last :: "char \<Rightarrow> bytes \<Rightarrow> (bytes \<times> bytes) option" where
  "split_last c s =
     (if c \<notin> set s then None
      else let after = rev (takeWhile (\<lambda>d. d \<noteq> c) (rev s)) in Some (take (length s - length after - 1) s, after))"

text \<open>\<open>net.SplitHostPort\<close>; its error also stands for empty results.\<close>

definition SplitHostPort :: "bytes \<Rightarrow> (bytes \<times> bytes) option" where
  "SplitHostPort hostport =
     (case split_last (CHR '':'') hostport of
        None \<Rightarrow> None
      | Some (front, port) \<Rightarrow>
        if hd hostport = CHR ''['' then
          (let host = takeWhile (\<lambda>c. c \<noteq> CHR '']'') (tl hostport)
           in if CHR '']'' \<notin> set hostport \<or> length front \<noteq> length host + 2 \<or> CHR ''['' \<in> set (tl hostport) \<or> CHR '']'' \<in> set (drop (length host + 2) hostport)
              then None else Some (host, port))
        else if CHR '':'' \<in> set front \<or> CHR ''['' \<in> set hostport \<or> CHR '']'' \<in> set hostport then None
        else Some (front, port))"

text \<open>\<open>URL.Hostname\<close> and \<open>URL.Port\<close>\<close>

definition url_split :: "bytes \<Rightarrow> bytes \<times> bytes" where
  "url_split hostPort =
     (let (host, port) = (case split_last (CHR '':'') hostPort of
            Some (front, after) \<Rightarrow> if list_all is_digit after then (front, after) else (hostPort, [])
          | None \<Rightarrow> (hostPort, []))
      in if has_prefix host ''['' \<and> HasSuffix host '']'' then (take (length host - 2) (tl host), port) else (host, port))"

end
