(* ===== verification/Tls_Hello.thy ===== *)
theory Tls_Hello
  imports Net_Addr
begin

text \<open>
  \<open>internal/gateway/tlshello.go\<close>: the gateway reads the first TLS ClientHello of a tunnel to learn the server name. The reader is the
  bytes it will deliver; a read beyond their end is an error.
\<close>

definition maxTLSClientHello :: nat where "maxTLSClientHello = 65536"
definition maxTLSClientHelloRecord :: nat where "maxTLSClientHelloRecord = 16384 + 2048"
definition maxTLSHelloRecords :: nat where "maxTLSHelloRecords = 8"

section \<open>Cursors\<close>

record helloCursor =
  hc_raw :: bytes
  hc_offset :: nat

definition hc_remaining :: "helloCursor \<Rightarrow> nat" where
  "hc_remaining c = length (hc_raw c) - hc_offset c"

definition hc_take :: "nat \<Rightarrow> helloCursor \<Rightarrow> helloCursor \<times> bytes option" where
  "hc_take n c =
     (if n > hc_remaining c then (c, None)
      else (c\<lparr>hc_offset := hc_offset c + n\<rparr>, Some (take n (drop (hc_offset c) (hc_raw c)))))"

definition vector8 :: "helloCursor \<Rightarrow> helloCursor \<times> bytes option" where
  "vector8 c = (case hc_take 1 c of (c, None) \<Rightarrow> (c, None) | (c, Some n) \<Rightarrow> hc_take (byte (hd n)) c)"

definition vector16 :: "helloCursor \<Rightarrow> helloCursor \<times> bytes option" where
  "vector16 c = (case hc_take 2 c of (c, None) \<Rightarrow> (c, None) | (c, Some n) \<Rightarrow> hc_take (be_nat n) c)"

lemma hc_take_progress: "hc_take n c = (c', Some v) \<Longrightarrow> hc_remaining c' = hc_remaining c - n \<and> n \<le> hc_remaining c"
  by (auto simp: hc_take_def hc_remaining_def split: if_splits)

lemma hc_take_none: "hc_take n c = (c', None) \<Longrightarrow> c' = c"
  by (auto simp: hc_take_def split: if_splits)

lemma vector16_progress: "vector16 c = (c', Some v) \<Longrightarrow> hc_remaining c' < hc_remaining c"
  by (auto simp: vector16_def split: prod.splits option.splits dest!: hc_take_progress)

lemma cursor_progress: "(c1, Some v) = hc_take n c \<Longrightarrow> (c2, Some w) = vector16 c1 \<Longrightarrow> hc_remaining c2 < hc_remaining c"
  using vector16_progress [OF sym] hc_take_progress [OF sym] by fastforce

section \<open>Server names\<close>

text \<open>A label of a host name, and \<open>egressHostPattern\<close>.\<close>

definition is_alnum :: "char \<Rightarrow> bool" where "is_alnum c \<longleftrightarrow> is_upper c \<or> is_lower c \<or> is_digit c"

definition host_label :: "bytes \<Rightarrow> bool" where
  "host_label s \<longleftrightarrow> s \<noteq> [] \<and> length s \<le> 63 \<and> is_alnum (hd s) \<and> is_alnum (last s) \<and> list_all (\<lambda>c. is_alnum c \<or> c = CHR ''-'') s"

definition egressHostPattern :: "bytes \<Rightarrow> bool" where
  "egressHostPattern s \<longleftrightarrow> list_all host_label (split_on (CHR ''.'') (trim_prefix s ''*.''))"

function server_names :: "(nat \<Rightarrow> nat) \<Rightarrow> helloCursor \<Rightarrow> bytes \<Rightarrow> bytes result" where
  "server_names lower c serverName =
     (if hc_remaining c = 0 then Ok serverName
      else case hc_take 1 c of
          (c1, None) \<Rightarrow> errorf ''truncated TLS server name''
        | (c1, Some nameType) \<Rightarrow>
          (case vector16 c1 of
             (c2, None) \<Rightarrow> errorf ''invalid TLS server name''
           | (c2, Some name) \<Rightarrow>
             if name = [] then errorf ''invalid TLS server name''
             else if byte (hd nameType) \<noteq> 0 then server_names lower c2 serverName
             else if serverName \<noteq> [] then errorf ''duplicate TLS host name''
             else let n = ToLower lower (TrimSuffix name ''.'')
                  in if has_prefix n ''*.'' \<or> length n > 253 \<or> \<not> egressHostPattern n \<or> ParseIP n then errorf ''invalid TLS host name''
                     else server_names lower c2 n))"
  by pat_completeness auto
termination by (relation "measure (\<lambda>(_, c, _). hc_remaining c)") (auto dest: cursor_progress)

declare server_names.simps [simp del]

definition parseTLSServerNameExtension :: "(nat \<Rightarrow> nat) \<Rightarrow> bytes \<Rightarrow> bytes result" where
  "parseTLSServerNameExtension lower extension =
     (case vector16 \<lparr>hc_raw = extension, hc_offset = 0\<rparr> of
        (c, None) \<Rightarrow> errorf ''invalid TLS server name list''
      | (c, Some names) \<Rightarrow>
        if hc_remaining c \<noteq> 0 \<or> names = [] then errorf ''invalid TLS server name list''
        else server_names lower \<lparr>hc_raw = names, hc_offset = 0\<rparr> [])"

function hello_extensions :: "(nat \<Rightarrow> nat) \<Rightarrow> helloCursor \<Rightarrow> bool \<Rightarrow> bytes \<Rightarrow> bytes result" where
  "hello_extensions lower c serverNameSeen serverName =
     (if hc_remaining c = 0 then Ok serverName
      else case hc_take 2 c of
          (c1, None) \<Rightarrow> errorf ''truncated TLS extension''
        | (c1, Some typeBytes) \<Rightarrow>
          (case vector16 c1 of
             (c2, None) \<Rightarrow> errorf ''truncated TLS extension''
           | (c2, Some value) \<Rightarrow>
             if be_nat typeBytes \<noteq> 0 then hello_extensions lower c2 serverNameSeen serverName
             else if serverNameSeen then errorf ''duplicate TLS server name extension''
             else (case parseTLSServerNameExtension lower value of
                 Inl e \<Rightarrow> Inl e
               | Inr name \<Rightarrow> hello_extensions lower c2 True name)))"
  by pat_completeness auto
termination by (relation "measure (\<lambda>(_, c, _, _). hc_remaining c)") (auto dest: cursor_progress)

declare hello_extensions.simps [simp del]

definition parseTLSClientHelloServerName :: "(nat \<Rightarrow> nat) \<Rightarrow> bytes \<Rightarrow> bytes result" where
  "parseTLSClientHelloServerName lower hello =
     (case hc_take (2 + 32) \<lparr>hc_raw = hello, hc_offset = 0\<rparr> of
        (c, None) \<Rightarrow> errorf ''truncated TLS ClientHello''
      | (c, Some _) \<Rightarrow>
        (case vector8 c of
           (c, None) \<Rightarrow> errorf ''invalid TLS session ID''
         | (c, Some _) \<Rightarrow>
           (case vector16 c of
              (c, None) \<Rightarrow> errorf ''invalid TLS cipher suites''
            | (c, Some ciphers) \<Rightarrow>
              if ciphers = [] \<or> length ciphers mod 2 \<noteq> 0 then errorf ''invalid TLS cipher suites''
              else (case vector8 c of
                  (c, None) \<Rightarrow> errorf ''invalid TLS compression methods''
                | (c, Some compression) \<Rightarrow>
                  if compression = [] then errorf ''invalid TLS compression methods''
                  else if hc_remaining c = 0 then Ok []
                  else (case vector16 c of
                      (c, None) \<Rightarrow> errorf ''invalid TLS extensions''
                    | (c, Some extensions) \<Rightarrow>
                      if hc_remaining c \<noteq> 0 then errorf ''invalid TLS extensions''
                      else hello_extensions lower \<lparr>hc_raw = extensions, hc_offset = 0\<rparr> False [])))))"

section \<open>Records\<close>

text \<open>The loop of \<open>readTLSClientHello\<close>, with the number of records it may still read.\<close>

primrec read_records :: "(nat \<Rightarrow> nat) \<Rightarrow> nat \<Rightarrow> bytes \<Rightarrow> bytes \<Rightarrow> bytes \<Rightarrow> (bytes \<times> bytes) result" where
  "read_records lower 0 reader raw handshake = errorf ''TLS ClientHello is too fragmented''"
| "read_records lower (Suc k) reader raw handshake =
     (let header = take 5 reader; n = be_nat (drop 3 header); payload = take n (drop 5 reader)
      in if length reader < 5 then errorf ''read TLS record header''
         else if byte (header ! 0) \<noteq> 22 \<or> byte (header ! 1) \<noteq> 3 \<or> n < 1 \<or> n > maxTLSClientHelloRecord then errorf ''invalid TLS ClientHello record''
         else if length raw + 5 + n > maxTLSClientHello + maxTLSHelloRecords * 5 then errorf ''TLS ClientHello exceeds limit''
         else if length reader < 5 + n then errorf ''read TLS record''
         else let raw = raw @ header @ payload; handshake = handshake @ payload; reader = drop (5 + n) reader
              in if length handshake < 4 then read_records lower k reader raw handshake
                 else if byte (handshake ! 0) \<noteq> 1 then errorf ''first TLS handshake message is not ClientHello''
                 else let messageLength = be_nat (take 3 (tl handshake))
                      in if messageLength < 1 \<or> messageLength > maxTLSClientHello then errorf ''invalid TLS ClientHello length''
                         else if length handshake < 4 + messageLength then read_records lower k reader raw handshake
                         else and_then (parseTLSClientHelloServerName lower (take messageLength (drop 4 handshake))) (\<lambda>name. Ok (raw, name)))"

declare read_records.simps(2) [simp del]

definition readTLSClientHello :: "(nat \<Rightarrow> nat) \<Rightarrow> bytes \<Rightarrow> (bytes \<times> bytes) result" where
  "readTLSClientHello lower reader = read_records lower maxTLSHelloRecords reader [] []"

end
