(* ===== verification/Egress.thy ===== *)
theory Egress
  imports Tls_Hello Go_Time Guarded_Machines
begin

text \<open>
  \<open>internal/gateway/egress.go\<close> and \<open>address_policy.go\<close>: the egress proxy of a grant. A request arrives, and holds a slot of its route while the
  destination is resolved, the TLS server name is checked and the tunnel is open. Each critical section is an action, so a run is any
  interleaving of requests. The parsed HTTP request, the resolver, the clock, the bytes the agent sends, and whether the audit log, the
  state file and the dialled peer work are arguments. The gateway's state is the part of \<open>Server\<close> that egress reads or writes; the handlers that
  activate and remove a grant (\<open>server.go\<close>) are modelled on that part. Sockets and deadlines are not modelled: what a copy delivers before
  it ends, fails or is cut off is an argument of the end of a connection.
\<close>

section \<open>Address policy\<close>

definition v4p :: "nat list \<Rightarrow> nat \<Rightarrow> prefix" where
  "v4p octets bits = \<lparr>pf_addr = V4 (word_of_octets octets), pf_bits = bits\<rparr>"

text \<open>The leading groups of an IPv6 prefix; the others are zero.\<close>

definition v6p :: "nat list \<Rightarrow> nat \<Rightarrow> prefix" where
  "v6p groups bits = \<lparr>pf_addr = V6 (push_bit (16 * (8 - length groups)) (foldl (\<lambda>a b. a * 65536 + of_nat b) 0 groups)) [], pf_bits = bits\<rparr>"

definition specialPurposePrefixes :: "prefix list" where
  "specialPurposePrefixes =
     [v4p [0, 0, 0, 0] 8, v4p [10, 0, 0, 0] 8, v4p [100, 64, 0, 0] 10, v4p [127, 0, 0, 0] 8, v4p [169, 254, 0, 0] 16, v4p [172, 16, 0, 0] 12,
      v4p [192, 0, 0, 0] 24, v4p [192, 0, 2, 0] 24, v4p [192, 31, 196, 0] 24, v4p [192, 52, 193, 0] 24, v4p [192, 88, 99, 0] 24,
      v4p [192, 168, 0, 0] 16, v4p [192, 175, 48, 0] 24, v4p [198, 18, 0, 0] 15, v4p [198, 51, 100, 0] 24, v4p [203, 0, 113, 0] 24,
      v4p [240, 0, 0, 0] 4,
      v6p [0x64, 0xFF9B] 96, v6p [0x64, 0xFF9B, 1] 48, v6p [0x100] 64, v6p [0x100, 0, 0, 1] 64, v6p [0x2001] 23, v6p [0x2001, 0xDB8] 32,
      v6p [0x2002] 16, v6p [0x2620, 0x4F, 0x8000] 48, v6p [0x3FFF] 20, v6p [0x5F00] 16, v6p [0xFC00] 7, v6p [0xFE80] 10]"

definition currentlyAllocatedIPv6GlobalUnicast :: prefix where
  "currentlyAllocatedIPv6GlobalUnicast = v6p [0x2000] 3"

definition limitedIPv4Broadcast :: addr where "limitedIPv4Broadcast = V4 0xFFFFFFFF"

definition addressAllowed :: "addr \<Rightarrow> prefix list \<Rightarrow> bool" where
  "addressAllowed address prefixes =
     (if \<not> IsValid address then False
      else let mappedIPv4 = Is4In6 address; address = Unmap address
           in if IsUnspecified address \<or> IsMulticast address \<or> address = limitedIPv4Broadcast then False
              else if prefixes \<noteq> [] then list_ex (\<lambda>p. Contains p address) prefixes
              else if mappedIPv4 then False
              else if \<not> IsGlobalUnicast address \<or> Is6 address \<and> \<not> Contains currentlyAllocatedIPv6GlobalUnicast address then False
              else \<not> list_ex (\<lambda>p. Contains p address) specialPurposePrefixes)"

section \<open>Routes and grants\<close>

record loadedEgressDestination =
  ed_Host :: bytes
  ed_Ports :: "int list"
  ed_prefixes :: "prefix list"

record loadedEgressRoute =
  er_MaxConcurrent :: int
  er_MaxRequestBytes :: int
  er_MaxResponseBytes :: int
  er_destinations :: "loadedEgressDestination list"

text \<open>The fields of a grant that egress reads.\<close>

record Grant =
  gr_GrantID :: bytes
  gr_TenantID :: bytes
  gr_InstanceID :: bytes
  gr_EgressRouteIDs :: "bytes list"
  gr_Active :: bool

definition hostMatches :: "bytes \<Rightarrow> bytes \<Rightarrow> bool" where
  "hostMatches pattern host =
     (if \<not> has_prefix pattern ''*.'' then pattern = host
      else let suffix = trim_prefix pattern ''*'' in length host > length suffix \<and> HasSuffix host suffix)"

definition containsPort :: "int list \<Rightarrow> int \<Rightarrow> bool" where
  "containsPort ports port = list_ex (\<lambda>allowed. allowed = port) ports"

definition select_destination :: "loadedEgressRoute \<Rightarrow> bytes \<Rightarrow> int \<Rightarrow> loadedEgressDestination option" where
  "select_destination route host port = find (\<lambda>d. hostMatches (ed_Host d) host \<and> containsPort (ed_Ports d) port) (er_destinations route)"

fun selectEgressRoute ::
  "(bytes \<Rightarrow> loadedEgressRoute option) \<Rightarrow> bytes list \<Rightarrow> bytes \<Rightarrow> int \<Rightarrow> (bytes \<times> loadedEgressRoute \<times> loadedEgressDestination) option" where
  "selectEgressRoute routes [] host port = None"
| "selectEgressRoute routes (i # ids) host port =
     (case routes i of
        None \<Rightarrow> selectEgressRoute routes ids host port
      | Some route \<Rightarrow>
        (case select_destination route host port of
           Some destination \<Rightarrow> Some (i, route, destination)
         | None \<Rightarrow> selectEgressRoute routes ids host port))"

section \<open>Requests\<close>

definition MethodConnect :: bytes where "MethodConnect = ''CONNECT''"

record url =
  u_Scheme :: bytes
  u_User :: bool
  u_Host :: bytes
  u_Fragment :: bytes

record request =
  rq_Method :: bytes
  rq_Host :: bytes
  rq_URL :: "url option"
  rq_ContentLength :: int

definition invalidExplicitPort :: "bytes \<Rightarrow> bytes \<Rightarrow> bool" where
  "invalidExplicitPort rawHost hostname =
     (if CHR '':'' \<notin> set rawHost then False
      else if \<not> ParseIP hostname then True
      else if \<not> has_prefix rawHost ''['' then True
      else (case split_last (CHR '']'') rawHost of None \<Rightarrow> True | Some (front, after) \<Rightarrow> after \<noteq> []))"

definition proxyDestination :: "(nat \<Rightarrow> nat) \<Rightarrow> request \<Rightarrow> (bytes \<times> int) result" where
  "proxyDestination lower request =
     (if rq_Method request = MethodConnect then
        (case SplitHostPort (rq_Host request) of
           None \<Rightarrow> errorf ''CONNECT requires an explicit hostname and port''
         | Some (host, portText) \<Rightarrow>
           (case Atoi portText of
              None \<Rightarrow> errorf ''CONNECT requires an explicit hostname and port''
            | Some port \<Rightarrow>
              if host = [] \<or> port < 1 \<or> port > 65535 then errorf ''CONNECT requires an explicit hostname and port''
              else Ok (ToLower lower (TrimSuffix host ''.''), port)))
      else case rq_URL request of
          None \<Rightarrow> errorf ''proxy request requires an absolute HTTP(S) URL''
        | Some u \<Rightarrow>
          if u_User u \<or> u_Fragment u \<noteq> [] \<or> u_Scheme u \<noteq> ''http'' \<and> u_Scheme u \<noteq> ''https''
          then errorf ''proxy request requires an absolute HTTP(S) URL''
          else let (hostname, urlPort) = url_split (u_Host u);
                   host = ToLower lower (TrimSuffix hostname ''.'');
                   port = (if u_Scheme u = ''https'' then 443 else 80)
               in if urlPort = []
                  then (if invalidExplicitPort (u_Host u) host then errorf ''proxy URL has an invalid port''
                        else if host = [] then errorf ''proxy URL requires a hostname'' else Ok (host, port))
                  else (case Atoi urlPort of
                      None \<Rightarrow> errorf ''proxy URL has an invalid port''
                    | Some parsed \<Rightarrow>
                      if parsed < 1 \<or> parsed > 65535 then errorf ''proxy URL has an invalid port''
                      else if host = [] then errorf ''proxy URL requires a hostname'' else Ok (host, parsed)))"

datatype address_failure = errAddressDenied | errAddressResolutionFailed

definition resolveAllowedIP :: "(bytes \<Rightarrow> addr list option) \<Rightarrow> bytes \<Rightarrow> loadedEgressDestination \<Rightarrow> address_failure + addr" where
  "resolveAllowedIP resolver host destination =
     (case (case ParseAddr host of Some literal \<Rightarrow> Some [literal] | None \<Rightarrow> resolver host) of
        None \<Rightarrow> Inl errAddressResolutionFailed
      | Some addresses \<Rightarrow>
        if addresses = [] then Inl errAddressResolutionFailed
        else (case find (\<lambda>a. addressAllowed a (ed_prefixes destination)) addresses of
            None \<Rightarrow> Inl errAddressDenied
          | Some address \<Rightarrow> Inr (Unmap address)))"

definition classifyAddressFailure :: "address_failure \<Rightarrow> bool \<Rightarrow> nat \<times> bytes" where
  "classifyAddressFailure err revoked =
     (if revoked then (503, ''grant_revoked'') else if err = errAddressDenied then (403, ''address_denied'') else (502, ''resolution_failed''))"

definition tlsServerNameAllowed :: "bytes \<Rightarrow> bytes \<Rightarrow> bool" where
  "tlsServerNameAllowed host serverName = (if ParseIP host then serverName = [] else serverName = host)"

section \<open>The state of egress\<close>

record egressDeniedAttemptWindow =
  wn_started :: time
  wn_count :: int

definition zero_window :: egressDeniedAttemptWindow where "zero_window = \<lparr>wn_started = zero_time, wn_count = 0\<rparr>"

definition maxEgressDeniedAttemptsPerGrantMinute :: int where "maxEgressDeniedAttemptsPerGrantMinute = 30"
definition maxEgressDeniedAttemptsPerTenantMinute :: int where "maxEgressDeniedAttemptsPerTenantMinute = 120"
definition maxEgressDeniedAttemptsHostMinute :: int where "maxEgressDeniedAttemptsHostMinute = 480"

record egressAuditEvent =
  ae_Decision :: bytes
  ae_Reason :: bytes
  ae_GrantID :: bytes
  ae_TenantID :: bytes
  ae_InstanceID :: bytes
  ae_RouteID :: bytes
  ae_Method :: bytes
  ae_Host :: bytes
  ae_Port :: int
  ae_BytesFromAgent :: int
  ae_BytesToAgent :: int

record egressStats =
  st_Allowed :: u64
  st_Denied :: u64
  st_BytesFromAgent :: u64
  st_BytesToAgent :: u64
  st_LastDestination :: bytes
  st_LastDecision :: bytes
  st_LastObservedAt :: bytes

text \<open>
  A request that holds a slot of its route and runs under the lease of its grant; once it was allowed and dialled, the address it is
  connected to and the ClientHello that was forwarded.
\<close>

record flight =
  fl_grant :: Grant
  fl_request :: request
  fl_routeID :: bytes
  fl_route :: loadedEgressRoute
  fl_destination :: loadedEgressDestination
  fl_host :: bytes
  fl_port :: int
  fl_lease :: nat
  fl_dialled :: "(addr \<times> bytes) option"

record Server =
  sv_grants :: "bytes \<Rightarrow> Grant option"
  sv_routes :: "bytes \<Rightarrow> loadedEgressRoute option"
  sv_semaphores :: "bytes \<Rightarrow> nat"                                  \<comment> \<open>slots in use\<close>
  sv_deniedAttempts :: "bytes \<Rightarrow> egressDeniedAttemptWindow option"
  sv_tenantDenials :: "bytes \<Rightarrow> egressDeniedAttemptWindow option"
  sv_hostDenials :: egressDeniedAttemptWindow
  sv_stats :: "bytes \<Rightarrow> egressStats"
  sv_leases :: "bytes \<Rightarrow> nat option"                                 \<comment> \<open>the contexts of the grants, numbered\<close>
  sv_nextLease :: nat
  sv_cancelled :: "nat list"
  sv_audit :: "egressAuditEvent list"                                \<comment> \<open>the records that were appended successfully\<close>
  sv_flights :: "flight list"

record egress_env =
  en_now :: time
  en_audit :: bool                                \<comment> \<open>appending to the audit log succeeds\<close>
  en_lower :: "nat \<Rightarrow> nat"
  en_resolver :: "bytes \<Rightarrow> addr list option"
  en_hijacker :: bool                             \<comment> \<open>the connection can be taken over\<close>
  en_hijack :: bool                               \<comment> \<open>taking it over and answering it succeeds\<close>
  en_hello :: bytes                               \<comment> \<open>what the agent sends first\<close>
  en_request :: bool                              \<comment> \<open>the outgoing request can be built\<close>
  en_dial :: bool                                 \<comment> \<open>the peer answers, and takes the ClientHello\<close>

section \<open>Leases and grants\<close>

definition zero_stats :: egressStats where
  "zero_stats = \<lparr>st_Allowed = 0, st_Denied = 0, st_BytesFromAgent = 0, st_BytesToAgent = 0, st_LastDestination = [], st_LastDecision = [], st_LastObservedAt = []\<rparr>"

definition egressLeaseLocked :: "bytes \<Rightarrow> Server \<Rightarrow> Server \<times> nat" where
  "egressLeaseLocked i s =
     (case sv_leases s i of
        Some lease \<Rightarrow> (s, lease)
      | None \<Rightarrow> (s\<lparr>sv_leases := (sv_leases s)(i \<mapsto> sv_nextLease s), sv_nextLease := sv_nextLease s + 1\<rparr>, sv_nextLease s))"

definition revokeEgressLocked :: "bytes \<Rightarrow> Server \<Rightarrow> Server" where
  "revokeEgressLocked i s =
     (case sv_leases s i of
        None \<Rightarrow> s
      | Some lease \<Rightarrow> s\<lparr>sv_leases := (sv_leases s)(i := None), sv_cancelled := lease # sv_cancelled s\<rparr>)"

text \<open>\<open>persisted\<close> is whether writing the state file succeeds; if it does not, the handlers put the grant back.\<close>

definition setActive :: "bool \<Rightarrow> bytes \<Rightarrow> bool \<Rightarrow> Server \<Rightarrow> Server" where
  "setActive persisted i active s =
     (case sv_grants s i of
        None \<Rightarrow> s
      | Some grant \<Rightarrow>
        if \<not> persisted then s
        else let s = s\<lparr>sv_grants := (sv_grants s)(i \<mapsto> grant\<lparr>gr_Active := active\<rparr>)\<rparr>
             in if active \<and> gr_EgressRouteIDs grant \<noteq> [] then fst (egressLeaseLocked i s) else revokeEgressLocked i s)"

definition unregister :: "bool \<Rightarrow> bytes \<Rightarrow> Server \<Rightarrow> Server" where
  "unregister persisted i s =
     (case sv_grants s i of
        None \<Rightarrow> s
      | Some grant \<Rightarrow>
        if \<not> persisted then s
        else let s = revokeEgressLocked i (s\<lparr>sv_grants := (sv_grants s)(i := None)\<rparr>)
             in s\<lparr>sv_stats := (sv_stats s)(i := zero_stats), sv_deniedAttempts := (sv_deniedAttempts s)(i := None)\<rparr>)"

section \<open>Denials\<close>

definition availableEgressDenialWindow ::
  "egressDeniedAttemptWindow \<Rightarrow> time \<Rightarrow> int \<Rightarrow> egressDeniedAttemptWindow \<times> bool" where
  "availableEgressDenialWindow window now limit =
     (if wn_started window \<noteq> zero_time \<and> now < wn_started window then (window, False)
      else let window = (if wn_started window = zero_time \<or> time_sub now (wn_started window) \<ge> minute
                         then \<lparr>wn_started = now, wn_count = 0\<rparr> else window)
           in (window, wn_count window < limit))"

definition window_of :: "(bytes \<Rightarrow> egressDeniedAttemptWindow option) \<Rightarrow> bytes \<Rightarrow> egressDeniedAttemptWindow" where
  "window_of m k = (case m k of None \<Rightarrow> zero_window | Some w \<Rightarrow> w)"

definition pruneExpiredEgressTenantDenialsLocked ::
  "time \<Rightarrow> (bytes \<Rightarrow> egressDeniedAttemptWindow option) \<Rightarrow> bytes \<Rightarrow> egressDeniedAttemptWindow option" where
  "pruneExpiredEgressTenantDenialsLocked now m =
     (\<lambda>k. case m k of
        None \<Rightarrow> None
      | Some w \<Rightarrow> if wn_started w \<noteq> zero_time \<and> \<not> now < wn_started w \<and> time_sub now (wn_started w) \<ge> minute then None else Some w)"

datatype egressDenialDecision = egressDenialAllowed | egressDenialRateLimited | egressDenialGrantMissing

definition counted :: "egressDeniedAttemptWindow \<Rightarrow> egressDeniedAttemptWindow" where
  "counted w = w\<lparr>wn_count := wn_count w + 1\<rparr>"

definition reserveEgressDeniedAttemptLocked :: "bytes \<Rightarrow> time \<Rightarrow> Server \<Rightarrow> Server \<times> egressDenialDecision" where
  "reserveEgressDeniedAttemptLocked grantID now s =
     (case sv_grants s grantID of
        None \<Rightarrow> (s, egressDenialGrantMissing)
      | Some grant \<Rightarrow>
        (let s = s\<lparr>sv_tenantDenials := pruneExpiredEgressTenantDenialsLocked now (sv_tenantDenials s)\<rparr>;
             (grantWindow, grantAllowed) =
               availableEgressDenialWindow (window_of (sv_deniedAttempts s) grantID) now maxEgressDeniedAttemptsPerGrantMinute;
             (tenantWindow, tenantAllowed) =
               availableEgressDenialWindow (window_of (sv_tenantDenials s) (gr_TenantID grant)) now maxEgressDeniedAttemptsPerTenantMinute;
             (hostWindow, hostAllowed) = availableEgressDenialWindow (sv_hostDenials s) now maxEgressDeniedAttemptsHostMinute
         in if \<not> grantAllowed \<or> \<not> tenantAllowed \<or> \<not> hostAllowed then (s, egressDenialRateLimited)
            else (s\<lparr>sv_deniedAttempts := (sv_deniedAttempts s)(grantID \<mapsto> counted grantWindow),
                    sv_tenantDenials := (sv_tenantDenials s)(gr_TenantID grant \<mapsto> counted tenantWindow),
                    sv_hostDenials := counted hostWindow\<rparr>, egressDenialAllowed)))"

text \<open>\<open>net.JoinHostPort\<close>\<close>

definition JoinHostPort :: "bytes \<Rightarrow> int \<Rightarrow> bytes" where
  "JoinHostPort host port =
     (let p = (if port < 0 then ''-'' @ itoa (nat (- port)) else itoa (nat port))
      in if CHR '':'' \<in> set host then ''['' @ host @ '']:'' @ p else host @ '':'' @ p)"

definition updateEgressStats :: "time \<Rightarrow> bytes \<Rightarrow> egressAuditEvent \<Rightarrow> Server \<Rightarrow> Server" where
  "updateEgressStats now i event s =
     (let st = sv_stats s i;
          st = (if ae_Decision event = ''allow'' then st\<lparr>st_Allowed := st_Allowed st + 1\<rparr> else st);
          st = (if ae_Decision event = ''deny'' then st\<lparr>st_Denied := st_Denied st + 1\<rparr> else st);
          st = (if ae_BytesFromAgent event > 0 then st\<lparr>st_BytesFromAgent := st_BytesFromAgent st + of_int (ae_BytesFromAgent event)\<rparr> else st);
          st = (if ae_BytesToAgent event > 0 then st\<lparr>st_BytesToAgent := st_BytesToAgent st + of_int (ae_BytesToAgent event)\<rparr> else st);
          st = (if ae_Host event \<noteq> [] then st\<lparr>st_LastDestination := JoinHostPort (ae_Host event) (ae_Port event)\<rparr> else st);
          st = st\<lparr>st_LastDecision := ae_Decision event @ '':'' @ ae_Reason event, st_LastObservedAt := format_nano now\<rparr>
      in s\<lparr>sv_stats := (sv_stats s)(i := st)\<rparr>)"

definition audit_Append :: "bool \<Rightarrow> egressAuditEvent \<Rightarrow> Server \<Rightarrow> Server" where
  "audit_Append ok event s = (if ok then s\<lparr>sv_audit := sv_audit s @ [event]\<rparr> else s)"

definition denyEgress :: "egress_env \<Rightarrow> Grant \<Rightarrow> bytes \<Rightarrow> bytes \<Rightarrow> bytes \<Rightarrow> int \<Rightarrow> Server \<Rightarrow> Server \<times> egressDenialDecision" where
  "denyEgress en grant reason method host port s =
     (case reserveEgressDeniedAttemptLocked (gr_GrantID grant) (en_now en) s of
        (s, egressDenialAllowed) \<Rightarrow>
          (let event = \<lparr>ae_Decision = ''deny'', ae_Reason = reason, ae_GrantID = gr_GrantID grant, ae_TenantID = gr_TenantID grant,
                 ae_InstanceID = gr_InstanceID grant, ae_RouteID = [], ae_Method = method, ae_Host = host, ae_Port = port,
                 ae_BytesFromAgent = 0, ae_BytesToAgent = 0\<rparr>
           in (updateEgressStats (en_now en) (gr_GrantID grant) event (audit_Append (en_audit en) event s), egressDenialAllowed))
      | (s, decision) \<Rightarrow> (s, decision))"

text \<open>What the agent sees: an HTTP error, a closed connection, an open tunnel or exchange, or the end of one.\<close>

datatype outcome = HttpError nat bytes | Closed | Connected addr | Holding | Finished | Aborted

definition rejectEgress :: "egress_env \<Rightarrow> Grant \<Rightarrow> bytes \<Rightarrow> bytes \<Rightarrow> bytes \<Rightarrow> int \<Rightarrow> nat \<Rightarrow> Server \<Rightarrow> Server \<times> outcome" where
  "rejectEgress en grant reason method host port status s =
     (case denyEgress en grant reason method host port s of
        (s, egressDenialRateLimited) \<Rightarrow>
          if reason \<noteq> ''grant_inactive'' \<and> reason \<noteq> ''grant_revoked'' then (s, HttpError 429 ''egress_rate_limited'')
          else (s, HttpError status reason)
      | (s, _) \<Rightarrow> (s, HttpError status reason))"

definition recordEgressAllow :: "egress_env \<Rightarrow> flight \<Rightarrow> Server \<Rightarrow> Server \<times> bool" where
  "recordEgressAllow en f s =
     (let grant = fl_grant f;
          event = \<lparr>ae_Decision = ''allow'', ae_Reason = ''route_allowed'', ae_GrantID = gr_GrantID grant, ae_TenantID = gr_TenantID grant,
            ae_InstanceID = gr_InstanceID grant, ae_RouteID = fl_routeID f, ae_Method = rq_Method (fl_request f), ae_Host = fl_host f, ae_Port = fl_port f,
            ae_BytesFromAgent = 0, ae_BytesToAgent = 0\<rparr>
      in if en_audit en then (updateEgressStats (en_now en) (gr_GrantID grant) event (audit_Append True event s), True) else (s, False))"

definition finishEgress :: "egress_env \<Rightarrow> flight \<Rightarrow> bytes \<Rightarrow> int \<Rightarrow> int \<Rightarrow> Server \<Rightarrow> Server" where
  "finishEgress en f reason fromAgent toAgent s =
     (let grant = fl_grant f;
          event = \<lparr>ae_Decision = ''terminal'', ae_Reason = reason, ae_GrantID = gr_GrantID grant, ae_TenantID = gr_TenantID grant,
            ae_InstanceID = gr_InstanceID grant, ae_RouteID = fl_routeID f, ae_Method = rq_Method (fl_request f), ae_Host = fl_host f, ae_Port = fl_port f,
            ae_BytesFromAgent = fromAgent, ae_BytesToAgent = toAgent\<rparr>
      in updateEgressStats (en_now en) (gr_GrantID grant) event (audit_Append (en_audit en) event s))"

section \<open>The handler\<close>

text \<open>\<open>egressHandler\<close> up to the slot of the route; \<open>Holding\<close> when it goes on.\<close>

definition egress_arrive :: "egress_env \<Rightarrow> bytes \<Rightarrow> request \<Rightarrow> Server \<Rightarrow> Server \<times> outcome" where
  "egress_arrive en i r s =
     (case sv_grants s i of
        None \<Rightarrow> (s, HttpError 503 ''grant_inactive'')
      | Some grant \<Rightarrow>
        if gr_EgressRouteIDs grant = [] then (s, HttpError 503 ''grant_inactive'')
        else if \<not> gr_Active grant then rejectEgress en grant ''grant_inactive'' (rq_Method r) [] 0 503 s
        else (case proxyDestination (en_lower en) r of
            Inl err \<Rightarrow> rejectEgress en grant ''invalid_destination'' (rq_Method r) [] 0 400 s
          | Inr (host, port) \<Rightarrow>
            (case selectEgressRoute (sv_routes s) (gr_EgressRouteIDs grant) host port of
               None \<Rightarrow> rejectEgress en grant ''route_denied'' (rq_Method r) host port 403 s
             | Some (routeID, route, destination) \<Rightarrow>
               (case egressLeaseLocked i s of (s, lease) \<Rightarrow>
                  if int (sv_semaphores s routeID) < er_MaxConcurrent route
                  then (s\<lparr>sv_semaphores := (sv_semaphores s)(routeID := sv_semaphores s routeID + 1),
                          sv_flights := sv_flights s @ [\<lparr>fl_grant = grant, fl_request = r, fl_routeID = routeID, fl_route = route, fl_destination = destination,
                            fl_host = host, fl_port = port, fl_lease = lease, fl_dialled = None\<rparr>]\<rparr>, Holding)
                  else rejectEgress en grant ''route_busy'' (rq_Method r) host port 429 s))))"

text \<open>The deferred release of the slot.\<close>

definition release :: "nat \<Rightarrow> flight \<Rightarrow> Server \<Rightarrow> Server" where
  "release k f s =
     s\<lparr>sv_semaphores := (sv_semaphores s)(fl_routeID f := sv_semaphores s (fl_routeID f) - 1),
       sv_flights := take k (sv_flights s) @ drop (k + 1) (sv_flights s)\<rparr>"

definition dialled :: "nat \<Rightarrow> flight \<Rightarrow> addr \<Rightarrow> bytes \<Rightarrow> Server \<Rightarrow> Server" where
  "dialled k f ip forwarded s = s\<lparr>sv_flights := (sv_flights s)[k := f\<lparr>fl_dialled := Some (ip, forwarded)\<rparr>]\<rparr>"

text \<open>Dialling fails under a context that was cancelled, which that of a request is once the lease of its grant ends.\<close>

definition revoked :: "flight \<Rightarrow> Server \<Rightarrow> bool" where
  "revoked f s \<longleftrightarrow> fl_lease f \<in> set (sv_cancelled s)"

definition dials :: "egress_env \<Rightarrow> flight \<Rightarrow> Server \<Rightarrow> bool" where
  "dials en f s \<longleftrightarrow> en_dial en \<and> \<not> revoked f s"

definition proxyConnect :: "egress_env \<Rightarrow> nat \<Rightarrow> flight \<Rightarrow> addr \<Rightarrow> Server \<Rightarrow> Server \<times> outcome" where
  "proxyConnect en k f ip s =
     (let method = rq_Method (fl_request f); host = fl_host f; port = fl_port f
      in if \<not> en_hijacker en then (release k f s, HttpError 500 ''tunnel_unavailable'')
         else if \<not> en_hijack en then (release k f s, Closed)
         else case readTLSClientHello (en_lower en) (en_hello en) of
             Inl err \<Rightarrow> (release k f (fst (denyEgress en (fl_grant f) ''tls_server_name_denied'' method host port s)), Closed)
           | Inr (clientHello, serverName) \<Rightarrow>
             if \<not> tlsServerNameAllowed host serverName
             then (release k f (fst (denyEgress en (fl_grant f) ''tls_server_name_denied'' method host port s)), Closed)
             else if int (length clientHello) > er_MaxRequestBytes (fl_route f)
             then (release k f (fst (denyEgress en (fl_grant f) ''byte_limit'' method host port s)), Closed)
             else (case recordEgressAllow en f s of
                 (s, False) \<Rightarrow>
                   (release k f (updateEgressStats (en_now en) (gr_GrantID (fl_grant f))
                      \<lparr>ae_Decision = ''deny'', ae_Reason = ''audit_unavailable'', ae_GrantID = [], ae_TenantID = [], ae_InstanceID = [], ae_RouteID = [],
                       ae_Method = [], ae_Host = host, ae_Port = port, ae_BytesFromAgent = 0, ae_BytesToAgent = 0\<rparr> s), Closed)
               | (s, True) \<Rightarrow>
                   if \<not> dials en f s then (release k f (finishEgress en f ''upstream_unavailable'' (int (length clientHello)) 0 s), Closed)
                   else (dialled k f ip clientHello s, Connected ip)))"

definition proxyHTTP :: "egress_env \<Rightarrow> nat \<Rightarrow> flight \<Rightarrow> addr \<Rightarrow> Server \<Rightarrow> Server \<times> outcome" where
  "proxyHTTP en k f ip s =
     (if rq_ContentLength (fl_request f) > er_MaxRequestBytes (fl_route f)
      then (release k f (finishEgress en f ''request_too_large'' 0 0 s), HttpError 413 ''request_too_large'')
      else if \<not> en_request en then (release k f s, HttpError 400 ''invalid_request'')
      else if \<not> dials en f s
      then (release k f (finishEgress en f ''upstream_unavailable'' (rq_ContentLength (fl_request f)) 0 s), HttpError 502 ''upstream_unavailable'')
      else (dialled k f ip [] s, Connected ip))"

text \<open>The rest of \<open>egressHandler\<close> for the \<open>k\<close>-th request that holds a slot, up to the open connection.\<close>

definition egress_proceed :: "egress_env \<Rightarrow> nat \<Rightarrow> Server \<Rightarrow> Server \<times> outcome" where
  "egress_proceed en k s =
     (if k \<ge> length (sv_flights s) \<or> fl_dialled (sv_flights s ! k) \<noteq> None then (s, Closed)
      else let f = sv_flights s ! k; grant = fl_grant f; method = rq_Method (fl_request f)
           in case resolveAllowedIP (en_resolver en) (fl_host f) (fl_destination f) of
                Inl err \<Rightarrow>
                  (case classifyAddressFailure err (revoked f s) of (status, code) \<Rightarrow>
                     (case rejectEgress en grant code method (fl_host f) (fl_port f) status s of (s, out) \<Rightarrow> (release k f s, out)))
              | Inr ip \<Rightarrow>
                if method = MethodConnect then proxyConnect en k f ip s
                else (case recordEgressAllow en f s of
                    (s, False) \<Rightarrow> (release k f s, HttpError 503 ''audit_unavailable'')
                  | (s, True) \<Rightarrow> proxyHTTP en k f ip s))"

definition min64 :: "int \<Rightarrow> int \<Rightarrow> int" where "min64 left right = (if left < right then left else right)"
definition max64 :: "int \<Rightarrow> int \<Rightarrow> int" where "max64 left right = (if left > right then left else right)"

text \<open>
  A copy whose source delivers \<open>cp_available\<close> bytes before it ends (or, with \<open>cp_err\<close>, before reading or writing fails), and what reading one
  more byte then gives. \<open>io.LimitReader\<close> ends the source after \<open>maximum\<close> bytes.
\<close>

datatype probe = ProbeByte | ProbeEnd | ProbeError

record copy =
  cp_available :: nat
  cp_err :: bool
  cp_probe :: probe

definition io_Copy :: "copy \<Rightarrow> int \<Rightarrow> int" where
  "io_Copy c maximum = max64 0 (min64 (int (cp_available c)) maximum)"

definition copyBounded :: "copy \<Rightarrow> int \<Rightarrow> int" where
  "copyBounded c maximum =
     (let written = io_Copy c maximum
      in if cp_err c \<or> written < maximum then written
         else case cp_probe c of ProbeByte \<Rightarrow> written + 1 | _ \<Rightarrow> written)"

definition connect_end :: "egress_env \<Rightarrow> nat \<Rightarrow> copy \<Rightarrow> copy \<Rightarrow> Server \<Rightarrow> Server" where
  "connect_end en k agent upstream s =
     (if k \<ge> length (sv_flights s) then s
      else let f = sv_flights s ! k; route = fl_route f
           in case fl_dialled f of
                None \<Rightarrow> s
              | Some (ip, clientHello) \<Rightarrow>
                if rq_Method (fl_request f) \<noteq> MethodConnect then s
                else let fromAgent = int (length clientHello) + copyBounded agent (er_MaxRequestBytes route - int (length clientHello));
                         toAgent = copyBounded upstream (er_MaxResponseBytes route);
                         reason = (if fromAgent > er_MaxRequestBytes route \<or> toAgent > er_MaxResponseBytes route then ''byte_limit'' else ''completed'')
                     in release k f (finishEgress en f reason (min64 fromAgent (er_MaxRequestBytes route)) (min64 toAgent (er_MaxResponseBytes route)) s))"

text \<open>The number of bytes written, the reason and whether the response is aborted.\<close>

definition copyHTTPResponseBody :: "copy \<Rightarrow> int \<Rightarrow> bool \<Rightarrow> int \<times> bytes \<times> bool" where
  "copyHTTPResponseBody body maximum unknownLength =
     (let written = io_Copy body maximum
      in if cp_err body then (written, ''stream_failed'', True)
         else if unknownLength \<and> written = maximum
         then (case cp_probe body of
             ProbeByte \<Rightarrow> (written, ''response_too_large'', True)
           | ProbeError \<Rightarrow> (written, ''stream_failed'', True)
           | ProbeEnd \<Rightarrow> (written, ''completed'', False))
         else (written, ''completed'', False))"

definition http_end :: "egress_env \<Rightarrow> nat \<Rightarrow> int \<Rightarrow> copy \<Rightarrow> Server \<Rightarrow> Server \<times> outcome" where
  "http_end en k contentLength body s =
     (if k \<ge> length (sv_flights s) then (s, Closed)
      else let f = sv_flights s ! k; route = fl_route f
           in if fl_dialled f = None \<or> rq_Method (fl_request f) = MethodConnect then (s, Closed)
              else if contentLength > er_MaxResponseBytes route
              then (release k f (finishEgress en f ''response_too_large'' (rq_ContentLength (fl_request f)) 0 s), HttpError 502 ''response_too_large'')
              else (case copyHTTPResponseBody body (er_MaxResponseBytes route) (contentLength < 0) of (written, reason, abort) \<Rightarrow>
                (release k f (finishEgress en f reason (max64 (rq_ContentLength (fl_request f)) 0) (min64 written (er_MaxResponseBytes route)) s),
                 if abort then Aborted else Finished)))"

end
