(* ===== verification/Tls_Hello_Promises.thy ===== *)
theory Tls_Hello_Promises
  imports Tls_Hello "HOL-Library.Sublist"
begin

text \<open>
  What the inspection of a ClientHello promises: the name does not depend on how the message is cut into records; the bytes that are
  forwarded are a bounded prefix of what the agent sent, from which the same name is read again; and the parser finds the server name
  extension of every message that is encoded as the TLS specification says.
\<close>

section \<open>Cursors at a position\<close>

definition cursor_at :: "bytes \<Rightarrow> bytes \<Rightarrow> helloCursor" where
  "cursor_at done rest = \<lparr>hc_raw = done @ rest, hc_offset = length done\<rparr>"

definition vec8 :: "bytes \<Rightarrow> bytes" where "vec8 v = be_bytes 1 (length v) @ v"
definition vec16 :: "bytes \<Rightarrow> bytes" where "vec16 v = be_bytes 2 (length v) @ v"

lemma cursor_start: "\<lparr>hc_raw = r, hc_offset = 0\<rparr> = cursor_at [] r"
  by (simp add: cursor_at_def)

lemma remaining_at [simp]: "hc_remaining (cursor_at d rest) = length rest"
  by (simp add: hc_remaining_def cursor_at_def)

lemma take_at: "length v = n \<Longrightarrow> hc_take n (cursor_at d (v @ rest)) = (cursor_at (d @ v) rest, Some v)"
  by (auto simp: hc_take_def hc_remaining_def cursor_at_def)

lemma vector8_at: "length v < 256 \<Longrightarrow> vector8 (cursor_at d (vec8 v @ rest)) = (cursor_at (d @ vec8 v) rest, Some v)"
  using take_at [of "be_bytes 1 (length v)" 1 d "v @ rest"] take_at [of v "length v" "d @ be_bytes 1 (length v)" rest]
  by (simp add: vector8_def vec8_def)

lemma vector16_at: "length v < 65536 \<Longrightarrow> vector16 (cursor_at d (vec16 v @ rest)) = (cursor_at (d @ vec16 v) rest, Some v)"
  using take_at [of "be_bytes 2 (length v)" 2 d "v @ rest"] take_at [of v "length v" "d @ be_bytes 2 (length v)" rest] be_nat_be_bytes [of "length v" 2]
  by (simp add: vector16_def vec16_def)

section \<open>Encoded messages\<close>

type_synonym extension = "nat \<times> bytes"

record client_hello =
  ch_version_random :: bytes
  ch_session :: bytes
  ch_ciphers :: bytes
  ch_compression :: bytes
  ch_extensions :: "extension list"

definition ext_ok :: "extension \<Rightarrow> bool" where
  "ext_ok e \<longleftrightarrow> fst e < 65536 \<and> length (snd e) < 65536"

definition encode_extension :: "extension \<Rightarrow> bytes" where
  "encode_extension e = be_bytes 2 (fst e) @ vec16 (snd e)"

definition encode_extensions :: "extension list \<Rightarrow> bytes" where
  "encode_extensions es = concat (map encode_extension es)"

definition encode_hello :: "client_hello \<Rightarrow> bytes" where
  "encode_hello h = ch_version_random h @ vec8 (ch_session h) @ vec16 (ch_ciphers h) @ vec8 (ch_compression h) @
     vec16 (encode_extensions (ch_extensions h))"

definition hello_wf :: "client_hello \<Rightarrow> bool" where
  "hello_wf h \<longleftrightarrow> length (ch_version_random h) = 34 \<and> length (ch_session h) < 256 \<and> ch_ciphers h \<noteq> [] \<and> even (length (ch_ciphers h)) \<and>
     length (ch_ciphers h) < 65536 \<and> ch_compression h \<noteq> [] \<and> length (ch_compression h) < 256 \<and>
     list_all ext_ok (ch_extensions h) \<and> length (encode_extensions (ch_extensions h)) < 65536"

text \<open>What the loop over the extensions computes: the reading of the one extension of type 0, if there is one.\<close>

definition name_extension :: "(nat \<Rightarrow> nat) \<Rightarrow> extension list \<Rightarrow> bytes result" where
  "name_extension lower es =
     (case filter (\<lambda>e. fst e = 0) es of
        [] \<Rightarrow> Ok []
      | e # others \<Rightarrow> and_then (parseTLSServerNameExtension lower (snd e))
          (\<lambda>name. if others = [] then Ok name else errorf ''duplicate TLS server name extension''))"

lemma extension_step:
  assumes "ext_ok e"
  shows "hello_extensions lower (cursor_at d (encode_extension e @ rest)) seen name =
     (if fst e \<noteq> 0 then hello_extensions lower (cursor_at (d @ encode_extension e) rest) seen name
      else if seen then errorf ''duplicate TLS server name extension''
      else and_then (parseTLSServerNameExtension lower (snd e)) (\<lambda>n. hello_extensions lower (cursor_at (d @ encode_extension e) rest) True n))"
proof -
  let ?c = "cursor_at d (encode_extension e @ rest)"
  have e: "encode_extension e = be_bytes 2 (fst e) @ vec16 (snd e)" by (simp add: encode_extension_def)
  have 1: "hc_take 2 ?c = (cursor_at (d @ be_bytes 2 (fst e)) (vec16 (snd e) @ rest), Some (be_bytes 2 (fst e)))"
    using take_at [of "be_bytes 2 (fst e)" 2 d "vec16 (snd e) @ rest"] by (simp add: e)
  have 2: "vector16 (cursor_at (d @ be_bytes 2 (fst e)) (vec16 (snd e) @ rest)) = (cursor_at (d @ encode_extension e) rest, Some (snd e))"
    using vector16_at [of "snd e" "d @ be_bytes 2 (fst e)" rest] assms by (simp add: ext_ok_def e)
  have 3: "be_nat (be_bytes 2 (fst e)) = fst e" using be_nat_be_bytes [of "fst e" 2] assms by (simp add: ext_ok_def)
  have 4: "hc_remaining ?c \<noteq> 0" by (simp add: e)
  show ?thesis
    by (subst hello_extensions.simps) (simp only: 1 2 3 4 prod.case option.case if_False, cases "parseTLSServerNameExtension lower (snd e)", simp_all)
qed

lemma extensions_after:
  assumes "list_all ext_ok es"
  shows "hello_extensions lower (cursor_at d (encode_extensions es)) True name =
     (if filter (\<lambda>e. fst e = 0) es = [] then Ok name else errorf ''duplicate TLS server name extension'')"
  using assms
proof (induction es arbitrary: d)
  case Nil
  then show ?case by (subst hello_extensions.simps) (simp add: encode_extensions_def)
next
  case (Cons e es)
  then show ?case using extension_step [of e lower d "encode_extensions es"] by (simp add: encode_extensions_def)
qed

lemma extensions_read:
  assumes "list_all ext_ok es"
  shows "hello_extensions lower (cursor_at d (encode_extensions es)) False [] = name_extension lower es"
  using assms
proof (induction es arbitrary: d)
  case Nil
  then show ?case by (subst hello_extensions.simps) (simp add: encode_extensions_def name_extension_def)
next
  case (Cons e es)
  have "encode_extensions (e # es) = encode_extension e @ encode_extensions es" by (simp add: encode_extensions_def)
  then show ?case using Cons extension_step [of e lower d "encode_extensions es"] extensions_after [of es lower]
    by (cases "parseTLSServerNameExtension lower (snd e)") (auto simp: name_extension_def)
qed

lemma parse_encoded:
  assumes "hello_wf h"
  shows "parseTLSClientHelloServerName lower (encode_hello h) = name_extension lower (ch_extensions h)"
proof -
  let ?a = "ch_version_random h" and ?b = "vec8 (ch_session h)" and ?c = "vec16 (ch_ciphers h)" and ?d = "vec8 (ch_compression h)"
    and ?x = "encode_extensions (ch_extensions h)"
  have 1: "hc_take (2 + 32) (cursor_at [] (encode_hello h)) = (cursor_at ?a (?b @ ?c @ ?d @ vec16 ?x), Some ?a)"
    using take_at [of ?a 34 "[]" "?b @ ?c @ ?d @ vec16 ?x"] assms by (simp add: encode_hello_def hello_wf_def)
  have 2: "vector8 (cursor_at ?a (?b @ ?c @ ?d @ vec16 ?x)) = (cursor_at (?a @ ?b) (?c @ ?d @ vec16 ?x), Some (ch_session h))"
    using vector8_at assms by (simp add: hello_wf_def)
  have 3: "vector16 (cursor_at (?a @ ?b) (?c @ ?d @ vec16 ?x)) = (cursor_at ((?a @ ?b) @ ?c) (?d @ vec16 ?x), Some (ch_ciphers h))"
    using vector16_at assms unfolding hello_wf_def by blast
  have 4: "vector8 (cursor_at ((?a @ ?b) @ ?c) (?d @ vec16 ?x)) = (cursor_at (((?a @ ?b) @ ?c) @ ?d) (vec16 ?x), Some (ch_compression h))"
    using vector8_at assms unfolding hello_wf_def by blast
  have 5: "vector16 (cursor_at (((?a @ ?b) @ ?c) @ ?d) (vec16 ?x)) = (cursor_at ((((?a @ ?b) @ ?c) @ ?d) @ vec16 ?x) [], Some ?x)"
    using vector16_at [of ?x "((?a @ ?b) @ ?c) @ ?d" "[]"] assms unfolding hello_wf_def by simp
  have n: "hc_remaining (cursor_at (((?a @ ?b) @ ?c) @ ?d) (vec16 ?x)) \<noteq> 0" by (simp add: vec16_def)
  have wf: "ch_ciphers h \<noteq> []" "length (ch_ciphers h) mod 2 = 0" "ch_compression h \<noteq> []" "list_all ext_ok (ch_extensions h)"
    using assms by (auto simp: hello_wf_def)
  show ?thesis
    unfolding parseTLSClientHelloServerName_def cursor_start 1 prod.case option.case 2 3 4 5 using wf n extensions_read [OF wf(4)] by simp
qed

section \<open>Records\<close>

definition record_of :: "nat \<times> bytes \<Rightarrow> bytes" where
  "record_of r = [chr 22, chr 3, chr (fst r)] @ vec16 (snd r)"

definition records_of :: "(nat \<times> bytes) list \<Rightarrow> bytes" where
  "records_of rs = concat (map record_of rs)"

definition handshake_of :: "bytes \<Rightarrow> bytes" where
  "handshake_of hello = chr 1 # be_bytes 3 (length hello) @ hello"

definition record_ok :: "nat \<times> bytes \<Rightarrow> bool" where
  "record_ok r \<longleftrightarrow> snd r \<noteq> [] \<and> length (snd r) \<le> maxTLSClientHelloRecord"

lemma length_record: "length (record_of r) = 5 + length (snd r)"
  by (simp add: record_of_def vec16_def)

text \<open>One turn of the loop on a whole record that fits.\<close>

lemma record_step:
  assumes "record_ok r" "length raw + length (record_of r) \<le> maxTLSClientHello + maxTLSHelloRecords * 5" "h = hs @ snd r" "raw' = raw @ record_of r"
  shows "read_records lower (Suc k) (record_of r @ rest) raw hs =
    (if length h < 4 then read_records lower k rest raw' h
     else if byte (h ! 0) \<noteq> 1 then errorf ''first TLS handshake message is not ClientHello''
     else if be_nat (take 3 (tl h)) < 1 \<or> be_nat (take 3 (tl h)) > maxTLSClientHello then errorf ''invalid TLS ClientHello length''
     else if length h < 4 + be_nat (take 3 (tl h)) then read_records lower k rest raw' h
     else and_then (parseTLSClientHelloServerName lower (take (be_nat (take 3 (tl h))) (drop 4 h))) (\<lambda>name. Ok (raw', name)))"
proof -
  let ?p = "snd r" and ?reader = "record_of r @ rest"
  obtain a b where ab: "be_bytes 2 (length ?p) = [a, b]" using length_be_bytes [of 2 "length ?p"] by (metis length_0_conv length_Suc_conv numeral_2_eq_2)
  have reader: "?reader = [chr 22, chr 3, chr (fst r), a, b] @ ?p @ rest" by (simp add: record_of_def vec16_def ab)
  have small: "length ?p < 65536" using assms(1) by (simp add: record_ok_def maxTLSClientHelloRecord_def)
  have n: "be_nat (drop 3 (take 5 ?reader)) = length ?p" using be_nat_be_bytes [of "length ?p" 2] small by (simp add: reader ab)
  have ok: "1 \<le> length ?p" "length ?p \<le> maxTLSClientHelloRecord" using assms(1) by (auto simp: record_ok_def Suc_le_eq)
  have parts: "take 5 ?reader = [chr 22, chr 3, chr (fst r), a, b]" "take (length ?p) (drop 5 ?reader) = ?p" "drop (5 + length ?p) ?reader = rest"
    "take 5 ?reader @ ?p = record_of r"
    using drop_drop [of "length ?p" 5 ?reader] by (simp_all add: reader record_of_def vec16_def ab add.commute)
  have fits: "\<not> length raw + 5 + length ?p > maxTLSClientHello + maxTLSHelloRecords * 5" using assms(2) by (simp add: length_record)
  have "length ?reader = 5 + length ?p + length rest" by (simp add: length_record)
  then have lens: "\<not> length ?reader < 5" "\<not> length ?reader < 5 + length ?p" by simp_all
  have hdr: "\<not> (byte (take 5 ?reader ! 0) \<noteq> 22 \<or> byte (take 5 ?reader ! 1) \<noteq> 3 \<or> length ?p < 1 \<or> length ?p > maxTLSClientHelloRecord)"
    using ok unfolding parts(1) by auto
  show ?thesis
    unfolding read_records.simps(2) Let_def n if_not_P [OF lens(1)] if_not_P [OF hdr] if_not_P [OF fits] if_not_P [OF lens(2)] parts(2,3) assms(3,4)
    using parts(4) by simp
qed

lemma handshake_header:
  assumes "length hello < 256 ^ 3" "prefix h (handshake_of hello)" "4 \<le> length h"
  shows "h ! 0 = chr 1" "be_nat (take 3 (tl h)) = length hello"
proof -
  obtain rest where m: "handshake_of hello = h @ rest" using assms(2) by (auto simp: prefix_def)
  have "take 4 h = take 4 (handshake_of hello)" using assms(3) by (simp add: m)
  also have "\<dots> = chr 1 # be_bytes 3 (length hello)" by (simp add: handshake_of_def)
  finally have t: "take 4 h = chr 1 # be_bytes 3 (length hello)" .
  have "h ! 0 = take 4 h ! 0" using assms(3) by simp
  then show "h ! 0 = chr 1" by (simp add: t)
  have "take 3 (tl h) = tl (take 4 h)" by (cases h) simp_all
  then show "be_nat (take 3 (tl h)) = length hello" using assms(1) by (simp add: t be_nat_be_bytes)
qed

lemma read_fragments:
  assumes "list_all record_ok rs" "rs \<noteq> []" "length rs \<le> k" "hs @ concat (map snd rs) = handshake_of hello" "hello \<noteq> []" "length hello \<le> maxTLSClientHello"
    "length raw + length (records_of rs) \<le> maxTLSClientHello + maxTLSHelloRecords * 5"
  shows "read_records lower k (records_of rs @ rest) raw hs =
    and_then (parseTLSClientHelloServerName lower hello) (\<lambda>name. Ok (raw @ records_of rs, name))"
  using assms
proof (induction rs arbitrary: k hs raw)
  case (Cons r rs)
  obtain k' where k: "k = Suc k'" using Cons.prems(3) by (cases k) simp_all
  let ?h = "hs @ snd r" and ?raw = "raw @ record_of r"
  have recs: "records_of (r # rs) @ rest = record_of r @ records_of rs @ rest" "records_of (r # rs) = record_of r @ records_of rs" by (simp_all add: records_of_def)
  have fits: "length raw + length (record_of r) \<le> maxTLSClientHello + maxTLSHelloRecords * 5" using Cons.prems(7) by (simp add: recs)
  have pre: "?h @ concat (map snd rs) = handshake_of hello" using Cons.prems(4) by simp
  then have px: "prefix ?h (handshake_of hello)" by (metis prefixI)
  have big: "length hello < 256 ^ 3" using Cons.prems(6) by (simp add: maxTLSClientHello_def)
  note hdr = handshake_header [OF big px]
  have ok: "record_ok r" "list_all record_ok rs" using Cons.prems(1) by simp_all
  have len: "length (handshake_of hello) = 4 + length hello" by (simp add: handshake_of_def)
  note step = record_step [OF ok(1) fits refl refl, of lower k' "records_of rs @ rest" hs]
  have bounds: "\<not> (length hello < 1 \<or> length hello > maxTLSClientHello)" using Cons.prems(5,6) by (simp add: Suc_le_eq)
  show ?case
  proof (cases "rs = []")
    case True
    then have h: "?h = handshake_of hello" using pre by simp
    have "4 \<le> length ?h" using h len by simp
    note hdr = hdr [OF this]
    have "take (length hello) (drop 4 (handshake_of hello)) = hello" by (simp add: handshake_of_def)
    then show ?thesis using step hdr bounds len unfolding k recs h by (simp add: True records_of_def)
  next
    case False
    then obtain r' rs' where rs: "rs = r' # rs'" by (cases rs) auto
    have "snd r' \<noteq> []" using ok(2) rs by (simp add: record_ok_def)
    then have "length ?h < 4 + length hello" using arg_cong [OF pre, of length] len rs by (cases "snd r'") auto
    moreover have "4 \<le> length ?h \<Longrightarrow> byte (?h ! 0) = 1 \<and> be_nat (take 3 (tl ?h)) = length hello" using hdr by simp
    ultimately have "read_records lower k (records_of (r # rs) @ rest) raw hs = read_records lower k' (records_of rs @ rest) ?raw ?h"
      using step bounds unfolding k recs by (cases "length ?h < 4") simp_all
    moreover have "length ?raw + length (records_of rs) \<le> maxTLSClientHello + maxTLSHelloRecords * 5" using Cons.prems(7) by (simp add: recs)
    ultimately show ?thesis using Cons.IH [OF ok(2) False _ pre Cons.prems(5,6), of k' ?raw] Cons.prems(3) k by (simp add: recs)
  qed
qed simp

section \<open>What is forwarded\<close>

lemma read_is_record:
  assumes "read_records lower (Suc k) reader raw hs = Ok x"
  obtains r rest where "reader = record_of r @ rest" "record_ok r" "length raw + length (record_of r) \<le> maxTLSClientHello + maxTLSHelloRecords * 5"
proof -
  let ?n = "be_nat (drop 3 (take 5 reader))" and ?r = "(byte (reader ! 2), take (be_nat (drop 3 (take 5 reader))) (drop 5 reader))"
  have ok: "5 \<le> length reader" "byte (take 5 reader ! 0) = 22" "byte (take 5 reader ! 1) = 3" "1 \<le> ?n" "?n \<le> maxTLSClientHelloRecord"
    "length raw + 5 + ?n \<le> maxTLSClientHello + maxTLSHelloRecords * 5" "5 + ?n \<le> length reader"
    using assms unfolding read_records.simps(2) Let_def by (auto simp: errorf_def split: if_splits)
  have "take 5 reader = [reader ! 0, reader ! 1, reader ! 2] @ drop 3 (take 5 reader)"
    using ok(1) by (cases reader; cases "tl reader"; cases "tl (tl reader)") (auto simp: eval_nat_numeral split: list.splits)
  moreover have "reader ! 0 = chr 22" "reader ! 1 = chr 3" using ok(1-3) by (metis chr_byte less_le_trans nth_take zero_less_numeral one_less_numeral_iff semiring_norm(77))+
  moreover have "length (snd ?r) = ?n" using ok(7) by simp
  moreover have "be_bytes 2 ?n = drop 3 (take 5 reader)" using ok(1) by (simp add: be_bytes_be_nat)
  ultimately have "record_of ?r = take 5 reader @ snd ?r" by (simp add: record_of_def vec16_def)
  then have "reader = record_of ?r @ drop (5 + ?n) reader" using append_take_drop_id [of 5 reader] append_take_drop_id [of ?n "drop 5 reader"] by (simp add: add.commute)
  moreover have "record_ok ?r" using ok(4,5,7) by (auto simp: record_ok_def)
  ultimately show ?thesis using that [of ?r] ok(6,7) by (simp add: length_record)
qed

lemma read_prefix:
  assumes "read_records lower k reader raw hs = Ok (raw', name)"
  shows "\<exists>pre rest. reader = pre @ rest \<and> raw' = raw @ pre \<and> length raw' \<le> maxTLSClientHello + maxTLSHelloRecords * 5 \<and>
    (\<forall>other. read_records lower k (pre @ other) raw hs = Ok (raw', name))"
  using assms
proof (induction k arbitrary: reader raw hs)
  case (Suc k)
  obtain r rest where r: "reader = record_of r @ rest" "record_ok r" "length raw + length (record_of r) \<le> maxTLSClientHello + maxTLSHelloRecords * 5"
    using read_is_record [OF Suc.prems] .
  let ?h = "hs @ snd r"
  note step = record_step [OF r(2,3) refl refl, of lower k _ hs]
  show ?case
  proof (cases "length ?h < 4 \<or> length ?h < 4 + be_nat (take 3 (tl ?h))")
    case True
    have next_step: "read_records lower (Suc k) (record_of r @ other) raw hs = read_records lower k other (raw @ record_of r) ?h" for other
      using Suc.prems step [of rest] step [of other] True unfolding r(1) by (auto simp: errorf_def split: if_splits)
    then obtain pre rest' where p: "rest = pre @ rest'" "raw' = (raw @ record_of r) @ pre" "length raw' \<le> maxTLSClientHello + maxTLSHelloRecords * 5"
      "\<forall>other. read_records lower k (pre @ other) (raw @ record_of r) ?h = Ok (raw', name)"
      using Suc.IH [of rest "raw @ record_of r" ?h] Suc.prems r(1) by auto
    then show ?thesis using next_step r(1) by (intro exI [of _ "record_of r @ pre"] exI [of _ rest']) simp
  next
    case False
    then have c: "\<not> length ?h < 4" "\<not> length ?h < 4 + be_nat (take 3 (tl ?h))" by simp_all
    have same: "read_records lower (Suc k) (record_of r @ other) raw hs = Ok (raw', name)" for other
      using Suc.prems unfolding r(1) step if_not_P [OF c(1)] if_not_P [OF c(2)] .
    have "raw' = raw @ record_of r"
      using same [of rest] unfolding step if_not_P [OF c(1)] if_not_P [OF c(2)] by (simp add: errorf_def result_simps split: if_splits)
    then show ?thesis using same r by (intro exI [of _ "record_of r"] exI [of _ rest]) simp
  qed
qed (simp add: errorf_def)

definition host_name :: "bytes \<Rightarrow> bool" where
  "host_name n \<longleftrightarrow> egressHostPattern n \<and> \<not> has_prefix n ''*.'' \<and> length n \<le> 253 \<and> \<not> ParseIP n"

text \<open>The loops keep a property of the name that every accepted name has.\<close>

lemma server_names_ok: "server_names lower c name = Ok n \<Longrightarrow> name = [] \<or> host_name name \<Longrightarrow> n = [] \<or> host_name n"
proof (induction "hc_remaining c" arbitrary: c name rule: less_induct)
  case less
  have ih: "n = [] \<or> host_name n" if "hc_take m c = (c1, Some v)" "vector16 c1 = (c2, Some w)" "server_names lower c2 name2 = Ok n" "name2 = [] \<or> host_name name2"
    for m c1 v c2 w name2 using less(1) [of c2 name2] cursor_progress [OF that(1,2) [symmetric]] that(3,4) by blast
  have ok: "host_name m" if "\<not> (has_prefix m ''*.'' \<or> length m > 253 \<or> \<not> egressHostPattern m \<or> ParseIP m)" for m using that by (simp add: host_name_def)
  from less.prems show ?case
    by (subst (asm) server_names.simps) (auto simp: Let_def errorf_def ok split: if_splits prod.splits option.splits dest: ih)
qed

lemma extension_ok: "parseTLSServerNameExtension lower v = Ok m \<Longrightarrow> m = [] \<or> host_name m"
  using server_names_ok [of lower _ "[]" m] by (auto simp: parseTLSServerNameExtension_def errorf_def split: prod.splits option.splits if_splits)

lemma hello_extensions_ok: "hello_extensions lower c seen name = Ok n \<Longrightarrow> name = [] \<or> host_name name \<Longrightarrow> n = [] \<or> host_name n"
proof (induction "hc_remaining c" arbitrary: c seen name rule: less_induct)
  case less
  have ih: "n = [] \<or> host_name n" if "hc_take m c = (c1, Some v)" "vector16 c1 = (c2, Some w)" "hello_extensions lower c2 seen2 name2 = Ok n" "name2 = [] \<or> host_name name2"
    for m c1 v c2 w seen2 name2 using less(1) [of c2 seen2 name2] cursor_progress [OF that(1,2) [symmetric]] that(3,4) by blast
  from less.prems show ?case
    by (subst (asm) hello_extensions.simps) (auto simp: errorf_def split: if_splits prod.splits option.splits sum.splits dest: ih extension_ok)
qed

lemma parse_ok: "parseTLSClientHelloServerName lower hello = Ok n \<Longrightarrow> n = [] \<or> host_name n"
  using hello_extensions_ok [of lower _ False "[]" n]
  by (auto simp: parseTLSClientHelloServerName_def errorf_def split: prod.splits option.splits if_splits)

lemma read_name_ok: "read_records lower k reader raw hs = Ok (raw', n) \<Longrightarrow> n = [] \<or> host_name n"
proof (induction k arbitrary: reader raw hs)
  case (Suc k)
  then show ?case unfolding read_records.simps(2) Let_def by (auto simp: errorf_def result_simps split: if_splits dest: parse_ok)
qed (simp add: errorf_def)

section \<open>Server name lists\<close>

text \<open>
  The value of a server name extension as the TLS specification says (RFC 6066): a length-prefixed, non-empty list of entries, each
  a type byte and a length-prefixed, non-empty name. Type 0 is a host name.
\<close>

type_synonym server_name = "nat \<times> bytes"

definition encode_name :: "server_name \<Rightarrow> bytes" where
  "encode_name n = chr (fst n) # vec16 (snd n)"

definition name_ok :: "server_name \<Rightarrow> bool" where
  "name_ok n \<longleftrightarrow> fst n < 256 \<and> snd n \<noteq> [] \<and> length (snd n) < 65536"

definition encode_names :: "server_name list \<Rightarrow> bytes" where
  "encode_names ns = vec16 (concat (map encode_name ns))"

definition names_wf :: "server_name list \<Rightarrow> bool" where
  "names_wf ns \<longleftrightarrow> ns \<noteq> [] \<and> list_all name_ok ns \<and> length (concat (map encode_name ns)) < 65536"

definition host_entries :: "server_name list \<Rightarrow> bytes list" where
  "host_entries ns = map snd (filter (\<lambda>n. fst n = 0) ns)"

definition canonical_host :: "(nat \<Rightarrow> nat) \<Rightarrow> bytes \<Rightarrow> bytes" where
  "canonical_host lower v = ToLower lower (TrimSuffix v ''.'')"

text \<open>The name that a list of entries gives: none without a host entry, that of the only host entry, in lower case and without a final
  dot, if it is a host name.\<close>

definition list_gives :: "(nat \<Rightarrow> nat) \<Rightarrow> server_name list \<Rightarrow> bytes \<Rightarrow> bool" where
  "list_gives lower ns name \<longleftrightarrow>
     (case host_entries ns of
        [] \<Rightarrow> name = []
      | [v] \<Rightarrow> name = canonical_host lower v \<and> host_name name
      | _ \<Rightarrow> False)"

lemma host_name_nonempty: "host_name n \<Longrightarrow> n \<noteq> []"
  by (auto simp: host_name_def egressHostPattern_def trim_prefix_def host_label_def)

lemma taken_at: "hc_take n (cursor_at d r) = (c', Some v) \<Longrightarrow> \<exists>more. r = v @ more \<and> length v = n \<and> c' = cursor_at (d @ v) more"
  by (auto simp: hc_take_def hc_remaining_def cursor_at_def split: if_splits) (metis append_take_drop_id)

lemma vector16_taken:
  assumes "vector16 (cursor_at d r) = (c', Some v)"
  obtains more where "r = vec16 v @ more" "length v < 65536" "c' = cursor_at (d @ vec16 v) more"
proof -
  obtain c1 l where 1: "hc_take 2 (cursor_at d r) = (c1, Some l)" "hc_take (be_nat l) c1 = (c', Some v)"
    using assms by (auto simp: vector16_def split: prod.splits option.splits)
  obtain m where m: "r = l @ m" "length l = 2" "c1 = cursor_at (d @ l) m" using taken_at [OF 1(1)] by blast
  obtain more where v: "m = v @ more" "length v = be_nat l" "c' = cursor_at ((d @ l) @ v) more" using taken_at [OF 1(2) [unfolded m(3)]] by blast
  have "vec16 v = l @ v" using be_bytes_be_nat [OF m(2)] v(2) by (simp add: vec16_def)
  moreover have "length v < 65536" using be_nat_less [of l] m(2) v(2) by simp
  ultimately show ?thesis using that m(1) v(1,3) by simp
qed

lemma server_names_end: "server_names lower (cursor_at d []) name = Ok name"
  by (subst server_names.simps) simp

lemma server_names_step:
  assumes "name_ok n"
  shows "server_names lower (cursor_at d (encode_name n @ rest)) acc =
     (if fst n \<noteq> 0 then server_names lower (cursor_at (d @ encode_name n) rest) acc
      else if acc \<noteq> [] then errorf ''duplicate TLS host name''
      else if \<not> host_name (canonical_host lower (snd n)) then errorf ''invalid TLS host name''
      else server_names lower (cursor_at (d @ encode_name n) rest) (canonical_host lower (snd n)))"
proof -
  let ?c = "cursor_at d (encode_name n @ rest)"
  have 1: "hc_take 1 ?c = (cursor_at (d @ [chr (fst n)]) (vec16 (snd n) @ rest), Some [chr (fst n)])"
    using take_at [of "[chr (fst n)]" 1 d "vec16 (snd n) @ rest"] by (simp add: encode_name_def)
  have 2: "vector16 (cursor_at (d @ [chr (fst n)]) (vec16 (snd n) @ rest)) = (cursor_at (d @ encode_name n) rest, Some (snd n))"
    using vector16_at [of "snd n" "d @ [chr (fst n)]" rest] assms by (simp add: name_ok_def encode_name_def)
  have 3: "hc_remaining ?c \<noteq> 0" "byte (chr (fst n)) = fst n" "snd n \<noteq> []" using assms by (simp_all add: encode_name_def name_ok_def)
  show ?thesis
    by (subst server_names.simps) (simp only: 1 2 3 prod.case option.case if_False list.sel, simp add: 3 Let_def host_name_def canonical_host_def)
qed

lemma server_names_encoded:
  assumes "list_all name_ok ns"
  shows "server_names lower (cursor_at d (concat (map encode_name ns))) acc = Ok name \<longleftrightarrow>
     (if acc = [] then list_gives lower ns name else host_entries ns = [] \<and> name = acc)"
  using assms
proof (induction ns arbitrary: d acc)
  case Nil
  then show ?case by (auto simp: server_names_end list_gives_def host_entries_def)
next
  case (Cons n ns)
  then have s: "server_names lower (cursor_at d (concat (map encode_name (n # ns)))) acc =
     (if fst n \<noteq> 0 then server_names lower (cursor_at (d @ encode_name n) (concat (map encode_name ns))) acc
      else if acc \<noteq> [] then errorf ''duplicate TLS host name''
      else if \<not> host_name (canonical_host lower (snd n)) then errorf ''invalid TLS host name''
      else server_names lower (cursor_at (d @ encode_name n) (concat (map encode_name ns))) (canonical_host lower (snd n)))"
    using server_names_step [of n lower d "concat (map encode_name ns)" acc] by simp
  show ?case
  proof (cases "fst n = 0")
    case True
    then have h: "host_entries (n # ns) = snd n # host_entries ns" by (simp add: host_entries_def)
    show ?thesis
      unfolding s using Cons host_name_nonempty [of "canonical_host lower (snd n)"] True
      by (auto simp: list_gives_def h errorf_def split: list.splits)
  next
    case False
    then have "host_entries (n # ns) = host_entries ns" by (simp add: host_entries_def)
    then show ?thesis unfolding s using Cons False by (simp add: list_gives_def)
  qed
qed

lemma server_names_decode:
  "server_names lower (cursor_at d r) acc = Ok name \<Longrightarrow> \<exists>ns. r = concat (map encode_name ns) \<and> list_all name_ok ns"
proof (induction "length r" arbitrary: d r acc rule: less_induct)
  case less
  show ?case
  proof (cases "r = []")
    case True
    then show ?thesis by (intro exI [of _ "[]"]) simp
  next
    case False
    then have ne: "hc_remaining (cursor_at d r) \<noteq> 0" by simp
    from less.prems ne obtain c1 t c2 v acc' where c: "hc_take 1 (cursor_at d r) = (c1, Some t)" "vector16 c1 = (c2, Some v)" "v \<noteq> []"
      "server_names lower c2 acc' = Ok name"
      by (subst (asm) server_names.simps) (auto simp: Let_def errorf_def split: if_splits prod.splits option.splits)
    obtain m where m: "r = t @ m" "length t = 1" "c1 = cursor_at (d @ t) m" using taken_at [OF c(1)] by blast
    obtain more where v: "m = vec16 v @ more" "length v < 65536" "c2 = cursor_at ((d @ t) @ vec16 v) more"
      using vector16_taken [OF c(2) [unfolded m(3)]] by blast
    obtain x where x: "t = [x]" using m(2) by (cases t) auto
    have e: "r = encode_name (byte x, v) @ more" "name_ok (byte x, v)" using m(1) v(1,2) x c(3) byte_less [of x] by (simp_all add: encode_name_def name_ok_def)
    have "length more < length r" by (simp add: e(1) encode_name_def)
    then obtain ns where "more = concat (map encode_name ns)" "list_all name_ok ns" using less.hyps c(4) v(3) by blast
    then show ?thesis using e by (intro exI [of _ "(byte x, v) # ns"]) simp
  qed
qed

lemma extension_gives:
  "parseTLSServerNameExtension lower value = Ok name \<longleftrightarrow> (\<exists>ns. names_wf ns \<and> value = encode_names ns \<and> list_gives lower ns name)"
  (is "?L = ?R")
proof
  assume ?L
  then obtain c names where c: "vector16 (cursor_at [] value) = (c, Some names)" "hc_remaining c = 0" "names \<noteq> []"
    "server_names lower (cursor_at [] names) [] = Ok name"
    unfolding parseTLSServerNameExtension_def cursor_start by (auto simp: errorf_def split: prod.splits option.splits if_splits)
  obtain ns where ns: "names = concat (map encode_name ns)" "list_all name_ok ns" using server_names_decode [OF c(4)] by blast
  obtain more where more: "value = vec16 names @ more" "length names < 65536" "c = cursor_at ([] @ vec16 names) more"
    by (rule vector16_taken [OF c(1)])
  then have "value = vec16 names" using c(2) by simp
  moreover have "list_gives lower ns name" using server_names_encoded [OF ns(2), of lower "[]" "[]" name] c(4) ns(1) by simp
  ultimately show ?R using ns c(3) more(2) by (intro exI [of _ ns]) (auto simp: names_wf_def encode_names_def)
next
  assume ?R
  then obtain ns where ns: "names_wf ns" "value = encode_names ns" "list_gives lower ns name" by blast
  let ?names = "concat (map encode_name ns)"
  have v: "vector16 (cursor_at [] value) = (cursor_at (vec16 ?names) [], Some ?names)"
    using vector16_at [of ?names "[]" "[]"] ns(1,2) by (simp add: names_wf_def encode_names_def)
  have "?names \<noteq> []" using ns(1) by (cases ns) (simp_all add: names_wf_def encode_name_def)
  moreover have "server_names lower (cursor_at [] ?names) [] = Ok name"
    using server_names_encoded [of ns lower "[]" "[]" name] ns by (simp add: names_wf_def)
  ultimately show ?L unfolding parseTLSServerNameExtension_def cursor_start v by simp
qed

text \<open>The specification: no name without a server name extension; with one, the name that its list gives.\<close>

definition requested_name :: "(nat \<Rightarrow> nat) \<Rightarrow> extension list \<Rightarrow> bytes \<Rightarrow> bool" where
  "requested_name lower es name \<longleftrightarrow>
     (case filter (\<lambda>e. fst e = 0) es of
        [] \<Rightarrow> name = []
      | [e] \<Rightarrow> \<exists>ns. names_wf ns \<and> snd e = encode_names ns \<and> list_gives lower ns name
      | _ \<Rightarrow> False)"

lemma name_extension_requested: "name_extension lower es = Ok name \<longleftrightarrow> requested_name lower es name"
proof (cases "filter (\<lambda>e. fst e = 0) es")
  case (Cons e others)
  then show ?thesis
    using extension_gives [of lower "snd e"]
    by (cases "parseTLSServerNameExtension lower (snd e)") (auto simp: name_extension_def requested_name_def errorf_def split: list.splits)
qed (auto simp: name_extension_def requested_name_def)

section \<open>Promises\<close>

definition fragments :: "(nat \<times> bytes) list \<Rightarrow> bytes \<Rightarrow> bool" where
  "fragments rs hello \<longleftrightarrow> list_all record_ok rs \<and> length rs \<le> maxTLSHelloRecords \<and> concat (map snd rs) = handshake_of hello \<and>
     length hello \<le> maxTLSClientHello \<and> length (records_of rs) \<le> maxTLSClientHello + maxTLSHelloRecords * 5"

lemma read_encoded:
  assumes "hello_wf h" "fragments rs (encode_hello h)"
  shows "readTLSClientHello lower (records_of rs @ rest) = and_then (name_extension lower (ch_extensions h)) (\<lambda>name. Ok (records_of rs, name))"
proof -
  have "rs \<noteq> []" using assms(2) by (auto simp: fragments_def handshake_of_def)
  moreover have "encode_hello h \<noteq> []" using assms(1) by (auto simp: encode_hello_def hello_wf_def)
  ultimately show ?thesis
    using read_fragments [of rs maxTLSHelloRecords "[]" "encode_hello h" "[]" lower rest] assms parse_encoded [OF assms(1)]
    by (simp add: readTLSClientHello_def fragments_def)
qed

definition sample_hello :: client_hello where
  "sample_hello = \<lparr>ch_version_random = replicate 34 (chr 0), ch_session = [], ch_ciphers = ''ab'', ch_compression = [chr 0],
     ch_extensions = [(10, ''x''), (0, encode_names [(0, ''a.io'')])]\<rparr>"

definition sample_records :: "(nat \<times> bytes) list" where
  "sample_records = [(1, take 3 (handshake_of (encode_hello sample_hello))), (3, drop 3 (handshake_of (encode_hello sample_hello)))]"

lemma sample_wf: "hello_wf sample_hello" "length (encode_hello sample_hello) = 61"
  by (simp_all add: hello_wf_def encode_hello_def sample_hello_def ext_ok_def encode_extensions_def encode_extension_def vec16_def vec8_def encode_names_def encode_name_def)

lemma sample_fragments: "fragments sample_records (encode_hello sample_hello)"
  using sample_wf(2)
  by (auto simp: fragments_def sample_records_def record_ok_def handshake_of_def records_of_def length_record maxTLSClientHello_def maxTLSClientHelloRecord_def maxTLSHelloRecords_def)

lemma sample_name: "requested_name (\<lambda>r. r) (ch_extensions sample_hello) ''a.io''"
proof -
  have h: "host_name ''a.io''" "canonical_host (\<lambda>r. r) ''a.io'' = ''a.io''" by code_simp+
  have "names_wf [(0, ''a.io'')]" by (simp add: names_wf_def name_ok_def encode_name_def vec16_def)
  moreover have "list_gives (\<lambda>r. r) [(0, ''a.io'')] ''a.io''" using h by (simp add: list_gives_def host_entries_def)
  ultimately show ?thesis by (auto simp: requested_name_def sample_hello_def)
qed

lemma sample_read: "readTLSClientHello (\<lambda>r. r) (records_of sample_records @ rest) = Ok (records_of sample_records, ''a.io'')"
  using read_encoded [OF sample_wf(1) sample_fragments] sample_name [folded name_extension_requested] by simp

text \<open>C29: for every ClientHello with an extensions block that is encoded as the TLS specification says and cut, in any way, into at most eight records within the
  limits, reading succeeds exactly if the message has no server name extension, or a single one whose value is an encoded list of names
  with no host entry, or with a single one that is a host name; the result is that name (none, or the host entry in lower case without a
  final dot), together with exactly the records of the message, whatever bytes follow. In all other cases (two extensions, two host
  entries, a value that is no list, an invalid host name) reading fails.\<close>

theorem sni_exact:
  assumes "hello_wf h" "fragments rs (encode_hello h)"
  shows "readTLSClientHello lower (records_of rs @ rest) = Ok (raw, name) \<longleftrightarrow>
    raw = records_of rs \<and> requested_name lower (ch_extensions h) name"
  using read_encoded [OF assms, of lower rest] name_extension_requested [of lower "ch_extensions h" name]
  by (cases "name_extension lower (ch_extensions h)") auto

theorem sni_exact_witness:
  "readTLSClientHello (\<lambda>r. r) (records_of sample_records @ ''GET'') = Ok (records_of sample_records, ''a.io'')"
  using sni_exact [OF sample_wf(1) sample_fragments] sample_name by simp

text \<open>whatever the agent sends, the bytes that are accepted for forwarding are a prefix of it within the size limit, the same name is read again
  from them whatever follows, and the name is empty or a host name: labels of letters, digits and hyphens, no wildcard, at most 253 bytes, not
  an IP address.\<close>

theorem sni_sound:
  assumes "readTLSClientHello lower reader = Ok (raw, name)"
  shows "prefix raw reader \<and> length raw \<le> 65576 \<and> readTLSClientHello lower (raw @ other) = Ok (raw, name) \<and> (name = [] \<or> host_name name)"
proof -
  obtain rest where "reader = raw @ rest" "length raw \<le> maxTLSClientHello + maxTLSHelloRecords * 5"
    "read_records lower maxTLSHelloRecords (raw @ other) [] [] = Ok (raw, name)"
    using read_prefix [OF assms [unfolded readTLSClientHello_def]] by auto
  then show ?thesis using read_name_ok [OF assms [unfolded readTLSClientHello_def]]
    by (simp add: readTLSClientHello_def maxTLSClientHello_def maxTLSHelloRecords_def)
qed

theorem sni_sound_witness: "readTLSClientHello (\<lambda>r. r) (records_of sample_records @ ''more'') = Ok (records_of sample_records, ''a.io'') \<and> host_name ''a.io''"
  using sni_sound [OF sample_read [of "[]"], of "''more''"] by simp

end
