(* ===== verification/Egress_Promises.thy ===== *)
theory Egress_Promises
  imports Egress Tls_Hello_Promises
begin

text \<open>
  The promises of the egress proxy, for every interleaving of requests: a connection is opened only to an address, host, port and TLS server
  name that an active grant and its routes allow, after the decision was recorded; no route carries more requests than it may; denied attempts
  are rate limited; and the address policy is the table of special purpose ranges.
\<close>

section \<open>Actions\<close>

text \<open>\<open>ERegister\<close> is a registration that the gateway accepts: it puts an inactive grant in the place of none or of an inactive one.\<close>

datatype eg_action =
    ERegister Grant
  | ESetActive bool bytes bool
  | EUnregister bool bytes
  | EArrive egress_env bytes request
  | EProceed egress_env nat
  | EConnectEnd egress_env nat copy copy
  | EHttpEnd egress_env nat int copy

fun eg_exec :: "eg_action \<Rightarrow> Server \<Rightarrow> Server \<times> outcome" where
  "eg_exec (ERegister g) s = (s\<lparr>sv_grants := (sv_grants s)(gr_GrantID g \<mapsto> g)\<rparr>, Holding)"
| "eg_exec (ESetActive persisted i active) s = (setActive persisted i active s, Holding)"
| "eg_exec (EUnregister persisted i) s = (unregister persisted i s, Holding)"
| "eg_exec (EArrive en i r) s = egress_arrive en i r s"
| "eg_exec (EProceed en k) s = egress_proceed en k s"
| "eg_exec (EConnectEnd en k a b) s = (connect_end en k a b s, Closed)"
| "eg_exec (EHttpEnd en k cl body) s = http_end en k cl body s"

fun eg_guard :: "Server \<Rightarrow> eg_action \<Rightarrow> bool" where
  "eg_guard s (ERegister g) \<longleftrightarrow> \<not> gr_Active g \<and> (case sv_grants s (gr_GrantID g) of None \<Rightarrow> True | Some current \<Rightarrow> \<not> gr_Active current)"
| "eg_guard s _ = True"

section \<open>What leaves the flights alone\<close>

definition keeps :: "Server \<Rightarrow> Server \<Rightarrow> bool" where
  "keeps s s' \<longleftrightarrow> sv_routes s' = sv_routes s \<and> sv_semaphores s' = sv_semaphores s \<and> sv_flights s' = sv_flights s \<and> set (sv_audit s) \<subseteq> set (sv_audit s') \<and>
     sv_grants s' = sv_grants s \<and> sv_leases s' = sv_leases s \<and> sv_nextLease s' = sv_nextLease s \<and> sv_cancelled s' = sv_cancelled s"

lemma keeps_refl [simp]: "keeps s s"
  by (simp add: keeps_def)

lemma keeps_stats [simp]: "keeps s (updateEgressStats now i event s') = keeps s s'"
  by (simp add: updateEgressStats_def keeps_def Let_def)

lemma keeps_audit: "keeps s (audit_Append ok event s)"
  by (auto simp: audit_Append_def keeps_def)

lemma keeps_finish: "keeps s (finishEgress en f reason a b s)"
  by (simp add: finishEgress_def Let_def keeps_audit)

lemma keeps_reserve: "reserveEgressDeniedAttemptLocked i now s = (s', d) \<Longrightarrow> keeps s s'"
  by (auto simp: reserveEgressDeniedAttemptLocked_def Let_def keeps_def split: option.splits prod.splits if_splits)

lemma keeps_trans: "keeps s s' \<Longrightarrow> keeps s' s'' \<Longrightarrow> keeps s s''"
  by (auto simp: keeps_def)

lemma keeps_deny: "keeps s (fst (denyEgress en g reason verb host port s))"
proof -
  obtain s' d where r: "reserveEgressDeniedAttemptLocked (gr_GrantID g) (en_now en) s = (s', d)" by fastforce
  note k = keeps_reserve [OF r]
  show ?thesis using r k keeps_trans [OF k keeps_audit] by (cases d) (simp_all add: denyEgress_def Let_def)
qed

lemma keeps_reject: "keeps s (fst (rejectEgress en g reason verb host port status s))"
  using keeps_deny [of s en g reason verb host port]
  by (auto simp: rejectEgress_def split: prod.splits egressDenialDecision.splits)

definition allow_event :: "flight \<Rightarrow> egressAuditEvent" where
  "allow_event f = \<lparr>ae_Decision = ''allow'', ae_Reason = ''route_allowed'', ae_GrantID = gr_GrantID (fl_grant f), ae_TenantID = gr_TenantID (fl_grant f),
     ae_InstanceID = gr_InstanceID (fl_grant f), ae_RouteID = fl_routeID f, ae_Method = rq_Method (fl_request f), ae_Host = fl_host f, ae_Port = fl_port f,
     ae_BytesFromAgent = 0, ae_BytesToAgent = 0\<rparr>"

lemma allow_cases:
  assumes "recordEgressAllow en f s = (s', ok)"
  shows "keeps s s'" "ok \<Longrightarrow> allow_event f \<in> set (sv_audit s')"
proof -
  have "sv_audit (updateEgressStats now i event s'') = sv_audit s''" for now i event s'' by (simp add: updateEgressStats_def Let_def)
  then show "ok \<Longrightarrow> allow_event f \<in> set (sv_audit s')"
    using assms by (auto simp: recordEgressAllow_def allow_event_def audit_Append_def Let_def split: if_splits)
  show "keeps s s'" using assms keeps_audit [of s True] by (auto simp: recordEgressAllow_def Let_def split: if_splits)
qed

section \<open>The invariant\<close>

definition admitted :: "Server \<Rightarrow> flight \<Rightarrow> bool" where
  "admitted s f \<longleftrightarrow> gr_Active (fl_grant f) \<and> fl_routeID f \<in> set (gr_EgressRouteIDs (fl_grant f)) \<and> sv_routes s (fl_routeID f) = Some (fl_route f) \<and>
     fl_destination f \<in> set (er_destinations (fl_route f)) \<and> hostMatches (ed_Host (fl_destination f)) (fl_host f) \<and> fl_port f \<in> set (ed_Ports (fl_destination f))"

text \<open>
  The address is allowed, and is the literal one if the host is an address; the ClientHello that was forwarded asks for the host, or for
  no name if the host is an address.
\<close>

definition address_ok :: "flight \<Rightarrow> addr \<Rightarrow> bool" where
  "address_ok f ip \<longleftrightarrow> (\<exists>a. addressAllowed a (ed_prefixes (fl_destination f)) \<and> ip = Unmap a \<and> (case ParseAddr (fl_host f) of Some b \<Rightarrow> a = b | None \<Rightarrow> True))"

definition hello_ok :: "flight \<Rightarrow> bytes \<Rightarrow> bool" where
  "hello_ok f hello \<longleftrightarrow> (\<exists>lower name. readTLSClientHello lower hello = Ok (hello, name) \<and> tlsServerNameAllowed (fl_host f) name \<and>
     int (length hello) \<le> er_MaxRequestBytes (fl_route f))"

definition connection_ok :: "Server \<Rightarrow> flight \<Rightarrow> bool" where
  "connection_ok s f \<longleftrightarrow> (case fl_dialled f of None \<Rightarrow> True
     | Some (ip, hello) \<Rightarrow> address_ok f ip \<and> allow_event f \<in> set (sv_audit s) \<and> (rq_Method (fl_request f) = MethodConnect \<longrightarrow> hello_ok f hello))"

definition in_use :: "Server \<Rightarrow> bytes \<Rightarrow> nat" where
  "in_use s r = length (filter (\<lambda>f. fl_routeID f = r) (sv_flights s))"

definition flights_inv :: "Server \<Rightarrow> bool" where
  "flights_inv s \<longleftrightarrow> (\<forall>f \<in> set (sv_flights s). admitted s f \<and> connection_ok s f) \<and> (\<forall>r. sv_semaphores s r = in_use s r) \<and>
     (\<forall>r rt. sv_routes s r = Some rt \<longrightarrow> int (in_use s r) \<le> max 0 (er_MaxConcurrent rt))"

text \<open>Both depend on nothing but the routes and the audit log.\<close>

lemma admitted_cong: "sv_routes s' = sv_routes s \<Longrightarrow> admitted s' f = admitted s f"
  by (simp add: admitted_def)

lemma connection_cong: "sv_audit s' = sv_audit s \<Longrightarrow> connection_ok s' f = connection_ok s f"
  unfolding connection_ok_def by (simp only:)

lemma reread: "readTLSClientHello lower reader = Ok (hello, name) \<Longrightarrow> readTLSClientHello lower hello = Ok (hello, name)"
  using read_prefix [of lower maxTLSHelloRecords reader "[]" "[]" hello name] append_Nil2 unfolding readTLSClientHello_def by (metis append_Nil)

lemma select_destination_some: "select_destination route host port = Some d \<Longrightarrow>
    d \<in> set (er_destinations route) \<and> hostMatches (ed_Host d) host \<and> port \<in> set (ed_Ports d)"
  by (auto simp: select_destination_def find_Some_iff containsPort_def list_ex_iff)

lemma selectEgressRoute_some:
  "selectEgressRoute routes ids host port = Some (i, route, d) \<Longrightarrow> i \<in> set ids \<and> routes i = Some route \<and> select_destination route host port = Some d"
  by (induction ids) (auto split: option.splits)

lemma resolve_ok: "resolveAllowedIP resolver (fl_host f) (fl_destination f) = Inr ip \<Longrightarrow> address_ok f ip"
  by (auto simp: resolveAllowedIP_def address_ok_def find_Some_iff split: option.splits if_splits)

section \<open>What a handler may do to the flights\<close>

definition lease_of :: "Server \<Rightarrow> flight \<Rightarrow> bool" where
  "lease_of s f \<longleftrightarrow> sv_leases s (gr_GrantID (fl_grant f)) = Some (fl_lease f) \<and> sv_grants s (gr_GrantID (fl_grant f)) = Some (fl_grant f)"

definition hold :: "flight \<Rightarrow> Server \<Rightarrow> Server" where
  "hold f s = s\<lparr>sv_semaphores := (sv_semaphores s)(fl_routeID f := sv_semaphores s (fl_routeID f) + 1), sv_flights := sv_flights s @ [f]\<rparr>"

inductive effect :: "Server \<Rightarrow> Server \<Rightarrow> bool" where
  Log: "keeps s s' \<Longrightarrow> effect s s'"
| Lease: "sv_grants s i = Some g \<Longrightarrow> gr_Active g \<Longrightarrow> effect s (fst (egressLeaseLocked i s))"
| Hold: "admitted s f \<Longrightarrow> lease_of s f \<Longrightarrow> fl_dialled f = None \<Longrightarrow> int (sv_semaphores s (fl_routeID f)) < er_MaxConcurrent (fl_route f) \<Longrightarrow> effect s (hold f s)"
| Release: "k < length (sv_flights s) \<Longrightarrow> f = sv_flights s ! k \<Longrightarrow> effect s (release k f s)"
| Dial: "k < length (sv_flights s) \<Longrightarrow> f = sv_flights s ! k \<Longrightarrow> address_ok f ip \<Longrightarrow> allow_event f \<in> set (sv_audit s) \<Longrightarrow> \<not> revoked f s \<Longrightarrow>
    (rq_Method (fl_request f) = MethodConnect \<Longrightarrow> hello_ok f hello) \<Longrightarrow> effect s (dialled k f ip hello s)"

inductive_cases effectE: "effect s s'"

lemma log_effect: "keeps s s' \<Longrightarrow> effect\<^sup>*\<^sup>* s s'"
  by (rule r_into_rtranclp) (rule effect.Log)

lemma log_then: "keeps s s' \<Longrightarrow> effect s' s'' \<Longrightarrow> effect\<^sup>*\<^sup>* s s''"
  using effect.Log rtranclp.rtrancl_into_rtrancl [of effect s s' s''] by blast

lemma release_effect: "keeps s s' \<Longrightarrow> k < length (sv_flights s) \<Longrightarrow> effect\<^sup>*\<^sup>* s (release k (sv_flights s ! k) s')"
  using log_then [of s s'] effect.Release [of k s' "sv_flights s ! k"] by (auto simp: keeps_def)

lemma reject_effect: "effect\<^sup>*\<^sup>* s (fst (rejectEgress en g reason verb host port status s))"
  by (rule log_effect) (rule keeps_reject)

lemma hold_effect:
  assumes "sv_grants s i = Some g" "gr_GrantID g = i" "gr_Active g" "egressLeaseLocked i s = (s1, l)"
    "selectEgressRoute (sv_routes s) (gr_EgressRouteIDs g) host port = Some (routeID, route, d)" "int (sv_semaphores s1 routeID) < er_MaxConcurrent route"
    "f = \<lparr>fl_grant = g, fl_request = r, fl_routeID = routeID, fl_route = route, fl_destination = d, fl_host = host, fl_port = port, fl_lease = l, fl_dialled = None\<rparr>"
  shows "effect\<^sup>*\<^sup>* s (hold f s1)"
proof -
  have same: "sv_routes s1 = sv_routes s" "sv_grants s1 = sv_grants s" "sv_leases s1 i = Some l"
    using assms(4) by (auto simp: egressLeaseLocked_def split: option.splits)
  have "admitted s1 f" using selectEgressRoute_some [OF assms(5)] select_destination_some [of route host port d] assms(3,7) same by (simp add: admitted_def)
  moreover have "lease_of s1 f" using assms(1,2,7) same by (simp add: lease_of_def)
  ultimately have "effect s1 (hold f s1)" using assms(6,7) by (intro effect.Hold) simp_all
  moreover have "effect s s1" using effect.Lease [OF assms(1,3)] assms(4) by simp
  ultimately show ?thesis by auto
qed

definition keyed :: "Server \<Rightarrow> bool" where
  "keyed s \<longleftrightarrow> (\<forall>i g. sv_grants s i = Some g \<longrightarrow> gr_GrantID g = i)"

lemma arrive_effect:
  assumes "keyed s"
  shows "effect\<^sup>*\<^sup>* s (fst (egress_arrive en i r s))"
proof (cases "sv_grants s i")
  case (Some g)
  obtain s1 l where l: "egressLeaseLocked i s = (s1, l)" by fastforce
  have busy: "effect\<^sup>*\<^sup>* s (fst (rejectEgress en g reason verb host port status s1))" if "gr_Active g" for reason verb host port status
    using converse_rtranclp_into_rtranclp [OF effect.Lease [OF Some that] reject_effect] l by simp
  have "gr_GrantID g = i" using assms Some by (simp add: keyed_def)
  note h = hold_effect [OF Some this _ l]
  show ?thesis using Some l h reject_effect busy
    by (auto simp: egress_arrive_def hold_def split: sum.splits option.splits)
qed (simp add: egress_arrive_def)

lemma connect_effect:
  assumes "k < length (sv_flights s)" "f = sv_flights s ! k" "address_ok f ip"
  shows "effect\<^sup>*\<^sup>* s (fst (proxyConnect en k f ip s))"
proof -
  have rel: "effect\<^sup>*\<^sup>* s (release k f s')" if "keeps s s'" for s' using release_effect [OF that assms(1)] assms(2) by simp
  obtain s1 ok where a: "recordEgressAllow en f s = (s1, ok)" by fastforce
  note al = allow_cases [OF a]
  have d: "effect\<^sup>*\<^sup>* s (dialled k f ip hello s1)" if "ok" "hello_ok f hello" "dials en f s1" for hello
    by (rule log_then [OF al(1)], rule effect.Dial) (use al assms that in \<open>auto simp: keeps_def dials_def\<close>)
  have "hello_ok f hello" if "readTLSClientHello lower reader = Ok (hello, name)" "tlsServerNameAllowed (fl_host f) name" "\<not> int (length hello) > er_MaxRequestBytes (fl_route f)"
    for lower reader hello name using that reread [OF that(1)] by (auto simp: hello_ok_def)
  then show ?thesis
    using a al d keeps_trans [OF al(1) keeps_finish]
    by (auto simp: proxyConnect_def Let_def intro!: rel keeps_deny split: sum.splits bool.splits)
qed

lemma http_effect:
  assumes "k < length (sv_flights s)" "f = sv_flights s ! k" "address_ok f ip" "rq_Method (fl_request f) \<noteq> MethodConnect" "allow_event f \<in> set (sv_audit s)"
  shows "effect\<^sup>*\<^sup>* s (fst (proxyHTTP en k f ip s))"
proof -
  have rel: "effect\<^sup>*\<^sup>* s (release k f s')" if "keeps s s'" for s' using release_effect [OF that assms(1)] assms(2) by simp
  have "effect\<^sup>*\<^sup>* s (dialled k f ip [] s)" if "dials en f s"
    by (rule log_then [OF keeps_refl], rule effect.Dial) (use assms that in \<open>auto simp: dials_def\<close>)
  then show ?thesis by (auto simp: proxyHTTP_def intro!: rel keeps_finish)
qed

lemma proceed_effect: "effect\<^sup>*\<^sup>* s (fst (egress_proceed en k s))"
proof (cases "k \<ge> length (sv_flights s) \<or> fl_dialled (sv_flights s ! k) \<noteq> None")
  case False
  let ?f = "sv_flights s ! k"
  have k: "k < length (sv_flights s)" using False by simp
  show ?thesis
  proof (cases "resolveAllowedIP (en_resolver en) (fl_host ?f) (fl_destination ?f)")
    case (Inl err)
    obtain status code where c: "classifyAddressFailure err (revoked ?f s) = (status, code)" by fastforce
    obtain s' out where r: "rejectEgress en (fl_grant ?f) code (rq_Method (fl_request ?f)) (fl_host ?f) (fl_port ?f) status s = (s', out)" by fastforce
    have "effect\<^sup>*\<^sup>* s (release k ?f s')" by (rule release_effect [OF _ k]) (use keeps_reject r in \<open>metis fst_conv\<close>)
    then show ?thesis using False Inl c r by (simp add: egress_proceed_def Let_def)
  next
    case (Inr ip)
    note ip = resolve_ok [OF Inr]
    obtain s1 ok where a: "recordEgressAllow en ?f s = (s1, ok)" by fastforce
    note al = allow_cases [OF a]
    have "effect\<^sup>*\<^sup>* s1 (fst (proxyHTTP en k ?f ip s1))" if "ok" "rq_Method (fl_request ?f) \<noteq> MethodConnect"
      by (rule http_effect) (use al k ip that in \<open>auto simp: keeps_def\<close>)
    then have "effect\<^sup>*\<^sup>* s (fst (proxyHTTP en k ?f ip s1))" if "ok" "rq_Method (fl_request ?f) \<noteq> MethodConnect"
      using rtranclp_trans [OF log_effect [OF al(1)]] that by blast
    then show ?thesis using False Inr a connect_effect [OF k refl ip] release_effect [OF al(1) k] by (cases ok) (simp_all add: egress_proceed_def Let_def)
  qed
qed (auto simp: egress_proceed_def)

lemma end_effect: "effect\<^sup>*\<^sup>* s (connect_end en k a b s)" "effect\<^sup>*\<^sup>* s (fst (http_end en k cl body s))"
  by (auto simp: connect_end_def http_end_def Let_def intro!: release_effect keeps_finish split: option.splits prod.splits)

section \<open>Every effect keeps the invariant\<close>

lemma keeps_inv:
  assumes "keeps s s'" "flights_inv s"
  shows "flights_inv s'"
proof -
  have "connection_ok s' f" if "f \<in> set (sv_flights s)" for f
    using assms that by (auto simp: flights_inv_def connection_ok_def keeps_def split: option.splits)
  then show ?thesis using assms by (auto simp: flights_inv_def admitted_def in_use_def keeps_def)
qed

text \<open>Leases and grants do not matter to it.\<close>

lemma same_inv:
  assumes "sv_routes s' = sv_routes s" "sv_semaphores s' = sv_semaphores s" "sv_flights s' = sv_flights s" "sv_audit s' = sv_audit s"
  shows "flights_inv s' = flights_inv s"
  using assms admitted_cong [OF assms(1)] connection_cong [OF assms(4)] by (simp add: flights_inv_def in_use_def)

lemma lease_same: "sv_routes (fst (egressLeaseLocked i s)) = sv_routes s" "sv_semaphores (fst (egressLeaseLocked i s)) = sv_semaphores s"
  "sv_flights (fst (egressLeaseLocked i s)) = sv_flights s" "sv_audit (fst (egressLeaseLocked i s)) = sv_audit s"
  by (simp_all add: egressLeaseLocked_def split: option.splits)

lemma revoke_same: "sv_routes (revokeEgressLocked i s) = sv_routes s" "sv_semaphores (revokeEgressLocked i s) = sv_semaphores s"
  "sv_flights (revokeEgressLocked i s) = sv_flights s" "sv_audit (revokeEgressLocked i s) = sv_audit s"
  by (simp_all add: revokeEgressLocked_def split: option.splits)

lemma release_inv:
  assumes "flights_inv s" "k < length (sv_flights s)" "f = sv_flights s ! k"
  shows "flights_inv (release k f s)"
proof -
  let ?fs = "sv_flights s"
  have split: "?fs = take k ?fs @ ?fs ! k # drop (k + 1) ?fs" using assms(2) by (simp add: id_take_nth_drop)
  have use: "in_use s r = in_use (release k f s) r + (if r = fl_routeID f then 1 else 0)" for r
    using arg_cong [OF split, of "\<lambda>xs. length (filter (\<lambda>f. fl_routeID f = r) xs)"] assms(3) by (simp add: in_use_def release_def)
  have sub: "set (sv_flights (release k f s)) \<subseteq> set ?fs" by (auto simp: release_def dest: in_set_takeD in_set_dropD)
  have same: "sv_routes (release k f s) = sv_routes s" "sv_audit (release k f s) = sv_audit s" by (simp_all add: release_def)
  have "sv_semaphores (release k f s) r = in_use (release k f s) r" for r
    using assms(1) use [of r] by (auto simp: flights_inv_def release_def)
  moreover have "int (in_use (release k f s) r) \<le> max 0 (er_MaxConcurrent rt)" if "sv_routes s r = Some rt" for r rt
    using assms(1) that use [of r] by (fastforce simp: flights_inv_def)
  ultimately show ?thesis using assms(1) sub same admitted_cong [OF same(1)] connection_cong [OF same(2)] by (auto simp: flights_inv_def)
qed

lemma dialled_inv:
  assumes "flights_inv s" "k < length (sv_flights s)" "f = sv_flights s ! k" "address_ok f ip" "allow_event f \<in> set (sv_audit s)"
    "rq_Method (fl_request f) = MethodConnect \<Longrightarrow> hello_ok f hello"
  shows "flights_inv (dialled k f ip hello s)"
proof -
  let ?f = "f\<lparr>fl_dialled := Some (ip, hello)\<rparr>" and ?s = "dialled k f ip hello s"
  have flights: "sv_flights ?s = (sv_flights s)[k := ?f]" and same: "sv_routes ?s = sv_routes s" "sv_audit ?s = sv_audit s" by (simp_all add: dialled_def)
  have "map fl_routeID (sv_flights ?s) = map fl_routeID (sv_flights s)"
    using flights assms(2,3) by (simp add: map_update) (metis length_map list_update_id nth_map)
  then have "length (filter (\<lambda>x. x = r) (map fl_routeID (sv_flights ?s))) = length (filter (\<lambda>x. x = r) (map fl_routeID (sv_flights s)))" for r by simp
  then have use: "in_use ?s r = in_use s r" for r by (simp add: in_use_def filter_map comp_def)
  have old: "admitted ?s g \<and> connection_ok ?s g" if "g \<in> set (sv_flights s)" for g
    using that assms(1) admitted_cong [OF same(1)] connection_cong [OF same(2)] by (simp add: flights_inv_def)
  have "address_ok ?f ip" "allow_event ?f \<in> set (sv_audit s)" "rq_Method (fl_request f) = MethodConnect \<longrightarrow> hello_ok ?f hello"
    using assms(4-6) by (simp_all add: allow_event_def address_ok_def hello_ok_def)
  then have "connection_ok ?s ?f" using same by (simp add: connection_ok_def)
  moreover have "admitted ?s ?f" using old [of f] assms(2,3) by (simp add: admitted_def)
  ultimately have "admitted ?s g \<and> connection_ok ?s g" if "g \<in> set (sv_flights ?s)" for g
    using old set_update_subset_insert [of "sv_flights s" k ?f] flights that by auto
  then show ?thesis using assms(1) use flights same by (simp add: flights_inv_def dialled_def)
qed

lemma hold_inv:
  assumes "flights_inv s" "admitted s f" "fl_dialled f = None" "int (sv_semaphores s (fl_routeID f)) < er_MaxConcurrent (fl_route f)"
  shows "flights_inv (hold f s)"
proof -
  have same: "sv_routes (hold f s) = sv_routes s" "sv_audit (hold f s) = sv_audit s" by (simp_all add: hold_def)
  have use: "in_use (hold f s) q = in_use s q + (if q = fl_routeID f then 1 else 0)" for q by (simp add: in_use_def hold_def)
  have "int (in_use (hold f s) q) \<le> max 0 (er_MaxConcurrent rt)" if "sv_routes s q = Some rt" for q rt
    using that use [of q] assms by (cases "q = fl_routeID f") (simp_all add: flights_inv_def admitted_def)
  moreover have "admitted (hold f s) g \<and> connection_ok (hold f s) g" if "g \<in> set (sv_flights s @ [f])" for g
    using that assms admitted_cong [OF same(1)] connection_cong [OF same(2)] by (auto simp: flights_inv_def connection_ok_def)
  ultimately show ?thesis using use assms(1) same by (auto simp: flights_inv_def hold_def)
qed

lemma effect_flights: "effect s s' \<Longrightarrow> flights_inv s \<Longrightarrow> flights_inv s'"
proof (erule effectE)
  show "flights_inv s'" if "flights_inv s" "keeps s s'" using keeps_inv that by blast
  show "flights_inv s'" if "flights_inv s" "s' = fst (egressLeaseLocked i s)" for i using that same_inv [of s' s] by (simp add: lease_same)
qed (simp_all add: hold_inv release_inv dialled_inv)

section \<open>Leases\<close>

definition lease_inv :: "Server \<Rightarrow> bool" where
  "lease_inv s \<longleftrightarrow> keyed s \<and>
     (\<forall>i l. sv_leases s i = Some l \<longrightarrow> l < sv_nextLease s \<and> l \<notin> set (sv_cancelled s) \<and> (\<exists>g. sv_grants s i = Some g \<and> gr_Active g)) \<and>
     (\<forall>i j l. sv_leases s i = Some l \<longrightarrow> sv_leases s j = Some l \<longrightarrow> i = j) \<and> (\<forall>l \<in> set (sv_cancelled s). l < sv_nextLease s) \<and>
     (\<forall>f \<in> set (sv_flights s). fl_lease f < sv_nextLease s \<and> (revoked f s \<or> lease_of s f))"

lemma leased: "lease_inv s \<Longrightarrow> sv_leases s i = Some l \<Longrightarrow> l < sv_nextLease s \<and> l \<notin> set (sv_cancelled s) \<and> (\<exists>g. sv_grants s i = Some g \<and> gr_Active g)"
  by (simp add: lease_inv_def)

lemma lease_inv_cong:
  assumes "lease_inv s" "sv_grants s' = sv_grants s" "sv_leases s' = sv_leases s" "sv_nextLease s' = sv_nextLease s" "sv_cancelled s' = sv_cancelled s"
    "\<And>f. f \<in> set (sv_flights s') \<Longrightarrow> \<exists>g \<in> set (sv_flights s). fl_lease f = fl_lease g \<and> fl_grant f = fl_grant g"
  shows "lease_inv s'"
proof -
  have "fl_lease f < sv_nextLease s \<and> (revoked f s' \<or> lease_of s' f)" if "f \<in> set (sv_flights s')" for f
    using assms(1-5) assms(6) [OF that] unfolding lease_inv_def revoked_def lease_of_def by metis
  then show ?thesis using assms(1-5) by (simp add: lease_inv_def keyed_def)
qed

lemma lease_lease_inv:
  assumes "lease_inv s" "sv_grants s i = Some g" "gr_Active g"
  shows "lease_inv (fst (egressLeaseLocked i s))"
proof (cases "sv_leases s i")
  case None
  let ?s = "fst (egressLeaseLocked i s)"
  have s: "?s = s\<lparr>sv_leases := (sv_leases s)(i \<mapsto> sv_nextLease s), sv_nextLease := Suc (sv_nextLease s)\<rparr>"
    using None by (simp add: egressLeaseLocked_def)
  have "lease_of ?s f" if "lease_of s f" for f using that None by (auto simp: lease_of_def s)
  then have "\<forall>f \<in> set (sv_flights ?s). fl_lease f < sv_nextLease ?s \<and> (revoked f ?s \<or> lease_of ?s f)"
    using assms(1) by (auto simp: lease_inv_def s revoked_def less_Suc_eq)
  moreover have "\<forall>l \<in> set (sv_cancelled ?s). l < sv_nextLease ?s" using assms(1) by (auto simp: lease_inv_def s)
  moreover have "\<forall>j l. sv_leases ?s j = Some l \<longrightarrow> l < sv_nextLease ?s \<and> l \<notin> set (sv_cancelled ?s) \<and> (\<exists>g. sv_grants ?s j = Some g \<and> gr_Active g)"
    using leased [OF assms(1)] assms(1-3) by (auto simp: s less_SucI lease_inv_def split: if_splits)
  moreover have "\<forall>j k l. sv_leases ?s j = Some l \<longrightarrow> sv_leases ?s k = Some l \<longrightarrow> j = k"
  proof (intro allI impI)
    fix j k l
    assume "sv_leases ?s j = Some l" "sv_leases ?s k = Some l"
    moreover have "sv_leases s j = Some l \<Longrightarrow> sv_leases s k = Some l \<Longrightarrow> j = k" using assms(1) unfolding lease_inv_def by blast
    ultimately show "j = k" using leased [OF assms(1), of j l] leased [OF assms(1), of k l] by (cases "j = i"; cases "k = i") (auto simp: s)
  qed
  moreover have "keyed ?s" using assms(1) by (simp add: lease_inv_def keyed_def s)
  ultimately show ?thesis unfolding lease_inv_def by (intro conjI)
qed (use assms in \<open>simp add: egressLeaseLocked_def\<close>)

lemma effect_lease:
  assumes "effect s s'" "lease_inv s"
  shows "lease_inv s'"
  using assms(1)
proof (rule effectE)
  note inv = assms(2)
  show "lease_inv s'" if "keeps s s'" by (rule lease_inv_cong [OF inv]) (use that in \<open>auto simp: keeps_def\<close>)
  show "lease_inv s'" if "s' = fst (egressLeaseLocked i s)" "sv_grants s i = Some g" "gr_Active g" for i g
    using that lease_lease_inv [OF inv] by blast
  show "lease_inv s'" if "s' = release k f s" for k f
    by (rule lease_inv_cong [OF inv]) (use that in \<open>auto simp: release_def dest: in_set_takeD in_set_dropD\<close>)
  show "lease_inv s'" if "s' = hold f s" "lease_of s f" for f
    using that inv by (auto simp: lease_inv_def hold_def keyed_def lease_of_def revoked_def)
  show "lease_inv s'" if "s' = dialled k (sv_flights s ! k) ip hello s" "k < length (sv_flights s)" for k ip hello
  proof (rule lease_inv_cong [OF inv])
    fix g
    assume "g \<in> set (sv_flights s')"
    then have "g = (sv_flights s ! k)\<lparr>fl_dialled := Some (ip, hello)\<rparr> \<or> g \<in> set (sv_flights s)"
      using that(1) set_update_subset_insert [of "sv_flights s" k] by (auto simp: dialled_def)
    then show "\<exists>h \<in> set (sv_flights s). fl_lease g = fl_lease h \<and> fl_grant g = fl_grant h" using nth_mem [OF that(2)] by auto
  qed (use that in \<open>simp_all add: dialled_def\<close>)
qed

definition eg_inv :: "Server \<Rightarrow> bool" where
  "eg_inv s \<longleftrightarrow> flights_inv s \<and> lease_inv s"

lemma effects_inv: "effect\<^sup>*\<^sup>* s s' \<Longrightarrow> eg_inv s \<Longrightarrow> eg_inv s'"
  by (induction rule: rtranclp_induct) (auto simp: eg_inv_def effect_flights effect_lease)

lemma revoke_inv:
  assumes "lease_inv s" "s' = s\<lparr>sv_grants := (sv_grants s)(i := g)\<rparr>" "\<And>x. g = Some x \<Longrightarrow> gr_GrantID x = i"
  shows "lease_inv (revokeEgressLocked i s')"
proof -
  let ?s = "revokeEgressLocked i s'"
  have grants: "sv_grants ?s = (sv_grants s)(i := g)" and leases: "sv_leases ?s = (sv_leases s)(i := None)"
    and cancelled: "set (sv_cancelled ?s) = set (sv_cancelled s) \<union> set_option (sv_leases s i)"
    and same: "sv_nextLease ?s = sv_nextLease s" "sv_flights ?s = sv_flights s"
    using assms(2) by (auto simp: revokeEgressLocked_def split: option.splits)
  have "revoked f ?s \<or> lease_of ?s f" if "f \<in> set (sv_flights s)" for f
  proof (cases "gr_GrantID (fl_grant f) = i")
    case True
    then show ?thesis using assms(1) that cancelled by (auto simp: lease_inv_def revoked_def lease_of_def)
  next
    case False
    then show ?thesis using assms(1) that cancelled by (auto simp: lease_inv_def revoked_def lease_of_def grants leases)
  qed
  moreover have "l < sv_nextLease s \<and> l \<notin> set (sv_cancelled ?s) \<and> (\<exists>g. sv_grants ?s j = Some g \<and> gr_Active g)" if "sv_leases ?s j = Some l" for j l
  proof -
    have j: "j \<noteq> i" "sv_leases s j = Some l" using that leases by (auto split: if_splits)
    then show ?thesis using assms(1) cancelled unfolding lease_inv_def by (auto simp: grants)
  qed
  moreover have "l < sv_nextLease s" if "l \<in> set (sv_cancelled ?s)" for l using assms(1) that cancelled by (auto simp: lease_inv_def)
  moreover have "keyed ?s" using assms(1,3) by (auto simp: lease_inv_def keyed_def grants)
  ultimately show ?thesis using assms(1) leases same by (auto simp: lease_inv_def split: if_splits)
qed

text \<open>A grant without a lease may be replaced: no request runs under it.\<close>

lemma replace_inv:
  assumes "lease_inv s" "sv_leases s i = None" "gr_GrantID g = i"
  shows "lease_inv (s\<lparr>sv_grants := (sv_grants s)(i \<mapsto> g)\<rparr>)"
proof -
  let ?s = "s\<lparr>sv_grants := (sv_grants s)(i \<mapsto> g)\<rparr>"
  have "lease_of ?s f" if "lease_of s f" for f using that assms(2) by (auto simp: lease_of_def)
  moreover have "revoked f ?s = revoked f s" for f by (simp add: revoked_def)
  ultimately have "\<forall>f \<in> set (sv_flights ?s). fl_lease f < sv_nextLease ?s \<and> (revoked f ?s \<or> lease_of ?s f)"
    using assms(1) unfolding lease_inv_def by auto
  moreover have "keyed ?s" using assms(1,3) by (simp add: lease_inv_def keyed_def)
  moreover have "\<forall>j l. sv_leases ?s j = Some l \<longrightarrow> l < sv_nextLease ?s \<and> l \<notin> set (sv_cancelled ?s) \<and> (\<exists>g. sv_grants ?s j = Some g \<and> gr_Active g)"
  proof (intro allI impI)
    fix j l
    assume "sv_leases ?s j = Some l"
    then show "l < sv_nextLease ?s \<and> l \<notin> set (sv_cancelled ?s) \<and> (\<exists>g. sv_grants ?s j = Some g \<and> gr_Active g)"
      using leased [OF assms(1), of j l] assms(2) by auto
  qed
  ultimately show ?thesis using assms(1) by (simp add: lease_inv_def)
qed

lemma activate_inv:
  assumes "lease_inv s" "sv_grants s i = Some g" "s' = s\<lparr>sv_grants := (sv_grants s)(i \<mapsto> g\<lparr>gr_Active := True\<rparr>)\<rparr>"
  shows "lease_inv s'"
proof -
  have "gr_Active g \<Longrightarrow> g\<lparr>gr_Active := True\<rparr> = g" by simp
  moreover have "sv_leases s i = None" if "\<not> gr_Active g" using leased [OF assms(1), of i] assms(2) that by (cases "sv_leases s i") auto
  moreover have "gr_GrantID g = i" using assms(1,2) by (simp add: lease_inv_def keyed_def)
  ultimately show ?thesis using assms replace_inv [OF assms(1), of i] by (cases "gr_Active g") (simp_all add: fun_upd_idem)
qed

lemma setActive_inv: "eg_inv s \<Longrightarrow> eg_inv (setActive persisted i active s)"
proof (cases "sv_grants s i")
  case (Some g)
  assume inv: "eg_inv s"
  let ?s = "s\<lparr>sv_grants := (sv_grants s)(i \<mapsto> g\<lparr>gr_Active := active\<rparr>)\<rparr>"
  have k: "gr_GrantID g = i" using inv Some by (simp add: eg_inv_def lease_inv_def keyed_def)
  have "lease_inv (fst (egressLeaseLocked i ?s))" if "active"
    by (rule lease_lease_inv [where g = "g\<lparr>gr_Active := True\<rparr>"]) (use activate_inv [of s i g] Some inv that in \<open>auto simp: eg_inv_def\<close>)
  moreover have "lease_inv (revokeEgressLocked i ?s)" using revoke_inv [of s ?s i "Some (g\<lparr>gr_Active := active\<rparr>)"] inv k by (simp add: eg_inv_def)
  moreover have "flights_inv (fst (egressLeaseLocked i ?s))" "flights_inv (revokeEgressLocked i ?s)"
    using inv same_inv [of "fst (egressLeaseLocked i ?s)" s] same_inv [of "revokeEgressLocked i ?s" s] by (simp_all add: eg_inv_def lease_same revoke_same)
  ultimately show ?thesis using inv Some by (cases active) (simp_all add: setActive_def eg_inv_def Let_def)
qed (simp add: setActive_def)

lemma unregister_inv: "eg_inv s \<Longrightarrow> eg_inv (unregister persisted i s)"
proof (cases "sv_grants s i")
  case (Some g)
  assume inv: "eg_inv s"
  let ?s = "revokeEgressLocked i (s\<lparr>sv_grants := (sv_grants s)(i := None)\<rparr>)"
  let ?t = "?s\<lparr>sv_stats := (sv_stats ?s)(i := zero_stats), sv_deniedAttempts := (sv_deniedAttempts ?s)(i := None)\<rparr>"
  have "lease_inv ?s" using revoke_inv [of s _ i None] inv by (simp add: eg_inv_def)
  then have "lease_inv ?t" by (rule lease_inv_cong) auto
  moreover have "flights_inv ?t" using inv same_inv [of ?t s] by (simp add: eg_inv_def revoke_same)
  ultimately show ?thesis using inv Some by (simp add: unregister_def eg_inv_def Let_def)
qed (simp add: unregister_def)

lemma register_inv:
  assumes "eg_inv s" "eg_guard s (ERegister g)"
  shows "eg_inv (fst (eg_exec (ERegister g) s))"
proof -
  have "sv_leases s (gr_GrantID g) = None"
    using assms leased [of s "gr_GrantID g"] by (cases "sv_leases s (gr_GrantID g)") (auto simp: eg_inv_def split: option.splits)
  then have "lease_inv (fst (eg_exec (ERegister g) s))" using replace_inv [of s "gr_GrantID g" g] assms(1) by (simp add: eg_inv_def)
  then show ?thesis using assms(1) same_inv [of "fst (eg_exec (ERegister g) s)" s] by (simp add: eg_inv_def)
qed

interpretation egress: guarded_machine eg_exec eg_guard eg_inv
proof
  fix s :: Server and op
  assume inv: "eg_inv s" and guard: "eg_guard s op"
  then have "keyed s" by (simp add: eg_inv_def lease_inv_def)
  then show "eg_inv (fst (eg_exec op s))"
    using inv guard register_inv effects_inv [OF arrive_effect inv] effects_inv [OF proceed_effect inv] effects_inv [OF end_effect(1) inv] effects_inv [OF end_effect(2) inv]
    by (cases op) (simp_all add: setActive_inv unregister_inv)
qed

section \<open>Promises\<close>

text \<open>A gateway that has just been opened, with the grants it found in its state file.\<close>

definition eg_start :: "Server \<Rightarrow> bool" where
  "eg_start s \<longleftrightarrow> sv_flights s = [] \<and> (\<forall>r. sv_semaphores s r = 0) \<and> (\<forall>i. sv_leases s i = None) \<and> sv_cancelled s = [] \<and> keyed s"

lemma eg_start_inv: "eg_start s \<Longrightarrow> eg_inv s"
  by (simp add: eg_start_def eg_inv_def flights_inv_def lease_inv_def in_use_def)

lemma reach_inv: "eg_start s \<Longrightarrow> guarded_run eg_exec eg_guard ops s \<Longrightarrow> eg_inv (final_state eg_exec ops s)"
  by (rule egress.guarded_inv [OF eg_start_inv])

definition connected :: "outcome \<Rightarrow> bool" where
  "connected out = (case out of Connected _ \<Rightarrow> True | _ \<Rightarrow> False)"

lemma reject_not_connected: "\<not> connected (snd (rejectEgress en g reason verb host port status s))"
  by (simp add: rejectEgress_def connected_def split: prod.splits egressDenialDecision.splits)

lemma revoked_not_connected:
  assumes "revoked (sv_flights s ! k) s"
  shows "\<not> connected (snd (egress_proceed en k s))"
proof -
  let ?f = "sv_flights s ! k"
  obtain s1 ok where a: "recordEgressAllow en ?f s = (s1, ok)" by fastforce
  have "\<not> dials en ?f s1" using allow_cases(1) [OF a] assms by (simp add: dials_def revoked_def keeps_def)
  then have "\<not> connected (snd (proxyConnect en k ?f ip s))" "\<not> connected (snd (proxyHTTP en k ?f ip s1))" for ip
    using a by (auto simp: proxyConnect_def proxyHTTP_def Let_def connected_def split: sum.splits bool.splits)
  moreover have "\<not> connected out" if "rejectEgress en g reason verb host port status s = (s', out)" for g reason verb host port status s' out
    using reject_not_connected [of en g reason verb host port status s] that by simp
  ultimately show ?thesis using a
    by (auto simp: egress_proceed_def Let_def split: sum.splits prod.splits bool.splits) (auto simp: connected_def)
qed

lemma connect_end_event:
  assumes "k < length (sv_flights s)" "f = sv_flights s ! k" "fl_dialled f = Some (ip, hello)" "rq_Method (fl_request f) = MethodConnect" "en_audit en"
  shows "sv_audit (connect_end en k agent upstream s) = sv_audit s @ [\<lparr>ae_Decision = ''terminal'',
     ae_Reason = (if int (length hello) + copyBounded agent (er_MaxRequestBytes (fl_route f) - int (length hello)) > er_MaxRequestBytes (fl_route f) \<or>
        copyBounded upstream (er_MaxResponseBytes (fl_route f)) > er_MaxResponseBytes (fl_route f) then ''byte_limit'' else ''completed''),
     ae_GrantID = gr_GrantID (fl_grant f), ae_TenantID = gr_TenantID (fl_grant f), ae_InstanceID = gr_InstanceID (fl_grant f), ae_RouteID = fl_routeID f,
     ae_Method = MethodConnect, ae_Host = fl_host f, ae_Port = fl_port f,
     ae_BytesFromAgent = min64 (int (length hello) + copyBounded agent (er_MaxRequestBytes (fl_route f) - int (length hello))) (er_MaxRequestBytes (fl_route f)),
     ae_BytesToAgent = min64 (copyBounded upstream (er_MaxResponseBytes (fl_route f))) (er_MaxResponseBytes (fl_route f))\<rparr>]"
proof -
  have "sv_audit (release k f t) = sv_audit t" "sv_audit (updateEgressStats now i event t) = sv_audit t" for t now i event
    by (simp_all add: release_def updateEgressStats_def Let_def)
  then show ?thesis using assms by (simp add: connect_end_def finishEgress_def audit_Append_def Let_def)
qed

lemma copyBounded_cases: "0 \<le> m \<Longrightarrow> copyBounded c m = io_Copy c m + (if \<not> cp_err c \<and> io_Copy c m = m \<and> cp_probe c = ProbeByte then 1 else 0)"
  "0 \<le> m \<Longrightarrow> io_Copy c m \<le> m"
  by (auto simp: copyBounded_def io_Copy_def min64_def max64_def Let_def split: probe.splits)

section \<open>A run\<close>

definition eg_demo_route :: loadedEgressRoute where
  "eg_demo_route = \<lparr>er_MaxConcurrent = 1, er_MaxRequestBytes = 1000, er_MaxResponseBytes = 2000,
     er_destinations = [\<lparr>ed_Host = ''a.io'', ed_Ports = [443], ed_prefixes = [\<lparr>pf_addr = V4 134744072, pf_bits = 32\<rparr>]\<rparr>]\<rparr>"

definition eg_demo_grant :: Grant where
  "eg_demo_grant = \<lparr>gr_GrantID = ''g'', gr_TenantID = ''t'', gr_InstanceID = ''i'', gr_EgressRouteIDs = [''r''], gr_Active = False\<rparr>"

definition eg_demo_env :: egress_env where
  "eg_demo_env = \<lparr>en_now = 0, en_audit = True, en_lower = (\<lambda>r. r), en_resolver = (\<lambda>_. Some [V4 134744072]), en_hijacker = True, en_hijack = True,
     en_hello = records_of sample_records, en_request = True, en_dial = True\<rparr>"

definition eg_demo_request :: request where
  "eg_demo_request = \<lparr>rq_Method = ''CONNECT'', rq_Host = ''a.io:443'', rq_URL = None, rq_ContentLength = 0\<rparr>"

definition eg_demo_server :: Server where
  "eg_demo_server = \<lparr>sv_grants = (\<lambda>_. None), sv_routes = [''r'' \<mapsto> eg_demo_route], sv_semaphores = (\<lambda>_. 0), sv_deniedAttempts = (\<lambda>_. None), sv_tenantDenials = (\<lambda>_. None),
     sv_hostDenials = zero_window, sv_stats = (\<lambda>_. zero_stats), sv_leases = (\<lambda>_. None), sv_nextLease = 0, sv_cancelled = [], sv_audit = [], sv_flights = []\<rparr>"

definition eg_demo_flight :: flight where
  "eg_demo_flight = \<lparr>fl_grant = eg_demo_grant\<lparr>gr_Active := True\<rparr>, fl_request = eg_demo_request, fl_routeID = ''r'', fl_route = eg_demo_route,
     fl_destination = hd (er_destinations eg_demo_route), fl_host = ''a.io'', fl_port = 443, fl_lease = 0, fl_dialled = None\<rparr>"

definition eg_demo_held :: "eg_action list" where
  "eg_demo_held = [ERegister eg_demo_grant, ESetActive True ''g'' True, EArrive eg_demo_env ''g'' eg_demo_request]"

lemma eg_demo_start: "eg_start eg_demo_server"
  by (simp add: eg_start_def eg_demo_server_def keyed_def)

lemma eg_demo_destination: "proxyDestination (\<lambda>r. r) eg_demo_request = Ok (''a.io'', 443)"
  by code_simp

lemma eg_demo_held_state: "final_state eg_exec eg_demo_held eg_demo_server =
    eg_demo_server\<lparr>sv_grants := [''g'' \<mapsto> eg_demo_grant\<lparr>gr_Active := True\<rparr>], sv_semaphores := (\<lambda>_. 0)(''r'' := 1), sv_leases := [''g'' \<mapsto> 0], sv_nextLease := 1, sv_flights := [eg_demo_flight]\<rparr>"
proof -
  have "select_destination eg_demo_route ''a.io'' 443 = Some (hd (er_destinations eg_demo_route))"
    by (simp add: select_destination_def eg_demo_route_def hostMatches_def containsPort_def has_prefix_def)
  then show ?thesis using eg_demo_destination
    by (simp add: eg_demo_held_def eg_demo_server_def eg_demo_grant_def setActive_def egressLeaseLocked_def egress_arrive_def eg_demo_env_def eg_demo_route_def eg_demo_flight_def
        eg_demo_request_def Let_def)
qed

lemma eg_demo_guarded: "guarded_run eg_exec eg_guard eg_demo_held eg_demo_server"
  by (simp add: eg_demo_held_def eg_demo_server_def eg_demo_grant_def)

lemma eg_demo_proceed:
  assumes "sv_flights s = [eg_demo_flight]" "sv_cancelled s = []"
  shows "sv_flights (fst (egress_proceed eg_demo_env 0 s)) = [eg_demo_flight\<lparr>fl_dialled := Some (V4 134744072, records_of sample_records)\<rparr>]"
proof -
  have ip: "resolveAllowedIP (en_resolver eg_demo_env) (fl_host eg_demo_flight) (fl_destination eg_demo_flight) = Inr (V4 134744072)" by code_simp
  have hello: "readTLSClientHello (en_lower eg_demo_env) (en_hello eg_demo_env) = Ok (records_of sample_records, ''a.io'')"
    using sample_read [of "[]"] by (simp add: eg_demo_env_def)
  have len: "length (records_of sample_records) = 75"
    using sample_wf(2) by (simp add: sample_records_def records_of_def length_record handshake_of_def)
  obtain t ok where t: "recordEgressAllow eg_demo_env eg_demo_flight s = (t, ok)" by fastforce
  have "ok" "keeps s t" using allow_cases [OF t] t by (auto simp: recordEgressAllow_def Let_def eg_demo_env_def)
  moreover have "tlsServerNameAllowed ''a.io'' ''a.io''" by (simp add: tlsServerNameAllowed_def, code_simp)
  ultimately show ?thesis
    using assms ip hello len t
    by (simp add: egress_proceed_def proxyConnect_def Let_def eg_demo_flight_def eg_demo_request_def MethodConnect_def eg_demo_route_def dials_def revoked_def keeps_def)
      (simp add: eg_demo_env_def dialled_def)
qed

definition eg_demo_open :: "eg_action list" where
  "eg_demo_open = eg_demo_held @ [EProceed eg_demo_env 0]"

lemma eg_demo_open_guarded: "guarded_run eg_exec eg_guard eg_demo_open eg_demo_server"
  using eg_demo_guarded by (simp add: eg_demo_open_def guarded_append)

lemma eg_demo_open_flights: "sv_flights (final_state eg_exec eg_demo_open eg_demo_server) = [eg_demo_flight\<lparr>fl_dialled := Some (V4 134744072, records_of sample_records)\<rparr>]"
  using eg_demo_proceed [of "final_state eg_exec eg_demo_held eg_demo_server"] eg_demo_held_state by (simp add: eg_demo_open_def final_state_append eg_demo_server_def)

section \<open>The properties\<close>

text \<open>C14: in every state that any interleaving of requests, activations, deactivations and removals of grants reaches, an open connection of an
  agent belongs to a grant that was active when the request arrived, goes through a route of that grant and a destination of that route whose
  host pattern and ports admit the requested host and port, is connected to an address that the address policy allows (the literal
  one, if the host is an address), was recorded in the audit log before it was opened, and, if it is a tunnel, has forwarded a
  ClientHello within the route's byte limit from which the server name is read that the host admits.\<close>

theorem egress_sound:
  assumes "eg_start s" "guarded_run eg_exec eg_guard ops s" "f \<in> set (sv_flights (final_state eg_exec ops s))" "fl_dialled f = Some (ip, hello)"
  shows "gr_Active (fl_grant f) \<and> fl_routeID f \<in> set (gr_EgressRouteIDs (fl_grant f)) \<and>
    sv_routes (final_state eg_exec ops s) (fl_routeID f) = Some (fl_route f) \<and> fl_destination f \<in> set (er_destinations (fl_route f)) \<and>
    hostMatches (ed_Host (fl_destination f)) (fl_host f) \<and> fl_port f \<in> set (ed_Ports (fl_destination f)) \<and> address_ok f ip \<and>
    allow_event f \<in> set (sv_audit (final_state eg_exec ops s)) \<and> (rq_Method (fl_request f) = MethodConnect \<longrightarrow> hello_ok f hello)"
proof -
  have "admitted (final_state eg_exec ops s) f \<and> connection_ok (final_state eg_exec ops s) f"
    using reach_inv [OF assms(1,2)] assms(3) by (simp add: eg_inv_def flights_inv_def)
  then show ?thesis using assms(4) by (simp add: admitted_def connection_ok_def)
qed

theorem egress_sound_witness:
  "eg_start eg_demo_server \<and> guarded_run eg_exec eg_guard eg_demo_open eg_demo_server \<and>
   address_ok (eg_demo_flight\<lparr>fl_dialled := Some (V4 134744072, records_of sample_records)\<rparr>) (V4 134744072) \<and>
   hello_ok (eg_demo_flight\<lparr>fl_dialled := Some (V4 134744072, records_of sample_records)\<rparr>) (records_of sample_records)"
  using egress_sound [OF eg_demo_start eg_demo_open_guarded, of "eg_demo_flight\<lparr>fl_dialled := Some (V4 134744072, records_of sample_records)\<rparr>"] eg_demo_open_flights eg_demo_start eg_demo_open_guarded
  by (simp add: eg_demo_flight_def eg_demo_request_def MethodConnect_def)

text \<open>C15: as soon as the grant under which a request runs is deactivated, replaced or removed, the context of the request is cancelled, and it
  does not open a connection any more. A request whose context is not cancelled runs under exactly the grant that is in force.\<close>

theorem egress_revocation:
  assumes "eg_start s" "guarded_run eg_exec eg_guard ops s" "s' = final_state eg_exec ops s" "k < length (sv_flights s')"
    "sv_grants s' (gr_GrantID (fl_grant (sv_flights s' ! k))) \<noteq> Some (fl_grant (sv_flights s' ! k))"
  shows "revoked (sv_flights s' ! k) s' \<and> \<not> connected (snd (egress_proceed en k s'))"
proof -
  have "revoked (sv_flights s' ! k) s' \<or> lease_of s' (sv_flights s' ! k)"
    using reach_inv [OF assms(1,2)] nth_mem [OF assms(4)] assms(3) by (auto simp: eg_inv_def lease_inv_def)
  then have "revoked (sv_flights s' ! k) s'" using assms(5) by (simp add: lease_of_def)
  then show ?thesis using revoked_not_connected by simp
qed

definition eg_demo_revoked :: "eg_action list" where
  "eg_demo_revoked = eg_demo_held @ [ESetActive True ''g'' False]"

theorem egress_revocation_witness: "\<not> connected (snd (egress_proceed eg_demo_env 0 (final_state eg_exec eg_demo_revoked eg_demo_server)))"
proof -
  let ?s = "final_state eg_exec eg_demo_revoked eg_demo_server"
  have s: "sv_flights ?s = [eg_demo_flight]" "sv_grants ?s ''g'' = Some eg_demo_grant"
    by (simp_all add: eg_demo_revoked_def final_state_append eg_demo_held_state setActive_def revokeEgressLocked_def)
      (simp_all add: eg_demo_grant_def)
  have "guarded_run eg_exec eg_guard eg_demo_revoked eg_demo_server" using eg_demo_guarded by (simp add: eg_demo_revoked_def guarded_append)
  from egress_revocation [OF eg_demo_start this refl, of 0] show ?thesis using s by (simp add: eg_demo_flight_def eg_demo_grant_def)
qed

text \<open>C30: in every reachable state the slots of a route in use are exactly its requests in flight, and never more than the route's concurrency limit:
  no way out of the handler, error or not, keeps or loses a slot.\<close>

theorem egress_concurrency:
  assumes "eg_start s" "guarded_run eg_exec eg_guard ops s" "s' = final_state eg_exec ops s" "sv_routes s' r = Some route"
  shows "sv_semaphores s' r = length (filter (\<lambda>f. fl_routeID f = r) (sv_flights s')) \<and> int (sv_semaphores s' r) \<le> max 0 (er_MaxConcurrent route)"
  using reach_inv [OF assms(1,2)] assms(3,4) by (simp add: eg_inv_def flights_inv_def in_use_def)

theorem egress_concurrency_witness: "int (sv_semaphores (final_state eg_exec eg_demo_held eg_demo_server) ''r'') \<le> 1"
  using egress_concurrency [OF eg_demo_start eg_demo_guarded refl, of "''r''" eg_demo_route] eg_demo_held_state
  by (simp add: eg_demo_server_def eg_demo_route_def)

text \<open>at the end of a tunnel the audit log records exactly the bytes that were forwarded in both directions, neither exceeds the route's
  limit, and the reason is the byte limit exactly if a side still had a byte to send when its limit was reached.\<close>

theorem tunnel_accounting:
  assumes "k < length (sv_flights s)" "f = sv_flights s ! k" "fl_dialled f = Some (ip, hello)" "rq_Method (fl_request f) = MethodConnect" "en_audit en"
    "int (length hello) \<le> er_MaxRequestBytes (fl_route f)" "0 \<le> er_MaxResponseBytes (fl_route f)"
    "sent = io_Copy agent (er_MaxRequestBytes (fl_route f) - int (length hello))" "received = io_Copy upstream (er_MaxResponseBytes (fl_route f))"
  shows "\<exists>event. sv_audit (connect_end en k agent upstream s) = sv_audit s @ [event] \<and>
    ae_BytesFromAgent event = int (length hello) + sent \<and> int (length hello) + sent \<le> er_MaxRequestBytes (fl_route f) \<and>
    ae_BytesToAgent event = received \<and> received \<le> er_MaxResponseBytes (fl_route f) \<and>
    (ae_Reason event = ''byte_limit'' \<longleftrightarrow>
       \<not> cp_err agent \<and> int (length hello) + sent = er_MaxRequestBytes (fl_route f) \<and> cp_probe agent = ProbeByte \<or>
       \<not> cp_err upstream \<and> received = er_MaxResponseBytes (fl_route f) \<and> cp_probe upstream = ProbeByte)"
proof -
  let ?m = "er_MaxRequestBytes (fl_route f) - int (length hello)"
  have m: "0 \<le> ?m" using assms(6) by simp
  note a = copyBounded_cases [OF m, of agent] and b = copyBounded_cases [OF assms(7), of upstream]
  show ?thesis
    using a(2) b(2) unfolding connect_end_event [OF assms(1-5)] a(1) b(1) assms(8,9) by (auto simp: min64_def)
qed

definition eg_demo_copy :: "nat \<Rightarrow> copy" where
  "eg_demo_copy n = \<lparr>cp_available = n, cp_err = False, cp_probe = ProbeByte\<rparr>"

theorem tunnel_accounting_witness:
  "\<exists>event. sv_audit (connect_end eg_demo_env 0 (eg_demo_copy 5) (eg_demo_copy 5000) (eg_demo_server\<lparr>sv_flights := [eg_demo_flight\<lparr>fl_dialled := Some (V4 0, ''hello'')\<rparr>]\<rparr>)) = [event] \<and>
     ae_BytesFromAgent event = 10 \<and> ae_BytesToAgent event = 2000 \<and> ae_Reason event = ''byte_limit''"
  using tunnel_accounting [of 0 "eg_demo_server\<lparr>sv_flights := [eg_demo_flight\<lparr>fl_dialled := Some (V4 0, ''hello'')\<rparr>]\<rparr>", OF _ refl _ _ _ _ _ refl refl,
      of "V4 0" "''hello''" eg_demo_env "eg_demo_copy 5" "eg_demo_copy 5000"]
  by (simp add: eg_demo_server_def eg_demo_flight_def eg_demo_route_def eg_demo_request_def MethodConnect_def eg_demo_env_def eg_demo_copy_def io_Copy_def min64_def max64_def)

end
