(* ===== verification/Egress_Denials.thy ===== *)
theory Egress_Denials
  imports Egress_Promises
begin

text \<open>
  The limit on denied attempts: whatever agents try, the gateway writes a bounded number of denial records to its audit log per minute.
  A window of the limiter is fixed, so a minute that overlaps two of them may see twice the limit, and no more.
\<close>

section \<open>What a handler spends\<close>

definition deny_events :: "Server \<Rightarrow> nat" where
  "deny_events s = length (filter (\<lambda>e. ae_Decision e = ''deny'') (sv_audit s))"

definition account :: "Server \<Rightarrow> egressDeniedAttemptWindow \<times> nat" where
  "account s = (sv_hostDenials s, deny_events s)"

definition spends :: "time \<Rightarrow> Server \<Rightarrow> Server \<Rightarrow> bool" where
  "spends now s s' \<longleftrightarrow> account s' = account s \<or>
     (\<exists>w. availableEgressDenialWindow (sv_hostDenials s) now maxEgressDeniedAttemptsHostMinute = (w, True) \<and> sv_hostDenials s' = counted w \<and>
        deny_events s' \<le> deny_events s + 1)"

lemma account_stats [simp]: "account (updateEgressStats now i event s) = account s"
  by (simp add: account_def deny_events_def updateEgressStats_def Let_def)

lemma account_audit [simp]: "ae_Decision event \<noteq> ''deny'' \<Longrightarrow> account (audit_Append ok event s) = account s"
  by (simp add: account_def deny_events_def audit_Append_def)

lemma account_finish [simp]: "account (finishEgress en f reason a b s) = account s"
  by (simp add: finishEgress_def Let_def)

lemma account_allow: "recordEgressAllow en f s = (s', ok) \<Longrightarrow> account s' = account s"
  by (auto simp: recordEgressAllow_def Let_def split: if_splits)

lemma account_flights [simp]: "account (release k f s) = account s" "account (dialled k f ip hello s) = account s"
  by (simp_all add: release_def dialled_def account_def deny_events_def)

lemma account_lease: "egressLeaseLocked i s = (s', l) \<Longrightarrow> account s' = account s"
  by (auto simp: egressLeaseLocked_def account_def deny_events_def split: option.splits)

lemma account_revoke [simp]: "account (revokeEgressLocked i s) = account s"
  by (simp add: revokeEgressLocked_def account_def deny_events_def split: option.splits)

lemma spends_cong: "account s1 = account s \<Longrightarrow> spends now s1 s' = spends now s s'" "account s1 = account s' \<Longrightarrow> spends now s s1 = spends now s s'"
  by (auto simp: spends_def account_def)

lemma spends_none: "account s' = account s \<Longrightarrow> spends now s s'"
  by (simp add: spends_def)

lemma deny_spends: "spends (en_now en) s (fst (denyEgress en g reason verb host port s))"
proof -
  obtain s' d where r: "reserveEgressDeniedAttemptLocked (gr_GrantID g) (en_now en) s = (s', d)" by fastforce
  have "account s' = account s" if "d \<noteq> egressDenialAllowed"
    using r that by (auto simp: reserveEgressDeniedAttemptLocked_def Let_def account_def deny_events_def split: option.splits prod.splits if_splits)
  moreover have "\<exists>w. availableEgressDenialWindow (sv_hostDenials s) (en_now en) maxEgressDeniedAttemptsHostMinute = (w, True) \<and> sv_hostDenials s' = counted w \<and>
      sv_audit s' = sv_audit s" if "d = egressDenialAllowed"
    using r that by (auto simp: reserveEgressDeniedAttemptLocked_def Let_def split: option.splits prod.splits if_splits)
  moreover have "deny_events (audit_Append ok event s') \<le> deny_events s + 1" "sv_hostDenials (audit_Append ok event s') = sv_hostDenials s'"
    if "sv_audit s' = sv_audit s" for ok event
    using that by (simp_all add: audit_Append_def deny_events_def)
  ultimately show ?thesis using r spends_cong(2) [OF account_stats]
    by (cases d) (auto simp: denyEgress_def Let_def spends_none, auto simp: spends_def)
qed

lemma reject_spends: "spends (en_now en) s (fst (rejectEgress en g reason verb host port status s))"
  using deny_spends [of en s g reason verb host port]
  by (auto simp: rejectEgress_def split: prod.splits egressDenialDecision.splits)

fun eg_now :: "eg_action \<Rightarrow> time option" where
  "eg_now (EArrive en i r) = Some (en_now en)"
| "eg_now (EProceed en k) = Some (en_now en)"
| "eg_now (EConnectEnd en k a b) = Some (en_now en)"
| "eg_now (EHttpEnd en k cl body) = Some (en_now en)"
| "eg_now _ = None"

lemma arrive_spends: "spends (en_now en) s (fst (egress_arrive en i r s))"
proof -
  obtain s1 l where l: "egressLeaseLocked i s = (s1, l)" by fastforce
  note a = account_lease [OF l]
  have busy: "spends (en_now en) s (fst (rejectEgress en g reason verb host port status s1))" for g reason verb host port status
    using reject_spends [of en s1 g] spends_cong(1) [OF a] by simp
  have hold: "spends now s (s1\<lparr>sv_semaphores := q, sv_flights := fs\<rparr>)" for now q fs using a by (intro spends_none) (simp add: account_def deny_events_def)
  show ?thesis using busy hold by (auto simp: egress_arrive_def l reject_spends spends_none split: option.splits sum.splits)
qed

lemma connect_spends: "spends (en_now en) s (fst (proxyConnect en k f ip s))"
proof -
  obtain s1 ok where a: "recordEgressAllow en f s = (s1, ok)" by fastforce
  note al = account_allow [OF a]
  have rel: "spends (en_now en) s (release k f (fst (denyEgress en g reason verb host port s)))" for g reason verb host port
    using deny_spends [of en s g reason verb host port] spends_cong(2) [OF account_flights(1)] by blast
  show ?thesis using rel al by (auto simp: proxyConnect_def Let_def a spends_none split: sum.splits bool.splits)
qed

lemma proceed_spends: "spends (en_now en) s (fst (egress_proceed en k s))"
proof -
  let ?f = "sv_flights s ! k"
  obtain s1 ok where a: "recordEgressAllow en ?f s = (s1, ok)" by fastforce
  have rel: "spends (en_now en) s (release k ?f s')" if "rejectEgress en g reason verb host port status s = (s', out)" for g reason verb host port status s' out
    using reject_spends [of en s g reason verb host port status] spends_cong(2) [OF account_flights(1)] that by (metis fst_conv)
  have "spends (en_now en) s (fst (proxyHTTP en k ?f ip s1))" for ip
    using account_allow [OF a] by (auto simp: proxyHTTP_def spends_none)
  then show ?thesis using connect_spends [of en s k ?f] account_allow [OF a]
    by (auto simp: egress_proceed_def Let_def a spends_none intro: rel split: sum.splits bool.splits prod.splits)
qed

lemma end_spends: "account (connect_end en k a b s) = account s" "account (fst (http_end en k cl body s)) = account s"
  by (auto simp: connect_end_def http_end_def Let_def split: option.splits prod.splits)

lemma account_grants: "account (s\<lparr>sv_grants := g\<rparr>) = account s" "account (s\<lparr>sv_stats := st, sv_deniedAttempts := d\<rparr>) = account s"
  by (simp_all add: account_def deny_events_def)

lemma untimed_account: "eg_now op = None \<Longrightarrow> account (fst (eg_exec op s)) = account s"
proof (cases op)
  case (ESetActive persisted i active)
  have "account (fst (egressLeaseLocked i t)) = account t" for t using account_lease [of i t] by (metis prod.collapse)
  then show ?thesis using ESetActive by (simp add: setActive_def Let_def account_grants split: option.splits)
next
  case (EUnregister persisted i)
  then show ?thesis by (simp add: unregister_def Let_def account_grants split: option.splits)
qed (simp_all add: account_grants)

lemma exec_spends: "eg_now op = Some now \<Longrightarrow> spends now s (fst (eg_exec op s))"
  by (cases op) (auto simp: arrive_spends proceed_spends end_spends spends_none)

section \<open>The bound\<close>

text \<open>How many denials can still be recorded in the minute that starts at \<open>t\<close>.\<close>

definition room :: "time \<Rightarrow> egressDeniedAttemptWindow \<Rightarrow> int" where
  "room t w = (if wn_started w \<noteq> zero_time \<and> t \<le> wn_started w then 0 else maxEgressDeniedAttemptsHostMinute) + max 0 (maxEgressDeniedAttemptsHostMinute - wn_count w)"

definition in_minute :: "time \<Rightarrow> eg_action \<Rightarrow> bool" where
  "in_minute t op = (case eg_now op of None \<Rightarrow> True | Some now \<Rightarrow> t \<le> now \<and> now < t + minute)"

lemma sub_minute: "time_sub now started \<ge> minute \<longleftrightarrow> now - started \<ge> minute"
  by (auto simp: time_sub_def minute_def nsec_def min_int64_def max_int64_def)

lemma spends_room:
  assumes "spends now s s'" "zero_time < t" "t \<le> now" "now < t + minute" "0 \<le> wn_count (sv_hostDenials s)"
  shows "int (deny_events s') + room t (sv_hostDenials s') \<le> int (deny_events s) + room t (sv_hostDenials s) \<and> 0 \<le> wn_count (sv_hostDenials s')"
proof (cases "account s' = account s")
  case False
  then obtain w where w: "availableEgressDenialWindow (sv_hostDenials s) now maxEgressDeniedAttemptsHostMinute = (w, True)" "sv_hostDenials s' = counted w"
    "deny_events s' \<le> deny_events s + 1" using assms(1) by (auto simp: spends_def)
  have "room t (counted w) + 1 \<le> room t (sv_hostDenials s) \<and> 0 \<le> wn_count (counted w)"
    using w(1) assms(2-5) by (auto simp: availableEgressDenialWindow_def Let_def room_def counted_def sub_minute split: if_splits)
  then show ?thesis using w by simp
qed (use assms in \<open>simp add: account_def\<close>)

lemma run_room:
  assumes "zero_time < t" "list_all (in_minute t) ops" "0 \<le> wn_count (sv_hostDenials s)"
  shows "int (deny_events (final_state eg_exec ops s)) + room t (sv_hostDenials (final_state eg_exec ops s)) \<le> int (deny_events s) + room t (sv_hostDenials s)"
  using assms(2,3)
proof (induction ops arbitrary: s)
  case (Cons op ops)
  let ?s = "fst (eg_exec op s)"
  have "int (deny_events ?s) + room t (sv_hostDenials ?s) \<le> int (deny_events s) + room t (sv_hostDenials s) \<and> 0 \<le> wn_count (sv_hostDenials ?s)"
  proof (cases "eg_now op")
    case None
    from untimed_account [OF this] show ?thesis using Cons.prems by (simp add: account_def)
  next
    case (Some now)
    then show ?thesis using spends_room [of now s ?s t] exec_spends [OF Some] Cons.prems assms(1) by (simp add: in_minute_def)
  qed
  then show ?case using Cons.IH [of ?s] Cons.prems(1) by simp
qed simp



end
