(* ===== verification/Address_Policy.thy ===== *)
theory Address_Policy
  imports Egress
begin

text \<open>
  The address policy without explicit prefixes, as ranges of numbers: which IPv4 and IPv6 addresses an agent may reach when the operator
  allowed a destination by its name only.
\<close>

section \<open>Prefixes as ranges\<close>

lemma div_range: "0 < k \<Longrightarrow> n div k = c \<longleftrightarrow> c * k \<le> n \<and> n \<le> c * k + (k - 1)" for n k c :: nat
  using div_nat_eqI [of k c n] dividend_less_div_times [of k n] div_times_less_eq_dividend [of n k] by (auto simp: mult.commute)

lemma foldl_of_nat: "foldl (\<lambda>a b. a * of_nat m + of_nat b) (of_nat n) os = (of_nat (foldl (\<lambda>a b. a * m + b) n os) :: 'a::len word)"
proof (induction os arbitrary: n)
  case (Cons b os)
  then show ?case using Cons.IH [of "n * m + b"] by simp
qed simp

lemma word_of_octets_nat: "word_of_octets os = of_nat (foldl (\<lambda>a b. a * 256 + b) 0 os)"
  using foldl_of_nat [of 256 0 os] by (simp add: word_of_octets_def)

lemma xor_zero: "xor a b = 0 \<longleftrightarrow> a = b" for a b :: "'a::len word"
proof
  assume "xor a b = 0"
  then have "xor (xor a b) b = b" by simp
  then show "a = b" by (simp add: xor.assoc)
qed simp

lemma prefix_div: "drop_bit k (xor w p) = 0 \<longleftrightarrow> unat w div 2 ^ k = unat p div 2 ^ k" for w p :: "'a::len word"
proof -
  have "drop_bit k (xor w p) = 0 \<longleftrightarrow> drop_bit k w = drop_bit k p" by (simp add: xor_zero)
  also have "\<dots> \<longleftrightarrow> unat w div 2 ^ k = unat p div 2 ^ k" by (simp only: word_unat_eq_iff unat_drop_bit_eq) (simp add: drop_bit_eq_div)
  finally show ?thesis .
qed

lemma contains_v4: "foldl (\<lambda>a b. a * 256 + b) 0 os < 2 ^ 32 \<Longrightarrow>
    Contains (v4p os bits) (V4 w) \<longleftrightarrow> unat w div 2 ^ (32 - bits) = foldl (\<lambda>a b. a * 256 + b) 0 os div 2 ^ (32 - bits)"
  unfolding Contains_def v4p_def prefix.simps Contains_addr.simps prefix_div word_of_octets_nat by (simp add: unat_of_nat)

lemma contains_v6:
  assumes "n = foldl (\<lambda>a b. a * 65536 + b) 0 gs * 2 ^ (16 * (8 - length gs))" "n < 2 ^ 128"
  shows "Contains (v6p gs bits) (V6 w z) \<longleftrightarrow> z = [] \<and> unat w div 2 ^ (128 - bits) = n div 2 ^ (128 - bits)"
proof -
  have "push_bit (16 * (8 - length gs)) (foldl (\<lambda>a b. a * 65536 + of_nat b) 0 gs) = (of_nat n :: 128 word)"
    using foldl_of_nat [of 65536 0 gs, where 'a = 128] by (simp add: assms(1) push_bit_eq_mult)
  then have "unat (push_bit (16 * (8 - length gs)) (foldl (\<lambda>a b. a * 65536 + of_nat b) 0 gs) :: 128 word) = n" using assms(2) by (simp only: unat_of_nat) simp
  then show ?thesis unfolding Contains_def v6p_def prefix.simps Contains_addr.simps prefix_div by simp
qed

lemma contains_other [simp]: "\<not> Contains (v4p os bits) (V6 w z)" "\<not> Contains (v6p gs bits) (V4 v)"
  by (simp_all add: Contains_def v4p_def v6p_def)

definition within :: "(nat \<times> nat) list \<Rightarrow> nat \<Rightarrow> bool" where
  "within ranges n = list_ex (\<lambda>(lo, hi). lo \<le> n \<and> n \<le> hi) ranges"

definition ip4 :: "nat \<Rightarrow> nat \<Rightarrow> nat \<Rightarrow> nat \<Rightarrow> nat" where
  "ip4 a b c d = ((a * 256 + b) * 256 + c) * 256 + d"

text \<open>The IPv6 addresses from one 48-bit number of three groups to another, in the upper part of the address.\<close>

definition ip6 :: "nat \<Rightarrow> nat \<Rightarrow> nat \<Rightarrow> nat" where
  "ip6 a b c = ((a * 65536 + b) * 65536 + c) * 2 ^ 80"

definition denied_ipv4 :: "(nat \<times> nat) list" where
  "denied_ipv4 =
     [(ip4 0 0 0 0, ip4 0 255 255 255), (ip4 10 0 0 0, ip4 10 255 255 255), (ip4 100 64 0 0, ip4 100 127 255 255), (ip4 127 0 0 0, ip4 127 255 255 255),
      (ip4 169 254 0 0, ip4 169 254 255 255), (ip4 172 16 0 0, ip4 172 31 255 255), (ip4 192 0 0 0, ip4 192 0 0 255), (ip4 192 0 2 0, ip4 192 0 2 255),
      (ip4 192 31 196 0, ip4 192 31 196 255), (ip4 192 52 193 0, ip4 192 52 193 255), (ip4 192 88 99 0, ip4 192 88 99 255),
      (ip4 192 168 0 0, ip4 192 168 255 255), (ip4 192 175 48 0, ip4 192 175 48 255), (ip4 198 18 0 0, ip4 198 19 255 255),
      (ip4 198 51 100 0, ip4 198 51 100 255), (ip4 203 0 113 0, ip4 203 0 113 255), (ip4 224 0 0 0, ip4 255 255 255 255)]"

definition allowed_ipv6 :: "(nat \<times> nat) list" where
  "allowed_ipv6 = [(ip6 0x2000 0 0, ip6 0x4000 0 0 - 1)]"

definition denied_ipv6 :: "(nat \<times> nat) list" where
  "denied_ipv6 =
     [(ip6 0x2001 0 0, ip6 0x2001 0x200 0 - 1), (ip6 0x2001 0xDB8 0, ip6 0x2001 0xDB9 0 - 1), (ip6 0x2002 0 0, ip6 0x2003 0 0 - 1),
      (ip6 0x2620 0x4F 0x8000, ip6 0x2620 0x4F 0x8001 - 1), (ip6 0x3FFF 0 0, ip6 0x3FFF 0x1000 0 - 1)]"

lemma special_v4: "list_ex (\<lambda>p. Contains p (V4 w)) specialPurposePrefixes \<longleftrightarrow>
    within (take 16 denied_ipv4) (unat w) \<or> 4026531840 \<le> unat w \<and> unat w \<le> 4294967295"
  by (simp add: specialPurposePrefixes_def contains_v4 div_range within_def denied_ipv4_def ip4_def disj_assoc)

section \<open>IPv4\<close>

lemma word_num4: "w = 0 \<longleftrightarrow> unat w = 0" "w = 0xFFFFFFFF \<longleftrightarrow> unat w = 4294967295" "drop_bit 28 w = 0xE \<longleftrightarrow> unat w div 268435456 = 14"
  "drop_bit 24 w = 127 \<longleftrightarrow> unat w div 16777216 = 127" "drop_bit 16 w = 0xA9FE \<longleftrightarrow> unat w div 65536 = 43518" for w :: "32 word"
  by (simp_all only: word_unat_eq_iff unat_drop_bit_eq) (simp_all add: drop_bit_eq_div)

lemma policy_v4: "addressAllowed (V4 w) [] \<longleftrightarrow> \<not> within denied_ipv4 (unat w)"
proof -
  have split: "within denied_ipv4 n \<longleftrightarrow> within (take 16 denied_ipv4) n \<or> 3758096384 \<le> n \<and> n \<le> 4294967295" for n
    by (simp add: within_def denied_ipv4_def ip4_def disj_assoc)
  have inside: "n = 0 \<Longrightarrow> within (take 16 denied_ipv4) n" "n div 16777216 = 127 \<Longrightarrow> within (take 16 denied_ipv4) n" "n div 65536 = 43518 \<Longrightarrow> within (take 16 denied_ipv4) n" for n
    by (simp_all add: within_def denied_ipv4_def ip4_def div_range)
  have multicast: "n div 268435456 = 14 \<longleftrightarrow> 3758096384 \<le> n \<and> n \<le> 4026531839" for n :: nat by (simp add: div_range)
  have "addressAllowed (V4 w) [] \<longleftrightarrow> \<not> (unat w = 0 \<or> unat w div 268435456 = 14 \<or> unat w = 4294967295 \<or> unat w div 16777216 = 127 \<or> unat w div 65536 = 43518 \<or>
      within (take 16 denied_ipv4) (unat w) \<or> 4026531840 \<le> unat w \<and> unat w \<le> 4294967295)"
    using special_v4 [of w] word_num4 [of w]
    by (auto simp: addressAllowed_def Let_def limitedIPv4Broadcast_def IsMulticast_def IsGlobalUnicast_def IsLoopback_def IsLinkLocalUnicast_def)
  then show ?thesis using inside [of "unat w"] multicast [of "unat w"] split [of "unat w"] by auto
qed

section \<open>IPv6\<close>

lemma special_v6: "list_ex (\<lambda>p. Contains p (V6 w [])) specialPurposePrefixes \<and> within allowed_ipv6 (unat w) \<longleftrightarrow> within denied_ipv6 (unat w) \<and> within allowed_ipv6 (unat w)"
  by (auto simp: specialPurposePrefixes_def contains_v6 div_range within_def denied_ipv6_def allowed_ipv6_def ip6_def)

lemma word_num6: "w = 0 \<longleftrightarrow> unat w = 0" "w = 1 \<longleftrightarrow> unat w = 1" "drop_bit 120 w = 0xFF \<longleftrightarrow> unat w div 2 ^ 120 = 255" "drop_bit 32 w = 0xFFFF \<longleftrightarrow> unat w div 2 ^ 32 = 65535"
  "drop_bit 118 w = 0x3FA \<longleftrightarrow> unat w div 2 ^ 118 = 1018" for w :: "128 word"
  by (simp_all only: word_unat_eq_iff unat_drop_bit_eq) (simp_all add: drop_bit_eq_div)

lemma allocated_v6: "Contains currentlyAllocatedIPv6GlobalUnicast (V6 w z) \<longleftrightarrow> z = [] \<and> within allowed_ipv6 (unat w)"
  by (simp add: currentlyAllocatedIPv6GlobalUnicast_def contains_v6 div_range within_def allowed_ipv6_def ip6_def)

lemma outside_allocated:
  assumes "within allowed_ipv6 n"
  shows "n \<noteq> 0" "n \<noteq> 1" "n div 2 ^ 120 \<noteq> 255" "n div 2 ^ 32 \<noteq> 65535" "n div 2 ^ 118 \<noteq> 1018"
  using assms by (simp_all add: within_def allowed_ipv6_def ip6_def div_range)

lemma policy_v6: "addressAllowed (V6 w z) [] \<longleftrightarrow> z = [] \<and> within allowed_ipv6 (unat w) \<and> \<not> within denied_ipv6 (unat w)"
proof (cases "z = [] \<and> within allowed_ipv6 (unat w)")
  case True
  then have "Contains currentlyAllocatedIPv6GlobalUnicast (V6 w [])" by (simp add: allocated_v6)
  moreover have "w \<noteq> 0" "w \<noteq> 1" "drop_bit 120 w \<noteq> 0xFF" "drop_bit 32 w \<noteq> 0xFFFF" "drop_bit 118 w \<noteq> 0x3FA"
    using outside_allocated [of "unat w"] True word_num6 [of w] by simp_all
  ultimately show ?thesis using True special_v6 [of w]
    by (auto simp: addressAllowed_def Let_def limitedIPv4Broadcast_def IsMulticast_def IsGlobalUnicast_def IsLoopback_def IsLinkLocalUnicast_def)
next
  case False
  then have "\<not> Contains currentlyAllocatedIPv6GlobalUnicast (V6 w z)" by (auto simp: allocated_v6)
  then show ?thesis using False by (auto simp: addressAllowed_def Let_def)
qed

text \<open>Multicast addresses are denied whatever prefixes the operator allows.\<close>

lemma multicast_denied: "\<not> (addressAllowed (V4 w) prefixes \<and> ip4 224 0 0 0 \<le> unat w \<and> unat w \<le> ip4 239 255 255 255)"
  using word_num4(3) [of w] by (auto simp: addressAllowed_def Let_def IsMulticast_def div_range ip4_def)

text \<open>C28: for a destination without explicit prefixes, an IPv4 address is allowed exactly if it is outside of the seventeen special purpose
  ranges, multicast and broadcast included, and an IPv6 address exactly if it has no zone, is in 2000::/3 and is outside of the five special
  purpose ranges there; an IPv4 multicast address is denied whatever prefixes are allowed.\<close>

theorem address_policy:
  "(addressAllowed (V4 w) [] \<longleftrightarrow> \<not> within denied_ipv4 (unat w)) \<and>
   (addressAllowed (V6 v z) [] \<longleftrightarrow> z = [] \<and> within allowed_ipv6 (unat v) \<and> \<not> within denied_ipv6 (unat v)) \<and>
   \<not> (addressAllowed (V4 w) prefixes \<and> ip4 224 0 0 0 \<le> unat w \<and> unat w \<le> ip4 239 255 255 255)"
  using policy_v4 policy_v6 multicast_denied by blast

end
