(* ===== verification/Interaction_Permit.thy ===== *)
theory Interaction_Permit
  imports Task_Permit
begin

text \<open>
  \<open>internal/interactionpermit/interactionpermit.go\<close>: a tenant-signed response to one exact interaction
  request. The statement binds the request digest and the digest and length of the response bytes, which travel beside the envelope.
  \<open>ip_Sign\<close> is the operator's side, \<open>ip_InspectUnverified\<close> the courier's, \<open>ip_Verify\<close> the Gateway's; \<open>rb_Validate\<close> checks a
  response body against what the agent offered.
\<close>

section \<open>Data\<close>

definition ip_PayloadType :: bytes where "ip_PayloadType = ''application/vnd.steward.interaction-response.v1+json''"
definition ip_SchemaV1 :: bytes where "ip_SchemaV1 = ''steward.interaction-response.v1''"
definition ResponseBodySchemaV1 :: bytes where "ResponseBodySchemaV1 = ''steward.interaction-response-body.v1''"
definition ip_MaxEnvelopeBytes :: nat where "ip_MaxEnvelopeBytes = 16384"
definition MaxResponseBytes :: nat where "MaxResponseBytes = 4096"
definition ip_MaxValidity :: duration where "ip_MaxValidity = 24 * hour"

record InteractionStatement =
  ips_SchemaVersion :: bytes
  ips_NodeID :: bytes
  ips_TenantID :: bytes
  ips_InstanceID :: bytes
  ips_RuntimeRef :: bytes
  ips_GrantID :: bytes
  ips_Generation :: u64
  ips_CapsuleDigest :: bytes
  ips_PolicyDigest :: bytes
  ips_InteractionID :: bytes
  ips_RequestDigest :: bytes
  ips_ResponseDigest :: bytes
  ips_ResponseBytes :: int
  ips_NotBefore :: bytes
  ips_ExpiresAt :: bytes

record InteractionInspected =
  ipi_Statement :: InteractionStatement
  ipi_KeyID :: bytes
  ipi_EnvelopeDigest :: bytes

record InteractionVerified =
  ipv_Statement :: InteractionStatement
  ipv_KeyID :: bytes
  ipv_EnvelopeDigest :: bytes

record ResponseBody =
  rb_SchemaVersion :: bytes
  rb_Choice :: bytes
  rb_Text :: bytes

abbreviation ip_invalid :: "string \<Rightarrow> 'a result" where
  "ip_invalid m \<equiv> wrap_err ErrInteractionPermitInvalid m"

section \<open>Syntax checks\<close>

definition ip_publicIdentity :: "bytes \<Rightarrow> nat \<Rightarrow> bool" where
  "ip_publicIdentity value limit \<longleftrightarrow>
     trim_space value \<noteq> [] \<and> length value \<le> limit \<and> valid_utf8 value \<and> \<not> contains_nul value"

text \<open>\<open>unicode.IsControl\<close>: the category Cc.\<close>

definition IsControl :: "nat \<Rightarrow> bool" where
  "IsControl r \<longleftrightarrow> r < 32 \<or> 127 \<le> r \<and> r < 160"

definition responseText :: "bytes \<Rightarrow> nat \<Rightarrow> bool" where
  "responseText value limit =
     (if value = [] \<or> length value > limit \<or> \<not> valid_utf8 value \<or> trim_space value \<noteq> value then False
      else list_all (\<lambda>(character, _). \<not> IsControl character) (runes value))"

definition ip_identifier :: "bytes \<Rightarrow> bool" where
  "ip_identifier value = identifier_pattern 127 value"

text \<open>As for task permits, testing each byte is the same test as testing each rune.\<close>

definition ip_lowerHex :: "bytes \<Rightarrow> bool" where
  "ip_lowerHex value \<longleftrightarrow> length value = 64 \<and> list_all is_lower_hex value"

definition ip_digest :: "bytes \<Rightarrow> bool" where
  "ip_digest value =
     (if length value \<noteq> length ''sha256:'' + 64 \<or> \<not> has_prefix value ''sha256:'' then False
      else ip_lowerHex (drop (length ''sha256:'') value))"

definition ip_runtimeRef :: "bytes \<Rightarrow> bool" where
  "ip_runtimeRef value \<longleftrightarrow> has_prefix value ''executor-'' \<and> length value = length ''executor-'' + 64 \<and> ip_lowerHex (drop (length ''executor-'') value)"

definition ip_grantID :: "bytes \<Rightarrow> bool" where
  "ip_grantID value \<longleftrightarrow> has_prefix value ''grant-'' \<and> length value = length ''grant-'' + 64 \<and> ip_lowerHex (drop (length ''grant-'') value)"

definition ip_interactionID :: "bytes \<Rightarrow> bool" where
  "ip_interactionID value \<longleftrightarrow>
     has_prefix value ''interaction-'' \<and> length value = length ''interaction-'' + 64 \<and> ip_lowerHex (drop (length ''interaction-'') value)"

section \<open>Response bodies\<close>

definition rb_Validate :: "ResponseBody \<Rightarrow> bytes list \<Rightarrow> bool \<Rightarrow> unit result" where
  "rb_Validate body options allowText =
     (if rb_SchemaVersion body \<noteq> ResponseBodySchemaV1 \<or>
        rb_Choice body = [] \<and> rb_Text body = [] \<or>
        rb_Choice body \<noteq> [] \<and> \<not> responseText (rb_Choice body) 128 \<or>
        rb_Text body \<noteq> [] \<and> (\<not> allowText \<or> \<not> responseText (rb_Text body) 2048)
      then ip_invalid ''interaction response body is invalid''
      else if rb_Choice body \<noteq> [] \<and> \<not> list_ex (\<lambda>option. option = rb_Choice body) options
      then ip_invalid ''interaction response choice was not offered''
      else Ok ())"

definition ResponseDigest :: "crypto \<Rightarrow> bytes \<Rightarrow> bytes" where
  "ResponseDigest c raw = ''sha256:'' @ hex_encode (sha256 c raw)"

section \<open>The signed statement on the wire\<close>

definition ip_wireStatement :: gotype where
  "ip_wireStatement = TStruct
     [(''schema_version'', TPtr TString), (''node_id'', TPtr TString), (''tenant_id'', TPtr TString),
      (''instance_id'', TPtr TString), (''runtime_ref'', TPtr TString), (''grant_id'', TPtr TString),
      (''generation'', TPtr TUint64), (''capsule_digest'', TPtr TString), (''policy_digest'', TPtr TString),
      (''interaction_id'', TPtr TString), (''request_digest'', TPtr TString), (''response_digest'', TPtr TString),
      (''response_bytes'', TPtr TInt64), (''not_before'', TPtr TString), (''expires_at'', TPtr TString)]"

definition ip_decode :: "bytes \<Rightarrow> json result" where
  "ip_decode payload = DecodeStrictInto payload ip_MaxEnvelopeBytes ip_wireStatement"

definition ip_statement :: "json \<Rightarrow> InteractionStatement option" where
  "ip_statement wire =
     (case (opt_str ''schema_version'' wire, opt_str ''node_id'' wire, opt_str ''tenant_id'' wire,
            opt_str ''instance_id'' wire, opt_str ''runtime_ref'' wire, opt_str ''grant_id'' wire,
            opt_u64 ''generation'' wire, opt_str ''capsule_digest'' wire) of
        (Some sv, Some node, Some tenant, Some inst, Some ref, Some grant, Some gen, Some cap) \<Rightarrow>
          (case (opt_str ''policy_digest'' wire, opt_str ''interaction_id'' wire, opt_str ''request_digest'' wire,
                 opt_str ''response_digest'' wire, opt_i64 ''response_bytes'' wire, opt_str ''not_before'' wire,
                 opt_str ''expires_at'' wire) of
             (Some pol, Some interaction, Some reqdigest, Some respdigest, Some respbytes, Some nb, Some ex) \<Rightarrow>
               Some \<lparr>ips_SchemaVersion = sv, ips_NodeID = node, ips_TenantID = tenant, ips_InstanceID = inst,
                 ips_RuntimeRef = ref, ips_GrantID = grant, ips_Generation = gen, ips_CapsuleDigest = cap,
                 ips_PolicyDigest = pol, ips_InteractionID = interaction, ips_RequestDigest = reqdigest,
                 ips_ResponseDigest = respdigest, ips_ResponseBytes = respbytes, ips_NotBefore = nb, ips_ExpiresAt = ex\<rparr>
           | _ \<Rightarrow> None)
      | _ \<Rightarrow> None)"

text \<open>\<open>json.Marshal\<close> of the struct \<open>Statement\<close>, from its field tags.\<close>

definition ip_statement_json :: "InteractionStatement \<Rightarrow> json" where
  "ip_statement_json s = JObj
     [(''schema_version'', JStr (ips_SchemaVersion s)), (''node_id'', JStr (ips_NodeID s)),
      (''tenant_id'', JStr (ips_TenantID s)), (''instance_id'', JStr (ips_InstanceID s)),
      (''runtime_ref'', JStr (ips_RuntimeRef s)), (''grant_id'', JStr (ips_GrantID s)),
      (''generation'', u64_json (ips_Generation s)), (''capsule_digest'', JStr (ips_CapsuleDigest s)),
      (''policy_digest'', JStr (ips_PolicyDigest s)), (''interaction_id'', JStr (ips_InteractionID s)),
      (''request_digest'', JStr (ips_RequestDigest s)), (''response_digest'', JStr (ips_ResponseDigest s)),
      (''response_bytes'', i64_json (ips_ResponseBytes s)), (''not_before'', JStr (ips_NotBefore s)),
      (''expires_at'', JStr (ips_ExpiresAt s))]"

section \<open>Validation\<close>

definition ip_validateStatement :: "InteractionStatement \<Rightarrow> time \<Rightarrow> duration \<Rightarrow> unit result" where
  "ip_validateStatement statement now maxValidity =
     (if ips_SchemaVersion statement \<noteq> ip_SchemaV1 then ip_invalid ''unsupported schema version''
      else if \<not> ip_publicIdentity (ips_NodeID statement) 128 \<or> \<not> ip_publicIdentity (ips_TenantID statement) 128 \<or>
        \<not> ip_publicIdentity (ips_InstanceID statement) 256 \<or> \<not> ip_runtimeRef (ips_RuntimeRef statement) \<or>
        \<not> ip_grantID (ips_GrantID statement) \<or> \<not> ip_interactionID (ips_InteractionID statement)
      then ip_invalid ''statement contains an invalid identity''
      else if ips_Generation statement = 0 then ip_invalid ''generation must be positive''
      else if \<not> ip_digest (ips_CapsuleDigest statement) \<or> \<not> ip_digest (ips_PolicyDigest statement) \<or>
        \<not> ip_digest (ips_RequestDigest statement) \<or> \<not> ip_digest (ips_ResponseDigest statement)
      then ip_invalid ''statement contains an invalid SHA-256 digest''
      else if ips_ResponseBytes statement \<le> 0 \<or> ips_ResponseBytes statement > int MaxResponseBytes
      then ip_invalid ''response size is outside the supported range''
      else (case canonicalTime (ips_NotBefore statement) of
              Inl _ \<Rightarrow> ip_invalid ''not_before''
            | Inr notBefore \<Rightarrow>
                (case canonicalTime (ips_ExpiresAt statement) of
                   Inl _ \<Rightarrow> ip_invalid ''expires_at''
                 | Inr expiresAt \<Rightarrow>
                     if \<not> notBefore < expiresAt \<or> time_sub expiresAt notBefore > maxValidity
                     then ip_invalid ''validity interval is empty or exceeds the local maximum''
                     else if now < notBefore then ip_invalid ''permit is not yet valid according to node time''
                     else if \<not> now < expiresAt then ip_invalid ''permit has expired according to node time''
                     else Ok ())))"

section \<open>Signing, inspection and verification\<close>

definition ip_Sign :: "crypto \<Rightarrow> InteractionStatement \<Rightarrow> bytes \<Rightarrow> bytes \<Rightarrow> bytes result" where
  "ip_Sign c statement keyID private =
     (if \<not> ip_identifier keyID \<or> length private \<noteq> 64 then ip_invalid ''response signing key is invalid''
      else (case canonicalTime (ips_NotBefore statement) of
              Inl _ \<Rightarrow> ip_invalid ''not_before''
            | Inr notBefore \<Rightarrow>
                and_then (ip_validateStatement statement notBefore ip_MaxValidity) (\<lambda>_.
                  case Sign c ip_PayloadType (json_print (ip_statement_json statement)) keyID private of
                    Inl _ \<Rightarrow> ip_invalid ''sign response statement''
                  | Inr envelope \<Rightarrow>
                      (case Marshal envelope of
                         Inl _ \<Rightarrow> ip_invalid ''marshal response envelope''
                       | Inr raw \<Rightarrow>
                           if length raw > ip_MaxEnvelopeBytes then ip_invalid ''marshal response envelope'' else Ok raw))))"

definition ip_inspect :: "crypto \<Rightarrow> bytes \<Rightarrow> (InteractionStatement \<times> bytes \<times> bytes) result" where
  "ip_inspect c raw =
     (if length raw = 0 \<or> length raw > ip_MaxEnvelopeBytes
      then ip_invalid ''envelope is empty or exceeds its limit''
      else (case Parse raw of
        Inl _ \<Rightarrow> ip_invalid ''parse canonical single-signature envelope''
      | Inr envelope \<Rightarrow>
        if PayloadType envelope \<noteq> ip_PayloadType \<or> length (Signatures envelope) \<noteq> 1
        then ip_invalid ''parse canonical single-signature envelope''
        else (case b64_exact (Payload envelope) of
          None \<Rightarrow> ip_invalid ''response payload is not canonical UTF-8''
        | Some payload \<Rightarrow>
          if \<not> valid_utf8 payload then ip_invalid ''response payload is not canonical UTF-8''
          else (case b64_exact (Sig (hd (Signatures envelope))) of
            None \<Rightarrow> ip_invalid ''response signature encoding is invalid''
          | Some signature \<Rightarrow>
            if length signature \<noteq> 64 \<or> \<not> ip_identifier (KeyID (hd (Signatures envelope)))
            then ip_invalid ''response signature encoding is invalid''
            else if Marshal envelope \<noteq> Ok raw then ip_invalid ''response envelope is not canonical''
            else (case ip_decode payload of
              Inl _ \<Rightarrow> ip_invalid ''decode signed statement''
            | Inr wire \<Rightarrow>
              (case ip_statement wire of
                 None \<Rightarrow> ip_invalid ''signed statement omits a required field''
               | Some statement \<Rightarrow> Ok (statement, KeyID (hd (Signatures envelope)), Digest c raw)))))))"

definition ip_InspectUnverified :: "crypto \<Rightarrow> bytes \<Rightarrow> InteractionInspected result" where
  "ip_InspectUnverified c raw =
     and_then (ip_inspect c raw) (\<lambda>(statement, keyID, envelopeDigest).
       case canonicalTime (ips_NotBefore statement) of
         Inl _ \<Rightarrow> ip_invalid ''not_before''
       | Inr notBefore \<Rightarrow>
           and_then (ip_validateStatement statement notBefore ip_MaxValidity) (\<lambda>_.
             Ok \<lparr>ipi_Statement = statement, ipi_KeyID = keyID, ipi_EnvelopeDigest = envelopeDigest\<rparr>))"

definition ip_Verify ::
  "crypto \<Rightarrow> bytes \<Rightarrow> (bytes \<Rightarrow> bytes option) \<Rightarrow> time \<Rightarrow> duration \<Rightarrow> InteractionVerified result" where
  "ip_Verify c raw trusted now maxValidity =
     (if now = zero_time then ip_invalid ''node time is unavailable''
      else if maxValidity \<le> 0 \<or> maxValidity > ip_MaxValidity
      then ip_invalid ''maximum validity must be positive and bounded''
      else and_then (ip_inspect c raw) (\<lambda>(statement, keyID, envelopeDigest).
        case Verify c raw ip_PayloadType trusted of
          Inl _ \<Rightarrow> ip_invalid ''verify DSSE envelope''
        | Inr (payload, verifiedKeyID) \<Rightarrow>
            if verifiedKeyID \<noteq> keyID \<or> \<not> valid_utf8 payload then ip_invalid ''verify DSSE envelope''
            else and_then (ip_validateStatement statement now maxValidity) (\<lambda>_.
              Ok \<lparr>ipv_Statement = statement, ipv_KeyID = keyID, ipv_EnvelopeDigest = envelopeDigest\<rparr>)))"

section \<open>What validation establishes\<close>

text \<open>The checks agree with those of task permits.\<close>

lemma ip_checks:
  "ip_publicIdentity = tp_publicIdentity" "ip_identifier = tp_identifier" "ip_digest = tp_digest"
  "ip_runtimeRef = tp_runtimeRef" "ip_grantID = tp_grantID"
  by (auto simp: fun_eq_iff ip_publicIdentity_def tp_publicIdentity_def ip_identifier_def tp_identifier_def ip_digest_def tp_digest_def
      ip_runtimeRef_def tp_runtimeRef_def ip_grantID_def tp_grantID_def ip_lowerHex_def tp_lowerHex_def list_all_iff)

lemma ip_interactionID_iff: "ip_interactionID s \<longleftrightarrow> prefixed_hex ''interaction-'' s"
  by (auto simp: ip_interactionID_def ip_lowerHex_def prefixed_hex_iff)

lemma ip_interactionID_props: "ip_interactionID s \<Longrightarrow> length s \<le> 76 \<and> valid_utf8 s"
  using prefixed_hex_utf8 [of "''interaction-''" s] by (auto simp: ip_interactionID_iff json_plain_def dest: prefixed_hex_length)

lemma ip_MaxValidity_bound: "0 < ip_MaxValidity" "ip_MaxValidity < max_int64"
  by (simp_all add: ip_MaxValidity_def hour_def minute_def nsec_def max_int64_def)

lemma ip_statement_of_json:
  assumes "in_int64 (ips_ResponseBytes s)"
  shows "ip_statement (ip_statement_json s) = Some s"
  using assms
  by (simp add: ip_statement_def ip_statement_json_def opt_str_def opt_u64_def opt_i64_def member_JObj u64_json_def i64_json_def)

lemma conforms_ip_statement_json: "in_int64 (ips_ResponseBytes s) \<Longrightarrow> conforms ip_wireStatement 0 (ip_statement_json s)"
  by (simp add: ip_wireStatement_def ip_statement_json_def u64_json_def i64_json_def)

lemma ip_validateStatement_iff:
  assumes "0 < m" "m < max_int64"
  shows "ip_validateStatement s now m = Ok () \<longleftrightarrow>
     ips_SchemaVersion s = ip_SchemaV1 \<and>
     tp_publicIdentity (ips_NodeID s) 128 \<and> tp_publicIdentity (ips_TenantID s) 128 \<and>
     tp_publicIdentity (ips_InstanceID s) 256 \<and> tp_runtimeRef (ips_RuntimeRef s) \<and> tp_grantID (ips_GrantID s) \<and>
     ip_interactionID (ips_InteractionID s) \<and> ips_Generation s \<noteq> 0 \<and>
     tp_digest (ips_CapsuleDigest s) \<and> tp_digest (ips_PolicyDigest s) \<and> tp_digest (ips_RequestDigest s) \<and> tp_digest (ips_ResponseDigest s) \<and>
     0 < ips_ResponseBytes s \<and> ips_ResponseBytes s \<le> int MaxResponseBytes \<and>
     is_ok (canonicalTime (ips_NotBefore s)) \<and> is_ok (canonicalTime (ips_ExpiresAt s)) \<and>
     instant (ips_NotBefore s) \<le> now \<and> now < instant (ips_ExpiresAt s) \<and>
     instant (ips_ExpiresAt s) - instant (ips_NotBefore s) \<le> m"
proof -
  have sub: "time_sub a b > m \<longleftrightarrow> a - b > m" for a b
    using time_sub_le_iff [of m a b] assms by force
  show ?thesis
    unfolding ip_validateStatement_def sub ip_checks
    by (auto simp: is_ok_iff instant_def split: sum.splits if_splits)
qed

definition ip_accepts :: "InteractionStatement \<Rightarrow> time \<Rightarrow> duration \<Rightarrow> bool" where
  "ip_accepts s now m \<longleftrightarrow> 0 < m \<and> m \<le> ip_MaxValidity \<and> ip_validateStatement s now m = Ok ()"

lemma ip_accepts_iff:
  "ip_accepts s now m \<longleftrightarrow> 0 < m \<and> m \<le> ip_MaxValidity \<and> ip_accepts s (instant (ips_NotBefore s)) ip_MaxValidity \<and>
     instant (ips_NotBefore s) \<le> now \<and> now < instant (ips_ExpiresAt s) \<and>
     instant (ips_ExpiresAt s) - instant (ips_NotBefore s) \<le> m"
proof (cases "0 < m \<and> m \<le> ip_MaxValidity")
  case True
  then have "0 < m" "m < max_int64" using ip_MaxValidity_bound by linarith+
  with True show ?thesis
    unfolding ip_accepts_def using ip_MaxValidity_bound
    by (auto simp: ip_validateStatement_iff)
qed (auto simp: ip_accepts_def)

interpretation interaction_validity:
  validity_contract ip_accepts "\<lambda>s. instant (ips_NotBefore s)" "\<lambda>s. instant (ips_ExpiresAt s)" ip_MaxValidity
proof unfold_locales
  fix p :: InteractionStatement and now m now' m'
  show "ip_accepts p now m \<Longrightarrow> instant (ips_NotBefore p) \<le> now \<and> now < instant (ips_ExpiresAt p)"
    using ip_accepts_iff by blast
  show "ip_accepts p now m \<Longrightarrow> instant (ips_ExpiresAt p) - instant (ips_NotBefore p) \<le> m \<and> m \<le> ip_MaxValidity"
    using ip_accepts_iff by blast
  show "ip_accepts p now m \<Longrightarrow> instant (ips_NotBefore p) \<le> now' \<Longrightarrow> now' < instant (ips_ExpiresAt p) \<Longrightarrow>
      instant (ips_ExpiresAt p) - instant (ips_NotBefore p) \<le> m' \<Longrightarrow> m' \<le> ip_MaxValidity \<Longrightarrow> ip_accepts p now' m'"
    using ip_accepts_iff [of p now m] ip_accepts_iff [of p now' m'] by auto
qed

section \<open>What inspection and verification accept\<close>

text \<open>The envelope \<open>raw\<close> is canonical, has the single signature \<open>s\<close>, and its payload \<open>p\<close> is a complete
  statement \<open>st\<close>.\<close>

definition ip_opened :: "bytes \<Rightarrow> Signature \<Rightarrow> bytes \<Rightarrow> InteractionStatement \<Rightarrow> bool" where
  "ip_opened raw s p st \<longleftrightarrow> raw \<noteq> [] \<and> length raw \<le> ip_MaxEnvelopeBytes \<and>
     (\<exists>e sig wire. Parse raw = Ok e \<and> Marshal e = Ok raw \<and> PayloadType e = ip_PayloadType \<and> Signatures e = [s] \<and>
        Payload e = b64_encode Std p \<and> valid_utf8 p \<and> Sig s = b64_encode Std sig \<and> length sig = 64 \<and>
        ip_identifier (KeyID s) \<and> ip_decode p = Ok wire \<and> ip_statement wire = Some st)"

lemma ip_inspect_iff:
  "ip_inspect c raw = Ok i \<longleftrightarrow> (\<exists>s p st. ip_opened raw s p st \<and> i = (st, KeyID s, Digest c raw))"
  (is "?L = ?R")
proof
  assume ?L
  then show ?R
    unfolding ip_inspect_def ip_opened_def
    by (fastforce simp: length_Suc_conv not_less split: if_splits sum.splits option.splits)
next
  assume ?R
  then show ?L unfolding ip_inspect_def ip_opened_def by auto
qed

lemma ip_accepts_times:
  assumes "ip_accepts st now m"
  shows "canonicalTime (ips_NotBefore st) = Ok (instant (ips_NotBefore st))"
    "canonicalTime (ips_ExpiresAt st) = Ok (instant (ips_ExpiresAt st))"
  using assms by (auto simp: ip_accepts_def ip_validateStatement_def instant_def split: if_splits sum.splits)

lemma ip_Inspect_iff:
  "ip_InspectUnverified c raw = Ok i \<longleftrightarrow>
     (\<exists>s p st. ip_opened raw s p st \<and> ip_accepts st (instant (ips_NotBefore st)) ip_MaxValidity \<and>
        i = \<lparr>ipi_Statement = st, ipi_KeyID = KeyID s, ipi_EnvelopeDigest = Digest c raw\<rparr>)"
proof -
  have "(case canonicalTime (ips_NotBefore st) of Inl _ \<Rightarrow> ip_invalid ''not_before''
       | Inr nb \<Rightarrow> and_then (ip_validateStatement st nb ip_MaxValidity) (\<lambda>_. Ok r)) = Ok i \<longleftrightarrow>
      ip_accepts st (instant (ips_NotBefore st)) ip_MaxValidity \<and> i = r" for st r
    using ip_MaxValidity_bound ip_accepts_times(1) [of st "instant (ips_NotBefore st)" ip_MaxValidity]
    by (auto simp: ip_accepts_def instant_def and_then_Inr_iff split: sum.splits)
  then show ?thesis
    unfolding ip_InspectUnverified_def by (auto simp: and_then_Inr_iff ip_inspect_iff) blast
qed

lemma ip_decode_payload_bound: "ip_decode p = Ok w \<Longrightarrow> length p \<le> MaxPayloadBytes"
  by (simp add: ip_decode_def DecodeStrictInto_iff ip_MaxEnvelopeBytes_def MaxPayloadBytes_def)

lemma ip_opened_Verify:
  assumes "ip_opened raw s p st"
  shows "Verify c raw ip_PayloadType trusted = Ok (q, k) \<longleftrightarrow> q = p \<and> k = KeyID s \<and> authentic c trusted (PAE ip_PayloadType p) s"
proof -
  obtain e sig wire where e: "Parse raw = Ok e" "PayloadType e = ip_PayloadType" "Signatures e = [s]" "Payload e = b64_encode Std p"
    "ip_decode p = Ok wire"
    using assms unfolding ip_opened_def by blast
  then show ?thesis
    unfolding Verify_Ok_iff using ip_decode_payload_bound [OF e(5)] by (auto split: if_splits)
qed

lemma ip_Verify_iff:
  "ip_Verify c raw trusted now m = Ok r \<longleftrightarrow> now \<noteq> zero_time \<and>
     (\<exists>s p st. ip_opened raw s p st \<and> authentic c trusted (PAE ip_PayloadType p) s \<and> ip_accepts st now m \<and>
        r = \<lparr>ipv_Statement = st, ipv_KeyID = KeyID s, ipv_EnvelopeDigest = Digest c raw\<rparr>)"
  (is "?L = ?R")
proof
  assume L: ?L
  then obtain i where i: "ip_inspect c raw = Ok i" "now \<noteq> zero_time" "0 < m" "m \<le> ip_MaxValidity"
    unfolding ip_Verify_def by (auto simp: and_then_Inr_iff not_le not_less split: if_splits)
  from i(1) obtain s p st where o: "ip_opened raw s p st" "i = (st, KeyID s, Digest c raw)"
    unfolding ip_inspect_iff by blast
  obtain q k where "Verify c raw ip_PayloadType trusted = Ok (q, k)" "ip_validateStatement st now m = Ok ()"
    "r = \<lparr>ipv_Statement = st, ipv_KeyID = KeyID s, ipv_EnvelopeDigest = Digest c raw\<rparr>"
    using L unfolding ip_Verify_def i(1) o(2)
    by (cases "Verify c raw ip_PayloadType trusted") (auto simp: and_then_Inr_iff split: if_splits)
  with ip_opened_Verify [OF o(1)] o i(2-4) show ?R by (auto simp: ip_accepts_def)
next
  assume ?R
  then obtain s p st where h: "now \<noteq> zero_time" "ip_opened raw s p st" "authentic c trusted (PAE ip_PayloadType p) s" "ip_accepts st now m"
    and r: "r = \<lparr>ipv_Statement = st, ipv_KeyID = KeyID s, ipv_EnvelopeDigest = Digest c raw\<rparr>"
    by blast
  have "ip_inspect c raw = Ok (st, KeyID s, Digest c raw)" using h(2) ip_inspect_iff by blast
  moreover have "Verify c raw ip_PayloadType trusted = Ok (p, KeyID s)" using ip_opened_Verify [OF h(2)] h(3) by blast
  moreover have "valid_utf8 p" using h(2) by (auto simp: ip_opened_def)
  ultimately show ?L using h r by (auto simp: ip_Verify_def ip_accepts_def)
qed

lemma ip_opened_unique:
  "ip_opened raw s p st \<Longrightarrow> ip_opened raw s' p' st' \<Longrightarrow> s = s' \<and> p = p' \<and> st = st'"
  unfolding ip_opened_def by auto

section \<open>Every acceptable statement fits its envelope\<close>

lemma ip_accepts_fields:
  assumes "ip_accepts st now m"
  shows "ips_SchemaVersion st = ip_SchemaV1" "length (ips_NodeID st) \<le> 128" "length (ips_TenantID st) \<le> 128"
    "length (ips_InstanceID st) \<le> 256" "length (ips_RuntimeRef st) \<le> 73" "length (ips_GrantID st) \<le> 70"
    "length (ips_CapsuleDigest st) \<le> 71" "length (ips_PolicyDigest st) \<le> 71" "length (ips_InteractionID st) \<le> 76"
    "length (ips_RequestDigest st) \<le> 71" "length (ips_ResponseDigest st) \<le> 71" "in_int64 (ips_ResponseBytes st)"
    "length (ips_NotBefore st) \<le> 20" "length (ips_ExpiresAt st) \<le> 20" "wf_json (ip_statement_json st)"
proof -
  have m: "0 < m" "m < max_int64" using assms ip_MaxValidity_bound by (auto simp: ip_accepts_def)
  note v = assms [unfolded ip_accepts_def ip_validateStatement_iff [OF m]]
  note t = ip_accepts_times [OF assms]
  show "ips_SchemaVersion st = ip_SchemaV1" "length (ips_NodeID st) \<le> 128" "length (ips_TenantID st) \<le> 128"
    "length (ips_InstanceID st) \<le> 256" "length (ips_RuntimeRef st) \<le> 73" "length (ips_GrantID st) \<le> 70"
    "length (ips_CapsuleDigest st) \<le> 71" "length (ips_PolicyDigest st) \<le> 71" "length (ips_InteractionID st) \<le> 76"
    "length (ips_RequestDigest st) \<le> 71" "length (ips_ResponseDigest st) \<le> 71"
    using v tp_publicIdentity_props tp_runtimeRef_props tp_grantID_props tp_digest_props ip_interactionID_props by blast+
  show "in_int64 (ips_ResponseBytes st)"
    using v by (simp add: in_int64_def min_int64_def max_int64_def MaxResponseBytes_def)
  show "length (ips_NotBefore st) \<le> 20" "length (ips_ExpiresAt st) \<le> 20"
    using t canonicalTime_length by fastforce+
  show "wf_json (ip_statement_json st)"
    using v canonicalTime_utf8 [OF t(1)] canonicalTime_utf8 [OF t(2)]
    by (simp add: ip_statement_json_def valid_utf8_ascii ip_SchemaV1_def tp_publicIdentity_def
        conjunct2 [OF tp_runtimeRef_props] conjunct2 [OF tp_grantID_props] conjunct2 [OF tp_digest_props]
        conjunct2 [OF ip_interactionID_props])
qed

lemma ip_statement_size:
  assumes "ip_accepts st now m"
  shows "length (json_print (ip_statement_json st)) \<le> 10400"
proof -
  note f = ip_accepts_fields [OF assms]
  have "member_sizes (case ip_statement_json st of JObj ms \<Rightarrow> ms | _ \<Rightarrow> []) \<le> 10350"
    using json_quote_bound [OF f(2)] json_quote_bound [OF f(3)] json_quote_bound [OF f(4)] json_quote_bound [OF f(5)]
      json_quote_bound [OF f(6)] json_quote_bound [OF f(7)] json_quote_bound [OF f(8)] json_quote_bound [OF f(9)]
      json_quote_bound [OF f(10)] json_quote_bound [OF f(11)] printed_i64 [OF f(12)] json_quote_bound [OF f(13)]
      json_quote_bound [OF f(14)] printed_u64 [of "ips_Generation st"] json_quote_bound [of "ip_SchemaV1" 31]
    by (simp add: ip_statement_json_def member_sizes_def f(1) ip_SchemaV1_def)
  moreover have "length (json_print (ip_statement_json st)) \<le> member_sizes (case ip_statement_json st of JObj ms \<Rightarrow> ms | _ \<Rightarrow> []) + 2"
    using printed_object [of "case ip_statement_json st of JObj ms \<Rightarrow> ms | _ \<Rightarrow> []"]
    by (simp add: ip_statement_json_def)
  ultimately show ?thesis by linarith
qed

section \<open>Signed permits open\<close>

lemma ip_PayloadType_good: "\<not> bad_name ip_PayloadType" "valid_utf8 ip_PayloadType" "length ip_PayloadType \<le> 64"
  using bad_name_plain [of ip_PayloadType] by (simp_all add: ip_PayloadType_def valid_utf8_ascii)

lemma ip_signed_opened:
  assumes "crypto_ok c" "ip_accepts st now m" "ip_identifier k" "length key = 64"
  obtains raw s where "ip_Sign c st k key = Ok raw" "ip_opened raw s (json_print (ip_statement_json st)) st" "KeyID s = k"
    "Sig s = b64_encode Std (ed_sign c key (PAE ip_PayloadType (json_print (ip_statement_json st))))"
proof -
  let ?p = "json_print (ip_statement_json st)"
  note f = ip_accepts_fields [OF assms(2)]
  have p: "?p \<noteq> []" "valid_utf8 ?p" "length ?p \<le> 10400"
    using json_print_hd [OF f(15)] json_print_utf8(1) [OF f(15)] ip_statement_size [OF assms(2)] by simp_all
  have k: "\<not> bad_name k" "valid_utf8 k" "length k \<le> 128"
    using assms(3) identifier_good_name tp_identifier_props by (auto simp: ip_checks tp_identifier_def)
  obtain e where e: "Sign c ip_PayloadType ?p k key = Ok e"
    using ip_PayloadType_good k p assms(4) by (simp add: Sign_def MaxPayloadBytes_def)
  note se = Sign_Ok [OF e]
  obtain raw where raw: "Marshal e = Ok raw" "Parse raw = Ok e"
    by (rule Sign_Marshal_Parse [OF assms(1) e p(1) ip_PayloadType_good(2) k(2)])
  have r: "raw = json_print (envelope_json e)" using raw(1) by (auto simp: Marshal_def and_then_Inr_iff)
  have "length raw \<le> b64_encoded_len Std (length ?p) + 2000"
    unfolding r using se ip_PayloadType_good(3) k(3) ed_sign_length [OF assms(1,4)]
    by (intro printed_envelope) (auto simp: length_b64_encode b64_encoded_len_def)
  also have "b64_encoded_len Std (length ?p) \<le> b64_encoded_len Std 10400" by (rule b64_encoded_len_mono [OF p(3)])
  finally have size: "length raw \<le> ip_MaxEnvelopeBytes" by (simp add: b64_encoded_len_def ip_MaxEnvelopeBytes_def)
  have "ip_decode ?p = Ok (ip_statement_json st)"
    unfolding ip_decode_def
    by (rule DecodeStrictInto_print [OF f(15) _ conforms_ip_statement_json [OF f(12)]])
      (use p(3) in \<open>simp add: ip_MaxEnvelopeBytes_def\<close>)
  moreover have "raw \<noteq> []" using raw(2) by (auto simp: Parse_Ok_iff)
  ultimately have o: "ip_opened raw (hd (Signatures e)) ?p st"
    unfolding ip_opened_def
    using raw size se assms(3) p(2) ip_statement_of_json [OF f(12)] ed_sign_length [OF assms(1,4)] by auto
  have a: "ip_accepts st (instant (ips_NotBefore st)) ip_MaxValidity" using assms(2) ip_accepts_iff by blast
  have "ip_Sign c st k key = Ok raw"
    using a e raw(1) size assms(3,4) by (simp add: ip_Sign_def ip_accepts_times(1) [OF a] ip_accepts_def)
  from that [OF this o] se(3) show ?thesis by simp
qed

text \<open>\<open>Sign\<close> refuses what verification would refuse, so what it returns is an envelope of an acceptable statement.\<close>

lemma ip_Sign_accepts:
  assumes "ip_Sign c st k key = Ok raw"
  shows "ip_accepts st (instant (ips_NotBefore st)) ip_MaxValidity" "ip_identifier k" "length key = 64"
  using assms ip_MaxValidity_bound(1)
  by (auto simp: ip_Sign_def ip_accepts_def instant_def and_then_Inr_iff split: if_splits sum.splits)

section \<open>A concrete permit for the witnesses\<close>

definition demo_response :: InteractionStatement where
  "demo_response = \<lparr>ips_SchemaVersion = ip_SchemaV1, ips_NodeID = ''node'', ips_TenantID = ''tenant'', ips_InstanceID = ''instance'',
     ips_RuntimeRef = ''executor-'' @ replicate 64 (CHR ''a''), ips_GrantID = ''grant-'' @ replicate 64 (CHR ''a''),
     ips_Generation = 1, ips_CapsuleDigest = demo_digest, ips_PolicyDigest = demo_digest,
     ips_InteractionID = ''interaction-'' @ replicate 64 (CHR ''a''), ips_RequestDigest = demo_digest, ips_ResponseDigest = demo_digest,
     ips_ResponseBytes = 10, ips_NotBefore = time_format 0, ips_ExpiresAt = time_format (10 * minute)\<rparr>"

lemma prefixed_demo: "prefixed_hex p (p @ replicate 64 (CHR ''a''))"
  by (auto simp: prefixed_hex_def is_lower_hex_def list_all_iff intro: exI [of _ "replicate 64 (CHR ''a'')"])

lemma demo_response_accepted: "ip_accepts demo_response (5 * minute) ip_MaxValidity"
proof -
  have t: "canonicalTime (time_format 0) = Ok 0" "canonicalTime (time_format (10 * minute)) = Ok (10 * minute)"
    by (auto intro!: canonicalTime_format simp: sane_clock_def minute_def nsec_def)
  have id: "tp_publicIdentity ''node'' 128" "tp_publicIdentity ''tenant'' 128" "tp_publicIdentity ''instance'' 256"
    by (simp_all add: tp_publicIdentity_def trim_space_ascii is_space_def valid_utf8_ascii contains_nul_def)
  show ?thesis
    unfolding ip_accepts_def ip_validateStatement_iff [OF ip_MaxValidity_bound]
    using t ip_MaxValidity_bound(1) prefixed_demo [of "''executor-''"] prefixed_demo [of "''grant-''"] prefixed_demo [of "''interaction-''"]
      id demo_digest_hex
    by (simp add: demo_response_def tp_runtimeRef_iff tp_grantID_iff tp_digest_iff ip_interactionID_iff instant_def MaxResponseBytes_def
        ip_MaxValidity_def hour_def minute_def nsec_def)
qed

section \<open>Properties\<close>

text \<open>a response that an operator signs is accepted by exactly the key it was signed for. \<open>Sign\<close> returns an envelope for every
  statement and key that pass its checks, never one over 16 KiB, and \<open>Verify\<close> of that envelope at a node that trusts the key returns the
  statement, the key ID and the digest of the envelope if and only if the time lies in the signed interval and the interval
  is within the local maximum.\<close>

theorem ip_Sign_Verify:
  assumes "crypto_ok c" "trusted k = Some (ed_public c key)" "now \<noteq> zero_time" "0 < m" "m \<le> ip_MaxValidity"
    "ip_accepts st (instant (ips_NotBefore st)) ip_MaxValidity" "ip_identifier k" "length key = 64"
  shows "\<exists>raw. ip_Sign c st k key = Ok raw \<and> length raw \<le> ip_MaxEnvelopeBytes \<and>
    (ip_Verify c raw trusted now m = Ok \<lparr>ipv_Statement = st, ipv_KeyID = k, ipv_EnvelopeDigest = Digest c raw\<rparr> \<longleftrightarrow>
      instant (ips_NotBefore st) \<le> now \<and> now < instant (ips_ExpiresAt st) \<and> instant (ips_ExpiresAt st) - instant (ips_NotBefore st) \<le> m)"
proof -
  obtain raw s where r: "ip_Sign c st k key = Ok raw" "ip_opened raw s (json_print (ip_statement_json st)) st" "KeyID s = k"
    "Sig s = b64_encode Std (ed_sign c key (PAE ip_PayloadType (json_print (ip_statement_json st))))"
    by (rule ip_signed_opened [OF assms(1,6,7,8)])
  have a: "authentic c trusted (PAE ip_PayloadType (json_print (ip_statement_json st))) s"
    using assms(2) r(3,4) by (intro crypto_ok_sign [OF assms(1,8)]) simp_all
  have "ip_Verify c raw trusted now m = Ok \<lparr>ipv_Statement = st, ipv_KeyID = k, ipv_EnvelopeDigest = Digest c raw\<rparr> \<longleftrightarrow> ip_accepts st now m"
    unfolding ip_Verify_iff using r a assms(3) by auto
  then show ?thesis using r assms(4-6) ip_accepts_iff [of st now m] by (auto simp: ip_opened_def)
qed

theorem ip_Sign_Verify_witness:
  "\<exists>raw. ip_Sign demo_crypto demo_response ''key'' demo_key = Ok raw \<and> length raw \<le> ip_MaxEnvelopeBytes \<and>
    (ip_Verify demo_crypto raw demo_trusted (5 * minute) ip_MaxValidity =
        Ok \<lparr>ipv_Statement = demo_response, ipv_KeyID = ''key'', ipv_EnvelopeDigest = Digest demo_crypto raw\<rparr> \<longleftrightarrow>
      instant (ips_NotBefore demo_response) \<le> 5 * minute \<and> 5 * minute < instant (ips_ExpiresAt demo_response) \<and>
      instant (ips_ExpiresAt demo_response) - instant (ips_NotBefore demo_response) \<le> ip_MaxValidity)"
proof (rule ip_Sign_Verify)
  show "ip_accepts demo_response (instant (ips_NotBefore demo_response)) ip_MaxValidity"
    using demo_response_accepted ip_accepts_iff by blast
qed (simp_all add: ip_identifier_def identifier_pattern_def alnum_def is_lower_def demo_trusted_def ip_MaxValidity_bound
      zero_time_def minute_def nsec_def)

end
