(* ===== verification/Gateway_Text.thy ===== *)
theory Gateway_Text
  imports Interaction_Permit
begin

text \<open>
  The checks of strings that the Gateway's inbox and the control protocol share: identifiers (\<open>internal/gateway/config.go\<close>,
  \<open>server.go\<close>), agent text (\<open>events.go\<close>), the identities of events and interactions, and
  the RFC 3339 times with a zone that Go's parser takes. The protocol package (\<open>internal/controlprotocol/instance_events.go\<close>) has
  its own copies; the theory shows where the two sides agree.
\<close>

section \<open>Identifiers of the Gateway\<close>

definition gw_routeID :: "bytes \<Rightarrow> bool" where
  "gw_routeID value =
     (if value = [] \<or> length value > 128 then False
      else list_all (\<lambda>(i, character). is_upper character \<or> is_lower character \<or> is_digit character \<or>
             i > 0 \<and> (character = CHR ''.'' \<or> character = CHR ''_'' \<or> character = CHR ''-'')) (enumerate 0 value))"

definition gw_bounded :: "bytes \<Rightarrow> nat \<Rightarrow> bool" where
  "gw_bounded value limit \<longleftrightarrow> trim_space value \<noteq> [] \<and> length value \<le> limit \<and> \<not> contains_nul value"

definition gw_lowerHex :: "bytes \<Rightarrow> bool" where
  "gw_lowerHex value \<longleftrightarrow> value \<noteq> [] \<and> list_all is_lower_hex value"

definition validExecutorRuntimeRef :: "bytes \<Rightarrow> bool" where
  "validExecutorRuntimeRef value \<longleftrightarrow>
     has_prefix value ''executor-'' \<and> length value = length ''executor-'' + 64 \<and> gw_lowerHex (drop (length ''executor-'') value)"

definition validSHA256Digest :: "bytes \<Rightarrow> bool" where
  "validSHA256Digest value \<longleftrightarrow>
     has_prefix value ''sha256:'' \<and> length value = length ''sha256:'' + 64 \<and> gw_lowerHex (drop (length ''sha256:'') value)"

definition validGrantID :: "bytes \<Rightarrow> bool" where
  "validGrantID i =
     (if \<not> has_prefix i ''grant-'' \<or> length i \<noteq> length ''grant-'' + 64 then False
      else list_all is_lower_hex (trim_prefix i ''grant-''))"

definition eventText :: "bytes \<Rightarrow> nat \<Rightarrow> bool" where
  "eventText value limit =
     (if value = [] \<or> length value > limit \<or> \<not> valid_utf8 value \<or> trim_space value \<noteq> value then False
      else list_all (\<lambda>(character, _). \<not> IsControl character) (runes value))"

text \<open>The prefix and 64 hexadecimal digits of either case.\<close>

definition cp_prefixedDigest :: "bytes \<Rightarrow> bytes \<Rightarrow> bool" where
  "cp_prefixedDigest value prefix =
     (if \<not> has_prefix value prefix \<or> length value \<noteq> length prefix + 64 then False
      else hex_decode (trim_prefix value prefix) \<noteq> None)"

definition validInstanceEventID :: "bytes \<Rightarrow> bool" where
  "validInstanceEventID value =
     (if \<not> has_prefix value ''event-'' \<or> length value \<noteq> length ''event-'' + 64 then False
      else hex_decode (trim_prefix value ''event-'') \<noteq> None)"

definition validInteractionID :: "bytes \<Rightarrow> bool" where
  "validInteractionID value =
     (if \<not> has_prefix value ''interaction-'' \<or> length value \<noteq> length ''interaction-'' + 64 then False
      else hex_decode (trim_prefix value ''interaction-'') \<noteq> None)"

definition instanceEventID :: "crypto \<Rightarrow> bytes \<Rightarrow> bytes \<Rightarrow> bytes" where
  "instanceEventID c grantID idempotencyKey =
     ''event-'' @ hex_encode (sha256 c (''steward-instance-event-v1'' @ [chr 0] @ grantID @ [chr 0] @ idempotencyKey))"

definition interactionID :: "crypto \<Rightarrow> bytes \<Rightarrow> bytes \<Rightarrow> bytes" where
  "interactionID c grantID idempotencyKey =
     ''interaction-'' @ hex_encode (sha256 c (''steward-interaction-v1'' @ [chr 0] @ grantID @ [chr 0] @ idempotencyKey))"

section \<open>Identifiers of the control protocol\<close>

definition recordID :: "bytes \<Rightarrow> nat \<Rightarrow> bool" where
  "recordID value limit =
     (if value = [] \<or> length value > limit then False
      else list_all (\<lambda>(index, character). is_lower character \<or> is_upper character \<or> is_digit character \<or>
             index > 0 \<and> (character = CHR ''-'' \<or> character = CHR ''_'' \<or> character = CHR ''.'')) (enumerate 0 value))"

definition cp_text :: "bytes \<Rightarrow> nat \<Rightarrow> bool" where
  "cp_text value limit =
     (if value = [] \<or> length value > limit \<or> \<not> valid_utf8 value \<or> trim_space value \<noteq> value then False
      else list_all (\<lambda>(character, _). \<not> IsControl character) (runes value))"

definition sha256Digest :: "bytes \<Rightarrow> bool" where
  "sha256Digest value = cp_prefixedDigest value ''sha256:''"

section \<open>Times with a zone\<close>

text \<open>
  \<open>time.Parse\<close> with the layout \<open>RFC3339Nano\<close>: the hour may have one digit, the fraction any number of digits after a point or a comma,
  and the zone is \<open>Z\<close> or an offset of at most 24 hours and 60 minutes. The result is the local time in seconds, the nanoseconds and the
  offset in seconds.
\<close>

definition one_digit_hour :: "bytes \<Rightarrow> bytes" where
  "one_digit_hour s = (if length s > 12 \<and> s ! 12 = CHR '':'' then take 11 s @ ''0'' @ drop 11 s else s)"

definition zone_offset :: "bytes \<Rightarrow> int option" where
  "zone_offset z =
     (if z = ''Z'' then Some 0
      else (case z of
          [sg, h1, h2, co, m1, m2] \<Rightarrow>
            (case (atoi [h1, h2], atoi [m1, m2]) of
               (Some h, Some m) \<Rightarrow>
                 if co = CHR '':'' \<and> h \<le> 24 \<and> m \<le> 60 then
                   (if sg = CHR ''+'' then Some (int (3600 * h + 60 * m))
                    else if sg = CHR ''-'' then Some (- int (3600 * h + 60 * m)) else None)
                 else None
             | _ \<Rightarrow> None)
        | _ \<Rightarrow> None))"

definition nanos_of :: "bytes \<Rightarrow> int" where
  "nanos_of digits = (case atoi (take 9 (digits @ replicate 9 (CHR ''0''))) of None \<Rightarrow> 0 | Some n \<Rightarrow> int n)"

definition rfc3339 :: "bytes \<Rightarrow> (int \<times> int \<times> int) option" where
  "rfc3339 value =
     (let s = one_digit_hour value; rest = drop 19 s;
          digits = (if length rest \<ge> 2 \<and> (hd rest = CHR ''.'' \<or> hd rest = CHR '','') then takeWhile is_digit (tl rest) else []);
          zone = (if digits = [] then rest else drop (Suc (length digits)) rest)
      in case (parse_seconds (take 19 s), zone_offset zone) of
           (Some secs, Some off) \<Rightarrow> Some (secs, nanos_of digits, off)
         | _ \<Rightarrow> None)"

text \<open>\<open>Format(time.RFC3339Nano)\<close> in the zone of the offset.\<close>

definition format_zone :: "int \<Rightarrow> int \<Rightarrow> int \<Rightarrow> bytes" where
  "format_zone secs ns off =
     format_seconds secs @ (if ns = 0 then [] else ''.'' @ trim_zeros (pad 9 (nat ns))) @
     (if off = 0 then ''Z''
      else (if off < 0 then ''-'' else ''+'') @ pad 2 (nat (\<bar>off\<bar> div 3600)) @ '':'' @ pad 2 (nat (\<bar>off\<bar> div 60 mod 60)))"

text \<open>Parsing followed by the comparison of the re-formatted time with the input: the instant of a canonical time.\<close>

definition canonical_zoned :: "bytes \<Rightarrow> time option" where
  "canonical_zoned value =
     (case rfc3339 value of
        None \<Rightarrow> None
      | Some (secs, ns, off) \<Rightarrow> if format_zone secs ns off = value then Some ((secs - off) * nsec + ns) else None)"

text \<open>The same with the comparison in UTC, which also refuses the zero time.\<close>

definition canonical_nano :: "bytes \<Rightarrow> time result" where
  "canonical_nano value =
     (case rfc3339 value of
        None \<Rightarrow> errorf ''interaction timestamp is not canonical UTC''
      | Some (secs, ns, off) \<Rightarrow>
          let parsed = (secs - off) * nsec + ns
          in if parsed = zero_time \<or> format_nano parsed \<noteq> value then errorf ''interaction timestamp is not canonical UTC'' else Ok parsed)"

definition timestamp :: "bytes \<Rightarrow> bool" where
  "timestamp value \<longleftrightarrow> canonical_zoned value \<noteq> None"

section \<open>The two sides agree\<close>

lemma enumerate_tail:
  "list_all (\<lambda>(i, c). P c \<or> i > 0 \<and> Q c) (enumerate (Suc n) cs) = list_all (\<lambda>c. P c \<or> Q c) cs"
  by (induction cs arbitrary: n) auto

lemma enumerate_identifier:
  "list_all (\<lambda>(i, c). P c \<or> i > 0 \<and> Q c) (enumerate 0 (c # cs)) \<longleftrightarrow> P c \<and> list_all (\<lambda>c. P c \<or> Q c) cs"
  using enumerate_tail [of P Q 0 cs] by simp

lemma gw_routeID_iff: "gw_routeID s \<longleftrightarrow> identifier_pattern 127 s"
proof (cases s)
  case (Cons c cs)
  have "gw_routeID s \<longleftrightarrow> length cs \<le> 127 \<and>
      list_all (\<lambda>(i, c). alnum c \<or> i > 0 \<and> (c = CHR ''.'' \<or> c = CHR ''_'' \<or> c = CHR ''-'')) (enumerate 0 (c # cs))"
    by (auto simp: gw_routeID_def Cons alnum_def disj_assoc)
  then show ?thesis
    unfolding enumerate_identifier by (auto simp: Cons identifier_pattern_def)
qed (simp add: gw_routeID_def identifier_pattern_def)

lemma recordID_iff: "recordID s 128 \<longleftrightarrow> gw_routeID s"
proof -
  have "(is_lower c \<or> is_upper c \<or> is_digit c \<or> i > (0::nat) \<and> (c = CHR ''-'' \<or> c = CHR ''_'' \<or> c = CHR ''.'')) \<longleftrightarrow>
      (is_upper c \<or> is_lower c \<or> is_digit c \<or> i > 0 \<and> (c = CHR ''.'' \<or> c = CHR ''_'' \<or> c = CHR ''-''))" for i c
    by blast
  then show ?thesis unfolding recordID_def gw_routeID_def by presburger
qed

lemma text_checks: "eventText = responseText" "cp_text = responseText"
  by (simp_all add: fun_eq_iff eventText_def cp_text_def responseText_def)

lemma valid_hex_checks:
  "validExecutorRuntimeRef s \<longleftrightarrow> prefixed_hex ''executor-'' s" "validSHA256Digest s \<longleftrightarrow> prefixed_hex ''sha256:'' s"
  "validGrantID s \<longleftrightarrow> prefixed_hex ''grant-'' s"
  by (auto simp: validExecutorRuntimeRef_def validSHA256Digest_def validGrantID_def gw_lowerHex_def prefixed_hex_iff trim_prefix_def)

lemma hex_decode_lower64: "length h = 64 \<Longrightarrow> list_all is_lower_hex h \<Longrightarrow> hex_decode h \<noteq> None"
  using hex_reencode_iff [of h] by (auto simp: list_all_iff)

lemma cp_prefixedDigest_lower: "prefixed_hex p s \<Longrightarrow> cp_prefixedDigest s p"
  using hex_decode_lower64 by (auto simp: prefixed_hex_def cp_prefixedDigest_def has_prefix_def trim_prefix_def)

lemma id_checks: "validInstanceEventID s = cp_prefixedDigest s ''event-''" "validInteractionID s = cp_prefixedDigest s ''interaction-''"
  by (simp_all add: validInstanceEventID_def validInteractionID_def cp_prefixedDigest_def)

lemma instanceEventID_hex: "crypto_ok c \<Longrightarrow> prefixed_hex ''event-'' (instanceEventID c g k)"
  unfolding instanceEventID_def by (rule prefixed_hex_encode) (simp add: crypto_ok_def)

lemma interactionID_hex: "crypto_ok c \<Longrightarrow> prefixed_hex ''interaction-'' (interactionID c g k)"
  unfolding interactionID_def by (rule prefixed_hex_encode) (simp add: crypto_ok_def)

section \<open>Formatted times are canonical\<close>

lemma parse_seconds_digit12:
  assumes "parse_seconds u = Some x"
  shows "is_digit (u ! 12)" "length u = 19"
proof -
  obtain h where "digits_at 11 2 u = Some h" and l: "length u = 19"
    using assms unfolding parse_seconds_def by (auto split: option.splits if_splits)
  then have "atoi [u ! 11, u ! 12] = Some h"
    by (simp add: digits_at_def numeral_2_eq_2 Cons_nth_drop_Suc [symmetric])
  then show "is_digit (u ! 12)" by (auto simp: atoi_def split: if_splits)
  from l show "length u = 19" .
qed

lemma takeWhile_digits:
  assumes "\<forall>c \<in> set x. is_digit c"
  shows "takeWhile is_digit (x @ ''Z'') = x"
  using assms by (simp add: takeWhile_append is_digit_def)

lemma nanos_of_trim:
  assumes "0 \<le> f" "f < 10 ^ 9"
  shows "nanos_of (trim_zeros (pad 9 (nat f))) = f"
proof -
  obtain j where j: "pad 9 (nat f) = trim_zeros (pad 9 (nat f)) @ replicate j (CHR ''0'')"
    using trim_zeros_split by blast
  have n: "nat f < 10 ^ 9" using assms by (simp add: nat_less_iff)
  then have l: "length (pad 9 (nat f)) = 9" by (simp add: length_pad)
  then have lj: "length (trim_zeros (pad 9 (nat f))) + j = 9" using j by (metis length_append length_replicate)
  then have "replicate 9 (CHR ''0'') = replicate j (CHR ''0'') @ replicate (9 - j) (CHR ''0'')"
    by (metis le_add2 le_add_diff_inverse replicate_add)
  then have "take 9 (trim_zeros (pad 9 (nat f)) @ replicate 9 (CHR ''0'')) = take 9 (pad 9 (nat f) @ replicate (9 - j) (CHR ''0''))"
    using j by (metis append_assoc)
  also have "\<dots> = pad 9 (nat f)" using l by simp
  finally show ?thesis using assms(1) by (simp add: nanos_of_def)
qed

lemma nanos_of_Nil: "nanos_of [] = 0"
  using atoi_acc_zeros [of 9 "[]"] by (simp add: nanos_of_def atoi_def)

lemma rfc3339_format_nano:
  assumes "sane_clock t"
  shows "rfc3339 (format_nano t) = Some (t div nsec, t mod nsec, 0)"
proof -
  have n: "(0::int) < nsec" by (simp add: nsec_def)
  have "0 \<le> t div nsec" "t div nsec < 253402300800"
    using assms n int_div_bounds [OF n, of t]
    by (auto simp: sane_clock_def nsec_def pos_imp_zdiv_nonneg_iff)
  note p = parse_format_seconds [OF this]
  note d = parse_seconds_digit12 [OF p(1)]
  define f x where "f = t mod nsec" and "x = trim_zeros (pad 9 (nat f))"
  have f: "0 \<le> f" "f < 10 ^ 9" by (simp_all add: f_def nsec_def)
  let ?h = "format_seconds (t div nsec)"
  have h: "one_digit_hour (?h @ r) = ?h @ r" for r
    using d by (auto simp: one_digit_hour_def nth_append is_digit_def)
  show ?thesis
  proof (cases "f = 0")
    case True
    then have e: "format_nano t = ?h @ ''Z''" by (simp add: format_nano_def Let_def f_def)
    show ?thesis
      unfolding rfc3339_def Let_def e h using p d(2) True
      by (simp add: zone_offset_def f_def nanos_of_Nil)
  next
    case False
    then have e: "format_nano t = ?h @ CHR ''.'' # x @ ''Z''" by (simp add: format_nano_def Let_def f_def x_def)
    have dig: "\<forall>c \<in> set x. is_digit c"
      using pad_digits [of _ 9 "nat f"] trim_zeros_split [of "pad 9 (nat f)"] unfolding x_def by (metis UnCI set_append)
    have nx: "nanos_of x = f" unfolding x_def by (rule nanos_of_trim [OF f])
    then have ne: "x \<noteq> []" using False nanos_of_Nil by auto
    show ?thesis
      unfolding rfc3339_def Let_def e h
      using p d(2) nx takeWhile_digits [OF dig] ne
      by (simp add: zone_offset_def f_def Suc_le_eq)
  qed
qed

lemma canonical_zoned_format: "sane_clock t \<Longrightarrow> canonical_zoned (format_nano t) = Some t"
  by (simp add: canonical_zoned_def rfc3339_format_nano format_zone_def) (simp add: format_nano_def Let_def)

lemma canonical_nano_format: "sane_clock t \<Longrightarrow> canonical_nano (format_nano t) = Ok t"
  by (simp add: canonical_nano_def rfc3339_format_nano) (simp add: sane_clock_def zero_time_def nsec_def)

text \<open>The seconds of an instant; formatting to seconds drops the fraction.\<close>

lemma canonicalTime_format_seconds:
  assumes "sane_clock t"
  shows "canonicalTime (time_format t) = Ok (t div nsec * nsec)"
proof -
  have n: "(0::int) < nsec" by (simp add: nsec_def)
  have b: "t div nsec * nsec \<le> t" using int_div_bounds [OF n, of t] by (simp add: mult.commute)
  have "0 \<le> t div nsec * nsec" using assms n by (simp add: sane_clock_def pos_imp_zdiv_nonneg_iff)
  then have "sane_clock (t div nsec * nsec)" using assms b unfolding sane_clock_def by linarith
  moreover have "time_format t = time_format (t div nsec * nsec)" using n by (simp add: time_format_def)
  ultimately show ?thesis using canonicalTime_format [of "t div nsec * nsec"] by simp
qed

end
