(* ===== verification/Gateway_Inbox.thy ===== *)
theory Gateway_Inbox
  imports Gateway_Text Guarded_Machines
begin

text \<open>
  \<open>internal/gateway/events.go\<close> and \<open>interactions.go\<close>: the inbox of the Gateway. An agent posts observations (events) and asks
  questions (interactions) over the socket of its grant; the Executor lists and acknowledges both; a response becomes
  visible to the agent once a tenant-signed permit for exactly that question and answer was verified.
  The state is the part of \<open>Server\<close> that these handlers use, with the state file. A handler holds the server's lock from its
  first look at the state to its answer, so a run is a sequence of handlers. Writing the state file may fail before or after the file was replaced.
\<close>

section \<open>Grants and task authorities\<close>

record TaskAuthority =
  ta_KeyID :: bytes
  ta_PublicKey :: bytes

text \<open>The fields of a grant that the inbox reads.\<close>

record InboxGrant =
  ig_GrantID :: bytes
  ig_TenantID :: bytes
  ig_NodeID :: bytes
  ig_InstanceID :: bytes
  ig_Generation :: u64
  ig_RuntimeRef :: bytes
  ig_CapsuleDigest :: bytes
  ig_PolicyDigest :: bytes
  ig_TaskAuthorities :: "TaskAuthority list"
  ig_ControllerEvents :: bool
  ig_Active :: bool

fun authorities_loop :: "bytes option \<Rightarrow> bytes set \<Rightarrow> TaskAuthority list \<Rightarrow> bool" where
  "authorities_loop prev seenKeys [] = True"
| "authorities_loop prev seenKeys (a # as) =
     (if \<not> gw_routeID (ta_KeyID a) \<or> (case prev of None \<Rightarrow> False | Some p \<Rightarrow> p \<ge> ta_KeyID a) then False
      else (case b64_exact (ta_PublicKey a) of
          None \<Rightarrow> False
        | Some public \<Rightarrow>
            if length public \<noteq> 32 \<or> public \<in> seenKeys then False
            else authorities_loop (Some (ta_KeyID a)) (insert public seenKeys) as))"

definition validTaskAuthorities :: "TaskAuthority list \<Rightarrow> bool" where
  "validTaskAuthorities authorities =
     (if authorities = [] \<or> length authorities > 8 then False else authorities_loop None {} authorities)"

fun keys_loop :: "(bytes \<Rightarrow> bytes option) \<Rightarrow> TaskAuthority list \<Rightarrow> (bytes \<Rightarrow> bytes option) result" where
  "keys_loop keys [] = Ok keys"
| "keys_loop keys (a # as) =
     (case b64_decode Std (ta_PublicKey a) of
        None \<Rightarrow> errorf ''illegal base64 data''
      | Some public \<Rightarrow> keys_loop (keys(ta_KeyID a \<mapsto> public)) as)"

definition taskAuthorityKeys :: "TaskAuthority list \<Rightarrow> (bytes \<Rightarrow> bytes option) result" where
  "taskAuthorityKeys authorities =
     (if \<not> validTaskAuthorities authorities then errorf ''invalid task authority grant'' else keys_loop (\<lambda>_. None) authorities)"

definition validGrantEvidenceContext :: "InboxGrant \<Rightarrow> bool" where
  "validGrantEvidenceContext grant =
     (let present = (ig_RuntimeRef grant \<noteq> [] \<or> ig_CapsuleDigest grant \<noteq> [] \<or> ig_PolicyDigest grant \<noteq> [])
      in if \<not> present then True
         else validExecutorRuntimeRef (ig_RuntimeRef grant) \<and> validSHA256Digest (ig_CapsuleDigest grant) \<and> validSHA256Digest (ig_PolicyDigest grant))"

text \<open>What \<open>validGrant\<close> checks of these fields; the conditions on routes, services and connectors are not modelled.\<close>

definition validGrant_inbox :: "InboxGrant \<Rightarrow> bool" where
  "validGrant_inbox grant \<longleftrightarrow>
     validGrantID (ig_GrantID grant) \<and> gw_bounded (ig_TenantID grant) 128 \<and> gw_bounded (ig_InstanceID grant) 256 \<and>
     ig_Generation grant \<noteq> 0 \<and> validGrantEvidenceContext grant \<and>
     (ig_TaskAuthorities grant \<noteq> [] \<or> ig_ControllerEvents grant \<longrightarrow> gw_bounded (ig_NodeID grant) 128) \<and>
     (ig_TaskAuthorities grant \<noteq> [] \<longrightarrow> ig_RuntimeRef grant \<noteq> [] \<and> validTaskAuthorities (ig_TaskAuthorities grant)) \<and>
     (ig_ControllerEvents grant \<longrightarrow> ig_RuntimeRef grant \<noteq> [])"

section \<open>Events\<close>

definition InstanceEventSchemaV1 :: bytes where "InstanceEventSchemaV1 = ''steward.instance-event.v1''"
definition maxInstanceEventBytes :: nat where "maxInstanceEventBytes = 8192"
definition maxInstanceEvents :: nat where "maxInstanceEvents = 64"
definition maxInstanceEventsTenant :: nat where "maxInstanceEventsTenant = 32"
definition maxInstanceEventsGrant :: nat where "maxInstanceEventsGrant = 16"
definition maxInstanceEventAttrs :: nat where "maxInstanceEventAttrs = 16"
definition maxInstanceEventAttrBytes :: nat where "maxInstanceEventAttrBytes = 4096"

text \<open>A map of attributes is a list of pairs with distinct keys; no result depends on its order.\<close>

record InstanceEventInput =
  ei_SchemaVersion :: bytes
  ei_IdempotencyKey :: bytes
  ei_Kind :: bytes
  ei_Code :: bytes
  ei_Severity :: bytes
  ei_Summary :: bytes
  ei_Attributes :: "(bytes \<times> bytes) list"
  ei_TaskID :: bytes
  ei_RunID :: bytes
  ei_ObservedAt :: bytes

record InstanceEvent =
  iv_SchemaVersion :: bytes
  iv_EventID :: bytes
  iv_IdempotencyKey :: bytes
  iv_Source :: bytes
  iv_TenantID :: bytes
  iv_NodeID :: bytes
  iv_InstanceID :: bytes
  iv_Generation :: u64
  iv_RuntimeRef :: bytes
  iv_GrantID :: bytes
  iv_CapsuleDigest :: bytes
  iv_PolicyDigest :: bytes
  iv_Kind :: bytes
  iv_Code :: bytes
  iv_Severity :: bytes
  iv_Summary :: bytes
  iv_Attributes :: "(bytes \<times> bytes) list"
  iv_TaskID :: bytes
  iv_RunID :: bytes
  iv_ObservedAt :: bytes
  iv_AcceptedAt :: bytes

definition ei_validate :: "InstanceEventInput \<Rightarrow> unit result" where
  "ei_validate input =
     (if ei_SchemaVersion input \<noteq> InstanceEventSchemaV1 \<or> \<not> gw_routeID (ei_IdempotencyKey input) \<or>
        (ei_Kind input \<noteq> ''status'' \<and> ei_Kind input \<noteq> ''finding'') \<or> \<not> gw_routeID (ei_Code input) \<or>
        (ei_Severity input \<noteq> ''info'' \<and> ei_Severity input \<noteq> ''warning'' \<and> ei_Severity input \<noteq> ''critical'') \<or>
        \<not> eventText (ei_Summary input) 1024 \<or> ei_TaskID input \<noteq> [] \<and> \<not> eventText (ei_TaskID input) 256 \<or>
        ei_RunID input \<noteq> [] \<and> \<not> eventText (ei_RunID input) 256
      then errorf ''event fields are invalid''
      else if ei_ObservedAt input \<noteq> [] \<and> canonical_zoned (ei_ObservedAt input) = None
      then errorf ''observed_at must be canonical RFC3339Nano''
      else if length (ei_Attributes input) > maxInstanceEventAttrs then errorf ''event has too many attributes''
      else if \<not> list_all (\<lambda>(key, v). gw_routeID key \<and> eventText v 1024) (ei_Attributes input) then errorf ''event attribute is invalid''
      else if (\<Sum>(key, v) \<leftarrow> ei_Attributes input. length key + length v) > maxInstanceEventAttrBytes
      then errorf ''event attributes exceed limit''
      else Ok ())"

definition event_input_type :: gotype where
  "event_input_type = TStruct
     [(''schema_version'', TString), (''idempotency_key'', TString), (''kind'', TString), (''code'', TString), (''severity'', TString),
      (''summary'', TString), (''attributes'', TMap TString), (''task_id'', TString), (''run_id'', TString), (''observed_at'', TString)]"

text \<open>Assigning a decoded document to a struct; an absent or null member keeps the zero value.\<close>

definition strs_member :: "bytes \<Rightarrow> json \<Rightarrow> bytes list" where
  "strs_member k v = (case member k v of Some (JArr vs) \<Rightarrow> map (\<lambda>x. case x of JStr s \<Rightarrow> s | _ \<Rightarrow> []) vs | _ \<Rightarrow> [])"

definition attrs_member :: "bytes \<Rightarrow> json \<Rightarrow> (bytes \<times> bytes) list" where
  "attrs_member k v = (case member k v of Some (JObj ms) \<Rightarrow> map (\<lambda>(key, x). (key, case x of JStr s \<Rightarrow> s | _ \<Rightarrow> [])) ms | _ \<Rightarrow> [])"

definition bool_member :: "bytes \<Rightarrow> json \<Rightarrow> bool" where
  "bool_member k v = (case member k v of Some (JBool b) \<Rightarrow> b | _ \<Rightarrow> False)"

definition event_input_of_json :: "json \<Rightarrow> InstanceEventInput" where
  "event_input_of_json v =
     \<lparr>ei_SchemaVersion = str_member ''schema_version'' v, ei_IdempotencyKey = str_member ''idempotency_key'' v,
      ei_Kind = str_member ''kind'' v, ei_Code = str_member ''code'' v, ei_Severity = str_member ''severity'' v,
      ei_Summary = str_member ''summary'' v, ei_Attributes = attrs_member ''attributes'' v, ei_TaskID = str_member ''task_id'' v,
      ei_RunID = str_member ''run_id'' v, ei_ObservedAt = str_member ''observed_at'' v\<rparr>"

section \<open>Interactions\<close>

definition InteractionRequestSchemaV1 :: bytes where "InteractionRequestSchemaV1 = ''steward.interaction-request.v1''"
definition maxInteractionRequestBytes :: nat where "maxInteractionRequestBytes = 8192"
definition maxInteractionCourierBytes :: nat where "maxInteractionCourierBytes = 32768"
definition maxInteractions :: nat where "maxInteractions = 64"
definition maxInteractionsTenant :: nat where "maxInteractionsTenant = 32"
definition maxInteractionsGrant :: nat where "maxInteractionsGrant = 16"
definition maxInteractionOptions :: nat where "maxInteractionOptions = 8"
definition maxInteractionWait :: duration where "maxInteractionWait = 7 * 24 * hour"

record InteractionInput =
  ii_SchemaVersion :: bytes
  ii_IdempotencyKey :: bytes
  ii_Kind :: bytes
  ii_Title :: bytes
  ii_Prompt :: bytes
  ii_Options :: "bytes list"
  ii_AllowText :: bool
  ii_TaskID :: bytes
  ii_RunID :: bytes
  ii_ObservedAt :: bytes
  ii_ExpiresAt :: bytes

record InteractionResponse =
  ir_Body :: ResponseBody
  ir_KeyID :: bytes
  ir_PermitDigest :: bytes
  ir_ResponseDigest :: bytes
  ir_ResolvedAt :: bytes

record Interaction =
  ix_SchemaVersion :: bytes
  ix_InteractionID :: bytes
  ix_IdempotencyKey :: bytes
  ix_Source :: bytes
  ix_TenantID :: bytes
  ix_NodeID :: bytes
  ix_InstanceID :: bytes
  ix_Generation :: u64
  ix_RuntimeRef :: bytes
  ix_GrantID :: bytes
  ix_CapsuleDigest :: bytes
  ix_PolicyDigest :: bytes
  ix_Kind :: bytes
  ix_Title :: bytes
  ix_Prompt :: bytes
  ix_Options :: "bytes list"
  ix_AllowText :: bool
  ix_TaskID :: bytes
  ix_RunID :: bytes
  ix_ObservedAt :: bytes
  ix_AcceptedAt :: bytes
  ix_ExpiresAt :: bytes
  ix_RequestDigest :: bytes
  ix_State :: bytes
  ix_ControllerAccepted :: bool
  ix_Response :: "InteractionResponse option"

fun option_loop :: "bytes set \<Rightarrow> bytes list \<Rightarrow> unit result" where
  "option_loop seen [] = Ok ()"
| "option_loop seen (option # options) =
     (if \<not> eventText option 128 then errorf ''interaction option is invalid''
      else if option \<in> seen then errorf ''interaction contains a duplicate option''
      else option_loop (insert option seen) options)"

definition ii_validate :: "InteractionInput \<Rightarrow> time \<Rightarrow> unit result" where
  "ii_validate input now =
     (if ii_SchemaVersion input \<noteq> InteractionRequestSchemaV1 \<or> \<not> gw_routeID (ii_IdempotencyKey input) \<or>
        (ii_Kind input \<noteq> ''question'' \<and> ii_Kind input \<noteq> ''decision'') \<or>
        \<not> eventText (ii_Title input) 128 \<or> \<not> eventText (ii_Prompt input) 4096 \<or>
        length (ii_Options input) > maxInteractionOptions \<or>
        ii_TaskID input \<noteq> [] \<and> \<not> eventText (ii_TaskID input) 256 \<or>
        ii_RunID input \<noteq> [] \<and> \<not> eventText (ii_RunID input) 256
      then errorf ''interaction fields are invalid''
      else if ii_Kind input = ''decision'' \<and> length (ii_Options input) < 2 \<or> length (ii_Options input) = 0 \<and> \<not> ii_AllowText input
      then errorf ''interaction has no bounded response path''
      else and_then (option_loop {} (ii_Options input)) (\<lambda>_.
        if ii_ObservedAt input \<noteq> [] \<and>
          (case canonicalTime (ii_ObservedAt input) of Inl _ \<Rightarrow> True | Inr observed \<Rightarrow> observed > now + 5 * minute)
        then errorf ''interaction observed_at is invalid''
        else (case canonicalTime (ii_ExpiresAt input) of
            Inl _ \<Rightarrow> errorf ''interaction expires_at is invalid''
          | Inr expires \<Rightarrow>
              if \<not> now < expires \<or> expires > now + maxInteractionWait then errorf ''interaction expires_at is invalid'' else Ok ())))"

definition interaction_input_type :: gotype where
  "interaction_input_type = TStruct
     [(''schema_version'', TString), (''idempotency_key'', TString), (''kind'', TString), (''title'', TString), (''prompt'', TString),
      (''options'', TSlice TString), (''allow_text'', TBool), (''task_id'', TString), (''run_id'', TString), (''observed_at'', TString),
      (''expires_at'', TString)]"

definition interaction_input_of_json :: "json \<Rightarrow> InteractionInput" where
  "interaction_input_of_json v =
     \<lparr>ii_SchemaVersion = str_member ''schema_version'' v, ii_IdempotencyKey = str_member ''idempotency_key'' v,
      ii_Kind = str_member ''kind'' v, ii_Title = str_member ''title'' v, ii_Prompt = str_member ''prompt'' v,
      ii_Options = strs_member ''options'' v, ii_AllowText = bool_member ''allow_text'' v, ii_TaskID = str_member ''task_id'' v,
      ii_RunID = str_member ''run_id'' v, ii_ObservedAt = str_member ''observed_at'' v, ii_ExpiresAt = str_member ''expires_at'' v\<rparr>"

subsection \<open>The request as the control protocol has it\<close>

text \<open>A slice of options is nil (\<open>None\<close>) or a list.\<close>

record InteractionRequestV1 =
  rv_SchemaVersion :: bytes
  rv_InteractionID :: bytes
  rv_IdempotencyKey :: bytes
  rv_Source :: bytes
  rv_TenantID :: bytes
  rv_NodeID :: bytes
  rv_InstanceID :: bytes
  rv_Generation :: u64
  rv_RuntimeRef :: bytes
  rv_GrantID :: bytes
  rv_CapsuleDigest :: bytes
  rv_PolicyDigest :: bytes
  rv_Kind :: bytes
  rv_Title :: bytes
  rv_Prompt :: bytes
  rv_Options :: "bytes list option"
  rv_AllowText :: bool
  rv_TaskID :: bytes
  rv_RunID :: bytes
  rv_ObservedAt :: bytes
  rv_AcceptedAt :: bytes
  rv_ExpiresAt :: bytes
  rv_RequestDigest :: bytes

definition omitempty :: "bytes \<Rightarrow> bytes \<Rightarrow> (bytes \<times> json) list" where
  "omitempty k v = (if v = [] then [] else [(k, JStr v)])"

definition request_document :: "InteractionRequestV1 \<Rightarrow> json" where
  "request_document v = JObj
     ([(''schema_version'', JStr (rv_SchemaVersion v)), (''interaction_id'', JStr (rv_InteractionID v)),
       (''tenant_id'', JStr (rv_TenantID v)), (''node_id'', JStr (rv_NodeID v)), (''instance_id'', JStr (rv_InstanceID v)),
       (''generation'', u64_json (rv_Generation v)), (''runtime_ref'', JStr (rv_RuntimeRef v)), (''grant_id'', JStr (rv_GrantID v)),
       (''capsule_digest'', JStr (rv_CapsuleDigest v)), (''policy_digest'', JStr (rv_PolicyDigest v)),
       (''kind'', JStr (rv_Kind v)), (''title'', JStr (rv_Title v)), (''prompt'', JStr (rv_Prompt v)),
       (''options'', case rv_Options v of None \<Rightarrow> JNull | Some options \<Rightarrow> JArr (map JStr options)),
       (''allow_text'', JBool (rv_AllowText v))] @
      omitempty ''task_id'' (rv_TaskID v) @ omitempty ''run_id'' (rv_RunID v) @
      [(''observed_at'', JStr (rv_ObservedAt v)), (''accepted_at'', JStr (rv_AcceptedAt v)), (''expires_at'', JStr (rv_ExpiresAt v))])"

definition InteractionRequestDigest :: "crypto \<Rightarrow> InteractionRequestV1 \<Rightarrow> bytes" where
  "InteractionRequestDigest c v = ''sha256:'' @ hex_encode (sha256 c (json_print (request_document v)))"

text \<open>\<open>append([]string(nil), options...)\<close>\<close>

definition cloned :: "'a list \<Rightarrow> 'a list option" where
  "cloned options = (if options = [] then None else Some options)"

definition interactionRequestDigest :: "crypto \<Rightarrow> Interaction \<Rightarrow> bytes" where
  "interactionRequestDigest c v = InteractionRequestDigest c
     \<lparr>rv_SchemaVersion = ix_SchemaVersion v, rv_InteractionID = ix_InteractionID v, rv_IdempotencyKey = [], rv_Source = [],
      rv_TenantID = ix_TenantID v, rv_NodeID = ix_NodeID v, rv_InstanceID = ix_InstanceID v, rv_Generation = ix_Generation v,
      rv_RuntimeRef = ix_RuntimeRef v, rv_GrantID = ix_GrantID v, rv_CapsuleDigest = ix_CapsuleDigest v, rv_PolicyDigest = ix_PolicyDigest v,
      rv_Kind = ix_Kind v, rv_Title = ix_Title v, rv_Prompt = ix_Prompt v, rv_Options = cloned (ix_Options v), rv_AllowText = ix_AllowText v,
      rv_TaskID = ix_TaskID v, rv_RunID = ix_RunID v, rv_ObservedAt = ix_ObservedAt v, rv_AcceptedAt = ix_AcceptedAt v,
      rv_ExpiresAt = ix_ExpiresAt v, rv_RequestDigest = []\<rparr>"

section \<open>The state and the state file\<close>

definition gatewayStateReadMinVersion :: int where "gatewayStateReadMinVersion = 1"
definition gatewayStateReadMaxVersion :: int where "gatewayStateReadMaxVersion = 9"
definition gatewayStateWriteVersion :: int where "gatewayStateWriteVersion = 9"
definition maxRetainedGrants :: nat where "maxRetainedGrants = 4096"

record gateway_snapshot =
  gs_Version :: int
  gs_Grants :: "bytes \<Rightarrow> InboxGrant option"
  gs_Events :: "InstanceEvent list"
  gs_Interactions :: "Interaction list"

record Inbox =
  ib_open :: bool
  ib_grants :: "bytes \<Rightarrow> InboxGrant option"
  ib_events :: "InstanceEvent list"
  ib_interactions :: "Interaction list"
  ib_file :: "gateway_snapshot option"

text \<open>
  How writing the state file ends: it is replaced and synchronised; it is left alone; or it was replaced and
  synchronising the directory failed. The encoding of the file is not modelled.
\<close>

datatype persist = PersistOk | PersistFailed | PersistReplaced

definition gw_persistLocked :: "persist \<Rightarrow> Inbox \<Rightarrow> Inbox \<times> bool" where
  "gw_persistLocked p s =
     (let written = s\<lparr>ib_file := Some \<lparr>gs_Version = gatewayStateWriteVersion, gs_Grants = ib_grants s, gs_Events = ib_events s,
        gs_Interactions = ib_interactions s\<rparr>\<rparr>
      in case p of PersistOk \<Rightarrow> (written, True) | PersistFailed \<Rightarrow> (s, False) | PersistReplaced \<Rightarrow> (written, False))"

text \<open>The request of an agent; no body when reading it fails.\<close>

record agent_request =
  ar_Method :: bytes
  ar_Path :: bytes
  ar_RawQuery :: bytes
  ar_Body :: "bytes option"

datatype reply =
    GwFailure nat bytes
  | InteractionReply nat Interaction
  | InteractionBatch "Interaction list"
  | EventAccepted bytes
  | EventBatch "InstanceEvent list"
  | Done

text \<open>\<open>io.ReadAll\<close> of a body behind \<open>http.MaxBytesReader\<close>\<close>

definition read_body :: "nat \<Rightarrow> bytes option \<Rightarrow> bytes option" where
  "read_body limit body = (case body of None \<Rightarrow> None | Some raw \<Rightarrow> if length raw > limit then None else Some raw)"

section \<open>Handlers of the agent\<close>

definition interactionInputMatches :: "Interaction \<Rightarrow> InteractionInput \<Rightarrow> bool" where
  "interactionInputMatches existing input \<longleftrightarrow>
     ix_IdempotencyKey existing = ii_IdempotencyKey input \<and> ix_Kind existing = ii_Kind input \<and>
     ix_Title existing = ii_Title input \<and> ix_Prompt existing = ii_Prompt input \<and>
     ix_Options existing = ii_Options input \<and> ix_AllowText existing = ii_AllowText input \<and>
     ix_TaskID existing = ii_TaskID input \<and> ix_RunID existing = ii_RunID input \<and>
     (ii_ObservedAt input = [] \<or> ix_ObservedAt existing = ii_ObservedAt input) \<and>
     ix_ExpiresAt existing = ii_ExpiresAt input"

text \<open>The interaction that a request of a grant becomes.\<close>

definition new_interaction :: "crypto \<Rightarrow> time \<Rightarrow> InboxGrant \<Rightarrow> bytes \<Rightarrow> InteractionInput \<Rightarrow> Interaction" where
  "new_interaction c now grant i input =
     (let interaction =
        \<lparr>ix_SchemaVersion = InteractionRequestSchemaV1, ix_InteractionID = i, ix_IdempotencyKey = ii_IdempotencyKey input, ix_Source = ''agent'',
         ix_TenantID = ig_TenantID grant, ix_NodeID = ig_NodeID grant, ix_InstanceID = ig_InstanceID grant,
         ix_Generation = ig_Generation grant, ix_RuntimeRef = ig_RuntimeRef grant, ix_GrantID = ig_GrantID grant,
         ix_CapsuleDigest = ig_CapsuleDigest grant, ix_PolicyDigest = ig_PolicyDigest grant,
         ix_Kind = ii_Kind input, ix_Title = ii_Title input, ix_Prompt = ii_Prompt input, ix_Options = ii_Options input,
         ix_AllowText = ii_AllowText input, ix_TaskID = ii_TaskID input, ix_RunID = ii_RunID input,
         ix_ObservedAt = (if ii_ObservedAt input = [] then time_format now else ii_ObservedAt input),
         ix_AcceptedAt = format_nano now, ix_ExpiresAt = ii_ExpiresAt input, ix_RequestDigest = [], ix_State = ''open'',
         ix_ControllerAccepted = False, ix_Response = None\<rparr>
      in interaction\<lparr>ix_RequestDigest := interactionRequestDigest c interaction\<rparr>)"

definition createInteraction :: "crypto \<Rightarrow> time \<Rightarrow> persist \<Rightarrow> agent_request \<Rightarrow> bytes \<Rightarrow> Inbox \<Rightarrow> Inbox \<times> reply" where
  "createInteraction c now p request grantID s =
     (if ar_RawQuery request \<noteq> [] then (s, GwFailure 400 ''invalid_interaction'')
      else case read_body maxInteractionRequestBytes (ar_Body request) of
        None \<Rightarrow> (s, GwFailure 413 ''interaction_too_large'')
      | Some raw \<Rightarrow>
        (case and_then (DecodeStrictInto raw maxInteractionRequestBytes interaction_input_type) (\<lambda>v.
                and_then (ii_validate (interaction_input_of_json v) now) (\<lambda>_. Ok (interaction_input_of_json v))) of
           Inl _ \<Rightarrow> (s, GwFailure 400 ''invalid_interaction'')
         | Inr input \<Rightarrow>
           (case ib_grants s grantID of
              None \<Rightarrow> (s, GwFailure 503 ''interaction_grant_inactive'')
            | Some grant \<Rightarrow>
              if \<not> ig_Active grant \<or> \<not> ig_ControllerEvents grant \<or> ig_TaskAuthorities grant = []
              then (s, GwFailure 503 ''interaction_grant_inactive'')
              else let i = interactionID c grantID (ii_IdempotencyKey input)
                   in case find (\<lambda>existing. ix_InteractionID existing = i) (ib_interactions s) of
                        Some existing \<Rightarrow>
                          if interactionInputMatches existing input then (s, InteractionReply 202 existing)
                          else (s, GwFailure 409 ''interaction_conflict'')
                      | None \<Rightarrow>
                          let tenantCount = length (filter (\<lambda>existing. ix_TenantID existing = ig_TenantID grant) (ib_interactions s));
                              grantCount = length (filter (\<lambda>existing. ix_GrantID existing = grantID) (ib_interactions s))
                          in if length (ib_interactions s) \<ge> maxInteractions \<or> tenantCount \<ge> maxInteractionsTenant \<or>
                                grantCount \<ge> maxInteractionsGrant
                             then (s, GwFailure 429 ''interaction_queue_full'')
                             else let interaction = new_interaction c now grant i input;
                                      (s', ok) = gw_persistLocked p (s\<lparr>ib_interactions := ib_interactions s @ [interaction]\<rparr>)
                                  in if ok then (s', InteractionReply 202 interaction)
                                     else (s'\<lparr>ib_interactions := ib_interactions s\<rparr>, GwFailure 503 ''interaction_state_unavailable''))))"

definition effectiveInteraction :: "Interaction \<Rightarrow> time \<Rightarrow> Interaction" where
  "effectiveInteraction v now =
     (case canonicalTime (ix_ExpiresAt v) of
        Inl _ \<Rightarrow> v
      | Inr expires \<Rightarrow> if ix_State v = ''open'' \<and> \<not> now < expires then v\<lparr>ix_State := ''expired''\<rparr> else v)"

text \<open>The clock is read once for every interaction of the list.\<close>

definition listGrantInteractions :: "(nat \<Rightarrow> time) \<Rightarrow> agent_request \<Rightarrow> bytes \<Rightarrow> Inbox \<Rightarrow> reply" where
  "listGrantInteractions clock request grantID s =
     (if ar_RawQuery request \<noteq> [] then GwFailure 400 ''invalid_request''
      else InteractionBatch (map (\<lambda>(k, interaction). effectiveInteraction interaction (clock k))
             (enumerate 0 (filter (\<lambda>interaction. ix_GrantID interaction = grantID) (ib_interactions s)))))"

definition getGrantInteraction :: "(nat \<Rightarrow> time) \<Rightarrow> agent_request \<Rightarrow> bytes \<Rightarrow> Inbox \<Rightarrow> reply" where
  "getGrantInteraction clock request grantID s =
     (if ar_RawQuery request \<noteq> [] then GwFailure 400 ''invalid_request''
      else let i = trim_prefix (ar_Path request) ''/v1/interactions/''
           in if \<not> validInteractionID i then GwFailure 404 ''interaction_not_found''
              else case find (\<lambda>interaction. ix_InteractionID interaction = i \<and> ix_GrantID interaction = grantID) (ib_interactions s) of
                     Some interaction \<Rightarrow> InteractionReply 200 (effectiveInteraction interaction (clock 0))
                   | None \<Rightarrow> GwFailure 404 ''interaction_not_found'')"

definition interactionGrantHandler ::
  "crypto \<Rightarrow> (nat \<Rightarrow> time) \<Rightarrow> persist \<Rightarrow> agent_request \<Rightarrow> bytes \<Rightarrow> Inbox \<Rightarrow> Inbox \<times> reply" where
  "interactionGrantHandler c clock p request grantID s =
     (if ar_Method request = ''POST'' \<and> ar_Path request = ''/v1/interactions'' then createInteraction c (clock 0) p request grantID s
      else if ar_Method request = ''GET'' \<and> ar_Path request = ''/v1/interactions'' then (s, listGrantInteractions clock request grantID s)
      else if ar_Method request = ''GET'' \<and> has_prefix (ar_Path request) ''/v1/interactions/'' then (s, getGrantInteraction clock request grantID s)
      else (s, GwFailure 404 ''interaction_route_not_found''))"

definition new_event :: "time \<Rightarrow> InboxGrant \<Rightarrow> bytes \<Rightarrow> InstanceEventInput \<Rightarrow> InstanceEvent" where
  "new_event now grant i input =
     \<lparr>iv_SchemaVersion = InstanceEventSchemaV1, iv_EventID = i, iv_IdempotencyKey = ei_IdempotencyKey input, iv_Source = ''agent'',
      iv_TenantID = ig_TenantID grant, iv_NodeID = ig_NodeID grant, iv_InstanceID = ig_InstanceID grant,
      iv_Generation = ig_Generation grant, iv_RuntimeRef = ig_RuntimeRef grant, iv_GrantID = ig_GrantID grant,
      iv_CapsuleDigest = ig_CapsuleDigest grant, iv_PolicyDigest = ig_PolicyDigest grant,
      iv_Kind = ei_Kind input, iv_Code = ei_Code input, iv_Severity = ei_Severity input, iv_Summary = ei_Summary input,
      iv_Attributes = ei_Attributes input, iv_TaskID = ei_TaskID input, iv_RunID = ei_RunID input,
      iv_ObservedAt = (if ei_ObservedAt input = [] then format_nano now else ei_ObservedAt input), iv_AcceptedAt = format_nano now\<rparr>"

definition instanceEventHandler :: "crypto \<Rightarrow> time \<Rightarrow> persist \<Rightarrow> agent_request \<Rightarrow> bytes \<Rightarrow> Inbox \<Rightarrow> Inbox \<times> reply" where
  "instanceEventHandler c now p request grantID s =
     (if ar_Method request \<noteq> ''POST'' \<or> ar_Path request \<noteq> ''/v1/events'' \<or> ar_RawQuery request \<noteq> []
      then (s, GwFailure 404 ''event_route_not_found'')
      else case read_body maxInstanceEventBytes (ar_Body request) of
        None \<Rightarrow> (s, GwFailure 413 ''event_too_large'')
      | Some raw \<Rightarrow>
        (case and_then (DecodeStrictInto raw maxInstanceEventBytes event_input_type) (\<lambda>v.
                and_then (ei_validate (event_input_of_json v)) (\<lambda>_. Ok (event_input_of_json v))) of
           Inl _ \<Rightarrow> (s, GwFailure 400 ''invalid_event'')
         | Inr input \<Rightarrow>
           (case ib_grants s grantID of
              None \<Rightarrow> (s, GwFailure 503 ''event_grant_inactive'')
            | Some grant \<Rightarrow>
              if \<not> ig_Active grant \<or> \<not> ig_ControllerEvents grant then (s, GwFailure 503 ''event_grant_inactive'')
              else let eventID = instanceEventID c grantID (ei_IdempotencyKey input)
                   in if list_ex (\<lambda>existing. iv_EventID existing = eventID) (ib_events s) then (s, EventAccepted eventID)
                      else let tenantCount = length (filter (\<lambda>existing. iv_TenantID existing = ig_TenantID grant) (ib_events s));
                               grantCount = length (filter (\<lambda>existing. iv_GrantID existing = grantID) (ib_events s))
                           in if length (ib_events s) \<ge> maxInstanceEvents \<or> tenantCount \<ge> maxInstanceEventsTenant \<or>
                                 grantCount \<ge> maxInstanceEventsGrant
                              then (s, GwFailure 429 ''event_queue_full'')
                              else let (s', ok) = gw_persistLocked p (s\<lparr>ib_events := ib_events s @ [new_event now grant eventID input]\<rparr>)
                                   in if ok then (s', EventAccepted eventID)
                                      else (s'\<lparr>ib_events := ib_events s\<rparr>, GwFailure 503 ''event_state_unavailable''))))"

definition interactionAndEventHandler ::
  "crypto \<Rightarrow> (nat \<Rightarrow> time) \<Rightarrow> persist \<Rightarrow> agent_request \<Rightarrow> bytes \<Rightarrow> Inbox \<Rightarrow> Inbox \<times> reply" where
  "interactionAndEventHandler c clock p request grantID s =
     (if has_prefix (ar_Path request) ''/v1/interactions'' then interactionGrantHandler c clock p request grantID s
      else instanceEventHandler c (clock 0) p request grantID s)"

section \<open>Handlers of the Executor\<close>

definition listInstanceEvents :: "bytes \<Rightarrow> Inbox \<Rightarrow> reply" where
  "listInstanceEvents rawQuery s = (if rawQuery \<noteq> [] then GwFailure 400 ''invalid_request'' else EventBatch (ib_events s))"

definition event_ack_type :: gotype where "event_ack_type = TStruct [(''event_ids'', TSlice TString)]"

definition ackInstanceEvents :: "persist \<Rightarrow> bytes option \<Rightarrow> Inbox \<Rightarrow> Inbox \<times> reply" where
  "ackInstanceEvents p body s =
     (case read_body maxInstanceEventBytes body of
        None \<Rightarrow> (s, GwFailure 413 ''invalid_request'')
      | Some raw \<Rightarrow>
        (case DecodeStrictInto raw maxInstanceEventBytes event_ack_type of
           Inl _ \<Rightarrow> (s, GwFailure 400 ''invalid_request'')
         | Inr v \<Rightarrow>
           let ids = strs_member ''event_ids'' v
           in if ids = [] \<or> length ids > maxInstanceEvents \<or> \<not> list_all validInstanceEventID ids then (s, GwFailure 400 ''invalid_request'')
              else let (s', ok) = gw_persistLocked p (s\<lparr>ib_events := filter (\<lambda>event. iv_EventID event \<notin> set ids) (ib_events s)\<rparr>)
                   in if ok then (s', Done) else (s'\<lparr>ib_events := ib_events s\<rparr>, GwFailure 503 ''event_state_unavailable'')))"

definition listInteractionOutbox :: "bytes \<Rightarrow> Inbox \<Rightarrow> reply" where
  "listInteractionOutbox rawQuery s =
     (if rawQuery \<noteq> [] then GwFailure 400 ''invalid_request''
      else InteractionBatch (filter (\<lambda>interaction. \<not> ix_ControllerAccepted interaction) (ib_interactions s)))"

definition interaction_ack_type :: gotype where "interaction_ack_type = TStruct [(''interaction_ids'', TSlice TString)]"

definition acknowledge :: "bytes list \<Rightarrow> Interaction \<Rightarrow> Interaction" where
  "acknowledge ids interaction =
     (if ix_InteractionID interaction \<in> set ids then interaction\<lparr>ix_ControllerAccepted := True\<rparr> else interaction)"

definition ackInteractionOutbox :: "persist \<Rightarrow> bytes option \<Rightarrow> Inbox \<Rightarrow> Inbox \<times> reply" where
  "ackInteractionOutbox p body s =
     (case read_body maxInteractionCourierBytes body of
        None \<Rightarrow> (s, GwFailure 413 ''invalid_request'')
      | Some raw \<Rightarrow>
        (case DecodeStrictInto raw maxInteractionCourierBytes interaction_ack_type of
           Inl _ \<Rightarrow> (s, GwFailure 400 ''invalid_request'')
         | Inr v \<Rightarrow>
           let ids = strs_member ''interaction_ids'' v
           in if ids = [] \<or> length ids > maxInteractions \<or> \<not> list_all validInteractionID ids \<or> \<not> distinct ids
              then (s, GwFailure 400 ''invalid_request'')
              else let (s', ok) = gw_persistLocked p (s\<lparr>ib_interactions := map (acknowledge ids) (ib_interactions s)\<rparr>)
                   in if ok then (s', Done)
                      else (s'\<lparr>ib_interactions := ib_interactions s\<rparr>, GwFailure 503 ''interaction_state_unavailable'')))"

record courier =
  co_InteractionID :: bytes
  co_PermitBase64 :: bytes
  co_ResponseBase64 :: bytes

definition courier_type :: gotype where
  "courier_type = TStruct [(''interaction_id'', TString), (''permit_base64'', TString), (''response_base64'', TString)]"

definition courier_of_json :: "json \<Rightarrow> courier" where
  "courier_of_json v = \<lparr>co_InteractionID = str_member ''interaction_id'' v, co_PermitBase64 = str_member ''permit_base64'' v,
     co_ResponseBase64 = str_member ''response_base64'' v\<rparr>"

definition response_body_type :: gotype where
  "response_body_type = TStruct [(''schema_version'', TString), (''choice'', TString), (''text'', TString)]"

definition response_body_of_json :: "json \<Rightarrow> ResponseBody" where
  "response_body_of_json v = \<lparr>rb_SchemaVersion = str_member ''schema_version'' v, rb_Choice = str_member ''choice'' v, rb_Text = str_member ''text'' v\<rparr>"

definition interactionPermitMatches :: "crypto \<Rightarrow> InteractionVerified \<Rightarrow> Interaction \<Rightarrow> bytes \<Rightarrow> bool" where
  "interactionPermitMatches c verified interaction response \<longleftrightarrow>
     (let statement = ipv_Statement verified
      in ips_NodeID statement = ix_NodeID interaction \<and> ips_TenantID statement = ix_TenantID interaction \<and>
         ips_InstanceID statement = ix_InstanceID interaction \<and> ips_RuntimeRef statement = ix_RuntimeRef interaction \<and>
         ips_GrantID statement = ix_GrantID interaction \<and> ips_Generation statement = ix_Generation interaction \<and>
         ips_CapsuleDigest statement = ix_CapsuleDigest interaction \<and> ips_PolicyDigest statement = ix_PolicyDigest interaction \<and>
         ips_InteractionID statement = ix_InteractionID interaction \<and>
         ips_RequestDigest statement = ix_RequestDigest interaction \<and>
         ips_ResponseDigest statement = ResponseDigest c response \<and>
         ips_ResponseBytes statement = int (length response))"

text \<open>What \<open>resolveInteraction\<close> reads from the request before it takes the lock: the interaction, the permit, the response bytes and the response body.\<close>

definition read_courier :: "bytes option \<Rightarrow> reply + (bytes \<times> bytes \<times> bytes \<times> ResponseBody)" where
  "read_courier body =
     (case read_body maxInteractionCourierBytes body of
        None \<Rightarrow> Inl (GwFailure 413 ''invalid_request'')
      | Some raw \<Rightarrow>
        (case DecodeStrictInto raw maxInteractionCourierBytes courier_type of
           Inl _ \<Rightarrow> Inl (GwFailure 400 ''invalid_request'')
         | Inr v \<Rightarrow>
           let courier = courier_of_json v
           in if \<not> validInteractionID (co_InteractionID courier) then Inl (GwFailure 400 ''invalid_request'')
              else (case b64_exact (co_PermitBase64 courier) of
                  None \<Rightarrow> Inl (GwFailure 400 ''invalid_request'')
                | Some permitRaw \<Rightarrow>
                  (case b64_exact (co_ResponseBase64 courier) of
                     None \<Rightarrow> Inl (GwFailure 400 ''invalid_request'')
                   | Some responseRaw \<Rightarrow>
                     if length responseRaw = 0 \<or> length responseRaw > MaxResponseBytes then Inl (GwFailure 400 ''invalid_request'')
                     else (case DecodeStrictInto responseRaw MaxResponseBytes response_body_type of
                         Inl _ \<Rightarrow> Inl (GwFailure 400 ''invalid_interaction_response'')
                       | Inr w \<Rightarrow> Inr (co_InteractionID courier, permitRaw, responseRaw, response_body_of_json w))))))"

text \<open>The clock is read for the expiry, for the permit and for the time of the resolution.\<close>

definition resolveInteraction :: "crypto \<Rightarrow> (nat \<Rightarrow> time) \<Rightarrow> persist \<Rightarrow> bytes option \<Rightarrow> Inbox \<Rightarrow> Inbox \<times> reply" where
  "resolveInteraction c clock p body s =
     (case read_courier body of
        Inl failure \<Rightarrow> (s, failure)
      | Inr (i, permitRaw, responseRaw, responseBody) \<Rightarrow>
        let index = length (takeWhile (\<lambda>candidate. ix_InteractionID candidate \<noteq> i) (ib_interactions s))
        in if index \<ge> length (ib_interactions s) then (s, GwFailure 404 ''interaction_not_found'')
           else let interaction = ib_interactions s ! index
                in if \<not> is_ok (rb_Validate responseBody (ix_Options interaction) (ix_AllowText interaction))
                   then (s, GwFailure 400 ''invalid_interaction_response'')
                   else (case ix_Response interaction of
                       Some response \<Rightarrow>
                         if ir_PermitDigest response = Digest c permitRaw \<and> ir_ResponseDigest response = ResponseDigest c responseRaw
                         then (s, InteractionReply 200 interaction)
                         else (s, GwFailure 409 ''interaction_already_resolved'')
                     | None \<Rightarrow>
                         if \<not> clock 0 < (case canonicalTime (ix_ExpiresAt interaction) of Inl _ \<Rightarrow> zero_time | Inr expires \<Rightarrow> expires)
                         then (s, GwFailure 409 ''interaction_expired'')
                         else (case ib_grants s (ix_GrantID interaction) of
                             None \<Rightarrow> (s, GwFailure 503 ''interaction_grant_inactive'')
                           | Some grant \<Rightarrow>
                             if \<not> ig_Active grant \<or> ig_TaskAuthorities grant = [] then (s, GwFailure 503 ''interaction_grant_inactive'')
                             else (case taskAuthorityKeys (ig_TaskAuthorities grant) of
                                 Inl _ \<Rightarrow> (s, GwFailure 503 ''interaction_authority_unavailable'')
                               | Inr trusted \<Rightarrow>
                                 (case ip_Verify c permitRaw trusted (clock 1) ip_MaxValidity of
                                    Inl _ \<Rightarrow> (s, GwFailure 403 ''interaction_response_denied'')
                                  | Inr verified \<Rightarrow>
                                    if \<not> interactionPermitMatches c verified interaction responseRaw
                                    then (s, GwFailure 403 ''interaction_response_denied'')
                                    else let resolved = interaction\<lparr>ix_State := ''resolved'', ix_Response := Some
                                               \<lparr>ir_Body = responseBody, ir_KeyID = ipv_KeyID verified, ir_PermitDigest = ipv_EnvelopeDigest verified,
                                                ir_ResponseDigest = ips_ResponseDigest (ipv_Statement verified), ir_ResolvedAt = format_nano (clock 2)\<rparr>\<rparr>;
                                             (s', ok) = gw_persistLocked p (s\<lparr>ib_interactions := (ib_interactions s)[index := resolved]\<rparr>)
                                         in if ok then (s', InteractionReply 200 resolved)
                                            else (s'\<lparr>ib_interactions := ib_interactions s\<rparr>, GwFailure 503 ''interaction_state_unavailable''))))))"

section \<open>Checking the state file\<close>

definition event_binding_ok :: "crypto \<Rightarrow> InstanceEvent \<Rightarrow> bool" where
  "event_binding_ok c event \<longleftrightarrow>
     \<not> (iv_SchemaVersion event \<noteq> InstanceEventSchemaV1 \<or>
        \<not> validInstanceEventID (iv_EventID event) \<or> iv_EventID event \<noteq> instanceEventID c (iv_GrantID event) (iv_IdempotencyKey event) \<or>
        iv_Source event \<noteq> ''agent'' \<or> \<not> gw_bounded (iv_TenantID event) 128 \<or> \<not> gw_bounded (iv_NodeID event) 128 \<or>
        \<not> gw_bounded (iv_InstanceID event) 256 \<or> iv_Generation event = 0 \<or> \<not> validGrantID (iv_GrantID event) \<or>
        \<not> validExecutorRuntimeRef (iv_RuntimeRef event) \<or> \<not> validSHA256Digest (iv_CapsuleDigest event) \<or> \<not> validSHA256Digest (iv_PolicyDigest event))"

definition input_of_event :: "InstanceEvent \<Rightarrow> InstanceEventInput" where
  "input_of_event event =
     \<lparr>ei_SchemaVersion = iv_SchemaVersion event, ei_IdempotencyKey = iv_IdempotencyKey event, ei_Kind = iv_Kind event, ei_Code = iv_Code event,
      ei_Severity = iv_Severity event, ei_Summary = iv_Summary event, ei_Attributes = iv_Attributes event, ei_TaskID = iv_TaskID event,
      ei_RunID = iv_RunID event, ei_ObservedAt = iv_ObservedAt event\<rparr>"

fun retained_events :: "crypto \<Rightarrow> bytes set \<Rightarrow> (bytes \<Rightarrow> nat) \<Rightarrow> (bytes \<Rightarrow> nat) \<Rightarrow> InstanceEvent list \<Rightarrow> unit result" where
  "retained_events c seen tenantCounts grantCounts [] = Ok ()"
| "retained_events c seen tenantCounts grantCounts (event # events) =
     (if \<not> event_binding_ok c event then errorf ''gateway state contains an invalid controller event binding''
      else if \<not> is_ok (ei_validate (input_of_event event)) then errorf ''gateway state contains an invalid controller event''
      else if canonical_zoned (iv_AcceptedAt event) = None then errorf ''gateway state contains an invalid controller event acceptance time''
      else if iv_EventID event \<in> seen then errorf ''gateway state contains duplicate controller events''
      else let tenantCounts = tenantCounts(iv_TenantID event := tenantCounts (iv_TenantID event) + 1);
               grantCounts = grantCounts(iv_GrantID event := grantCounts (iv_GrantID event) + 1)
           in if tenantCounts (iv_TenantID event) > maxInstanceEventsTenant \<or> grantCounts (iv_GrantID event) > maxInstanceEventsGrant
              then errorf ''gateway state controller event quota is exceeded''
              else retained_events c (insert (iv_EventID event) seen) tenantCounts grantCounts events)"

definition validateRetainedEvents :: "crypto \<Rightarrow> InstanceEvent list \<Rightarrow> unit result" where
  "validateRetainedEvents c events =
     (if length events > maxInstanceEvents then errorf ''gateway state contains too many controller events''
      else retained_events c {} (\<lambda>_. 0) (\<lambda>_. 0) events)"

definition interaction_binding_ok :: "crypto \<Rightarrow> Interaction \<Rightarrow> bool" where
  "interaction_binding_ok c v \<longleftrightarrow>
     \<not> (ix_SchemaVersion v \<noteq> InteractionRequestSchemaV1 \<or>
        \<not> validInteractionID (ix_InteractionID v) \<or> ix_InteractionID v \<noteq> interactionID c (ix_GrantID v) (ix_IdempotencyKey v) \<or>
        ix_Source v \<noteq> ''agent'' \<or> \<not> gw_bounded (ix_TenantID v) 128 \<or> \<not> gw_bounded (ix_NodeID v) 128 \<or>
        \<not> gw_bounded (ix_InstanceID v) 256 \<or> ix_Generation v = 0 \<or>
        \<not> validExecutorRuntimeRef (ix_RuntimeRef v) \<or> \<not> validGrantID (ix_GrantID v) \<or>
        \<not> validSHA256Digest (ix_CapsuleDigest v) \<or> \<not> validSHA256Digest (ix_PolicyDigest v) \<or>
        ix_State v \<noteq> ''open'' \<and> ix_State v \<noteq> ''resolved'' \<or>
        ix_RequestDigest v \<noteq> interactionRequestDigest c v)"

definition input_of_interaction :: "Interaction \<Rightarrow> InteractionInput" where
  "input_of_interaction v =
     \<lparr>ii_SchemaVersion = ix_SchemaVersion v, ii_IdempotencyKey = ix_IdempotencyKey v, ii_Kind = ix_Kind v, ii_Title = ix_Title v,
      ii_Prompt = ix_Prompt v, ii_Options = ix_Options v, ii_AllowText = ix_AllowText v, ii_TaskID = ix_TaskID v, ii_RunID = ix_RunID v,
      ii_ObservedAt = ix_ObservedAt v, ii_ExpiresAt = ix_ExpiresAt v\<rparr>"

definition interaction_response_ok :: "Interaction \<Rightarrow> bool" where
  "interaction_response_ok v =
     (if ix_State v = ''resolved'' then
        (case ix_Response v of
           None \<Rightarrow> False
         | Some response \<Rightarrow>
             is_ok (rb_Validate (ir_Body response) (ix_Options v) (ix_AllowText v)) \<and> validSHA256Digest (ir_PermitDigest response) \<and>
             validSHA256Digest (ir_ResponseDigest response) \<and> gw_routeID (ir_KeyID response) \<and> rfc3339 (ir_ResolvedAt response) \<noteq> None)
      else ix_Response v = None)"

fun retained_interactions :: "crypto \<Rightarrow> bytes set \<Rightarrow> (bytes \<Rightarrow> nat) \<Rightarrow> (bytes \<Rightarrow> nat) \<Rightarrow> Interaction list \<Rightarrow> unit result" where
  "retained_interactions c ids tenantCounts grantCounts [] = Ok ()"
| "retained_interactions c ids tenantCounts grantCounts (v # vs) =
     (if \<not> interaction_binding_ok c v then errorf ''gateway state contains an invalid interaction binding''
      else (case canonical_zoned (ix_AcceptedAt v) of
          None \<Rightarrow> errorf ''gateway state contains an invalid interaction''
        | Some accepted \<Rightarrow>
          if \<not> is_ok (ii_validate (input_of_interaction v) accepted) then errorf ''gateway state contains an invalid interaction''
          else if \<not> interaction_response_ok v then errorf ''gateway state contains an invalid interaction response''
          else if ix_InteractionID v \<in> ids then errorf ''gateway state contains duplicate interactions''
          else let tenantCounts = tenantCounts(ix_TenantID v := tenantCounts (ix_TenantID v) + 1);
                   grantCounts = grantCounts(ix_GrantID v := grantCounts (ix_GrantID v) + 1)
               in if tenantCounts (ix_TenantID v) > maxInteractionsTenant \<or> grantCounts (ix_GrantID v) > maxInteractionsGrant
                  then errorf ''gateway state interaction quota is exceeded''
                  else retained_interactions c (insert (ix_InteractionID v) ids) tenantCounts grantCounts vs))"

definition validateRetainedInteractions :: "crypto \<Rightarrow> Interaction list \<Rightarrow> unit result" where
  "validateRetainedInteractions c vs =
     (if length vs > maxInteractions then errorf ''gateway state contains too many interactions''
      else retained_interactions c {} (\<lambda>_. 0) (\<lambda>_. 0) vs)"

text \<open>
  The checks of \<open>loadExisting\<close> on a decoded snapshot: its version, the number of grants, what \<open>validGrant\<close> checks of the fields that
  are modelled, the versions that task authorities, controller events and interactions need, and the retained events and interactions.
\<close>

definition retained_grant_ok :: "int \<Rightarrow> InboxGrant \<Rightarrow> bool" where
  "retained_grant_ok version grant \<longleftrightarrow>
     validGrant_inbox (grant\<lparr>ig_Active := False\<rparr>) \<and> \<not> (ig_TaskAuthorities grant \<noteq> [] \<and> version < 4) \<and>
     \<not> (ig_ControllerEvents grant \<and> version < 8)"

definition state_accepted :: "crypto \<Rightarrow> gateway_snapshot \<Rightarrow> bool" where
  "state_accepted c state \<longleftrightarrow>
     gatewayStateReadMinVersion \<le> gs_Version state \<and> gs_Version state \<le> gatewayStateReadMaxVersion \<and>
     card (dom (gs_Grants state)) \<le> maxRetainedGrants \<and> (\<forall>grant \<in> ran (gs_Grants state). retained_grant_ok (gs_Version state) grant) \<and>
     \<not> (gs_Version state < 8 \<and> gs_Events state \<noteq> []) \<and> is_ok (validateRetainedEvents c (gs_Events state)) \<and>
     \<not> (gs_Version state < 9 \<and> gs_Interactions state \<noteq> []) \<and> is_ok (validateRetainedInteractions c (gs_Interactions state))"

text \<open>
  Starting the Gateway on the state file: grants come back inactive, and the server does not open on a file that it
  refuses. \<open>admitted\<close> is whether the file can be read and decoded within its size limit (\<open>persistLocked\<close> writes no larger one), and the
  parts of the grants and of the configuration that are not modelled (routes, connectors, credentials and their digests, action
  authorities) pass their checks.
\<close>

definition gw_restart :: "crypto \<Rightarrow> bool \<Rightarrow> Inbox \<Rightarrow> Inbox \<times> reply" where
  "gw_restart c admitted s =
     (let closed = \<lparr>ib_open = False, ib_grants = (\<lambda>_. None), ib_events = [], ib_interactions = [], ib_file = ib_file s\<rparr>
      in case ib_file s of
           None \<Rightarrow> (closed\<lparr>ib_open := True\<rparr>, Done)
         | Some state \<Rightarrow>
             if \<not> admitted \<or> \<not> state_accepted c state then (closed, GwFailure 0 ''state_refused'')
             else (closed\<lparr>ib_open := True, ib_grants := (\<lambda>i. map_option (\<lambda>grant. grant\<lparr>ig_Active := False\<rparr>) (gs_Grants state i)),
                     ib_events := gs_Events state, ib_interactions := gs_Interactions state\<rparr>, Done))"

section \<open>Grants\<close>

text \<open>
  \<open>register\<close>, \<open>setActive\<close> and \<open>unregister\<close> on this state. \<open>admitted\<close> is whether the grant passes the checks of
  \<open>validGrant\<close> that are not modelled, \<open>matching\<close> whether the digests of the routes it names are those of the retained grant,
  \<open>listening\<close> whether its sockets can be opened; the rollback writes the file a second time.
\<close>

definition gw_register :: "bool \<Rightarrow> bool \<Rightarrow> persist \<Rightarrow> bool \<Rightarrow> persist \<Rightarrow> InboxGrant \<Rightarrow> Inbox \<Rightarrow> Inbox \<times> reply" where
  "gw_register admitted matching p listening p' grant s =
     (let i = ig_GrantID grant; current = ib_grants s i;
          (s', ok) = gw_persistLocked p (s\<lparr>ib_grants := (ib_grants s)(i \<mapsto> grant)\<rparr>)
      in if ig_Active grant \<or> \<not> admitted \<or> \<not> validGrant_inbox grant then (s, GwFailure 400 ''invalid_request'')
         else if (case current of None \<Rightarrow> False | Some g \<Rightarrow> ig_Active g) then (s, GwFailure 409 ''grant_active'')
         else if (case current of None \<Rightarrow> False | Some g \<Rightarrow> ig_Generation grant < ig_Generation g) then (s, GwFailure 409 ''generation_rollback'')
         else if (case current of None \<Rightarrow> False | Some g \<Rightarrow> ig_Generation grant = ig_Generation g \<and> grant \<noteq> g \<or> \<not> matching)
         then (s, GwFailure 409 ''grant_conflict'')
         else if ok \<and> listening then (s', Done)
         else (fst (gw_persistLocked p' (s'\<lparr>ib_grants := ib_grants s\<rparr>)),
           GwFailure 503 (if ok then ''socket_unavailable'' else ''state_unavailable'')))"

definition gw_setActive :: "persist \<Rightarrow> bytes \<Rightarrow> bool \<Rightarrow> Inbox \<Rightarrow> Inbox \<times> reply" where
  "gw_setActive p i active s =
     (case ib_grants s i of
        None \<Rightarrow> (s, GwFailure 404 ''grant_not_found'')
      | Some grant \<Rightarrow>
        let (s', ok) = gw_persistLocked p (s\<lparr>ib_grants := (ib_grants s)(i \<mapsto> grant\<lparr>ig_Active := active\<rparr>)\<rparr>)
        in if ok then (s', Done) else (s'\<lparr>ib_grants := ib_grants s\<rparr>, GwFailure 503 ''state_unavailable''))"

definition gw_unregister :: "persist \<Rightarrow> bytes \<Rightarrow> Inbox \<Rightarrow> Inbox \<times> reply" where
  "gw_unregister p i s =
     (case ib_grants s i of
        None \<Rightarrow> (s, Done)
      | Some grant \<Rightarrow>
        let (s', ok) = gw_persistLocked p (s\<lparr>ib_grants := (ib_grants s)(i := None)\<rparr>)
        in if ok then (s', Done) else (s'\<lparr>ib_grants := ib_grants s\<rparr>, GwFailure 503 ''state_unavailable''))"

section \<open>Runs\<close>

datatype inbox_op =
    IAgent "nat \<Rightarrow> time" persist agent_request bytes
  | IResolve "nat \<Rightarrow> time" persist "bytes option"
  | IAckEvents persist "bytes option"
  | IAckOutbox persist "bytes option"
  | IListEvents bytes
  | IListOutbox bytes
  | IRegister bool bool persist bool persist InboxGrant
  | ISetActive persist bytes bool
  | IUnregister persist bytes
  | IRestart bool

fun inbox_handle :: "crypto \<Rightarrow> inbox_op \<Rightarrow> Inbox \<Rightarrow> Inbox \<times> reply" where
  "inbox_handle c (IAgent clock p request grantID) s = interactionAndEventHandler c clock p request grantID s"
| "inbox_handle c (IResolve clock p body) s = resolveInteraction c clock p body s"
| "inbox_handle c (IAckEvents p body) s = ackInstanceEvents p body s"
| "inbox_handle c (IAckOutbox p body) s = ackInteractionOutbox p body s"
| "inbox_handle c (IListEvents rawQuery) s = (s, listInstanceEvents rawQuery s)"
| "inbox_handle c (IListOutbox rawQuery) s = (s, listInteractionOutbox rawQuery s)"
| "inbox_handle c (IRegister admitted matching p listening p' grant) s = gw_register admitted matching p listening p' grant s"
| "inbox_handle c (ISetActive p i active) s = gw_setActive p i active s"
| "inbox_handle c (IUnregister p i) s = gw_unregister p i s"
| "inbox_handle c (IRestart admitted) s = gw_restart c admitted s"

fun restarts :: "inbox_op \<Rightarrow> bool" where
  "restarts (IRestart admitted) = True"
| "restarts _ = False"

text \<open>A server that did not open serves nothing until it is started again.\<close>

definition inbox_exec :: "crypto \<Rightarrow> inbox_op \<Rightarrow> Inbox \<Rightarrow> Inbox \<times> reply" where
  "inbox_exec c op s = (if \<not> ib_open s \<and> \<not> restarts op then (s, GwFailure 0 ''closed'') else inbox_handle c op s)"

definition inbox_start :: Inbox where
  "inbox_start = \<lparr>ib_open = False, ib_grants = (\<lambda>_. None), ib_events = [], ib_interactions = [], ib_file = None\<rparr>"

end
