(* ===== verification/Inbox_Protocol.thy ===== *)
theory Inbox_Protocol
  imports Gateway_Inbox
begin

text \<open>
  \<open>internal/controlprotocol/interactions.go\<close> and \<open>instance_events.go\<close>: what Control accepts from a node, and the conversion and
  batching of the node's poller (\<open>internal/executoruplink/poller.go\<close>). An \<open>InstanceEventV1\<close> has the fields of the Gateway's \<open>InstanceEvent\<close>.
\<close>

section \<open>Interactions\<close>

definition InteractionBatchSchemaV1 :: bytes where "InteractionBatchSchemaV1 = ''steward.interaction-request-batch.v1''"
definition MaxInteractionBatch :: nat where "MaxInteractionBatch = 64"
definition cp_MaxInteractionOptions :: nat where "cp_MaxInteractionOptions = 8"
definition cp_MaxInteractionWait :: duration where "cp_MaxInteractionWait = 7 * 24 * hour"

definition interactionRequestID :: "crypto \<Rightarrow> bytes \<Rightarrow> bytes \<Rightarrow> bytes" where
  "interactionRequestID c grantID idempotencyKey =
     ''interaction-'' @ hex_encode (sha256 c (''steward-interaction-v1'' @ [chr 0] @ grantID @ [chr 0] @ idempotencyKey))"

definition cp_interactionID :: "bytes \<Rightarrow> bool" where
  "cp_interactionID value =
     (if \<not> has_prefix value ''interaction-'' \<or> length value \<noteq> length ''interaction-'' + 64 then False
      else hex_decode (trim_prefix value ''interaction-'') \<noteq> None)"

fun request_options :: "bytes set \<Rightarrow> bytes list \<Rightarrow> unit result" where
  "request_options seen [] = Ok ()"
| "request_options seen (option # options) =
     (if \<not> cp_text option 128 then errorf ''interaction request option is invalid''
      else if option \<in> seen then errorf ''interaction request contains a duplicate option''
      else request_options (insert option seen) options)"

text \<open>A nil slice has no elements.\<close>

definition slice :: "'a list option \<Rightarrow> 'a list" where
  "slice xs = (case xs of None \<Rightarrow> [] | Some ys \<Rightarrow> ys)"

text \<open>A time that does not parse is the zero time.\<close>

definition time_or_zero :: "time result \<Rightarrow> time" where
  "time_or_zero r = (case r of Inl _ \<Rightarrow> zero_time | Inr t \<Rightarrow> t)"

definition rv_Validate :: "crypto \<Rightarrow> InteractionRequestV1 \<Rightarrow> unit result" where
  "rv_Validate c v =
     (let observed = canonicalTime (rv_ObservedAt v); accepted = canonical_nano (rv_AcceptedAt v); expires = canonicalTime (rv_ExpiresAt v)
      in if rv_SchemaVersion v \<noteq> InteractionRequestSchemaV1 \<or>
           \<not> cp_interactionID (rv_InteractionID v) \<or> \<not> recordID (rv_IdempotencyKey v) 128 \<or>
           rv_InteractionID v \<noteq> interactionRequestID c (rv_GrantID v) (rv_IdempotencyKey v) \<or>
           rv_Source v \<noteq> ''agent'' \<or> \<not> recordID (rv_TenantID v) 128 \<or>
           \<not> recordID (rv_NodeID v) 128 \<or> \<not> cp_text (rv_InstanceID v) 256 \<or>
           rv_Generation v = 0 \<or> \<not> cp_prefixedDigest (rv_RuntimeRef v) ''executor-'' \<or>
           \<not> cp_prefixedDigest (rv_GrantID v) ''grant-'' \<or> \<not> sha256Digest (rv_CapsuleDigest v) \<or>
           \<not> sha256Digest (rv_PolicyDigest v) \<or>
           (rv_Kind v \<noteq> ''question'' \<and> rv_Kind v \<noteq> ''decision'') \<or>
           \<not> cp_text (rv_Title v) 128 \<or> \<not> cp_text (rv_Prompt v) 4096 \<or>
           length (slice (rv_Options v)) > cp_MaxInteractionOptions \<or>
           rv_TaskID v \<noteq> [] \<and> \<not> cp_text (rv_TaskID v) 256 \<or>
           rv_RunID v \<noteq> [] \<and> \<not> cp_text (rv_RunID v) 256 \<or>
           \<not> is_ok observed \<or> \<not> is_ok accepted \<or> \<not> is_ok expires \<or>
           time_or_zero observed > time_or_zero accepted + 5 * minute \<or> \<not> time_or_zero accepted < time_or_zero expires \<or>
           time_sub (time_or_zero expires) (time_or_zero accepted) > cp_MaxInteractionWait \<or>
           rv_RequestDigest v \<noteq> InteractionRequestDigest c v
         then errorf ''interaction request is invalid''
         else if rv_Kind v = ''decision'' \<and> length (slice (rv_Options v)) < 2 \<or> length (slice (rv_Options v)) = 0 \<and> \<not> rv_AllowText v
         then errorf ''interaction request has no bounded response path''
         else request_options {} (slice (rv_Options v)))"

record InteractionRequestBatchV1 =
  qb_SchemaVersion :: bytes
  qb_NodeID :: bytes
  qb_Interactions :: "InteractionRequestV1 list"

fun request_batch :: "crypto \<Rightarrow> bytes \<Rightarrow> bytes set \<Rightarrow> InteractionRequestV1 list \<Rightarrow> unit result" where
  "request_batch c node seen [] = Ok ()"
| "request_batch c node seen (v # vs) =
     (if rv_NodeID v \<noteq> node \<or> \<not> is_ok (rv_Validate c v) then errorf ''interaction request batch contains an invalid interaction''
      else if rv_InteractionID v \<in> seen then errorf ''interaction request batch contains a duplicate interaction''
      else request_batch c node (insert (rv_InteractionID v) seen) vs)"

definition qb_Validate :: "crypto \<Rightarrow> InteractionRequestBatchV1 \<Rightarrow> unit result" where
  "qb_Validate c batch =
     (if qb_SchemaVersion batch \<noteq> InteractionBatchSchemaV1 \<or> \<not> recordID (qb_NodeID batch) 128 \<or>
        length (qb_Interactions batch) = 0 \<or> length (qb_Interactions batch) > MaxInteractionBatch
      then errorf ''interaction request batch is invalid''
      else request_batch c (qb_NodeID batch) {} (qb_Interactions batch))"

definition controllerInteraction :: "Interaction \<Rightarrow> InteractionRequestV1" where
  "controllerInteraction v =
     \<lparr>rv_SchemaVersion = ix_SchemaVersion v, rv_InteractionID = ix_InteractionID v, rv_IdempotencyKey = ix_IdempotencyKey v, rv_Source = ix_Source v,
      rv_TenantID = ix_TenantID v, rv_NodeID = ix_NodeID v, rv_InstanceID = ix_InstanceID v, rv_Generation = ix_Generation v,
      rv_RuntimeRef = ix_RuntimeRef v, rv_GrantID = ix_GrantID v, rv_CapsuleDigest = ix_CapsuleDigest v, rv_PolicyDigest = ix_PolicyDigest v,
      rv_Kind = ix_Kind v, rv_Title = ix_Title v, rv_Prompt = ix_Prompt v, rv_Options = cloned (ix_Options v), rv_AllowText = ix_AllowText v,
      rv_TaskID = ix_TaskID v, rv_RunID = ix_RunID v, rv_ObservedAt = ix_ObservedAt v, rv_AcceptedAt = ix_AcceptedAt v,
      rv_ExpiresAt = ix_ExpiresAt v, rv_RequestDigest = ix_RequestDigest v\<rparr>"

text \<open>The batch that \<open>publishInteractions\<close> posts and the identities it acknowledges once Control has taken it: nothing when the outbox is empty
  or does not pass the checks of the client or of the protocol.\<close>

definition publishInteractions :: "crypto \<Rightarrow> bytes \<Rightarrow> Interaction list \<Rightarrow> (InteractionRequestBatchV1 \<times> bytes list) option" where
  "publishInteractions c nodeID outbox =
     (if \<not> is_ok (validateRetainedInteractions c outbox) \<or> length outbox = 0 then None
      else let batch = \<lparr>qb_SchemaVersion = InteractionBatchSchemaV1, qb_NodeID = nodeID, qb_Interactions = map controllerInteraction outbox\<rparr>
           in if \<not> is_ok (qb_Validate c batch) then None else Some (batch, map ix_InteractionID outbox))"

section \<open>Events\<close>

definition InstanceEventBatchV1 :: bytes where "InstanceEventBatchV1 = ''steward.instance-event-batch.v1''"
definition MaxInstanceEventBatch :: nat where "MaxInstanceEventBatch = 64"
definition cp_MaxInstanceEventAttrs :: nat where "cp_MaxInstanceEventAttrs = 16"
definition MaxInstanceEventSummary :: nat where "MaxInstanceEventSummary = 1024"

definition cp_eventID :: "bytes \<Rightarrow> bool" where
  "cp_eventID value =
     (if \<not> has_prefix value ''event-'' \<or> length value \<noteq> length ''event-'' + 64 then False
      else hex_decode (trim_prefix value ''event-'') \<noteq> None)"

definition cp_instanceEventID :: "crypto \<Rightarrow> bytes \<Rightarrow> bytes \<Rightarrow> bytes" where
  "cp_instanceEventID c grantID idempotencyKey =
     ''event-'' @ hex_encode (sha256 c (''steward-instance-event-v1'' @ [chr 0] @ grantID @ [chr 0] @ idempotencyKey))"

definition ev1_Validate :: "crypto \<Rightarrow> InstanceEvent \<Rightarrow> unit result" where
  "ev1_Validate c event =
     (if iv_SchemaVersion event \<noteq> InstanceEventSchemaV1 \<or> \<not> cp_eventID (iv_EventID event) \<or> \<not> recordID (iv_IdempotencyKey event) 128 \<or>
        iv_EventID event \<noteq> cp_instanceEventID c (iv_GrantID event) (iv_IdempotencyKey event) \<or>
        iv_Source event \<noteq> ''agent'' \<or> \<not> recordID (iv_TenantID event) 128 \<or> \<not> recordID (iv_NodeID event) 128 \<or>
        \<not> cp_text (iv_InstanceID event) 256 \<or> iv_Generation event = 0 \<or> \<not> cp_prefixedDigest (iv_RuntimeRef event) ''executor-'' \<or>
        \<not> cp_prefixedDigest (iv_GrantID event) ''grant-'' \<or> \<not> sha256Digest (iv_CapsuleDigest event) \<or> \<not> sha256Digest (iv_PolicyDigest event) \<or>
        (iv_Kind event \<noteq> ''status'' \<and> iv_Kind event \<noteq> ''finding'') \<or> \<not> recordID (iv_Code event) 128 \<or>
        (iv_Severity event \<noteq> ''info'' \<and> iv_Severity event \<noteq> ''warning'' \<and> iv_Severity event \<noteq> ''critical'') \<or>
        \<not> cp_text (iv_Summary event) MaxInstanceEventSummary \<or> iv_TaskID event \<noteq> [] \<and> \<not> cp_text (iv_TaskID event) 256 \<or>
        iv_RunID event \<noteq> [] \<and> \<not> cp_text (iv_RunID event) 256 \<or> \<not> timestamp (iv_ObservedAt event) \<or> \<not> timestamp (iv_AcceptedAt event) \<or>
        length (iv_Attributes event) > cp_MaxInstanceEventAttrs
      then errorf ''instance event is invalid''
      else if \<not> list_all (\<lambda>(key, v). recordID key 128 \<and> cp_text v 1024) (iv_Attributes event) then errorf ''instance event attribute is invalid''
      else if (\<Sum>(key, v) \<leftarrow> iv_Attributes event. length key + length v) > 4096 then errorf ''instance event attributes exceed limit''
      else Ok ())"

fun event_batch :: "crypto \<Rightarrow> bytes \<Rightarrow> bytes set \<Rightarrow> InstanceEvent list \<Rightarrow> unit result" where
  "event_batch c node seen [] = Ok ()"
| "event_batch c node seen (event # events) =
     (if iv_NodeID event \<noteq> node \<or> \<not> is_ok (ev1_Validate c event) then errorf ''instance event batch contains an invalid event''
      else if iv_EventID event \<in> seen then errorf ''instance event batch contains a duplicate event''
      else event_batch c node (insert (iv_EventID event) seen) events)"

record InstanceEventBatchRequestV1 =
  eb_SchemaVersion :: bytes
  eb_NodeID :: bytes
  eb_Events :: "InstanceEvent list"

definition eb_Validate :: "crypto \<Rightarrow> InstanceEventBatchRequestV1 \<Rightarrow> unit result" where
  "eb_Validate c batch =
     (if eb_SchemaVersion batch \<noteq> InstanceEventBatchV1 \<or> \<not> recordID (eb_NodeID batch) 128 \<or>
        length (eb_Events batch) = 0 \<or> length (eb_Events batch) > MaxInstanceEventBatch
      then errorf ''instance event batch is invalid''
      else event_batch c (eb_NodeID batch) {} (eb_Events batch))"

definition controllerEvent :: "InstanceEvent \<Rightarrow> InstanceEvent" where
  "controllerEvent event =
     \<lparr>iv_SchemaVersion = iv_SchemaVersion event, iv_EventID = iv_EventID event, iv_IdempotencyKey = iv_IdempotencyKey event,
      iv_Source = iv_Source event, iv_TenantID = iv_TenantID event, iv_NodeID = iv_NodeID event, iv_InstanceID = iv_InstanceID event,
      iv_Generation = iv_Generation event, iv_RuntimeRef = iv_RuntimeRef event, iv_GrantID = iv_GrantID event,
      iv_CapsuleDigest = iv_CapsuleDigest event, iv_PolicyDigest = iv_PolicyDigest event, iv_Kind = iv_Kind event, iv_Code = iv_Code event,
      iv_Severity = iv_Severity event, iv_Summary = iv_Summary event, iv_Attributes = iv_Attributes event, iv_TaskID = iv_TaskID event,
      iv_RunID = iv_RunID event, iv_ObservedAt = iv_ObservedAt event, iv_AcceptedAt = iv_AcceptedAt event\<rparr>"

definition publishEvents :: "crypto \<Rightarrow> bytes \<Rightarrow> InstanceEvent list \<Rightarrow> (InstanceEventBatchRequestV1 \<times> bytes list) option" where
  "publishEvents c nodeID outbox =
     (if length outbox > maxInstanceEvents \<or> \<not> is_ok (validateRetainedEvents c outbox) \<or> length outbox = 0 then None
      else let batch = \<lparr>eb_SchemaVersion = InstanceEventBatchV1, eb_NodeID = nodeID, eb_Events = map controllerEvent outbox\<rparr>
           in if \<not> is_ok (eb_Validate c batch) then None else Some (batch, map iv_EventID outbox))"

end
