(* ===== verification/Inbox_Invariant.thy ===== *)
theory Inbox_Invariant
  imports Inbox_Protocol
begin

text \<open>
  What the Gateway's inbox keeps. The checks of the state file are characterised by a locale, once for events and interactions; each handler is
  an attempt to change the state in memory that is written to the file or taken back; and every state that is reached, in memory and in the file,
  passes the checks.
\<close>

section \<open>Bounded outboxes\<close>

text \<open>The common shape of the two checks: every element is acceptable, the keys are unique, and tenants and grants stay within their shares.\<close>

fun retained :: "('a \<Rightarrow> bool) \<Rightarrow> ('a \<Rightarrow> 'k) \<Rightarrow> ('a \<Rightarrow> 't) \<Rightarrow> ('a \<Rightarrow> 'g) \<Rightarrow> nat \<Rightarrow> nat \<Rightarrow> 'k set \<Rightarrow> ('t \<Rightarrow> nat) \<Rightarrow> ('g \<Rightarrow> nat) \<Rightarrow> 'a list \<Rightarrow> bool" where
  "retained ok key tenant grant T G seen tc gc [] \<longleftrightarrow> True"
| "retained ok key tenant grant T G seen tc gc (x # xs) \<longleftrightarrow>
     ok x \<and> key x \<notin> seen \<and> tc (tenant x) < T \<and> gc (grant x) < G \<and>
     retained ok key tenant grant T G (insert (key x) seen) (tc(tenant x := tc (tenant x) + 1)) (gc(grant x := gc (grant x) + 1)) xs"

definition share :: "('a \<Rightarrow> 't) \<Rightarrow> 't \<Rightarrow> 'a list \<Rightarrow> nat" where
  "share f t xs = length (filter (\<lambda>x. f x = t) xs)"

lemma share_simps [simp]: "share f t [] = 0" "share f t (x # xs) = (if f x = t then 1 else 0) + share f t xs"
  "share f t (xs @ ys) = share f t xs + share f t ys"
  by (simp_all add: share_def)

lemma share_zero: "share f t xs = 0 \<longleftrightarrow> t \<notin> f ` set xs"
  by (induction xs) auto

lemma share_filter: "share f t (filter P xs) \<le> share f t xs"
  by (induction xs) auto

lemma share_map: "(\<And>x. f (h x) = f x) \<Longrightarrow> share f t (map h xs) = share f t xs"
  by (induction xs) auto

lemma share_update: "k < length xs \<Longrightarrow> f x = f (xs ! k) \<Longrightarrow> share f t (xs[k := x]) = share f t xs"
proof (induction xs arbitrary: k)
  case (Cons y ys)
  then show ?case by (cases k) auto
qed simp

lemma share_quota:
  "(\<forall>x \<in> set (y # ys). c (f x) + share f (f x) (y # ys) \<le> N) \<longleftrightarrow>
    c (f y) < N \<and> (\<forall>x \<in> set ys. (c(f y := c (f y) + 1)) (f x) + share f (f x) ys \<le> N)"
proof -
  have "share f (f y) ys = 0 \<or> (\<exists>x \<in> set ys. f x = f y)" using share_zero [of f "f y" ys] by fastforce
  then show ?thesis by fastforce
qed

lemma retained_iff:
  "retained ok key tenant grant T G seen tc gc xs \<longleftrightarrow>
     (\<forall>x \<in> set xs. ok x) \<and> distinct (map key xs) \<and> key ` set xs \<inter> seen = {} \<and>
     (\<forall>x \<in> set xs. tc (tenant x) + share tenant (tenant x) xs \<le> T) \<and> (\<forall>x \<in> set xs. gc (grant x) + share grant (grant x) xs \<le> G)"
proof (induction xs arbitrary: seen tc gc)
  case (Cons x xs)
  show ?case unfolding share_quota retained.simps Cons.IH by auto
qed simp

definition well_retained :: "('a \<Rightarrow> bool) \<Rightarrow> ('a \<Rightarrow> 'k) \<Rightarrow> ('a \<Rightarrow> 't) \<Rightarrow> ('a \<Rightarrow> 'g) \<Rightarrow> nat \<Rightarrow> nat \<Rightarrow> nat \<Rightarrow> 'a list \<Rightarrow> bool" where
  "well_retained ok key tenant grant N T G xs \<longleftrightarrow> length xs \<le> N \<and> (\<forall>x \<in> set xs. ok x) \<and> distinct (map key xs) \<and>
     (\<forall>t. share tenant t xs \<le> T) \<and> (\<forall>g. share grant g xs \<le> G)"

lemma share_members: "(\<forall>x \<in> set xs. share f (f x) xs \<le> N) \<longleftrightarrow> (\<forall>t. share f t xs \<le> N)"
proof
  assume h: "\<forall>x \<in> set xs. share f (f x) xs \<le> N"
  show "\<forall>t. share f t xs \<le> N"
  proof
    fix t
    show "share f t xs \<le> N" using h share_zero [of f t xs] by (cases "t \<in> f ` set xs") auto
  qed
qed simp

lemma well_retained_iff:
  "length xs \<le> N \<and> retained ok key tenant grant T G {} (\<lambda>_. 0) (\<lambda>_. 0) xs \<longleftrightarrow> well_retained ok key tenant grant N T G xs"
  by (simp add: retained_iff well_retained_def share_members)

locale outbox =
  fixes validate :: "'a list \<Rightarrow> unit result"
    and ok :: "'a \<Rightarrow> bool"
    and key :: "'a \<Rightarrow> bytes"
    and tenant :: "'a \<Rightarrow> bytes"
    and grant :: "'a \<Rightarrow> bytes"
    and N :: nat and T :: nat and G :: nat
  assumes validate_iff: "is_ok (validate xs) \<longleftrightarrow> well_retained ok key tenant grant N T G xs"
begin

lemma validate_Nil: "is_ok (validate [])"
  by (simp add: validate_iff well_retained_def)

lemma validate_snoc:
  assumes "is_ok (validate xs)" "ok x" "key x \<notin> key ` set xs" "length xs < N" "share tenant (tenant x) xs < T" "share grant (grant x) xs < G"
  shows "is_ok (validate (xs @ [x]))"
  using assms by (auto simp: validate_iff well_retained_def)

lemma validate_filter: "is_ok (validate xs) \<Longrightarrow> is_ok (validate (filter P xs))"
  unfolding validate_iff well_retained_def
proof (intro conjI allI ballI; elim conjE)
  show "length xs \<le> N \<Longrightarrow> length (filter P xs) \<le> N" by (rule order_trans [OF length_filter_le])
  show "distinct (map key xs) \<Longrightarrow> distinct (map key (filter P xs))" by (rule distinct_map_filter)
  show "\<forall>t. share tenant t xs \<le> T \<Longrightarrow> share tenant t (filter P xs) \<le> T" for t using share_filter [of tenant t P xs] by (meson order_trans)
  show "\<forall>t. share grant t xs \<le> G \<Longrightarrow> share grant t (filter P xs) \<le> G" for t using share_filter [of grant t P xs] by (meson order_trans)
qed simp

lemma validate_map:
  assumes "is_ok (validate xs)" "\<And>x. x \<in> set xs \<Longrightarrow> ok x \<Longrightarrow> ok (h x)" "\<And>x. key (h x) = key x" "\<And>x. tenant (h x) = tenant x" "\<And>x. grant (h x) = grant x"
  shows "is_ok (validate (map h xs))"
  using assms by (auto simp: validate_iff well_retained_def share_map o_def)

lemma validate_update:
  assumes "is_ok (validate xs)" "k < length xs" "ok x" "key x = key (xs ! k)" "tenant x = tenant (xs ! k)" "grant x = grant (xs ! k)"
  shows "is_ok (validate (xs[k := x]))"
proof -
  have "map key (xs[k := x]) = map key xs"
    using assms(2,4) by (metis list_update_id map_update)
  with assms show ?thesis
    unfolding validate_iff well_retained_def by (auto simp: share_update dest!: set_update_subset_insert [THEN subsetD])
qed

lemma validate_key: "is_ok (validate xs) \<Longrightarrow> x \<in> set xs \<Longrightarrow> y \<in> set xs \<Longrightarrow> key x = key y \<Longrightarrow> x = y"
  by (auto simp: validate_iff well_retained_def distinct_map dest: inj_onD)

lemma validate_quota: "is_ok (validate xs) \<Longrightarrow> length xs \<le> N \<and> share tenant t xs \<le> T \<and> share grant g xs \<le> G"
  by (simp add: validate_iff well_retained_def)

end

section \<open>The checks of the state file\<close>

definition event_ok :: "crypto \<Rightarrow> InstanceEvent \<Rightarrow> bool" where
  "event_ok c e \<longleftrightarrow> event_binding_ok c e \<and> is_ok (ei_validate (input_of_event e)) \<and> canonical_zoned (iv_AcceptedAt e) \<noteq> None"

definition interaction_ok :: "crypto \<Rightarrow> Interaction \<Rightarrow> bool" where
  "interaction_ok c v \<longleftrightarrow> interaction_binding_ok c v \<and>
     (\<exists>accepted. canonical_zoned (ix_AcceptedAt v) = Some accepted \<and> is_ok (ii_validate (input_of_interaction v) accepted)) \<and> interaction_response_ok v"

lemma retained_events_eq:
  "is_ok (retained_events c seen tc gc es) \<longleftrightarrow>
     retained (event_ok c) iv_EventID iv_TenantID iv_GrantID maxInstanceEventsTenant maxInstanceEventsGrant seen tc gc es"
  by (induction es arbitrary: seen tc gc) (auto simp: event_ok_def Let_def)

lemma retained_interactions_eq:
  "is_ok (retained_interactions c seen tc gc vs) \<longleftrightarrow>
     retained (interaction_ok c) ix_InteractionID ix_TenantID ix_GrantID maxInteractionsTenant maxInteractionsGrant seen tc gc vs"
  by (induction vs arbitrary: seen tc gc) (auto simp: interaction_ok_def Let_def split: option.splits)

interpretation events: outbox "validateRetainedEvents c" "event_ok c" iv_EventID iv_TenantID iv_GrantID
  maxInstanceEvents maxInstanceEventsTenant maxInstanceEventsGrant for c
  by unfold_locales (simp add: validateRetainedEvents_def retained_events_eq flip: well_retained_iff)

interpretation interactions: outbox "validateRetainedInteractions c" "interaction_ok c" ix_InteractionID ix_TenantID ix_GrantID
  maxInteractions maxInteractionsTenant maxInteractionsGrant for c
  by unfold_locales (simp add: validateRetainedInteractions_def retained_interactions_eq flip: well_retained_iff)

end
