(* ===== verification/Inbox_Steps.thy ===== *)
theory Inbox_Steps
  imports Inbox_Invariant
begin

text \<open>
  The handlers of the inbox as steps. \<open>attempt\<close> says which change of the state in memory a handler makes and under
  which conditions; \<open>settles\<close> says what is left in memory and in the file once the change was written or taken back. \<open>exec_cases\<close> reduces a
  handler to these; the rest of the development does not look at the handlers again.
\<close>

section \<open>Attempts\<close>

text \<open>A response is authorised by a courier: its permit verifies under the keys of the active grant and matches the interaction and the response bytes.\<close>

definition authorised :: "crypto \<Rightarrow> Inbox \<Rightarrow> (nat \<Rightarrow> time) \<Rightarrow> bytes option \<Rightarrow> Interaction \<Rightarrow> InteractionResponse \<Rightarrow> bool" where
  "authorised c s clock body v response \<longleftrightarrow>
     (\<exists>permit raw answer grant trusted verified.
        read_courier body = Inr (ix_InteractionID v, permit, raw, answer) \<and>
        is_ok (rb_Validate answer (ix_Options v) (ix_AllowText v)) \<and>
        clock 0 < (case canonicalTime (ix_ExpiresAt v) of Inl _ \<Rightarrow> zero_time | Inr expires \<Rightarrow> expires) \<and>
        ib_grants s (ix_GrantID v) = Some grant \<and> ig_Active grant \<and> taskAuthorityKeys (ig_TaskAuthorities grant) = Ok trusted \<and>
        ip_Verify c permit trusted (clock 1) ip_MaxValidity = Ok verified \<and> interactionPermitMatches c verified v raw \<and>
        response = \<lparr>ir_Body = answer, ir_KeyID = ipv_KeyID verified, ir_PermitDigest = ipv_EnvelopeDigest verified,
          ir_ResponseDigest = ips_ResponseDigest (ipv_Statement verified), ir_ResolvedAt = format_nano (clock 2)\<rparr>)"

inductive attempt :: "crypto \<Rightarrow> inbox_op \<Rightarrow> Inbox \<Rightarrow> Inbox \<Rightarrow> bool" for c where
  asks: "ib_grants s g = Some grant \<Longrightarrow> ig_Active grant \<Longrightarrow> ig_ControllerEvents grant \<Longrightarrow> ig_TaskAuthorities grant \<noteq> [] \<Longrightarrow>
    ii_validate input (clock 0) = Ok () \<Longrightarrow> i = interactionID c g (ii_IdempotencyKey input) \<Longrightarrow>
    i \<notin> ix_InteractionID ` set (ib_interactions s) \<Longrightarrow> length (ib_interactions s) < maxInteractions \<Longrightarrow>
    share ix_TenantID (ig_TenantID grant) (ib_interactions s) < maxInteractionsTenant \<Longrightarrow>
    share ix_GrantID g (ib_interactions s) < maxInteractionsGrant \<Longrightarrow>
    attempt c (IAgent clock p request g) s (s\<lparr>ib_interactions := ib_interactions s @ [new_interaction c (clock 0) grant i input]\<rparr>)"
| observes: "ib_grants s g = Some grant \<Longrightarrow> ig_Active grant \<Longrightarrow> ig_ControllerEvents grant \<Longrightarrow>
    ei_validate input = Ok () \<Longrightarrow> i = instanceEventID c g (ei_IdempotencyKey input) \<Longrightarrow>
    i \<notin> iv_EventID ` set (ib_events s) \<Longrightarrow> length (ib_events s) < maxInstanceEvents \<Longrightarrow>
    share iv_TenantID (ig_TenantID grant) (ib_events s) < maxInstanceEventsTenant \<Longrightarrow> share iv_GrantID g (ib_events s) < maxInstanceEventsGrant \<Longrightarrow>
    attempt c (IAgent clock p request g) s (s\<lparr>ib_events := ib_events s @ [new_event (clock 0) grant i input]\<rparr>)"
| resolves: "k < length (ib_interactions s) \<Longrightarrow> v = ib_interactions s ! k \<Longrightarrow> ix_Response v = None \<Longrightarrow> authorised c s clock body v response \<Longrightarrow>
    attempt c (IResolve clock p body) s (s\<lparr>ib_interactions := (ib_interactions s)[k := v\<lparr>ix_State := ''resolved'', ix_Response := Some response\<rparr>]\<rparr>)"
| forgets: "read_body maxInstanceEventBytes body = Some raw \<Longrightarrow> DecodeStrictInto raw maxInstanceEventBytes event_ack_type = Ok v \<Longrightarrow>
    ids = strs_member ''event_ids'' v \<Longrightarrow>
    attempt c (IAckEvents p body) s (s\<lparr>ib_events := filter (\<lambda>event. iv_EventID event \<notin> set ids) (ib_events s)\<rparr>)"
| delivered: "attempt c (IAckOutbox p body) s (s\<lparr>ib_interactions := map (acknowledge ids) (ib_interactions s)\<rparr>)"
| registers: "validGrant_inbox grant \<Longrightarrow> \<not> ig_Active grant \<Longrightarrow>
    attempt c (IRegister admitted matching p listening p' grant) s (s\<lparr>ib_grants := (ib_grants s)(ig_GrantID grant \<mapsto> grant)\<rparr>)"
| activates: "ib_grants s i = Some grant \<Longrightarrow> attempt c (ISetActive p i active) s (s\<lparr>ib_grants := (ib_grants s)(i \<mapsto> grant\<lparr>ig_Active := active\<rparr>)\<rparr>)"
| removes: "attempt c (IUnregister p i) s (s\<lparr>ib_grants := (ib_grants s)(i := None)\<rparr>)"

definition snap :: "Inbox \<Rightarrow> gateway_snapshot" where
  "snap s = \<lparr>gs_Version = gatewayStateWriteVersion, gs_Grants = ib_grants s, gs_Events = ib_events s, gs_Interactions = ib_interactions s\<rparr>"

lemma snap_sel [simp]: "gs_Grants (snap s) = ib_grants s" "gs_Events (snap s) = ib_events s" "gs_Interactions (snap s) = ib_interactions s"
  "gs_Version (snap s) = gatewayStateWriteVersion"
  "snap (s\<lparr>ib_file := f\<rparr>) = snap s"
  by (simp_all add: snap_def)

definition settles :: "Inbox \<Rightarrow> Inbox \<Rightarrow> Inbox \<Rightarrow> bool" where
  "settles s m s' \<longleftrightarrow> s' = m\<lparr>ib_file := Some (snap m)\<rparr> \<or>
     (\<exists>f \<in> {ib_file s, Some (snap m), Some (snap s)}. s' = s\<lparr>ib_file := f\<rparr>)"

section \<open>Handlers are attempts\<close>

lemma persist_simps:
  "gw_persistLocked PersistOk s = (s\<lparr>ib_file := Some (snap s)\<rparr>, True)" "gw_persistLocked PersistFailed s = (s, False)"
  "gw_persistLocked PersistReplaced s = (s\<lparr>ib_file := Some (snap s)\<rparr>, False)"
  by (simp_all add: gw_persistLocked_def snap_def)

text \<open>The three ways of a write, with the change in memory taken back by a handler if it failed.\<close>

lemma interactions_written:
  assumes "m = s\<lparr>ib_interactions := xs\<rparr>" "gw_persistLocked p m = (t, ok)"
  shows "settles s m (if ok then t else t\<lparr>ib_interactions := ib_interactions s\<rparr>)" "ok \<longleftrightarrow> p = PersistOk"
  using assms by (cases p; auto simp: persist_simps settles_def)+

lemma events_written:
  assumes "m = s\<lparr>ib_events := xs\<rparr>" "gw_persistLocked p m = (t, ok)"
  shows "settles s m (if ok then t else t\<lparr>ib_events := ib_events s\<rparr>)" "ok \<longleftrightarrow> p = PersistOk"
  using assms by (cases p; auto simp: persist_simps settles_def)+

lemma grants_written:
  assumes "gw_persistLocked p (s\<lparr>ib_grants := xs\<rparr>) = (t, ok)"
  shows "settles s (s\<lparr>ib_grants := xs\<rparr>) t \<or> \<not> ok" "settles s (s\<lparr>ib_grants := xs\<rparr>) (fst (gw_persistLocked p' (t\<lparr>ib_grants := ib_grants s\<rparr>)))"
  using assms by (cases p; cases p'; auto simp: persist_simps settles_def)+

lemma createInteraction_cases:
  assumes "createInteraction c now p request g s = (s', r)"
  shows "s' = s \<and> (\<forall>v. r \<noteq> InteractionReply 202 v \<or> v \<in> set (ib_interactions s)) \<or>
    (\<exists>grant input i m. ib_grants s g = Some grant \<and> ig_Active grant \<and> ig_ControllerEvents grant \<and> ig_TaskAuthorities grant \<noteq> [] \<and>
      ii_validate input now = Ok () \<and> i = interactionID c g (ii_IdempotencyKey input) \<and> i \<notin> ix_InteractionID ` set (ib_interactions s) \<and>
      length (ib_interactions s) < maxInteractions \<and> share ix_TenantID (ig_TenantID grant) (ib_interactions s) < maxInteractionsTenant \<and>
      share ix_GrantID g (ib_interactions s) < maxInteractionsGrant \<and>
      m = s\<lparr>ib_interactions := ib_interactions s @ [new_interaction c now grant i input]\<rparr> \<and> settles s m s' \<and>
      (p = PersistOk \<and> s' = m\<lparr>ib_file := Some (snap m)\<rparr> \<and> r = InteractionReply 202 (new_interaction c now grant i input) \<or>
       p \<noteq> PersistOk \<and> r = GwFailure 503 ''interaction_state_unavailable''))"
proof -
  consider "s' = s" "\<forall>v. r \<noteq> InteractionReply 202 v \<or> v \<in> set (ib_interactions s)"
  | grant input where "ib_grants s g = Some grant" "ig_Active grant" "ig_ControllerEvents grant" "ig_TaskAuthorities grant \<noteq> []"
    "ii_validate input now = Ok ()" "find (\<lambda>existing. ix_InteractionID existing = interactionID c g (ii_IdempotencyKey input)) (ib_interactions s) = None"
    "length (ib_interactions s) < maxInteractions" "share ix_TenantID (ig_TenantID grant) (ib_interactions s) < maxInteractionsTenant"
    "share ix_GrantID g (ib_interactions s) < maxInteractionsGrant"
    "(let interaction = new_interaction c now grant (interactionID c g (ii_IdempotencyKey input)) input;
          (s', ok) = gw_persistLocked p (s\<lparr>ib_interactions := ib_interactions s @ [interaction]\<rparr>)
      in if ok then (s', InteractionReply 202 interaction)
         else (s'\<lparr>ib_interactions := ib_interactions s\<rparr>, GwFailure 503 ''interaction_state_unavailable'')) = (s', r)"
    using assms unfolding createInteraction_def Let_def share_def not_le [symmetric] and_then_Inr_iff
    by (force simp: find_Some_iff and_then_Inr_iff split: if_splits option.splits sum.splits)
  then show ?thesis
  proof cases
    case 2
    let ?i = "interactionID c g (ii_IdempotencyKey input)"
    let ?m = "s\<lparr>ib_interactions := ib_interactions s @ [new_interaction c now grant ?i input]\<rparr>"
    obtain t ok where t: "gw_persistLocked p ?m = (t, ok)" by fastforce
    have "?i \<notin> ix_InteractionID ` set (ib_interactions s)" using 2(6) by (auto simp: find_None_iff)
    moreover have "settles s ?m s'" "p = PersistOk \<and> s' = ?m\<lparr>ib_file := Some (snap ?m)\<rparr> \<and> r = InteractionReply 202 (new_interaction c now grant ?i input) \<or>
       p \<noteq> PersistOk \<and> r = GwFailure 503 ''interaction_state_unavailable''"
      using 2(10) interactions_written [OF refl t] t by (cases p; auto simp: Let_def persist_simps)+
    ultimately show ?thesis using 2(1-9) by blast
  qed blast
qed

lemma instanceEventHandler_cases:
  assumes "instanceEventHandler c now p request g s = (s', r)"
  shows "s' = s \<and> (\<forall>i. r \<noteq> EventAccepted i \<or> i \<in> iv_EventID ` set (ib_events s)) \<or>
    (\<exists>grant input i m. ib_grants s g = Some grant \<and> ig_Active grant \<and> ig_ControllerEvents grant \<and>
      ei_validate input = Ok () \<and> i = instanceEventID c g (ei_IdempotencyKey input) \<and> i \<notin> iv_EventID ` set (ib_events s) \<and>
      length (ib_events s) < maxInstanceEvents \<and> share iv_TenantID (ig_TenantID grant) (ib_events s) < maxInstanceEventsTenant \<and>
      share iv_GrantID g (ib_events s) < maxInstanceEventsGrant \<and>
      m = s\<lparr>ib_events := ib_events s @ [new_event now grant i input]\<rparr> \<and> settles s m s' \<and>
      (p = PersistOk \<and> s' = m\<lparr>ib_file := Some (snap m)\<rparr> \<and> r = EventAccepted i \<or>
       p \<noteq> PersistOk \<and> r = GwFailure 503 ''event_state_unavailable''))"
proof -
  consider "s' = s" "\<forall>i. r \<noteq> EventAccepted i \<or> i \<in> iv_EventID ` set (ib_events s)"
  | grant input where "ib_grants s g = Some grant" "ig_Active grant" "ig_ControllerEvents grant"
    "ei_validate input = Ok ()" "\<not> list_ex (\<lambda>existing. iv_EventID existing = instanceEventID c g (ei_IdempotencyKey input)) (ib_events s)"
    "length (ib_events s) < maxInstanceEvents" "share iv_TenantID (ig_TenantID grant) (ib_events s) < maxInstanceEventsTenant"
    "share iv_GrantID g (ib_events s) < maxInstanceEventsGrant"
    "(let (s', ok) = gw_persistLocked p (s\<lparr>ib_events := ib_events s @ [new_event now grant (instanceEventID c g (ei_IdempotencyKey input)) input]\<rparr>)
      in if ok then (s', EventAccepted (instanceEventID c g (ei_IdempotencyKey input)))
         else (s'\<lparr>ib_events := ib_events s\<rparr>, GwFailure 503 ''event_state_unavailable'')) = (s', r)"
    using assms unfolding instanceEventHandler_def Let_def share_def not_le [symmetric] and_then_Inr_iff
    by (force simp: list_ex_iff and_then_Inr_iff split: if_splits option.splits sum.splits)
  then show ?thesis
  proof cases
    case 2
    let ?i = "instanceEventID c g (ei_IdempotencyKey input)"
    let ?m = "s\<lparr>ib_events := ib_events s @ [new_event now grant ?i input]\<rparr>"
    obtain t ok where t: "gw_persistLocked p ?m = (t, ok)" by fastforce
    have "?i \<notin> iv_EventID ` set (ib_events s)" using 2(5) by (auto simp: list_ex_iff)
    moreover have "settles s ?m s'" "p = PersistOk \<and> s' = ?m\<lparr>ib_file := Some (snap ?m)\<rparr> \<and> r = EventAccepted ?i \<or>
       p \<noteq> PersistOk \<and> r = GwFailure 503 ''event_state_unavailable''"
      using 2(9) events_written [OF refl t] t by (cases p; auto simp: Let_def persist_simps)+
    ultimately show ?thesis using 2(1-8) by blast
  qed blast
qed

lemma takeWhile_index:
  assumes "k = length (takeWhile (\<lambda>x. f x \<noteq> y) xs)" "k < length xs"
  shows "f (xs ! k) = y"
  using assms nth_length_takeWhile [of "\<lambda>x. f x \<noteq> y" xs] by simp

lemma resolveInteraction_cases:
  assumes "resolveInteraction c clock p body s = (s', r)"
  shows "s' = s \<and> (\<forall>n v. r \<noteq> InteractionReply n v \<or> v \<in> set (ib_interactions s) \<and> ix_Response v \<noteq> None) \<or>
    (\<exists>k v response m. k < length (ib_interactions s) \<and> v = ib_interactions s ! k \<and> ix_Response v = None \<and> authorised c s clock body v response \<and>
      m = s\<lparr>ib_interactions := (ib_interactions s)[k := v\<lparr>ix_State := ''resolved'', ix_Response := Some response\<rparr>]\<rparr> \<and> settles s m s' \<and>
      (p = PersistOk \<and> s' = m\<lparr>ib_file := Some (snap m)\<rparr> \<and> r = InteractionReply 200 (v\<lparr>ix_State := ''resolved'', ix_Response := Some response\<rparr>) \<or>
       p \<noteq> PersistOk \<and> r = GwFailure 503 ''interaction_state_unavailable''))"
proof (cases "read_courier body")
  case (Inl e)
  have "\<exists>n m. e = GwFailure n m"
    using Inl unfolding read_courier_def Let_def by (auto split: option.splits sum.splits if_splits)
  then show ?thesis using assms Inl by (auto simp: resolveInteraction_def)
next
  case (Inr q)
  obtain i permit raw answer where q: "q = (i, permit, raw, answer)" by (cases q)
  define k where "k = length (takeWhile (\<lambda>candidate. ix_InteractionID candidate \<noteq> i) (ib_interactions s))"
  define v where "v = ib_interactions s ! k"
  note d = assms [unfolded resolveInteraction_def Inr q Let_def sum.case prod.case, folded k_def, folded v_def]
  show ?thesis
  proof (cases "s' = s \<and> (\<forall>n v. r \<noteq> InteractionReply n v \<or> v \<in> set (ib_interactions s) \<and> ix_Response v \<noteq> None)")
    case False
    have mem: "v \<in> set (ib_interactions s)" if "k < length (ib_interactions s)" unfolding v_def using that by simp
    let ?resp = "\<lambda>ver. \<lparr>ir_Body = answer, ir_KeyID = ipv_KeyID ver, ir_PermitDigest = ipv_EnvelopeDigest ver,
      ir_ResponseDigest = ips_ResponseDigest (ipv_Statement ver), ir_ResolvedAt = format_nano (clock 2)\<rparr>"
    let ?new = "\<lambda>ver. v\<lparr>ix_State := ''resolved'', ix_Response := Some (?resp ver)\<rparr>"
    obtain grant trusted ver where h: "k < length (ib_interactions s)" "is_ok (rb_Validate answer (ix_Options v) (ix_AllowText v))"
      "ix_Response v = None" "clock 0 < (case canonicalTime (ix_ExpiresAt v) of Inl _ \<Rightarrow> zero_time | Inr expires \<Rightarrow> expires)"
      "ib_grants s (ix_GrantID v) = Some grant" "ig_Active grant" "taskAuthorityKeys (ig_TaskAuthorities grant) = Ok trusted"
      "ip_Verify c permit trusted (clock 1) ip_MaxValidity = Ok ver" "interactionPermitMatches c ver v raw"
      and w: "(case gw_persistLocked p (s\<lparr>ib_interactions := (ib_interactions s)[k := ?new ver]\<rparr>) of (s', ok) \<Rightarrow>
         if ok then (s', InteractionReply 200 (?new ver))
         else (s'\<lparr>ib_interactions := ib_interactions s\<rparr>, GwFailure 503 ''interaction_state_unavailable'')) = (s', r)"
    proof (cases "k < length (ib_interactions s)")
      case True
      show ?thesis
        using d False mem [OF True] that [OF True] True
        by (cases "ix_Response v"; cases "ib_grants s (ix_GrantID v)"; cases "taskAuthorityKeys (ig_TaskAuthorities (the (ib_grants s (ix_GrantID v))))")
          (auto split: if_splits sum.splits)
    qed (use d False in auto)
    let ?m = "s\<lparr>ib_interactions := (ib_interactions s)[k := ?new ver]\<rparr>"
    obtain t ok where t: "gw_persistLocked p ?m = (t, ok)" by fastforce
    have "settles s ?m s'" "p = PersistOk \<and> s' = ?m\<lparr>ib_file := Some (snap ?m)\<rparr> \<and> r = InteractionReply 200 (?new ver) \<or>
       p \<noteq> PersistOk \<and> r = GwFailure 503 ''interaction_state_unavailable''"
      using w interactions_written [OF refl t] t by (cases p; auto simp: persist_simps)+
    moreover have "ix_InteractionID v = i" unfolding v_def by (rule takeWhile_index [OF k_def h(1)])
    then have "authorised c s clock body v (?resp ver)" unfolding authorised_def using h Inr q by blast
    ultimately show ?thesis using h(1,3) v_def by blast
  qed blast
qed

lemma agent_attempt:
  assumes "interactionAndEventHandler c clock p request g s = (s', r)"
  shows "s' = s \<or> (\<exists>m. attempt c (IAgent clock p request g) s m \<and> settles s m s')"
proof -
  consider "s' = s" | "createInteraction c (clock 0) p request g s = (s', r)" | "instanceEventHandler c (clock 0) p request g s = (s', r)"
    using assms unfolding interactionAndEventHandler_def interactionGrantHandler_def by (auto split: if_splits)
  then show ?thesis
  proof cases
    case 2
    from createInteraction_cases [OF this] show ?thesis by (blast intro: attempt.asks)
  next
    case 3
    from instanceEventHandler_cases [OF this] show ?thesis by (blast intro: attempt.observes)
  qed blast
qed

text \<open>The end of a handler.\<close>

lemma written_settles:
  "(case gw_persistLocked p (s\<lparr>ib_events := es\<rparr>) of (t, ok) \<Rightarrow> if ok then (t, a) else (t\<lparr>ib_events := ib_events s\<rparr>, b)) = (s', r) \<Longrightarrow>
    settles s (s\<lparr>ib_events := es\<rparr>) s'"
  "(case gw_persistLocked p (s\<lparr>ib_interactions := vs\<rparr>) of (t, ok) \<Rightarrow> if ok then (t, a) else (t\<lparr>ib_interactions := ib_interactions s\<rparr>, b)) = (s', r) \<Longrightarrow>
    settles s (s\<lparr>ib_interactions := vs\<rparr>) s'"
  "(case gw_persistLocked p (s\<lparr>ib_grants := gs\<rparr>) of (t, ok) \<Rightarrow> if ok then (t, a) else (t\<lparr>ib_grants := ib_grants s\<rparr>, b)) = (s', r) \<Longrightarrow>
    settles s (s\<lparr>ib_grants := gs\<rparr>) s'"
  by (cases p; auto simp: persist_simps settles_def)+

lemma ackInstanceEvents_cases:
  assumes "ackInstanceEvents p body s = (s', r)"
  shows "s' = s \<or> (\<exists>raw v. read_body maxInstanceEventBytes body = Some raw \<and> DecodeStrictInto raw maxInstanceEventBytes event_ack_type = Ok v \<and>
    settles s (s\<lparr>ib_events := filter (\<lambda>event. iv_EventID event \<notin> set (strs_member ''event_ids'' v)) (ib_events s)\<rparr>) s')"
  using assms unfolding ackInstanceEvents_def Let_def
  by (auto split: option.splits sum.splits if_splits dest: written_settles(1))

lemma ackInteractionOutbox_cases:
  assumes "ackInteractionOutbox p body s = (s', r)"
  shows "s' = s \<or> (\<exists>ids. settles s (s\<lparr>ib_interactions := map (acknowledge ids) (ib_interactions s)\<rparr>) s')"
  using assms unfolding ackInteractionOutbox_def Let_def
  by (auto split: option.splits sum.splits if_splits dest: written_settles(2))

lemma gw_register_cases:
  assumes "gw_register admitted matching p listening p' grant s = (s', r)"
  shows "s' = s \<or> validGrant_inbox grant \<and> \<not> ig_Active grant \<and> settles s (s\<lparr>ib_grants := (ib_grants s)(ig_GrantID grant \<mapsto> grant)\<rparr>) s'"
proof -
  obtain t ok where t: "gw_persistLocked p (s\<lparr>ib_grants := (ib_grants s)(ig_GrantID grant \<mapsto> grant)\<rparr>) = (t, ok)" by fastforce
  show ?thesis
    using assms grants_written(1) [OF t] grants_written(2) [OF t, of p'] unfolding gw_register_def Let_def t by (auto split: if_splits)
qed

lemma gw_setActive_cases:
  assumes "gw_setActive p i active s = (s', r)"
  shows "s' = s \<or> (\<exists>grant. ib_grants s i = Some grant \<and> settles s (s\<lparr>ib_grants := (ib_grants s)(i \<mapsto> grant\<lparr>ig_Active := active\<rparr>)\<rparr>) s')"
  using assms unfolding gw_setActive_def Let_def by (auto split: option.splits dest: written_settles(3))

lemma gw_unregister_cases:
  assumes "gw_unregister p i s = (s', r)"
  shows "s' = s \<or> settles s (s\<lparr>ib_grants := (ib_grants s)(i := None)\<rparr>) s'"
  using assms unfolding gw_unregister_def Let_def by (auto split: option.splits dest: written_settles(3))

lemma exec_cases:
  assumes "inbox_exec c op s = (s', r)" "\<not> restarts op"
  shows "s' = s \<or> (\<exists>m. attempt c op s m \<and> settles s m s')"
proof (cases op)
  case (IAgent clock p request g)
  then show ?thesis using assms agent_attempt by (auto simp: inbox_exec_def split: if_splits)
next
  case (IResolve clock p body)
  then show ?thesis
    using assms resolveInteraction_cases [of c clock p body s s' r] by (auto simp: inbox_exec_def split: if_splits intro: attempt.resolves)
next
  case (IAckEvents p body)
  then show ?thesis
    using assms ackInstanceEvents_cases [of p body s s' r] by (auto simp: inbox_exec_def split: if_splits intro: attempt.forgets)
next
  case (IAckOutbox p body)
  then show ?thesis
    using assms ackInteractionOutbox_cases [of p body s s' r] by (auto simp: inbox_exec_def split: if_splits intro: attempt.delivered)
next
  case (IRegister admitted matching p listening p' grant)
  then show ?thesis
    using assms gw_register_cases [of admitted matching p listening p' grant s s' r] by (auto simp: inbox_exec_def split: if_splits intro: attempt.registers)
next
  case (ISetActive p i active)
  then show ?thesis
    using assms gw_setActive_cases [of p i active s s' r] by (auto simp: inbox_exec_def split: if_splits intro: attempt.activates)
next
  case (IUnregister p i)
  then show ?thesis
    using assms gw_unregister_cases [of p i s s' r] by (auto simp: inbox_exec_def split: if_splits intro: attempt.removes)
qed (use assms in \<open>auto simp: inbox_exec_def split: if_splits\<close>)

end
