(* ===== verification/Inbox_Reached.thy ===== *)
theory Inbox_Reached
  imports Inbox_Steps
begin

text \<open>
  What holds of every state the inbox reaches, in memory and in the state file: grants are valid, and events and interactions pass the
  checks of a restart. The only assumption on a run is that the clock shows a time between 1970 and 9999.
\<close>

section \<open>What the handlers put into the state is acceptable\<close>

fun sane_op :: "inbox_op \<Rightarrow> bool" where
  "sane_op (IAgent clock p request g) \<longleftrightarrow> sane_clock (clock 0)"
| "sane_op (IResolve clock p body) \<longleftrightarrow> sane_clock (clock 2)"
| "sane_op _ \<longleftrightarrow> True"

lemma evidence_context:
  assumes "validGrant_inbox grant" "ig_ControllerEvents grant"
  shows "gw_bounded (ig_TenantID grant) 128" "gw_bounded (ig_NodeID grant) 128" "gw_bounded (ig_InstanceID grant) 256" "ig_Generation grant \<noteq> 0"
    "validGrantID (ig_GrantID grant)" "validExecutorRuntimeRef (ig_RuntimeRef grant)" "validSHA256Digest (ig_CapsuleDigest grant)"
    "validSHA256Digest (ig_PolicyDigest grant)"
  using assms by (auto simp: validGrant_inbox_def validGrantEvidenceContext_def Let_def split: if_splits)

lemma new_event_ok:
  assumes "crypto_ok c" "validGrant_inbox grant" "ig_ControllerEvents grant" "ei_validate input = Ok ()" "sane_clock now"
  shows "event_ok c (new_event now grant (instanceEventID c (ig_GrantID grant) (ei_IdempotencyKey input)) input)"
proof -
  have z: "canonical_zoned (format_nano now) = Some now" by (rule canonical_zoned_format [OF assms(5)])
  have s: "ei_SchemaVersion input = InstanceEventSchemaV1" using assms(4) by (auto simp: ei_validate_def split: if_splits)
  have "ei_validate (input_of_event (new_event now grant i input)) = ei_validate input" for i
    using z s by (cases input) (auto simp: input_of_event_def new_event_def ei_validate_def)
  moreover have "validInstanceEventID (instanceEventID c g k)" for g k
    unfolding id_checks by (rule cp_prefixedDigest_lower [OF instanceEventID_hex [OF assms(1)]])
  ultimately show ?thesis
    using evidence_context [OF assms(2,3)] z assms(4) by (simp add: event_ok_def event_binding_ok_def new_event_def)
qed

lemma digest_ignores [simp]:
  "interactionRequestDigest c (v\<lparr>ix_RequestDigest := d\<rparr>) = interactionRequestDigest c v"
  "interactionRequestDigest c (v\<lparr>ix_State := st, ix_Response := r\<rparr>) = interactionRequestDigest c v"
  "interactionRequestDigest c (v\<lparr>ix_ControllerAccepted := a\<rparr>) = interactionRequestDigest c v"
  by (simp_all add: interactionRequestDigest_def)

lemma ii_validate_defaults:
  assumes "ii_validate input now = Ok ()" "sane_clock now"
  shows "ii_validate (input\<lparr>ii_ObservedAt := (if ii_ObservedAt input = [] then time_format now else ii_ObservedAt input)\<rparr>) now = Ok ()"
proof (cases "ii_ObservedAt input = []")
  case True
  have n: "(0::int) < nsec" by (simp add: nsec_def)
  have "canonicalTime (time_format now) = Ok (now div nsec * nsec)" by (rule canonicalTime_format_seconds [OF assms(2)])
  moreover have "now div nsec * nsec \<le> now + 5 * minute"
    using int_div_bounds [OF n, of now] by (simp add: mult.commute minute_def nsec_def)
  ultimately show ?thesis using assms(1) True by (auto simp: ii_validate_def and_then_Inr_iff not_less split: if_splits)
next
  case False
  then show ?thesis using assms(1) by simp
qed

lemma new_interaction_digest: "ix_RequestDigest (new_interaction c now grant i input) = interactionRequestDigest c (new_interaction c now grant i input)"
  unfolding new_interaction_def Let_def digest_ignores by simp

lemma new_interaction_fields:
  "ix_SchemaVersion (new_interaction c now grant i input) = InteractionRequestSchemaV1" "ix_InteractionID (new_interaction c now grant i input) = i"
  "ix_IdempotencyKey (new_interaction c now grant i input) = ii_IdempotencyKey input" "ix_Source (new_interaction c now grant i input) = ''agent''"
  "ix_TenantID (new_interaction c now grant i input) = ig_TenantID grant" "ix_NodeID (new_interaction c now grant i input) = ig_NodeID grant"
  "ix_InstanceID (new_interaction c now grant i input) = ig_InstanceID grant" "ix_Generation (new_interaction c now grant i input) = ig_Generation grant"
  "ix_RuntimeRef (new_interaction c now grant i input) = ig_RuntimeRef grant" "ix_GrantID (new_interaction c now grant i input) = ig_GrantID grant"
  "ix_CapsuleDigest (new_interaction c now grant i input) = ig_CapsuleDigest grant"
  "ix_PolicyDigest (new_interaction c now grant i input) = ig_PolicyDigest grant" "ix_State (new_interaction c now grant i input) = ''open''"
  "ix_AcceptedAt (new_interaction c now grant i input) = format_nano now" "ix_Response (new_interaction c now grant i input) = None"
  by (simp_all add: new_interaction_def Let_def)

lemma new_interaction_ok:
  assumes "crypto_ok c" "validGrant_inbox grant" "ig_ControllerEvents grant" "ii_validate input now = Ok ()" "sane_clock now"
  shows "interaction_ok c (new_interaction c now grant (interactionID c (ig_GrantID grant) (ii_IdempotencyKey input)) input)"
proof -
  let ?v = "new_interaction c now grant (interactionID c (ig_GrantID grant) (ii_IdempotencyKey input)) input"
  have z: "canonical_zoned (format_nano now) = Some now" by (rule canonical_zoned_format [OF assms(5)])
  have s: "ii_SchemaVersion input = InteractionRequestSchemaV1" using assms(4) by (auto simp: ii_validate_def split: if_splits)
  have "input_of_interaction ?v = input\<lparr>ii_ObservedAt := (if ii_ObservedAt input = [] then time_format now else ii_ObservedAt input)\<rparr>"
    using s by (cases input) (simp add: input_of_interaction_def new_interaction_def Let_def)
  then have "ii_validate (input_of_interaction ?v) now = Ok ()" using ii_validate_defaults [OF assms(4,5)] by simp
  moreover have "canonical_zoned (ix_AcceptedAt ?v) = Some now" using z by (simp add: new_interaction_fields)
  moreover have "validInteractionID (interactionID c g k)" for g k
    unfolding id_checks by (rule cp_prefixedDigest_lower [OF interactionID_hex [OF assms(1)]])
  then have "interaction_binding_ok c ?v"
    using evidence_context [OF assms(2,3)] new_interaction_digest by (simp add: interaction_binding_ok_def new_interaction_fields)
  moreover have "interaction_response_ok ?v" by (simp add: interaction_response_ok_def new_interaction_fields)
  ultimately show ?thesis by (auto simp: interaction_ok_def)
qed

lemma sha_hex: "crypto_ok c \<Longrightarrow> prefixed_hex ''sha256:'' (Digest c raw)" "crypto_ok c \<Longrightarrow> prefixed_hex ''sha256:'' (ResponseDigest c raw)"
  unfolding Digest_def ResponseDigest_def by (rule prefixed_hex_encode, simp add: crypto_ok_def)+

lemma verified_fields:
  assumes "ip_Verify c permit trusted now m = Ok ver"
  shows "ipv_EnvelopeDigest ver = Digest c permit" "gw_routeID (ipv_KeyID ver)"
  using assms by (auto simp: ip_Verify_iff ip_opened_def gw_routeID_iff ip_identifier_def)

lemma authorised_response_ok:
  assumes "crypto_ok c" "authorised c s clock body v response" "sane_clock (clock 2)"
  shows "is_ok (rb_Validate (ir_Body response) (ix_Options v) (ix_AllowText v))" "validSHA256Digest (ir_PermitDigest response)"
    "validSHA256Digest (ir_ResponseDigest response)" "gw_routeID (ir_KeyID response)" "rfc3339 (ir_ResolvedAt response) \<noteq> None"
proof -
  obtain permit raw answer trusted ver where h: "is_ok (rb_Validate answer (ix_Options v) (ix_AllowText v))"
    "ip_Verify c permit trusted (clock 1) ip_MaxValidity = Ok ver" "interactionPermitMatches c ver v raw"
    and r: "response = \<lparr>ir_Body = answer, ir_KeyID = ipv_KeyID ver, ir_PermitDigest = ipv_EnvelopeDigest ver,
      ir_ResponseDigest = ips_ResponseDigest (ipv_Statement ver), ir_ResolvedAt = format_nano (clock 2)\<rparr>"
    using assms(2) unfolding authorised_def by blast
  show "is_ok (rb_Validate (ir_Body response) (ix_Options v) (ix_AllowText v))" using h(1) r by simp
  show "validSHA256Digest (ir_PermitDigest response)" "gw_routeID (ir_KeyID response)"
    using verified_fields [OF h(2)] sha_hex(1) [OF assms(1)] r by (simp_all add: valid_hex_checks)
  show "validSHA256Digest (ir_ResponseDigest response)"
    using h(3) r sha_hex(2) [OF assms(1)] by (simp add: valid_hex_checks interactionPermitMatches_def Let_def)
  show "rfc3339 (ir_ResolvedAt response) \<noteq> None" using r rfc3339_format_nano [OF assms(3)] by simp
qed

lemma resolved_ok:
  assumes "crypto_ok c" "interaction_ok c v" "authorised c s clock body v response" "sane_clock (clock 2)"
  shows "interaction_ok c (v\<lparr>ix_State := ''resolved'', ix_Response := Some response\<rparr>)"
  using assms(2) authorised_response_ok [OF assms(1,3,4)]
  by (auto simp: interaction_ok_def interaction_binding_ok_def interaction_response_ok_def input_of_interaction_def)

lemma acknowledge_fields [simp]:
  "ix_InteractionID (acknowledge ids v) = ix_InteractionID v" "ix_TenantID (acknowledge ids v) = ix_TenantID v"
  "ix_GrantID (acknowledge ids v) = ix_GrantID v" "ix_Response (acknowledge ids v) = ix_Response v"
  by (simp_all add: acknowledge_def)

lemma acknowledge_ok: "interaction_ok c v \<Longrightarrow> interaction_ok c (acknowledge ids v)"
  by (auto simp: acknowledge_def interaction_ok_def interaction_binding_ok_def interaction_response_ok_def input_of_interaction_def split: option.splits)

section \<open>The invariant\<close>

text \<open>The Gateway's own stamps: an observation time and an acceptance time in UTC.\<close>

definition stamped :: "Interaction \<Rightarrow> bool" where
  "stamped v \<longleftrightarrow> ix_ObservedAt v \<noteq> [] \<and> (\<exists>t. sane_clock t \<and> ix_AcceptedAt v = format_nano t)"

lemma time_format_nonempty: "time_format t \<noteq> []" "format_nano t \<noteq> []"
  by (simp_all add: time_format_def format_nano_def Let_def)

lemma new_interaction_stamped: "sane_clock now \<Longrightarrow> stamped (new_interaction c now grant i input)"
  by (auto simp: stamped_def new_interaction_def Let_def time_format_nonempty)

lemma stamped_ignores [simp]: "stamped (v\<lparr>ix_State := st, ix_Response := r\<rparr>) = stamped v" "stamped (acknowledge ids v) = stamped v"
  by (simp_all add: stamped_def acknowledge_def)

definition inbox_valid :: "crypto \<Rightarrow> gateway_snapshot \<Rightarrow> bool" where
  "inbox_valid c f \<longleftrightarrow> gs_Version f = gatewayStateWriteVersion \<and> (\<forall>i g. gs_Grants f i = Some g \<longrightarrow> validGrant_inbox g \<and> ig_GrantID g = i) \<and>
     is_ok (validateRetainedEvents c (gs_Events f)) \<and> is_ok (validateRetainedInteractions c (gs_Interactions f)) \<and>
     (\<forall>e \<in> set (gs_Events f). iv_ObservedAt e \<noteq> []) \<and> (\<forall>v \<in> set (gs_Interactions f). stamped v)"

definition inbox_inv :: "crypto \<Rightarrow> Inbox \<Rightarrow> bool" where
  "inbox_inv c s \<longleftrightarrow> inbox_valid c (snap s) \<and> (\<forall>f. ib_file s = Some f \<longrightarrow> inbox_valid c f)"

lemma validGrant_active [simp]: "validGrant_inbox (g\<lparr>ig_Active := a\<rparr>) = validGrant_inbox g"
  by (simp add: validGrant_inbox_def validGrantEvidenceContext_def)

lemma attempt_valid:
  assumes "attempt c op s m" "crypto_ok c" "sane_op op" "inbox_valid c (snap s)"
  shows "inbox_valid c (snap m)"
  using assms
proof (induction rule: attempt.induct)
  case (asks s g grant input clock i p request)
  have g: "validGrant_inbox grant" "ig_GrantID grant = g" using asks.hyps(1) asks.prems(3) by (auto simp: inbox_valid_def)
  have "interaction_ok c (new_interaction c (clock 0) grant i input)"
    using new_interaction_ok [OF asks.prems(1) g(1) asks.hyps(3,5)] asks.prems(2) asks.hyps(6) g(2) by simp
  then have "is_ok (validateRetainedInteractions c (ib_interactions s @ [new_interaction c (clock 0) grant i input]))"
    using asks g by (intro interactions.validate_snoc) (auto simp: inbox_valid_def new_interaction_fields)
  with asks.prems(2,3) new_interaction_stamped show ?case by (simp add: inbox_valid_def)
next
  case (observes s g grant input i clock p request)
  have g: "validGrant_inbox grant" "ig_GrantID grant = g" using observes.hyps(1) observes.prems(3) by (auto simp: inbox_valid_def)
  have "event_ok c (new_event (clock 0) grant i input)"
    using new_event_ok [OF observes.prems(1) g(1) observes.hyps(3,4)] observes.prems(2) observes.hyps(5) g(2) by simp
  then have "is_ok (validateRetainedEvents c (ib_events s @ [new_event (clock 0) grant i input]))"
    using observes g by (intro events.validate_snoc) (auto simp: inbox_valid_def new_event_def)
  with observes.prems(3) show ?case by (simp add: inbox_valid_def) (simp add: new_event_def time_format_nonempty)
next
  case (resolves k s v clock body response p)
  have v: "is_ok (validateRetainedInteractions c (ib_interactions s))" using resolves.prems(3) by (simp add: inbox_valid_def)
  then have "interaction_ok c v" using resolves.hyps(1,2) by (auto simp: interactions.validate_iff well_retained_def)
  then have "interaction_ok c (v\<lparr>ix_State := ''resolved'', ix_Response := Some response\<rparr>)"
    using resolved_ok resolves by auto
  then have "is_ok (validateRetainedInteractions c ((ib_interactions s)[k := v\<lparr>ix_State := ''resolved'', ix_Response := Some response\<rparr>]))"
    using resolves.hyps(1,2) by (intro interactions.validate_update [OF v]) simp_all
  moreover have "stamped v" using resolves.prems(3) resolves.hyps(1,2) by (simp add: inbox_valid_def)
  ultimately show ?case using resolves.prems(3) by (auto simp: inbox_valid_def dest!: set_update_subset_insert [THEN subsetD])
next
  case (forgets body raw v ids p s)
  then show ?case using events.validate_filter by (simp add: inbox_valid_def)
next
  case (delivered p body s ids)
  then have "is_ok (validateRetainedInteractions c (map (acknowledge ids) (ib_interactions s)))"
    by (intro interactions.validate_map) (auto simp: inbox_valid_def acknowledge_ok)
  with delivered show ?case by (simp add: inbox_valid_def)
qed (auto simp: inbox_valid_def split: if_splits)

text \<open>Apart from the number of grants, a snapshot that the invariant holds of is accepted.\<close>

lemma valid_accepted: "inbox_valid c f \<Longrightarrow> state_accepted c f \<longleftrightarrow> card (dom (gs_Grants f)) \<le> maxRetainedGrants"
  by (auto simp: inbox_valid_def state_accepted_def retained_grant_ok_def ran_def gatewayStateReadMinVersion_def gatewayStateReadMaxVersion_def
      gatewayStateWriteVersion_def)

lemma settles_inv:
  assumes "settles s m s'" "inbox_inv c s" "inbox_valid c (snap m)"
  shows "inbox_inv c s'"
  using assms by (auto simp: settles_def inbox_inv_def)

lemma restart_inv:
  assumes "inbox_inv c s"
  shows "inbox_inv c (fst (gw_restart c admitted s))"
proof -
  have e: "inbox_valid c \<lparr>gs_Version = gatewayStateWriteVersion, gs_Grants = (\<lambda>_. None), gs_Events = [], gs_Interactions = []\<rparr>"
    by (simp add: inbox_valid_def events.validate_Nil interactions.validate_Nil)
  have "inbox_valid c \<lparr>gs_Version = gatewayStateWriteVersion, gs_Grants = (\<lambda>i. map_option (\<lambda>g. g\<lparr>ig_Active := False\<rparr>) (gs_Grants f i)), gs_Events = gs_Events f, gs_Interactions = gs_Interactions f\<rparr>"
    if "ib_file s = Some f" for f
    using assms that by (auto simp: inbox_inv_def inbox_valid_def)
  with assms e show ?thesis
    by (auto simp: gw_restart_def Let_def inbox_inv_def snap_def split: option.splits)
qed

interpretation inbox: machine "inbox_exec c" sane_op "\<lambda>s. crypto_ok c \<and> inbox_inv c s" for c
proof unfold_locales
  fix s op
  assume i: "crypto_ok c \<and> inbox_inv c s" and a: "sane_op op"
  show "crypto_ok c \<and> inbox_inv c (fst (inbox_exec c op s))"
  proof (cases "restarts op")
    case True
    then show ?thesis using i restart_inv by (cases op) (auto simp: inbox_exec_def)
  next
    case False
    obtain s' r where e: "inbox_exec c op s = (s', r)" by fastforce
    have "inbox_inv c s'"
      using exec_cases [OF e False] i a attempt_valid settles_inv by (metis inbox_inv_def)
    then show ?thesis using i e by simp
  qed
qed

lemma inbox_start_inv: "inbox_inv c inbox_start"
  by (simp add: inbox_inv_def inbox_start_def inbox_valid_def events.validate_Nil interactions.validate_Nil)

text \<open>The states a run reaches.\<close>

lemma inbox_reached: "crypto_ok c \<Longrightarrow> \<forall>op \<in> set ops. sane_op op \<Longrightarrow> inbox_inv c (final_state (inbox_exec c) ops inbox_start)"
  using inbox.run_inv [of c inbox_start ops] inbox_start_inv by blast

end
