(* ===== verification/Inbox_History.thy ===== *)
theory Inbox_History
  imports Inbox_Reached
begin

text \<open>
  Facts about whole runs of the inbox: where a response came from, what an interaction becomes later, and what happens to an accepted event. A run
  may contain failed writes, crashes (a restart after a handler) and refused starts. What the inbox shows is the state in memory while
  the server is open and the state file while it is not.
\<close>

abbreviation run :: "crypto \<Rightarrow> inbox_op list \<Rightarrow> Inbox" where
  "run c ops \<equiv> final_state (inbox_exec c) ops inbox_start"

lemma run_snoc: "run c (ops @ [op]) = fst (inbox_exec c op (run c ops))"
  by (simp add: final_state_append)

definition file_interactions :: "Inbox \<Rightarrow> Interaction list" where
  "file_interactions s = (case ib_file s of None \<Rightarrow> [] | Some f \<Rightarrow> gs_Interactions f)"

definition file_events :: "Inbox \<Rightarrow> InstanceEvent list" where
  "file_events s = (case ib_file s of None \<Rightarrow> [] | Some f \<Rightarrow> gs_Events f)"

lemma restart_state:
  assumes "gw_restart c admitted s = (s', r)"
  shows "ib_file s' = ib_file s" "ib_open s' \<Longrightarrow> ib_interactions s' = file_interactions s \<and> ib_events s' = file_events s"
    "\<not> ib_open s' \<Longrightarrow> ib_interactions s' = [] \<and> ib_events s' = []"
  using assms by (auto simp: gw_restart_def Let_def file_interactions_def file_events_def split: option.splits if_splits)

text \<open>A step of a run: nothing, a restart, or an attempt.\<close>

lemma run_step:
  obtains "fst (inbox_exec c op s) = s"
  | admitted r where "op = IRestart admitted" "gw_restart c admitted s = (fst (inbox_exec c op s), r)"
  | m where "ib_open s" "attempt c op s m" "settles s m (fst (inbox_exec c op s))"
proof -
  obtain s' r where e: "inbox_exec c op s = (s', r)" by fastforce
  show ?thesis
  proof (cases "restarts op")
    case True
    then show ?thesis using that(2) e by (cases op) (auto simp: inbox_exec_def)
  next
    case False
    from exec_cases [OF e False] consider "s' = s" | m where "attempt c op s m" "settles s m s'" by blast
    then show ?thesis
    proof cases
      case 2
      then show ?thesis using that(1,3) e False by (cases "ib_open s") (auto simp: inbox_exec_def)
    qed (use that(1) e in simp)
  qed
qed

lemma attempt_open: "attempt c op s m \<Longrightarrow> ib_open m = ib_open s"
  by (induction rule: attempt.induct) auto

lemma settles_fields:
  assumes "settles s m s'"
  shows "ib_interactions s' = ib_interactions m \<and> ib_events s' = ib_events m \<and> ib_grants s' = ib_grants m \<and> ib_open s' = ib_open m \<and>
      file_interactions s' = ib_interactions m \<and> file_events s' = ib_events m \<or>
    ib_interactions s' = ib_interactions s \<and> ib_events s' = ib_events s \<and> ib_grants s' = ib_grants s \<and> ib_open s' = ib_open s \<and>
      (file_interactions s' = file_interactions s \<and> file_events s' = file_events s \<or> file_interactions s' = ib_interactions m \<and> file_events s' = ib_events m \<or>
       file_interactions s' = ib_interactions s \<and> file_events s' = ib_events s)"
  using assms by (auto simp: settles_def file_interactions_def file_events_def)

section \<open>Where responses come from\<close>

lemma authorised_ignores [simp]:
  "authorised c s clock body (v\<lparr>ix_State := st, ix_Response := r\<rparr>) response = authorised c s clock body v response"
  "authorised c s clock body (acknowledge ids v) response = authorised c s clock body v response"
  by (simp_all add: authorised_def interactionPermitMatches_def acknowledge_def)

definition answered :: "crypto \<Rightarrow> inbox_op list \<Rightarrow> Interaction \<Rightarrow> bool" where
  "answered c ops v \<longleftrightarrow> (\<forall>r. ix_Response v = Some r \<longrightarrow>
     (\<exists>pre clock p body post. ops = pre @ IResolve clock p body # post \<and> authorised c (run c pre) clock body v r))"

lemma answered_mono: "answered c ops v \<Longrightarrow> answered c (ops @ [op]) v"
  by (fastforce simp: answered_def)

lemma attempt_answered:
  assumes "attempt c op (run c ops) m" "\<forall>v \<in> set (ib_interactions (run c ops)). answered c ops v"
  shows "\<forall>v \<in> set (ib_interactions m). answered c (ops @ [op]) v"
  using assms
proof (induction op "run c ops" m rule: attempt.induct)
  case (resolves k v clock body response p)
  have "answered c (ops @ [IResolve clock p body]) (v\<lparr>ix_State := ''resolved'', ix_Response := Some response\<rparr>)"
    using resolves.hyps(4) unfolding answered_def by fastforce
  then show ?case
    using resolves.prems by (auto dest!: set_update_subset_insert [THEN subsetD] intro: answered_mono)
next
  case (delivered p body ids)
  have "answered c ops (acknowledge ids v) = answered c ops v" for v by (simp add: answered_def)
  then show ?case using delivered.prems by (auto intro: answered_mono)
next
  case (asks g grant input clock i p request)
  have "answered c ops' (new_interaction c (clock 0) grant i input)" for ops' by (simp add: answered_def new_interaction_fields)
  then show ?case using asks.prems by (auto intro: answered_mono)
qed (auto intro: answered_mono)

lemma run_answered:
  "\<forall>v \<in> set (ib_interactions (run c ops)) \<union> set (file_interactions (run c ops)). answered c ops v"
proof (induction ops rule: rev_induct)
  case Nil
  show ?case by (simp add: inbox_start_def file_interactions_def)
next
  case (snoc op ops)
  show ?case
  proof (rule run_step [of c op "run c ops"])
    assume "fst (inbox_exec c op (run c ops)) = run c ops"
    then show ?thesis using snoc answered_mono unfolding run_snoc by auto
  next
    fix admitted r
    assume h: "gw_restart c admitted (run c ops) = (fst (inbox_exec c op (run c ops)), r)"
    have "file_interactions (run c (ops @ [op])) = file_interactions (run c ops)"
      using restart_state(1) [OF h] unfolding run_snoc by (simp add: file_interactions_def)
    moreover have "set (ib_interactions (run c (ops @ [op]))) \<subseteq> set (file_interactions (run c ops))"
      using restart_state(2,3) [OF h] unfolding run_snoc by (cases "ib_open (fst (inbox_exec c op (run c ops)))") auto
    ultimately have sub: "set (ib_interactions (run c (ops @ [op]))) \<union> set (file_interactions (run c (ops @ [op]))) \<subseteq>
      set (ib_interactions (run c ops)) \<union> set (file_interactions (run c ops))" by auto
    show ?thesis
    proof
      fix v assume "v \<in> set (ib_interactions (run c (ops @ [op]))) \<union> set (file_interactions (run c (ops @ [op])))"
      with sub snoc have "answered c ops v" by (meson subsetD)
      then show "answered c (ops @ [op]) v" by (rule answered_mono)
    qed
  next
    fix m
    assume "attempt c op (run c ops) m" and s: "settles (run c ops) m (fst (inbox_exec c op (run c ops)))"
    then have "\<forall>v \<in> set (ib_interactions m). answered c (ops @ [op]) v" using attempt_answered snoc by blast
    then show ?thesis using settles_fields [OF s] snoc answered_mono unfolding run_snoc by (metis UnCI UnE)
  qed
qed

section \<open>What becomes of an interaction\<close>

definition continues :: "Interaction \<Rightarrow> Interaction \<Rightarrow> bool" where
  "continues v w \<longleftrightarrow>
     w = v\<lparr>ix_State := ix_State w, ix_ControllerAccepted := ix_ControllerAccepted w, ix_Response := ix_Response w\<rparr> \<and>
     (ix_Response v \<noteq> None \<longrightarrow> ix_Response w = ix_Response v) \<and> (ix_ControllerAccepted v \<longrightarrow> ix_ControllerAccepted w)"

lemma continues_refl: "continues v v"
  by (simp add: continues_def)

lemma continues_trans:
  assumes "continues u v" "continues v w"
  shows "continues u w"
proof -
  obtain st a r st' a' r' where v: "v = u\<lparr>ix_State := st, ix_ControllerAccepted := a, ix_Response := r\<rparr>"
    and w: "w = v\<lparr>ix_State := st', ix_ControllerAccepted := a', ix_Response := r'\<rparr>"
    using assms unfolding continues_def by blast
  show ?thesis using assms unfolding continues_def w v by auto
qed

lemma continues_fields:
  assumes "continues v w"
  shows "ix_InteractionID w = ix_InteractionID v" "ix_GrantID w = ix_GrantID v" "ix_TenantID w = ix_TenantID v" "ix_Options w = ix_Options v"
    "ix_AllowText w = ix_AllowText v"
proof -
  obtain st a r where w: "w = v\<lparr>ix_State := st, ix_ControllerAccepted := a, ix_Response := r\<rparr>"
    using assms unfolding continues_def by blast
  show "ix_InteractionID w = ix_InteractionID v" "ix_GrantID w = ix_GrantID v" "ix_TenantID w = ix_TenantID v" "ix_Options w = ix_Options v"
    "ix_AllowText w = ix_AllowText v"
    by (simp_all add: w)
qed

definition carries :: "Interaction list \<Rightarrow> Interaction list \<Rightarrow> bool" where
  "carries vs ws \<longleftrightarrow> (\<forall>v \<in> set vs. \<exists>w \<in> set ws. continues v w)"

lemma carries_refl: "carries vs vs"
  using continues_refl by (auto simp: carries_def)

lemma carries_trans: "carries us vs \<Longrightarrow> carries vs ws \<Longrightarrow> carries us ws"
  unfolding carries_def using continues_trans by meson

lemma carries_map: "(\<And>v. v \<in> set vs \<Longrightarrow> continues v (f v)) \<Longrightarrow> carries vs (map f vs)"
  by (auto simp: carries_def)

lemma carries_update:
  assumes "k < length vs" "continues (vs ! k) w"
  shows "carries vs (vs[k := w])"
  unfolding carries_def
proof
  fix v assume "v \<in> set vs"
  then obtain j where j: "j < length vs" "v = vs ! j" by (metis in_set_conv_nth)
  have "vs[k := w] ! j \<in> set (vs[k := w])" using j(1) by simp
  moreover have "continues v (vs[k := w] ! j)" using assms j continues_refl by (cases "j = k") auto
  ultimately show "\<exists>w' \<in> set (vs[k := w]). continues v w'" by blast
qed

lemma attempt_carries: "attempt c op s m \<Longrightarrow> carries (ib_interactions s) (ib_interactions m)"
proof (induction rule: attempt.induct)
  case (asks s g grant input clock i p request)
  show ?case using continues_refl by (auto simp: carries_def)
next
  case (resolves k s v clock body response p)
  then show ?case by (auto intro!: carries_update simp: continues_def)
next
  case (delivered p body s ids)
  show ?case by (auto intro!: carries_map simp: acknowledge_def continues_def)
qed (simp_all add: carries_refl)

definition shown :: "Inbox \<Rightarrow> Interaction list" where
  "shown s = (if ib_open s then ib_interactions s else file_interactions s)"

lemma run_durable: "ib_open (run c ops) \<Longrightarrow> carries (ib_interactions (run c ops)) (file_interactions (run c ops))"
proof (induction ops rule: rev_induct)
  case (snoc op ops)
  let ?s = "run c ops" and ?s' = "fst (inbox_exec c op (run c ops))"
  show ?case
    unfolding run_snoc
  proof (rule run_step [of c op ?s])
    assume "?s' = ?s"
    then show "carries (ib_interactions ?s') (file_interactions ?s')" using snoc by (simp add: run_snoc)
  next
    fix admitted r
    assume h: "gw_restart c admitted ?s = (?s', r)"
    have "file_interactions ?s' = file_interactions ?s" using restart_state(1) [OF h] by (simp add: file_interactions_def)
    then show "carries (ib_interactions ?s') (file_interactions ?s')"
      using restart_state(2) [OF h] snoc.prems carries_refl unfolding run_snoc by simp
  next
    fix m
    assume h: "ib_open ?s" "attempt c op ?s m" "settles ?s m ?s'"
    show "carries (ib_interactions ?s') (file_interactions ?s')"
      using settles_fields [OF h(3)] attempt_carries [OF h(2)] snoc.IH [OF h(1)] carries_refl by metis
  qed
qed (simp add: inbox_start_def)

lemma step_carries: "carries (shown (run c ops)) (shown (run c (ops @ [op])))"
proof -
  let ?s = "run c ops" and ?s' = "fst (inbox_exec c op (run c ops))"
  show ?thesis
    unfolding run_snoc
  proof (rule run_step [of c op ?s])
    assume "?s' = ?s"
    then show "carries (shown ?s) (shown ?s')" by (simp add: carries_refl)
  next
    fix admitted r
    assume h: "gw_restart c admitted ?s = (?s', r)"
    have "file_interactions ?s' = file_interactions ?s" using restart_state(1) [OF h] by (simp add: file_interactions_def)
    then have "shown ?s' = file_interactions ?s" using restart_state(2) [OF h] by (simp add: shown_def)
    then show "carries (shown ?s) (shown ?s')" using run_durable carries_refl by (simp add: shown_def)
  next
    fix m
    assume h: "ib_open ?s" "attempt c op ?s m" "settles ?s m ?s'"
    then have "ib_open ?s'" using settles_fields [OF h(3)] attempt_open [OF h(2)] by auto
    then show "carries (shown ?s) (shown ?s')"
      using settles_fields [OF h(3)] attempt_carries [OF h(2)] carries_refl h(1) by (auto simp: shown_def)
  qed
qed

lemma run_carries: "carries (shown (run c ops)) (shown (run c (ops @ later)))"
proof (induction later rule: rev_induct)
  case (snoc op later)
  from carries_trans [OF snoc step_carries [of c "ops @ later" op]] show ?case by simp
qed (simp add: carries_refl)

lemma carries_share:
  assumes "carries vs ws" "distinct (map ix_InteractionID vs)" "\<And>v w. continues v w \<Longrightarrow> f w = f v"
  shows "share f t vs \<le> share f t ws"
proof -
  have d: "distinct vs" using assms(2) by (simp add: distinct_map)
  obtain g where g: "\<forall>v \<in> set vs. g v \<in> set ws \<and> continues v (g v)" using assms(1) unfolding carries_def by metis
  have inj: "inj_on g {v \<in> set vs. f v = t}"
  proof (rule inj_onI)
    fix v w assume h: "v \<in> {v \<in> set vs. f v = t}" "w \<in> {v \<in> set vs. f v = t}" "g v = g w"
    then have "continues v (g w)" "continues w (g w)" using g by auto
    then have "ix_InteractionID v = ix_InteractionID w" using continues_fields(1) by metis
    then show "v = w" using h(1,2) assms(2) by (auto simp: distinct_map dest: inj_onD)
  qed
  have "share f t vs = card {v \<in> set vs. f v = t}"
    using d distinct_card [of "filter (\<lambda>v. f v = t) vs"] by (simp add: share_def)
  also have "\<dots> = card (g ` {v \<in> set vs. f v = t})" by (rule card_image [OF inj, symmetric])
  also have "\<dots> \<le> card {w \<in> set ws. f w = t}" using g assms(3) by (intro card_mono) auto
  also have "\<dots> \<le> share f t ws" using card_length [of "filter (\<lambda>w. f w = t) ws"] by (simp add: share_def)
  finally show ?thesis .
qed

section \<open>What becomes of an event\<close>

definition names :: "bytes option \<Rightarrow> bytes \<Rightarrow> bool" where
  "names body i \<longleftrightarrow> (\<exists>raw v. read_body maxInstanceEventBytes body = Some raw \<and> DecodeStrictInto raw maxInstanceEventBytes event_ack_type = Ok v \<and>
     i \<in> set (strs_member ''event_ids'' v))"

definition acknowledged :: "inbox_op list \<Rightarrow> bytes \<Rightarrow> bool" where
  "acknowledged ops i \<longleftrightarrow> (\<exists>p body. IAckEvents p body \<in> set ops \<and> names body i)"

lemma acknowledged_append [simp]: "acknowledged (xs @ ys) i \<longleftrightarrow> acknowledged xs i \<or> acknowledged ys i"
  by (auto simp: acknowledged_def)

definition event_ids :: "InstanceEvent list \<Rightarrow> bytes set" where
  "event_ids es = iv_EventID ` set es"

lemma attempt_events:
  "attempt c op s m \<Longrightarrow> \<not> acknowledged [op] i \<Longrightarrow> i \<in> event_ids (ib_events s) \<Longrightarrow> i \<in> event_ids (ib_events m)"
proof (induction rule: attempt.induct)
  case (forgets body raw v ids p s)
  then show ?case by (auto simp: acknowledged_def names_def event_ids_def)
qed (auto simp: event_ids_def)

lemma run_events_durable:
  "ib_open (run c ops) \<Longrightarrow> \<not> acknowledged ops i \<Longrightarrow> i \<in> event_ids (ib_events (run c ops)) \<Longrightarrow> i \<in> event_ids (file_events (run c ops))"
proof (induction ops rule: rev_induct)
  case (snoc op ops)
  let ?s = "run c ops" and ?s' = "fst (inbox_exec c op (run c ops))"
  have n: "\<not> acknowledged ops i" "\<not> acknowledged [op] i" using snoc.prems(2) by simp_all
  have e: "i \<in> event_ids (ib_events ?s')" using snoc.prems(3) by (simp add: run_snoc)
  show ?case
    unfolding run_snoc
  proof (rule run_step [of c op ?s])
    assume "?s' = ?s"
    then show "i \<in> event_ids (file_events ?s')" using snoc n by (simp add: run_snoc)
  next
    fix admitted r
    assume h: "gw_restart c admitted ?s = (?s', r)"
    have "file_events ?s' = file_events ?s" using restart_state(1) [OF h] by (simp add: file_events_def)
    then show "i \<in> event_ids (file_events ?s')" using restart_state(2) [OF h] snoc.prems(1) e unfolding run_snoc by simp
  next
    fix m
    assume h: "ib_open ?s" "attempt c op ?s m" "settles ?s m ?s'"
    show "i \<in> event_ids (file_events ?s')"
      using settles_fields [OF h(3)] attempt_events [OF h(2) n(2)] snoc.IH [OF h(1) n(1)] e by metis
  qed
qed (simp add: inbox_start_def)

definition shown_events :: "Inbox \<Rightarrow> InstanceEvent list" where
  "shown_events s = (if ib_open s then ib_events s else file_events s)"

lemma step_events:
  assumes "\<not> acknowledged (ops @ [op]) i" "i \<in> event_ids (shown_events (run c ops))"
  shows "i \<in> event_ids (shown_events (run c (ops @ [op])))"
proof -
  let ?s = "run c ops" and ?s' = "fst (inbox_exec c op (run c ops))"
  have n: "\<not> acknowledged ops i" "\<not> acknowledged [op] i" using assms(1) by simp_all
  show ?thesis
    unfolding run_snoc
  proof (rule run_step [of c op ?s])
    assume "?s' = ?s"
    then show "i \<in> event_ids (shown_events ?s')" using assms(2) by simp
  next
    fix admitted r
    assume h: "gw_restart c admitted ?s = (?s', r)"
    have "file_events ?s' = file_events ?s" using restart_state(1) [OF h] by (simp add: file_events_def)
    then have "shown_events ?s' = file_events ?s" using restart_state(2) [OF h] by (simp add: shown_events_def)
    then show "i \<in> event_ids (shown_events ?s')" using run_events_durable [OF _ n(1)] assms(2) by (auto simp: shown_events_def split: if_splits)
  next
    fix m
    assume h: "ib_open ?s" "attempt c op ?s m" "settles ?s m ?s'"
    then have "ib_open ?s'" using settles_fields [OF h(3)] attempt_open [OF h(2)] by auto
    then show "i \<in> event_ids (shown_events ?s')"
      using settles_fields [OF h(3)] attempt_events [OF h(2) n(2)] assms(2) h(1) by (auto simp: shown_events_def)
  qed
qed

lemma run_events:
  "\<not> acknowledged (ops @ later) i \<Longrightarrow> i \<in> event_ids (shown_events (run c ops)) \<Longrightarrow> i \<in> event_ids (shown_events (run c (ops @ later)))"
proof (induction later rule: rev_induct)
  case (snoc op later)
  then show ?case using step_events [of "ops @ later" op i c] by simp
qed simp

end
