(* ===== verification/Inbox_Delivery.thy ===== *)
theory Inbox_Delivery
  imports Inbox_History
begin

text \<open>
  Delivery in both directions: a question that was accepted is published to Control, whose protocol checks it passes; and a response that an authority of
  the grant signs for the retained question is accepted when it is delivered, and again when it is delivered twice.
\<close>

section \<open>Documents on the wire\<close>

definition interactionCourier :: "bytes \<Rightarrow> bytes \<Rightarrow> bytes \<Rightarrow> courier" where
  "interactionCourier i permit response =
     \<lparr>co_InteractionID = i, co_PermitBase64 = b64_encode Std permit, co_ResponseBase64 = b64_encode Std response\<rparr>"

definition courier_json :: "courier \<Rightarrow> json" where
  "courier_json v = JObj [(''interaction_id'', JStr (co_InteractionID v)), (''permit_base64'', JStr (co_PermitBase64 v)),
     (''response_base64'', JStr (co_ResponseBase64 v))]"

lemma courier_size:
  assumes "length i \<le> 76" "length permit \<le> ip_MaxEnvelopeBytes" "length raw \<le> MaxResponseBytes"
  shows "length (json_print (courier_json (interactionCourier i permit raw))) \<le> maxInteractionCourierBytes"
proof -
  have "length (json_quote (b64_encode Std permit)) \<le> b64_encoded_len Std 16384 + 2" "length (json_quote (b64_encode Std raw)) \<le> b64_encoded_len Std 4096 + 2"
    using assms(2,3) b64_encoded_len_mono by (simp_all add: json_quote_b64 length_b64_encode ip_MaxEnvelopeBytes_def MaxResponseBytes_def)
  then show ?thesis
    using json_quote_bound [OF assms(1)] json_quote_bound [of "''interaction_id''" 14] json_quote_bound [of "''permit_base64''" 13]
      json_quote_bound [of "''response_base64''" 15]
    by (simp add: courier_json_def interactionCourier_def b64_encoded_len_def maxInteractionCourierBytes_def)
qed

lemma read_courier_print:
  assumes "prefixed_hex ''interaction-'' i" "length permit \<le> ip_MaxEnvelopeBytes"
    "DecodeStrictInto raw MaxResponseBytes response_body_type = Ok w"
  shows "read_courier (Some (json_print (courier_json (interactionCourier i permit raw)))) = Inr (i, permit, raw, response_body_of_json w)"
proof -
  let ?v = "courier_json (interactionCourier i permit raw)"
  have raw: "raw \<noteq> []" "length raw \<le> MaxResponseBytes" using assms(3) by (auto simp: DecodeStrictInto_iff)
  have "ip_interactionID i" using assms(1) by (simp add: ip_interactionID_iff)
  note i = ip_interactionID_props [OF this]
  have size: "length (json_print ?v) \<le> maxInteractionCourierBytes" using courier_size i assms(2) raw by blast
  have "wf_json ?v" using i by (simp add: courier_json_def interactionCourier_def b64_encode_utf8 valid_utf8_ascii)
  moreover have "conforms courier_type 0 ?v" by (simp add: courier_json_def courier_type_def)
  ultimately have d: "DecodeStrictInto (json_print ?v) maxInteractionCourierBytes courier_type = Ok ?v"
    using size by (intro DecodeStrictInto_print)
  have "courier_of_json ?v = interactionCourier i permit raw"
    by (simp add: courier_of_json_def courier_json_def str_member_def member_def)
  moreover have "validInteractionID i" unfolding id_checks by (rule cp_prefixedDigest_lower [OF assms(1)])
  ultimately show ?thesis
    using size d raw assms(3) by (simp add: read_courier_def read_body_def interactionCourier_def Let_def)
qed

section \<open>Answers\<close>

text \<open>The statement that authorises response bytes for an interaction during an interval.\<close>

definition permit_for :: "crypto \<Rightarrow> Interaction \<Rightarrow> bytes \<Rightarrow> bytes \<Rightarrow> bytes \<Rightarrow> InteractionStatement" where
  "permit_for c v raw notBefore expiresAt =
     \<lparr>ips_SchemaVersion = ip_SchemaV1, ips_NodeID = ix_NodeID v, ips_TenantID = ix_TenantID v, ips_InstanceID = ix_InstanceID v,
      ips_RuntimeRef = ix_RuntimeRef v, ips_GrantID = ix_GrantID v, ips_Generation = ix_Generation v, ips_CapsuleDigest = ix_CapsuleDigest v,
      ips_PolicyDigest = ix_PolicyDigest v, ips_InteractionID = ix_InteractionID v, ips_RequestDigest = ix_RequestDigest v,
      ips_ResponseDigest = ResponseDigest c raw, ips_ResponseBytes = int (length raw), ips_NotBefore = notBefore, ips_ExpiresAt = expiresAt\<rparr>"

lemma permit_for_matches: "ipv_Statement ver = permit_for c v raw nb ex \<Longrightarrow> interactionPermitMatches c ver v raw"
  by (simp add: interactionPermitMatches_def permit_for_def)

lemma interaction_ok_id: "crypto_ok c \<Longrightarrow> interaction_ok c v \<Longrightarrow> prefixed_hex ''interaction-'' (ix_InteractionID v)"
  using interactionID_hex by (simp add: interaction_ok_def interaction_binding_ok_def)

lemma interaction_ok_expires:
  assumes "interaction_ok c v"
  shows "canonicalTime (ix_ExpiresAt v) = Ok (instant (ix_ExpiresAt v))"
  using assms by (auto simp: interaction_ok_def is_ok_iff ii_validate_def input_of_interaction_def and_then_Inr_iff instant_def split: if_splits sum.splits)

lemma takeWhile_shorter: "x \<in> set xs \<Longrightarrow> \<not> P x \<Longrightarrow> length (takeWhile P xs) < length xs"
  by (induction xs) auto

lemma index_of_unique:
  assumes "distinct (map f xs)" "x \<in> set xs" "k = length (takeWhile (\<lambda>y. f y \<noteq> f x) xs)"
  shows "k < length xs \<and> xs ! k = x"
proof -
  have "k < length xs" unfolding assms(3) by (rule takeWhile_shorter [OF assms(2)]) simp
  moreover then have "f (xs ! k) = f x" using takeWhile_index [of k f "f x" xs] assms(3) by simp
  ultimately show ?thesis using assms(1,2) by (metis distinct_map inj_onD nth_mem)
qed

lemma resolve_delivered:
  assumes "crypto_ok c" "inbox_inv c s" "v \<in> set (ib_interactions s)" "read_courier body = Inr (ix_InteractionID v, permit, raw, answer)"
    "is_ok (rb_Validate answer (ix_Options v) (ix_AllowText v))"
  shows "ix_Response v = None \<Longrightarrow> clock 0 < instant (ix_ExpiresAt v) \<Longrightarrow> ib_grants s (ix_GrantID v) = Some grant \<Longrightarrow> ig_Active grant \<Longrightarrow>
      taskAuthorityKeys (ig_TaskAuthorities grant) = Ok trusted \<Longrightarrow> ip_Verify c permit trusted (clock 1) ip_MaxValidity = Ok ver \<Longrightarrow>
      interactionPermitMatches c ver v raw \<Longrightarrow>
      \<exists>s' v'. resolveInteraction c clock PersistOk body s = (s', InteractionReply 200 v') \<and> v' \<in> set (ib_interactions s') \<and> continues v v' \<and>
        ix_Response v' = Some \<lparr>ir_Body = answer, ir_KeyID = ipv_KeyID ver, ir_PermitDigest = ipv_EnvelopeDigest ver,
          ir_ResponseDigest = ips_ResponseDigest (ipv_Statement ver), ir_ResolvedAt = format_nano (clock 2)\<rparr>"
    "ix_Response v = Some r \<Longrightarrow> ir_PermitDigest r = Digest c permit \<Longrightarrow> ir_ResponseDigest r = ResponseDigest c raw \<Longrightarrow>
      resolveInteraction c clock p body s = (s, InteractionReply 200 v)"
proof -
  have vs: "is_ok (validateRetainedInteractions c (ib_interactions s))" using assms(2) by (simp add: inbox_inv_def inbox_valid_def)
  then have "interaction_ok c v" using assms(3) by (auto simp: interactions.validate_iff well_retained_def)
  note ex = interaction_ok_expires [OF this]
  define k where "k = length (takeWhile (\<lambda>candidate. ix_InteractionID candidate \<noteq> ix_InteractionID v) (ib_interactions s))"
  have k: "k < length (ib_interactions s)" "ib_interactions s ! k = v"
    using index_of_unique [OF _ assms(3) k_def] vs by (auto simp: interactions.validate_iff well_retained_def)
  note d = resolveInteraction_def [of c clock _ body s, unfolded assms(4) Let_def sum.case prod.case, folded k_def, unfolded k(2)]
  {
    assume h: "ix_Response v = None" "clock 0 < instant (ix_ExpiresAt v)" "ib_grants s (ix_GrantID v) = Some grant" "ig_Active grant"
      "taskAuthorityKeys (ig_TaskAuthorities grant) = Ok trusted" "ip_Verify c permit trusted (clock 1) ip_MaxValidity = Ok ver"
      "interactionPermitMatches c ver v raw"
    have "ig_TaskAuthorities grant \<noteq> []" using h(5) by (auto simp: taskAuthorityKeys_def validTaskAuthorities_def)
    with h k(1) ex assms(5) show "\<exists>s' v'. resolveInteraction c clock PersistOk body s = (s', InteractionReply 200 v') \<and> v' \<in> set (ib_interactions s') \<and> continues v v' \<and>
        ix_Response v' = Some \<lparr>ir_Body = answer, ir_KeyID = ipv_KeyID ver, ir_PermitDigest = ipv_EnvelopeDigest ver,
          ir_ResponseDigest = ips_ResponseDigest (ipv_Statement ver), ir_ResolvedAt = format_nano (clock 2)\<rparr>"
      by (auto simp: d persist_simps continues_def set_update_memI)
  }
  assume "ix_Response v = Some r" "ir_PermitDigest r = Digest c permit" "ir_ResponseDigest r = ResponseDigest c raw"
  with k(1) assms(5) show "resolveInteraction c clock p body s = (s, InteractionReply 200 v)" by (simp add: d)
qed

section \<open>Questions\<close>

lemma cp_checks: "cp_interactionID = validInteractionID" "cp_eventID = validInstanceEventID"
  by (simp_all add: fun_eq_iff cp_interactionID_def validInteractionID_def cp_eventID_def validInstanceEventID_def)

lemma request_options_eq: "is_ok (request_options seen os) = is_ok (option_loop seen os)"
  by (induction os arbitrary: seen) (auto simp: text_checks)

lemma controller_digest: "InteractionRequestDigest c (controllerInteraction v) = interactionRequestDigest c v"
  by (simp add: interactionRequestDigest_def InteractionRequestDigest_def request_document_def controllerInteraction_def)

lemma slice_cloned [simp]: "slice (cloned xs) = xs"
  by (simp add: slice_def cloned_def)

lemma ii_validate_Ok:
  assumes "is_ok (ii_validate input now)"
  shows "ii_SchemaVersion input = InteractionRequestSchemaV1" "gw_routeID (ii_IdempotencyKey input)" "ii_Kind input = ''question'' \<or> ii_Kind input = ''decision''"
    "eventText (ii_Title input) 128" "eventText (ii_Prompt input) 4096" "length (ii_Options input) \<le> maxInteractionOptions"
    "ii_TaskID input = [] \<or> eventText (ii_TaskID input) 256" "ii_RunID input = [] \<or> eventText (ii_RunID input) 256"
    "ii_Kind input = ''decision'' \<Longrightarrow> 2 \<le> length (ii_Options input)" "ii_Options input = [] \<Longrightarrow> ii_AllowText input"
    "is_ok (option_loop {} (ii_Options input))"
    "ii_ObservedAt input \<noteq> [] \<Longrightarrow> \<exists>t. canonicalTime (ii_ObservedAt input) = Ok t \<and> t \<le> now + 5 * minute"
    "\<exists>t. canonicalTime (ii_ExpiresAt input) = Ok t \<and> now < t \<and> t \<le> now + maxInteractionWait"
  using assms unfolding ii_validate_def
  by (auto simp: is_ok_iff and_then_Inr_iff not_less split: if_splits sum.splits)

lemma controller_valid:
  assumes "interaction_ok c v" "stamped v" "recordID (ix_TenantID v) 128" "recordID (ix_NodeID v) 128" "cp_text (ix_InstanceID v) 256"
  shows "is_ok (rv_Validate c (controllerInteraction v))"
proof -
  obtain t where t: "sane_clock t" "ix_AcceptedAt v = format_nano t" and o: "ix_ObservedAt v \<noteq> []" using assms(2) by (auto simp: stamped_def)
  have b: "interaction_binding_ok c v" and i: "is_ok (ii_validate (input_of_interaction v) t)"
    using assms(1) canonical_zoned_format [OF t(1)] t(2) by (auto simp: interaction_ok_def)
  note f = ii_validate_Ok [OF i]
  have a: "canonical_nano (ix_AcceptedAt v) = Ok t" using canonical_nano_format [OF t(1)] t(2) by simp
  obtain ot et where ot: "canonicalTime (ix_ObservedAt v) = Ok ot" "ot \<le> t + 5 * minute"
    and et: "canonicalTime (ix_ExpiresAt v) = Ok et" "t < et" "et \<le> t + maxInteractionWait"
    using f(12,13) o by (auto simp: input_of_interaction_def)
  have w: "cp_MaxInteractionWait = maxInteractionWait" "0 \<le> maxInteractionWait" "maxInteractionWait < max_int64"
    by (simp_all add: cp_MaxInteractionWait_def maxInteractionWait_def hour_def minute_def nsec_def max_int64_def)
  have sub: "\<not> time_sub et t > cp_MaxInteractionWait" using time_sub_le_iff [OF w(2,3), of et t] et(3) w(1) by simp
  have hex: "cp_prefixedDigest (ix_RuntimeRef v) ''executor-''" "cp_prefixedDigest (ix_GrantID v) ''grant-''" "sha256Digest (ix_CapsuleDigest v)"
    "sha256Digest (ix_PolicyDigest v)" "cp_interactionID (ix_InteractionID v)"
    using b cp_prefixedDigest_lower
    by (auto simp: interaction_binding_ok_def valid_hex_checks sha256Digest_def cp_checks)
  have id: "ix_InteractionID v = interactionRequestID c (ix_GrantID v) (ix_IdempotencyKey v)" "ix_Source v = ''agent''" "ix_Generation v \<noteq> 0"
    "ix_SchemaVersion v = InteractionRequestSchemaV1" "ix_RequestDigest v = interactionRequestDigest c v"
    using b by (simp_all add: interaction_binding_ok_def interactionRequestID_def interactionID_def)
  have tx: "recordID (ix_IdempotencyKey v) 128" "cp_text (ix_Title v) 128" "cp_text (ix_Prompt v) 4096" "ix_TaskID v = [] \<or> cp_text (ix_TaskID v) 256"
    "ix_RunID v = [] \<or> cp_text (ix_RunID v) 256" "length (ix_Options v) \<le> cp_MaxInteractionOptions" "is_ok (request_options {} (ix_Options v))"
    "ix_Kind v = ''question'' \<or> ix_Kind v = ''decision''" "ix_Kind v = ''decision'' \<Longrightarrow> 2 \<le> length (ix_Options v)" "ix_Options v = [] \<Longrightarrow> ix_AllowText v"
    using f by (simp_all add: input_of_interaction_def recordID_iff text_checks request_options_eq maxInteractionOptions_def cp_MaxInteractionOptions_def)
  have sel: "rv_RequestDigest (controllerInteraction v) = ix_RequestDigest v" by (simp add: controllerInteraction_def)
  show ?thesis
    unfolding rv_Validate_def controller_digest sel
    using a ot et sub hex id tx assms(3-5)
    by (auto simp: controllerInteraction_def time_or_zero_def Let_def)
qed

lemma request_batch_ok:
  "is_ok (request_batch c node seen vs) \<longleftrightarrow> (\<forall>v \<in> set vs. rv_NodeID v = node \<and> is_ok (rv_Validate c v)) \<and>
     distinct (map rv_InteractionID vs) \<and> rv_InteractionID ` set vs \<inter> seen = {}"
  by (induction vs arbitrary: seen) auto

lemma publish_outbox:
  assumes "is_ok (validateRetainedInteractions c vs)" "\<forall>v \<in> set vs. stamped v" "vs \<noteq> []" "recordID node 128"
    "\<forall>v \<in> set vs. recordID (ix_TenantID v) 128 \<and> ix_NodeID v = node \<and> cp_text (ix_InstanceID v) 256"
  shows "\<exists>batch. publishInteractions c node vs = Some (batch, map ix_InteractionID vs) \<and> qb_Interactions batch = map controllerInteraction vs"
proof -
  have w: "length vs \<le> 64" "\<forall>v \<in> set vs. interaction_ok c v" "distinct (map ix_InteractionID vs)"
    using assms(1) by (auto simp: interactions.validate_iff well_retained_def maxInteractions_def)
  have "\<forall>v \<in> set vs. is_ok (rv_Validate c (controllerInteraction v))" using w(2) assms(2,4,5) by (auto intro!: controller_valid)
  moreover have m: "map rv_InteractionID (map controllerInteraction vs) = map ix_InteractionID vs" "rv_NodeID (controllerInteraction v) = ix_NodeID v" for v
    by (simp_all add: controllerInteraction_def)
  ultimately have "is_ok (request_batch c node {} (map controllerInteraction vs))"
    unfolding request_batch_ok m(1) using w(3) assms(5) m(2) by simp
  then have "is_ok (qb_Validate c \<lparr>qb_SchemaVersion = InteractionBatchSchemaV1, qb_NodeID = node, qb_Interactions = map controllerInteraction vs\<rparr>)"
    using w(1) assms(3,4) by (simp add: qb_Validate_def MaxInteractionBatch_def)
  then show ?thesis using assms(1,3) by (simp add: publishInteractions_def)
qed

subsection \<open>Events\<close>

lemma event_controller_valid:
  assumes "event_ok c e" "iv_ObservedAt e \<noteq> []" "recordID (iv_TenantID e) 128" "recordID (iv_NodeID e) 128" "cp_text (iv_InstanceID e) 256"
  shows "is_ok (ev1_Validate c e)"
proof -
  have b: "event_binding_ok c e" and i: "is_ok (ei_validate (input_of_event e))" and a: "timestamp (iv_AcceptedAt e)"
    using assms(1) by (auto simp: event_ok_def timestamp_def)
  have hex: "cp_prefixedDigest (iv_RuntimeRef e) ''executor-''" "cp_prefixedDigest (iv_GrantID e) ''grant-''" "sha256Digest (iv_CapsuleDigest e)"
    "sha256Digest (iv_PolicyDigest e)" "cp_eventID (iv_EventID e)"
    using b cp_prefixedDigest_lower
    by (auto simp: event_binding_ok_def valid_hex_checks sha256Digest_def cp_checks)
  have id: "iv_EventID e = cp_instanceEventID c (iv_GrantID e) (iv_IdempotencyKey e)" "iv_Source e = ''agent''" "iv_Generation e \<noteq> 0"
    "iv_SchemaVersion e = InstanceEventSchemaV1"
    using b by (simp_all add: event_binding_ok_def cp_instanceEventID_def instanceEventID_def)
  have v: "timestamp (iv_ObservedAt e)" using i assms(2) by (auto simp: ei_validate_def input_of_event_def timestamp_def split: if_splits)
  show ?thesis
    using i a v hex id assms(3-5) unfolding ei_validate_def ev1_Validate_def recordID_iff text_checks
    by (auto simp: input_of_event_def MaxInstanceEventSummary_def cp_MaxInstanceEventAttrs_def maxInstanceEventAttrs_def maxInstanceEventAttrBytes_def
        split: if_splits)
qed

lemma event_batch_ok:
  "is_ok (event_batch c node seen es) \<longleftrightarrow> (\<forall>e \<in> set es. iv_NodeID e = node \<and> is_ok (ev1_Validate c e)) \<and>
     distinct (map iv_EventID es) \<and> iv_EventID ` set es \<inter> seen = {}"
  by (induction es arbitrary: seen) auto

lemma controllerEvent_id: "controllerEvent e = e"
  by (cases e) (simp add: controllerEvent_def)

lemma publish_events:
  assumes "is_ok (validateRetainedEvents c es)" "\<forall>e \<in> set es. iv_ObservedAt e \<noteq> []" "es \<noteq> []" "recordID node 128"
    "\<forall>e \<in> set es. recordID (iv_TenantID e) 128 \<and> iv_NodeID e = node \<and> cp_text (iv_InstanceID e) 256"
  shows "\<exists>batch. publishEvents c node es = Some (batch, map iv_EventID es) \<and> eb_Events batch = es"
proof -
  have w: "length es \<le> 64" "\<forall>e \<in> set es. event_ok c e" "distinct (map iv_EventID es)"
    using assms(1) by (auto simp: events.validate_iff well_retained_def maxInstanceEvents_def)
  have "\<forall>e \<in> set es. is_ok (ev1_Validate c e)" using w(2) assms(2,4,5) by (auto intro!: event_controller_valid)
  then have "is_ok (event_batch c node {} es)" unfolding event_batch_ok using w(3) assms(5) by simp
  then have "is_ok (eb_Validate c \<lparr>eb_SchemaVersion = InstanceEventBatchV1, eb_NodeID = node, eb_Events = es\<rparr>)"
    using w(1) assms(3,4) by (simp add: eb_Validate_def MaxInstanceEventBatch_def)
  moreover have "map controllerEvent es = es" by (simp add: controllerEvent_id map_idI)
  ultimately show ?thesis using w(1) assms(1,3) by (simp add: publishEvents_def maxInstanceEvents_def)
qed

end
