(* ===== verification/Inbox_Demo.thy ===== *)
theory Inbox_Demo
  imports Inbox_Delivery
begin

text \<open>
  A concrete Gateway for the witnesses: one active grant with one task authority, whose agent asks up to sixteen questions.
\<close>

lemma text_ascii:
  assumes "\<forall>c \<in> set s. 32 < byte c \<and> byte c < 127" "s \<noteq> []" "length s \<le> n"
  shows "responseText s n"
proof -
  have "runes s = map (\<lambda>c. (byte c, [c])) s" using assms(1) by (intro runes_ascii) auto
  moreover have "trim_space s = s" using assms(1) by (rule trim_space_ascii)
  moreover have "valid_utf8 s" using assms(1) by (intro valid_utf8_ascii) auto
  ultimately show ?thesis using assms by (auto simp: responseText_def list_all_iff IsControl_def)
qed

lemma bounded_ascii:
  assumes "\<forall>c \<in> set s. 32 < byte c \<and> byte c < 127" "s \<noteq> []" "length s \<le> n"
  shows "gw_bounded s n"
proof -
  have "trim_space s = s" using assms(1) by (rule trim_space_ascii)
  then show ?thesis using assms by (auto simp: gw_bounded_def contains_nul_def)
qed

definition ib_grant_id :: bytes where "ib_grant_id = ''grant-'' @ replicate 64 (CHR ''a'')"

definition ib_grant :: InboxGrant where
  "ib_grant = \<lparr>ig_GrantID = ib_grant_id, ig_TenantID = ''tenant'', ig_NodeID = ''node'', ig_InstanceID = ''instance'', ig_Generation = 1,
     ig_RuntimeRef = ''executor-'' @ replicate 64 (CHR ''a''), ig_CapsuleDigest = demo_digest, ig_PolicyDigest = demo_digest,
     ig_TaskAuthorities = [\<lparr>ta_KeyID = ''key'', ta_PublicKey = b64_encode Std (ed_public demo_crypto demo_key)\<rparr>],
     ig_ControllerEvents = True, ig_Active = False\<rparr>"

lemma ib_grant_keys: "taskAuthorityKeys (ig_TaskAuthorities ib_grant) = Ok [''key'' \<mapsto> ed_public demo_crypto demo_key]"
proof -
  have "length (ed_public demo_crypto demo_key) = 32" by (simp add: demo_crypto_def)
  moreover have "gw_routeID ''key''" by (simp add: gw_routeID_iff identifier_pattern_def alnum_def is_lower_def)
  ultimately show ?thesis by (simp add: taskAuthorityKeys_def validTaskAuthorities_def ib_grant_def)
qed

lemma ib_grant_valid: "validGrant_inbox ib_grant"
proof -
  have "gw_bounded ''tenant'' 128" "gw_bounded ''node'' 128" "gw_bounded ''instance'' 256" by (simp_all add: bounded_ascii)
  moreover have "validTaskAuthorities (ig_TaskAuthorities ib_grant)"
    using ib_grant_keys by (auto simp: taskAuthorityKeys_def split: if_splits)
  ultimately show ?thesis
    using prefixed_demo [of "''executor-''"] prefixed_demo [of "''grant-''"] demo_digest_hex
    by (simp add: validGrant_inbox_def validGrantEvidenceContext_def ib_grant_def ib_grant_id_def valid_hex_checks)
qed

definition ib_now :: "nat \<Rightarrow> time" where "ib_now = (\<lambda>_. minute)"

definition ask_key :: "nat \<Rightarrow> bytes" where "ask_key j = replicate (Suc j) (CHR ''k'')"

definition ask_input :: "nat \<Rightarrow> InteractionInput" where
  "ask_input j = \<lparr>ii_SchemaVersion = InteractionRequestSchemaV1, ii_IdempotencyKey = ask_key j, ii_Kind = ''decision'', ii_Title = ''Deploy'',
     ii_Prompt = ''Deploy-now?'', ii_Options = [''yes'', ''no''], ii_AllowText = False, ii_TaskID = [], ii_RunID = [], ii_ObservedAt = [],
     ii_ExpiresAt = time_format (10 * minute)\<rparr>"

definition ask_json :: "nat \<Rightarrow> json" where
  "ask_json j = JObj [(''schema_version'', JStr InteractionRequestSchemaV1), (''idempotency_key'', JStr (ask_key j)), (''kind'', JStr ''decision''),
     (''title'', JStr ''Deploy''), (''prompt'', JStr ''Deploy-now?''), (''options'', JArr [JStr ''yes'', JStr ''no'']),
     (''expires_at'', JStr (time_format (10 * minute)))]"

definition ask_request :: "nat \<Rightarrow> agent_request" where
  "ask_request j = \<lparr>ar_Method = ''POST'', ar_Path = ''/v1/interactions'', ar_RawQuery = [], ar_Body = Some (json_print (ask_json j))\<rparr>"

lemma ask_expires: "canonicalTime (time_format (10 * minute)) = Ok (10 * minute)"
  by (auto intro!: canonicalTime_format simp: sane_clock_def minute_def nsec_def)

lemma ask_valid:
  assumes "j < 16"
  shows "ii_validate (ask_input j) (ib_now 0) = Ok ()"
proof -
  have "gw_routeID (ask_key j)"
    using assms by (auto simp: gw_routeID_iff identifier_pattern_def ask_key_def list_all_iff alnum_def is_lower_def)
  moreover have "eventText ''Deploy'' 128" "eventText ''Deploy-now?'' 4096" "eventText ''yes'' 128" "eventText ''no'' 128"
    unfolding text_checks by (simp_all add: text_ascii)
  ultimately show ?thesis
    using ask_expires
    by (simp add: ii_validate_def ask_input_def maxInteractionOptions_def ib_now_def maxInteractionWait_def hour_def minute_def nsec_def)
qed

lemma ask_decoded:
  assumes "j < 16"
  shows "DecodeStrictInto (json_print (ask_json j)) maxInteractionRequestBytes interaction_input_type = Ok (ask_json j)"
    "length (json_print (ask_json j)) \<le> maxInteractionRequestBytes" "interaction_input_of_json (ask_json j) = ask_input j"
proof -
  have k: "length (ask_key j) \<le> 16" using assms by (simp add: ask_key_def)
  have t: "length (time_format (10 * minute)) \<le> 20" using canonicalTime_length [OF ask_expires] by simp
  show l: "length (json_print (ask_json j)) \<le> maxInteractionRequestBytes"
    using json_quote_bound [OF k] json_quote_bound [OF t] json_quote_bound [of InteractionRequestSchemaV1 40] json_quote_bound [of "''decision''" 8]
      json_quote_bound [of "''Deploy''" 6] json_quote_bound [of "''Deploy-now?''" 11] json_quote_bound [of "''yes''" 3] json_quote_bound [of "''no''" 2]
      json_quote_bound [of "''schema_version''" 14] json_quote_bound [of "''idempotency_key''" 15] json_quote_bound [of "''kind''" 4]
      json_quote_bound [of "''title''" 5] json_quote_bound [of "''prompt''" 6] json_quote_bound [of "''options''" 7] json_quote_bound [of "''expires_at''" 10]
    by (simp add: ask_json_def maxInteractionRequestBytes_def InteractionRequestSchemaV1_def)
  have "wf_json (ask_json j)"
    using canonicalTime_utf8 [OF ask_expires] by (simp add: ask_json_def InteractionRequestSchemaV1_def ask_key_def valid_utf8_ascii)
  moreover have "conforms interaction_input_type 0 (ask_json j)" by (simp add: ask_json_def interaction_input_type_def)
  ultimately show "DecodeStrictInto (json_print (ask_json j)) maxInteractionRequestBytes interaction_input_type = Ok (ask_json j)"
    using l by (intro DecodeStrictInto_print)
  show "interaction_input_of_json (ask_json j) = ask_input j"
    by (simp add: interaction_input_of_json_def ask_json_def ask_input_def str_member_def strs_member_def bool_member_def member_def)
qed

text \<open>The identities of the sixteen questions differ.\<close>

lemma ask_id_inj:
  assumes "interactionID demo_crypto ib_grant_id (ask_key i) = interactionID demo_crypto ib_grant_id (ask_key j)" "i < 16" "j < 16"
  shows "i = j"
proof -
  have "hex_encode (replicate 32 (chr ((95 + i) mod 256))) = hex_encode (replicate 32 (chr ((95 + j) mod 256)))"
    using assms(1) by (simp add: interactionID_def demo_crypto_def ib_grant_id_def ask_key_def add.commute)
  then have "replicate 32 (chr ((95 + i) mod 256)) = replicate 32 (chr ((95 + j) mod 256))" by (rule hex_encode_inj)
  then have "byte (chr ((95 + i) mod 256)) = byte (chr ((95 + j) mod 256))" by simp
  then show ?thesis using assms(2,3) by (simp add: byte_chr)
qed

definition ib_setup :: "inbox_op list" where
  "ib_setup = [IRestart True, IRegister True True PersistOk True PersistOk ib_grant, ISetActive PersistOk ib_grant_id True]"

definition ib_asks :: "nat \<Rightarrow> inbox_op list" where
  "ib_asks n = ib_setup @ map (\<lambda>j. IAgent ib_now PersistOk (ask_request j) ib_grant_id) [0..<n]"

definition asked :: "nat \<Rightarrow> Interaction" where
  "asked j = new_interaction demo_crypto minute (ib_grant\<lparr>ig_Active := True\<rparr>) (interactionID demo_crypto ib_grant_id (ask_key j)) (ask_input j)"

definition ib_ready :: "Interaction list \<Rightarrow> Inbox" where
  "ib_ready vs = \<lparr>ib_open = True, ib_grants = [ib_grant_id \<mapsto> ib_grant\<lparr>ig_Active := True\<rparr>], ib_events = [], ib_interactions = vs,
     ib_file = Some \<lparr>gs_Version = gatewayStateWriteVersion, gs_Grants = [ib_grant_id \<mapsto> ib_grant\<lparr>ig_Active := True\<rparr>], gs_Events = [], gs_Interactions = vs\<rparr>\<rparr>"

lemma ib_setup_state: "run demo_crypto ib_setup = ib_ready []"
proof -
  have [simp]: "ig_GrantID ib_grant = ib_grant_id" "\<not> ig_Active ib_grant" by (simp_all add: ib_grant_def)
  show ?thesis
    by (simp add: ib_setup_def inbox_exec_def inbox_start_def gw_restart_def gw_register_def gw_setActive_def ib_grant_valid persist_simps Let_def snap_def ib_ready_def)
qed

lemma asked_share:
  "share ix_TenantID t (map asked [0..<n]) \<le> n" "share ix_GrantID g (map asked [0..<n]) \<le> n" "share ix_GrantID ib_grant_id (map asked [0..<n]) = n"
  by (induction n) (auto simp: asked_def new_interaction_fields ib_grant_def)

lemma ib_asks_state: "n \<le> 16 \<Longrightarrow> run demo_crypto (ib_asks n) = ib_ready (map asked [0..<n])"
proof (induction n)
  case 0
  show ?case using ib_setup_state by (simp add: ib_asks_def)
next
  case (Suc n)
  let ?s = "run demo_crypto (ib_asks n)"
  have n: "n < 16" using Suc.prems by simp
  have s: "ib_open ?s" "ib_grants ?s = [ib_grant_id \<mapsto> ib_grant\<lparr>ig_Active := True\<rparr>]" "ib_interactions ?s = map asked [0..<n]" "ib_events ?s = []"
    using Suc by (simp_all add: ib_ready_def)
  have id: "ix_InteractionID (asked j) = interactionID demo_crypto ib_grant_id (ask_key j)" for j by (simp add: asked_def new_interaction_fields)
  have f: "find (\<lambda>v. ix_InteractionID v = interactionID demo_crypto ib_grant_id (ask_key n)) (map asked [0..<n]) = None"
    using ask_id_inj [of _ n] n less_trans [OF _ n] by (force simp: find_None_iff id)
  have q: "share ix_TenantID ''tenant'' (map asked [0..<n]) < maxInteractionsTenant" "share ix_GrantID ib_grant_id (map asked [0..<n]) < maxInteractionsGrant"
    "n < maxInteractions"
    using asked_share(1) [of "''tenant''" n] asked_share(3) [of n] n
    by (simp_all add: maxInteractionsTenant_def maxInteractionsGrant_def maxInteractions_def)
  have k: "ii_IdempotencyKey (ask_input n) = ask_key n" by (simp add: ask_input_def)
  have g: "ig_ControllerEvents ib_grant" "ig_TaskAuthorities ib_grant \<noteq> []" "ig_TenantID ib_grant = ''tenant''" by (simp_all add: ib_grant_def)
  have r: "ar_RawQuery (ask_request n) = []" "ar_Body (ask_request n) = Some (json_print (ask_json n))" "ar_Method (ask_request n) = ''POST''"
    "ar_Path (ask_request n) = ''/v1/interactions''" by (simp_all add: ask_request_def)
  have "fst (inbox_exec demo_crypto (IAgent ib_now PersistOk (ask_request n) ib_grant_id) ?s) =
    (let m = ?s\<lparr>ib_interactions := map asked [0..<n] @ [asked n]\<rparr> in m\<lparr>ib_file := Some (snap m)\<rparr>)"
    using ask_decoded [OF n] ask_valid [OF n] f q s(1-3) g
    by (simp add: inbox_exec_def interactionAndEventHandler_def interactionGrantHandler_def createInteraction_def r has_prefix_def read_body_def k
        persist_simps Let_def share_def [symmetric] asked_def [symmetric] ib_now_def)
  moreover have "run demo_crypto (ib_asks (Suc n)) = fst (inbox_exec demo_crypto (IAgent ib_now PersistOk (ask_request n) ib_grant_id) ?s)"
    by (simp add: ib_asks_def final_state_append)
  ultimately show ?case using Suc.IH n by (simp add: Let_def snap_def ib_ready_def)
qed

lemma ib_asks_sane: "\<forall>op \<in> set (ib_asks n). sane_op op"
  by (auto simp: ib_asks_def ib_setup_def ib_now_def sane_clock_def minute_def nsec_def)

lemma asked_names: "recordID (ix_TenantID (asked j)) 128" "ix_NodeID (asked j) = ''node''" "cp_text (ix_InstanceID (asked j)) 256" "recordID ''node'' 128"
  unfolding asked_def new_interaction_fields recordID_iff text_checks
  by (simp_all add: ib_grant_def gw_routeID_iff identifier_pattern_def alnum_def is_lower_def text_ascii)

lemma asked_controller: "is_ok (rv_Validate demo_crypto (controllerInteraction (asked 0)))"
proof -
  have i: "inbox_inv demo_crypto (ib_ready [asked 0])"
    using inbox_reached [OF demo_crypto_ok ib_asks_sane, of 1] ib_asks_state [of 1] by simp
  then have "interaction_ok demo_crypto (asked 0)" "stamped (asked 0)"
    by (simp_all add: ib_ready_def inbox_inv_def inbox_valid_def interactions.validate_iff well_retained_def snap_def)
  then show ?thesis using asked_names by (intro controller_valid) simp_all
qed

section \<open>An answer\<close>

definition yes_json :: json where "yes_json = JObj [(''schema_version'', JStr ResponseBodySchemaV1), (''choice'', JStr ''yes'')]"
definition yes_raw :: bytes where "yes_raw = json_print yes_json"

lemma yes_decoded: "DecodeStrictInto yes_raw MaxResponseBytes response_body_type = Ok yes_json"
  unfolding yes_raw_def
proof (rule DecodeStrictInto_print)
  show "wf_json yes_json" by (simp add: yes_json_def ResponseBodySchemaV1_def valid_utf8_ascii)
  show "conforms response_body_type 0 yes_json" by (simp add: yes_json_def response_body_type_def)
  show "length (json_print yes_json) \<le> MaxResponseBytes"
    using json_quote_bound [of ResponseBodySchemaV1 40] json_quote_bound [of "''yes''" 3] json_quote_bound [of "''schema_version''" 14] json_quote_bound [of "''choice''" 6]
    by (simp add: yes_json_def MaxResponseBytes_def ResponseBodySchemaV1_def)
qed

lemma yes_offered: "is_ok (rb_Validate (response_body_of_json yes_json) (ix_Options (asked j)) (ix_AllowText (asked j)))"
proof -
  have "responseText ''yes'' 128" by (simp add: text_ascii)
  moreover have "ix_Options (asked j) = [''yes'', ''no'']" by (simp add: asked_def new_interaction_def Let_def ask_input_def)
  ultimately show ?thesis
    by (simp add: rb_Validate_def response_body_of_json_def yes_json_def str_member_def member_def ResponseBodySchemaV1_def)
qed

lemma yes_permit: "ip_accepts (permit_for demo_crypto (asked 0) yes_raw (time_format 0) (time_format (10 * minute))) minute ip_MaxValidity"
proof -
  have t: "canonicalTime (time_format 0) = Ok 0"
    by (auto intro!: canonicalTime_format simp: sane_clock_def minute_def nsec_def)
  have i: "tp_publicIdentity ''node'' 128" "tp_publicIdentity ''tenant'' 128" "tp_publicIdentity ''instance'' 256"
    by (simp_all add: tp_publicIdentity_def trim_space_ascii is_space_def valid_utf8_ascii contains_nul_def)
  have d: "tp_digest (interactionRequestDigest demo_crypto v)" "tp_digest (ResponseDigest demo_crypto r)" for v r
    unfolding tp_digest_iff interactionRequestDigest_def InteractionRequestDigest_def
    by (rule prefixed_hex_encode, simp add: demo_crypto_def) (rule sha_hex(2) [OF demo_crypto_ok])
  have r: "yes_raw \<noteq> []" "length yes_raw \<le> MaxResponseBytes" using yes_decoded by (auto simp: DecodeStrictInto_iff)
  have dg: "ix_RequestDigest (asked 0) = interactionRequestDigest demo_crypto (asked 0)" unfolding asked_def by (rule new_interaction_digest)
  have x: "ip_interactionID (ix_InteractionID (asked 0))"
    unfolding ip_interactionID_iff asked_def new_interaction_fields by (rule interactionID_hex [OF demo_crypto_ok])
  have f: "ix_NodeID (asked 0) = ''node''" "ix_TenantID (asked 0) = ''tenant''" "ix_InstanceID (asked 0) = ''instance''"
    "ix_RuntimeRef (asked 0) = ''executor-'' @ replicate 64 (CHR ''a'')" "ix_GrantID (asked 0) = ''grant-'' @ replicate 64 (CHR ''a'')"
    "ix_Generation (asked 0) = 1" "ix_CapsuleDigest (asked 0) = demo_digest" "ix_PolicyDigest (asked 0) = demo_digest"
    unfolding asked_def new_interaction_fields by (simp_all add: ib_grant_def ib_grant_id_def)
  show ?thesis
    unfolding ip_accepts_def ip_validateStatement_iff [OF ip_MaxValidity_bound]
    using t ask_expires ip_MaxValidity_bound(1) prefixed_demo [of "''executor-''"] prefixed_demo [of "''grant-''"] i d r x demo_digest_hex
    by (simp add: permit_for_def f dg tp_runtimeRef_iff tp_grantID_iff tp_digest_iff [of demo_digest] instant_def MaxResponseBytes_def
        ip_MaxValidity_def hour_def minute_def nsec_def)
qed

section \<open>An event\<close>

definition ping_json :: json where
  "ping_json = JObj [(''schema_version'', JStr InstanceEventSchemaV1), (''idempotency_key'', JStr ''k''), (''kind'', JStr ''status''), (''code'', JStr ''up''),
     (''severity'', JStr ''info''), (''summary'', JStr ''up'')]"

definition ping :: inbox_op where
  "ping = IAgent ib_now PersistOk \<lparr>ar_Method = ''POST'', ar_Path = ''/v1/events'', ar_RawQuery = [], ar_Body = Some (json_print ping_json)\<rparr> ib_grant_id"

lemma ping_accepted: "snd (inbox_exec demo_crypto ping (run demo_crypto ib_setup)) = EventAccepted (instanceEventID demo_crypto ib_grant_id ''k'')"
proof -
  have l: "length (json_print ping_json) \<le> maxInstanceEventBytes"
    using json_quote_bound [of InstanceEventSchemaV1 40] json_quote_bound [of "''status''" 6] json_quote_bound [of "''k''" 1] json_quote_bound [of "''up''" 2]
      json_quote_bound [of "''info''" 4] json_quote_bound [of "''schema_version''" 14] json_quote_bound [of "''idempotency_key''" 15]
      json_quote_bound [of "''kind''" 4] json_quote_bound [of "''code''" 4] json_quote_bound [of "''severity''" 8] json_quote_bound [of "''summary''" 7]
    by (simp add: ping_json_def maxInstanceEventBytes_def InstanceEventSchemaV1_def)
  have "wf_json ping_json" by (simp add: ping_json_def InstanceEventSchemaV1_def valid_utf8_ascii)
  moreover have "conforms event_input_type 0 ping_json" by (simp add: ping_json_def event_input_type_def)
  ultimately have d: "DecodeStrictInto (json_print ping_json) maxInstanceEventBytes event_input_type = Ok ping_json"
    using l by (intro DecodeStrictInto_print)
  have i: "event_input_of_json ping_json = \<lparr>ei_SchemaVersion = InstanceEventSchemaV1, ei_IdempotencyKey = ''k'', ei_Kind = ''status'', ei_Code = ''up'',
      ei_Severity = ''info'', ei_Summary = ''up'', ei_Attributes = [], ei_TaskID = [], ei_RunID = [], ei_ObservedAt = []\<rparr>"
    by (simp add: event_input_of_json_def ping_json_def str_member_def attrs_member_def member_def)
  have "gw_routeID ''k''" "gw_routeID ''up''" by (simp_all add: gw_routeID_iff identifier_pattern_def alnum_def is_lower_def)
  moreover have "eventText ''up'' 1024" unfolding text_checks by (simp add: text_ascii)
  ultimately have v: "ei_validate (event_input_of_json ping_json) = Ok ()" by (simp add: i ei_validate_def maxInstanceEventAttrs_def maxInstanceEventAttrBytes_def)
  have g: "ig_ControllerEvents ib_grant" by (simp add: ib_grant_def)
  show ?thesis
    using l d v g
    by (simp add: ib_setup_state ping_def inbox_exec_def interactionAndEventHandler_def instanceEventHandler_def has_prefix_def read_body_def ib_ready_def i
        maxInstanceEvents_def maxInstanceEventsTenant_def maxInstanceEventsGrant_def persist_simps Let_def)
qed

end
