(* ===== verification/Inbox_Questions.thy ===== *)
theory Inbox_Questions
  imports Inbox_Demo
begin

text \<open>
  The digest of a question (\<open>InteractionRequestDigest\<close>) names the question: a document is read back from its bytes, so two questions that Control accepts
  under one digest are the same question.
\<close>

section \<open>Accepted questions are well-formed documents\<close>

lemma hex_decode_ascii: "hex_decode s = Some r \<Longrightarrow> \<forall>ch \<in> set s. byte ch < 128"
  by (induction s arbitrary: r rule: hex_decode.induct)
    (auto simp: from_hex_char_def is_digit_def split: option.splits if_splits)

lemma prefixed_digest_utf8:
  assumes "has_prefix s p" "hex_decode (trim_prefix s p) \<noteq> None" "\<forall>ch \<in> set p. byte ch < 128"
  shows "valid_utf8 s"
proof -
  have "s = p @ trim_prefix s p" using assms(1) append_take_drop_id [of "length p" s] by (simp add: has_prefix_def trim_prefix_def)
  moreover have "\<forall>ch \<in> set (trim_prefix s p). byte ch < 128" using assms(2) hex_decode_ascii by auto
  ultimately have "\<forall>ch \<in> set s. byte ch < 128" using assms(3) by (metis Un_iff set_append)
  then show ?thesis by (rule valid_utf8_ascii)
qed

lemma digest_checks_utf8:
  "cp_prefixedDigest s ''executor-'' \<Longrightarrow> valid_utf8 s" "cp_prefixedDigest s ''grant-'' \<Longrightarrow> valid_utf8 s" "sha256Digest s \<Longrightarrow> valid_utf8 s"
  "cp_interactionID s \<Longrightarrow> valid_utf8 s"
  unfolding cp_prefixedDigest_def sha256Digest_def cp_interactionID_def
  using prefixed_digest_utf8 [of s "''executor-''"] prefixed_digest_utf8 [of s "''grant-''"] prefixed_digest_utf8 [of s "''sha256:''"]
    prefixed_digest_utf8 [of s "''interaction-''"]
  by (simp_all split: if_splits)

lemma recordID_utf8: "recordID s 128 \<Longrightarrow> valid_utf8 s"
  by (rule valid_utf8_ascii) (auto simp: recordID_iff gw_routeID_iff dest: identifier_plain)

lemma cp_text_utf8: "cp_text s n \<Longrightarrow> valid_utf8 s"
  by (simp add: cp_text_def split: if_splits)

lemma format_nano_utf8: "valid_utf8 (format_nano t)"
proof -
  obtain y m d where c: "civil_from_days (t div nsec div day_length) = (y, m, d)" by (metis prod_cases3)
  have z: "set (trim_zeros s) \<subseteq> set s" for s
    using set_dropWhileD [of _ "(=) (CHR ''0'')" "rev s"] by (auto simp: trim_zeros_def)
  have "\<forall>ch \<in> set (format_seconds (t div nsec)). is_digit ch \<or> ch \<in> {CHR ''-'', CHR ''T'', CHR '':''}"
    using c by (auto simp: format_seconds_def Let_def dest: pad_digits)
  then have "\<forall>ch \<in> set (format_nano t). is_digit ch \<or> ch \<in> {CHR ''-'', CHR ''T'', CHR '':'', CHR ''.'', CHR ''Z''}"
    using z [of "pad 9 (nat (t mod nsec))"] pad_digits [of _ 9 "nat (t mod nsec)"] by (auto simp: format_nano_def Let_def)
  then show ?thesis by (intro valid_utf8_plain) (auto simp: json_plain_def is_digit_def)
qed

lemma canonical_nano_utf8: "canonical_nano s = Ok t \<Longrightarrow> valid_utf8 s"
  using format_nano_utf8 by (auto simp: canonical_nano_def Let_def split: option.splits if_splits)

lemma request_options_utf8: "is_ok (request_options seen os) \<Longrightarrow> option \<in> set os \<Longrightarrow> valid_utf8 option"
  by (induction os arbitrary: seen) (auto dest: cp_text_utf8 split: if_splits)

lemma rv_Validate_Ok:
  assumes "is_ok (rv_Validate c v)"
  shows "rv_SchemaVersion v = InteractionRequestSchemaV1" "rv_InteractionID v = interactionRequestID c (rv_GrantID v) (rv_IdempotencyKey v)"
    "rv_Source v = ''agent''" "rv_RequestDigest v = InteractionRequestDigest c v" "cp_interactionID (rv_InteractionID v)" "recordID (rv_TenantID v) 128"
    "recordID (rv_NodeID v) 128" "cp_text (rv_InstanceID v) 256" "cp_prefixedDigest (rv_RuntimeRef v) ''executor-''" "cp_prefixedDigest (rv_GrantID v) ''grant-''"
    "sha256Digest (rv_CapsuleDigest v)" "sha256Digest (rv_PolicyDigest v)" "rv_Kind v = ''question'' \<or> rv_Kind v = ''decision''" "cp_text (rv_Title v) 128"
    "cp_text (rv_Prompt v) 4096" "rv_TaskID v = [] \<or> cp_text (rv_TaskID v) 256" "rv_RunID v = [] \<or> cp_text (rv_RunID v) 256"
    "is_ok (canonicalTime (rv_ObservedAt v))" "is_ok (canonical_nano (rv_AcceptedAt v))" "is_ok (canonicalTime (rv_ExpiresAt v))"
    "is_ok (request_options {} (slice (rv_Options v)))"
  using assms unfolding rv_Validate_def Let_def by (auto split: if_splits)

lemma valid_document:
  assumes "is_ok (rv_Validate c v)"
  shows "wf_json (request_document v)"
proof -
  note f = rv_Validate_Ok [OF assms]
  have "valid_utf8 (rv_ObservedAt v)" "valid_utf8 (rv_AcceptedAt v)" "valid_utf8 (rv_ExpiresAt v)"
    using f(18-20) canonicalTime_utf8 canonical_nano_utf8 by (auto simp: is_ok_iff)
  moreover have "valid_utf8 (rv_InteractionID v)" "valid_utf8 (rv_TenantID v)" "valid_utf8 (rv_NodeID v)" "valid_utf8 (rv_InstanceID v)" "valid_utf8 (rv_RuntimeRef v)"
    "valid_utf8 (rv_GrantID v)" "valid_utf8 (rv_CapsuleDigest v)" "valid_utf8 (rv_PolicyDigest v)" "valid_utf8 (rv_Title v)" "valid_utf8 (rv_Prompt v)"
    using f by (auto intro: digest_checks_utf8 recordID_utf8 cp_text_utf8)
  moreover have "valid_utf8 (rv_TaskID v)" "valid_utf8 (rv_RunID v)" using f(16,17) by (auto intro: cp_text_utf8)
  moreover have "valid_utf8 (rv_Kind v)" "valid_utf8 (rv_SchemaVersion v)"
    using f(1,13) by (auto simp: InteractionRequestSchemaV1_def valid_utf8_ascii)
  moreover have "\<forall>option \<in> set (slice (rv_Options v)). valid_utf8 option" using request_options_utf8 [OF f(21)] by blast
  ultimately show ?thesis by (cases "rv_Options v") (auto simp: request_document_def omitempty_def slice_def valid_utf8_ascii)
qed

section \<open>A document determines the question\<close>

lemma json_print_inj: "wf_json a \<Longrightarrow> wf_json b \<Longrightarrow> json_print a = json_print b \<Longrightarrow> a = b"
  by (metis json_document_print option.inject)

lemma u64_json_inj: "u64_json a = u64_json b \<Longrightarrow> a = b"
  by (simp add: u64_json_def itoa_inj word_unat_eq_iff)

lemma options_inj:
  "(case a of None \<Rightarrow> JNull | Some x \<Rightarrow> JArr (map JStr x)) = (case b of None \<Rightarrow> JNull | Some x \<Rightarrow> JArr (map JStr x)) \<Longrightarrow> a = b"
  by (auto split: option.splits simp: inj_map_eq_map inj_def)

lemma request_document_inj:
  assumes "request_document v = request_document w"
  shows "w = v\<lparr>rv_IdempotencyKey := rv_IdempotencyKey w, rv_Source := rv_Source w, rv_RequestDigest := rv_RequestDigest w\<rparr>"
proof -
  have "rv_TaskID v = rv_TaskID w \<and> rv_RunID v = rv_RunID w"
    using assms by (auto simp: request_document_def omitempty_def split: if_splits)
  then show ?thesis
    using assms u64_json_inj options_inj by (cases v; cases w) (auto simp: request_document_def)
qed

text \<open>C26: The digest that an authority signs names one question: two questions that pass Control's checks under the same digest are equal in every field, provided
  SHA-256 separates their two documents, and separates the two strings their identities are derived from.\<close>

theorem question_determined:
  assumes "is_ok (rv_Validate c v)" "is_ok (rv_Validate c w)" "rv_RequestDigest v = rv_RequestDigest w"
    "inj_on (sha256 c) {json_print (request_document v), json_print (request_document w)}"
    "inj_on (sha256 c) {''steward-interaction-v1'' @ [chr 0] @ rv_GrantID v @ [chr 0] @ rv_IdempotencyKey v,
      ''steward-interaction-v1'' @ [chr 0] @ rv_GrantID w @ [chr 0] @ rv_IdempotencyKey w}"
  shows "v = w"
proof -
  note f = rv_Validate_Ok [OF assms(1)] and g = rv_Validate_Ok [OF assms(2)]
  have "InteractionRequestDigest c v = InteractionRequestDigest c w" using assms(3) f(4) g(4) by metis
  then have "sha256 c (json_print (request_document v)) = sha256 c (json_print (request_document w))"
    unfolding InteractionRequestDigest_def by (auto dest: hex_encode_inj)
  then have "json_print (request_document v) = json_print (request_document w)" by (rule inj_onD [OF assms(4)]) simp_all
  then have "request_document v = request_document w" by (rule json_print_inj [OF valid_document [OF assms(1)] valid_document [OF assms(2)]])
  then obtain k s d where w: "w = v\<lparr>rv_IdempotencyKey := k, rv_Source := s, rv_RequestDigest := d\<rparr>" using request_document_inj by blast
  then have i: "rv_InteractionID w = rv_InteractionID v" "rv_GrantID w = rv_GrantID v" by simp_all
  have "sha256 c (''steward-interaction-v1'' @ [chr 0] @ rv_GrantID v @ [chr 0] @ rv_IdempotencyKey v) =
    sha256 c (''steward-interaction-v1'' @ [chr 0] @ rv_GrantID w @ [chr 0] @ rv_IdempotencyKey w)"
    using f(2) g(2) i unfolding interactionRequestID_def by (auto dest: hex_encode_inj)
  then have "''steward-interaction-v1'' @ [chr 0] @ rv_GrantID v @ [chr 0] @ rv_IdempotencyKey v =
    ''steward-interaction-v1'' @ [chr 0] @ rv_GrantID w @ [chr 0] @ rv_IdempotencyKey w"
    by (rule inj_onD [OF assms(5)]) simp_all
  then have "rv_IdempotencyKey w = rv_IdempotencyKey v" unfolding i(2) by simp
  then show ?thesis using w f(3) g(3) assms(3) by simp
qed

theorem question_determined_witness:
  "is_ok (rv_Validate demo_crypto (controllerInteraction (asked 0))) \<and>
    controllerInteraction (asked 0) = controllerInteraction ((asked 0)\<lparr>ix_State := ''resolved''\<rparr>)"
proof -
  let ?w = "controllerInteraction ((asked 0)\<lparr>ix_State := ''resolved''\<rparr>)"
  have s: "?w = controllerInteraction (asked 0)" by (simp add: controllerInteraction_def)
  have v: "is_ok (rv_Validate demo_crypto (controllerInteraction (asked 0)))" by (rule asked_controller)
  then have "controllerInteraction (asked 0) = ?w" by (intro question_determined) (simp_all add: s)
  with v show ?thesis by blast
qed

end
