(* ===== verification/Inbox_Promises.thy ===== *)
theory Inbox_Promises
  imports Inbox_Questions
begin

text \<open>
  The promises of the Gateway's inbox over whole runs: a response is visible only if an authority of the grant signed it for exactly that question; it is
  visible for good; a signed answer is accepted; every state file opens again; what the agent was told is accepted reaches Control; and
  the digest that a response is signed for determines the question.
\<close>

section \<open>Lemmas\<close>

lemma reached_interaction:
  assumes "crypto_ok c" "\<forall>op \<in> set ops. sane_op op" "v \<in> set (ib_interactions (run c ops))"
  shows "interaction_ok c v" "stamped v"
  using inbox_reached [OF assms(1,2)] assms(3) by (auto simp: inbox_inv_def inbox_valid_def interactions.validate_iff well_retained_def)

text \<open>What an authorised response amounts to, down to the signature.\<close>

lemma authorised_signature:
  assumes "authorised c s clock body v r" "interaction_ok c v"
  shows "\<exists>permit raw answer grant trusted sg payload st. read_courier body = Inr (ix_InteractionID v, permit, raw, answer) \<and>
    is_ok (rb_Validate answer (ix_Options v) (ix_AllowText v)) \<and> clock 0 < instant (ix_ExpiresAt v) \<and>
    ib_grants s (ix_GrantID v) = Some grant \<and> ig_Active grant \<and> taskAuthorityKeys (ig_TaskAuthorities grant) = Ok trusted \<and>
    ip_opened permit sg payload st \<and> authentic c trusted (PAE ip_PayloadType payload) sg \<and>
    ips_InteractionID st = ix_InteractionID v \<and> ips_GrantID st = ix_GrantID v \<and> ips_TenantID st = ix_TenantID v \<and>
    ips_RequestDigest st = interactionRequestDigest c v \<and> ips_ResponseDigest st = ResponseDigest c raw \<and> ips_ResponseBytes st = int (length raw) \<and>
    instant (ips_NotBefore st) \<le> clock 1 \<and> clock 1 < instant (ips_ExpiresAt st) \<and>
    r = \<lparr>ir_Body = answer, ir_KeyID = KeyID sg, ir_PermitDigest = Digest c permit, ir_ResponseDigest = ResponseDigest c raw,
      ir_ResolvedAt = format_nano (clock 2)\<rparr>"
proof -
  obtain permit raw answer grant trusted ver where h: "read_courier body = Inr (ix_InteractionID v, permit, raw, answer)"
    "is_ok (rb_Validate answer (ix_Options v) (ix_AllowText v))"
    "clock 0 < (case canonicalTime (ix_ExpiresAt v) of Inl _ \<Rightarrow> zero_time | Inr expires \<Rightarrow> expires)"
    "ib_grants s (ix_GrantID v) = Some grant" "ig_Active grant" "taskAuthorityKeys (ig_TaskAuthorities grant) = Ok trusted"
    "ip_Verify c permit trusted (clock 1) ip_MaxValidity = Ok ver" "interactionPermitMatches c ver v raw"
    and r: "r = \<lparr>ir_Body = answer, ir_KeyID = ipv_KeyID ver, ir_PermitDigest = ipv_EnvelopeDigest ver,
      ir_ResponseDigest = ips_ResponseDigest (ipv_Statement ver), ir_ResolvedAt = format_nano (clock 2)\<rparr>"
    using assms(1) unfolding authorised_def by blast
  obtain sg payload st where o: "ip_opened permit sg payload st" "authentic c trusted (PAE ip_PayloadType payload) sg" "ip_accepts st (clock 1) ip_MaxValidity"
    "ver = \<lparr>ipv_Statement = st, ipv_KeyID = KeyID sg, ipv_EnvelopeDigest = Digest c permit\<rparr>"
    using h(7) unfolding ip_Verify_iff by blast
  have "clock 0 < instant (ix_ExpiresAt v)" using h(3) interaction_ok_expires [OF assms(2)] by simp
  moreover have "ix_RequestDigest v = interactionRequestDigest c v" using assms(2) by (simp add: interaction_ok_def interaction_binding_ok_def)
  ultimately show ?thesis
    using h(1,2,4-6,8) o r interaction_validity.accepts_window [OF o(3)]
    by (intro exI [of _ permit] exI [of _ raw] exI [of _ answer] exI [of _ grant] exI [of _ trusted] exI [of _ sg] exI [of _ payload] exI [of _ st])
      (auto simp: interactionPermitMatches_def Let_def)
qed

lemma answer_delivered:
  assumes "crypto_ok c" "\<forall>op \<in> set ops. sane_op op" "ib_open (run c ops)" "v \<in> set (ib_interactions (run c ops))" "ix_Response v = None"
    "clock 0 < instant (ix_ExpiresAt v)" "ib_grants (run c ops) (ix_GrantID v) = Some grant" "ig_Active grant"
    "taskAuthorityKeys (ig_TaskAuthorities grant) = Ok trusted" "trusted k = Some (ed_public c key)" "ip_identifier k" "length key = 64"
    "DecodeStrictInto raw MaxResponseBytes response_body_type = Ok w" "is_ok (rb_Validate (response_body_of_json w) (ix_Options v) (ix_AllowText v))"
    "ip_accepts (permit_for c v raw nb ex) (clock 1) ip_MaxValidity" "clock 1 \<noteq> zero_time" "sane_clock (clock 2)"
  shows "\<exists>permit op v'. ip_Sign c (permit_for c v raw nb ex) k key = Ok permit \<and>
    op = IResolve clock PersistOk (Some (json_print (courier_json (interactionCourier (ix_InteractionID v) permit raw)))) \<and>
    snd (inbox_exec c op (run c ops)) = InteractionReply 200 v' \<and> v' \<in> set (ib_interactions (run c (ops @ [op]))) \<and> continues v v' \<and>
    ix_Response v' = Some \<lparr>ir_Body = response_body_of_json w, ir_KeyID = k, ir_PermitDigest = Digest c permit, ir_ResponseDigest = ResponseDigest c raw,
      ir_ResolvedAt = format_nano (clock 2)\<rparr> \<and>
    (\<forall>clock' p. resolveInteraction c clock' p (Some (json_print (courier_json (interactionCourier (ix_InteractionID v) permit raw)))) (run c (ops @ [op])) =
      (run c (ops @ [op]), InteractionReply 200 v'))"
proof -
  let ?st = "permit_for c v raw nb ex"
  obtain permit s where p: "ip_Sign c ?st k key = Ok permit" "ip_opened permit s (json_print (ip_statement_json ?st)) ?st" "KeyID s = k"
    "Sig s = b64_encode Std (ed_sign c key (PAE ip_PayloadType (json_print (ip_statement_json ?st))))"
    by (rule ip_signed_opened [OF assms(1,15,11,12)])
  have a: "authentic c trusted (PAE ip_PayloadType (json_print (ip_statement_json ?st))) s"
    using assms(10) p(3,4) by (intro crypto_ok_sign [OF assms(1,12)]) simp_all
  let ?ver = "\<lparr>ipv_Statement = ?st, ipv_KeyID = k, ipv_EnvelopeDigest = Digest c permit\<rparr>"
  have ver: "ip_Verify c permit trusted (clock 1) ip_MaxValidity = Ok ?ver" unfolding ip_Verify_iff using p a assms(15,16) by auto
  have m: "interactionPermitMatches c ?ver v raw" by (rule permit_for_matches) simp
  let ?body = "Some (json_print (courier_json (interactionCourier (ix_InteractionID v) permit raw)))"
  let ?op = "IResolve clock PersistOk ?body"
  have len: "length permit \<le> ip_MaxEnvelopeBytes" using p(2) by (simp add: ip_opened_def)
  have rc: "read_courier ?body = Inr (ix_InteractionID v, permit, raw, response_body_of_json w)"
    by (rule read_courier_print [OF interaction_ok_id [OF assms(1) reached_interaction(1) [OF assms(1,2,4)]] len assms(13)])
  obtain s' v' where s': "resolveInteraction c clock PersistOk ?body (run c ops) = (s', InteractionReply 200 v')" "v' \<in> set (ib_interactions s')" "continues v v'"
    "ix_Response v' = Some \<lparr>ir_Body = response_body_of_json w, ir_KeyID = ipv_KeyID ?ver, ir_PermitDigest = ipv_EnvelopeDigest ?ver,
      ir_ResponseDigest = ips_ResponseDigest (ipv_Statement ?ver), ir_ResolvedAt = format_nano (clock 2)\<rparr>"
    using resolve_delivered(1) [OF assms(1) inbox_reached [OF assms(1,2)] assms(4) rc assms(14) assms(5-9) ver m] by blast
  have e: "inbox_exec c ?op (run c ops) = (s', InteractionReply 200 v')" using assms(3) s'(1) by (simp add: inbox_exec_def)
  then have r: "run c (ops @ [?op]) = s'" by (simp add: run_snoc)
  have "\<forall>o' \<in> set (ops @ [?op]). sane_op o'" using assms(2,17) by simp
  then have i: "inbox_inv c s'" using inbox_reached [OF assms(1), of "ops @ [?op]"] r by simp
  note f = continues_fields [OF s'(3)]
  have "read_courier ?body = Inr (ix_InteractionID v', permit, raw, response_body_of_json w)"
    "is_ok (rb_Validate (response_body_of_json w) (ix_Options v') (ix_AllowText v'))"
    using rc assms(14) f by simp_all
  from resolve_delivered(2) [OF assms(1) i s'(2) this s'(4)]
  have "resolveInteraction c clock' p ?body s' = (s', InteractionReply 200 v')" for clock' p by (simp add: permit_for_def)
  then show ?thesis using p(1) e s'(2-4) r
    by (intro exI [of _ permit] exI [of _ ?op] exI [of _ v']) (simp add: permit_for_def)
qed

text \<open>Where an accepted event is after the step.\<close>

lemma resolve_reply: "snd (resolveInteraction c clock p body s) \<noteq> EventAccepted i"
proof -
  have "read_courier body \<noteq> Inl (EventAccepted i)"
    unfolding read_courier_def Let_def by (auto split: option.splits sum.splits if_splits)
  then show ?thesis unfolding resolveInteraction_def Let_def by (auto split: option.splits sum.splits prod.splits if_splits)
qed

lemma create_reply: "snd (createInteraction c now p request g s) \<noteq> EventAccepted i"
  unfolding createInteraction_def Let_def by (auto split: option.splits sum.splits prod.splits if_splits)

lemma control_replies:
  "snd (ackInstanceEvents p body s) \<noteq> EventAccepted i" "snd (ackInteractionOutbox p body s) \<noteq> EventAccepted i"
  "listInstanceEvents q s \<noteq> EventAccepted i" "listInteractionOutbox q s \<noteq> EventAccepted i"
  "snd (gw_register a m p l p' grant s) \<noteq> EventAccepted i" "snd (gw_setActive p j active s) \<noteq> EventAccepted i" "snd (gw_unregister p j s) \<noteq> EventAccepted i"
  "snd (gw_restart c a s) \<noteq> EventAccepted i"
  "listGrantInteractions clock request g s \<noteq> EventAccepted i" "getGrantInteraction clock request g s \<noteq> EventAccepted i"
  by (auto simp: ackInstanceEvents_def ackInteractionOutbox_def listInstanceEvents_def listInteractionOutbox_def gw_register_def gw_setActive_def
      gw_unregister_def gw_restart_def listGrantInteractions_def getGrantInteraction_def Let_def split: option.splits sum.splits prod.splits if_splits)

lemma event_accepted:
  assumes "snd (inbox_exec c op s) = EventAccepted i"
  shows "i \<in> event_ids (ib_events (fst (inbox_exec c op s)))" "ib_open (fst (inbox_exec c op s))"
proof -
  have open_s: "ib_open s" and h: "snd (inbox_handle c op s) = EventAccepted i" "fst (inbox_exec c op s) = fst (inbox_handle c op s)"
    using assms control_replies(8) by (auto simp: inbox_exec_def split: if_splits) (cases op; auto)
  obtain clock p request g where op: "op = IAgent clock p request g"
    using h(1) control_replies resolve_reply by (cases op) auto
  have e: "snd (instanceEventHandler c (clock 0) p request g s) = EventAccepted i" "fst (inbox_exec c op s) = fst (instanceEventHandler c (clock 0) p request g s)"
    using h control_replies(9,10) create_reply unfolding op
    by (auto simp: interactionAndEventHandler_def interactionGrantHandler_def split: if_splits)
  from instanceEventHandler_cases [OF prod.collapse [symmetric], of c "clock 0" p request g s]
  show "i \<in> event_ids (ib_events (fst (inbox_exec c op s)))" "ib_open (fst (inbox_exec c op s))"
    using open_s unfolding e event_ids_def by (auto simp: new_event_def)
qed

text \<open>A start is accepted in every reached state, and a request does not close an open server.\<close>

definition few_grants :: "Inbox \<Rightarrow> bool" where
  "few_grants s \<longleftrightarrow> (case ib_file s of None \<Rightarrow> True | Some f \<Rightarrow> card (dom (gs_Grants f)) \<le> maxRetainedGrants)"

lemma restart_accepted:
  assumes "crypto_ok c" "\<forall>op \<in> set ops. sane_op op" "few_grants (run c ops)"
  shows "snd (gw_restart c True (run c ops)) = Done" "ib_open (fst (gw_restart c True (run c ops)))"
  using inbox_reached [OF assms(1,2)] assms(3)
  by (auto simp: gw_restart_def Let_def inbox_inv_def few_grants_def valid_accepted split: option.splits)

text \<open>The grants in memory and in the file were all registered.\<close>

definition registered :: "inbox_op list \<Rightarrow> bytes set" where
  "registered ops = (\<Union>op \<in> set ops. case op of IRegister _ _ _ _ _ grant \<Rightarrow> {ig_GrantID grant} | _ \<Rightarrow> {})"

definition grants_within :: "bytes set \<Rightarrow> Inbox \<Rightarrow> bool" where
  "grants_within ids s \<longleftrightarrow> (\<forall>i. ib_grants s i \<noteq> None \<longrightarrow> i \<in> ids) \<and> (\<forall>f i. ib_file s = Some f \<longrightarrow> gs_Grants f i \<noteq> None \<longrightarrow> i \<in> ids)"

lemma attempt_grants: "attempt c op s m \<Longrightarrow> ib_grants m i \<noteq> None \<Longrightarrow> ib_grants s i \<noteq> None \<or> i \<in> registered [op]"
  by (induction rule: attempt.induct) (auto simp: registered_def split: if_splits)

lemma grants_within_mono: "grants_within A s \<Longrightarrow> A \<subseteq> B \<Longrightarrow> grants_within B s"
  unfolding grants_within_def by blast

lemma restart_grants: "grants_within A s \<Longrightarrow> gw_restart c admitted s = (s', x) \<Longrightarrow> grants_within A s'"
  by (auto simp: gw_restart_def Let_def grants_within_def split: option.splits if_splits)

lemma settles_grants:
  assumes "settles s m s'" "grants_within A s" "\<And>i. ib_grants m i \<noteq> None \<Longrightarrow> i \<in> A"
  shows "grants_within A s'"
  using assms by (auto simp: settles_def grants_within_def)

lemma run_grants: "grants_within (registered ops) (run c ops)"
proof (induction ops rule: rev_induct)
  case (snoc op ops)
  let ?s = "run c ops" and ?s' = "fst (inbox_exec c op (run c ops))"
  have r: "registered (ops @ [op]) = registered ops \<union> registered [op]" by (auto simp: registered_def)
  have old: "grants_within (registered (ops @ [op])) ?s" using grants_within_mono [OF snoc] by (simp add: r)
  show ?case
    unfolding run_snoc
  proof (rule run_step [of c op ?s])
    assume "?s' = ?s"
    then show "grants_within (registered (ops @ [op])) ?s'" using old by simp
  next
    fix admitted x
    assume "gw_restart c admitted ?s = (?s', x)"
    then show "grants_within (registered (ops @ [op])) ?s'" by (rule restart_grants [OF old])
  next
    fix m
    assume h: "attempt c op ?s m" "settles ?s m ?s'"
    have m: "i \<in> registered (ops @ [op])" if "ib_grants m i \<noteq> None" for i
      using attempt_grants [OF h(1) that] snoc unfolding grants_within_def r by blast
    show "grants_within (registered (ops @ [op])) ?s'" by (rule settles_grants [OF h(2) old m])
  qed
qed (simp add: grants_within_def inbox_start_def)

lemma registered_few: "card (registered ops) \<le> maxRetainedGrants \<Longrightarrow> few_grants (run c ops)"
proof -
  assume le: "card (registered ops) \<le> maxRetainedGrants"
  have fin: "finite (registered ops)" by (auto simp: registered_def split: inbox_op.splits)
  have "card (dom (gs_Grants f)) \<le> maxRetainedGrants" if "ib_file (run c ops) = Some f" for f
  proof -
    have "dom (gs_Grants f) \<subseteq> registered ops" using run_grants [of ops c] that by (auto simp: grants_within_def)
    from card_mono [OF fin this] le show ?thesis by linarith
  qed
  then show "few_grants (run c ops)" by (auto simp: few_grants_def split: option.splits)
qed

lemma restart_opens: "crypto_ok c \<Longrightarrow> \<forall>op \<in> set ops. sane_op op \<Longrightarrow> few_grants (run c ops) \<Longrightarrow> ib_open (run c (ops @ [IRestart True]))"
  unfolding run_snoc using restart_accepted(2) by (simp add: inbox_exec_def)

lemma request_keeps_open:
  assumes "ib_open (run c ops)" "\<not> restarts op"
  shows "ib_open (run c (ops @ [op]))"
proof -
  consider "run c (ops @ [op]) = run c ops" | m where "attempt c op (run c ops) m" "settles (run c ops) m (run c (ops @ [op]))"
    unfolding run_snoc using exec_cases [OF prod.collapse [symmetric] assms(2), of c "run c ops"] by blast
  then show ?thesis
  proof cases
    case 2
    then show ?thesis using attempt_open [OF 2(1)] settles_fields [OF 2(2)] assms(1) by auto
  qed (use assms(1) in simp)
qed

text \<open>The answer to the first question of the demonstration.\<close>

lemma demo_open: "n \<le> 16 \<Longrightarrow> ib_open (run demo_crypto (ib_asks n))" "n \<le> 16 \<Longrightarrow> ib_interactions (run demo_crypto (ib_asks n)) = map asked [0..<n]"
  by (simp_all add: ib_asks_state ib_ready_def)

lemma demo_question:
  "ib_open (run demo_crypto (ib_asks 1))" "asked 0 \<in> set (ib_interactions (run demo_crypto (ib_asks 1)))" "ix_Response (asked 0) = None"
  "ib_now 0 < instant (ix_ExpiresAt (asked 0))"
  "ib_grants (run demo_crypto (ib_asks 1)) (ix_GrantID (asked 0)) = Some (ib_grant\<lparr>ig_Active := True\<rparr>)" "ig_Active (ib_grant\<lparr>ig_Active := True\<rparr>)"
  "taskAuthorityKeys (ig_TaskAuthorities (ib_grant\<lparr>ig_Active := True\<rparr>)) = Ok [''key'' \<mapsto> ed_public demo_crypto demo_key]" "ip_identifier ''key''"
proof -
  have "ix_ExpiresAt (asked 0) = time_format (10 * minute)" by (simp add: asked_def new_interaction_def Let_def ask_input_def)
  then show "ib_now 0 < instant (ix_ExpiresAt (asked 0))" using ask_expires by (simp add: instant_def ib_now_def minute_def nsec_def)
  show "ib_grants (run demo_crypto (ib_asks 1)) (ix_GrantID (asked 0)) = Some (ib_grant\<lparr>ig_Active := True\<rparr>)"
    by (simp add: ib_asks_state ib_ready_def asked_def new_interaction_fields) (simp add: ib_grant_def)
qed (use demo_open [of 1] ib_grant_keys in
  \<open>simp_all add: asked_def new_interaction_fields ip_identifier_def identifier_pattern_def alnum_def is_lower_def\<close>)

lemma demo_times: "ib_now 1 \<noteq> zero_time" "sane_clock (ib_now 2)"
  by (simp_all add: ib_now_def zero_time_def sane_clock_def minute_def nsec_def)

lemma demo_answer:
  obtains op v r where "\<forall>o' \<in> set (ib_asks 1 @ [op]). sane_op o'"
    "v \<in> set (ib_interactions (run demo_crypto (ib_asks 1 @ [op])))" "ix_Response v = Some r" "ir_Body r = response_body_of_json yes_json" "ir_KeyID r = ''key''"
    "ix_GrantID v = ib_grant_id"
proof -
  have k: "[''key'' \<mapsto> ed_public demo_crypto demo_key] ''key'' = Some (ed_public demo_crypto demo_key)" by simp
  have a: "ip_accepts (permit_for demo_crypto (asked 0) yes_raw (time_format 0) (time_format (10 * minute))) (ib_now 1) ip_MaxValidity"
    using yes_permit by (simp add: ib_now_def)
  obtain permit op v' where h: "op = IResolve ib_now PersistOk (Some (json_print (courier_json (interactionCourier (ix_InteractionID (asked 0)) permit yes_raw))))"
    "v' \<in> set (ib_interactions (run demo_crypto (ib_asks 1 @ [op])))" "continues (asked 0) v'"
    "ix_Response v' = Some \<lparr>ir_Body = response_body_of_json yes_json, ir_KeyID = ''key'', ir_PermitDigest = Digest demo_crypto permit,
      ir_ResponseDigest = ResponseDigest demo_crypto yes_raw, ir_ResolvedAt = format_nano (ib_now 2)\<rparr>"
    using answer_delivered [OF demo_crypto_ok ib_asks_sane demo_question(1-7) k demo_question(8) demo_key_length yes_decoded yes_offered a demo_times] by blast
  have "ix_GrantID v' = ib_grant_id" using continues_fields(2) [OF h(3)] by (simp add: asked_def new_interaction_fields) (simp add: ib_grant_def)
  moreover have "\<forall>o' \<in> set (ib_asks 1 @ [op]). sane_op o'" using ib_asks_sane [of 1] h(1) demo_times(2) by simp
  ultimately show ?thesis using that [OF _ h(2,4)] by simp
qed

lemma demo_few: "few_grants (run demo_crypto (ib_asks n))"
proof (rule registered_few)
  have "registered (ib_asks n) = {ig_GrantID ib_grant}" by (auto simp: registered_def ib_asks_def ib_setup_def)
  then show "card (registered (ib_asks n)) \<le> maxRetainedGrants" by (simp add: maxRetainedGrants_def)
qed

section \<open>The promises\<close>

text \<open>C18: Whatever the inbox went through (failed or half-finished writes, crashes, refused starts, any order of requests), what it holds in memory passes the
  checks of a start on events and interactions. If the state file that it left behind holds at most 4096 grants, can be read and decoded, and the parts of the grants
  and of the configuration that are not modelled pass their checks, then the next start accepts it, and every interaction of the memory is there again
  after the restart, with its response if it had one.\<close>

theorem inbox_restarts:
  assumes "crypto_ok c" "\<forall>op \<in> set ops. sane_op op"
  shows "is_ok (validateRetainedEvents c (ib_events (run c ops))) \<and> is_ok (validateRetainedInteractions c (ib_interactions (run c ops))) \<and>
    ((\<forall>f. ib_file (run c ops) = Some f \<longrightarrow> card (dom (gs_Grants f)) \<le> maxRetainedGrants) \<longrightarrow>
    snd (gw_restart c True (run c ops)) = Done \<and> ib_open (fst (gw_restart c True (run c ops))) \<and>
    (ib_open (run c ops) \<longrightarrow> carries (ib_interactions (run c ops)) (ib_interactions (fst (gw_restart c True (run c ops))))))"
proof (intro conjI impI)
  have i: "inbox_inv c (run c ops)" by (rule inbox_reached [OF assms])
  then show "is_ok (validateRetainedEvents c (ib_events (run c ops)))" "is_ok (validateRetainedInteractions c (ib_interactions (run c ops)))"
    by (simp_all add: inbox_inv_def inbox_valid_def)
  assume "\<forall>f. ib_file (run c ops) = Some f \<longrightarrow> card (dom (gs_Grants f)) \<le> maxRetainedGrants"
  then have "few_grants (run c ops)" by (auto simp: few_grants_def split: option.splits)
  note r = restart_accepted [OF assms this]
  then show "snd (gw_restart c True (run c ops)) = Done" "ib_open (fst (gw_restart c True (run c ops)))" by simp_all
  have "ib_interactions (fst (gw_restart c True (run c ops))) = file_interactions (run c ops)"
    using restart_state(2) [OF prod.collapse [symmetric] r(2)] by simp
  then show "carries (ib_interactions (run c ops)) (ib_interactions (fst (gw_restart c True (run c ops))))" if "ib_open (run c ops)"
    using run_durable that by simp
qed

theorem inbox_restarts_witness:
  "ib_open (fst (gw_restart demo_crypto True (run demo_crypto (ib_asks 3)))) \<and>
    carries (map asked [0..<3]) (ib_interactions (fst (gw_restart demo_crypto True (run demo_crypto (ib_asks 3)))))"
  using inbox_restarts [OF demo_crypto_ok ib_asks_sane, of 3] by (simp add: ib_asks_state ib_ready_def maxRetainedGrants_def)

text \<open>Registering a grant has no bound of its own: in a state with 4096 grants one more is accepted and written to the state file, and then the Gateway refuses
  to start on that file.\<close>

theorem register_overflows:
  assumes "card (dom (ib_grants s)) = maxRetainedGrants" "ib_grants s (ig_GrantID grant) = None" "\<not> ig_Active grant" "validGrant_inbox grant"
  shows "snd (gw_register True True PersistOk True p grant s) = Done \<and>
    snd (gw_restart c admitted (fst (gw_register True True PersistOk True p grant s))) = GwFailure 0 ''state_refused''"
proof -
  have fin: "finite (dom (ib_grants s))" using assms(1) by (intro card_ge_0_finite) (simp add: maxRetainedGrants_def)
  let ?g = "(ib_grants s)(ig_GrantID grant \<mapsto> grant)"
  have "card (dom ?g) = Suc maxRetainedGrants" using fin assms(1,2) by (simp add: domIff)
  then have "\<not> state_accepted c f" if "gs_Grants f = ?g" for f using that by (auto simp: state_accepted_def)
  then show ?thesis
    using assms(2-4) by (simp add: gw_register_def gw_restart_def persist_simps Let_def snap_def)
qed

text \<open>C16: A response that an agent can see was put there by a delivery whose permit carries a signature of a key that the question's grant trusted at that moment,
  while the grant was active and the question not expired; the signed statement names the interaction, its grant and tenant, the digest of
  the question that is retained and the digest and size of the response bytes, and what is shown is the reading of exactly those bytes, one of the
  offered choices or a permitted text.\<close>

theorem interaction_authorised:
  assumes "crypto_ok c" "\<forall>op \<in> set ops. sane_op op" "v \<in> set (ib_interactions (run c ops))" "ix_Response v = Some r"
  shows "\<exists>pre clock p body post permit raw answer grant trusted sg payload st. ops = pre @ IResolve clock p body # post \<and>
    read_courier body = Inr (ix_InteractionID v, permit, raw, answer) \<and>
    is_ok (rb_Validate answer (ix_Options v) (ix_AllowText v)) \<and> clock 0 < instant (ix_ExpiresAt v) \<and>
    ib_grants (run c pre) (ix_GrantID v) = Some grant \<and> ig_Active grant \<and> taskAuthorityKeys (ig_TaskAuthorities grant) = Ok trusted \<and>
    ip_opened permit sg payload st \<and> authentic c trusted (PAE ip_PayloadType payload) sg \<and>
    ips_InteractionID st = ix_InteractionID v \<and> ips_GrantID st = ix_GrantID v \<and> ips_TenantID st = ix_TenantID v \<and>
    ips_RequestDigest st = interactionRequestDigest c v \<and> ips_ResponseDigest st = ResponseDigest c raw \<and> ips_ResponseBytes st = int (length raw) \<and>
    instant (ips_NotBefore st) \<le> clock 1 \<and> clock 1 < instant (ips_ExpiresAt st) \<and>
    r = \<lparr>ir_Body = answer, ir_KeyID = KeyID sg, ir_PermitDigest = Digest c permit, ir_ResponseDigest = ResponseDigest c raw,
      ir_ResolvedAt = format_nano (clock 2)\<rparr>"
proof -
  obtain pre clock p body post where ops: "ops = pre @ IResolve clock p body # post" and a: "authorised c (run c pre) clock body v r"
    using run_answered [of c ops] assms(3,4) unfolding answered_def by blast
  from authorised_signature [OF a reached_interaction(1) [OF assms(1-3)]] ops show ?thesis by blast
qed

theorem interaction_authorised_witness:
  "\<exists>ops v r trusted sg payload. v \<in> set (ib_interactions (run demo_crypto ops)) \<and> ix_Response v = Some r \<and>
    ir_Body r = response_body_of_json yes_json \<and> KeyID sg = ''key'' \<and> authentic demo_crypto trusted (PAE ip_PayloadType payload) sg"
proof -
  obtain op v r where h: "\<forall>o' \<in> set (ib_asks 1 @ [op]). sane_op o'" "v \<in> set (ib_interactions (run demo_crypto (ib_asks 1 @ [op])))"
    "ix_Response v = Some r" "ir_Body r = response_body_of_json yes_json" "ir_KeyID r = ''key''"
    by (rule demo_answer)
  obtain trusted sg payload where "authentic demo_crypto trusted (PAE ip_PayloadType payload) sg" "ir_KeyID r = KeyID sg"
    using interaction_authorised [OF demo_crypto_ok h(1-3)] by (elim exE conjE) simp
  with h(2-5) show ?thesis by (intro exI conjI) simp_all
qed

text \<open>C17: What an agent was shown stays: an interaction that an open inbox holds is still held, word for word, whenever the inbox is open later, whatever happened
  in between; once it has a response it keeps that response, and once Control has taken it that stays recorded.\<close>

theorem interaction_settled:
  assumes "ib_open (run c ops)" "ib_open (run c (ops @ later))" "v \<in> set (ib_interactions (run c ops))"
  shows "\<exists>v' \<in> set (ib_interactions (run c (ops @ later))). continues v v'"
  using run_carries [of c ops later] assms by (simp add: shown_def carries_def)

theorem interaction_settled_witness:
  "\<exists>v' \<in> set (ib_interactions (run demo_crypto (ib_asks 2 @ [IRestart True]))). continues (asked 1) v'"
  by (rule interaction_settled) (simp_all add: demo_open restart_opens demo_crypto_ok ib_asks_sane demo_few)

text \<open>C19: A signed answer arrives: if an authority of the active grant signs a permit for the retained question and for response bytes that read as one of the
  offered choices (or a permitted text), and the courier is delivered before the question expires and while the permit is valid and the state file can be written, the inbox answers 200
  and shows the response; delivering the same courier again, at any time and in any state of the disk, changes nothing and gets the same answer.\<close>

theorem interaction_answered:
  assumes "crypto_ok c" "\<forall>op \<in> set ops. sane_op op" "ib_open (run c ops)" "v \<in> set (ib_interactions (run c ops))" "ix_Response v = None"
    "clock 0 < instant (ix_ExpiresAt v)" "ib_grants (run c ops) (ix_GrantID v) = Some grant" "ig_Active grant"
    "taskAuthorityKeys (ig_TaskAuthorities grant) = Ok trusted" "trusted k = Some (ed_public c key)" "ip_identifier k" "length key = 64"
    "DecodeStrictInto raw MaxResponseBytes response_body_type = Ok w" "is_ok (rb_Validate (response_body_of_json w) (ix_Options v) (ix_AllowText v))"
    "ip_accepts (permit_for c v raw nb ex) (clock 1) ip_MaxValidity" "clock 1 \<noteq> zero_time" "sane_clock (clock 2)"
  shows "\<exists>permit op v'. ip_Sign c (permit_for c v raw nb ex) k key = Ok permit \<and>
    op = IResolve clock PersistOk (Some (json_print (courier_json (interactionCourier (ix_InteractionID v) permit raw)))) \<and>
    snd (inbox_exec c op (run c ops)) = InteractionReply 200 v' \<and> v' \<in> set (ib_interactions (run c (ops @ [op]))) \<and> continues v v' \<and>
    ix_Response v' = Some \<lparr>ir_Body = response_body_of_json w, ir_KeyID = k, ir_PermitDigest = Digest c permit, ir_ResponseDigest = ResponseDigest c raw,
      ir_ResolvedAt = format_nano (clock 2)\<rparr> \<and>
    (\<forall>clock' p. resolveInteraction c clock' p (Some (json_print (courier_json (interactionCourier (ix_InteractionID v) permit raw)))) (run c (ops @ [op])) =
      (run c (ops @ [op]), InteractionReply 200 v'))"
  by (rule answer_delivered [OF assms])

theorem interaction_answered_witness:
  "\<exists>permit op v'. snd (inbox_exec demo_crypto op (run demo_crypto (ib_asks 1))) = InteractionReply 200 v' \<and> continues (asked 0) v' \<and>
    ix_Response v' = Some \<lparr>ir_Body = response_body_of_json yes_json, ir_KeyID = ''key'', ir_PermitDigest = Digest demo_crypto permit,
      ir_ResponseDigest = ResponseDigest demo_crypto yes_raw, ir_ResolvedAt = format_nano minute\<rparr>"
proof -
  have k: "[''key'' \<mapsto> ed_public demo_crypto demo_key] ''key'' = Some (ed_public demo_crypto demo_key)" by simp
  have a: "ip_accepts (permit_for demo_crypto (asked 0) yes_raw (time_format 0) (time_format (10 * minute))) (ib_now 1) ip_MaxValidity"
    using yes_permit by (simp add: ib_now_def)
  have m: "ib_now 2 = minute" by (simp add: ib_now_def)
  show ?thesis
    using interaction_answered [OF demo_crypto_ok ib_asks_sane demo_question(1-7) k demo_question(8) demo_key_length yes_decoded yes_offered a demo_times]
    unfolding m by blast
qed

text \<open>C21: What the Gateway accepted passes Control's checks: the outbox and the events of a node are one batch each that the node posts, in order and without a
  change, provided that all of them belong to that node, that the tenants and the node are record identifiers of the control protocol, and that the instances are names
  that it admits. The Gateway does not check the latter when it registers a grant: see \<open>refused_name_blocks\<close>.\<close>

theorem inbox_published:
  assumes "crypto_ok c" "\<forall>op \<in> set ops. sane_op op" "recordID node 128"
    "\<forall>v \<in> set (ib_interactions (run c ops)). recordID (ix_TenantID v) 128 \<and> ix_NodeID v = node \<and> cp_text (ix_InstanceID v) 256"
    "\<forall>e \<in> set (ib_events (run c ops)). recordID (iv_TenantID e) 128 \<and> iv_NodeID e = node \<and> cp_text (iv_InstanceID e) 256"
  shows "(\<forall>vs. listInteractionOutbox [] (run c ops) = InteractionBatch vs \<longrightarrow> vs \<noteq> [] \<longrightarrow>
      (\<exists>batch. publishInteractions c node vs = Some (batch, map ix_InteractionID vs) \<and> qb_Interactions batch = map controllerInteraction vs)) \<and>
    (\<forall>es. listInstanceEvents [] (run c ops) = EventBatch es \<longrightarrow> es \<noteq> [] \<longrightarrow>
      (\<exists>batch. publishEvents c node es = Some (batch, map iv_EventID es) \<and> eb_Events batch = es))"
proof -
  have i: "inbox_valid c (snap (run c ops))" using inbox_reached [OF assms(1,2)] by (simp add: inbox_inv_def)
  have "\<exists>batch. publishInteractions c node vs = Some (batch, map ix_InteractionID vs) \<and> qb_Interactions batch = map controllerInteraction vs"
    if "vs = filter P (ib_interactions (run c ops))" "vs \<noteq> []" for vs P
    using i assms(3,4) that by (intro publish_outbox) (auto simp: inbox_valid_def intro: interactions.validate_filter)
  moreover have "\<exists>batch. publishEvents c node es = Some (batch, map iv_EventID es) \<and> eb_Events batch = es"
    if "es = ib_events (run c ops)" "es \<noteq> []" for es
    using i assms(3,5) that by (intro publish_events) (auto simp: inbox_valid_def)
  ultimately show ?thesis by (simp add: listInteractionOutbox_def listInstanceEvents_def)
qed

theorem inbox_published_witness:
  "\<exists>batch. publishInteractions demo_crypto ''node'' [asked 0, asked 1] = Some (batch, map ix_InteractionID [asked 0, asked 1]) \<and>
    qb_Interactions batch = map controllerInteraction [asked 0, asked 1]"
proof -
  have r: "run demo_crypto (ib_asks 2) = ib_ready [asked 0, asked 1]" using ib_asks_state [of 2] by (simp add: numeral_2_eq_2)
  have "ix_ControllerAccepted (asked j) = False" for j by (simp add: asked_def new_interaction_def Let_def)
  then have "listInteractionOutbox [] (run demo_crypto (ib_asks 2)) = InteractionBatch [asked 0, asked 1]"
    by (simp add: r listInteractionOutbox_def ib_ready_def)
  then show ?thesis
    using inbox_published [OF demo_crypto_ok ib_asks_sane, of "''node''" 2] asked_names by (simp add: r ib_ready_def)
qed

text \<open>The Gateway registers grants of tenants that Control does not admit, and one retained question of such a tenant keeps the whole outbox of the node from being
  posted, whoever asked the other questions.\<close>

theorem refused_name_blocks:
  "gw_bounded ''a b'' 128 \<and> \<not> recordID ''a b'' 128 \<and>
   (\<forall>c node vs. (\<exists>v \<in> set vs. \<not> recordID (ix_TenantID v) 128) \<longrightarrow> publishInteractions c node vs = None)"
proof -
  have "\<not> is_ok (rv_Validate c (controllerInteraction v))" if "\<not> recordID (ix_TenantID v) 128" for c v
    using that by (simp add: rv_Validate_def Let_def controllerInteraction_def)
  then have "\<not> is_ok (request_batch c node seen (map controllerInteraction vs))" if "\<exists>v \<in> set vs. \<not> recordID (ix_TenantID v) 128" for c node seen vs
    using that by (induction vs arbitrary: seen) auto
  then have "publishInteractions c node vs = None" if "\<exists>v \<in> set vs. \<not> recordID (ix_TenantID v) 128" for c node vs
    using that by (simp add: publishInteractions_def qb_Validate_def Let_def)
  moreover have "gw_bounded ''a b'' 128" "\<not> recordID ''a b'' 128" by code_simp+
  ultimately show ?thesis by blast
qed

text \<open>C20: An event that an agent was told is accepted is not lost: whenever the inbox is open later, it holds the event, or Control has acknowledged an event with that
  identity.\<close>

theorem event_delivered:
  assumes "snd (inbox_exec c op (run c pre)) = EventAccepted i" "ib_open (run c (pre @ op # post))"
  shows "i \<in> iv_EventID ` set (ib_events (run c (pre @ op # post))) \<or> acknowledged (pre @ op # post) i"
proof -
  have "i \<in> event_ids (shown_events (run c (pre @ [op])))" using event_accepted [OF assms(1)] unfolding run_snoc by (simp add: shown_events_def)
  then have "i \<in> event_ids (shown_events (run c (pre @ op # post)))" if "\<not> acknowledged (pre @ op # post) i"
    using run_events [of "pre @ [op]" post i c] that by simp
  then show ?thesis using assms(2) by (auto simp: shown_events_def event_ids_def)
qed

theorem event_delivered_witness:
  "instanceEventID demo_crypto ib_grant_id ''k'' \<in> iv_EventID ` set (ib_events (run demo_crypto (ib_setup @ ping # [IRestart True])))"
proof -
  have "\<forall>op \<in> set (ib_setup @ [ping]). sane_op op" by (simp add: ib_setup_def ping_def ib_now_def sane_clock_def minute_def nsec_def)
  then have "ib_open (run demo_crypto (ib_setup @ ping # [IRestart True]))"
    using restart_opens [OF demo_crypto_ok _ registered_few, of "ib_setup @ [ping]"]
    by (fastforce simp: registered_def ib_setup_def ping_def maxRetainedGrants_def)
  from event_delivered [OF ping_accepted this]
  show ?thesis by (simp add: acknowledged_def ib_setup_def ping_def)
qed

text \<open>C27: The quota of a grant is spent for good: once an open inbox holds as many interactions of a grant as the quota allows, then whenever it is open later every
  question under a new key is refused, also after all earlier ones were resolved, expired or the grant was removed and registered again; the state does not
  change and an accepting reply only repeats a retained interaction.\<close>

theorem interactions_never_freed:
  assumes "crypto_ok c" "\<forall>op \<in> set ops. sane_op op" "ib_open (run c ops)" "ib_open (run c (ops @ later))"
    "share ix_GrantID g (ib_interactions (run c ops)) \<ge> maxInteractionsGrant"
  shows "fst (createInteraction c now p request g (run c (ops @ later))) = run c (ops @ later) \<and>
    (\<forall>v. snd (createInteraction c now p request g (run c (ops @ later))) = InteractionReply 202 v \<longrightarrow> v \<in> set (ib_interactions (run c (ops @ later))))"
proof -
  have "distinct (map ix_InteractionID (ib_interactions (run c ops)))"
    using inbox_reached [OF assms(1,2)] by (simp add: inbox_inv_def inbox_valid_def interactions.validate_iff well_retained_def)
  moreover have "carries (ib_interactions (run c ops)) (ib_interactions (run c (ops @ later)))"
    using run_carries [of c ops later] assms(3,4) by (simp add: shown_def)
  ultimately have "share ix_GrantID g (ib_interactions (run c ops)) \<le> share ix_GrantID g (ib_interactions (run c (ops @ later)))"
    by (intro carries_share continues_fields)
  then show ?thesis
    using createInteraction_cases [OF prod.collapse [symmetric], of c now p request g "run c (ops @ later)"] assms(5) by auto
qed

theorem interactions_never_freed_witness:
  "\<forall>request. fst (createInteraction demo_crypto minute PersistOk request ib_grant_id
      (run demo_crypto (ib_asks 16 @ [IRestart True, ISetActive PersistOk ib_grant_id True]))) =
    run demo_crypto (ib_asks 16 @ [IRestart True, ISetActive PersistOk ib_grant_id True])"
proof
  fix request
  have "ib_open (run demo_crypto (ib_asks 16 @ [IRestart True]))" by (rule restart_opens [OF demo_crypto_ok ib_asks_sane demo_few])
  then have "ib_open (run demo_crypto ((ib_asks 16 @ [IRestart True]) @ [ISetActive PersistOk ib_grant_id True]))" by (rule request_keeps_open) simp
  then have o: "ib_open (run demo_crypto (ib_asks 16 @ [IRestart True, ISetActive PersistOk ib_grant_id True]))" by simp
  have "share ix_GrantID ib_grant_id (ib_interactions (run demo_crypto (ib_asks 16))) \<ge> maxInteractionsGrant"
    using asked_share(3) [of 16] demo_open(2) [of 16] by (simp add: maxInteractionsGrant_def)
  from interactions_never_freed [OF demo_crypto_ok ib_asks_sane demo_open(1) o this]
  show "fst (createInteraction demo_crypto minute PersistOk request ib_grant_id (run demo_crypto (ib_asks 16 @ [IRestart True, ISetActive PersistOk ib_grant_id True]))) =
    run demo_crypto (ib_asks 16 @ [IRestart True, ISetActive PersistOk ib_grant_id True])" by simp
qed

end
