(* ===== verification/Spec2Isabelle.thy ===== *)
theory Spec2Isabelle
  imports Task_Permit Schedule_Permit Action_Permit Influence Portable_Task Command_Queue Dispatch_Promises Supervision_Promises Journal_Promises
    Egress_Denials Address_Policy Inbox_Promises
begin

text \<open>
  Steward runs software agents on nodes it does not fully trust. This development models the parts of it that decide what
  an agent may do and that keep the record of what it did, the proxy through which an agent reaches the network, the inbox through which it asks
  people and gets their signed answers, and the supervisor that runs instances on a node: its command queue, its dispatcher, its tracker of instances and its processes.

  \<^bold>\<open>The parts and how they interact.\<close> A statement (a task, a schedule or an action) is serialized as JSON, signed as a DSSE
  envelope, and handed to the Gateway of a node as a permit. The Gateway verifies it (\<open>taskpermit\<close>, \<open>schedulepermit\<close>,
  \<open>actionpermit\<close> over \<open>dsse\<close>), and before it performs the effect it authorizes the call in its receipt ledger
  (\<open>connectorledger\<close>), an append-only file of signed, hash-chained receipts which spends each task once, charges each tenant and
  reserves the space for the receipts that must follow. The influence context (\<open>influence\<close>) is a second hash chain over the receipts
  that may have influenced an agent. The receipts of one finished task can be cut out of a ledger and verified elsewhere
  (\<open>portable_task.go\<close>, \<open>activation/gateway_evidence.go\<close>). All other traffic of an agent goes through the egress proxy of the Gateway
  (\<open>gateway/egress.go\<close>), which admits a destination by the routes of the agent's grant, by the resolved address (\<open>address_policy.go\<close>) and, for a
  tunnel, by the server name of the first TLS message (\<open>tlshello.go\<close>). An agent reports events and asks questions to the inbox of the Gateway
  (\<open>gateway/events.go\<close>, \<open>gateway/interactions.go\<close>), which keeps them in the state file of the Gateway; the node publishes them to Control, and an
  answer comes back with a permit (\<open>interactionpermit\<close>) that an authority of the agent's grant signed for exactly this question. Independently, a node polls for lifecycle commands
  and puts them on a bounded queue (\<open>uplink/queue.go\<close>); the dispatcher (\<open>uplink/dispatch.go\<close>) checks each command against the generation of
  its instance and calls the tracker (\<open>runtime\<close>), which persists every change to a state file and, for an instance with a command, starts,
  suspends and ends an operating system process.

  \<^bold>\<open>Theories.\<close>
  \<^item> \<open>Prelude\<close>: bytes, the result type \<open>err + 'a\<close> of fallible functions, and shared lemmas. \<open>Go_Text\<close>, \<open>Go_Time\<close>, \<open>Base64\<close>, \<open>Go_Json\<close>:
    what the code uses of the Go standard library, at the level of bytes: decimal and hexadecimal text, RFC 3339 times, strict
    and padded base64, and \<open>encoding/json\<close> (a printer and a parser with their round trips). \<open>Strict_Json\<close>: the strict decoder
    of \<open>dsse.go\<close> with its two passes, the validation of the tokens and the decoding into the destination type, whose integers
    have a range.
  \<^item> \<open>Dsse\<close>: \<open>internal/dsse/dsse.go\<close>. Ed25519 and SHA-256 are the record \<open>crypto\<close>, a parameter; theorems that need
    it assume that a signature made with a key verifies under its public key and has 64 bytes (\<open>crypto_ok\<close>), or that two
    given inputs do not collide.
  \<^item> \<open>Permit_Common\<close>, \<open>Task_Permit\<close>, \<open>Schedule_Permit\<close>, \<open>Action_Permit\<close>, \<open>Influence\<close>: the packages of these names. Durations and
    generations keep their 64-bit width (\<open>seconds\<close> wraps).
  \<^item> \<open>Ledger_Events\<close> (events, receipts, validation, run control), \<open>Ledger_Wire\<close> (their JSON layout and its round trip), \<open>Ledger\<close> (the append
    handle; the record \<open>Log\<close> holds the fields of the Go struct and the bytes of the file), \<open>Ledger_Replay\<close> (reading the file back):
    \<open>internal/connectorledger/ledger.go\<close> and \<open>run_control.go\<close>. System calls that fail are the argument \<open>io\<close> of an append; a failed write
    leaves any prefix of its line. The clock is the argument \<open>now\<close>.
  \<^item> \<open>Machines\<close>: runs of operations and the contracts \<open>machine\<close>, \<open>claiming_machine\<close> and \<open>monotone_machine\<close> as locales, which the ledger and the
    queue interpret on their own definitions. \<open>Ledger_Seal\<close>: what one successful append writes. \<open>Ledger_Invariant\<close>: the invariant of
    the handle. \<open>Ledger_Promises\<close>: the promises over all runs of operations. \<open>Ledger_Recovery\<close>, \<open>Ledger_Reopen\<close>: handle and file mirror each
    other. \<open>Ledger_Audit\<close>: what reading a file establishes. \<open>Ledger_Demo\<close>: the concrete ledger of the witnesses.
  \<^item> \<open>Portable_Task\<close>: portable evidence of one task.
  \<^item> \<open>Command_Queue\<close>: \<open>internal/uplink/queue.go\<close> and the \<open>consume\<close> loop of \<open>poller.go\<close>; the critical sections of the two goroutines
    are actions, and a run is any sequence of them.
  \<^item> \<open>Guarded_Machines\<close>: runs whose operations are allowed only in some states, as a locale that every \<open>machine\<close> is a case of.
  \<^item> \<open>Tracker\<close>: \<open>internal/runtime/runtime.go\<close> and \<open>persist.go\<close>. The two Go maps are finite maps, the state file is a document, members by
    the struct tags with \<open>omitempty\<close> (\<open>encode_instance\<close>, \<open>decode_instance\<close>), the JSON text of which is not modelled; whether \<open>saveSnapshot\<close> succeeds is an argument. \<open>Tracker_Promises\<close>: its promises when no processes are supervised.
  \<^item> \<open>Dispatch\<close>: \<open>internal/uplink/dispatch.go\<close> and \<open>executeBatch\<close> of \<open>poller.go\<close>, over the record \<open>tracker_api\<close> of the tracker's interface.
    \<open>Dispatch_Promises\<close>: its contract, and redelivery over the laws of the locale \<open>redelivery\<close>, which the tracker satisfies.
  \<^item> \<open>Supervision\<close>: \<open>internal/runtime/exec.go\<close> and the process side of \<open>Destroy\<close>. The record \<open>node\<close> is the tracker with its processes on an
    explicit heap; the critical sections of callers and monitors and the exits of processes are actions. \<open>Supervision_Invariant\<close>: the
    invariant of every interleaving and what loading establishes. \<open>Supervision_Promises\<close>: truthful statuses and the promises.
  \<^item> \<open>Journal\<close>, \<open>Journal_Promises\<close>: \<open>internal/journal/journal.go\<close>, the durable journal of the executor's multi-step host mutations, at
    the level of bytes. What the system calls of an append do is the argument \<open>append_io\<close>.

  \<^item> \<open>Net_Addr\<close>: what the Gateway uses of \<open>net\<close>, \<open>net/netip\<close> and \<open>net/url\<close>. \<open>Tls_Hello\<close>: \<open>internal/gateway/tlshello.go\<close> on the bytes of
    the records; the reader is the bytes it delivers. \<open>Tls_Hello_Promises\<close>: encoded messages and what reading them gives.
  \<^item> \<open>Egress\<close>: \<open>internal/gateway/egress.go\<close>, \<open>address_policy.go\<close> and, on the part of \<open>Server\<close> that egress reads, \<open>setActive\<close> and
    \<open>unregister\<close> of \<open>server.go\<close>. The record \<open>Server\<close> has the requests in flight as its last field; each critical section is an action.
    The routes are those of one configuration: \<open>Reload\<close> is not modelled. \<open>Egress_Promises\<close>: the inductive relation \<open>effect\<close> says what a
    handler may do to the flights, the invariant holds of every interleaving. \<open>Egress_Denials\<close>: the limit on denials. \<open>Address_Policy\<close>: the
    address policy as ranges of numbers.

  \<^item> \<open>Interaction_Permit\<close>: \<open>internal/interactionpermit/interactionpermit.go\<close>. \<open>Gateway_Text\<close>: the identifiers, texts and zoned times that the inbox
    checks. \<open>Gateway_Inbox\<close>: \<open>internal/gateway/interactions.go\<close> and \<open>events.go\<close>, and of \<open>server.go\<close> what keeps and reloads their state
    (\<open>persistLocked\<close>, \<open>loadExisting\<close>, \<open>register\<close>, \<open>setActive\<close>, \<open>unregister\<close>). A start checks the version of the state file, the number of its grants, the
    grants as far as they are modelled, the events and the interactions (\<open>state_accepted\<close>). The record \<open>Inbox\<close> is the part of \<open>Server\<close> they use and the state
    file; a write of the file succeeds, fails, or fails after the file was replaced (\<open>persist\<close>), and a restart may come after any handler. The clock
    is an argument that is read as often as the code reads it. \<open>Inbox_Protocol\<close>: the checks of \<open>internal/controlprotocol\<close> for what a node
    publishes and the batching of \<open>executoruplink/poller.go\<close>.
  \<^item> \<open>Inbox_Invariant\<close>: the contract \<open>outbox\<close> of a bounded list of retained records as a locale, which events and interactions interpret.
    \<open>Inbox_Steps\<close>: the inductive relation \<open>attempt\<close>, what a handler may try. \<open>Inbox_Reached\<close>: the invariant of memory and file. \<open>Inbox_History\<close>: what
    a run keeps. \<open>Inbox_Delivery\<close>: answers and batches. \<open>Inbox_Questions\<close>: the digest of a question. \<open>Inbox_Demo\<close>: the concrete Gateway of
    the witnesses. \<open>Inbox_Promises\<close>: the promises.

  \<^bold>\<open>What the theorems show.\<close>
  \<^item> Envelopes and permits: the signed encoding is unambiguous, verification accepts exactly the authentic envelopes of the expected
    type, what is signed is accepted and comes back unchanged, and every accepted permit is canonical, in force, is what the signed
    payload says member by member, and carries the bindings and approvals its version demands. The strict decoder accepts exactly the
    conforming documents.
  \<^item> Ledger, while it is open: a task is authorized at most once, an authorized call can always be closed, tenants cannot take
    each other's bytes (they do share the number of tenants, task digests and run owners), allowances are not refunded, every operation
    makes the move of the abstract life cycle of calls, and after an ambiguous write nothing changes any more.
  \<^item> Ledger, across restarts: after unambiguous writes of events that the reader accepts, opening a ledger that was created new gives the same handle
    back, and a crash gives the handle before or after the operation or is reported (the writer accepts some events that the reader refuses, which one theorem
    shows); the head pins the whole history, and any file that opens satisfies the invariant.
  \<^item> Evidence: what a verified ledger selects for a finished task is accepted by the portable verifier, which accepts nothing but closed,
    signed life cycles of that task.
  \<^item> Queue: bounded, without loss, repetition or reordering, and no wake-up is lost under any interleaving.
  \<^item> Tracker and dispatcher: the indexes agree and a failed operation changes nothing, a restart restores every instance of a tracker that executes no
    processes, a command is dropped exactly when it is superseded and answered exactly once otherwise, unless its reference makes the parser panic, and on such a tracker
    executing a command twice, while persisting works, is executing it once.
  \<^item> Processes: under every interleaving no live child is forgotten; a running status is true once the monitors have caught up, provided
    that starts and destroys persist (two concrete runs show why this is needed); after a restart only the recorded process is adopted.
  \<^item> Journal: the record format is exact, opening the file again after complete appends gives the journal as it was, an interrupted append is detected, and what
    happens after an append whose sync failed.
  \<^item> Egress: under every interleaving a connection is open only to what a grant that was active when the request arrived, its route, the address policy and the server name
    allow, after it was recorded; a revoked request is cancelled and connects no more; slots are neither leaked nor exceeded; denials are
    rate limited; the audit log has the bytes that were forwarded. The address policy is equivalent to explicit ranges, and the inspection
    of a ClientHello gives exactly the one host name that its server name extension encodes, however it is cut into at most eight records.
  \<^item> Inbox: across failed writes, crashes and restarts a response is shown only if an authority of the active grant signed it for exactly that
    question, and is then shown for good; a signed answer that comes in time is accepted; the state file can be loaded while it has
    at most 4096 grants (\<open>register_overflows\<close> shows what the next one does); accepted events are held until Control
    acknowledges them; what is accepted passes the checks of Control if its names do
    (\<open>refused_name_blocks\<close> shows what happens otherwise); the digest of a question determines it. One theorem shows that
    the quota of a grant is never given back.

  \<^bold>\<open>Bounds and fuel.\<close> All functions are total; the JSON parser and the decoders recurse on the remaining input or on a
  nesting bound that the source has (\<open>maxJSONDepth\<close>), and no fuel is left over as a parameter. Sizes and charges that the code keeps in \<open>int64\<close>
  are \<open>int\<close> where a preceding check bounds them far below \<open>2^63\<close>, and \<open>64 word\<close> where the code compares or increments an
  untrusted \<open>uint64\<close> (epochs, sequences, generations).

  \<^bold>\<open>Not modelled.\<close> Ed25519, SHA-256 and the file system, which are parameters or arguments; logging and metrics; whether a process is suspended, and
  the length of grace periods; sockets, deadlines and the bytes of a tunnel, of which only the number is an argument; the encoding, mode and size of the Gateway's state file; the routes,
  services, connectors, action authorities and credentials of a grant; the other HTTP services, the executor, the control plane and its store, storage backends and command line tools, whose logic is interleaved with I/O.
  The iteration order of Go maps is fixed as that of an association list where it only decides which of several errors is reported.
\<close>

end
